(* ===== verification/Prelude.thy ===== *)
theory Prelude
  imports Main "HOL-Library.Char_ord" "HOL-Library.List_Lexorder"
begin

section \<open>Shared vocabulary of the development\<close>

text \<open>
  What every component shares: result values for the exceptions the code raises, text as the
  UTF-8 bytes of a Python \<open>str\<close>, instants as integers, dictionaries as association lists,
  the distinct sorted lists that \<open>sorted(set(xs))\<close> builds, and two locales for step systems
  and their invariants.
\<close>

subsection \<open>Named collections\<close>

named_theorems store_simps \<open>rewrite rules for the relational store operations\<close>
named_theorems guard_defs \<open>definitions of the guards of the transactions\<close>

subsection \<open>Text, instants, results\<close>

text \<open>
  A Python \<open>str\<close> is kept as its UTF-8 bytes, so string literals, digests and JSON text have one
  type; \<open>str_len\<close> counts code points, as Python's \<open>len\<close> does (continuation bytes are the ones
  whose two top bits are 10).  An aware \<open>datetime\<close> is its instant in microseconds since the
  epoch: comparison, equality, subtraction and \<open>astimezone(UTC)\<close> depend on nothing else.
  A naive one has no instant.
\<close>

type_synonym text_bytes = string
type_synonym instant = int

datatype py_datetime = Naive int | Aware instant

definition str_len :: "text_bytes \<Rightarrow> nat" where
  "str_len s = length (filter (\<lambda>c. \<not> (128 \<le> (of_char c :: nat) \<and> (of_char c :: nat) < 192)) s)"

definition is_ascii :: "text_bytes \<Rightarrow> bool" where
  "is_ascii s \<longleftrightarrow> list_all (\<lambda>c. (of_char c :: nat) < 128) s"

definition microseconds_per_second :: int where
  "microseconds_per_second = 1000000"

definition seconds :: "int \<Rightarrow> instant" where
  "seconds n = n * microseconds_per_second"

definition hours :: "int \<Rightarrow> instant" where
  "hours n = seconds (n * 3600)"

definition days :: "int \<Rightarrow> instant" where
  "days n = hours (n * 24)"

lemma seconds_hours_days [simp]:
  "seconds n = n * 1000000" "hours n = n * 3600000000" "days n = n * 86400000000"
  by (simp_all add: seconds_def hours_def days_def microseconds_per_second_def)

subsection \<open>Character classes\<close>

definition char_in :: "nat \<Rightarrow> nat \<Rightarrow> char \<Rightarrow> bool" where
  "char_in lo hi c \<longleftrightarrow> lo \<le> (of_char c :: nat) \<and> (of_char c :: nat) \<le> hi"

definition is_digit :: "char \<Rightarrow> bool" where
  "is_digit c \<longleftrightarrow> char_in 48 57 c"

definition is_alpha :: "char \<Rightarrow> bool" where
  "is_alpha c \<longleftrightarrow> char_in 65 90 c \<or> char_in 97 122 c"

definition is_alnum :: "char \<Rightarrow> bool" where
  "is_alnum c \<longleftrightarrow> is_digit c \<or> is_alpha c"

definition is_hex_digit :: "char \<Rightarrow> bool" where
  "is_hex_digit c \<longleftrightarrow> is_digit c \<or> char_in 97 102 c"

definition hex64 :: "text_bytes \<Rightarrow> bool" where
  "hex64 s \<longleftrightarrow> length s = 64 \<and> list_all is_hex_digit s"

subsection \<open>Dictionaries and sorted sets\<close>

text \<open>A JSON object or \<open>dict\<close> is an association list; equality of dicts ignores the order.\<close>

definition dict_keys :: "('k \<times> 'v) list \<Rightarrow> 'k list" where
  "dict_keys d = map fst d"

definition dict_eq :: "('k \<times> 'v) list \<Rightarrow> ('k \<times> 'v) list \<Rightarrow> bool" where
  "dict_eq d e \<longleftrightarrow> list_all (\<lambda>k. map_of d k = map_of e k) (dict_keys d @ dict_keys e)"

lemma dict_eq_iff: "dict_eq d e \<longleftrightarrow> map_of d = map_of e"
proof
  assume eq: "dict_eq d e"
  show "map_of d = map_of e"
  proof
    fix k
    show "map_of d k = map_of e k"
    proof (cases "k \<in> set (dict_keys d @ dict_keys e)")
      case True
      then show ?thesis using eq by (auto simp: dict_eq_def list_all_iff)
    next
      case False
      then have "map_of d k = None" "map_of e k = None"
        by (auto simp: dict_keys_def map_of_eq_None_iff)
      then show ?thesis by simp
    qed
  qed
qed (simp add: dict_eq_def list_all_iff)

text \<open>\<open>sorted(set(xs))\<close>.\<close>

definition sorted_set :: "'a::linorder list \<Rightarrow> 'a list" where
  "sorted_set xs = sort (remdups xs)"

lemma set_sorted_set [simp]: "set (sorted_set xs) = set xs"
  by (simp add: sorted_set_def)

lemma sorted_sorted_set [simp]: "sorted (sorted_set xs)"
  by (simp add: sorted_set_def)

lemma distinct_sorted_set [simp]: "distinct (sorted_set xs)"
  by (simp add: sorted_set_def)

lemma sorted_set_Nil_iff [simp]: "sorted_set xs = [] \<longleftrightarrow> xs = []"
  by (metis set_sorted_set set_empty)

lemma sorted_set_cong: "set xs = set ys \<Longrightarrow> sorted_set xs = sorted_set ys"
  by (metis set_sorted_set sorted_sorted_set distinct_sorted_set sorted_distinct_set_unique)

lemma sorted_set_idem: "sorted xs \<Longrightarrow> distinct xs \<Longrightarrow> sorted_set xs = xs"
  by (metis set_sorted_set sorted_sorted_set distinct_sorted_set sorted_distinct_set_unique)

lemma map_filter_set: "set (List.map_filter f xs) = {y. \<exists>x\<in>set xs. f x = Some y}"
  by (induction xs) (auto simp: List.map_filter_simps split: option.splits)

definition same_set :: "'a list \<Rightarrow> 'a list \<Rightarrow> bool" where
  "same_set xs ys \<longleftrightarrow> list_all (\<lambda>x. x \<in> set ys) xs \<and> list_all (\<lambda>y. y \<in> set xs) ys"

lemma same_set_iff [simp]: "same_set xs ys \<longleftrightarrow> set xs = set ys"
  by (auto simp: same_set_def list_all_iff)

subsection \<open>Step systems and invariants\<close>

text \<open>
  A component with interleaved transactions is a start predicate and a step relation.  The
  locales carry the induction over runs once; every component interprets them with its own steps.
\<close>

locale step_system =
  fixes start :: "'s \<Rightarrow> bool"
    and step :: "'s \<Rightarrow> 's \<Rightarrow> bool"
begin

definition reachable :: "'s \<Rightarrow> bool" where
  "reachable t \<longleftrightarrow> (\<exists>s. start s \<and> step\<^sup>*\<^sup>* s t)"

lemma reachable_start: "start s \<Longrightarrow> reachable s"
  by (auto simp: reachable_def)

lemma reachable_step: "reachable s \<Longrightarrow> step s t \<Longrightarrow> reachable t"
  by (auto simp: reachable_def intro: rtranclp.rtrancl_into_rtrancl)

end

locale step_invariant = step_system start step
  for start :: "'s \<Rightarrow> bool" and step :: "'s \<Rightarrow> 's \<Rightarrow> bool" +
  fixes inv :: "'s \<Rightarrow> bool"
  assumes inv_start: "start s \<Longrightarrow> inv s"
    and inv_step: "inv s \<Longrightarrow> step s t \<Longrightarrow> inv t"
begin

lemma inv_steps: "step\<^sup>*\<^sup>* s t \<Longrightarrow> inv s \<Longrightarrow> inv t"
  by (induction rule: rtranclp_induct) (auto intro: inv_step)

lemma inv_reachable: "reachable s \<Longrightarrow> inv s"
  by (auto simp: reachable_def intro: inv_steps inv_start)

text \<open>A relation between states that is a preorder and that every step respects holds of every run.\<close>

lemma steps_preorder:
  assumes run: "step\<^sup>*\<^sup>* s t" and inv: "inv s"
    and refl: "\<And>a. R a a" and trans: "\<And>a b c. R a b \<Longrightarrow> R b c \<Longrightarrow> R a c"
    and one: "\<And>a b. inv a \<Longrightarrow> step a b \<Longrightarrow> R a b"
  shows "R s t"
  using run
proof (induction rule: rtranclp_induct)
  case base
  show ?case by (rule refl)
next
  case (step b c)
  from \<open>step\<^sup>*\<^sup>* s b\<close> inv have "inv b" by (rule inv_steps)
  with step.hyps(2) have "R b c" by (blast intro: one)
  with step.IH show ?case by (rule trans)
qed

end

end
