(* ===== verification/Canonical_Json.thy ===== *)
theory Canonical_Json
  imports Prelude
begin

section \<open>The canonical JSON text that digests and artifacts are made of\<close>

text \<open>
  \<open>json.dumps(value, ensure_ascii=False, sort_keys=True, separators=(",", ":"))\<close> over text,
  integers, booleans, null, arrays and objects.  Text is escaped as Python does it: the quote,
  the backslash, the five named controls and \<open>u00XX\<close> for the other controls; every other byte
  of the UTF-8 text is copied.  SHA-256 itself stays a function argument of the definitions that
  hash: nothing proved here depends on which hash function it is.
\<close>

datatype json =
    JNull
  | JBool bool
  | JInt int
  | JStr text_bytes
  | JArr "json list"
  | JObj "(text_bytes \<times> json) list"

subsection \<open>Decimal digits\<close>

definition digit_char :: "nat \<Rightarrow> char" where
  "digit_char d = char_of (48 + d)"

fun show_nat :: "nat \<Rightarrow> text_bytes" where
  "show_nat n = (if n < 10 then [digit_char n] else show_nat (n div 10) @ [digit_char (n mod 10)])"

declare show_nat.simps [simp del]

definition show_int :: "int \<Rightarrow> text_bytes" where
  "show_int i = (if i < 0 then ''-'' @ show_nat (nat (- i)) else show_nat (nat i))"

definition digit_value :: "char \<Rightarrow> nat" where
  "digit_value c = of_char c - 48"

definition read_nat :: "text_bytes \<Rightarrow> nat" where
  "read_nat s = foldl (\<lambda>n c. 10 * n + digit_value c) 0 s"

lemma digit_value_char [simp]: "d < 10 \<Longrightarrow> digit_value (digit_char d) = d"
  by (simp add: digit_value_def digit_char_def)

lemma is_digit_char [simp]: "d < 10 \<Longrightarrow> is_digit (digit_char d)"
  by (simp add: is_digit_def char_in_def digit_char_def)

lemma show_nat_nonempty [simp]: "show_nat n \<noteq> []"
  by (subst show_nat.simps) simp

lemma show_nat_digits: "list_all is_digit (show_nat n)"
proof (induction n rule: show_nat.induct)
  case (1 n)
  then show ?case by (subst show_nat.simps) simp
qed

lemma read_show_nat [simp]: "read_nat (show_nat n) = n"
proof (induction n rule: show_nat.induct)
  case (1 n)
  show ?case
  proof (cases "n < 10")
    case True
    then show ?thesis by (simp add: show_nat.simps [of n] read_nat_def)
  next
    case False
    with 1 have "read_nat (show_nat (n div 10)) = n div 10" by simp
    with False show ?thesis by (simp add: show_nat.simps [of n] read_nat_def)
  qed
qed

lemma show_nat_inj: "show_nat m = show_nat n \<Longrightarrow> m = n"
  by (metis read_show_nat)

subsection \<open>Quoting text\<close>

definition hex_char :: "nat \<Rightarrow> char" where
  "hex_char d = (if d < 10 then char_of (48 + d) else char_of (87 + d))"

definition escape :: "char \<Rightarrow> text_bytes" where
  "escape c =
     (let n = of_char c :: nat in
      if n = 34 \<or> n = 92 then [CHR 0x5C, c]
      else if n = 8 then [CHR 0x5C, CHR ''b'']
      else if n = 12 then [CHR 0x5C, CHR ''f'']
      else if n = 10 then [CHR 0x5C, CHR ''n'']
      else if n = 13 then [CHR 0x5C, CHR ''r'']
      else if n = 9 then [CHR 0x5C, CHR ''t'']
      else if n < 32 then [CHR 0x5C, CHR ''u'', CHR ''0'', CHR ''0'', hex_char (n div 16), hex_char (n mod 16)]
      else [c])"

definition quote :: "text_bytes \<Rightarrow> text_bytes" where
  "quote s = CHR 0x22 # concat (map escape s) @ [CHR 0x22]"

text \<open>\<open>unquote\<close> reads the escaped body up to its closing quote; it is the reader used in proofs.\<close>

definition hex_value :: "char \<Rightarrow> nat" where
  "hex_value c = (if is_digit c then of_char c - 48 else of_char c - 87)"

definition named_control :: "char \<Rightarrow> char" where
  "named_control c =
     (if c = CHR ''b'' then CHR 0x08 else if c = CHR ''f'' then CHR 0x0C
      else if c = CHR ''n'' then CHR 0x0A else if c = CHR ''r'' then CHR 0x0D
      else if c = CHR ''t'' then CHR 0x09 else c)"

fun unquote :: "text_bytes \<Rightarrow> (text_bytes \<times> text_bytes) option" where
  "unquote [] = None"
| "unquote (c # r) =
     (if c = CHR 0x22 then Some ([], r)
      else if c = CHR 0x5C then
        (case r of
           [] \<Rightarrow> None
         | d # r' \<Rightarrow>
             if d = CHR ''u'' then
               (case r' of
                  _ # _ # h # l # r'' \<Rightarrow>
                    map_option (\<lambda>(s, u). (char_of (16 * hex_value h + hex_value l) # s, u)) (unquote r'')
                | _ \<Rightarrow> None)
             else map_option (\<lambda>(s, u). (named_control d # s, u)) (unquote r'))
      else map_option (\<lambda>(s, u). (c # s, u)) (unquote r))"

lemma char_code_eq: "(of_char c :: nat) = of_char d \<Longrightarrow> c = d"
  by simp

lemma char_codes:
  "(of_char c :: nat) = 8 \<Longrightarrow> c = CHR 0x08" "(of_char c :: nat) = 9 \<Longrightarrow> c = CHR 0x09"
  "(of_char c :: nat) = 10 \<Longrightarrow> c = CHR 0x0A" "(of_char c :: nat) = 12 \<Longrightarrow> c = CHR 0x0C"
  "(of_char c :: nat) = 13 \<Longrightarrow> c = CHR 0x0D" "(of_char c :: nat) = 34 \<Longrightarrow> c = CHR 0x22"
  "(of_char c :: nat) = 92 \<Longrightarrow> c = CHR 0x5C"
  by (rule char_code_eq, simp)+

lemma of_hex_char: "d < 16 \<Longrightarrow> (of_char (hex_char d) :: nat) = (if d < 10 then 48 + d else 87 + d)"
  by (simp add: hex_char_def)

lemma hex_value_hex_char: "d < 16 \<Longrightarrow> hex_value (hex_char d) = d"
  by (simp add: hex_value_def is_digit_def char_in_def of_hex_char)

lemma escape_control:
  assumes "(of_char c :: nat) < 32" and "of_char c \<notin> {8, 9, 10, 12, 13 :: nat}"
  shows "escape c = [CHR 0x5C, CHR ''u'', CHR ''0'', CHR ''0'',
    hex_char (of_char c div 16), hex_char (of_char c mod 16)]"
  using assms by (simp add: escape_def Let_def)

lemma escape_plain:
  assumes "\<not> (of_char c :: nat) < 32" and "of_char c \<notin> {34, 92 :: nat}"
  shows "escape c = [c] \<and> c \<noteq> CHR 0x22 \<and> c \<noteq> CHR 0x5C \<and> c \<noteq> CHR 0x0A \<and> c \<noteq> CHR 0x0D"
  using assms by (auto simp: escape_def)

lemma unquote_escape: "unquote (escape c @ r) = map_option (\<lambda>(s, u). (c # s, u)) (unquote r)"
proof -
  let ?n = "of_char c :: nat"
  consider "?n = 8" | "?n = 9" | "?n = 10" | "?n = 12" | "?n = 13" | "?n = 34" | "?n = 92"
    | (control) "?n < 32" "?n \<notin> {8, 9, 10, 12, 13}" | (plain) "\<not> ?n < 32" "?n \<notin> {34, 92}"
    by auto
  then show ?thesis
  proof cases
    case control
    have "16 * hex_value (hex_char (?n div 16)) + hex_value (hex_char (?n mod 16)) = ?n"
      using control(1) by (simp add: hex_value_hex_char)
    then have "char_of (16 * hex_value (hex_char (?n div 16)) + hex_value (hex_char (?n mod 16))) = c"
      by simp
    with escape_control [OF control] show ?thesis by simp
  next
    case plain
    with escape_plain [OF plain] show ?thesis by simp
  qed (auto dest!: char_codes simp: escape_def named_control_def)
qed

lemma unquote_body: "unquote (concat (map escape s) @ CHR 0x22 # r) = Some (s, r)"
  by (induction s) (simp_all add: unquote_escape)

lemma quote_prefix:
  assumes "quote a @ u = quote b @ v"
  shows "a = b \<and> u = v"
proof -
  from assms have "concat (map escape a) @ CHR 0x22 # u = concat (map escape b) @ CHR 0x22 # v"
    by (simp add: quote_def)
  then have "Some (a, u) = Some (b, v)"
    by (metis unquote_body)
  then show ?thesis by simp
qed

subsection \<open>Encoding\<close>

fun comma_sep :: "text_bytes list \<Rightarrow> text_bytes" where
  "comma_sep [] = []"
| "comma_sep [x] = x"
| "comma_sep (x # y # ys) = x @ '','' @ comma_sep (y # ys)"

fun encode :: "json \<Rightarrow> text_bytes" where
  "encode JNull = ''null''"
| "encode (JBool b) = (if b then ''true'' else ''false'')"
| "encode (JInt i) = show_int i"
| "encode (JStr s) = quote s"
| "encode (JArr xs) = ''['' @ comma_sep (map encode xs) @ '']''"
| "encode (JObj kvs) =
     ''{'' @ comma_sep (map snd (sort_key fst
        (map (\<lambda>(k, v). (k, quote k @ '':'' @ encode v)) kvs))) @ ''}''"

definition json_strings :: "text_bytes list \<Rightarrow> json" where
  "json_strings xs = JArr (map JStr xs)"

definition json_option :: "('a \<Rightarrow> json) \<Rightarrow> 'a option \<Rightarrow> json" where
  "json_option f x = (case x of None \<Rightarrow> JNull | Some v \<Rightarrow> f v)"

text \<open>
  \<open>ensure_ascii=True\<close>, the default of \<open>json.dumps\<close>: every code point from DEL on becomes \<open>uXXXX\<close>
  (a surrogate pair beyond the basic plane).  The escape decodes the UTF-8 sequences of the text.
\<close>

definition u_escape :: "nat \<Rightarrow> text_bytes" where
  "u_escape n = CHR 0x5C # CHR ''u'' # [hex_char (n div 4096 mod 16), hex_char (n div 256 mod 16),
     hex_char (n div 16 mod 16), hex_char (n mod 16)]"

definition code_escape :: "nat \<Rightarrow> text_bytes" where
  "code_escape n =
     (if n < 65536 then u_escape n
      else u_escape (55296 + (n - 65536) div 1024) @ u_escape (56320 + (n - 65536) mod 1024))"

definition continuation :: "text_bytes \<Rightarrow> nat \<Rightarrow> nat" where
  "continuation s i = (if i < length s then of_char (s ! i) mod 64 else 0)"

fun ascii_escape :: "text_bytes \<Rightarrow> text_bytes" where
  "ascii_escape [] = []"
| "ascii_escape (c # s) =
     (let a = of_char c :: nat in
      if a < 127 then c # ascii_escape s
      else if a < 192 then code_escape a @ ascii_escape s
      else if a < 224 then code_escape (a mod 32 * 64 + continuation s 0) @ ascii_escape (drop 1 s)
      else if a < 240 then
        code_escape (a mod 16 * 4096 + continuation s 0 * 64 + continuation s 1) @ ascii_escape (drop 2 s)
      else code_escape (a mod 8 * 262144 + continuation s 0 * 4096 + continuation s 1 * 64 + continuation s 2)
             @ ascii_escape (drop 3 s))"

definition encode_ascii :: "json \<Rightarrow> text_bytes" where
  "encode_ascii v = ascii_escape (encode v)"

lemma ascii_escape_id: "list_all (\<lambda>c. (of_char c :: nat) < 127) s \<Longrightarrow> ascii_escape s = s"
  by (induction s) (auto simp: Let_def)

text \<open>The sha256 hex digest of the canonical text (\<open>_digest\<close> of the export code).\<close>

definition json_digest :: "(text_bytes \<Rightarrow> text_bytes) \<Rightarrow> json \<Rightarrow> text_bytes" where
  "json_digest sha256 v = sha256 (encode v)"

lemma quote_last_inj: "quote x @ '']'' = quote y @ '']'' \<Longrightarrow> x = y"
  by (drule quote_prefix) simp

lemma quote_last_neq: "quote x @ '']'' \<noteq> quote y @ '','' @ z"
  by (auto dest: quote_prefix)

lemma comma_sep_quotes_inj:
  "comma_sep (map quote xs) @ '']'' = comma_sep (map quote ys) @ '']'' \<Longrightarrow> xs = ys"
proof (induction xs arbitrary: ys rule: comma_sep.induct)
  case 1
  then show ?case by (cases ys rule: comma_sep.cases) (auto simp: quote_def)
next
  case (2 x)
  show ?case
  proof (cases ys rule: comma_sep.cases)
    case 1
    with "2.prems" show ?thesis by (simp add: quote_def)
  next
    case (2 x')
    with "2.prems" show ?thesis by (simp add: quote_last_inj)
  next
    case (3 x' y' zs')
    with "2.prems" have "quote x @ '']'' = quote x' @ '','' @ comma_sep (map quote (y' # zs')) @ '']''"
      by simp
    then show ?thesis by (simp only: quote_last_neq)
  qed
next
  case (3 x y zs)
  show ?case
  proof (cases ys rule: comma_sep.cases)
    case 1
    with "3.prems" show ?thesis by (simp add: quote_def)
  next
    case (2 x')
    with "3.prems" have "quote x' @ '']'' = quote x @ '','' @ comma_sep (map quote (y # zs)) @ '']''"
      by simp
    then show ?thesis by (simp only: quote_last_neq)
  next
    case (3 x' y' zs')
    with "3.prems" have "quote x @ ('','' @ comma_sep (map quote (y # zs)) @ '']'') =
        quote x' @ ('','' @ comma_sep (map quote (y' # zs')) @ '']'')"
      by simp
    from quote_prefix [OF this] have "x = x'"
      and "comma_sep (map quote (y # zs)) @ '']'' = comma_sep (map quote (y' # zs')) @ '']''"
      by simp_all
    with "3.IH" 3 show ?thesis by blast
  qed
qed

lemma encode_strings: "encode (json_strings xs) = ''['' @ comma_sep (map quote xs) @ '']''"
  by (simp add: json_strings_def comp_def)

lemma encode_strings_inj: "encode (json_strings xs) = encode (json_strings ys) \<Longrightarrow> xs = ys"
  by (rule comma_sep_quotes_inj) (simp add: encode_strings)

subsection \<open>Encoded text holds no line break\<close>

definition no_newline :: "text_bytes \<Rightarrow> bool" where
  "no_newline s \<longleftrightarrow> CHR 0x0A \<notin> set s \<and> CHR 0x0D \<notin> set s"

lemma no_newline_simps [simp]:
  "no_newline []"
  "no_newline (c # s) \<longleftrightarrow> c \<noteq> CHR 0x0A \<and> c \<noteq> CHR 0x0D \<and> no_newline s"
  "no_newline (s @ t) \<longleftrightarrow> no_newline s \<and> no_newline t"
  by (auto simp: no_newline_def)

lemma no_newline_digits: "list_all is_digit s \<Longrightarrow> no_newline s"
  by (induction s) (auto simp: is_digit_def char_in_def)

lemma no_newline_show_int: "no_newline (show_int i)"
  by (simp add: show_int_def no_newline_digits show_nat_digits)

lemma no_newline_hex_char: "d < 16 \<Longrightarrow> hex_char d \<noteq> CHR 0x0A \<and> hex_char d \<noteq> CHR 0x0D"
  using of_hex_char [of d] by (auto split: if_splits)

lemma no_newline_escape: "no_newline (escape c)"
proof -
  let ?n = "of_char c :: nat"
  consider "?n = 8" | "?n = 9" | "?n = 10" | "?n = 12" | "?n = 13" | "?n = 34" | "?n = 92"
    | (control) "?n < 32" "?n \<notin> {8, 9, 10, 12, 13}" | (plain) "\<not> ?n < 32" "?n \<notin> {34, 92}"
    by auto
  then show ?thesis
  proof cases
    case control
    then have "?n div 16 < 16" by simp
    with escape_control [OF control] no_newline_hex_char [of "?n div 16"]
      no_newline_hex_char [of "?n mod 16"] show ?thesis by simp
  next
    case plain
    with escape_plain [OF plain] show ?thesis by simp
  qed (auto dest!: char_codes simp: escape_def)
qed

lemma no_newline_quote: "no_newline (quote s)"
proof -
  have "no_newline (concat (map escape s))"
    by (induction s) (simp_all add: no_newline_escape)
  then show ?thesis by (simp add: quote_def)
qed

lemma no_newline_comma_sep: "\<forall>x \<in> set xs. no_newline x \<Longrightarrow> no_newline (comma_sep xs)"
  by (induction xs rule: comma_sep.induct) auto

lemma no_newline_encode: "no_newline (encode j)"
proof (induction j rule: encode.induct)
  case (5 xs)
  then show ?case by (auto intro!: no_newline_comma_sep)
next
  case (6 kvs)
  then show ?case by (auto intro!: no_newline_comma_sep simp: no_newline_quote)
qed (simp_all add: no_newline_show_int no_newline_quote)

end
