(* ===== verification/Export_Scopes.thy ===== *)
theory Export_Scopes
  imports Complex_Main Canonical_Json
begin

section \<open>Scope descriptors and their namespaces\<close>

text \<open>
  The four frozen descriptors a collection declares before it asks a source: the KMA grid
  (export_heads.py), the mid-term region (export_mid.py), the external location
  (export_external.py) and the SDK location (export_sdk.py), with the conditions of their
  validators, the source scope they own and the head namespace their canonical JSON hashes to.
  A finite float is a rational; \<open>float_json\<close>, the JSON number Python writes for it, and
  \<open>sha256\<close> are arguments.
\<close>

subsection \<open>Source scopes\<close>

definition source_scope_key ::
  "(text_bytes \<Rightarrow> text_bytes) \<Rightarrow> text_bytes \<Rightarrow> text_bytes \<Rightarrow> text_bytes \<Rightarrow> text_bytes \<Rightarrow> text_bytes" where
  "source_scope_key sha256 provider dataset entity_type entity_id =
     sha256 (encode (json_strings [provider, dataset, entity_type, entity_id]))"

subsection \<open>The KMA grid\<close>

record grid_scope =
  gs_dataset :: text_bytes
  gs_entity_type :: text_bytes
  gs_entity_id :: text_bytes
  gs_style :: text_bytes
  gs_nx :: int
  gs_ny :: int
  gs_locations :: "text_bytes list"
  gs_normalizer :: text_bytes
  gs_winner :: text_bytes
  gs_coverage :: text_bytes

definition len_between :: "nat \<Rightarrow> nat \<Rightarrow> text_bytes \<Rightarrow> bool" where
  "len_between lo hi s \<longleftrightarrow> lo \<le> str_len s \<and> str_len s \<le> hi"

definition location_ids_ok :: "nat \<Rightarrow> text_bytes list \<Rightarrow> bool" where
  "location_ids_ok most ids \<longleftrightarrow> 1 \<le> length ids \<and> length ids \<le> most
     \<and> sorted_set ids = ids \<and> list_all (\<lambda>k. k \<noteq> [] \<and> \<not> str_len k > 120) ids"

definition GRID_STYLES :: "(text_bytes \<times> text_bytes) list" where
  "GRID_STYLES =
     [(''kma_ultra_short_nowcast'', ''nowcast''), (''kma_ultra_short_forecast'', ''ultra_short''),
      (''kma_short_forecast'', ''short'')]"

definition grid_scope_ok :: "grid_scope \<Rightarrow> bool" where
  "grid_scope_ok d \<longleftrightarrow>
     len_between 1 120 (gs_entity_type d) \<and> len_between 1 240 (gs_entity_id d)
     \<and> 1 \<le> gs_nx d \<and> gs_nx d \<le> 300 \<and> 1 \<le> gs_ny d \<and> gs_ny d \<le> 300
     \<and> len_between 1 64 (gs_normalizer d) \<and> len_between 1 64 (gs_winner d)
     \<and> gs_coverage d \<in> {''kma-grid-nonempty-v1'', ''kma-grid-nowcast-v1'', ''kma-grid-forecast-v1''}
     \<and> map_of GRID_STYLES (gs_dataset d) = Some (gs_style d)
     \<and> (gs_coverage d = ''kma-grid-forecast-v1'') = (gs_style d \<noteq> ''nowcast'')
     \<and> \<not> (gs_style d \<noteq> ''nowcast'' \<and> length (gs_locations d) > 50)
     \<and> location_ids_ok 1000 (gs_locations d)"

subsection \<open>The mid-term region\<close>

text \<open>\<open>s.strip() == s\<close>: no Unicode white space at either end.\<close>

definition white_space :: "text_bytes list" where
  "white_space =
     map (\<lambda>n. [char_of n]) ([9, 10, 11, 12, 13, 28, 29, 30, 31, 32] :: nat list)
     @ map (\<lambda>bs. map char_of bs)
         ([[194, 133], [194, 160], [225, 154, 128], [226, 128, 168], [226, 128, 169], [226, 128, 175],
           [226, 129, 159], [227, 128, 128]] @ map (\<lambda>n. [226, 128, 128 + n]) [0..<11] :: nat list list)"

definition is_stripped :: "text_bytes \<Rightarrow> bool" where
  "is_stripped s \<longleftrightarrow>
     list_all (\<lambda>w. take (length w) s \<noteq> w \<and> take (length w) (rev s) \<noteq> rev w) white_space"

record mid_scope =
  ms_entity_id :: text_bytes
  ms_part :: text_bytes
  ms_region :: text_bytes
  ms_locations :: "text_bytes list"
  ms_normalizer :: text_bytes

definition mid_scope_ok :: "mid_scope \<Rightarrow> bool" where
  "mid_scope_ok d \<longleftrightarrow>
     ms_part d \<in> {''land'', ''temperature''} \<and> len_between 1 120 (ms_entity_id d)
     \<and> len_between 1 32 (ms_region d) \<and> is_stripped (ms_region d)
     \<and> ms_entity_id d = ''mid-'' @ ms_part d @ '':'' @ ms_region d
     \<and> ms_normalizer d = ''kma-mid-'' @ ms_part d @ ''-v1''
     \<and> location_ids_ok 1000 (ms_locations d)"

subsection \<open>External and SDK locations\<close>

record retrieval_scope =
  rs_provider :: text_bytes
  rs_dataset :: text_bytes
  rs_entity_id :: text_bytes
  rs_style :: text_bytes
  rs_locations :: "text_bytes list"
  rs_latitude :: rat
  rs_longitude :: rat
  rs_normalizer :: text_bytes

definition coordinates_ok :: "rat \<Rightarrow> rat \<Rightarrow> bool" where
  "coordinates_ok latitude longitude \<longleftrightarrow>
     - 90 \<le> latitude \<and> latitude \<le> 90 \<and> - 180 \<le> longitude \<and> longitude \<le> 180"

definition retrieval_scope_ok :: "retrieval_scope \<Rightarrow> bool" where
  "retrieval_scope_ok d \<longleftrightarrow>
     rs_provider d \<in> {''open_meteo'', ''weatherapi'', ''openweathermap''}
     \<and> rs_style d \<in> {''observed'', ''short''}
     \<and> len_between 1 120 (rs_dataset d) \<and> len_between 1 120 (rs_entity_id d)
     \<and> coordinates_ok (rs_latitude d) (rs_longitude d) \<and> len_between 1 64 (rs_normalizer d)
     \<and> rs_locations d = [rs_entity_id d]
     \<and> rs_dataset d = rs_provider d @ ''_'' @ (if rs_style d = ''observed'' then ''current'' else ''forecast'')
     \<and> rs_normalizer d = rs_provider d @ ''-v1''"

record sdk_scope =
  sd_provider :: text_bytes
  sd_dataset :: text_bytes
  sd_entity_type :: text_bytes
  sd_entity_id :: text_bytes
  sd_style :: text_bytes
  sd_locations :: "text_bytes list"
  sd_latitude :: rat
  sd_longitude :: rat
  sd_station_id :: text_bytes
  sd_station_name :: text_bytes
  sd_sido :: "text_bytes option"

definition SDK_DATASETS :: "(text_bytes \<times> text_bytes \<times> text_bytes \<times> text_bytes) list" where
  "SDK_DATASETS =
     [(''airkorea_realtime_measurement'', ''python-airkorea-api'', ''air_quality'', ''observed''),
      (''krforest_mountain_weather'', ''python-krforest-api'', ''mountain_weather'', ''observed''),
      (''krforest_dust'', ''python-krforest-api'', ''air_quality'', ''observed''),
      (''krex_restarea_weather'', ''python-krex-api'', ''highway_weather'', ''observed''),
      (''khoa_beach_index'', ''python-khoa-api'', ''marine_weather'', ''short'')]"

definition sdk_scope_ok :: "sdk_scope \<Rightarrow> bool" where
  "sdk_scope_ok d \<longleftrightarrow>
     len_between 1 120 (sd_dataset d) \<and> len_between 1 120 (sd_entity_id d)
     \<and> coordinates_ok (sd_latitude d) (sd_longitude d)
     \<and> len_between 1 120 (sd_station_id d) \<and> len_between 1 200 (sd_station_name d)
     \<and> (case sd_sido d of None \<Rightarrow> True | Some s \<Rightarrow> str_len s \<le> 32)
     \<and> (case map_of SDK_DATASETS (sd_dataset d) of
          None \<Rightarrow> False
        | Some (provider, domain, style) \<Rightarrow> sd_provider d = provider \<and> sd_style d = style)
     \<and> sd_locations d = [sd_entity_id d]
     \<and> sd_entity_type d =
         (if sd_provider d = ''python-airkorea-api'' then ''airkorea_station'' else ''weather_response'')"

subsection \<open>One type of descriptors\<close>

datatype descriptor =
    Grid_Scope grid_scope
  | Mid_Scope mid_scope
  | Retrieval_Scope retrieval_scope
  | Sdk_Scope sdk_scope

fun descriptor_ok :: "descriptor \<Rightarrow> bool" where
  "descriptor_ok (Grid_Scope d) = grid_scope_ok d"
| "descriptor_ok (Mid_Scope d) = mid_scope_ok d"
| "descriptor_ok (Retrieval_Scope d) = retrieval_scope_ok d"
| "descriptor_ok (Sdk_Scope d) = sdk_scope_ok d"

fun d_provider :: "descriptor \<Rightarrow> text_bytes" where
  "d_provider (Grid_Scope d) = ''python-kma-api''"
| "d_provider (Mid_Scope d) = ''python-kma-api''"
| "d_provider (Retrieval_Scope d) = rs_provider d"
| "d_provider (Sdk_Scope d) = sd_provider d"

fun d_dataset :: "descriptor \<Rightarrow> text_bytes" where
  "d_dataset (Grid_Scope d) = gs_dataset d"
| "d_dataset (Mid_Scope d) = ''kma_mid_forecast''"
| "d_dataset (Retrieval_Scope d) = rs_dataset d"
| "d_dataset (Sdk_Scope d) = sd_dataset d"

fun d_entity_type :: "descriptor \<Rightarrow> text_bytes" where
  "d_entity_type (Grid_Scope d) = gs_entity_type d"
| "d_entity_type (Sdk_Scope d) = sd_entity_type d"
| "d_entity_type _ = ''weather_response''"

fun d_entity_id :: "descriptor \<Rightarrow> text_bytes" where
  "d_entity_id (Grid_Scope d) = gs_entity_id d"
| "d_entity_id (Mid_Scope d) = ms_entity_id d"
| "d_entity_id (Retrieval_Scope d) = rs_entity_id d"
| "d_entity_id (Sdk_Scope d) = sd_entity_id d"

fun d_style :: "descriptor \<Rightarrow> text_bytes" where
  "d_style (Grid_Scope d) = gs_style d"
| "d_style (Mid_Scope d) = ''mid''"
| "d_style (Retrieval_Scope d) = rs_style d"
| "d_style (Sdk_Scope d) = sd_style d"

fun d_locations :: "descriptor \<Rightarrow> text_bytes list" where
  "d_locations (Grid_Scope d) = gs_locations d"
| "d_locations (Mid_Scope d) = ms_locations d"
| "d_locations (Retrieval_Scope d) = rs_locations d"
| "d_locations (Sdk_Scope d) = sd_locations d"

fun d_normalizer :: "descriptor \<Rightarrow> text_bytes" where
  "d_normalizer (Grid_Scope d) = gs_normalizer d"
| "d_normalizer (Mid_Scope d) = ms_normalizer d"
| "d_normalizer (Retrieval_Scope d) = rs_normalizer d"
| "d_normalizer (Sdk_Scope d) = ''kma-v1''"

fun d_winner :: "descriptor \<Rightarrow> text_bytes" where
  "d_winner (Grid_Scope d) = gs_winner d"
| "d_winner (Mid_Scope d) = ''latest-issued-mid-v1''"
| "d_winner _ = ''latest-retrieval-v1''"

fun d_coverage :: "descriptor \<Rightarrow> text_bytes" where
  "d_coverage (Grid_Scope d) = gs_coverage d"
| "d_coverage (Mid_Scope d) = ''kma-mid-region-v1''"
| "d_coverage (Retrieval_Scope d) = ''external-location-v1''"
| "d_coverage (Sdk_Scope d) = ''sdk-location-v1''"

text \<open>\<open>getattr(descriptor, "source_part", "main")\<close> and the weather domain a capture must carry.\<close>

fun d_source_part :: "descriptor \<Rightarrow> text_bytes" where
  "d_source_part (Mid_Scope d) = ms_part d"
| "d_source_part _ = ''main''"

fun sdk_domain :: "sdk_scope \<Rightarrow> text_bytes" where
  "sdk_domain d = (case map_of SDK_DATASETS (sd_dataset d) of Some (_, domain, _) \<Rightarrow> domain | None \<Rightarrow> [])"

fun d_domain :: "descriptor \<Rightarrow> text_bytes" where
  "d_domain (Sdk_Scope d) = sdk_domain d"
| "d_domain (Retrieval_Scope d) = ''weather''"
| "d_domain d = d_dataset d"

definition d_source_scope :: "(text_bytes \<Rightarrow> text_bytes) \<Rightarrow> descriptor \<Rightarrow> text_bytes" where
  "d_source_scope sha256 d =
     source_scope_key sha256 (d_provider d) (d_dataset d) (d_entity_type d) (d_entity_id d)"

text \<open>\<open>model_dump(mode="json")\<close>.\<close>

definition common_fields :: "descriptor \<Rightarrow> (text_bytes \<times> json) list" where
  "common_fields d =
     [(''provider'', JStr (d_provider d)), (''dataset_key'', JStr (d_dataset d)),
      (''entity_type'', JStr (d_entity_type d)), (''entity_id'', JStr (d_entity_id d)),
      (''forecast_style'', JStr (d_style d)), (''location_ids'', json_strings (d_locations d)),
      (''normalizer_revision'', JStr (d_normalizer d)), (''winner_policy_revision'', JStr (d_winner d)),
      (''coverage_contract'', JStr (d_coverage d))]"

fun own_fields :: "(rat \<Rightarrow> json) \<Rightarrow> descriptor \<Rightarrow> (text_bytes \<times> json) list" where
  "own_fields float_json (Grid_Scope d) = [(''nx'', JInt (gs_nx d)), (''ny'', JInt (gs_ny d))]"
| "own_fields float_json (Mid_Scope d) =
     [(''source_part'', JStr (ms_part d)), (''region_code'', JStr (ms_region d))]"
| "own_fields float_json (Retrieval_Scope d) =
     [(''latitude'', float_json (rs_latitude d)), (''longitude'', float_json (rs_longitude d))]"
| "own_fields float_json (Sdk_Scope d) =
     [(''latitude'', float_json (sd_latitude d)), (''longitude'', float_json (sd_longitude d)),
      (''station_id'', JStr (sd_station_id d)), (''station_name'', JStr (sd_station_name d)),
      (''sido_name'', json_option JStr (sd_sido d))]"

definition dump_descriptor :: "(rat \<Rightarrow> json) \<Rightarrow> descriptor \<Rightarrow> json" where
  "dump_descriptor float_json d = JObj (common_fields d @ own_fields float_json d)"

definition descriptor_namespace :: "(text_bytes \<Rightarrow> text_bytes) \<Rightarrow> (rat \<Rightarrow> json) \<Rightarrow> descriptor \<Rightarrow> text_bytes" where
  "descriptor_namespace sha256 float_json d = json_digest sha256 (dump_descriptor float_json d)"

lemma common_fields_inj:
  assumes "map_of (common_fields d @ x) = map_of (common_fields e @ y)"
  shows "d_provider d = d_provider e" "d_dataset d = d_dataset e" "d_entity_type d = d_entity_type e"
    "d_entity_id d = d_entity_id e" "d_style d = d_style e" "d_locations d = d_locations e"
    "d_normalizer d = d_normalizer e" "d_winner d = d_winner e" "d_coverage d = d_coverage e"
proof -
  have at: "map_of (common_fields d @ x) k = map_of (common_fields e @ y) k" for k
    using assms by simp
  show "d_provider d = d_provider e" "d_dataset d = d_dataset e" "d_entity_type d = d_entity_type e"
    "d_entity_id d = d_entity_id e" "d_style d = d_style e"
    "d_normalizer d = d_normalizer e" "d_winner d = d_winner e" "d_coverage d = d_coverage e"
    using at [of "''provider''"] at [of "''dataset_key''"] at [of "''entity_type''"] at [of "''entity_id''"]
      at [of "''forecast_style''"] at [of "''normalizer_revision''"] at [of "''winner_policy_revision''"]
      at [of "''coverage_contract''"]
    by (simp_all add: common_fields_def)
  have "json_strings (d_locations d) = json_strings (d_locations e)"
    using at [of "''location_ids''"] by (simp add: common_fields_def)
  then show "d_locations d = d_locations e" by (metis encode_strings_inj)
qed

text \<open>The text hashed into a source scope determines the provider, dataset, entity type and entity
  id, so with a collision-free hash two sources never share a scope (and its owner row).
\<close>

theorem source_scope_injective:
  assumes "\<And>x y. sha256 x = sha256 y \<Longrightarrow> x = y"
    and "source_scope_key sha256 p d t i = source_scope_key sha256 p' d' t' i'"
  shows "p = p' \<and> d = d' \<and> t = t' \<and> i = i'"
proof -
  have "encode (json_strings [p, d, t, i]) = encode (json_strings [p', d', t', i'])"
    using assms(2) unfolding source_scope_key_def by (rule assms(1))
  from encode_strings_inj [OF this] show ?thesis by simp
qed

theorem source_scope_injective_witness:
  "''a'' = ''a'' \<and> ''b'' = ''b'' \<and> ''c'' = ''c'' \<and> ''d'' = ''d''"
  by (rule source_scope_injective [of "\<lambda>x. x"]) simp_all

end
