(* ===== verification/Calendar.thy ===== *)
theory Calendar
  imports Canonical_Json
begin

section \<open>Days, KST and their text\<close>

text \<open>
  A \<open>date\<close> is its day number counted from 1970-01-01; \<open>civil_of_day\<close> is the proleptic Gregorian
  calendar of Python's \<open>datetime\<close> as (year, month, day), and \<open>day_of_civil\<close> its inverse (years are
  counted from March, so the leap day ends a year).  KST is \<open>timezone(timedelta(hours=9))\<close>: a
  fixed offset without transitions.
\<close>

type_synonym day = int

definition year_and_yday :: "int \<Rightarrow> int \<times> int" where
  "year_and_yday e =
     (let c = min 3 (e div 36524);
          r = e - 36524 * c;
          q = r div 1461;
          r' = r - 1461 * q;
          k = min 3 (r' div 365)
      in (100 * c + 4 * q + k, r' - 365 * k))"

definition month_and_day :: "int \<Rightarrow> int \<times> int" where
  "month_and_day doy =
     (let mp = (5 * doy + 2) div 153
      in (if mp < 10 then mp + 3 else mp - 9, doy - (153 * mp + 2) div 5 + 1))"

definition civil_of_day :: "day \<Rightarrow> int \<times> int \<times> int" where
  "civil_of_day n =
     (let z = n + 719468;
          (yoe, doy) = year_and_yday (z mod 146097);
          (m, d) = month_and_day doy
      in (yoe + z div 146097 * 400 + (if m \<le> 2 then 1 else 0), m, d))"

definition day_of_civil :: "int \<times> int \<times> int \<Rightarrow> day" where
  "day_of_civil c =
     (case c of (y, m, d) \<Rightarrow>
       let y' = (if m \<le> 2 then y - 1 else y);
           era = y' div 400;
           yoe = y' mod 400;
           mp = (if m > 2 then m - 3 else m + 9);
           doy = (153 * mp + 2) div 5 + d - 1;
           doe = yoe * 365 + yoe div 4 - yoe div 100 + doy
       in era * 146097 + doe - 719468)"

text \<open>One lemma per digit of the mixed-radix split of a day inside its 400-year era.\<close>

lemma century_bounds:
  fixes e :: int
  assumes "0 \<le> e" "e < 146097"
  shows "0 \<le> min 3 (e div 36524)" "min 3 (e div 36524) \<le> 3"
    "0 \<le> e - 36524 * min 3 (e div 36524)" "e - 36524 * min 3 (e div 36524) \<le> 36524"
  using assms by (auto simp: min_def)

lemma leap_cycle_bounds:
  fixes r :: int
  assumes "0 \<le> r" "r \<le> 36524"
  shows "0 \<le> r div 1461" "r div 1461 \<le> 24" "0 \<le> r - 1461 * (r div 1461)"
    "r - 1461 * (r div 1461) \<le> 1460"
  using assms by auto

lemma cycle_year_bounds:
  fixes r :: int
  assumes "0 \<le> r" "r \<le> 1460"
  shows "0 \<le> min 3 (r div 365)" "min 3 (r div 365) \<le> 3" "0 \<le> r - 365 * min 3 (r div 365)"
    "r - 365 * min 3 (r div 365) \<le> 365"
  using assms by (auto simp: min_def)

lemma month_bounds:
  fixes y :: int
  assumes "0 \<le> y" "y \<le> 365"
  defines "mp \<equiv> (5 * y + 2) div 153"
  shows "0 \<le> mp" "mp \<le> 11" "1 \<le> y - (153 * mp + 2) div 5 + 1" "y - (153 * mp + 2) div 5 + 1 \<le> 31"
  using assms(1,2) unfolding mp_def by auto

lemma year_split:
  fixes c q k :: int
  assumes "0 \<le> c" "c \<le> 3" "0 \<le> q" "q \<le> 24" "0 \<le> k" "k \<le> 3"
  shows "(100 * c + 4 * q + k) div 4 = 25 * c + q" "(100 * c + 4 * q + k) div 100 = c"
    "0 \<le> 100 * c + 4 * q + k" "100 * c + 4 * q + k < 400"
  using assms by auto

lemma year_and_yday_correct:
  assumes "0 \<le> e" "e < 146097" and "year_and_yday e = (y, d)"
  shows "0 \<le> y \<and> y < 400 \<and> 0 \<le> d \<and> d \<le> 365 \<and> y * 365 + y div 4 - y div 100 + d = e"
proof -
  define c r where "c = min 3 (e div 36524)" and "r = e - 36524 * c"
  define q r' where "q = r div 1461" and "r' = r - 1461 * q"
  define k where "k = min 3 (r' div 365)"
  have y: "y = 100 * c + 4 * q + k" and d: "d = r' - 365 * k"
    using assms(3)
    unfolding year_and_yday_def Let_def c_def [symmetric] r_def [symmetric] q_def [symmetric]
      r'_def [symmetric] k_def [symmetric]
    by (simp_all only: prod.inject)
  have c: "0 \<le> c" "c \<le> 3" and r: "0 \<le> r" "r \<le> 36524"
    using century_bounds [OF assms(1,2)] by (simp_all add: c_def r_def)
  have q: "0 \<le> q" "q \<le> 24" and r': "0 \<le> r'" "r' \<le> 1460"
    using leap_cycle_bounds [OF r] by (simp_all add: q_def r'_def)
  have k: "0 \<le> k" "k \<le> 3" and "0 \<le> r' - 365 * k" "r' - 365 * k \<le> 365"
    using cycle_year_bounds [OF r'] by (simp_all add: k_def)
  then have "0 \<le> d \<and> d \<le> 365" by (simp add: d)
  moreover note split = year_split [OF c q k, folded y]
  moreover have "y * 365 + y div 4 - y div 100 + d = e"
    unfolding split(1,2) unfolding y d r'_def r_def by (simp only: algebra_simps)
  ultimately show ?thesis by blast
qed

lemma month_and_day_correct:
  assumes "0 \<le> y" "y \<le> 365" and "month_and_day y = (m, d)"
  shows "1 \<le> m \<and> m \<le> 12 \<and> 1 \<le> d \<and> d \<le> 31 \<and>
    (153 * (if m > 2 then m - 3 else m + 9) + 2) div 5 + d - 1 = y"
proof -
  define mp where "mp = (5 * y + 2) div 153"
  have m: "m = (if mp < 10 then mp + 3 else mp - 9)" and d: "d = y - (153 * mp + 2) div 5 + 1"
    using assms(3) by (auto simp: month_and_day_def Let_def mp_def)
  have b: "0 \<le> mp" "mp \<le> 11" "1 \<le> d" "d \<le> 31"
    using month_bounds [OF assms(1,2)] unfolding d mp_def by (simp_all only:)
  then have "(if m > 2 then m - 3 else m + 9) = mp" by (simp add: m)
  with b show ?thesis by (simp add: m d)
qed

lemma day_of_civil_of_day: "day_of_civil (civil_of_day n) = n"
proof -
  define z where "z = n + 719468"
  obtain yoe doy where y: "year_and_yday (z mod 146097) = (yoe, doy)" by fastforce
  obtain m d where m: "month_and_day doy = (m, d)" by fastforce
  have yb: "0 \<le> yoe" "yoe < 400" "0 \<le> doy" "doy \<le> 365"
    and e: "yoe * 365 + yoe div 4 - yoe div 100 + doy = z mod 146097"
    using year_and_yday_correct [OF _ _ y] by simp_all
  have doy: "(153 * (if m > 2 then m - 3 else m + 9) + 2) div 5 + d - 1 = doy"
    using month_and_day_correct [OF yb(3,4) m] by simp
  have "(yoe + z div 146097 * 400) div 400 = z div 146097" "(yoe + z div 146097 * 400) mod 400 = yoe"
    using yb(1,2) by simp_all
  moreover have "civil_of_day n = (yoe + z div 146097 * 400 + (if m \<le> 2 then 1 else 0), m, d)"
    by (simp add: civil_of_day_def Let_def z_def [symmetric] y m)
  moreover have "(if m \<le> 2 then yoe + z div 146097 * 400 + (if m \<le> 2 then 1 else 0) - 1
      else yoe + z div 146097 * 400 + (if m \<le> 2 then 1 else 0)) = yoe + z div 146097 * 400"
    by simp
  ultimately have "day_of_civil (civil_of_day n) =
      z div 146097 * 146097 + (yoe * 365 + yoe div 4 - yoe div 100 + doy) - 719468"
    by (simp only: day_of_civil_def Let_def prod.case doy)
  also have "\<dots> = n" unfolding e by (simp add: z_def)
  finally show ?thesis .
qed

lemma civil_of_day_inj: "civil_of_day a = civil_of_day b \<Longrightarrow> a = b"
  by (metis day_of_civil_of_day)

lemma civil_of_day_ranges:
  assumes "civil_of_day n = (y, m, d)"
  shows "1 \<le> m \<and> m \<le> 12 \<and> 1 \<le> d \<and> d \<le> 31"
proof -
  obtain yoe doy where y: "year_and_yday ((n + 719468) mod 146097) = (yoe, doy)" by fastforce
  have doy: "0 \<le> doy" "doy \<le> 365" using year_and_yday_correct [OF _ _ y] by simp_all
  have "month_and_day doy = (m, d)"
    using assms by (auto simp: civil_of_day_def Let_def y split: prod.splits)
  from month_and_day_correct [OF doy this] show ?thesis by simp
qed

subsection \<open>KST days\<close>

text \<open>\<open>datetime(day.year, day.month, day.day, tzinfo=KST)\<close> and \<open>instant.astimezone(KST).date()\<close>.\<close>

definition kst_midnight :: "day \<Rightarrow> instant" where
  "kst_midnight d = days d - hours 9"

definition kst_day :: "instant \<Rightarrow> day" where
  "kst_day t = (t + hours 9) div days 1"

definition kst_hour :: "instant \<Rightarrow> int" where
  "kst_hour t = (t + hours 9) mod days 1 div hours 1"

lemma kst_day_midnight [simp]: "kst_day (kst_midnight d) = d"
  by (simp add: kst_day_def kst_midnight_def)

lemma kst_day_bounds: "kst_midnight (kst_day t) \<le> t" "t < kst_midnight (kst_day t + 1)"
  by (simp_all add: kst_day_def kst_midnight_def)

lemma kst_day_eq: "kst_midnight d \<le> t \<Longrightarrow> t < kst_midnight (d + 1) \<Longrightarrow> kst_day t = d"
  by (simp add: kst_day_def kst_midnight_def)

lemma kst_midnight_mono: "kst_midnight a \<le> kst_midnight b \<longleftrightarrow> a \<le> b"
  by (simp add: kst_midnight_def)

lemma hour_of_day: "0 \<le> u \<Longrightarrow> u < days 1 \<Longrightarrow> 0 \<le> u div hours 1 \<and> u div hours 1 < 24"
  by auto

lemma kst_hour_range: "0 \<le> kst_hour t \<and> kst_hour t < 24"
  unfolding kst_hour_def by (rule hour_of_day) simp_all

subsection \<open>Text of dates and instants\<close>

definition pad2 :: "int \<Rightarrow> text_bytes" where
  "pad2 n = [digit_char (nat (n div 10) mod 10), digit_char (nat n mod 10)]"

definition pad4 :: "int \<Rightarrow> text_bytes" where
  "pad4 n = pad2 (n div 100) @ pad2 (n mod 100)"

text \<open>\<open>f"{day:%Y%m%d}"\<close> for the four-digit years, and \<open>isoformat()\<close> of a date and of a UTC instant.\<close>

definition format_ymd :: "day \<Rightarrow> text_bytes" where
  "format_ymd n = (case civil_of_day n of (y, m, d) \<Rightarrow> pad4 y @ pad2 m @ pad2 d)"

definition iso_date :: "day \<Rightarrow> text_bytes" where
  "iso_date n = (case civil_of_day n of (y, m, d) \<Rightarrow> pad4 y @ ''-'' @ pad2 m @ ''-'' @ pad2 d)"

definition iso_utc :: "instant \<Rightarrow> text_bytes" where
  "iso_utc t =
     (let s = t div seconds 1; us = t mod seconds 1; sod = s mod 86400
      in iso_date (s div 86400) @ ''T'' @ pad2 (sod div 3600) @ '':'' @ pad2 (sod mod 3600 div 60)
         @ '':'' @ pad2 (sod mod 60)
         @ (if us = 0 then [] else ''.'' @ pad2 (us div 10000) @ pad2 (us div 100 mod 100) @ pad2 (us mod 100))
         @ ''+00:00'')"

definition year_in_range :: "day \<Rightarrow> bool" where
  "year_in_range n \<longleftrightarrow> 1000 \<le> fst (civil_of_day n) \<and> fst (civil_of_day n) \<le> 9999"

lemma digit_char_inj: "a < 10 \<Longrightarrow> b < 10 \<Longrightarrow> digit_char a = digit_char b \<Longrightarrow> a = b"
  by (metis digit_value_char)

lemma pad2_inj:
  assumes "pad2 a = pad2 b" "0 \<le> a" "a < 100" "0 \<le> b" "b < 100"
  shows "a = b"
proof -
  have eq: "nat (a div 10) mod 10 = nat (b div 10) mod 10" "nat a mod 10 = nat b mod 10"
    using assms(1) by (auto simp: pad2_def intro!: digit_char_inj)
  have m: "nat a mod 10 = nat (a mod 10)" "nat b mod 10 = nat (b mod 10)"
    using assms(2,4) by (simp_all add: nat_mod_distrib)
  have s: "nat (a div 10) < 10" "nat (b div 10) < 10" "0 \<le> a div 10" "0 \<le> b div 10"
    using assms(2-) by linarith+
  have "nat (a div 10) = nat (b div 10)" using eq(1) s(1,2) by (metis mod_less)
  then have "a div 10 = b div 10" using s(3,4) by (metis eq_nat_nat_iff)
  moreover have "a mod 10 = b mod 10" using eq(2) unfolding m by (subst (asm) eq_nat_nat_iff) simp_all
  ultimately show ?thesis by (metis mult_div_mod_eq)
qed

lemma pad4_inj:
  assumes "pad4 a = pad4 b" "0 \<le> a" "a < 10000" "0 \<le> b" "b < 10000"
  shows "a = b"
proof -
  have "pad2 (a div 100) = pad2 (b div 100)" "pad2 (a mod 100) = pad2 (b mod 100)"
    using assms(1) by (simp_all add: pad4_def pad2_def)
  then have "a div 100 = b div 100" "a mod 100 = b mod 100"
    using assms(2-) by (auto intro!: pad2_inj)
  then show ?thesis by (metis mult_div_mod_eq)
qed

lemma format_ymd_inj:
  assumes "format_ymd a = format_ymd b" "year_in_range a" "year_in_range b"
  shows "a = b"
proof -
  obtain y m d where a: "civil_of_day a = (y, m, d)" by (cases "civil_of_day a") auto
  obtain y' m' d' where b: "civil_of_day b = (y', m', d')" by (cases "civil_of_day b") auto
  have eq: "pad4 y = pad4 y'" "pad2 m = pad2 m'" "pad2 d = pad2 d'"
    using assms(1) by (simp_all add: format_ymd_def a b pad4_def pad2_def)
  have "y = y'" using eq(1) assms(2,3) by (intro pad4_inj) (simp_all add: year_in_range_def a b)
  moreover have "m = m'" "d = d'"
    using eq(2,3) civil_of_day_ranges [OF a] civil_of_day_ranges [OF b] by (auto intro!: pad2_inj)
  ultimately have "civil_of_day a = civil_of_day b" using a b by simp
  then show ?thesis by (rule civil_of_day_inj)
qed

end
