(* ===== verification/Relational.thy ===== *)
theory Relational
  imports Prelude
begin

section \<open>Tables: rows, keys and the statements the code issues\<close>

text \<open>
  A table is the list of its rows in insertion order; its primary key is a function of the row.
  The operations are the statements of the export code: \<open>SELECT ... one_or_none\<close> by key
  (\<open>row_of\<close>), \<open>UPDATE ... WHERE\<close>, \<open>DELETE ... WHERE\<close>, \<open>INSERT ... ON CONFLICT DO NOTHING\<close>
  and \<open>INSERT ... ON CONFLICT DO UPDATE\<close> (\<open>upsert\<close>, whose function of the old and the proposed
  row is the SET clause, the identity where its WHERE is false).  A plain insert appends; where
  its key may exist, the model checks it and answers with the integrity error.
\<close>

definition row_of :: "('r \<Rightarrow> 'k) \<Rightarrow> 'k \<Rightarrow> 'r list \<Rightarrow> 'r option" where
  "row_of key k t = find (\<lambda>r. key r = k) t"

definition update_where :: "('r \<Rightarrow> bool) \<Rightarrow> ('r \<Rightarrow> 'r) \<Rightarrow> 'r list \<Rightarrow> 'r list" where
  "update_where p f t = map (\<lambda>r. if p r then f r else r) t"

definition delete_where :: "('r \<Rightarrow> bool) \<Rightarrow> 'r list \<Rightarrow> 'r list" where
  "delete_where p t = filter (\<lambda>r. \<not> p r) t"

definition insert_ignore :: "('r \<Rightarrow> 'k) \<Rightarrow> 'r \<Rightarrow> 'r list \<Rightarrow> 'r list" where
  "insert_ignore key r t = (if row_of key (key r) t = None then t @ [r] else t)"

definition upsert :: "('r \<Rightarrow> 'k) \<Rightarrow> ('r \<Rightarrow> 'r \<Rightarrow> 'r) \<Rightarrow> 'r \<Rightarrow> 'r list \<Rightarrow> 'r list" where
  "upsert key conflict r t =
     (if row_of key (key r) t = None then t @ [r]
      else update_where (\<lambda>old. key old = key r) (\<lambda>old. conflict old r) t)"

definition upsert_all :: "('r \<Rightarrow> 'k) \<Rightarrow> ('r \<Rightarrow> 'r \<Rightarrow> 'r) \<Rightarrow> 'r list \<Rightarrow> 'r list \<Rightarrow> 'r list" where
  "upsert_all key conflict rs t = fold (upsert key conflict) rs t"

definition keyed :: "('r \<Rightarrow> 'k) \<Rightarrow> 'r list \<Rightarrow> bool" where
  "keyed key t \<longleftrightarrow> distinct (map key t)"

subsection \<open>Reading after writing\<close>

lemma row_of_Nil [simp]: "row_of key k [] = None"
  by (simp add: row_of_def)

lemma row_of_Cons: "row_of key k (r # t) = (if key r = k then Some r else row_of key k t)"
  by (simp add: row_of_def)

lemma row_of_SomeD: "row_of key k t = Some r \<Longrightarrow> r \<in> set t \<and> key r = k"
  by (induction t) (auto simp: row_of_Cons split: if_splits)

lemma row_of_None_iff: "row_of key k t = None \<longleftrightarrow> (\<forall>r \<in> set t. key r \<noteq> k)"
  by (induction t) (auto simp: row_of_Cons)

lemma row_of_append:
  "row_of key k (t @ u) = (case row_of key k t of None \<Rightarrow> row_of key k u | Some r \<Rightarrow> Some r)"
  by (induction t) (auto simp: row_of_Cons)

lemma row_of_in: "keyed key t \<Longrightarrow> r \<in> set t \<Longrightarrow> row_of key (key r) t = Some r"
  by (induction t) (force simp: row_of_Cons keyed_def)+

lemma row_of_update_where [store_simps]:
  assumes "\<And>r. key (f r) = key r"
  shows "row_of key k (update_where p f t) =
    map_option (\<lambda>r. if p r then f r else r) (row_of key k t)"
  by (induction t) (auto simp: row_of_Cons update_where_def assms)

lemma row_of_update_key:
  assumes "\<And>r. key (f r) = key r"
  shows "row_of key k (update_where (\<lambda>r. key r = k') f t) =
    (if k = k' then map_option f (row_of key k t) else row_of key k t)"
  using row_of_SomeD [of key k t]
  by (auto simp: row_of_update_where [where key = key and f = f, OF assms] split: option.splits
      intro!: option.map_cong [where g = id, simplified option.map_id id_apply]
      simp: map_option_case)

lemma row_of_delete_key:
  "row_of key k (delete_where (\<lambda>r. key r = k') t) = (if k = k' then None else row_of key k t)"
  by (induction t) (auto simp: row_of_Cons delete_where_def)

lemma set_update_where: "set (update_where p f t) = (\<lambda>r. if p r then f r else r) ` set t"
  by (simp add: update_where_def)

lemma set_delete_where [simp]: "set (delete_where p t) = {r \<in> set t. \<not> p r}"
  by (auto simp: delete_where_def)

lemma length_update_where [simp]: "length (update_where p f t) = length t"
  by (simp add: update_where_def)

lemma map_key_update_where:
  assumes "\<And>r. g (f r) = g r"
  shows "map g (update_where p f t) = map g t"
  by (simp add: update_where_def assms)

lemma row_of_upsert:
  assumes "\<And>old. key old = key r \<Longrightarrow> key (conflict old r) = key r"
  shows "row_of key k (upsert key conflict r t) =
    (if k = key r then Some (case row_of key k t of None \<Rightarrow> r | Some old \<Rightarrow> conflict old r)
     else row_of key k t)"
proof (cases "row_of key (key r) t")
  case None
  then show ?thesis
    by (auto simp: upsert_def row_of_append row_of_Cons split: option.splits)
next
  case (Some old)
  have "row_of key k (update_where (\<lambda>x. key x = key r) (\<lambda>x. conflict x r) t) =
    (if k = key r then map_option (\<lambda>x. conflict x r) (row_of key k t) else row_of key k t)"
    by (induction t) (auto simp: row_of_Cons update_where_def assms)
  with Some show ?thesis by (simp add: upsert_def)
qed

lemma row_of_insert_ignore [store_simps]:
  "row_of key k (insert_ignore key r t) =
    (if k = key r \<and> row_of key k t = None then Some r else row_of key k t)"
  by (auto simp: insert_ignore_def row_of_append row_of_Cons split: option.splits)

lemma set_insert_ignore: "set (insert_ignore key r t) \<subseteq> insert r (set t)"
  by (auto simp: insert_ignore_def)

lemma set_insert_ignore_mono: "set t \<subseteq> set (insert_ignore key r t)"
  by (auto simp: insert_ignore_def)

lemma set_upsert:
  "x \<in> set (upsert key c r t) \<Longrightarrow> x = r \<or> x \<in> set t \<or> (\<exists>old \<in> set t. key old = key r \<and> x = c old r)"
  by (auto simp: upsert_def set_update_where split: if_splits)

subsection \<open>The key stays a key\<close>

lemma keyed_Nil [simp]: "keyed key []"
  by (simp add: keyed_def)

lemma keyed_append_one [simp]:
  "keyed key (t @ [r]) \<longleftrightarrow> keyed key t \<and> row_of key (key r) t = None"
  by (force simp: keyed_def row_of_None_iff image_iff)

lemma keyed_update_where: "(\<And>r. key (f r) = key r) \<Longrightarrow> keyed key t \<Longrightarrow> keyed key (update_where p f t)"
  by (simp add: keyed_def map_key_update_where)

lemma keyed_delete_where: "keyed key t \<Longrightarrow> keyed key (delete_where p t)"
  by (simp add: keyed_def delete_where_def distinct_map_filter)

lemma keyed_insert_ignore: "keyed key t \<Longrightarrow> keyed key (insert_ignore key r t)"
  by (simp add: insert_ignore_def)

lemma keyed_upsert:
  assumes "\<And>old. key old = key r \<Longrightarrow> key (conflict old r) = key r" and "keyed key t"
  shows "keyed key (upsert key conflict r t)"
proof (cases "row_of key (key r) t")
  case None
  with assms(2) show ?thesis by (simp add: upsert_def)
next
  case (Some old)
  have "map key (update_where (\<lambda>x. key x = key r) (\<lambda>x. conflict x r) t) = map key t"
    by (simp add: update_where_def assms(1))
  with Some assms(2) show ?thesis by (simp add: upsert_def keyed_def)
qed

lemma keyed_unique: "keyed key t \<Longrightarrow> r \<in> set t \<Longrightarrow> s \<in> set t \<Longrightarrow> key r = key s \<Longrightarrow> r = s"
  by (metis row_of_in option.inject)

subsection \<open>The interface: a keyed table\<close>

text \<open>
  What the transactions rely on: reading by key after a conflict-resolving insert, and rows that
  only the key's own writes touch.  The bulk statements are proved once against this interface.
\<close>

locale keyed_table =
  fixes key :: "'r \<Rightarrow> 'k"
    and get :: "'k \<Rightarrow> 't \<Rightarrow> 'r option"
    and put :: "('r \<Rightarrow> 'r \<Rightarrow> 'r) \<Rightarrow> 'r \<Rightarrow> 't \<Rightarrow> 't"
    and valid :: "'t \<Rightarrow> bool"
  assumes get_put: "(\<And>old. key old = key r \<Longrightarrow> key (c old r) = key r) \<Longrightarrow> get k (put c r t) =
      (if k = key r then Some (case get k t of None \<Rightarrow> r | Some old \<Rightarrow> c old r) else get k t)"
    and valid_put: "(\<And>old. key old = key r \<Longrightarrow> key (c old r) = key r) \<Longrightarrow> valid t \<Longrightarrow> valid (put c r t)"
begin

lemma get_put_same:
  "(\<And>old. key old = key r \<Longrightarrow> key (c old r) = key r) \<Longrightarrow>
    get (key r) (put c r t) = Some (case get (key r) t of None \<Rightarrow> r | Some old \<Rightarrow> c old r)"
  by (simp add: get_put)

lemma get_put_other: "(\<And>old. key old = key r \<Longrightarrow> key (c old r) = key r) \<Longrightarrow> k \<noteq> key r \<Longrightarrow> get k (put c r t) = get k t"
  by (simp add: get_put)

lemma get_fold_put_notin:
  assumes c: "\<And>old r. key old = key r \<Longrightarrow> key (c old r) = key r" and "k \<notin> key ` set rs"
  shows "get k (fold (put c) rs t) = get k t"
  using assms(2)
proof (induction rs arbitrary: t)
  case Nil
  then show ?case by simp
next
  case (Cons a rs)
  then have "k \<noteq> key a" and rest: "k \<notin> key ` set rs" by auto
  have "get k (put c a t) = get k t"
    using c \<open>k \<noteq> key a\<close> by (rule get_put_other)
  then show ?case by (simp add: Cons.IH [OF rest])
qed

lemma get_fold_put_in:
  assumes c: "\<And>old r. key old = key r \<Longrightarrow> key (c old r) = key r" and "distinct (map key rs)" and "r \<in> set rs"
  shows "get (key r) (fold (put c) rs t) =
    Some (case get (key r) t of None \<Rightarrow> r | Some old \<Rightarrow> c old r)"
  using assms(2,3)
proof (induction rs arbitrary: t)
  case Nil
  then show ?case by simp
next
  case (Cons a rs)
  show ?case
  proof (cases "r = a")
    case True
    with Cons.prems(1) have "key a \<notin> key ` set rs" by auto
    with c have "get (key a) (fold (put c) rs (put c a t)) = get (key a) (put c a t)"
      by (rule get_fold_put_notin)
    also have "\<dots> = Some (case get (key a) t of None \<Rightarrow> a | Some old \<Rightarrow> c old a)"
      using c by (rule get_put_same)
    finally show ?thesis unfolding True by simp
  next
    case False
    with Cons.prems have r: "r \<in> set rs" and d: "distinct (map key rs)"
      and "key a \<notin> key ` set rs" by auto
    then have ne: "key r \<noteq> key a" by (metis image_eqI)
    have "get (key r) (put c a t) = get (key r) t"
      using c ne by (rule get_put_other)
    with Cons.IH [OF d r, of "put c a t"] show ?thesis by simp
  qed
qed

lemma valid_fold_put:
  assumes "\<And>old r. key old = key r \<Longrightarrow> key (c old r) = key r"
  shows "valid t \<Longrightarrow> valid (fold (put c) rs t)"
  by (induction rs arbitrary: t) (auto intro: valid_put assms)

end

interpretation row_table: keyed_table key "row_of key" "upsert key" "keyed key" for key :: "'r \<Rightarrow> 'k"
  by unfold_locales (simp_all add: row_of_upsert keyed_upsert)

subsection \<open>Tables that keep the best candidate\<close>

text \<open>
  A table under \<open>give\<close> keeps for each key the candidate no other beats; of two that beat each other,
  the one that came first.  What is in it at the end depends only on what was offered.
\<close>

locale keyed_winner =
  fixes lookup :: "'s \<Rightarrow> 'k \<Rightarrow> 'v option"
    and key :: "'o \<Rightarrow> 'k"
    and val :: "'o \<Rightarrow> 'v"
    and beats :: "'v \<Rightarrow> 'v \<Rightarrow> bool"
    and give :: "'o \<Rightarrow> 's \<Rightarrow> 's"
  assumes beats_refl: "beats v v"
    and beats_trans: "beats u v \<Longrightarrow> beats v w \<Longrightarrow> beats u w"
    and beats_total: "beats u v \<or> beats v u"
    and lookup_give: "lookup (give x s) k =
      (if k = key x \<and> (case lookup s k of None \<Rightarrow> True | Some v \<Rightarrow> \<not> beats v (val x)) then Some (val x) else lookup s k)"
begin

lemma kept: "lookup s k = Some u \<Longrightarrow> \<exists>v. lookup (fold give xs s) k = Some v \<and> beats v u"
proof (induction xs arbitrary: s u)
  case (Cons x xs)
  obtain w where w: "lookup (give x s) k = Some w" "beats w u"
    using Cons.prems beats_total [of "val x" u] by (cases "k = key x \<and> \<not> beats u (val x)") (auto simp: lookup_give beats_refl)
  from Cons.IH [OF w(1)] beats_trans [OF _ w(2)] show ?case by auto
qed (simp add: beats_refl)

lemma offered: "x \<in> set xs \<Longrightarrow> \<exists>v. lookup (fold give xs s) (key x) = Some v \<and> beats v (val x)"
proof (induction xs arbitrary: s)
  case (Cons y xs)
  show ?case
  proof (cases "x = y")
    case True
    have "\<exists>w. lookup (give x s) (key x) = Some w \<and> beats w (val x)"
      by (cases "lookup s (key x)") (auto simp: lookup_give beats_refl)
    then obtain w where w: "lookup (give x s) (key x) = Some w" "beats w (val x)" by blast
    from kept [OF w(1), of xs] beats_trans [OF _ w(2)] True show ?thesis by auto
  next
    case False
    with Cons show ?thesis by simp
  qed
qed simp

lemma origin: "lookup (fold give xs s) k = Some v \<Longrightarrow> lookup s k = Some v \<or> (\<exists>x\<in>set xs. key x = k \<and> val x = v)"
proof (induction xs arbitrary: s)
  case (Cons x xs)
  from Cons.IH [of "give x s"] Cons.prems show ?case by (auto simp: lookup_give split: if_splits)
qed simp

lemma order_free:
  assumes same: "set xs = set ys" and empty: "\<And>k. lookup s k = None" "\<And>k. lookup s' k = None"
    and ties: "\<And>x y. x \<in> set xs \<Longrightarrow> y \<in> set xs \<Longrightarrow> beats (val x) (val y) \<Longrightarrow> beats (val y) (val x) \<Longrightarrow> val x = val y"
  shows "lookup (fold give xs s) k = lookup (fold give ys s') k"
proof -
  have one: "lookup (fold give bs t) k = Some v"
    if "lookup (fold give as r) k = Some v" "set as = set xs" "set bs = set xs" "\<And>k. lookup r k = None" "\<And>k. lookup t k = None"
    for as bs r t v
  proof -
    from origin [OF that(1)] that(4) obtain x where x: "x \<in> set as" "key x = k" "val x = v" by auto
    from offered [of x bs t] x that(2,3) obtain w where w: "lookup (fold give bs t) k = Some w" "beats w v" by auto
    from origin [OF w(1)] that(5) obtain y where y: "y \<in> set bs" "key y = k" "val y = w" by auto
    from offered [of y as r] y that(1-3) have "beats v w" by auto
    moreover have "x \<in> set xs" "y \<in> set xs" using x(1) y(1) unfolding that(2,3) .
    ultimately have "val x = val y" using ties [of x y] w(2) x(3) y(3) by simp
    with w(1) show ?thesis unfolding x(3) y(3) by simp
  qed
  show ?thesis
  proof (cases "lookup (fold give xs s) k")
    case (Some v)
    from one [OF this refl same [symmetric] empty] Some show ?thesis by simp
  next
    case None
    show ?thesis
    proof (cases "lookup (fold give ys s') k")
      case (Some v)
      from one [OF this same [symmetric] refl empty(2,1)] None show ?thesis by simp
    qed (use None in simp)
  qed
qed

end

end
