(* ===== verification/Export_Artifacts.thy ===== *)
theory Export_Artifacts
  imports Calendar Relational
begin

section \<open>Immutable export artifacts (export_artifacts.py)\<close>

text \<open>
  The content-addressed store of export chunks: the canonical text of a number, the preparation of
  a chunk (one canonical JSON line per point, bounded in points and bytes), publication under the
  name of its SHA-256, and the checks every reader makes.  A directory is the table of its entries;
  \<open>sha256\<close> and \<open>loads\<close> (\<open>json.loads\<close>) are arguments.
\<close>

subsection \<open>Canonical numbers\<close>

text \<open>
  A finite \<open>Decimal\<close> is a coefficient and an exponent.  \<open>quantize4\<close> is
  \<open>quantize(Decimal("0.0001"), ROUND_HALF_UP)\<close> as the scaled integer, \<open>None\<close> where the result
  would need more than the 28 digits of the default context (\<open>InvalidOperation\<close>).
\<close>

datatype decimal = Dec int int

definition div_half_up :: "int \<Rightarrow> int \<Rightarrow> int" where
  "div_half_up n d = (if n < 0 then - ((2 * (- n) + d) div (2 * d)) else (2 * n + d) div (2 * d))"

fun scaled4 :: "decimal \<Rightarrow> int" where
  "scaled4 (Dec c e) =
     (if - 4 \<le> e then c * 10 ^ nat (e + 4) else div_half_up c (10 ^ nat (- 4 - e)))"

definition quantize4 :: "decimal \<Rightarrow> int option" where
  "quantize4 x = (if \<bar>scaled4 x\<bar> < 10 ^ 28 then Some (scaled4 x) else None)"

definition rstrip :: "char \<Rightarrow> text_bytes \<Rightarrow> text_bytes" where
  "rstrip c s = rev (dropWhile (\<lambda>x. x = c) (rev s))"

text \<open>\<open>format(fixed, "f")\<close> of a value with exponent -4: it always has a point.\<close>

definition fixed_text :: "int \<Rightarrow> text_bytes" where
  "fixed_text n =
     (if n < 0 then ''-'' else []) @ show_nat (nat (\<bar>n\<bar> div 10000)) @ ''.'' @ pad4 (\<bar>n\<bar> mod 10000)"

datatype artifact_error =
    Timezone_Missing | Point_Limit | Byte_Limit | Bad_Digest | Content_Mismatch
  | Receipt_Bounds | Missing_Or_Damaged | Not_A_Regular_File | Point_Count_Mismatch
  | Bad_Point_Format | Json_Decode | OS_Failure | Invalid_Operation

definition canonical_export_number :: "decimal \<Rightarrow> artifact_error + text_bytes" where
  "canonical_export_number x =
     (case quantize4 x of
        None \<Rightarrow> Inl Invalid_Operation
      | Some fixed \<Rightarrow>
          if fixed = 0 then Inr ''0''
          else Inr (rstrip CHR ''.'' (rstrip CHR ''0'' (fixed_text fixed))))"

subsection \<open>Preparing a chunk\<close>

definition MAX_CHUNK_POINTS :: nat where "MAX_CHUNK_POINTS = 5000"
definition MAX_CHUNK_BYTES :: nat where "MAX_CHUNK_BYTES = 8 * 1024 * 1024"

record prepared_chunk =
  pc_payload :: text_bytes
  pc_digest :: text_bytes
  pc_points :: nat
  pc_collected :: instant

definition artifact_utc :: "py_datetime \<Rightarrow> artifact_error + instant" where
  "artifact_utc t = (case t of Naive _ \<Rightarrow> Inl Timezone_Missing | Aware i \<Rightarrow> Inr i)"

fun prepare_lines :: "json list \<Rightarrow> text_bytes \<Rightarrow> nat \<Rightarrow> artifact_error + (text_bytes \<times> nat)" where
  "prepare_lines [] parts count = Inr (parts, count)"
| "prepare_lines (point # points) parts count =
     (if MAX_CHUNK_POINTS < count + 1 then Inl Point_Limit
      else let line = encode point @ [CHR 0x0A] in
        if MAX_CHUNK_BYTES < length parts + length line then Inl Byte_Limit
        else prepare_lines points (parts @ line) (count + 1))"

definition prepare_export_chunk ::
  "(text_bytes \<Rightarrow> text_bytes) \<Rightarrow> json list \<Rightarrow> py_datetime \<Rightarrow> artifact_error + prepared_chunk" where
  "prepare_export_chunk sha256 points collected =
     (case artifact_utc collected of
        Inl e \<Rightarrow> Inl e
      | Inr at \<Rightarrow>
          (case prepare_lines points [] 0 of
             Inl e \<Rightarrow> Inl e
           | Inr (payload, count) \<Rightarrow>
               Inr \<lparr>pc_payload = payload, pc_digest = sha256 payload, pc_points = count,
                 pc_collected = at\<rparr>))"

subsection \<open>The store: path, present, publish, verify, read\<close>

datatype entry_kind = Regular_File | Symlink | Directory

record dir_entry =
  de_name :: text_bytes
  de_kind :: entry_kind
  de_content :: text_bytes
  de_mtime :: instant

type_synonym directory = "dir_entry list"

abbreviation entry_at :: "text_bytes \<Rightarrow> directory \<Rightarrow> dir_entry option" where
  "entry_at \<equiv> row_of de_name"

definition store_path :: "text_bytes \<Rightarrow> artifact_error + text_bytes" where
  "store_path digest = (if hex64 digest then Inr (digest @ ''.jsonl'') else Inl Bad_Digest)"

definition store_present :: "directory \<Rightarrow> text_bytes \<Rightarrow> int \<Rightarrow> artifact_error + unit" where
  "store_present dir digest byte_count =
     (case store_path digest of
        Inl e \<Rightarrow> Inl e
      | Inr path \<Rightarrow>
          (case entry_at path dir of
             None \<Rightarrow> Inl Missing_Or_Damaged
           | Some entry \<Rightarrow>
               if de_kind entry \<noteq> Regular_File \<or> int (length (de_content entry)) \<noteq> byte_count
               then Inl Missing_Or_Damaged else Inr ()))"

text \<open>\<open>all_present\<close> answers, inside the shared guard, whether every reference still has its file.\<close>

definition store_all_present :: "directory \<Rightarrow> (text_bytes \<times> int) list \<Rightarrow> bool" where
  "store_all_present dir refs =
     list_all (\<lambda>(digest, bytes). store_present dir digest bytes = Inr ()) refs"

text \<open>
  \<open>_publish\<close>: the temporary file is written, synced and renamed over the target in one atomic
  \<open>os.replace\<close> (which refuses a directory); \<open>now\<close> is the modification time it gets.
\<close>

definition store_publish ::
  "(text_bytes \<Rightarrow> text_bytes) \<Rightarrow> instant \<Rightarrow> prepared_chunk \<Rightarrow> directory \<Rightarrow> artifact_error + directory" where
  "store_publish sha256 now chunk dir =
     (case store_path (pc_digest chunk) of
        Inl e \<Rightarrow> Inl e
      | Inr target \<Rightarrow>
          if MAX_CHUNK_BYTES < length (pc_payload chunk) \<or> sha256 (pc_payload chunk) \<noteq> pc_digest chunk
          then Inl Content_Mismatch
          else if map_option de_kind (entry_at target dir) = Some Directory then Inl OS_Failure
          else Inr (upsert de_name (\<lambda>old new. new)
             \<lparr>de_name = target, de_kind = Regular_File, de_content = pc_payload chunk, de_mtime = now\<rparr>
             dir))"

text \<open>
  \<open>bytes.splitlines()\<close>: a line ends at LF, CR or CRLF, and a final line without an end counts.
\<close>

fun split_lines_from :: "text_bytes \<Rightarrow> text_bytes \<Rightarrow> text_bytes list" where
  "split_lines_from acc [] = (if acc = [] then [] else [acc])"
| "split_lines_from acc (c # s) =
     (if c = CHR 0x0A then acc # split_lines_from [] s
      else if c = CHR 0x0D then
        acc # (case s of [] \<Rightarrow> [] | d # r \<Rightarrow>
                 if d = CHR 0x0A then split_lines_from [] r else split_lines_from [] (d # r))
      else split_lines_from (acc @ [c]) s)"

definition split_lines :: "text_bytes \<Rightarrow> text_bytes list" where
  "split_lines s = split_lines_from [] s"

text \<open>
  \<open>_lines\<close> with the digests already checked inside the same guard (\<open>verified\<close>, \<open>None\<close> outside
  one).  Beside its result it returns the set it leaves behind: the digest is added once its
  content has matched, before the lines are counted.
\<close>

definition store_lines ::
  "(text_bytes \<Rightarrow> text_bytes) \<Rightarrow> directory \<Rightarrow> text_bytes list option \<Rightarrow> text_bytes \<Rightarrow> int \<Rightarrow> int \<Rightarrow>
   (artifact_error + text_bytes list) \<times> text_bytes list option" where
  "store_lines sha256 dir verified digest byte_count point_count =
     (if \<not> (0 \<le> byte_count \<and> byte_count \<le> int MAX_CHUNK_BYTES)
         \<or> \<not> (0 \<le> point_count \<and> point_count \<le> int MAX_CHUNK_POINTS)
      then (Inl Receipt_Bounds, verified)
      else case store_path digest of
        Inl e \<Rightarrow> (Inl e, verified)
      | Inr path \<Rightarrow>
          (case entry_at path dir of
             None \<Rightarrow> (Inl OS_Failure, verified)
           | Some entry \<Rightarrow>
               if de_kind entry \<noteq> Regular_File then (Inl OS_Failure, verified)
               else
                 let payload = take (MAX_CHUNK_BYTES + 1) (de_content entry);
                     known = (case verified of None \<Rightarrow> False | Some ds \<Rightarrow> digest \<in> set ds);
                     verified' = map_option (\<lambda>ds. digest # ds) verified
                 in if int (length payload) \<noteq> byte_count \<or> (\<not> known \<and> sha256 payload \<noteq> digest)
                    then (Inl Missing_Or_Damaged, verified)
                    else if int (length (split_lines payload)) \<noteq> point_count
                    then (Inl Point_Count_Mismatch, verified')
                    else (Inr (split_lines payload), verified')))"

definition store_verify ::
  "(text_bytes \<Rightarrow> text_bytes) \<Rightarrow> directory \<Rightarrow> text_bytes list option \<Rightarrow> text_bytes \<Rightarrow> int \<Rightarrow> int \<Rightarrow>
   (artifact_error + unit) \<times> text_bytes list option" where
  "store_verify sha256 dir verified digest byte_count point_count =
     (case store_lines sha256 dir verified digest byte_count point_count of
        (Inl e, verified') \<Rightarrow> (Inl e, verified') | (Inr _, verified') \<Rightarrow> (Inr (), verified'))"

fun parse_points :: "(text_bytes \<Rightarrow> json option) \<Rightarrow> text_bytes list \<Rightarrow> artifact_error + json list" where
  "parse_points loads [] = Inr []"
| "parse_points loads (line # lines) =
     (case loads line of
        None \<Rightarrow> Inl Json_Decode
      | Some item \<Rightarrow>
          (case item of
             JObj kvs \<Rightarrow>
               (case parse_points loads lines of Inl e \<Rightarrow> Inl e | Inr items \<Rightarrow> Inr (JObj kvs # items))
           | _ \<Rightarrow> Inl Bad_Point_Format))"

definition store_read ::
  "(text_bytes \<Rightarrow> text_bytes) \<Rightarrow> (text_bytes \<Rightarrow> json option) \<Rightarrow> directory \<Rightarrow> text_bytes list option \<Rightarrow>
   text_bytes \<Rightarrow> int \<Rightarrow> int \<Rightarrow> artifact_error + json list" where
  "store_read sha256 loads dir verified digest byte_count point_count =
     (case fst (store_lines sha256 dir verified digest byte_count point_count) of
        Inl e \<Rightarrow> Inl e | Inr lines \<Rightarrow> parse_points loads lines)"

subsection \<open>Canonical numbers are faithful\<close>

definition read_unsigned :: "text_bytes \<Rightarrow> int" where
  "read_unsigned body =
     (let whole = takeWhile (\<lambda>c. c \<noteq> CHR ''.'') body; frac = drop (length whole + 1) body
      in int (read_nat whole) * 10000 + int (read_nat (frac @ replicate (4 - length frac) CHR ''0'')))"

definition read_scaled :: "text_bytes \<Rightarrow> int" where
  "read_scaled s =
     (if s \<noteq> [] \<and> hd s = CHR ''-'' then - read_unsigned (tl s) else read_unsigned s)"

lemma rstrip_pad: "rstrip c s @ replicate (length s - length (rstrip c s)) c = s"
proof (induction s rule: rev_induct)
  case Nil
  then show ?case by (simp add: rstrip_def)
next
  case (snoc x s)
  show ?case
  proof (cases "x = c")
    case True
    have "length (rstrip c s) \<le> length s"
      using length_dropWhile_le [of _ "rev s"] by (simp add: rstrip_def)
    then have "replicate (length (s @ [x]) - length (rstrip c (s @ [x]))) c =
        replicate (length s - length (rstrip c s)) c @ [c]"
      using True by (simp add: rstrip_def Suc_diff_le replicate_append_same)
    then show ?thesis using True snoc by (simp add: rstrip_def flip: append_assoc)
  next
    case False
    then show ?thesis by (simp add: rstrip_def)
  qed
qed

lemma rstrip_append:
  "rstrip c (s @ t) = (if rstrip c t = [] then rstrip c s else s @ rstrip c t)"
  by (simp add: rstrip_def dropWhile_append)

lemma rstrip_other [simp]: "x \<noteq> c \<Longrightarrow> rstrip c (s @ [x]) = s @ [x]"
  by (simp add: rstrip_def)

lemma set_rstrip: "set (rstrip c s) \<subseteq> set s"
  by (auto simp: rstrip_def dest: set_dropWhileD)

lemma rstrip_id: "c \<notin> set s \<Longrightarrow> rstrip c s = s"
  by (cases s rule: rev_cases) (auto simp: rstrip_def)

lemma digits_no_mark:
  "list_all is_digit s \<Longrightarrow> CHR ''.'' \<notin> set s \<and> CHR ''-'' \<notin> set s"
  by (auto simp: list_all_iff is_digit_def char_in_def)

lemma pad4_digits:
  assumes "0 \<le> f" "f < 10000"
  shows "list_all is_digit (pad4 f) \<and> length (pad4 f) = 4 \<and> read_nat (pad4 f) = nat f"
proof -
  define k where "k = nat f"
  have f: "f = int k" and k: "k < 10000" using assms by (simp_all add: k_def)
  have "k mod 100 div 10 = k div 10 mod 10"
    using mod_mult2_eq [of k 10 10] by simp
  then have "pad4 f = [digit_char (k div 1000), digit_char (k div 100 mod 10),
      digit_char (k div 10 mod 10), digit_char (k mod 10)]"
    using k by (simp add: pad4_def pad2_def f nat_div_distrib nat_mod_distrib div_mult2_eq
        flip: zdiv_int zmod_int) (simp add: mod_mod_cancel div_mult2_eq [symmetric])
  moreover have "1000 * (k div 1000) + 100 * (k div 100 mod 10) + 10 * (k div 10 mod 10) + k mod 10 = k"
  proof -
    define a b c where "a = k div 10" and "b = a div 10" and "c = b div 10"
    have "k div 100 = b" "k div 1000 = c"
      using div_mult2_eq [of k 10 10] div_mult2_eq [of k 10 100] div_mult2_eq [of a 10 10]
      by (simp_all add: a_def b_def c_def)
    moreover have "10 * a + k mod 10 = k" "10 * b + a mod 10 = a" "10 * c + b mod 10 = b"
      by (simp_all add: a_def b_def c_def)
    ultimately show ?thesis by (simp flip: a_def)
  qed
  ultimately show ?thesis using k by (simp add: read_nat_def f algebra_simps)
qed

definition number_text :: "int \<Rightarrow> text_bytes" where
  "number_text n = (if n = 0 then ''0'' else rstrip CHR ''.'' (rstrip CHR ''0'' (fixed_text n)))"

lemma number_text_shape:
  defines "pre n \<equiv> (if n < 0 then ''-'' else [])"
    and "frac n \<equiv> rstrip CHR ''0'' (pad4 (\<bar>n\<bar> mod 10000))"
  shows "rstrip CHR ''.'' (rstrip CHR ''0'' (fixed_text n)) =
    pre n @ show_nat (nat (\<bar>n\<bar> div 10000)) @ (if frac n = [] then [] else ''.'' @ frac n)"
proof -
  let ?w = "show_nat (nat (\<bar>n\<bar> div 10000))"
  have w: "CHR ''.'' \<notin> set (pre n @ ?w)"
    using digits_no_mark [OF show_nat_digits] by (auto simp: pre_def)
  have "list_all is_digit (pad4 (\<bar>n\<bar> mod 10000))" using pad4_digits by simp
  then have "CHR ''.'' \<notin> set (frac n)"
    using digits_no_mark set_rstrip by (fastforce simp: frac_def)
  then have f: "rstrip CHR ''.'' (frac n) = frac n" by (rule rstrip_id)
  have "rstrip CHR ''0'' (fixed_text n) = (pre n @ ?w @ ''.'') @ frac n"
  proof (cases "frac n = []")
    case True
    then have "rstrip CHR ''0'' (fixed_text n) = rstrip CHR ''0'' ((pre n @ ?w) @ [CHR ''.''])"
      using rstrip_append [of "CHR ''0''" "pre n @ ?w @ ''.''" "pad4 (\<bar>n\<bar> mod 10000)"]
      by (simp add: fixed_text_def pre_def frac_def)
    also have "\<dots> = (pre n @ ?w) @ [CHR ''.'']" by (rule rstrip_other) simp
    finally show ?thesis using True by simp
  next
    case False
    then show ?thesis
      using rstrip_append [of "CHR ''0''" "pre n @ ?w @ ''.''" "pad4 (\<bar>n\<bar> mod 10000)"]
      by (simp add: fixed_text_def pre_def frac_def)
  qed
  moreover have "rstrip CHR ''.'' (pre n @ ?w @ ''.'') = pre n @ ?w"
    using rstrip_append [of "CHR ''.''" "pre n @ ?w" "''.''"] rstrip_id [OF w]
    by (simp add: rstrip_def)
  ultimately show ?thesis
    using rstrip_append [of "CHR ''.''" "pre n @ ?w @ ''.''" "frac n"] f by simp
qed

lemma read_unsigned_parts:
  assumes "CHR ''.'' \<notin> set w"
  shows "read_unsigned (w @ (if f = [] then [] else ''.'' @ f)) =
    int (read_nat w) * 10000 + int (read_nat (f @ replicate (4 - length f) CHR ''0''))"
proof -
  have "takeWhile (\<lambda>c. c \<noteq> CHR ''.'') w = w" using assms by (auto intro: takeWhile_eq_all_conv [THEN iffD2])
  then show ?thesis by (simp add: read_unsigned_def Let_def takeWhile_append takeWhile_eq_all_conv)
qed

lemma read_number_text: "read_scaled (number_text n) = n"
proof (cases "n = 0")
  case True
  then show ?thesis
    by (simp add: number_text_def read_scaled_def read_unsigned_def read_nat_def digit_value_def numeral_eq_Suc)
next
  case False
  define w f where "w = nat (\<bar>n\<bar> div 10000)" and "f = rstrip CHR ''0'' (pad4 (\<bar>n\<bar> mod 10000))"
  let ?body = "show_nat w @ (if f = [] then [] else ''.'' @ f)"
  have shape: "number_text n = (if n < 0 then ''-'' else []) @ ?body"
    using False number_text_shape [of n] by (simp add: number_text_def w_def f_def)
  have mark: "CHR ''.'' \<notin> set (show_nat w)" "CHR ''-'' \<notin> set (show_nat w)"
    using digits_no_mark [OF show_nat_digits] by simp_all
  then have first: "hd ?body \<noteq> CHR ''-''" "?body \<noteq> []"
    by (metis hd_append2 hd_in_set show_nat_nonempty) simp
  have p4: "length (pad4 (\<bar>n\<bar> mod 10000)) = 4" "read_nat (pad4 (\<bar>n\<bar> mod 10000)) = nat (\<bar>n\<bar> mod 10000)"
    using pad4_digits [of "\<bar>n\<bar> mod 10000"] by simp_all
  have "f @ replicate (4 - length f) CHR ''0'' = pad4 (\<bar>n\<bar> mod 10000)"
    using rstrip_pad [of "CHR ''0''" "pad4 (\<bar>n\<bar> mod 10000)"] p4(1) by (simp add: f_def)
  then have "read_unsigned ?body = int w * 10000 + \<bar>n\<bar> mod 10000"
    by (simp only: read_unsigned_parts [OF mark(1)] p4(2) read_show_nat)
  also have "\<dots> = \<bar>n\<bar>" by (simp add: w_def pos_imp_zdiv_nonneg_iff)
  finally have "read_unsigned ?body = \<bar>n\<bar>" .
  then show ?thesis
    using first by (cases "n < 0") (simp_all only: read_scaled_def shape, simp_all)
qed

lemma canonical_number_text:
  "canonical_export_number x = (case quantize4 x of None \<Rightarrow> Inl Invalid_Operation | Some n \<Rightarrow> Inr (number_text n))"
  by (simp add: canonical_export_number_def number_text_def split: option.split)

subsection \<open>What a prepared chunk satisfies\<close>

definition chunk_line :: "json \<Rightarrow> text_bytes" where
  "chunk_line point = encode point @ [CHR 0x0A]"

lemma prepare_lines_Inr:
  "prepare_lines points parts count = Inr (payload, n) \<Longrightarrow>
    payload = parts @ concat (map chunk_line points) \<and> n = count + length points"
proof (induction points arbitrary: parts count)
  case Nil
  then show ?case by simp
next
  case (Cons point points)
  from Cons.prems have "prepare_lines points (parts @ chunk_line point) (count + 1) = Inr (payload, n)"
    by (auto simp: chunk_line_def Let_def split: if_splits)
  from Cons.IH [OF this] show ?case by simp
qed

lemma prepare_lines_bounds:
  "prepare_lines points parts count = Inr (payload, n) \<Longrightarrow>
    count \<le> MAX_CHUNK_POINTS \<Longrightarrow> length parts \<le> MAX_CHUNK_BYTES \<Longrightarrow>
    n \<le> MAX_CHUNK_POINTS \<and> length payload \<le> MAX_CHUNK_BYTES"
proof (induction points arbitrary: parts count)
  case Nil
  then show ?case by simp
next
  case (Cons point points)
  let ?line = "encode point @ [CHR 0x0A]"
  from Cons.prems(1) have "count + 1 \<le> MAX_CHUNK_POINTS"
    and "length (parts @ ?line) \<le> MAX_CHUNK_BYTES"
    and "prepare_lines points (parts @ ?line) (count + 1) = Inr (payload, n)"
    by (auto simp: Let_def split: if_splits)
  with Cons.IH show ?case by blast
qed

lemma prepare_lines_Inl:
  "prepare_lines points parts count = Inl e \<Longrightarrow>
    (e = Point_Limit \<and> MAX_CHUNK_POINTS < count + length points) \<or>
    (e = Byte_Limit \<and> MAX_CHUNK_BYTES < length parts + length (concat (map chunk_line points)))"
proof (induction points arbitrary: parts count)
  case Nil
  then show ?case by simp
next
  case (Cons point points)
  let ?line = "encode point @ [CHR 0x0A]"
  consider "MAX_CHUNK_POINTS < count + 1" | "\<not> MAX_CHUNK_POINTS < count + 1" "MAX_CHUNK_BYTES < length parts + length ?line"
    | "\<not> MAX_CHUNK_POINTS < count + 1" "\<not> MAX_CHUNK_BYTES < length parts + length ?line"
    by blast
  then show ?case
  proof cases
    case 1
    with Cons.prems show ?thesis by simp
  next
    case 2
    with Cons.prems show ?thesis by (simp add: chunk_line_def)
  next
    case 3
    with Cons.prems have "prepare_lines points (parts @ ?line) (count + 1) = Inl e"
      by (simp add: Let_def)
    from Cons.IH [OF this] show ?thesis by (auto simp: chunk_line_def)
  qed
qed

lemma split_lines_from_line:
  "no_newline l \<Longrightarrow> split_lines_from acc (l @ CHR 0x0A # s) = (acc @ l) # split_lines_from [] s"
  by (induction l arbitrary: acc) auto

lemma split_lines_concat: "split_lines (concat (map chunk_line points)) = map encode points"
  unfolding split_lines_def
proof (induction points)
  case Nil
  then show ?case by simp
next
  case (Cons point points)
  have "split_lines_from [] (encode point @ CHR 0x0A # concat (map chunk_line points)) =
      encode point # split_lines_from [] (concat (map chunk_line points))"
    using split_lines_from_line [OF no_newline_encode] by (metis append_Nil)
  with Cons show ?case by (simp add: chunk_line_def [of point])
qed

lemma prepare_export_chunk_Inr:
  assumes "prepare_export_chunk sha256 points collected = Inr chunk"
  shows "pc_payload chunk = concat (map chunk_line points)" "pc_points chunk = length points"
    "pc_digest chunk = sha256 (pc_payload chunk)" "collected = Aware (pc_collected chunk)"
    "pc_points chunk \<le> MAX_CHUNK_POINTS" "length (pc_payload chunk) \<le> MAX_CHUNK_BYTES"
    "split_lines (pc_payload chunk) = map encode points"
proof -
  from assms obtain at payload n where c: "collected = Aware at"
    and p: "prepare_lines points [] 0 = Inr (payload, n)"
    and chunk: "chunk = \<lparr>pc_payload = payload, pc_digest = sha256 payload, pc_points = n, pc_collected = at\<rparr>"
    by (auto simp: prepare_export_chunk_def artifact_utc_def split: sum.splits prod.splits py_datetime.splits)
  have "payload = concat (map chunk_line points)" "n = length points"
    using prepare_lines_Inr [OF p] by simp_all
  moreover have "n \<le> MAX_CHUNK_POINTS" "length payload \<le> MAX_CHUNK_BYTES"
    using prepare_lines_bounds [OF p] by simp_all
  ultimately show "pc_payload chunk = concat (map chunk_line points)" "pc_points chunk = length points"
    "pc_digest chunk = sha256 (pc_payload chunk)" "collected = Aware (pc_collected chunk)"
    "pc_points chunk \<le> MAX_CHUNK_POINTS" "length (pc_payload chunk) \<le> MAX_CHUNK_BYTES"
    "split_lines (pc_payload chunk) = map encode points"
    by (simp_all add: chunk c split_lines_concat)
qed

lemma store_publish_Inr:
  assumes "store_publish sha256 now chunk dir = Inr dir'"
  shows "hex64 (pc_digest chunk)" "sha256 (pc_payload chunk) = pc_digest chunk"
    "length (pc_payload chunk) \<le> MAX_CHUNK_BYTES"
    "entry_at name dir' =
       (if name = pc_digest chunk @ ''.jsonl''
        then Some \<lparr>de_name = name, de_kind = Regular_File, de_content = pc_payload chunk, de_mtime = now\<rparr>
        else entry_at name dir)"
  using assms
  by (auto simp: store_publish_def store_path_def row_of_upsert split: if_splits option.splits)

lemma store_publish_lines:
  assumes "prepare_export_chunk sha256 points collected = Inr chunk"
    and "store_publish sha256 now chunk dir = Inr dir'"
  shows "store_lines sha256 dir' verified (pc_digest chunk) (int (length (pc_payload chunk)))
      (int (pc_points chunk)) = (Inr (map encode points), map_option (\<lambda>ds. pc_digest chunk # ds) verified)"
proof -
  note chunk = prepare_export_chunk_Inr [OF assms(1)]
  note pub = store_publish_Inr [OF assms(2)]
  have "take (MAX_CHUNK_BYTES + 1) (pc_payload chunk) = pc_payload chunk"
    using chunk(6) by simp
  then show ?thesis
    using chunk(5,6,7) pub(1,2)
    by (simp add: store_lines_def store_path_def pub(4) Let_def chunk(2) flip: chunk(3))
qed

lemma parse_points_encoded:
  assumes "\<And>kvs. JObj kvs \<in> set points \<Longrightarrow> loads (encode (JObj kvs)) = Some (JObj kvs)"
    and "\<forall>p \<in> set points. \<exists>kvs. p = JObj kvs"
  shows "parse_points loads (map encode points) = Inr points"
  using assms
proof (induction points)
  case Nil
  then show ?case by simp
next
  case (Cons p points)
  then obtain kvs where p: "p = JObj kvs" by auto
  have "parse_points loads (map encode points) = Inr points"
    using Cons by simp
  moreover have "loads (encode p) = Some p" using Cons.prems(1) p by simp
  ultimately show ?case by (simp add: p del: encode.simps)
qed

end
