(* ===== verification/Artifact_Guard.thy ===== *)
theory Artifact_Guard
  imports Prelude
begin

section \<open>The artifact guard: two reader slots, a turnstile and one lock (export_artifacts.py)\<close>

text \<open>
  \<open>ExportArtifactStore.guard\<close> composes four advisory file locks.  A reader takes one of the
  \<open>.export-read-N.lock\<close> slots, then the \<open>.export-admission.lock\<close> turnstile, then \<open>.export.lock\<close>
  shared, and lets the turnstile go before it reads.  A writer takes the turnstile, then
  \<open>.export.lock\<close> exclusively, and keeps both until it leaves.  Every wait has a deadline, after
  which the process gives back what it holds.  The state maps each process to the point of the
  guard it is at; who holds which lock is read off that point.
\<close>

definition MAX_SHARED_ARTIFACT_READERS :: nat where
  "MAX_SHARED_ARTIFACT_READERS = 2"

datatype phase =
    Outside
  | Slot nat              \<comment> \<open>reader with its slot, waiting for the turnstile\<close>
  | Slot_Turn nat         \<comment> \<open>reader with slot and turnstile, waiting for the shared lock\<close>
  | Slot_Turn_Shared nat  \<comment> \<open>reader with all three, about to close the turnstile\<close>
  | Reading nat           \<comment> \<open>reader inside: slot and shared lock\<close>
  | Turn                  \<comment> \<open>writer with the turnstile, waiting for the exclusive lock\<close>
  | Writing               \<comment> \<open>writer inside: turnstile and exclusive lock\<close>

type_synonym guard_state = "nat \<Rightarrow> phase"

fun slot_of :: "phase \<Rightarrow> nat option" where
  "slot_of (Slot i) = Some i"
| "slot_of (Slot_Turn i) = Some i"
| "slot_of (Slot_Turn_Shared i) = Some i"
| "slot_of (Reading i) = Some i"
| "slot_of _ = None"

fun holds_turnstile :: "phase \<Rightarrow> bool" where
  "holds_turnstile (Slot_Turn _) = True"
| "holds_turnstile (Slot_Turn_Shared _) = True"
| "holds_turnstile Turn = True"
| "holds_turnstile Writing = True"
| "holds_turnstile _ = False"

fun holds_shared :: "phase \<Rightarrow> bool" where
  "holds_shared (Slot_Turn_Shared _) = True"
| "holds_shared (Reading _) = True"
| "holds_shared _ = False"

definition holds_exclusive :: "phase \<Rightarrow> bool" where
  "holds_exclusive ph \<longleftrightarrow> ph = Writing"

definition slot_free :: "guard_state \<Rightarrow> nat \<Rightarrow> bool" where
  "slot_free g i \<longleftrightarrow> (\<forall>q. slot_of (g q) \<noteq> Some i)"

definition turnstile_free :: "guard_state \<Rightarrow> bool" where
  "turnstile_free g \<longleftrightarrow> (\<forall>q. \<not> holds_turnstile (g q))"

definition no_exclusive :: "guard_state \<Rightarrow> bool" where
  "no_exclusive g \<longleftrightarrow> (\<forall>q. \<not> holds_exclusive (g q))"

definition no_shared :: "guard_state \<Rightarrow> bool" where
  "no_shared g \<longleftrightarrow> (\<forall>q. \<not> holds_shared (g q))"

inductive guard_step :: "guard_state \<Rightarrow> guard_state \<Rightarrow> bool" where
  take_slot: "g p = Outside \<Longrightarrow> i < MAX_SHARED_ARTIFACT_READERS \<Longrightarrow> slot_free g i \<Longrightarrow>
    guard_step g (g(p := Slot i))"
| reader_turn: "g p = Slot i \<Longrightarrow> turnstile_free g \<Longrightarrow> guard_step g (g(p := Slot_Turn i))"
| lock_shared: "g p = Slot_Turn i \<Longrightarrow> no_exclusive g \<Longrightarrow> guard_step g (g(p := Slot_Turn_Shared i))"
| pass_turn: "g p = Slot_Turn_Shared i \<Longrightarrow> guard_step g (g(p := Reading i))"
| leave_reader: "g p = Reading i \<Longrightarrow> guard_step g (g(p := Outside))"
| writer_turn: "g p = Outside \<Longrightarrow> turnstile_free g \<Longrightarrow> guard_step g (g(p := Turn))"
| lock_exclusive: "g p = Turn \<Longrightarrow> no_exclusive g \<Longrightarrow> no_shared g \<Longrightarrow> guard_step g (g(p := Writing))"
| leave_writer: "g p = Writing \<Longrightarrow> guard_step g (g(p := Outside))"
| give_up: "g p = Slot i \<or> g p = Slot_Turn i \<or> g p = Turn \<Longrightarrow> guard_step g (g(p := Outside))"

definition guard_start :: "guard_state \<Rightarrow> bool" where
  "guard_start g \<longleftrightarrow> (\<forall>p. g p = Outside)"

subsection \<open>The invariant\<close>

definition guard_inv :: "guard_state \<Rightarrow> bool" where
  "guard_inv g \<longleftrightarrow>
     (\<forall>p q. holds_turnstile (g p) \<longrightarrow> holds_turnstile (g q) \<longrightarrow> p = q)
     \<and> (\<forall>p q i. slot_of (g p) = Some i \<longrightarrow> slot_of (g q) = Some i \<longrightarrow> p = q)
     \<and> (\<forall>p i. slot_of (g p) = Some i \<longrightarrow> i < MAX_SHARED_ARTIFACT_READERS)
     \<and> (\<forall>p q. g p = Writing \<longrightarrow> \<not> holds_shared (g q))"

lemma guard_inv_start: "guard_start g \<Longrightarrow> guard_inv g"
  by (simp add: guard_start_def guard_inv_def)

lemmas guard_lock_defs = slot_free_def turnstile_free_def no_exclusive_def no_shared_def
  holds_exclusive_def

lemma turnstile_after:
  "guard_step g h \<Longrightarrow> \<forall>p q. holds_turnstile (g p) \<longrightarrow> holds_turnstile (g q) \<longrightarrow> p = q \<Longrightarrow>
    holds_turnstile (h p) \<Longrightarrow> holds_turnstile (h q) \<Longrightarrow> p = q"
  by (induction rule: guard_step.induct) (force simp: guard_lock_defs split: if_splits)+

lemma slots_after:
  "guard_step g h \<Longrightarrow> \<forall>p q i. slot_of (g p) = Some i \<longrightarrow> slot_of (g q) = Some i \<longrightarrow> p = q \<Longrightarrow>
    slot_of (h p) = Some i \<Longrightarrow> slot_of (h q) = Some i \<Longrightarrow> p = q"
  by (induction rule: guard_step.induct) (force simp: guard_lock_defs split: if_splits)+

lemma slot_bound_after:
  "guard_step g h \<Longrightarrow> \<forall>p i. slot_of (g p) = Some i \<longrightarrow> i < MAX_SHARED_ARTIFACT_READERS \<Longrightarrow>
    slot_of (h p) = Some i \<Longrightarrow> i < MAX_SHARED_ARTIFACT_READERS"
  by (induction rule: guard_step.induct)
    (simp_all split: if_splits, (metis slot_of.simps(1-4) option.inject)+)

lemma exclusion_after:
  "guard_step g h \<Longrightarrow> \<forall>p q. g p = Writing \<longrightarrow> \<not> holds_shared (g q) \<Longrightarrow> h p = Writing \<Longrightarrow>
    \<not> holds_shared (h q)"
  by (induction rule: guard_step.induct)
    (simp_all add: guard_lock_defs split: if_splits, (metis holds_shared.simps)+)

lemma guard_inv_step: "guard_inv g \<Longrightarrow> guard_step g h \<Longrightarrow> guard_inv h"
  unfolding guard_inv_def
  by (intro conjI allI impI) (metis turnstile_after, metis slots_after, metis slot_bound_after,
      metis exclusion_after)

interpretation guard_system: step_invariant guard_start guard_step guard_inv
  by unfold_locales (blast intro: guard_inv_start guard_inv_step)+

lemma guard_invD:
  assumes "guard_inv g"
  shows "holds_turnstile (g p) \<Longrightarrow> holds_turnstile (g q) \<Longrightarrow> p = q"
    "slot_of (g p) = Some i \<Longrightarrow> slot_of (g q) = Some i \<Longrightarrow> p = q"
    "slot_of (g p) = Some i \<Longrightarrow> i < MAX_SHARED_ARTIFACT_READERS"
    "g p = Writing \<Longrightarrow> \<not> holds_shared (g q)"
  using assms unfolding guard_inv_def by blast+

lemma shared_slot: "holds_shared ph \<Longrightarrow> \<exists>i. slot_of ph = Some i"
  by (cases ph) auto

lemma readers_bound:
  assumes "guard_inv g"
  shows "finite {p. holds_shared (g p)} \<and> card {p. holds_shared (g p)} \<le> MAX_SHARED_ARTIFACT_READERS"
proof -
  let ?R = "{p. holds_shared (g p)}" and ?f = "\<lambda>p. the (slot_of (g p))"
  have "inj_on ?f ?R"
  proof (rule inj_onI)
    fix p q assume "p \<in> ?R" "q \<in> ?R" "?f p = ?f q"
    then obtain i where "slot_of (g p) = Some i" "slot_of (g q) = Some i"
      by (auto dest!: shared_slot)
    then show "p = q" by (rule guard_invD(2) [OF assms])
  qed
  moreover have "?f ` ?R \<subseteq> {..< MAX_SHARED_ARTIFACT_READERS}"
  proof
    fix n assume "n \<in> ?f ` ?R"
    then obtain p i where "n = i" "slot_of (g p) = Some i"
      by (auto dest!: shared_slot)
    then show "n \<in> {..<MAX_SHARED_ARTIFACT_READERS}"
      using guard_invD(3) [OF assms] by blast
  qed
  ultimately show ?thesis
    by (metis card_inj_on_le card_lessThan finite_lessThan inj_on_finite)
qed

lemma writer_blocks_admission:
  assumes "guard_inv g" "guard_step g h" and writer: "g w = Turn \<or> g w = Writing"
    and new: "holds_shared (h q)"
  shows "holds_shared (g q)"
  using assms(2)
proof cases
  case (lock_shared p i)
  have "w = p" using guard_invD(1) [OF assms(1), of w p] writer lock_shared by auto
  with writer lock_shared show ?thesis by simp
qed (use new in \<open>auto split: if_splits\<close>)

end
