(* ===== verification/Artifact_Properties.thy ===== *)
theory Artifact_Properties
  imports Export_Scopes Export_Artifacts Artifact_Guard
begin

section \<open>What the artifact store and its guard promise\<close>

text \<open>
  The properties of Export_Artifacts (canonical numbers, prepared chunks, the round trip through
  the directory) and of the guard's step relation in Artifact_Guard.
\<close>

subsection \<open>Rounding\<close>

fun dec_value :: "decimal \<Rightarrow> rat" where
  "dec_value (Dec c e) = (if 0 \<le> e then of_int c * 10 ^ nat e else of_int c / 10 ^ nat (- e))"

lemma half_up_nonneg:
  assumes "0 < d"
  shows "\<bar>2 * (((2 * n + d) div (2 * d)) * d - n)\<bar> \<le> (d :: int)"
proof -
  define x m where "x = (2 * n + d) div (2 * d) * d" and "m = (2 * n + d) mod (2 * d)"
  have "(2 * n + d) div (2 * d) * (2 * d) + m = 2 * n + d" unfolding m_def by (rule div_mult_mod_eq)
  then have "2 * x + m = 2 * n + d" by (simp add: x_def algebra_simps)
  moreover have "0 \<le> m" "m < 2 * d" using assms by (simp_all add: m_def)
  ultimately have "\<bar>2 * (x - n)\<bar> \<le> d" unfolding abs_le_iff by auto
  then show ?thesis by (simp only: x_def)
qed

lemma div_half_up_bound:
  assumes "0 < d"
  shows "\<bar>2 * (div_half_up n d * d - n)\<bar> \<le> d"
proof (cases "n < 0")
  case True
  have "\<bar>2 * (((2 * - n + d) div (2 * d)) * d - - n)\<bar> \<le> d" by (rule half_up_nonneg [OF assms])
  moreover have "div_half_up n d * d - n = - (((2 * - n + d) div (2 * d)) * d - - n)"
    using True by (simp add: div_half_up_def)
  ultimately show ?thesis by (simp add: abs_minus_commute)
next
  case False
  then show ?thesis using half_up_nonneg [OF assms, of n] by (simp add: div_half_up_def)
qed

lemma half_quotient:
  fixes d q c :: rat
  assumes "0 < d" "\<bar>2 * (q * d - c)\<bar> \<le> d"
  shows "\<bar>q - c / d\<bar> \<le> 1 / 2"
proof -
  have "q - c / d = (q * d - c) / d" using assms(1) by (simp add: field_simps)
  moreover have "\<bar>q * d - c\<bar> \<le> d / 2" using assms(2) unfolding abs_le_iff by auto
  ultimately show ?thesis using assms(1) by (simp add: abs_divide divide_le_eq)
qed

lemma scaled4_half: "\<bar>of_int (scaled4 x) - 10000 * dec_value x\<bar> \<le> 1 / 2"
proof (cases x)
  case (Dec c e)
  consider "0 \<le> e" | "- 4 \<le> e" "e < 0" | "e < - 4" by linarith
  then show ?thesis
  proof cases
    case 1
    then have "nat (e + 4) = nat e + 4" by simp
    then show ?thesis using 1 by (simp add: Dec power_add)
  next
    case 2
    then have "e = - 1 \<or> e = - 2 \<or> e = - 3 \<or> e = - 4" by linarith
    then show ?thesis by (elim disjE) (simp_all add: Dec eval_nat_numeral)
  next
    case 3
    let ?d = "10 ^ nat (- 4 - e) :: int"
    have n: "nat (- e) = nat (- 4 - e) + 4" using 3 by simp
    have p: "(10 :: rat) ^ nat (- e) = of_int ?d * 10000" by (simp add: n power_add)
    let ?q = "div_half_up c ?d"
    have d: "0 < ?d" by simp
    have "rat_of_int \<bar>2 * (?q * ?d - c)\<bar> \<le> rat_of_int ?d"
      using div_half_up_bound [OF d, of c] by (simp only: of_int_le_iff)
    then have "\<bar>2 * (rat_of_int ?q * rat_of_int ?d - rat_of_int c)\<bar> \<le> rat_of_int ?d"
      by (simp only: of_int_abs of_int_mult of_int_diff of_int_numeral)
    moreover have "0 < rat_of_int ?d" by simp
    ultimately have "\<bar>rat_of_int ?q - rat_of_int c / rat_of_int ?d\<bar> \<le> 1 / 2"
      by (rule half_quotient [rotated])
    then show ?thesis using 3 p by (simp add: Dec)
  qed
qed

subsection \<open>The properties of the store\<close>

text \<open>
  C12: the canonical text of a number is its value rounded to four decimals, half away from zero, and
  nothing else: it reads back as that multiple of 1/10000, it is within half a unit of the number,
  and two numbers share a text exactly when they round to the same value.
\<close>

theorem canonical_number_faithful:
  assumes "canonical_export_number x = Inr s" "canonical_export_number y = Inr t"
  shows "(s = t \<longleftrightarrow> scaled4 x = scaled4 y) \<and> read_scaled s = scaled4 x
    \<and> \<bar>of_int (read_scaled s) - 10000 * dec_value x\<bar> \<le> 1 / 2"
proof -
  have s: "s = number_text (scaled4 x)" "t = number_text (scaled4 y)"
    using assms by (auto simp: canonical_number_text quantize4_def split: if_splits)
  have "s = t \<longleftrightarrow> scaled4 x = scaled4 y"
    unfolding s by (metis read_number_text)
  then show ?thesis using scaled4_half [of x] by (simp add: s read_number_text)
qed

theorem canonical_number_faithful_witness:
  "(''0.13'' = ''-2'') = (scaled4 (Dec 129996 (- 6)) = scaled4 (Dec (- 2) 0)) \<and> read_scaled ''0.13'' = 1300"
proof -
  have a: "canonical_export_number (Dec 129996 (- 6)) = Inr ''0.13''" by code_simp
  have b: "canonical_export_number (Dec (- 2) 0) = Inr ''-2''" by code_simp
  have "scaled4 (Dec 129996 (- 6)) = 1300" by (simp add: div_half_up_def)
  with canonical_number_faithful [OF a b] show ?thesis by simp
qed

text \<open>A chunk is prepared exactly when its collection time has a timezone and its points and bytes
  are within the bounds; then it holds every point in order, one line each, under the digest of its
  content.
\<close>

theorem prepared_chunk_is_complete:
  "(case prepare_export_chunk sha256 points collected of
      Inr chunk \<Rightarrow> collected = Aware (pc_collected chunk) \<and> pc_points chunk = length points
        \<and> length points \<le> 5000 \<and> length (pc_payload chunk) \<le> 8388608
        \<and> split_lines (pc_payload chunk) = map encode points \<and> pc_digest chunk = sha256 (pc_payload chunk)
    | Inl e \<Rightarrow> (e = Timezone_Missing \<and> (\<exists>t. collected = Naive t))
        \<or> (e = Point_Limit \<and> 5000 < length points)
        \<or> (e = Byte_Limit \<and> 8388608 < length (concat (map chunk_line points))))"
proof (cases "prepare_export_chunk sha256 points collected")
  case (Inr chunk)
  from prepare_export_chunk_Inr [OF Inr] show ?thesis
    unfolding Inr sum.case by (simp add: MAX_CHUNK_POINTS_def MAX_CHUNK_BYTES_def)
next
  case (Inl e)
  show ?thesis
  proof (cases collected)
    case (Naive t)
    with Inl show ?thesis by (auto simp: prepare_export_chunk_def artifact_utc_def)
  next
    case (Aware i)
    with Inl have "prepare_lines points [] 0 = Inl e"
      by (auto simp: prepare_export_chunk_def artifact_utc_def split: sum.splits)
    from prepare_lines_Inl [OF this] show ?thesis
      by (auto simp: Inl MAX_CHUNK_POINTS_def MAX_CHUNK_BYTES_def)
  qed
qed

text \<open>
  C11: a prepared and published chunk is there for every reader: the store finds the file present
  with its size, verifies it, and, where the JSON parser reads back what the encoder wrote, returns
  exactly the points that were prepared; no other file has changed.
\<close>

theorem published_chunk_reads_back:
  assumes "prepare_export_chunk sha256 points collected = Inr chunk"
    and "store_publish sha256 now chunk dir = Inr dir'"
    and "\<And>kvs. JObj kvs \<in> set points \<Longrightarrow> loads (encode (JObj kvs)) = Some (JObj kvs)"
    and "\<forall>p \<in> set points. \<exists>kvs. p = JObj kvs"
  shows "store_present dir' (pc_digest chunk) (int (length (pc_payload chunk))) = Inr ()
    \<and> fst (store_verify sha256 dir' verified (pc_digest chunk) (int (length (pc_payload chunk))) (int (pc_points chunk))) = Inr ()
    \<and> store_read sha256 loads dir' verified (pc_digest chunk) (int (length (pc_payload chunk))) (int (pc_points chunk)) = Inr points
    \<and> (\<forall>n. n \<noteq> pc_digest chunk @ ''.jsonl'' \<longrightarrow> entry_at n dir' = entry_at n dir)"
  using store_publish_lines [OF assms(1,2), of verified] store_publish_Inr [OF assms(2)]
    parse_points_encoded [OF assms(3,4)]
  by (simp add: store_present_def store_path_def store_verify_def store_read_def)

theorem published_chunk_reads_back_witness:
  "store_read (\<lambda>s. replicate 64 (CHR ''a'')) (\<lambda>s. Some (JObj [])) [\<lparr>de_name = replicate 64 (CHR ''a'') @ ''.jsonl'',
      de_kind = Regular_File, de_content = encode (JObj []) @ [CHR 0x0A], de_mtime = 0\<rparr>] None
    (replicate 64 (CHR ''a'')) (int (length (encode (JObj []) @ [CHR 0x0A]))) 1 = Inr [JObj []]"
proof -
  let ?c = "\<lparr>pc_payload = encode (JObj []) @ [CHR 0x0A], pc_digest = replicate 64 (CHR ''a''), pc_points = 1, pc_collected = 0\<rparr>"
  have hex: "hex64 (replicate 64 (CHR ''a''))"
    by (simp add: hex64_def list_all_iff is_hex_digit_def is_digit_def char_in_def)
  have a: "prepare_export_chunk (\<lambda>s. replicate 64 (CHR ''a'')) [JObj []] (Aware 0) = Inr ?c"
    by (simp add: prepare_export_chunk_def artifact_utc_def MAX_CHUNK_POINTS_def MAX_CHUNK_BYTES_def Let_def)
  have b: "store_publish (\<lambda>s. replicate 64 (CHR ''a'')) 0 ?c [] = Inr [\<lparr>de_name = replicate 64 (CHR ''a'') @ ''.jsonl'',
      de_kind = Regular_File, de_content = encode (JObj []) @ [CHR 0x0A], de_mtime = 0\<rparr>]"
    by (simp add: store_publish_def store_path_def hex MAX_CHUNK_BYTES_def upsert_def)
  show ?thesis
    using published_chunk_reads_back [OF a b, of "\<lambda>s. Some (JObj [])" None] by simp
qed

subsection \<open>The properties of the guard\<close>

text \<open>
  C13: in every reachable state of the guard a writer inside is alone: nobody else holds the
  exclusive lock or the turnstile, and no reader is inside.
\<close>

theorem guard_is_exclusive:
  assumes "guard_system.reachable g" "g w = Writing"
  shows "(\<forall>p. p \<noteq> w \<longrightarrow> g p \<noteq> Writing \<and> \<not> holds_turnstile (g p)) \<and> (\<forall>p. \<not> holds_shared (g p))"
proof -
  note inv = guard_system.inv_reachable [OF assms(1)]
  have "\<not> holds_turnstile (g p)" if "p \<noteq> w" for p
    using guard_invD(1) [OF inv, of w p] assms(2) that by auto
  then show ?thesis using guard_invD(4) [OF inv assms(2)] by force
qed

text \<open>
  at most two processes are ever inside as readers.
\<close>

theorem guard_readers_bounded:
  assumes "guard_system.reachable g"
  shows "finite {p. holds_shared (g p)} \<and> card {p. holds_shared (g p)} \<le> 2"
  using readers_bound [OF guard_system.inv_reachable [OF assms]] by (simp add: MAX_SHARED_ARTIFACT_READERS_def)

lemma waiting_run:
  assumes "R\<^sup>*\<^sup>* g h" "guard_inv g" "\<And>a b. R a b \<Longrightarrow> guard_step a b \<and> (a w = Turn \<or> a w = Writing)"
  shows "guard_inv h \<and> {p. holds_shared (h p)} \<subseteq> {p. holds_shared (g p)}"
  using assms(1)
proof (induction rule: rtranclp_induct)
  case base
  then show ?case using assms(2) by simp
next
  case (step a b)
  with assms(3) guard_inv_step writer_blocks_admission [of a b w] show ?case by blast
qed

text \<open>
  A waiting writer is not starved by readers: as long as it holds the turnstile, no process
  becomes a reader, whatever the others do, so the readers it waits for only get fewer; once they
  have left, the exclusive lock is free for it.
\<close>

theorem waiting_writer_is_next:
  assumes "guard_system.reachable g" "(\<lambda>a b. guard_step a b \<and> a w = Turn)\<^sup>*\<^sup>* g h" "h w = Turn"
  shows "{p. holds_shared (h p)} \<subseteq> {p. holds_shared (g p)}
    \<and> ({p. holds_shared (h p)} = {} \<longrightarrow> guard_step h (h(w := Writing)))"
proof -
  have h: "guard_inv h" "{p. holds_shared (h p)} \<subseteq> {p. holds_shared (g p)}"
    using waiting_run [OF assms(2) guard_system.inv_reachable [OF assms(1)], of w] by auto
  have "h q \<noteq> Writing" for q
    using guard_invD(1) [OF h(1), of w q] assms(3) by auto
  then have "no_exclusive h" by (simp add: no_exclusive_def holds_exclusive_def)
  with h(2) assms(3) show ?thesis by (auto simp: no_shared_def intro: lock_exclusive)
qed

definition idle :: guard_state where "idle = (\<lambda>p. Outside)"

lemma idle_reachable: "guard_system.reachable idle"
  by (rule guard_system.reachable_start) (simp add: guard_start_def idle_def)

lemma writer_reachable: "guard_system.reachable (idle(0 := Turn))"
  by (rule guard_system.reachable_step [OF idle_reachable writer_turn]) (simp_all add: idle_def turnstile_free_def)

lemma writing_reachable: "guard_system.reachable (idle(0 := Writing))"
  using guard_system.reachable_step [OF writer_reachable lock_exclusive, of 0]
  by (simp add: idle_def no_exclusive_def holds_exclusive_def no_shared_def)

theorem guard_is_exclusive_witness: "\<not> holds_turnstile ((idle(0 := Writing)) 1)"
  using guard_is_exclusive [OF writing_reachable, of 0] by simp

theorem guard_readers_bounded_witness: "card {p. holds_shared (idle p)} \<le> 2"
  using guard_readers_bounded [OF idle_reachable] by simp

theorem waiting_writer_is_next_witness: "guard_step (idle(0 := Turn)) ((idle(0 := Turn))(0 := Writing))"
  using waiting_writer_is_next [OF writer_reachable rtranclp.rtrancl_refl, of 0] by (simp add: idle_def)

end
