(* ===== verification/Export_Status.thy ===== *)
theory Export_Status
  imports Relational "HOL-Library.Product_Lexorder"
begin

section \<open>The source status table (export_status.py, export_status_scopes.py)\<close>

text \<open>
  One row per source scope with the last terminal of its collection and the next scheduled time,
  and one row per run and dataset with the range of its fetch times.  Every write is one
  \<open>INSERT ... ON CONFLICT DO UPDATE ... WHERE ... RETURNING\<close>: its result says whether a row was
  written.  Text columns are compared bytewise.
\<close>

subsection \<open>Scopes\<close>

datatype source_key = Source_Key (sk_provider: text_bytes) (sk_dataset: text_bytes) (sk_style: text_bytes)

definition key_tuple :: "source_key \<Rightarrow> text_bytes \<times> text_bytes \<times> text_bytes" where
  "key_tuple k = (sk_provider k, sk_dataset k, sk_style k)"

lemma key_tuple_inj: "key_tuple a = key_tuple b \<longleftrightarrow> a = b"
  by (auto simp: key_tuple_def intro: source_key.expand)

text \<open>\<open>@dataclass(order=True)\<close>: keys are ordered as the tuples of their fields.\<close>

instantiation source_key :: linorder
begin

definition less_eq_source_key :: "source_key \<Rightarrow> source_key \<Rightarrow> bool" where
  "less_eq_source_key a b \<longleftrightarrow> key_tuple a \<le> key_tuple b"

definition less_source_key :: "source_key \<Rightarrow> source_key \<Rightarrow> bool" where
  "less_source_key a b \<longleftrightarrow> key_tuple a < key_tuple b"

instance
  by standard (auto simp: less_eq_source_key_def less_source_key_def key_tuple_inj less_le_not_le)

end

definition STYLES :: "text_bytes list" where
  "STYLES = [''observed'', ''nowcast'', ''ultra_short'', ''short'', ''mid'', ''external'']"

definition TERMINALS :: "text_bytes list" where
  "TERMINALS = [''success'', ''partial'', ''failed'', ''abandoned'', ''cancelled'']"

definition MAX_STATUS_SCOPES :: nat where "MAX_STATUS_SCOPES = 128"

datatype status_error =
    Naive_Status_Time | Bad_Scope | Bad_Terminal | Bad_Fetch_Range | Bad_Run_Id | Bad_Schedule | Bad_Key_List

definition status_utc :: "py_datetime \<Rightarrow> status_error + instant" where
  "status_utc t = (case t of Naive _ \<Rightarrow> Inl Naive_Status_Time | Aware i \<Rightarrow> Inr i)"

definition status_utc_option :: "py_datetime option \<Rightarrow> status_error + instant option" where
  "status_utc_option t =
     (case t of None \<Rightarrow> Inr None
      | Some d \<Rightarrow> (case status_utc d of Inl e \<Rightarrow> Inl e | Inr i \<Rightarrow> Inr (Some i)))"

definition source_key_ok :: "source_key \<Rightarrow> bool" where
  "source_key_ok k \<longleftrightarrow>
     1 \<le> str_len (sk_provider k) \<and> str_len (sk_provider k) \<le> 120
     \<and> 1 \<le> str_len (sk_dataset k) \<and> str_len (sk_dataset k) \<le> 160
     \<and> sk_style k \<in> set STYLES
     \<and> list_all (\<lambda>c. \<not> (of_char c :: nat) < 32) (sk_provider k @ sk_dataset k)"

definition new_source_key :: "text_bytes \<Rightarrow> text_bytes \<Rightarrow> text_bytes \<Rightarrow> status_error + source_key" where
  "new_source_key p d s =
     (if source_key_ok (Source_Key p d s) then Inr (Source_Key p d s) else Inl Bad_Scope)"

text \<open>
  \<open>status_scopes\<close> and \<open>dataset_scopes\<close> over the provider catalog, which is an argument: the list of
  its (provider, dataset) pairs with the forecast flag of each.
\<close>

type_synonym catalog_datasets = "(text_bytes \<times> text_bytes \<times> bool) list"

definition KMA_STYLES :: "(text_bytes \<times> text_bytes) list" where
  "KMA_STYLES =
     [(''kma_ultra_short_nowcast'', ''nowcast''), (''kma_ultra_short_forecast'', ''ultra_short''),
      (''kma_short_forecast'', ''short''), (''kma_mid_forecast'', ''mid'')]"

definition scope_of_dataset :: "text_bytes \<times> text_bytes \<times> bool \<Rightarrow> source_key" where
  "scope_of_dataset row =
     (case row of (provider, dataset, forecast) \<Rightarrow>
        Source_Key provider dataset
          (case map_of KMA_STYLES dataset of
             Some style \<Rightarrow> style
           | None \<Rightarrow> if forecast then ''external'' else ''observed''))"

definition all_scopes :: "catalog_datasets \<Rightarrow> source_key list" where
  "all_scopes catalog =
     sort (map scope_of_dataset
       (filter (\<lambda>(p, d, f). d \<noteq> ''airkorea_station_catalog'') catalog))"

definition status_scopes :: "catalog_datasets \<Rightarrow> text_bytes list option \<Rightarrow> source_key list" where
  "status_scopes catalog providers =
     filter (\<lambda>k. case providers of None \<Rightarrow> True | Some ps \<Rightarrow> sk_provider k \<in> set ps) (all_scopes catalog)"

text \<open>\<open>_by_dataset\<close> is a dict: of two entries with one key the later one stays.\<close>

definition by_dataset :: "catalog_datasets \<Rightarrow> text_bytes \<times> text_bytes \<Rightarrow> source_key option" where
  "by_dataset catalog =
     map_of (rev (map (\<lambda>k. ((sk_provider k, sk_dataset k), k)) (all_scopes catalog)))"

definition dataset_scopes :: "catalog_datasets \<Rightarrow> text_bytes \<Rightarrow> text_bytes list \<Rightarrow> source_key list" where
  "dataset_scopes catalog provider datasets =
     sort (List.map_filter (\<lambda>d. by_dataset catalog (provider, d)) (remdups datasets))"

subsection \<open>The rows\<close>

record status_row =
  st_key :: source_key
  st_run :: "text_bytes option"
  st_started :: "instant option"
  st_finished :: "instant option"
  st_status :: "text_bytes option"
  st_success :: "instant option"
  st_collected :: "instant option"
  st_failed :: "instant option"
  st_evaluated :: "instant option"
  st_next :: "instant option"

record fetch_clock_row =
  fc_run :: text_bytes
  fc_provider :: text_bytes
  fc_dataset :: text_bytes
  fc_first :: instant
  fc_last :: instant

definition fc_key :: "fetch_clock_row \<Rightarrow> text_bytes \<times> text_bytes \<times> text_bytes" where
  "fc_key r = (fc_run r, fc_provider r, fc_dataset r)"

record terminal_event =
  te_key :: source_key
  te_run :: text_bytes
  te_started :: py_datetime
  te_finished :: py_datetime
  te_status :: text_bytes
  te_collected :: "py_datetime option"

subsection \<open>Recording a terminal\<close>

text \<open>
  \<open>tuple_(new.last_started_at, new.last_run_id) > tuple_(old.last_started_at, old.last_run_id)\<close>;
  a comparison with NULL is not true.
\<close>

definition newer_terminal :: "status_row \<Rightarrow> status_row \<Rightarrow> bool" where
  "newer_terminal old new \<longleftrightarrow>
     (case (st_started old, st_started new) of
        (None, _) \<Rightarrow> True
      | (Some o', None) \<Rightarrow> False
      | (Some o', Some n') \<Rightarrow>
          n' > o' \<or> (n' = o' \<and>
            (case (st_run old, st_run new) of (Some a, Some b) \<Rightarrow> b > a | _ \<Rightarrow> False)))"

definition merge_terminal :: "status_row \<Rightarrow> status_row \<Rightarrow> status_row" where
  "merge_terminal old new =
     (if \<not> newer_terminal old new then old
      else old\<lparr>st_run := st_run new, st_started := st_started new, st_finished := st_finished new,
        st_status := st_status new,
        st_success := (if st_status new = Some ''success'' then st_success new else st_success old),
        st_collected := (if st_status new = Some ''success'' then st_collected new else st_collected old),
        st_failed := (if st_status new \<noteq> Some ''success'' then st_failed new else st_failed old)\<rparr>)"

definition terminal_row :: "terminal_event \<Rightarrow> instant \<Rightarrow> instant \<Rightarrow> instant option \<Rightarrow> status_row" where
  "terminal_row e started finished collected =
     \<lparr>st_key = te_key e, st_run = Some (te_run e), st_started = Some started,
      st_finished = Some finished, st_status = Some (te_status e),
      st_success = (if te_status e = ''success'' then Some finished else None),
      st_collected = (if te_status e = ''success'' then collected else None),
      st_failed = (if te_status e \<noteq> ''success'' then Some finished else None),
      st_evaluated = None, st_next = None\<rparr>"

definition record_terminal ::
  "terminal_event \<Rightarrow> status_row list \<Rightarrow> status_error + (bool \<times> status_row list)" where
  "record_terminal e table =
     (case status_utc (te_started e) of Inl x \<Rightarrow> Inl x | Inr started \<Rightarrow>
      (case status_utc (te_finished e) of Inl x \<Rightarrow> Inl x | Inr finished \<Rightarrow>
      (case status_utc_option (te_collected e) of Inl x \<Rightarrow> Inl x | Inr collected \<Rightarrow>
        if \<not> (1 \<le> str_len (te_run e) \<and> str_len (te_run e) \<le> 64) \<or> te_status e \<notin> set TERMINALS
           \<or> finished < started \<or> (case collected of None \<Rightarrow> False | Some c \<Rightarrow> c > finished)
        then Inl Bad_Terminal
        else let new = terminal_row e started finished collected in
          Inr (case row_of st_key (te_key e) table of None \<Rightarrow> True | Some old \<Rightarrow> newer_terminal old new,
               upsert st_key merge_terminal new table))))"

subsection \<open>Recording fetch times and schedules\<close>

definition merge_fetch_clock :: "fetch_clock_row \<Rightarrow> fetch_clock_row \<Rightarrow> fetch_clock_row" where
  "merge_fetch_clock old new =
     (if fc_first new < fc_first old \<or> fc_last new > fc_last old
      then old\<lparr>fc_first := min (fc_first old) (fc_first new), fc_last := max (fc_last old) (fc_last new)\<rparr>
      else old)"

definition record_fetch_clock ::
  "text_bytes \<Rightarrow> text_bytes \<Rightarrow> text_bytes \<Rightarrow> py_datetime \<Rightarrow> py_datetime option \<Rightarrow>
   fetch_clock_row list \<Rightarrow> status_error + (bool \<times> fetch_clock_row list)" where
  "record_fetch_clock run provider dataset fetched last_fetched table =
     (case new_source_key provider dataset ''observed'' of Inl x \<Rightarrow> Inl x | Inr _ \<Rightarrow>
      (case status_utc fetched of Inl x \<Rightarrow> Inl x | Inr first \<Rightarrow>
      (case status_utc_option last_fetched of Inl x \<Rightarrow> Inl x | Inr last' \<Rightarrow>
        let lst = (case last' of None \<Rightarrow> first | Some l \<Rightarrow> l) in
        if \<not> (1 \<le> str_len run \<and> str_len run \<le> 64) \<or> first > lst then Inl Bad_Fetch_Range
        else let new = \<lparr>fc_run = run, fc_provider = provider, fc_dataset = dataset,
               fc_first = first, fc_last = lst\<rparr> in
          Inr (case row_of fc_key (fc_key new) table of None \<Rightarrow> True
               | Some old \<Rightarrow> first < fc_first old \<or> lst > fc_last old,
               upsert fc_key merge_fetch_clock new table))))"

definition fetch_clock ::
  "text_bytes \<Rightarrow> text_bytes \<Rightarrow> text_bytes \<Rightarrow> fetch_clock_row list \<Rightarrow> status_error + instant option" where
  "fetch_clock run provider dataset table =
     (case new_source_key provider dataset ''observed'' of Inl x \<Rightarrow> Inl x | Inr _ \<Rightarrow>
        if \<not> (1 \<le> str_len run \<and> str_len run \<le> 64) then Inl Bad_Run_Id
        else Inr (map_option fc_first (row_of fc_key (run, provider, dataset) table)))"

definition merge_schedule :: "status_row \<Rightarrow> status_row \<Rightarrow> status_row" where
  "merge_schedule old new =
     (if (case (st_evaluated old, st_evaluated new) of
            (None, _) \<Rightarrow> True | (Some o', Some n') \<Rightarrow> n' > o' | (Some _, None) \<Rightarrow> False)
      then old\<lparr>st_evaluated := st_evaluated new, st_next := st_next new\<rparr> else old)"

definition record_schedule ::
  "source_key \<Rightarrow> py_datetime \<Rightarrow> py_datetime option \<Rightarrow> status_row list \<Rightarrow>
   status_error + (bool \<times> status_row list)" where
  "record_schedule key evaluated next_scheduled table =
     (case status_utc evaluated of Inl x \<Rightarrow> Inl x | Inr at \<Rightarrow>
      (case status_utc_option next_scheduled of Inl x \<Rightarrow> Inl x | Inr upcoming \<Rightarrow>
        if (case upcoming of None \<Rightarrow> False | Some u \<Rightarrow> u \<le> at) then Inl Bad_Schedule
        else let new = \<lparr>st_key = key, st_run = None, st_started = None, st_finished = None,
               st_status = None, st_success = None, st_collected = None, st_failed = None,
               st_evaluated = Some at, st_next = upcoming\<rparr> in
          Inr (case row_of st_key key table of None \<Rightarrow> True
               | Some old \<Rightarrow> (case st_evaluated old of None \<Rightarrow> True | Some o' \<Rightarrow> at > o'),
               upsert st_key merge_schedule new table)))"

subsection \<open>Reading\<close>

record source_state =
  ss_key :: source_key
  ss_status :: "text_bytes option"
  ss_run :: "text_bytes option"
  ss_started :: "instant option"
  ss_finished :: "instant option"
  ss_success :: "instant option"
  ss_collected :: "instant option"
  ss_failed :: "instant option"
  ss_next :: "instant option"

definition last_attempt_failed :: "source_state \<Rightarrow> bool" where
  "last_attempt_failed s \<longleftrightarrow> ss_status s \<noteq> None \<and> ss_status s \<noteq> Some ''success''"

definition state_of :: "status_row list \<Rightarrow> instant \<Rightarrow> source_key \<Rightarrow> source_state" where
  "state_of table now key =
     (case row_of st_key key table of
        None \<Rightarrow> \<lparr>ss_key = key, ss_status = None, ss_run = None, ss_started = None, ss_finished = None,
                 ss_success = None, ss_collected = None, ss_failed = None, ss_next = None\<rparr>
      | Some r \<Rightarrow> \<lparr>ss_key = key, ss_status = st_status r, ss_run = st_run r, ss_started = st_started r,
                 ss_finished = st_finished r, ss_success = st_success r, ss_collected = st_collected r,
                 ss_failed = st_failed r,
                 ss_next = (case st_next r of None \<Rightarrow> None | Some u \<Rightarrow> if u > now then Some u else None)\<rparr>)"

definition read_statuses ::
  "status_row list \<Rightarrow> source_key list \<Rightarrow> py_datetime \<Rightarrow> status_error + source_state list" where
  "read_statuses table keys as_of =
     (case status_utc as_of of Inl x \<Rightarrow> Inl x | Inr now \<Rightarrow>
        if \<not> (1 \<le> length keys \<and> length keys \<le> MAX_STATUS_SCOPES) \<or> \<not> distinct keys then Inl Bad_Key_List
        else Inr (map (state_of table now) (sort keys)))"

subsection \<open>Well-formed tables\<close>

definition status_row_ok :: "status_row \<Rightarrow> bool" where
  "status_row_ok r \<longleftrightarrow>
     (case (st_status r, st_started r, st_finished r, st_run r) of
        (None, None, None, None) \<Rightarrow> st_success r = None \<and> st_failed r = None \<and> st_collected r = None
      | (Some s, Some b, Some f, Some _) \<Rightarrow>
          s \<in> set TERMINALS \<and> b \<le> f
          \<and> (s = ''success'' \<longrightarrow> st_success r = Some f \<and> (\<forall>c. st_collected r = Some c \<longrightarrow> c \<le> f))
          \<and> (s \<noteq> ''success'' \<longrightarrow> st_failed r = Some f)
      | _ \<Rightarrow> False)
     \<and> (\<forall>u. st_next r = Some u \<longrightarrow> (\<exists>at. st_evaluated r = Some at \<and> at < u))"

definition status_table_ok :: "status_row list \<Rightarrow> bool" where
  "status_table_ok t \<longleftrightarrow> keyed st_key t \<and> list_all status_row_ok t"

lemma status_table_row: "status_table_ok t \<Longrightarrow> row_of st_key k t = Some r \<Longrightarrow> status_row_ok r"
  by (auto simp: status_table_ok_def list_all_iff dest: row_of_SomeD)

lemma status_table_upsert:
  assumes "status_table_ok t" "status_row_ok r" "\<And>old. st_key old = st_key r \<Longrightarrow> st_key (c old r) = st_key r"
    and "\<And>old. status_row_ok old \<Longrightarrow> st_key old = st_key r \<Longrightarrow> status_row_ok (c old r)"
  shows "status_table_ok (upsert st_key c r t)"
  using assms by (auto simp: status_table_ok_def list_all_iff intro: keyed_upsert dest!: set_upsert)

subsection \<open>What each write does\<close>

definition event_at :: "py_datetime \<Rightarrow> instant" where
  "event_at t = (case t of Naive i \<Rightarrow> i | Aware i \<Rightarrow> i)"

definition event_row :: "terminal_event \<Rightarrow> status_row" where
  "event_row e = terminal_row e (event_at (te_started e)) (event_at (te_finished e))
     (map_option event_at (te_collected e))"

definition event_stamp :: "terminal_event \<Rightarrow> instant \<times> text_bytes" where
  "event_stamp e = (event_at (te_started e), te_run e)"

definition event_ok :: "terminal_event \<Rightarrow> bool" where
  "event_ok e \<longleftrightarrow> (\<exists>b t. record_terminal e [] = Inr (b, t))"

definition row_stamp :: "status_row \<Rightarrow> (instant \<times> text_bytes) option" where
  "row_stamp r = (case (st_started r, st_run r) of (Some s, Some i) \<Rightarrow> Some (s, i) | _ \<Rightarrow> None)"

lemma record_terminal_Inr:
  "record_terminal e t = Inr (b, t') \<longleftrightarrow> event_ok e \<and> t' = upsert st_key merge_terminal (event_row e) t
    \<and> b = (case row_of st_key (te_key e) t of None \<Rightarrow> True | Some old \<Rightarrow> newer_terminal old (event_row e))"
  by (auto simp: event_ok_def record_terminal_def event_row_def status_utc_def status_utc_option_def
      event_at_def Let_def split: py_datetime.splits option.splits if_splits)

lemma event_row_ok: "event_ok e \<Longrightarrow> status_row_ok (event_row e)"
  by (cases "te_started e"; cases "te_finished e"; cases "te_collected e")
    (auto simp: event_ok_def record_terminal_def event_row_def status_utc_def status_utc_option_def
      event_at_def Let_def terminal_row_def status_row_ok_def split: py_datetime.splits if_splits)

lemma event_row_simps [simp]:
  "st_key (event_row e) = te_key e" "st_run (event_row e) = Some (te_run e)"
  "st_started (event_row e) = Some (event_at (te_started e))"
  "st_finished (event_row e) = Some (event_at (te_finished e))"
  "st_status (event_row e) = Some (te_status e)" "row_stamp (event_row e) = Some (event_stamp e)"
  by (simp_all add: event_row_def terminal_row_def row_stamp_def event_stamp_def)

lemma merge_key [simp]:
  "st_key (merge_terminal old new) = st_key old" "st_key (merge_schedule old new) = st_key old"
  by (simp_all add: merge_terminal_def merge_schedule_def)

lemma merge_terminal_cases:
  "(newer_terminal old new \<and> row_stamp (merge_terminal old new) = row_stamp new
     \<and> st_status (merge_terminal old new) = st_status new \<and> st_finished (merge_terminal old new) = st_finished new)
   \<or> (\<not> newer_terminal old new \<and> merge_terminal old new = old)"
  by (simp add: merge_terminal_def row_stamp_def split: option.split)

lemma newer_terminal_stamp:
  assumes "status_row_ok old"
  shows "newer_terminal old (event_row e) \<longleftrightarrow>
    (case row_stamp old of None \<Rightarrow> True | Some s \<Rightarrow> s < event_stamp e)"
proof -
  have "st_started old = None \<and> st_run old = None \<or> (\<exists>a b. st_started old = Some a \<and> st_run old = Some b)"
    using assms by (auto simp: status_row_ok_def split: option.splits)
  then show ?thesis
    by (auto simp: newer_terminal_def row_stamp_def event_stamp_def less_prod_def split: option.splits)
qed

lemma merge_terminal_ok:
  "status_row_ok old \<Longrightarrow> status_row_ok new \<Longrightarrow> st_started new \<noteq> None \<Longrightarrow> status_row_ok (merge_terminal old new)"
  by (auto simp: status_row_ok_def merge_terminal_def split: option.splits)

lemma record_terminal_ok:
  assumes "status_table_ok t" "record_terminal e t = Inr (b, t')"
  shows "status_table_ok t'"
proof -
  have "event_ok e" and t': "t' = upsert st_key merge_terminal (event_row e) t"
    using assms(2) by (simp_all add: record_terminal_Inr)
  then have "status_row_ok (event_row e)" by (simp add: event_row_ok)
  with assms(1) show ?thesis
    unfolding t' by (rule status_table_upsert) (simp_all add: merge_terminal_ok \<open>status_row_ok (event_row e)\<close>)
qed

lemma record_schedule_ok:
  assumes "status_table_ok t" "record_schedule key evaluated upcoming t = Inr (b, t')"
  shows "status_table_ok t'"
proof -
  from assms(2) obtain new where t': "t' = upsert st_key merge_schedule new t"
    and new: "status_row_ok new" "st_key new = key"
    by (auto simp: record_schedule_def status_utc_option_def Let_def status_row_ok_def
        split: sum.splits option.splits if_splits)
  show ?thesis
    unfolding t' using assms(1) new(1)
    by (rule status_table_upsert)
      (use new(1) in \<open>auto simp: merge_schedule_def status_row_ok_def split: option.splits\<close>)
qed

subsection \<open>Sequences of writes\<close>

definition apply_terminals :: "terminal_event list \<Rightarrow> status_row list \<Rightarrow> status_row list" where
  "apply_terminals es t =
     fold (\<lambda>e t. case record_terminal e t of Inl _ \<Rightarrow> t | Inr (_, t') \<Rightarrow> t') es t"

definition shows_event :: "status_row \<Rightarrow> terminal_event \<Rightarrow> bool" where
  "shows_event r e \<longleftrightarrow> row_stamp r = Some (event_stamp e) \<and> st_status r = Some (te_status e)
     \<and> st_finished r = Some (event_at (te_finished e))"

definition newest_event :: "source_key \<Rightarrow> terminal_event list \<Rightarrow> terminal_event \<Rightarrow> bool" where
  "newest_event k es d \<longleftrightarrow> d \<in> set es \<and> event_ok d \<and> te_key d = k \<and>
     (\<forall>e \<in> set es. event_ok e \<and> te_key e = k \<longrightarrow> event_stamp e \<le> event_stamp d)"

lemma apply_terminal_step:
  "(case record_terminal e t of Inl _ \<Rightarrow> t | Inr (_, t') \<Rightarrow> t') =
    (if event_ok e then upsert st_key merge_terminal (event_row e) t else t)"
proof (cases "record_terminal e t")
  case (Inl x)
  then have "\<not> event_ok e" by (metis record_terminal_Inr Inl_Inr_False)
  with Inl show ?thesis by simp
next
  case (Inr bt)
  then obtain b u where bu: "record_terminal e t = Inr (b, u)" by (cases bt) simp
  then have "event_ok e \<and> u = upsert st_key merge_terminal (event_row e) t"
    by (simp add: record_terminal_Inr)
  with bu show ?thesis by simp
qed

lemma apply_terminals_snoc:
  "apply_terminals (es @ [e]) t =
    (if event_ok e then upsert st_key merge_terminal (event_row e) (apply_terminals es t) else apply_terminals es t)"
  by (simp add: apply_terminals_def apply_terminal_step)

lemma apply_terminals_ok: "status_table_ok t \<Longrightarrow> status_table_ok (apply_terminals es t)"
proof (induction es rule: rev_induct)
  case Nil
  then show ?case by (simp add: apply_terminals_def)
next
  case (snoc e es)
  then show ?case
    by (auto simp: apply_terminals_snoc intro: record_terminal_ok [of _ e] simp: record_terminal_Inr)
qed

lemma row_of_terminal:
  "row_of st_key k (upsert st_key merge_terminal (event_row e) t) =
    (if k = te_key e then Some (case row_of st_key k t of None \<Rightarrow> event_row e | Some old \<Rightarrow> merge_terminal old (event_row e))
     else row_of st_key k t)"
  by (simp add: row_of_upsert)

lemma shows_event_row [simp]: "shows_event (event_row e) e"
  by (simp add: shows_event_def)

lemma shows_merge:
  assumes "status_row_ok r" "shows_event r d"
  shows "shows_event (merge_terminal r (event_row e)) (if event_stamp d < event_stamp e then e else d)"
  using assms merge_terminal_cases [of r "event_row e"] newer_terminal_stamp [OF assms(1), of e]
  by (auto simp: shows_event_def)

lemma newest_terminal_row:
  assumes "status_table_ok t" "row_of st_key k t = None"
  shows "(row_of st_key k (apply_terminals es t) = None \<and> (\<forall>e \<in> set es. event_ok e \<longrightarrow> te_key e \<noteq> k))
    \<or> (\<exists>r d. row_of st_key k (apply_terminals es t) = Some r \<and> newest_event k es d \<and> shows_event r d)"
proof (induction es rule: rev_induct)
  case Nil
  show ?case by (simp add: apply_terminals_def assms)
next
  case (snoc e es)
  let ?u = "apply_terminals es t"
  show ?case
  proof (cases "event_ok e \<and> te_key e = k")
    case False
    then have "row_of st_key k (apply_terminals (es @ [e]) t) = row_of st_key k ?u"
      by (auto simp: apply_terminals_snoc row_of_terminal)
    with snoc False show ?thesis by (auto simp: newest_event_def)
  next
    case True
    then have row: "row_of st_key k (apply_terminals (es @ [e]) t) =
        Some (case row_of st_key k ?u of None \<Rightarrow> event_row e | Some old \<Rightarrow> merge_terminal old (event_row e))"
      by (auto simp: apply_terminals_snoc row_of_terminal)
    from snoc show ?thesis
    proof
      assume "row_of st_key k ?u = None \<and> (\<forall>e \<in> set es. event_ok e \<longrightarrow> te_key e \<noteq> k)"
      then have "newest_event k (es @ [e]) e" using True by (auto simp: newest_event_def)
      moreover have "row_of st_key k (apply_terminals (es @ [e]) t) = Some (event_row e)"
        using row \<open>row_of st_key k ?u = None \<and> _\<close> by simp
      ultimately show ?thesis by auto
    next
      assume "\<exists>r d. row_of st_key k ?u = Some r \<and> newest_event k es d \<and> shows_event r d"
      then obtain r d where r: "row_of st_key k ?u = Some r" and d: "newest_event k es d" "shows_event r d"
        by blast
      have "status_row_ok r"
        using apply_terminals_ok [OF assms(1)] r by (rule status_table_row)
      from shows_merge [OF this d(2)]
      have "shows_event (merge_terminal r (event_row e)) (if event_stamp d < event_stamp e then e else d)" .
      moreover have "newest_event k (es @ [e]) (if event_stamp d < event_stamp e then e else d)"
        using d(1) True by (auto simp: newest_event_def)
      ultimately show ?thesis using row r by auto
    qed
  qed
qed

definition example_terminal :: "text_bytes \<Rightarrow> int \<Rightarrow> int \<Rightarrow> text_bytes \<Rightarrow> terminal_event" where
  "example_terminal run b f status =
     \<lparr>te_key = Source_Key ''kma'' ''kma_short_forecast'' ''short'', te_run = run,
      te_started = Aware b, te_finished = Aware f, te_status = status, te_collected = Some (Aware b)\<rparr>"

text \<open>
  The terminals of a source that its row took over: the accepted ones that came later, by start and
  run id, than every one before them in the order of arrival.
\<close>

definition taken_over :: "source_key \<Rightarrow> terminal_event list \<Rightarrow> terminal_event list" where
  "taken_over k es =
     fold (\<lambda>e taken. if event_ok e \<and> te_key e = k \<and> (taken = [] \<or> event_stamp (List.last taken) < event_stamp e)
       then taken @ [e] else taken) es []"

definition succeeded :: "terminal_event \<Rightarrow> bool" where
  "succeeded e \<longleftrightarrow> te_status e = ''success''"

definition last_of :: "(terminal_event \<Rightarrow> 'a option) \<Rightarrow> terminal_event list \<Rightarrow> 'a option" where
  "last_of f es = (if es = [] then None else f (List.last es))"

text \<open>The columns a terminal of the other kind leaves alone.\<close>

definition shows_kinds :: "status_row \<Rightarrow> terminal_event list \<Rightarrow> bool" where
  "shows_kinds r taken \<longleftrightarrow>
     st_success r = last_of (\<lambda>e. Some (event_at (te_finished e))) (filter succeeded taken)
     \<and> st_collected r = last_of (\<lambda>e. map_option event_at (te_collected e)) (filter succeeded taken)
     \<and> st_failed r = last_of (\<lambda>e. Some (event_at (te_finished e))) (filter (\<lambda>e. \<not> succeeded e) taken)"

lemma taken_over_snoc:
  "taken_over k (es @ [e]) = (if event_ok e \<and> te_key e = k
      \<and> (taken_over k es = [] \<or> event_stamp (List.last (taken_over k es)) < event_stamp e)
    then taken_over k es @ [e] else taken_over k es)"
  by (simp add: taken_over_def)

lemma event_row_kinds:
  "st_success (event_row e) = (if succeeded e then Some (event_at (te_finished e)) else None)"
  "st_collected (event_row e) = (if succeeded e then map_option event_at (te_collected e) else None)"
  "st_failed (event_row e) = (if succeeded e then None else Some (event_at (te_finished e)))"
  by (simp_all add: event_row_def terminal_row_def succeeded_def)

lemma shows_kinds_first: "shows_kinds (event_row e) [e]"
  by (simp add: shows_kinds_def last_of_def event_row_kinds)

lemma shows_kinds_merge:
  "shows_kinds r taken \<Longrightarrow> newer_terminal r (event_row e) \<Longrightarrow> shows_kinds (merge_terminal r (event_row e)) (taken @ [e])"
  by (auto simp: shows_kinds_def last_of_def merge_terminal_def event_row_kinds) (auto simp: succeeded_def)

lemma taken_over_row:
  assumes "status_table_ok t" "row_of st_key k t = None"
  shows "(taken_over k es = [] \<and> row_of st_key k (apply_terminals es t) = None)
    \<or> (\<exists>r. taken_over k es \<noteq> [] \<and> row_of st_key k (apply_terminals es t) = Some r
        \<and> shows_event r (List.last (taken_over k es)) \<and> shows_kinds r (taken_over k es))"
proof (induction es rule: rev_induct)
  case Nil
  show ?case by (simp add: apply_terminals_def taken_over_def assms)
next
  case (snoc e es)
  let ?u = "apply_terminals es t" and ?as = "taken_over k es"
  show ?case
  proof (cases "event_ok e \<and> te_key e = k")
    case False
    then have "row_of st_key k (apply_terminals (es @ [e]) t) = row_of st_key k ?u"
      by (auto simp: apply_terminals_snoc row_of_terminal)
    with snoc False show ?thesis by (auto simp: taken_over_snoc)
  next
    case True
    then have row: "row_of st_key k (apply_terminals (es @ [e]) t) =
        Some (case row_of st_key k ?u of None \<Rightarrow> event_row e | Some old \<Rightarrow> merge_terminal old (event_row e))"
      by (auto simp: apply_terminals_snoc row_of_terminal)
    from snoc show ?thesis
    proof (elim disjE exE conjE)
      assume "?as = []" "row_of st_key k ?u = None"
      with row True show ?thesis by (auto simp: taken_over_snoc shows_kinds_first)
    next
      fix r
      assume r: "?as \<noteq> []" "row_of st_key k ?u = Some r" "shows_event r (List.last ?as)" "shows_kinds r ?as"
      have ok: "status_row_ok r" using apply_terminals_ok [OF assms(1)] r(2) by (rule status_table_row)
      have newer: "newer_terminal r (event_row e) \<longleftrightarrow> event_stamp (List.last ?as) < event_stamp e"
        using newer_terminal_stamp [OF ok, of e] r(3) by (simp add: shows_event_def)
      show ?thesis
      proof (cases "event_stamp (List.last ?as) < event_stamp e")
        case True2: True
        then have taken: "taken_over k (es @ [e]) = ?as @ [e]" using True by (simp add: taken_over_snoc)
        have "shows_event (merge_terminal r (event_row e)) e" using shows_merge [OF ok r(3), of e] True2 by simp
        moreover have "shows_kinds (merge_terminal r (event_row e)) (?as @ [e])"
          using r(4) newer True2 by (simp add: shows_kinds_merge)
        ultimately show ?thesis using row r(2) taken by simp
      next
        case False
        then have "merge_terminal r (event_row e) = r" using newer by (simp add: merge_terminal_def)
        with False row r show ?thesis by (simp add: taken_over_snoc)
      qed
    qed
  qed
qed

text \<open>
  C30: whatever order the terminals of a source arrive in, and whatever rejected calls lie between
  them, its row ends up showing the run, status and finish time of an accepted terminal that no
  other accepted terminal of the source is newer than (start time, then run id).  Its success time
  and its collection time are those of the last success it took over, its failure time that of the
  last failure, where it takes over the accepted terminals newer than all that arrived before them.
\<close>

theorem terminal_newest_wins:
  assumes "status_table_ok t" "row_of st_key k t = None"
    and "e \<in> set es" "event_ok e" "te_key e = k"
  shows "\<exists>r d. row_of st_key k (apply_terminals es t) = Some r \<and> newest_event k es d \<and> shows_event r d
    \<and> event_stamp (List.last (taken_over k es)) = event_stamp d \<and> shows_kinds r (taken_over k es)"
proof -
  obtain r d where r: "row_of st_key k (apply_terminals es t) = Some r" "newest_event k es d" "shows_event r d"
    using newest_terminal_row [OF assms(1,2), of es] assms(3-5) by blast
  with taken_over_row [OF assms(1,2), of es] have "shows_event r (List.last (taken_over k es))" "shows_kinds r (taken_over k es)"
    by auto
  with r show ?thesis by (auto simp: shows_event_def)
qed

text \<open>A success, a newer failure, and an older success that comes late: its finish time does not show.\<close>

definition example_terminals :: "terminal_event list" where
  "example_terminals = [example_terminal ''r1'' 10 15 ''success'', example_terminal ''r3'' 20 30 ''failed'',
     example_terminal ''r2'' 12 40 ''success'']"

lemma example_terminals_ok: "\<forall>e \<in> set example_terminals. event_ok e"
  by (auto simp: example_terminals_def event_ok_def record_terminal_def example_terminal_def status_utc_def
      status_utc_option_def str_len_def TERMINALS_def Let_def)

theorem terminal_newest_wins_witness:
  "\<exists>r. row_of st_key (Source_Key ''kma'' ''kma_short_forecast'' ''short'') (apply_terminals example_terminals []) = Some r
    \<and> st_success r = Some 15 \<and> st_failed r = Some 30"
proof -
  let ?k = "Source_Key ''kma'' ''kma_short_forecast'' ''short''"
  let ?e1 = "example_terminal ''r1'' 10 15 ''success''" and ?e2 = "example_terminal ''r3'' 20 30 ''failed''"
  have "taken_over ?k example_terminals = [?e1, ?e2]"
    using example_terminals_ok by (simp add: taken_over_def example_terminals_def)
      (simp add: example_terminal_def event_stamp_def event_at_def)
  moreover have "\<exists>r d. row_of st_key ?k (apply_terminals example_terminals []) = Some r \<and> newest_event ?k example_terminals d
      \<and> shows_event r d \<and> event_stamp (List.last (taken_over ?k example_terminals)) = event_stamp d
      \<and> shows_kinds r (taken_over ?k example_terminals)"
  proof (rule terminal_newest_wins)
    show "status_table_ok []" by (simp add: status_table_ok_def)
    show "?e1 \<in> set example_terminals" by (simp add: example_terminals_def)
    show "event_ok ?e1" using example_terminals_ok by (simp add: example_terminals_def)
  qed (simp_all add: example_terminal_def)
  ultimately show ?thesis by (auto simp: shows_kinds_def last_of_def succeeded_def example_terminal_def event_at_def)
qed

subsection \<open>Fetch clocks cover every response and nothing else\<close>

record fetch_event =
  fe_run :: text_bytes
  fe_provider :: text_bytes
  fe_dataset :: text_bytes
  fe_first :: instant
  fe_last :: instant

definition fe_key :: "fetch_event \<Rightarrow> text_bytes \<times> text_bytes \<times> text_bytes" where
  "fe_key e = (fe_run e, fe_provider e, fe_dataset e)"

definition fetch_ok :: "fetch_event \<Rightarrow> bool" where
  "fetch_ok e \<longleftrightarrow> source_key_ok (Source_Key (fe_provider e) (fe_dataset e) ''observed'')
     \<and> 1 \<le> str_len (fe_run e) \<and> str_len (fe_run e) \<le> 64 \<and> fe_first e \<le> fe_last e"

definition apply_fetches :: "fetch_event list \<Rightarrow> fetch_clock_row list \<Rightarrow> fetch_clock_row list" where
  "apply_fetches es t =
     fold (\<lambda>e t. case record_fetch_clock (fe_run e) (fe_provider e) (fe_dataset e) (Aware (fe_first e))
         (Some (Aware (fe_last e))) t of Inl _ \<Rightarrow> t | Inr (_, t') \<Rightarrow> t') es t"

definition fetch_row :: "fetch_event \<Rightarrow> fetch_clock_row" where
  "fetch_row e = \<lparr>fc_run = fe_run e, fc_provider = fe_provider e, fc_dataset = fe_dataset e,
     fc_first = fe_first e, fc_last = fe_last e\<rparr>"

lemma record_fetch_clock_step:
  "(case record_fetch_clock (fe_run e) (fe_provider e) (fe_dataset e) (Aware (fe_first e))
         (Some (Aware (fe_last e))) t of Inl _ \<Rightarrow> t | Inr (_, t') \<Rightarrow> t') =
    (if fetch_ok e then upsert fc_key merge_fetch_clock (fetch_row e) t else t)"
  by (auto simp: record_fetch_clock_def new_source_key_def fetch_ok_def status_utc_def
      status_utc_option_def fetch_row_def Let_def)

lemma merge_fetch_clock_range:
  "fc_first (merge_fetch_clock old new) = min (fc_first old) (fc_first new)"
  "fc_last (merge_fetch_clock old new) = max (fc_last old) (fc_last new)"
  "fc_key (merge_fetch_clock old new) = fc_key old"
  by (auto simp: merge_fetch_clock_def fc_key_def)

lemma row_of_fetch:
  "row_of fc_key k (upsert fc_key merge_fetch_clock (fetch_row e) t) =
    (if k = fe_key e then Some (case row_of fc_key k t of None \<Rightarrow> fetch_row e | Some old \<Rightarrow> merge_fetch_clock old (fetch_row e))
     else row_of fc_key k t)"
proof -
  have "fc_key (fetch_row e) = fe_key e" by (simp add: fc_key_def fetch_row_def fe_key_def)
  then show ?thesis by (simp add: row_of_upsert merge_fetch_clock_range(3))
qed

lemma apply_fetches_row:
  defines "firsts k es \<equiv> {fe_first e |e. e \<in> set es \<and> fetch_ok e \<and> fe_key e = k}"
    and "lasts k es \<equiv> {fe_last e |e. e \<in> set es \<and> fetch_ok e \<and> fe_key e = k}"
  assumes "row_of fc_key k t = None"
  shows "case row_of fc_key k (apply_fetches es t) of
      None \<Rightarrow> firsts k es = {} \<and> lasts k es = {}
    | Some r \<Rightarrow> firsts k es \<noteq> {} \<and> lasts k es \<noteq> {} \<and> fc_first r = Min (firsts k es) \<and> fc_last r = Max (lasts k es)"
proof (induction es rule: rev_induct)
  case Nil
  show ?case using assms(3) by (simp add: apply_fetches_def assms(1,2))
next
  case (snoc e es)
  let ?u = "apply_fetches es t"
  have fin: "finite (firsts k es)" "finite (lasts k es)"
    by (auto simp: assms(1,2))
  have step: "apply_fetches (es @ [e]) t =
      (if fetch_ok e then upsert fc_key merge_fetch_clock (fetch_row e) ?u else ?u)"
    by (simp add: apply_fetches_def record_fetch_clock_step)
  have sets: "firsts k (es @ [e]) = (if fetch_ok e \<and> fe_key e = k then insert (fe_first e) (firsts k es) else firsts k es)"
    "lasts k (es @ [e]) = (if fetch_ok e \<and> fe_key e = k then insert (fe_last e) (lasts k es) else lasts k es)"
    by (auto simp: assms(1,2))
  show ?case
  proof (cases "fetch_ok e \<and> fe_key e = k")
    case False
    then have "firsts k (es @ [e]) = firsts k es" "lasts k (es @ [e]) = lasts k es"
      "row_of fc_key k (apply_fetches (es @ [e]) t) = row_of fc_key k ?u"
      by (auto simp: step sets row_of_fetch simp del: not_None_eq)
    then show ?thesis using snoc by (simp only:)
  next
    case True
    have range: "fc_first (fetch_row e) = fe_first e" "fc_last (fetch_row e) = fe_last e"
      by (simp_all add: fetch_row_def)
    show ?thesis
      using snoc True fin
      by (cases "row_of fc_key k ?u")
        (auto simp: step sets row_of_fetch merge_fetch_clock_range range min.commute max.commute)
  qed
qed

text \<open>After any sequence of fetch reports the clock of a run and dataset is exactly the range from
  the earliest to the latest accepted report for it, so the order of the reports does not matter;
  with no accepted report there is no clock.
\<close>

theorem fetch_clock_is_range:
  assumes "row_of fc_key k t = None"
  shows "case row_of fc_key k (apply_fetches es t) of
      None \<Rightarrow> \<not> (\<exists>e \<in> set es. fetch_ok e \<and> fe_key e = k)
    | Some r \<Rightarrow> (\<exists>e \<in> set es. fetch_ok e \<and> fe_key e = k)
        \<and> fc_first r = Min {fe_first e |e. e \<in> set es \<and> fetch_ok e \<and> fe_key e = k}
        \<and> fc_last r = Max {fe_last e |e. e \<in> set es \<and> fetch_ok e \<and> fe_key e = k}"
  using apply_fetches_row [OF assms, of es] by (auto split: option.splits)

theorem fetch_clock_is_range_witness:
  "case row_of fc_key (''r'', ''p'', ''d'')
      (apply_fetches [\<lparr>fe_run = ''r'', fe_provider = ''p'', fe_dataset = ''d'', fe_first = 3, fe_last = 7\<rparr>] []) of
      None \<Rightarrow> \<not> (\<exists>e \<in> set [\<lparr>fe_run = ''r'', fe_provider = ''p'', fe_dataset = ''d'', fe_first = 3, fe_last = 7\<rparr>].
        fetch_ok e \<and> fe_key e = (''r'', ''p'', ''d''))
    | Some r \<Rightarrow> (\<exists>e \<in> set [\<lparr>fe_run = ''r'', fe_provider = ''p'', fe_dataset = ''d'', fe_first = 3, fe_last = 7\<rparr>].
        fetch_ok e \<and> fe_key e = (''r'', ''p'', ''d''))
        \<and> fc_first r = Min {fe_first e |e. e \<in> set [\<lparr>fe_run = ''r'', fe_provider = ''p'', fe_dataset = ''d'',
            fe_first = 3, fe_last = 7\<rparr>] \<and> fetch_ok e \<and> fe_key e = (''r'', ''p'', ''d'')}
        \<and> fc_last r = Max {fe_last e |e. e \<in> set [\<lparr>fe_run = ''r'', fe_provider = ''p'', fe_dataset = ''d'',
            fe_first = 3, fe_last = 7\<rparr>] \<and> fetch_ok e \<and> fe_key e = (''r'', ''p'', ''d'')}"
  by (rule fetch_clock_is_range) simp

end
