(* ===== verification/Sync_Runs.thy ===== *)
theory Sync_Runs
  imports Export_Status Canonical_Json
begin

section \<open>The lifecycle of a sync run (repository.py)\<close>

text \<open>
  A sync run holds the single running slot of its provider and dataset from \<open>start_sync_run\<close> to
  one of the three ways it ends: \<open>finish_sync_run\<close>, the lease reconciler for rows without an
  orchestrator, the interrupted reconciler for rows whose orchestrator run has ended or vanished.
  Every write to a run is an UPDATE whose WHERE asks for status running: the compare-and-set that
  keeps a late worker from touching a row another one has ended.  The clock (\<open>kst_now\<close>), the new
  uuid, the orchestrator probe and the provider catalog are arguments; statement and lock timeouts,
  metrics and logging are not modelled.
\<close>

record sync_run =
  sr_id :: text_bytes
  sr_provider :: text_bytes
  sr_dataset :: text_bytes
  sr_status :: text_bytes
  sr_started :: instant
  sr_heartbeat :: "instant option"
  sr_finished :: "instant option"
  sr_locations :: int
  sr_grids :: int
  sr_mid_groups :: int
  sr_requests :: int
  sr_values :: int
  sr_error :: "text_bytes option"
  sr_owner :: "text_bytes option"
  sr_scopes :: "json list option"
  sr_pending :: bool
  sr_cohort :: bool

record sync_db =
  runs :: "sync_run list"
  statuses :: "status_row list"
  fetch_clocks :: "fetch_clock_row list"

record repo_config =
  export_status_enabled :: bool
  own_orchestrator :: "text_bytes option"
  catalog :: catalog_datasets

datatype sync_error =
    Dataset_Plan_Missing | Unsupported_Dataset | Already_Active "text_bytes option" "instant option"
  | Lease_Expired text_bytes | Bad_Total | Ownership_Lost | Bad_Limit | Unknown_Run | Bad_Timeout
  | Probe_Failed

definition SYNC_RUN_LEASE_MINUTES :: int where "SYNC_RUN_LEASE_MINUTES = 180"

definition minutes :: "int \<Rightarrow> instant" where "minutes n = seconds (n * 60)"

abbreviation run_row :: "text_bytes \<Rightarrow> sync_run list \<Rightarrow> sync_run option" where
  "run_row \<equiv> row_of sr_id"

definition is_running :: "sync_run \<Rightarrow> bool" where
  "is_running r \<longleftrightarrow> sr_status r = ''running''"

text \<open>\<open>coalesce(heartbeat_at, started_at)\<close>.\<close>

definition last_beat :: "sync_run \<Rightarrow> instant" where
  "last_beat r = (case sr_heartbeat r of Some h \<Rightarrow> h | None \<Rightarrow> sr_started r)"

subsection \<open>Projecting a terminal into the status table\<close>

definition status_scope_dict :: "source_key \<Rightarrow> json" where
  "status_scope_dict k = JObj [(''provider'', JStr (sk_provider k)), (''dataset_key'', JStr (sk_dataset k)),
     (''forecast_style'', JStr (sk_style k))]"

text \<open>\<open>SourceKey(**item)\<close>: exactly the three fields, and a valid scope.\<close>

definition scope_of_item :: "json \<Rightarrow> source_key option" where
  "scope_of_item item =
     (case item of
        JObj kvs \<Rightarrow>
          if \<not> same_set (dict_keys kvs) [''provider'', ''dataset_key'', ''forecast_style''] then None
          else (case (map_of kvs ''provider'', map_of kvs ''dataset_key'', map_of kvs ''forecast_style'') of
                  (Some (JStr p), Some (JStr d), Some (JStr s)) \<Rightarrow>
                    (case new_source_key p d s of Inl _ \<Rightarrow> None | Inr k \<Rightarrow> Some k)
                | _ \<Rightarrow> None)
      | _ \<Rightarrow> None)"

definition still_known_status_scopes :: "repo_config \<Rightarrow> sync_run \<Rightarrow> source_key list" where
  "still_known_status_scopes cfg row =
     (let parsed = List.map_filter scope_of_item (case sr_scopes row of None \<Rightarrow> [] | Some items \<Rightarrow> items);
          allowed = dataset_scopes (catalog cfg) (sr_provider row) (map sk_dataset parsed)
      in take 128 (sorted_set (filter (\<lambda>k. k \<in> set allowed) parsed)))"

definition planned_scopes :: "repo_config \<Rightarrow> sync_run \<Rightarrow> json list \<Rightarrow> source_key list" where
  "planned_scopes cfg row items =
     (let scopes = List.map_filter scope_of_item items;
          allowed = dataset_scopes (catalog cfg) (sr_provider row) (map sk_dataset scopes)
      in if list_all (\<lambda>i. scope_of_item i \<noteq> None) items \<and> \<not> length scopes > 128 \<and> distinct scopes
            \<and> same_set scopes allowed
         then scopes else still_known_status_scopes cfg row)"

fun project_scopes ::
  "sync_run \<Rightarrow> fetch_clock_row list \<Rightarrow> source_key list \<Rightarrow> status_row list \<Rightarrow> status_error + status_row list" where
  "project_scopes row clocks [] table = Inr table"
| "project_scopes row clocks (key # keys) table =
     (case fetch_clock (sr_id row) (sk_provider key) (sk_dataset key) clocks of
        Inl e \<Rightarrow> Inl e
      | Inr fetched \<Rightarrow>
          (case record_terminal
             \<lparr>te_key = key, te_run = sr_id row, te_started = Aware (sr_started row),
              te_finished = (case sr_finished row of Some f \<Rightarrow> Aware f | None \<Rightarrow> Naive 0),
              te_status = (if sr_status row \<in> set TERMINALS then sr_status row else ''failed''),
              te_collected = map_option Aware fetched\<rparr> table of
             Inl e \<Rightarrow> Inl e
           | Inr (_, table') \<Rightarrow> project_scopes row clocks keys table'))"

text \<open>A failure rolls back to the savepoint and leaves the row pending for the next read.\<close>

definition project_export_terminal :: "repo_config \<Rightarrow> sync_run \<Rightarrow> sync_db \<Rightarrow> sync_db" where
  "project_export_terminal cfg row db =
     (if \<not> export_status_enabled cfg then db
      else case sr_scopes row of
        None \<Rightarrow> db
      | Some [] \<Rightarrow> db
      | Some items \<Rightarrow>
          (case project_scopes row (fetch_clocks db) (planned_scopes cfg row items) (statuses db) of
             Inl _ \<Rightarrow> db
           | Inr table \<Rightarrow> db\<lparr>statuses := table,
               runs := update_where (\<lambda>r. sr_id r = sr_id row) (\<lambda>r. r\<lparr>sr_pending := False\<rparr>) (runs db)\<rparr>))"

definition reconcile_export_status ::
  "repo_config \<Rightarrow> text_bytes list \<Rightarrow> nat \<Rightarrow> sync_db \<Rightarrow> sync_error + (nat \<times> sync_db)" where
  "reconcile_export_status cfg providers limit db =
     (if \<not> export_status_enabled cfg then Inr (0, db)
      else if \<not> (1 \<le> limit \<and> limit \<le> 8) then Inl Bad_Limit
      else let rows = take limit (sort_key (\<lambda>r. (sr_started r, sr_id r))
                 (filter (\<lambda>r. sr_pending r \<and> sr_provider r \<in> set providers) (runs db)))
           in Inr (length rows,
                fold (\<lambda>r db. if is_running r then db else project_export_terminal cfg r db) rows db))"

subsection \<open>Starting, beating, finishing\<close>

text \<open>
  The rows a statement ends: its WHERE (which always asks for running) and what it sets.  The
  returned rows are projected one after the other in the same transaction.
\<close>

definition end_row :: "text_bytes \<Rightarrow> instant \<Rightarrow> text_bytes option \<Rightarrow> sync_run \<Rightarrow> sync_run" where
  "end_row status at error r =
     r\<lparr>sr_status := status, sr_pending := (sr_scopes r \<noteq> None), sr_finished := Some at, sr_error := error\<rparr>"

definition end_runs ::
  "repo_config \<Rightarrow> (sync_run \<Rightarrow> bool) \<Rightarrow> (sync_run \<Rightarrow> sync_run) \<Rightarrow> sync_db \<Rightarrow> nat \<times> sync_db" where
  "end_runs cfg which change db =
     (let ended = map change (filter (\<lambda>r. is_running r \<and> which r) (runs db))
      in (length ended,
          fold (project_export_terminal cfg) ended
            (db\<lparr>runs := update_where (\<lambda>r. is_running r \<and> which r) change (runs db)\<rparr>)))"

definition STALE_ERROR :: text_bytes where
  "STALE_ERROR = ''stale sync run recovered after worker interruption''"

definition reconcile_stale_sync_runs ::
  "repo_config \<Rightarrow> int \<Rightarrow> instant \<Rightarrow> instant \<Rightarrow> sync_db \<Rightarrow> nat \<times> sync_db" where
  "reconcile_stale_sync_runs cfg max_age now finished db =
     end_runs cfg (\<lambda>r. sr_owner r = None \<and> last_beat r < now - minutes max_age)
       (end_row ''failed'' finished (Some STALE_ERROR)) db"

text \<open>
  The publisher (export_collector.py, \<open>_publisher_terminal\<close>) ends a running row whose orchestrator
  has failed for certain; the terminal is projected later, by \<open>reconcile_export_status\<close>.
\<close>

definition fail_terminal_run :: "text_bytes \<Rightarrow> instant \<Rightarrow> sync_db \<Rightarrow> sync_db" where
  "fail_terminal_run run_id now db =
     db\<lparr>runs := update_where (\<lambda>r. is_running r \<and> sr_id r = run_id)
       (end_row ''failed'' now (Some ''EXPORT_ORCHESTRATOR_TERMINAL'')) (runs db)\<rparr>"

text \<open>
  \<open>start_sync_run\<close>: \<open>started\<close>, \<open>now\<close>, \<open>finished\<close> and \<open>checked\<close> are its readings of the clock in
  order.  A uuid that already names a row violates the primary key, which the code reports as a
  live run like the partial unique index over running rows.
\<close>

definition start_sync_run ::
  "repo_config \<Rightarrow> text_bytes \<Rightarrow> text_bytes \<Rightarrow> int \<Rightarrow> text_bytes list option \<Rightarrow> bool \<Rightarrow> text_bytes \<Rightarrow>
   instant \<Rightarrow> instant \<Rightarrow> instant \<Rightarrow> instant \<Rightarrow> sync_db \<Rightarrow> sync_error + (sync_run \<times> sync_db)" where
  "start_sync_run cfg provider dataset locations datasets cohort uuid started now finished checked db =
     (if export_status_enabled cfg \<and> dataset = ''kma_weather_bundle'' \<and> datasets = None
      then Inl Dataset_Plan_Missing
      else
        let requested = (case datasets of None \<Rightarrow> [dataset] | Some ds \<Rightarrow> ds);
            scopes = (if export_status_enabled cfg then dataset_scopes (catalog cfg) provider requested else [])
        in if export_status_enabled cfg \<and> datasets \<noteq> None \<and> \<not> same_set requested (map sk_dataset scopes)
           then Inl Unsupported_Dataset
           else
             let db1 = snd (reconcile_stale_sync_runs cfg SYNC_RUN_LEASE_MINUTES now finished db);
                 run = \<lparr>sr_id = ''run_'' @ uuid, sr_provider = provider, sr_dataset = dataset,
                   sr_status = ''running'', sr_started = started, sr_heartbeat = Some started,
                   sr_finished = None, sr_locations = locations, sr_grids = 0, sr_mid_groups = 0,
                   sr_requests = 0, sr_values = 0, sr_error = None, sr_owner = own_orchestrator cfg,
                   sr_scopes = (if scopes = [] then None else Some (map status_scope_dict scopes)),
                   sr_pending = False, sr_cohort = cohort\<rparr>
             in case find (\<lambda>r. sr_provider r = provider \<and> sr_dataset r = dataset \<and> is_running r) (runs db1) of
                  Some active \<Rightarrow>
                    if last_beat active \<ge> checked - minutes SYNC_RUN_LEASE_MINUTES
                    then Inl (Already_Active (Some (sr_id active)) (Some (last_beat active)))
                    else Inl (Lease_Expired (sr_id active))
                | None \<Rightarrow>
                    if run_row (sr_id run) (runs db1) \<noteq> None then Inl (Already_Active None None)
                    else Inr (run, db1\<lparr>runs := runs db1 @ [run]\<rparr>))"

definition set_sync_run_locations_total :: "text_bytes \<Rightarrow> int \<Rightarrow> sync_db \<Rightarrow> sync_error + sync_db" where
  "set_sync_run_locations_total run_id locations db =
     (if locations < 0 then Inl Bad_Total
      else if length (filter (\<lambda>r. sr_id r = run_id \<and> is_running r) (runs db)) \<noteq> 1 then Inl Ownership_Lost
      else Inr (db\<lparr>runs := update_where (\<lambda>r. sr_id r = run_id \<and> is_running r)
             (\<lambda>r. r\<lparr>sr_locations := locations\<rparr>) (runs db)\<rparr>))"

definition heartbeat_sync_run :: "text_bytes \<Rightarrow> instant \<Rightarrow> sync_db \<Rightarrow> bool \<times> sync_db" where
  "heartbeat_sync_run run_id now db =
     (length (filter (\<lambda>r. sr_id r = run_id \<and> is_running r) (runs db)) = 1,
      db\<lparr>runs := update_where (\<lambda>r. sr_id r = run_id \<and> is_running r)
            (\<lambda>r. r\<lparr>sr_heartbeat := Some now\<rparr>) (runs db)\<rparr>)"

record finish_counts =
  fi_grids :: int
  fi_mid_groups :: int
  fi_requests :: int
  fi_values :: "int option"

definition finish_row ::
  "text_bytes \<Rightarrow> finish_counts \<Rightarrow> text_bytes option \<Rightarrow> instant \<Rightarrow> sync_run \<Rightarrow> sync_run" where
  "finish_row status counts error now r =
     (end_row status now error r)\<lparr>sr_grids := fi_grids counts, sr_mid_groups := fi_mid_groups counts,
       sr_requests := fi_requests counts,
       sr_values := (case fi_values counts of None \<Rightarrow> sr_values r | Some v \<Rightarrow> v)\<rparr>"

definition finish_sync_run ::
  "repo_config \<Rightarrow> text_bytes \<Rightarrow> text_bytes \<Rightarrow> finish_counts \<Rightarrow> text_bytes option \<Rightarrow> int option \<Rightarrow>
   instant \<Rightarrow> sync_db \<Rightarrow> sync_error + (sync_run \<times> sync_db)" where
  "finish_sync_run cfg run_id status counts error timeout_ms now db =
     (if (case timeout_ms of None \<Rightarrow> False | Some t \<Rightarrow> \<not> (1 \<le> t \<and> t \<le> 30000)) then Inl Bad_Timeout
      else
        let (transitioned, db') = end_runs cfg (\<lambda>r. sr_id r = run_id) (finish_row status counts error now) db
        in case run_row run_id (runs db') of None \<Rightarrow> Inl Unknown_Run | Some row \<Rightarrow> Inr (row, db'))"

text \<open>
  The end of a run inside the transaction that publishes its last facts (\<open>publish_and_finish\<close>): the
  row must still be running, or the whole transaction is rolled back.
\<close>

definition finish_published ::
  "repo_config \<Rightarrow> text_bytes \<Rightarrow> text_bytes \<Rightarrow> finish_counts \<Rightarrow> text_bytes option \<Rightarrow> int \<Rightarrow>
   instant \<Rightarrow> sync_db \<Rightarrow> sync_error + (sync_run \<times> sync_db)" where
  "finish_published cfg run_id status counts error loaded now db =
     (let (transitioned, db') =
            end_runs cfg (\<lambda>r. sr_id r = run_id) (finish_row status (counts\<lparr>fi_values := Some loaded\<rparr>) error now) db
      in if transitioned \<noteq> 1 then Inl Ownership_Lost
         else case run_row run_id (runs db') of None \<Rightarrow> Inl Unknown_Run | Some row \<Rightarrow> Inr (row, db'))"

text \<open>
  A publication of warning announcements (alert_event_store.py) ends its run in its own transaction,
  without a projection; a batch of facts adds to the count of its run and records fetch clocks.
\<close>

definition succeed_row :: "instant \<Rightarrow> int \<Rightarrow> int \<Rightarrow> sync_run \<Rightarrow> sync_run" where
  "succeed_row finished requests loaded r =
     r\<lparr>sr_status := ''success'', sr_finished := Some finished, sr_requests := requests, sr_values := loaded\<rparr>"

definition succeed_alert_run :: "text_bytes \<Rightarrow> instant \<Rightarrow> int \<Rightarrow> int \<Rightarrow> sync_db \<Rightarrow> sync_db" where
  "succeed_alert_run run_id finished requests loaded db =
     db\<lparr>runs := update_where (\<lambda>r. is_running r \<and> sr_id r = run_id) (succeed_row finished requests loaded) (runs db)\<rparr>"

definition count_batch :: "text_bytes \<Rightarrow> int \<Rightarrow> fetch_clock_row list \<Rightarrow> sync_db \<Rightarrow> sync_db" where
  "count_batch run_id loaded clocks db =
     db\<lparr>runs := update_where (\<lambda>r. sr_id r = run_id \<and> is_running r) (\<lambda>r. r\<lparr>sr_values := sr_values r + loaded\<rparr>) (runs db),
        fetch_clocks := clocks\<rparr>"

subsection \<open>Recovering interrupted runs page by page\<close>

text \<open>
  The probe asks the orchestrator about a run: it may raise, or answer ended (\<open>Some True\<close>), alive
  (\<open>Some False\<close>) or unknown (\<open>None\<close>).  It is called outside the database transactions, so other
  transactions may run between the page's SELECT and its UPDATE: \<open>other\<close> is what they do.
\<close>

type_synonym cursor = "instant \<times> text_bytes"
type_synonym probe = "text_bytes \<Rightarrow> unit + bool option"

definition run_cursor :: "sync_run \<Rightarrow> cursor" where
  "run_cursor r = (sr_started r, sr_id r)"

definition beyond :: "cursor option \<Rightarrow> sync_run \<Rightarrow> bool" where
  "beyond after r \<longleftrightarrow> (case after of None \<Rightarrow> True | Some c \<Rightarrow> c < run_cursor r)"

definition interrupted_candidates :: "nat \<Rightarrow> cursor option \<Rightarrow> sync_db \<Rightarrow> sync_run list" where
  "interrupted_candidates limit after db =
     take limit (sort_key run_cursor
       (filter (\<lambda>r. is_running r \<and> sr_owner r \<noteq> None \<and> beyond after r) (runs db)))"

fun classify_candidates ::
  "probe \<Rightarrow> (nat \<Rightarrow> bool) \<Rightarrow> instant \<Rightarrow> nat \<Rightarrow> cursor option \<Rightarrow> sync_run list \<Rightarrow>
   sync_error + (text_bytes list \<times> text_bytes list \<times> cursor option)" where
  "classify_candidates probe stop cutoff i previous [] = Inr ([], [], None)"
| "classify_candidates probe stop cutoff i previous (r # rs) =
     (if 0 < i \<and> stop i then Inr ([], [], previous)
      else case probe (case sr_owner r of Some x \<Rightarrow> x | None \<Rightarrow> []) of
        Inl _ \<Rightarrow> Inl Probe_Failed
      | Inr state \<Rightarrow>
          (case classify_candidates probe stop cutoff (i + 1) (Some (run_cursor r)) rs of
             Inl e \<Rightarrow> Inl e
           | Inr (terminal, missing, stopped) \<Rightarrow>
               if state = Some True then Inr (sr_id r # terminal, missing, stopped)
               else if state = None \<and> last_beat r < cutoff then Inr (terminal, sr_id r # missing, stopped)
               else Inr (terminal, missing, stopped)))"

definition INTERRUPTED_ERROR :: text_bytes where
  "INTERRUPTED_ERROR = map char_of
     [119, 111, 114, 107, 101, 114, 32, 236, 162, 133, 235, 163, 140, 32, 235, 152, 144, 235,
      138, 148, 32, 109, 101, 116, 97, 100, 97, 116, 97, 32, 236, 156, 160, 236, 139, 164, 194,
      183, 108, 101, 97, 115, 101, 32, 235, 167, 140, 235, 163, 140, 235, 161, 156, 32, 236,
      164, 145, 235, 139, 168, 235, 144, 156, 32, 236, 139, 164, 237, 150, 137, 32, 237, 154,
      140, 236, 136, 152 :: nat]"

record page_result =
  pg_count :: nat
  pg_next :: "cursor option"
  pg_stopped :: bool

definition end_interrupted ::
  "repo_config \<Rightarrow> text_bytes list \<Rightarrow> text_bytes list \<Rightarrow> instant \<Rightarrow> instant \<Rightarrow> sync_db \<Rightarrow> nat \<times> sync_db" where
  "end_interrupted cfg terminal missing cutoff finished db =
     end_runs cfg (\<lambda>r. sr_id r \<in> set terminal \<or> (sr_id r \<in> set missing \<and> last_beat r < cutoff))
       (end_row ''failed'' finished (Some INTERRUPTED_ERROR)) db"

definition reconcile_page ::
  "repo_config \<Rightarrow> probe \<Rightarrow> nat \<Rightarrow> cursor option \<Rightarrow> (nat \<Rightarrow> bool) \<Rightarrow> instant \<Rightarrow> instant \<Rightarrow>
   (sync_db \<Rightarrow> sync_db) \<Rightarrow> sync_db \<Rightarrow> sync_error + (page_result \<times> sync_db)" where
  "reconcile_page cfg probe limit after stop now finished other db =
     (let candidates = interrupted_candidates limit after db;
          full = (if length candidates = limit \<and> candidates \<noteq> [] then Some (run_cursor (last candidates)) else None);
          cutoff = now - minutes SYNC_RUN_LEASE_MINUTES
      in case classify_candidates probe stop cutoff 0 None candidates of
           Inl e \<Rightarrow> Inl e
         | Inr (terminal, missing, stopped) \<Rightarrow>
             let next_cursor = (if stopped = None then full else stopped) in
             if terminal = [] \<and> missing = []
             then Inr (\<lparr>pg_count = 0, pg_next = next_cursor, pg_stopped = (stopped \<noteq> None)\<rparr>, other db)
             else let (n, db') = end_interrupted cfg terminal missing cutoff finished (other db)
                  in Inr (\<lparr>pg_count = n, pg_next = next_cursor, pg_stopped = (stopped \<noteq> None)\<rparr>, db'))"

lemma end_runs_cursors:
  assumes "\<And>r. run_cursor (change r) = run_cursor r"
  shows "map run_cursor (runs (snd (end_runs cfg which change db))) = map run_cursor (runs db)"
proof -
  have one: "map run_cursor (runs (project_export_terminal cfg r d)) = map run_cursor (runs d)" for r d
    by (auto simp: project_export_terminal_def update_where_def run_cursor_def
        split: option.splits list.splits sum.splits)
  have "map run_cursor (runs (fold (project_export_terminal cfg) rs d)) = map run_cursor (runs d)" for rs d
    by (induction rs arbitrary: d) (simp_all add: one)
  then show ?thesis
    by (simp add: end_runs_def Let_def map_key_update_where assms)
qed

lemma run_cursor_end_row [simp]: "run_cursor (end_row s t e r) = run_cursor r"
  by (simp add: run_cursor_def end_row_def)

lemma reconcile_page_Inr:
  assumes "reconcile_page cfg probe limit after stop now finished other db = Inr (p, db')"
  obtains terminal missing stopped where
    "classify_candidates probe stop (now - minutes SYNC_RUN_LEASE_MINUTES) 0 None
       (interrupted_candidates limit after db) = Inr (terminal, missing, stopped)"
    "db' = (if terminal = [] \<and> missing = [] then other db
            else snd (end_interrupted cfg terminal missing (now - minutes SYNC_RUN_LEASE_MINUTES) finished (other db)))"
    "pg_next p = (if stopped \<noteq> None then stopped
       else if length (interrupted_candidates limit after db) = limit \<and> interrupted_candidates limit after db \<noteq> []
       then Some (run_cursor (last (interrupted_candidates limit after db))) else None)"
    "pg_stopped p = (stopped \<noteq> None)"
  using assms
  by (auto simp: reconcile_page_def Let_def split_beta split: sum.splits if_splits)

lemma reconcile_page_cursors:
  assumes "reconcile_page cfg probe limit after stop now finished (\<lambda>d. d) db = Inr (p, db')"
  shows "map run_cursor (runs db') = map run_cursor (runs db)"
  using assms
  by (rule reconcile_page_Inr) (simp add: end_interrupted_def end_runs_cursors)

lemma classify_stopped:
  "classify_candidates probe stop cutoff i previous rs = Inr (t, m, Some c) \<Longrightarrow>
    previous = Some c \<or> c \<in> run_cursor ` set rs"
proof (induction rs arbitrary: i previous t m)
  case Nil
  then show ?case by simp
next
  case (Cons r rs)
  from Cons.prems consider "previous = Some c"
    | t' m' where "classify_candidates probe stop cutoff (i + 1) (Some (run_cursor r)) rs = Inr (t', m', Some c)"
    by (auto split: if_splits sum.splits prod.splits)
  then show ?case by cases (use Cons.IH in auto)
qed

lemma in_candidates: "r \<in> set (interrupted_candidates limit after db) \<Longrightarrow> r \<in> set (runs db) \<and> beyond after r"
  by (auto simp: interrupted_candidates_def dest!: in_set_takeD)

lemma reconcile_page_next:
  assumes "reconcile_page cfg probe limit after stop now finished other db = Inr (p, db')" "pg_next p = Some c"
  shows "\<exists>r \<in> set (runs db). run_cursor r = c \<and> beyond after r"
proof -
  let ?cs = "interrupted_candidates limit after db"
  from assms(1) obtain t m stopped where
    cl: "classify_candidates probe stop (now - minutes SYNC_RUN_LEASE_MINUTES) 0 None ?cs = Inr (t, m, stopped)"
    and c: "pg_next p = (if stopped \<noteq> None then stopped
      else if length ?cs = limit \<and> ?cs \<noteq> [] then Some (run_cursor (last ?cs)) else None)"
    by (rule reconcile_page_Inr)
  have "c \<in> run_cursor ` set ?cs"
  proof (cases stopped)
    case None
    with c assms(2) show ?thesis by (auto split: if_splits)
  next
    case (Some d)
    with c assms(2) cl classify_stopped [of probe stop _ 0 None ?cs t m c] show ?thesis by auto
  qed
  then show ?thesis using in_candidates by blast
qed

definition rows_beyond :: "cursor option \<Rightarrow> sync_db \<Rightarrow> nat" where
  "rows_beyond after db = length (filter (beyond after) (runs db))"

lemma rows_beyond_cursors:
  "rows_beyond after db = length (filter (\<lambda>c. case after of None \<Rightarrow> True | Some a \<Rightarrow> a < c) (map run_cursor (runs db)))"
  by (simp add: rows_beyond_def beyond_def [abs_def] filter_map comp_def)

lemma length_filter_strict:
  assumes "\<And>x. x \<in> set xs \<Longrightarrow> Q x \<Longrightarrow> P x" "y \<in> set xs" "P y" "\<not> Q y"
  shows "length (filter Q xs) < length (filter P xs)"
  using assms
proof (induction xs)
  case Nil
  then show ?case by simp
next
  case (Cons x xs)
  have "filter Q xs = filter Q (filter P xs)"
    using Cons.prems(1) by (auto intro!: filter_cong)
  then have le: "length (filter Q xs) \<le> length (filter P xs)"
    by (metis length_filter_le)
  show ?case
  proof (cases "x = y")
    case True
    with Cons.prems le show ?thesis by simp
  next
    case False
    with Cons show ?thesis by auto
  qed
qed

lemma rows_beyond_decreases:
  assumes "reconcile_page cfg probe limit after stop now finished (\<lambda>d. d) db = Inr (p, db')" "pg_next p = Some c"
  shows "rows_beyond (Some c) db' < rows_beyond after db"
proof -
  obtain r where r: "r \<in> set (runs db)" "run_cursor r = c" "beyond after r"
    using reconcile_page_next [OF assms] by blast
  have "rows_beyond (Some c) db' = rows_beyond (Some c) db"
    using reconcile_page_cursors [OF assms(1)] by (simp add: rows_beyond_cursors)
  also have "\<dots> < rows_beyond after db"
    unfolding rows_beyond_def
  proof (rule length_filter_strict)
    show "beyond after x" if "beyond (Some c) x" for x
      using that r(2,3) by (auto simp: beyond_def split: option.splits)
  qed (use r in \<open>auto simp: beyond_def\<close>)
  finally show ?thesis .
qed

subsection \<open>The loops over the pages\<close>

text \<open>
  \<open>clock k\<close> holds the two readings of the clock in page \<open>k\<close>; \<open>remaining k i\<close> is the budget that is
  left before page \<open>k\<close> (\<open>i = 0\<close>) and before its row \<open>i\<close>, in microseconds.  Other transactions between
  the two statements of a page are the concern of \<open>reconcile_page\<close>; the loops are stated without them.
\<close>

type_synonym page_clock = "nat \<Rightarrow> instant \<times> instant"

function reconcile_pages ::
  "repo_config \<Rightarrow> probe \<Rightarrow> nat \<Rightarrow> page_clock \<Rightarrow> nat \<Rightarrow> cursor option \<Rightarrow> sync_db \<Rightarrow> sync_error + (nat \<times> sync_db)" where
  "reconcile_pages cfg probe limit clock k after db =
     (case reconcile_page cfg probe limit after (\<lambda>_. False) (fst (clock k)) (snd (clock k)) (\<lambda>d. d) db of
        Inl e \<Rightarrow> Inl e
      | Inr (page, db') \<Rightarrow>
          (case pg_next page of
             None \<Rightarrow> Inr (pg_count page, db')
           | Some c \<Rightarrow>
               (case reconcile_pages cfg probe limit clock (k + 1) (Some c) db' of
                  Inl e \<Rightarrow> Inl e | Inr (n, db'') \<Rightarrow> Inr (pg_count page + n, db''))))"
  by pat_completeness auto
termination
  by (relation "measure (\<lambda>(cfg, probe, limit, clock, k, after, db). rows_beyond after db)")
    (auto dest: rows_beyond_decreases)

definition reconcile_interrupted_sync_runs ::
  "repo_config \<Rightarrow> probe \<Rightarrow> int \<Rightarrow> page_clock \<Rightarrow> sync_db \<Rightarrow> sync_error + (nat \<times> sync_db)" where
  "reconcile_interrupted_sync_runs cfg probe limit clock db =
     (if limit \<le> 0 then Inl Bad_Limit else reconcile_pages cfg probe (nat limit) clock 0 None db)"

definition RECONCILE_PAGE_RESERVE :: instant where "RECONCILE_PAGE_RESERVE = seconds 30"
definition RECONCILE_ROW_RESERVE :: instant where "RECONCILE_ROW_RESERVE = seconds 20"

function reconcile_within ::
  "repo_config \<Rightarrow> probe \<Rightarrow> nat \<Rightarrow> page_clock \<Rightarrow> (nat \<Rightarrow> nat \<Rightarrow> instant) \<Rightarrow> nat \<Rightarrow> cursor option \<Rightarrow> sync_db \<Rightarrow>
   sync_error + (nat \<times> cursor option \<times> sync_db)" where
  "reconcile_within cfg probe limit clock remaining k after db =
     (if remaining k 0 < RECONCILE_PAGE_RESERVE then Inr (0, after, db)
      else case reconcile_page cfg probe limit after (\<lambda>i. remaining k i < RECONCILE_ROW_RESERVE)
          (fst (clock k)) (snd (clock k)) (\<lambda>d. d) db of
        Inl e \<Rightarrow> Inl e
      | Inr (page, db') \<Rightarrow>
          if pg_stopped page then Inr (pg_count page, pg_next page, db')
          else (case pg_next page of
             None \<Rightarrow> Inr (pg_count page, None, db')
           | Some c \<Rightarrow>
               (case reconcile_within cfg probe limit clock remaining (k + 1) (Some c) db' of
                  Inl e \<Rightarrow> Inl e | Inr (n, resume, db'') \<Rightarrow> Inr (pg_count page + n, resume, db''))))"
  by pat_completeness auto
termination
  by (relation "measure (\<lambda>(cfg, probe, limit, clock, remaining, k, after, db). rows_beyond after db)")
    (auto dest: rows_beyond_decreases)

declare reconcile_pages.simps [simp del] reconcile_within.simps [simp del]

definition reconcile_interrupted_sync_runs_within ::
  "repo_config \<Rightarrow> probe \<Rightarrow> int \<Rightarrow> page_clock \<Rightarrow> (nat \<Rightarrow> nat \<Rightarrow> instant) \<Rightarrow> cursor option \<Rightarrow> sync_db \<Rightarrow>
   sync_error + (nat \<times> cursor option \<times> sync_db)" where
  "reconcile_interrupted_sync_runs_within cfg probe limit clock remaining after db =
     (if limit \<le> 0 then Inl Bad_Limit else reconcile_within cfg probe (nat limit) clock remaining 0 after db)"

text \<open>\<open>stuck_sync_runs\<close>: the running rows whose last beat is older than the lease, oldest first.\<close>

definition stuck_sync_runs :: "int \<Rightarrow> nat \<Rightarrow> instant \<Rightarrow> sync_db \<Rightarrow> sync_run list" where
  "stuck_sync_runs max_age limit now db =
     take limit (sort_key (\<lambda>r. (last_beat r, sr_id r))
       (filter (\<lambda>r. is_running r \<and> last_beat r < now - minutes max_age) (runs db)))"

subsection \<open>The invariant of the runs\<close>

text \<open>
  A projection changes nothing of a run but its pending mark; \<open>core\<close> is the row without it.
\<close>

definition core :: "sync_run \<Rightarrow> sync_run" where
  "core r = r\<lparr>sr_pending := False\<rparr>"

lemma core_simps [simp]:
  "sr_id (core r) = sr_id r" "sr_provider (core r) = sr_provider r" "sr_dataset (core r) = sr_dataset r"
  "sr_owner (core r) = sr_owner r" "sr_finished (core r) = sr_finished r"
  "is_running (core r) = is_running r" "last_beat (core r) = last_beat r" "run_cursor (core r) = run_cursor r"
  "core (core r) = core r"
  by (simp_all add: core_def is_running_def last_beat_def run_cursor_def split: option.split)

lemma core_project: "map core (runs (project_export_terminal cfg r db)) = map core (runs db)"
  by (auto simp: project_export_terminal_def update_where_def core_def split: option.splits list.splits sum.splits)

lemma core_project_all: "map core (runs (fold (project_export_terminal cfg) rs db)) = map core (runs db)"
  by (induction rs arbitrary: db) (simp_all add: core_project)

lemma core_end_runs:
  "map core (runs (snd (end_runs cfg which change db)))
    = map core (update_where (\<lambda>r. is_running r \<and> which r) change (runs db))"
  by (simp add: end_runs_def Let_def core_project_all)

lemma core_reconcile_status:
  "reconcile_export_status cfg providers limit db = Inr (n, db') \<Longrightarrow> map core (runs db') = map core (runs db)"
proof -
  have "map core (runs (fold (\<lambda>r db. if is_running r then db else project_export_terminal cfg r db) rs d))
      = map core (runs d)" for rs d
    by (induction rs arbitrary: d) (simp_all add: core_project)
  then show "reconcile_export_status cfg providers limit db = Inr (n, db') \<Longrightarrow> map core (runs db') = map core (runs db)"
    by (auto simp: reconcile_export_status_def Let_def split: if_splits)
qed

definition slot :: "sync_run \<Rightarrow> text_bytes \<times> text_bytes" where
  "slot r = (sr_provider r, sr_dataset r)"

definition runs_inv :: "sync_run list \<Rightarrow> bool" where
  "runs_inv rs \<longleftrightarrow> keyed sr_id rs \<and> distinct (map slot (filter is_running rs))
     \<and> list_all (\<lambda>r. is_running r \<longleftrightarrow> sr_finished r = None) rs"

lemma runs_inv_core: "runs_inv (map core rs) = runs_inv rs"
proof -
  have "slot \<circ> core = slot" by (auto simp: slot_def)
  then show ?thesis
    by (simp add: runs_inv_def keyed_def comp_def list_all_iff filter_map flip: map_map) (simp add: comp_def)
qed

definition ends :: "(sync_run \<Rightarrow> sync_run) \<Rightarrow> bool" where
  "ends change \<longleftrightarrow> (\<forall>r. sr_id (change r) = sr_id r \<and> \<not> is_running (change r) \<and> sr_finished (change r) \<noteq> None)"

lemma ends_end_row: "status \<noteq> ''running'' \<Longrightarrow> ends (end_row status at e)"
  by (simp add: ends_def end_row_def is_running_def)

lemma ends_finish_row: "status \<noteq> ''running'' \<Longrightarrow> ends (finish_row status counts e at)"
  by (simp add: ends_def finish_row_def end_row_def is_running_def)

lemma ends_succeed_row: "ends (succeed_row finished requests loaded)"
  by (simp add: ends_def succeed_row_def is_running_def)

lemma runs_inv_end:
  assumes "runs_inv rs" "ends change"
  shows "runs_inv (update_where (\<lambda>r. is_running r \<and> which r) change rs)"
proof -
  have change: "sr_id (change r) = sr_id r" "\<not> is_running (change r)" "sr_finished (change r) \<noteq> None" for r
    using assms(2) by (auto simp: ends_def)
  have "filter is_running (update_where (\<lambda>r. is_running r \<and> which r) change rs)
      = filter (\<lambda>r. \<not> which r) (filter is_running rs)"
    by (induction rs) (auto simp: update_where_def change)
  moreover have "distinct (map slot (filter (\<lambda>r. \<not> which r) (filter is_running rs)))"
    using assms(1) unfolding runs_inv_def by (blast intro: distinct_map_filter)
  moreover have "list_all (\<lambda>r. is_running r \<longleftrightarrow> sr_finished r = None)
      (update_where (\<lambda>r. is_running r \<and> which r) change rs)"
    unfolding list_all_iff set_update_where
  proof
    fix x assume "x \<in> (\<lambda>r. if is_running r \<and> which r then change r else r) ` set rs"
    then obtain r where "r \<in> set rs" "x = (if is_running r \<and> which r then change r else r)" by blast
    with assms(1) change(2,3) [of r] show "is_running x \<longleftrightarrow> sr_finished x = None"
      by (simp add: runs_inv_def list_all_iff)
  qed
  moreover have "keyed sr_id (update_where (\<lambda>r. is_running r \<and> which r) change rs)"
    using assms(1) change(1) by (intro keyed_update_where) (simp_all add: runs_inv_def)
  ultimately show ?thesis by (simp only: runs_inv_def)
qed

text \<open>The statement that ends rows keeps the invariant and every row that was not running.\<close>

definition sync_inv :: "sync_db \<Rightarrow> bool" where
  "sync_inv db \<longleftrightarrow> runs_inv (runs db)"

definition ended_kept :: "sync_db \<Rightarrow> sync_db \<Rightarrow> bool" where
  "ended_kept a b \<longleftrightarrow> (\<forall>r \<in> set (runs a). \<not> is_running r \<longrightarrow> core r \<in> core ` set (runs b))"

lemma ended_kept_refl: "ended_kept a a"
  by (auto simp: ended_kept_def)

lemma ended_kept_trans:
  assumes "ended_kept a b" "ended_kept b c"
  shows "ended_kept a c"
  unfolding ended_kept_def
proof (intro ballI impI)
  fix r assume "r \<in> set (runs a)" "\<not> is_running r"
  with assms(1) obtain s where s: "s \<in> set (runs b)" "core r = core s"
    by (auto simp: ended_kept_def)
  have "\<not> is_running s" using \<open>\<not> is_running r\<close> s(2) core_simps(6) by metis
  with assms(2) s show "core r \<in> core ` set (runs c)" by (auto simp: ended_kept_def)
qed

lemma sync_inv_core: "map core (runs b) = map core (runs a) \<Longrightarrow> sync_inv a \<Longrightarrow> sync_inv b"
  unfolding sync_inv_def by (metis runs_inv_core)

lemma ended_kept_core:
  "map core (runs b) = map core (update_where (\<lambda>r. is_running r \<and> which r) change (runs a)) \<Longrightarrow> ended_kept a b"
  unfolding ended_kept_def
proof (intro ballI impI)
  fix r assume eq: "map core (runs b) = map core (update_where (\<lambda>r. is_running r \<and> which r) change (runs a))"
    and r: "r \<in> set (runs a)" "\<not> is_running r"
  have "r \<in> set (update_where (\<lambda>r. is_running r \<and> which r) change (runs a))"
    using r unfolding set_update_where by (intro image_eqI [of _ _ r]) auto
  then have "core r \<in> set (map core (runs b))" unfolding eq by simp
  then show "core r \<in> core ` set (runs b)" by simp
qed

lemma end_runs_step:
  assumes "ends change"
  shows "sync_inv db \<Longrightarrow> sync_inv (snd (end_runs cfg which change db))"
    and "ended_kept db (snd (end_runs cfg which change db))"
proof -
  assume "sync_inv db"
  then have "runs_inv (map core (update_where (\<lambda>r. is_running r \<and> which r) change (runs db)))"
    using runs_inv_end [OF _ assms] by (simp add: sync_inv_def runs_inv_core)
  then show "sync_inv (snd (end_runs cfg which change db))"
    unfolding sync_inv_def by (metis core_end_runs runs_inv_core)
next
  show "ended_kept db (snd (end_runs cfg which change db))"
    using core_end_runs by (rule ended_kept_core)
qed

lemma start_sync_run_Inr:
  assumes "start_sync_run cfg provider dataset locations datasets cohort uuid started now finished checked db = Inr (run, db')"
  defines "db1 \<equiv> snd (reconcile_stale_sync_runs cfg SYNC_RUN_LEASE_MINUTES now finished db)"
  shows "db' = db1\<lparr>runs := runs db1 @ [run]\<rparr>" "slot run = (provider, dataset)" "is_running run"
    "sr_finished run = None" "sr_id run = ''run_'' @ uuid" "sr_heartbeat run = Some started"
    "sr_owner run = own_orchestrator cfg"
    "\<forall>r \<in> set (runs db1). is_running r \<longrightarrow> slot r \<noteq> (provider, dataset)" "run_row (sr_id run) (runs db1) = None"
  using assms(1) unfolding db1_def
  by (auto simp: start_sync_run_def Let_def slot_def is_running_def find_None_iff split: option.splits if_splits)

lemma runs_inv_append:
  assumes "runs_inv rs" "run_row (sr_id r) rs = None" "is_running r" "sr_finished r = None"
    "\<forall>x \<in> set rs. is_running x \<longrightarrow> slot x \<noteq> slot r"
  shows "runs_inv (rs @ [r])"
  using assms by (auto simp: runs_inv_def)

lemma start_step:
  assumes "start_sync_run cfg provider dataset locations datasets cohort uuid started now finished checked db = Inr (run, db')"
  shows "sync_inv db \<Longrightarrow> sync_inv db'" and "ended_kept db db'"
proof -
  note start = start_sync_run_Inr [OF assms]
  let ?db1 = "snd (reconcile_stale_sync_runs cfg SYNC_RUN_LEASE_MINUTES now finished db)"
  have ends: "ends (end_row ''failed'' finished (Some STALE_ERROR))" by (rule ends_end_row) simp
  show "sync_inv db'" if "sync_inv db"
  proof -
    have "runs_inv (runs ?db1)"
      using end_runs_step(1) [OF ends that] by (simp add: reconcile_stale_sync_runs_def sync_inv_def)
    then have "runs_inv (runs ?db1 @ [run])"
      using start(2,3,4,8,9) by (intro runs_inv_append) simp_all
    then show ?thesis by (simp add: sync_inv_def start(1))
  qed
  have "ended_kept db ?db1"
    using end_runs_step(2) [OF ends] by (simp add: reconcile_stale_sync_runs_def)
  moreover have "ended_kept ?db1 db'" by (auto simp: ended_kept_def start(1))
  ultimately show "ended_kept db db'" by (rule ended_kept_trans)
qed

lemma running_update_step:
  assumes "\<And>r. sr_id (f r) = sr_id r \<and> slot (f r) = slot r \<and> sr_status (f r) = sr_status r \<and> sr_finished (f r) = sr_finished r"
  shows "sync_inv db \<Longrightarrow> sync_inv (db\<lparr>runs := update_where (\<lambda>r. sr_id r = i \<and> is_running r) f (runs db)\<rparr>)"
    and "ended_kept db (db\<lparr>runs := update_where (\<lambda>r. sr_id r = i \<and> is_running r) f (runs db)\<rparr>)"
proof -
  have run: "is_running (f r) = is_running r" for r using assms by (simp add: is_running_def)
  have "map slot (filter is_running (update_where (\<lambda>r. sr_id r = i \<and> is_running r) f rs)) = map slot (filter is_running rs)" for rs
    by (induction rs) (auto simp: update_where_def run assms)
  moreover have "list_all (\<lambda>r. is_running r \<longleftrightarrow> sr_finished r = None) rs \<Longrightarrow>
      list_all (\<lambda>r. is_running r \<longleftrightarrow> sr_finished r = None) (update_where (\<lambda>r. sr_id r = i \<and> is_running r) f rs)" for rs
    by (auto simp: list_all_iff set_update_where run assms)
  ultimately show "sync_inv db \<Longrightarrow> sync_inv (db\<lparr>runs := update_where (\<lambda>r. sr_id r = i \<and> is_running r) f (runs db)\<rparr>)"
    using assms by (simp add: sync_inv_def runs_inv_def keyed_update_where)
  show "ended_kept db (db\<lparr>runs := update_where (\<lambda>r. sr_id r = i \<and> is_running r) f (runs db)\<rparr>)"
    by (auto simp: ended_kept_def set_update_where intro!: imageI)
qed

subsection \<open>Steps and reachable tables\<close>

inductive sync_step :: "sync_db \<Rightarrow> sync_db \<Rightarrow> bool" where
  start_run: "start_sync_run cfg provider dataset locations datasets cohort uuid started now finished checked db
      = Inr (run, db') \<Longrightarrow> sync_step db db'"
| beat: "sync_step db (snd (heartbeat_sync_run run_id now db))"
| locations_total: "set_sync_run_locations_total run_id locations db = Inr db' \<Longrightarrow> sync_step db db'"
| finish: "status \<noteq> ''running'' \<Longrightarrow>
    finish_sync_run cfg run_id status counts error timeout now db = Inr (row, db') \<Longrightarrow> sync_step db db'"
| stale: "sync_step db (snd (reconcile_stale_sync_runs cfg max_age now finished db))"
| interrupted: "sync_step db (snd (end_interrupted cfg terminal missing cutoff finished db))"
| project: "reconcile_export_status cfg providers limit db = Inr (n, db') \<Longrightarrow> sync_step db db'"
| publisher: "sync_step db (fail_terminal_run run_id now db)"
| published: "status \<noteq> ''running'' \<Longrightarrow>
    finish_published cfg run_id status counts error loaded now db = Inr (row, db') \<Longrightarrow> sync_step db db'"
| alerts: "sync_step db (succeed_alert_run run_id finished requests loaded db)"
| counted: "sync_step db (count_batch run_id loaded clocks db)"

lemma update_step:
  assumes "runs b = update_where (\<lambda>r. is_running r \<and> which r) change (runs a)" "ends change"
  shows "(sync_inv a \<longrightarrow> sync_inv b) \<and> ended_kept a b"
proof -
  have "ended_kept a b" by (intro ended_kept_core) (simp add: assms(1))
  then show ?thesis using runs_inv_end [OF _ assms(2)] by (simp add: sync_inv_def assms(1))
qed

lemma sync_step_effect:
  assumes "sync_step a b"
  shows "(sync_inv a \<longrightarrow> sync_inv b) \<and> ended_kept a b"
  using assms
proof cases
  case (start_run cfg provider dataset locations datasets cohort uuid started now finished checked run)
  from start_step [OF this] show ?thesis by blast
next
  case (beat run_id now)
  then show ?thesis
    using running_update_step [of "\<lambda>r. r\<lparr>sr_heartbeat := Some now\<rparr>" a run_id]
    by (simp add: heartbeat_sync_run_def slot_def)
next
  case (locations_total run_id locations)
  then show ?thesis
    using running_update_step [of "\<lambda>r. r\<lparr>sr_locations := locations\<rparr>" a run_id]
    by (auto simp: set_sync_run_locations_total_def slot_def split: if_splits)
next
  case (finish status cfg run_id counts error timeout now row)
  then have "b = snd (end_runs cfg (\<lambda>r. sr_id r = run_id) (finish_row status counts error now) a)"
    by (auto simp: finish_sync_run_def split_beta Let_def split: if_splits option.splits)
  then show ?thesis using end_runs_step [OF ends_finish_row [OF finish(1)]] by simp
next
  case (stale cfg max_age now finished)
  then show ?thesis
    using end_runs_step [OF ends_end_row, of "''failed''"] by (simp add: reconcile_stale_sync_runs_def)
next
  case (interrupted cfg terminal missing cutoff finished)
  then show ?thesis
    using end_runs_step [OF ends_end_row, of "''failed''"] by (simp add: end_interrupted_def)
next
  case (project cfg providers limit n)
  then have eq: "map core (runs b) = map core (runs a)" by (rule core_reconcile_status)
  then have "ended_kept a b" unfolding ended_kept_def by (metis image_eqI list.set_map)
  then show ?thesis using sync_inv_core [OF eq] by blast
next
  case (publisher run_id now)
  show ?thesis by (rule update_step [OF _ ends_end_row]) (auto simp: publisher fail_terminal_run_def)
next
  case (published status cfg run_id counts error loaded now row)
  then have "b = snd (end_runs cfg (\<lambda>r. sr_id r = run_id) (finish_row status (counts\<lparr>fi_values := Some loaded\<rparr>) error now) a)"
    by (auto simp: finish_published_def split_beta Let_def split: if_splits option.splits)
  then show ?thesis using end_runs_step [OF ends_finish_row [OF published(1)]] by simp
next
  case (alerts run_id finished requests loaded)
  show ?thesis by (rule update_step [OF _ ends_succeed_row]) (simp add: alerts succeed_alert_run_def)
next
  case (counted run_id loaded clocks)
  have "sync_inv (a\<lparr>runs := rs\<rparr>) = sync_inv (a\<lparr>runs := rs, fetch_clocks := clocks\<rparr>)" for rs
    by (simp add: sync_inv_def)
  then show ?thesis
    using running_update_step [of "\<lambda>r. r\<lparr>sr_values := sr_values r + loaded\<rparr>" a run_id]
    by (simp add: counted count_batch_def slot_def sync_inv_def ended_kept_def)
qed

lemma distinct_filter_length: "distinct (map f xs) \<Longrightarrow> length (filter (\<lambda>x. f x = k) xs) \<le> 1"
  by (induction xs) (auto simp: filter_empty_conv, metis image_eqI)

definition sync_start :: "sync_db \<Rightarrow> bool" where
  "sync_start db \<longleftrightarrow> runs db = []"

interpretation sync_system: step_invariant sync_start sync_step sync_inv
  by unfold_locales (auto simp: sync_start_def sync_inv_def runs_inv_def dest: sync_step_effect)

text \<open>
  C26: in every reachable table a provider and dataset have at most one running row, a row has a
  finish time exactly when it is not running, and run ids are unique.  The steps are the starts, the
  beats, the ends of runs (finished, with their last facts or announcements, stale, interrupted, by
  the publisher, each with a status other than running), the counts and the projections.
\<close>

theorem one_running_per_slot:
  assumes "sync_system.reachable db"
  shows "length (filter (\<lambda>r. is_running r \<and> slot r = k) (runs db)) \<le> 1
    \<and> (\<forall>r \<in> set (runs db). sr_finished r = None \<longleftrightarrow> is_running r)
    \<and> distinct (map sr_id (runs db))"
proof -
  have inv: "runs_inv (runs db)"
    using sync_system.inv_reachable [OF assms(1)] by (simp add: sync_inv_def)
  then have "distinct (map slot (filter is_running (runs db)))" by (simp add: runs_inv_def)
  then have "length (filter (\<lambda>r. slot r = k) (filter is_running (runs db))) \<le> 1" by (rule distinct_filter_length)
  then have "length (filter (\<lambda>r. is_running r \<and> slot r = k) (runs db)) \<le> 1" by (simp add: conj_commute)
  with inv show ?thesis by (auto simp: runs_inv_def list_all_iff keyed_def)
qed

text \<open>
  Once a run has ended, no later transaction (a late heartbeat, a second finish, either
  reconciler, a new start, a projection) changes anything of its row but the pending mark.
\<close>

theorem ended_run_is_final:
  assumes "sync_system.reachable a" "sync_step\<^sup>*\<^sup>* a b" "r \<in> set (runs a)" "\<not> is_running r"
  shows "\<exists>s \<in> set (runs b). core s = core r"
proof -
  have "ended_kept a b"
    by (rule sync_system.steps_preorder [OF assms(2) sync_system.inv_reachable [OF assms(1)],
          of ended_kept, OF ended_kept_refl ended_kept_trans])
      (use sync_step_effect in blast)+
  with assms(3,4) show ?thesis by (force simp: ended_kept_def)
qed

definition example_config :: repo_config where
  "example_config = \<lparr>export_status_enabled = False, own_orchestrator = None, catalog = []\<rparr>"

definition example_run :: "text_bytes \<Rightarrow> sync_run" where
  "example_run status = \<lparr>sr_id = ''run_a'', sr_provider = ''p'', sr_dataset = ''d'', sr_status = status,
     sr_started = 0, sr_heartbeat = Some 0, sr_finished = (if status = ''running'' then None else Some 5),
     sr_locations = 1, sr_grids = 0, sr_mid_groups = 0, sr_requests = 0, sr_values = 0, sr_error = None,
     sr_owner = None, sr_scopes = None, sr_pending = False, sr_cohort = False\<rparr>"

definition example_db :: "text_bytes \<Rightarrow> sync_db" where
  "example_db status = \<lparr>runs = [example_run status], statuses = [], fetch_clocks = []\<rparr>"

lemma example_start: "sync_step \<lparr>runs = [], statuses = [], fetch_clocks = []\<rparr> (example_db ''running'')"
proof -
  let ?e = "\<lparr>runs = [], statuses = [], fetch_clocks = []\<rparr>"
  have "start_sync_run example_config ''p'' ''d'' 1 None False ''a'' 0 0 0 0 ?e
      = Inr (example_run ''running'', example_db ''running'')"
    by (simp add: start_sync_run_def example_config_def reconcile_stale_sync_runs_def end_runs_def
        update_where_def Let_def example_db_def example_run_def)
  then show ?thesis by (rule sync_step.start_run)
qed

lemma example_started: "sync_system.reachable (example_db ''running'')"
  using example_start
  by (rule sync_system.reachable_step [rotated]) (simp add: sync_system.reachable_start sync_start_def)

lemma example_finished: "sync_step (example_db ''running'') (example_db ''success'')"
proof -
  have "finish_sync_run example_config ''run_a'' ''success''
      \<lparr>fi_grids = 0, fi_mid_groups = 0, fi_requests = 0, fi_values = None\<rparr> None None 5 (example_db ''running'')
      = Inr (example_run ''success'', example_db ''success'')"
    by (simp add: finish_sync_run_def example_config_def end_runs_def finish_row_def end_row_def
        update_where_def Let_def example_db_def example_run_def is_running_def project_export_terminal_def row_of_Cons)
  then show ?thesis by (rule sync_step.finish [rotated]) simp
qed

theorem one_running_per_slot_witness:
  "length (filter (\<lambda>r. is_running r \<and> slot r = (''p'', ''d'')) (runs (example_db ''running''))) \<le> 1
    \<and> (sr_finished (example_run ''running'') = None) = is_running (example_run ''running'')
    \<and> distinct (map sr_id (runs (example_db ''running'')))"
proof -
  have "example_run ''running'' \<in> set (runs (example_db ''running''))" by (simp add: example_db_def)
  with one_running_per_slot [OF example_started, of "(''p'', ''d'')"] show ?thesis by blast
qed

theorem ended_run_is_final_witness:
  "\<exists>s \<in> set (runs (snd (heartbeat_sync_run ''run_a'' 9 (example_db ''success'')))). core s = core (example_run ''success'')"
proof (rule ended_run_is_final)
  show "sync_system.reachable (example_db ''success'')"
    using example_started example_finished by (rule sync_system.reachable_step)
  show "sync_step\<^sup>*\<^sup>* (example_db ''success'') (snd (heartbeat_sync_run ''run_a'' 9 (example_db ''success'')))"
    using sync_step.beat by blast
qed (simp_all add: example_db_def example_run_def is_running_def)

subsection \<open>The recovery ends what is dead, and nothing else\<close>

definition ended_worker :: "probe \<Rightarrow> sync_run \<Rightarrow> bool" where
  "ended_worker probe r \<longleftrightarrow> (\<exists>w. sr_owner r = Some w \<and> probe w = Inr (Some True))"

text \<open>
  What the reconciler may end: a run whose orchestrator run has ended, and one whose orchestrator run
  is unknown and whose lease has run out at the cutoff.
\<close>

definition recoverable :: "probe \<Rightarrow> instant \<Rightarrow> sync_run \<Rightarrow> bool" where
  "recoverable probe cutoff r \<longleftrightarrow> ended_worker probe r
     \<or> ((\<exists>w. sr_owner r = Some w \<and> probe w = Inr None) \<and> last_beat r < cutoff)"

lemma classify_Cons:
  assumes "classify_candidates probe stop cutoff i previous (r # rs) = Inr (t, m, stopped)"
    and "\<not> (0 < i \<and> stop i)" "sr_owner r = Some w"
  obtains state t' m' where "probe w = Inr state"
    "classify_candidates probe stop cutoff (i + 1) (Some (run_cursor r)) rs = Inr (t', m', stopped)"
    "t = (if state = Some True then sr_id r # t' else t')"
    "m = (if state = None \<and> last_beat r < cutoff then sr_id r # m' else m')"
  using assms by (auto split: sum.splits prod.splits if_splits)

lemma classify_split:
  assumes "classify_candidates probe stop cutoff i previous rs = Inr (t, m, stopped)"
    and "\<forall>r \<in> set rs. sr_owner r \<noteq> None" "i = 0 \<or> previous \<noteq> None"
  shows "\<exists>seen rest. rs = seen @ rest \<and> (\<forall>r \<in> set seen. recoverable probe cutoff r \<longrightarrow>
      sr_id r \<in> set t \<or> (sr_id r \<in> set m \<and> last_beat r < cutoff))
    \<and> (case stopped of None \<Rightarrow> rest = []
       | Some c \<Rightarrow> (if seen = [] then previous = Some c else c = run_cursor (last seen)))
    \<and> (i = 0 \<and> rs \<noteq> [] \<longrightarrow> seen \<noteq> [])"
  using assms
proof (induction rs arbitrary: i previous t m)
  case Nil
  then show ?case by simp
next
  case (Cons r rs)
  show ?case
  proof (cases "0 < i \<and> stop i")
    case True
    with Cons.prems show ?thesis by (intro exI [of _ "[]"] exI [of _ "r # rs"]) (auto split: option.splits)
  next
    case False
    obtain w where w: "sr_owner r = Some w" using Cons.prems(2) by auto
    from classify_Cons [OF Cons.prems(1) False w] obtain state t' m' where st: "probe w = Inr state"
      and rec: "classify_candidates probe stop cutoff (i + 1) (Some (run_cursor r)) rs = Inr (t', m', stopped)"
      and tm: "t = (if state = Some True then sr_id r # t' else t')"
        "m = (if state = None \<and> last_beat r < cutoff then sr_id r # m' else m')" by metis
    have t: "set t' \<subseteq> set t" "set m' \<subseteq> set m"
      "recoverable probe cutoff r \<longrightarrow> sr_id r \<in> set t \<or> (sr_id r \<in> set m \<and> last_beat r < cutoff)"
      using st w by (auto simp: tm ended_worker_def recoverable_def)
    from Cons.IH [OF rec] Cons.prems(2) obtain seen rest where
      split: "rs = seen @ rest" "\<forall>x \<in> set seen. recoverable probe cutoff x \<longrightarrow>
          sr_id x \<in> set t' \<or> (sr_id x \<in> set m' \<and> last_beat x < cutoff)"
        "case stopped of None \<Rightarrow> rest = []
         | Some c \<Rightarrow> (if seen = [] then Some (run_cursor r) = Some c else c = run_cursor (last seen))"
      by auto
    then show ?thesis using t
      by (intro exI [of _ "r # seen"] exI [of _ rest]) (auto split: option.splits)
  qed
qed

lemma classify_sound:
  assumes "classify_candidates probe stop cutoff i previous rs = Inr (t, m, stopped)"
    and "\<forall>r \<in> set rs. sr_owner r \<noteq> None"
  shows "(\<forall>x \<in> set t. \<exists>r \<in> set rs. sr_id r = x \<and> ended_worker probe r)
    \<and> (\<forall>x \<in> set m. \<exists>r \<in> set rs. sr_id r = x \<and> (\<exists>w. sr_owner r = Some w \<and> probe w = Inr None))"
  using assms
proof (induction rs arbitrary: i previous t m)
  case Nil
  then show ?case by simp
next
  case (Cons r rs)
  show ?case
  proof (cases "0 < i \<and> stop i")
    case True
    with Cons.prems show ?thesis by auto
  next
    case False
    obtain w where w: "sr_owner r = Some w" using Cons.prems(2) by auto
    from classify_Cons [OF Cons.prems(1) False w] obtain state t' m' where st: "probe w = Inr state"
      and rec: "classify_candidates probe stop cutoff (i + 1) (Some (run_cursor r)) rs = Inr (t', m', stopped)"
      and tm: "t = (if state = Some True then sr_id r # t' else t')"
        "m = (if state = None \<and> last_beat r < cutoff then sr_id r # m' else m')" by metis
    from Cons.IH [OF rec] Cons.prems(2) have
      "(\<forall>x \<in> set t'. \<exists>r \<in> set rs. sr_id r = x \<and> ended_worker probe r)
       \<and> (\<forall>x \<in> set m'. \<exists>r \<in> set rs. sr_id r = x \<and> (\<exists>w. sr_owner r = Some w \<and> probe w = Inr None))"
      by simp
    then show ?thesis using st w
      by (cases "state = Some True"; cases "state = None \<and> last_beat r < cutoff") (auto simp: tm ended_worker_def)
  qed
qed

lemma candidates_owned: "r \<in> set (interrupted_candidates limit after db) \<Longrightarrow> sr_owner r \<noteq> None"
  by (auto simp: interrupted_candidates_def dest!: in_set_takeD)

lemma running_after_end:
  assumes "r \<in> set (runs (snd (end_runs cfg which change db)))" "is_running r" "ends change"
  shows "\<exists>q \<in> set (runs db). core q = core r \<and> is_running q \<and> \<not> which q"
proof -
  have "core r \<in> set (map core (runs (snd (end_runs cfg which change db))))" using assms(1) by simp
  then have "core r \<in> core ` (\<lambda>x. if is_running x \<and> which x then change x else x) ` set (runs db)"
    unfolding core_end_runs by (simp add: set_update_where)
  then obtain q where q: "q \<in> set (runs db)" "core r = core (if is_running q \<and> which q then change q else q)"
    by blast
  have "is_running (if is_running q \<and> which q then change q else q)"
    using q(2) assms(2) by (metis core_simps(6))
  then have "is_running q \<and> \<not> which q"
    using assms(3) by (auto simp: ends_def split: if_splits)
  with q show ?thesis by auto
qed

lemma sorted_prefix_less:
  assumes "sorted (map f (xs @ ys))" "distinct (map f (xs @ ys))" "xs \<noteq> []" "y \<in> set ys"
  shows "f (last xs) < f y"
proof -
  have l: "last xs \<in> set xs" using assms(3) by simp
  have "f (last xs) \<le> f y" using assms(1,4) l by (auto simp: sorted_append)
  moreover have "f (last xs) \<noteq> f y" using assms(2,4) l by auto
  ultimately show ?thesis by order
qed

lemma beyond_cong: "run_cursor q = run_cursor r \<Longrightarrow> beyond after q = beyond after r"
  by (simp add: beyond_def split: option.split)

lemma page_settles:
  assumes page: "reconcile_page cfg probe limit after stop now finished (\<lambda>d. d) db = Inr (p, db')"
    and inv: "sync_inv db" and "0 < limit" and cut: "cutoff \<le> now - minutes SYNC_RUN_LEASE_MINUTES"
    and r: "r \<in> set (runs db')" "is_running r" "recoverable probe cutoff r" "beyond after r"
  shows "\<exists>c. pg_next p = Some c \<and> beyond (Some c) r"
proof -
  let ?F = "filter (\<lambda>r. is_running r \<and> sr_owner r \<noteq> None \<and> beyond after r) (runs db)"
  let ?cs = "interrupted_candidates limit after db"
  define S where "S = sort_key run_cursor ?F"
  have cs: "?cs = take limit S" by (simp add: interrupted_candidates_def S_def)
  have srt: "sorted (map run_cursor S)" by (simp add: S_def)
  from page obtain t m stopped where
    cl: "classify_candidates probe stop (now - minutes SYNC_RUN_LEASE_MINUTES) 0 None ?cs = Inr (t, m, stopped)"
    and db': "db' = (if t = [] \<and> m = [] then db
      else snd (end_interrupted cfg t m (now - minutes SYNC_RUN_LEASE_MINUTES) finished db))"
    and nxt: "pg_next p = (if stopped \<noteq> None then stopped
      else if length ?cs = limit \<and> ?cs \<noteq> [] then Some (run_cursor (last ?cs)) else None)"
    by (rule reconcile_page_Inr)
  have ends: "ends (end_row ''failed'' finished (Some INTERRUPTED_ERROR))" by (rule ends_end_row) simp
  let ?cut = "now - minutes SYNC_RUN_LEASE_MINUTES"
  obtain q where q: "q \<in> set (runs db)" "core q = core r" "is_running q"
    "\<not> (sr_id q \<in> set t \<or> (sr_id q \<in> set m \<and> last_beat q < ?cut))"
  proof (cases "t = [] \<and> m = []")
    case True
    with that [of r] r db' show ?thesis by simp
  next
    case False
    with r(1) db' have "r \<in> set (runs (snd (end_interrupted cfg t m (now - minutes SYNC_RUN_LEASE_MINUTES) finished db)))"
      by simp
    from running_after_end [OF this [unfolded end_interrupted_def] r(2) ends] that show ?thesis by auto
  qed
  have same: "run_cursor q = run_cursor r" "sr_owner q = sr_owner r" "last_beat q = last_beat r"
    using q(2) core_simps by metis+
  then have qF: "q \<in> set ?F" and qt: "recoverable probe ?cut q"
    using q r cut beyond_cong [OF same(1), of after] by (auto simp: ended_worker_def recoverable_def)
  then have qS: "q \<in> set S" by (simp add: S_def)
  from classify_split [OF cl] obtain seen rest where sp: "?cs = seen @ rest"
    "\<forall>x \<in> set seen. recoverable probe ?cut x \<longrightarrow> sr_id x \<in> set t \<or> (sr_id x \<in> set m \<and> last_beat x < ?cut)"
    "case stopped of None \<Rightarrow> rest = [] | Some c \<Rightarrow> (if seen = [] then None = Some c else c = run_cursor (last seen))"
    "?cs \<noteq> [] \<longrightarrow> seen \<noteq> []"
    using candidates_owned by blast
  have notseen: "q \<notin> set seen" using sp(2) qt q(4) by blast
  have split: "S = seen @ (rest @ drop limit S)"
    using sp(1) cs by (metis append.assoc append_take_drop_id)
  have "keyed sr_id (runs db)" using inv by (simp add: sync_inv_def runs_inv_def)
  then have "distinct (map sr_id ?F)" by (simp add: keyed_def distinct_map_filter)
  then have "distinct (map run_cursor ?F)" by (auto simp: distinct_map run_cursor_def inj_on_def)
  then have dist: "distinct (map run_cursor S)"
    by (simp add: distinct_map S_def)
  have ne: "seen \<noteq> []"
    using sp(4) cs qS \<open>0 < limit\<close> by (cases S) auto
  have later: "q \<in> set (rest @ drop limit S)" using qS notseen split by (metis Un_iff set_append)
  have less: "run_cursor (last seen) < run_cursor q"
    by (rule sorted_prefix_less [OF _ _ ne later]) (use dist srt split in \<open>metis, metis\<close>)
  have "pg_next p = Some (run_cursor (last seen))"
  proof (cases stopped)
    case (Some c)
    with sp(3) ne nxt show ?thesis by simp
  next
    case None
    with sp(3) have "rest = []" by simp
    with later have "q \<in> set (drop limit S)" by simp
    then have "length ?cs = limit" using cs
      by (metis drop_all empty_iff empty_set length_take linorder_le_cases min.absorb2)
    with None nxt sp(1) ne \<open>rest = []\<close> show ?thesis by simp
  qed
  with less same show ?thesis by (simp add: beyond_def)
qed

lemma page_effect:
  assumes page: "reconcile_page cfg probe limit after stop now finished (\<lambda>d. d) db = Inr (p, db')"
  shows "db' = db \<or> (\<exists>which. db' = snd (end_runs cfg which (end_row ''failed'' finished (Some INTERRUPTED_ERROR)) db))"
proof -
  from page obtain t m where "db' = (if t = [] \<and> m = [] then db
      else snd (end_interrupted cfg t m (now - minutes SYNC_RUN_LEASE_MINUTES) finished db))"
    by (rule reconcile_page_Inr)
  then show ?thesis unfolding end_interrupted_def by (auto split: if_splits)
qed

lemma page_keeps_inv:
  assumes "reconcile_page cfg probe limit after stop now finished (\<lambda>d. d) db = Inr (p, db')" "sync_inv db"
  shows "sync_inv db'"
  using page_effect [OF assms(1)] end_runs_step(1) [OF ends_end_row assms(2), of "''failed''"] assms(2) by auto

lemma running_before_page:
  assumes "reconcile_page cfg probe limit after stop now finished (\<lambda>d. d) db = Inr (p, db')"
    and "r \<in> set (runs db')" "is_running r"
  shows "\<exists>q \<in> set (runs db). core q = core r"
  using page_effect [OF assms(1)]
proof
  assume "\<exists>which. db' = snd (end_runs cfg which (end_row ''failed'' finished (Some INTERRUPTED_ERROR)) db)"
  then obtain which where
    "r \<in> set (runs (snd (end_runs cfg which (end_row ''failed'' finished (Some INTERRUPTED_ERROR)) db)))"
    using assms(2) by blast
  from running_after_end [OF this assms(3) ends_end_row] show ?thesis by auto
qed (use assms(2) in auto)

text \<open>
  What a loop leaves: every recoverable running row beyond its start is beyond its resume cursor.  \<open>left_over\<close> says so for one state; it passes from a page to the rest of the loop.
\<close>

definition left_over :: "probe \<Rightarrow> instant \<Rightarrow> cursor option \<Rightarrow> cursor option \<Rightarrow> sync_db \<Rightarrow> bool" where
  "left_over probe cutoff after resume db \<longleftrightarrow> (\<forall>r \<in> set (runs db). is_running r \<longrightarrow> recoverable probe cutoff r \<longrightarrow>
     beyond after r \<longrightarrow> (\<exists>c. resume = Some c \<and> beyond (Some c) r))"

definition running_from :: "sync_db \<Rightarrow> sync_db \<Rightarrow> bool" where
  "running_from a b \<longleftrightarrow> (\<forall>r \<in> set (runs b). is_running r \<longrightarrow> (\<exists>q \<in> set (runs a). core q = core r))"

lemma core_facts:
  assumes "core q = core r"
  shows "is_running q = is_running r" "recoverable probe cutoff q = recoverable probe cutoff r" "beyond after q = beyond after r"
  using assms core_simps beyond_cong unfolding ended_worker_def recoverable_def by metis+

lemma running_from_trans: "running_from a b \<Longrightarrow> running_from b c \<Longrightarrow> running_from a c"
  unfolding running_from_def by (metis core_facts(1))

lemma page_left_over:
  assumes "reconcile_page cfg probe limit after stop now finished (\<lambda>d. d) db = Inr (p, db')"
    and "sync_inv db" "0 < limit" "cutoff \<le> now - minutes SYNC_RUN_LEASE_MINUTES"
  shows "left_over probe cutoff after (pg_next p) db'" "running_from db db'" "sync_inv db'"
  using page_settles [OF assms] running_before_page [OF assms(1)] page_keeps_inv [OF assms(1,2)]
  by (auto simp: left_over_def running_from_def)

lemma left_over_step:
  assumes "left_over probe cutoff after (Some c) db" "running_from db db'" "left_over probe cutoff (Some c) resume db'"
  shows "left_over probe cutoff after resume db'"
  using assms unfolding left_over_def running_from_def by (metis core_facts option.inject)

lemma reconcile_pages_left_over:
  "reconcile_pages cfg probe limit clock k after db = Inr (n, db') \<Longrightarrow> sync_inv db \<Longrightarrow> 0 < limit \<Longrightarrow>
    \<forall>k. cutoff \<le> fst (clock k) - minutes SYNC_RUN_LEASE_MINUTES \<Longrightarrow> left_over probe cutoff after None db' \<and> running_from db db'"
proof (induction cfg probe limit clock k after db arbitrary: n db' rule: reconcile_pages.induct)
  case (1 cfg probe limit clock k after db)
  from "1.prems"(1) obtain p db1 where page:
    "reconcile_page cfg probe limit after (\<lambda>_. False) (fst (clock k)) (snd (clock k)) (\<lambda>d. d) db = Inr (p, db1)"
    by (subst (asm) reconcile_pages.simps) (auto split: sum.splits)
  note one = page_left_over [OF page "1.prems"(2,3) spec [OF "1.prems"(4)]]
  show ?case
  proof (cases "pg_next p")
    case None
    with "1.prems"(1) page have "db' = db1"
      by (subst (asm) reconcile_pages.simps) simp
    with one None show ?thesis by simp
  next
    case (Some c)
    with "1.prems"(1) page obtain m where
      rec: "reconcile_pages cfg probe limit clock (k + 1) (Some c) db1 = Inr (m, db')"
      by (subst (asm) reconcile_pages.simps) (auto split: sum.splits)
    from "1.IH" [OF page refl Some rec one(3) "1.prems"(3,4)]
    have "left_over probe cutoff (Some c) None db'" "running_from db1 db'" by simp_all
    with one Some show ?thesis
      by (auto intro: left_over_step running_from_trans)
  qed
qed

lemma classify_total:
  "\<forall>w. probe w \<noteq> Inl () \<Longrightarrow> \<exists>t m st. classify_candidates probe stop cutoff i previous rs = Inr (t, m, st)"
proof (induction rs arbitrary: i previous)
  case Nil
  then show ?case by simp
next
  case (Cons r rs)
  obtain st where st: "probe (case sr_owner r of Some x \<Rightarrow> x | None \<Rightarrow> []) = Inr st"
    using Cons.prems by (cases "probe (case sr_owner r of Some x \<Rightarrow> x | None \<Rightarrow> [])") auto
  obtain t m s where "classify_candidates probe stop cutoff (i + 1) (Some (run_cursor r)) rs = Inr (t, m, s)"
    using Cons by blast
  with st show ?case by simp
qed

lemma reconcile_page_total:
  assumes "\<forall>w. probe w \<noteq> Inl ()"
  shows "\<exists>p db'. reconcile_page cfg probe limit after stop now finished other db = Inr (p, db')"
proof -
  obtain t m st where
    "classify_candidates probe stop (now - minutes SYNC_RUN_LEASE_MINUTES) 0 None
       (interrupted_candidates limit after db) = Inr (t, m, st)"
    using classify_total [OF assms] by blast
  then show ?thesis by (simp add: reconcile_page_def Let_def split_beta)
qed

lemma reconcile_pages_total:
  "\<forall>w. probe w \<noteq> Inl () \<Longrightarrow> \<exists>n db'. reconcile_pages cfg probe limit clock k after db = Inr (n, db')"
proof (induction cfg probe limit clock k after db rule: reconcile_pages.induct)
  case (1 cfg probe limit clock k after db)
  obtain p db1 where page:
    "reconcile_page cfg probe limit after (\<lambda>_. False) (fst (clock k)) (snd (clock k)) (\<lambda>d. d) db = Inr (p, db1)"
    using reconcile_page_total [OF "1.prems"] by blast
  show ?case
  proof (cases "pg_next p")
    case None
    with page show ?thesis by (subst reconcile_pages.simps) simp
  next
    case (Some c)
    obtain n db' where "reconcile_pages cfg probe limit clock (k + 1) (Some c) db1 = Inr (n, db')"
      using "1.IH" [OF page refl Some "1.prems"] by blast
    with page Some show ?thesis by (subst reconcile_pages.simps) simp
  qed
qed

lemma reconcile_within_left_over:
  "reconcile_within cfg probe limit clock remaining k after db = Inr (n, resume, db') \<Longrightarrow> sync_inv db \<Longrightarrow> 0 < limit \<Longrightarrow>
    \<forall>k. cutoff \<le> fst (clock k) - minutes SYNC_RUN_LEASE_MINUTES \<Longrightarrow> remaining k 0 \<ge> RECONCILE_PAGE_RESERVE \<or> after \<noteq> None \<Longrightarrow>
    left_over probe cutoff after resume db' \<and> running_from db db'"
proof (induction cfg probe limit clock remaining k after db arbitrary: n resume db' rule: reconcile_within.induct)
  case (1 cfg probe limit clock remaining k after db)
  show ?case
  proof (cases "remaining k 0 < RECONCILE_PAGE_RESERVE")
    case True
    with "1.prems"(1,5) obtain c where "resume = Some c" "after = Some c" "db' = db"
      by (subst (asm) reconcile_within.simps) auto
    then show ?thesis by (auto simp: left_over_def running_from_def)
  next
    case False
    with "1.prems"(1) obtain p db1 where page:
      "reconcile_page cfg probe limit after (\<lambda>i. remaining k i < RECONCILE_ROW_RESERVE)
        (fst (clock k)) (snd (clock k)) (\<lambda>d. d) db = Inr (p, db1)"
      by (subst (asm) reconcile_within.simps) (auto split: sum.splits)
    note one = page_left_over [OF page "1.prems"(2,3) spec [OF "1.prems"(4)]]
    show ?thesis
    proof (cases "pg_stopped p \<or> pg_next p = None")
      case True
      with "1.prems"(1) page False have "db' = db1" "resume = pg_next p"
        by (subst (asm) reconcile_within.simps; auto split: if_splits)+
      with one show ?thesis by simp
    next
      case False
      then obtain c where next': "pg_next p = Some c" and ns: "\<not> pg_stopped p" by blast
      with "1.prems"(1) page \<open>\<not> remaining k 0 < RECONCILE_PAGE_RESERVE\<close> obtain m where
        rec: "reconcile_within cfg probe limit clock remaining (k + 1) (Some c) db1 = Inr (m, resume, db')"
        by (subst (asm) reconcile_within.simps) (auto split: sum.splits)
      from "1.IH" [OF \<open>\<not> remaining k 0 < RECONCILE_PAGE_RESERVE\<close> page refl ns next' rec one(3) "1.prems"(3,4)]
      have "left_over probe cutoff (Some c) resume db'" "running_from db1 db'" by simp_all
      with one next' show ?thesis
        by (auto intro: left_over_step running_from_trans)
    qed
  qed
qed

text \<open>
  C27: between its SELECT and its UPDATE a page may be overtaken by any other transactions; it then
  still ends no row whose orchestrator run is alive, and none whose orchestrator run is unknown
  while its lease is fresh at the UPDATE (a heartbeat in between counts).
\<close>

theorem interrupted_page_spares_live:
  assumes page: "reconcile_page cfg probe limit after stop now finished other db = Inr (p, db')"
    and r: "r \<in> set (runs (other db))" "is_running r"
    and alive: "\<forall>c \<in> set (runs db). sr_id c = sr_id r \<longrightarrow> (\<exists>w. sr_owner c = Some w \<and>
      (probe w = Inr (Some False) \<or> (probe w = Inr None \<and> last_beat r \<ge> now - minutes SYNC_RUN_LEASE_MINUTES)))"
  shows "core r \<in> core ` set (runs db')"
proof -
  let ?cut = "now - minutes SYNC_RUN_LEASE_MINUTES"
  obtain t m st where
    cl: "classify_candidates probe stop ?cut 0 None (interrupted_candidates limit after db) = Inr (t, m, st)"
    and db': "db' = (if t = [] \<and> m = [] then other db else snd (end_interrupted cfg t m ?cut finished (other db)))"
    using page by (rule reconcile_page_Inr)
  have sound: "\<forall>x \<in> set t. \<exists>c \<in> set (runs db). sr_id c = x \<and> ended_worker probe c"
    "\<forall>x \<in> set m. \<exists>c \<in> set (runs db). sr_id c = x \<and> (\<exists>w. sr_owner c = Some w \<and> probe w = Inr None)"
    using classify_sound [OF cl] candidates_owned in_candidates by blast+
  have "\<not> (sr_id r \<in> set t \<or> (sr_id r \<in> set m \<and> last_beat r < ?cut))"
    using sound alive by (fastforce simp: ended_worker_def)
  then have "r \<in> set (update_where (\<lambda>x. is_running x \<and> (sr_id x \<in> set t \<or> (sr_id x \<in> set m \<and> last_beat x < ?cut)))
      (end_row ''failed'' finished (Some INTERRUPTED_ERROR)) (runs (other db)))"
    using r unfolding set_update_where by (intro image_eqI [of _ _ r]) auto
  then have "core r \<in> set (map core (runs (snd (end_interrupted cfg t m ?cut finished (other db)))))"
    unfolding end_interrupted_def core_end_runs by simp
  then show ?thesis using r(1) db' by auto
qed

text \<open>
  C28: when no probe raises, the interrupted reconciler terminates with a result, whatever the page
  size, and then no recoverable running row is left: none whose orchestrator run has ended, and none
  whose orchestrator run is unknown and whose lease had run out when the loop began (at the first of
  its clocks, which do not go back).
\<close>

theorem interrupted_recovery_is_complete:
  assumes "sync_inv db" "0 < limit" "\<forall>w. probe w \<noteq> Inl ()" "\<forall>k. now \<le> fst (clock k)"
  shows "\<exists>n db'. reconcile_interrupted_sync_runs cfg probe limit clock db = Inr (n, db')
    \<and> (\<forall>r \<in> set (runs db'). is_running r \<longrightarrow> \<not> recoverable probe (now - minutes SYNC_RUN_LEASE_MINUTES) r)"
proof -
  obtain n db' where run: "reconcile_pages cfg probe (nat limit) clock 0 None db = Inr (n, db')"
    using reconcile_pages_total [OF assms(3)] by blast
  then have "left_over probe (now - minutes SYNC_RUN_LEASE_MINUTES) None None db'"
    using reconcile_pages_left_over assms(1,2,4) by simp
  with run assms(2) show ?thesis
    by (auto simp: reconcile_interrupted_sync_runs_def left_over_def beyond_def)
qed

text \<open>
  C29: under a time budget the reconciler may stop anywhere, even between two rows of a page, but
  the cursor it hands back loses nothing: every running row beyond the start that is recoverable (its
  orchestrator run has ended, or is unknown and the lease had run out at the first clock) is either
  ended or beyond the resume cursor (and without a resume cursor, ended).  The start is a cursor, or
  the budget admits the first page.
\<close>

theorem budgeted_recovery_loses_nothing:
  assumes "reconcile_interrupted_sync_runs_within cfg probe limit clock remaining after db = Inr (n, resume, db')"
    and "sync_inv db" "remaining 0 0 \<ge> RECONCILE_PAGE_RESERVE \<or> after \<noteq> None" "\<forall>k. now \<le> fst (clock k)"
    and "r \<in> set (runs db')" "is_running r" "recoverable probe (now - minutes SYNC_RUN_LEASE_MINUTES) r" "beyond after r"
  shows "\<exists>c. resume = Some c \<and> c < run_cursor r"
proof -
  have "0 < limit" and "reconcile_within cfg probe (nat limit) clock remaining 0 after db = Inr (n, resume, db')"
    using assms(1) by (auto simp: reconcile_interrupted_sync_runs_within_def split: if_splits)
  then have "left_over probe (now - minutes SYNC_RUN_LEASE_MINUTES) after resume db'"
    using reconcile_within_left_over assms(2-4) by simp
  with assms(5-8) show ?thesis by (auto simp: left_over_def beyond_def)
qed

definition owned_run :: "text_bytes \<Rightarrow> instant \<Rightarrow> text_bytes \<Rightarrow> sync_run" where
  "owned_run i started owner = (example_run ''running'')\<lparr>sr_id := i, sr_dataset := i, sr_started := started,
     sr_heartbeat := Some started, sr_owner := Some owner\<rparr>"

definition owned_db :: sync_db where
  "owned_db = \<lparr>runs = [owned_run ''a'' 0 ''dead'', owned_run ''b'' 1 ''live'', owned_run ''c'' 2 ''dead''],
     statuses = [], fetch_clocks = []\<rparr>"

definition example_probe :: probe where
  "example_probe w = Inr (Some (w = ''dead''))"

lemma owned_db_inv: "sync_inv owned_db"
  by (simp add: sync_inv_def runs_inv_def keyed_def owned_db_def owned_run_def example_run_def is_running_def slot_def)

lemma owned_page:
  "reconcile_page example_config example_probe 1 None (\<lambda>_. False) 0 9 (\<lambda>d. d) owned_db
    = Inr (\<lparr>pg_count = 1, pg_next = Some (0, ''a''), pg_stopped = False\<rparr>,
        owned_db\<lparr>runs := [end_row ''failed'' 9 (Some INTERRUPTED_ERROR) (owned_run ''a'' 0 ''dead''),
          owned_run ''b'' 1 ''live'', owned_run ''c'' 2 ''dead'']\<rparr>)"
  by (simp add: reconcile_page_def interrupted_candidates_def owned_db_def owned_run_def example_run_def
      is_running_def beyond_def run_cursor_def example_probe_def end_interrupted_def end_runs_def
      update_where_def Let_def project_export_terminal_def example_config_def end_row_def)

theorem interrupted_page_spares_live_witness:
  "core (owned_run ''b'' 1 ''live'') \<in> core ` set (runs (owned_db\<lparr>runs :=
     [end_row ''failed'' 9 (Some INTERRUPTED_ERROR) (owned_run ''a'' 0 ''dead''),
      owned_run ''b'' 1 ''live'', owned_run ''c'' 2 ''dead'']\<rparr>))"
  by (rule interrupted_page_spares_live [OF owned_page])
    (simp_all add: owned_db_def owned_run_def example_run_def is_running_def example_probe_def)

theorem interrupted_recovery_is_complete_witness:
  "\<exists>n db'. reconcile_interrupted_sync_runs example_config example_probe 1 (\<lambda>k. (0, 9)) owned_db = Inr (n, db')
    \<and> (\<forall>r \<in> set (runs db'). is_running r \<longrightarrow> \<not> recoverable example_probe (0 - minutes SYNC_RUN_LEASE_MINUTES) r)"
  by (rule interrupted_recovery_is_complete [OF owned_db_inv]) (simp_all add: example_probe_def)

theorem budgeted_recovery_loses_nothing_witness:
  "\<exists>c. Some (0, ''a'') = Some c \<and> c < run_cursor (owned_run ''c'' 2 ''dead'')"
proof (rule budgeted_recovery_loses_nothing [OF _ owned_db_inv, where now = 0])
  let ?remaining = "\<lambda>k i. if k = 0 then seconds 40 else 0"
  show "reconcile_interrupted_sync_runs_within example_config example_probe 1 (\<lambda>k. (0, 9)) ?remaining None owned_db
      = Inr (1, Some (0, ''a''), owned_db\<lparr>runs := [end_row ''failed'' 9 (Some INTERRUPTED_ERROR) (owned_run ''a'' 0 ''dead''),
          owned_run ''b'' 1 ''live'', owned_run ''c'' 2 ''dead'']\<rparr>)"
    by (simp add: reconcile_interrupted_sync_runs_within_def reconcile_within.simps owned_page [unfolded One_nat_def]
        RECONCILE_PAGE_RESERVE_def RECONCILE_ROW_RESERVE_def)
  show "RECONCILE_PAGE_RESERVE \<le> ?remaining 0 0 \<or> None \<noteq> None" by (simp add: RECONCILE_PAGE_RESERVE_def)
qed (simp_all add: owned_db_def owned_run_def example_run_def is_running_def ended_worker_def recoverable_def
    example_probe_def beyond_def)

end
