(* ===== verification/Export_Model.thy ===== *)
theory Export_Model
  imports Sync_Runs Export_Scopes Export_Artifacts
begin

section \<open>The database of the export pipeline\<close>

text \<open>
  The tables of export_receipts.py, export_lifecycle.py, export_heads.py, export_inventory.py and
  the snapshot tables the garbage collector reads, one record per row.  A transaction maps a
  database to an error (an exception: everything is rolled back, so the database is unchanged) or
  to a new database and a result.  Freshly drawn uuids and readings of the clock are arguments.
  Row locks are not modelled: transactions are serial, and an operation made of several
  transactions is several definitions.
\<close>

subsection \<open>Errors\<close>

datatype receipt_error =
    Bad_Attempt_Plan | Bad_Scope_Identity | Source_Run_Not_Running | Dagster_Owner_Mismatch | Native_Downgrade
  | Bad_Chunk_Identity | Attempt_Owner_Mismatch | Outside_Planned_Scope | Source_Counts_Mismatch
  | Source_Counts_Missing | Chunk_Retry_Differs | Attempt_Sealed

datatype lifecycle_error =
    No_Owner_Plan | No_Selected_Owner | Owner_Changed | Input_Differs_From_Plan
  | Execution_Owner_Mismatch | Run_Identity_Changed | Receipt_Before_Claim | Bad_Expected_Chunk
  | Plan_Is_Closed | Other_Run_Or_Scope | Expected_Chunk_Changed | Manifest_Limit | Source_Already_Closed
  | Bad_Closure | Source_Not_Closable | Expected_Chunk_Missing | Closure_Changed | Plan_Not_Closable
  | Count_Outside_Plan | Barrier_Not_Met | Normalization_Limit | Bad_Chunk_Limit

datatype head_error =
    Publication_Plan_Incomplete | Not_Single_Source | Descriptor_Changed | Declared_After_Plan
  | Catalog_Mismatch | Bind_Refused | No_Points | Point_Limit_Exceeded | Shrunken_Source
  | Revision_After_Fetch | Bound_Plan_Changed | Bound_After_Plan | Capture_Differs | No_Revision_Plan
  | Promotion_Limit | Mixed_Sources | Policy_Mismatch | Duplicate_Point | Incomplete_Set | Union_Differs
  | Parent_Mismatch | Committed_Owner_Differs
  | Inventory_Namespace | Inventory_Limit

datatype kma_error =
    Pagination_Incomplete | Base_Not_Single | Base_Mismatch | Grid_Mismatch | Duplicate_Rows
  | Target_Before_Issue | Coverage_Missing | Category_Missing

datatype export_error =
    Receipt_Error receipt_error
  | Lifecycle_Error lifecycle_error
  | Head_Error head_error
  | Kma_Error kma_error
  | Artifact_Failure artifact_error
  | Key_Missing
  | Value_Error
  | Integrity_Violation

type_synonym ('s, 'a) transaction = "'s \<Rightarrow> export_error + ('a \<times> 's)"

subsection \<open>Receipts: attempts and chunks\<close>

record export_attempt =
  at_id :: text_bytes
  at_owner :: text_bytes

datatype attempt_status = Preparing | Sealed | Failed

record attempt_row =
  a_id :: text_bytes
  a_run :: text_bytes
  a_owner :: text_bytes
  a_scope_key :: text_bytes
  a_mode :: text_bytes
  a_orchestrator :: "text_bytes option"
  a_planned :: "text_bytes list"
  a_plan_digest :: text_bytes
  a_epochs :: "(text_bytes \<times> int) list option"
  a_references :: int
  a_closed_at :: "instant option"
  a_seal :: "text_bytes option"
  a_sealed_at :: "instant option"
  a_published_at :: "instant option"
  a_status :: attempt_status
  a_error :: "text_bytes option"
  a_created :: instant

record chunk_row =
  ch_attempt :: text_bytes
  ch_key :: text_bytes
  ch_digest :: text_bytes
  ch_bytes :: int
  ch_points :: int
  ch_covered :: "text_bytes list"
  ch_counts :: "(text_bytes \<times> int) list option"
  ch_collected :: instant
  ch_recorded :: instant

subsection \<open>Lifecycle: owners, plans of chunks, closures, validation, evidence\<close>

record owner_row =
  o_scope :: text_bytes
  o_epoch :: int
  o_attempt :: text_bytes

record expected_row =
  e_attempt :: text_bytes
  e_key :: text_bytes
  e_scopes :: "text_bytes list"
  e_points :: int
  e_digest :: text_bytes

record closure_row =
  cl_attempt :: text_bytes
  cl_scope :: text_bytes
  cl_keys :: "text_bytes list"

record validated_row =
  v_attempt :: text_bytes
  v_key :: text_bytes
  v_digest :: text_bytes
  v_at :: instant

record evidence_row =
  ev_attempt :: text_bytes
  ev_run :: text_bytes
  ev_mode :: text_bytes
  ev_orchestrator :: "text_bytes option"
  ev_seal :: text_bytes
  ev_checked :: instant

subsection \<open>Heads: scope plans, generations, heads, references, pins\<close>

record plan_row =
  p_attempt :: text_bytes
  p_scope :: text_bytes
  p_namespace :: text_bytes
  p_descriptor :: descriptor
  p_bound :: instant
  p_revision :: "instant option"
  p_input :: "text_bytes option"
  p_collected :: "instant option"
  p_points :: "int option"
  p_normalization :: "text_bytes option"
  p_evidence :: "json option"

record generation_row =
  g_id :: text_bytes
  g_attempt :: text_bytes
  g_owner :: text_bytes
  g_seal :: text_bytes
  g_namespace :: text_bytes
  g_parent :: "text_bytes option"
  g_revision :: instant
  g_collected :: instant
  g_content :: text_bytes
  g_points :: int
  g_created :: instant

record head_row =
  h_namespace :: text_bytes
  h_scope :: text_bytes
  h_generation :: text_bytes
  h_version :: int
  h_revision :: instant
  h_content :: text_bytes
  h_collected :: instant

record ref_row =
  r_generation :: text_bytes
  r_ordinal :: nat
  r_digest :: text_bytes
  r_bytes :: int
  r_points :: int
  r_locations :: "text_bytes list option"

record pin_row =
  pin_attempt :: text_bytes
  pin_key :: text_bytes
  pin_digest :: text_bytes
  pin_created :: instant

subsection \<open>The catalog, the inventory and the snapshots\<close>

record location_row =
  lo_id :: text_bytes
  lo_enabled :: bool
  lo_latitude :: rat
  lo_longitude :: rat
  lo_nx :: "int option"
  lo_ny :: "int option"
  lo_metadata :: "(text_bytes \<times> text_bytes) list"
  lo_point :: "(text_bytes \<times> text_bytes) list"
  lo_name :: text_bytes
  lo_updated :: instant

record inventory_row =
  i_provider :: text_bytes
  i_dataset :: text_bytes
  i_location :: text_bytes
  i_part :: text_bytes
  i_namespace :: text_bytes
  i_generation :: text_bytes
  i_scope :: text_bytes
  i_latitude :: rat
  i_longitude :: rat
  i_nx :: "int option"
  i_ny :: "int option"
  i_collected :: instant
  i_published :: instant

text \<open>
  The manifest of a snapshot (a JSON column): the approved scopes with the files of their
  generations, and the locations as the answer shows them.  \<open>mn_approval\<close> is there when the
  manifest was made from the approved inventory, \<open>mf_selection\<close> names any other selection than the
  default one (\<open>sl_signature\<close> is the hash of what was asked for).
\<close>

record manifest_approval =
  ma_approved :: "text_bytes list"
  ma_dataset :: text_bytes
  ma_collected :: instant
  ma_revision :: instant

record manifest_scope =
  mn_namespace :: text_bytes
  mn_generation :: text_bytes
  mn_source_scope :: text_bytes
  mn_grid :: "(int \<times> int) option"
  mn_provider :: text_bytes
  mn_style :: text_bytes
  mn_locations :: "text_bytes list"
  mn_refs :: "ref_row list"
  mn_approval :: "manifest_approval option"

record shown_location =
  sh_id :: text_bytes
  sh_name :: text_bytes
  sh_latitude :: rat
  sh_longitude :: rat
  sh_legal_dong :: "text_bytes option"
  sh_sido :: "text_bytes option"
  sh_sigungu :: "text_bytes option"

record selection =
  sl_kind :: text_bytes
  sl_providers :: "text_bytes list"
  sl_inventory :: bool
  sl_signature :: "text_bytes option"

record manifest =
  mf_scopes :: "manifest_scope list"
  mf_locations :: "shown_location list"
  mf_unconfirmed :: "bool option"
  mf_selection :: "selection option"
  mf_limited :: bool

record snapshot_row =
  sn_id :: text_bytes
  sn_order :: int
  sn_digest :: text_bytes
  sn_manifest :: manifest
  sn_collected :: "instant option"
  sn_revision :: instant
  sn_created :: instant
  sn_expires :: instant

record snapshot_ref_row =
  sr_snapshot :: text_bytes
  sr_ordinal :: nat
  sr_generation :: text_bytes

subsection \<open>The database\<close>

record export_db =
  sync :: sync_db
  attempts :: "attempt_row list"
  chunks :: "chunk_row list"
  owners :: "owner_row list"
  expected :: "expected_row list"
  closures :: "closure_row list"
  validated :: "validated_row list"
  evidence :: "evidence_row list"
  plans :: "plan_row list"
  generations :: "generation_row list"
  heads :: "head_row list"
  refs :: "ref_row list"
  pins :: "pin_row list"
  publication_clock :: "instant option"
  locations :: "location_row list"
  inventory :: "inventory_row list"
  snapshots :: "snapshot_row list"
  snapshot_refs :: "snapshot_ref_row list"
  daily_checkpoint :: "(instant \<times> text_bytes) option"

abbreviation attempt_at :: "text_bytes \<Rightarrow> export_db \<Rightarrow> attempt_row option" where
  "attempt_at i db \<equiv> row_of a_id i (attempts db)"

abbreviation run_at :: "text_bytes \<Rightarrow> export_db \<Rightarrow> sync_run option" where
  "run_at i db \<equiv> run_row i (runs (sync db))"

definition ch_pk :: "chunk_row \<Rightarrow> text_bytes \<times> text_bytes" where "ch_pk r = (ch_attempt r, ch_key r)"
definition e_pk :: "expected_row \<Rightarrow> text_bytes \<times> text_bytes" where "e_pk r = (e_attempt r, e_key r)"
definition cl_pk :: "closure_row \<Rightarrow> text_bytes \<times> text_bytes" where "cl_pk r = (cl_attempt r, cl_scope r)"
definition v_pk :: "validated_row \<Rightarrow> text_bytes \<times> text_bytes" where "v_pk r = (v_attempt r, v_key r)"
definition r_pk :: "ref_row \<Rightarrow> text_bytes \<times> nat" where "r_pk r = (r_generation r, r_ordinal r)"
definition pin_pk :: "pin_row \<Rightarrow> text_bytes \<times> text_bytes" where "pin_pk r = (pin_attempt r, pin_key r)"
definition i_pk :: "inventory_row \<Rightarrow> text_bytes \<times> text_bytes \<times> text_bytes \<times> text_bytes" where
  "i_pk r = (i_provider r, i_dataset r, i_location r, i_part r)"

text \<open>\<open>UPDATE weather_export_attempts ... WHERE attempt_id = i\<close>.\<close>

definition update_attempt :: "text_bytes \<Rightarrow> (attempt_row \<Rightarrow> attempt_row) \<Rightarrow> export_db \<Rightarrow> export_db" where
  "update_attempt i f db = db\<lparr>attempts := update_where (\<lambda>a. a_id a = i) f (attempts db)\<rparr>"

lemma attempt_at_update [store_simps]:
  assumes "\<And>a. a_id (f a) = a_id a"
  shows "attempt_at j (update_attempt i f db) =
    (if j = i then map_option f (attempt_at j db) else attempt_at j db)"
  using row_of_update_key [where key = a_id and f = f and k = j and k' = i and t = "attempts db"] assms
  by (simp add: update_attempt_def)

lemma update_attempt_others [simp]:
  "sync (update_attempt i f db) = sync db" "chunks (update_attempt i f db) = chunks db"
  "owners (update_attempt i f db) = owners db" "expected (update_attempt i f db) = expected db"
  "closures (update_attempt i f db) = closures db" "validated (update_attempt i f db) = validated db"
  "evidence (update_attempt i f db) = evidence db" "plans (update_attempt i f db) = plans db"
  "generations (update_attempt i f db) = generations db" "heads (update_attempt i f db) = heads db"
  "refs (update_attempt i f db) = refs db" "pins (update_attempt i f db) = pins db"
  by (simp_all add: update_attempt_def)

subsection \<open>Owner fencing (export_lifecycle.py, _current_owners)\<close>

text \<open>
  The owner rows of the selected scopes (all planned scopes when there is no selection) must name
  this attempt at the epochs it claimed.
\<close>

definition owner_matches :: "attempt_row \<Rightarrow> (text_bytes \<times> int) list \<Rightarrow> owner_row \<Rightarrow> bool" where
  "owner_matches attempt epochs o' \<longleftrightarrow>
     o_attempt o' = a_id attempt \<and> map_of epochs (o_scope o') = Some (o_epoch o')"

definition current_owners ::
  "export_db \<Rightarrow> attempt_row \<Rightarrow> text_bytes list option \<Rightarrow> export_error option" where
  "current_owners db attempt selected =
     (case a_epochs attempt of
        None \<Rightarrow> Some (Lifecycle_Error No_Owner_Plan)
      | Some epochs \<Rightarrow>
          if epochs = [] \<or> (selected = None \<and> \<not> same_set (dict_keys epochs) (a_planned attempt))
          then Some (Lifecycle_Error No_Owner_Plan)
          else
            let keys = sorted_set (case selected of None \<Rightarrow> dict_keys epochs | Some ss \<Rightarrow> ss);
                rows = filter (\<lambda>o'. o_scope o' \<in> set keys) (owners db)
            in if keys = [] \<or> \<not> list_all (\<lambda>k. k \<in> set (dict_keys epochs)) keys then Some (Lifecycle_Error No_Selected_Owner)
               else if length rows \<noteq> length keys \<or> \<not> list_all (owner_matches attempt epochs) rows
               then Some (Lifecycle_Error Owner_Changed) else None)"

lemma current_owners_None:
  assumes "current_owners db attempt selected = None" "keyed o_scope (owners db)"
  obtains epochs where "a_epochs attempt = Some epochs"
    "\<And>s. s \<in> (case selected of None \<Rightarrow> set (a_planned attempt) | Some ss \<Rightarrow> set ss) \<Longrightarrow>
      \<exists>o'. row_of o_scope s (owners db) = Some o' \<and> owner_matches attempt epochs o'"
    "selected = None \<longrightarrow> set (dict_keys epochs) = set (a_planned attempt)"
proof -
  obtain epochs where ep: "a_epochs attempt = Some epochs" "epochs \<noteq> []"
    "selected = None \<longrightarrow> set (dict_keys epochs) = set (a_planned attempt)"
    using assms(1) by (auto simp: current_owners_def split: option.splits if_splits)
  define keys where "keys = sorted_set (case selected of None \<Rightarrow> dict_keys epochs | Some ss \<Rightarrow> ss)"
  define rows where "rows = filter (\<lambda>o'. o_scope o' \<in> set keys) (owners db)"
  have rows: "length rows = length keys" "\<forall>o' \<in> set rows. owner_matches attempt epochs o'"
    using assms(1) ep(1)
    by (auto simp: current_owners_def Let_def list_all_iff keys_def rows_def split: if_splits)
  have sub: "set rows \<subseteq> set (owners db)" "o_scope ` set rows \<subseteq> set keys" by (auto simp: rows_def)
  have "distinct rows" "inj_on o_scope (set (owners db))"
    using assms(2) by (auto simp: keyed_def distinct_map rows_def)
  then have "card (o_scope ` set rows) = length rows"
    using sub(1) by (simp add: card_image distinct_card inj_on_subset)
  also have "\<dots> = card (set keys)"
    unfolding rows(1) by (rule distinct_card [symmetric]) (simp add: keys_def)
  finally have all: "o_scope ` set rows = set keys"
    using sub(2) by (simp add: card_subset_eq)
  have "\<exists>o'. row_of o_scope s (owners db) = Some o' \<and> owner_matches attempt epochs o'"
    if "s \<in> (case selected of None \<Rightarrow> set (a_planned attempt) | Some ss \<Rightarrow> set ss)" for s
  proof -
    have "s \<in> set keys" using that ep(3) by (auto simp: keys_def split: option.splits)
    then obtain o' where o': "o' \<in> set rows" "o_scope o' = s" using all by (metis imageE)
    then have "row_of o_scope s (owners db) = Some o'"
      using row_of_in [OF assms(2), of o'] sub(1) by auto
    with o'(1) rows(2) show ?thesis by blast
  qed
  with ep show ?thesis using that by blast
qed

end
