(* ===== verification/Export_Receipts.thy ===== *)
theory Export_Receipts
  imports Export_Model
begin

section \<open>Export attempts and chunk receipts (export_receipts.py)\<close>

text \<open>
  An attempt is created for one running sync run; a receipt of each prepared chunk is recorded with
  it.  Receipts are immutable: a retry must present the same content.  An attempt whose scopes have
  been claimed also checks that it still owns them and that the chunk is the one it announced.
\<close>

definition scope_hash_ok :: "text_bytes \<Rightarrow> bool" where
  "scope_hash_ok k \<longleftrightarrow> \<not> (str_len k \<noteq> 64 \<or> \<not> list_all is_hex_digit k)"

definition new_attempt ::
  "(text_bytes \<Rightarrow> text_bytes) \<Rightarrow> sync_run \<Rightarrow> text_bytes \<Rightarrow> text_bytes list \<Rightarrow> text_bytes \<Rightarrow>
   text_bytes \<Rightarrow> text_bytes \<Rightarrow> instant \<Rightarrow> attempt_row" where
  "new_attempt sha256 run scope_key planned mode uuid1 uuid2 now =
     \<lparr>a_id = uuid1, a_run = sr_id run, a_owner = uuid2, a_scope_key = scope_key, a_mode = mode,
      a_orchestrator = sr_owner run, a_planned = planned,
      a_plan_digest = sha256 (encode_ascii (json_strings planned)), a_epochs = None,
      a_references = 0, a_closed_at = None, a_seal = None, a_sealed_at = None,
      a_published_at = None, a_status = Preparing, a_error = None, a_created = now\<rparr>"

text \<open>The two uuids and the time are arguments; the insert fails when the attempt id exists.\<close>

definition create_export_attempt ::
  "(text_bytes \<Rightarrow> text_bytes) \<Rightarrow> text_bytes \<Rightarrow> text_bytes \<Rightarrow> text_bytes list \<Rightarrow> text_bytes \<Rightarrow> text_bytes option \<Rightarrow>
   text_bytes \<Rightarrow> text_bytes \<Rightarrow> instant \<Rightarrow> (export_db, export_attempt) transaction" where
  "create_export_attempt sha256 run_id scope_key planned_sources mode orchestrator uuid1 uuid2 now db =
     (if scope_key = [] \<or> str_len scope_key > 240 \<or> planned_sources = [] \<or> length planned_sources > 10000
         \<or> mode \<notin> {''native'', ''dagster''}
      then Inl (Receipt_Error Bad_Attempt_Plan)
      else let planned = sorted_set planned_sources in
        if \<not> list_all scope_hash_ok planned then Inl (Receipt_Error Bad_Scope_Identity)
        else case run_at run_id db of
          None \<Rightarrow> Inl (Receipt_Error Source_Run_Not_Running)
        | Some run \<Rightarrow>
            if \<not> is_running run then Inl (Receipt_Error Source_Run_Not_Running)
            else if mode = ''dagster'' \<and>
                (orchestrator = None \<or> orchestrator = Some [] \<or> sr_owner run \<noteq> orchestrator)
            then Inl (Receipt_Error Dagster_Owner_Mismatch)
            else if mode \<noteq> ''dagster'' \<and> (sr_owner run \<noteq> None \<or> orchestrator \<noteq> None)
            then Inl (Receipt_Error Native_Downgrade)
            else if attempt_at uuid1 db \<noteq> None then Inl Integrity_Violation
            else Inr (\<lparr>at_id = uuid1, at_owner = uuid2\<rparr>,
              db\<lparr>attempts := attempts db @ [new_attempt sha256 run scope_key planned mode uuid1 uuid2 now]\<rparr>))"

definition chunk_key_ok :: "text_bytes \<Rightarrow> bool" where
  "chunk_key_ok k \<longleftrightarrow> k \<noteq> [] \<and> \<not> str_len k > 64 \<and> is_ascii k
     \<and> list_all (\<lambda>c. is_alnum c \<or> c = CHR ''-'' \<or> c = CHR ''_'') k"

subsection \<open>The chunk must be the announced one (export_lifecycle.py, validate_planned_capture)\<close>

definition validate_planned_capture ::
  "export_db \<Rightarrow> attempt_row \<Rightarrow> text_bytes \<Rightarrow> text_bytes list \<Rightarrow> int option \<Rightarrow> text_bytes option \<Rightarrow>
   export_error option" where
  "validate_planned_capture db attempt chunk_key covered input_points input_digest =
     (case current_owners db attempt (Some covered) of
        Some e \<Rightarrow> Some e
      | None \<Rightarrow>
          (case row_of e_pk (a_id attempt, chunk_key) (expected db) of
             None \<Rightarrow> Some (Lifecycle_Error Input_Differs_From_Plan)
           | Some plan \<Rightarrow>
               if e_scopes plan \<noteq> covered \<or> Some (e_points plan) \<noteq> input_points
                  \<or> Some (e_digest plan) \<noteq> input_digest
               then Some (Lifecycle_Error Input_Differs_From_Plan) else None))"

subsection \<open>Recording a chunk\<close>

text \<open>\<open>d1 == d2\<close> of two optional dicts.\<close>

definition counts_eq :: "(text_bytes \<times> int) list option \<Rightarrow> (text_bytes \<times> int) list option \<Rightarrow> bool" where
  "counts_eq a b \<longleftrightarrow>
     (case (a, b) of (None, None) \<Rightarrow> True | (Some d, Some e) \<Rightarrow> dict_eq d e | _ \<Rightarrow> False)"

definition counts_match :: "(text_bytes \<times> int) list option \<Rightarrow> text_bytes list \<Rightarrow> int \<Rightarrow> bool" where
  "counts_match counts covered points \<longleftrightarrow>
     (case counts of None \<Rightarrow> True
      | Some d \<Rightarrow> same_set (dict_keys d) covered \<and> list_all (\<lambda>(k, n). 0 \<le> n) d \<and> sum_list (map snd d) = points)"

definition new_chunk ::
  "text_bytes \<Rightarrow> text_bytes \<Rightarrow> text_bytes list \<Rightarrow> prepared_chunk \<Rightarrow> (text_bytes \<times> int) list option \<Rightarrow> instant \<Rightarrow>
   chunk_row" where
  "new_chunk attempt_id chunk_key covered chunk counts now =
     \<lparr>ch_attempt = attempt_id, ch_key = chunk_key, ch_digest = pc_digest chunk,
      ch_bytes = int (length (pc_payload chunk)), ch_points = int (pc_points chunk), ch_covered = covered,
      ch_counts = counts, ch_collected = pc_collected chunk, ch_recorded = now\<rparr>"

definition same_content :: "attempt_row \<Rightarrow> chunk_row \<Rightarrow> chunk_row \<Rightarrow> bool" where
  "same_content attempt old new \<longleftrightarrow>
     ch_digest old = ch_digest new \<and> ch_bytes old = ch_bytes new \<and> ch_points old = ch_points new
     \<and> ch_covered old = ch_covered new \<and> ch_collected old = ch_collected new
     \<and> (counts_eq (ch_counts old) (ch_counts new) \<or> (ch_counts old = None \<and> a_epochs attempt = None))"

text \<open>The CHECK constraints of the table.\<close>

definition chunk_row_ok :: "chunk_row \<Rightarrow> bool" where
  "chunk_row_ok r \<longleftrightarrow> 0 \<le> ch_bytes r \<and> ch_bytes r \<le> 8388608 \<and> 0 \<le> ch_points r \<and> ch_points r \<le> 5000"

definition record_export_chunk ::
  "export_attempt \<Rightarrow> text_bytes \<Rightarrow> text_bytes \<Rightarrow> text_bytes list \<Rightarrow> prepared_chunk \<Rightarrow> int option \<Rightarrow>
   text_bytes option \<Rightarrow> (text_bytes \<times> int) list option \<Rightarrow> instant \<Rightarrow> (export_db, unit) transaction" where
  "record_export_chunk identity chunk_key run_id covered_sources chunk input_points input_digest counts now db =
     (if \<not> chunk_key_ok chunk_key then Inl (Receipt_Error Bad_Chunk_Identity)
      else case attempt_at (at_id identity) db of
        None \<Rightarrow> Inl (Receipt_Error Attempt_Owner_Mismatch)
      | Some attempt \<Rightarrow>
          if a_owner attempt \<noteq> at_owner identity \<or> a_run attempt \<noteq> run_id \<or> a_status attempt = Failed
          then Inl (Receipt_Error Attempt_Owner_Mismatch)
          else
            let covered = sorted_set covered_sources;
                planned = (if a_epochs attempt = None then None
                  else validate_planned_capture db attempt chunk_key covered input_points input_digest)
            in case planned of
                 Some e \<Rightarrow> Inl e
               | None \<Rightarrow>
                   if covered = [] \<or> \<not> list_all (\<lambda>s. s \<in> set (a_planned attempt)) covered
                   then Inl (Receipt_Error Outside_Planned_Scope)
                   else if \<not> counts_match counts covered (int (pc_points chunk))
                   then Inl (Receipt_Error Source_Counts_Mismatch)
                   else if a_epochs attempt \<noteq> None \<and> counts = None
                   then Inl (Receipt_Error Source_Counts_Missing)
                   else
                     let new = new_chunk (at_id identity) chunk_key covered chunk counts now in
                     case row_of ch_pk (ch_pk new) (chunks db) of
                       Some old \<Rightarrow>
                         if \<not> same_content attempt old new then Inl (Receipt_Error Chunk_Retry_Differs)
                         else Inr ((), db)
                     | None \<Rightarrow>
                         if a_status attempt \<noteq> Preparing \<or> a_closed_at attempt \<noteq> None
                         then Inl (Receipt_Error Attempt_Sealed)
                         else if \<not> chunk_row_ok new then Inl Integrity_Violation
                         else Inr ((), db\<lparr>chunks := chunks db @ [new]\<rparr>))"

text \<open>\<open>WeatherRepository._fail_export_capture\<close>: the file could not be written.\<close>

definition fail_export_capture :: "export_attempt \<Rightarrow> text_bytes \<Rightarrow> export_db \<Rightarrow> export_db" where
  "fail_export_capture identity code db =
     db\<lparr>attempts := update_where
       (\<lambda>a. a_id a = at_id identity \<and> a_owner a = at_owner identity \<and> a_status a = Preparing)
       (\<lambda>a. a\<lparr>a_status := Failed, a_error := Some code\<rparr>) (attempts db)\<rparr>"

subsection \<open>What the transactions do\<close>

lemma new_attempt_simps [simp]:
  "a_id (new_attempt sha256 run k pl m u1 u2 now) = u1" "a_owner (new_attempt sha256 run k pl m u1 u2 now) = u2"
  "a_run (new_attempt sha256 run k pl m u1 u2 now) = sr_id run" "a_planned (new_attempt sha256 run k pl m u1 u2 now) = pl"
  "a_epochs (new_attempt sha256 run k pl m u1 u2 now) = None" "a_status (new_attempt sha256 run k pl m u1 u2 now) = Preparing"
  "a_closed_at (new_attempt sha256 run k pl m u1 u2 now) = None" "a_seal (new_attempt sha256 run k pl m u1 u2 now) = None"
  "a_published_at (new_attempt sha256 run k pl m u1 u2 now) = None" "a_references (new_attempt sha256 run k pl m u1 u2 now) = 0"
  "a_orchestrator (new_attempt sha256 run k pl m u1 u2 now) = sr_owner run" "a_mode (new_attempt sha256 run k pl m u1 u2 now) = m"
  by (simp_all add: new_attempt_def)

lemma create_export_attempt_Inr:
  assumes "create_export_attempt sha256 run_id scope_key planned mode orchestrator u1 u2 now db = Inr (i, db')"
  shows "i = \<lparr>at_id = u1, at_owner = u2\<rparr> \<and> planned \<noteq> [] \<and> list_all scope_hash_ok (sorted_set planned)
    \<and> attempt_at u1 db = None
    \<and> (\<exists>run. run_at run_id db = Some run \<and> is_running run
        \<and> (if mode = ''dagster'' then sr_owner run \<noteq> None \<and> sr_owner run = orchestrator
           else mode = ''native'' \<and> sr_owner run = None \<and> orchestrator = None)
        \<and> db' = db\<lparr>attempts := attempts db @ [new_attempt sha256 run scope_key (sorted_set planned) mode u1 u2 now]\<rparr>)"
proof -
  have ok: "\<not> (scope_key = [] \<or> str_len scope_key > 240 \<or> planned = [] \<or> length planned > 10000
      \<or> mode \<notin> {''native'', ''dagster''})" "list_all scope_hash_ok (sorted_set planned)"
    using assms by (auto simp only: create_export_attempt_def Let_def split: if_splits)
  show ?thesis
  proof (cases "run_at run_id db")
    case None
    with assms ok show ?thesis by (auto simp: create_export_attempt_def Let_def split: if_splits)
  next
    case (Some run)
    with assms ok show ?thesis
      by (auto simp: create_export_attempt_def Let_def simp del: new_attempt_simps split: if_splits)
  qed
qed

lemma record_export_chunk_Inr:
  assumes "record_export_chunk identity chunk_key run_id covered chunk ip idg counts now db = Inr (u, db')"
  obtains attempt new where "attempt_at (at_id identity) db = Some attempt" "a_owner attempt = at_owner identity"
    "a_status attempt \<noteq> Failed"
    "a_epochs attempt \<noteq> None \<longrightarrow>
       current_owners db attempt (Some (sorted_set covered)) = None \<and> counts \<noteq> None \<and>
       (\<exists>plan. row_of e_pk (at_id identity, chunk_key) (expected db) = Some plan \<and> e_scopes plan = sorted_set covered
         \<and> ip = Some (e_points plan) \<and> idg = Some (e_digest plan))"
    "new = new_chunk (at_id identity) chunk_key (sorted_set covered) chunk counts now"
    "set covered \<subseteq> set (a_planned attempt)" "covered \<noteq> []"
    "counts_match counts (sorted_set covered) (int (pc_points chunk))"
    "(case row_of ch_pk (at_id identity, chunk_key) (chunks db) of
        Some old \<Rightarrow> db' = db \<and> same_content attempt old new
      | None \<Rightarrow> db' = db\<lparr>chunks := chunks db @ [new]\<rparr> \<and> a_status attempt = Preparing \<and>
          a_closed_at attempt = None \<and> chunk_row_ok new)"
proof -
  obtain attempt where a: "attempt_at (at_id identity) db = Some attempt" "a_owner attempt = at_owner identity"
    "a_status attempt \<noteq> Failed"
    using assms by (auto simp: record_export_chunk_def split: if_splits option.splits)
  let ?planned = "if a_epochs attempt = None then None
    else validate_planned_capture db attempt chunk_key (sorted_set covered) ip idg"
  let ?new = "new_chunk (at_id identity) chunk_key (sorted_set covered) chunk counts now"
  have id: "a_id attempt = at_id identity" using row_of_SomeD [OF a(1)] by simp
  have pl: "?planned = None" and rest: "set covered \<subseteq> set (a_planned attempt)" "covered \<noteq> []"
    "counts_match counts (sorted_set covered) (int (pc_points chunk))" "a_epochs attempt \<noteq> None \<longrightarrow> counts \<noteq> None"
    "(case row_of ch_pk (at_id identity, chunk_key) (chunks db) of
        Some old \<Rightarrow> db' = db \<and> same_content attempt old ?new
      | None \<Rightarrow> db' = db\<lparr>chunks := chunks db @ [?new]\<rparr> \<and> a_status attempt = Preparing \<and>
          a_closed_at attempt = None \<and> chunk_row_ok ?new)"
    using assms a
    by (auto simp: record_export_chunk_def Let_def list_all_iff ch_pk_def new_chunk_def
        split: if_splits option.splits)
  have "a_epochs attempt \<noteq> None \<longrightarrow>
       current_owners db attempt (Some (sorted_set covered)) = None \<and> counts \<noteq> None \<and>
       (\<exists>plan. row_of e_pk (at_id identity, chunk_key) (expected db) = Some plan \<and> e_scopes plan = sorted_set covered
         \<and> ip = Some (e_points plan) \<and> idg = Some (e_digest plan))"
    using pl rest(4) id
    by (auto simp: validate_planned_capture_def split: option.splits if_splits)
  with that a rest show ?thesis by blast
qed

end
