(* ===== verification/Export_Lifecycle.thy ===== *)
theory Export_Lifecycle
  imports Export_Receipts
begin

section \<open>From a claimed attempt to a sealed one (export_lifecycle.py)\<close>

text \<open>
  An attempt claims the owner rows of its planned sources (which fences every older attempt),
  announces its chunks before they are recorded, closes each source and then the whole plan, whose
  seal digest covers everything announced and recorded; the reconciler validates the chunk files
  after the run has succeeded and seals the attempt.
\<close>

definition MAX_EXPECTED_CHUNKS :: nat where "MAX_EXPECTED_CHUNKS = 10000"
definition MAX_PLAN_REFERENCES :: int where "MAX_PLAN_REFERENCES = 50000"
definition MAX_CHUNK_SOURCES :: nat where "MAX_CHUNK_SOURCES = 256"

record source_record =
  rec_key :: text_bytes
  rec_provider :: text_bytes
  rec_dataset :: text_bytes
  rec_entity_type :: text_bytes
  rec_entity_id :: text_bytes
  rec_run :: "text_bytes option"
  rec_payload :: json
  rec_fetched :: "py_datetime option"

definition record_scope :: "(text_bytes \<Rightarrow> text_bytes) \<Rightarrow> source_record \<Rightarrow> text_bytes" where
  "record_scope sha256 r =
     source_scope_key sha256 (rec_provider r) (rec_dataset r) (rec_entity_type r) (rec_entity_id r)"

subsection \<open>The digest of the normalised input\<close>

text \<open>A value is its \<open>model_dump(mode="json")\<close>; the payload and the record key are left out.\<close>

definition exclude_fields :: "text_bytes list \<Rightarrow> json \<Rightarrow> json" where
  "exclude_fields ks v = (case v of JObj kvs \<Rightarrow> JObj (filter (\<lambda>(k, x). k \<notin> set ks) kvs) | _ \<Rightarrow> v)"

fun normalization_points :: "json list \<Rightarrow> nat \<Rightarrow> text_bytes list \<Rightarrow> export_error + text_bytes list" where
  "normalization_points [] bytes points = Inr points"
| "normalization_points (v # vs) bytes points =
     (let point = encode_ascii (exclude_fields [''payload'', ''source_record_key''] v);
          bytes' = bytes + length point
      in if bytes' > MAX_CHUNK_BYTES \<or> length points \<ge> MAX_CHUNK_POINTS
         then Inl (Lifecycle_Error Normalization_Limit)
         else normalization_points vs bytes' (points @ [point]))"

definition normalization_input_digest ::
  "(text_bytes \<Rightarrow> text_bytes) \<Rightarrow> json list \<Rightarrow> export_error + text_bytes" where
  "normalization_input_digest sha256 values =
     (case normalization_points values 0 [] of
        Inl e \<Rightarrow> Inl e
      | Inr points \<Rightarrow> Inr (sha256 (encode_ascii (json_strings (sort points)))))"

subsection \<open>Locking the run and the attempt\<close>

definition locked :: "export_db \<Rightarrow> export_attempt \<Rightarrow> export_error + (sync_run \<times> attempt_row)" where
  "locked db identity =
     (case attempt_at (at_id identity) db of
        None \<Rightarrow> Inl (Lifecycle_Error Execution_Owner_Mismatch)
      | Some attempt \<Rightarrow>
          (case run_at (a_run attempt) db of
             None \<Rightarrow> Inl (Lifecycle_Error Execution_Owner_Mismatch)
           | Some run \<Rightarrow>
               if a_owner attempt \<noteq> at_owner identity then Inl (Lifecycle_Error Execution_Owner_Mismatch)
               else if a_orchestrator attempt \<noteq> sr_owner run then Inl (Lifecycle_Error Run_Identity_Changed)
               else Inr (run, attempt)))"

text \<open>\<open>_locked\<close> followed by \<open>_current_owners\<close>, as every operation but \<open>claim\<close> begins.\<close>

definition locked_owner ::
  "export_db \<Rightarrow> export_attempt \<Rightarrow> text_bytes list option \<Rightarrow> export_error + (sync_run \<times> attempt_row)" where
  "locked_owner db identity selected =
     (case locked db identity of
        Inl e \<Rightarrow> Inl e
      | Inr (run, attempt) \<Rightarrow>
          (case current_owners db attempt selected of Some e \<Rightarrow> Inl e | None \<Rightarrow> Inr (run, attempt)))"

subsection \<open>Claiming the scopes\<close>

definition bump_owner :: "owner_row \<Rightarrow> owner_row \<Rightarrow> owner_row" where
  "bump_owner old new = old\<lparr>o_epoch := o_epoch old + 1, o_attempt := o_attempt new\<rparr>"

definition claim_rows :: "attempt_row \<Rightarrow> owner_row list" where
  "claim_rows attempt =
     map (\<lambda>k. \<lparr>o_scope = k, o_epoch = 1, o_attempt = a_id attempt\<rparr>) (sort (a_planned attempt))"

definition epoch_of :: "owner_row list \<Rightarrow> text_bytes \<Rightarrow> int" where
  "epoch_of os k = (case row_of o_scope k os of Some o' \<Rightarrow> o_epoch o' | None \<Rightarrow> 0)"

definition claim :: "export_attempt \<Rightarrow> (export_db, unit) transaction" where
  "claim identity db =
     (case locked db identity of
        Inl e \<Rightarrow> Inl e
      | Inr (run, attempt) \<Rightarrow>
          if a_epochs attempt \<noteq> None then
            (case current_owners db attempt None of Some e \<Rightarrow> Inl e | None \<Rightarrow> Inr ((), db))
          else if \<not> is_running run \<or> a_status attempt \<noteq> Preparing
                  \<or> list_ex (\<lambda>c. ch_attempt c = at_id identity) (chunks db)
          then Inl (Lifecycle_Error Receipt_Before_Claim)
          else
            let owners' = upsert_all o_scope bump_owner (claim_rows attempt) (owners db);
                epochs = map (\<lambda>k. (k, epoch_of owners' k)) (sort (a_planned attempt))
            in Inr ((), update_attempt (at_id identity) (\<lambda>a. a\<lparr>a_epochs := Some epochs\<rparr>)
                 (db\<lparr>owners := owners'\<rparr>)))"

subsection \<open>Announcing a chunk\<close>

definition planned_chunk ::
  "export_attempt \<Rightarrow> text_bytes \<Rightarrow> text_bytes list \<Rightarrow> nat \<Rightarrow> text_bytes \<Rightarrow> expected_row" where
  "planned_chunk identity chunk_key scopes count digest =
     \<lparr>e_attempt = at_id identity, e_key = chunk_key, e_scopes = scopes, e_points = int count, e_digest = digest\<rparr>"

lemma planned_chunk_simps [simp]:
  "e_attempt (planned_chunk i k ss n d) = at_id i" "e_key (planned_chunk i k ss n d) = k"
  "e_scopes (planned_chunk i k ss n d) = ss" "e_pk (planned_chunk i k ss n d) = (at_id i, k)"
  "e_points (planned_chunk i k ss n d) = int n" "e_digest (planned_chunk i k ss n d) = d"
  by (simp_all add: planned_chunk_def e_pk_def)

definition expect_chunk ::
  "(text_bytes \<Rightarrow> text_bytes) \<Rightarrow> export_attempt \<Rightarrow> text_bytes \<Rightarrow> source_record list \<Rightarrow> json list \<Rightarrow>
   (export_db, unit) transaction" where
  "expect_chunk sha256 identity chunk_key records values db =
     (if \<not> chunk_key_ok chunk_key \<or> records = [] \<or> length values > MAX_CHUNK_POINTS
      then Inl (Lifecycle_Error Bad_Expected_Chunk)
      else
        let scopes = sorted_set (map (record_scope sha256) records) in
        if length scopes > MAX_CHUNK_SOURCES then Inl (Lifecycle_Error Bad_Chunk_Limit)
        else case normalization_input_digest sha256 values of
          Inl e \<Rightarrow> Inl e
        | Inr digest \<Rightarrow>
            let plan = planned_chunk identity chunk_key scopes (length values) digest
            in case locked_owner db identity (Some scopes) of
                 Inl e \<Rightarrow> Inl e
               | Inr (run, attempt) \<Rightarrow>
                   if \<not> is_running run \<or> a_status attempt \<noteq> Preparing \<or> a_closed_at attempt \<noteq> None
                   then Inl (Lifecycle_Error Plan_Is_Closed)
                   else if \<not> list_all (\<lambda>s. s \<in> set (a_planned attempt)) scopes
                           \<or> list_ex (\<lambda>r. rec_run r \<noteq> Some (a_run attempt)) records
                   then Inl (Lifecycle_Error Other_Run_Or_Scope)
                   else case row_of e_pk (e_pk plan) (expected db) of
                     Some existing \<Rightarrow>
                       if existing \<noteq> plan then Inl (Lifecycle_Error Expected_Chunk_Changed) else Inr ((), db)
                   | None \<Rightarrow>
                       if length (filter (\<lambda>e. e_attempt e = at_id identity) (expected db)) \<ge> MAX_EXPECTED_CHUNKS
                          \<or> a_references attempt + int (length scopes) > MAX_PLAN_REFERENCES
                       then Inl (Lifecycle_Error Manifest_Limit)
                       else if list_ex (\<lambda>c. cl_attempt c = at_id identity \<and> cl_scope c \<in> set scopes) (closures db)
                       then Inl (Lifecycle_Error Source_Already_Closed)
                       else Inr ((), update_attempt (at_id identity)
                              (\<lambda>a. a\<lparr>a_references := a_references attempt + int (length scopes)\<rparr>)
                              (db\<lparr>expected := expected db @ [plan]\<rparr>)))"

subsection \<open>Closing a source\<close>

definition close_source ::
  "export_attempt \<Rightarrow> text_bytes \<Rightarrow> text_bytes list \<Rightarrow> (export_db, unit) transaction" where
  "close_source identity scope chunk_keys db =
     (let keys = sorted_set chunk_keys in
      if keys = [] \<or> length keys \<noteq> length chunk_keys \<or> length keys > MAX_EXPECTED_CHUNKS
      then Inl (Lifecycle_Error Bad_Closure)
      else case locked_owner db identity (Some [scope]) of
        Inl e \<Rightarrow> Inl e
      | Inr (run, attempt) \<Rightarrow>
          if \<not> is_running run \<or> a_status attempt \<noteq> Preparing \<or> a_closed_at attempt \<noteq> None
             \<or> scope \<notin> set (a_planned attempt)
          then Inl (Lifecycle_Error Source_Not_Closable)
          else
            let rows = filter (\<lambda>e. e_attempt e = at_id identity \<and> e_key e \<in> set keys) (expected db) in
            if length rows \<noteq> length keys \<or> list_ex (\<lambda>e. scope \<notin> set (e_scopes e)) rows
            then Inl (Lifecycle_Error Expected_Chunk_Missing)
            else case row_of cl_pk (at_id identity, scope) (closures db) of
              Some existing \<Rightarrow>
                if cl_keys existing \<noteq> keys then Inl (Lifecycle_Error Closure_Changed) else Inr ((), db)
            | None \<Rightarrow> Inr ((), db\<lparr>closures := closures db @
                [\<lparr>cl_attempt = at_id identity, cl_scope = scope, cl_keys = keys\<rparr>]\<rparr>))"

subsection \<open>Closing the plan\<close>

text \<open>
  \<open>seal_head_plan\<close> (export_heads.py) hands the publication plan of the attempt, when it has one,
  to the seal: its row as JSON, instants in ISO format (the session's time zone is UTC).
\<close>

definition json_instant :: "instant option \<Rightarrow> json" where
  "json_instant = json_option (\<lambda>t. JStr (iso_utc t))"

definition plan_json :: "(rat \<Rightarrow> json) \<Rightarrow> plan_row \<Rightarrow> json" where
  "plan_json float_json p = JObj
     [(''attempt_id'', JStr (p_attempt p)), (''source_scope'', JStr (p_scope p)),
      (''namespace'', JStr (p_namespace p)), (''descriptor'', dump_descriptor float_json (p_descriptor p)),
      (''bound_at'', JStr (iso_utc (p_bound p))), (''data_revision_at'', json_instant (p_revision p)),
      (''source_input_digest'', json_option JStr (p_input p)),
      (''source_collected_at'', json_instant (p_collected p)),
      (''expected_point_count'', json_option JInt (p_points p)),
      (''normalization_digest'', json_option JStr (p_normalization p)),
      (''normalization_evidence'', json_option (\<lambda>j. j) (p_evidence p))]"

definition seal_head_plan :: "(rat \<Rightarrow> json) \<Rightarrow> export_db \<Rightarrow> text_bytes \<Rightarrow> export_error + json" where
  "seal_head_plan float_json db attempt_id =
     (case row_of p_attempt attempt_id (plans db) of
        None \<Rightarrow> Inr JNull
      | Some p \<Rightarrow>
          if p_revision p = None \<or> p_input p = None \<or> p_collected p = None
          then Inl (Head_Error Publication_Plan_Incomplete) else Inr (plan_json float_json p))"

definition plan_parts :: "expected_row list \<Rightarrow> json" where
  "plan_parts rows = JArr (map (\<lambda>e. JArr [JStr (e_key e), json_strings (e_scopes e), JInt (e_points e),
     JStr (e_digest e)]) rows)"

definition json_counts :: "(text_bytes \<times> int) list \<Rightarrow> json" where
  "json_counts d = JObj (map (\<lambda>(k, n). (k, JInt n)) d)"

definition chunk_parts :: "chunk_row list \<Rightarrow> json" where
  "chunk_parts rows = JArr (map (\<lambda>c. JArr [JStr (ch_key c), JStr (ch_digest c), JInt (ch_bytes c),
     JInt (ch_points c), JStr (iso_utc (ch_collected c)), json_strings (ch_covered c),
     json_option json_counts (ch_counts c)]) rows)"

definition attempt_expected :: "text_bytes \<Rightarrow> export_db \<Rightarrow> expected_row list" where
  "attempt_expected i db = sort_key e_key (filter (\<lambda>e. e_attempt e = i) (expected db))"

definition attempt_chunks :: "text_bytes \<Rightarrow> export_db \<Rightarrow> chunk_row list" where
  "attempt_chunks i db = sort_key ch_key (filter (\<lambda>c. ch_attempt c = i) (chunks db))"

definition attempt_closures :: "text_bytes \<Rightarrow> export_db \<Rightarrow> closure_row list" where
  "attempt_closures i db = filter (\<lambda>c. cl_attempt c = i) (closures db)"

text \<open>The chunk keys announced for each planned source, and the points recorded for it.\<close>

definition keys_by_source :: "expected_row list \<Rightarrow> text_bytes \<Rightarrow> text_bytes list" where
  "keys_by_source rows s = concat (map (\<lambda>e. replicate (count_list (e_scopes e) s) (e_key e)) rows)"

definition admitted :: "chunk_row list \<Rightarrow> text_bytes \<Rightarrow> int" where
  "admitted rows s = sum_list (map (\<lambda>c. case ch_counts c of None \<Rightarrow> 0
     | Some d \<Rightarrow> (case map_of d s of Some n \<Rightarrow> n | None \<Rightarrow> 0)) rows)"

definition barrier_met :: "attempt_row \<Rightarrow> expected_row list \<Rightarrow> chunk_row list \<Rightarrow> closure_row list \<Rightarrow> bool" where
  "barrier_met attempt rows received shut \<longleftrightarrow>
     rows \<noteq> []
     \<and> dict_eq (map (\<lambda>c. (cl_scope c, cl_keys c)) shut) (map (\<lambda>s. (s, keys_by_source rows s)) (a_planned attempt))
     \<and> map e_key rows = map ch_key received
     \<and> list_all (\<lambda>s. admitted received s \<noteq> 0) (a_planned attempt)"

definition seal_digest ::
  "(text_bytes \<Rightarrow> text_bytes) \<Rightarrow> json \<Rightarrow> attempt_row \<Rightarrow> expected_row list \<Rightarrow> chunk_row list \<Rightarrow> text_bytes" where
  "seal_digest sha256 head attempt rows received =
     sha256 (encode_ascii (JArr [head, JStr (a_plan_digest attempt), json_option json_counts (a_epochs attempt),
       plan_parts rows, chunk_parts received]))"

definition close_plan ::
  "(text_bytes \<Rightarrow> text_bytes) \<Rightarrow> (rat \<Rightarrow> json) \<Rightarrow> export_attempt \<Rightarrow> instant \<Rightarrow>
   (export_db, text_bytes option) transaction" where
  "close_plan sha256 float_json identity now db =
     (case locked_owner db identity None of
        Inl e \<Rightarrow> Inl e
      | Inr (run, attempt) \<Rightarrow>
          if a_closed_at attempt \<noteq> None then Inr (a_seal attempt, db)
          else if \<not> is_running run \<or> a_status attempt \<noteq> Preparing
          then Inl (Lifecycle_Error Plan_Not_Closable)
          else
            let rows = attempt_expected (at_id identity) db; received = attempt_chunks (at_id identity) db;
                shut = attempt_closures (at_id identity) db
            in if list_ex (\<lambda>e. list_ex (\<lambda>s. s \<notin> set (a_planned attempt)) (e_scopes e)) rows
               then Inl Key_Missing
               else if list_ex (\<lambda>c. case ch_counts c of None \<Rightarrow> False
                   | Some d \<Rightarrow> list_ex (\<lambda>s. s \<notin> set (a_planned attempt)) (dict_keys d)) received
               then Inl (Lifecycle_Error Count_Outside_Plan)
               else if \<not> barrier_met attempt rows received shut
               then Inl (Lifecycle_Error Barrier_Not_Met)
               else case seal_head_plan float_json db (at_id identity) of
                 Inl e \<Rightarrow> Inl e
               | Inr head \<Rightarrow>
                   let digest = seal_digest sha256 head attempt rows received in
                   Inr (Some digest, update_attempt (at_id identity)
                     (\<lambda>a. a\<lparr>a_closed_at := Some now, a_seal := Some digest\<rparr>) db))"

subsection \<open>Reconciling: two transactions around the files and the orchestrator\<close>

datatype readiness = Not_Ready | Eligible | Rejected

definition ENDED_STATUSES :: "text_bytes list" where
  "ENDED_STATUSES = [''failed'', ''partial'', ''partial_success'', ''canceled'', ''cancelled'', ''skipped'']"

definition unvalidated :: "text_bytes \<Rightarrow> export_db \<Rightarrow> chunk_row list" where
  "unvalidated i db = filter (\<lambda>c. row_of v_pk (ch_pk c) (validated db) = None) (attempt_chunks i db)"

record reconcile_ticket =
  rt_receipts :: "chunk_row list"
  rt_token :: "text_bytes option"
  rt_mode :: text_bytes
  rt_orchestrator :: "text_bytes option"

definition reconcile_begin ::
  "export_attempt \<Rightarrow> nat \<Rightarrow> export_db \<Rightarrow> export_error + (readiness + reconcile_ticket)" where
  "reconcile_begin identity max_chunks db =
     (if \<not> (1 \<le> max_chunks \<and> max_chunks \<le> 8) then Inl (Lifecycle_Error Bad_Chunk_Limit)
      else case locked_owner db identity None of
        Inl e \<Rightarrow> Inl e
      | Inr (run, attempt) \<Rightarrow>
          Inr (if a_status attempt = Failed \<or> sr_status run \<in> set ENDED_STATUSES then Inl Rejected
            else if sr_status run \<noteq> ''success'' \<or> a_closed_at attempt = None then Inl Not_Ready
            else if a_status attempt = Sealed then Inl Eligible
            else Inr \<lparr>rt_receipts = take max_chunks (unvalidated (at_id identity) db), rt_token = a_seal attempt,
              rt_mode = a_mode attempt, rt_orchestrator = a_orchestrator attempt\<rparr>))"

text \<open>
  The orchestrator's answer: the callable may be absent (\<open>None\<close>), raise or time out (\<open>Inl\<close>), or
  return a status.  \<open>None\<close> as the result means that the reconciler goes on.
\<close>

definition dagster_verdict ::
  "(text_bytes \<Rightarrow> unit + text_bytes option) option \<Rightarrow> reconcile_ticket \<Rightarrow> readiness option" where
  "dagster_verdict status t =
     (if rt_mode t \<noteq> ''dagster'' then None
      else case (rt_orchestrator t, status) of
        (Some i, Some ask) \<Rightarrow>
          if i = [] then Some Not_Ready
          else (case ask i of
            Inl _ \<Rightarrow> Some Not_Ready
          | Inr (Some s) \<Rightarrow>
              if s = ''FAILURE'' \<or> s = ''CANCELED'' then Some Rejected
              else if s \<noteq> ''SUCCESS'' then Some Not_Ready else None
          | Inr None \<Rightarrow> Some Not_Ready)
      | _ \<Rightarrow> Some Not_Ready)"

fun bounded_receipts :: "int \<Rightarrow> chunk_row list \<Rightarrow> chunk_row list" where
  "bounded_receipts bytes [] = []"
| "bounded_receipts bytes (c # cs) =
     (if bytes + ch_bytes c > 2 * int MAX_CHUNK_BYTES then []
      else c # bounded_receipts (bytes + ch_bytes c) cs)"

fun verify_receipts ::
  "(text_bytes \<Rightarrow> text_bytes) \<Rightarrow> directory \<Rightarrow> text_bytes list option \<Rightarrow> chunk_row list \<Rightarrow> bool \<times> text_bytes list option" where
  "verify_receipts sha256 dir seen [] = (True, seen)"
| "verify_receipts sha256 dir seen (c # cs) =
     (case store_verify sha256 dir seen (ch_digest c) (ch_bytes c) (ch_points c) of
        (Inl _, seen') \<Rightarrow> (False, seen')
      | (Inr _, seen') \<Rightarrow> verify_receipts sha256 dir seen' cs)"

definition validation_rows :: "export_attempt \<Rightarrow> chunk_row list \<Rightarrow> instant \<Rightarrow> validated_row list" where
  "validation_rows identity receipts now =
     map (\<lambda>c. \<lparr>v_attempt = at_id identity, v_key = ch_key c, v_digest = ch_digest c, v_at = now\<rparr>) receipts"

definition reconcile_finish ::
  "export_attempt \<Rightarrow> reconcile_ticket \<Rightarrow> chunk_row list \<Rightarrow> instant \<Rightarrow> (export_db, readiness) transaction" where
  "reconcile_finish identity t receipts now db =
     (case locked_owner db identity None of
        Inl e \<Rightarrow> Inl e
      | Inr (run, attempt) \<Rightarrow>
          if sr_status run \<noteq> ''success'' \<or> a_status attempt = Failed \<or> a_seal attempt \<noteq> rt_token t
          then Inr (Rejected, db)
          else
            let db1 = db\<lparr>validated := fold (insert_ignore v_pk) (validation_rows identity receipts now) (validated db)\<rparr>
            in if unvalidated (at_id identity) db1 \<noteq> [] then Inr (Not_Ready, db1)
               else case rt_token t of
                 None \<Rightarrow> Inl Integrity_Violation
               | Some token \<Rightarrow>
                   let ev = \<lparr>ev_attempt = at_id identity, ev_run = sr_id run, ev_mode = rt_mode t,
                         ev_orchestrator = rt_orchestrator t, ev_seal = token, ev_checked = now\<rparr>;
                       db2 = db1\<lparr>evidence := insert_ignore ev_attempt ev (evidence db1)\<rparr>
                   in Inr (Eligible, db2\<lparr>attempts := update_where
                        (\<lambda>a. a_id a = at_id identity \<and> a_status a = Preparing)
                        (\<lambda>a. a\<lparr>a_status := Sealed, a_sealed_at := Some now\<rparr>) (attempts db2)\<rparr>))"

text \<open>
  \<open>other\<close> is what other transactions do while the files are read; \<open>seen\<close> the verified digests.  An
  error ends the transaction it occurs in, the ones before stay committed.
\<close>

definition reconcile ::
  "(text_bytes \<Rightarrow> text_bytes) \<Rightarrow> directory \<Rightarrow> text_bytes list option \<Rightarrow>
   (text_bytes \<Rightarrow> unit + text_bytes option) option \<Rightarrow> export_attempt \<Rightarrow> nat \<Rightarrow> instant \<Rightarrow>
   (export_db \<Rightarrow> export_db) \<Rightarrow> export_db \<Rightarrow> (export_error + readiness) \<times> text_bytes list option \<times> export_db" where
  "reconcile sha256 dir seen status identity max_chunks now other db =
     (case reconcile_begin identity max_chunks db of
        Inl e \<Rightarrow> (Inl e, seen, db)
      | Inr (Inl verdict) \<Rightarrow> (Inr verdict, seen, db)
      | Inr (Inr t) \<Rightarrow>
          (case dagster_verdict status t of
             Some verdict \<Rightarrow> (Inr verdict, seen, other db)
           | None \<Rightarrow>
               let receipts = bounded_receipts 0 (rt_receipts t);
                   (ok, seen') = verify_receipts sha256 dir seen receipts
               in if \<not> ok then (Inr Not_Ready, seen', other db)
                  else (case reconcile_finish identity t receipts now (other db) of
                    Inl e \<Rightarrow> (Inl e, seen', other db) | Inr (verdict, db') \<Rightarrow> (Inr verdict, seen', db'))))"

end
