(* ===== verification/Export_Points.thy ===== *)
theory Export_Points
  imports Export_Lifecycle
begin

section \<open>Points, publication bases and forecast coverage (export_heads.py)\<close>

text \<open>
  The pure parts of the promotion: the digest of a point by meaning, the base a KMA response
  announces, and the hours a forecast must cover.  Arguments stand for what is not in the
  repository or is Python's own parser: SHA-256, the JSON number of a float, \<open>Decimal(str)\<close>,
  \<open>datetime.fromisoformat\<close>, the KMA SDK's \<open>parse_kma_datetime\<close> and pagination receipt, and the
  normalisers of the providers.
\<close>

record weather_point =
  wp_provider :: text_bytes
  wp_dataset :: text_bytes
  wp_style :: text_bytes
  wp_location :: text_bytes
  wp_domain :: text_bytes
  wp_version :: text_bytes
  wp_target :: "instant option"
  wp_dump :: json

record head_env =
  he_sha256 :: "text_bytes \<Rightarrow> text_bytes"
  he_float :: "rat \<Rightarrow> json"
  he_decimal :: "text_bytes \<Rightarrow> decimal option"
  he_iso :: "text_bytes \<Rightarrow> py_datetime option"
  he_kma_time :: "text_bytes \<Rightarrow> text_bytes \<Rightarrow> instant option"
  he_receipt :: "json \<Rightarrow> (bool \<times> nat) option"
  he_loads :: "text_bytes \<Rightarrow> json option"
  he_normalize :: "descriptor \<Rightarrow> source_record \<Rightarrow> text_bytes list \<Rightarrow>
    export_error + (weather_point list \<times> (text_bytes \<times> int) list)"

definition MAX_PROMOTION_CHUNKS :: nat where "MAX_PROMOTION_CHUNKS = 64"
definition MAX_PROMOTION_BYTES :: int where "MAX_PROMOTION_BYTES = 128 * 1024 * 1024"
definition MAX_FORECAST_POINTS :: nat where "MAX_FORECAST_POINTS = 100000"

definition NOWCAST_REQUIRED_CATEGORIES :: "text_bytes list" where
  "NOWCAST_REQUIRED_CATEGORIES = [''T1H'', ''RN1'', ''UUU'', ''VVV'', ''REH'', ''PTY'', ''VEC'', ''WSD'']"

abbreviation digest_json :: "head_env \<Rightarrow> json \<Rightarrow> text_bytes" where
  "digest_json env \<equiv> json_digest (he_sha256 env)"

definition jget :: "json \<Rightarrow> text_bytes \<Rightarrow> json option" where
  "jget v k = (case v of JObj kvs \<Rightarrow> map_of kvs k | _ \<Rightarrow> None)"

text \<open>\<open>str(d.get(k))\<close> of a JSON value; a nested array or object keeps its JSON text.\<close>

definition py_str :: "json option \<Rightarrow> text_bytes" where
  "py_str v =
     (case v of
        None \<Rightarrow> ''None''
      | Some JNull \<Rightarrow> ''None''
      | Some (JStr s) \<Rightarrow> s
      | Some (JBool b) \<Rightarrow> if b then ''True'' else ''False''
      | Some w \<Rightarrow> encode w)"

subsection \<open>The digest of a point by meaning\<close>

definition TRANSIENT_FIELDS :: "text_bytes list" where
  "TRANSIENT_FIELDS = [''value_id'', ''source_record_key'', ''known_at'', ''collected_at'', ''payload'',
     ''observation_evidence'']"

definition TIME_FIELDS :: "text_bytes list" where
  "TIME_FIELDS = [''issued_at'', ''valid_at'', ''valid_from'', ''valid_until'', ''observed_at'', ''target_at'']"

text \<open>One field: the number in canonical form, an instant in UTC, everything else as it is.\<close>

definition semantic_field :: "head_env \<Rightarrow> text_bytes \<Rightarrow> json \<Rightarrow> export_error + json" where
  "semantic_field env k v =
     (if v = JNull then Inr v
      else if k = ''value_number'' then
        (case he_decimal env (py_str (Some v)) of
           None \<Rightarrow> Inl Value_Error
         | Some x \<Rightarrow> (case canonical_export_number x of Inl e \<Rightarrow> Inl (Artifact_Failure e) | Inr t \<Rightarrow> Inr (JStr t)))
      else if k \<in> set TIME_FIELDS then
        (case v of
           JStr s \<Rightarrow>
             (case he_iso env s of
                None \<Rightarrow> Inl Value_Error
              | Some (Naive _) \<Rightarrow> Inl (Artifact_Failure Timezone_Missing)
              | Some (Aware t) \<Rightarrow> Inr (JStr (iso_utc t)))
         | _ \<Rightarrow> Inl Value_Error)
      else Inr v)"

fun semantic_fields :: "head_env \<Rightarrow> (text_bytes \<times> json) list \<Rightarrow> export_error + (text_bytes \<times> json) list" where
  "semantic_fields env [] = Inr []"
| "semantic_fields env ((k, v) # kvs) =
     (case semantic_field env k v of
        Inl e \<Rightarrow> Inl e
      | Inr w \<Rightarrow> (case semantic_fields env kvs of Inl e \<Rightarrow> Inl e | Inr r \<Rightarrow> Inr ((k, w) # r)))"

definition semantic_point_digest :: "head_env \<Rightarrow> json \<Rightarrow> export_error + text_bytes" where
  "semantic_point_digest env point =
     (case point of
        JObj kvs \<Rightarrow>
          (case semantic_fields env (filter (\<lambda>(k, v). k \<notin> set TRANSIENT_FIELDS) kvs) of
             Inl e \<Rightarrow> Inl e | Inr fs \<Rightarrow> Inr (digest_json env (JObj fs)))
      | _ \<Rightarrow> Inl Value_Error)"

fun semantic_digests :: "head_env \<Rightarrow> json list \<Rightarrow> export_error + text_bytes list" where
  "semantic_digests env [] = Inr []"
| "semantic_digests env (p # ps) =
     (case semantic_point_digest env p of
        Inl e \<Rightarrow> Inl e
      | Inr d \<Rightarrow> (case semantic_digests env ps of Inl e \<Rightarrow> Inl e | Inr ds \<Rightarrow> Inr (d # ds)))"

text \<open>\<open>_digest(sorted(digests))\<close>: the digest of a set of points, whatever their order.\<close>

definition set_digest :: "head_env \<Rightarrow> text_bytes list \<Rightarrow> text_bytes" where
  "set_digest env ds = digest_json env (json_strings (sort ds))"

definition source_input_digest :: "head_env \<Rightarrow> source_record \<Rightarrow> text_bytes" where
  "source_input_digest env r = digest_json env
     (JArr [JStr (rec_provider r), JStr (rec_dataset r), JStr (rec_entity_type r), JStr (rec_entity_id r),
       rec_payload r])"

subsection \<open>The announced base\<close>

definition announced_kma_base ::
  "text_bytes \<Rightarrow> json \<Rightarrow> json list \<Rightarrow> export_error + (text_bytes \<times> text_bytes)" where
  "announced_kma_base dataset meta rows =
     (case remdups (map (\<lambda>r. (py_str (jget r ''baseDate''), py_str (jget r ''baseTime''))) rows) of
        [(base_date, base_time)] \<Rightarrow>
          (case (jget meta ''base_date'', jget meta ''base_time'') of
             (Some d, Some t) \<Rightarrow>
               let requested_date = py_str (Some d); requested_time = py_str (Some t) in
               if base_date = requested_date \<and> base_time = requested_time then Inr (base_date, base_time)
               else if dataset = ''kma_ultra_short_forecast'' \<and> base_date = requested_date
                       \<and> length requested_time = 4 \<and> list_all is_digit requested_time
                       \<and> drop 2 requested_time = ''30'' \<and> base_time = take 2 requested_time @ ''00''
               then Inr (base_date, base_time)
               else Inl (Kma_Error Base_Mismatch)
           | _ \<Rightarrow> Inl Key_Missing)
      | _ \<Rightarrow> Inl (Kma_Error Base_Not_Single))"

subsection \<open>Forecast coverage\<close>

text \<open>Hourly slots a base publishes: from the next full hour to the midnight 3 (from 17 KST: 4) days on.\<close>

definition SHORT_LATE_BASE_HOUR :: int where "SHORT_LATE_BASE_HOUR = 17"

definition short_hourly_slots :: "instant \<Rightarrow> int" where
  "short_hourly_slots revision =
     (let days_on = (if kst_hour revision \<ge> SHORT_LATE_BASE_HOUR then 4 else 3);
          last = kst_midnight (kst_day revision + days_on);
          first = kst_midnight (kst_day revision) + hours (kst_hour revision + 1)
      in (last - first) div seconds 3600 + 1)"

definition next_full_hour :: "instant \<Rightarrow> instant" where
  "next_full_hour t = t div seconds 3600 * seconds 3600 + hours 1"

fun forecast_slots ::
  "head_env \<Rightarrow> instant \<Rightarrow> json list \<Rightarrow> export_error + (instant \<times> text_bytes) list" where
  "forecast_slots env revision [] = Inr []"
| "forecast_slots env revision (r # rows) =
     (case (jget r ''fcstDate'', jget r ''fcstTime'') of
        (Some d, Some t) \<Rightarrow>
          (case he_kma_time env (py_str (Some d)) (py_str (Some t)) of
             None \<Rightarrow> Inl Value_Error
           | Some tm \<Rightarrow>
               if tm \<le> revision then Inl (Kma_Error Target_Before_Issue)
               else (case jget r ''category'' of
                  None \<Rightarrow> Inl Key_Missing
                | Some c \<Rightarrow>
                    (case forecast_slots env revision rows of
                       Inl e \<Rightarrow> Inl e | Inr rest \<Rightarrow> Inr ((tm, py_str (Some c)) # rest))))
      | _ \<Rightarrow> Inl Key_Missing)"

definition required_categories :: "text_bytes \<Rightarrow> text_bytes list" where
  "required_categories style =
     (if style = ''ultra_short'' then [''T1H'', ''RN1'', ''REH'', ''PTY'', ''SKY'', ''VEC'', ''WSD'']
      else [''TMP'', ''PCP'', ''REH'', ''PTY'', ''POP'', ''SKY'', ''VEC'', ''WSD''])"

definition complete_slots :: "text_bytes \<Rightarrow> (instant \<times> text_bytes) list \<Rightarrow> instant list" where
  "complete_slots style slots =
     sorted_set (filter (\<lambda>tm. list_all (\<lambda>c. (tm, c) \<in> set slots) (required_categories style)) (map fst slots))"

fun hourly_steps :: "instant list \<Rightarrow> bool" where
  "hourly_steps (a # b # rest) \<longleftrightarrow> b - a = seconds 3600 \<and> hourly_steps (b # rest)"
| "hourly_steps _ \<longleftrightarrow> True"

definition forecast_coverage :: "head_env \<Rightarrow> text_bytes \<Rightarrow> json list \<Rightarrow> instant \<Rightarrow> export_error option" where
  "forecast_coverage env style rows revision =
     (case forecast_slots env revision rows of
        Inl e \<Rightarrow> Some e
      | Inr slots \<Rightarrow>
          let complete = complete_slots style slots;
              minimum = (if style = ''ultra_short'' then 6 else nat (short_hourly_slots revision))
          in if complete = [] \<or> hd complete \<noteq> next_full_hour revision \<or> length complete < minimum
                \<or> \<not> hourly_steps (take minimum complete)
             then Some (Kma_Error Coverage_Missing) else None)"

subsection \<open>What the coverage guarantees\<close>

lemma hour_floor:
  "kst_midnight (kst_day t) + hours (kst_hour t) = t div seconds 3600 * seconds 3600"
proof -
  define q where "q = t div 3600000000"
  define r where "r = t mod 3600000000"
  have t: "t = q * 3600000000 + r" "0 \<le> r" "r < 3600000000"
    by (simp_all add: q_def r_def)
  have u: "t + 32400000000 = (q + 9) * 3600000000 + r" using t(1) by simp
  have dm: "(t + 32400000000) div 3600000000 = q + 9" "(t + 32400000000) mod 3600000000 = r"
    unfolding u using t(2,3)
    by (simp_all only: div_mult_self3 mod_mult_self3 div_pos_pos_trivial mod_pos_pos_trivial add_0_right)
  have day: "(t + 32400000000) div 86400000000 = (q + 9) div 24"
    using dm zdiv_zmult2_eq [of 24 "t + 32400000000" 3600000000] by simp
  have "(t + 32400000000) mod 86400000000 = 3600000000 * ((q + 9) mod 24) + r"
    using dm zmod_zmult2_eq [of 24 "t + 32400000000" 3600000000] by simp
  then have hour: "(t + 32400000000) mod 86400000000 div 3600000000 = (q + 9) mod 24"
    using t(2,3) by simp
  have scale: "x * 24 + y = q + 9 \<Longrightarrow> x * 86400000000 - 32400000000 + y * 3600000000 = q * 3600000000"
    for x y :: int by linarith
  have "(q + 9) div 24 * 86400000000 - 32400000000 + (q + 9) mod 24 * 3600000000 = q * 3600000000"
    by (rule scale) (rule div_mult_mod_eq)
  then show ?thesis
    by (simp add: kst_midnight_def kst_day_def kst_hour_def day hour flip: q_def)
qed

lemma next_full_hour_kst: "next_full_hour t = kst_midnight (kst_day t) + hours (kst_hour t + 1)"
  using hour_floor [of t] by (simp add: next_full_hour_def)

lemma short_hourly_slots_eq:
  "short_hourly_slots t = 24 * (if kst_hour t \<ge> 17 then 4 else 3) - kst_hour t"
proof -
  have "(days n - hours (h + 1)) div seconds 3600 = 24 * n - h - 1" for n h
  proof -
    have "days n - hours (h + 1) = (24 * n - h - 1) * seconds 3600" by simp
    then show ?thesis by (simp only: nonzero_mult_div_cancel_right) simp
  qed
  from this [of "if kst_hour t \<ge> 17 then 4 else 3" "kst_hour t"] show ?thesis
    by (simp add: short_hourly_slots_def SHORT_LATE_BASE_HOUR_def Let_def kst_midnight_def del: seconds_hours_days)
      (simp add: algebra_simps split: if_splits)
qed

lemma hourly_nth:
  "hourly_steps xs \<Longrightarrow> i < length xs \<Longrightarrow> xs ! i = hd xs + int i * seconds 3600"
proof (induction xs arbitrary: i rule: hourly_steps.induct)
  case (1 a b rest)
  show ?case
  proof (cases i)
    case (Suc j)
    with 1 have "(b # rest) ! j = b + int j * seconds 3600" by simp
    with 1 Suc show ?thesis by (simp add: algebra_simps)
  qed simp
qed auto

lemma complete_slotsD: "tm \<in> set (complete_slots style slots) \<Longrightarrow> c \<in> set (required_categories style) \<Longrightarrow> (tm, c) \<in> set slots"
  by (auto simp: complete_slots_def list_all_iff)

lemma forecast_slots_rows:
  "forecast_slots env revision rows = Inr slots \<Longrightarrow> (tm, c) \<in> set slots \<Longrightarrow>
    revision < tm \<and> (\<exists>r \<in> set rows. \<exists>d t v. jget r ''fcstDate'' = Some d \<and> jget r ''fcstTime'' = Some t
      \<and> jget r ''category'' = Some v \<and> he_kma_time env (py_str (Some d)) (py_str (Some t)) = Some tm \<and> c = py_str (Some v))"
proof (induction env revision rows arbitrary: slots rule: forecast_slots.induct)
  case (1 env revision)
  then show ?case by simp
next
  case (2 env revision r rows)
  from "2.prems"(1) obtain d t tm' v rest where r: "jget r ''fcstDate'' = Some d" "jget r ''fcstTime'' = Some t"
    "he_kma_time env (py_str (Some d)) (py_str (Some t)) = Some tm'" "\<not> tm' \<le> revision" "jget r ''category'' = Some v"
    "forecast_slots env revision rows = Inr rest" "slots = (tm', py_str (Some v)) # rest"
    by (auto split: option.splits if_splits sum.splits)
  show ?case
  proof (cases "(tm, c) = (tm', py_str (Some v))")
    case True
    with r show ?thesis by auto
  next
    case False
    with "2.prems"(2) r(7) have "(tm, c) \<in> set rest" by auto
    with "2.IH" r show ?thesis by fastforce
  qed
qed

definition coverage_hours :: "text_bytes \<Rightarrow> instant \<Rightarrow> nat" where
  "coverage_hours style revision = (if style = ''ultra_short'' then 6 else nat (short_hourly_slots revision))"

definition row_says :: "head_env \<Rightarrow> json list \<Rightarrow> instant \<Rightarrow> text_bytes \<Rightarrow> bool" where
  "row_says env rows tm c \<longleftrightarrow> (\<exists>r \<in> set rows. \<exists>d t v. jget r ''fcstDate'' = Some d \<and> jget r ''fcstTime'' = Some t
      \<and> jget r ''category'' = Some v \<and> he_kma_time env (py_str (Some d)) (py_str (Some t)) = Some tm \<and> c = py_str (Some v))"

lemma forecast_coverage_hours:
  assumes "forecast_coverage env style rows revision = None" "i < coverage_hours style revision"
    and "c \<in> set (required_categories style)"
  shows "row_says env rows (next_full_hour revision + int i * hours 1) c"
proof -
  obtain slots where slots: "forecast_slots env revision rows = Inr slots"
    using assms(1) by (auto simp: forecast_coverage_def split: sum.splits)
  let ?cs = "complete_slots style slots" and ?m = "coverage_hours style revision"
  have ok: "?cs \<noteq> []" "hd ?cs = next_full_hour revision" "?m \<le> length ?cs" "hourly_steps (take ?m ?cs)"
    using assms(1) slots by (auto simp: forecast_coverage_def Let_def coverage_hours_def split: if_splits)
  have "take ?m ?cs ! i = hd (take ?m ?cs) + int i * seconds 3600"
    using hourly_nth [OF ok(4)] assms(2) ok(3) by simp
  moreover have "hd (take ?m ?cs) = next_full_hour revision" using ok(1,2) assms(2) by (simp add: hd_take)
  ultimately have "?cs ! i = next_full_hour revision + int i * hours 1" using assms(2) by simp
  moreover have "?cs ! i \<in> set ?cs" using assms(2) ok(3) by simp
  ultimately have "(next_full_hour revision + int i * hours 1, c) \<in> set slots"
    using complete_slotsD assms(3) by metis
  from forecast_slots_rows [OF slots this] show ?thesis unfolding row_says_def by blast
qed

text \<open>A source whose rows name the categories of every hour, for an application of the theorem.\<close>

definition sample_env :: head_env where
  "sample_env = \<lparr>he_sha256 = (\<lambda>s. s), he_float = (\<lambda>q. JInt \<lfloor>q\<rfloor>), he_decimal = (\<lambda>s. None), he_iso = (\<lambda>s. None),
     he_kma_time = (\<lambda>d t. Some (int (length d) * hours 1)), he_receipt = (\<lambda>j. None), he_loads = (\<lambda>s. None),
     he_normalize = (\<lambda>d r ls. Inl Value_Error)\<rparr>"

definition sample_row :: "nat \<times> text_bytes \<Rightarrow> json" where
  "sample_row hc = JObj [(''fcstDate'', JStr (replicate (fst hc) (CHR ''0''))), (''fcstTime'', JStr []),
     (''category'', JStr (snd hc))]"

definition sample_hours :: "(nat \<times> text_bytes) list" where
  "sample_hours = List.product [1..<64] (required_categories ''short'')"

lemma sample_slots:
  "\<forall>hc \<in> set hcs. 0 < fst hc \<Longrightarrow>
    forecast_slots sample_env 0 (map sample_row hcs) = Inr (map (\<lambda>hc. (int (fst hc) * hours 1, snd hc)) hcs)"
  by (induction hcs) (auto simp: sample_row_def jget_def py_str_def sample_env_def)

lemma sample_coverage: "forecast_coverage sample_env ''short'' (map sample_row sample_hours) 0 = None"
proof -
  let ?slots = "map (\<lambda>hc. (int (fst hc) * hours 1, snd hc)) sample_hours"
  let ?hs = "map (\<lambda>h. int h * hours 1) [1..<64]"
  have slots: "forecast_slots sample_env 0 (map sample_row sample_hours) = Inr ?slots"
    by (rule sample_slots) (auto simp: sample_hours_def)
  have "set (complete_slots ''short'' ?slots) = set ?hs"
    by (auto simp: complete_slots_def list_all_iff sample_hours_def required_categories_def image_iff)
  moreover have "sorted ?hs" "distinct ?hs"
    by (auto simp: sorted_map distinct_map inj_on_def intro: sorted_wrt_mono_rel [OF _ sorted_wrt_upt])
  moreover have "sorted (complete_slots ''short'' ?slots)" "distinct (complete_slots ''short'' ?slots)"
    by (simp_all add: complete_slots_def)
  ultimately have "complete_slots ''short'' ?slots = ?hs"
    using sorted_distinct_set_unique by blast
  moreover have "hourly_steps ?hs" by (simp add: upt_rec)
  moreover have "short_hourly_slots 0 = 63" by (simp add: short_hourly_slots_eq kst_hour_def)
  ultimately show ?thesis by (simp add: forecast_coverage_def slots next_full_hour_def hd_map)
qed

text \<open>An accepted KMA short forecast has every required category at every full hour after its base
  up to 00 KST three days on (four days for a base from 17 KST), with no hour missing: the number
  of hours the code asks for is exactly the number up to that midnight.
\<close>

theorem short_forecast_covers_to_midnight:
  assumes "forecast_coverage env ''short'' rows revision = None"
    and "next_full_hour revision \<le> tm" "(tm - next_full_hour revision) mod hours 1 = 0"
    and "tm \<le> kst_midnight (kst_day revision + (if kst_hour revision \<ge> 17 then 4 else 3))"
    and "c \<in> set (required_categories ''short'')"
  shows "row_says env rows tm c"
proof -
  define i where "i = nat ((tm - next_full_hour revision) div hours 1)"
  have tm: "tm = next_full_hour revision + int i * hours 1"
  proof -
    define d where "d = tm - next_full_hour revision"
    have "0 \<le> d" "d mod hours 1 = 0" using assms(2,3) by (simp_all add: d_def)
    then have "d = int (nat (d div hours 1)) * hours 1"
      using mult_div_mod_eq [of "hours 1" d] by simp
    then show ?thesis by (simp add: i_def flip: d_def) (simp add: d_def)
  qed
  have "int i * 3600000000 \<le> (24 * (if kst_hour revision \<ge> 17 then 4 else 3) - kst_hour revision - 1) * 3600000000"
    using assms(4) unfolding tm next_full_hour_kst kst_midnight_def by (simp add: algebra_simps split: if_splits)
  then have "int i < short_hourly_slots revision"
    unfolding short_hourly_slots_eq by (simp split: if_splits)
  then have "i < coverage_hours ''short'' revision" by (simp add: coverage_hours_def)
  from forecast_coverage_hours [OF assms(1) this assms(5)] show ?thesis by (simp add: tm)
qed

lemma short_forecast_covers_to_midnight_witness:
  "row_says sample_env (map sample_row sample_hours) (hours 63) ''POP''"
  by (rule short_forecast_covers_to_midnight [OF sample_coverage])
    (simp_all add: next_full_hour_def kst_midnight_def kst_day_def kst_hour_def required_categories_def)

end
