(* ===== verification/Export_Inventory.thy ===== *)
theory Export_Inventory
  imports Export_Model
begin

section \<open>The inventory of approved locations (export_inventory.py, export_mid_anchor.py)\<close>

text \<open>
  One row per provider, dataset, location and source part: the last approved generation of the
  location.  The promotion updates only the locations its descriptor selects; a row is replaced
  only by a publication that is strictly later.
\<close>

definition MAX_INVENTORY_ROWS :: nat where "MAX_INVENTORY_ROWS = 20000"

text \<open>\<open>coalesce(metadata['mid_<part>_region_code'], metadata['mid_region_code'])\<close>.\<close>

definition mid_region_expression :: "location_row \<Rightarrow> text_bytes \<Rightarrow> text_bytes option" where
  "mid_region_expression l part =
     (case map_of (lo_metadata l) (''mid_'' @ part @ ''_region_code'') of
        Some r \<Rightarrow> Some r
      | None \<Rightarrow> map_of (lo_metadata l) ''mid_region_code'')"

text \<open>\<open>left(s, n)\<close>: the first n characters, a character being a byte and its continuation bytes.\<close>

fun sql_left :: "nat \<Rightarrow> text_bytes \<Rightarrow> text_bytes" where
  "sql_left n [] = []"
| "sql_left n (c # s) =
     (if 128 \<le> (of_char c :: nat) \<and> (of_char c :: nat) < 192 then c # sql_left n s
      else case n of 0 \<Rightarrow> [] | Suc m \<Rightarrow> c # sql_left m s)"

definition mid_anchor_column :: "location_row \<Rightarrow> text_bytes \<Rightarrow> text_bytes option" where
  "mid_anchor_column l part = map_option (sql_left 33) (mid_region_expression l part)"

definition location_valid :: "descriptor \<Rightarrow> location_row \<Rightarrow> bool" where
  "location_valid d l \<longleftrightarrow>
     coordinates_ok (lo_latitude l) (lo_longitude l) \<and>
     (case d of
        Grid_Scope g \<Rightarrow> lo_nx l = Some (gs_nx g) \<and> lo_ny l = Some (gs_ny g)
      | Mid_Scope m \<Rightarrow> mid_anchor_column l (ms_part m) = Some (ms_region m)
      | Retrieval_Scope r \<Rightarrow> lo_latitude l = rs_latitude r \<and> lo_longitude l = rs_longitude r
      | Sdk_Scope s \<Rightarrow> lo_latitude l = sd_latitude s \<and> lo_longitude l = sd_longitude s)"

definition approved_row ::
  "(text_bytes \<Rightarrow> text_bytes) \<Rightarrow> (rat \<Rightarrow> json) \<Rightarrow> descriptor \<Rightarrow> generation_row \<Rightarrow> location_row \<Rightarrow> inventory_row" where
  "approved_row sha256 float_json d g l =
     \<lparr>i_provider = d_provider d, i_dataset = d_dataset d, i_location = lo_id l, i_part = d_source_part d,
      i_namespace = descriptor_namespace sha256 float_json d, i_generation = g_id g,
      i_scope = d_source_scope sha256 d, i_latitude = lo_latitude l, i_longitude = lo_longitude l,
      i_nx = lo_nx l, i_ny = lo_ny l, i_collected = g_collected g, i_published = g_created g\<rparr>"

definition merge_approved :: "inventory_row \<Rightarrow> inventory_row \<Rightarrow> inventory_row" where
  "merge_approved old new = (if i_published old < i_published new then new else old)"

definition selected_locations :: "descriptor \<Rightarrow> location_row list \<Rightarrow> location_row list" where
  "selected_locations d ls = filter (\<lambda>l. lo_id l \<in> set (d_locations d) \<and> lo_enabled l) ls"

definition record_approved_locations ::
  "(text_bytes \<Rightarrow> text_bytes) \<Rightarrow> (rat \<Rightarrow> json) \<Rightarrow> descriptor \<Rightarrow> text_bytes \<Rightarrow> (export_db, unit) transaction" where
  "record_approved_locations sha256 float_json d generation_id db =
     (case row_of g_id generation_id (generations db) of
        None \<Rightarrow> Inl Key_Missing
      | Some g \<Rightarrow>
          if g_namespace g \<noteq> descriptor_namespace sha256 float_json d
          then Inl (Head_Error Inventory_Namespace)
          else Inr ((), db\<lparr>inventory := upsert_all i_pk merge_approved
            (map (approved_row sha256 float_json d g)
               (filter (location_valid d) (selected_locations d (locations db)))) (inventory db)\<rparr>))"

definition read_approved_locations ::
  "text_bytes list \<Rightarrow> text_bytes list \<Rightarrow> export_db \<Rightarrow> export_error + inventory_row list" where
  "read_approved_locations providers datasets db =
     (let rows = take (MAX_INVENTORY_ROWS + 1) (sort_key (\<lambda>r. (i_provider r, i_dataset r, i_location r))
        (filter (\<lambda>r. i_provider r \<in> set providers \<and> i_dataset r \<in> set datasets) (inventory db)))
      in if length rows > MAX_INVENTORY_ROWS then Inl (Head_Error Inventory_Limit) else Inr rows)"

subsection \<open>Replaying the heads of an earlier version\<close>

record inventory_bootstrap =
  ib_visited :: nat
  ib_next :: "text_bytes option"
  ib_exhausted :: bool

definition bootstrap_one ::
  "(text_bytes \<Rightarrow> text_bytes) \<Rightarrow> (rat \<Rightarrow> json) \<Rightarrow> text_bytes \<Rightarrow> (export_db, unit) transaction" where
  "bootstrap_one sha256 float_json namespace db =
     (case row_of h_namespace namespace (heads db) of
        None \<Rightarrow> Inr ((), db)
      | Some h \<Rightarrow>
          (case row_of g_id (h_generation h) (generations db) of
             None \<Rightarrow> Inr ((), db)
           | Some g \<Rightarrow>
               (case row_of p_attempt (g_attempt g) (plans db) of
                  None \<Rightarrow> Inr ((), db)
                | Some p \<Rightarrow> record_approved_locations sha256 float_json (p_descriptor p) (h_generation h) db)))"

text \<open>Each head is one transaction: the ones before a failing head stay committed.\<close>

fun bootstrap_all ::
  "(text_bytes \<Rightarrow> text_bytes) \<Rightarrow> (rat \<Rightarrow> json) \<Rightarrow> text_bytes list \<Rightarrow> export_db \<Rightarrow> export_error option \<times> export_db" where
  "bootstrap_all sha256 float_json [] db = (None, db)"
| "bootstrap_all sha256 float_json (n # ns) db =
     (case bootstrap_one sha256 float_json n db of
        Inl e \<Rightarrow> (Some e, db)
      | Inr (_, db') \<Rightarrow> bootstrap_all sha256 float_json ns db')"

definition head_page :: "text_bytes option \<Rightarrow> nat \<Rightarrow> export_db \<Rightarrow> text_bytes list" where
  "head_page after n db =
     take n (sort (filter (\<lambda>s. case after of None \<Rightarrow> True | Some a \<Rightarrow> s > a) (map h_namespace (heads db))))"

definition bootstrap_approved_locations ::
  "(text_bytes \<Rightarrow> text_bytes) \<Rightarrow> (rat \<Rightarrow> json) \<Rightarrow> text_bytes option \<Rightarrow> int \<Rightarrow> export_db \<Rightarrow>
   (export_error + inventory_bootstrap) \<times> export_db" where
  "bootstrap_approved_locations sha256 float_json after limit db =
     (if \<not> (1 \<le> limit \<and> limit \<le> 16) then (Inl Value_Error, db)
      else if (case after of None \<Rightarrow> False | Some a \<Rightarrow> str_len a \<noteq> 64 \<or> \<not> list_all is_hex_digit a)
      then (Inl Value_Error, db)
      else
        let page = head_page after (nat limit + 1) db; visited = min (nat limit) (length page)
        in case bootstrap_all sha256 float_json (take (nat limit) page) db of
             (Some e, db') \<Rightarrow> (Inl e, db')
           | (None, db') \<Rightarrow> (Inr \<lparr>ib_visited = visited,
               ib_next = (if page = [] then after else Some (page ! (visited - 1))),
               ib_exhausted = (length page \<le> nat limit)\<rparr>, db'))"

subsection \<open>Rows only move forward\<close>

lemma approved_row_pk: "i_pk (approved_row sha fj d g l) = (d_provider d, d_dataset d, lo_id l, d_source_part d)"
  by (simp add: i_pk_def approved_row_def)

lemma merge_approved_pk: "i_pk old = i_pk new \<Longrightarrow> i_pk (merge_approved old new) = i_pk new"
  by (simp add: merge_approved_def)

definition inventory_le :: "inventory_row list \<Rightarrow> inventory_row list \<Rightarrow> bool" where
  "inventory_le t u \<longleftrightarrow> (\<forall>k x. row_of i_pk k t = Some x \<longrightarrow>
     (\<exists>y. row_of i_pk k u = Some y \<and> i_published x \<le> i_published y \<and> (i_published x = i_published y \<longrightarrow> y = x)))"

lemma inventory_le_refl [simp]: "inventory_le t t"
  by (simp add: inventory_le_def)

lemma inventory_le_trans:
  assumes "inventory_le a b" "inventory_le b c"
  shows "inventory_le a c"
  unfolding inventory_le_def
proof (intro allI impI)
  fix k x assume "row_of i_pk k a = Some x"
  with assms(1) obtain y where y: "row_of i_pk k b = Some y" "i_published x \<le> i_published y"
    "i_published x = i_published y \<longrightarrow> y = x" unfolding inventory_le_def by blast
  with assms(2) obtain z where z: "row_of i_pk k c = Some z" "i_published y \<le> i_published z"
    "i_published y = i_published z \<longrightarrow> z = y" unfolding inventory_le_def by blast
  have "i_published x = i_published z \<longrightarrow> z = x" using y(2,3) z(2,3) by auto
  with y(2) z(1,2) show "\<exists>y. row_of i_pk k c = Some y \<and> i_published x \<le> i_published y
      \<and> (i_published x = i_published y \<longrightarrow> y = x)" by auto
qed

lemma row_of_approved:
  "row_of i_pk k (upsert i_pk merge_approved r t) =
    (if k = i_pk r then Some (case row_of i_pk k t of None \<Rightarrow> r | Some old \<Rightarrow> merge_approved old r) else row_of i_pk k t)"
  by (rule row_of_upsert) (rule merge_approved_pk)

lemma inventory_le_upsert_all: "inventory_le t (upsert_all i_pk merge_approved rs t)"
proof (induction rs arbitrary: t)
  case Nil
  then show ?case by (simp add: upsert_all_def)
next
  case (Cons r rs)
  have "inventory_le t (upsert i_pk merge_approved r t)"
    by (auto simp: inventory_le_def row_of_approved merge_approved_def)
  with Cons [of "upsert i_pk merge_approved r t"] show ?case
    by (auto simp: upsert_all_def intro: inventory_le_trans)
qed

lemma record_approved_locations_Inr:
  assumes "record_approved_locations sha fj d gid db = Inr (u, db')"
  shows "\<exists>g rows. row_of g_id gid (generations db) = Some g \<and> g_namespace g = descriptor_namespace sha fj d
    \<and> db' = db\<lparr>inventory := upsert_all i_pk merge_approved rows (inventory db)\<rparr>
    \<and> rows = map (approved_row sha fj d g) (filter (location_valid d) (selected_locations d (locations db)))"
  using assms by (auto simp: record_approved_locations_def split: option.splits if_splits)

definition inventory_moves :: "export_db \<Rightarrow> export_db \<Rightarrow> bool" where
  "inventory_moves db db' \<longleftrightarrow> (\<exists>t. db' = db\<lparr>inventory := t\<rparr> \<and> inventory_le (inventory db) t)"

lemma inventory_moves_refl: "inventory_moves db db"
  unfolding inventory_moves_def by (rule exI [of _ "inventory db"]) simp

lemma inventory_moves_trans: "inventory_moves a b \<Longrightarrow> inventory_moves b c \<Longrightarrow> inventory_moves a c"
proof -
  assume "inventory_moves a b" "inventory_moves b c"
  then obtain t u where "b = a\<lparr>inventory := t\<rparr>" "inventory_le (inventory a) t" "c = b\<lparr>inventory := u\<rparr>"
    "inventory_le (inventory b) u" unfolding inventory_moves_def by blast
  then have "c = a\<lparr>inventory := u\<rparr> \<and> inventory_le (inventory a) u" by (auto intro: inventory_le_trans)
  then show "inventory_moves a c" unfolding inventory_moves_def by blast
qed

lemma inventory_moves_record:
  assumes "record_approved_locations sha fj d gid db = Inr (u, db')"
  shows "inventory_moves db db'"
proof -
  obtain rows where "db' = db\<lparr>inventory := upsert_all i_pk merge_approved rows (inventory db)\<rparr>"
    using record_approved_locations_Inr [OF assms] by blast
  then show ?thesis unfolding inventory_moves_def using inventory_le_upsert_all by blast
qed

lemma inventory_moves_one: "bootstrap_one sha fj n db = Inr (u, db') \<Longrightarrow> inventory_moves db db'"
  by (auto simp: bootstrap_one_def inventory_moves_refl inventory_moves_record split: option.splits)

lemma inventory_moves_all: "inventory_moves db (snd (bootstrap_all sha fj ns db))"
proof (induction ns arbitrary: db)
  case Nil
  show ?case by (simp add: inventory_moves_refl)
next
  case (Cons n ns)
  show ?case
  proof (cases "bootstrap_one sha fj n db")
    case (Inl e)
    then show ?thesis by (simp add: inventory_moves_refl)
  next
    case (Inr r)
    then obtain db1 where "bootstrap_one sha fj n db = Inr ((), db1)" by (cases r) auto
    with inventory_moves_one [OF this] Cons.IH [of db1] show ?thesis
      by (auto intro: inventory_moves_trans)
  qed
qed

end
