(* ===== verification/Lifecycle_Invariant.thy ===== *)
theory Lifecycle_Invariant
  imports Export_Lifecycle "HOL-Library.Multiset"
begin

section \<open>What the lifecycle transactions preserve\<close>

text \<open>
  The effect of every transaction of export_receipts.py and export_lifecycle.py on the tables, the
  invariant they keep (keys, foreign keys, owner epochs, the announced and recorded chunks of each
  attempt, the closed and the sealed plan) and the step relation of their interleavings.
\<close>

subsection \<open>Guards\<close>

lemma locked_Inr:
  assumes "locked db identity = Inr (run, attempt)"
  shows "attempt_at (at_id identity) db = Some attempt" "a_id attempt = at_id identity"
    "a_owner attempt = at_owner identity" "run_at (a_run attempt) db = Some run"
    "a_orchestrator attempt = sr_owner run"
  using assms row_of_SomeD [of a_id "at_id identity" "attempts db" attempt]
  by (auto simp: locked_def split: option.splits if_splits)

lemma locked_owner_Inr:
  assumes "locked_owner db identity selected = Inr (run, attempt)"
  shows "locked db identity = Inr (run, attempt)" "current_owners db attempt selected = None"
  using assms by (auto simp: locked_owner_def split: sum.splits option.splits)

subsection \<open>Effects\<close>

definition claimed_owner :: "attempt_row \<Rightarrow> owner_row list \<Rightarrow> text_bytes \<Rightarrow> owner_row" where
  "claimed_owner attempt os s =
     \<lparr>o_scope = s, o_epoch = (case row_of o_scope s os of None \<Rightarrow> 1 | Some o' \<Rightarrow> o_epoch o' + 1),
      o_attempt = a_id attempt\<rparr>"

lemma bump_key [simp]: "o_scope (bump_owner old new) = o_scope old"
  by (simp add: bump_owner_def)

lemma claim_keys: "map o_scope (claim_rows attempt) = sort (a_planned attempt)"
  by (simp add: claim_rows_def comp_def)

lemma row_of_claimed:
  assumes "distinct (a_planned attempt)"
  shows "row_of o_scope s (upsert_all o_scope bump_owner (claim_rows attempt) os) =
    (if s \<in> set (a_planned attempt) then Some (claimed_owner attempt os s) else row_of o_scope s os)"
proof -
  have bump: "o_scope old = o_scope r \<Longrightarrow> o_scope (bump_owner old r) = o_scope r" for old r by simp
  show ?thesis
  proof (cases "s \<in> set (a_planned attempt)")
    case True
    let ?r = "\<lparr>o_scope = s, o_epoch = 1, o_attempt = a_id attempt\<rparr>"
    have "?r \<in> set (claim_rows attempt)" using True by (simp add: claim_rows_def)
    moreover have "distinct (map o_scope (claim_rows attempt))" using assms by (simp add: claim_keys)
    ultimately have "row_of o_scope (o_scope ?r) (fold (upsert o_scope bump_owner) (claim_rows attempt) os)
        = Some (case row_of o_scope (o_scope ?r) os of None \<Rightarrow> ?r | Some old \<Rightarrow> bump_owner old ?r)"
      using row_table.get_fold_put_in [where c = bump_owner] bump by blast
    then show ?thesis
      using True by (auto simp: upsert_all_def claimed_owner_def bump_owner_def split: option.splits
          dest: row_of_SomeD)
  next
    case False
    then have "s \<notin> o_scope ` set (claim_rows attempt)"
      by (metis claim_keys image_set set_sort)
    then show ?thesis
      using row_table.get_fold_put_notin [where c = bump_owner] bump False
      by (metis upsert_all_def)
  qed
qed

lemma claim_Inr:
  assumes "claim identity db = Inr (u, db')"
  shows "(\<exists>run attempt. locked db identity = Inr (run, attempt) \<and> db' = db \<and> a_epochs attempt \<noteq> None)
    \<or> (\<exists>run attempt. locked db identity = Inr (run, attempt) \<and> a_epochs attempt = None
        \<and> is_running run \<and> a_status attempt = Preparing \<and> (\<forall>c \<in> set (chunks db). ch_attempt c \<noteq> at_id identity)
        \<and> (let owners' = upsert_all o_scope bump_owner (claim_rows attempt) (owners db)
           in db' = update_attempt (at_id identity)
                (\<lambda>a. a\<lparr>a_epochs := Some (map (\<lambda>k. (k, epoch_of owners' k)) (sort (a_planned attempt)))\<rparr>)
                (db\<lparr>owners := owners'\<rparr>)))"
  using assms
  by (auto simp: claim_def Let_def list_ex_iff split: sum.splits option.splits if_splits)

lemma expect_chunk_Inr:
  fixes sha256 records
  defines "scopes \<equiv> sorted_set (map (record_scope sha256) records)"
  assumes "expect_chunk sha256 identity chunk_key records values db = Inr (u, db')"
  shows "\<exists>run attempt digest. normalization_input_digest sha256 values = Inr digest
    \<and> locked_owner db identity (Some scopes) = Inr (run, attempt)
    \<and> a_status attempt = Preparing \<and> a_closed_at attempt = None \<and> scopes \<noteq> []
    \<and> set scopes \<subseteq> set (a_planned attempt) \<and> length scopes \<le> MAX_CHUNK_SOURCES
    \<and> (case row_of e_pk (at_id identity, chunk_key) (expected db) of
         Some existing \<Rightarrow> existing = planned_chunk identity chunk_key scopes (length values) digest \<and> db' = db
       | None \<Rightarrow>
           length (filter (\<lambda>e. e_attempt e = at_id identity) (expected db)) < MAX_EXPECTED_CHUNKS
           \<and> a_references attempt + int (length scopes) \<le> MAX_PLAN_REFERENCES
           \<and> (\<forall>c \<in> set (closures db). cl_attempt c = at_id identity \<longrightarrow> cl_scope c \<notin> set scopes)
           \<and> db' = update_attempt (at_id identity)
               (\<lambda>a. a\<lparr>a_references := a_references attempt + int (length scopes)\<rparr>)
               (db\<lparr>expected := expected db @ [planned_chunk identity chunk_key scopes (length values) digest]\<rparr>))"
proof -
  from assms(2) have ne: "records \<noteq> []" by (auto simp: expect_chunk_def)
  then have "scopes \<noteq> []" by (simp add: scopes_def)
  obtain digest where dg: "normalization_input_digest sha256 values = Inr digest"
    using assms(2) by (auto simp: expect_chunk_def Let_def split: if_splits sum.splits)
  obtain run attempt where la: "locked_owner db identity (Some scopes) = Inr (run, attempt)"
    using assms(2) dg by (auto simp: expect_chunk_def Let_def scopes_def [symmetric] split: if_splits sum.splits)
  show ?thesis
    using assms(2) dg la \<open>scopes \<noteq> []\<close>
    by (intro exI [of _ run] exI [of _ attempt] exI [of _ digest])
      (auto simp: expect_chunk_def Let_def scopes_def [symmetric] list_ex_iff list_all_iff
        split: if_splits option.splits)
qed

lemma close_source_Inr:
  assumes "close_source identity scope chunk_keys db = Inr (u, db')"
  shows "\<exists>run attempt. locked_owner db identity (Some [scope]) = Inr (run, attempt)
    \<and> a_status attempt = Preparing \<and> a_closed_at attempt = None \<and> scope \<in> set (a_planned attempt)
    \<and> (db' = db \<or> (row_of cl_pk (at_id identity, scope) (closures db) = None
        \<and> db' = db\<lparr>closures := closures db @
            [\<lparr>cl_attempt = at_id identity, cl_scope = scope, cl_keys = sorted_set chunk_keys\<rparr>]\<rparr>))"
  using assms
  by (auto simp: close_source_def Let_def split: if_splits sum.splits option.splits)

definition plan_rows_ok :: "attempt_row \<Rightarrow> expected_row list \<Rightarrow> chunk_row list \<Rightarrow> bool" where
  "plan_rows_ok attempt rows received \<longleftrightarrow>
     (\<forall>e \<in> set rows. set (e_scopes e) \<subseteq> set (a_planned attempt))
     \<and> (\<forall>c \<in> set received. \<forall>d. ch_counts c = Some d \<longrightarrow> set (dict_keys d) \<subseteq> set (a_planned attempt))"

lemma close_plan_Inr:
  assumes "close_plan sha256 float_json identity now db = Inr (seal, db')"
  defines "i \<equiv> at_id identity"
  shows "\<exists>run attempt. locked_owner db identity None = Inr (run, attempt)
    \<and> (if a_closed_at attempt \<noteq> None then db' = db \<and> seal = a_seal attempt
       else a_status attempt = Preparing
         \<and> plan_rows_ok attempt (attempt_expected i db) (attempt_chunks i db)
         \<and> barrier_met attempt (attempt_expected i db) (attempt_chunks i db) (attempt_closures i db)
         \<and> (\<exists>head. seal_head_plan float_json db i = Inr head
             \<and> seal = Some (seal_digest sha256 head attempt (attempt_expected i db) (attempt_chunks i db))
             \<and> db' = update_attempt i (\<lambda>a. a\<lparr>a_closed_at := Some now, a_seal := seal\<rparr>) db))"
proof -
  obtain run attempt where la: "locked_owner db identity None = Inr (run, attempt)"
    using assms(1) by (auto simp: close_plan_def split: sum.splits)
  show ?thesis
    using assms(1) la
    by (intro exI [of _ run] exI [of _ attempt])
      (auto simp: close_plan_def Let_def i_def plan_rows_ok_def list_ex_iff
        split: if_splits sum.splits option.splits)
qed

lemma reconcile_finish_Inr:
  assumes "reconcile_finish identity t receipts now db = Inr (verdict, db')"
  defines "i \<equiv> at_id identity"
    and "db1 \<equiv> db\<lparr>validated := fold (insert_ignore v_pk) (validation_rows identity receipts now) (validated db)\<rparr>"
  shows "\<exists>run attempt. locked_owner db identity None = Inr (run, attempt)
    \<and> ((verdict = Rejected \<and> db' = db)
      \<or> (sr_status run = ''success'' \<and> a_status attempt \<noteq> Failed \<and> a_seal attempt = rt_token t
         \<and> ((verdict = Not_Ready \<and> db' = db1)
           \<or> (verdict = Eligible \<and> unvalidated i db1 = [] \<and> (\<exists>token ev. rt_token t = Some token
               \<and> ev = \<lparr>ev_attempt = i, ev_run = sr_id run, ev_mode = rt_mode t,
                    ev_orchestrator = rt_orchestrator t, ev_seal = token, ev_checked = now\<rparr>
               \<and> db' = db1\<lparr>evidence := insert_ignore ev_attempt ev (evidence db),
                    attempts := update_where (\<lambda>a. a_id a = i \<and> a_status a = Preparing)
                      (\<lambda>a. a\<lparr>a_status := Sealed, a_sealed_at := Some now\<rparr>) (attempts db)\<rparr>)))))"
proof -
  obtain run attempt where la: "locked_owner db identity None = Inr (run, attempt)"
    using assms(1) by (auto simp: reconcile_finish_def split: sum.splits)
  show ?thesis
    using assms(1) la
    by (intro exI [of _ run] exI [of _ attempt])
      (auto simp: reconcile_finish_def Let_def i_def db1_def split: if_splits option.splits)
qed

subsection \<open>The invariant\<close>

definition attempt_ids :: "export_db \<Rightarrow> text_bytes set" where
  "attempt_ids db = a_id ` set (attempts db)"

definition tables_ok :: "export_db \<Rightarrow> bool" where
  "tables_ok db \<longleftrightarrow>
     keyed a_id (attempts db) \<and> keyed o_scope (owners db) \<and> keyed ch_pk (chunks db)
     \<and> keyed e_pk (expected db) \<and> keyed cl_pk (closures db) \<and> keyed v_pk (validated db)
     \<and> keyed ev_attempt (evidence db)
     \<and> ch_attempt ` set (chunks db) \<subseteq> attempt_ids db \<and> e_attempt ` set (expected db) \<subseteq> attempt_ids db
     \<and> cl_attempt ` set (closures db) \<subseteq> attempt_ids db \<and> v_attempt ` set (validated db) \<subseteq> attempt_ids db
     \<and> ev_attempt ` set (evidence db) \<subseteq> attempt_ids db
     \<and> (\<forall>o' \<in> set (owners db). 0 < o_epoch o')"

text \<open>An attempt that claimed holds epochs for exactly its planned scopes; none is above the owner's.\<close>

definition epochs_ok :: "owner_row list \<Rightarrow> attempt_row \<Rightarrow> bool" where
  "epochs_ok os a \<longleftrightarrow>
     (case a_epochs a of None \<Rightarrow> True
      | Some es \<Rightarrow> map fst es = a_planned a \<and>
          (\<forall>(s, n) \<in> set es. \<exists>o'. row_of o_scope s os = Some o' \<and> n \<le> o_epoch o'
            \<and> (n = o_epoch o' \<longrightarrow> o_attempt o' = a_id a)))"

definition scopes_total :: "expected_row list \<Rightarrow> int" where
  "scopes_total es = sum_list (map (\<lambda>e. int (length (e_scopes e))) es)"

definition plan_ok :: "expected_row list \<Rightarrow> chunk_row list \<Rightarrow> closure_row list \<Rightarrow> attempt_row \<Rightarrow> bool" where
  "plan_ok es cs shut a \<longleftrightarrow>
     a_references a = scopes_total es \<and> a_references a \<le> MAX_PLAN_REFERENCES
     \<and> length es \<le> MAX_EXPECTED_CHUNKS
     \<and> (\<forall>e \<in> set es. e_scopes e \<noteq> [] \<and> length (e_scopes e) \<le> MAX_CHUNK_SOURCES
          \<and> set (e_scopes e) \<subseteq> set (a_planned a))
     \<and> (a_closed_at a = None \<longleftrightarrow> a_seal a = None)
     \<and> (a_closed_at a \<noteq> None \<longrightarrow> plan_rows_ok a es cs \<and> barrier_met a es cs shut)"

definition seal_ok :: "chunk_row list \<Rightarrow> evidence_row list \<Rightarrow> attempt_row \<Rightarrow> bool" where
  "seal_ok open_chunks evs a \<longleftrightarrow>
     (\<forall>ev \<in> set evs. a_seal a = Some (ev_seal ev))
     \<and> (a_status a = Sealed \<longrightarrow> a_closed_at a \<noteq> None \<and> open_chunks = [] \<and> evs \<noteq> [])"

definition attempt_evidence :: "text_bytes \<Rightarrow> export_db \<Rightarrow> evidence_row list" where
  "attempt_evidence i db = filter (\<lambda>ev. ev_attempt ev = i) (evidence db)"

definition attempt_ok :: "export_db \<Rightarrow> attempt_row \<Rightarrow> bool" where
  "attempt_ok db a \<longleftrightarrow>
     a_planned a \<noteq> [] \<and> sorted (a_planned a) \<and> distinct (a_planned a)
     \<and> epochs_ok (owners db) a
     \<and> plan_ok (attempt_expected (a_id a) db) (attempt_chunks (a_id a) db) (attempt_closures (a_id a) db) a
     \<and> seal_ok (unvalidated (a_id a) db) (attempt_evidence (a_id a) db) a"

definition epochs_unique :: "attempt_row list \<Rightarrow> bool" where
  "epochs_unique as \<longleftrightarrow> (\<forall>a \<in> set as. \<forall>b \<in> set as. \<forall>es fs. a_epochs a = Some es \<longrightarrow> a_epochs b = Some fs \<longrightarrow>
     set es \<inter> set fs \<noteq> {} \<longrightarrow> a_id a = a_id b)"

definition lifecycle_inv :: "export_db \<Rightarrow> bool" where
  "lifecycle_inv db \<longleftrightarrow> tables_ok db \<and> epochs_unique (attempts db) \<and> (\<forall>a \<in> set (attempts db). attempt_ok db a)"

lemma lifecycle_invD:
  assumes "lifecycle_inv db"
  shows "tables_ok db" "a \<in> set (attempts db) \<Longrightarrow> attempt_ok db a" "epochs_unique (attempts db)"
  using assms by (simp_all add: lifecycle_inv_def)

text \<open>What an attempt's part of the invariant looks at.\<close>

definition same_view :: "text_bytes \<Rightarrow> export_db \<Rightarrow> export_db \<Rightarrow> bool" where
  "same_view i db db' \<longleftrightarrow>
     attempt_expected i db' = attempt_expected i db \<and> attempt_chunks i db' = attempt_chunks i db
     \<and> attempt_closures i db' = attempt_closures i db \<and> unvalidated i db' = unvalidated i db
     \<and> attempt_evidence i db' = attempt_evidence i db"

lemma same_view_refl [simp]: "same_view i db db"
  by (simp add: same_view_def)

lemma same_view_update_attempt [simp]: "same_view i db (update_attempt j f db')  \<longleftrightarrow> same_view i db db'"
  by (simp add: same_view_def attempt_expected_def attempt_chunks_def attempt_closures_def unvalidated_def
      attempt_evidence_def)

lemma attempt_ok_view:
  assumes "attempt_ok db a" "same_view (a_id a) db db'" "epochs_ok (owners db') a"
  shows "attempt_ok db' a"
  using assms by (simp add: attempt_ok_def same_view_def)

lemma same_view_append_chunk: "ch_attempt c \<noteq> i \<Longrightarrow> same_view i db (db\<lparr>chunks := chunks db @ [c]\<rparr>)"
  by (simp add: same_view_def attempt_expected_def attempt_chunks_def attempt_closures_def unvalidated_def
      attempt_evidence_def)

lemma same_view_append_expected: "e_attempt e \<noteq> i \<Longrightarrow> same_view i db (db\<lparr>expected := expected db @ [e]\<rparr>)"
  by (simp add: same_view_def attempt_expected_def attempt_chunks_def attempt_closures_def unvalidated_def
      attempt_evidence_def)

lemma same_view_append_closure: "cl_attempt c \<noteq> i \<Longrightarrow> same_view i db (db\<lparr>closures := closures db @ [c]\<rparr>)"
  by (simp add: same_view_def attempt_expected_def attempt_chunks_def attempt_closures_def unvalidated_def
      attempt_evidence_def)

lemma same_view_owners [simp]: "same_view i db (db\<lparr>owners := os\<rparr>)"
  by (simp add: same_view_def attempt_expected_def attempt_chunks_def attempt_closures_def unvalidated_def
      attempt_evidence_def)

lemma same_view_attempts [simp]: "same_view i db (db'\<lparr>attempts := as\<rparr>) \<longleftrightarrow> same_view i db db'"
  by (simp add: same_view_def attempt_expected_def attempt_chunks_def attempt_closures_def unvalidated_def
      attempt_evidence_def)

lemma row_of_validations:
  "i \<noteq> at_id identity \<Longrightarrow>
    row_of v_pk (i, k) (fold (insert_ignore v_pk) (validation_rows identity cs now) vs) = row_of v_pk (i, k) vs"
  by (induction cs arbitrary: vs) (auto simp: validation_rows_def row_of_insert_ignore v_pk_def)

lemma same_view_validated:
  assumes "i \<noteq> at_id identity"
  shows "same_view i db (db\<lparr>validated := fold (insert_ignore v_pk) (validation_rows identity cs now) (validated db)\<rparr>)"
proof -
  have "filter (\<lambda>c. row_of v_pk (ch_pk c) (fold (insert_ignore v_pk) (validation_rows identity cs now) (validated db)) = None)
      (attempt_chunks i db) = filter (\<lambda>c. row_of v_pk (ch_pk c) (validated db) = None) (attempt_chunks i db)"
    by (rule filter_cong) (auto simp: attempt_chunks_def ch_pk_def row_of_validations assms)
  then show ?thesis
    by (simp add: same_view_def attempt_expected_def attempt_chunks_def attempt_closures_def unvalidated_def
        attempt_evidence_def)
qed

lemma same_view_evidence:
  assumes "ev_attempt ev \<noteq> i"
  shows "same_view i db (db\<lparr>evidence := insert_ignore ev_attempt ev (evidence db)\<rparr>)"
  using assms
  by (simp add: same_view_def attempt_expected_def attempt_chunks_def attempt_closures_def unvalidated_def
      attempt_evidence_def insert_ignore_def)

lemma same_view_trans: "same_view i a b \<Longrightarrow> same_view i b c \<Longrightarrow> same_view i a c"
  by (simp add: same_view_def)

lemma epochs_ok_cong:
  "a_epochs b = a_epochs a \<Longrightarrow> a_planned b = a_planned a \<Longrightarrow> a_id b = a_id a \<Longrightarrow> epochs_ok os b = epochs_ok os a"
  by (simp add: epochs_ok_def split: option.split)

lemma plan_ok_cong:
  "a_references b = a_references a \<Longrightarrow> a_planned b = a_planned a \<Longrightarrow> a_closed_at b = a_closed_at a \<Longrightarrow>
    a_seal b = a_seal a \<Longrightarrow> plan_ok es cs shut b = plan_ok es cs shut a"
  by (simp add: plan_ok_def plan_rows_ok_def barrier_met_def)

subsection \<open>Preservation\<close>

lemma attempt_row_in: "lifecycle_inv db \<Longrightarrow> attempt_at i db = Some a \<Longrightarrow> a \<in> set (attempts db) \<and> a_id a = i"
  by (auto dest: row_of_SomeD)

lemma attempt_row_unique:
  "lifecycle_inv db \<Longrightarrow> attempt_at i db = Some a \<Longrightarrow> b \<in> set (attempts db) \<Longrightarrow> a_id b = i \<Longrightarrow> b = a"
  using row_of_in [of a_id "attempts db" b] by (simp add: lifecycle_inv_def tables_ok_def)

lemma inv_update_one:
  assumes inv: "lifecycle_inv db" and at: "attempt_at i db = Some a"
    and rows: "attempts db' = update_where (\<lambda>x. a_id x = i \<and> p x) f (attempts db)" and p: "p a"
    and tables: "tables_ok db'"
    and uniq: "epochs_unique (attempts db')"
    and others: "\<And>b. b \<in> set (attempts db) \<Longrightarrow> a_id b \<noteq> i \<Longrightarrow> attempt_ok db' b"
    and self: "attempt_ok db' (f a)"
  shows "lifecycle_inv db'"
  unfolding lifecycle_inv_def
proof (intro conjI ballI tables uniq)
  fix x assume "x \<in> set (attempts db')"
  then obtain b where b: "b \<in> set (attempts db)" "x = (if a_id b = i \<and> p b then f b else b)"
    unfolding rows set_update_where by blast
  show "attempt_ok db' x"
  proof (cases "a_id b = i")
    case True
    then have "b = a" using attempt_row_unique [OF inv at b(1)] by simp
    with b self p True show ?thesis by simp
  next
    case False
    with b others show ?thesis by simp
  qed
qed

lemma epochs_unique_update:
  assumes "epochs_unique as" "\<And>x. a_epochs (f x) = a_epochs x" "\<And>x. a_id (f x) = a_id x"
  shows "epochs_unique (update_where p f as)"
proof -
  have ep: "a_epochs (if p x then f x else x) = a_epochs x" "a_id (if p x then f x else x) = a_id x" for x
    using assms(2,3) by simp_all
  show ?thesis
    using assms(1) unfolding epochs_unique_def set_update_where ball_simps(9)
    by (simp only: ep)
qed

lemma attempt_ids_update:
  "(\<And>x. a_id (f x) = a_id x) \<Longrightarrow> attempts db' = update_where p f (attempts db) \<Longrightarrow> attempt_ids db' = attempt_ids db"
  unfolding attempt_ids_def by (metis map_key_update_where list.set_map)

lemma keyed_attempts_update:
  "(\<And>x. a_id (f x) = a_id x) \<Longrightarrow> keyed a_id as \<Longrightarrow> keyed a_id (update_where p f as)"
  by (rule keyed_update_where)

lemma tables_update_attempt:
  assumes "tables_ok db" "\<And>x. a_id (f x) = a_id x"
  shows "tables_ok (update_attempt i f db)"
  using assms attempt_ids_update [OF assms(2), of "update_attempt i f db"]
  by (auto simp: tables_ok_def update_attempt_def keyed_attempts_update)

lemma attempt_row_id: "attempt_at i db = Some a \<Longrightarrow> i \<in> attempt_ids db"
  by (auto simp: attempt_ids_def dest: row_of_SomeD)

lemma inv_create:
  assumes inv: "lifecycle_inv db"
    and op: "create_export_attempt sha256 run_id k pl mode orch u1 u2 now db = Inr (identity, db')"
  shows "lifecycle_inv db'"
proof -
  obtain run where db': "db' = db\<lparr>attempts := attempts db @ [new_attempt sha256 run k (sorted_set pl) mode u1 u2 now]\<rparr>"
    and fresh: "attempt_at u1 db = None" and ne: "pl \<noteq> []"
    using create_export_attempt_Inr [OF op] by blast
  let ?new = "new_attempt sha256 run k (sorted_set pl) mode u1 u2 now"
  have tb: "tables_ok db" by (rule lifecycle_invD(1) [OF inv])
  have "u1 \<notin> attempt_ids db" using fresh by (auto simp: attempt_ids_def row_of_None_iff)
  then have "filter (\<lambda>e. e_attempt e = u1) (expected db) = []" "filter (\<lambda>c. ch_attempt c = u1) (chunks db) = []"
    "filter (\<lambda>c. cl_attempt c = u1) (closures db) = []" "filter (\<lambda>ev. ev_attempt ev = u1) (evidence db) = []"
    using tb by (auto simp: tables_ok_def filter_empty_conv)
  then have none: "attempt_expected u1 db = []" "attempt_chunks u1 db = []" "attempt_closures u1 db = []"
    "attempt_evidence u1 db = []" "unvalidated u1 db = []"
    by (simp_all add: attempt_expected_def attempt_chunks_def attempt_closures_def attempt_evidence_def unvalidated_def)
  have view: "same_view i db db'" for i by (simp add: db')
  have "attempt_ok db' b" if "b \<in> set (attempts db)" for b
    using lifecycle_invD(2) [OF inv that] view by (rule attempt_ok_view)
      (use lifecycle_invD(2) [OF inv that] in \<open>simp add: db' attempt_ok_def\<close>)
  moreover have "attempt_ok db' ?new"
  proof (rule attempt_ok_view [OF _ view])
    show "attempt_ok db ?new"
      using ne by (simp add: attempt_ok_def none epochs_ok_def plan_ok_def seal_ok_def scopes_total_def
          MAX_PLAN_REFERENCES_def)
    show "epochs_ok (owners db') ?new" by (simp add: epochs_ok_def)
  qed
  moreover have "tables_ok db'"
    using tb fresh by (auto simp: db' tables_ok_def attempt_ids_def)
  moreover have "epochs_unique (attempts db')"
    using lifecycle_invD(3) [OF inv] by (auto simp: db' epochs_unique_def)
  ultimately show ?thesis by (auto simp: lifecycle_inv_def db')
qed

lemma inv_append_row:
  assumes inv: "lifecycle_inv db" and at: "attempt_at i db = Some a"
    and same: "attempts db' = attempts db" "owners db' = owners db" and tables: "tables_ok db'"
    and others: "\<And>j. j \<noteq> i \<Longrightarrow> same_view j db db'" and self: "attempt_ok db' a"
  shows "lifecycle_inv db'"
  unfolding lifecycle_inv_def
proof (intro conjI ballI tables)
  show "epochs_unique (attempts db')" using lifecycle_invD(3) [OF inv] same(1) by simp
  fix b assume "b \<in> set (attempts db')"
  then have b: "b \<in> set (attempts db)" using same(1) by simp
  show "attempt_ok db' b"
  proof (cases "a_id b = i")
    case True
    with attempt_row_unique [OF inv at b] self show ?thesis by simp
  next
    case False
    have "epochs_ok (owners db') b" using lifecycle_invD(2) [OF inv b] same(2) by (simp add: attempt_ok_def)
    with lifecycle_invD(2) [OF inv b] others [OF False] show ?thesis by (rule attempt_ok_view)
  qed
qed

lemma inv_record_chunk:
  assumes inv: "lifecycle_inv db"
    and op: "record_export_chunk identity k run_id covered chunk ip idg counts now db = Inr (u, db')"
  shows "lifecycle_inv db'"
proof -
  obtain a where at: "attempt_at (at_id identity) db = Some a"
    and cases: "db' = db \<or> (db' = db\<lparr>chunks := chunks db @ [new_chunk (at_id identity) k (sorted_set covered) chunk counts now]\<rparr>
      \<and> row_of ch_pk (at_id identity, k) (chunks db) = None \<and> a_status a = Preparing \<and> a_closed_at a = None)"
    using op by (rule record_export_chunk_Inr) (auto split: option.splits)
  show ?thesis
  proof (cases "db' = db")
    case True
    with inv show ?thesis by simp
  next
    case False
    let ?new = "new_chunk (at_id identity) k (sorted_set covered) chunk counts now"
    from cases False have db': "db' = db\<lparr>chunks := chunks db @ [?new]\<rparr>"
      and new: "row_of ch_pk (at_id identity, k) (chunks db) = None" and st: "a_status a = Preparing" "a_closed_at a = None"
      by simp_all
    have at_new: "ch_attempt ?new = at_id identity" "ch_pk ?new = (at_id identity, k)"
      by (simp_all add: new_chunk_def ch_pk_def)
    note a = attempt_row_in [OF inv at] and tb = lifecycle_invD(1) [OF inv]
    show ?thesis
    proof (rule inv_append_row [OF inv at])
      show "tables_ok db'"
        using tb new attempt_row_id [OF at] by (simp add: db' tables_ok_def attempt_ids_def at_new)
      show "same_view j db db'" if "j \<noteq> at_id identity" for j
        unfolding db' using that by (intro same_view_append_chunk) (simp add: at_new)
      have ok: "attempt_ok db a" using a lifecycle_invD(2) [OF inv] by blast
      have "attempt_expected i db' = attempt_expected i db" "attempt_closures i db' = attempt_closures i db"
        "attempt_evidence i db' = attempt_evidence i db" for i
        by (simp_all add: db' attempt_expected_def attempt_closures_def attempt_evidence_def)
      with ok show "attempt_ok db' a"
        by (auto simp: attempt_ok_def plan_ok_def seal_ok_def st db')
    qed (simp_all add: db')
  qed
qed

lemma inv_fail: "lifecycle_inv db \<Longrightarrow> lifecycle_inv (fail_export_capture identity code db)"
proof (cases "attempt_at (at_id identity) db")
  case None
  assume inv: "lifecycle_inv db"
  from None have "update_where (\<lambda>a. a_id a = at_id identity \<and> a_owner a = at_owner identity \<and> a_status a = Preparing)
      (\<lambda>a. a\<lparr>a_status := Failed, a_error := Some code\<rparr>) (attempts db) = attempts db"
    by (auto simp: update_where_def row_of_None_iff intro!: map_idI)
  with inv show ?thesis by (simp add: fail_export_capture_def)
next
  case (Some a)
  assume inv: "lifecycle_inv db"
  let ?f = "\<lambda>a. a\<lparr>a_status := Failed, a_error := Some code\<rparr>"
    and ?db' = "fail_export_capture identity code db"
  show ?thesis
  proof (cases "a_owner a = at_owner identity \<and> a_status a = Preparing")
    case False
    have "update_where (\<lambda>a. a_id a = at_id identity \<and> a_owner a = at_owner identity \<and> a_status a = Preparing)
      ?f (attempts db) = attempts db"
      using False attempt_row_unique [OF inv Some] by (auto simp: update_where_def intro!: map_idI)
    with inv show ?thesis by (simp add: fail_export_capture_def)
  next
    case True
    have ids: "attempt_ids ?db' = attempt_ids db"
      by (rule attempt_ids_update [of ?f]) (simp_all add: fail_export_capture_def)
    note tb = lifecycle_invD(1) [OF inv]
    have view: "same_view j db ?db'" for j by (simp add: fail_export_capture_def)
    have ok: "attempt_ok db a" using attempt_row_in [OF inv Some] lifecycle_invD(2) [OF inv] by blast
    show ?thesis
    proof (rule inv_update_one [OF inv Some])
      show "attempts ?db' = update_where (\<lambda>x. a_id x = at_id identity \<and> (a_owner x = at_owner identity \<and> a_status x = Preparing))
          ?f (attempts db)" by (simp add: fail_export_capture_def)
      show "a_owner a = at_owner identity \<and> a_status a = Preparing" by (rule True)
      show "tables_ok ?db'" using tb ids
        by (simp add: tables_ok_def) (simp add: fail_export_capture_def keyed_update_where)
      show "epochs_unique (attempts ?db')"
        using lifecycle_invD(3) [OF inv] by (simp add: fail_export_capture_def epochs_unique_update)
      show "attempt_ok ?db' b" if "b \<in> set (attempts db)" for b
        using lifecycle_invD(2) [OF inv that] view
        by (rule attempt_ok_view) (use lifecycle_invD(2) [OF inv that] in \<open>simp add: attempt_ok_def fail_export_capture_def\<close>)
      have "epochs_ok (owners db) (?f a) = epochs_ok (owners db) a" by (rule epochs_ok_cong) simp_all
      moreover have "plan_ok es cs shut (?f a) = plan_ok es cs shut a" for es cs shut
        by (rule plan_ok_cong) simp_all
      ultimately have f: "attempt_ok db (?f a)"
        using ok by (simp add: attempt_ok_def seal_ok_def)
      then show "attempt_ok ?db' (?f a)"
        using view by (rule attempt_ok_view) (use f in \<open>simp add: attempt_ok_def fail_export_capture_def\<close>)
    qed
  qed
qed

lemma inv_close_source:
  assumes inv: "lifecycle_inv db" and op: "close_source identity scope ks db = Inr (u, db')"
  shows "lifecycle_inv db'"
proof -
  obtain run a where la: "locked_owner db identity (Some [scope]) = Inr (run, a)"
    and st: "a_status a = Preparing" "a_closed_at a = None"
    and cases: "db' = db \<or> (row_of cl_pk (at_id identity, scope) (closures db) = None \<and> db' = db\<lparr>closures := closures db @
            [\<lparr>cl_attempt = at_id identity, cl_scope = scope, cl_keys = sorted_set ks\<rparr>]\<rparr>)"
    using close_source_Inr [OF op] by blast
  note at = locked_Inr(1) [OF locked_owner_Inr(1) [OF la]]
  show ?thesis
  proof (cases "db' = db")
    case True
    with inv show ?thesis by simp
  next
    case False
    with cases have new: "row_of cl_pk (at_id identity, scope) (closures db) = None" and db': "db' = db\<lparr>closures := closures db @
            [\<lparr>cl_attempt = at_id identity, cl_scope = scope, cl_keys = sorted_set ks\<rparr>]\<rparr>" by simp_all
    show ?thesis
    proof (rule inv_append_row [OF inv at])
      show "tables_ok db'"
        using lifecycle_invD(1) [OF inv] new attempt_row_id [OF at]
        by (simp add: db' tables_ok_def attempt_ids_def cl_pk_def)
      show "same_view j db db'" if "j \<noteq> at_id identity" for j
        unfolding db' using that by (intro same_view_append_closure) simp
      have "attempt_ok db a" using attempt_row_in [OF inv at] lifecycle_invD(2) [OF inv] by blast
      moreover have "attempt_expected i db' = attempt_expected i db" "attempt_chunks i db' = attempt_chunks i db"
        "attempt_evidence i db' = attempt_evidence i db" for i
        by (simp_all add: db' attempt_expected_def attempt_chunks_def attempt_evidence_def)
      ultimately show "attempt_ok db' a"
        by (auto simp: attempt_ok_def plan_ok_def seal_ok_def st db')
    qed (simp_all add: db')
  qed
qed

lemma set_attempt_expected: "set (attempt_expected i db) = {e \<in> set (expected db). e_attempt e = i}"
  by (simp add: attempt_expected_def)

lemma scopes_total_append:
  "e_attempt e = i \<Longrightarrow> scopes_total (attempt_expected i (db\<lparr>expected := expected db @ [e]\<rparr>)) =
    scopes_total (attempt_expected i db) + int (length (e_scopes e))
   \<and> length (attempt_expected i (db\<lparr>expected := expected db @ [e]\<rparr>)) = length (attempt_expected i db) + 1"
proof -
  assume e: "e_attempt e = i"
  have total: "scopes_total (sort_key e_key xs) = scopes_total xs" for xs
  proof -
    have "mset (map (\<lambda>e. int (length (e_scopes e))) (sort_key e_key xs)) = mset (map (\<lambda>e. int (length (e_scopes e))) xs)"
      by simp
    then show ?thesis unfolding scopes_total_def by (metis sum_mset_sum_list)
  qed
  then show ?thesis by (simp add: attempt_expected_def total e) (simp add: scopes_total_def)
qed

lemma inv_expect:
  assumes inv: "lifecycle_inv db" and op: "expect_chunk sha256 identity k records values db = Inr (u, db')"
  shows "lifecycle_inv db'"
proof -
  define scopes where "scopes = sorted_set (map (record_scope sha256) records)"
  obtain run a digest where la: "locked_owner db identity (Some scopes) = Inr (run, a)"
    and st: "a_status a = Preparing" "a_closed_at a = None" and sc: "scopes \<noteq> []" "set scopes \<subseteq> set (a_planned a)"
      "length scopes \<le> MAX_CHUNK_SOURCES"
    and cases: "(case row_of e_pk (at_id identity, k) (expected db) of
         Some existing \<Rightarrow> existing = planned_chunk identity k scopes (length values) digest \<and> db' = db
       | None \<Rightarrow>
           length (filter (\<lambda>e. e_attempt e = at_id identity) (expected db)) < MAX_EXPECTED_CHUNKS
           \<and> a_references a + int (length scopes) \<le> MAX_PLAN_REFERENCES
           \<and> (\<forall>c \<in> set (closures db). cl_attempt c = at_id identity \<longrightarrow> cl_scope c \<notin> set scopes)
           \<and> db' = update_attempt (at_id identity)
               (\<lambda>x. x\<lparr>a_references := a_references a + int (length scopes)\<rparr>)
               (db\<lparr>expected := expected db @ [planned_chunk identity k scopes (length values) digest]\<rparr>))"
    using expect_chunk_Inr [OF op] unfolding scopes_def by blast
  let ?i = "at_id identity" and ?plan = "planned_chunk identity k scopes (length values) digest"
    and ?f = "\<lambda>x. x\<lparr>a_references := a_references a + int (length scopes)\<rparr>"
  note at = locked_Inr(1) [OF locked_owner_Inr(1) [OF la]]
  show ?thesis
  proof (cases "row_of e_pk (?i, k) (expected db)")
    case (Some e)
    with cases inv show ?thesis by simp
  next
    case None
    let ?db1 = "db\<lparr>expected := expected db @ [?plan]\<rparr>"
    from None cases have db': "db' = update_attempt ?i ?f ?db1"
      and lim: "length (filter (\<lambda>e. e_attempt e = ?i) (expected db)) < MAX_EXPECTED_CHUNKS"
        "a_references a + int (length scopes) \<le> MAX_PLAN_REFERENCES" by simp_all
    have ok: "attempt_ok db a" and aid: "a_id a = ?i"
      using attempt_row_in [OF inv at] lifecycle_invD(2) [OF inv] by blast+
    show ?thesis
    proof (rule inv_update_one [OF inv at])
      show "attempts db' = update_where (\<lambda>x. a_id x = ?i \<and> True) ?f (attempts db)"
        by (simp add: db' update_attempt_def)
      show "tables_ok db'"
        unfolding db'
      proof (rule tables_update_attempt)
        show "tables_ok ?db1"
          using lifecycle_invD(1) [OF inv] None attempt_row_id [OF at]
          by (simp add: tables_ok_def attempt_ids_def)
      qed simp
      show "epochs_unique (attempts db')"
        using lifecycle_invD(3) [OF inv] by (simp add: db' update_attempt_def epochs_unique_update)
      show "attempt_ok db' b" if "b \<in> set (attempts db)" "a_id b \<noteq> ?i" for b
        using lifecycle_invD(2) [OF inv that(1)]
      proof (rule attempt_ok_view)
        show "same_view (a_id b) db db'"
          unfolding db' same_view_update_attempt using that(2) by (intro same_view_append_expected) simp
        show "epochs_ok (owners db') b" using lifecycle_invD(2) [OF inv that(1)] by (simp add: attempt_ok_def db')
      qed
      have view: "attempt_expected ?i db' = attempt_expected ?i ?db1" "attempt_chunks ?i db' = attempt_chunks ?i db"
        "attempt_closures ?i db' = attempt_closures ?i db" "attempt_evidence ?i db' = attempt_evidence ?i db"
        by (simp_all add: db' attempt_expected_def attempt_chunks_def attempt_closures_def attempt_evidence_def)
      have tot: "scopes_total (attempt_expected ?i ?db1) = scopes_total (attempt_expected ?i db) + int (length scopes)"
        "length (attempt_expected ?i ?db1) = length (attempt_expected ?i db) + 1"
        using scopes_total_append [of ?plan ?i db] by simp_all
      have len: "length (attempt_expected ?i db) < MAX_EXPECTED_CHUNKS"
        using lim(1) by (simp add: attempt_expected_def)
      have all: "\<forall>e \<in> set (attempt_expected ?i ?db1). e_scopes e \<noteq> [] \<and> length (e_scopes e) \<le> MAX_CHUNK_SOURCES
          \<and> set (e_scopes e) \<subseteq> set (a_planned a)"
        using ok sc by (auto simp: set_attempt_expected attempt_ok_def plan_ok_def aid)
      have ep: "epochs_ok (owners db') (?f a)"
        using ok epochs_ok_cong [of "?f a" a "owners db"] by (simp add: attempt_ok_def db')
      have "plan_ok (attempt_expected ?i db') (attempt_chunks ?i db') (attempt_closures ?i db') (?f a)"
        using ok len lim(2) all by (simp add: plan_ok_def view tot st attempt_ok_def aid)
      moreover have "seal_ok (unvalidated ?i db') (attempt_evidence ?i db') (?f a)"
        using ok by (simp add: seal_ok_def view st attempt_ok_def aid)
      ultimately show "attempt_ok db' (?f a)"
        using ok ep by (simp add: attempt_ok_def aid)
    qed simp
  qed
qed

lemma inv_close_plan:
  assumes inv: "lifecycle_inv db" and op: "close_plan sha256 fj identity now db = Inr (seal, db')"
  shows "lifecycle_inv db'"
proof -
  let ?i = "at_id identity"
  obtain run a where la: "locked_owner db identity None = Inr (run, a)"
    and cases: "if a_closed_at a \<noteq> None then db' = db \<and> seal = a_seal a
       else a_status a = Preparing
         \<and> plan_rows_ok a (attempt_expected ?i db) (attempt_chunks ?i db)
         \<and> barrier_met a (attempt_expected ?i db) (attempt_chunks ?i db) (attempt_closures ?i db)
         \<and> (\<exists>head. seal_head_plan fj db ?i = Inr head
             \<and> seal = Some (seal_digest sha256 head a (attempt_expected ?i db) (attempt_chunks ?i db))
             \<and> db' = update_attempt ?i (\<lambda>a. a\<lparr>a_closed_at := Some now, a_seal := seal\<rparr>) db)"
    using close_plan_Inr [OF op] by blast
  note at = locked_Inr(1) [OF locked_owner_Inr(1) [OF la]]
  let ?f = "\<lambda>a. a\<lparr>a_closed_at := Some now, a_seal := seal\<rparr>"
  have ok: "attempt_ok db a" and aid: "a_id a = ?i"
    using attempt_row_in [OF inv at] lifecycle_invD(2) [OF inv] by blast+
  show ?thesis
  proof (cases "a_closed_at a")
    case (Some t)
    with cases inv show ?thesis by simp
  next
    case None
    with cases have st: "a_status a = Preparing"
      and barrier: "plan_rows_ok a (attempt_expected ?i db) (attempt_chunks ?i db)"
        "barrier_met a (attempt_expected ?i db) (attempt_chunks ?i db) (attempt_closures ?i db)"
      and sl: "seal \<noteq> None" and db': "db' = update_attempt ?i ?f db" by auto
    have view: "same_view j db db'" for j by (simp add: db')
    have owners': "owners db' = owners db" by (simp add: db')
    show ?thesis
    proof (rule inv_update_one [OF inv at])
      show "attempts db' = update_where (\<lambda>x. a_id x = ?i \<and> True) ?f (attempts db)"
        by (simp add: db' update_attempt_def)
      show "tables_ok db'" unfolding db' by (rule tables_update_attempt [OF lifecycle_invD(1) [OF inv]]) simp
      show "epochs_unique (attempts db')"
        using lifecycle_invD(3) [OF inv] by (simp add: db' update_attempt_def epochs_unique_update)
      show "attempt_ok db' b" if "b \<in> set (attempts db)" for b
        using lifecycle_invD(2) [OF inv that] view
        by (rule attempt_ok_view) (use lifecycle_invD(2) [OF inv that] in \<open>simp add: attempt_ok_def owners'\<close>)
      have "epochs_ok (owners db) (?f a) = epochs_ok (owners db) a" by (rule epochs_ok_cong) simp_all
      moreover have "plan_ok (attempt_expected ?i db) (attempt_chunks ?i db) (attempt_closures ?i db) (?f a)"
        using ok barrier sl by (simp add: plan_ok_def attempt_ok_def aid plan_rows_ok_def barrier_met_def)
      moreover have "attempt_evidence ?i db = []"
        using ok None by (cases "attempt_evidence ?i db") (auto simp: attempt_ok_def plan_ok_def seal_ok_def aid)
      ultimately have "attempt_ok db (?f a)"
        using ok st by (simp add: attempt_ok_def seal_ok_def aid)
      then show "attempt_ok db' (?f a)"
        using view by (rule attempt_ok_view) (use \<open>attempt_ok db (?f a)\<close> in \<open>simp add: attempt_ok_def owners'\<close>)
    qed simp
  qed
qed

lemma keyed_validations: "keyed v_pk vs \<Longrightarrow> keyed v_pk (fold (insert_ignore v_pk) rs vs)"
  by (induction rs arbitrary: vs) (auto intro: keyed_insert_ignore)

lemma validations_rows: "x \<in> set (fold (insert_ignore v_pk) rs vs) \<Longrightarrow> x \<in> set vs \<or> x \<in> set rs"
  by (induction rs arbitrary: vs) (use set_insert_ignore in fastforce)+

lemma tables_validated:
  assumes "tables_ok db" "at_id identity \<in> attempt_ids db"
  shows "tables_ok (db\<lparr>validated := fold (insert_ignore v_pk) (validation_rows identity cs now) (validated db)\<rparr>)"
proof -
  let ?vs = "fold (insert_ignore v_pk) (validation_rows identity cs now) (validated db)"
  have ids: "attempt_ids (db\<lparr>validated := ?vs\<rparr>) = attempt_ids db" by (simp add: attempt_ids_def)
  have "v_attempt v \<in> attempt_ids db" if "v \<in> set ?vs" for v
    using validations_rows [OF that] assms by (auto simp: tables_ok_def validation_rows_def)
  then show ?thesis
    using assms(1) by (simp add: tables_ok_def ids keyed_validations image_subset_iff)
qed

lemma unvalidated_after:
  assumes "unvalidated i db = []"
  shows "unvalidated i (db\<lparr>validated := fold (insert_ignore v_pk) rs (validated db)\<rparr>) = []"
proof -
  have mono: "row_of v_pk k vs \<noteq> None \<Longrightarrow> row_of v_pk k (fold (insert_ignore v_pk) rs vs) \<noteq> None" for k rs vs
    by (induction rs arbitrary: vs) (auto simp: row_of_insert_ignore)
  then show ?thesis using assms by (auto simp: unvalidated_def filter_empty_conv attempt_chunks_def)
qed

lemma inv_finish:
  assumes inv: "lifecycle_inv db" and op: "reconcile_finish identity t receipts now db = Inr (verdict, db')"
  shows "lifecycle_inv db'"
proof -
  let ?i = "at_id identity"
  define db1 where
    "db1 = db\<lparr>validated := fold (insert_ignore v_pk) (validation_rows identity receipts now) (validated db)\<rparr>"
  obtain run a where la: "locked_owner db identity None = Inr (run, a)"
    and cases: "(verdict = Rejected \<and> db' = db)
      \<or> (sr_status run = ''success'' \<and> a_status a \<noteq> Failed \<and> a_seal a = rt_token t
         \<and> ((verdict = Not_Ready \<and> db' = db1)
           \<or> (verdict = Eligible \<and> unvalidated ?i db1 = [] \<and> (\<exists>token ev. rt_token t = Some token
               \<and> ev = \<lparr>ev_attempt = ?i, ev_run = sr_id run, ev_mode = rt_mode t,
                    ev_orchestrator = rt_orchestrator t, ev_seal = token, ev_checked = now\<rparr>
               \<and> db' = db1\<lparr>evidence := insert_ignore ev_attempt ev (evidence db),
                    attempts := update_where (\<lambda>a. a_id a = ?i \<and> a_status a = Preparing)
                      (\<lambda>a. a\<lparr>a_status := Sealed, a_sealed_at := Some now\<rparr>) (attempts db)\<rparr>))))"
    using reconcile_finish_Inr [OF op] unfolding db1_def by blast
  note at = locked_Inr(1) [OF locked_owner_Inr(1) [OF la]]
  have ok: "attempt_ok db a" and aid: "a_id a = ?i"
    using attempt_row_in [OF inv at] lifecycle_invD(2) [OF inv] by blast+
  have tb1: "tables_ok db1"
    unfolding db1_def by (rule tables_validated [OF lifecycle_invD(1) [OF inv] attempt_row_id [OF at]])
  have others: "same_view j db db1" if "j \<noteq> ?i" for j
    unfolding db1_def using that by (rule same_view_validated)
  have view1: "attempt_expected j db1 = attempt_expected j db" "attempt_chunks j db1 = attempt_chunks j db"
    "attempt_closures j db1 = attempt_closures j db" "attempt_evidence j db1 = attempt_evidence j db" for j
    by (simp_all add: db1_def attempt_expected_def attempt_chunks_def attempt_closures_def attempt_evidence_def)
  have un1: "unvalidated ?i db = [] \<Longrightarrow> unvalidated ?i db1 = []"
    unfolding db1_def by (rule unvalidated_after)
  have ok1: "attempt_ok db1 a"
    using ok un1 by (auto simp: attempt_ok_def view1 seal_ok_def aid) (simp_all add: db1_def)
  have inv1: "lifecycle_inv db1"
    by (rule inv_append_row [OF inv at _ _ tb1 others ok1]) (simp_all add: db1_def)
  show ?thesis
  proof (cases "verdict = Eligible")
    case False
    with cases inv inv1 show ?thesis by auto
  next
    case True
    with cases obtain token ev where sealt: "a_seal a = rt_token t" "rt_token t = Some token" and nf: "a_status a \<noteq> Failed"
      and un: "unvalidated ?i db1 = []" and evr: "ev = \<lparr>ev_attempt = ?i, ev_run = sr_id run, ev_mode = rt_mode t,
                    ev_orchestrator = rt_orchestrator t, ev_seal = token, ev_checked = now\<rparr>"
      and db': "db' = db1\<lparr>evidence := insert_ignore ev_attempt ev (evidence db),
                    attempts := update_where (\<lambda>a. a_id a = ?i \<and> a_status a = Preparing)
                      (\<lambda>a. a\<lparr>a_status := Sealed, a_sealed_at := Some now\<rparr>) (attempts db)\<rparr>"
      by blast
    have seal: "a_seal a = Some token" and ev: "ev_attempt ev = ?i" "ev_seal ev = token"
      by (simp_all add: sealt evr)
    let ?f = "\<lambda>a. a\<lparr>a_status := Sealed, a_sealed_at := Some now\<rparr>"
    let ?db2 = "db1\<lparr>evidence := insert_ignore ev_attempt ev (evidence db1)\<rparr>"
    have db'2: "db' = ?db2\<lparr>attempts := update_where (\<lambda>a. a_id a = ?i \<and> a_status a = Preparing) ?f (attempts ?db2)\<rparr>"
      by (simp add: db' db1_def)
    have at1: "attempt_at ?i db1 = Some a" using at by (simp add: db1_def)
    have evs: "\<forall>e \<in> set (attempt_evidence ?i ?db2). ev_seal e = token" "attempt_evidence ?i ?db2 \<noteq> []"
      using ok1 seal ev set_insert_ignore [of ev_attempt ev "evidence db1"]
      by (auto simp: attempt_evidence_def attempt_ok_def seal_ok_def aid insert_ignore_def row_of_None_iff
          filter_empty_conv dest: row_of_SomeD)
    have closed': "a_closed_at a \<noteq> None" using ok seal by (auto simp: attempt_ok_def plan_ok_def)
    have view2: "attempt_expected j ?db2 = attempt_expected j db1" "attempt_chunks j ?db2 = attempt_chunks j db1"
      "attempt_closures j ?db2 = attempt_closures j db1" "unvalidated j ?db2 = unvalidated j db1" for j
      by (simp_all add: attempt_expected_def attempt_chunks_def attempt_closures_def unvalidated_def)
    have tb2: "tables_ok ?db2"
    proof -
      have ids: "attempt_ids ?db2 = attempt_ids db1" by (simp add: attempt_ids_def)
      have "ev_attempt x \<in> attempt_ids db1" if "x \<in> set (insert_ignore ev_attempt ev (evidence db1))" for x
      proof -
        have "x = ev \<or> x \<in> set (evidence db1)" using that set_insert_ignore by fast
        then show ?thesis using tb1 attempt_row_id [OF at1] ev(1) by (auto simp: tables_ok_def)
      qed
      then show ?thesis using tb1 by (simp add: tables_ok_def ids keyed_insert_ignore image_subset_iff)
    qed
    have ok2: "attempt_ok ?db2 a"
      using ok1 evs un closed' seal by (simp add: attempt_ok_def view2 seal_ok_def aid)
    have inv2: "lifecycle_inv ?db2"
    proof (rule inv_append_row [OF inv1 at1 _ _ tb2 _ ok2])
      show "same_view j db1 ?db2" if "j \<noteq> ?i" for j
        using that ev(1) by (intro same_view_evidence) simp
    qed simp_all
    have at2: "attempt_at ?i ?db2 = Some a" using at1 by simp
    show ?thesis
    proof (cases "a_status a = Preparing")
      case False
      have "update_where (\<lambda>a. a_id a = ?i \<and> a_status a = Preparing) ?f (attempts ?db2) = attempts ?db2"
        using False attempt_row_unique [OF inv2 at2] by (auto simp: update_where_def intro!: map_idI)
      then have "db' = ?db2" unfolding db'2 by simp
      with inv2 show ?thesis by (simp only:)
    next
      case True
      have ids: "attempt_ids db' = attempt_ids ?db2"
        by (rule attempt_ids_update [of ?f]) (simp_all add: db'2)
      have view: "same_view j ?db2 db'" for j unfolding db'2 by simp
      show ?thesis
      proof (rule inv_update_one [OF inv2 at2, where p = "\<lambda>a. a_status a = Preparing" and f = ?f])
        show "attempts db' = update_where (\<lambda>x. a_id x = ?i \<and> a_status x = Preparing) ?f (attempts ?db2)"
          by (simp add: db'2)
        show "tables_ok db'"
          using tb2 ids by (simp add: tables_ok_def) (simp add: db'2 keyed_update_where)
        show "epochs_unique (attempts db')"
          using lifecycle_invD(3) [OF inv2] by (simp add: db'2 epochs_unique_update)
        show "attempt_ok db' b" if "b \<in> set (attempts ?db2)" for b
          using lifecycle_invD(2) [OF inv2 that] view
          by (rule attempt_ok_view) (use lifecycle_invD(2) [OF inv2 that] in \<open>simp add: attempt_ok_def db'2\<close>)
        have "epochs_ok (owners ?db2) (?f a) = epochs_ok (owners ?db2) a" by (rule epochs_ok_cong) simp_all
        moreover have "plan_ok es cs shut (?f a) = plan_ok es cs shut a" for es cs shut
          by (rule plan_ok_cong) simp_all
        ultimately have f: "attempt_ok ?db2 (?f a)"
          using ok2 evs un closed' seal by (simp add: attempt_ok_def seal_ok_def view2 aid)
        then show "attempt_ok db' (?f a)"
          using view by (rule attempt_ok_view) (use f in \<open>simp add: attempt_ok_def db'2\<close>)
      qed (rule True)
    qed
  qed
qed

lemma owners_positive: "tables_ok db \<Longrightarrow> row_of o_scope s (owners db) = Some o' \<Longrightarrow> 0 < o_epoch o'"
  by (auto simp: tables_ok_def dest: row_of_SomeD)

text \<open>A claim raises the epoch of every planned scope above all epochs handed out before.\<close>

lemma epochs_ok_claimed:
  assumes "epochs_ok os b" "a_id b \<noteq> a_id a \<or> a_epochs b = None" "distinct (a_planned a)"
  shows "epochs_ok (upsert_all o_scope bump_owner (claim_rows a) os) b"
proof (cases "a_epochs b")
  case None
  then show ?thesis by (simp add: epochs_ok_def)
next
  case (Some es)
  have "\<exists>o'. row_of o_scope s (upsert_all o_scope bump_owner (claim_rows a) os) = Some o' \<and> n \<le> o_epoch o'
      \<and> (n = o_epoch o' \<longrightarrow> o_attempt o' = a_id b)" if "(s, n) \<in> set es" for s n
  proof -
    obtain o' where o': "row_of o_scope s os = Some o'" "n \<le> o_epoch o'" "n = o_epoch o' \<longrightarrow> o_attempt o' = a_id b"
      using assms(1) Some \<open>(s, n) \<in> set es\<close> by (fastforce simp: epochs_ok_def)
    then show ?thesis
      by (auto simp: row_of_claimed [OF assms(3)] claimed_owner_def)
  qed
  then show ?thesis using assms(1) Some by (auto simp: epochs_ok_def)
qed

lemma inv_claim:
  assumes inv: "lifecycle_inv db" and op: "claim identity db = Inr (u, db')"
  shows "lifecycle_inv db'"
proof (cases "db' = db")
  case True
  with inv show ?thesis by simp
next
  case False
  let ?i = "at_id identity"
  from claim_Inr [OF op] False obtain run a where la: "locked db identity = Inr (run, a)" and none: "a_epochs a = None"
    and st: "a_status a = Preparing"
    and d: "let owners' = upsert_all o_scope bump_owner (claim_rows a) (owners db)
         in db' = update_attempt ?i
              (\<lambda>a'. a'\<lparr>a_epochs := Some (map (\<lambda>k. (k, epoch_of owners' k)) (sort (a_planned a)))\<rparr>)
              (db\<lparr>owners := owners'\<rparr>)" by blast
  note at = locked_Inr(1) [OF la]
  define os where "os = upsert_all o_scope bump_owner (claim_rows a) (owners db)"
  have ok: "attempt_ok db a" and aid: "a_id a = ?i"
    using attempt_row_in [OF inv at] lifecycle_invD(2) [OF inv] by blast+
  have planned: "distinct (a_planned a)" "sort (a_planned a) = a_planned a"
    using ok by (simp_all add: attempt_ok_def sort_key_id_if_sorted)
  define es where "es = map (\<lambda>k. (k, epoch_of os k)) (a_planned a)"
  let ?f = "\<lambda>a. a\<lparr>a_epochs := Some es\<rparr>"
  have db': "db' = update_attempt ?i ?f (db\<lparr>owners := os\<rparr>)"
    using d unfolding Let_def os_def [symmetric] by (simp add: es_def planned(2))
  have row: "row_of o_scope s os = (if s \<in> set (a_planned a) then Some (claimed_owner a (owners db) s)
      else row_of o_scope s (owners db))" for s
    unfolding os_def by (rule row_of_claimed [OF planned(1)])
  have owners': "owners db' = os" by (simp add: db')
  have view: "same_view j db db'" for j by (simp add: db')
  have keyed_os: "keyed o_scope os"
    unfolding os_def upsert_all_def
    by (rule row_table.valid_fold_put [where c = bump_owner]) (use lifecycle_invD(1) [OF inv] in \<open>simp_all add: tables_ok_def\<close>)
  have pos: "\<forall>o' \<in> set os. 0 < o_epoch o'"
  proof
    fix o' assume "o' \<in> set os"
    then have r: "row_of o_scope (o_scope o') os = Some o'" by (rule row_of_in [OF keyed_os])
    show "0 < o_epoch o'"
    proof (cases "o_scope o' \<in> set (a_planned a)")
      case True
      with r row have "o' = claimed_owner a (owners db) (o_scope o')" by simp
      then have "o_epoch o' = (case row_of o_scope (o_scope o') (owners db) of None \<Rightarrow> 1 | Some x \<Rightarrow> o_epoch x + 1)"
        by (metis claimed_owner_def owner_row.select_convs(2))
      then show ?thesis using owners_positive [OF lifecycle_invD(1) [OF inv]] by (fastforce split: option.splits)
    next
      case False
      with r row have "row_of o_scope (o_scope o') (owners db) = Some o'" by simp
      then show ?thesis by (rule owners_positive [OF lifecycle_invD(1) [OF inv]])
    qed
  qed
  have self_epochs: "epochs_ok os (?f a)"
    by (auto simp: epochs_ok_def es_def comp_def row epoch_of_def claimed_owner_def)
  have fresh: "\<not> (s, n) \<in> set fs" if in_es: "(s, n) \<in> set es" and b: "b \<in> set (attempts db)" "a_epochs b = Some fs" for s n b fs
  proof
    assume "(s, n) \<in> set fs"
    then obtain o' where o': "row_of o_scope s (owners db) = Some o'" "n \<le> o_epoch o'"
      using lifecycle_invD(2) [OF inv b(1)] b(2) by (fastforce simp: attempt_ok_def epochs_ok_def)
    have "s \<in> set (a_planned a)" "n = epoch_of os s" using in_es by (auto simp: es_def)
    then have "n = o_epoch o' + 1" by (simp add: epoch_of_def row claimed_owner_def o'(1))
    with o'(2) show False by simp
  qed
  show ?thesis
  proof (rule inv_update_one [OF inv at])
    show "attempts db' = update_where (\<lambda>x. a_id x = ?i \<and> True) ?f (attempts db)"
      by (simp add: db' update_attempt_def)
    show "tables_ok db'"
      unfolding db'
    proof (rule tables_update_attempt)
      show "tables_ok (db\<lparr>owners := os\<rparr>)"
        using lifecycle_invD(1) [OF inv] keyed_os pos by (simp add: tables_ok_def attempt_ids_def)
    qed simp
    show "epochs_unique (attempts db')"
      unfolding epochs_unique_def
    proof (intro ballI allI impI)
      fix x y xs ys
      assume x: "x \<in> set (attempts db')" "a_epochs x = Some xs" and y: "y \<in> set (attempts db')" "a_epochs y = Some ys"
        and sh: "set xs \<inter> set ys \<noteq> {}"
      have origin: "(z = ?f a \<and> zs = es) \<or> (z \<in> set (attempts db) \<and> a_id z \<noteq> ?i)"
        if "z \<in> set (attempts db')" "a_epochs z = Some zs" for z zs
      proof -
        from that(1) obtain b where b: "b \<in> set (attempts db)" "z = (if a_id b = ?i then ?f b else b)"
          by (auto simp: db' update_attempt_def set_update_where)
        show ?thesis
        proof (cases "a_id b = ?i")
          case True
          then have "b = a" using attempt_row_unique [OF inv at b(1)] by simp
          with b True that(2) show ?thesis by simp
        qed (use b in \<open>simp\<close>)
      qed
      from origin [OF x] origin [OF y] sh show "a_id x = a_id y"
      proof (elim disjE conjE)
        assume "x \<in> set (attempts db)" "y \<in> set (attempts db)"
        with lifecycle_invD(3) [OF inv] x(2) y(2) sh show ?thesis unfolding epochs_unique_def by blast
      qed (use fresh x y in \<open>auto\<close>)
    qed
    show "attempt_ok db' b" if b: "b \<in> set (attempts db)" "a_id b \<noteq> ?i" for b
      using lifecycle_invD(2) [OF inv b(1)] view
    proof (rule attempt_ok_view)
      show "epochs_ok (owners db') b"
        unfolding owners' os_def using lifecycle_invD(2) [OF inv b(1)] b(2) planned(1)
        by (intro epochs_ok_claimed) (simp_all add: attempt_ok_def aid)
    qed
    have "attempt_ok (db\<lparr>owners := os\<rparr>) (?f a)"
      using ok self_epochs plan_ok_cong [of "?f a" a]
      by (simp add: attempt_ok_def seal_ok_def attempt_expected_def attempt_chunks_def attempt_closures_def
          unvalidated_def attempt_evidence_def)
    then show "attempt_ok db' (?f a)"
    proof (rule attempt_ok_view)
      show "same_view (a_id (?f a)) (db\<lparr>owners := os\<rparr>) db'" by (simp add: db')
      show "epochs_ok (owners db') (?f a)" unfolding owners' by (rule self_epochs)
    qed
  qed simp
qed

subsection \<open>What only grows\<close>

text \<open>
  Owner epochs never fall, and a row keeps its owner as long as its epoch stands; an attempt keeps
  its identity, its claimed epochs, its terminal status and, once its plan is closed, its seal and
  every announced chunk, receipt and closure.
\<close>

definition owners_le :: "owner_row list \<Rightarrow> owner_row list \<Rightarrow> bool" where
  "owners_le os os' \<longleftrightarrow> (\<forall>s x. row_of o_scope s os = Some x \<longrightarrow>
     (\<exists>y. row_of o_scope s os' = Some y \<and> o_epoch x \<le> o_epoch y \<and> (o_epoch x = o_epoch y \<longrightarrow> y = x)))"

definition row_le :: "attempt_row \<Rightarrow> attempt_row \<Rightarrow> bool" where
  "row_le x y \<longleftrightarrow>
     a_id y = a_id x \<and> a_owner y = a_owner x \<and> a_run y = a_run x \<and> a_planned y = a_planned x
     \<and> a_plan_digest y = a_plan_digest x
     \<and> (a_epochs x \<noteq> None \<longrightarrow> a_epochs y = a_epochs x)
     \<and> (a_closed_at x \<noteq> None \<longrightarrow> a_closed_at y = a_closed_at x \<and> a_seal y = a_seal x)
     \<and> (a_status x \<noteq> Preparing \<longrightarrow> a_status y = a_status x)"

definition plan_same :: "text_bytes \<Rightarrow> export_db \<Rightarrow> export_db \<Rightarrow> bool" where
  "plan_same i db db' \<longleftrightarrow>
     attempt_expected i db' = attempt_expected i db \<and> attempt_chunks i db' = attempt_chunks i db
     \<and> attempt_closures i db' = attempt_closures i db"

definition grows :: "export_db \<Rightarrow> export_db \<Rightarrow> bool" where
  "grows db db' \<longleftrightarrow> owners_le (owners db) (owners db') \<and>
     (\<forall>i x. attempt_at i db = Some x \<longrightarrow>
        (\<exists>y. attempt_at i db' = Some y \<and> row_le x y \<and> (a_closed_at x \<noteq> None \<longrightarrow> plan_same i db db')))"

lemma owners_le_refl [simp]: "owners_le os os"
  by (simp add: owners_le_def)

lemma row_le_refl [simp]: "row_le x x"
  by (simp add: row_le_def)

lemma grows_refl: "grows db db"
  by (simp add: grows_def plan_same_def)

lemma owners_le_trans: "owners_le a b \<Longrightarrow> owners_le b c \<Longrightarrow> owners_le a c"
  unfolding owners_le_def
proof (intro allI impI)
  fix s x
  assume ab: "\<forall>s x. row_of o_scope s a = Some x \<longrightarrow>
      (\<exists>y. row_of o_scope s b = Some y \<and> o_epoch x \<le> o_epoch y \<and> (o_epoch x = o_epoch y \<longrightarrow> y = x))"
    and bc: "\<forall>s x. row_of o_scope s b = Some x \<longrightarrow>
      (\<exists>y. row_of o_scope s c = Some y \<and> o_epoch x \<le> o_epoch y \<and> (o_epoch x = o_epoch y \<longrightarrow> y = x))"
    and x: "row_of o_scope s a = Some x"
  from ab x obtain y where y: "row_of o_scope s b = Some y" "o_epoch x \<le> o_epoch y" "o_epoch x = o_epoch y \<longrightarrow> y = x"
    by blast
  from bc y(1) obtain z where z: "row_of o_scope s c = Some z" "o_epoch y \<le> o_epoch z" "o_epoch y = o_epoch z \<longrightarrow> z = y"
    by blast
  have "o_epoch x = o_epoch z \<longrightarrow> z = x" using y(2,3) z(2,3) by auto
  with y(2) z(1,2) show "\<exists>y. row_of o_scope s c = Some y \<and> o_epoch x \<le> o_epoch y \<and> (o_epoch x = o_epoch y \<longrightarrow> y = x)"
    by auto
qed

lemma row_le_trans: "row_le x y \<Longrightarrow> row_le y z \<Longrightarrow> row_le x z"
  by (auto simp: row_le_def)

lemma grows_trans:
  assumes "grows a b" "grows b c"
  shows "grows a c"
  unfolding grows_def
proof (intro conjI allI impI)
  show "owners_le (owners a) (owners c)"
    using assms owners_le_trans by (auto simp: grows_def)
  fix i x assume "attempt_at i a = Some x"
  with assms(1) obtain y where y: "attempt_at i b = Some y" "row_le x y" "a_closed_at x \<noteq> None \<longrightarrow> plan_same i a b"
    unfolding grows_def by blast
  with assms(2) obtain z where z: "attempt_at i c = Some z" "row_le y z" "a_closed_at y \<noteq> None \<longrightarrow> plan_same i b c"
    unfolding grows_def by blast
  have "a_closed_at x \<noteq> None \<longrightarrow> plan_same i a c"
    using y(2,3) z(3) by (auto simp: row_le_def plan_same_def)
  with z(1) row_le_trans [OF y(2) z(2)]
  show "\<exists>y. attempt_at i c = Some y \<and> row_le x y \<and> (a_closed_at x \<noteq> None \<longrightarrow> plan_same i a c)" by blast
qed

lemma grows_update:
  assumes "owners_le (owners db) (owners db')"
    and rows: "attempts db' = update_where p f (attempts db)" and ids: "\<And>x. a_id (f x) = a_id x"
    and le: "\<And>i x. attempt_at i db = Some x \<Longrightarrow> p x \<Longrightarrow> row_le x (f x)"
    and same: "\<And>i x. attempt_at i db = Some x \<Longrightarrow> a_closed_at x \<noteq> None \<Longrightarrow> plan_same i db db'"
  shows "grows db db'"
  unfolding grows_def
proof (intro conjI allI impI assms(1))
  fix i x assume at: "attempt_at i db = Some x"
  have "attempt_at i db' = Some (if p x then f x else x)"
    unfolding rows by (simp add: row_of_update_where ids at)
  moreover have "row_le x (if p x then f x else x)" using le [OF at] by simp
  ultimately show "\<exists>y. attempt_at i db' = Some y \<and> row_le x y \<and> (a_closed_at x \<noteq> None \<longrightarrow> plan_same i db db')"
    using same [OF at] by blast
qed

lemmas plan_view_defs = plan_same_def attempt_expected_def attempt_chunks_def attempt_closures_def

lemma update_where_none: "update_where (\<lambda>_. False) f t = t"
  by (simp add: update_where_def)

lemma grows_attempts_same:
  assumes "owners_le (owners db) (owners db')" "attempts db' = attempts db"
    and "\<And>i x. attempt_at i db = Some x \<Longrightarrow> a_closed_at x \<noteq> None \<Longrightarrow> plan_same i db db'"
  shows "grows db db'"
  using assms grows_update [of db db' "\<lambda>_. False" "\<lambda>x. x"] by (simp add: update_where_none)

lemma grows_claim:
  assumes inv: "lifecycle_inv db" and op: "claim identity db = Inr (u, db')"
  shows "grows db db'"
proof (cases "db' = db")
  case True
  then show ?thesis by (simp add: grows_refl)
next
  case False
  from claim_Inr [OF op] False obtain run a where la: "locked db identity = Inr (run, a)" and none: "a_epochs a = None"
    and d: "let owners' = upsert_all o_scope bump_owner (claim_rows a) (owners db)
         in db' = update_attempt (at_id identity)
              (\<lambda>a'. a'\<lparr>a_epochs := Some (map (\<lambda>k. (k, epoch_of owners' k)) (sort (a_planned a)))\<rparr>)
              (db\<lparr>owners := owners'\<rparr>)" by blast
  note at = locked_Inr(1) [OF la]
  let ?os = "upsert_all o_scope bump_owner (claim_rows a) (owners db)"
  have dist: "distinct (a_planned a)"
    using attempt_row_in [OF inv at] lifecycle_invD(2) [OF inv] by (auto simp: attempt_ok_def)
  have le: "owners_le (owners db) ?os"
    by (auto simp: owners_le_def row_of_claimed [OF dist] claimed_owner_def)
  show ?thesis
  proof (rule grows_update)
    show "attempts db' = update_where (\<lambda>x. a_id x = at_id identity)
        (\<lambda>a'. a'\<lparr>a_epochs := Some (map (\<lambda>k. (k, epoch_of ?os k)) (sort (a_planned a)))\<rparr>) (attempts db)"
      using d by (simp add: Let_def update_attempt_def)
    show "owners_le (owners db) (owners db')" using d le by (simp add: Let_def)
    show "row_le x (x\<lparr>a_epochs := Some (map (\<lambda>k. (k, epoch_of ?os k)) (sort (a_planned a)))\<rparr>)"
      if "attempt_at i db = Some x" "a_id x = at_id identity" for i x
    proof -
      have "x = a" using attempt_row_unique [OF inv at] that row_of_SomeD [OF that(1)] by blast
      with none show ?thesis by (simp add: row_le_def)
    qed
    show "plan_same i db db'" for i using d by (simp add: Let_def plan_view_defs)
  qed simp
qed

lemma open_attempt_other:
  assumes "attempt_at j db = Some a" "a_closed_at a = None" "attempt_at i db = Some x" "a_closed_at x \<noteq> None"
  shows "i \<noteq> j"
  using assms by auto

lemma grows_expect:
  assumes op: "expect_chunk sha256 identity k records values db = Inr (u, db')"
  shows "grows db db'"
proof -
  define scopes where "scopes = sorted_set (map (record_scope sha256) records)"
  obtain run a digest where la: "locked_owner db identity (Some scopes) = Inr (run, a)"
    and op': "a_closed_at a = None"
    and cases: "(case row_of e_pk (at_id identity, k) (expected db) of
         Some existing \<Rightarrow> existing = planned_chunk identity k scopes (length values) digest \<and> db' = db
       | None \<Rightarrow>
           length (filter (\<lambda>e. e_attempt e = at_id identity) (expected db)) < MAX_EXPECTED_CHUNKS
           \<and> a_references a + int (length scopes) \<le> MAX_PLAN_REFERENCES
           \<and> (\<forall>c \<in> set (closures db). cl_attempt c = at_id identity \<longrightarrow> cl_scope c \<notin> set scopes)
           \<and> db' = update_attempt (at_id identity)
               (\<lambda>x. x\<lparr>a_references := a_references a + int (length scopes)\<rparr>)
               (db\<lparr>expected := expected db @ [planned_chunk identity k scopes (length values) digest]\<rparr>))"
    using expect_chunk_Inr [OF op] unfolding scopes_def by blast
  note at = locked_Inr(1) [OF locked_owner_Inr(1) [OF la]]
  show ?thesis
  proof (cases "row_of e_pk (at_id identity, k) (expected db)")
    case (Some e)
    with cases show ?thesis by (simp add: grows_refl)
  next
    case None
    with cases have db': "db' = update_attempt (at_id identity)
               (\<lambda>x. x\<lparr>a_references := a_references a + int (length scopes)\<rparr>)
               (db\<lparr>expected := expected db @ [planned_chunk identity k scopes (length values) digest]\<rparr>)" by simp
    show ?thesis
    proof (rule grows_update)
      show "attempts db' = update_where (\<lambda>x. a_id x = at_id identity)
          (\<lambda>x. x\<lparr>a_references := a_references a + int (length scopes)\<rparr>) (attempts db)"
        by (simp add: db' update_attempt_def)
      show "plan_same i db db'" if "attempt_at i db = Some x" "a_closed_at x \<noteq> None" for i x
        using open_attempt_other [OF at op' that] by (simp add: db' plan_view_defs)
    qed (simp_all add: db' row_le_def)
  qed
qed

lemma grows_close_source:
  assumes op: "close_source identity scope ks db = Inr (u, db')"
  shows "grows db db'"
proof -
  obtain run a where la: "locked_owner db identity (Some [scope]) = Inr (run, a)" and op': "a_closed_at a = None"
    and cases: "db' = db \<or> db' = db\<lparr>closures := closures db @
            [\<lparr>cl_attempt = at_id identity, cl_scope = scope, cl_keys = sorted_set ks\<rparr>]\<rparr>"
    using close_source_Inr [OF op] by blast
  note at = locked_Inr(1) [OF locked_owner_Inr(1) [OF la]]
  show ?thesis
  proof (rule grows_attempts_same)
    show "plan_same i db db'" if "attempt_at i db = Some x" "a_closed_at x \<noteq> None" for i x
      using open_attempt_other [OF at op' that] cases by (auto simp: plan_view_defs)
  qed (use cases in auto)
qed

lemma grows_record:
  assumes op: "record_export_chunk identity k run_id covered chunk ip idg counts now db = Inr (u, db')"
  shows "grows db db'"
proof -
  obtain a where at: "attempt_at (at_id identity) db = Some a"
    and cases: "db' = db \<or> (db' = db\<lparr>chunks := chunks db @ [new_chunk (at_id identity) k (sorted_set covered) chunk counts now]\<rparr>
      \<and> a_closed_at a = None)"
    using op by (rule record_export_chunk_Inr) (auto split: option.splits)
  show ?thesis
  proof (rule grows_attempts_same)
    show "plan_same i db db'" if "attempt_at i db = Some x" "a_closed_at x \<noteq> None" for i x
      using cases open_attempt_other [OF at _ that] by (auto simp: plan_view_defs new_chunk_def)
  qed (use cases in auto)
qed

lemma grows_close_plan:
  assumes op: "close_plan sha256 fj identity now db = Inr (seal, db')" and inv: "lifecycle_inv db"
  shows "grows db db'"
proof -
  obtain run a where la: "locked_owner db identity None = Inr (run, a)"
    and cases: "if a_closed_at a \<noteq> None then db' = db
       else db' = update_attempt (at_id identity) (\<lambda>a. a\<lparr>a_closed_at := Some now, a_seal := seal\<rparr>) db"
    using close_plan_Inr [OF op] by (auto split: if_splits)
  note at = locked_Inr(1) [OF locked_owner_Inr(1) [OF la]]
  show ?thesis
  proof (cases "a_closed_at a")
    case (Some t)
    with cases show ?thesis by (simp add: grows_refl)
  next
    case None
    with cases have db': "db' = update_attempt (at_id identity) (\<lambda>a. a\<lparr>a_closed_at := Some now, a_seal := seal\<rparr>) db" by simp
    show ?thesis
    proof (rule grows_update)
      show "attempts db' = update_where (\<lambda>x. a_id x = at_id identity) (\<lambda>a. a\<lparr>a_closed_at := Some now, a_seal := seal\<rparr>) (attempts db)"
        by (simp add: db' update_attempt_def)
      show "row_le x (x\<lparr>a_closed_at := Some now, a_seal := seal\<rparr>)"
        if "attempt_at i db = Some x" "a_id x = at_id identity" for i x
      proof -
        have "x = a" using attempt_row_unique [OF inv at] that row_of_SomeD [OF that(1)] by blast
        with None show ?thesis by (simp add: row_le_def)
      qed
    qed (simp_all add: db' plan_view_defs)
  qed
qed

lemma grows_finish:
  assumes op: "reconcile_finish identity t receipts now db = Inr (verdict, db')"
  shows "grows db db'"
proof -
  let ?f = "\<lambda>a. a\<lparr>a_status := Sealed, a_sealed_at := Some now\<rparr>"
    and ?p = "\<lambda>a. a_id a = at_id identity \<and> a_status a = Preparing"
  have "owners db' = owners db \<and> chunks db' = chunks db \<and> expected db' = expected db \<and> closures db' = closures db
    \<and> (attempts db' = attempts db \<or> attempts db' = update_where ?p ?f (attempts db))"
    using reconcile_finish_Inr [OF op] by auto
  then have same: "owners db' = owners db" "\<And>i. plan_same i db db'"
    and rows: "attempts db' = attempts db \<or> attempts db' = update_where ?p ?f (attempts db)"
    by (simp_all add: plan_view_defs)
  from rows show ?thesis
  proof
    assume "attempts db' = attempts db"
    with same show ?thesis by (intro grows_attempts_same) simp_all
  next
    assume "attempts db' = update_where ?p ?f (attempts db)"
    then show ?thesis by (rule grows_update [rotated]) (simp_all add: same row_le_def)
  qed
qed

lemma grows_fail: "grows db (fail_export_capture identity code db)"
proof (rule grows_update)
  show "attempts (fail_export_capture identity code db) = update_where
      (\<lambda>a. a_id a = at_id identity \<and> a_owner a = at_owner identity \<and> a_status a = Preparing)
      (\<lambda>a. a\<lparr>a_status := Failed, a_error := Some code\<rparr>) (attempts db)"
    by (simp add: fail_export_capture_def)
qed (simp_all add: fail_export_capture_def row_le_def plan_view_defs)

lemma grows_create:
  assumes op: "create_export_attempt sha256 run_id k pl mode orch u1 u2 now db = Inr (identity, db')"
  shows "grows db db'"
proof -
  obtain run where db': "db' = db\<lparr>attempts := attempts db @ [new_attempt sha256 run k (sorted_set pl) mode u1 u2 now]\<rparr>"
    using create_export_attempt_Inr [OF op] by blast
  then show ?thesis
    by (auto simp: grows_def row_of_append plan_view_defs)
qed

subsection \<open>Steps\<close>

inductive lifecycle_step :: "export_db \<Rightarrow> export_db \<Rightarrow> bool" where
  step_sync: "sync_step (sync db) s \<Longrightarrow> lifecycle_step db (db\<lparr>sync := s\<rparr>)"
| step_create: "create_export_attempt sha256 run_id k pl mode orch u1 u2 now db = Inr (identity, db') \<Longrightarrow> lifecycle_step db db'"
| step_record: "record_export_chunk identity k run_id covered chunk ip idg counts now db = Inr (u, db') \<Longrightarrow> lifecycle_step db db'"
| step_fail: "lifecycle_step db (fail_export_capture identity code db)"
| step_claim: "claim identity db = Inr (u, db') \<Longrightarrow> lifecycle_step db db'"
| step_expect: "expect_chunk sha256 identity k records values db = Inr (u, db') \<Longrightarrow> lifecycle_step db db'"
| step_close_source: "close_source identity scope ks db = Inr (u, db') \<Longrightarrow> lifecycle_step db db'"
| step_close_plan: "close_plan sha256 fj identity now db = Inr (seal, db') \<Longrightarrow> lifecycle_step db db'"
| step_finish: "reconcile_finish identity t receipts now db = Inr (verdict, db') \<Longrightarrow> lifecycle_step db db'"

lemma inv_sync: "lifecycle_inv db \<Longrightarrow> lifecycle_inv (db\<lparr>sync := s\<rparr>)"
  by (simp add: lifecycle_inv_def tables_ok_def attempt_ids_def attempt_ok_def attempt_expected_def
      attempt_chunks_def attempt_closures_def unvalidated_def attempt_evidence_def)

lemma lifecycle_step_effect:
  assumes "lifecycle_step a b" "lifecycle_inv a"
  shows "lifecycle_inv b \<and> grows a b"
  using assms(1)
proof cases
  case (step_sync s)
  with inv_sync [OF assms(2)] show ?thesis
    by (simp add: grows_attempts_same plan_view_defs)
qed (simp_all add: inv_create [OF assms(2)] grows_create inv_record_chunk [OF assms(2)] grows_record
    inv_fail [OF assms(2)] grows_fail inv_claim [OF assms(2)] grows_claim [OF assms(2)] inv_expect [OF assms(2)]
    grows_expect inv_close_source [OF assms(2)] grows_close_source inv_close_plan [OF assms(2)]
    grows_close_plan [OF _ assms(2)] inv_finish [OF assms(2)] grows_finish)

definition export_start :: "export_db \<Rightarrow> bool" where
  "export_start db \<longleftrightarrow> runs (sync db) = [] \<and> attempts db = [] \<and> chunks db = [] \<and> owners db = [] \<and> expected db = []
     \<and> closures db = [] \<and> validated db = [] \<and> evidence db = [] \<and> plans db = [] \<and> generations db = []
     \<and> heads db = [] \<and> refs db = [] \<and> pins db = [] \<and> publication_clock db = None \<and> inventory db = []
     \<and> snapshots db = [] \<and> snapshot_refs db = [] \<and> daily_checkpoint db = None"

lemma lifecycle_inv_start: "export_start db \<Longrightarrow> lifecycle_inv db"
  by (simp add: export_start_def lifecycle_inv_def tables_ok_def epochs_unique_def attempt_ids_def)

interpretation lifecycle_system: step_invariant export_start lifecycle_step lifecycle_inv
  by unfold_locales (auto dest: lifecycle_inv_start lifecycle_step_effect)

lemma lifecycle_grows: "lifecycle_step\<^sup>*\<^sup>* a b \<Longrightarrow> lifecycle_inv a \<Longrightarrow> grows a b"
  by (rule lifecycle_system.steps_preorder [where R = grows])
    (auto intro: grows_refl grows_trans dest: lifecycle_step_effect)

end
