(* ===== verification/Export_Heads.thy ===== *)
theory Export_Heads
  imports Export_Points Export_Inventory Lifecycle_Invariant
begin

section \<open>Declaring a scope and binding its response (export_heads.py)\<close>

text \<open>
  An attempt with one planned source declares its descriptor before the request, then binds the
  complete response to its publication plan; later captures are compared with that plan.  Only the
  promotion (Export_Promotion) makes the plan public.
\<close>

definition first_location :: "descriptor \<Rightarrow> location_row \<Rightarrow> bool" where
  "first_location d l \<longleftrightarrow>
     (case d of
        Grid_Scope g \<Rightarrow> lo_nx l = Some (gs_nx g) \<and> lo_ny l = Some (gs_ny g)
      | Mid_Scope m \<Rightarrow> mid_region_expression l (ms_part m) = Some (ms_region m)
      | Retrieval_Scope r \<Rightarrow> lo_latitude l = rs_latitude r \<and> lo_longitude l = rs_longitude r
      | Sdk_Scope s \<Rightarrow> lo_latitude l = sd_latitude s \<and> lo_longitude l = sd_longitude s)"

definition new_plan :: "head_env \<Rightarrow> export_attempt \<Rightarrow> descriptor \<Rightarrow> instant \<Rightarrow> plan_row" where
  "new_plan env identity d now =
     \<lparr>p_attempt = at_id identity, p_scope = d_source_scope (he_sha256 env) d,
      p_namespace = descriptor_namespace (he_sha256 env) (he_float env) d, p_descriptor = d, p_bound = now,
      p_revision = None, p_input = None, p_collected = None, p_points = None, p_normalization = None,
      p_evidence = None\<rparr>"

definition has_expected :: "export_attempt \<Rightarrow> export_db \<Rightarrow> bool" where
  "has_expected identity db \<longleftrightarrow> list_ex (\<lambda>e. e_attempt e = at_id identity) (expected db)"

abbreviation plan_at :: "text_bytes \<Rightarrow> export_db \<Rightarrow> plan_row option" where
  "plan_at i db \<equiv> row_of p_attempt i (plans db)"

text \<open>\<open>ExportHeads.declare\<close>.\<close>

definition declare_scope :: "head_env \<Rightarrow> export_attempt \<Rightarrow> descriptor \<Rightarrow> instant \<Rightarrow> (export_db, unit) transaction" where
  "declare_scope env identity d now db =
     (case locked_owner db identity None of
        Inl e \<Rightarrow> Inl e
      | Inr (run, attempt) \<Rightarrow>
          if \<not> is_running run \<or> a_status attempt \<noteq> Preparing
             \<or> a_planned attempt \<noteq> [d_source_scope (he_sha256 env) d]
          then Inl (Head_Error Not_Single_Source)
          else case plan_at (at_id identity) db of
            Some existing \<Rightarrow>
              if dump_descriptor (he_float env) (p_descriptor existing) \<noteq> dump_descriptor (he_float env) d
              then Inl (Head_Error Descriptor_Changed) else Inr ((), db)
          | None \<Rightarrow>
              if has_expected identity db then Inl (Head_Error Declared_After_Plan)
              else
                let targets = map lo_id (filter (first_location d) (selected_locations d (locations db)))
                in if \<not> same_set targets (d_locations d) then Inl (Head_Error Catalog_Mismatch)
                   else Inr ((), db\<lparr>plans := plans db @ [new_plan env identity d now]\<rparr>))"

subsection \<open>What binding records\<close>

definition previous_points :: "text_bytes \<Rightarrow> export_db \<Rightarrow> int option" where
  "previous_points namespace db =
     (case row_of h_namespace namespace (heads db) of
        None \<Rightarrow> None
      | Some h \<Rightarrow> map_option g_points (row_of g_id (h_generation h) (generations db)))"

definition shrunken :: "text_bytes \<Rightarrow> nat \<Rightarrow> export_db \<Rightarrow> bool" where
  "shrunken namespace found db \<longleftrightarrow>
     (case previous_points namespace db of None \<Rightarrow> False | Some n \<Rightarrow> n \<noteq> 0 \<and> int found * 2 < n)"

definition bound_plan ::
  "instant \<Rightarrow> text_bytes \<Rightarrow> instant \<Rightarrow> int \<Rightarrow> text_bytes \<Rightarrow> json \<Rightarrow> plan_row \<Rightarrow> plan_row" where
  "bound_plan revision input collected points normalization proof_json p =
     p\<lparr>p_revision := Some revision, p_input := Some input, p_collected := Some collected,
       p_points := Some points, p_normalization := Some normalization, p_evidence := Some proof_json\<rparr>"

definition update_plan :: "text_bytes \<Rightarrow> (plan_row \<Rightarrow> plan_row) \<Rightarrow> export_db \<Rightarrow> export_db" where
  "update_plan i f db = db\<lparr>plans := update_where (\<lambda>p. p_attempt p = i) f (plans db)\<rparr>"

text \<open>
  The end both binds share: a plan bound before must be bound to the same response, a plan whose
  chunks are already announced can no longer be bound.
\<close>

definition bind_plan ::
  "export_attempt \<Rightarrow> plan_row \<Rightarrow> instant \<Rightarrow> text_bytes \<Rightarrow> instant \<Rightarrow> int \<Rightarrow> text_bytes \<Rightarrow> json \<Rightarrow>
   (export_db, unit) transaction" where
  "bind_plan identity p revision digest fetched points normalization proof_json db =
     (if p_input p \<noteq> None then
        (if p_input p \<noteq> Some digest \<or> p_revision p \<noteq> Some revision \<or> p_collected p \<noteq> Some fetched
         then Inl (Head_Error Bound_Plan_Changed) else Inr ((), db))
      else if has_expected identity db then Inl (Head_Error Bound_After_Plan)
      else Inr ((), update_plan (at_id identity)
             (bound_plan revision digest fetched points normalization proof_json) db))"

subsection \<open>Binding a KMA response\<close>

definition json_rows :: "json option \<Rightarrow> export_error + json list" where
  "json_rows v = (case v of None \<Rightarrow> Inl Key_Missing | Some (JArr rows) \<Rightarrow> Inr rows | Some _ \<Rightarrow> Inl Value_Error)"

definition required_field :: "json \<Rightarrow> text_bytes \<Rightarrow> export_error + json" where
  "required_field v k = (case jget v k of None \<Rightarrow> Inl Key_Missing | Some w \<Rightarrow> Inr w)"

text \<open>
  \<open>any(str(r.get("nx")) != str(request["nx"]) or str(r.get("ny")) != str(request["ny"]) for r in rows)\<close>
  over a non-empty list: \<open>request["ny"]\<close> is read only when the first row's \<open>nx\<close> agrees.
\<close>

definition grid_check :: "json \<Rightarrow> json list \<Rightarrow> export_error + (text_bytes \<times> text_bytes)" where
  "grid_check request rows =
     (case jget request ''nx'' of
        None \<Rightarrow> Inl Key_Missing
      | Some nx \<Rightarrow>
          (case jget request ''ny'' of
             None \<Rightarrow> Inl (if py_str (jget (hd rows) ''nx'') \<noteq> py_str (Some nx) then Kma_Error Grid_Mismatch
                          else Key_Missing)
           | Some ny \<Rightarrow>
               if list_ex (\<lambda>r. py_str (jget r ''nx'') \<noteq> py_str (Some nx) \<or> py_str (jget r ''ny'') \<noteq> py_str (Some ny)) rows
               then Inl (Kma_Error Grid_Mismatch) else Inr (py_str (Some nx), py_str (Some ny))))"

record kma_response =
  kr_rows :: "json list"
  kr_revision :: instant
  kr_nx :: text_bytes
  kr_ny :: text_bytes

text \<open>Everything the bind checks before its transaction.\<close>

definition read_kma_response :: "head_env \<Rightarrow> source_record \<Rightarrow> export_error + kma_response" where
  "read_kma_response env r =
     (case json_rows (jget (rec_payload r) ''rows'') of
        Inl e \<Rightarrow> Inl e
      | Inr rows \<Rightarrow>
     (case required_field (rec_payload r) ''response_metadata'' of
        Inl e \<Rightarrow> Inl e
      | Inr meta \<Rightarrow>
     (case required_field meta ''pagination'' of
        Inl e \<Rightarrow> Inl e
      | Inr page \<Rightarrow>
     (case he_receipt env page of
        None \<Rightarrow> Inl Value_Error
      | Some (whole, received) \<Rightarrow>
          if \<not> whole \<or> received \<noteq> length rows \<or> rows = [] then Inl (Kma_Error Pagination_Incomplete)
          else
     (case announced_kma_base (rec_dataset r) meta rows of
        Inl e \<Rightarrow> Inl e
      | Inr (base_date, base_time) \<Rightarrow>
     (case he_kma_time env base_date base_time of
        None \<Rightarrow> Inl Value_Error
      | Some revision \<Rightarrow>
     (case required_field meta ''request_params'' of
        Inl e \<Rightarrow> Inl e
      | Inr request \<Rightarrow>
     (case grid_check request rows of
        Inl e \<Rightarrow> Inl e
      | Inr (nx, ny) \<Rightarrow>
          if \<not> distinct (map (\<lambda>x. (jget x ''category'', jget x ''fcstDate'', jget x ''fcstTime'')) rows)
          then Inl (Kma_Error Duplicate_Rows)
          else Inr \<lparr>kr_rows = rows, kr_revision = revision, kr_nx = nx, kr_ny = ny\<rparr>))))))))"

definition dump_points :: "weather_point list \<Rightarrow> json list" where
  "dump_points ps = map wp_dump ps"

definition bind_kma_rows ::
  "head_env \<Rightarrow> export_attempt \<Rightarrow> source_record \<Rightarrow> kma_response \<Rightarrow> instant \<Rightarrow> plan_row \<Rightarrow> grid_scope \<Rightarrow>
   (export_db, unit) transaction" where
  "bind_kma_rows env identity r k fetched p g db =
     (let rows = kr_rows k; d = Grid_Scope g in
      if gs_coverage g = ''kma-grid-nowcast-v1''
         \<and> \<not> list_all (\<lambda>c. list_ex (\<lambda>x. py_str (jget x ''category'') = c) rows) NOWCAST_REQUIRED_CATEGORIES
      then Inl (Kma_Error Category_Missing)
      else case (if gs_style g = ''nowcast'' then None else forecast_coverage env (gs_style g) rows (kr_revision k)) of
        Some e \<Rightarrow> Inl e
      | None \<Rightarrow>
          if length rows * length (gs_locations g)
               > (if gs_style g = ''nowcast'' then MAX_CHUNK_POINTS else MAX_FORECAST_POINTS)
          then Inl (Head_Error Point_Limit_Exceeded)
          else case he_normalize env d r (gs_locations g) of
            Inl e \<Rightarrow> Inl e
          | Inr (values, skipped) \<Rightarrow>
              (case semantic_digests env (dump_points values) of
                 Inl e \<Rightarrow> Inl e
               | Inr digests \<Rightarrow>
                   if digests = [] then Inl (Head_Error No_Points)
                   else if shrunken (p_namespace p) (length digests) db then Inl (Head_Error Shrunken_Source)
                   else if kr_revision k > fetched then Inl (Head_Error Revision_After_Fetch)
                   else bind_plan identity p (kr_revision k) (source_input_digest env r) fetched
                          (int (length digests)) (set_digest env digests) (json_counts skipped) db))"

definition bind_kma_response ::
  "head_env \<Rightarrow> export_attempt \<Rightarrow> source_record \<Rightarrow> instant \<Rightarrow> (export_db, unit) transaction" where
  "bind_kma_response env identity r now db =
     (case read_kma_response env r of
        Inl e \<Rightarrow> Inl e
      | Inr k \<Rightarrow>
     (case locked_owner db identity None of
        Inl e \<Rightarrow> Inl e
      | Inr (run, attempt) \<Rightarrow>
     (case plan_at (at_id identity) db of
        None \<Rightarrow> Inl Key_Missing
      | Some p \<Rightarrow>
     (case rec_fetched r of
        None \<Rightarrow> Inl Value_Error
      | Some (Naive _) \<Rightarrow> Inl (Head_Error Bind_Refused)
      | Some (Aware fetched) \<Rightarrow>
          (case p_descriptor p of
             Grid_Scope g \<Rightarrow>
               if \<not> is_running run \<or> a_status attempt \<noteq> Preparing \<or> fetched < p_bound p \<or> fetched > now
                  \<or> kr_nx k \<noteq> show_int (gs_nx g) \<or> kr_ny k \<noteq> show_int (gs_ny g)
                  \<or> rec_dataset r \<noteq> gs_dataset g
                  \<or> d_source_scope (he_sha256 env) (Grid_Scope g) \<noteq> record_scope (he_sha256 env) r
               then Inl (Head_Error Bind_Refused)
               else bind_kma_rows env identity r k fetched p g db
           | _ \<Rightarrow> if \<not> is_running run \<or> a_status attempt \<noteq> Preparing \<or> fetched < p_bound p \<or> fetched > now
                 then Inl (Head_Error Bind_Refused) else Inl Key_Missing)))))"

subsection \<open>Binding a replayed response\<close>

text \<open>
  Only the first \<open>MAX_FORECAST_POINTS + 1\<close> points are digested; \<open>other\<close> is what other transactions
  do between reading the plan and writing it, \<open>prove\<close> is \<open>prove_mid_template\<close> (export_mid.py).
\<close>

definition bind_replayed_response ::
  "head_env \<Rightarrow> export_attempt \<Rightarrow> source_record \<Rightarrow> descriptor \<Rightarrow> weather_point list \<Rightarrow> instant \<Rightarrow> text_bytes \<Rightarrow>
   instant \<Rightarrow> (export_db, unit) transaction" where
  "bind_replayed_response env identity r d values revision policy now db =
     (case semantic_digests env (take (MAX_FORECAST_POINTS + 1) (dump_points values)) of
        Inl e \<Rightarrow> Inl e
      | Inr digests \<Rightarrow>
          if length digests > MAX_FORECAST_POINTS then Inl (Head_Error Point_Limit_Exceeded)
          else if digests = [] then Inl (Head_Error No_Points)
          else case rec_fetched r of
            Some (Aware fetched) \<Rightarrow>
              if revision > fetched then Inl (Head_Error Revision_After_Fetch)
              else (case locked_owner db identity None of
                Inl e \<Rightarrow> Inl e
              | Inr (run, attempt) \<Rightarrow>
                  (case plan_at (at_id identity) db of
                     None \<Rightarrow> Inl Key_Missing
                   | Some p \<Rightarrow>
                       if dump_descriptor (he_float env) (p_descriptor p) \<noteq> dump_descriptor (he_float env) d
                          \<or> \<not> is_running run \<or> a_status attempt \<noteq> Preparing
                          \<or> fetched < p_bound p \<or> fetched > now
                          \<or> d_source_scope (he_sha256 env) d \<noteq> record_scope (he_sha256 env) r
                       then Inl (Head_Error Bind_Refused)
                       else if shrunken (p_namespace p) (length digests) db then Inl (Head_Error Shrunken_Source)
                       else bind_plan identity p revision (source_input_digest env r) fetched
                              (int (length digests)) (set_digest env digests)
                              (JObj [(''policy'', JStr policy)]) db))
          | _ \<Rightarrow> Inl Value_Error)"

definition bind_external_response ::
  "head_env \<Rightarrow> export_attempt \<Rightarrow> source_record \<Rightarrow> instant \<Rightarrow> (export_db \<Rightarrow> export_db) \<Rightarrow> (export_db, unit) transaction" where
  "bind_external_response env identity r now other db =
     (case plan_at (at_id identity) db of
        None \<Rightarrow> Inl Key_Missing
      | Some p \<Rightarrow>
          (case p_descriptor p of
             Grid_Scope _ \<Rightarrow> Inl (Head_Error Bind_Refused)
           | Mid_Scope _ \<Rightarrow> Inl (Head_Error Bind_Refused)
           | d \<Rightarrow>
               (case (he_normalize env d r (d_locations d), rec_fetched r) of
                  (Inl e, _) \<Rightarrow> Inl e
                | (Inr (values, _), Some (Aware fetched)) \<Rightarrow>
                    bind_replayed_response env identity r d values fetched ''latest-retrieval-v1'' now (other db)
                | _ \<Rightarrow> Inl Value_Error)))"

definition bind_mid_response ::
  "head_env \<Rightarrow> (descriptor \<Rightarrow> source_record \<Rightarrow> export_error + instant) \<Rightarrow> export_attempt \<Rightarrow> source_record \<Rightarrow> instant \<Rightarrow>
   (export_db \<Rightarrow> export_db) \<Rightarrow> (export_db, unit) transaction" where
  "bind_mid_response env prove identity r now other db =
     (case plan_at (at_id identity) db of
        None \<Rightarrow> Inl Key_Missing
      | Some p \<Rightarrow>
          (case p_descriptor p of
             Mid_Scope m \<Rightarrow>
               let d = Mid_Scope m in
               (case prove d r of
                  Inl e \<Rightarrow> Inl e
                | Inr revision \<Rightarrow>
                    (case he_normalize env d r (ms_locations m) of
                       Inl e \<Rightarrow> Inl e
                     | Inr (values, _) \<Rightarrow>
                         bind_replayed_response env identity r d values revision ''latest-issued-mid-v1'' now (other db)))
           | _ \<Rightarrow> Inl (Head_Error Bind_Refused)))"

subsection \<open>A capture must be the bound response\<close>

definition point_matches :: "descriptor \<Rightarrow> instant \<Rightarrow> weather_point \<Rightarrow> bool" where
  "point_matches d revision v \<longleftrightarrow>
     wp_provider v = d_provider d \<and> wp_dataset v = d_dataset d \<and> wp_style v = d_style d
     \<and> wp_location v \<in> set (d_locations d) \<and> wp_domain v = d_domain d
     \<and> wp_version v = (if d_coverage d = ''kma-mid-region-v1'' then ''kma-v1'' else d_normalizer d)
     \<and> (d_style d = ''nowcast'' \<longrightarrow> wp_target v = Some revision)"

text \<open>
  A nowcast capture is the whole normalised source; a forecast capture may be a bounded part of it,
  and the promotion compares the union.
\<close>

definition validate_head_capture ::
  "head_env \<Rightarrow> text_bytes \<Rightarrow> source_record list \<Rightarrow> weather_point list \<Rightarrow> (text_bytes \<times> py_datetime) list \<Rightarrow>
   export_db \<Rightarrow> export_error option" where
  "validate_head_capture env attempt_id records values observed db =
     (case plan_at attempt_id db of
        None \<Rightarrow> None
      | Some p \<Rightarrow>
          (case (p_revision p, records, p_collected p) of
             (Some revision, [r], Some collected) \<Rightarrow>
               let d = p_descriptor p in
               if Some (source_input_digest env r) \<noteq> p_input p \<or> rec_fetched r \<noteq> Some (Aware collected)
                  \<or> \<not> dict_eq observed [(rec_key r, Aware collected)]
                  \<or> list_ex (\<lambda>v. \<not> point_matches d revision v) values
               then Some (Head_Error Capture_Differs)
               else case semantic_digests env (dump_points values) of
                 Inl e \<Rightarrow> Some e
               | Inr found \<Rightarrow>
                   if d_style d = ''nowcast'' then
                     (if Some (int (length values)) \<noteq> p_points p \<or> Some (set_digest env found) \<noteq> p_normalization p
                      then Some (Head_Error Capture_Differs) else None)
                   else
                     (case he_normalize env d r (sorted_set (map wp_location values)) of
                        Inl e \<Rightarrow> Some e
                      | Inr (replayed, _) \<Rightarrow>
                          (case semantic_digests env (dump_points replayed) of
                             Inl e \<Rightarrow> Some e
                           | Inr wanted \<Rightarrow>
                               if found = [] \<or> \<not> distinct found \<or> \<not> list_all (\<lambda>x. x \<in> set wanted) found
                               then Some (Head_Error Capture_Differs) else None))
           | _ \<Rightarrow> Some (Head_Error Capture_Differs)))"

end
