(* ===== verification/Export_Promotion.thy ===== *)
theory Export_Promotion
  imports Export_Heads
begin

section \<open>Promoting a sealed attempt to the head of its namespace (export_heads.py, promote)\<close>

text \<open>
  The promotion is four transactions with the files read between them: an idempotence check, the
  reconciliation, the reading of plan, receipts and parent head (which also pins the files), and
  the compare-and-swap of the head, which runs inside the exclusive artifact guard.  Each is a
  definition, and \<open>promote\<close> composes them with what other transactions do in between.
\<close>

datatype promotion_result =
  Already_Committed | Not_Eligible readiness | Conflict | Superseded | Published

text \<open>The first transaction.\<close>

definition promote_committed :: "export_attempt \<Rightarrow> export_db \<Rightarrow> export_error + bool" where
  "promote_committed identity db =
     (case row_of g_attempt (at_id identity) (generations db) of
        None \<Rightarrow> Inr False
      | Some g \<Rightarrow> if g_owner g \<noteq> at_owner identity then Inl (Head_Error Committed_Owner_Differs) else Inr True)"

subsection \<open>Preparing: plan, receipts, parent, pins\<close>

record promotion =
  pr_plan :: plan_row
  pr_revision :: instant
  pr_collected :: instant
  pr_receipts :: "chunk_row list"
  pr_parent :: "head_row option"
  pr_parent_refs :: "ref_row list"
  pr_token :: "text_bytes option"

definition promotion_pin :: "head_env \<Rightarrow> export_attempt \<Rightarrow> text_bytes \<Rightarrow> instant \<Rightarrow> nat \<times> text_bytes \<Rightarrow> pin_row" where
  "promotion_pin env identity kind now x =
     \<lparr>pin_attempt = at_id identity, pin_key = digest_json env (JArr [JStr kind, JInt (int (fst x))]),
      pin_digest = snd x, pin_created = now\<rparr>"

definition promotion_pins :: "head_env \<Rightarrow> export_attempt \<Rightarrow> instant \<Rightarrow> chunk_row list \<Rightarrow> ref_row list \<Rightarrow> pin_row list" where
  "promotion_pins env identity now receipts parent_refs =
     map (promotion_pin env identity ''candidate'' now) (enumerate 0 (map ch_digest receipts))
     @ map (promotion_pin env identity ''parent'' now) (enumerate 0 (map r_digest parent_refs))"

definition generation_refs :: "text_bytes \<Rightarrow> export_db \<Rightarrow> ref_row list" where
  "generation_refs g db = sort_key r_ordinal (filter (\<lambda>r. r_generation r = g) (refs db))"

definition promote_prepare ::
  "head_env \<Rightarrow> export_attempt \<Rightarrow> instant \<Rightarrow> (export_db, promotion) transaction" where
  "promote_prepare env identity now db =
     (case locked_owner db identity None of
        Inl e \<Rightarrow> Inl e
      | Inr (run, attempt) \<Rightarrow>
          (case plan_at (at_id identity) db of
             None \<Rightarrow> Inl (Head_Error No_Revision_Plan)
           | Some p \<Rightarrow>
               (case (p_revision p, p_collected p) of
                  (Some revision, Some collected) \<Rightarrow>
                    let receipts = take (MAX_PROMOTION_CHUNKS + 1) (attempt_chunks (at_id identity) db) in
                    if length receipts > MAX_PROMOTION_CHUNKS \<or> sum_list (map ch_bytes receipts) > MAX_PROMOTION_BYTES
                    then Inl (Head_Error Promotion_Limit)
                    else if receipts = []
                      \<or> list_ex (\<lambda>c. ch_covered c \<noteq> [p_scope p] \<or> ch_collected c \<noteq> collected) receipts
                    then Inl (Head_Error Mixed_Sources)
                    else
                      let parent = row_of h_namespace (p_namespace p) (heads db);
                          parent_refs = (case parent of None \<Rightarrow> [] | Some h \<Rightarrow> generation_refs (h_generation h) db)
                      in Inr (\<lparr>pr_plan = p, pr_revision = revision, pr_collected = collected, pr_receipts = receipts,
                           pr_parent = parent, pr_parent_refs = parent_refs, pr_token = a_seal attempt\<rparr>,
                         db\<lparr>pins := fold (insert_ignore pin_pk)
                           (promotion_pins env identity now receipts parent_refs) (pins db)\<rparr>)
                | _ \<Rightarrow> Inl (Head_Error No_Revision_Plan))))"

subsection \<open>Examining the files, outside every lock\<close>

definition LOGICAL_KEY :: "text_bytes list" where
  "LOGICAL_KEY = [''location_id'', ''provider'', ''dataset_key'', ''weather_domain'', ''forecast_style'',
     ''metric_key'', ''target_at'']"

definition jget_or_null :: "json \<Rightarrow> text_bytes \<Rightarrow> json" where
  "jget_or_null v k = (case jget v k of None \<Rightarrow> JNull | Some w \<Rightarrow> w)"

definition logical_key :: "head_env \<Rightarrow> json \<Rightarrow> text_bytes" where
  "logical_key env point = digest_json env (JArr (map (jget_or_null point) LOGICAL_KEY))"

text \<open>\<open>point["location_id"]\<close>; a location that is not a string is in no descriptor.\<close>

definition point_location :: "json \<Rightarrow> export_error + text_bytes" where
  "point_location point =
     (case jget point ''location_id'' of
        None \<Rightarrow> Inl Key_Missing | Some (JStr s) \<Rightarrow> Inr s | Some _ \<Rightarrow> Inl (Head_Error Incomplete_Set))"

fun examine_points ::
  "head_env \<Rightarrow> descriptor \<Rightarrow> text_bytes list \<Rightarrow> json list \<Rightarrow>
   export_error + (text_bytes list \<times> text_bytes list \<times> text_bytes list)" where
  "examine_points env d seen [] = Inr (seen, [], [])"
| "examine_points env d seen (point # points) =
     (if jget point ''provider'' \<noteq> Some (JStr (d_provider d)) \<or> jget point ''dataset_key'' \<noteq> Some (JStr (d_dataset d))
         \<or> jget point ''forecast_style'' \<noteq> Some (JStr (d_style d))
      then Inl (Head_Error Policy_Mismatch)
      else
        let key = logical_key env point in
        if key \<in> set seen then Inl (Head_Error Duplicate_Point)
        else case semantic_point_digest env point of
          Inl e \<Rightarrow> Inl e
        | Inr digest \<Rightarrow>
            (case point_location point of
               Inl e \<Rightarrow> Inl e
             | Inr location \<Rightarrow>
                 (case examine_points env d (key # seen) points of
                    Inl e \<Rightarrow> Inl e
                  | Inr (seen', digests, locs) \<Rightarrow> Inr (seen', digest # digests, location # locs))))"

record file_ref =
  fr_digest :: text_bytes
  fr_bytes :: int
  fr_points :: int
  fr_locations :: "text_bytes list"

fun examine_chunks ::
  "head_env \<Rightarrow> directory \<Rightarrow> text_bytes list option \<Rightarrow> descriptor \<Rightarrow> text_bytes list \<Rightarrow> chunk_row list \<Rightarrow>
   export_error + (text_bytes list \<times> file_ref list)" where
  "examine_chunks env dir verified d seen [] = Inr ([], [])"
| "examine_chunks env dir verified d seen (c # cs) =
     (case store_read (he_sha256 env) (he_loads env) dir verified (ch_digest c) (ch_bytes c) (ch_points c) of
        Inl e \<Rightarrow> Inl (Artifact_Failure e)
      | Inr points \<Rightarrow>
          (case examine_points env d seen points of
             Inl e \<Rightarrow> Inl e
           | Inr (seen', digests, locs) \<Rightarrow>
               (case examine_chunks env dir verified d seen' cs of
                  Inl e \<Rightarrow> Inl e
                | Inr (others, files) \<Rightarrow>
                    Inr (digests @ others,
                      \<lparr>fr_digest = ch_digest c, fr_bytes = ch_bytes c, fr_points = ch_points c,
                       fr_locations = sorted_set locs\<rparr> # files))))"

text \<open>The files of the previous head, when its content is the same and they are used again.\<close>

fun parent_locations :: "descriptor \<Rightarrow> json list \<Rightarrow> export_error + text_bytes list" where
  "parent_locations d [] = Inr []"
| "parent_locations d (point # points) =
     (case point_location point of
        Inl e \<Rightarrow> Inl (if e = Key_Missing then e else Head_Error Parent_Mismatch)
      | Inr location \<Rightarrow>
          if location \<notin> set (d_locations d) then Inl (Head_Error Parent_Mismatch)
          else (case (jget point ''provider'', jget point ''forecast_style'') of
            (Some provider, Some style) \<Rightarrow>
              if provider \<noteq> JStr (d_provider d) \<or> style \<noteq> JStr (d_style d) then Inl (Head_Error Parent_Mismatch)
              else (case parent_locations d points of Inl e \<Rightarrow> Inl e | Inr ls \<Rightarrow> Inr (location # ls))
          | (Some provider, None) \<Rightarrow>
              Inl (if provider \<noteq> JStr (d_provider d) then Head_Error Parent_Mismatch else Key_Missing)
          | (None, _) \<Rightarrow> Inl Key_Missing))"

fun examine_parent ::
  "head_env \<Rightarrow> directory \<Rightarrow> text_bytes list option \<Rightarrow> descriptor \<Rightarrow> ref_row list \<Rightarrow> export_error + file_ref list" where
  "examine_parent env dir verified d [] = Inr []"
| "examine_parent env dir verified d (r # rs) =
     (case store_read (he_sha256 env) (he_loads env) dir verified (r_digest r) (r_bytes r) (r_points r) of
        Inl e \<Rightarrow> Inl (Artifact_Failure e)
      | Inr points \<Rightarrow>
          (case parent_locations d points of
             Inl e \<Rightarrow> Inl e
           | Inr locs \<Rightarrow>
               (case examine_parent env dir verified d rs of
                  Inl e \<Rightarrow> Inl e
                | Inr files \<Rightarrow>
                    Inr (\<lparr>fr_digest = r_digest r, fr_bytes = r_bytes r, fr_points = r_points r,
                      fr_locations = sorted_set locs\<rparr> # files))))"

record examined =
  ex_content :: text_bytes
  ex_count :: nat
  ex_files :: "file_ref list"

definition promote_examine ::
  "head_env \<Rightarrow> directory \<Rightarrow> text_bytes list option \<Rightarrow> promotion \<Rightarrow> export_error + examined" where
  "promote_examine env dir verified pr =
     (let d = p_descriptor (pr_plan pr) in
      case examine_chunks env dir verified d [] (pr_receipts pr) of
        Inl e \<Rightarrow> Inl e
      | Inr (digests, files) \<Rightarrow>
          let content = set_digest env digests;
              reuse = (case pr_parent pr of None \<Rightarrow> False | Some h \<Rightarrow> h_content h = content)
          in if Some (int (length digests)) \<noteq> p_points (pr_plan pr) \<or> digests = []
                \<or> \<not> same_set (concat (map fr_locations files)) (d_locations d)
             then Inl (Head_Error Incomplete_Set)
             else if Some content \<noteq> p_normalization (pr_plan pr) then Inl (Head_Error Union_Differs)
             else if \<not> reuse then Inr \<lparr>ex_content = content, ex_count = length digests, ex_files = files\<rparr>
             else if length (pr_parent_refs pr) > MAX_PROMOTION_CHUNKS
                \<or> sum_list (map r_bytes (pr_parent_refs pr)) > MAX_PROMOTION_BYTES
             then Inl (Head_Error Promotion_Limit)
             else case examine_parent env dir verified d (pr_parent_refs pr) of
               Inl e \<Rightarrow> Inl e
             | Inr again \<Rightarrow> Inr \<lparr>ex_content = content, ex_count = length digests, ex_files = again\<rparr>)"

subsection \<open>The compare-and-swap\<close>

text \<open>
  The publication clock: later than the database clock, than every generation and than its own
  last value (\<open>greatest\<close> ignores NULL).
\<close>

definition next_publication :: "instant \<Rightarrow> export_db \<Rightarrow> instant" where
  "next_publication now db =
     (let candidate = fold max (map (\<lambda>g. g_created g + 1) (generations db)) now
      in case publication_clock db of None \<Rightarrow> candidate | Some c \<Rightarrow> max (c + 1) candidate)"

fun files_present :: "directory \<Rightarrow> (text_bytes \<times> int) list \<Rightarrow> export_error option" where
  "files_present dir [] = None"
| "files_present dir ((digest, bytes) # fs) =
     (case store_present dir digest bytes of Inl e \<Rightarrow> Some (Artifact_Failure e) | Inr _ \<Rightarrow> files_present dir fs)"

definition generation_ref :: "text_bytes \<Rightarrow> nat \<times> file_ref \<Rightarrow> ref_row" where
  "generation_ref g x =
     \<lparr>r_generation = g, r_ordinal = fst x, r_digest = fr_digest (snd x), r_bytes = fr_bytes (snd x),
      r_points = fr_points (snd x), r_locations = Some (fr_locations (snd x))\<rparr>"

definition new_generation ::
  "export_attempt \<Rightarrow> promotion \<Rightarrow> examined \<Rightarrow> text_bytes \<Rightarrow> text_bytes \<Rightarrow> text_bytes option \<Rightarrow> instant \<Rightarrow> generation_row" where
  "new_generation identity pr ex g token parent now =
     \<lparr>g_id = g, g_attempt = at_id identity, g_owner = at_owner identity, g_seal = token,
      g_namespace = p_namespace (pr_plan pr), g_parent = parent, g_revision = pr_revision pr,
      g_collected = pr_collected pr, g_content = ex_content ex, g_points = int (ex_count ex), g_created = now\<rparr>"

definition new_head :: "promotion \<Rightarrow> examined \<Rightarrow> text_bytes \<Rightarrow> head_row option \<Rightarrow> head_row" where
  "new_head pr ex g old =
     \<lparr>h_namespace = p_namespace (pr_plan pr), h_scope = (case old of None \<Rightarrow> p_scope (pr_plan pr) | Some h \<Rightarrow> h_scope h),
      h_generation = g, h_version = (case old of None \<Rightarrow> 1 | Some h \<Rightarrow> h_version h + 1),
      h_revision = pr_revision pr, h_content = ex_content ex,
      h_collected = (case old of None \<Rightarrow> pr_collected pr | Some h \<Rightarrow> max (pr_collected pr) (h_collected h))\<rparr>"

text \<open>The judgement on the head the compare-and-swap finds: \<open>None\<close> means go on.\<close>

definition head_verdict :: "promotion \<Rightarrow> examined \<Rightarrow> head_row option \<Rightarrow> promotion_result option" where
  "head_verdict pr ex old =
     (if map_option h_generation old \<noteq> map_option h_generation (pr_parent pr) then Some Conflict
      else case old of
        None \<Rightarrow> None
      | Some h \<Rightarrow>
          if pr_revision pr < h_revision h then Some Superseded
          else if pr_revision pr = h_revision h \<and> h_content h \<noteq> ex_content ex then Some Conflict
          else None)"

definition publish_rows ::
  "export_attempt \<Rightarrow> promotion \<Rightarrow> examined \<Rightarrow> text_bytes \<Rightarrow> text_bytes \<Rightarrow> head_row option \<Rightarrow> instant \<Rightarrow> export_db \<Rightarrow> export_db" where
  "publish_rows identity pr ex g token old now db =
     db\<lparr>publication_clock := Some now,
        generations := generations db @ [new_generation identity pr ex g token (map_option h_generation old) now],
        refs := refs db @ map (generation_ref g) (enumerate 0 (ex_files ex)),
        heads := upsert h_namespace (\<lambda>old new. new) (new_head pr ex g old) (heads db)\<rparr>"

definition finish_publication :: "export_attempt \<Rightarrow> instant \<Rightarrow> export_db \<Rightarrow> export_db" where
  "finish_publication identity now db =
     db\<lparr>attempts := update_where (\<lambda>a. a_id a = at_id identity \<and> a_owner a = at_owner identity)
          (\<lambda>a. a\<lparr>a_published_at := Some now\<rparr>) (attempts db),
        pins := delete_where (\<lambda>p. pin_attempt p = at_id identity) (pins db)\<rparr>"

definition promote_commit ::
  "head_env \<Rightarrow> directory \<Rightarrow> export_attempt \<Rightarrow> promotion \<Rightarrow> examined \<Rightarrow> text_bytes \<Rightarrow> instant \<Rightarrow>
   (export_db, promotion_result) transaction" where
  "promote_commit env dir identity pr ex g now db =
     (case row_of g_attempt (at_id identity) (generations db) of
        Some old \<Rightarrow>
          if g_owner old \<noteq> at_owner identity \<or> Some (g_seal old) \<noteq> pr_token pr
          then Inl (Head_Error Committed_Owner_Differs) else Inr (Already_Committed, db)
      | None \<Rightarrow>
     (case locked_owner db identity None of
        Inl e \<Rightarrow> Inl e
      | Inr (run, attempt) \<Rightarrow>
          if sr_status run \<noteq> ''success'' \<or> a_status attempt \<noteq> Sealed \<or> a_seal attempt \<noteq> pr_token pr
          then Inr (Conflict, db)
          else
            let old = row_of h_namespace (p_namespace (pr_plan pr)) (heads db) in
            case head_verdict pr ex old of
              Some verdict \<Rightarrow> Inr (verdict, db)
            | None \<Rightarrow>
                (case files_present dir (map (\<lambda>f. (fr_digest f, fr_bytes f)) (ex_files ex)) of
                   Some e \<Rightarrow> Inl e
                 | None \<Rightarrow>
                     (case pr_token pr of
                        None \<Rightarrow> Inl Integrity_Violation
                      | Some token \<Rightarrow>
                          if row_of g_id g (generations db) \<noteq> None \<or> ex_count ex = 0
                             \<or> \<not> distinct (map fr_digest (ex_files ex))
                          then Inl Integrity_Violation
                          else
                            let published = next_publication now db;
                                db1 = publish_rows identity pr ex g token old published db
                            in case record_approved_locations (he_sha256 env) (he_float env)
                                      (p_descriptor (pr_plan pr)) g db1 of
                                 Inl e \<Rightarrow> Inl e
                               | Inr (_, db2) \<Rightarrow> Inr (Published, finish_publication identity published db2)))))"

subsection \<open>The whole promotion\<close>

text \<open>
  \<open>o1\<close>, \<open>o2\<close> and \<open>o3\<close> are what other transactions do between the transactions of this one (the
  reconciliation has its own pause \<open>other\<close>); \<open>dir\<close> and \<open>dir'\<close> are the directory while the files are
  read and inside the final guard.
\<close>

definition promote ::
  "head_env \<Rightarrow> directory \<Rightarrow> directory \<Rightarrow> (text_bytes \<Rightarrow> unit + text_bytes option) option \<Rightarrow> export_attempt \<Rightarrow>
   text_bytes \<Rightarrow> instant \<Rightarrow> (export_db \<Rightarrow> export_db) \<Rightarrow> (export_db \<Rightarrow> export_db) \<Rightarrow> (export_db \<Rightarrow> export_db) \<Rightarrow>
   (export_db \<Rightarrow> export_db) \<Rightarrow> export_db \<Rightarrow> (export_error + promotion_result) \<times> export_db" where
  "promote env dir dir' status identity g now o1 other o2 o3 db =
     (case promote_committed identity db of
        Inl e \<Rightarrow> (Inl e, db)
      | Inr True \<Rightarrow> (Inr Already_Committed, db)
      | Inr False \<Rightarrow>
     (case reconcile (he_sha256 env) dir (Some []) status identity 8 now other (o1 db) of
        (Inl e, _, db1) \<Rightarrow> (Inl e, db1)
      | (Inr readiness, verified, db1) \<Rightarrow>
          if readiness \<noteq> Eligible then (Inr (Not_Eligible readiness), db1)
          else
     (case promote_prepare env identity now (o2 db1) of
        Inl e \<Rightarrow> (Inl e, o2 db1)
      | Inr (pr, db2) \<Rightarrow>
     (case promote_examine env dir verified pr of
        Inl e \<Rightarrow> (Inl e, o3 db2)
      | Inr ex \<Rightarrow>
          (case promote_commit env dir' identity pr ex g now (o3 db2) of
             Inl e \<Rightarrow> (Inl e, o3 db2)
           | Inr (result, db3) \<Rightarrow> (Inr result, db3))))))"

end
