(* ===== verification/Export_Publisher.thy ===== *)
theory Export_Publisher
  imports Export_Promotion
begin

section \<open>The publisher: promoting and retiring pending attempts (export_collector.py)\<close>

text \<open>
  One tick promotes the pending attempts whose run has succeeded and retires the ones that can
  never be promoted: superseded by a later claim of every scope, or of a run that ended in failure.
\<close>

definition FAILED_NATIVE :: "text_bytes list" where
  "FAILED_NATIVE = [''failed'', ''partial'', ''partial_success'', ''canceled'', ''cancelled'', ''skipped'', ''abandoned'']"

definition RETIRE_BATCH :: nat where "RETIRE_BATCH = 500"

subsection \<open>Ownership, as the SQL of the batch sees it\<close>

text \<open>
  \<open>_ownership_sql\<close>: the claimed scopes are the planned ones, every owner row exists and none
  violates the condition; an epoch of more than 18 digits reads as NULL, which is a violation.
\<close>

definition ownership :: "(int \<Rightarrow> owner_row \<Rightarrow> bool) \<Rightarrow> owner_row list \<Rightarrow> attempt_row \<Rightarrow> bool" where
  "ownership violation os a \<longleftrightarrow>
     (case a_epochs a of
        None \<Rightarrow> False
      | Some es \<Rightarrow>
          es \<noteq> [] \<and> same_set (dict_keys es) (a_planned a)
          \<and> list_all (\<lambda>(s, n). case row_of o_scope s os of
                None \<Rightarrow> False | Some o' \<Rightarrow> 0 \<le> n \<and> n < 10 ^ 18 \<and> \<not> violation n o') es)"

definition superseded :: "owner_row list \<Rightarrow> attempt_row \<Rightarrow> bool" where
  "superseded os a = ownership (\<lambda>n o'. o_epoch o' \<le> n \<or> o_attempt o' = a_id a) os a"

definition currently_owned :: "owner_row list \<Rightarrow> attempt_row \<Rightarrow> bool" where
  "currently_owned os a = ownership (\<lambda>n o'. o_epoch o' \<noteq> n \<or> o_attempt o' \<noteq> a_id a) os a"

definition is_pending :: "attempt_row \<Rightarrow> bool" where
  "is_pending a \<longleftrightarrow> a_status a \<noteq> Failed \<and> a_published_at a = None"

definition no_generation :: "export_db \<Rightarrow> text_bytes \<Rightarrow> bool" where
  "no_generation db i \<longleftrightarrow> row_of g_attempt i (generations db) = None"

definition native_failed :: "export_db \<Rightarrow> attempt_row \<Rightarrow> bool" where
  "native_failed db a \<longleftrightarrow>
     (case run_at (a_run a) db of None \<Rightarrow> False | Some run \<Rightarrow> sr_status run \<in> set FAILED_NATIVE)"

subsection \<open>Retiring\<close>

definition retire_row :: "text_bytes \<Rightarrow> attempt_row \<Rightarrow> attempt_row" where
  "retire_row code a = a\<lparr>a_status := Failed, a_error := Some code\<rparr>"

definition retire :: "text_bytes list \<Rightarrow> text_bytes \<Rightarrow> text_bytes option \<Rightarrow> export_db \<Rightarrow> export_db" where
  "retire ids code owner db =
     db\<lparr>attempts := update_where (\<lambda>a. a_id a \<in> set ids \<and> a_status a \<noteq> Failed
          \<and> (case owner of None \<Rightarrow> True | Some w \<Rightarrow> a_owner a = w)) (retire_row code) (attempts db),
        pins := delete_where (\<lambda>p. pin_attempt p \<in> set ids) (pins db)\<rparr>"

text \<open>
  One statement of the batch: \<open>skip\<close> are the attempts other transactions hold (SKIP LOCKED).
\<close>

definition settled_ids :: "(attempt_row \<Rightarrow> bool) \<Rightarrow> nat \<Rightarrow> text_bytes list \<Rightarrow> export_db \<Rightarrow> text_bytes list" where
  "settled_ids condition limit skip db =
     take limit (sort (map a_id (filter (\<lambda>a. is_pending a \<and> no_generation db (a_id a) \<and> condition a
       \<and> a_id a \<notin> set skip) (attempts db))))"

definition retire_superseded :: "nat \<Rightarrow> text_bytes list \<Rightarrow> export_db \<Rightarrow> nat \<times> export_db" where
  "retire_superseded limit skip db =
     (let ids = settled_ids (superseded (owners db)) limit skip db
      in (length ids, if ids = [] then db else retire ids ''SUPERSEDED'' None db))"

definition retire_terminal :: "nat \<Rightarrow> text_bytes list \<Rightarrow> export_db \<Rightarrow> nat \<times> export_db" where
  "retire_terminal limit skip db =
     (let ids = settled_ids (\<lambda>a. native_failed db a \<and> \<not> superseded (owners db) a) limit skip db
      in (length ids, if ids = [] then db else retire ids ''CONFIRMED_TERMINAL'' None db))"

definition retire_settled_attempts ::
  "int \<Rightarrow> text_bytes list \<Rightarrow> text_bytes list \<Rightarrow> (export_db \<Rightarrow> export_db) \<Rightarrow> export_db \<Rightarrow>
   export_error + ((text_bytes \<times> nat) list \<times> export_db)" where
  "retire_settled_attempts limit skip skip' other db =
     (if \<not> (1 \<le> limit \<and> limit \<le> 5000) then Inl Value_Error
      else
        let (n, db1) = retire_superseded (nat limit) skip db;
            (m, db2) = retire_terminal (nat limit) skip' (other db1)
        in Inr ([(''SUPERSEDED'', n), (''CONFIRMED_TERMINAL'', m)], db2))"

subsection \<open>One candidate\<close>

datatype publisher_outcome =
  Retired_Superseded | Stay_Pending | Has_Generation | Retired_Terminal | Promotion_Result promotion_result

type_synonym orchestrator = "(text_bytes \<Rightarrow> unit + text_bytes option) option"

text \<open>\<open>_probe\<close>: an absent id or callable, an exception and a timeout all read as \<open>None\<close>.\<close>

definition probe_status :: "orchestrator \<Rightarrow> text_bytes option \<Rightarrow> text_bytes option" where
  "probe_status status orchestrator_id =
     (case (orchestrator_id, status) of
        (Some i, Some ask) \<Rightarrow> if i = [] then None else (case ask i of Inl _ \<Rightarrow> None | Inr s \<Rightarrow> s)
      | _ \<Rightarrow> None)"

definition terminal_begin ::
  "export_attempt \<Rightarrow> export_db \<Rightarrow> export_error + ((sync_run \<times> attempt_row) option \<times> export_db)" where
  "terminal_begin identity db =
     (case locked db identity of
        Inl e \<Rightarrow> Inl e
      | Inr (run, attempt) \<Rightarrow>
          if (case a_epochs attempt of None \<Rightarrow> False | Some es \<Rightarrow> es \<noteq> [])
             \<and> superseded (owners db) attempt \<and> no_generation db (at_id identity)
          then Inr (None, retire [at_id identity] ''SUPERSEDED'' (Some (at_owner identity)) db)
          else Inr (Some (run, attempt), db))"

definition failed_orchestrator :: "text_bytes option \<Rightarrow> bool" where
  "failed_orchestrator s \<longleftrightarrow> s = Some ''FAILURE'' \<or> s = Some ''CANCELED''"

text \<open>Between the transactions: \<open>Inl\<close> is an answer without a second one, \<open>Inr\<close> the status seen.\<close>

definition terminal_probe ::
  "orchestrator \<Rightarrow> sync_run \<times> attempt_row \<Rightarrow> publisher_outcome option + text_bytes option" where
  "terminal_probe status t =
     (case t of (run, attempt) \<Rightarrow>
        if sr_status run \<in> set FAILED_NATIVE then Inr None
        else if a_mode attempt = ''dagster'' then
          (let s = probe_status status (a_orchestrator attempt)
           in if s \<noteq> Some ''SUCCESS'' \<and> \<not> failed_orchestrator s then Inl (Some Stay_Pending)
              else if failed_orchestrator s then Inr s else Inl None)
        else Inl None)"

definition terminal_finish ::
  "export_attempt \<Rightarrow> attempt_row \<Rightarrow> text_bytes option \<Rightarrow> instant \<Rightarrow> (export_db, publisher_outcome) transaction" where
  "terminal_finish identity seen s now db =
     (case locked db identity of
        Inl e \<Rightarrow> Inl e
      | Inr (run, attempt) \<Rightarrow>
          if \<not> no_generation db (at_id identity) then Inr (Has_Generation, db)
          else if sr_status run \<notin> set FAILED_NATIVE
             \<and> \<not> (failed_orchestrator s \<and> a_orchestrator attempt = a_orchestrator seen)
          then Inr (Stay_Pending, db)
          else Inr (Retired_Terminal, retire [at_id identity] ''CONFIRMED_TERMINAL'' (Some (at_owner identity))
            (if is_running run then db\<lparr>sync := fail_terminal_run (sr_id run) now (sync db)\<rparr> else db)))"

text \<open>\<open>_publisher_terminal\<close>: \<open>None\<close> means that the candidate may be promoted.\<close>

definition publisher_terminal ::
  "export_attempt \<Rightarrow> orchestrator \<Rightarrow> instant \<Rightarrow> (export_db \<Rightarrow> export_db) \<Rightarrow> export_db \<Rightarrow>
   (export_error + publisher_outcome option) \<times> export_db" where
  "publisher_terminal identity status now other db =
     (case terminal_begin identity db of
        Inl e \<Rightarrow> (Inl e, db)
      | Inr (None, db') \<Rightarrow> (Inr (Some Retired_Superseded), db')
      | Inr (Some t, db') \<Rightarrow>
          (case terminal_probe status t of
             Inl outcome \<Rightarrow> (Inr outcome, other db')
           | Inr s \<Rightarrow>
               (case terminal_finish identity (snd t) s now (other db') of
                  Inl e \<Rightarrow> (Inl e, other db')
                | Inr (outcome, db'') \<Rightarrow> (Inr (Some outcome), db''))))"

datatype verdict = Verdict_Not_Ready | Verdict_Ready | Verdict_Locked

definition lock_free_verdict ::
  "text_bytes option \<Rightarrow> text_bytes \<Rightarrow> text_bytes option \<Rightarrow> orchestrator \<Rightarrow> verdict" where
  "lock_free_verdict native mode orchestrator_id status =
     (let s = probe_status status orchestrator_id in
      if (case native of None \<Rightarrow> False | Some n \<Rightarrow> n \<in> set FAILED_NATIVE) then Verdict_Locked
      else if mode = ''dagster'' \<and> failed_orchestrator s then Verdict_Locked
      else if mode = ''dagster'' \<and> s \<noteq> Some ''SUCCESS'' then Verdict_Not_Ready
      else if native = Some ''running'' then Verdict_Not_Ready
      else if native = Some ''success'' then Verdict_Ready else Verdict_Locked)"

record candidate =
  cd_attempt :: export_attempt
  cd_native :: "text_bytes option"
  cd_mode :: text_bytes
  cd_orchestrator :: "text_bytes option"
  cd_has_plan :: bool

text \<open>
  \<open>_process_candidate\<close>; \<open>publish\<close> is the promotion with everything it reads, \<open>other\<close> what other
  transactions do between the steps.
\<close>

definition process_candidate ::
  "(export_attempt \<Rightarrow> export_db \<Rightarrow> (export_error + promotion_result) \<times> export_db) \<Rightarrow>
   orchestrator \<Rightarrow> instant \<Rightarrow> (export_db \<Rightarrow> export_db) \<Rightarrow> bool \<Rightarrow> candidate \<Rightarrow> export_db \<Rightarrow>
   (export_error + publisher_outcome) \<times> export_db" where
  "process_candidate publish status now other current_owner c db =
     (let i = cd_attempt c;
          verdict = lock_free_verdict (cd_native c) (cd_mode c) (cd_orchestrator c) status;
          promoted = (\<lambda>d. case publish i d of
            (Inl e, d') \<Rightarrow> (Inl e, d')
          | (Inr r, d') \<Rightarrow>
              if r = Not_Eligible Rejected then
                (case publisher_terminal i status now other d' of
                   (Inl e, d'') \<Rightarrow> (Inl e, d'') | (Inr _, d'') \<Rightarrow> (Inr (Promotion_Result r), d''))
              else (Inr (Promotion_Result r), d'))
      in if verdict = Verdict_Not_Ready then (Inr Stay_Pending, db)
         else if verdict = Verdict_Ready \<and> current_owner \<and> cd_has_plan c then promoted db
         else case publisher_terminal i status now other db of
           (Inl e, db') \<Rightarrow> (Inl e, db')
         | (Inr (Some outcome), db') \<Rightarrow> (Inr outcome, db')
         | (Inr None, db') \<Rightarrow> if \<not> cd_has_plan c then (Inr Stay_Pending, db') else promoted db')"

end
