(* ===== verification/Promotion_Invariant.thy ===== *)
theory Promotion_Invariant
  imports Export_Publisher
begin

section \<open>What the promotion preserves\<close>

text \<open>
  The step relation of every transaction on the export tables, the history of generations behind
  each head and the relation that every step moves along.
\<close>

subsection \<open>Effects\<close>

lemma declare_Inr:
  assumes "declare_scope env identity d now db = Inr (u, db')"
  shows "db' = db \<or> (plan_at (at_id identity) db = None \<and> db' = db\<lparr>plans := plans db @ [new_plan env identity d now]\<rparr>)"
  using assms by (auto simp: declare_scope_def Let_def split: sum.splits option.splits if_splits)

lemma bind_plan_Inr:
  assumes "bind_plan identity p revision input fetched points nz j db = Inr (u, db')"
  shows "db' = db \<or> (p_input p = None
    \<and> db' = update_plan (at_id identity) (bound_plan revision input fetched points nz j) db)"
  using assms by (auto simp: bind_plan_def split: if_splits)

definition binds :: "export_attempt \<Rightarrow> export_db \<Rightarrow> export_db \<Rightarrow> bool" where
  "binds identity db db' \<longleftrightarrow> db' = db \<or> (\<exists>p revision input fetched points nz j.
     plan_at (at_id identity) db = Some p \<and> p_input p = None
     \<and> db' = update_plan (at_id identity) (bound_plan revision input fetched points nz j) db)"

lemma bind_kma_binds:
  assumes "bind_kma_response env identity r now db = Inr (u, db')"
  shows "binds identity db db'"
proof -
  obtain p k g fetched where p: "plan_at (at_id identity) db = Some p"
    and rows: "bind_kma_rows env identity r k fetched p g db = Inr (u, db')"
    using assms
    by (auto simp: bind_kma_response_def split: sum.splits option.splits py_datetime.splits descriptor.splits if_splits)
  from rows obtain revision digest points nz j
    where "bind_plan identity p revision digest fetched points nz j db = Inr (u, db')"
    by (auto simp: bind_kma_rows_def Let_def split: sum.splits option.splits if_splits)
  from bind_plan_Inr [OF this] p show ?thesis unfolding binds_def by blast
qed

lemma bind_replayed_binds:
  assumes "bind_replayed_response env identity r d values revision policy now db = Inr (u, db')"
  shows "binds identity db db'"
proof -
  obtain p digest fetched points nz j where p: "plan_at (at_id identity) db = Some p"
    and "bind_plan identity p revision digest fetched points nz j db = Inr (u, db')"
    using assms
    by (auto simp: bind_replayed_response_def split: sum.splits option.splits py_datetime.splits if_splits)
  from bind_plan_Inr [OF this(2)] p show ?thesis unfolding binds_def by blast
qed

lemma prepare_Inr:
  assumes "promote_prepare env identity now db = Inr (pr, db')"
  shows "\<exists>run attempt ps. locked_owner db identity None = Inr (run, attempt)
    \<and> plan_at (at_id identity) db = Some (pr_plan pr)
    \<and> p_revision (pr_plan pr) = Some (pr_revision pr) \<and> p_collected (pr_plan pr) = Some (pr_collected pr)
    \<and> pr_receipts pr = attempt_chunks (at_id identity) db \<and> pr_receipts pr \<noteq> []
    \<and> (\<forall>c \<in> set (pr_receipts pr). ch_covered c = [p_scope (pr_plan pr)] \<and> ch_collected c = pr_collected pr)
    \<and> pr_parent pr = row_of h_namespace (p_namespace (pr_plan pr)) (heads db)
    \<and> pr_token pr = a_seal attempt \<and> db' = db\<lparr>pins := ps\<rparr>
    \<and> length (pr_receipts pr) \<le> MAX_PROMOTION_CHUNKS"
proof -
  obtain run attempt where la: "locked_owner db identity None = Inr (run, attempt)"
    using assms by (auto simp: promote_prepare_def split: sum.splits)
  obtain p where p: "plan_at (at_id identity) db = Some p"
    using assms la by (auto simp: promote_prepare_def split: option.splits)
  obtain revision collected where rc: "p_revision p = Some revision" "p_collected p = Some collected"
    using assms la p by (auto simp: promote_prepare_def split: option.splits)
  define receipts where "receipts = take (MAX_PROMOTION_CHUNKS + 1) (attempt_chunks (at_id identity) db)"
  note eq = assms [unfolded promote_prepare_def la p rc sum.case option.case prod.case Let_def, folded receipts_def]
  have small: "length receipts \<le> MAX_PROMOTION_CHUNKS"
    using eq by (auto split: if_splits)
  then have whole: "receipts = attempt_chunks (at_id identity) db"
    by (simp add: receipts_def)
  show ?thesis
    using eq small la p rc whole
    by (intro exI [of _ run] exI [of _ attempt] exI [of _ "pins db'"])
      (auto simp: list_ex_iff split: if_splits)
qed

lemma files_present_None: "files_present dir fs = None \<Longrightarrow> (d, b) \<in> set fs \<Longrightarrow> store_present dir d b = Inr ()"
  by (induction dir fs rule: files_present.induct) (auto split: sum.splits)

lemma head_verdict_not_published: "head_verdict pr ex old \<noteq> Some Published"
  by (auto simp: head_verdict_def split: option.splits)

text \<open>What a publication has checked and written.\<close>

definition publishes ::
  "head_env \<Rightarrow> directory \<Rightarrow> export_attempt \<Rightarrow> promotion \<Rightarrow> examined \<Rightarrow> text_bytes \<Rightarrow> instant \<Rightarrow> export_db \<Rightarrow> export_db \<Rightarrow> bool" where
  "publishes env dir identity pr ex g now db db' \<longleftrightarrow>
     (\<exists>run attempt token rows. let old = row_of h_namespace (p_namespace (pr_plan pr)) (heads db);
          published = next_publication now db in
        locked_owner db identity None = Inr (run, attempt) \<and> sr_status run = ''success''
        \<and> a_status attempt = Sealed \<and> a_seal attempt = Some token \<and> pr_token pr = Some token
        \<and> row_of g_attempt (at_id identity) (generations db) = None \<and> row_of g_id g (generations db) = None
        \<and> head_verdict pr ex old = None \<and> ex_count ex \<noteq> 0 \<and> distinct (map fr_digest (ex_files ex))
        \<and> files_present dir (map (\<lambda>f. (fr_digest f, fr_bytes f)) (ex_files ex)) = None
        \<and> db' = finish_publication identity published
            ((publish_rows identity pr ex g token old published db)\<lparr>inventory := rows\<rparr>)
        \<and> inventory_le (inventory db) rows)"

lemma commit_Inr:
  assumes "promote_commit env dir identity pr ex g now db = Inr (result, db')"
  shows "(result \<noteq> Published \<and> db' = db) \<or> (result = Published \<and> publishes env dir identity pr ex g now db db')"
proof (cases "row_of g_attempt (at_id identity) (generations db)")
  case (Some old)
  with assms show ?thesis by (auto simp: promote_commit_def split: if_splits)
next
  case None
  then obtain run attempt where la: "locked_owner db identity None = Inr (run, attempt)"
    using assms by (auto simp: promote_commit_def split: sum.splits)
  define old where "old = row_of h_namespace (p_namespace (pr_plan pr)) (heads db)"
  note eq = assms [unfolded promote_commit_def None la option.case sum.case prod.case Let_def, folded old_def]
  show ?thesis
  proof (cases "result = Published")
    case False
    with eq show ?thesis by (auto split: if_splits option.splits sum.splits)
  next
    case True
    have go: "sr_status run = ''success''" "a_status attempt = Sealed" "a_seal attempt = pr_token pr"
      "head_verdict pr ex old = None"
      "files_present dir (map (\<lambda>f. (fr_digest f, fr_bytes f)) (ex_files ex)) = None"
      using eq True head_verdict_not_published [of pr ex old] by (auto split: if_splits option.splits)
    then obtain token where token: "pr_token pr = Some token"
      using eq by (auto split: option.splits)
    define published where "published = next_publication now db"
    define db1 where "db1 = publish_rows identity pr ex g token old published db"
    note eq2 = eq [unfolded go token option.case, folded published_def, folded db1_def]
    have fresh: "row_of g_id g (generations db) = None" "ex_count ex \<noteq> 0" "distinct (map fr_digest (ex_files ex))"
      using eq2 by (auto split: if_splits)
    obtain db2 where rec: "record_approved_locations (he_sha256 env) (he_float env) (p_descriptor (pr_plan pr)) g db1 = Inr ((), db2)"
      and db': "db' = finish_publication identity published db2"
      using eq2 fresh by (auto split: sum.splits)
    obtain rows where db2: "db2 = db1\<lparr>inventory := rows\<rparr>" and le: "inventory_le (inventory db) rows"
      using inventory_moves_record [OF rec] by (auto simp: inventory_moves_def db1_def publish_rows_def)
    show ?thesis
      using True go token fresh None la db' db2 le
      unfolding publishes_def Let_def
      by (intro disjI2 conjI exI [of _ run] exI [of _ attempt] exI [of _ token] exI [of _ rows])
        (simp_all add: old_def [symmetric] published_def [symmetric] db1_def [symmetric])
  qed
qed

subsection \<open>Steps\<close>

text \<open>
  Every transaction on the export tables, together with changes of the location catalog, of the
  snapshots and of the daily checkpoint by other parts of the system.
\<close>

inductive export_step :: "export_db \<Rightarrow> export_db \<Rightarrow> bool" where
  by_lifecycle: "lifecycle_step db db' \<Longrightarrow> export_step db db'"
| by_declare: "declare_scope env identity d now db = Inr (u, db') \<Longrightarrow> export_step db db'"
| by_kma: "bind_kma_response env identity r now db = Inr (u, db') \<Longrightarrow> export_step db db'"
| by_replay: "bind_replayed_response env identity r d values revision policy now db = Inr (u, db') \<Longrightarrow> export_step db db'"
| by_prepare: "promote_prepare env identity now db = Inr (pr, db') \<Longrightarrow> export_step db db'"
| by_commit: "promote_commit env dir identity pr ex g now db = Inr (result, db') \<Longrightarrow> export_step db db'"
| by_terminal: "terminal_begin identity db = Inr (t, db') \<Longrightarrow> export_step db db'"
| by_terminal_finish: "terminal_finish identity seen s now db = Inr (outcome, db') \<Longrightarrow> export_step db db'"
| by_superseded: "export_step db (snd (retire_superseded limit skip db))"
| by_settled: "export_step db (snd (retire_terminal limit skip db))"
| by_bootstrap: "bootstrap_one sha256 fj namespace db = Inr (u, db') \<Longrightarrow> export_step db db'"
| by_catalog: "export_step db (db\<lparr>locations := ls\<rparr>)"
| by_readers: "export_step db (db\<lparr>snapshots := sn, snapshot_refs := sr, daily_checkpoint := cp\<rparr>)"

text \<open>What the lifecycle never writes.\<close>

definition head_part :: "export_db \<Rightarrow> plan_row list \<times> generation_row list \<times> head_row list \<times> ref_row list \<times> instant option" where
  "head_part db = (plans db, generations db, heads db, refs db, publication_clock db)"

lemma lifecycle_head_part: "lifecycle_step a b \<Longrightarrow> head_part b = head_part a"
proof (induction rule: lifecycle_step.induct)
  case (step_create sha256 run_id k pl mode orch u1 u2 now db identity db')
  from create_export_attempt_Inr [OF this] show ?case by (auto simp: head_part_def)
next
  case (step_record identity k run_id covered chunk ip idg counts now db u db')
  then show ?case
    by (rule record_export_chunk_Inr) (auto simp: head_part_def split: option.splits)
next
  case (step_claim identity db u db')
  from claim_Inr [OF this] show ?case by (auto simp: head_part_def Let_def update_attempt_def)
next
  case (step_expect sha256 identity k rs vs db u db')
  from expect_chunk_Inr [OF this] show ?case by (auto simp: head_part_def update_attempt_def split: option.splits)
next
  case (step_close_source identity scope ks db u db')
  from close_source_Inr [OF this] show ?case by (auto simp: head_part_def)
next
  case (step_close_plan sha256 fj identity now db seal db')
  from close_plan_Inr [OF this] show ?case by (auto simp: head_part_def update_attempt_def split: if_splits)
next
  case (step_finish identity t receipts now db verdict db')
  from reconcile_finish_Inr [OF this] show ?case by (auto simp: head_part_def)
qed (simp_all add: head_part_def fail_export_capture_def)

text \<open>What retiring and publishing do to the attempts.\<close>

lemma inv_map_attempts:
  assumes inv: "lifecycle_inv db"
    and f: "\<And>a. a_id (f a) = a_id a" "\<And>a. a_planned (f a) = a_planned a" "\<And>a. a_epochs (f a) = a_epochs a"
      "\<And>a. a_references (f a) = a_references a" "\<And>a. a_closed_at (f a) = a_closed_at a" "\<And>a. a_seal (f a) = a_seal a"
      "\<And>a. a_status (f a) = Sealed \<Longrightarrow> a_status a = Sealed"
  shows "lifecycle_inv (db\<lparr>attempts := update_where p f (attempts db)\<rparr>)"
proof -
  let ?db' = "db\<lparr>attempts := update_where p f (attempts db)\<rparr>"
  have ids: "attempt_ids ?db' = attempt_ids db"
    by (rule attempt_ids_update [of f]) (simp_all add: f)
  have "attempt_ok ?db' (f a)" if "attempt_ok db a" for a
  proof -
    have "attempt_ok db (f a)"
      using that epochs_ok_cong [of "f a" a "owners db"]
        plan_ok_cong [of "f a" a "attempt_expected (a_id a) db" "attempt_chunks (a_id a) db" "attempt_closures (a_id a) db"] f
      by (simp add: attempt_ok_def seal_ok_def)
    then show ?thesis
      by (rule attempt_ok_view) (use \<open>attempt_ok db (f a)\<close> in \<open>simp_all add: attempt_ok_def\<close>)
  qed
  moreover have "attempt_ok ?db' a" if "attempt_ok db a" for a
    using that by (rule attempt_ok_view) (use that in \<open>simp_all add: attempt_ok_def\<close>)
  ultimately have "\<forall>x \<in> set (attempts ?db'). attempt_ok ?db' x"
    using lifecycle_invD(2) [OF inv] by (auto simp: set_update_where)
  moreover have "tables_ok ?db'"
    using lifecycle_invD(1) [OF inv] ids by (simp add: tables_ok_def keyed_update_where f)
  ultimately show ?thesis
    using lifecycle_invD(3) [OF inv] by (simp add: lifecycle_inv_def epochs_unique_update f)
qed

lemma inv_frame:
  assumes "lifecycle_inv db"
    and "attempts db' = attempts db" "owners db' = owners db" "chunks db' = chunks db" "expected db' = expected db"
      "closures db' = closures db" "validated db' = validated db" "evidence db' = evidence db"
  shows "lifecycle_inv db'"
  using assms
  by (simp add: lifecycle_inv_def tables_ok_def attempt_ids_def attempt_ok_def attempt_expected_def
      attempt_chunks_def attempt_closures_def unvalidated_def attempt_evidence_def)

lemma retire_row_simps [simp]:
  "a_id (retire_row c a) = a_id a" "a_planned (retire_row c a) = a_planned a" "a_epochs (retire_row c a) = a_epochs a"
  "a_references (retire_row c a) = a_references a" "a_closed_at (retire_row c a) = a_closed_at a"
  "a_seal (retire_row c a) = a_seal a" "a_status (retire_row c a) = Failed" "a_owner (retire_row c a) = a_owner a"
  "a_run (retire_row c a) = a_run a" "a_plan_digest (retire_row c a) = a_plan_digest a"
  by (simp_all add: retire_row_def)

lemma inv_retire: "lifecycle_inv db \<Longrightarrow> lifecycle_inv (retire ids code owner db)"
proof -
  assume "lifecycle_inv db"
  then have "lifecycle_inv (db\<lparr>attempts := attempts (retire ids code owner db)\<rparr>)"
    unfolding retire_def by simp (rule inv_map_attempts, simp_all)
  then show ?thesis by (rule inv_frame) (simp_all add: retire_def)
qed

lemma inv_publish:
  assumes "publishes env dir identity pr ex g now db db'" "lifecycle_inv db"
  shows "lifecycle_inv db'"
proof -
  obtain published where at: "attempts db' = update_where (\<lambda>a. a_id a = at_id identity \<and> a_owner a = at_owner identity)
      (\<lambda>a. a\<lparr>a_published_at := Some published\<rparr>) (attempts db)"
    and rest: "owners db' = owners db" "chunks db' = chunks db" "expected db' = expected db"
      "closures db' = closures db" "validated db' = validated db" "evidence db' = evidence db"
    using assms(1) by (auto simp: publishes_def Let_def finish_publication_def publish_rows_def)
  have "lifecycle_inv (db\<lparr>attempts := attempts db'\<rparr>)"
    unfolding at by (rule inv_map_attempts [OF assms(2)]) simp_all
  then show ?thesis by (rule inv_frame) (simp_all add: rest)
qed

subsection \<open>The kinds of steps\<close>

definition unbound :: "plan_row \<Rightarrow> bool" where
  "unbound p \<longleftrightarrow> p_revision p = None \<and> p_input p = None \<and> p_collected p = None \<and> p_points p = None \<and> p_normalization p = None"

definition bound :: "plan_row \<Rightarrow> bool" where
  "bound p \<longleftrightarrow> p_revision p \<noteq> None \<and> p_input p \<noteq> None \<and> p_collected p \<noteq> None \<and> p_points p \<noteq> None \<and> p_normalization p \<noteq> None"

definition adds_plan :: "export_db \<Rightarrow> export_db \<Rightarrow> bool" where
  "adds_plan a b \<longleftrightarrow> (\<exists>p. plan_at (p_attempt p) a = None \<and> unbound p \<and> b = a\<lparr>plans := plans a @ [p]\<rparr>)"

text \<open>A step that only writes tables the heads do not depend on.\<close>

definition side_step :: "export_db \<Rightarrow> export_db \<Rightarrow> bool" where
  "side_step a b \<longleftrightarrow> (\<exists>ps ls inv sn sr cp. b = a\<lparr>pins := ps, locations := ls, inventory := inv, snapshots := sn,
     snapshot_refs := sr, daily_checkpoint := cp\<rparr>)"

definition retires :: "export_db \<Rightarrow> export_db \<Rightarrow> bool" where
  "retires a b \<longleftrightarrow> (\<exists>ids code owner s. (s = sync a \<or> sync_step (sync a) s) \<and> (\<forall>i \<in> set ids. no_generation a i)
     \<and> b = retire ids code owner (a\<lparr>sync := s\<rparr>))"

lemma side_stepI:
  "head_part b = head_part a \<Longrightarrow> sync b = sync a \<Longrightarrow> attempts b = attempts a \<Longrightarrow> chunks b = chunks a \<Longrightarrow> owners b = owners a \<Longrightarrow>
    expected b = expected a \<Longrightarrow> closures b = closures a \<Longrightarrow> validated b = validated a \<Longrightarrow> evidence b = evidence a \<Longrightarrow>
    side_step a b"
  unfolding side_step_def head_part_def
  by (intro exI [of _ "pins b"] exI [of _ "locations b"] exI [of _ "inventory b"] exI [of _ "snapshots b"]
      exI [of _ "snapshot_refs b"] exI [of _ "daily_checkpoint b"]) simp

lemma side_step_refl [simp]: "side_step a a"
  by (rule side_stepI) simp_all

lemma settled_ids_no_generation: "i \<in> set (settled_ids c limit skip db) \<Longrightarrow> no_generation db i"
  by (auto simp: settled_ids_def dest!: in_set_takeD)

lemma sync_same [simp]: "a\<lparr>sync := sync a\<rparr> = (a :: export_db)"
  by simp

lemma retiresI:
  "s = sync a \<or> sync_step (sync a) s \<Longrightarrow> \<forall>i \<in> set ids. no_generation a i \<Longrightarrow>
    retires a (retire ids code owner (a\<lparr>sync := s\<rparr>))"
  unfolding retires_def by blast

lemma retiresI0: "\<forall>i \<in> set ids. no_generation a i \<Longrightarrow> retires a (retire ids code owner a)"
  using retiresI [of "sync a" a ids code owner] by simp

lemma terminal_finish_retires:
  assumes "terminal_finish identity seen s now a = Inr (outcome, b)"
  shows "b = a \<or> retires a b"
proof -
  obtain run attempt where "locked a identity = Inr (run, attempt)"
    using assms by (auto simp: terminal_finish_def split: sum.splits)
  with assms have "b = a \<or> (no_generation a (at_id identity) \<and> b = retire [at_id identity] ''CONFIRMED_TERMINAL''
      (Some (at_owner identity)) (if is_running run then a\<lparr>sync := fail_terminal_run (sr_id run) now (sync a)\<rparr> else a))"
    by (auto simp: terminal_finish_def simp del: retire_row_simps split: if_splits)
  then show ?thesis using publisher by (auto intro!: retiresI retiresI0)
qed

lemma export_step_kinds:
  assumes "export_step a b"
  shows "lifecycle_step a b \<or> side_step a b \<or> adds_plan a b \<or> (\<exists>identity. binds identity a b) \<or> retires a b
    \<or> (\<exists>env dir identity pr ex g now. publishes env dir identity pr ex g now a b)"
  using assms
proof cases
  case (by_declare env identity d now u)
  have "adds_plan a b \<or> b = a"
    using declare_Inr [OF by_declare]
    by (auto simp: adds_plan_def new_plan_def unbound_def intro!: exI [of _ "new_plan env identity d now"])
  then show ?thesis by auto
next
  case (by_kma env identity r now u)
  from bind_kma_binds [OF this] show ?thesis by blast
next
  case (by_replay env identity r d vs revision policy now u)
  from bind_replayed_binds [OF this] show ?thesis by blast
next
  case (by_prepare env identity now pr)
  have "side_step a b"
    using prepare_Inr [OF by_prepare] by (intro side_stepI) (auto simp: head_part_def)
  then show ?thesis by blast
next
  case (by_commit env dir identity pr ex g now result)
  from commit_Inr [OF this] show ?thesis by auto
next
  case (by_terminal identity t)
  have "retires a b \<or> b = a"
    using by_terminal
    by (auto simp: terminal_begin_def intro!: retiresI0 split: sum.splits if_splits)
  then show ?thesis by auto
next
  case (by_terminal_finish identity seen s now outcome)
  from terminal_finish_retires [OF this] show ?thesis by auto
next
  case (by_superseded limit skip)
  have "retires a b \<or> b = a"
    using by_superseded settled_ids_no_generation
    by (auto simp: retire_superseded_def Let_def intro!: retiresI0)
  then show ?thesis by auto
next
  case (by_settled limit skip)
  have "retires a b \<or> b = a"
    using by_settled settled_ids_no_generation
    by (auto simp: retire_terminal_def Let_def intro!: retiresI0)
  then show ?thesis by auto
next
  case (by_bootstrap sha256 fj namespace u)
  have "side_step a b"
    using inventory_moves_one [OF by_bootstrap]
    by (intro side_stepI) (auto simp: inventory_moves_def head_part_def)
  then show ?thesis by blast
next
  case (by_catalog ls)
  have "side_step a b" by (intro side_stepI) (simp_all add: by_catalog head_part_def)
  then show ?thesis by blast
next
  case (by_readers sn sr cp)
  have "side_step a b" by (intro side_stepI) (simp_all add: by_readers head_part_def)
  then show ?thesis by blast
qed simp

subsection \<open>What every step moves along\<close>

fun status_rank :: "attempt_status \<Rightarrow> nat" where
  "status_rank Preparing = 0"
| "status_rank Sealed = 1"
| "status_rank Failed = 2"

text \<open>An attempt may be retired after it was sealed; apart from that it moves as in the lifecycle.\<close>

definition row_moves :: "attempt_row \<Rightarrow> attempt_row \<Rightarrow> bool" where
  "row_moves x y \<longleftrightarrow>
     a_id y = a_id x \<and> a_owner y = a_owner x \<and> a_run y = a_run x \<and> a_planned y = a_planned x
     \<and> a_plan_digest y = a_plan_digest x
     \<and> (a_epochs x \<noteq> None \<longrightarrow> a_epochs y = a_epochs x)
     \<and> (a_closed_at x \<noteq> None \<longrightarrow> a_closed_at y = a_closed_at x \<and> a_seal y = a_seal x)
     \<and> status_rank (a_status x) \<le> status_rank (a_status y)"

definition plan_moves :: "plan_row \<Rightarrow> plan_row \<Rightarrow> bool" where
  "plan_moves p q \<longleftrightarrow> p_attempt q = p_attempt p \<and> p_scope q = p_scope p \<and> p_namespace q = p_namespace p
     \<and> p_descriptor q = p_descriptor p \<and> p_bound q = p_bound p \<and> (p_input p \<noteq> None \<longrightarrow> q = p)"

definition moves :: "export_db \<Rightarrow> export_db \<Rightarrow> bool" where
  "moves a b \<longleftrightarrow> owners_le (owners a) (owners b) \<and> ended_kept (sync a) (sync b)
     \<and> (\<forall>i x. attempt_at i a = Some x \<longrightarrow>
          (\<exists>y. attempt_at i b = Some y \<and> row_moves x y \<and> (a_closed_at x \<noteq> None \<longrightarrow> plan_same i a b)))
     \<and> (\<exists>gs. generations b = generations a @ gs) \<and> (\<exists>rs. refs b = refs a @ rs)
     \<and> (\<forall>i p. plan_at i a = Some p \<longrightarrow> (\<exists>q. plan_at i b = Some q \<and> plan_moves p q))"

lemma row_moves_refl [simp]: "row_moves x x"
  by (simp add: row_moves_def)

lemma row_moves_trans: "row_moves x y \<Longrightarrow> row_moves y z \<Longrightarrow> row_moves x z"
  by (simp add: row_moves_def)

lemma row_le_moves: "row_le x y \<Longrightarrow> row_moves x y"
  by (cases "a_status x") (simp_all add: row_le_def row_moves_def)

lemma plan_moves_refl [simp]: "plan_moves p p"
  by (simp add: plan_moves_def)

lemma plan_moves_trans: "plan_moves p q \<Longrightarrow> plan_moves q r \<Longrightarrow> plan_moves p r"
  by (auto simp: plan_moves_def)

lemma plan_same_refl [simp]: "plan_same i a a"
  by (simp add: plan_same_def)

lemma moves_refl: "moves a a"
  by (simp add: moves_def ended_kept_refl)

lemma moves_trans:
  assumes "moves a b" "moves b c"
  shows "moves a c"
  unfolding moves_def
proof (intro conjI allI impI)
  show "owners_le (owners a) (owners c)" "ended_kept (sync a) (sync c)"
    using assms owners_le_trans ended_kept_trans unfolding moves_def by blast+
  show "\<exists>gs. generations c = generations a @ gs" "\<exists>rs. refs c = refs a @ rs"
    using assms unfolding moves_def by (metis append_assoc)+
next
  fix i x assume "attempt_at i a = Some x"
  with assms(1) obtain y where y: "attempt_at i b = Some y" "row_moves x y" "a_closed_at x \<noteq> None \<longrightarrow> plan_same i a b"
    unfolding moves_def by blast
  with assms(2) obtain z where z: "attempt_at i c = Some z" "row_moves y z" "a_closed_at y \<noteq> None \<longrightarrow> plan_same i b c"
    unfolding moves_def by blast
  have "a_closed_at x \<noteq> None \<longrightarrow> plan_same i a c"
    using y(2,3) z(3) by (auto simp: row_moves_def plan_same_def)
  with z(1) row_moves_trans [OF y(2) z(2)]
  show "\<exists>y. attempt_at i c = Some y \<and> row_moves x y \<and> (a_closed_at x \<noteq> None \<longrightarrow> plan_same i a c)" by blast
next
  fix i p assume "plan_at i a = Some p"
  with assms(1) obtain q where q: "plan_at i b = Some q" "plan_moves p q" unfolding moves_def by blast
  with assms(2) obtain r where "plan_at i c = Some r" "plan_moves q r" unfolding moves_def by blast
  with plan_moves_trans [OF q(2)] show "\<exists>q. plan_at i c = Some q \<and> plan_moves p q" by blast
qed

text \<open>Steps that leave the tables of the lifecycle and of the heads alone.\<close>

lemma moves_side: "side_step a b \<Longrightarrow> moves a b"
  by (auto simp: side_step_def moves_def ended_kept_refl plan_same_def attempt_expected_def attempt_chunks_def
      attempt_closures_def)

lemma lifecycle_sync:
  "lifecycle_step a b \<Longrightarrow> ended_kept (sync a) (sync b)"
proof (induction rule: lifecycle_step.induct)
  case (step_sync db s)
  with sync_step_effect show ?case by simp
next
  case (step_create sha256 run_id k pl mode orch u1 u2 now db identity db')
  from create_export_attempt_Inr [OF this] show ?case by (auto simp: ended_kept_refl)
next
  case (step_record identity k run_id covered chunk ip idg counts now db u db')
  then show ?case
    by (rule record_export_chunk_Inr) (auto simp: ended_kept_refl split: option.splits)
next
  case (step_claim identity db u db')
  from claim_Inr [OF this] show ?case by (auto simp: ended_kept_refl Let_def)
next
  case (step_expect sha256 identity k rs vs db u db')
  from expect_chunk_Inr [OF this] show ?case by (auto simp: ended_kept_refl split: option.splits)
next
  case (step_close_source identity scope ks db u db')
  from close_source_Inr [OF this] show ?case by (auto simp: ended_kept_refl)
next
  case (step_close_plan sha256 fj identity now db seal db')
  from close_plan_Inr [OF this] show ?case by (auto simp: ended_kept_refl split: if_splits)
next
  case (step_finish identity t receipts now db verdict db')
  from reconcile_finish_Inr [OF this] show ?case by (auto simp: ended_kept_refl)
qed (simp add: ended_kept_refl fail_export_capture_def)

lemma moves_lifecycle:
  assumes "lifecycle_step a b" "lifecycle_inv a"
  shows "moves a b"
proof -
  have grows: "grows a b" using lifecycle_step_effect [OF assms] by simp
  then have "\<exists>y. attempt_at i b = Some y \<and> row_moves x y \<and> (a_closed_at x \<noteq> None \<longrightarrow> plan_same i a b)"
    if "attempt_at i a = Some x" for i x
    using that row_le_moves unfolding grows_def by blast
  with grows lifecycle_head_part [OF assms(1)] lifecycle_sync [OF assms(1)] show ?thesis
    by (simp add: moves_def grows_def head_part_def)
qed

lemma moves_plan: "adds_plan a b \<Longrightarrow> moves a b"
  by (auto simp: adds_plan_def moves_def ended_kept_refl row_of_append plan_view_defs)

lemma bound_plan_simps [simp]:
  "p_attempt (bound_plan r i c n nz j p) = p_attempt p" "p_scope (bound_plan r i c n nz j p) = p_scope p"
  "p_namespace (bound_plan r i c n nz j p) = p_namespace p" "p_descriptor (bound_plan r i c n nz j p) = p_descriptor p"
  "p_bound (bound_plan r i c n nz j p) = p_bound p" "p_input (bound_plan r i c n nz j p) = Some i"
  "p_revision (bound_plan r i c n nz j p) = Some r" "p_collected (bound_plan r i c n nz j p) = Some c"
  "p_points (bound_plan r i c n nz j p) = Some n" "p_normalization (bound_plan r i c n nz j p) = Some nz"
  by (simp_all add: bound_plan_def)

lemma plan_at_update:
  assumes "\<And>p. p_attempt (f p) = p_attempt p"
  shows "plan_at j (update_plan i f db) = (if j = i then map_option f (plan_at j db) else plan_at j db)"
  using row_of_update_key [where key = p_attempt and f = f] assms by (simp add: update_plan_def)

lemma moves_bind:
  assumes "binds identity a b"
  shows "moves a b"
proof (cases "b = a")
  case False
  with assms obtain p revision input fetched points nz j where p: "plan_at (at_id identity) a = Some p" "p_input p = None"
    and b: "b = update_plan (at_id identity) (bound_plan revision input fetched points nz j) a"
    unfolding binds_def by blast
  have "\<exists>q. plan_at i b = Some q \<and> plan_moves p' q" if "plan_at i a = Some p'" for i p'
    using that p by (auto simp: b plan_at_update plan_moves_def)
  then show ?thesis
    by (auto simp: moves_def ended_kept_refl plan_view_defs) (simp_all add: b update_plan_def ended_kept_refl)
qed (simp add: moves_refl)

lemma moves_retire:
  assumes "retires a b"
  shows "moves a b"
proof -
  obtain ids code owner s where s: "s = sync a \<or> sync_step (sync a) s"
    and b: "b = retire ids code owner (a\<lparr>sync := s\<rparr>)"
    using assms unfolding retires_def by blast
  have "ended_kept (sync a) s" using s sync_step_effect by (auto simp: ended_kept_refl)
  moreover have "\<exists>y. attempt_at i b = Some y \<and> row_moves x y" if "attempt_at i a = Some x" for i x
    using that by (cases "a_status x") (auto simp: b retire_def row_of_update_where row_moves_def)
  ultimately show ?thesis
    by (auto simp: moves_def plan_view_defs) (auto simp: b retire_def)
qed

lemma moves_publish:
  assumes "publishes env dir identity pr ex g now a b"
  shows "moves a b"
proof -
  obtain published old token inv where b: "b = finish_publication identity published
      ((publish_rows identity pr ex g token old published a)\<lparr>inventory := inv\<rparr>)"
    using assms unfolding publishes_def Let_def by blast
  have "\<exists>y. attempt_at i b = Some y \<and> row_moves x y" if "attempt_at i a = Some x" for i x
    using that by (auto simp: b finish_publication_def publish_rows_def row_of_update_where row_moves_def)
  then show ?thesis
    by (auto simp: moves_def plan_view_defs) (simp_all add: b finish_publication_def publish_rows_def ended_kept_refl)
qed

lemma inv_binds: "binds identity a b \<Longrightarrow> lifecycle_inv a \<Longrightarrow> lifecycle_inv b"
  by (auto simp: binds_def update_plan_def intro: inv_frame)

lemma inv_side: "side_step a b \<Longrightarrow> lifecycle_inv a \<Longrightarrow> lifecycle_inv b"
  by (auto simp: side_step_def intro: inv_frame)

lemma inv_retires: "retires a b \<Longrightarrow> lifecycle_inv a \<Longrightarrow> lifecycle_inv b"
  by (auto simp: retires_def intro!: inv_retire inv_sync)

lemma export_step_moves:
  assumes "export_step a b" "lifecycle_inv a"
  shows "lifecycle_inv b \<and> moves a b"
  using export_step_kinds [OF assms(1)]
proof (elim disjE exE)
  assume "lifecycle_step a b"
  with lifecycle_step_effect [OF this assms(2)] moves_lifecycle [OF this assms(2)] show ?thesis by blast
next
  assume "side_step a b"
  with assms(2) show ?thesis by (blast intro: moves_side inv_side)
next
  assume p: "adds_plan a b"
  then have "lifecycle_inv b" using assms(2) by (auto simp: adds_plan_def intro: inv_frame)
  with moves_plan [OF p] show ?thesis by blast
next
  fix identity assume "binds identity a b"
  with assms(2) show ?thesis by (blast intro: moves_bind inv_binds)
next
  assume "retires a b"
  with assms(2) show ?thesis by (blast intro: moves_retire inv_retires)
next
  fix env dir identity pr ex g now assume "publishes env dir identity pr ex g now a b"
  with assms(2) show ?thesis by (blast intro: moves_publish inv_publish)
qed

interpretation export_system: step_invariant export_start export_step lifecycle_inv
  by unfold_locales (auto dest: lifecycle_inv_start export_step_moves)

lemma export_moves: "export_step\<^sup>*\<^sup>* a b \<Longrightarrow> lifecycle_inv a \<Longrightarrow> moves a b"
  by (rule export_system.steps_preorder [where R = moves])
    (auto intro: moves_refl moves_trans dest: export_step_moves)

subsection \<open>The history behind each head\<close>

definition history :: "text_bytes \<Rightarrow> generation_row list \<Rightarrow> generation_row list" where
  "history ns gs = filter (\<lambda>g. g_namespace g = ns) gs"

text \<open>A generation after another: its parent is the one before, whose revision is not later.\<close>

definition follows :: "generation_row option \<Rightarrow> generation_row \<Rightarrow> bool" where
  "follows before g \<longleftrightarrow> g_parent g = map_option g_id before \<and>
     (case before of None \<Rightarrow> True
      | Some b \<Rightarrow> g_revision b \<le> g_revision g \<and> (g_revision b = g_revision g \<longrightarrow> g_content b = g_content g))"

fun chained :: "generation_row option \<Rightarrow> generation_row list \<Rightarrow> bool" where
  "chained before [] \<longleftrightarrow> True"
| "chained before (g # gs) \<longleftrightarrow> follows before g \<and> chained (Some g) gs"

lemma chained_append_one:
  "chained before (gs @ [g]) \<longleftrightarrow> chained before gs \<and> follows (if gs = [] then before else Some (last gs)) g"
  by (induction before gs rule: chained.induct) auto

definition head_shows :: "head_row \<Rightarrow> generation_row list \<Rightarrow> bool" where
  "head_shows h gs \<longleftrightarrow> gs \<noteq> [] \<and> h_generation h = g_id (last gs) \<and> h_revision h = g_revision (last gs)
     \<and> h_content h = g_content (last gs) \<and> h_version h = int (length gs)"

definition heads_ok :: "generation_row list \<Rightarrow> head_row list \<Rightarrow> bool" where
  "heads_ok gs hs \<longleftrightarrow> keyed h_namespace hs \<and>
     (\<forall>ns. chained None (history ns gs) \<and>
       (case row_of h_namespace ns hs of None \<Rightarrow> history ns gs = [] | Some h \<Rightarrow> head_shows h (history ns gs)))"

definition clock_ok :: "instant option \<Rightarrow> generation_row list \<Rightarrow> bool" where
  "clock_ok clock gs \<longleftrightarrow> sorted_wrt (\<lambda>a b. g_created a < g_created b) gs
     \<and> (\<forall>g \<in> set gs. \<exists>c. clock = Some c \<and> g_created g \<le> c)"

definition generation_owned :: "export_db \<Rightarrow> generation_row \<Rightarrow> bool" where
  "generation_owned db g \<longleftrightarrow> (\<exists>a. attempt_at (g_attempt g) db = Some a \<and> a_owner a = g_owner g
     \<and> a_status a = Sealed \<and> a_seal a = Some (g_seal g))"

definition head_inv :: "export_db \<Rightarrow> bool" where
  "head_inv db \<longleftrightarrow> lifecycle_inv db \<and> heads_ok (generations db) (heads db)
     \<and> clock_ok (publication_clock db) (generations db)
     \<and> keyed g_id (generations db) \<and> keyed g_attempt (generations db)
     \<and> keyed p_attempt (plans db) \<and> (\<forall>p \<in> set (plans db). unbound p \<or> bound p)
     \<and> keyed r_pk (refs db) \<and> r_generation ` set (refs db) \<subseteq> g_id ` set (generations db)
     \<and> (\<forall>g \<in> set (generations db). generation_owned db g)"

lemma fold_max_start: "z \<le> fold max xs (z :: int)"
proof (induction xs arbitrary: z)
  case (Cons y ys)
  from Cons [of "max y z"] show ?case by simp
qed simp

lemma fold_max_ge: "x \<in> set xs \<Longrightarrow> x \<le> fold max xs (z :: int)"
proof (induction xs arbitrary: z)
  case (Cons y ys)
  from fold_max_start [of "max y z" ys] Cons show ?case by auto
qed simp

lemma next_publication_ge: "now \<le> next_publication now db"
  using fold_max_start [of now "map (\<lambda>g. g_created g + 1) (generations db)"]
  by (auto simp: next_publication_def Let_def split: option.splits)

lemma next_publication_gt: "g \<in> set (generations db) \<Longrightarrow> g_created g < next_publication now db"
  using fold_max_ge [of "g_created g + 1" "map (\<lambda>g. g_created g + 1) (generations db)" now]
  by (auto simp: next_publication_def Let_def max_def split: option.splits)

lemma clock_ok_publish:
  assumes "clock_ok (publication_clock db) (generations db)" "g_created g = next_publication now db"
  shows "clock_ok (Some (next_publication now db)) (generations db @ [g])"
  using assms next_publication_gt [where db = db]
  by (auto simp: clock_ok_def sorted_wrt_append intro: less_imp_le)

lemma history_append [simp]:
  "history ns (gs @ [g]) = (if g_namespace g = ns then history ns gs @ [g] else history ns gs)"
  by (simp add: history_def)

lemma new_simps [simp]:
  "g_id (new_generation identity pr ex g token parent now) = g"
  "g_attempt (new_generation identity pr ex g token parent now) = at_id identity"
  "g_owner (new_generation identity pr ex g token parent now) = at_owner identity"
  "g_seal (new_generation identity pr ex g token parent now) = token"
  "g_namespace (new_generation identity pr ex g token parent now) = p_namespace (pr_plan pr)"
  "g_parent (new_generation identity pr ex g token parent now) = parent"
  "g_revision (new_generation identity pr ex g token parent now) = pr_revision pr"
  "g_content (new_generation identity pr ex g token parent now) = ex_content ex"
  "g_created (new_generation identity pr ex g token parent now) = now"
  "g_points (new_generation identity pr ex g token parent now) = int (ex_count ex)"
  "g_collected (new_generation identity pr ex g token parent now) = pr_collected pr"
  "h_namespace (new_head pr ex g old) = p_namespace (pr_plan pr)" "h_generation (new_head pr ex g old) = g"
  "h_revision (new_head pr ex g old) = pr_revision pr" "h_content (new_head pr ex g old) = ex_content ex"
  "h_version (new_head pr ex g old) = (case old of None \<Rightarrow> 1 | Some h \<Rightarrow> h_version h + 1)"
  by (simp_all add: new_generation_def new_head_def)

lemma head_verdict_None:
  assumes "head_verdict pr ex (Some h) = None"
  shows "h_revision h \<le> pr_revision pr" "h_revision h = pr_revision pr \<Longrightarrow> h_content h = ex_content ex"
  using assms by (auto simp: head_verdict_def split: if_splits)

lemma heads_ok_publish:
  assumes ok: "heads_ok gs hs" and old: "old = row_of h_namespace (p_namespace (pr_plan pr)) hs"
    and verdict: "head_verdict pr ex old = None"
  shows "heads_ok (gs @ [new_generation identity pr ex g token (map_option h_generation old) now])
    (upsert h_namespace (\<lambda>old new. new) (new_head pr ex g old) hs)"
proof -
  let ?ns = "p_namespace (pr_plan pr)"
    and ?g = "new_generation identity pr ex g token (map_option h_generation old) now"
  define hist where "hist = history ?ns gs"
  have at: "case old of None \<Rightarrow> hist = [] | Some h \<Rightarrow> head_shows h hist" "chained None hist"
    using ok unfolding heads_ok_def old hist_def by auto
  have "follows (if hist = [] then None else Some (last hist)) ?g"
  proof (cases old)
    case (Some h)
    with at(1) head_verdict_None [of pr ex h] verdict show ?thesis by (auto simp: follows_def head_shows_def)
  qed (use at in \<open>simp add: follows_def\<close>)
  with at(2) have chain: "chained None (hist @ [?g])" by (simp add: chained_append_one)
  have top: "head_shows (new_head pr ex g old) (hist @ [?g])"
    using at(1) by (cases old) (simp_all add: head_shows_def)
  have row: "row_of h_namespace ns (upsert h_namespace (\<lambda>old new. new) (new_head pr ex g old) hs) =
      (if ns = ?ns then Some (new_head pr ex g old) else row_of h_namespace ns hs)" for ns
    using row_of_upsert [where key = h_namespace and conflict = "\<lambda>old new. new" and r = "new_head pr ex g old"]
    by (auto split: option.splits)
  have others: "case row_of h_namespace ns hs of None \<Rightarrow> history ns gs = [] | Some h \<Rightarrow> head_shows h (history ns gs)"
    "chained None (history ns gs)" for ns
    using ok unfolding heads_ok_def by auto
  have hist: "history ns (gs @ [?g]) = (if ns = ?ns then hist @ [?g] else history ns gs)" for ns
    by (simp add: hist_def)
  show ?thesis
    unfolding heads_ok_def hist row
    using chain top others ok by (simp add: heads_ok_def keyed_upsert)
qed

lemma generation_owned_keep:
  assumes "generation_owned a g" "lifecycle_inv a"
    and keep: "\<And>x. attempt_at (g_attempt g) a = Some x \<Longrightarrow>
      \<exists>y. attempt_at (g_attempt g) b = Some y \<and> row_moves x y \<and> a_status y = a_status x"
  shows "generation_owned b g"
proof -
  obtain x where x: "attempt_at (g_attempt g) a = Some x" "a_owner x = g_owner g" "a_status x = Sealed" "a_seal x = Some (g_seal g)"
    using assms(1) unfolding generation_owned_def by blast
  have "x \<in> set (attempts a)" using row_of_SomeD [OF x(1)] by simp
  with lifecycle_invD(2) [OF assms(2)] have "a_closed_at x \<noteq> None" using x(3) by (auto simp: attempt_ok_def seal_ok_def)
  with keep [OF x(1)] x show ?thesis by (auto simp: generation_owned_def row_moves_def)
qed

lemma head_invD:
  assumes "head_inv db"
  shows "lifecycle_inv db" "heads_ok (generations db) (heads db)" "clock_ok (publication_clock db) (generations db)"
    "keyed g_id (generations db)" "keyed g_attempt (generations db)" "keyed p_attempt (plans db)"
    "p \<in> set (plans db) \<Longrightarrow> unbound p \<or> bound p" "keyed r_pk (refs db)"
    "r_generation ` set (refs db) \<subseteq> g_id ` set (generations db)"
    "g \<in> set (generations db) \<Longrightarrow> generation_owned db g"
  using assms by (simp_all add: head_inv_def)

lemma head_inv_part:
  assumes inv: "head_inv a" and part: "head_part b = head_part a" and lc: "lifecycle_inv b"
    and owned: "\<And>g. g \<in> set (generations a) \<Longrightarrow> generation_owned b g"
  shows "head_inv b"
proof -
  have eq: "plans b = plans a" "generations b = generations a" "heads b = heads a" "refs b = refs a"
    "publication_clock b = publication_clock a"
    using part by (simp_all add: head_part_def)
  show ?thesis
    using inv lc owned unfolding head_inv_def eq by simp
qed

lemma owned_lifecycle:
  assumes "lifecycle_step a b" "lifecycle_inv a" "generation_owned a g"
  shows "generation_owned b g"
proof (rule generation_owned_keep [OF assms(3,2)])
  fix x assume x: "attempt_at (g_attempt g) a = Some x"
  with assms(3) have "a_status x = Sealed" by (simp add: generation_owned_def)
  moreover obtain y where "attempt_at (g_attempt g) b = Some y" "row_le x y"
    using x lifecycle_step_effect [OF assms(1,2)] unfolding grows_def by blast
  ultimately show "\<exists>y. attempt_at (g_attempt g) b = Some y \<and> row_moves x y \<and> a_status y = a_status x"
    using row_le_moves by (auto simp: row_le_def)
qed

lemma owned_attempts: "attempts b = attempts a \<Longrightarrow> generation_owned a g \<Longrightarrow> generation_owned b g"
  by (simp add: generation_owned_def)

lemma owned_retires:
  assumes "retires a b" "head_inv a" "g \<in> set (generations a)"
  shows "generation_owned b g"
proof -
  obtain ids code owner s where ids: "\<forall>i \<in> set ids. no_generation a i"
    and b: "b = retire ids code owner (a\<lparr>sync := s\<rparr>)"
    using assms(1) unfolding retires_def by blast
  have "g_attempt g \<notin> set ids"
    using ids row_of_in [OF head_invD(5) [OF assms(2)] assms(3)] by (auto simp: no_generation_def)
  then have "attempt_at (g_attempt g) b = attempt_at (g_attempt g) a"
    by (cases "attempt_at (g_attempt g) a") (auto simp: b retire_def row_of_update_where dest: row_of_SomeD)
  then show ?thesis using head_invD(10) [OF assms(2,3)] by (simp add: generation_owned_def)
qed

lemma head_inv_plan:
  assumes "adds_plan a b" "head_inv a"
  shows "head_inv b"
proof -
  obtain p where p: "plan_at (p_attempt p) a = None" "unbound p" and b: "b = a\<lparr>plans := plans a @ [p]\<rparr>"
    using assms(1) unfolding adds_plan_def by blast
  have "lifecycle_inv b" using head_invD(1) [OF assms(2)] by (auto simp: b intro: inv_frame)
  moreover have "generation_owned b g = generation_owned a g" for g by (simp add: b generation_owned_def)
  ultimately show ?thesis using assms(2) p unfolding head_inv_def by (simp add: b)
qed

lemma head_inv_bind:
  assumes "binds identity a b" "head_inv a"
  shows "head_inv b"
proof (cases "b = a")
  case False
  with assms(1) obtain revision input fetched points nz j where
    b: "b = update_plan (at_id identity) (bound_plan revision input fetched points nz j) a"
    unfolding binds_def by blast
  have "lifecycle_inv b" using inv_binds [OF assms(1) head_invD(1) [OF assms(2)]] .
  moreover have "generation_owned b g = generation_owned a g" for g by (simp add: b generation_owned_def update_plan_def)
  moreover have "unbound p \<or> bound p" if "p \<in> set (plans b)" for p
    using that head_invD(7) [OF assms(2)] by (auto simp: b update_plan_def set_update_where bound_def)
  moreover have "keyed p_attempt (plans b)"
    using head_invD(6) [OF assms(2)] by (simp add: b update_plan_def keyed_update_where)
  moreover have "heads b = heads a" "generations b = generations a" "refs b = refs a" "publication_clock b = publication_clock a"
    by (simp_all add: b update_plan_def)
  ultimately show ?thesis using assms(2) unfolding head_inv_def by auto
qed (use assms in simp)

lemma keyed_append:
  "keyed key (t @ u) \<longleftrightarrow> keyed key t \<and> keyed key u \<and> key ` set t \<inter> key ` set u = {}"
  by (auto simp: keyed_def)

lemma keyed_generation_refs: "keyed r_pk (map (generation_ref g) (enumerate 0 fs))"
proof -
  have pk: "r_pk \<circ> generation_ref g = Pair g \<circ> fst"
    by (auto simp: generation_ref_def r_pk_def)
  have "map r_pk (map (generation_ref g) (enumerate 0 fs)) = map (Pair g) (map fst (enumerate 0 fs))"
    unfolding map_map pk ..
  then show ?thesis by (simp add: keyed_def distinct_map inj_on_def del: map_map)
qed

lemma head_inv_publish:
  assumes pub: "publishes env dir identity pr ex g now a b" and inv: "head_inv a"
  shows "head_inv b"
proof -
  define old where "old = row_of h_namespace (p_namespace (pr_plan pr)) (heads a)"
  define published where "published = next_publication now a"
  obtain run attempt token inven where la: "locked_owner a identity None = Inr (run, attempt)"
    and sealed: "a_status attempt = Sealed" "a_seal attempt = Some token"
    and fresh: "row_of g_attempt (at_id identity) (generations a) = None" "row_of g_id g (generations a) = None"
    and verdict: "head_verdict pr ex old = None"
    and b: "b = finish_publication identity published ((publish_rows identity pr ex g token old published a)\<lparr>inventory := inven\<rparr>)"
    using pub unfolding publishes_def Let_def old_def published_def by blast
  define new where "new = new_generation identity pr ex g token (map_option h_generation old) published"
  have parts: "plans b = plans a" "generations b = generations a @ [new]" "publication_clock b = Some published"
    "heads b = upsert h_namespace (\<lambda>old new. new) (new_head pr ex g old) (heads a)"
    "refs b = refs a @ map (generation_ref g) (enumerate 0 (ex_files ex))"
    "attempts b = update_where (\<lambda>x. a_id x = at_id identity \<and> a_owner x = at_owner identity)
      (\<lambda>x. x\<lparr>a_published_at := Some published\<rparr>) (attempts a)"
    by (simp_all add: b finish_publication_def publish_rows_def new_def)
  note at = locked_Inr [OF locked_owner_Inr(1) [OF la]]
  have "generation_owned b x" if "x \<in> set (generations b)" for x
  proof (cases "x = new")
    case True
    with at sealed show ?thesis
      by (auto simp: generation_owned_def new_def parts row_of_update_where)
  next
    case False
    with that have "generation_owned a x" using head_invD(10) [OF inv] by (simp add: parts)
    then obtain y where y: "attempt_at (g_attempt x) a = Some y" "a_owner y = g_owner x" "a_status y = Sealed"
      "a_seal y = Some (g_seal x)" unfolding generation_owned_def by blast
    then show ?thesis unfolding generation_owned_def parts by (simp add: row_of_update_where)
  qed
  moreover have "heads_ok (generations b) (heads b)"
    unfolding parts new_def by (rule heads_ok_publish [OF head_invD(2) [OF inv] old_def verdict])
  moreover have "clock_ok (publication_clock b) (generations b)"
    unfolding parts published_def
    by (rule clock_ok_publish [OF head_invD(3) [OF inv]]) (simp add: new_def published_def)
  moreover have "keyed g_id (generations b)" "keyed g_attempt (generations b)"
    using fresh head_invD(4,5) [OF inv] by (simp_all add: parts new_def)
  moreover have "keyed r_pk (refs b)"
  proof -
    have "g \<notin> g_id ` set (generations a)" using fresh(2) by (auto simp: row_of_None_iff)
    then have "g \<notin> r_generation ` set (refs a)" using head_invD(9) [OF inv] by (rule contra_subsetD [rotated])
    then have "r_pk ` set (refs a) \<inter> r_pk ` set (map (generation_ref g) (enumerate 0 (ex_files ex))) = {}"
      by (force simp: r_pk_def generation_ref_def)
    then show ?thesis using head_invD(8) [OF inv] keyed_generation_refs by (simp only: parts keyed_append)
  qed
  moreover have "r_generation ` set (refs b) \<subseteq> g_id ` set (generations b)"
    using head_invD(9) [OF inv] by (auto simp: parts new_def generation_ref_def)
  moreover have "lifecycle_inv b" using inv_publish [OF pub head_invD(1) [OF inv]] .
  ultimately show ?thesis using head_invD(6,7) [OF inv] by (simp add: head_inv_def parts)
qed

lemma head_inv_step:
  assumes "export_step a b" "head_inv a"
  shows "head_inv b"
  using export_step_kinds [OF assms(1)]
proof (elim disjE exE)
  note lc = head_invD(1) [OF assms(2)]
  assume step: "lifecycle_step a b"
  show ?thesis
    by (rule head_inv_part [OF assms(2) lifecycle_head_part [OF step]])
      (use lifecycle_step_effect [OF step lc] owned_lifecycle [OF step lc] head_invD(10) [OF assms(2)] in simp_all)
next
  assume side: "side_step a b"
  then have "head_part b = head_part a" "attempts b = attempts a" by (auto simp: side_step_def head_part_def)
  then show ?thesis
    using head_inv_part [OF assms(2)] inv_side [OF side] head_invD(1,10) [OF assms(2)] owned_attempts by metis
next
  assume r: "retires a b"
  then have "head_part b = head_part a" by (auto simp: retires_def retire_def head_part_def)
  then show ?thesis
    using head_inv_part [OF assms(2)] inv_retires [OF r head_invD(1) [OF assms(2)]] owned_retires [OF r assms(2)] by blast
qed (use assms(2) in \<open>blast intro: head_inv_plan head_inv_bind head_inv_publish\<close>)+

lemma head_inv_start: "export_start db \<Longrightarrow> head_inv db"
  by (simp add: head_inv_def lifecycle_inv_start) (simp add: export_start_def heads_ok_def clock_ok_def history_def)

interpretation head_system: step_invariant export_start export_step head_inv
  by unfold_locales (auto intro: head_inv_start head_inv_step)

end
