(* ===== verification/Export_Example.thy ===== *)
theory Export_Example
  imports Promotion_Invariant
begin

section \<open>A run of the pipeline\<close>

text \<open>
  One attempt from an empty database to its publication, step by step, for applications of the
  properties at concrete databases.  The hash is a constant (the properties applied to it do not
  ask for more), so one scope, one chunk and one point suffice.
\<close>

definition xh :: text_bytes where "xh = replicate 64 (CHR ''a'')"

lemma xh_ok [simp]: "scope_hash_ok xh" "hex64 xh" "xh \<noteq> []"
  by (simp_all add: xh_def scope_hash_ok_def hex64_def str_len_def list_all_iff is_hex_digit_def is_digit_def char_in_def)

definition x_scope :: retrieval_scope where
  "x_scope = \<lparr>rs_provider = ''p'', rs_dataset = ''d'', rs_entity_id = ''e'', rs_style = ''external'',
     rs_locations = [''l''], rs_latitude = 1, rs_longitude = 2, rs_normalizer = ''n''\<rparr>"

definition x_descriptor :: descriptor where "x_descriptor = Retrieval_Scope x_scope"

definition x_point :: json where
  "x_point = JObj [(''provider'', JStr ''p''), (''dataset_key'', JStr ''d''), (''forecast_style'', JStr ''external''),
     (''location_id'', JStr ''l'')]"

definition x_env :: head_env where
  "x_env = \<lparr>he_sha256 = (\<lambda>s. xh), he_float = (\<lambda>q. JInt \<lfloor>q\<rfloor>), he_decimal = (\<lambda>s. None), he_iso = (\<lambda>s. None),
     he_kma_time = (\<lambda>d t. None), he_receipt = (\<lambda>j. None), he_loads = (\<lambda>s. Some x_point),
     he_normalize = (\<lambda>d r ls. Inl Value_Error)\<rparr>"

definition x_location :: location_row where
  "x_location = \<lparr>lo_id = ''l'', lo_enabled = True, lo_latitude = 1, lo_longitude = 2, lo_nx = None, lo_ny = None,
     lo_metadata = [], lo_point = [], lo_name = ''L'',
     lo_updated = 0\<rparr>"

definition x_attempt :: export_attempt where "x_attempt = \<lparr>at_id = ''a1'', at_owner = ''o1''\<rparr>"

definition x_record :: source_record where
  "x_record = \<lparr>rec_key = ''k'', rec_provider = ''p'', rec_dataset = ''d'', rec_entity_type = ''t'', rec_entity_id = ''e'',
     rec_run = Some ''run_a'', rec_payload = JNull, rec_fetched = Some (Aware 3)\<rparr>"

definition x_chunk :: prepared_chunk where
  "x_chunk = \<lparr>pc_payload = ''x'', pc_digest = xh, pc_points = 1, pc_collected = 3\<rparr>"

definition x_value :: weather_point where
  "x_value = \<lparr>wp_provider = ''p'', wp_dataset = ''d'', wp_style = ''external'', wp_location = ''l'', wp_domain = ''weather'',
     wp_version = ''n'', wp_target = None, wp_dump = x_point\<rparr>"

definition x_dir :: directory where
  "x_dir = [\<lparr>de_name = xh @ ''.jsonl'', de_kind = Regular_File, de_content = ''x'', de_mtime = 0\<rparr>]"

subsection \<open>The rows\<close>

definition x_row :: "(text_bytes \<times> int) list option \<Rightarrow> int \<Rightarrow> instant option \<Rightarrow> attempt_status \<Rightarrow> instant option \<Rightarrow> attempt_row" where
  "x_row epochs refs_of shut_at status published =
     \<lparr>a_id = ''a1'', a_run = ''run_a'', a_owner = ''o1'', a_scope_key = ''s'', a_mode = ''native'', a_orchestrator = None,
      a_planned = [xh], a_plan_digest = xh, a_epochs = epochs, a_references = refs_of, a_closed_at = shut_at,
      a_seal = map_option (\<lambda>_. xh) shut_at, a_sealed_at = (if status = Sealed then Some 7 else None),
      a_published_at = published, a_status = status, a_error = None, a_created = 1\<rparr>"

definition x_expected :: expected_row where
  "x_expected = \<lparr>e_attempt = ''a1'', e_key = ''c'', e_scopes = [xh], e_points = 0, e_digest = xh\<rparr>"

definition x_receipt :: chunk_row where
  "x_receipt = \<lparr>ch_attempt = ''a1'', ch_key = ''c'', ch_digest = xh, ch_bytes = 1, ch_points = 1, ch_covered = [xh],
     ch_counts = Some [(xh, 1)], ch_collected = 3, ch_recorded = 5\<rparr>"

definition x_plan :: "bool \<Rightarrow> plan_row" where
  "x_plan full = \<lparr>p_attempt = ''a1'', p_scope = xh, p_namespace = xh, p_descriptor = x_descriptor, p_bound = 2,
     p_revision = (if full then Some 3 else None), p_input = (if full then Some xh else None),
     p_collected = (if full then Some 3 else None), p_points = (if full then Some 1 else None),
     p_normalization = (if full then Some xh else None),
     p_evidence = (if full then Some (JObj [(''policy'', JStr ''latest-retrieval-v1'')]) else None)\<rparr>"

definition x_db :: "text_bytes \<Rightarrow> attempt_row list \<Rightarrow> owner_row list \<Rightarrow> plan_row list \<Rightarrow> expected_row list \<Rightarrow> chunk_row list \<Rightarrow>
    closure_row list \<Rightarrow> validated_row list \<Rightarrow> evidence_row list \<Rightarrow> pin_row list \<Rightarrow> export_db" where
  "x_db status ats os ps es cs shut vs evs pns =
     \<lparr>sync = example_db status, attempts = ats, chunks = cs, owners = os, expected = es, closures = shut, validated = vs,
      evidence = evs, plans = ps, generations = [], heads = [], refs = [], pins = pns, publication_clock = None,
      locations = [x_location], inventory = [], snapshots = [], snapshot_refs = [], daily_checkpoint = None\<rparr>"

lemma x_db_simps [simp]:
  "sync (x_db st ats os ps es cs shut vs evs pns) = example_db st" "attempts (x_db st ats os ps es cs shut vs evs pns) = ats"
  "chunks (x_db st ats os ps es cs shut vs evs pns) = cs" "owners (x_db st ats os ps es cs shut vs evs pns) = os"
  "expected (x_db st ats os ps es cs shut vs evs pns) = es" "closures (x_db st ats os ps es cs shut vs evs pns) = shut"
  "validated (x_db st ats os ps es cs shut vs evs pns) = vs" "evidence (x_db st ats os ps es cs shut vs evs pns) = evs"
  "plans (x_db st ats os ps es cs shut vs evs pns) = ps" "heads (x_db st ats os ps es cs shut vs evs pns) = []"
  "generations (x_db st ats os ps es cs shut vs evs pns) = []" "pins (x_db st ats os ps es cs shut vs evs pns) = pns"
  "refs (x_db st ats os ps es cs shut vs evs pns) = []" "publication_clock (x_db st ats os ps es cs shut vs evs pns) = None"
  "locations (x_db st ats os ps es cs shut vs evs pns) = [x_location]" "inventory (x_db st ats os ps es cs shut vs evs pns) = []"
  by (simp_all add: x_db_def)

lemma x_db_updates [simp]:
  "x_db st ats os ps es cs shut vs evs pns\<lparr>attempts := ats'\<rparr> = x_db st ats' os ps es cs shut vs evs pns"
  "x_db st ats os ps es cs shut vs evs pns\<lparr>owners := os'\<rparr> = x_db st ats os' ps es cs shut vs evs pns"
  "x_db st ats os ps es cs shut vs evs pns\<lparr>plans := ps'\<rparr> = x_db st ats os ps' es cs shut vs evs pns"
  "x_db st ats os ps es cs shut vs evs pns\<lparr>expected := es'\<rparr> = x_db st ats os ps es' cs shut vs evs pns"
  "x_db st ats os ps es cs shut vs evs pns\<lparr>chunks := cs'\<rparr> = x_db st ats os ps es cs' shut vs evs pns"
  "x_db st ats os ps es cs shut vs evs pns\<lparr>closures := shut'\<rparr> = x_db st ats os ps es cs shut' vs evs pns"
  "x_db st ats os ps es cs shut vs evs pns\<lparr>validated := vs'\<rparr> = x_db st ats os ps es cs shut vs' evs pns"
  "x_db st ats os ps es cs shut vs evs pns\<lparr>evidence := evs'\<rparr> = x_db st ats os ps es cs shut vs evs' pns"
  "x_db st ats os ps es cs shut vs evs pns\<lparr>pins := pns'\<rparr> = x_db st ats os ps es cs shut vs evs pns'"
  "x_db st ats os ps es cs shut vs evs pns\<lparr>sync := example_db st'\<rparr> = x_db st' ats os ps es cs shut vs evs pns"
  by (simp_all add: x_db_def)

subsection \<open>The steps\<close>

lemma x_env_simps [simp]: "he_sha256 x_env = (\<lambda>s. xh)" "he_loads x_env = (\<lambda>s. Some x_point)"
  by (simp_all add: x_env_def)

lemma x_scope_hash [simp]:
  "source_scope_key (\<lambda>s. xh) p d t i = xh" "json_digest (\<lambda>s. xh) j = xh" "descriptor_namespace (\<lambda>s. xh) fj de = xh"
  "d_source_scope (\<lambda>s. xh) de = xh" "record_scope (\<lambda>s. xh) r = xh"
  by (simp_all add: source_scope_key_def json_digest_def descriptor_namespace_def d_source_scope_def record_scope_def)

lemma x_attempt_simps [simp]: "at_id x_attempt = ''a1''" "at_owner x_attempt = ''o1''"
  by (simp_all add: x_attempt_def)

lemma x_row_simps [simp]:
  "a_id (x_row e n c s p) = ''a1''" "a_run (x_row e n c s p) = ''run_a''" "a_owner (x_row e n c s p) = ''o1''"
  "a_orchestrator (x_row e n c s p) = None" "a_planned (x_row e n c s p) = [xh]" "a_epochs (x_row e n c s p) = e"
  "a_references (x_row e n c s p) = n" "a_closed_at (x_row e n c s p) = c" "a_seal (x_row e n c s p) = map_option (\<lambda>_. xh) c"
  "a_status (x_row e n c s p) = s" "a_published_at (x_row e n c s p) = p" "a_mode (x_row e n c s p) = ''native''"
  "a_plan_digest (x_row e n c s p) = xh"
  by (simp_all add: x_row_def)

lemma x_row_updates [simp]:
  "x_row None n c s p\<lparr>a_epochs := Some ep\<rparr> = x_row (Some ep) n c s p"
  "x_row e n c s p\<lparr>a_references := m\<rparr> = x_row e m c s p"
  "x_row e n None s p\<lparr>a_closed_at := Some t, a_seal := Some xh\<rparr> = x_row e n (Some t) s p"
  "x_row e n c Preparing p\<lparr>a_status := Sealed, a_sealed_at := Some 7\<rparr> = x_row e n c Sealed p"
  "x_row e n c s p\<lparr>a_published_at := q\<rparr> = x_row e n c s q"
  by (simp_all add: x_row_def)

lemma x_run [simp]:
  "run_row ''run_a'' (runs (example_db st)) = Some (example_run st)"
  "sr_owner (example_run st) = None" "sr_status (example_run st) = st" "sr_id (example_run st) = ''run_a''"
  "is_running (example_run ''running'')" "\<not> is_running (example_run ''success'')"
  by (simp_all add: example_db_def example_run_def row_of_Cons is_running_def)

lemma x_locked:
  "locked (x_db st [x_row e n c s p] os ps es cs shut vs evs pns) x_attempt = Inr (example_run st, x_row e n c s p)"
  by (simp add: locked_def row_of_Cons)

definition x_owner :: owner_row where "x_owner = \<lparr>o_scope = xh, o_epoch = 1, o_attempt = ''a1''\<rparr>"

lemma x_current:
  "current_owners (x_db st [x_row (Some [(xh, 1)]) n c s p] [x_owner] ps es cs shut vs evs pns) (x_row (Some [(xh, 1)]) n c s p) sel
    = None" if "sel = None \<or> sel = Some [xh]"
  using that by (auto simp: current_owners_def Let_def same_set_def dict_keys_def sorted_set_def x_owner_def owner_matches_def)

lemma x_locked_owner:
  "sel = None \<or> sel = Some [xh] \<Longrightarrow>
    locked_owner (x_db st [x_row (Some [(xh, 1)]) n c s p] [x_owner] ps es cs shut vs evs pns) x_attempt sel
    = Inr (example_run st, x_row (Some [(xh, 1)]) n c s p)"
  by (simp add: locked_owner_def x_locked x_current)

text \<open>The database before each step.\<close>

definition x0 :: export_db where
  "x0 = \<lparr>sync = \<lparr>runs = [], statuses = [], fetch_clocks = []\<rparr>, attempts = [], chunks = [], owners = [], expected = [],
     closures = [], validated = [], evidence = [], plans = [], generations = [], heads = [], refs = [], pins = [],
     publication_clock = None, locations = [x_location], inventory = [], snapshots = [], snapshot_refs = [],
     daily_checkpoint = None\<rparr>"

definition x1 :: export_db where "x1 = x_db ''running'' [] [] [] [] [] [] [] [] []"
definition x2 :: export_db where "x2 = x_db ''running'' [x_row None 0 None Preparing None] [] [] [] [] [] [] [] []"

abbreviation x_claimed :: "int \<Rightarrow> instant option \<Rightarrow> attempt_status \<Rightarrow> attempt_row" where
  "x_claimed n c s \<equiv> x_row (Some [(xh, 1)]) n c s None"

definition x3 :: export_db where "x3 = x_db ''running'' [x_claimed 0 None Preparing] [x_owner] [] [] [] [] [] [] []"
definition x4 :: export_db where
  "x4 = x_db ''running'' [x_claimed 0 None Preparing] [x_owner] [x_plan False] [] [] [] [] [] []"
definition x5 :: export_db where
  "x5 = x_db ''running'' [x_claimed 0 None Preparing] [x_owner] [x_plan True] [] [] [] [] [] []"
definition x6 :: export_db where
  "x6 = x_db ''running'' [x_claimed 1 None Preparing] [x_owner] [x_plan True] [x_expected] [] [] [] [] []"
definition x7 :: export_db where
  "x7 = x_db ''running'' [x_claimed 1 None Preparing] [x_owner] [x_plan True] [x_expected] [x_receipt] [] [] [] []"

definition x_closure :: closure_row where "x_closure = \<lparr>cl_attempt = ''a1'', cl_scope = xh, cl_keys = [''c'']\<rparr>"

definition x8 :: export_db where
  "x8 = x_db ''running'' [x_claimed 1 None Preparing] [x_owner] [x_plan True] [x_expected] [x_receipt] [x_closure] [] [] []"
definition x9 :: export_db where
  "x9 = x_db ''running'' [x_claimed 1 (Some 6) Preparing] [x_owner] [x_plan True] [x_expected] [x_receipt] [x_closure] [] [] []"
definition x10 :: export_db where
  "x10 = x_db ''success'' [x_claimed 1 (Some 6) Preparing] [x_owner] [x_plan True] [x_expected] [x_receipt] [x_closure] [] [] []"

lemma x_start: "export_start (x0\<lparr>locations := ls\<rparr>)"
  by (simp add: export_start_def x0_def)

lemma x_step1: "export_step x0 x1"
proof -
  have "x1 = x0\<lparr>sync := example_db ''running''\<rparr>" by (simp add: x1_def x0_def x_db_def)
  moreover have "sync_step (sync x0) (example_db ''running'')" using example_start by (simp add: x0_def)
  ultimately show ?thesis using step_sync by_lifecycle by metis
qed

lemma x_step2: "export_step x1 x2"
proof -
  have "create_export_attempt (\<lambda>s. xh) ''run_a'' ''s'' [xh] ''native'' None ''a1'' ''o1'' 1 x1 = Inr (x_attempt, x2)"
    by (simp add: create_export_attempt_def x1_def x2_def Let_def sorted_set_def str_len_def new_attempt_def x_row_def
        x_attempt_def)
  then show ?thesis by (rule by_lifecycle [OF step_create])
qed

lemma x_step3: "export_step x2 x3"
proof -
  have "claim x_attempt x2 = Inr ((), x3)"
    by (simp add: claim_def x2_def x3_def x_locked Let_def claim_rows_def upsert_all_def upsert_def update_attempt_def
        update_where_def epoch_of_def row_of_Cons x_owner_def)
  then show ?thesis by (rule by_lifecycle [OF step_claim])
qed

lemma x_step4: "export_step x3 x4"
proof -
  have "declare_scope x_env x_attempt x_descriptor 2 x3 = Inr ((), x4)"
    by (simp add: declare_scope_def x3_def x4_def x_locked_owner has_expected_def Let_def selected_locations_def
        first_location_def x_descriptor_def x_scope_def x_location_def same_set_def new_plan_def x_plan_def)
  then show ?thesis by (rule by_declare)
qed

lemma x_digest [simp]:
  "digest_json x_env j = xh" "set_digest x_env ds = xh" "source_input_digest x_env r = xh" "logical_key x_env p = xh"
  "semantic_point_digest x_env x_point = Inr xh"
  by (simp_all add: json_digest_def set_digest_def source_input_digest_def logical_key_def semantic_point_digest_def
      x_point_def TRANSIENT_FIELDS_def TIME_FIELDS_def semantic_field_def)

lemma x_plan_simps [simp]:
  "p_attempt (x_plan f) = ''a1''" "p_scope (x_plan f) = xh" "p_namespace (x_plan f) = xh"
  "p_descriptor (x_plan f) = x_descriptor" "p_bound (x_plan f) = 2"
  "p_revision (x_plan f) = (if f then Some 3 else None)" "p_input (x_plan f) = (if f then Some xh else None)"
  "p_collected (x_plan f) = (if f then Some 3 else None)" "p_points (x_plan f) = (if f then Some 1 else None)"
  "p_normalization (x_plan f) = (if f then Some xh else None)"
  by (simp_all add: x_plan_def)

lemma x_step5: "export_step x4 x5"
proof -
  have "bind_plan x_attempt (x_plan False) 3 xh 3 1 xh (JObj [(''policy'', JStr ''latest-retrieval-v1'')]) x4 = Inr ((), x5)"
    by (simp add: bind_plan_def x4_def x5_def has_expected_def update_plan_def update_where_def bound_plan_def)
      (simp add: x_plan_def)
  then have "bind_replayed_response x_env x_attempt x_record x_descriptor [x_value] 3 ''latest-retrieval-v1'' 4 x4 = Inr ((), x5)"
    by (simp add: bind_replayed_response_def dump_points_def x_value_def MAX_FORECAST_POINTS_def x_record_def x_locked_owner
        x4_def row_of_Cons shrunken_def previous_points_def row_of_def)
  then show ?thesis by (rule by_replay)
qed

lemma x_expected_simps [simp]: "e_pk x_expected = (''a1'', ''c'')" "e_attempt x_expected = ''a1''" "e_key x_expected = ''c''"
  "e_scopes x_expected = [xh]" "e_points x_expected = 0" "e_digest x_expected = xh"
  by (simp_all add: x_expected_def e_pk_def)

lemma x_key [simp]: "chunk_key_ok ''c''"
  by (simp add: chunk_key_ok_def str_len_def is_ascii_def is_alnum_def is_alpha_def is_digit_def char_in_def)

lemma x_step6: "export_step x5 x6"
proof -
  have "planned_chunk x_attempt ''c'' [xh] 0 xh = x_expected" by (simp add: planned_chunk_def x_expected_def)
  then have "expect_chunk (\<lambda>s. xh) x_attempt ''c'' [x_record] [] x5 = Inr ((), x6)"
    by (simp add: expect_chunk_def Let_def sorted_set_def MAX_CHUNK_SOURCES_def normalization_input_digest_def x5_def x6_def
        x_locked_owner x_record_def MAX_EXPECTED_CHUNKS_def MAX_PLAN_REFERENCES_def update_attempt_def update_where_def row_of_def
        del: planned_chunk_simps)
  then show ?thesis by (rule by_lifecycle [OF step_expect])
qed

lemma x_receipt_simps [simp]: "ch_pk x_receipt = (''a1'', ''c'')" "ch_attempt x_receipt = ''a1''" "ch_key x_receipt = ''c''"
  "ch_digest x_receipt = xh" "ch_bytes x_receipt = 1" "ch_points x_receipt = 1" "ch_covered x_receipt = [xh]"
  "ch_counts x_receipt = Some [(xh, 1)]" "ch_collected x_receipt = 3"
  by (simp_all add: x_receipt_def ch_pk_def)

lemma x_points: "pc_points x_chunk = 1" by (simp add: x_chunk_def)

lemma x_step7: "export_step x6 x7"
proof -
  have new: "new_chunk ''a1'' ''c'' [xh] x_chunk (Some [(xh, 1)]) 5 = x_receipt"
    by (simp add: new_chunk_def x_chunk_def x_receipt_def)
  have "validate_planned_capture x6 (x_claimed 1 None Preparing) ''c'' [xh] (Some 0) (Some xh) = None"
    by (simp add: validate_planned_capture_def x6_def x_current row_of_Cons)
  then have "record_export_chunk x_attempt ''c'' ''run_a'' [xh] x_chunk (Some 0) (Some xh) (Some [(xh, 1)]) 5 x6 = Inr ((), x7)"
    by (simp add: record_export_chunk_def x6_def x7_def row_of_Cons)
      (simp add: Let_def sorted_set_def new counts_match_def same_set_def dict_keys_def chunk_row_ok_def row_of_def x_points)
  then show ?thesis by (rule by_lifecycle [OF step_record])
qed

lemma x_step8: "export_step x7 x8"
proof -
  have "close_source x_attempt xh [''c''] x7 = Inr ((), x8)"
    by (simp add: close_source_def sorted_set_def MAX_EXPECTED_CHUNKS_def x7_def x8_def x_locked_owner)
      (simp add: x_closure_def row_of_def)
  then show ?thesis by (rule by_lifecycle [OF step_close_source])
qed

lemma x_tables [simp]:
  "attempt_expected ''a1'' (x_db st ats os ps [x_expected] cs shut vs evs pns) = [x_expected]"
  "attempt_chunks ''a1'' (x_db st ats os ps es [x_receipt] shut vs evs pns) = [x_receipt]"
  "attempt_closures ''a1'' (x_db st ats os ps es cs [x_closure] vs evs pns) = [x_closure]"
  by (simp_all add: attempt_expected_def attempt_chunks_def attempt_closures_def x_closure_def)

lemma x_barrier: "barrier_met (x_row e n c s p) [x_expected] [x_receipt] [x_closure]"
  by (simp add: barrier_met_def x_closure_def keys_by_source_def dict_eq_def admitted_def same_set_def dict_keys_def map_of_def)

lemma x_step9: "export_step x8 x9"
proof -
  have "close_plan (\<lambda>s. xh) (he_float x_env) x_attempt 6 x8 = Inr (Some xh, x9)"
    by (simp add: close_plan_def x8_def x9_def x_locked_owner)
      (simp add: Let_def dict_keys_def x_barrier seal_head_plan_def row_of_Cons seal_digest_def update_attempt_def update_where_def)
  then show ?thesis by (rule by_lifecycle [OF step_close_plan])
qed

lemma x_step10: "export_step x9 x10"
proof -
  have "x10 = x9\<lparr>sync := example_db ''success''\<rparr>" by (simp add: x9_def x10_def)
  moreover have "sync_step (sync x9) (example_db ''success'')" using example_finished by (simp add: x9_def)
  ultimately show ?thesis using step_sync by_lifecycle by metis
qed

subsection \<open>Sealing and publishing\<close>

definition x_validated :: validated_row where
  "x_validated = \<lparr>v_attempt = ''a1'', v_key = ''c'', v_digest = xh, v_at = 7\<rparr>"

definition x_evidence :: evidence_row where
  "x_evidence = \<lparr>ev_attempt = ''a1'', ev_run = ''run_a'', ev_mode = ''native'', ev_orchestrator = None, ev_seal = xh, ev_checked = 7\<rparr>"

definition x_pin :: pin_row where
  "x_pin = \<lparr>pin_attempt = ''a1'', pin_key = xh, pin_digest = xh, pin_created = 7\<rparr>"

definition x11 :: export_db where
  "x11 = x_db ''success'' [x_claimed 1 (Some 6) Sealed] [x_owner] [x_plan True] [x_expected] [x_receipt] [x_closure]
     [x_validated] [x_evidence] []"
definition x12 :: export_db where
  "x12 = x_db ''success'' [x_claimed 1 (Some 6) Sealed] [x_owner] [x_plan True] [x_expected] [x_receipt] [x_closure]
     [x_validated] [x_evidence] [x_pin]"

definition x_ticket :: reconcile_ticket where
  "x_ticket = \<lparr>rt_receipts = [x_receipt], rt_token = Some xh, rt_mode = ''native'', rt_orchestrator = None\<rparr>"

lemma x_step11: "export_step x10 x11"
proof -
  have rows: "validation_rows x_attempt [x_receipt] 7 = [x_validated]"
    by (simp add: validation_rows_def x_validated_def)
  have "unvalidated ''a1'' (x_db ''success'' [x_claimed 1 (Some 6) Preparing] [x_owner] [x_plan True] [x_expected] [x_receipt]
      [x_closure] [x_validated] [] []) = []"
    by (simp add: unvalidated_def row_of_Cons) (simp add: x_validated_def v_pk_def)
  then have "reconcile_finish x_attempt x_ticket [x_receipt] 7 x10 = Inr (Eligible, x11)"
    by (simp add: reconcile_finish_def x10_def x11_def x_locked_owner)
      (simp add: x_ticket_def rows insert_ignore_def Let_def update_where_def row_of_def x_evidence_def)
  then show ?thesis by (rule by_lifecycle [OF step_finish])
qed

definition x_promotion :: promotion where
  "x_promotion = \<lparr>pr_plan = x_plan True, pr_revision = 3, pr_collected = 3, pr_receipts = [x_receipt], pr_parent = None,
     pr_parent_refs = [], pr_token = Some xh\<rparr>"

definition x_examined :: examined where
  "x_examined = \<lparr>ex_content = xh, ex_count = 1,
     ex_files = [\<lparr>fr_digest = xh, fr_bytes = 1, fr_points = 1, fr_locations = [''l'']\<rparr>]\<rparr>"

lemma x_prepare: "promote_prepare x_env x_attempt 7 x11 = Inr (x_promotion, x12)"
  by (simp add: promote_prepare_def x11_def x12_def x_locked_owner row_of_Cons)
    (simp add: Let_def MAX_PROMOTION_CHUNKS_def MAX_PROMOTION_BYTES_def x_promotion_def promotion_pins_def promotion_pin_def
      insert_ignore_def row_of_def x_pin_def)

lemma x_store: "store_lines (\<lambda>s. xh) x_dir verified xh 1 1 = (Inr [''x''], map_option (\<lambda>ds. xh # ds) verified)"
proof -
  have "store_path xh = Inr (xh @ ''.jsonl'')" by (simp add: store_path_def)
  then show ?thesis
    by (simp add: store_lines_def MAX_CHUNK_BYTES_def MAX_CHUNK_POINTS_def x_dir_def row_of_Cons split_lines_def Let_def)
qed

lemma x_read: "store_read (\<lambda>s. xh) (\<lambda>s. Some x_point) x_dir verified xh 1 1 = Inr [x_point]"
  by (simp add: store_read_def x_store x_point_def)

lemma x_examine: "promote_examine x_env x_dir verified x_promotion = Inr x_examined"
proof -
  have "point_location x_point = Inr ''l''" by (simp add: point_location_def x_point_def jget_def)
  then have "examine_points x_env x_descriptor [] [x_point] = Inr ([xh], [xh], [''l''])"
    by (simp add: Let_def) (simp add: x_point_def x_descriptor_def x_scope_def jget_def)
  then show ?thesis
    by (simp add: promote_examine_def x_promotion_def Let_def x_read del: examine_points.simps)
      (simp add: x_examined_def x_descriptor_def x_scope_def sorted_set_def same_set_def)
qed

definition x_generation :: generation_row where
  "x_generation = new_generation x_attempt x_promotion x_examined ''g1'' xh None 8"

definition x_head :: head_row where
  "x_head = new_head x_promotion x_examined ''g1'' None"

definition x13 :: export_db where
  "x13 = finish_publication x_attempt 8 ((publish_rows x_attempt x_promotion x_examined ''g1'' xh None 8 x12)
     \<lparr>inventory := [approved_row (\<lambda>s. xh) (he_float x_env) x_descriptor x_generation x_location]\<rparr>)"

lemma upsert_Nil: "upsert key f r [] = [r]"
  by (simp add: upsert_def row_of_def)

lemma x_commit: "promote_commit x_env x_dir x_attempt x_promotion x_examined ''g1'' 8 x12 = Inr (Published, x13)"
proof -
  have "store_present x_dir xh 1 = Inr ()"
    by (simp add: store_present_def store_path_def x_dir_def row_of_Cons)
  then have files: "files_present x_dir (map (\<lambda>f. (fr_digest f, fr_bytes f)) (ex_files x_examined)) = None"
    by (simp add: x_examined_def)
  have verdict: "head_verdict x_promotion x_examined None = None" by (simp add: head_verdict_def x_promotion_def)
  have clock: "next_publication 8 x12 = 8" by (simp add: next_publication_def x12_def)
  have lock: "locked_owner x12 x_attempt None = Inr (example_run ''success'', x_claimed 1 (Some 6) Sealed)"
    by (simp add: x12_def x_locked_owner)
  have ex: "ex_count x_examined \<noteq> 0" "distinct (map fr_digest (ex_files x_examined))"
    "pr_token x_promotion = Some xh" "pr_plan x_promotion = x_plan True" by (simp_all add: x_examined_def x_promotion_def)
  have empty: "heads x12 = []" "generations x12 = []" by (simp_all add: x12_def)
  have g: "row_of g_id ''g1'' (generations (publish_rows x_attempt x_promotion x_examined ''g1'' xh None 8 x12)) = Some x_generation"
    "g_namespace x_generation = xh"
    by (simp_all add: publish_rows_def row_of_Cons x12_def x_generation_def new_generation_def x_promotion_def)
  have "filter (location_valid x_descriptor) (selected_locations x_descriptor [x_location]) = [x_location]"
    by (simp add: selected_locations_def location_valid_def x_descriptor_def x_scope_def x_location_def coordinates_ok_def)
  then have "record_approved_locations (\<lambda>s. xh) (he_float x_env) x_descriptor ''g1''
      (publish_rows x_attempt x_promotion x_examined ''g1'' xh None 8 x12) = Inr ((),
        (publish_rows x_attempt x_promotion x_examined ''g1'' xh None 8 x12)
          \<lparr>inventory := [approved_row (\<lambda>s. xh) (he_float x_env) x_descriptor x_generation x_location]\<rparr>)"
    by (simp add: record_approved_locations_def g) (simp add: publish_rows_def x12_def upsert_all_def upsert_Nil)
  then show ?thesis
    by (simp add: promote_commit_def empty row_of_def lock)
      (simp add: ex empty row_of_def verdict files clock Let_def x13_def)
qed

lemma x13_simps [simp]: "generations x13 = [x_generation]" "heads x13 = [x_head]" "owners x13 = [x_owner]"
  "attempts x13 = [x_row (Some [(xh, 1)]) 1 (Some 6) Sealed (Some 8)]"
  "refs x13 = [generation_ref ''g1'' (0, \<lparr>fr_digest = xh, fr_bytes = 1, fr_points = 1, fr_locations = [''l'']\<rparr>)]"
  by (simp_all add: x13_def finish_publication_def publish_rows_def x12_def x_generation_def x_head_def upsert_def row_of_def
      update_where_def x_examined_def)

lemma x_head_simps [simp]: "h_namespace x_head = xh" "h_version x_head = 1" "h_generation x_head = ''g1''" "h_revision x_head = 3"
  "h_content x_head = xh" "g_id x_generation = ''g1''" "g_namespace x_generation = xh" "g_attempt x_generation = ''a1''"
  by (simp_all add: x_head_def new_head_def x_promotion_def x_examined_def x_generation_def new_generation_def)

subsection \<open>Reachable databases\<close>

lemma x_start_step: "export_system.reachable x0"
  by (rule export_system.reachable_start) (simp add: export_start_def x0_def)

lemmas x1_reachable = export_system.reachable_step [OF x_start_step x_step1]
lemmas x2_reachable = export_system.reachable_step [OF x1_reachable x_step2]
lemmas x3_reachable = export_system.reachable_step [OF x2_reachable x_step3]
lemmas x4_reachable = export_system.reachable_step [OF x3_reachable x_step4]
lemmas x5_reachable = export_system.reachable_step [OF x4_reachable x_step5]
lemmas x6_reachable = export_system.reachable_step [OF x5_reachable x_step6]
lemmas x7_reachable = export_system.reachable_step [OF x6_reachable x_step7]
lemmas x8_reachable = export_system.reachable_step [OF x7_reachable x_step8]
lemmas x9_reachable = export_system.reachable_step [OF x8_reachable x_step9]
lemmas x10_reachable = export_system.reachable_step [OF x9_reachable x_step10]
lemmas x11_reachable = export_system.reachable_step [OF x10_reachable x_step11]
lemmas x12_reachable = export_system.reachable_step [OF x11_reachable by_prepare [OF x_prepare]]
lemmas x13_reachable = export_system.reachable_step [OF x12_reachable by_commit [OF x_commit]]

subsection \<open>A second attempt takes the scope over\<close>

definition y_attempt :: export_attempt where "y_attempt = \<lparr>at_id = ''a2'', at_owner = ''o2''\<rparr>"

definition rival_row :: "(text_bytes \<times> int) list option \<Rightarrow> attempt_row" where
  "rival_row epochs = (x_row epochs 0 None Preparing None)\<lparr>a_id := ''a2'', a_owner := ''o2''\<rparr>"

definition y_owner :: owner_row where "y_owner = \<lparr>o_scope = xh, o_epoch = 2, o_attempt = ''a2''\<rparr>"

definition rival1 :: export_db where
  "rival1 = x_db ''running'' [x_claimed 0 None Preparing, rival_row None] [x_owner] [] [] [] [] [] [] []"
definition rival2 :: export_db where
  "rival2 = x_db ''running'' [x_claimed 0 None Preparing, rival_row (Some [(xh, 2)])] [y_owner] [] [] [] [] [] [] []"

lemma y_row_simps [simp]: "a_id (rival_row e) = ''a2''" "a_owner (rival_row e) = ''o2''" "a_run (rival_row e) = ''run_a''"
  "a_orchestrator (rival_row e) = None" "a_epochs (rival_row e) = e" "a_planned (rival_row e) = [xh]" "a_status (rival_row e) = Preparing"
  "rival_row None\<lparr>a_epochs := Some ep\<rparr> = rival_row (Some ep)"
  by (simp_all add: rival_row_def) (simp add: x_row_def)

lemma y_step1: "export_step x3 rival1"
proof -
  have "create_export_attempt (\<lambda>s. xh) ''run_a'' ''s'' [xh] ''native'' None ''a2'' ''o2'' 1 x3 = Inr (y_attempt, rival1)"
    by (simp add: create_export_attempt_def x3_def rival1_def Let_def sorted_set_def str_len_def row_of_Cons y_attempt_def)
      (simp add: row_of_def new_attempt_def rival_row_def x_row_def)
  then show ?thesis by (rule by_lifecycle [OF step_create])
qed

lemma y_claim: "claim y_attempt rival1 = Inr ((), rival2)"
proof -
  have "locked rival1 y_attempt = Inr (example_run ''running'', rival_row None)"
    by (simp add: locked_def rival1_def row_of_Cons y_attempt_def)
  then show ?thesis
    by (simp add: claim_def) (simp add: rival1_def rival2_def y_attempt_def Let_def claim_rows_def upsert_all_def upsert_def
        update_attempt_def update_where_def epoch_of_def row_of_Cons x_owner_def bump_owner_def y_owner_def)
qed

lemma y_step2: "export_step rival1 rival2"
  by (rule by_lifecycle [OF step_claim [OF y_claim]])

lemmas y1_reachable = export_system.reachable_step [OF x3_reachable y_step1]
lemmas y2_reachable = export_system.reachable_step [OF y1_reachable y_step2]

lemma y2_simps [simp]: "attempt_at ''a1'' rival2 = Some (x_claimed 0 None Preparing)" "owners rival2 = [y_owner]"
  by (simp_all add: rival2_def row_of_Cons)

lemma y_superseded: "superseded (owners rival2) (x_claimed 0 None Preparing)"
  by (simp add: superseded_def ownership_def y_owner_def row_of_Cons same_set_def dict_keys_def map_of_def)

end
