(* ===== verification/Promotion_Properties.thy ===== *)
theory Promotion_Properties
  imports Promotion_Invariant Export_Example
begin

section \<open>Properties of the export pipeline\<close>

text \<open>
  Statements over every database the transactions can reach from empty tables, whatever their
  interleaving: fencing of old attempts, the frozen plan, the history behind each head, the
  compare-and-swap and retirement.
\<close>

abbreviation export_reachable :: "export_db \<Rightarrow> bool" where
  "export_reachable \<equiv> export_system.reachable"

abbreviation export_run :: "export_db \<Rightarrow> export_db \<Rightarrow> bool" where
  "export_run \<equiv> export_step\<^sup>*\<^sup>*"

lemma reachable_inv: "export_reachable db \<Longrightarrow> head_inv db"
  by (rule head_system.inv_reachable)

lemma run_inv: "export_run a b \<Longrightarrow> head_inv a \<Longrightarrow> head_inv b"
  by (rule head_system.inv_steps)

lemma run_moves: "export_run a b \<Longrightarrow> head_inv a \<Longrightarrow> moves a b"
  by (rule export_moves) (simp_all add: head_invD(1))

lemma movesD:
  assumes "moves a b"
  shows "owners_le (owners a) (owners b)" "ended_kept (sync a) (sync b)"
    "attempt_at i a = Some x \<Longrightarrow> \<exists>y. attempt_at i b = Some y \<and> row_moves x y \<and> (a_closed_at x \<noteq> None \<longrightarrow> plan_same i a b)"
    "\<exists>gs. generations b = generations a @ gs" "\<exists>rs. refs b = refs a @ rs"
    "plan_at i a = Some p \<Longrightarrow> \<exists>q. plan_at i b = Some q \<and> plan_moves p q"
  using assms unfolding moves_def by blast+

subsection \<open>Fencing\<close>

text \<open>An attempt that has lost the epoch of one of its scopes.\<close>

definition fenced :: "export_db \<Rightarrow> text_bytes \<Rightarrow> bool" where
  "fenced db i \<longleftrightarrow> (\<exists>a es s n o'. attempt_at i db = Some a \<and> a_epochs a = Some es \<and> (s, n) \<in> set es
     \<and> row_of o_scope s (owners db) = Some o' \<and> n < o_epoch o')"

lemma fenced_stays:
  assumes "fenced a i" "moves a b"
  shows "fenced b i"
proof -
  obtain x es s n o' where x: "attempt_at i a = Some x" "a_epochs x = Some es" "(s, n) \<in> set es"
    "row_of o_scope s (owners a) = Some o'" "n < o_epoch o'"
    using assms(1) unfolding fenced_def by blast
  obtain y where y: "attempt_at i b = Some y" "row_moves x y" using movesD(3) [OF assms(2) x(1)] by blast
  obtain w where w: "row_of o_scope s (owners b) = Some w" "o_epoch o' \<le> o_epoch w"
    using movesD(1) [OF assms(2)] x(4) unfolding owners_le_def by blast
  have "a_epochs y = Some es" using y(2) x(2) by (simp add: row_moves_def)
  then show ?thesis using x(3,5) y(1) w unfolding fenced_def by (meson order_less_le_trans)
qed

lemma fenced_refused:
  assumes "fenced db i" "lifecycle_inv db" "at_id identity = i"
  shows "\<exists>e. locked_owner db identity None = Inl e"
proof (cases "locked_owner db identity None")
  case (Inr r)
  obtain run attempt where la: "locked_owner db identity None = Inr (run, attempt)" using Inr by (cases r) auto
  note at = locked_Inr [OF locked_owner_Inr(1) [OF la]]
  have keys: "keyed o_scope (owners db)" using lifecycle_invD(1) [OF assms(2)] by (simp add: tables_ok_def)
  obtain es s n o' where f: "a_epochs attempt = Some es" "(s, n) \<in> set es" "row_of o_scope s (owners db) = Some o'" "n < o_epoch o'"
    using assms(1,3) at(1) unfolding fenced_def by auto
  have ok: "attempt_ok db attempt"
    using lifecycle_invD(2) [OF assms(2)] row_of_SomeD [OF at(1)] by blast
  then have fst: "map fst es = a_planned attempt" "distinct (a_planned attempt)"
    using f(1) by (auto simp: attempt_ok_def epochs_ok_def)
  have "map_of es s = Some n" using f(2) fst by (auto intro: map_of_is_SomeI simp: fst(1))
  moreover have "s \<in> set (a_planned attempt)"
    using f(2) by (simp add: fst(1) [symmetric]) force
  moreover obtain es' where "a_epochs attempt = Some es'"
    "\<forall>s \<in> set (a_planned attempt). \<exists>w. row_of o_scope s (owners db) = Some w \<and> owner_matches attempt es' w"
    by (rule current_owners_None [OF locked_owner_Inr(2) [OF la] keys]) auto
  ultimately have "map_of es (o_scope o') = Some (o_epoch o') \<and> o_scope o' = s"
    using f(1,3) row_of_SomeD [OF f(3)] by (fastforce simp: owner_matches_def)
  with \<open>map_of es s = Some n\<close> f(4) show ?thesis by auto
qed simp

lemma refused_commit:
  assumes "\<exists>e. locked_owner db identity None = Inl e"
  shows "promote_commit env dir identity pr ex g now db \<noteq> Inr (Published, db')"
  using assms by (auto simp: promote_commit_def split: option.splits if_splits)

text \<open>The claim of one scope of an attempt by another takes its epoch away.\<close>

lemma claim_fences:
  assumes "lifecycle_inv a" "attempt_at i a = Some x" "a_epochs x \<noteq> None"
    and "attempt_at (at_id rival) a = Some y" "a_epochs y = None" "s \<in> set (a_planned x)" "s \<in> set (a_planned y)"
    and "claim rival a = Inr (u, a')"
  shows "fenced a' i"
proof -
  define os where "os = upsert_all o_scope bump_owner (claim_rows y) (owners a)"
  define es where "es = map (\<lambda>k. (k, epoch_of os k)) (sort (a_planned y))"
  have "a' = update_attempt (at_id rival) (\<lambda>a. a\<lparr>a_epochs := Some es\<rparr>) (a\<lparr>owners := os\<rparr>)"
    using claim_Inr [OF assms(8)] assms(4,5) locked_Inr(1)
    unfolding Let_def es_def os_def by fastforce
  moreover have "i \<noteq> at_id rival" using assms(2-5) by auto
  ultimately have a': "attempt_at i a' = Some x" "owners a' = os" using assms(2) by (simp_all add: attempt_at_update)
  have ok: "attempt_ok a x" "attempt_ok a y"
    using lifecycle_invD(2) [OF assms(1)] row_of_SomeD [OF assms(2)] row_of_SomeD [OF assms(4)] by blast+
  obtain fs where fs: "a_epochs x = Some fs" using assms(3) by auto
  then have "s \<in> fst ` set fs" using ok(1) assms(6) by (auto simp: attempt_ok_def epochs_ok_def) (metis image_set)
  then obtain n where n: "(s, n) \<in> set fs" by force
  then obtain o' where o': "row_of o_scope s (owners a) = Some o'" "n \<le> o_epoch o'"
    using ok(1) fs by (fastforce simp: attempt_ok_def epochs_ok_def)
  have "row_of o_scope s os = Some (claimed_owner y (owners a) s)"
    unfolding os_def using ok(2) assms(7) by (simp add: row_of_claimed attempt_ok_def)
  moreover have "n < o_epoch (claimed_owner y (owners a) s)" using o' by (simp add: claimed_owner_def)
  ultimately show ?thesis using a' fs n unfolding fenced_def by blast
qed

text \<open>
  C2: once another attempt has claimed, for the first time and with success, a scope that the plan of
  a claimed attempt holds, that attempt is fenced for good: whatever transactions follow, it can
  publish nothing, whatever ticket and files it brings.
\<close>

theorem fenced_attempt_never_publishes:
  assumes "export_reachable a" "attempt_at (at_id identity) a = Some x" "a_epochs x \<noteq> None"
    and "attempt_at (at_id rival) a = Some y" "a_epochs y = None" "s \<in> set (a_planned x)" "s \<in> set (a_planned y)"
    and "claim rival a = Inr (u, a')" "export_run a' b"
  shows "promote_commit env dir identity pr ex g now b \<noteq> Inr (Published, c)"
proof -
  note inv = reachable_inv [OF assms(1)]
  have inv': "head_inv a'"
    by (rule run_inv [OF r_into_rtranclp [of export_step, OF by_lifecycle [OF step_claim [OF assms(8)]]] inv])
  have "fenced a' (at_id identity)"
    by (rule claim_fences [OF head_invD(1) [OF inv] assms(2-8)])
  then have "fenced b (at_id identity)" by (rule fenced_stays [OF _ run_moves [OF assms(9) inv']])
  then have "\<exists>e. locked_owner b identity None = Inl e"
    by (rule fenced_refused) (use head_invD(1) [OF run_inv [OF assms(9) inv']] in simp_all)
  then show ?thesis by (rule refused_commit)
qed

text \<open>
  An epoch of a scope belongs to one attempt: no two attempts ever claim the same scope at the
  same epoch, and the owner row of a scope names the attempt that claimed its current epoch.
\<close>

theorem scope_epoch_has_one_owner:
  assumes "export_reachable db" "attempt_at i db = Some a" "a_epochs a = Some es" "(s, n) \<in> set es"
  shows "(attempt_at j db = Some b \<longrightarrow> a_epochs b = Some fs \<longrightarrow> (s, n) \<in> set fs \<longrightarrow> j = i)
    \<and> (\<exists>o'. row_of o_scope s (owners db) = Some o' \<and> n \<le> o_epoch o' \<and> (n = o_epoch o' \<longrightarrow> o_attempt o' = i))"
proof -
  note inv = head_invD(1) [OF reachable_inv [OF assms(1)]]
  have a: "a \<in> set (attempts db)" "a_id a = i" using row_of_SomeD [OF assms(2)] by auto
  have "\<exists>o'. row_of o_scope s (owners db) = Some o' \<and> n \<le> o_epoch o' \<and> (n = o_epoch o' \<longrightarrow> o_attempt o' = i)"
    using lifecycle_invD(2) [OF inv a(1)] assms(3,4) a(2) by (auto simp: attempt_ok_def epochs_ok_def)
  moreover have "j = i" if b: "attempt_at j db = Some b" "a_epochs b = Some fs" "(s, n) \<in> set fs"
  proof -
    have "b \<in> set (attempts db)" "a_id b = j" using row_of_SomeD [OF b(1)] by auto
    with lifecycle_invD(3) [OF inv] a assms(3,4) b show ?thesis unfolding epochs_unique_def by blast
  qed
  ultimately show ?thesis by blast
qed

subsection \<open>The closed plan\<close>

text \<open>
  C8: once the plan of an attempt is closed, its seal, the announced chunks, the receipts and the
  closures never change again, and they meet the barrier: every announced chunk has its receipt,
  every planned source its closure with exactly the announced chunks and a point.
\<close>

theorem closed_plan_is_frozen:
  assumes "export_reachable a" "attempt_at i a = Some x" "a_closed_at x \<noteq> None" "export_run a b"
  shows "\<exists>y. attempt_at i b = Some y \<and> a_closed_at y = a_closed_at x \<and> a_seal y = a_seal x
    \<and> a_planned y = a_planned x
    \<and> attempt_expected i b = attempt_expected i a \<and> attempt_chunks i b = attempt_chunks i a
    \<and> barrier_met y (attempt_expected i b) (attempt_chunks i b) (attempt_closures i b)"
proof -
  note inv = reachable_inv [OF assms(1)]
  obtain y where y: "attempt_at i b = Some y" "row_moves x y" "plan_same i a b"
    using movesD(3) [OF run_moves [OF assms(4) inv] assms(2)] assms(3) by blast
  have "a_closed_at y \<noteq> None" using y(2) assms(3) by (auto simp: row_moves_def)
  moreover have "attempt_ok b y" "a_id y = i"
    using lifecycle_invD(2) [OF head_invD(1) [OF run_inv [OF assms(4) inv]]] row_of_SomeD [OF y(1)] by auto
  ultimately have "barrier_met y (attempt_expected i b) (attempt_chunks i b) (attempt_closures i b)"
    by (auto simp: attempt_ok_def plan_ok_def)
  with y assms(3) show ?thesis by (auto simp: row_moves_def plan_same_def)
qed

text \<open>
  C9: a sealed attempt has a closed plan that meets the barrier, a validation of every one of its
  chunks, and evidence of the run that carries its seal; no evidence of it carries another seal.
\<close>

theorem sealed_attempt_is_validated:
  assumes "export_reachable db" "attempt_at i db = Some a" "a_status a = Sealed"
  shows "barrier_met a (attempt_expected i db) (attempt_chunks i db) (attempt_closures i db)
    \<and> (\<forall>c \<in> set (chunks db). ch_attempt c = i \<longrightarrow> (\<exists>v \<in> set (validated db). v_pk v = ch_pk c))
    \<and> (\<exists>ev \<in> set (evidence db). ev_attempt ev = i)
    \<and> (\<forall>ev \<in> set (evidence db). ev_attempt ev = i \<longrightarrow> a_seal a = Some (ev_seal ev))"
proof -
  note inv = head_invD(1) [OF reachable_inv [OF assms(1)]]
  have a: "a \<in> set (attempts db)" "a_id a = i" using row_of_SomeD [OF assms(2)] by auto
  note ok = lifecycle_invD(2) [OF inv a(1), unfolded attempt_ok_def a(2)]
  then have closed: "a_closed_at a \<noteq> None" "unvalidated i db = []" "attempt_evidence i db \<noteq> []"
    using assms(3) by (auto simp: seal_ok_def)
  have "\<exists>v \<in> set (validated db). v_pk v = ch_pk c" if "c \<in> set (chunks db)" "ch_attempt c = i" for c
  proof -
    have "c \<in> set (attempt_chunks i db)" using that by (simp add: attempt_chunks_def)
    then have "row_of v_pk (ch_pk c) (validated db) \<noteq> None"
      using closed(2) unfolding unvalidated_def filter_empty_conv by blast
    then show ?thesis by (auto dest: row_of_SomeD)
  qed
  moreover have "barrier_met a (attempt_expected i db) (attempt_chunks i db) (attempt_closures i db)"
    using ok closed(1) by (auto simp: plan_ok_def)
  moreover have "\<exists>ev \<in> set (evidence db). ev_attempt ev = i"
    using closed(3) by (auto simp: attempt_evidence_def filter_empty_conv)
  moreover have "\<forall>ev \<in> set (evidence db). ev_attempt ev = i \<longrightarrow> a_seal a = Some (ev_seal ev)"
    using ok by (auto simp: seal_ok_def attempt_evidence_def)
  ultimately show ?thesis by blast
qed

text \<open>
  The manifest of an attempt stays within its bounds: at most 10000 announced chunks, whose
  source references, at most 256 a chunk, add up to the counter kept in the row, never above 50000.
\<close>

theorem manifest_is_bounded:
  assumes "export_reachable db" "attempt_at i db = Some a"
  shows "length (attempt_expected i db) \<le> 10000 \<and> a_references a \<le> 50000
    \<and> a_references a = sum_list (map (\<lambda>e. int (length (e_scopes e))) (attempt_expected i db))
    \<and> (\<forall>e \<in> set (attempt_expected i db). 0 < length (e_scopes e) \<and> length (e_scopes e) \<le> 256)"
proof -
  have a: "a \<in> set (attempts db)" "a_id a = i" using row_of_SomeD [OF assms(2)] by auto
  from lifecycle_invD(2) [OF head_invD(1) [OF reachable_inv [OF assms(1)]] a(1), unfolded attempt_ok_def a(2)]
  show ?thesis
    by (auto simp: plan_ok_def scopes_total_def MAX_EXPECTED_CHUNKS_def MAX_PLAN_REFERENCES_def MAX_CHUNK_SOURCES_def)
qed

subsection \<open>Heads and their histories\<close>

text \<open>
  C7: the generations of a namespace are a chain, each naming the one before as its parent with a
  revision that is not later (and the same content when it is the same), its head shows the last of
  them and counts them in its version, publication times strictly increase over all namespaces and
  no attempt has two generations.
\<close>

theorem heads_show_their_history:
  assumes "export_reachable db"
  shows "chained None (history ns (generations db))
    \<and> (case row_of h_namespace ns (heads db) of
         None \<Rightarrow> history ns (generations db) = []
       | Some h \<Rightarrow> head_shows h (history ns (generations db)))
    \<and> sorted_wrt (\<lambda>g g'. g_created g < g_created g') (generations db)
    \<and> distinct (map g_attempt (generations db))"
  using head_invD(2,3,5) [OF reachable_inv [OF assms]]
  unfolding heads_ok_def clock_ok_def keyed_def by blast

lemma chained_mono:
  "chained before gs \<Longrightarrow> \<forall>g \<in> set gs. g_revision g \<le> g_revision (last gs)
    \<and> (g_revision g = g_revision (last gs) \<longrightarrow> g_content g = g_content (last gs))"
proof (induction before gs rule: chained.induct)
  case (2 before x gs)
  show ?case
  proof (cases gs)
    case (Cons y ys)
    then have step: "g_revision x \<le> g_revision y" "g_revision x = g_revision y \<longrightarrow> g_content x = g_content y"
      using "2.prems" by (auto simp: follows_def)
    have tail: "\<forall>g \<in> set gs. g_revision g \<le> g_revision (last gs)
        \<and> (g_revision g = g_revision (last gs) \<longrightarrow> g_content g = g_content (last gs))"
      using 2 by simp
    then have "g_revision y \<le> g_revision (last gs)"
      "g_revision y = g_revision (last gs) \<longrightarrow> g_content y = g_content (last gs)"
      by (simp_all add: Cons)
    with step have "g_revision x \<le> g_revision (last gs)"
      "g_revision x = g_revision (last gs) \<longrightarrow> g_content x = g_content (last gs)" by auto
    with tail show ?thesis by (simp add: Cons)
  qed simp
qed simp

text \<open>
  C3: over any run a head never disappears and never goes back: its version only grows, it keeps
  its generation as long as its version stands, its revision never falls, and at the same revision
  its content is the same.
\<close>

theorem head_never_regresses:
  assumes "export_reachable a" "export_run a b" "row_of h_namespace ns (heads a) = Some h"
  shows "\<exists>h'. row_of h_namespace ns (heads b) = Some h' \<and> h_version h \<le> h_version h'
    \<and> (h_version h = h_version h' \<longrightarrow> h_generation h' = h_generation h)
    \<and> h_revision h \<le> h_revision h' \<and> (h_revision h = h_revision h' \<longrightarrow> h_content h' = h_content h)"
proof -
  note inv = reachable_inv [OF assms(1)]
  note inv' = run_inv [OF assms(2) inv]
  have top: "head_shows h (history ns (generations a))"
    using head_invD(2) [OF inv] assms(3) unfolding heads_ok_def by (auto split: option.splits)
  obtain gs where gs: "generations b = generations a @ gs" using movesD(4) [OF run_moves [OF assms(2) inv]] by blast
  then have hist: "history ns (generations b) = history ns (generations a) @ history ns gs"
    by (simp add: history_def)
  moreover have "history ns (generations a) \<noteq> []" using top by (simp add: head_shows_def)
  ultimately have ne: "history ns (generations b) \<noteq> []" by simp
  have ok: "chained None (history ns (generations b))"
    "case row_of h_namespace ns (heads b) of None \<Rightarrow> history ns (generations b) = []
       | Some h \<Rightarrow> head_shows h (history ns (generations b))"
    using head_invD(2) [OF inv'] unfolding heads_ok_def by blast+
  with ne obtain h' where h': "row_of h_namespace ns (heads b) = Some h'" "head_shows h' (history ns (generations b))"
    by (auto split: option.splits)
  have last_in: "last (history ns (generations a)) \<in> set (history ns (generations b))"
    using top by (simp add: hist head_shows_def)
  have "h_generation h' = h_generation h" if "h_version h = h_version h'"
  proof -
    have "history ns gs = []" using that top h'(2) by (simp add: head_shows_def hist)
    with top h'(2) show ?thesis by (simp add: head_shows_def hist)
  qed
  moreover have "h_version h \<le> h_version h'" using top h'(2) by (simp add: head_shows_def hist)
  moreover have "h_revision h \<le> h_revision h'" "h_revision h = h_revision h' \<longrightarrow> h_content h' = h_content h"
    using bspec [OF chained_mono [OF ok(1)] last_in] top h'(2) unfolding head_shows_def by simp_all
  ultimately show ?thesis using h'(1) by blast
qed

text \<open>
  C4: the compare-and-swap: when another generation of the namespace has been published since the
  ticket was prepared, the commit publishes nothing and changes nothing.
\<close>

theorem stale_ticket_changes_nothing:
  assumes "export_reachable a" "promote_prepare env identity now a = Inr (pr, a')" "export_run a' b"
    and "g' \<in> set (generations b)" "g' \<notin> set (generations a)" "g_namespace g' = p_namespace (pr_plan pr)"
    and "promote_commit env' dir identity' pr ex g now' b = Inr (result, c)"
  shows "result \<noteq> Published \<and> c = b"
proof (rule ccontr)
  assume "\<not> (result \<noteq> Published \<and> c = b)"
  then have pub: "publishes env' dir identity' pr ex g now' b c" using commit_Inr [OF assms(7)] by blast
  let ?ns = "p_namespace (pr_plan pr)"
  note inv = reachable_inv [OF assms(1)]
  have run: "export_run a b" using assms(2,3) by (meson by_prepare converse_rtranclp_into_rtranclp)
  note inv' = run_inv [OF run inv]
  obtain gs where gs: "generations b = generations a @ gs" using movesD(4) [OF run_moves [OF run inv]] by blast
  have hist: "history ?ns (generations b) = history ?ns (generations a) @ history ?ns gs"
    by (simp add: gs history_def)
  have new: "history ?ns gs \<noteq> []" using assms(4-6) gs by (auto simp: history_def filter_empty_conv)
  have ids: "distinct (map g_id (generations b))" using head_invD(4) [OF inv'] by (simp add: keyed_def)
  let ?old = "row_of h_namespace ?ns (heads b)"
  have "head_verdict pr ex ?old = None" using pub unfolding publishes_def Let_def by blast
  then have same: "map_option h_generation ?old = map_option h_generation (row_of h_namespace ?ns (heads a))"
    using prepare_Inr [OF assms(2)] by (auto simp: head_verdict_def split: if_splits)
  have ok_b: "case ?old of None \<Rightarrow> history ?ns (generations b) = [] | Some h \<Rightarrow> head_shows h (history ?ns (generations b))"
    using head_invD(2) [OF inv'] unfolding heads_ok_def by blast
  then obtain h where h: "?old = Some h" "h_generation h = g_id (last (history ?ns gs))"
    using new by (cases ?old) (auto simp: hist head_shows_def)
  then obtain h0 where h0: "row_of h_namespace ?ns (heads a) = Some h0" "h_generation h0 = h_generation h"
    using same by (cases "row_of h_namespace ?ns (heads a)") auto
  have "head_shows h0 (history ?ns (generations a))"
    using head_invD(2) [OF inv] h0(1) unfolding heads_ok_def by (auto split: option.splits)
  then have "g_id (last (history ?ns (generations a))) = g_id (last (history ?ns gs))"
    and "last (history ?ns (generations a)) \<in> set (history ?ns (generations a))"
    using h0(2) h(2) by (auto simp: head_shows_def)
  moreover have "last (history ?ns gs) \<in> set gs" using new last_in_set [OF new] by (auto simp: history_def)
  moreover have "set (history ?ns (generations a)) \<subseteq> set (generations a)" by (auto simp: history_def)
  ultimately show False using ids by (auto simp: gs)
qed

subsection \<open>What is published\<close>

text \<open>The points in the files of some chunks, in order.\<close>

fun chunk_points :: "head_env \<Rightarrow> directory \<Rightarrow> text_bytes list option \<Rightarrow> chunk_row list \<Rightarrow> json list option" where
  "chunk_points env dir verified [] = Some []"
| "chunk_points env dir verified (c # cs) =
     (case store_read (he_sha256 env) (he_loads env) dir verified (ch_digest c) (ch_bytes c) (ch_points c) of
        Inl e \<Rightarrow> None
      | Inr points \<Rightarrow> map_option (\<lambda>rest. points @ rest) (chunk_points env dir verified cs))"

definition has_policy :: "descriptor \<Rightarrow> json \<Rightarrow> bool" where
  "has_policy d point \<longleftrightarrow> jget point ''provider'' = Some (JStr (d_provider d))
     \<and> jget point ''dataset_key'' = Some (JStr (d_dataset d)) \<and> jget point ''forecast_style'' = Some (JStr (d_style d))"

definition at_location :: "json \<Rightarrow> text_bytes \<Rightarrow> bool" where
  "at_location point l \<longleftrightarrow> jget point ''location_id'' = Some (JStr l)"

lemma point_location_Inr: "point_location point = Inr l \<longleftrightarrow> at_location point l"
  by (auto simp: point_location_def at_location_def split: option.splits json.splits)

lemma examine_points_Inr:
  "examine_points env d seen points = Inr (seen', digests, locs) \<Longrightarrow>
    set seen' = set seen \<union> logical_key env ` set points \<and> semantic_digests env points = Inr digests
    \<and> (\<forall>p \<in> set points. has_policy d p) \<and> distinct (map (logical_key env) points)
    \<and> set seen \<inter> logical_key env ` set points = {} \<and> list_all2 at_location points locs"
proof (induction env d seen points arbitrary: seen' digests locs rule: examine_points.induct)
  case (1 env d seen)
  then show ?case by simp
next
  case (2 env d seen point points)
  obtain digest l where ok: "has_policy d point" "logical_key env point \<notin> set seen"
    "semantic_point_digest env point = Inr digest" "point_location point = Inr l"
    using "2.prems" by (auto simp: has_policy_def Let_def split: if_splits sum.splits)
  then obtain ds ls where rest: "examine_points env d (logical_key env point # seen) points = Inr (seen', ds, ls)"
    "digests = digest # ds" "locs = l # ls"
    using "2.prems" by (auto simp: Let_def split: if_splits sum.splits)
  have "set seen' = set (logical_key env point # seen) \<union> logical_key env ` set points
    \<and> semantic_digests env points = Inr ds \<and> (\<forall>p \<in> set points. has_policy d p)
    \<and> distinct (map (logical_key env) points)
    \<and> set (logical_key env point # seen) \<inter> logical_key env ` set points = {} \<and> list_all2 at_location points ls"
    by (rule "2.IH" [OF _ refl _ ok(3,4) rest(1)]) (use ok in \<open>simp_all add: has_policy_def\<close>)
  with ok rest(2,3) show ?case by (simp add: point_location_Inr)
qed

lemma semantic_digests_append:
  "semantic_digests env xs = Inr ds \<Longrightarrow> semantic_digests env ys = Inr es \<Longrightarrow> semantic_digests env (xs @ ys) = Inr (ds @ es)"
  by (induction env xs arbitrary: ds rule: semantic_digests.induct) (auto split: sum.splits)

lemma semantic_digests_length: "semantic_digests env xs = Inr ds \<Longrightarrow> length ds = length xs"
  by (induction env xs arbitrary: ds rule: semantic_digests.induct) (auto split: sum.splits)

lemma examine_chunks_Inr:
  "examine_chunks env dir verified d seen cs = Inr (digests, files) \<Longrightarrow>
    \<exists>points locs. chunk_points env dir verified cs = Some points \<and> semantic_digests env points = Inr digests
    \<and> (\<forall>p \<in> set points. has_policy d p) \<and> distinct (map (logical_key env) points)
    \<and> set seen \<inter> logical_key env ` set points = {}
    \<and> list_all2 at_location points locs \<and> set (concat (map fr_locations files)) = set locs
    \<and> map (\<lambda>f. (fr_digest f, fr_bytes f, fr_points f)) files = map (\<lambda>c. (ch_digest c, ch_bytes c, ch_points c)) cs"
proof (induction env dir verified d seen cs arbitrary: digests files rule: examine_chunks.induct)
  case (1 env dir verified d seen)
  then show ?case by simp
next
  case (2 env dir verified d seen c cs)
  obtain points where read: "store_read (he_sha256 env) (he_loads env) dir verified (ch_digest c) (ch_bytes c) (ch_points c) = Inr points"
    using "2.prems" by (auto split: sum.splits)
  obtain seen' ds ls where one: "examine_points env d seen points = Inr (seen', ds, ls)"
    using "2.prems" read by (auto split: sum.splits)
  obtain es fs where rest: "examine_chunks env dir verified d seen' cs = Inr (es, fs)" "digests = ds @ es"
    "files = \<lparr>fr_digest = ch_digest c, fr_bytes = ch_bytes c, fr_points = ch_points c, fr_locations = sorted_set ls\<rparr> # fs"
    using "2.prems" read one by (auto split: sum.splits)
  note p = examine_points_Inr [OF one]
  obtain more mlocs where m: "chunk_points env dir verified cs = Some more" "semantic_digests env more = Inr es"
    "\<forall>p \<in> set more. has_policy d p" "distinct (map (logical_key env) more)" "set seen' \<inter> logical_key env ` set more = {}"
    "list_all2 at_location more mlocs" "set (concat (map fr_locations fs)) = set mlocs"
    "map (\<lambda>f. (fr_digest f, fr_bytes f, fr_points f)) fs = map (\<lambda>c. (ch_digest c, ch_bytes c, ch_points c)) cs"
    using "2.IH" [OF read one refl refl rest(1)] by blast
  show ?case
    using p m rest read
    by (intro exI [of _ "points @ more"] exI [of _ "ls @ mlocs"])
      (auto simp: semantic_digests_append intro: list_all2_appendI)
qed

lemma examine_Inr:
  assumes "promote_examine env dir verified pr = Inr ex"
  shows "\<exists>points locs digests. chunk_points env dir verified (pr_receipts pr) = Some points
    \<and> semantic_digests env points = Inr digests \<and> ex_content ex = set_digest env digests
    \<and> p_normalization (pr_plan pr) = Some (ex_content ex) \<and> p_points (pr_plan pr) = Some (int (length points))
    \<and> ex_count ex = length points \<and> points \<noteq> []
    \<and> (\<forall>p \<in> set points. has_policy (p_descriptor (pr_plan pr)) p) \<and> distinct (map (logical_key env) points)
    \<and> list_all2 at_location points locs \<and> set locs = set (d_locations (p_descriptor (pr_plan pr)))"
proof -
  define d where "d = p_descriptor (pr_plan pr)"
  obtain digests files where one: "examine_chunks env dir verified d [] (pr_receipts pr) = Inr (digests, files)"
    using assms by (auto simp: promote_examine_def Let_def d_def split: sum.splits)
  obtain points locs where p: "chunk_points env dir verified (pr_receipts pr) = Some points"
    "semantic_digests env points = Inr digests" "\<forall>p \<in> set points. has_policy d p"
    "distinct (map (logical_key env) points)" "list_all2 at_location points locs"
    "set (concat (map fr_locations files)) = set locs"
    using examine_chunks_Inr [OF one] by blast
  note eq = assms [unfolded promote_examine_def Let_def, folded d_def, unfolded one sum.case prod.case]
  have ok: "p_points (pr_plan pr) = Some (int (length digests))" "digests \<noteq> []"
    "same_set (concat (map fr_locations files)) (d_locations d)"
    "p_normalization (pr_plan pr) = Some (set_digest env digests)"
    using eq by (auto split: if_splits)
  have "ex_content ex = set_digest env digests \<and> ex_count ex = length digests"
    using eq ok by (auto split: if_splits sum.splits)
  moreover have "set locs = set (d_locations d)" using ok(3) p(6) by (simp add: same_set_def)
  ultimately show ?thesis
    using p ok semantic_digests_length [OF p(2)] unfolding d_def
    by (intro exI [of _ points] exI [of _ locs] exI [of _ digests]) auto
qed

lemma prepare_parent_refs:
  assumes "promote_prepare env identity now db = Inr (pr, db')"
  shows "pr_parent_refs pr = (case pr_parent pr of None \<Rightarrow> [] | Some h \<Rightarrow> generation_refs (h_generation h) db)"
proof -
  obtain run attempt where la: "locked_owner db identity None = Inr (run, attempt)"
    using assms by (auto simp: promote_prepare_def split: sum.splits)
  obtain p where p: "plan_at (at_id identity) db = Some p"
    using assms la by (auto simp: promote_prepare_def split: option.splits)
  obtain revision collected where rc: "p_revision p = Some revision" "p_collected p = Some collected"
    using assms la p by (auto simp: promote_prepare_def split: option.splits)
  note eq = assms [unfolded promote_prepare_def la p rc sum.case option.case prod.case Let_def]
  show ?thesis using eq by (auto split: if_splits)
qed

lemma filter_new_refs:
  "\<forall>r \<in> set rs. r_generation r \<noteq> g \<Longrightarrow>
    filter (\<lambda>r. r_generation r = g) (rs @ map (generation_ref g) xs) = map (generation_ref g) xs"
  by (auto simp: filter_empty_conv filter_id_conv generation_ref_def)

lemma publication_sealed:
  assumes "export_reachable a" "promote_prepare env identity now a = Inr (pr, a')"
    and "promote_examine env dir verified pr = Inr ex" "export_run a' b"
    and "promote_commit env dir' identity pr ex g now' b = Inr (Published, c)"
  shows "\<exists>att p points locs gen digests. attempt_at (at_id identity) b = Some att \<and> a_status att = Sealed
    \<and> barrier_met att (attempt_expected (at_id identity) b) (attempt_chunks (at_id identity) b)
        (attempt_closures (at_id identity) b)
    \<and> plan_at (at_id identity) b = Some p
    \<and> chunk_points env dir verified (attempt_chunks (at_id identity) b) = Some points
    \<and> (\<forall>x \<in> set points. has_policy (p_descriptor p) x) \<and> distinct (map (logical_key env) points)
    \<and> list_all2 at_location points locs \<and> set locs = set (d_locations (p_descriptor p))
    \<and> row_of g_id g (generations c) = Some gen \<and> g_attempt gen = at_id identity \<and> a_seal att = Some (g_seal gen)
    \<and> Some (g_content gen) = p_normalization p \<and> Some (g_points gen) = p_points p \<and> g_points gen = int (length points)
    \<and> Some (g_revision gen) = p_revision p \<and> g_namespace gen = p_namespace p
    \<and> semantic_digests env points = Inr digests \<and> g_content gen = set_digest env digests
    \<and> (\<forall>r \<in> set (refs c). r_generation r = g \<longrightarrow> store_present dir' (r_digest r) (r_bytes r) = Inr ())
    \<and> filter (\<lambda>r. r_generation r = g) (refs c) = map (generation_ref g) (enumerate 0 (ex_files ex))
    \<and> g_content gen = ex_content ex \<and> attempt_chunks (at_id identity) b = pr_receipts pr \<and> pr_receipts pr \<noteq> []
    \<and> pr_parent pr = row_of h_namespace (p_namespace p) (heads a) \<and> pr_plan pr = p
    \<and> pr_parent_refs pr = (case pr_parent pr of None \<Rightarrow> [] | Some h \<Rightarrow> generation_refs (h_generation h) a)"
proof -
  let ?i = "at_id identity"
  note inv = reachable_inv [OF assms(1)]
  have run: "export_run a b" using assms(2,4) by (meson by_prepare converse_rtranclp_into_rtranclp)
  note inv' = run_inv [OF run inv]
  note mv = run_moves [OF run inv]
  obtain run0 att0 ps where la0: "locked_owner a identity None = Inr (run0, att0)"
    and p0: "plan_at ?i a = Some (pr_plan pr)" "p_revision (pr_plan pr) = Some (pr_revision pr)"
      "pr_receipts pr = attempt_chunks ?i a" "pr_token pr = a_seal att0"
    using prepare_Inr [OF assms(2)] by blast
  have "publishes env dir' identity pr ex g now' b c" using commit_Inr [OF assms(5)] by blast
  then obtain run att token inven old published where la: "locked_owner b identity None = Inr (run, att)"
    and sealed: "a_status att = Sealed" "a_seal att = Some token" "pr_token pr = Some token"
    and fresh: "row_of g_id g (generations b) = None"
    and files: "files_present dir' (map (\<lambda>f. (fr_digest f, fr_bytes f)) (ex_files ex)) = None"
    and c: "c = finish_publication identity published ((publish_rows identity pr ex g token old published b)\<lparr>inventory := inven\<rparr>)"
    unfolding publishes_def Let_def by blast
  note at0 = locked_Inr [OF locked_owner_Inr(1) [OF la0]]
  note at = locked_Inr [OF locked_owner_Inr(1) [OF la]]
  have ok0: "attempt_ok a att0" using lifecycle_invD(2) [OF head_invD(1) [OF inv]] row_of_SomeD [OF at0(1)] by blast
  have closed0: "a_closed_at att0 \<noteq> None"
    using ok0 p0(4) sealed(3) by (auto simp: attempt_ok_def plan_ok_def)
  obtain y where y: "attempt_at ?i b = Some y" "row_moves att0 y" "plan_same ?i a b"
    using movesD(3) [OF mv at0(1)] closed0 by blast
  then have att: "y = att" using at(1) by simp
  have okb: "attempt_ok b att" using lifecycle_invD(2) [OF head_invD(1) [OF inv']] row_of_SomeD [OF at(1)] by blast
  have closed: "a_closed_at att \<noteq> None" using y(2) closed0 att by (auto simp: row_moves_def)
  have barrier: "barrier_met att (attempt_expected ?i b) (attempt_chunks ?i b) (attempt_closures ?i b)"
    using okb closed at(2) by (auto simp: attempt_ok_def plan_ok_def)
  obtain q where q: "plan_at ?i b = Some q" "plan_moves (pr_plan pr) q" using movesD(6) [OF mv p0(1)] by blast
  have "bound (pr_plan pr)"
    using head_invD(7) [OF inv, of "pr_plan pr"] row_of_SomeD [OF p0(1)] p0(2) by (auto simp: unbound_def)
  then have q': "plan_at ?i b = Some (pr_plan pr)" using q by (simp add: plan_moves_def bound_def)
  have parent: "pr_receipts pr \<noteq> []" "pr_parent pr = row_of h_namespace (p_namespace (pr_plan pr)) (heads a)"
    using prepare_Inr [OF assms(2)] by blast+
  obtain points locs digests where ex: "chunk_points env dir verified (pr_receipts pr) = Some points"
    "p_normalization (pr_plan pr) = Some (ex_content ex)" "p_points (pr_plan pr) = Some (int (length points))"
    "ex_count ex = length points" "\<forall>p \<in> set points. has_policy (p_descriptor (pr_plan pr)) p"
    "distinct (map (logical_key env) points)" "list_all2 at_location points locs"
    "set locs = set (d_locations (p_descriptor (pr_plan pr)))"
    "semantic_digests env points = Inr digests" "ex_content ex = set_digest env digests"
    using examine_Inr [OF assms(3)] by blast
  have receipts: "attempt_chunks ?i b = pr_receipts pr" using y(3) p0(3) by (simp add: plan_same_def)
  let ?gen = "new_generation identity pr ex g token (map_option h_generation old) published"
  have gen: "row_of g_id g (generations c) = Some ?gen"
    using fresh by (simp add: c finish_publication_def publish_rows_def row_of_append row_of_Cons)
  have "g \<notin> g_id ` set (generations b)" using fresh by (auto simp: row_of_None_iff)
  then have old_refs: "\<forall>r \<in> set (refs b). r_generation r \<noteq> g" using head_invD(9) [OF inv'] by blast
  have "store_present dir' (r_digest r) (r_bytes r) = Inr ()" if "r \<in> set (refs c)" "r_generation r = g" for r
  proof -
    have "r \<in> generation_ref g ` set (enumerate 0 (ex_files ex))"
      using that old_refs by (auto simp: c finish_publication_def publish_rows_def)
    then obtain n f where "(n, f) \<in> set (enumerate 0 (ex_files ex))" "r = generation_ref g (n, f)" by auto
    moreover from this(1) have "f \<in> set (ex_files ex)"
      by (auto simp: enumerate_eq_zip dest: set_zip_rightD)
    ultimately have "f \<in> set (ex_files ex)" "r_digest r = fr_digest f" "r_bytes r = fr_bytes f"
      by (simp_all add: generation_ref_def)
    then show ?thesis by (intro files_present_None [OF files]) auto
  qed
  moreover have "filter (\<lambda>r. r_generation r = g) (refs c) = map (generation_ref g) (enumerate 0 (ex_files ex))"
  proof -
    have "refs c = refs b @ map (generation_ref g) (enumerate 0 (ex_files ex))"
      by (simp add: c finish_publication_def publish_rows_def)
    then show ?thesis using filter_new_refs [OF old_refs] by simp
  qed
  ultimately show ?thesis
    using at(1) sealed barrier q' ex receipts gen p0(2) parent prepare_parent_refs [OF assms(2)]
    by - (rule exI [of _ att], rule exI [of _ "pr_plan pr"], rule exI [of _ points], rule exI [of _ locs],
      rule exI [of _ ?gen], rule exI [of _ digests], simp)
qed

text \<open>A ref row that names a file with its size and its points, and exactly the locations of its points.\<close>

definition shows_file ::
  "head_env \<Rightarrow> directory \<Rightarrow> text_bytes list option \<Rightarrow> text_bytes \<Rightarrow> int \<Rightarrow> int \<Rightarrow> ref_row \<Rightarrow> bool" where
  "shows_file env dir verified digest bytes num r \<longleftrightarrow>
     r_digest r = digest \<and> r_bytes r = bytes \<and> r_points r = num
     \<and> (\<exists>points locs. store_read (he_sha256 env) (he_loads env) dir verified digest bytes num = Inr points
          \<and> list_all2 at_location points locs \<and> r_locations r = Some (sorted_set locs))"

lemma shows_generation_ref:
  "store_read (he_sha256 env) (he_loads env) dir verified digest bytes num = Inr points \<Longrightarrow> list_all2 at_location points locs
    \<Longrightarrow> shows_file env dir verified digest bytes num (generation_ref g (n,
      \<lparr>fr_digest = digest, fr_bytes = bytes, fr_points = num, fr_locations = sorted_set locs\<rparr>))"
  by (auto simp: shows_file_def generation_ref_def)

lemma examine_chunks_refs:
  "examine_chunks env dir verified d seen cs = Inr (digests, files) \<Longrightarrow>
    list_all2 (\<lambda>c r. shows_file env dir verified (ch_digest c) (ch_bytes c) (ch_points c) r)
      cs (map (generation_ref g) (enumerate n files))"
proof (induction env dir verified d seen cs arbitrary: digests files n rule: examine_chunks.induct)
  case (1 env dir verified d seen)
  then show ?case by simp
next
  case (2 env dir verified d seen c cs)
  obtain points where read: "store_read (he_sha256 env) (he_loads env) dir verified (ch_digest c) (ch_bytes c) (ch_points c) = Inr points"
    using "2.prems" by (auto split: sum.splits)
  obtain seen' ds ls where one: "examine_points env d seen points = Inr (seen', ds, ls)"
    using "2.prems" read by (auto split: sum.splits)
  obtain es fs where rest: "examine_chunks env dir verified d seen' cs = Inr (es, fs)"
    "files = \<lparr>fr_digest = ch_digest c, fr_bytes = ch_bytes c, fr_points = ch_points c, fr_locations = sorted_set ls\<rparr> # fs"
    using "2.prems" read one by (auto split: sum.splits)
  have "list_all2 at_location points ls" using examine_points_Inr [OF one] by blast
  then show ?case
    using "2.IH" [OF read one refl refl rest(1)] by (simp add: rest(2) shows_generation_ref [OF read])
qed

lemma parent_locations_Inr: "parent_locations d points = Inr locs \<Longrightarrow> list_all2 at_location points locs"
  by (induction d points arbitrary: locs rule: parent_locations.induct)
    (auto simp: point_location_Inr split: sum.splits option.splits if_splits)

lemma examine_parent_refs:
  "examine_parent env dir verified d rs = Inr files \<Longrightarrow>
    list_all2 (\<lambda>q r. shows_file env dir verified (r_digest q) (r_bytes q) (r_points q) r)
      rs (map (generation_ref g) (enumerate n files))"
proof (induction env dir verified d rs arbitrary: files n rule: examine_parent.induct)
  case (1 env dir verified d)
  then show ?case by simp
next
  case (2 env dir verified d q qs)
  obtain points where read: "store_read (he_sha256 env) (he_loads env) dir verified (r_digest q) (r_bytes q) (r_points q) = Inr points"
    using "2.prems" by (auto split: sum.splits)
  obtain ls where one: "parent_locations d points = Inr ls"
    using "2.prems" read by (auto split: sum.splits)
  obtain fs where rest: "examine_parent env dir verified d qs = Inr fs"
    "files = \<lparr>fr_digest = r_digest q, fr_bytes = r_bytes q, fr_points = r_points q, fr_locations = sorted_set ls\<rparr> # fs"
    using "2.prems" read one by (auto split: sum.splits)
  show ?case
    using "2.IH" [OF read one rest(1)] by (simp add: rest(2) shows_generation_ref [OF read parent_locations_Inr [OF one]])
qed

text \<open>
  The ref rows of a promotion: those of its receipts, in their order; when the head it started from has the same
  content, those of that head's generation, whose files are used again.
\<close>

definition content_unchanged :: "promotion \<Rightarrow> text_bytes \<Rightarrow> bool" where
  "content_unchanged pr content \<longleftrightarrow> (case pr_parent pr of None \<Rightarrow> False | Some h \<Rightarrow> h_content h = content)"

lemma examined_refs:
  assumes "promote_examine env dir verified pr = Inr ex"
  shows "(if content_unchanged pr (ex_content ex)
      then list_all2 (\<lambda>q r. shows_file env dir verified (r_digest q) (r_bytes q) (r_points q) r)
        (pr_parent_refs pr) (map (generation_ref g) (enumerate 0 (ex_files ex)))
      else list_all2 (\<lambda>c r. shows_file env dir verified (ch_digest c) (ch_bytes c) (ch_points c) r)
        (pr_receipts pr) (map (generation_ref g) (enumerate 0 (ex_files ex))))"
proof -
  obtain digests files where one: "examine_chunks env dir verified (p_descriptor (pr_plan pr)) [] (pr_receipts pr) = Inr (digests, files)"
    using assms by (auto simp: promote_examine_def Let_def split: sum.splits)
  note eq = assms [unfolded promote_examine_def Let_def one sum.case prod.case, folded content_unchanged_def]
  show ?thesis
  proof (cases "content_unchanged pr (set_digest env digests)")
    case True
    then obtain again where again: "examine_parent env dir verified (p_descriptor (pr_plan pr)) (pr_parent_refs pr) = Inr again"
      "ex = \<lparr>ex_content = set_digest env digests, ex_count = length digests, ex_files = again\<rparr>"
      using eq by (auto split: if_splits sum.splits)
    then show ?thesis using True examine_parent_refs [OF again(1)] by simp
  next
    case False
    then have "ex = \<lparr>ex_content = set_digest env digests, ex_count = length digests, ex_files = files\<rparr>"
      using eq by (auto split: if_splits)
    then show ?thesis using False examine_chunks_refs [OF one] by simp
  qed
qed

text \<open>
  C1: what a promotion publishes is the sealed, declared set.  Between the preparation of the ticket
  and the commit neither the plan nor the receipts have changed, and the attempt is sealed behind its
  barrier.  The points in the files of its receipts have the declared policy, pairwise different
  logical keys, exactly the declared locations and the declared number; the content of the generation
  is the digest of these very points and the declared one.  The ref rows of the generation are
  numbered from zero and name the files of the receipts, one each in their order, with their bytes,
  their points and the locations of their points; only when the head the ticket started from has the
  same content do they name, in the same way, the files of that head's generation instead.  Every
  file they name is present when the generation is committed.
\<close>

theorem publication_is_the_sealed_set:
  assumes "export_reachable a" "promote_prepare env identity now a = Inr (pr, a')"
    and "promote_examine env dir verified pr = Inr ex" "export_run a' b"
    and "promote_commit env dir' identity pr ex g now' b = Inr (Published, c)"
  shows "\<exists>att p points locs gen digests. attempt_at (at_id identity) b = Some att \<and> a_status att = Sealed
    \<and> barrier_met att (attempt_expected (at_id identity) b) (attempt_chunks (at_id identity) b)
        (attempt_closures (at_id identity) b)
    \<and> plan_at (at_id identity) b = Some p
    \<and> chunk_points env dir verified (attempt_chunks (at_id identity) b) = Some points
    \<and> (\<forall>x \<in> set points. has_policy (p_descriptor p) x) \<and> distinct (map (logical_key env) points)
    \<and> list_all2 at_location points locs \<and> set locs = set (d_locations (p_descriptor p))
    \<and> row_of g_id g (generations c) = Some gen \<and> g_attempt gen = at_id identity \<and> a_seal att = Some (g_seal gen)
    \<and> semantic_digests env points = Inr digests \<and> g_content gen = set_digest env digests
    \<and> Some (g_content gen) = p_normalization p \<and> Some (g_points gen) = p_points p \<and> g_points gen = int (length points)
    \<and> Some (g_revision gen) = p_revision p \<and> g_namespace gen = p_namespace p
    \<and> (let rs = filter (\<lambda>r. r_generation r = g) (refs c); old = row_of h_namespace (p_namespace p) (heads a)
       in map r_ordinal rs = [0..<length rs]
        \<and> (\<forall>r \<in> set rs. store_present dir' (r_digest r) (r_bytes r) = Inr ())
        \<and> (if map_option h_content old = Some (g_content gen)
           then list_all2 (\<lambda>q r. shows_file env dir verified (r_digest q) (r_bytes q) (r_points q) r)
             (generation_refs (h_generation (the old)) a) rs
           else rs \<noteq> [] \<and> list_all2 (\<lambda>c r. shows_file env dir verified (ch_digest c) (ch_bytes c) (ch_points c) r)
             (attempt_chunks (at_id identity) b) rs))"
proof -
  obtain att p points locs gen digests where s: "attempt_at (at_id identity) b = Some att" "a_status att = Sealed"
    "barrier_met att (attempt_expected (at_id identity) b) (attempt_chunks (at_id identity) b)
        (attempt_closures (at_id identity) b)"
    "plan_at (at_id identity) b = Some p"
    "chunk_points env dir verified (attempt_chunks (at_id identity) b) = Some points"
    "\<forall>x \<in> set points. has_policy (p_descriptor p) x" "distinct (map (logical_key env) points)"
    "list_all2 at_location points locs" "set locs = set (d_locations (p_descriptor p))"
    "row_of g_id g (generations c) = Some gen" "g_attempt gen = at_id identity" "a_seal att = Some (g_seal gen)"
    "Some (g_content gen) = p_normalization p" "Some (g_points gen) = p_points p" "g_points gen = int (length points)"
    "Some (g_revision gen) = p_revision p" "g_namespace gen = p_namespace p"
    "semantic_digests env points = Inr digests" "g_content gen = set_digest env digests"
    and there: "\<forall>r \<in> set (refs c). r_generation r = g \<longrightarrow> store_present dir' (r_digest r) (r_bytes r) = Inr ()"
    and rs: "filter (\<lambda>r. r_generation r = g) (refs c) = map (generation_ref g) (enumerate 0 (ex_files ex))"
    and ex: "g_content gen = ex_content ex" "attempt_chunks (at_id identity) b = pr_receipts pr" "pr_receipts pr \<noteq> []"
      "pr_parent pr = row_of h_namespace (p_namespace p) (heads a)"
      "pr_parent_refs pr = (case pr_parent pr of None \<Rightarrow> [] | Some h \<Rightarrow> generation_refs (h_generation h) a)"
    using publication_sealed [OF assms] by blast
  define old where "old = row_of h_namespace (p_namespace p) (heads a)"
  let ?rs = "map (generation_ref g) (enumerate 0 (ex_files ex))"
  have "map r_ordinal ?rs = [0..<length ?rs]" by (rule nth_equalityI) (simp_all add: generation_ref_def nth_enumerate_eq)
  moreover have "\<forall>r \<in> set ?rs. store_present dir' (r_digest r) (r_bytes r) = Inr ()"
    using there unfolding rs [symmetric] by simp
  moreover have "if map_option h_content old = Some (g_content gen)
           then list_all2 (\<lambda>q r. shows_file env dir verified (r_digest q) (r_bytes q) (r_points q) r)
             (generation_refs (h_generation (the old)) a) ?rs
           else ?rs \<noteq> [] \<and> list_all2 (\<lambda>c r. shows_file env dir verified (ch_digest c) (ch_bytes c) (ch_points c) r)
             (attempt_chunks (at_id identity) b) ?rs"
    using examined_refs [OF assms(3), of g] ex unfolding old_def [symmetric]
    by (cases old) (auto simp: content_unchanged_def)
  ultimately show ?thesis
    using s
    by - (rule exI [of _ att], rule exI [of _ p], rule exI [of _ points], rule exI [of _ locs], rule exI [of _ gen],
      rule exI [of _ digests], unfold Let_def rs old_def [symmetric], intro conjI)
qed

subsection \<open>Retirement\<close>

lemma export_step_sync:
  assumes "export_step a b"
  shows "sync b = sync a \<or> sync_step (sync a) (sync b)"
  using export_step_kinds [OF assms]
proof (elim disjE exE)
  assume "lifecycle_step a b"
  then show ?thesis
  proof cases
    case (step_record identity k run_id covered chunk ip idg counts now u)
    then show ?thesis by (rule record_export_chunk_Inr) (auto split: option.splits)
  qed (auto simp: fail_export_capture_def Let_def dest!: create_export_attempt_Inr claim_Inr expect_chunk_Inr
      close_source_Inr close_plan_Inr reconcile_finish_Inr split: option.splits if_splits)
qed (auto simp: side_step_def adds_plan_def binds_def update_plan_def retires_def retire_def publishes_def Let_def
    finish_publication_def publish_rows_def)

definition pipeline_inv :: "export_db \<Rightarrow> bool" where
  "pipeline_inv db \<longleftrightarrow> head_inv db \<and> sync_inv (sync db)"

interpretation pipeline_system: step_invariant export_start export_step pipeline_inv
proof
  show "pipeline_inv s" if "export_start s" for s
    using head_inv_start [OF that] that by (simp add: pipeline_inv_def export_start_def sync_inv_def runs_inv_def)
  show "pipeline_inv t" if "pipeline_inv s" "export_step s t" for s t
    using that head_inv_step [OF that(2)] export_step_sync [OF that(2)] sync_step_effect [of "sync s" "sync t"]
    by (auto simp: pipeline_inv_def)
qed

lemma superseded_fenced: "attempt_at i db = Some x \<Longrightarrow> superseded (owners db) x \<Longrightarrow> fenced db i"
proof -
  assume x: "attempt_at i db = Some x" "superseded (owners db) x"
  then obtain es where es: "a_epochs x = Some es" "es \<noteq> []"
    "\<forall>(s, n) \<in> set es. \<exists>o'. row_of o_scope s (owners db) = Some o' \<and> n < o_epoch o'"
    by (fastforce simp: superseded_def ownership_def list_all_iff not_le split: option.splits)
  obtain s n where "(s, n) \<in> set es" using es(2) by (cases es) auto
  with x(1) es show "fenced db i" unfolding fenced_def by blast
qed

lemma run_stays_failed:
  assumes "run_at r a = Some run" "\<not> is_running run" "ended_kept (sync a) (sync b)" "sync_inv (sync b)"
  shows "\<exists>run'. run_at r b = Some run' \<and> sr_status run' = sr_status run"
proof -
  have "run \<in> set (runs (sync a))" "sr_id run = r" using row_of_SomeD [OF assms(1)] by auto
  then obtain run' where run': "run' \<in> set (runs (sync b))" "core run = core run'"
    using assms(2,3) unfolding ended_kept_def by auto
  then have "sr_id run' = r" "sr_status run' = sr_status run"
    using \<open>sr_id run = r\<close> by (auto simp: core_def) (metis sync_run.select_convs(1) sync_run.surjective sync_run.update_convs(16), metis sync_run.select_convs(4) sync_run.surjective sync_run.update_convs(16))
  moreover have "row_of sr_id (sr_id run') (runs (sync b)) = Some run'"
    using assms(4) run'(1) by (intro row_of_in) (simp_all add: sync_inv_def runs_inv_def)
  ultimately show ?thesis by auto
qed

text \<open>
  C10: retiring is safe: an attempt the batch may retire (superseded in every scope, or of a run
  that ended without success) could never have been published, whatever had followed.
\<close>

theorem retired_could_not_publish:
  assumes "export_reachable a" "attempt_at (at_id identity) a = Some x"
    and "superseded (owners a) x \<or> native_failed a x" "export_run a b"
  shows "promote_commit env dir identity pr ex g now b \<noteq> Inr (Published, c)"
proof -
  have inv: "head_inv a" "sync_inv (sync a)"
    using pipeline_system.inv_reachable [OF assms(1)] by (simp_all add: pipeline_inv_def)
  have inv': "head_inv b" "sync_inv (sync b)"
    using pipeline_system.inv_steps [OF assms(4)] inv by (simp_all add: pipeline_inv_def)
  note mv = run_moves [OF assms(4) inv(1)]
  from assms(3) show ?thesis
  proof
    assume "superseded (owners a) x"
    then have "fenced b (at_id identity)"
      using fenced_stays [OF superseded_fenced [OF assms(2)] mv] by simp
    then have "\<exists>e. locked_owner b identity None = Inl e"
      by (rule fenced_refused) (use head_invD(1) [OF inv'(1)] in simp_all)
    then show ?thesis by (rule refused_commit)
  next
    assume "native_failed a x"
    then obtain run where run: "run_at (a_run x) a = Some run" "sr_status run \<in> set FAILED_NATIVE"
      by (auto simp: native_failed_def split: option.splits)
    then have ended: "\<not> is_running run" "sr_status run \<noteq> ''success''" by (auto simp: is_running_def FAILED_NATIVE_def)
    obtain run' where run': "run_at (a_run x) b = Some run'" "sr_status run' \<noteq> ''success''"
      using run_stays_failed [OF run(1) ended(1) movesD(2) [OF mv] inv'(2)] ended(2) by auto
    obtain y where "attempt_at (at_id identity) b = Some y" "row_moves x y" using movesD(3) [OF mv assms(2)] by blast
    then have "sr_status r \<noteq> ''success''" if "locked_owner b identity None = Inr (r, att)" for r att
      using locked_Inr [OF locked_owner_Inr(1) [OF that]] run' by (auto simp: row_moves_def)
    then show ?thesis using commit_Inr [of env dir identity pr ex g now b Published c]
      unfolding publishes_def Let_def by blast
  qed
qed

subsection \<open>The properties at concrete databases\<close>

theorem fenced_attempt_never_publishes_witness:
  "promote_commit x_env x_dir x_attempt x_promotion x_examined ''g1'' 8 rival2 \<noteq> Inr (Published, x13)"
  by (rule fenced_attempt_never_publishes [OF y1_reachable _ _ _ _ _ _ y_claim rtranclp.rtrancl_refl,
        of _ "x_claimed 0 None Preparing" "rival_row None" xh])
    (simp_all add: rival1_def row_of_Cons y_attempt_def)

theorem retired_could_not_publish_witness:
  "promote_commit x_env x_dir x_attempt x_promotion x_examined ''g1'' 8 rival2 \<noteq> Inr (Published, x13)"
  by (rule retired_could_not_publish [OF y2_reachable _ _ rtranclp.rtrancl_refl, of _ "x_claimed 0 None Preparing"])
    (simp_all add: y_superseded [simplified])

theorem scope_epoch_has_one_owner_witness:
  "\<exists>o'. row_of o_scope xh (owners rival2) = Some o' \<and> 1 \<le> o_epoch o' \<and> (1 = o_epoch o' \<longrightarrow> o_attempt o' = ''a1'')"
  using scope_epoch_has_one_owner [OF y2_reachable, of "''a1''" "x_claimed 0 None Preparing" "[(xh, 1)]" xh 1] by simp

lemma x9_row: "attempt_at ''a1'' x9 = Some (x_claimed 1 (Some 6) Preparing)"
  by (simp add: x9_def row_of_Cons)

theorem closed_plan_is_frozen_witness:
  "\<exists>y. attempt_at ''a1'' x10 = Some y \<and> a_seal y = Some xh \<and> attempt_chunks ''a1'' x10 = attempt_chunks ''a1'' x9"
  using closed_plan_is_frozen [OF x9_reachable x9_row _ r_into_rtranclp [of export_step, OF x_step10]] by auto

theorem sealed_attempt_is_validated_witness: "\<exists>ev \<in> set (evidence x11). ev_attempt ev = ''a1''"
  using sealed_attempt_is_validated [OF x11_reachable, of "''a1''" "x_claimed 1 (Some 6) Sealed"]
  by (simp add: x11_def row_of_Cons)

theorem manifest_is_bounded_witness: "length (attempt_expected ''a1'' x9) \<le> 10000"
  using manifest_is_bounded [OF x9_reachable x9_row] by simp

theorem heads_show_their_history_witness: "head_shows x_head (history xh (generations x13))"
  using heads_show_their_history [OF x13_reachable, of xh] by (simp add: row_of_Cons)

theorem head_never_regresses_witness:
  "\<exists>h'. row_of h_namespace xh (heads (x13\<lparr>locations := []\<rparr>)) = Some h' \<and> 1 \<le> h_version h' \<and> 3 \<le> h_revision h'"
  using head_never_regresses [OF x13_reachable r_into_rtranclp [of export_step, OF by_catalog], of xh x_head "[]"]
  by (auto simp: row_of_Cons)

lemma x13_again: "promote_commit x_env x_dir x_attempt x_promotion x_examined ''g2'' 9 x13 = Inr (Already_Committed, x13)"
  by (simp add: promote_commit_def row_of_Cons x_attempt_def) (simp add: x_generation_def new_generation_def x_promotion_def
      x_attempt_def)

lemma x_promotion_namespace: "p_namespace (pr_plan x_promotion) = xh"
  by (simp add: x_promotion_def)

theorem stale_ticket_changes_nothing_witness: "Already_Committed \<noteq> Published \<and> x13 = x13"
  by (rule stale_ticket_changes_nothing [OF x11_reachable x_prepare r_into_rtranclp [of export_step, OF by_commit [OF x_commit]] _ _ _ x13_again,
        of x_generation]) (simp_all add: x_promotion_namespace x11_def)

theorem publication_is_the_sealed_set_witness:
  "\<exists>points gen digests. chunk_points x_env x_dir (Some []) (attempt_chunks ''a1'' x12) = Some points
     \<and> row_of g_id ''g1'' (generations x13) = Some gen \<and> g_points gen = int (length points)
     \<and> semantic_digests x_env points = Inr digests \<and> g_content gen = set_digest x_env digests"
  using publication_is_the_sealed_set [OF x11_reachable x_prepare x_examine [of "Some []"] rtranclp.rtrancl_refl x_commit]
  unfolding x_attempt_simps by blast

end
