(* ===== verification/Export_Gc.thy ===== *)
theory Export_Gc
  imports Promotion_Invariant
begin

section \<open>Collecting unreferenced artifacts (export_gc.py)\<close>

text \<open>
  An artifact file is named by the digest of its content.  The collector lists the directory,
  leaves every digest that a reference of the database holds and every young file, and deletes
  the rest in batches; each batch takes the exclusive guard, reads the references of its digests
  again and looks at each file once more.  \<open>ENTRY.stat\<close> and \<open>lstat\<close> are lookups in the directory
  of their moment; the two clocks the loops consult are functions of the number of entries or
  batches done, the guard's answer and the failing unlinks are parameters too.  An error of the
  database, which ends the whole call, is not a value of the model.
\<close>

definition LATEST_SNAPSHOTS :: nat where "LATEST_SNAPSHOTS = 64"
definition UNLINK_BATCH :: nat where "UNLINK_BATCH = 256"
definition MAX_UNLINKS :: nat where "MAX_UNLINKS = 20000"

definition artifact_digest :: "text_bytes \<Rightarrow> text_bytes option" where
  "artifact_digest name =
     (if hex64 (take 64 name) \<and> drop 64 name = ''.jsonl'' then Some (take 64 name) else None)"

definition is_candidate :: "text_bytes \<Rightarrow> bool" where
  "is_candidate name \<longleftrightarrow> take 11 name = ''.candidate-'' \<and> drop 11 name \<noteq> []
     \<and> list_all (\<lambda>c. is_alnum c \<or> c = CHR ''_'') (drop 11 name)"

subsection \<open>The references that keep a file\<close>

definition unread_generation :: "export_db \<Rightarrow> generation_row \<Rightarrow> bool" where
  "unread_generation db g \<longleftrightarrow>
     (case daily_checkpoint db of None \<Rightarrow> True
      | Some (published, generation) \<Rightarrow> published < g_created g \<or> (published = g_created g \<and> generation < g_id g))"

definition latest_snapshots :: "export_db \<Rightarrow> text_bytes list" where
  "latest_snapshots db = map sn_id (take LATEST_SNAPSHOTS (rev (sort_key sn_order (snapshots db))))"

definition unexpired_snapshots :: "instant \<Rightarrow> export_db \<Rightarrow> text_bytes list" where
  "unexpired_snapshots cutoff db = map sn_id (filter (\<lambda>s. cutoff < sn_expires s) (snapshots db))"

definition live_generations :: "instant \<Rightarrow> export_db \<Rightarrow> text_bytes list" where
  "live_generations cutoff db =
     map h_generation (heads db) @ map i_generation (inventory db)
     @ map g_id (filter (\<lambda>g. cutoff < g_created g) (generations db))
     @ map sr_generation (filter (\<lambda>r. sr_snapshot r \<in> set (unexpired_snapshots cutoff db)) (snapshot_refs db))
     @ map sr_generation (filter (\<lambda>r. sr_snapshot r \<in> set (latest_snapshots db)) (snapshot_refs db))
     @ map g_id (filter (unread_generation db) (generations db))"

definition pending_attempts :: "export_db \<Rightarrow> text_bytes list" where
  "pending_attempts db = map a_id (filter is_pending (attempts db))"

definition live_artifact_digests :: "instant \<Rightarrow> int \<Rightarrow> text_bytes list option \<Rightarrow> export_db \<Rightarrow> text_bytes list" where
  "live_artifact_digests now retention wanted db =
     (if wanted = Some [] then [] else
      let generations' = live_generations (now - retention) db; pending = pending_attempts db
      in filter (\<lambda>d. case wanted of None \<Rightarrow> True | Some ds \<Rightarrow> d \<in> set ds)
          (map r_digest (filter (\<lambda>r. r_generation r \<in> set generations') (refs db))
           @ map ch_digest (filter (\<lambda>c. ch_attempt c \<in> set pending) (chunks db))
           @ map pin_digest (pins db)))"

lemma live_restricted:
  "set (live_artifact_digests now retention (Some ds) db)
    = set (live_artifact_digests now retention None db) \<inter> set ds"
  by (auto simp: live_artifact_digests_def Let_def)

subsection \<open>Listing\<close>

record gc_report =
  gc_scanned :: nat
  gc_live :: nat
  gc_eligible :: nat
  gc_eligible_bytes :: nat
  gc_deleted :: nat
  gc_deleted_bytes :: nat
  gc_errors :: nat
  gc_complete :: bool

definition empty_report :: gc_report where
  "empty_report = \<lparr>gc_scanned = 0, gc_live = 0, gc_eligible = 0, gc_eligible_bytes = 0, gc_deleted = 0,
     gc_deleted_bytes = 0, gc_errors = 0, gc_complete = True\<rparr>"

definition old_file :: "instant \<Rightarrow> dir_entry \<Rightarrow> bool" where
  "old_file oldest e \<longleftrightarrow> de_kind e = Regular_File \<and> de_mtime e < oldest"

definition count_scanned :: "bool \<Rightarrow> gc_report \<Rightarrow> gc_report" where
  "count_scanned held r = r\<lparr>gc_scanned := gc_scanned r + 1, gc_live := (if held then gc_live r + 1 else gc_live r)\<rparr>"

definition gc_examine ::
  "(text_bytes \<Rightarrow> dir_entry option) \<Rightarrow> instant \<Rightarrow> text_bytes \<Rightarrow> (text_bytes \<times> nat) list option" where
  "gc_examine stat oldest name =
     (case stat name of
        None \<Rightarrow> None
      | Some e \<Rightarrow> Some (if old_file oldest e then [(name, length (de_content e))] else []))"

text \<open>One entry: \<open>None\<close> is a \<open>continue\<close>, after which the deadline is not looked at.\<close>

definition gc_entry ::
  "(text_bytes \<Rightarrow> dir_entry option) \<Rightarrow> text_bytes list \<Rightarrow> instant \<Rightarrow> text_bytes \<Rightarrow> gc_report \<Rightarrow>
   (text_bytes \<times> nat) list option \<times> gc_report" where
  "gc_entry stat live oldest name r =
     (case artifact_digest name of
        None \<Rightarrow> (if is_candidate name then gc_examine stat oldest name else None, r)
      | Some d \<Rightarrow>
          if d \<in> set live then (None, count_scanned True r)
          else (gc_examine stat oldest name, count_scanned False r))"

text \<open>\<open>late n\<close>: the deadline has passed when \<open>n\<close> entries are left.\<close>

fun gc_scan ::
  "(nat \<Rightarrow> bool) \<Rightarrow> (text_bytes \<Rightarrow> dir_entry option) \<Rightarrow> text_bytes list \<Rightarrow> instant \<Rightarrow> text_bytes list \<Rightarrow>
   (text_bytes \<times> nat) list \<Rightarrow> gc_report \<Rightarrow> (text_bytes \<times> nat) list \<times> gc_report" where
  "gc_scan late stat live oldest [] found r = (found, r)"
| "gc_scan late stat live oldest (name # names) found r =
     (case gc_entry stat live oldest name r of
        (None, r') \<Rightarrow> gc_scan late stat live oldest names found r'
      | (Some new, r') \<Rightarrow>
          if late (length names) then (found @ new, r'\<lparr>gc_complete := False\<rparr>)
          else gc_scan late stat live oldest names (found @ new) r')"

subsection \<open>Deleting\<close>

definition batch_digests :: "text_bytes list \<Rightarrow> text_bytes list" where
  "batch_digests names = concat (map (\<lambda>n. case artifact_digest n of None \<Rightarrow> [] | Some d \<Rightarrow> [d]) names)"

definition is_kept :: "text_bytes list \<Rightarrow> text_bytes \<Rightarrow> bool" where
  "is_kept rechecked name \<longleftrightarrow>
     (case artifact_digest name of None \<Rightarrow> False | Some d \<Rightarrow> d \<in> set rechecked)"

definition unlink :: "text_bytes \<Rightarrow> directory \<Rightarrow> directory" where
  "unlink name dir = delete_where (\<lambda>e. de_name e = name) dir"

text \<open>\<open>refuses\<close>: the names whose \<open>lstat\<close> or whose \<open>unlink\<close> fails with an error other than absence.\<close>

datatype refusal = Lstat_Fails | Unlink_Fails

definition gc_unlink ::
  "(text_bytes \<Rightarrow> refusal option) \<Rightarrow> instant \<Rightarrow> text_bytes list \<Rightarrow> text_bytes \<Rightarrow> directory \<times> gc_report \<Rightarrow> directory \<times> gc_report" where
  "gc_unlink refuses oldest rechecked name s =
     (case s of (dir, r) \<Rightarrow>
        if is_kept rechecked name then (dir, r)
        else if refuses name = Some Lstat_Fails then (dir, r\<lparr>gc_errors := gc_errors r + 1\<rparr>)
        else case entry_at name dir of
          None \<Rightarrow> (dir, r)
        | Some e \<Rightarrow>
            if \<not> old_file oldest e then (dir, r)
            else if refuses name = Some Unlink_Fails then (dir, r\<lparr>gc_errors := gc_errors r + 1\<rparr>)
            else (unlink name dir, r\<lparr>gc_deleted := gc_deleted r + 1,
                gc_deleted_bytes := gc_deleted_bytes r + length (de_content e)\<rparr>))"

definition gc_batch ::
  "(text_bytes \<Rightarrow> refusal option) \<Rightarrow> instant \<Rightarrow> int \<Rightarrow> instant \<Rightarrow> text_bytes list \<Rightarrow> export_db \<Rightarrow> directory \<Rightarrow> gc_report \<Rightarrow>
   directory \<times> gc_report" where
  "gc_batch refuses now retention oldest names db dir r =
     fold (gc_unlink refuses oldest (live_artifact_digests now retention (Some (batch_digests names)) db)) names (dir, r)"

function in_batches :: "'a list \<Rightarrow> 'a list list" where
  "in_batches [] = []"
| "in_batches (x # xs) = take UNLINK_BATCH (x # xs) # in_batches (drop UNLINK_BATCH (x # xs))"
  by pat_completeness auto
termination by (relation "measure length") (simp_all add: UNLINK_BATCH_def)

text \<open>
  \<open>late i\<close>: the budget is used up before batch \<open>i\<close>; \<open>guarded i\<close>: the guard is obtained for it;
  \<open>other i\<close>: what the rest of the system does to the files and the tables before it.
\<close>

fun gc_delete ::
  "(nat \<Rightarrow> bool) \<Rightarrow> (nat \<Rightarrow> bool) \<Rightarrow> (text_bytes \<Rightarrow> refusal option) \<Rightarrow> (nat \<Rightarrow> directory \<times> export_db \<Rightarrow> directory \<times> export_db) \<Rightarrow>
   instant \<Rightarrow> int \<Rightarrow> instant \<Rightarrow> nat \<Rightarrow> text_bytes list list \<Rightarrow> directory \<times> export_db \<Rightarrow> gc_report \<Rightarrow>
   (directory \<times> export_db) \<times> gc_report" where
  "gc_delete late guarded refuses other now retention oldest i [] w r = (w, r)"
| "gc_delete late guarded refuses other now retention oldest i (names # rest) w r =
     (if late i then (w, r\<lparr>gc_complete := False\<rparr>)
      else case other i w of (dir, db) \<Rightarrow>
        if \<not> guarded i then ((dir, db), r\<lparr>gc_complete := False\<rparr>)
        else case gc_batch refuses now retention oldest names db dir r of (dir', r') \<Rightarrow>
          gc_delete late guarded refuses other now retention oldest (i + 1) rest (dir', db) r')"

datatype gc_mode = Dry_Run | Delete

record gc_call =
  gc_now :: instant
  gc_retention :: int
  gc_grace :: int
  gc_budget :: rat

definition gc_call_ok :: "gc_call \<Rightarrow> bool" where
  "gc_call_ok c \<longleftrightarrow> \<not> (gc_retention c < hours 1 \<or> gc_grace c < 5 * minutes 1) \<and> 0 < gc_budget c \<and> gc_budget c \<le> 30"

definition collect_export_artifacts ::
  "(nat \<Rightarrow> bool) \<Rightarrow> (nat \<Rightarrow> bool) \<Rightarrow> (nat \<Rightarrow> bool) \<Rightarrow> (text_bytes \<Rightarrow> refusal option) \<Rightarrow> (text_bytes \<Rightarrow> dir_entry option) \<Rightarrow>
   (nat \<Rightarrow> directory \<times> export_db \<Rightarrow> directory \<times> export_db) \<Rightarrow> gc_mode \<Rightarrow> gc_call \<Rightarrow> directory \<times> export_db \<Rightarrow>
   (unit + gc_report) \<times> directory \<times> export_db" where
  "collect_export_artifacts late_scan late guarded refuses stat other mode c w =
     (if \<not> gc_call_ok c then (Inl (), w)
      else
        let live = live_artifact_digests (gc_now c) (gc_retention c) None (snd w);
            oldest = gc_now c - gc_grace c;
            (found, r) = gc_scan late_scan stat live oldest (map de_name (fst w)) [] empty_report;
            r1 = r\<lparr>gc_eligible := length found, gc_eligible_bytes := sum_list (map snd found)\<rparr>
        in if mode = Dry_Run then (Inr r1, w)
           else
             let r2 = (if length found > MAX_UNLINKS then r1\<lparr>gc_complete := False\<rparr> else r1);
                 (w', r3) = gc_delete late guarded refuses other (gc_now c) (gc_retention c) oldest 0
                   (in_batches (map fst (take MAX_UNLINKS found))) w r2
             in (Inr r3, w'))"

subsection \<open>What a batch removes\<close>

lemma unlink_entry: "entry_at n (unlink name dir) = (if n = name then None else entry_at n dir)"
  by (induction dir) (auto simp: unlink_def delete_where_def row_of_Cons)

definition gc_removes :: "(text_bytes \<Rightarrow> refusal option) \<Rightarrow> instant \<Rightarrow> text_bytes list \<Rightarrow> directory \<Rightarrow> text_bytes \<Rightarrow> bool" where
  "gc_removes refuses oldest rechecked dir name \<longleftrightarrow>
     \<not> is_kept rechecked name \<and> refuses name = None \<and>
     (case entry_at name dir of None \<Rightarrow> False | Some e \<Rightarrow> old_file oldest e)"

lemma gc_unlink_entry:
  "entry_at n (fst (gc_unlink refuses oldest rechecked name (dir, r))) =
     (if n = name \<and> gc_removes refuses oldest rechecked dir name then None else entry_at n dir)"
proof (cases "refuses name")
  case None
  then show ?thesis by (auto simp: gc_unlink_def gc_removes_def unlink_entry split: option.splits)
next
  case (Some x)
  then show ?thesis by (cases x) (auto simp: gc_unlink_def gc_removes_def unlink_entry split: option.splits)
qed

lemma gc_fold_entry:
  "entry_at n (fst (fold (gc_unlink refuses oldest rechecked) names (dir, r))) =
     (if n \<in> set names \<and> gc_removes refuses oldest rechecked dir n then None else entry_at n dir)"
proof (induction names arbitrary: dir r)
  case (Cons name names)
  obtain dir1 r1 where s: "gc_unlink refuses oldest rechecked name (dir, r) = (dir1, r1)" by fastforce
  have e: "entry_at m dir1 = (if m = name \<and> gc_removes refuses oldest rechecked dir name then None else entry_at m dir)" for m
    using gc_unlink_entry [of m refuses oldest rechecked name dir r] by (simp add: s)
  then have "gc_removes refuses oldest rechecked dir1 n \<longleftrightarrow>
      gc_removes refuses oldest rechecked dir n \<and> \<not> (n = name \<and> gc_removes refuses oldest rechecked dir name)"
    by (auto simp: gc_removes_def)
  then show ?case using Cons.IH [of dir1 r1] e [of n] by (auto simp: s)
qed simp

lemma gc_fold_count:
  "gc_deleted (snd (fold (gc_unlink refuses oldest rechecked) names (dir, r))) \<le> gc_deleted r + length names"
proof (induction names arbitrary: dir r)
  case (Cons name names)
  obtain dir1 r1 where s: "gc_unlink refuses oldest rechecked name (dir, r) = (dir1, r1)" by fastforce
  then have "gc_deleted r1 \<le> gc_deleted r + 1"
    by (auto simp: gc_unlink_def split: if_split_asm option.splits)
  then show ?case using Cons.IH [of dir1 r1] by (simp add: s)
qed simp

lemma is_kept_live:
  "name \<in> set names \<Longrightarrow> is_kept (live_artifact_digests now retention (Some (batch_digests names)) db) name
    \<longleftrightarrow> (\<exists>d. artifact_digest name = Some d \<and> d \<in> set (live_artifact_digests now retention None db))"
  unfolding live_restricted is_kept_def
  by (force simp: batch_digests_def live_restricted split: option.splits)

lemma concat_in_batches: "concat (in_batches xs) = xs"
  by (induction xs rule: in_batches.induct) (simp_all add: append_take_drop_id del: take_Cons_numeral)

lemma in_batches_bound: "b \<in> set (in_batches xs) \<Longrightarrow> length b \<le> UNLINK_BATCH"
  by (induction xs rule: in_batches.induct) auto

lemma gc_delete_count:
  "gc_deleted (snd (gc_delete late guarded refuses other now retention oldest i bs w r))
    \<le> gc_deleted r + length (concat bs)"
proof (induction bs arbitrary: i w r)
  case (Cons names rest)
  obtain dir db where o: "other i w = (dir, db)" by fastforce
  obtain dir' r' where b: "gc_batch refuses now retention oldest names db dir r = (dir', r')" by fastforce
  then have "gc_deleted r' \<le> gc_deleted r + length names"
    using gc_fold_count [of refuses oldest _ names dir r] unfolding gc_batch_def by (metis snd_conv)
  then show ?case using Cons.IH [of "i + 1" "(dir', db)" r'] by (simp add: o b)
qed simp

definition gc_eligible_entry ::
  "(text_bytes \<Rightarrow> dir_entry option) \<Rightarrow> text_bytes list \<Rightarrow> instant \<Rightarrow> text_bytes \<Rightarrow> bool" where
  "gc_eligible_entry stat live oldest name \<longleftrightarrow>
     (\<exists>e. stat name = Some e \<and> old_file oldest e)
     \<and> (case artifact_digest name of None \<Rightarrow> is_candidate name | Some d \<Rightarrow> d \<notin> set live)"

lemma gc_entry_found:
  assumes "gc_entry stat live oldest name r = (new, r')"
  shows "gc_deleted r' = gc_deleted r"
    "\<forall>x \<in> set (case new of None \<Rightarrow> [] | Some xs \<Rightarrow> xs). fst x = name \<and> gc_eligible_entry stat live oldest name"
  using assms by (auto simp: gc_entry_def gc_examine_def gc_eligible_entry_def count_scanned_def split: option.splits if_splits)

lemma gc_scan_found:
  "gc_scan late stat live oldest names found r = (found', r') \<Longrightarrow>
    \<forall>x \<in> set found. gc_eligible_entry stat live oldest (fst x) \<Longrightarrow>
    gc_deleted r' = gc_deleted r \<and> (\<forall>x \<in> set found'. gc_eligible_entry stat live oldest (fst x))"
proof (induction names arbitrary: found r)
  case (Cons name names)
  obtain new r1 where e: "gc_entry stat live oldest name r = (new, r1)" by fastforce
  note n = gc_entry_found [OF e]
  show ?case
  proof (cases new)
    case None
    with Cons.prems e have "gc_scan late stat live oldest names found r1 = (found', r')" by simp
    from Cons.IH [OF this Cons.prems(2)] n(1) show ?thesis by simp
  next
    case (Some xs)
    then have all: "\<forall>x \<in> set (found @ xs). gc_eligible_entry stat live oldest (fst x)"
      using Cons.prems(2) n(2) by auto
    show ?thesis
    proof (cases "late (length names)")
      case True
      with Cons.prems(1) e Some have "found' = found @ xs" "gc_deleted r' = gc_deleted r1" by auto
      with all n(1) show ?thesis by simp
    next
      case False
      with Cons.prems(1) e Some have "gc_scan late stat live oldest names (found @ xs) r1 = (found', r')" by simp
      from Cons.IH [OF this all] n(1) show ?thesis by simp
    qed
  qed
qed simp

text \<open>What no run of the collector may remove: a file that is young, no regular file or not an artifact,
  or whose digest the database holds.\<close>

definition gc_removable :: "instant \<Rightarrow> int \<Rightarrow> instant \<Rightarrow> export_db \<Rightarrow> directory \<Rightarrow> text_bytes \<Rightarrow> bool" where
  "gc_removable now retention oldest db dir name \<longleftrightarrow>
     (\<exists>e. entry_at name dir = Some e \<and> old_file oldest e)
     \<and> (\<forall>d. artifact_digest name = Some d \<longrightarrow> d \<notin> set (live_artifact_digests now retention None db))"

text \<open>
  C6: a batch of the collector, inside the guard, removes exactly those of its names whose entry is
  an old regular file, whose digest no reference of the database of that moment holds and whose
  unlink succeeds; every other entry of the directory stays as it is.
\<close>

theorem gc_batch_is_exact:
  "entry_at n (fst (gc_batch refuses now retention oldest names db dir r)) =
     (if n \<in> set names \<and> refuses n = None \<and> gc_removable now retention oldest db dir n then None else entry_at n dir)"
proof -
  have "n \<in> set names \<Longrightarrow>
      gc_removes refuses oldest (live_artifact_digests now retention (Some (batch_digests names)) db) dir n
      \<longleftrightarrow> refuses n = None \<and> gc_removable now retention oldest db dir n"
    by (auto simp: gc_removes_def gc_removable_def is_kept_live split: option.splits)
  then show ?thesis unfolding gc_batch_def gc_fold_entry by auto
qed

lemma gc_batch_kept:
  "entry_at n (fst (gc_batch refuses now retention oldest names db dir r)) = entry_at n dir
    \<or> (n \<in> set names \<and> gc_removable now retention oldest db dir n)"
  unfolding gc_batch_def gc_fold_entry
  using is_kept_live [of n names now retention db]
  by (auto simp: gc_removes_def gc_removable_def split: option.splits)

lemma gc_removable_mono:
  "gc_removable now retention oldest db dir1 n \<Longrightarrow> entry_at n dir1 = entry_at n dir \<Longrightarrow>
    gc_removable now retention oldest db dir n"
  by (simp add: gc_removable_def)

lemma gc_delete_kept:
  "gc_delete late guarded refuses (\<lambda>i w. w) now retention oldest i bs (dir, db) r = ((dir', db'), r') \<Longrightarrow>
    db' = db \<and> (entry_at n dir' = entry_at n dir
      \<or> (entry_at n dir' = None \<and> n \<in> set (concat bs) \<and> gc_removable now retention oldest db dir n))"
proof (induction bs arbitrary: i dir r)
  case (Cons names rest)
  obtain dir1 r1 where b: "gc_batch refuses now retention oldest names db dir r = (dir1, r1)" by fastforce
  have one: "entry_at n dir1 = entry_at n dir
      \<or> (entry_at n dir1 = None \<and> n \<in> set names \<and> gc_removable now retention oldest db dir n)"
    using gc_batch_kept [of n refuses now retention oldest names db dir r] b
      gc_fold_entry [of n refuses oldest _ names dir r] unfolding gc_batch_def by (metis fst_conv)
  show ?case
  proof (cases "late i \<or> \<not> guarded i")
    case True
    with Cons.prems show ?thesis by (auto split: if_splits)
  next
    case False
    with Cons.prems b have "gc_delete late guarded refuses (\<lambda>i w. w) now retention oldest (i + 1) rest (dir1, db) r1
        = ((dir', db'), r')" by simp
    from Cons.IH [OF this] one gc_removable_mono show ?thesis
      by (metis (no_types, lifting) Un_iff concat.simps(2) set_append gc_removable_def option.distinct(1))
  qed
qed auto

text \<open>
  A whole run of the collector in which nothing else changes the files or the tables:
  as a dry run it leaves the directory untouched; otherwise it changes no row, every name it removes was
  found eligible (an artifact or a left-over candidate, an old regular file, its digest not held by
  the database), everything else keeps its entry, and at most 20,000 files go.
\<close>

theorem gc_run_is_safe:
  assumes "collect_export_artifacts late_scan late guarded refuses (\<lambda>n. entry_at n dir) (\<lambda>i w. w) mode c (dir, db)
    = (Inr r, dir', db')"
  shows "db' = db \<and> gc_deleted r \<le> 20000 \<and> (mode = Dry_Run \<longrightarrow> dir' = dir)
    \<and> (entry_at n dir' = entry_at n dir
       \<or> (entry_at n dir' = None \<and> gc_removable (gc_now c) (gc_retention c) (gc_now c - gc_grace c) db dir n
          \<and> (artifact_digest n \<noteq> None \<or> is_candidate n)))"
proof -
  let ?live = "live_artifact_digests (gc_now c) (gc_retention c) None db" and ?oldest = "gc_now c - gc_grace c"
  obtain found r0 where scan: "gc_scan late_scan (\<lambda>n. entry_at n dir) ?live ?oldest (map de_name dir) [] empty_report
      = (found, r0)" by fastforce
  note f = gc_scan_found [OF scan]
  have none: "gc_deleted r0 = 0" using f by (simp add: empty_report_def)
  define r1 where "r1 = r0\<lparr>gc_eligible := length found, gc_eligible_bytes := sum_list (map snd found)\<rparr>"
  define r2 where "r2 = (if length found > MAX_UNLINKS then r1\<lparr>gc_complete := False\<rparr> else r1)"
  let ?bs = "in_batches (map fst (take MAX_UNLINKS found))"
  have ok: "gc_call_ok c" using assms by (auto simp: collect_export_artifacts_def split: if_splits)
  note eq = assms [unfolded collect_export_artifacts_def, simplified ok Let_def snd_conv fst_conv, simplified scan,
      simplified, folded r1_def, folded r2_def]
  show ?thesis
  proof (cases "mode = Dry_Run")
    case True
    with eq none show ?thesis by (auto simp: r1_def)
  next
    case False
    with eq have del: "gc_delete late guarded refuses (\<lambda>i w. w) (gc_now c) (gc_retention c) ?oldest 0 ?bs (dir, db) r2
        = ((dir', db'), r)" by (auto split: prod.splits)
    have "gc_deleted r \<le> gc_deleted r2 + length (concat ?bs)" using gc_delete_count del by (metis snd_conv)
    then have bound: "gc_deleted r \<le> 20000"
      using none by (simp add: concat_in_batches r2_def r1_def MAX_UNLINKS_def split: if_splits)
    have "artifact_digest n \<noteq> None \<or> is_candidate n" if "n \<in> set (concat ?bs)"
    proof -
      from that obtain x where "x \<in> set found" "fst x = n"
        unfolding concat_in_batches using in_set_takeD by fastforce
      with f show ?thesis by (auto simp: gc_eligible_entry_def split: option.splits)
    qed
    with gc_delete_kept [OF del, of n] bound False show ?thesis by blast
  qed
qed

end
