(* ===== verification/Artifact_Lifetime.thy ===== *)
theory Artifact_Lifetime
  imports Export_Gc Export_Example
begin

section \<open>Files and tables together: what is published stays readable\<close>

text \<open>
  The tables, the artifact directory and the collector as one system.  Three critical sections hold
  the exclusive guard (Artifact_Guard shows that at most one holder is inside): the write of a
  chunk, the compare-and-swap of a promotion, and a batch of the collector, whose recheck and
  unlinks are separate steps here because transactions that need no guard run between them.  A
  write replaces a file by a file of the same digest; that both have the same content is the
  collision-freeness of SHA-256, stated for the two contents at hand.
\<close>

record gc_turn =
  gt_oldest :: instant
  gt_rechecked :: "text_bytes list"
  gt_names :: "text_bytes list"

record export_world =
  w_db :: export_db
  w_dir :: directory
  w_gc :: "gc_turn option"

definition no_collision :: "directory \<Rightarrow> prepared_chunk \<Rightarrow> bool" where
  "no_collision dir chunk \<longleftrightarrow>
     (case entry_at (pc_digest chunk @ ''.jsonl'') dir of None \<Rightarrow> True | Some e \<Rightarrow> de_content e = pc_payload chunk)"

inductive world_step :: "(text_bytes \<Rightarrow> text_bytes) \<Rightarrow> export_world \<Rightarrow> export_world \<Rightarrow> bool" for sha256 where
  transaction: "export_step (w_db w) db \<Longrightarrow> generations db = generations (w_db w) \<Longrightarrow>
    world_step sha256 w (w\<lparr>w_db := db\<rparr>)"
| publication: "w_gc w = None \<Longrightarrow>
    promote_commit env (w_dir w) identity pr ex g now (w_db w) = Inr (Published, db) \<Longrightarrow>
    world_step sha256 w (w\<lparr>w_db := db\<rparr>)"
| chunk_write: "w_gc w = None \<Longrightarrow> store_publish sha256 now chunk (w_dir w) = Inr dir \<Longrightarrow> no_collision (w_dir w) chunk \<Longrightarrow>
    world_step sha256 w (w\<lparr>w_dir := dir\<rparr>)"
| recheck: "w_gc w = None \<Longrightarrow>
    world_step sha256 w (w\<lparr>w_gc := Some \<lparr>gt_oldest = oldest,
      gt_rechecked = live_artifact_digests now retention (Some (batch_digests names)) (w_db w), gt_names = names\<rparr>\<rparr>)"
| collect: "w_gc w = Some t \<Longrightarrow> gt_names t = name # names \<Longrightarrow>
    world_step sha256 w (w\<lparr>w_dir := fst (gc_unlink refuses (gt_oldest t) (gt_rechecked t) name (w_dir w, r)),
      w_gc := Some (t\<lparr>gt_names := names\<rparr>)\<rparr>)"
| release: "w_gc w = Some t \<Longrightarrow> world_step sha256 w (w\<lparr>w_gc := None\<rparr>)"

definition world_start :: "export_world \<Rightarrow> bool" where
  "world_start w \<longleftrightarrow> export_start (w_db w) \<and> w_gc w = None \<and> (\<forall>e \<in> set (w_dir w). artifact_digest (de_name e) = None)"

text \<open>The references of the heads, which the collector must find in every recheck.\<close>

definition head_refs :: "export_db \<Rightarrow> ref_row list" where
  "head_refs db = filter (\<lambda>r. r_generation r \<in> h_generation ` set (heads db)) (refs db)"

definition present_refs :: "directory \<Rightarrow> ref_row list \<Rightarrow> bool" where
  "present_refs dir rs \<longleftrightarrow> (\<forall>r \<in> set rs. store_present dir (r_digest r) (r_bytes r) = Inr ())"

definition spared :: "export_db \<Rightarrow> gc_turn \<Rightarrow> bool" where
  "spared db t \<longleftrightarrow> (\<forall>r \<in> set (head_refs db). \<forall>name \<in> set (gt_names t).
     artifact_digest name = Some (r_digest r) \<longrightarrow> r_digest r \<in> set (gt_rechecked t))"

definition world_inv :: "export_world \<Rightarrow> bool" where
  "world_inv w \<longleftrightarrow> head_inv (w_db w) \<and> present_refs (w_dir w) (head_refs (w_db w))
     \<and> (case w_gc w of None \<Rightarrow> True | Some t \<Rightarrow> spared (w_db w) t)"

subsection \<open>What the steps do to the references\<close>

lemma quiet_step:
  assumes "export_step a b" "generations b = generations a"
  shows "heads b = heads a \<and> refs b = refs a"
  using export_step_kinds [OF assms(1)]
proof (elim disjE exE)
  assume "lifecycle_step a b"
  from lifecycle_head_part [OF this] show ?thesis by (simp add: head_part_def)
next
  fix identity assume "binds identity a b"
  then show ?thesis by (auto simp: binds_def update_plan_def)
next
  fix env dir identity pr ex g now assume "publishes env dir identity pr ex g now a b"
  with assms(2) show ?thesis
    by (auto simp: publishes_def Let_def finish_publication_def publish_rows_def)
qed (auto simp: side_step_def adds_plan_def retires_def retire_def)

lemma head_refs_live:
  "r \<in> set (head_refs db) \<Longrightarrow> r_digest r \<in> set (live_artifact_digests now retention None db)"
  by (auto simp: head_refs_def live_artifact_digests_def live_generations_def Let_def)

lemma publication_refs:
  assumes inv: "head_inv a" and pub: "publishes env dir identity pr ex g now a b"
    and old: "present_refs dir (head_refs a)"
  shows "present_refs dir (head_refs b)"
proof -
  let ?ns = "p_namespace (pr_plan pr)"
  obtain published token rows where fresh: "row_of g_id g (generations a) = None"
    and files: "files_present dir (map (\<lambda>f. (fr_digest f, fr_bytes f)) (ex_files ex)) = None"
    and b: "b = finish_publication identity published
      ((publish_rows identity pr ex g token (row_of h_namespace ?ns (heads a)) published a)\<lparr>inventory := rows\<rparr>)"
    using pub unfolding publishes_def Let_def by blast
  define old_head where "old_head = row_of h_namespace ?ns (heads a)"
  have hs: "heads b = upsert h_namespace (\<lambda>old new. new) (new_head pr ex g old_head) (heads a)"
    and rs: "refs b = refs a @ map (generation_ref g) (enumerate 0 (ex_files ex))"
    by (simp_all add: b finish_publication_def publish_rows_def old_head_def)
  have gens: "h_generation ` set (heads b) \<subseteq> insert g (h_generation ` set (heads a))"
    by (auto simp: hs upsert_def set_update_where new_head_def)
  have not_g: "r_generation r \<noteq> g" if "r \<in> set (refs a)" for r
    using head_invD(9) [OF inv] fresh that unfolding row_of_None_iff by (metis image_eqI image_iff subsetD)
  have "store_present dir (r_digest r) (r_bytes r) = Inr ()" if r: "r \<in> set (head_refs b)" for r
  proof (cases "r \<in> set (refs a)")
    case True
    with r gens not_g [OF True] have "r \<in> set (head_refs a)" by (auto simp: head_refs_def)
    with old show ?thesis by (auto simp: present_refs_def)
  next
    case False
    with r rs obtain x where x: "x \<in> set (enumerate 0 (ex_files ex))" "r = generation_ref g x"
      by (auto simp: head_refs_def)
    then have "snd x \<in> set (ex_files ex)" by (metis in_set_enumerate_eq add.right_neutral nth_mem diff_zero)
    then have "(fr_digest (snd x), fr_bytes (snd x)) \<in> set (map (\<lambda>f. (fr_digest f, fr_bytes f)) (ex_files ex))" by auto
    from files_present_None [OF files this] show ?thesis by (simp add: x(2) generation_ref_def)
  qed
  then show ?thesis by (simp add: present_refs_def)
qed

lemma artifact_digest_path: "hex64 d \<Longrightarrow> artifact_digest (d @ ''.jsonl'') = Some d"
  by (simp add: artifact_digest_def hex64_def)

lemma present_path:
  "store_present dir d b = Inr () \<longleftrightarrow> hex64 d \<and>
    (\<exists>e. entry_at (d @ ''.jsonl'') dir = Some e \<and> de_kind e = Regular_File \<and> int (length (de_content e)) = b)"
  by (auto simp: store_present_def store_path_def split: option.splits)

lemma present_after_write:
  assumes "store_publish sha256 now chunk dir = Inr dir'" "no_collision dir chunk" "store_present dir d b = Inr ()"
  shows "store_present dir' d b = Inr ()"
proof -
  have hex: "hex64 (pc_digest chunk)"
    and dir': "dir' = upsert de_name (\<lambda>old new. new) \<lparr>de_name = pc_digest chunk @ ''.jsonl'', de_kind = Regular_File,
      de_content = pc_payload chunk, de_mtime = now\<rparr> dir"
    using assms(1) by (auto simp: store_publish_def store_path_def split: if_splits)
  obtain e where e: "hex64 d" "entry_at (d @ ''.jsonl'') dir = Some e" "de_kind e = Regular_File"
    "int (length (de_content e)) = b"
    using assms(3) by (auto simp: present_path)
  show ?thesis
  proof (cases "d = pc_digest chunk")
    case True
    with assms(2) e have "de_content e = pc_payload chunk" by (simp add: no_collision_def)
    with e True show ?thesis by (auto simp: dir' present_path row_of_upsert)
  next
    case False
    with e show ?thesis by (auto simp: dir' present_path row_of_upsert)
  qed
qed

lemma present_after_unlink:
  assumes "store_present dir d b = Inr ()" "artifact_digest name = Some d \<longrightarrow> d \<in> set rechecked"
  shows "store_present (fst (gc_unlink refuses oldest rechecked name (dir, r))) d b = Inr ()"
proof -
  have hex: "hex64 d" using assms(1) by (simp add: present_path)
  have "\<not> (d @ ''.jsonl'' = name \<and> gc_removes refuses oldest rechecked dir name)"
    using assms(2) artifact_digest_path [OF hex] by (auto simp: gc_removes_def is_kept_def)
  then have "entry_at (d @ ''.jsonl'') (fst (gc_unlink refuses oldest rechecked name (dir, r))) = entry_at (d @ ''.jsonl'') dir"
    unfolding gc_unlink_entry by (rule if_not_P)
  with assms(1) show ?thesis by (simp only: present_path)
qed

lemma spared_recheck:
  "spared db \<lparr>gt_oldest = oldest, gt_rechecked = live_artifact_digests now retention (Some (batch_digests names)) db,
    gt_names = names\<rparr>"
proof -
  have "d \<in> set (batch_digests names)" if "name \<in> set names" "artifact_digest name = Some d" for name d
    using that by (force simp: batch_digests_def)
  then show ?thesis by (simp add: spared_def live_restricted head_refs_live)
qed

subsection \<open>The invariant\<close>

lemma world_inv_start: "world_start w \<Longrightarrow> world_inv w"
  using head_system.inv_start [of "w_db w"]
  by (simp add: world_start_def world_inv_def present_refs_def head_refs_def export_start_def)

lemma world_invD:
  assumes "world_inv w"
  shows "head_inv (w_db w)" "present_refs (w_dir w) (head_refs (w_db w))"
    "w_gc w = Some t \<Longrightarrow> spared (w_db w) t"
  using assms by (simp_all add: world_inv_def)

lemma world_inv_step:
  assumes inv: "world_inv w" and step: "world_step sha256 w w'"
  shows "world_inv w'"
  using step
proof cases
  case (transaction db)
  note q = quiet_step [OF transaction(2,3)]
  have "head_inv db" by (rule head_inv_step [OF transaction(2) world_invD(1) [OF inv]])
  moreover have hr: "head_refs db = head_refs (w_db w)" using q by (simp add: head_refs_def)
  moreover have "spared db t" if "w_gc w = Some t" for t
    using world_invD(3) [OF inv that] by (simp add: spared_def hr)
  ultimately show ?thesis using world_invD(2) [OF inv] transaction(1)
    by (cases "w_gc w") (simp_all add: world_inv_def)
next
  case (publication env identity pr ex g now db)
  have "publishes env (w_dir w) identity pr ex g now (w_db w) db" using commit_Inr [OF publication(3)] by simp
  with publication(1,2) publication_refs [OF world_invD(1) [OF inv] _ world_invD(2) [OF inv]]
    head_inv_step [OF by_commit [OF publication(3)] world_invD(1) [OF inv]]
  show ?thesis by (simp add: world_inv_def)
next
  case (chunk_write now chunk dir)
  then show ?thesis using world_invD [OF inv] present_after_write [OF chunk_write(3,4)]
    by (simp add: world_inv_def present_refs_def)
next
  case (recheck oldest now retention names)
  then show ?thesis using world_invD(1,2) [OF inv] by (simp add: world_inv_def spared_recheck)
next
  case (collect t name names refuses r)
  note sp = world_invD(3) [OF inv collect(2)]
  have "artifact_digest name = Some (r_digest x) \<longrightarrow> r_digest x \<in> set (gt_rechecked t)" if "x \<in> set (head_refs (w_db w))" for x
    using sp that collect(3) by (simp add: spared_def)
  then have "present_refs (fst (gc_unlink refuses (gt_oldest t) (gt_rechecked t) name (w_dir w, r))) (head_refs (w_db w))"
    using world_invD(2) [OF inv] present_after_unlink by (simp add: present_refs_def)
  moreover have "spared (w_db w) (t\<lparr>gt_names := names\<rparr>)" using sp collect(3) by (simp add: spared_def)
  ultimately show ?thesis using collect(1) world_invD(1) [OF inv] by (simp add: world_inv_def)
next
  case (release t)
  then show ?thesis using world_invD [OF inv] by (simp add: world_inv_def)
qed

interpretation world_system: step_invariant world_start "world_step sha256" world_inv for sha256
  by unfold_locales (auto intro: world_inv_start world_inv_step)

text \<open>
  C5: whatever the transactions, chunk writes, promotions and collector batches that have run,
  interleaved in any order the guard allows, every file that the current head of any namespace
  refers to is in the artifact directory, a regular file of the size the reference says.
\<close>

theorem published_files_survive:
  assumes "world_system.reachable sha256 w" "h \<in> set (heads (w_db w))" "r \<in> set (refs (w_db w))"
    "r_generation r = h_generation h"
  shows "store_present (w_dir w) (r_digest r) (r_bytes r) = Inr ()"
  using world_invD(2) [OF world_system.inv_reachable [OF assms(1)]] assms(2-4)
  by (auto simp: present_refs_def head_refs_def)

subsection \<open>The properties at concrete files\<close>

definition x_gc_call :: gc_call where
  "x_gc_call = \<lparr>gc_now = hours 30, gc_retention = hours 24, gc_grace = hours 1, gc_budget = 1\<rparr>"

lemma x0_simps [simp]: "heads x0 = []" "inventory x0 = []" "generations x0 = []" "snapshot_refs x0 = []" "refs x0 = []"
  "chunks x0 = []" "pins x0 = []"
  by (simp_all add: x0_def)

lemma x0_live: "live_artifact_digests now retention None x0 = []"
  by (simp add: live_artifact_digests_def Let_def)

definition x_report :: gc_report where
  "x_report = empty_report\<lparr>gc_scanned := 1, gc_eligible := 1, gc_eligible_bytes := 1, gc_deleted := 1, gc_deleted_bytes := 1\<rparr>"

lemma x_gc_run: "collect_export_artifacts (\<lambda>n. False) (\<lambda>i. False) (\<lambda>i. True) (\<lambda>n. None) (\<lambda>n. entry_at n x_dir) (\<lambda>i w. w)
    Delete x_gc_call (x_dir, x0) = (Inr x_report, [], x0)"
proof -
  define oldest where "oldest = hours 29"
  have ok: "gc_call_ok x_gc_call"
    by (simp add: gc_call_ok_def x_gc_call_def hours_def minutes_def seconds_def microseconds_per_second_def)
  have entry: "entry_at (xh @ ''.jsonl'') x_dir = Some \<lparr>de_name = xh @ ''.jsonl'', de_kind = Regular_File, de_content = ''x'', de_mtime = 0\<rparr>"
    by (simp add: x_dir_def row_of_Cons)
  have path: "artifact_digest (xh @ ''.jsonl'') = Some xh" by (simp add: artifact_digest_path)
  have scan: "gc_scan (\<lambda>n. False) (\<lambda>n. entry_at n x_dir) [] oldest (map de_name x_dir) [] empty_report
      = ([(xh @ ''.jsonl'', 1)], empty_report\<lparr>gc_scanned := 1\<rparr>)"
    by (simp add: x_dir_def) (simp add: gc_entry_def path gc_examine_def entry [unfolded x_dir_def] old_file_def oldest_def hours_def seconds_def
        microseconds_per_second_def count_scanned_def empty_report_def)
  have times: "gc_now x_gc_call - gc_grace x_gc_call = oldest"
    by (simp add: oldest_def x_gc_call_def hours_def seconds_def microseconds_per_second_def)
  have batch: "gc_batch (\<lambda>n. None) now retention oldest [xh @ ''.jsonl''] x0 x_dir r
      = ([], r\<lparr>gc_deleted := gc_deleted r + 1, gc_deleted_bytes := gc_deleted_bytes r + 1\<rparr>)" for now retention r
  proof -
    have "unlink (xh @ ''.jsonl'') x_dir = []" by (simp add: unlink_def delete_where_def x_dir_def)
    then show ?thesis
      using live_restricted [of now retention "batch_digests [xh @ ''.jsonl'']" x0]
      by (simp add: gc_batch_def gc_unlink_def is_kept_def path x0_live entry)
        (simp add: old_file_def oldest_def hours_def seconds_def microseconds_per_second_def)
  qed
  show ?thesis
    by (simp add: collect_export_artifacts_def ok x0_live times scan MAX_UNLINKS_def UNLINK_BATCH_def batch x_report_def)
      (simp add: empty_report_def)
qed

theorem gc_run_is_safe_witness: "gc_deleted x_report \<le> 20000 \<and> entry_at (xh @ ''.jsonl'') [] \<noteq> entry_at (xh @ ''.jsonl'') x_dir"
  using gc_run_is_safe [OF x_gc_run] by (simp add: x_dir_def row_of_Cons)

lemma x_lift:
  assumes "world_system.reachable sha256 \<lparr>w_db = a, w_dir = d, w_gc = None\<rparr>" "export_step a b" "generations b = generations a"
  shows "world_system.reachable sha256 \<lparr>w_db = b, w_dir = d, w_gc = None\<rparr>"
  using world_system.reachable_step [OF assms(1) transaction [of "\<lparr>w_db = a, w_dir = d, w_gc = None\<rparr>" b]] assms(2,3) by simp

lemma x_generations [simp]:
  "generations x1 = []" "generations x2 = []" "generations x3 = []" "generations x4 = []" "generations x5 = []"
  "generations x6 = []" "generations x7 = []" "generations x8 = []" "generations x9 = []" "generations x10 = []"
  "generations x11 = []" "generations x12 = []"
  by (simp_all add: x1_def x2_def x3_def x4_def x5_def x6_def x7_def x8_def x9_def x10_def x11_def x12_def)

lemma x_world: "world_system.reachable (\<lambda>s. xh) \<lparr>w_db = x13, w_dir = x_dir, w_gc = None\<rparr>"
proof -
  have 0: "world_system.reachable (\<lambda>s. xh) \<lparr>w_db = x0, w_dir = [], w_gc = None\<rparr>"
    by (rule world_system.reachable_start) (simp add: world_start_def export_start_def x0_def)
  have "store_publish (\<lambda>s. xh) 0 x_chunk [] = Inr x_dir"
    by (simp add: store_publish_def store_path_def x_chunk_def MAX_CHUNK_BYTES_def x_dir_def upsert_Nil)
  then have "world_step (\<lambda>s. xh) \<lparr>w_db = x0, w_dir = [], w_gc = None\<rparr> \<lparr>w_db = x0, w_dir = x_dir, w_gc = None\<rparr>"
    using chunk_write [of "\<lparr>w_db = x0, w_dir = [], w_gc = None\<rparr>" "\<lambda>s. xh" 0 x_chunk x_dir] by (simp add: no_collision_def)
  note 1 = x_lift [OF world_system.reachable_step [OF 0 this] x_step1, simplified]
  note 2 = x_lift [OF 1 x_step2, simplified]
  note 3 = x_lift [OF 2 x_step3, simplified]
  note 4 = x_lift [OF 3 x_step4, simplified]
  note 5 = x_lift [OF 4 x_step5, simplified]
  note 6 = x_lift [OF 5 x_step6, simplified]
  note 7 = x_lift [OF 6 x_step7, simplified]
  note 8 = x_lift [OF 7 x_step8, simplified]
  note 9 = x_lift [OF 8 x_step9, simplified]
  note 10 = x_lift [OF 9 x_step10, simplified]
  note 11 = x_lift [OF 10 x_step11, simplified]
  note 12 = x_lift [OF 11 by_prepare [OF x_prepare], simplified]
  show ?thesis
    using world_system.reachable_step [OF 12 publication [of "\<lparr>w_db = x12, w_dir = x_dir, w_gc = None\<rparr>"]] x_commit by simp
qed

theorem published_files_survive_witness: "store_present x_dir xh 1 = Inr ()"
  using published_files_survive [OF x_world, of x_head] by (simp add: generation_ref_def)

end
