(* ===== verification/Export_Pages.thy ===== *)
theory Export_Pages
  imports Export_Model
begin

section \<open>Pages of a frozen export (export_snapshots.py, page)\<close>

text \<open>
  A frozen manifest lists, scope by scope, the artifact files it holds; a page walks the points of
  the files in a fixed order from the position of its cursor (scope index and point index) and
  stops at the item limit or the byte limit.  A scope is the record of the manifest's entry, the
  defaults of an old manifest filled in.  \<open>float_text\<close> is the JSON text of \<open>float(v)\<close> (\<open>None\<close>
  where Python raises); everything else of the encoder is written out, with the separators that
  \<open>json.dumps\<close> has by default.
\<close>

definition MAX_PAGE_BYTES :: nat where "MAX_PAGE_BYTES = 4 * 1024 * 1024"
definition PAGE_META_RESERVE :: nat where "PAGE_META_RESERVE = 8192"

definition page_room :: nat where "page_room = MAX_PAGE_BYTES - PAGE_META_RESERVE"

datatype page_error =
    Page_Artifact artifact_error | Scope_Mismatch | Item_Too_Large | Cursor_Range | Point_Key_Missing
  | Point_Type | Unsupported_Request

record page_scope =
  ps_provider :: text_bytes
  ps_style :: text_bytes
  ps_selected :: "text_bytes list"
  ps_approved :: "text_bytes list"
  ps_refs :: "(text_bytes \<times> int \<times> int) list"

subsection \<open>Items\<close>

fun spaced_sep :: "text_bytes list \<Rightarrow> text_bytes" where
  "spaced_sep [] = []"
| "spaced_sep [x] = x"
| "spaced_sep (x # y # ys) = x @ '', '' @ spaced_sep (y # ys)"

fun spaced_text :: "json \<Rightarrow> text_bytes" where
  "spaced_text JNull = ''null''"
| "spaced_text (JBool b) = (if b then ''true'' else ''false'')"
| "spaced_text (JInt i) = show_int i"
| "spaced_text (JStr s) = quote s"
| "spaced_text (JArr xs) = ''['' @ spaced_sep (map spaced_text xs) @ '']''"
| "spaced_text (JObj kvs) =
     ''{'' @ spaced_sep (map (\<lambda>(k, v). quote k @ '': '' @ spaced_text v) kvs) @ ''}''"

datatype item_value = Plain json | Float_Text text_bytes

type_synonym page_item = "(text_bytes \<times> item_value) list"

fun value_text :: "item_value \<Rightarrow> text_bytes" where
  "value_text (Plain j) = spaced_text j"
| "value_text (Float_Text t) = t"

definition item_text :: "page_item \<Rightarrow> text_bytes" where
  "item_text item = ''{'' @ spaced_sep (map (\<lambda>(k, v). quote k @ '': '' @ value_text v) item) @ ''}''"

definition item_size :: "page_item \<Rightarrow> nat" where
  "item_size item = length (item_text item) + 1"

definition field_at :: "(text_bytes \<times> json) list \<Rightarrow> text_bytes \<Rightarrow> page_error + json" where
  "field_at point k = (case map_of point k of None \<Rightarrow> Inl Point_Key_Missing | Some v \<Rightarrow> Inr v)"

fun plain_fields :: "(text_bytes \<times> json) list \<Rightarrow> text_bytes list \<Rightarrow> page_error + page_item" where
  "plain_fields point [] = Inr []"
| "plain_fields point (k # ks) =
     (case field_at point k of
        Inl e \<Rightarrow> Inl e
      | Inr v \<Rightarrow> (case plain_fields point ks of Inl e \<Rightarrow> Inl e | Inr item \<Rightarrow> Inr ((k, Plain v) # item)))"

definition item_value_of :: "(json \<Rightarrow> text_bytes option) \<Rightarrow> (text_bytes \<times> json) list \<Rightarrow> page_error + item_value" where
  "item_value_of float_text point =
     (case field_at point ''value_number'' of
        Inl e \<Rightarrow> Inl e
      | Inr v \<Rightarrow>
          if v \<noteq> JNull then (case float_text v of None \<Rightarrow> Inl Point_Type | Some t \<Rightarrow> Inr (Float_Text t))
          else (case field_at point ''value_text'' of Inl e \<Rightarrow> Inl e | Inr t \<Rightarrow> Inr (Plain t)))"

definition page_item_of :: "(json \<Rightarrow> text_bytes option) \<Rightarrow> (text_bytes \<times> json) list \<Rightarrow> page_error + page_item" where
  "page_item_of float_text point =
     (case plain_fields point [''location_id'', ''provider'', ''metric_key''] of
        Inl e \<Rightarrow> Inl e
      | Inr front \<Rightarrow>
          (case item_value_of float_text point of
             Inl e \<Rightarrow> Inl e
           | Inr v \<Rightarrow>
               (case plain_fields point [''unit'', ''target_at'', ''known_at'', ''forecast_style''] of
                  Inl e \<Rightarrow> Inl e
                | Inr back_part \<Rightarrow> Inr (front @ (''value'', v) # back_part))))"

subsection \<open>The points of a scope\<close>

type_synonym located_point = "text_bytes \<times> (text_bytes \<times> json) list"

text \<open>One point of a file: \<open>None\<close> when it is of a location the scope does not select.\<close>

definition scope_point :: "page_scope \<Rightarrow> json \<Rightarrow> page_error + located_point option" where
  "scope_point sc point =
     (case point of
        JObj kvs \<Rightarrow>
          (case (map_of kvs ''provider'', map_of kvs ''forecast_style'', map_of kvs ''location_id'') of
             (None, _, _) \<Rightarrow> Inl Point_Key_Missing
           | (Some provider, style, location) \<Rightarrow>
               if provider \<noteq> JStr (ps_provider sc) then Inl Scope_Mismatch
               else (case style of
                 None \<Rightarrow> Inl Point_Key_Missing
               | Some s \<Rightarrow>
                   if s \<noteq> JStr (ps_style sc) then Inl Scope_Mismatch
                   else (case location of
                     None \<Rightarrow> Inl Point_Key_Missing
                   | Some (JStr l) \<Rightarrow>
                       if l \<notin> set (ps_approved sc) then Inl Scope_Mismatch
                       else Inr (if l \<in> set (ps_selected sc) then Some (l, kvs) else None)
                   | Some _ \<Rightarrow> Inl Scope_Mismatch)))
      | _ \<Rightarrow> Inl Point_Type)"

fun scope_points_of :: "page_scope \<Rightarrow> json list \<Rightarrow> page_error + located_point list" where
  "scope_points_of sc [] = Inr []"
| "scope_points_of sc (p # ps) =
     (case scope_point sc p of
        Inl e \<Rightarrow> Inl e
      | Inr found \<Rightarrow>
          (case scope_points_of sc ps of
             Inl e \<Rightarrow> Inl e
           | Inr more_points \<Rightarrow> Inr ((case found of None \<Rightarrow> [] | Some x \<Rightarrow> [x]) @ more_points)))"

fun read_scope ::
  "(text_bytes \<Rightarrow> text_bytes) \<Rightarrow> (text_bytes \<Rightarrow> json option) \<Rightarrow> directory \<Rightarrow> page_scope \<Rightarrow>
   (text_bytes \<times> int \<times> int) list \<Rightarrow> page_error + located_point list" where
  "read_scope sha256 loads dir sc [] = Inr []"
| "read_scope sha256 loads dir sc ((digest, bytes, points) # rs) =
     (case store_read sha256 loads dir None digest bytes points of
        Inl e \<Rightarrow> Inl (Page_Artifact e)
      | Inr file \<Rightarrow>
          (case scope_points_of sc file of
             Inl e \<Rightarrow> Inl e
           | Inr xs \<Rightarrow> (case read_scope sha256 loads dir sc rs of Inl e \<Rightarrow> Inl e | Inr ys \<Rightarrow> Inr (xs @ ys))))"

text \<open>
  The sort key of the code is location, provider, metric; every point of a scope has the scope's
  provider.
\<close>

fun sort_keys :: "located_point list \<Rightarrow> page_error + ((text_bytes \<times> text_bytes) \<times> (text_bytes \<times> json) list) list" where
  "sort_keys [] = Inr []"
| "sort_keys ((l, kvs) # xs) =
     (case map_of kvs ''metric_key'' of
        None \<Rightarrow> Inl Point_Key_Missing
      | Some (JStr m) \<Rightarrow> (case sort_keys xs of Inl e \<Rightarrow> Inl e | Inr ys \<Rightarrow> Inr (((l, m), kvs) # ys))
      | Some _ \<Rightarrow> Inl Point_Type)"

definition scope_points ::
  "(text_bytes \<Rightarrow> text_bytes) \<Rightarrow> (text_bytes \<Rightarrow> json option) \<Rightarrow> directory \<Rightarrow> page_scope \<Rightarrow>
   page_error + (text_bytes \<times> json) list list" where
  "scope_points sha256 loads dir sc =
     (case read_scope sha256 loads dir sc (ps_refs sc) of
        Inl e \<Rightarrow> Inl e
      | Inr xs \<Rightarrow> (case sort_keys xs of Inl e \<Rightarrow> Inl e | Inr ys \<Rightarrow> Inr (map snd (sort_key fst ys))))"

subsection \<open>Filling a page\<close>

fun fill_page ::
  "(json \<Rightarrow> text_bytes option) \<Rightarrow> nat \<Rightarrow> nat \<Rightarrow> nat \<Rightarrow> (text_bytes \<times> json) list list \<Rightarrow>
   page_error + (page_item list \<times> nat \<times> bool)" where
  "fill_page float_text limit taken used [] = Inr ([], used, False)"
| "fill_page float_text limit taken used (x # xs) =
     (case page_item_of float_text x of
        Inl e \<Rightarrow> Inl e
      | Inr item \<Rightarrow>
          if item_size item > page_room then Inl Item_Too_Large
          else if taken \<ge> limit \<or> used + item_size item > page_room then Inr ([], used, True)
          else (case fill_page float_text limit (taken + 1) (used + item_size item) xs of
                  Inl e \<Rightarrow> Inl e
                | Inr (items, used', stopped) \<Rightarrow> Inr (item # items, used', stopped)))"

record page_env =
  pe_sha256 :: "text_bytes \<Rightarrow> text_bytes"
  pe_loads :: "text_bytes \<Rightarrow> json option"
  pe_float :: "json \<Rightarrow> text_bytes option"

fun page_scopes ::
  "page_env \<Rightarrow> directory \<Rightarrow> nat \<Rightarrow> nat \<Rightarrow> nat \<Rightarrow> nat \<Rightarrow> page_scope list \<Rightarrow>
   page_error + (page_item list \<times> nat \<times> nat \<times> bool)" where
  "page_scopes env dir limit taken used p [] = Inr ([], 0, p, False)"
| "page_scopes env dir limit taken used p (sc # scs) =
     (case scope_points (pe_sha256 env) (pe_loads env) dir sc of
        Inl e \<Rightarrow> Inl e
      | Inr pts \<Rightarrow>
          if p > length pts then Inl Cursor_Range
          else (case fill_page (pe_float env) limit taken used (drop p pts) of
            Inl e \<Rightarrow> Inl e
          | Inr (items, used', True) \<Rightarrow> Inr (items, 0, p + length items, True)
          | Inr (items, used', False) \<Rightarrow>
              (case page_scopes env dir limit (taken + length items) used' 0 scs of
                 Inl e \<Rightarrow> Inl e
               | Inr (others, g, p', stopped) \<Rightarrow> Inr (items @ others, g + 1, p', stopped))))"

text \<open>The data part of a page: items, the position after them, and whether there are more.\<close>

definition current_page ::
  "page_env \<Rightarrow> directory \<Rightarrow> page_scope list \<Rightarrow> nat \<Rightarrow> nat \<times> nat \<Rightarrow>
   page_error + (page_item list \<times> (nat \<times> nat) \<times> bool)" where
  "current_page env dir scopes limit position =
     (case position of (g, p) \<Rightarrow>
        if \<not> (1 \<le> limit \<and> limit \<le> 5000) then Inl Unsupported_Request
        else if g > length scopes then Inl Cursor_Range
        else case page_scopes env dir limit 0 0 p (drop g scopes) of
          Inl e \<Rightarrow> Inl e
        | Inr (items, g', p', stopped) \<Rightarrow> Inr (items, (g + g', p'), stopped))"

text \<open>Location pages: the slice of the manifest's locations, cut at the byte limit.\<close>

fun fill_locations :: "nat \<Rightarrow> json list \<Rightarrow> page_error + json list" where
  "fill_locations used [] = Inr []"
| "fill_locations used (item # items) =
     (let n = length (spaced_text item) + 1 in
      if n > page_room then Inl Item_Too_Large
      else if used + n > page_room then Inr []
      else (case fill_locations (used + n) items of Inl e \<Rightarrow> Inl e | Inr out \<Rightarrow> Inr (item # out)))"

definition locations_page ::
  "json list \<Rightarrow> nat \<Rightarrow> nat \<times> nat \<Rightarrow> page_error + (json list \<times> (nat \<times> nat) \<times> bool)" where
  "locations_page locs limit position =
     (case position of (g, start) \<Rightarrow>
        if \<not> (1 \<le> limit \<and> limit \<le> 5000) then Inl Unsupported_Request
        else if g \<noteq> 0 \<or> start > length locs then Inl Cursor_Range
        else case fill_locations 0 (take limit (drop start locs)) of
          Inl e \<Rightarrow> Inl e
        | Inr out \<Rightarrow> Inr (out, (g, start + length out), start + length out < length locs))"

text \<open>A client that follows the cursors.\<close>

fun follow :: "('s \<Rightarrow> 'e + ('i list \<times> 's \<times> bool)) \<Rightarrow> nat \<Rightarrow> 's \<Rightarrow> ('e + 'i list) option" where
  "follow next_page 0 s = None"
| "follow next_page (Suc n) s =
     (case next_page s of
        Inl e \<Rightarrow> Some (Inl e)
      | Inr (items, s', True) \<Rightarrow>
          (case follow next_page n s' of
             None \<Rightarrow> None | Some (Inl e) \<Rightarrow> Some (Inl e) | Some (Inr others) \<Rightarrow> Some (Inr (items @ others)))
      | Inr (items, s', False) \<Rightarrow> Some (Inr items))"

subsection \<open>Following the cursors\<close>

text \<open>
  A position has what is still to come; a page takes a prefix of it, and some of it when it says
  that there is more.  Following pages of that kind returns everything, whatever the page size.
\<close>

locale paged =
  fixes next_page :: "'s \<Rightarrow> 'e + ('i list \<times> 's \<times> bool)"
    and to_come :: "'s \<Rightarrow> 'i list"
    and valid :: "'s \<Rightarrow> bool"
  assumes page_ok: "valid s \<Longrightarrow> \<exists>items s' stopped. next_page s = Inr (items, s', stopped)
      \<and> (stopped \<longrightarrow> valid s' \<and> items \<noteq> [] \<and> to_come s = items @ to_come s')
      \<and> (\<not> stopped \<longrightarrow> to_come s = items)"
begin

lemma follow_complete: "valid s \<Longrightarrow> length (to_come s) < n \<Longrightarrow> follow next_page n s = Some (Inr (to_come s))"
proof (induction n arbitrary: s)
  case (Suc n)
  obtain items s' stopped where page: "next_page s = Inr (items, s', stopped)"
    "stopped \<longrightarrow> valid s' \<and> items \<noteq> [] \<and> to_come s = items @ to_come s'" "\<not> stopped \<longrightarrow> to_come s = items"
    using page_ok [OF Suc.prems(1)] by blast
  show ?case
  proof (cases stopped)
    case True
    with page Suc.prems(2) have "length (to_come s') < n" by (cases items) auto
    with page True Suc.IH [of s'] show ?thesis by simp
  next
    case False
    with page show ?thesis by simp
  qed
qed simp

end

definition good_point :: "(json \<Rightarrow> text_bytes option) \<Rightarrow> (text_bytes \<times> json) list \<Rightarrow> bool" where
  "good_point float_text x \<longleftrightarrow> (\<exists>item. page_item_of float_text x = Inr item \<and> item_size item \<le> page_room)"

definition the_item :: "(json \<Rightarrow> text_bytes option) \<Rightarrow> (text_bytes \<times> json) list \<Rightarrow> page_item" where
  "the_item float_text x = (case page_item_of float_text x of Inr item \<Rightarrow> item | Inl _ \<Rightarrow> [])"

definition total_size :: "page_item list \<Rightarrow> nat" where
  "total_size items = sum_list (map item_size items)"

lemma total_size_simps [simp]: "total_size [] = 0" "total_size (x # xs) = item_size x + total_size xs"
  "total_size (xs @ ys) = total_size xs + total_size ys"
  by (simp_all add: total_size_def)

lemma fill_page_spec:
  assumes "\<forall>x \<in> set xs. good_point float_text x"
  shows "\<exists>k stopped. fill_page float_text limit taken used xs =
      Inr (map (the_item float_text) (take k xs), used + total_size (map (the_item float_text) (take k xs)), stopped)
    \<and> k \<le> length xs \<and> (stopped \<longleftrightarrow> k < length xs) \<and> (0 < k \<longrightarrow> taken + k \<le> limit
        \<and> used + total_size (map (the_item float_text) (take k xs)) \<le> page_room)
    \<and> (taken < limit \<and> used = 0 \<and> xs \<noteq> [] \<longrightarrow> 0 < k)"
  using assms
proof (induction xs arbitrary: taken used)
  case Nil
  show ?case by (intro exI [of _ 0] exI [of _ False]) simp
next
  case (Cons x xs)
  then obtain item where item: "page_item_of float_text x = Inr item" "item_size item \<le> page_room"
    by (auto simp: good_point_def)
  then have the: "the_item float_text x = item" by (simp add: the_item_def)
  show ?case
  proof (cases "taken \<ge> limit \<or> used + item_size item > page_room")
    case True
    then show ?thesis using item by (intro exI [of _ 0] exI [of _ True]) auto
  next
    case False
    obtain k stopped where rest: "fill_page float_text limit (taken + 1) (used + item_size item) xs =
        Inr (map (the_item float_text) (take k xs),
          used + item_size item + total_size (map (the_item float_text) (take k xs)), stopped)"
      "k \<le> length xs" "stopped \<longleftrightarrow> k < length xs"
      "0 < k \<longrightarrow> taken + 1 + k \<le> limit \<and> used + item_size item + total_size (map (the_item float_text) (take k xs)) \<le> page_room"
      using Cons.IH [of "taken + 1" "used + item_size item"] Cons.prems by auto
    show ?thesis
      using item False rest by (intro exI [of _ "Suc k"] exI [of _ stopped]) (cases "k = 0"; auto simp: the)
  qed
qed

text \<open>What a manifest holds: the items of all points of all its scopes, in order.\<close>

fun scopes_points :: "page_env \<Rightarrow> directory \<Rightarrow> page_scope list \<Rightarrow> page_error + (text_bytes \<times> json) list list list" where
  "scopes_points env dir [] = Inr []"
| "scopes_points env dir (sc # scs) =
     (case scope_points (pe_sha256 env) (pe_loads env) dir sc of
        Inl e \<Rightarrow> Inl e
      | Inr pts \<Rightarrow> (case scopes_points env dir scs of Inl e \<Rightarrow> Inl e | Inr rest \<Rightarrow> Inr (pts # rest)))"

lemma scopes_points_Cons:
  "scopes_points env dir (sc # scs) = Inr ptss \<longleftrightarrow>
    (\<exists>pts rest. ptss = pts # rest \<and> scope_points (pe_sha256 env) (pe_loads env) dir sc = Inr pts
      \<and> scopes_points env dir scs = Inr rest)"
  by (auto split: sum.splits)

lemma scopes_points_drop:
  "scopes_points env dir scs = Inr ptss \<Longrightarrow> length ptss = length scs \<and> scopes_points env dir (drop g scs) = Inr (drop g ptss)"
proof (induction scs arbitrary: ptss g)
  case (Cons sc scs)
  then show ?case by (cases g) (auto simp del: scopes_points.simps(2) simp: scopes_points_Cons)
qed simp

definition position_ok :: "'a list list \<Rightarrow> nat \<times> nat \<Rightarrow> bool" where
  "position_ok ptss = (\<lambda>(g, p). g \<le> length ptss \<and> (if g < length ptss then p \<le> length (ptss ! g) else True))"

definition points_from :: "'a list list \<Rightarrow> nat \<times> nat \<Rightarrow> 'a list" where
  "points_from ptss = (\<lambda>(g, p). if g < length ptss then drop p (ptss ! g) @ concat (drop (Suc g) ptss) else [])"

lemma points_from_Cons:
  "points_from (pts # ptss) (0, p) = drop p pts @ concat ptss"
  "points_from (pts # ptss) (Suc g, p) = points_from ptss (g, p)"
  "points_from [] (g, p) = []"
  by (simp_all add: points_from_def)

lemma points_from_start: "points_from ptss (0, 0) = concat ptss"
  by (cases ptss) (simp_all add: points_from_def)

lemma points_from_drop: "g \<le> length ptss \<Longrightarrow> points_from (drop g ptss) (k, p) = points_from ptss (g + k, p)"
  by (auto simp: points_from_def add.commute)

lemma position_ok_drop: "g \<le> length ptss \<Longrightarrow> position_ok (drop g ptss) (k, p) \<longleftrightarrow> position_ok ptss (g + k, p)"
  by (auto simp: position_ok_def)

lemma page_scopes_spec:
  assumes "scopes_points env dir scs = Inr ptss" "\<forall>x \<in> set (concat ptss). good_point (pe_float env) x"
    and "position_ok ptss (0, p)"
  shows "\<exists>pts g p' stopped. page_scopes env dir limit taken used p scs = Inr (map (the_item (pe_float env)) pts, g, p', stopped)
    \<and> (stopped \<longrightarrow> points_from ptss (0, p) = pts @ points_from ptss (g, p') \<and> g < length ptss \<and> position_ok ptss (g, p')
        \<and> (taken < limit \<and> used = 0 \<longrightarrow> pts \<noteq> []))
    \<and> (\<not> stopped \<longrightarrow> points_from ptss (0, p) = pts)
    \<and> (pts \<noteq> [] \<longrightarrow> taken + length pts \<le> limit \<and> used + total_size (map (the_item (pe_float env)) pts) \<le> page_room)"
  using assms
proof (induction scs arbitrary: ptss p taken used)
  case Nil
  then show ?case by (auto simp: points_from_Cons)
next
  case (Cons sc scs)
  let ?item = "the_item (pe_float env)"
  obtain pts rest where ptss: "ptss = pts # rest" and pts: "scope_points (pe_sha256 env) (pe_loads env) dir sc = Inr pts"
    and rest: "scopes_points env dir scs = Inr rest"
    using Cons.prems(1) unfolding scopes_points_Cons by blast
  have p: "p \<le> length pts" using Cons.prems(3) by (simp add: position_ok_def ptss)
  have good: "\<forall>x \<in> set (drop p pts). good_point (pe_float env) x" "\<forall>x \<in> set (concat rest). good_point (pe_float env) x"
    using Cons.prems(2) by (auto simp: ptss dest: in_set_dropD)
  obtain k stopped where fill: "fill_page (pe_float env) limit taken used (drop p pts) =
      Inr (map ?item (take k (drop p pts)), used + total_size (map ?item (take k (drop p pts))), stopped)"
    "k \<le> length (drop p pts)" "stopped \<longleftrightarrow> k < length (drop p pts)"
    "0 < k \<longrightarrow> taken + k \<le> limit \<and> used + total_size (map ?item (take k (drop p pts))) \<le> page_room"
    "taken < limit \<and> used = 0 \<and> drop p pts \<noteq> [] \<longrightarrow> 0 < k"
    using fill_page_spec [OF good(1), of limit taken used] by blast
  let ?now = "take k (drop p pts)"
  have len: "length ?now = k" using fill(2) by simp
  show ?case
  proof (cases stopped)
    case True
    have "drop p pts = ?now @ drop (p + k) pts" by (metis append_take_drop_id drop_drop add.commute)
    moreover have "p + k < length pts" "drop p pts \<noteq> []" using True fill(2,3) by auto
    ultimately show ?thesis
      using True p fill len pts
      by (intro exI [of _ ?now] exI [of _ 0] exI [of _ "p + k"] exI [of _ True])
        (auto simp: ptss points_from_Cons position_ok_def)
  next
    case False
    then have all: "?now = drop p pts" using fill(3) by simp
    have begin_ok: "position_ok rest (0, 0)" by (simp add: position_ok_def)
    obtain pts' g p' stopped' where next_scopes:
      "page_scopes env dir limit (taken + k) (used + total_size (map ?item ?now)) 0 scs
        = Inr (map ?item pts', g, p', stopped')"
      "stopped' \<longrightarrow> points_from rest (0, 0) = pts' @ points_from rest (g, p') \<and> g < length rest \<and> position_ok rest (g, p')
        \<and> (taken + k < limit \<and> used + total_size (map ?item ?now) = 0 \<longrightarrow> pts' \<noteq> [])"
      "\<not> stopped' \<longrightarrow> points_from rest (0, 0) = pts'"
      "pts' \<noteq> [] \<longrightarrow> taken + k + length pts' \<le> limit
        \<and> used + total_size (map ?item ?now) + total_size (map ?item pts') \<le> page_room"
      using Cons.IH [OF rest good(2) begin_ok, of "taken + k" "used + total_size (map ?item ?now)"] by blast
    have eq: "page_scopes env dir limit taken used p (sc # scs) = Inr (map ?item (drop p pts @ pts'), g + 1, p', stopped')"
      using pts p fill(1) False next_scopes(1) len by (simp add: all)
    have whole: "points_from ptss (0, p) = drop p pts @ points_from rest (0, 0)"
      by (simp add: ptss points_from_Cons points_from_start)
    have k: "length (drop p pts) = k" using len all by simp
    have "points_from ptss (0, p) = (drop p pts @ pts') @ points_from ptss (g + 1, p') \<and> g + 1 < length ptss
        \<and> position_ok ptss (g + 1, p') \<and> (taken < limit \<and> used = 0 \<longrightarrow> drop p pts @ pts' \<noteq> [])" if stopped'
    proof -
      note facts = next_scopes(2) [rule_format, OF that]
      have "taken < limit \<and> used = 0 \<longrightarrow> drop p pts @ pts' \<noteq> []"
        using facts k all by (cases "drop p pts") auto
      then show ?thesis using facts whole by (simp add: ptss points_from_Cons position_ok_def)
    qed
    moreover have "points_from ptss (0, p) = drop p pts @ pts'" if "\<not> stopped'"
      using next_scopes(3) that whole by simp
    moreover have "taken + length (drop p pts @ pts') \<le> limit
        \<and> used + total_size (map ?item (drop p pts @ pts')) \<le> page_room" if "drop p pts @ pts' \<noteq> []"
    proof (cases "pts' = []")
      case True
      with that k have "0 < k" by (cases "drop p pts") auto
      with fill(4) True k all show ?thesis by simp
    next
      case False
      with next_scopes(4) k all show ?thesis by (simp add: add.assoc)
    qed
    ultimately show ?thesis unfolding eq by blast
  qed
qed

definition current_valid :: "page_env \<Rightarrow> directory \<Rightarrow> page_scope list \<Rightarrow> nat \<Rightarrow> nat \<times> nat \<Rightarrow> bool" where
  "current_valid env dir scopes limit s \<longleftrightarrow> 1 \<le> limit \<and> limit \<le> 5000 \<and>
     (case scopes_points env dir scopes of
        Inl _ \<Rightarrow> False
      | Inr ptss \<Rightarrow> list_all (good_point (pe_float env)) (concat ptss) \<and> position_ok ptss s)"

definition current_to_come :: "page_env \<Rightarrow> directory \<Rightarrow> page_scope list \<Rightarrow> nat \<times> nat \<Rightarrow> page_item list" where
  "current_to_come env dir scopes s =
     (case scopes_points env dir scopes of
        Inl _ \<Rightarrow> [] | Inr ptss \<Rightarrow> map (the_item (pe_float env)) (points_from ptss s))"

lemma current_page_spec:
  assumes "current_valid env dir scopes limit s"
  shows "\<exists>items s' stopped. current_page env dir scopes limit s = Inr (items, s', stopped)
    \<and> (stopped \<longrightarrow> current_valid env dir scopes limit s' \<and> items \<noteq> []
        \<and> current_to_come env dir scopes s = items @ current_to_come env dir scopes s')
    \<and> (\<not> stopped \<longrightarrow> current_to_come env dir scopes s = items)
    \<and> length items \<le> limit \<and> total_size items \<le> page_room"
proof -
  obtain g p where s: "s = (g, p)" by fastforce
  obtain ptss where lim: "1 \<le> limit" "limit \<le> 5000" and ptss: "scopes_points env dir scopes = Inr ptss"
    and good: "\<forall>x \<in> set (concat ptss). good_point (pe_float env) x" and pos: "position_ok ptss (g, p)"
    using assms by (auto simp: current_valid_def s list_all_iff split: sum.splits)
  note drops = scopes_points_drop [OF ptss, of g]
  have g: "g \<le> length ptss" using pos by (simp add: position_ok_def)
  have good': "\<forall>x \<in> set (concat (drop g ptss)). good_point (pe_float env) x"
    using good by (auto dest: in_set_dropD)
  have pos': "position_ok (drop g ptss) (0, p)" using pos g by (simp add: position_ok_drop)
  obtain pts k p' stopped where page:
    "page_scopes env dir limit 0 0 p (drop g scopes) = Inr (map (the_item (pe_float env)) pts, k, p', stopped)"
    "stopped \<longrightarrow> points_from (drop g ptss) (0, p) = pts @ points_from (drop g ptss) (k, p') \<and> k < length (drop g ptss)
        \<and> position_ok (drop g ptss) (k, p') \<and> pts \<noteq> []"
    "\<not> stopped \<longrightarrow> points_from (drop g ptss) (0, p) = pts"
    "pts \<noteq> [] \<longrightarrow> length pts \<le> limit \<and> total_size (map (the_item (pe_float env)) pts) \<le> page_room"
    using page_scopes_spec [OF drops [THEN conjunct2] good' pos', of limit 0 0] lim by auto
  have cur: "current_page env dir scopes limit s = Inr (map (the_item (pe_float env)) pts, (g + k, p'), stopped)"
    using lim g drops page(1) by (simp add: current_page_def s)
  have all: "list_all (good_point (pe_float env)) (concat ptss)" using good by (simp add: list_all_iff)
  have here: "points_from (drop g ptss) (0, p) = points_from ptss (g, p)" using points_from_drop [OF g, of 0 p] by simp
  have "points_from ptss (g, p) = pts @ points_from ptss (g + k, p') \<and> position_ok ptss (g + k, p') \<and> pts \<noteq> []" if stopped
    using page(2) that unfolding points_from_drop [OF g] position_ok_drop [OF g] add_0_right by blast
  then have "stopped \<longrightarrow> current_valid env dir scopes limit (g + k, p') \<and> map (the_item (pe_float env)) pts \<noteq> []
      \<and> current_to_come env dir scopes s = map (the_item (pe_float env)) pts @ current_to_come env dir scopes (g + k, p')"
    using lim by (simp add: current_valid_def current_to_come_def ptss s all)
  moreover have "\<not> stopped \<longrightarrow> current_to_come env dir scopes s = map (the_item (pe_float env)) pts"
    using page(3) by (simp add: current_to_come_def ptss s here)
  moreover have "length (map (the_item (pe_float env)) pts) \<le> limit \<and> total_size (map (the_item (pe_float env)) pts) \<le> page_room"
    using page(4) by (cases "pts = []") simp_all
  ultimately show ?thesis unfolding cur by blast
qed

interpretation current_pages: paged "current_page env dir scopes limit" "current_to_come env dir scopes"
    "current_valid env dir scopes limit" for env dir scopes limit
  by unfold_locales (use current_page_spec in blast)

definition location_fits :: "json \<Rightarrow> bool" where
  "location_fits item \<longleftrightarrow> length (spaced_text item) + 1 \<le> page_room"

lemma fill_locations_spec:
  "list_all location_fits items \<Longrightarrow> \<exists>k. fill_locations used items = Inr (take k items) \<and> k \<le> length items
    \<and> (used = 0 \<and> items \<noteq> [] \<longrightarrow> 0 < k)"
proof (induction items arbitrary: used)
  case Nil
  then show ?case by simp
next
  case (Cons item items)
  let ?n = "length (spaced_text item) + 1"
  obtain k where k: "fill_locations (used + ?n) items = Inr (take k items)" "k \<le> length items"
    using Cons.IH [of "used + ?n"] Cons.prems by (simp only: list.pred_inject(2)) blast
  show ?case
  proof (cases "used + ?n > page_room")
    case True
    with Cons.prems show ?thesis by (intro exI [of _ 0]) (simp add: location_fits_def)
  next
    case False
    with Cons.prems k show ?thesis by (intro exI [of _ "Suc k"]) (simp add: location_fits_def)
  qed
qed

definition locations_valid :: "json list \<Rightarrow> nat \<Rightarrow> nat \<times> nat \<Rightarrow> bool" where
  "locations_valid locs limit = (\<lambda>(g, p). 1 \<le> limit \<and> limit \<le> 5000 \<and> g = 0 \<and> p \<le> length locs \<and> list_all location_fits locs)"

definition locations_to_come :: "json list \<Rightarrow> nat \<times> nat \<Rightarrow> json list" where
  "locations_to_come locs = (\<lambda>(g, p). drop p locs)"

lemma locations_page_spec:
  assumes "locations_valid locs limit s"
  shows "\<exists>items s' stopped. locations_page locs limit s = Inr (items, s', stopped)
    \<and> (stopped \<longrightarrow> locations_valid locs limit s' \<and> items \<noteq> [] \<and> locations_to_come locs s = items @ locations_to_come locs s')
    \<and> (\<not> stopped \<longrightarrow> locations_to_come locs s = items)"
proof -
  obtain p where s: "s = (0, p)" and ok: "1 \<le> limit" "limit \<le> 5000" "p \<le> length locs" "list_all location_fits locs"
    using assms by (auto simp: locations_valid_def)
  have "list_all location_fits (take limit (drop p locs))"
    using ok(4) by (auto simp: list_all_iff dest!: in_set_takeD in_set_dropD)
  from fill_locations_spec [OF this, of 0] obtain k where
    k: "fill_locations 0 (take limit (drop p locs)) = Inr (take k (take limit (drop p locs)))"
      "k \<le> length (take limit (drop p locs))" "take limit (drop p locs) \<noteq> [] \<longrightarrow> 0 < k" by blast
  let ?out = "take k (take limit (drop p locs))"
  have len: "length ?out = k" "p + k \<le> length locs" using k(2) ok(3) by auto
  have out: "?out = take k (drop p locs)" using k(2) by (simp add: min_absorb1)
  have page: "locations_page locs limit s = Inr (?out, (0, p + k), p + k < length locs)"
    using ok k len by (simp add: locations_page_def s)
  have "drop p locs = ?out @ drop (p + k) locs"
    unfolding out by (metis append_take_drop_id drop_drop add.commute)
  moreover have "p + k < length locs \<longrightarrow> ?out \<noteq> []" using k(3) ok(1) len by auto
  moreover have "\<not> p + k < length locs \<longrightarrow> drop (p + k) locs = []" by simp
  ultimately show ?thesis
    unfolding page using ok len
    by (intro exI [of _ ?out] exI [of _ "(0, p + k)"] exI [of _ "p + k < length locs"])
      (auto simp: s locations_valid_def locations_to_come_def)
qed

interpretation location_pages: paged "locations_page locs limit" "locations_to_come locs" "locations_valid locs limit"
    for locs limit
  by unfold_locales (use locations_page_spec in blast)

text \<open>
  C14: a client that follows the cursors of a frozen export receives every point of every scope
  exactly once and in order, whatever the page limit: if the files read back and each item fits a
  page, then after at most one request per point (and one more) the items received are those of the
  whole manifest, the reading has ended, and no page is over the item or the byte limit.
\<close>

theorem current_pages_are_complete:
  assumes "scopes_points env dir scopes = Inr ptss" "\<forall>x \<in> set (concat ptss). good_point (pe_float env) x"
    and "1 \<le> limit" "limit \<le> 5000" "length (concat ptss) < n"
  shows "follow (current_page env dir scopes limit) n (0, 0) = Some (Inr (map (the_item (pe_float env)) (concat ptss)))
    \<and> (\<forall>s items s' stopped. position_ok ptss s \<longrightarrow> current_page env dir scopes limit s = Inr (items, s', stopped) \<longrightarrow>
        length items \<le> limit \<and> total_size items \<le> 4186112)"
proof -
  have valid: "current_valid env dir scopes limit s \<longleftrightarrow> position_ok ptss s" for s
    using assms by (simp add: current_valid_def list_all_iff)
  have "position_ok ptss (0, 0)" by (simp add: position_ok_def)
  moreover have all: "current_to_come env dir scopes (0, 0) = map (the_item (pe_float env)) (concat ptss)"
    by (simp add: current_to_come_def assms(1) points_from_start)
  ultimately have "follow (current_page env dir scopes limit) n (0, 0) = Some (Inr (current_to_come env dir scopes (0, 0)))"
    using assms(5) by (intro current_pages.follow_complete) (simp_all add: valid)
  moreover have "length items \<le> limit \<and> total_size items \<le> 4186112"
    if "position_ok ptss s" "current_page env dir scopes limit s = Inr (items, s', stopped)" for s items s' stopped
    using current_page_spec [of env dir scopes limit s] that
    by (auto simp: valid page_room_def MAX_PAGE_BYTES_def PAGE_META_RESERVE_def)
  ultimately show ?thesis by (simp add: all)
qed

text \<open>
  The same for the location pages: following the cursors returns the locations of the manifest,
  each once and in order.
\<close>

theorem location_pages_are_complete:
  assumes "list_all location_fits locs" "1 \<le> limit" "limit \<le> 5000" "length locs < n"
  shows "follow (locations_page locs limit) n (0, 0) = Some (Inr locs)"
  using location_pages.follow_complete [of locs limit "(0, 0)" n] assms
  by (simp add: locations_valid_def locations_to_come_def)

subsection \<open>The properties at a concrete manifest\<close>

definition w_hash :: text_bytes where "w_hash = replicate 64 (CHR ''a'')"

lemma w_hash_ok: "hex64 w_hash"
  by (simp add: w_hash_def hex64_def list_all_iff is_hex_digit_def is_digit_def char_in_def)

definition w_point :: "text_bytes \<Rightarrow> (text_bytes \<times> json) list" where
  "w_point l = [(''provider'', JStr ''p''), (''forecast_style'', JStr ''f''), (''location_id'', JStr l), (''metric_key'', JStr ''m''),
     (''value_number'', JStr ''1.5''), (''unit'', JNull), (''target_at'', JNull), (''known_at'', JNull)]"

definition w_env :: page_env where
  "w_env = \<lparr>pe_sha256 = (\<lambda>s. w_hash), pe_loads = (\<lambda>line. Some (JObj (w_point line))), pe_float = (\<lambda>v. Some ''1.5'')\<rparr>"

definition w_scope :: page_scope where
  "w_scope = \<lparr>ps_provider = ''p'', ps_style = ''f'', ps_selected = [''a'', ''b''], ps_approved = [''a'', ''b'', ''c''],
     ps_refs = [(w_hash, 6, 3)]\<rparr>"

definition w_dir :: directory where
  "w_dir = [\<lparr>de_name = w_hash @ ''.jsonl'', de_kind = Regular_File,
     de_content = [CHR ''b'', CHR 0x0A, CHR ''c'', CHR 0x0A, CHR ''a'', CHR 0x0A], de_mtime = 0\<rparr>]"

lemma w_read: "store_read (\<lambda>s. w_hash) (\<lambda>line. Some (JObj (w_point line))) w_dir None w_hash 6 3
    = Inr [JObj (w_point ''b''), JObj (w_point ''c''), JObj (w_point ''a'')]"
proof -
  have "store_path w_hash = Inr (w_hash @ ''.jsonl'')" by (simp add: store_path_def w_hash_ok)
  then have "store_lines (\<lambda>s. w_hash) w_dir None w_hash 6 3 = (Inr [''b'', ''c'', ''a''], None)"
    by (simp add: store_lines_def MAX_CHUNK_BYTES_def MAX_CHUNK_POINTS_def w_dir_def row_of_Cons split_lines_def Let_def)
  then show ?thesis by (simp add: store_read_def)
qed

lemma w_points: "scopes_points w_env w_dir [w_scope] = Inr [[w_point ''a'', w_point ''b'']]"
proof -
  have "read_scope (\<lambda>s. w_hash) (\<lambda>line. Some (JObj (w_point line))) w_dir w_scope [(w_hash, 6, 3)]
      = Inr [(''b'', w_point ''b''), (''a'', w_point ''a'')]"
    by (simp add: w_read) (simp add: scope_point_def w_scope_def w_point_def)
  then have "scope_points (\<lambda>s. w_hash) (\<lambda>line. Some (JObj (w_point line))) w_dir w_scope = Inr [w_point ''a'', w_point ''b'']"
    by (simp add: scope_points_def w_scope_def) (simp add: w_point_def)
  then show ?thesis by (simp add: w_env_def)
qed

lemma w_good: "good_point (pe_float w_env) (w_point [c])"
proof -
  have e: "escape d = [d] \<or> length (escape d) \<le> 6" for d by (simp add: escape_def Let_def)
  then have "length (escape c) \<le> 6" by (metis One_nat_def length_Cons list.size(3) one_le_numeral)
  then show ?thesis
    by (simp add: good_point_def page_item_of_def field_at_def item_value_of_def w_point_def w_env_def item_size_def item_text_def
        quote_def page_room_def MAX_PAGE_BYTES_def PAGE_META_RESERVE_def escape_def)
qed

theorem current_pages_are_complete_witness:
  "follow (current_page w_env w_dir [w_scope] 1) 3 (0, 0)
    = Some (Inr [the_item (pe_float w_env) (w_point ''a''), the_item (pe_float w_env) (w_point ''b'')])"
  using current_pages_are_complete [OF w_points, of 1 3] w_good by simp

theorem location_pages_are_complete_witness:
  "follow (locations_page [JStr ''a'', JStr ''b'', JStr ''c''] 2) 4 (0, 0) = Some (Inr [JStr ''a'', JStr ''b'', JStr ''c''])"
proof -
  have "list_all location_fits [JStr ''a'', JStr ''b'', JStr ''c'']"
    by (simp add: location_fits_def quote_def escape_def page_room_def MAX_PAGE_BYTES_def PAGE_META_RESERVE_def)
  then show ?thesis by (rule location_pages_are_complete) simp_all
qed

end
