(* ===== verification/Export_Cursor.thy ===== *)
theory Export_Cursor
  imports Export_Model
begin

section \<open>Signed page cursors (export_snapshots.py, _encode and _decode)\<close>

text \<open>
  A cursor is the canonical JSON of a position followed by its HMAC, in the URL-safe base64 alphabet
  without padding.  Base64 works on the bits of the bytes; \<open>mac\<close> is the HMAC under the reader's
  key, \<open>loads\<close> is \<open>json.loads\<close> (\<open>None\<close> where it raises).
\<close>

subsection \<open>Base64\<close>

definition alphabet :: text_bytes where
  "alphabet = ''ABCDEFGHIJKLMNOPQRSTUVWXYZabcdefghijklmnopqrstuvwxyz0123456789-_''"

text \<open>The decoder also knows the two characters that the URL-safe alphabet replaces.\<close>

definition sextet_of :: "char \<Rightarrow> nat option" where
  "sextet_of c =
     (if c = CHR ''+'' then Some 62 else if c = CHR ''/'' then Some 63
      else map_of (zip alphabet [0..<64]) c)"

definition number_of_bits :: "bool list \<Rightarrow> nat" where
  "number_of_bits bs = foldl (\<lambda>n b. 2 * n + of_bool b) 0 bs"

definition sextet_bits :: "nat \<Rightarrow> bool list" where
  "sextet_bits n = map (\<lambda>i. n div 2 ^ i mod 2 = 1) [5, 4, 3, 2, 1, 0]"

definition byte_bits :: "char \<Rightarrow> bool list" where
  "byte_bits c = [digit7 c, digit6 c, digit5 c, digit4 c, digit3 c, digit2 c, digit1 c, digit0 c]"

fun bytes_of_bits :: "bool list \<Rightarrow> text_bytes" where
  "bytes_of_bits (b7 # b6 # b5 # b4 # b3 # b2 # b1 # b0 # bs) = Char b0 b1 b2 b3 b4 b5 b6 b7 # bytes_of_bits bs"
| "bytes_of_bits _ = []"

function sextet_chars :: "bool list \<Rightarrow> text_bytes" where
  "sextet_chars bs =
     (if bs = [] then []
      else alphabet ! number_of_bits (take 6 (bs @ replicate 5 False)) # sextet_chars (drop 6 bs))"
  by pat_completeness auto
termination by (relation "measure length") auto

declare sextet_chars.simps [simp del]

definition b64_encode :: "text_bytes \<Rightarrow> text_bytes" where
  "b64_encode raw = sextet_chars (concat (map byte_bits raw))"

definition b64_decode :: "text_bytes \<Rightarrow> text_bytes option" where
  "b64_decode s =
     (let body = takeWhile (\<lambda>c. c \<noteq> CHR ''='') s; pads = drop (length body) s in
      if list_all (\<lambda>c. c = CHR ''='') pads \<and> length pads \<le> 2 \<and> length s mod 4 = 0
         \<and> list_all (\<lambda>c. sextet_of c \<noteq> None) body
      then Some (bytes_of_bits (concat (map (\<lambda>c. sextet_bits (the (sextet_of c))) body)))
      else None)"

subsection \<open>The cursor\<close>

record cursor_state =
  cu_snapshot :: text_bytes
  cu_resource :: text_bytes
  cu_limit :: int
  cu_scope :: int
  cu_point :: int

definition cursor_json :: "cursor_state \<Rightarrow> json" where
  "cursor_json st = JObj [(''v'', JInt 1), (''s'', JStr (cu_snapshot st)), (''r'', JStr (cu_resource st)),
     (''l'', JInt (cu_limit st)), (''g'', JInt (cu_scope st)), (''p'', JInt (cu_point st))]"

definition encode_cursor :: "(text_bytes \<Rightarrow> text_bytes) \<Rightarrow> cursor_state \<Rightarrow> text_bytes" where
  "encode_cursor mac st = (let raw = encode_ascii (cursor_json st) in b64_encode (raw @ mac raw))"

definition after_prefix :: "text_bytes \<Rightarrow> text_bytes \<Rightarrow> text_bytes option" where
  "after_prefix prefix s = (if take (length prefix) s = prefix then Some (drop (length prefix) s) else None)"

definition CURSOR_PREFIXES :: "text_bytes list" where
  "CURSOR_PREFIXES = [''current:'', ''forecasts:ultra_short:'', ''forecasts:short:'', ''forecasts:mid:'', ''forecasts:external:'',
     ''daily-summaries:'']"

definition resource_ok :: "text_bytes \<Rightarrow> bool" where
  "resource_ok r \<longleftrightarrow> r = ''locations'' \<or> r = ''current''
     \<or> list_ex (\<lambda>p. case after_prefix p r of None \<Rightarrow> False | Some d \<Rightarrow> hex64 d) CURSOR_PREFIXES"

definition cursor_state_ok :: "cursor_state \<Rightarrow> bool" where
  "cursor_state_ok st \<longleftrightarrow> str_len (cu_snapshot st) = 36 \<and> resource_ok (cu_resource st)
     \<and> 1 \<le> cu_limit st \<and> cu_limit st \<le> 5000 \<and> 0 \<le> cu_scope st \<and> 0 \<le> cu_point st"

definition read_state :: "json \<Rightarrow> cursor_state option" where
  "read_state v =
     (case v of
        JObj kvs \<Rightarrow>
          if \<not> same_set (map fst kvs) [''v'', ''s'', ''r'', ''l'', ''g'', ''p''] then None
          else (case (map_of kvs ''v'', map_of kvs ''s'', map_of kvs ''r'', map_of kvs ''l'', map_of kvs ''g'', map_of kvs ''p'') of
            (Some (JInt version), Some (JStr s), Some (JStr r), Some (JInt l), Some (JInt g), Some (JInt p)) \<Rightarrow>
              let st = \<lparr>cu_snapshot = s, cu_resource = r, cu_limit = l, cu_scope = g, cu_point = p\<rparr>
              in if version = 1 \<and> cursor_state_ok st then Some st else None
          | _ \<Rightarrow> None)
      | _ \<Rightarrow> None)"

text \<open>Everything that is wrong with a cursor is the one error \<open>ExportCursorInvalid\<close>: \<open>None\<close>.\<close>

definition decode_cursor ::
  "(text_bytes \<Rightarrow> text_bytes) \<Rightarrow> (text_bytes \<Rightarrow> json option) \<Rightarrow> text_bytes \<Rightarrow> cursor_state option" where
  "decode_cursor mac loads cursor =
     (if \<not> (1 \<le> str_len cursor \<and> str_len cursor \<le> 4096) then None
      else case b64_decode (cursor @ replicate (nat (- int (length cursor) mod 4)) (CHR ''='')) of
        None \<Rightarrow> None
      | Some raw \<Rightarrow>
          let payload = take (length raw - 32) raw; signature = drop (length raw - 32) raw
          in if signature \<noteq> mac payload then None
             else (case loads payload of None \<Rightarrow> None | Some v \<Rightarrow> read_state v))"

subsection \<open>Base64 reads back\<close>

lemma alphabet_checked: "list_all (\<lambda>n. sextet_of (alphabet ! n) = Some n \<and> alphabet ! n \<noteq> CHR ''='') [0..<64]"
  by code_simp

lemma sextet_of_alphabet:
  assumes "n < 64"
  shows "sextet_of (alphabet ! n) = Some n" "alphabet ! n \<noteq> CHR ''=''"
  using alphabet_checked assms by (auto simp: list_all_iff)

lemma six_bits: "length bs = 6 \<Longrightarrow> \<exists>a b c d e f. bs = [a, b, c, d, e, f]"
  by (auto simp: length_Suc_conv numeral_eq_Suc)

lemma sextet_bits_number:
  assumes "length bs = 6"
  shows "sextet_bits (number_of_bits bs) = bs \<and> number_of_bits bs < 64"
proof -
  obtain a b c d e f where "bs = [a, b, c, d, e, f]" using six_bits [OF assms] by blast
  then show ?thesis
    by (cases a; cases b; cases c; cases d; cases e; cases f) (simp_all add: sextet_bits_def number_of_bits_def)
qed

lemma sextet_chars_spec:
  "\<exists>pad. length pad < 6 \<and> (6 dvd length (bs @ pad)) \<and> length (sextet_chars bs) = length (bs @ pad) div 6
    \<and> list_all (\<lambda>c. sextet_of c \<noteq> None \<and> c \<noteq> CHR ''='') (sextet_chars bs)
    \<and> concat (map (\<lambda>c. sextet_bits (the (sextet_of c))) (sextet_chars bs)) = bs @ pad"
proof (induction bs rule: sextet_chars.induct)
  case (1 bs)
  show ?case
  proof (cases "bs = []")
    case True
    then show ?thesis by (intro exI [of _ "[]"]) (simp add: sextet_chars.simps)
  next
    case False
    let ?six = "take 6 (bs @ replicate 5 False)"
    have six: "length ?six = 6" using False by (cases bs) auto
    note here = sextet_bits_number [OF six] sextet_of_alphabet [of "number_of_bits ?six"]
    obtain pad where pad: "length pad < 6" "6 dvd length (drop 6 bs @ pad)"
      "length (sextet_chars (drop 6 bs)) = length (drop 6 bs @ pad) div 6"
      "list_all (\<lambda>c. sextet_of c \<noteq> None \<and> c \<noteq> CHR ''='') (sextet_chars (drop 6 bs))"
      "concat (map (\<lambda>c. sextet_bits (the (sextet_of c))) (sextet_chars (drop 6 bs))) = drop 6 bs @ pad"
      using 1 [OF False] by blast
    have chars: "sextet_chars bs = alphabet ! number_of_bits ?six # sextet_chars (drop 6 bs)"
      using False by (subst sextet_chars.simps) simp
    show ?thesis
    proof (cases "length bs \<ge> 6")
      case True
      then have whole: "?six @ drop 6 bs @ pad = bs @ pad" and len: "length (bs @ pad) = length (drop 6 bs @ pad) + 6"
        by simp_all
      show ?thesis
      proof (intro exI [of _ pad] conjI)
        show "6 dvd length (bs @ pad)" "length (sextet_chars bs) = length (bs @ pad) div 6"
          unfolding len chars using pad(2,3) by simp_all
        show "list_all (\<lambda>c. sextet_of c \<noteq> None \<and> c \<noteq> CHR ''='') (sextet_chars bs)"
          unfolding chars using pad(4) here by simp
        show "concat (map (\<lambda>c. sextet_bits (the (sextet_of c))) (sextet_chars bs)) = bs @ pad"
          unfolding chars whole [symmetric] using pad(5) here by simp
      qed (rule pad(1))
    next
      case False
      then have none: "drop 6 bs = []" by simp
      have six_eq: "?six = bs @ replicate (6 - length bs) False"
        using \<open>bs \<noteq> []\<close> False by (cases bs) (simp_all add: min_def)
      have "6 - length bs < 6 \<and> length bs + (6 - length bs) = 6"
        using \<open>bs \<noteq> []\<close> False by (cases bs) simp_all
      then have "length (replicate (6 - length bs) False) < 6" "length (bs @ replicate (6 - length bs) False) = 6"
        by simp_all
      then show ?thesis
        using here six_eq none
        by (intro exI [of _ "replicate (6 - length bs) False"]) (simp add: chars sextet_chars.simps [of "[]"])
    qed
  qed
qed

lemma bytes_of_bits_append: "bytes_of_bits (byte_bits c @ bs) = c # bytes_of_bits bs"
  by (cases c) (simp add: byte_bits_def)

lemma bytes_of_bits_short: "length bs < 8 \<Longrightarrow> bytes_of_bits bs = []"
  by (cases bs rule: bytes_of_bits.cases) auto

lemma bytes_of_bits_bytes: "length pad < 8 \<Longrightarrow> bytes_of_bits (concat (map byte_bits raw) @ pad) = raw"
  by (induction raw) (simp_all add: bytes_of_bits_append bytes_of_bits_short)

lemma bits_length: "length (concat (map byte_bits raw)) = 8 * length raw"
  by (induction raw) (simp_all add: byte_bits_def)

lemma b64_lengths:
  fixes k n :: nat
  assumes "pad < 6" "6 * n = 8 * k + pad"
  shows "n mod 4 \<noteq> 1"
proof
  assume "n mod 4 = 1"
  then obtain q where "n = 4 * q + 1" by (metis mult_div_mod_eq)
  with assms show False by presburger
qed

lemma pads_needed: "nat (- int n mod 4) = (4 - n mod 4) mod 4"
proof -
  have "- int n mod 4 = (4 - int n mod 4) mod 4" by presburger
  moreover have "int ((4 - n mod 4) mod 4) = (4 - int n mod 4) mod 4"
    by (simp add: of_nat_mod of_nat_diff less_imp_le)
  ultimately show ?thesis by (metis nat_int)
qed

lemma pads_complete:
  fixes l :: nat
  assumes "l mod 4 \<noteq> 1"
  shows "(4 - l mod 4) mod 4 \<le> 2 \<and> (l + (4 - l mod 4) mod 4) mod 4 = 0"
proof -
  define q where "q = l div 4"
  have l: "l = 4 * q + l mod 4" by (simp add: q_def)
  have "l mod 4 < 4" by simp
  then consider "l mod 4 = 0" | "l mod 4 = 2" | "l mod 4 = 3" using assms by linarith
  then show ?thesis
  proof cases
    case 2
    with l have "l + 2 = 4 * (q + 1)" by simp
    with 2 show ?thesis by simp
  next
    case 3
    with l have "l + 1 = 4 * (q + 1)" by simp
    with 3 show ?thesis by simp
  qed simp
qed

lemma b64_decode_encode:
  "b64_decode (b64_encode raw @ replicate (nat (- int (length (b64_encode raw)) mod 4)) (CHR ''='')) = Some raw"
proof -
  define body where "body = b64_encode raw"
  define n where "n = nat (- int (length body) mod 4)"
  obtain pad where pad: "length pad < 6" "6 dvd length (concat (map byte_bits raw) @ pad)"
    "length body = length (concat (map byte_bits raw) @ pad) div 6"
    "list_all (\<lambda>c. sextet_of c \<noteq> None \<and> c \<noteq> CHR ''='') body"
    "concat (map (\<lambda>c. sextet_bits (the (sextet_of c))) body) = concat (map byte_bits raw) @ pad"
    using sextet_chars_spec [of "concat (map byte_bits raw)"] unfolding body_def b64_encode_def by blast
  have "6 * length body = 8 * length raw + length pad" using pad(2,3) by (auto simp: bits_length)
  from b64_lengths [OF pad(1) this] have "length body mod 4 \<noteq> 1" .
  then have n: "n \<le> 2" "(length body + n) mod 4 = 0"
    unfolding n_def pads_needed using pads_complete by blast+
  have body: "takeWhile (\<lambda>c. c \<noteq> CHR ''='') (body @ replicate n (CHR ''='')) = body"
  proof -
    have "\<forall>x \<in> set body. x \<noteq> CHR ''=''" using pad(4) unfolding list_all_iff by blast
    then have "takeWhile (\<lambda>c. c \<noteq> CHR ''='') (body @ replicate n (CHR ''=''))
        = body @ takeWhile (\<lambda>c. c \<noteq> CHR ''='') (replicate n (CHR ''=''))" by (intro takeWhile_append2) blast
    then show ?thesis by simp
  qed
  have "list_all (\<lambda>c. sextet_of c \<noteq> None) body" using pad(4) by (simp add: list_all_iff)
  with n body pad(1,5) show ?thesis
    unfolding body_def [symmetric] n_def [symmetric]
    by (simp add: b64_decode_def Let_def bytes_of_bits_bytes list_all_iff)
qed

subsection \<open>Cursors\<close>

lemma alphabet_ascii: "list_all (\<lambda>c. (of_char c :: nat) < 128) alphabet"
  by code_simp

lemma sextet_of_ascii: "sextet_of c \<noteq> None \<Longrightarrow> (of_char c :: nat) < 128"
proof -
  assume "sextet_of c \<noteq> None"
  then consider "c = CHR ''+''" | "c = CHR ''/''" | i where "map_of (zip alphabet [0..<64]) c = Some i"
    by (auto simp: sextet_of_def split: if_splits)
  then show ?thesis
  proof cases
    case 3
    then have "c \<in> set alphabet" by (auto dest!: map_of_SomeD set_zip_leftD)
    then show ?thesis using alphabet_ascii by (simp add: list_all_iff)
  qed simp_all
qed

lemma b64_encode_ascii: "str_len (b64_encode raw) = length (b64_encode raw)"
proof -
  have "\<forall>c \<in> set (b64_encode raw). sextet_of c \<noteq> None"
    using sextet_chars_spec [of "concat (map byte_bits raw)"] unfolding b64_encode_def list_all_iff by blast
  then have "\<forall>c \<in> set (b64_encode raw). (of_char c :: nat) < 128" using sextet_of_ascii by blast
  then have "filter (\<lambda>c. \<not> (128 \<le> (of_char c :: nat) \<and> (of_char c :: nat) < 192)) (b64_encode raw) = b64_encode raw"
    by (intro filter_True) auto
  then show ?thesis by (simp add: str_len_def)
qed

lemma read_cursor_json:
  assumes "cursor_state_ok st"
  shows "read_state (cursor_json st) = Some st"
  using assms by (cases st) (simp add: read_state_def cursor_json_def same_set_def Let_def)

lemma decode_encode_cursor:
  assumes "cursor_state_ok st" "str_len (encode_cursor mac st) \<le> 4096" "\<And>s. length (mac s) = 32"
    and "loads (encode_ascii (cursor_json st)) = Some (cursor_json st)"
  shows "decode_cursor mac loads (encode_cursor mac st) = Some st"
proof -
  define raw where "raw = encode_ascii (cursor_json st) @ mac (encode_ascii (cursor_json st))"
  have cursor: "encode_cursor mac st = b64_encode raw" by (simp add: encode_cursor_def raw_def Let_def)
  have split: "take (length raw - 32) raw = encode_ascii (cursor_json st)"
    "drop (length raw - 32) raw = mac (encode_ascii (cursor_json st))"
    using assms(3) by (simp_all add: raw_def)
  have "b64_encode raw \<noteq> []"
  proof
    assume "b64_encode raw = []"
    moreover obtain pad where "length (b64_encode raw) = length (concat (map byte_bits raw) @ pad) div 6"
      "6 dvd length (concat (map byte_bits raw) @ pad)"
      using sextet_chars_spec [of "concat (map byte_bits raw)"] unfolding b64_encode_def by blast
    ultimately have "raw = []" by (auto simp: bits_length elim: dvdE)
    with assms(3) show False by (metis append_is_Nil_conv list.size(3) raw_def zero_neq_numeral)
  qed
  then have "1 \<le> str_len (b64_encode raw)" unfolding b64_encode_ascii by (cases "b64_encode raw") simp_all
  with assms(2) show ?thesis
    unfolding decode_cursor_def cursor
    by (simp add: b64_decode_encode split assms(4) read_cursor_json [OF assms(1)])
qed

text \<open>
  C15: a cursor that the reader issued is accepted and gives back exactly the position it was made
  from: for every position in range whose cursor stays within the length limit, under an HMAC of 32
  bytes and a JSON parser that reads back what the encoder wrote.
\<close>

theorem cursor_reads_back:
  assumes "cursor_state_ok st" "str_len (encode_cursor mac st) \<le> 4096" "\<And>s. length (mac s) = 32"
    and "loads (encode_ascii (cursor_json st)) = Some (cursor_json st)"
  shows "decode_cursor mac loads (encode_cursor mac st) = Some st"
  using assms by (rule decode_encode_cursor)

text \<open>
  Nothing else is accepted: a cursor that decodes carries, after its payload, the HMAC of that
  payload under the reader's key, and its position is in range.
\<close>

theorem cursor_needs_signature:
  assumes "decode_cursor mac loads cursor = Some st"
  shows "\<exists>payload v. b64_decode (cursor @ replicate (nat (- int (length cursor) mod 4)) (CHR ''=''))
      = Some (payload @ mac payload)
    \<and> loads payload = Some v \<and> read_state v = Some st \<and> cursor_state_ok st \<and> str_len cursor \<le> 4096"
proof -
  obtain raw v where raw: "b64_decode (cursor @ replicate (nat (- int (length cursor) mod 4)) (CHR ''='')) = Some raw"
    and sig: "drop (length raw - 32) raw = mac (take (length raw - 32) raw)"
    and v: "loads (take (length raw - 32) raw) = Some v" "read_state v = Some st" and len: "str_len cursor \<le> 4096"
    using assms by (auto simp: decode_cursor_def Let_def split: if_splits option.splits)
  have "raw = take (length raw - 32) raw @ mac (take (length raw - 32) raw)"
    unfolding sig [symmetric] by simp
  moreover have "cursor_state_ok st"
    using v(2) by (auto simp: read_state_def Let_def split: json.splits if_splits option.splits)
  ultimately show ?thesis using raw v len by metis
qed

definition w_state :: cursor_state where
  "w_state = \<lparr>cu_snapshot = replicate 36 (CHR ''0''), cu_resource = ''current'', cu_limit = 100, cu_scope = 2, cu_point = 7\<rparr>"

definition w_mac :: "text_bytes \<Rightarrow> text_bytes" where "w_mac s = replicate 32 (CHR ''m'')"

lemma w_state_ok: "cursor_state_ok w_state"
  by (simp add: cursor_state_ok_def w_state_def str_len_def resource_ok_def)

lemma w_json: "length (encode_ascii (cursor_json w_state)) = 84"
  by code_simp

lemma w_cursor_short: "str_len (encode_cursor w_mac w_state) \<le> 4096"
proof -
  let ?raw = "encode_ascii (cursor_json w_state) @ w_mac (encode_ascii (cursor_json w_state))"
  have "length ?raw = 116" by (simp add: w_json w_mac_def)
  then have "length (b64_encode ?raw) \<le> 4096"
    using sextet_chars_spec [of "concat (map byte_bits ?raw)"] by (auto simp: b64_encode_def bits_length)
  then show ?thesis by (simp only: encode_cursor_def Let_def b64_encode_ascii)
qed

theorem cursor_reads_back_witness:
  "decode_cursor w_mac (\<lambda>s. Some (cursor_json w_state)) (encode_cursor w_mac w_state) = Some w_state"
  by (rule cursor_reads_back [OF w_state_ok w_cursor_short]) (simp_all add: w_mac_def)

lemma w_decodes: "decode_cursor w_mac (\<lambda>s. Some (cursor_json w_state)) (encode_cursor w_mac w_state) = Some w_state"
  by (rule decode_encode_cursor [OF w_state_ok w_cursor_short]) (simp_all add: w_mac_def)

theorem cursor_needs_signature_witness: "cursor_state_ok w_state"
  using cursor_needs_signature [OF w_decodes] by blast

end
