(* ===== verification/Publisher_Sweep.thy ===== *)
theory Publisher_Sweep
  imports Export_Publisher "HOL-Library.Multiset"
begin

section \<open>A tick of the publisher: the probe, the sweep and the fresh phase (export_collector.py)\<close>

text \<open>
  A tick looks at pending attempts in pages.  The world is the database with the monotonic clock
  (and, as the record's extension, whatever else a reader of the model wants to observe).  The
  processing of one candidate, the fate of a read transaction and what happens meanwhile are
  arguments, so the loop is proved for every behaviour of them; \<open>candidate_process\<close> is the one the
  code has.
\<close>

record publisher_world =
  pw_db :: export_db
  pw_clock :: instant

subsection \<open>Failures of a candidate\<close>

text \<open>
  \<open>File_Failure\<close> is an \<open>ExportArtifactError\<close> or \<open>OSError\<close>; a database error carries whether the
  connection was invalidated, the driver's \<open>sqlstate\<close> attribute and the class of the exception.
\<close>

datatype candidate_failure =
    File_Failure
  | Database_Failure bool "text_bytes option" text_bytes
  | Code_Failure text_bytes

definition PER_CANDIDATE_SQLSTATES :: "text_bytes list" where
  "PER_CANDIDATE_SQLSTATES = [''55P03'', ''57014'', ''40P01'', ''40001'']"

definition MAX_CONSECUTIVE_CANDIDATE_ERRORS :: nat where "MAX_CONSECUTIVE_CANDIDATE_ERRORS = 3"
definition MAX_CANDIDATE_PAGE :: int where "MAX_CANDIDATE_PAGE = 256"

definition sqlstate :: "text_bytes option \<Rightarrow> text_bytes option" where
  "sqlstate s = (case s of None \<Rightarrow> None
     | Some t \<Rightarrow> if list_all is_alnum t \<and> length t = 5 then Some t else None)"

fun systemic :: "candidate_failure \<Rightarrow> bool" where
  "systemic (Database_Failure invalidated state _) \<longleftrightarrow>
     invalidated \<or> (case sqlstate state of None \<Rightarrow> True | Some s \<Rightarrow> s \<notin> set PER_CANDIDATE_SQLSTATES)"
| "systemic _ \<longleftrightarrow> False"

definition SQLSTATE_REASONS :: "(text_bytes \<times> text_bytes) list" where
  "SQLSTATE_REASONS = [(''55P03'', ''lock_timeout''), (''57014'', ''statement_timeout''),
     (''40P01'', ''deadlock''), (''40001'', ''serialization'')]"

fun failure_reason :: "candidate_failure \<Rightarrow> text_bytes" where
  "failure_reason File_Failure = ''proof''"
| "failure_reason (Database_Failure _ state name) =
     (case sqlstate state of None \<Rightarrow> take 40 name
      | Some s \<Rightarrow> (case map_of SQLSTATE_REASONS s of Some r \<Rightarrow> r | None \<Rightarrow> ''sqlstate_'' @ s))"
| "failure_reason (Code_Failure name) = take 40 name"

subsection \<open>The tally of a tick\<close>

record tally =
  tl_results :: "text_bytes multiset"
  tl_reasons :: "text_bytes multiset"
  tl_seen :: "text_bytes list"
  tl_consecutive :: nat
  tl_stopped :: bool

definition new_tally :: tally where
  "new_tally = \<lparr>tl_results = {#}, tl_reasons = {#}, tl_seen = [], tl_consecutive = 0, tl_stopped = False\<rparr>"

fun readiness_name :: "readiness \<Rightarrow> text_bytes" where
  "readiness_name Eligible = ''ELIGIBLE''"
| "readiness_name Not_Ready = ''NOT_READY''"
| "readiness_name Rejected = ''REJECTED''"

fun promotion_name :: "promotion_result \<Rightarrow> text_bytes" where
  "promotion_name Already_Committed = ''ALREADY_COMMITTED''"
| "promotion_name (Not_Eligible r) = readiness_name r"
| "promotion_name Conflict = ''CONFLICT''"
| "promotion_name Superseded = ''SUPERSEDED''"
| "promotion_name Published = ''PUBLISHED''"

fun outcome_name :: "publisher_outcome \<Rightarrow> text_bytes" where
  "outcome_name Retired_Superseded = ''SUPERSEDED''"
| "outcome_name Stay_Pending = ''NOT_READY''"
| "outcome_name Has_Generation = ''ALREADY_COMMITTED''"
| "outcome_name Retired_Terminal = ''REJECTED''"
| "outcome_name (Promotion_Result r) = promotion_name r"

fun record_outcome :: "candidate_failure + publisher_outcome \<Rightarrow> tally \<Rightarrow> tally" where
  "record_outcome (Inr outcome) t =
     t\<lparr>tl_consecutive := 0, tl_results := add_mset (outcome_name outcome) (tl_results t)\<rparr>"
| "record_outcome (Inl File_Failure) t =
     t\<lparr>tl_consecutive := 0, tl_results := add_mset ''NOT_READY'' (tl_results t)\<rparr>"
| "record_outcome (Inl f) t =
     (let n = (if systemic f then tl_consecutive t + 1 else 0)
      in t\<lparr>tl_reasons := add_mset (failure_reason f) (tl_reasons t), tl_consecutive := n,
           tl_stopped := (n \<ge> MAX_CONSECUTIVE_CANDIDATE_ERRORS),
           tl_results := add_mset ''DEFERRED'' (tl_results t)\<rparr>)"

subsection \<open>Draining a page of candidates\<close>

type_synonym 'w processing = "candidate \<Rightarrow> 'w \<Rightarrow> (candidate_failure + publisher_outcome) \<times> 'w"

abbreviation cd_id :: "candidate \<Rightarrow> text_bytes" where
  "cd_id c \<equiv> at_id (cd_attempt c)"

definition drain_one :: "'w processing \<Rightarrow> candidate \<Rightarrow> tally \<times> 'w \<Rightarrow> tally \<times> 'w" where
  "drain_one process row s =
     (case s of (t, w) \<Rightarrow>
        if cd_id row \<in> set (tl_seen t) then (t, w)
        else case process row w of
          (r, w') \<Rightarrow> (record_outcome r (t\<lparr>tl_seen := cd_id row # tl_seen t\<rparr>), w'))"

fun drain ::
  "'a publisher_world_scheme processing \<Rightarrow> instant \<Rightarrow> candidate list \<Rightarrow> tally \<times> 'a publisher_world_scheme \<Rightarrow>
   (nat \<times> candidate option) \<times> tally \<times> 'a publisher_world_scheme" where
  "drain process deadline [] s = ((0, None), s)"
| "drain process deadline (row # rows) s =
     (if tl_stopped (fst s) \<or> pw_clock (snd s) \<ge> deadline then ((0, None), s)
      else case drain process deadline rows (drain_one process row s) of
        ((n, later), s') \<Rightarrow> ((Suc n, if later = None then Some row else later), s'))"

subsection \<open>One page of the sweep: publish_pending_exports\<close>

definition pending_rows :: "export_db \<Rightarrow> attempt_row list" where
  "pending_rows db = sort_key a_id (filter (\<lambda>a. is_pending a \<and> no_generation db (a_id a)) (attempts db))"

definition candidate_of :: "export_db \<Rightarrow> attempt_row \<Rightarrow> candidate" where
  "candidate_of db a =
     \<lparr>cd_attempt = \<lparr>at_id = a_id a, at_owner = a_owner a\<rparr>, cd_native = map_option sr_status (run_at (a_run a) db),
      cd_mode = a_mode a, cd_orchestrator = a_orchestrator a,
      cd_has_plan = (row_of p_attempt (a_id a) (plans db) \<noteq> None)\<rparr>"

text \<open>\<open>if cursor\<close>: an empty cursor is none.\<close>

definition past :: "text_bytes option \<Rightarrow> text_bytes \<Rightarrow> bool" where
  "past cursor i \<longleftrightarrow> (case cursor of None \<Rightarrow> True | Some k \<Rightarrow> k = [] \<or> k < i)"

definition pending_page :: "text_bytes option \<Rightarrow> nat \<Rightarrow> export_db \<Rightarrow> candidate list" where
  "pending_page cursor n db =
     take n (map (candidate_of db) (filter (\<lambda>a. past cursor (a_id a)) (pending_rows db)))"

record progress =
  pg_processed :: nat
  pg_results :: "text_bytes multiset"
  pg_next :: "text_bytes option"
  pg_more :: bool
  pg_reasons :: "text_bytes multiset"

type_synonym 'w reading = "'w \<Rightarrow> candidate_failure option \<times> 'w"

definition publish_pending_exports ::
  "'a publisher_world_scheme reading \<Rightarrow> 'a publisher_world_scheme processing \<Rightarrow>
   text_bytes option \<Rightarrow> int \<Rightarrow> int \<Rightarrow> tally option \<Rightarrow> 'a publisher_world_scheme \<Rightarrow>
   (candidate_failure + progress \<times> tally) \<times> 'a publisher_world_scheme" where
  "publish_pending_exports read process cursor limit budget shared w =
     (if \<not> (1 \<le> limit \<and> limit \<le> MAX_CANDIDATE_PAGE) \<or> \<not> (0 < budget \<and> budget \<le> seconds 60)
      then (Inl (Code_Failure ''ValueError''), w)
      else
        let deadline = pw_clock w + budget;
            t = (case shared of None \<Rightarrow> new_tally | Some t \<Rightarrow> t)
        in case read w of
             (Some f, w') \<Rightarrow> (Inl f, w')
           | (None, w') \<Rightarrow>
               let rows = pending_page cursor (nat limit + 1) (pw_db w')
               in case drain process deadline (take (nat limit) rows) (t, w') of
                    ((processed, reached), t', w'') \<Rightarrow>
                      let has_more = processed < length rows;
                          place = (case reached of None \<Rightarrow> cursor | Some c \<Rightarrow> Some (cd_id c))
                      in (Inr (\<lparr>pg_processed = processed,
                                pg_results = (if shared = None then tl_results t' else tl_results t' - tl_results t),
                                pg_next = (if has_more then place else None), pg_more = has_more,
                                pg_reasons = (if shared = None then tl_reasons t' else tl_reasons t' - tl_reasons t)\<rparr>,
                              t'), w''))"

subsection \<open>The sweep of a tick (the sensor's loop over pages)\<close>

definition MAX_TICK_ATTEMPTS :: nat where "MAX_TICK_ATTEMPTS = 4096"
definition CANDIDATE_PAGE :: nat where "CANDIDATE_PAGE = 128"

record 'w tick =
  tk_after :: "text_bytes option"
  tk_tally :: tally
  tk_fresh :: nat
  tk_swept :: nat
  tk_ok :: bool
  tk_reasons :: "text_bytes multiset"
  tk_world :: 'w

definition sweep_page ::
  "'a publisher_world_scheme reading \<Rightarrow> 'a publisher_world_scheme processing \<Rightarrow> instant \<Rightarrow>
   'a publisher_world_scheme tick \<Rightarrow> bool \<times> 'a publisher_world_scheme tick" where
  "sweep_page read process source_deadline k =
     (let remaining = source_deadline - pw_clock (tk_world k) in
      if remaining \<le> 0 then (False, k)
      else case publish_pending_exports read process (tk_after k)
             (int (min CANDIDATE_PAGE (MAX_TICK_ATTEMPTS - tk_fresh k - tk_swept k)))
             (min remaining (seconds 60)) (Some (tk_tally k)) (tk_world k) of
          (Inl f, w) \<Rightarrow> (False, k\<lparr>tk_ok := False, tk_reasons := add_mset (''sweep:'' @ failure_reason f) (tk_reasons k), tk_world := w\<rparr>)
        | (Inr (p, t), w) \<Rightarrow>
            (pg_more p \<and> pg_processed p \<noteq> 0,
             k\<lparr>tk_swept := tk_swept k + pg_processed p, tk_after := pg_next p, tk_tally := t, tk_world := w\<rparr>))"

lemma sweep_page_advances:
  assumes "sweep_page read process d k = (True, k')"
  shows "tk_swept k < tk_swept k' \<and> tk_fresh k' = tk_fresh k"
  using assms by (auto simp: sweep_page_def Let_def split: if_splits prod.splits sum.splits)

function sweep ::
  "'a publisher_world_scheme reading \<Rightarrow> 'a publisher_world_scheme processing \<Rightarrow> instant \<Rightarrow>
   'a publisher_world_scheme tick \<Rightarrow> 'a publisher_world_scheme tick" where
  "sweep read process d k =
     (if tk_fresh k + tk_swept k < MAX_TICK_ATTEMPTS \<and> \<not> tl_stopped (tk_tally k)
      then case sweep_page read process d k of (again, k') \<Rightarrow> if again then sweep read process d k' else k'
      else k)"
  by pat_completeness auto

termination
  by (relation "measure (\<lambda>(read, process, d, k). MAX_TICK_ATTEMPTS - tk_fresh k - tk_swept k)")
    (auto dest!: sym [of "(True, _)"] sweep_page_advances)

declare sweep.simps [simp del]

subsection \<open>What a page covers\<close>

definition waiting :: "text_bytes \<Rightarrow> export_db \<Rightarrow> bool" where
  "waiting i db \<longleftrightarrow> list_ex (\<lambda>a. a_id a = i \<and> is_pending a \<and> no_generation db i) (attempts db)"

lemma record_outcome_seen [simp]: "tl_seen (record_outcome r t) = tl_seen t"
  by (cases "(r, t)" rule: record_outcome.cases) (simp_all add: Let_def)

lemma drain_one_seen: "set (tl_seen (fst (drain_one process row s))) = insert (cd_id row) (set (tl_seen (fst s)))"
  by (cases s) (auto simp: drain_one_def split: prod.splits)

lemma drain_spec:
  "drain process d rows s = ((n, reached), s') \<Longrightarrow>
     n \<le> length rows \<and> reached = (if n = 0 then None else Some (rows ! (n - 1)))
     \<and> set (tl_seen (fst s')) = set (map cd_id (take n rows)) \<union> set (tl_seen (fst s))
     \<and> (n < length rows \<longrightarrow> tl_stopped (fst s') \<or> d \<le> pw_clock (snd s'))"
proof (induction rows arbitrary: s n reached)
  case Nil
  then show ?case by simp
next
  case (Cons row rows)
  show ?case
  proof (cases "tl_stopped (fst s) \<or> pw_clock (snd s) \<ge> d")
    case True
    with Cons.prems show ?thesis by auto
  next
    case False
    obtain m later where rest: "drain process d rows (drain_one process row s) = ((m, later), s')"
      and n: "n = Suc m" "reached = (if later = None then Some row else later)"
      using Cons.prems False by (auto split: prod.splits)
    from Cons.IH [OF rest] n show ?thesis by (auto simp: drain_one_seen nth_Cons')
  qed
qed

lemma drain_invariant:
  assumes one: "\<And>c s. J s \<Longrightarrow> J (drain_one process c s)"
  shows "J s \<Longrightarrow> drain process d rows s = (x, s') \<Longrightarrow> J s'"
proof (induction rows arbitrary: s x)
  case Nil
  then show ?case by simp
next
  case (Cons row rows)
  show ?case
  proof (cases "tl_stopped (fst s) \<or> pw_clock (snd s) \<ge> d")
    case True
    with Cons.prems show ?thesis by auto
  next
    case False
    obtain y where "drain process d rows (drain_one process row s) = (y, s')"
      using Cons.prems(2) False by (auto split: prod.splits)
    with Cons.IH one [OF Cons.prems(1)] show ?thesis by blast
  qed
qed

lemma drain_keeps:
  assumes other: "\<And>c w. cd_id c \<noteq> i \<Longrightarrow> P w \<Longrightarrow> P (snd (process c w))"
    and "P (snd s)" "drain process d rows s = (x, s')"
  shows "i \<in> set (tl_seen (fst s')) \<or> P (snd s')"
proof (rule drain_invariant [where J = "\<lambda>s :: tally \<times> _. i \<in> set (tl_seen (fst s)) \<or> P (snd s)"])
  fix c and s :: "tally \<times> _" assume J: "i \<in> set (tl_seen (fst s)) \<or> P (snd s)"
  show "i \<in> set (tl_seen (fst (drain_one process c s))) \<or> P (snd (drain_one process c s))"
  proof (cases "cd_id c = i")
    case True
    then show ?thesis by (simp add: drain_one_seen)
  next
    case False
    with J other [OF False, of "snd s"] show ?thesis
      by (cases s) (auto simp: drain_one_def split: prod.splits)
  qed
qed (use assms(2,3) in auto)

lemma pending_page_spec:
  assumes "waiting i db" "past cursor i"
  shows "\<exists>R. (\<forall>m. pending_page cursor m db = take m R) \<and> sorted (map cd_id R) \<and> i \<in> set (map cd_id R)
    \<and> (\<forall>c\<in>set R. past cursor (cd_id c))"
proof -
  let ?rows = "filter (\<lambda>a. past cursor (a_id a)) (pending_rows db)"
  let ?R = "map (candidate_of db) ?rows"
  have ids: "map cd_id ?R = map a_id ?rows" by (simp add: candidate_of_def comp_def)
  have "sorted (map a_id (pending_rows db))" by (simp add: pending_rows_def)
  then have "sorted (map a_id ?rows)" by (simp add: sorted_filter)
  moreover have "i \<in> set (map a_id ?rows)" using assms by (auto simp: waiting_def list_ex_iff pending_rows_def)
  moreover have "\<forall>c\<in>set ?R. past cursor (cd_id c)" by (auto simp: candidate_of_def)
  ultimately show ?thesis unfolding ids [symmetric] by (intro exI [of _ ?R]) (simp add: pending_page_def)
qed


lemma nth_in_take: "j < n \<Longrightarrow> n \<le> length xs \<Longrightarrow> xs ! j \<in> set (take n xs)"
  by (auto simp: in_set_conv_nth intro!: exI [of _ j])

text \<open>One page: where the candidate \<open>i\<close> is afterwards.\<close>

lemma page_covers:
  assumes page: "publish_pending_exports read process cursor limit budget (Some t) w = (Inr (p, t'), w')"
    and wait: "waiting i (pw_db (snd (read w)))" and i: "past cursor i"
  shows "i \<in> set (tl_seen t') \<or> past (pg_next p) i \<and> pg_more p
      \<and> (pg_processed p < nat limit \<longrightarrow> tl_stopped t' \<or> pw_clock w + budget \<le> pw_clock w')"
    and "set (tl_seen t) \<subseteq> set (tl_seen t')"
proof -
  obtain w1 where w1: "read w = (None, w1)"
    using page by (auto simp: publish_pending_exports_def Let_def split: if_splits prod.splits option.splits)
  with wait i obtain R where R: "\<And>m. pending_page cursor m (pw_db w1) = take m R" "sorted (map cd_id R)"
    "i \<in> set (map cd_id R)" "\<And>c. c \<in> set R \<Longrightarrow> past cursor (cd_id c)"
    using pending_page_spec [of i "pw_db w1" cursor] by auto
  obtain n reached where
    drained: "drain process (pw_clock w + budget) (take (nat limit) R) (t, w1) = ((n, reached), (t', w'))"
    and p: "pg_processed p = n" "pg_more p \<longleftrightarrow> n < length (take (nat limit + 1) R)"
      "pg_next p = (if n < length (take (nat limit + 1) R)
         then (case reached of None \<Rightarrow> cursor | Some c \<Rightarrow> Some (cd_id c)) else None)"
    using page w1 R(1)
    by (auto simp: publish_pending_exports_def Let_def split: if_splits prod.splits)
  note spec = drain_spec [OF drained]
  from spec have "n \<le> min (length R) (nat limit)" by simp
  then have le: "n \<le> nat limit" "n \<le> length R" by simp_all
  from spec le have reached: "reached = (if n = 0 then None else Some (R ! (n - 1)))" by (simp add: nth_take)
  from spec le have seen: "set (tl_seen t') = set (map cd_id (take n R)) \<union> set (tl_seen t)"
    by (simp add: min_absorb1)
  from spec have rest: "n < nat limit \<Longrightarrow> n < length R \<Longrightarrow> tl_stopped t' \<or> pw_clock w + budget \<le> pw_clock w'"
    by simp
  show "set (tl_seen t) \<subseteq> set (tl_seen t')" using seen by blast
  show "i \<in> set (tl_seen t') \<or> past (pg_next p) i \<and> pg_more p
      \<and> (pg_processed p < nat limit \<longrightarrow> tl_stopped t' \<or> pw_clock w + budget \<le> pw_clock w')"
  proof (cases "i \<in> set (map cd_id (take n R))")
    case True
    with seen show ?thesis by blast
  next
    case False
    from R(3) obtain j where j: "j < length R" "i = cd_id (R ! j)" by (auto simp: in_set_conv_nth)
    have "n \<le> j"
    proof (rule ccontr)
      assume "\<not> n \<le> j"
      with nth_in_take [of j n R] le j have "i \<in> set (map cd_id (take n R))" by auto
      with False show False by contradiction
    qed
    with j le have less: "n < length R" and more: "pg_more p" by (auto simp: p(2))
    have "past (pg_next p) i"
    proof (cases "n = 0")
      case True
      with more p reached i show ?thesis by auto
    next
      case nonzero: False
      let ?k = "cd_id (R ! (n - 1))"
      have "?k \<le> i" using sorted_nth_mono [OF R(2), of "n - 1" j] j \<open>n \<le> j\<close> by auto
      moreover have "?k \<in> set (map cd_id (take n R))"
        using nonzero le nth_in_take [of "n - 1" n R] by auto
      with False have "?k \<noteq> i" by auto
      ultimately show ?thesis using more nonzero reached by (auto simp: past_def p)
    qed
    with more rest less p(1) show ?thesis by auto
  qed
qed


subsection \<open>What a sweep covers\<close>

lemma sweep_page_result:
  assumes "sweep_page read process d k = (again, k')" "tk_ok k'" "pw_clock (tk_world k) < d"
  obtains p where
    "publish_pending_exports read process (tk_after k)
       (int (min CANDIDATE_PAGE (MAX_TICK_ATTEMPTS - tk_fresh k - tk_swept k)))
       (min (d - pw_clock (tk_world k)) (seconds 60)) (Some (tk_tally k)) (tk_world k)
     = (Inr (p, tk_tally k'), tk_world k')"
    "tk_after k' = pg_next p" "tk_swept k' = tk_swept k + pg_processed p"
    "again \<longleftrightarrow> pg_more p \<and> pg_processed p \<noteq> 0" "tk_fresh k' = tk_fresh k"
  using assms by (auto simp: sweep_page_def Let_def split: prod.splits sum.splits)

lemma sweep_page_still:
  assumes "sweep_page read process d k = (again, k')" "\<not> tk_ok k' \<or> \<not> pw_clock (tk_world k) < d" "tk_ok k"
  shows "tk_after k' = tk_after k" "tk_tally k' = tk_tally k" "\<not> again"
  using assms by (auto simp: sweep_page_def Let_def split: if_splits prod.splits sum.splits)


lemma drain_seen_mono: "drain process d rows s = (x, s') \<Longrightarrow> set (tl_seen (fst s)) \<subseteq> set (tl_seen (fst s'))"
  using drain_spec [of process d rows s "fst x" "snd x" s'] by auto

lemma page_seen_mono:
  assumes "publish_pending_exports read process cursor limit budget (Some t) w = (Inr (p, t'), w')"
  shows "set (tl_seen t) \<subseteq> set (tl_seen t')"
  using assms by (auto simp: publish_pending_exports_def Let_def split: if_splits prod.splits option.splits
      dest!: drain_seen_mono)

lemma sweep_page_seen_mono:
  assumes "sweep_page read process d k = (again, k')"
  shows "set (tl_seen (tk_tally k)) \<subseteq> set (tl_seen (tk_tally k'))"
  using assms page_seen_mono
  by (fastforce simp: sweep_page_def Let_def split: if_splits prod.splits sum.splits)

lemma sweep_seen_mono: "set (tl_seen (tk_tally k)) \<subseteq> set (tl_seen (tk_tally (sweep read process d k)))"
proof (induction read process d k rule: sweep.induct)
  case (1 read process d k)
  obtain again k' where page: "sweep_page read process d k = (again, k')" by fastforce
  from sweep_page_seen_mono [OF page] 1 page show ?case
    by (subst sweep.simps) (auto split: prod.splits)
qed

lemma page_keeps_waiting:
  assumes "publish_pending_exports read process cursor limit budget (Some t) w = (Inr (p, t'), w')"
    "P (snd (read w))" "\<And>c w. cd_id c \<noteq> i \<Longrightarrow> P w \<Longrightarrow> P (snd (process c w))"
  shows "i \<in> set (tl_seen t') \<or> P w'"
proof -
  obtain w1 x rows dl where "read w = (None, w1)" "drain process dl rows (t, w1) = (x, (t', w'))"
    using assms(1) by (auto simp: publish_pending_exports_def Let_def split: if_splits prod.splits option.splits)
  with assms(2) drain_keeps [of i P process "(t, w1)", OF assms(3)] show ?thesis by fastforce
qed

lemma sweep_cases:
  assumes "sweep_page read process d k = (again, k')"
  shows "sweep read process d k =
    (if tk_fresh k + tk_swept k < MAX_TICK_ATTEMPTS \<and> \<not> tl_stopped (tk_tally k)
     then if again then sweep read process d k' else k' else k)"
  using assms by (subst sweep.simps) simp

lemma sweep_leaves_no_gap:
  assumes reads: "\<And>w. waiting i (pw_db w) \<Longrightarrow> waiting i (pw_db (snd (read w)))"
    and others: "\<And>c w. cd_id c \<noteq> i \<Longrightarrow> waiting i (pw_db w) \<Longrightarrow> waiting i (pw_db (snd (process c w)))"
  shows "waiting i (pw_db (tk_world k)) \<Longrightarrow> past (tk_after k) i \<Longrightarrow> tk_ok k \<Longrightarrow>
    i \<in> set (tl_seen (tk_tally (sweep read process d k))) \<or> past (tk_after (sweep read process d k)) i"
  using reads others
proof (induction read process d k rule: sweep.induct)
  case (1 read process d k)
  obtain again k' where page: "sweep_page read process d k = (again, k')" by fastforce
  note unfolded = sweep_cases [OF page]
  show ?case
  proof (cases "tk_ok k' \<and> pw_clock (tk_world k) < d")
    case False
    with sweep_page_still [OF page] 1(4) have "tk_after k' = tk_after k" "\<not> again" by auto
    with 1(3) show ?thesis by (simp add: unfolded)
  next
    case True
    with page obtain p where p: "publish_pending_exports read process (tk_after k)
       (int (min CANDIDATE_PAGE (MAX_TICK_ATTEMPTS - tk_fresh k - tk_swept k)))
       (min (d - pw_clock (tk_world k)) (seconds 60)) (Some (tk_tally k)) (tk_world k)
     = (Inr (p, tk_tally k'), tk_world k')" "tk_after k' = pg_next p"
      "again \<longleftrightarrow> pg_more p \<and> pg_processed p \<noteq> 0"
      by (elim sweep_page_result) auto
    have wait: "waiting i (pw_db (snd (read (tk_world k))))" using 1(2,5) by blast
    from page_covers(1) [OF p(1) wait 1(3)] p(2)
    have covered: "i \<in> set (tl_seen (tk_tally k')) \<or> past (tk_after k') i" by auto
    show ?thesis
    proof (cases "i \<in> set (tl_seen (tk_tally k'))")
      case True
      with sweep_seen_mono [of k' read process d] 1(3) show ?thesis by (auto simp: unfolded)
    next
      case fresh: False
      from page_keeps_waiting [OF p(1), where P = "\<lambda>w. waiting i (pw_db w)", OF wait 1(6)] fresh
      have still: "waiting i (pw_db (tk_world k'))" by auto
      show ?thesis
      proof (cases "tk_fresh k + tk_swept k < MAX_TICK_ATTEMPTS \<and> \<not> tl_stopped (tk_tally k) \<and> again")
        case go: True
        then have "tk_fresh k + tk_swept k < MAX_TICK_ATTEMPTS \<and> \<not> tl_stopped (tk_tally k)" "again" by auto
        from 1(1) [OF this(1) page [symmetric] this(2) still _ _ 1(5,6)] go covered fresh True
        show ?thesis by (simp add: unfolded)
      next
        case False
        with covered 1(3) show ?thesis by (auto simp: unfolded)
      qed
    qed
  qed
qed


lemma record_outcome_running:
  assumes "\<And>f. r = Inl f \<Longrightarrow> \<not> systemic f" "\<not> tl_stopped t"
  shows "\<not> tl_stopped (record_outcome r t)"
  using assms by (cases "(r, t)" rule: record_outcome.cases) (auto simp: MAX_CONSECUTIVE_CANDIDATE_ERRORS_def)

lemma drain_running:
  fixes process :: "'a publisher_world_scheme processing"
  assumes fine: "\<And>c w f. fst (process c w) = Inl f \<Longrightarrow> \<not> systemic f"
    and clock: "\<And>c w. pw_clock w \<le> pw_clock (snd (process c w))"
    and "drain process d rows (t, w) = (x, (t', w'))" "\<not> tl_stopped t"
  shows "\<not> tl_stopped t' \<and> pw_clock w \<le> pw_clock w'"
proof -
  let ?J = "\<lambda>s :: tally \<times> 'a publisher_world_scheme. \<not> tl_stopped (fst s) \<and> pw_clock w \<le> pw_clock (snd s)"
  have "?J (t', w')"
  proof (rule drain_invariant [where J = ?J])
    fix c and s :: "tally \<times> 'a publisher_world_scheme" assume J: "?J s"
    obtain t0 w0 where s: "s = (t0, w0)" by fastforce
    have "\<not> tl_stopped (record_outcome (fst (process c w0)) (t0\<lparr>tl_seen := cd_id c # tl_seen t0\<rparr>))"
      using J s fine [of c w0] by (intro record_outcome_running) auto
    with J s clock [of w0 c] show "?J (drain_one process c s)" by (auto simp: drain_one_def split: prod.splits)
  qed (use assms in auto)
  then show ?thesis by simp
qed

lemma page_running:
  assumes page: "publish_pending_exports read process cursor limit budget (Some t) w = (Inr (p, t'), w')"
    and fine: "\<And>c w f. fst (process c w) = Inl f \<Longrightarrow> \<not> systemic f"
    and clock: "\<And>c w. pw_clock w \<le> pw_clock (snd (process c w))" "\<And>w. pw_clock w \<le> pw_clock (snd (read w))"
    and "\<not> tl_stopped t"
  shows "\<not> tl_stopped t'" "pw_clock w \<le> pw_clock w'"
proof -
  obtain w1 x rows dl where r: "read w = (None, w1)" and dr: "drain process dl rows (t, w1) = (x, (t', w'))"
    using page by (auto simp: publish_pending_exports_def Let_def split: if_splits prod.splits option.splits)
  have "\<not> tl_stopped t' \<and> pw_clock w1 \<le> pw_clock w'"
    by (rule drain_running [OF _ clock(1) dr assms(5)]) (rule fine)
  with clock(2) [of w] r show "\<not> tl_stopped t'" "pw_clock w \<le> pw_clock w'" by auto
qed

lemma drain_clock_mono:
  fixes process :: "'a publisher_world_scheme processing"
  assumes clock: "\<And>c w. pw_clock w \<le> pw_clock (snd (process c w))"
    and "drain process d rows (t, w) = (x, (t', w'))"
  shows "pw_clock w \<le> pw_clock w'"
proof -
  let ?J = "\<lambda>s :: tally \<times> 'a publisher_world_scheme. pw_clock w \<le> pw_clock (snd s)"
  have "?J (t', w')"
  proof (rule drain_invariant [where J = ?J])
    fix c and s :: "tally \<times> 'a publisher_world_scheme" assume J: "?J s"
    with clock [of "snd s" c] show "?J (drain_one process c s)"
      by (cases s) (auto simp: drain_one_def split: prod.splits)
  qed (use assms(2) in auto)
  then show ?thesis by simp
qed

lemma sweep_clock_mono:
  assumes "\<And>c w. pw_clock w \<le> pw_clock (snd (process c w))" "\<And>w. pw_clock w \<le> pw_clock (snd (read w))"
  shows "pw_clock (tk_world k) \<le> pw_clock (tk_world (sweep read process d k))"
  using assms
proof (induction read process d k rule: sweep.induct)
  case (1 read process d k)
  have drains: "pw_clock w \<le> pw_clock w'" if "drain process dl rows (t, w) = (x, (t', w'))" for dl rows t w x t' w'
    using drain_clock_mono [OF 1(2) that] .
  obtain again k' where page: "sweep_page read process d k = (again, k')" by fastforce
  have "pw_clock (tk_world k) \<le> pw_clock (tk_world k')"
    using page 1(3) [of "tk_world k"] drains
    by (fastforce simp: sweep_page_def publish_pending_exports_def Let_def
        split: if_splits prod.splits sum.splits option.splits)
  with 1(1) [OF _ page [symmetric] _ 1(2,3)] show ?case by (auto simp: sweep_cases [OF page])
qed


lemma healthy_sweep_sees_all:
  fixes process :: "'a publisher_world_scheme processing"
  assumes reads: "\<And>w. waiting i (pw_db w) \<Longrightarrow> waiting i (pw_db (snd (read w)))" "\<And>w. fst (read w) = None"
    "\<And>w. pw_clock w \<le> pw_clock (snd (read w))"
    and others: "\<And>c w. cd_id c \<noteq> i \<Longrightarrow> waiting i (pw_db w) \<Longrightarrow> waiting i (pw_db (snd (process c w)))"
    and fine: "\<And>c w f. fst (process c w) = Inl f \<Longrightarrow> \<not> systemic f"
    and clock: "\<And>c w. pw_clock w \<le> pw_clock (snd (process c w))"
  shows "waiting i (pw_db (tk_world k)) \<Longrightarrow> past (tk_after k) i \<Longrightarrow> \<not> tl_stopped (tk_tally k) \<Longrightarrow>
    d \<le> pw_clock (tk_world k) + seconds 60 \<Longrightarrow> pw_clock (tk_world (sweep read process d k)) < d \<Longrightarrow>
    tk_fresh k + tk_swept (sweep read process d k) < MAX_TICK_ATTEMPTS \<Longrightarrow>
    i \<in> set (tl_seen (tk_tally (sweep read process d k)))"
proof (induction "MAX_TICK_ATTEMPTS - tk_fresh k - tk_swept k" arbitrary: k rule: less_induct)
  case less
  let ?k = "sweep read process d k"
  obtain again k' where page: "sweep_page read process d k = (again, k')" by fastforce
  note unfolded = sweep_cases [OF page]
  have early: "pw_clock (tk_world k) < d"
    using sweep_clock_mono [where k = k and read = read and process = process and d = d, OF clock reads(3)] less.prems(5)
    by simp
  let ?n = "min CANDIDATE_PAGE (MAX_TICK_ATTEMPTS - tk_fresh k - tk_swept k)"
  let ?b = "min (d - pw_clock (tk_world k)) (seconds 60)"
  have b: "?b = d - pw_clock (tk_world k)" using less.prems(4) by simp
  show ?case
  proof (cases "tk_fresh k + tk_swept k < MAX_TICK_ATTEMPTS")
    case False
    with less.prems(6) show ?thesis by (simp add: unfolded)
  next
    case room: True
    have n: "1 \<le> int ?n" "int ?n \<le> MAX_CANDIDATE_PAGE" "0 < ?b"
      using room early by (auto simp: CANDIDATE_PAGE_def MAX_CANDIDATE_PAGE_def)
    obtain p where p: "publish_pending_exports read process (tk_after k) (int ?n) ?b (Some (tk_tally k)) (tk_world k)
        = (Inr (p, tk_tally k'), tk_world k')"
      and k': "tk_after k' = pg_next p" "tk_swept k' = tk_swept k + pg_processed p" "tk_fresh k' = tk_fresh k"
        "again \<longleftrightarrow> pg_more p \<and> pg_processed p \<noteq> 0"
      using page early n reads(2) [of "tk_world k"]
      by (auto simp: sweep_page_def publish_pending_exports_def Let_def split: prod.splits)
    have wait: "waiting i (pw_db (snd (read (tk_world k))))" using less.prems(1) reads(1) by blast
    have fine': "\<not> tl_stopped (tk_tally k')" "pw_clock (tk_world k) \<le> pw_clock (tk_world k')"
      using page_running [OF p _ clock reads(3) less.prems(3)] fine by blast+
    show ?thesis
    proof (cases "i \<in> set (tl_seen (tk_tally k'))")
      case True
      with sweep_seen_mono [of k' read process d] room less.prems(3) show ?thesis by (auto simp: unfolded)
    next
      case fresh: False
      from page_keeps_waiting [OF p, where P = "\<lambda>w. waiting i (pw_db w)", OF wait others] fresh
      have still: "waiting i (pw_db (tk_world k'))" by auto
      from page_covers(1) [OF p wait less.prems(2)] fresh
      have next_page: "past (pg_next p) i" "pg_more p"
        "pg_processed p < ?n \<longrightarrow> tl_stopped (tk_tally k') \<or> pw_clock (tk_world k) + ?b \<le> pw_clock (tk_world k')"
        by auto
      have after: "pw_clock (tk_world k') < d"
        using sweep_clock_mono [where k = k' and read = read and process = process and d = d, OF clock reads(3)]
          less.prems(3,5) room by (auto simp: unfolded split: if_splits)
      with next_page(3) fine'(1) b n have full: "\<not> pg_processed p < ?n" by auto
      with n have "pg_processed p \<noteq> 0" by auto
      with next_page(2) k' have again: again by simp
      have "i \<in> set (tl_seen (tk_tally (sweep read process d k')))"
      proof (rule less.hyps [OF _ still])
        show "MAX_TICK_ATTEMPTS - tk_fresh k' - tk_swept k' < MAX_TICK_ATTEMPTS - tk_fresh k - tk_swept k"
          using room k' \<open>pg_processed p \<noteq> 0\<close> by auto
      qed (use less.prems fine' next_page k' again room in \<open>auto simp: unfolded\<close>)
      then show ?thesis using again room less.prems(3) by (simp add: unfolded)
    qed
  qed
qed


text \<open>
  C24: One bad candidate blocks nobody.  When no failure is systemic (one of the database itself), every
  page read succeeds, the clock does not go back and the deadline is at most a minute ahead, a sweep
  that ends before its deadline and under the limit of attempts has processed every candidate past
  its starting cursor that waited throughout, however the other candidates failed: a lock timeout,
  a broken file or a program error defers only the candidate it befell.
\<close>

theorem one_bad_candidate_blocks_nobody:
  fixes process :: "'a publisher_world_scheme processing"
  assumes "waiting i (pw_db (tk_world k))" "past (tk_after k) i" "\<not> tl_stopped (tk_tally k)"
    and "\<And>w. waiting i (pw_db w) \<Longrightarrow> waiting i (pw_db (snd (read w)))" "\<And>w. fst (read w) = None"
    and "\<And>c w. cd_id c \<noteq> i \<Longrightarrow> waiting i (pw_db w) \<Longrightarrow> waiting i (pw_db (snd (process c w)))"
    and "\<And>c w f. fst (process c w) = Inl f \<Longrightarrow> \<not> systemic f"
    and "\<And>w. pw_clock w \<le> pw_clock (snd (read w))" "\<And>c w. pw_clock w \<le> pw_clock (snd (process c w))"
    and "d \<le> pw_clock (tk_world k) + seconds 60" "pw_clock (tk_world (sweep read process d k)) < d"
    and "tk_fresh k + tk_swept (sweep read process d k) < MAX_TICK_ATTEMPTS"
  shows "i \<in> set (tl_seen (tk_tally (sweep read process d k)))"
  by (rule healthy_sweep_sees_all) (fact assms)+

end
