(* ===== verification/Publisher_Fresh.thy ===== *)
theory Publisher_Fresh
  imports Publisher_Sweep "HOL-Library.Product_Lexorder"
begin

section \<open>The fresh phase and the order of a tick (export_collector.py, export_publisher.py)\<close>

text \<open>
  Before the sweep a tick promotes the current attempts of the runs that succeeded last.  The
  query takes the runs in windows, newest first, and the candidates of a window in pages.
\<close>

definition FRESH_RUN_WINDOW :: int where "FRESH_RUN_WINDOW = 2"
definition MAX_FRESH_RUN_WINDOW :: int where "MAX_FRESH_RUN_WINDOW = 16"

subsection \<open>The queries\<close>

type_synonym keyset = "instant \<times> text_bytes"

definition below :: "keyset option \<Rightarrow> keyset \<Rightarrow> bool" where
  "below bound k \<longleftrightarrow> (case bound of None \<Rightarrow> True | Some b \<Rightarrow> k < b)"

definition finished_key :: "sync_run \<Rightarrow> keyset option" where
  "finished_key r = (if sr_status r = ''success''
     then map_option (\<lambda>f. (f, sr_id r)) (sr_finished r) else None)"

definition open_candidate :: "attempt_row \<Rightarrow> bool" where
  "open_candidate a \<longleftrightarrow> a_status a = Preparing \<and> a_published_at a = None \<and> a_closed_at a \<noteq> None"

definition has_open :: "export_db \<Rightarrow> text_bytes \<Rightarrow> bool" where
  "has_open db r \<longleftrightarrow> list_ex (\<lambda>a. a_run a = r \<and> open_candidate a) (attempts db)"

definition descending :: "keyset list \<Rightarrow> keyset list" where
  "descending ks = rev (sort ks)"

definition fresh_runs :: "keyset option \<Rightarrow> export_db \<Rightarrow> keyset list" where
  "fresh_runs bound db =
     descending (filter (below bound) (List.map_filter finished_key
       (filter (\<lambda>r. has_open db (sr_id r)) (runs (sync db)))))"

definition fresh_run_window :: "keyset option \<Rightarrow> nat \<Rightarrow> export_db \<Rightarrow> keyset list" where
  "fresh_run_window bound n db = take n (fresh_runs bound db)"

text \<open>The key of an attempt the fresh query selects: when its run finished, and its id.\<close>

definition fresh_key :: "export_db \<Rightarrow> text_bytes list \<Rightarrow> attempt_row \<Rightarrow> (keyset \<times> attempt_row) option" where
  "fresh_key db window a =
     (if a_run a \<in> set window \<and> open_candidate a \<and> no_generation db (a_id a)
         \<and> row_of p_attempt (a_id a) (plans db) \<noteq> None \<and> currently_owned (owners db) a
      then case run_at (a_run a) db of None \<Rightarrow> None
        | Some r \<Rightarrow> map_option (\<lambda>k. ((fst k, a_id a), a)) (finished_key r)
      else None)"

definition fresh_rows :: "text_bytes list \<Rightarrow> keyset option \<Rightarrow> export_db \<Rightarrow> (keyset \<times> attempt_row) list" where
  "fresh_rows window bound db =
     rev (sort_key fst (filter (\<lambda>r. below bound (fst r)) (List.map_filter (fresh_key db window) (attempts db))))"

subsection \<open>The loop over windows and pages\<close>

record 'w fresh_state =
  fs_total :: nat
  fs_after :: "keyset option"
  fs_window :: "keyset list option"
  fs_window_after :: "keyset option"
  fs_more :: bool
  fs_tally :: tally
  fs_world :: 'w

text \<open>One round; \<open>False\<close> ends the loop.\<close>

definition fresh_page ::
  "'a publisher_world_scheme reading \<Rightarrow> 'a publisher_world_scheme processing \<Rightarrow> instant \<Rightarrow> nat \<Rightarrow> nat \<Rightarrow> nat \<Rightarrow>
   'a publisher_world_scheme fresh_state \<Rightarrow> (candidate_failure + bool) \<times> 'a publisher_world_scheme fresh_state" where
  "fresh_page read process deadline limit most width s =
     (case read (fs_world s) of
        (Some f, w) \<Rightarrow> (Inl f, s\<lparr>fs_world := w\<rparr>)
      | (None, w) \<Rightarrow>
          let window = (case fs_window s of Some ks \<Rightarrow> ks | None \<Rightarrow> fresh_run_window (fs_window_after s) width (pw_db w))
          in if fs_window s = None \<and> window = [] then (Inr False, s\<lparr>fs_world := w\<rparr>)
             else
               let rows = take (min limit (most - fs_total s)) (fresh_rows (map snd window) (fs_after s) (pw_db w))
               in if rows = [] then
                    (Inr True, s\<lparr>fs_window_after := Some (List.last window), fs_window := None, fs_after := None,
                                 fs_world := w\<rparr>)
                  else case drain process deadline (map (candidate_of (pw_db w) \<circ> snd) rows) (fs_tally s, w) of
                    ((processed, _), t, w') \<Rightarrow>
                      (Inr (processed = length rows),
                       s\<lparr>fs_window := Some window, fs_total := fs_total s + processed,
                         fs_after := (if processed = 0 then fs_after s else Some (fst (rows ! (processed - 1)))),
                         fs_more := (processed < length rows \<or> fs_more s), fs_tally := t, fs_world := w'\<rparr>))"

partial_function (option) fresh_loop ::
  "'a publisher_world_scheme reading \<Rightarrow> 'a publisher_world_scheme processing \<Rightarrow> instant \<Rightarrow> nat \<Rightarrow> nat \<Rightarrow> nat \<Rightarrow>
   'a publisher_world_scheme fresh_state \<Rightarrow>
   (candidate_failure option \<times> 'a publisher_world_scheme fresh_state) option" where
  "fresh_loop read process deadline limit most width s =
     (if fs_total s < most \<and> \<not> tl_stopped (fs_tally s) \<and> pw_clock (fs_world s) < deadline
      then case fresh_page read process deadline limit most width s of
          (Inl f, s') \<Rightarrow> Some (Some f, s')
        | (Inr again, s') \<Rightarrow> if again then fresh_loop read process deadline limit most width s' else Some (None, s')
      else Some (None, s))"

definition fresh_start :: "tally \<Rightarrow> 'w \<Rightarrow> 'w fresh_state" where
  "fresh_start t w =
     \<lparr>fs_total = 0, fs_after = None, fs_window = None, fs_window_after = None, fs_more = False,
      fs_tally = t, fs_world = w\<rparr>"

text \<open>
  \<open>publish_fresh_exports\<close> with the tally of its tick; a failed read leaves the tally as the pages
  before it left it.
\<close>

definition publish_fresh_exports ::
  "'a publisher_world_scheme reading \<Rightarrow> 'a publisher_world_scheme processing \<Rightarrow>
   int \<Rightarrow> int \<Rightarrow> int \<Rightarrow> int \<Rightarrow> tally \<Rightarrow> 'a publisher_world_scheme \<Rightarrow>
   ((candidate_failure + progress) \<times> tally \<times> 'a publisher_world_scheme) option" where
  "publish_fresh_exports read process budget limit most width t w =
     (if \<not> (1 \<le> limit \<and> limit \<le> MAX_CANDIDATE_PAGE) \<or> \<not> (0 < budget \<and> budget \<le> seconds 60) \<or> most < 1
         \<or> \<not> (1 \<le> width \<and> width \<le> MAX_FRESH_RUN_WINDOW)
      then Some (Inl (Code_Failure ''ValueError''), t, w)
      else case fresh_loop read process (pw_clock w + budget) (nat limit) (nat most) (nat width) (fresh_start t w) of
          None \<Rightarrow> None
        | Some (Some f, s) \<Rightarrow> Some (Inl f, fs_tally s, fs_world s)
        | Some (None, s) \<Rightarrow>
            Some (Inr \<lparr>pg_processed = fs_total s, pg_results = tl_results (fs_tally s) - tl_results t,
                       pg_next = None, pg_more = fs_more s, pg_reasons = tl_reasons (fs_tally s) - tl_reasons t\<rparr>,
                  fs_tally s, fs_world s))"

subsection \<open>What the queries return\<close>

definition fresh_ready :: "text_bytes \<Rightarrow> keyset \<Rightarrow> export_db \<Rightarrow> bool" where
  "fresh_ready i k db \<longleftrightarrow>
     list_ex (\<lambda>a. a_id a = i \<and> a_run a = snd k \<and> fresh_key db [snd k] a \<noteq> None) (attempts db)
     \<and> (case run_at (snd k) db of None \<Rightarrow> False | Some r \<Rightarrow> finished_key r = Some k)"

lemma finished_key_id: "finished_key r = Some k \<Longrightarrow> snd k = sr_id r"
  by (auto simp: finished_key_def split: if_splits)

lemma map_filter_in: "y \<in> set (List.map_filter f xs) \<longleftrightarrow> (\<exists>x\<in>set xs. f x = Some y)"
  by (simp add: map_filter_set)

lemma set_descending [simp]: "set (descending ks) = set ks" "descending ks = [] \<longleftrightarrow> ks = []"
  by (simp_all add: descending_def) (metis set_empty set_sort)

lemma ready_run_listed:
  assumes "fresh_ready i k db" "below b k"
  shows "k \<in> set (fresh_runs b db)"
proof -
  from assms(1) obtain r where r: "run_at (snd k) db = Some r" "finished_key r = Some k"
    by (auto simp: fresh_ready_def split: option.splits)
  have "r \<in> set (runs (sync db))" using r(1) by (auto dest: row_of_SomeD)
  moreover have "has_open db (sr_id r)"
    using assms(1) finished_key_id [OF r(2)] by (auto simp: fresh_ready_def has_open_def fresh_key_def list_ex_iff split: if_splits)
  ultimately show ?thesis using r(2) assms(2) by (auto simp: fresh_runs_def map_filter_in intro!: bexI [of _ r])
qed

lemma descending_take:
  assumes "k \<in> set F" "F = descending ks" "0 < n"
  shows "take n F \<noteq> []" "k \<in> set (take n F) \<or> k < List.last (take n F)"
proof -
  show ne: "take n F \<noteq> []" using assms by auto
  have sorted: "sorted (rev F)" by (simp add: assms(2) descending_def)
  then have mono: "a < length F \<Longrightarrow> b \<le> a \<Longrightarrow> F ! a \<le> F ! b" for a b
    using sorted_rev_nth_mono [OF sorted, of b a] by simp
  from assms(1) obtain j where j: "j < length F" "k = F ! j" by (auto simp: in_set_conv_nth)
  show "k \<in> set (take n F) \<or> k < List.last (take n F)"
  proof (cases "k \<in> set (take n F)")
    case False
    have "n \<le> j"
    proof (rule ccontr)
      assume "\<not> n \<le> j"
      with j have "j < length (take n F)" "take n F ! j = k" by simp_all
      then have "k \<in> set (take n F)" by (metis nth_mem)
      with False show False by contradiction
    qed
    with j assms(3) have "List.last (take n F) = F ! (n - 1)" by (simp add: last_conv_nth [OF ne] min_absorb2)
    with mono [of j "n - 1"] j \<open>n \<le> j\<close> have "k \<le> List.last (take n F)" by simp
    moreover have "k \<noteq> List.last (take n F)" using False last_in_set [OF ne] by metis
    ultimately show ?thesis by (blast intro: order.not_eq_order_implies_strict)
  qed simp
qed

lemma ready_row_listed:
  assumes "fresh_ready i k db" "snd k \<in> set window" "below b (fst k, i)"
  shows "\<exists>a. ((fst k, i), a) \<in> set (fresh_rows window b db)"
proof -
  from assms(1) obtain a where a: "a \<in> set (attempts db)" "a_id a = i" "a_run a = snd k" "fresh_key db [snd k] a \<noteq> None"
    by (auto simp: fresh_ready_def list_ex_iff)
  moreover from assms(1) obtain r where "run_at (snd k) db = Some r" "finished_key r = Some k"
    by (auto simp: fresh_ready_def split: option.splits)
  ultimately have "fresh_key db window a = Some ((fst k, i), a)"
    using assms(2) by (auto simp: fresh_key_def split: if_splits)
  with a(1) assms(3) show ?thesis by (auto simp: fresh_rows_def map_filter_in intro!: exI [of _ a] bexI [of _ a])
qed

lemma fresh_rows_id: "r \<in> set (fresh_rows window b db) \<Longrightarrow> snd (fst r) = a_id (snd r)"
  by (auto simp: fresh_rows_def map_filter_in fresh_key_def split: if_splits option.splits)

lemma fresh_rows_order:
  assumes "j < length (fresh_rows window b db)" "m \<le> j"
  shows "fst (fresh_rows window b db ! j) \<le> fst (fresh_rows window b db ! m)"
proof -
  let ?R = "fresh_rows window b db"
  have "sorted (rev (map fst ?R))" by (simp add: fresh_rows_def rev_map)
  from sorted_rev_nth_mono [OF this assms(2)] assms show ?thesis by simp
qed


subsection \<open>The loop loses no ready attempt\<close>

definition fresh_inv :: "text_bytes \<Rightarrow> keyset \<Rightarrow> 'a publisher_world_scheme fresh_state \<Rightarrow> bool" where
  "fresh_inv i k s \<longleftrightarrow> i \<in> set (tl_seen (fs_tally s))
     \<or> fresh_ready i k (pw_db (fs_world s)) \<and> below (fs_window_after s) k
       \<and> (case fs_window s of None \<Rightarrow> fs_after s = None
          | Some W \<Rightarrow> W \<noteq> [] \<and> (snd k \<in> snd ` set W \<longrightarrow> below (fs_after s) (fst k, i))
              \<and> (k \<notin> set W \<longrightarrow> k < List.last W))"

lemma fresh_page_Inr:
  assumes "fresh_page read process d limit most width s = (Inr again, s')"
  obtains w where "read (fs_world s) = (None, w)"
  using assms by (auto simp: fresh_page_def split: prod.splits option.splits)

lemma fresh_page_seen_mono:
  assumes page: "fresh_page read process d limit most width s = (r, s')"
  shows "set (tl_seen (fs_tally s)) \<subseteq> set (tl_seen (fs_tally s'))"
proof -
  obtain f w where w: "read (fs_world s) = (f, w)" by fastforce
  show ?thesis
  proof (cases f)
    case (Some e)
    with page w show ?thesis by (auto simp: fresh_page_def)
  next
    case None
    define W where "W = (case fs_window s of Some ks \<Rightarrow> ks | None \<Rightarrow> fresh_run_window (fs_window_after s) width (pw_db w))"
    define rows where "rows = take (min limit (most - fs_total s)) (fresh_rows (map snd W) (fs_after s) (pw_db w))"
    obtain m x t' w' where drained:
      "drain process d (map (candidate_of (pw_db w) \<circ> snd) rows) (fs_tally s, w) = ((m, x), (t', w'))"
      by (metis prod.exhaust)
    have "fs_tally s' = fs_tally s \<or> fs_tally s' = t'"
      using page unfolding fresh_page_def w None option.case prod.case Let_def W_def [symmetric] rows_def [symmetric] drained
      by (simp split: if_splits) (force simp: prod_eq_iff)+
    with drain_seen_mono [OF drained] show ?thesis by auto
  qed
qed

lemma drained_rows_cover:
  assumes drained: "drain process d (map (candidate_of db \<circ> snd) (take n R)) (t, w) = ((m, x), (t', w'))"
    and R: "R = fresh_rows window b db" and row: "((fst k, i), a) \<in> set R" and n: "take n R \<noteq> []"
  shows "i \<in> set (tl_seen t') \<or> (if m = 0 then True else below (Some (fst (take n R ! (m - 1)))) (fst k, i))"
proof (cases "m = 0 \<or> i \<in> set (tl_seen t')")
  case False
  then have m: "0 < m" and unseen: "i \<notin> set (tl_seen t')" by auto
  from drain_spec [OF drained] have "m \<le> length (take n R)"
    and seen: "set (tl_seen t') = cd_id ` set (take m (map (candidate_of db \<circ> snd) (take n R))) \<union> set (tl_seen t)"
    by auto
  then have le: "m \<le> length R" "m \<le> n" by auto
  have visited: "a_id (snd (R ! q)) \<in> set (tl_seen t')" if "q < m" for q
  proof -
    have "candidate_of db (snd (R ! q)) \<in> set (take m (map (candidate_of db \<circ> snd) (take n R)))"
      using nth_in_take [of q m "map (candidate_of db \<circ> snd) (take n R)"] that le by simp
    then show ?thesis using seen by (force simp: candidate_of_def)
  qed
  from row obtain j where j: "j < length R" "R ! j = ((fst k, i), a)" by (auto simp: in_set_conv_nth)
  have "a_id a = i" using fresh_rows_id [of "((fst k, i), a)" window b db] row R by simp
  with visited [of j] j unseen have "m \<le> j" by (auto simp: not_less [symmetric])
  with fresh_rows_order [of j window b db "m - 1"] j R have "(fst k, i) \<le> fst (R ! (m - 1))" by auto
  moreover have "snd (fst (R ! (m - 1))) \<in> set (tl_seen t')"
    using visited [of "m - 1"] fresh_rows_id [of "R ! (m - 1)" window b db] m le R by simp
  with unseen have "fst (R ! (m - 1)) \<noteq> (fst k, i)" by (metis snd_conv)
  ultimately show ?thesis using m le by (simp add: below_def order_le_neq_trans)
qed auto


lemma fresh_page_keeps:
  fixes process :: "'a publisher_world_scheme processing"
  assumes page: "fresh_page read process d limit most width s = (Inr again, s')"
    and reads: "\<And>w. fresh_ready i k (pw_db w) \<Longrightarrow> fresh_ready i k (pw_db (snd (read w)))"
    and others: "\<And>c w. cd_id c \<noteq> i \<Longrightarrow> fresh_ready i k (pw_db w) \<Longrightarrow> fresh_ready i k (pw_db (snd (process c w)))"
    and bounds: "0 < limit" "0 < width" "fs_total s < most" and inv: "fresh_inv i k s"
  shows "fresh_inv i k s' \<and> (\<not> again \<longrightarrow> fs_more s' \<or> i \<in> set (tl_seen (fs_tally s')))"
proof -
  from page obtain w where w: "read (fs_world s) = (None, w)" by (rule fresh_page_Inr)
  define W where "W = (case fs_window s of Some ks \<Rightarrow> ks | None \<Rightarrow> fresh_run_window (fs_window_after s) width (pw_db w))"
  define R where "R = fresh_rows (map snd W) (fs_after s) (pw_db w)"
  let ?n = "min limit (most - fs_total s)"
  have n: "0 < ?n" using bounds by simp
  note page' = page [unfolded fresh_page_def w, simplified, folded W_def, unfolded Let_def, folded W_def R_def]
  show ?thesis
  proof (cases "i \<in> set (tl_seen (fs_tally s))")
    case True
    with fresh_page_seen_mono [OF page] show ?thesis by (auto simp: fresh_inv_def)
  next
    case unseen: False
    with inv have ready0: "fresh_ready i k (pw_db (fs_world s))" and before: "below (fs_window_after s) k"
      by (auto simp: fresh_inv_def)
    from reads [OF ready0] w have ready: "fresh_ready i k (pw_db w)" by simp
    have W: "W \<noteq> []" "snd k \<in> snd ` set W \<Longrightarrow> below (fs_after s) (fst k, i)" "k \<notin> set W \<Longrightarrow> k < List.last W"
    proof -
      have "W \<noteq> [] \<and> (snd k \<in> snd ` set W \<longrightarrow> below (fs_after s) (fst k, i)) \<and> (k \<notin> set W \<longrightarrow> k < List.last W)"
      proof (cases "fs_window s")
        case None
        then have "W = take width (fresh_runs (fs_window_after s) (pw_db w))" "fs_after s = None"
          using inv unseen by (auto simp: W_def fresh_run_window_def fresh_inv_def)
        with descending_take [OF ready_run_listed [OF ready before] fresh_runs_def bounds(2)]
        show ?thesis by (auto simp: below_def)
      next
        case (Some ks)
        with inv unseen show ?thesis by (auto simp: W_def fresh_inv_def)
      qed
      then show "W \<noteq> []" "snd k \<in> snd ` set W \<Longrightarrow> below (fs_after s) (fst k, i)" "k \<notin> set W \<Longrightarrow> k < List.last W" by auto
    qed
    show ?thesis
    proof (cases "take ?n R = []")
      case True
      with n have "R = []" by auto
      with ready_row_listed [OF ready, of "map snd W" "fs_after s"] W(2) have "snd k \<notin> snd ` set W" by (auto simp: R_def)
      then have "k < List.last W" using W(3) by force
      with page' W(1) True ready show ?thesis by (auto simp: fresh_inv_def below_def)
    next
      case False
      obtain m x t' w' where drained:
        "drain process d (map (candidate_of (pw_db w) \<circ> snd) (take ?n R)) (fs_tally s, w) = ((m, x), (t', w'))"
        by (metis prod.exhaust)
      have s': "s' = s\<lparr>fs_window := Some W, fs_total := fs_total s + m,
          fs_after := (if m = 0 then fs_after s else Some (fst (take ?n R ! (m - 1)))),
          fs_more := (m < length (take ?n R) \<or> fs_more s), fs_tally := t', fs_world := w'\<rparr>"
        and again: "again \<longleftrightarrow> m = length (take ?n R)"
        using page' W(1) False drained by (auto split: if_splits)
      have le: "m \<le> length (take ?n R)" using drain_spec [OF drained] by simp
      have kept: "i \<in> set (tl_seen t') \<or> fresh_ready i k (pw_db w')"
        using drain_keeps [of i "\<lambda>w. fresh_ready i k (pw_db w)" process "(fs_tally s, w)", OF others _ drained] ready
        by auto
      have position: "i \<in> set (tl_seen t') \<or> (snd k \<in> snd ` set W \<longrightarrow> below (fs_after s') (fst k, i))"
      proof (cases "snd k \<in> snd ` set W")
        case inside: True
        with ready_row_listed [OF ready _ W(2), of "map snd W"] obtain a where "((fst k, i), a) \<in> set R"
          by (auto simp: R_def)
        from drained_rows_cover [OF drained R_def this False] W(2) inside show ?thesis by (auto simp: s' split: if_splits)
      qed simp
      have fields: "fs_tally s' = t'" "fs_world s' = w'" "fs_window s' = Some W" "fs_window_after s' = fs_window_after s"
        by (simp_all add: s')
      have "fresh_inv i k s'"
        using kept position before W(1,3) unfolding fresh_inv_def fields by simp blast
      moreover have "fs_more s'" if "\<not> again"
      proof -
        from le again that have "m < length (take ?n R)" by (metis le_neq_implies_less)
        then show ?thesis by (simp add: s')
      qed
      ultimately show ?thesis by blast
    qed
  qed
qed


lemma fresh_page_room:
  assumes "fresh_page read process d limit most width s = (r, s')" "fs_total s \<le> most"
  shows "fs_total s \<le> fs_total s' \<and> fs_total s' \<le> most"
proof -
  obtain f w where w: "read (fs_world s) = (f, w)" by fastforce
  show ?thesis
  proof (cases f)
    case (Some e)
    with assms w show ?thesis by (auto simp: fresh_page_def)
  next
    case None
    define W where "W = (case fs_window s of Some ks \<Rightarrow> ks | None \<Rightarrow> fresh_run_window (fs_window_after s) width (pw_db w))"
    define rows where "rows = take (min limit (most - fs_total s)) (fresh_rows (map snd W) (fs_after s) (pw_db w))"
    obtain m x t' w' where drained:
      "drain process d (map (candidate_of (pw_db w) \<circ> snd) rows) (fs_tally s, w) = ((m, x), (t', w'))"
      by (metis prod.exhaust)
    have "fs_total s' = fs_total s \<or> fs_total s' = fs_total s + m"
      using assms(1) unfolding fresh_page_def w None option.case prod.case Let_def W_def [symmetric] rows_def [symmetric] drained
      by (simp split: if_splits) (force simp: prod_eq_iff)+
    moreover have "m \<le> most - fs_total s" using drain_spec [OF drained] by (auto simp: rows_def)
    ultimately show ?thesis using assms(2) by auto
  qed
qed

definition fresh_lossless ::
  "text_bytes \<Rightarrow> keyset \<Rightarrow> 'a publisher_world_scheme reading \<Rightarrow> 'a publisher_world_scheme processing \<Rightarrow> bool" where
  "fresh_lossless i k read process \<longleftrightarrow>
     (\<forall>w. fresh_ready i k (pw_db w) \<longrightarrow> fresh_ready i k (pw_db (snd (read w))))
     \<and> (\<forall>c w. cd_id c \<noteq> i \<and> fresh_ready i k (pw_db w) \<longrightarrow> fresh_ready i k (pw_db (snd (process c w))))"

definition fresh_done :: "text_bytes \<Rightarrow> instant \<Rightarrow> nat \<Rightarrow> candidate_failure option \<times> 'a publisher_world_scheme fresh_state \<Rightarrow> bool" where
  "fresh_done i d most y \<longleftrightarrow> fst y \<noteq> None \<or> i \<in> set (tl_seen (fs_tally (snd y))) \<or> fs_more (snd y)
     \<or> most \<le> fs_total (snd y) \<or> tl_stopped (fs_tally (snd y)) \<or> d \<le> pw_clock (fs_world (snd y))"

lemma fresh_loop_keeps:
  fixes process :: "'a publisher_world_scheme processing"
  assumes "fresh_loop read process d limit most width s = Some y"
    and "fresh_lossless i k read process" "0 < limit" "0 < width" "fresh_inv i k s"
  shows "fresh_done i d most y"
proof -
  let ?P = "\<lambda>read process d limit most width s y. fresh_lossless i k read process \<longrightarrow> 0 < limit \<longrightarrow> 0 < width \<longrightarrow>
    fresh_inv i k s \<longrightarrow> fresh_done i d most y"
  have "?P read process d limit most width s y"
  proof (rule fresh_loop.raw_induct [where P = ?P, OF _ assms(1)], intro impI, goal_cases)
    case (1 loop read process d limit most width s y)
    show ?case
    proof (cases "fs_total s < most \<and> \<not> tl_stopped (fs_tally s) \<and> pw_clock (fs_world s) < d")
      case False
      with 1(2) show ?thesis by (auto simp: fresh_done_def)
    next
      case True
      obtain r t where page: "fresh_page read process d limit most width s = (r, t)" by fastforce
      show ?thesis
      proof (cases r)
        case (Inl f)
        with True page 1(2) show ?thesis by (auto simp: fresh_done_def)
      next
        case (Inr again)
        with page have page: "fresh_page read process d limit most width s = (Inr again, t)" by simp
        have kept: "fresh_inv i k t \<and> (\<not> again \<longrightarrow> fs_more t \<or> i \<in> set (tl_seen (fs_tally t)))"
          using 1(3-6) True by (intro fresh_page_keeps [OF page]) (auto simp: fresh_lossless_def)
        show ?thesis
        proof (cases again)
          case go: True
          with True page 1(2) have "loop read process d limit most width t = Some y" by simp
          from 1(1) [OF this] 1(3-5) kept show ?thesis by blast
        next
          case False
          with True page 1(2) have "y = (None, t)" by simp
          with kept False show ?thesis by (auto simp: fresh_done_def)
        qed
      qed
    qed
  qed
  with assms show ?thesis by blast
qed

lemma drain_world_rel:
  fixes process :: "'a publisher_world_scheme processing"
  assumes "\<And>c w. pw_clock w \<le> pw_clock (snd (process c w))" "drain process d rows s = (x, s')"
  shows "pw_clock (snd s) \<le> pw_clock (snd s')"
  using drain_clock_mono [of process d rows "fst s" "snd s" x "fst s'" "snd s'"] assms by auto

lemma fresh_page_clock:
  fixes process :: "'a publisher_world_scheme processing"
  assumes page: "fresh_page read process d limit most width s = (r, s')"
    and clock: "\<And>w. pw_clock w < pw_clock (snd (read w))" "\<And>c w. pw_clock w \<le> pw_clock (snd (process c w))"
  shows "pw_clock (fs_world s) < pw_clock (fs_world s')"
proof -
  obtain f w where w: "read (fs_world s) = (f, w)" by fastforce
  then have later: "pw_clock (fs_world s) < pw_clock w" using clock(1) [of "fs_world s"] by simp
  show ?thesis
  proof (cases f)
    case (Some e)
    with page w later show ?thesis by (auto simp: fresh_page_def)
  next
    case None
    define W where "W = (case fs_window s of Some ks \<Rightarrow> ks | None \<Rightarrow> fresh_run_window (fs_window_after s) width (pw_db w))"
    define rows where "rows = take (min limit (most - fs_total s)) (fresh_rows (map snd W) (fs_after s) (pw_db w))"
    obtain m x t' w' where drained:
      "drain process d (map (candidate_of (pw_db w) \<circ> snd) rows) (fs_tally s, w) = ((m, x), (t', w'))"
      by (metis prod.exhaust)
    have "fs_world s' = w \<or> fs_world s' = w'"
      using page unfolding fresh_page_def w None option.case prod.case Let_def W_def [symmetric] rows_def [symmetric] drained
      by (simp split: if_splits) (force simp: prod_eq_iff)+
    with later drain_world_rel [OF clock(2) drained] show ?thesis by auto
  qed
qed

lemma fresh_loop_returns:
  fixes process :: "'a publisher_world_scheme processing"
  assumes clock: "\<And>w. pw_clock w < pw_clock (snd (read w))" "\<And>c w. pw_clock w \<le> pw_clock (snd (process c w))"
  shows "\<exists>y. fresh_loop read process d limit most width s = Some y"
proof (induction "nat (d - pw_clock (fs_world s))" arbitrary: s rule: less_induct)
  case less
  show ?case
  proof (cases "fs_total s < most \<and> \<not> tl_stopped (fs_tally s) \<and> pw_clock (fs_world s) < d")
    case False
    then show ?thesis by (subst fresh_loop.simps) auto
  next
    case True
    obtain r t where page: "fresh_page read process d limit most width s = (r, t)" by fastforce
    have "nat (d - pw_clock (fs_world t)) < nat (d - pw_clock (fs_world s))"
      using fresh_page_clock [OF page clock] True by simp
    from less [OF this] True page show ?thesis by (subst fresh_loop.simps) (auto split: sum.split)
  qed
qed

text \<open>C25: The fresh phase misses no run.  An attempt that the fresh query could select all along
(its run succeeded, its plan is closed, it is the current owner of its sources) has been processed
when the phase ends for lack of candidates: before its deadline, under its candidate limit, not
stopped by database failures.  This holds whatever the processing of the others does to their own
attempts, for every page limit and window width.\<close>

theorem fresh_phase_misses_no_run:
  assumes "publish_fresh_exports read process budget limit most width t w = Some (Inr p, t', w')"
    and "fresh_ready i k (pw_db w)"
    and "\<And>w. fresh_ready i k (pw_db w) \<Longrightarrow> fresh_ready i k (pw_db (snd (read w)))"
    and "\<And>c w. cd_id c \<noteq> i \<Longrightarrow> fresh_ready i k (pw_db w) \<Longrightarrow> fresh_ready i k (pw_db (snd (process c w)))"
    and "\<not> pg_more p" "int (pg_processed p) < most" "\<not> tl_stopped t'" "pw_clock w' < pw_clock w + budget"
  shows "i \<in> set (tl_seen t')"
proof -
  obtain s where loop: "fresh_loop read process (pw_clock w + budget) (nat limit) (nat most) (nat width) (fresh_start t w)
      = Some (None, s)"
    and bounds: "0 < nat limit" "0 < nat width"
    and s: "fs_tally s = t'" "fs_world s = w'" "fs_more s = pg_more p" "fs_total s = pg_processed p"
    using assms(1) by (auto simp: publish_fresh_exports_def split: if_splits option.splits prod.splits)
  have "fresh_inv i k (fresh_start t w)" using assms(2) by (simp add: fresh_inv_def fresh_start_def below_def)
  moreover have "fresh_lossless i k read process" using assms(3,4) by (simp add: fresh_lossless_def)
  ultimately have "fresh_done i (pw_clock w + budget) (nat most) (None, s)"
    using fresh_loop_keeps [OF loop] bounds by blast
  with assms(5-8) s show ?thesis by (auto simp: fresh_done_def)
qed

text \<open>The fresh phase returns: on a clock that every query moves, the loop over windows and
pages ends, whatever the candidates do.\<close>

theorem fresh_phase_returns:
  assumes "\<And>w. pw_clock w < pw_clock (snd (read w))" "\<And>c w. pw_clock w \<le> pw_clock (snd (process c w))"
  shows "\<exists>r. publish_fresh_exports read process budget limit most width t w = Some r"
  using fresh_loop_returns [where read = read and process = process and d = "pw_clock w + budget" and limit = "nat limit"
      and most = "nat most" and width = "nat width" and s = "fresh_start t w", OF assms]
  by (auto simp: publish_fresh_exports_def split: option.split prod.split)

end
