(* ===== verification/Publisher_Tick.thy ===== *)
theory Publisher_Tick
  imports Publisher_Fresh Export_Example
begin

section \<open>One evaluation of the publisher sensor (export_publisher.py)\<close>

text \<open>
  The tick retires, promotes the fresh attempts, sweeps the rest, refreshes the daily summaries and
  collects the files, in this order and under one deadline.  The stages that are modelled elsewhere
  or not at all (retiring, daily summaries, garbage collection) are arguments: what they do to the
  world and how they fail.
\<close>

subsection \<open>The processing of a candidate, as the tick runs it\<close>

text \<open>
  The exceptions of the modules are \<open>ExportArtifactError\<close>, apart from \<open>ValueError\<close>, \<open>KeyError\<close> and
  the integrity errors of the database.
\<close>

fun failure_of :: "export_error \<Rightarrow> candidate_failure" where
  "failure_of Key_Missing = Code_Failure ''KeyError''"
| "failure_of Value_Error = Code_Failure ''ValueError''"
| "failure_of (Kma_Error _) = Code_Failure ''ValueError''"
| "failure_of Integrity_Violation = Database_Failure False (Some ''23505'') ''IntegrityError''"
| "failure_of _ = File_Failure"

text \<open>\<open>trouble\<close> is a failure the services raise before the candidate's first transaction commits.\<close>

definition candidate_process ::
  "(export_attempt \<Rightarrow> export_db \<Rightarrow> (export_error + promotion_result) \<times> export_db) \<Rightarrow> orchestrator \<Rightarrow>
   (candidate \<Rightarrow> candidate_failure option) \<Rightarrow> (candidate \<Rightarrow> nat) \<Rightarrow> (export_db \<Rightarrow> export_db) \<Rightarrow> bool \<Rightarrow>
   'a publisher_world_scheme processing" where
  "candidate_process publish status trouble elapsed other current_owner c w =
     (let w1 = w\<lparr>pw_clock := pw_clock w + int (elapsed c)\<rparr> in
      case trouble c of
        Some f \<Rightarrow> (Inl f, w1)
      | None \<Rightarrow>
          (case process_candidate publish status (pw_clock w) other current_owner c (pw_db w) of
             (Inl e, db) \<Rightarrow> (Inl (failure_of e), w1\<lparr>pw_db := db\<rparr>)
           | (Inr outcome, db) \<Rightarrow> (Inr outcome, w1\<lparr>pw_db := db\<rparr>)))"

text \<open>Processing one candidate leaves the others waiting, when the promotion and the rest of the system do.\<close>

lemma retire_waiting:
  assumes "waiting i db" "i \<notin> set ids"
  shows "waiting i (retire ids code owner db)"
  using assms by (auto simp: waiting_def retire_def no_generation_def is_pending_def list_ex_iff update_where_def)

lemma waiting_sync [simp]: "waiting i (db\<lparr>sync := s\<rparr>) = waiting i db"
  by (simp add: waiting_def no_generation_def)

lemma publisher_terminal_waiting:
  assumes "waiting i db" "at_id identity \<noteq> i" "\<And>d. waiting i d \<Longrightarrow> waiting i (other d)"
  shows "waiting i (snd (publisher_terminal identity status now other db))"
proof -
  have begun: "waiting i d'" if "terminal_begin identity db = Inr (x, d')" for x d'
    using that assms(1,2) by (auto simp: terminal_begin_def intro!: retire_waiting split: sum.splits if_splits)
  have finished: "waiting i d'" if "terminal_finish identity a s now d = Inr (x, d')" "waiting i d" for a s x d d'
    using that assms(2) by (auto simp: terminal_finish_def intro!: retire_waiting split: sum.splits if_splits)
  show ?thesis
    using assms begun finished unfolding publisher_terminal_def
    by (fastforce split: sum.split option.split prod.split)
qed

lemma process_candidate_waiting:
  assumes wait: "waiting i db" and other_id: "cd_id c \<noteq> i"
    and kept: "\<And>d. waiting i d \<Longrightarrow> waiting i (other d)"
    and publish: "\<And>a d. at_id a \<noteq> i \<Longrightarrow> waiting i d \<Longrightarrow> waiting i (snd (publish a d))"
  shows "waiting i (snd (process_candidate publish status now other co c db))"
proof -
  note terminal = publisher_terminal_waiting [where i = i and identity = "cd_attempt c" and other = other, OF _ other_id kept]
  have t: "waiting i d'" if "publisher_terminal (cd_attempt c) status now other d = (x, d')" "waiting i d" for x d d'
    using terminal [OF that(2), of status now] that(1) by simp
  have p: "waiting i d'" if "publish (cd_attempt c) d = (x, d')" "waiting i d" for x d d'
    using publish [OF other_id that(2)] that(1) by simp
  show ?thesis
    using wait unfolding process_candidate_def Let_def
    by (auto split: sum.splits option.splits prod.splits dest!: t p)
qed

lemma waiting_cong:
  "attempts db = attempts db' \<Longrightarrow> generations db = generations db' \<Longrightarrow> waiting i db = waiting i db'"
  by (simp add: waiting_def no_generation_def)

lemma waiting_update_other:
  assumes "waiting i db" "generations db' = generations db" "attempts db' = update_where P f (attempts db)"
    "\<And>a. P a \<Longrightarrow> a_id a \<noteq> i"
  shows "waiting i db'"
  using assms by (auto simp: waiting_def no_generation_def list_ex_iff update_where_def)

lemma reconcile_waiting:
  assumes "waiting i db" "at_id identity \<noteq> i" "\<And>d. waiting i d \<Longrightarrow> waiting i (other d)"
    "reconcile sha dir seen status identity n now other db = (r, v, db')"
  shows "waiting i db'"
proof -
  have finished: "waiting i d'" if "reconcile_finish identity t rs now d = Inr (x, d')" "waiting i d" for t rs d x d'
    using reconcile_finish_Inr [OF that(1)] that(2) assms(2)
    by (elim exE conjE disjE) (auto intro: waiting_update_other simp: waiting_cong [of "d\<lparr>validated := _\<rparr>" d])
  show ?thesis
    using assms(4) assms(1,3) finished unfolding reconcile_def
    by (fastforce simp: Let_def split: sum.splits option.splits prod.splits if_splits)
qed

lemma publishes_waiting:
  assumes "publishes env dir identity pr ex g now db db'" "waiting i db" "at_id identity \<noteq> i"
  shows "waiting i db'"
proof -
  obtain token rows published old where db': "db' = finish_publication identity published
      ((publish_rows identity pr ex g token old published db)\<lparr>inventory := rows\<rparr>)"
    using assms(1) by (auto simp: publishes_def Let_def)
  have "row_of g_attempt i (generations db @ [new_generation identity pr ex g token p published]) = None"
    if "row_of g_attempt i (generations db) = None" for p
    using that assms(3) by (simp add: row_of_append row_of_Cons new_generation_def)
  then show ?thesis
    using assms(2,3) by (auto simp: db' waiting_def no_generation_def finish_publication_def publish_rows_def
        list_ex_iff update_where_def)
qed

lemma promote_waiting:
  assumes wait: "waiting i db" and other_id: "at_id identity \<noteq> i"
    and kept: "\<And>d. waiting i d \<Longrightarrow> waiting i (other d)"
  shows "waiting i (snd (promote env dir dir' status identity g now other other other other db))"
proof -
  have r: "waiting i d'" if "reconcile (he_sha256 env) dir (Some []) status identity 8 now other d = (x, v, d')" "waiting i d"
    for x v d d'
    using reconcile_waiting [OF that(2) other_id kept that(1)] .
  have p: "waiting i d'" if "promote_prepare env identity now d = Inr (pr, d')" "waiting i d" for pr d d'
    using prepare_Inr [OF that(1)] that(2) by (auto simp: waiting_def no_generation_def)
  have c: "waiting i d'" if "promote_commit env dir' identity pr ex g now d = Inr (x, d')" "waiting i d" for pr ex x d d'
    using commit_Inr [OF that(1)] that(2) publishes_waiting [OF _ _ other_id] by auto
  show ?thesis
    using wait unfolding promote_def
    by (auto split: sum.splits bool.splits prod.splits if_splits) (blast intro: r p c kept)+
qed

text \<open>The publisher as the tick runs it: every pause leaves the rest of the system to \<open>other\<close>.\<close>

definition promote_candidate ::
  "head_env \<Rightarrow> (text_bytes \<Rightarrow> directory \<times> directory \<times> text_bytes) \<Rightarrow> orchestrator \<Rightarrow> instant \<Rightarrow> (export_db \<Rightarrow> export_db) \<Rightarrow>
   export_attempt \<Rightarrow> export_db \<Rightarrow> (export_error + promotion_result) \<times> export_db" where
  "promote_candidate env files status now other identity db =
     (case files (at_id identity) of (dir, dir', g) \<Rightarrow>
        promote env dir dir' status identity g now other other other other db)"

lemma candidate_process_waiting:
  assumes "waiting i (pw_db w)" "cd_id c \<noteq> i" "\<And>d. waiting i d \<Longrightarrow> waiting i (other d)"
  shows "waiting i (pw_db (snd (candidate_process (promote_candidate env files status now other) status trouble elapsed other co c w)))"
proof -
  let ?publish = "promote_candidate env files status now other"
  have publish: "waiting i (snd (?publish a d))" if "at_id a \<noteq> i" "waiting i d" for a d
    using promote_waiting [OF that(2,1) assms(3)] by (auto simp: promote_candidate_def split: prod.split)
  have "waiting i (snd (process_candidate ?publish status t other co c (pw_db w)))" for t
    using assms publish by (intro process_candidate_waiting) auto
  from this [of "pw_clock w"] show ?thesis
    using assms(1) by (auto simp: candidate_process_def Let_def split: option.split prod.split sum.split)
qed

lemma fresh_page_invariant:
  fixes process :: "'a publisher_world_scheme processing"
  assumes page: "fresh_page read process d limit most width s = (r, s')" and "J (fs_tally s, fs_world s)"
    and reads: "\<And>t w. J (t, w) \<Longrightarrow> J (t, snd (read w))" and one: "\<And>c s. J s \<Longrightarrow> J (drain_one process c s)"
  shows "J (fs_tally s', fs_world s')"
proof -
  obtain f w where w: "read (fs_world s) = (f, w)" by fastforce
  with reads [OF assms(2)] have J: "J (fs_tally s, w)" by simp
  show ?thesis
  proof (cases f)
    case (Some e)
    with page w J show ?thesis by (auto simp: fresh_page_def)
  next
    case None
    define W where "W = (case fs_window s of Some ks \<Rightarrow> ks | None \<Rightarrow> fresh_run_window (fs_window_after s) width (pw_db w))"
    define rows where "rows = take (min limit (most - fs_total s)) (fresh_rows (map snd W) (fs_after s) (pw_db w))"
    obtain m x t' w' where drained:
      "drain process d (map (candidate_of (pw_db w) \<circ> snd) rows) (fs_tally s, w) = ((m, x), (t', w'))"
      by (metis prod.exhaust)
    have "fs_tally s' = fs_tally s \<and> fs_world s' = w \<or> fs_tally s' = t' \<and> fs_world s' = w'"
      using page unfolding fresh_page_def w None option.case prod.case Let_def W_def [symmetric] rows_def [symmetric] drained
      by (simp split: if_splits) (force simp: prod_eq_iff)+
    with J drain_invariant [where J = J, OF one J drained] show ?thesis by auto
  qed
qed

lemma fresh_loop_invariant:
  fixes process :: "'a publisher_world_scheme processing"
  assumes "fresh_loop read process d limit most width s = Some y" and "J (fs_tally s, fs_world s)"
    and "\<And>t w. J (t, w) \<Longrightarrow> J (t, snd (read w))" and "\<And>c s. J s \<Longrightarrow> J (drain_one process c s)"
  shows "J (fs_tally (snd y), fs_world (snd y))"
proof -
  let ?P = "\<lambda>read process d limit most width s y. (\<forall>t w. J (t, w) \<longrightarrow> J (t, snd (read w))) \<longrightarrow>
    (\<forall>c s. J s \<longrightarrow> J (drain_one process c s)) \<longrightarrow> J (fs_tally s, fs_world s) \<longrightarrow> J (fs_tally (snd y), fs_world (snd y))"
  have "?P read process d limit most width s y"
  proof (rule fresh_loop.raw_induct [where P = ?P, OF _ assms(1)], intro impI, goal_cases)
    case (1 loop read process d limit most width s y)
    obtain r t where page: "fresh_page read process d limit most width s = (r, t)" by fastforce
    have J: "J (fs_tally t, fs_world t)" 
      by (rule fresh_page_invariant [where J = J, OF page 1(5)]) (use 1(3,4) in blast)+
    note body = 1(2) [unfolded page, simplified]
    consider "y = (None, s)" | f where "y = (Some f, t)" | "y = (None, t)"
      | "loop read process d limit most width t = Some y"
    proof (cases "fs_total s < most \<and> \<not> tl_stopped (fs_tally s) \<and> pw_clock (fs_world s) < d")
      case False
      with body have "Some (None, s) = Some y" by (simp only: if_False simp_thms)
      with that(1) show ?thesis by simp
    next
      case True
      with body have "(case (r, t) of (Inl f, s') \<Rightarrow> Some (Some f, s')
        | (Inr again, s') \<Rightarrow> if again then loop read process d limit most width s' else Some (None, s')) = Some y"
        by (simp only: if_True simp_thms)
      then have "(\<exists>f. y = (Some f, t)) \<or> y = (None, t) \<or> loop read process d limit most width t = Some y"
        by (cases r) (simp_all split: if_splits, metis)
      with that(2-4) show ?thesis by blast
    qed
    then show ?case
    proof cases
      case 4
      from 1(1) [OF this] 1(3,4) J show ?thesis by blast
    qed (use J 1(5) in auto)
  qed
  with assms show ?thesis by blast
qed

lemma sweep_invariant:
  fixes process :: "'a publisher_world_scheme processing"
  assumes reads: "\<And>t w. J (t, w) \<Longrightarrow> J (t, snd (read w))" and one: "\<And>c s. J s \<Longrightarrow> J (drain_one process c s)"
  shows "J (tk_tally k, tk_world k) \<Longrightarrow> J (tk_tally (sweep read process d k), tk_world (sweep read process d k))"
proof (induction "MAX_TICK_ATTEMPTS - tk_fresh k - tk_swept k" arbitrary: k rule: less_induct)
  case less
  obtain again k' where page: "sweep_page read process d k = (again, k')" by fastforce
  have drained: "J (t', w')" if "drain process dl rows (t, w) = (x, (t', w'))" "J (t, w)" for dl rows t w x t' w'
    using drain_invariant [where J = J, OF one that(2,1)] .
  have J: "J (tk_tally k', tk_world k')"
  proof (cases "read (tk_world k)")
    case (Pair f w)
    with reads [OF less.prems] have "J (tk_tally k, w)" by simp
    with page Pair less.prems drained show ?thesis
      by (auto simp: sweep_page_def publish_pending_exports_def Let_def split: if_splits prod.splits sum.splits option.splits)
  qed
  show ?case
  proof (cases "tk_fresh k + tk_swept k < MAX_TICK_ATTEMPTS \<and> \<not> tl_stopped (tk_tally k) \<and> again")
    case True
    with sweep_page_advances [of read process d k k'] page
    have "MAX_TICK_ATTEMPTS - tk_fresh k' - tk_swept k' < MAX_TICK_ATTEMPTS - tk_fresh k - tk_swept k" by auto
    from less.hyps [OF this J] True show ?thesis by (simp add: sweep_cases [OF page])
  next
    case False
    with J less.prems show ?thesis by (auto simp: sweep_cases [OF page])
  qed
qed

subsection \<open>The tick\<close>

definition TICK_DEADLINE_SECONDS :: int where "TICK_DEADLINE_SECONDS = 45"
definition DAILY_BUDGET_SECONDS :: int where "DAILY_BUDGET_SECONDS = 5"
definition DAILY_PRUNE_WORST_SECONDS :: int where "DAILY_PRUNE_WORST_SECONDS = 5"
definition GC_WORST_SECONDS :: int where "GC_WORST_SECONDS = 10"
definition GC_INTERVAL_SECONDS :: int where "GC_INTERVAL_SECONDS = 600"
definition RETIRE_INTERVAL_SECONDS :: int where "RETIRE_INTERVAL_SECONDS = 300"

text \<open>The process keeps when it next retires and collects (\<open>_RETIRE_NEXT\<close>, \<open>_GC_NEXT\<close>).\<close>

record gates =
  gt_retire :: instant
  gt_gc :: instant

record 'w stages =
  st_retire :: "'w \<Rightarrow> candidate_failure option \<times> 'w"
  st_daily :: "instant \<Rightarrow> instant \<Rightarrow> 'w \<Rightarrow> 'w"
  st_gc :: "'w \<Rightarrow> candidate_failure option \<times> 'w"

record 'w report =
  rp_after :: "text_bytes option"
  rp_ok :: bool
  rp_tally :: tally
  rp_looked :: "nat \<times> nat"
  rp_reasons :: "text_bytes multiset"
  rp_gates :: gates
  rp_gc_deferred :: bool
  rp_world :: 'w

definition reason_of :: "text_bytes \<Rightarrow> candidate_failure option \<Rightarrow> text_bytes multiset" where
  "reason_of stage f = (case f of None \<Rightarrow> {#} | Some e \<Rightarrow> {#stage @ '':'' @ failure_reason e#})"

definition source_budget :: "bool \<Rightarrow> int \<Rightarrow> int" where
  "source_budget gc_due setting =
     min setting (seconds (TICK_DEADLINE_SECONDS - DAILY_BUDGET_SECONDS - DAILY_PRUNE_WORST_SECONDS
       - (if gc_due then GC_WORST_SECONDS else 0)))"

definition retire_stage ::
  "'a publisher_world_scheme stages \<Rightarrow> gates \<Rightarrow> 'a publisher_world_scheme \<Rightarrow>
   text_bytes multiset \<times> gates \<times> 'a publisher_world_scheme" where
  "retire_stage stages gates w =
     (if pw_clock w \<ge> gt_retire gates
      then case st_retire stages w of (f, w') \<Rightarrow>
        (reason_of ''retire'' f, gates\<lparr>gt_retire := pw_clock w + seconds RETIRE_INTERVAL_SECONDS\<rparr>, w')
      else ({#}, gates, w))"

text \<open>Three quarters of the budget go to the fresh phase at most; \<open>None\<close> when its loop never ends.\<close>

definition fresh_stage ::
  "'a publisher_world_scheme reading \<Rightarrow> 'a publisher_world_scheme processing \<Rightarrow> int \<Rightarrow> instant \<Rightarrow>
   'a publisher_world_scheme \<Rightarrow> (text_bytes multiset \<times> nat \<times> tally \<times> 'a publisher_world_scheme) option" where
  "fresh_stage read process budget source_deadline w =
     (let share = min (budget * 3 div 4) (source_deadline - pw_clock w) in
      if share \<le> 0 then Some ({#}, 0, new_tally, w)
      else case publish_fresh_exports read process (min share (seconds 60)) (int CANDIDATE_PAGE) (int MAX_TICK_ATTEMPTS)
             FRESH_RUN_WINDOW new_tally w of
          None \<Rightarrow> None
        | Some (Inl f, t, w') \<Rightarrow> Some (reason_of ''fresh'' (Some f), 0, t, w')
        | Some (Inr p, t, w') \<Rightarrow> Some ({#}, pg_processed p, t, w'))"

definition daily_stage ::
  "'a publisher_world_scheme stages \<Rightarrow> instant \<Rightarrow> 'a publisher_world_scheme \<Rightarrow>
   text_bytes multiset \<times> 'a publisher_world_scheme" where
  "daily_stage stages hard w =
     (let remaining = hard - pw_clock w in
      if remaining > 0
      then ({#}, st_daily stages (pw_clock w + min (seconds DAILY_BUDGET_SECONDS) remaining) hard w)
      else ({#''daily:tick_deadline''#}, w))"

definition gc_stage ::
  "'a publisher_world_scheme stages \<Rightarrow> bool \<Rightarrow> instant \<Rightarrow> gates \<Rightarrow> 'a publisher_world_scheme \<Rightarrow>
   text_bytes multiset \<times> bool \<times> gates \<times> 'a publisher_world_scheme" where
  "gc_stage stages gc_due hard gates w =
     (if \<not> gc_due then ({#}, False, gates, w)
      else if hard - pw_clock w \<ge> seconds GC_WORST_SECONDS
      then case st_gc stages w of (f, w') \<Rightarrow>
        (reason_of ''gc'' f, False, gates\<lparr>gt_gc := pw_clock w + seconds GC_INTERVAL_SECONDS\<rparr>, w')
      else ({#}, True, gates, w))"

definition run_tick ::
  "'a publisher_world_scheme stages \<Rightarrow> 'a publisher_world_scheme reading \<Rightarrow>
   (bool \<Rightarrow> 'a publisher_world_scheme processing) \<Rightarrow> int \<Rightarrow> bool \<Rightarrow> gates \<Rightarrow> text_bytes option \<Rightarrow>
   'a publisher_world_scheme \<Rightarrow> 'a publisher_world_scheme report option" where
  "run_tick stages read process setting gc_on gates after w =
     (let hard = pw_clock w + seconds TICK_DEADLINE_SECONDS;
          gc_due = (gc_on \<and> pw_clock w \<ge> gt_gc gates);
          budget = source_budget gc_due setting;
          source_deadline = pw_clock w + budget;
          (reasons1, gates1, w1) = retire_stage stages gates w
      in case fresh_stage read (process True) budget source_deadline w1 of
           None \<Rightarrow> None
         | Some (reasons2, fresh, t, w2) \<Rightarrow>
             let k = sweep read (process False) source_deadline
                   \<lparr>tk_after = after, tk_tally = t, tk_fresh = fresh, tk_swept = 0, tk_ok = True,
                    tk_reasons = reasons1 + reasons2, tk_world = w2\<rparr>;
                 (reasons3, w3) = daily_stage stages hard (tk_world k);
                 (reasons4, deferred, gates2, w4) = gc_stage stages gc_due hard gates1 w3
             in Some \<lparr>rp_after = tk_after k, rp_ok = tk_ok k, rp_tally = tk_tally k,
                      rp_looked = (tk_fresh k, tk_swept k), rp_reasons = tk_reasons k + reasons3 + reasons4,
                      rp_gates = gates2, rp_gc_deferred = deferred, rp_world = w4\<rparr>)"

text \<open>The cursor the sensor stores: the place the sweep reached, unless it failed before it moved.\<close>

definition sensor_cursor :: "text_bytes option \<Rightarrow> text_bytes option \<Rightarrow> 'w report \<Rightarrow> text_bytes option" where
  "sensor_cursor stored after r = (if rp_ok r \<or> rp_after r \<noteq> after then rp_after r else stored)"

subsection \<open>Properties of a tick\<close>

lemma publish_fresh_invariant:
  fixes process :: "'a publisher_world_scheme processing"
  assumes "publish_fresh_exports read process budget limit most width t0 w = Some (outcome, t, w')" and "J (t0, w)"
    and "\<And>t w. J (t, w) \<Longrightarrow> J (t, snd (read w))" and "\<And>c s. J s \<Longrightarrow> J (drain_one process c s)"
  shows "J (t, w')"
proof -
  define y where "y = fresh_loop read process (pw_clock w + budget) (nat limit) (nat most) (nat width) (fresh_start t0 w)"
  consider "t = t0" "w' = w" | f s where "y = Some (f, s)" "t = fs_tally s" "w' = fs_world s"
    using assms(1) unfolding publish_fresh_exports_def y_def [symmetric]
    by (auto split: if_splits option.splits)
  then show ?thesis
  proof cases
    case 1
    then show ?thesis using assms(2) by simp
  next
    case 2
    have "J (fs_tally (snd (f, s)), fs_world (snd (f, s)))"
      by (rule fresh_loop_invariant [where J = J, OF 2(1) [unfolded y_def]])
        (use assms(2-4) in \<open>simp add: fresh_start_def\<close>, use assms(3,4) in blast, use assms(3,4) in blast)
    with 2(2,3) show ?thesis by simp
  qed
qed

lemma fresh_stage_invariant:
  fixes process :: "'a publisher_world_scheme processing"
  assumes "fresh_stage read process budget sd w = Some (reasons, n, t, w')" and "J (new_tally, w)"
    and "\<And>t w. J (t, w) \<Longrightarrow> J (t, snd (read w))" and "\<And>c s. J s \<Longrightarrow> J (drain_one process c s)"
  shows "J (t, w')"
proof -
  let ?share = "min (budget * 3 div 4) (sd - pw_clock w)"
  define y where "y = publish_fresh_exports read process (min ?share (seconds 60)) (int CANDIDATE_PAGE) (int MAX_TICK_ATTEMPTS)
    FRESH_RUN_WINDOW new_tally w"
  consider "t = new_tally" "w' = w" | outcome where "y = Some (outcome, t, w')"
    using assms(1) unfolding fresh_stage_def Let_def y_def [symmetric]
    by (cases "?share \<le> 0") (simp, auto split: option.splits prod.splits sum.splits)
  then show ?thesis
  proof cases
    case 1
    then show ?thesis using assms(2) by simp
  next
    case 2
    show ?thesis
    proof (rule publish_fresh_invariant [where J = J])
      show "publish_fresh_exports read process (min ?share (seconds 60)) (int CANDIDATE_PAGE) (int MAX_TICK_ATTEMPTS)
          FRESH_RUN_WINDOW new_tally w = Some (outcome, t, w')" using 2 by (simp add: y_def)
    qed (use assms(2-4) in blast)+
  qed
qed

lemma drain_one_J:
  assumes "\<And>c w. cd_id c \<noteq> i \<Longrightarrow> P w \<Longrightarrow> P (snd (process c w))"
    "i \<in> set (tl_seen (fst s)) \<or> P (snd s)"
  shows "i \<in> set (tl_seen (fst (drain_one process c s))) \<or> P (snd (drain_one process c s))"
proof (cases "cd_id c = i")
  case False
  with assms(1) [OF False, of "snd s"] assms(2) show ?thesis
    by (cases s) (auto simp: drain_one_def split: prod.splits)
qed (simp add: drain_one_seen)

lemma run_tick_parts:
  assumes "run_tick stages read process setting gc_on gates after w = Some r"
  obtains reasons1 gates1 w1 reasons2 fresh t w2 where
    "retire_stage stages gates w = (reasons1, gates1, w1)"
    "fresh_stage read (process True) (source_budget (gc_on \<and> pw_clock w \<ge> gt_gc gates) setting)
       (pw_clock w + source_budget (gc_on \<and> pw_clock w \<ge> gt_gc gates) setting) w1 = Some (reasons2, fresh, t, w2)"
    "rp_after r = tk_after (sweep read (process False) (pw_clock w + source_budget (gc_on \<and> pw_clock w \<ge> gt_gc gates) setting)
       \<lparr>tk_after = after, tk_tally = t, tk_fresh = fresh, tk_swept = 0, tk_ok = True,
        tk_reasons = reasons1 + reasons2, tk_world = w2\<rparr>)"
    "rp_tally r = tk_tally (sweep read (process False) (pw_clock w + source_budget (gc_on \<and> pw_clock w \<ge> gt_gc gates) setting)
       \<lparr>tk_after = after, tk_tally = t, tk_fresh = fresh, tk_swept = 0, tk_ok = True,
        tk_reasons = reasons1 + reasons2, tk_world = w2\<rparr>)"
proof -
  let ?budget = "source_budget (gc_on \<and> pw_clock w \<ge> gt_gc gates) setting"
  obtain reasons1 gates1 w1 where a: "retire_stage stages gates w = (reasons1, gates1, w1)" by (metis prod.exhaust)
  obtain reasons2 fresh t w2 where
    b: "fresh_stage read (process True) ?budget (pw_clock w + ?budget) w1 = Some (reasons2, fresh, t, w2)"
    using assms a by (auto simp: run_tick_def Let_def split: option.splits)
  define k where "k = sweep read (process False) (pw_clock w + ?budget)
       \<lparr>tk_after = after, tk_tally = t, tk_fresh = fresh, tk_swept = 0, tk_ok = True,
        tk_reasons = reasons1 + reasons2, tk_world = w2\<rparr>"
  have "rp_after r = tk_after k \<and> rp_tally r = tk_tally k"
    using assms by (auto simp: run_tick_def Let_def a b k_def [symmetric] split: prod.splits)
  with that [OF a b] show thesis by (simp add: k_def)
qed

text \<open>
  C23: The cursor of the sensor loses no candidate.  An attempt past the cursor a tick starts from, which
  waits for its promotion, has been processed in this tick or lies beyond the cursor the sensor
  stores for the next one, whatever fails in the tick (a query, a candidate, the retiring) and
  wherever its deadline or limits cut it; so a poisoned candidate never hides the ones after it.
  It is assumed that the other transactions, the page reads and the retiring leave the attempt
  waiting; attempts at or before the starting cursor are left to the sweep that starts over.
\<close>

theorem tick_cursor_loses_nothing:
  assumes tick: "run_tick stages read (candidate_process (promote_candidate env files status now other) status trouble elapsed other)
      setting gc_on gates after w = Some r"
    and wait: "waiting i (pw_db w)" "past after i"
    and others: "\<And>d. waiting i d \<Longrightarrow> waiting i (other d)"
    and reads: "\<And>w. waiting i (pw_db w) \<Longrightarrow> waiting i (pw_db (snd (read w)))"
    and retires: "\<And>w. waiting i (pw_db w) \<Longrightarrow> waiting i (pw_db (snd (st_retire stages w)))"
  shows "i \<in> set (tl_seen (rp_tally r)) \<or> past (sensor_cursor after after r) i"
proof -
  let ?process = "candidate_process (promote_candidate env files status now other) status trouble elapsed other"
  have kept: "waiting i (pw_db (snd (?process co c w)))" if "cd_id c \<noteq> i" "waiting i (pw_db w)" for co c w
    using candidate_process_waiting [OF that(2,1) others] .
  from tick obtain reasons1 gates1 w1 reasons2 fresh t w2 sd where
    a: "retire_stage stages gates w = (reasons1, gates1, w1)" and
    b: "fresh_stage read (?process True) (sd - pw_clock w) sd w1 = Some (reasons2, fresh, t, w2)" and
    k: "rp_after r = tk_after (sweep read (?process False) sd \<lparr>tk_after = after, tk_tally = t, tk_fresh = fresh,
          tk_swept = 0, tk_ok = True, tk_reasons = reasons1 + reasons2, tk_world = w2\<rparr>)"
      "rp_tally r = tk_tally (sweep read (?process False) sd \<lparr>tk_after = after, tk_tally = t, tk_fresh = fresh,
          tk_swept = 0, tk_ok = True, tk_reasons = reasons1 + reasons2, tk_world = w2\<rparr>)"
    by (rule run_tick_parts) (metis add_diff_cancel_left')
  have "waiting i (pw_db w1)"
    using a wait(1) retires [of w] by (auto simp: retire_stage_def split: if_splits prod.splits)
  then have "i \<in> set (tl_seen t) \<or> waiting i (pw_db w2)"

  proof -
    let ?J = "\<lambda>s :: tally \<times> _. i \<in> set (tl_seen (fst s)) \<or> waiting i (pw_db (snd s))"
    assume "waiting i (pw_db w1)"
    have "?J (t, w2)"
    proof (rule fresh_stage_invariant [where J = ?J, OF b])
      fix c s assume "?J s"
      then show "?J (drain_one (?process True) c s)"
        by (intro drain_one_J [where P = "\<lambda>w. waiting i (pw_db w)"] kept)
    qed (use \<open>waiting i (pw_db w1)\<close> reads in auto)
    then show ?thesis by simp
  qed
  then have "i \<in> set (tl_seen (rp_tally r)) \<or> past (rp_after r) i"
  proof
    assume "i \<in> set (tl_seen t)"
    then show ?thesis unfolding k using sweep_seen_mono [of "tick.make after t fresh 0 True (reasons1 + reasons2) w2"]
      by (auto simp: tick.make_def)
  next
    assume "waiting i (pw_db w2)"
    then show ?thesis unfolding k by (intro sweep_leaves_no_gap) (use kept reads wait(2) in auto)
  qed
  with wait(2) show ?thesis by (auto simp: sensor_cursor_def)
qed


text \<open>A tick handles a candidate at most once.  For every trace that records the calls of
the processing and nothing else, the calls of one tick, the fresh phase and every page of the sweep
together, are of distinct attempts.\<close>

theorem tick_handles_candidate_once:
  assumes tick: "run_tick stages read process setting gc_on gates after w = Some r"
    and start: "tr w = []"
    and calls: "\<And>b c w. tr (snd (process b c w)) = tr w @ [cd_id c]"
    and rest: "\<And>w. tr (snd (read w)) = tr w" "\<And>w. tr (snd (st_retire stages w)) = tr w"
      "\<And>d h w. tr (st_daily stages d h w) = tr w" "\<And>w. tr (snd (st_gc stages w)) = tr w"
  shows "distinct (tr (rp_world r)) \<and> set (tr (rp_world r)) \<subseteq> set (tl_seen (rp_tally r))"
proof -
  let ?J = "\<lambda>s :: tally \<times> _. distinct (tr (snd s)) \<and> set (tr (snd s)) \<subseteq> set (tl_seen (fst s))"
  have one: "?J (drain_one (process b) c s)" if "?J s" for b c s
    using that calls [of b c "snd s"] by (cases s) (auto simp: drain_one_def split: prod.splits)
  have reads: "?J (t, snd (read w))" if "?J (t, w)" for t w using that rest(1) by simp
  define sd where "sd = pw_clock w + source_budget (gc_on \<and> pw_clock w \<ge> gt_gc gates) setting"
  from tick obtain reasons1 gates1 w1 reasons2 fresh t w2 where
    a: "retire_stage stages gates w = (reasons1, gates1, w1)" and
    b: "fresh_stage read (process True) (sd - pw_clock w) sd w1 = Some (reasons2, fresh, t, w2)"
    by (rule run_tick_parts) (simp add: sd_def)
  define k where "k = sweep read (process False) sd \<lparr>tk_after = after, tk_tally = t, tk_fresh = fresh,
          tk_swept = 0, tk_ok = True, tk_reasons = reasons1 + reasons2, tk_world = w2\<rparr>"
  have world: "tr (rp_world r) = tr (tk_world k)" "rp_tally r = tk_tally k"
    using tick rest(3,4) a b
    by (auto simp: run_tick_def Let_def k_def sd_def daily_stage_def gc_stage_def split: prod.splits if_splits)
      (metis snd_conv)+
  have "tr w1 = []" using a rest(2) [of w] start by (auto simp: retire_stage_def split: if_splits prod.splits)
  then have "?J (new_tally, w1)" by simp
  then have "?J (t, w2)" by (rule fresh_stage_invariant [where J = ?J, OF b]) (use reads one in blast)+
  then have "?J (tk_tally k, tk_world k)"
    unfolding k_def by (intro sweep_invariant [where J = ?J]) (use reads one in auto)
  then show ?thesis by (simp add: world)
qed

end
