(* ===== verification/Publisher_Example.thy ===== *)
theory Publisher_Example
  imports Publisher_Tick
begin

section \<open>Ticks of the publisher on the example database\<close>

text \<open>
  The database with one successful attempt, its processing failing on a broken file, and a clock that
  every query moves: the properties of the tick at a concrete world.
\<close>

type_synonym traced_world = "text_bytes list publisher_world_scheme"

definition q_world :: traced_world where
  "q_world = \<lparr>pw_db = x10, pw_clock = 0, \<dots> = []\<rparr>"

definition q_read :: "traced_world reading" where
  "q_read w = (None, w\<lparr>pw_clock := pw_clock w + 1\<rparr>)"

definition q_process :: "traced_world processing" where
  "q_process c w = (Inl File_Failure, publisher_world.extend (publisher_world.truncate w) (publisher_world.more w @ [cd_id c]))"

definition q_stages :: "traced_world stages" where
  "q_stages = \<lparr>st_retire = \<lambda>w. (None, w), st_daily = \<lambda>d h w. w, st_gc = \<lambda>w. (None, w)\<rparr>"

definition q_tick :: "traced_world tick" where
  "q_tick = \<lparr>tk_after = None, tk_tally = new_tally, tk_fresh = 0, tk_swept = 0, tk_ok = True, tk_reasons = {#},
     tk_world = q_world\<rparr>"

lemma q_simps [simp]:
  "pw_db q_world = x10" "pw_clock q_world = 0" "publisher_world.more q_world = []"
  "q_read w = (None, w\<lparr>pw_clock := pw_clock w + 1\<rparr>)"
  "fst (q_process c w) = Inl File_Failure" "pw_db (snd (q_process c w)) = pw_db w" "pw_clock (snd (q_process c w)) = pw_clock w"
  "publisher_world.more (snd (q_process c w)) = publisher_world.more w @ [cd_id c]"
  "st_retire q_stages = (\<lambda>w. (None, w))" "st_gc q_stages = (\<lambda>w. (None, w))" "st_daily q_stages = (\<lambda>d h w. w)"
  "tk_after q_tick = None" "tk_tally q_tick = new_tally" "tk_world q_tick = q_world" "tk_fresh q_tick = 0" "tk_swept q_tick = 0"
  by (simp_all add: q_world_def q_read_def q_process_def q_stages_def q_tick_def publisher_world.defs)

lemma q_waiting: "waiting ''a1'' x10"
  by (simp add: waiting_def x10_def is_pending_def no_generation_def)

lemma run_tick_returns:
  fixes process :: "bool \<Rightarrow> 'a publisher_world_scheme processing"
  assumes "\<And>w. pw_clock w < pw_clock (snd (read w))" "\<And>b c w. pw_clock w \<le> pw_clock (snd (process b c w))"
  shows "\<exists>r. run_tick stages read process setting gc_on gates after w = Some r"
proof -
  have fresh: "\<exists>y. fresh_stage read (process True) budget sd v = Some y" for budget sd v
    using fresh_loop_returns [where read = read and process = "process True", OF assms(1) assms(2)]
    unfolding fresh_stage_def publish_fresh_exports_def Let_def
    by (auto split: option.split prod.split sum.split) (metis option.distinct(1))
  obtain reasons gates1 w1 where a: "retire_stage stages gates w = (reasons, gates1, w1)" by (metis prod.exhaust)
  show ?thesis
    using fresh unfolding run_tick_def Let_def a by (fastforce split: prod.split option.split)
qed

definition q_trouble :: "candidate \<Rightarrow> candidate_failure option" where
  "q_trouble c = Some (Database_Failure False (Some ''55P03'') ''OperationalError'')"

theorem tick_cursor_loses_nothing_witness:
  "\<exists>r. run_tick q_stages q_read (candidate_process (promote_candidate x_env (\<lambda>i. (x_dir, x_dir, ''g'')) None 8 (\<lambda>d. d)) None
      q_trouble (\<lambda>c. 1) (\<lambda>d. d)) (seconds 30) True \<lparr>gt_retire = 0, gt_gc = 0\<rparr> (Some ''a'') q_world = Some r
    \<and> (''a1'' \<in> set (tl_seen (rp_tally r)) \<or> past (sensor_cursor (Some ''a'') (Some ''a'') r) ''a1'')"
proof -
  obtain r where "run_tick q_stages q_read (candidate_process (promote_candidate x_env (\<lambda>i. (x_dir, x_dir, ''g'')) None 8 (\<lambda>d. d)) None
      q_trouble (\<lambda>c. 1) (\<lambda>d. d)) (seconds 30) True \<lparr>gt_retire = 0, gt_gc = 0\<rparr> (Some ''a'') q_world = Some r"
    using run_tick_returns [where read = q_read] by (force simp: candidate_process_def q_trouble_def)
  with tick_cursor_loses_nothing [OF this, of "''a1''"] q_waiting show ?thesis by (auto simp: past_def)
qed

theorem tick_handles_candidate_once_witness:
  "\<exists>r. run_tick q_stages q_read (\<lambda>b. q_process) (seconds 30) True \<lparr>gt_retire = 0, gt_gc = 0\<rparr> None q_world = Some r
    \<and> distinct (publisher_world.more (rp_world r)) \<and> set (publisher_world.more (rp_world r)) \<subseteq> set (tl_seen (rp_tally r))"
proof -
  obtain r where "run_tick q_stages q_read (\<lambda>b. q_process) (seconds 30) True \<lparr>gt_retire = 0, gt_gc = 0\<rparr> None q_world = Some r"
    using run_tick_returns [where read = q_read] by force
  with tick_handles_candidate_once [OF this, where tr = publisher_world.more] show ?thesis by simp
qed

lemma q_pending: "pending_page None 129 x10 = [candidate_of x10 (x_claimed 1 (Some 6) Preparing)]"
  by (simp add: pending_page_def pending_rows_def x10_def is_pending_def no_generation_def past_def)

lemma q_id [simp]: "cd_id (candidate_of db (x_row e n c s p)) = ''a1''"
  by (simp add: candidate_of_def)

lemma q_sweep:
  "tk_swept (sweep q_read q_process 10 q_tick) = 1" "pw_clock (tk_world (sweep q_read q_process 10 q_tick)) = 1"
proof -
  have page: "publish_pending_exports q_read q_process None 128 10 (Some new_tally) q_world
    = (Inr (\<lparr>pg_processed = 1, pg_results = {#''NOT_READY''#}, pg_next = None, pg_more = False, pg_reasons = {#}\<rparr>,
         record_outcome (Inl File_Failure) (new_tally\<lparr>tl_seen := [''a1'']\<rparr>)),
       snd (q_process (candidate_of x10 (x_claimed 1 (Some 6) Preparing)) (q_world\<lparr>pw_clock := 1\<rparr>)))"
    by (simp add: publish_pending_exports_def MAX_CANDIDATE_PAGE_def q_pending drain_one_def new_tally_def split_beta)
  have "sweep_page q_read q_process 10 q_tick = (False, q_tick\<lparr>tk_swept := 1, tk_after := None,
      tk_tally := record_outcome (Inl File_Failure) (new_tally\<lparr>tl_seen := [''a1'']\<rparr>),
      tk_world := snd (q_process (candidate_of x10 (x_claimed 1 (Some 6) Preparing)) (q_world\<lparr>pw_clock := 1\<rparr>))\<rparr>)"
    using page by (simp add: sweep_page_def CANDIDATE_PAGE_def MAX_TICK_ATTEMPTS_def)
  from sweep_cases [OF this] have "sweep q_read q_process 10 q_tick = q_tick\<lparr>tk_swept := 1, tk_after := None,
      tk_tally := record_outcome (Inl File_Failure) (new_tally\<lparr>tl_seen := [''a1'']\<rparr>),
      tk_world := snd (q_process (candidate_of x10 (x_claimed 1 (Some 6) Preparing)) (q_world\<lparr>pw_clock := 1\<rparr>))\<rparr>"
    by (simp add: MAX_TICK_ATTEMPTS_def new_tally_def)
  then show "tk_swept (sweep q_read q_process 10 q_tick) = 1" "pw_clock (tk_world (sweep q_read q_process 10 q_tick)) = 1"
    by simp_all
qed

theorem one_bad_candidate_blocks_nobody_witness:
  "''a1'' \<in> set (tl_seen (tk_tally (sweep q_read q_process 10 q_tick)))"
  by (rule one_bad_candidate_blocks_nobody)
    (auto simp: q_waiting past_def new_tally_def q_sweep MAX_TICK_ATTEMPTS_def)

lemma q_ready: "fresh_ready ''a1'' (5, ''run_a'') x10"
  by (simp add: fresh_ready_def fresh_key_def x10_def row_of_Cons open_candidate_def no_generation_def x_plan_def
      currently_owned_def ownership_def dict_keys_def same_set_def x_owner_def finished_key_def example_run_def)

definition q_rows :: "(keyset \<times> attempt_row) list" where
  "q_rows = [((5, ''a1''), x_claimed 1 (Some 6) Preparing)]"

lemma q_fresh_rows: "fresh_rows [''run_a''] None x10 = q_rows" "fresh_rows [''run_a''] (Some (5, ''a1'')) x10 = []"
    "fresh_run_window None 2 x10 = [(5, ''run_a'')]" "fresh_run_window (Some (5, ''run_a'')) 2 x10 = []"
  by (simp_all add: fresh_rows_def fresh_key_def x10_def row_of_Cons open_candidate_def no_generation_def x_plan_def
      currently_owned_def ownership_def dict_keys_def same_set_def x_owner_def finished_key_def example_run_def below_def q_rows_def
      List.map_filter_simps fresh_run_window_def fresh_runs_def has_open_def example_db_def descending_def)


text \<open>The fresh phase on a clock that stands still: three rounds.\<close>

definition q_still :: "traced_world reading" where "q_still w = (None, w)"

definition q_after :: traced_world where
  "q_after = snd (q_process (candidate_of x10 (x_claimed 1 (Some 6) Preparing)) q_world)"

definition q_tally :: tally where
  "q_tally = record_outcome (Inl File_Failure) (new_tally\<lparr>tl_seen := [''a1'']\<rparr>)"

lemma q_after_simps [simp]: "pw_db q_after = x10" "pw_clock q_after = 0" "\<not> tl_stopped q_tally" "\<not> tl_stopped new_tally"
  by (simp_all add: q_after_def q_tally_def new_tally_def)

definition q_state :: "keyset option \<Rightarrow> keyset list option \<Rightarrow> keyset option \<Rightarrow> traced_world fresh_state" where
  "q_state a w b = \<lparr>fs_total = 1, fs_after = a, fs_window = w, fs_window_after = b, fs_more = False,
     fs_tally = q_tally, fs_world = q_after\<rparr>"

lemma q_rounds:
  "fresh_page q_still q_process 10 128 4096 2 (fresh_start new_tally q_world)
    = (Inr True, q_state (Some (5, ''a1'')) (Some [(5, ''run_a'')]) None)"
  "fresh_page q_still q_process 10 128 4096 2 (q_state (Some (5, ''a1'')) (Some [(5, ''run_a'')]) None)
    = (Inr True, q_state None None (Some (5, ''run_a'')))"
  "fresh_page q_still q_process 10 128 4096 2 (q_state None None (Some (5, ''run_a'')))
    = (Inr False, q_state None None (Some (5, ''run_a'')))"
  by (simp_all add: fresh_page_def q_still_def fresh_start_def q_fresh_rows q_state_def q_rows_def drain_one_def split_beta
      q_after_def q_tally_def new_tally_def)

lemma q_fresh_loop:
  "fresh_loop q_still q_process 10 128 4096 2 (fresh_start new_tally q_world)
    = Some (None, q_state None None (Some (5, ''run_a'')))"
  by (subst fresh_loop.simps, simp add: q_rounds, simp add: fresh_start_def)
    (subst fresh_loop.simps, simp add: q_rounds, subst fresh_loop.simps, simp add: q_rounds, simp add: q_state_def)


lemma q_fresh:
  "publish_fresh_exports q_still q_process 10 128 4096 2 new_tally q_world
    = Some (Inr \<lparr>pg_processed = 1, pg_results = {#''NOT_READY''#}, pg_next = None, pg_more = False, pg_reasons = {#}\<rparr>,
        q_tally, q_after)"
  by (simp add: publish_fresh_exports_def MAX_CANDIDATE_PAGE_def MAX_FRESH_RUN_WINDOW_def q_fresh_loop)
    (simp add: q_state_def q_tally_def new_tally_def)

theorem fresh_phase_misses_no_run_witness: "''a1'' \<in> set (tl_seen q_tally)"
  by (rule fresh_phase_misses_no_run [OF q_fresh, of "''a1''" "(5, ''run_a'')"]) (simp_all add: q_ready q_still_def)

theorem fresh_phase_returns_witness:
  "\<exists>r. publish_fresh_exports q_read q_process 10 128 4096 2 new_tally q_world = Some r"
  by (rule fresh_phase_returns) simp_all

end
