(* ===== verification/Status_Probe.thy ===== *)
theory Status_Probe
  imports Export_Publisher
begin

section \<open>The orchestrator probe of a tick (export_collector.py, TickStatusProbe)\<close>

text \<open>
  A tick asks the orchestrator for the status of a run once and remembers the answer, a failure as
  an unknown.  \<open>lookup\<close> is the query for one run and \<open>batch\<close> the one for several; each may fail or
  time out (\<open>Inl\<close>).
\<close>

record tick_probe =
  pb_seen :: "(text_bytes \<times> text_bytes option) list"
  pb_calls :: nat

definition new_probe :: tick_probe where "new_probe = \<lparr>pb_seen = [], pb_calls = 0\<rparr>"

text \<open>\<open>self._seen.setdefault\<close>: the first answer stays.\<close>

definition set_default :: "text_bytes \<Rightarrow> text_bytes option \<Rightarrow> tick_probe \<Rightarrow> tick_probe" where
  "set_default i s p = (if map_of (pb_seen p) i = None then p\<lparr>pb_seen := (i, s) # pb_seen p\<rparr> else p)"

type_synonym run_lookup = "text_bytes \<Rightarrow> unit + text_bytes option"
type_synonym run_batch = "text_bytes list \<Rightarrow> unit + (text_bytes \<times> text_bytes) list"

text \<open>One call of the probe as \<open>_probe\<close> makes it: every failure reads as an unknown.\<close>

definition probe_call :: "run_lookup \<Rightarrow> text_bytes \<Rightarrow> tick_probe \<Rightarrow> text_bytes option \<times> tick_probe" where
  "probe_call lookup i p =
     (case map_of (pb_seen p) i of
        Some s \<Rightarrow> (s, p)
      | None \<Rightarrow>
          let p' = p\<lparr>pb_calls := pb_calls p + 1\<rparr>
          in case lookup i of Inl _ \<Rightarrow> (None, set_default i None p') | Inr s \<Rightarrow> (s, set_default i s p'))"

definition probe_missing :: "text_bytes list \<Rightarrow> tick_probe \<Rightarrow> text_bytes list" where
  "probe_missing ids p = sorted_set (filter (\<lambda>i. i \<noteq> [] \<and> map_of (pb_seen p) i = None) ids)"

definition probe_prefetch :: "run_batch option \<Rightarrow> text_bytes list \<Rightarrow> tick_probe \<Rightarrow> tick_probe" where
  "probe_prefetch batch ids p =
     (case batch of
        None \<Rightarrow> p
      | Some ask \<Rightarrow>
          let missing = probe_missing ids p; p' = p\<lparr>pb_calls := pb_calls p + 1\<rparr>
          in if missing = [] then p
             else case ask missing of
               Inl _ \<Rightarrow> p'
             | Inr found \<Rightarrow> fold (\<lambda>i. set_default i (map_of found i)) missing p')"

text \<open>The requests of a tick, each with the orchestrator's behaviour at that moment.\<close>

datatype probe_request =
    Ask_Run run_lookup text_bytes
  | Ask_Runs "run_batch option" "text_bytes list"

fun probe_step :: "probe_request \<Rightarrow> tick_probe \<Rightarrow> tick_probe" where
  "probe_step (Ask_Run lookup i) p = snd (probe_call lookup i p)"
| "probe_step (Ask_Runs batch ids) p = probe_prefetch batch ids p"

definition probe_run :: "probe_request list \<Rightarrow> tick_probe \<Rightarrow> tick_probe" where
  "probe_run rs p = fold probe_step rs p"

text \<open>What the orchestrator said about a run in a request.\<close>

fun said :: "probe_request \<Rightarrow> text_bytes \<Rightarrow> text_bytes \<Rightarrow> bool" where
  "said (Ask_Run lookup j) i s \<longleftrightarrow> i = j \<and> lookup i = Inr (Some s)"
| "said (Ask_Runs batch ids) i s \<longleftrightarrow>
     (case batch of None \<Rightarrow> False
      | Some ask \<Rightarrow> i \<in> set ids \<and> (\<exists>missing. set missing \<subseteq> set ids \<and>
          (case ask missing of Inl _ \<Rightarrow> False | Inr found \<Rightarrow> map_of found i = Some s)))"

lemma map_of_set_default:
  "map_of (pb_seen (set_default i s p)) j =
     (if j = i \<and> map_of (pb_seen p) i = None then Some s else map_of (pb_seen p) j)"
  by (auto simp: set_default_def)

lemma set_default_calls [simp]: "pb_seen (p\<lparr>pb_calls := n\<rparr>) = pb_seen p"
  by simp

lemma prefetched:
  "map_of (pb_seen (fold (\<lambda>i. set_default i (f i)) is p)) j =
     (if j \<in> set is \<and> map_of (pb_seen p) j = None then Some (f j) else map_of (pb_seen p) j)"
  by (induction "is" arbitrary: p) (auto simp: map_of_set_default)

lemma probe_step_seen:
  "map_of (pb_seen p) i = Some s \<Longrightarrow> map_of (pb_seen (probe_step r p)) i = Some s"
  by (cases r) (auto simp: probe_call_def probe_prefetch_def Let_def map_of_set_default prefetched split: option.split sum.split)

lemma probe_step_new:
  "map_of (pb_seen p) i = None \<Longrightarrow> map_of (pb_seen (probe_step r p)) i = Some (Some s) \<Longrightarrow> said r i s"
  by (cases r)
    (auto simp: probe_call_def probe_prefetch_def Let_def map_of_set_default prefetched probe_missing_def
      split: option.splits sum.splits if_splits intro!: exI [of _ "sorted_set (filter (\<lambda>i. i \<noteq> [] \<and> map_of (pb_seen p) i = None) _)"])

lemma probe_run_simps [simp]: "probe_run [] p = p" "probe_run (r # rs) p = probe_run rs (probe_step r p)"
  by (simp_all add: probe_run_def)

lemma probe_run_seen: "map_of (pb_seen p) i = Some s \<Longrightarrow> map_of (pb_seen (probe_run rs p)) i = Some s"
  by (induction rs arbitrary: p) (auto intro: probe_step_seen)

lemma probe_run_said:
  "map_of (pb_seen p) i = None \<Longrightarrow> map_of (pb_seen (probe_run rs p)) i = Some (Some s) \<Longrightarrow> \<exists>r\<in>set rs. said r i s"
proof (induction rs arbitrary: p)
  case (Cons r rs)
  show ?case
  proof (cases "map_of (pb_seen (probe_step r p)) i")
    case None
    with Cons show ?thesis by auto
  next
    case (Some t)
    with probe_run_seen [OF this, of rs] Cons.prems probe_step_new [of p i r s] show ?thesis by auto
  qed
qed simp

lemma probe_kept: "probe_call lookup i p = (s, q) \<Longrightarrow> map_of (pb_seen q) i = Some s"
  by (auto simp: probe_call_def Let_def map_of_set_default split: option.splits sum.splits)

text \<open>The probe of a tick is stable and invents nothing.  Once it has answered for a run, every
later answer of the tick is the same and costs no query; and a status it gives was said by the
orchestrator, about this run, in this tick, so a failed query never reads as an end of the run.\<close>

theorem probe_is_stable_and_honest:
  assumes "probe_call lookup i (probe_run before new_probe) = (s, p)"
  shows "probe_call lookup' i (probe_run later p) = (s, probe_run later p)
    \<and> (\<forall>status. s = Some status \<longrightarrow> (\<exists>r\<in>set (before @ [Ask_Run lookup i]). said r i status))"
proof (intro conjI allI impI)
  from probe_run_seen [OF probe_kept [OF assms], of later]
  show "probe_call lookup' i (probe_run later p) = (s, probe_run later p)" by (simp add: probe_call_def)
next
  fix status assume "s = Some status"
  with probe_kept [OF assms] assms have "map_of (pb_seen (probe_run (before @ [Ask_Run lookup i]) new_probe)) i = Some (Some status)"
    by (simp add: probe_run_def)
  then show "\<exists>r\<in>set (before @ [Ask_Run lookup i]). said r i status"
    by (intro probe_run_said [where p = new_probe]) (simp_all add: new_probe_def)
qed

theorem probe_is_stable_and_honest_witness:
  "probe_call (\<lambda>i. Inl ()) ''r'' (probe_run [Ask_Runs None [''q'']] (snd (probe_call (\<lambda>i. Inr (Some ''SUCCESS'')) ''r'' new_probe)))
     = (Some ''SUCCESS'', probe_run [Ask_Runs None [''q'']] (snd (probe_call (\<lambda>i. Inr (Some ''SUCCESS'')) ''r'' new_probe)))
   \<and> (\<exists>r\<in>set ([] @ [Ask_Run (\<lambda>i. Inr (Some ''SUCCESS'')) ''r'']). said r ''r'' ''SUCCESS'')"
proof -
  have "probe_call (\<lambda>i. Inr (Some ''SUCCESS'')) ''r'' (probe_run [] new_probe)
      = (Some ''SUCCESS'', snd (probe_call (\<lambda>i. Inr (Some ''SUCCESS'')) ''r'' new_probe))"
    by (simp add: probe_call_def new_probe_def Let_def)
  from probe_is_stable_and_honest [OF this] show ?thesis by blast
qed

end
