(* ===== verification/Daily_Summary.thy ===== *)
theory Daily_Summary
  imports Export_Points "HOL-Library.AList" "HOL-Library.Product_Lexorder"
begin

section \<open>Daily summaries of observations (export_daily.py)\<close>

text \<open>
  The published observations of a location are reduced to one winner per hour and field, and the
  winners of a part of the day to a summary.  Winners are kept, so a later publication can replace
  one without reading the files again.
\<close>

subsection \<open>Decimal arithmetic of the default context\<close>

text \<open>
  Python's \<open>Decimal\<close> rounds the result of an operation half to even to 28 significant digits.
  \<open>magnitude q\<close> is the number of digits before the point (zero or negative below 0.1).
\<close>

definition magnitude :: "rat \<Rightarrow> int" where
  "magnitude q =
     (if 1 \<le> \<bar>q\<bar> then int (length (show_nat (nat \<lfloor>\<bar>q\<bar>\<rfloor>)))
      else 1 - int (length (show_nat (nat (\<lceil>1 / \<bar>q\<bar>\<rceil> - 1)))))"

definition ten_power :: "int \<Rightarrow> rat" where
  "ten_power k = (if 0 \<le> k then 10 ^ nat k else 1 / 10 ^ nat (- k))"

definition half_even :: "rat \<Rightarrow> int" where
  "half_even x =
     (let n = \<lfloor>x\<rfloor>; d = x - of_int n
      in if d < 1 / 2 \<or> (d = 1 / 2 \<and> even n) then n else n + 1)"

definition context_round :: "rat \<Rightarrow> rat" where
  "context_round q =
     (if q = 0 then 0
      else let k = 28 - magnitude q in of_int (half_even (q * ten_power k)) / ten_power k)"

fun decimal_value :: "decimal \<Rightarrow> rat" where
  "decimal_value (Dec c e) = of_int c * ten_power e"

subsection \<open>Observations\<close>

datatype daily_field = Temp | Humidity | Wind | Precip | Sky

datatype daily_slot = Morning | Noon | Evening

fun slot_hours :: "daily_slot \<Rightarrow> int \<times> int" where
  "slot_hours Morning = (5, 11)"
| "slot_hours Noon = (11, 17)"
| "slot_hours Evening = (17, 23)"

definition SLOTS :: "daily_slot list" where "SLOTS = [Morning, Noon, Evening]"

definition part_of :: "int \<Rightarrow> daily_slot option" where
  "part_of h = find (\<lambda>s. fst (slot_hours s) \<le> h \<and> h < snd (slot_hours s)) SLOTS"

definition PROVIDERS :: "text_bytes list" where
  "PROVIDERS = [''python-kma-api'', ''python-krforest-api'', ''python-krex-api'', ''python-khoa-api'', ''open_meteo'',
     ''weatherapi'', ''openweathermap'', ''visual_crossing'', ''tomorrow_io'', ''weatherbit'', ''weatherstack'',
     ''accuweather'', ''wttr_in'', ''python-airkorea-api'']"

type_synonym rank = "nat \<times> instant \<times> instant \<times> text_bytes"
type_synonym summary_key = "text_bytes \<times> day \<times> daily_slot"

record cell =
  ce_value :: rat
  ce_provider :: json
  ce_rank :: rank
  ce_unknown :: bool

record daily_observation =
  ob_key :: summary_key
  ob_hour :: int
  ob_field :: daily_field
  ob_cell :: cell

text \<open>
  \<open>Decimal(str(number))\<close> is an argument: \<open>None\<close> where it raises, \<open>Some None\<close> for a value that is
  not finite.
\<close>

record daily_env =
  de_head :: head_env
  de_decimal :: "text_bytes \<Rightarrow> decimal option option"

definition field_of :: "json \<Rightarrow> text_bytes \<Rightarrow> export_error + json" where
  "field_of point k = (case jget point k of None \<Rightarrow> Inl Key_Missing | Some v \<Rightarrow> Inr v)"

text \<open>\<open>_time\<close>: an aware instant; anything else raises.\<close>

definition daily_time :: "head_env \<Rightarrow> json \<Rightarrow> text_bytes \<Rightarrow> export_error + instant" where
  "daily_time env point k =
     (case field_of point k of
        Inl e \<Rightarrow> Inl e
      | Inr (JStr s) \<Rightarrow> (case he_iso env s of Some (Aware t) \<Rightarrow> Inr t | _ \<Rightarrow> Inl Value_Error)
      | Inr _ \<Rightarrow> Inl Value_Error)"

definition one_of :: "json option \<Rightarrow> text_bytes list \<Rightarrow> bool" where
  "one_of v ts \<longleftrightarrow> list_ex (\<lambda>t. v = Some (JStr t)) ts"

definition DEGREE_C :: text_bytes where "DEGREE_C = map char_of [226, 132, 131 :: nat]"
definition LESS_THAN :: text_bytes where "LESS_THAN = map char_of [235, 175, 184, 235, 167, 140 :: nat]"

text \<open>
  Field and value of a number with its metric and unit, the metric rows in the order of the code.
  The hourly rain of the KMA nowcast counts for the hour before; its provider and dataset are only
  looked at when the row is reached.
\<close>

definition rain_row :: "json \<Rightarrow> json option \<Rightarrow> instant \<Rightarrow> rat \<Rightarrow> bool" where
  "rain_row point unit target number \<longleftrightarrow>
     jget point ''provider'' = Some (JStr ''python-kma-api'') \<and> jget point ''metric_key'' = Some (JStr ''RN1'')
     \<and> jget point ''dataset_key'' = Some (JStr ''kma_ultra_short_nowcast'') \<and> unit = Some (JStr ''mm'')
     \<and> target mod hours 1 = 0 \<and> 0 \<le> number \<and> number \<le> 1000"

definition measured ::
  "json \<Rightarrow> instant \<Rightarrow> rat \<Rightarrow> (daily_field \<times> rat \<times> instant) option" where
  "measured point target number =
     (let metric = jget point ''metric_key''; unit = jget point ''unit'' in
      if one_of metric [''T1H'', ''TEMP''] \<and> one_of unit [''deg_c'', DEGREE_C] \<and> - 90 \<le> number \<and> number \<le> 65
      then Some (Temp, number, target)
      else if one_of metric [''REH'', ''HUMIDITY''] \<and> unit = Some (JStr ''%'') \<and> 0 \<le> number \<and> number \<le> 100
      then Some (Humidity, number, target)
      else if one_of metric [''WSD'', ''WIND_SPEED''] \<and> one_of unit [''m_s'', ''m/s'', ''km/h'']
      then (let speed = (if unit = Some (JStr ''km/h'') then context_round (number / (36 / 10)) else number)
            in if 0 \<le> speed \<and> speed \<le> 150 then Some (Wind, speed, target) else None)
      else if rain_row point unit target number
      then Some (Precip, number, target - hours 1)
      else if metric = Some (JStr ''SKY'') \<and> unit = Some (JStr ''code'') \<and> number \<in> {1, 3, 4}
      then Some (Sky, number, target)
      else None)"

definition provider_priority :: "json \<Rightarrow> nat" where
  "provider_priority provider =
     (case provider of
        JStr p \<Rightarrow> length (takeWhile (\<lambda>q. q \<noteq> p) PROVIDERS)
      | _ \<Rightarrow> length PROVIDERS)"

definition contains_text :: "text_bytes \<Rightarrow> text_bytes \<Rightarrow> bool" where
  "contains_text needle s \<longleftrightarrow> list_ex (\<lambda>n. take (length needle) (drop n s) = needle) [0..<Suc (length s)]"

text \<open>\<open>str(point.get("value_text") or "")\<close>.\<close>

definition text_or_empty :: "json option \<Rightarrow> text_bytes" where
  "text_or_empty v =
     (case v of
        None \<Rightarrow> [] | Some JNull \<Rightarrow> [] | Some (JBool b) \<Rightarrow> if b then py_str v else []
      | Some (JInt n) \<Rightarrow> if n = 0 then [] else py_str v
      | Some (JArr []) \<Rightarrow> [] | Some (JObj []) \<Rightarrow> [] | _ \<Rightarrow> py_str v)"

definition location_of :: "json \<Rightarrow> export_error + text_bytes" where
  "location_of point =
     (case field_of point ''location_id'' of Inl e \<Rightarrow> Inl e | Inr (JStr s) \<Rightarrow> Inr s | Inr _ \<Rightarrow> Inl Value_Error)"

definition make_cell :: "daily_env \<Rightarrow> json \<Rightarrow> daily_field \<Rightarrow> rat \<Rightarrow> instant \<Rightarrow> instant \<Rightarrow> json \<Rightarrow> cell" where
  "make_cell env point f value target known provider =
     \<lparr>ce_value = value, ce_provider = provider,
      ce_rank = (provider_priority provider, - target, - known, digest_json (de_head env) point),
      ce_unknown = (f = Precip \<and> contains_text LESS_THAN (text_or_empty (jget point ''value_text'')))\<rparr>"

definition observation :: "daily_env \<Rightarrow> json \<Rightarrow> export_error + daily_observation option" where
  "observation env point =
     (case field_of point ''forecast_style'' of
        Inl e \<Rightarrow> Inl e
      | Inr style \<Rightarrow>
     if style \<noteq> JStr ''observed'' \<and> style \<noteq> JStr ''nowcast'' then Inr None
     else case daily_time (de_head env) point ''target_at'' of
        Inl e \<Rightarrow> Inl e
      | Inr target \<Rightarrow>
     if jget point ''value_number'' = None \<or> jget point ''value_number'' = Some JNull then Inr None
     else case de_decimal env (py_str (jget point ''value_number'')) of
        None \<Rightarrow> Inl Value_Error
      | Some None \<Rightarrow> Inr None
      | Some (Some number) \<Rightarrow>
     (case field_of point ''metric_key'' of
        Inl e \<Rightarrow> Inl e
      | Inr _ \<Rightarrow>
     (case measured point target (decimal_value number) of
        None \<Rightarrow> Inr None
      | Some (f, value, start) \<Rightarrow>
     (case part_of (kst_hour start) of
        None \<Rightarrow> Inr None
      | Some part \<Rightarrow>
     (case daily_time (de_head env) point ''known_at'' of
        Inl e \<Rightarrow> Inl e
      | Inr known \<Rightarrow>
     (case field_of point ''provider'' of
        Inl e \<Rightarrow> Inl e
      | Inr provider \<Rightarrow>
     (case location_of point of
        Inl e \<Rightarrow> Inl e
      | Inr location \<Rightarrow>
          Inr (Some \<lparr>ob_key = (location, kst_day start, part), ob_hour = kst_hour start, ob_field = f,
            ob_cell = make_cell env point f value start known provider\<rparr>))))))))"

subsection \<open>Merging into the winners\<close>

type_synonym winners = "(int \<times> (daily_field \<times> cell) list) list"

definition hour_cells :: "winners \<Rightarrow> int \<Rightarrow> (daily_field \<times> cell) list" where
  "hour_cells st h = (case map_of st h of None \<Rightarrow> [] | Some cs \<Rightarrow> cs)"

definition cell_at :: "winners \<Rightarrow> int \<Rightarrow> daily_field \<Rightarrow> cell option" where
  "cell_at st h f = map_of (hour_cells st h) f"

definition put_cell :: "int \<Rightarrow> daily_field \<Rightarrow> cell \<Rightarrow> winners \<Rightarrow> winners" where
  "put_cell h f c st = AList.update h (AList.update f c (hour_cells st h)) st"

definition offer :: "daily_observation \<Rightarrow> winners \<Rightarrow> winners" where
  "offer ob st =
     (case cell_at st (ob_hour ob) (ob_field ob) of
        None \<Rightarrow> put_cell (ob_hour ob) (ob_field ob) (ob_cell ob) st
      | Some c \<Rightarrow> if ce_rank (ob_cell ob) < ce_rank c then put_cell (ob_hour ob) (ob_field ob) (ob_cell ob) st else st)"

fun merge_observations ::
  "daily_env \<Rightarrow> summary_key \<Rightarrow> instant \<Rightarrow> json list \<Rightarrow> winners \<Rightarrow> export_error + winners" where
  "merge_observations env key now [] st = Inr st"
| "merge_observations env key now (point # points) st =
     (case daily_time (de_head env) point ''target_at'' of
        Inl e \<Rightarrow> Inl e
      | Inr target \<Rightarrow>
          if target > now then merge_observations env key now points st
          else case observation env point of
            Inl e \<Rightarrow> Inl e
          | Inr None \<Rightarrow> merge_observations env key now points st
          | Inr (Some ob) \<Rightarrow>
              if ob_key ob \<noteq> key then merge_observations env key now points st
              else merge_observations env key now points (offer ob st))"

subsection \<open>The summary\<close>

record daily_summary =
  su_location :: text_bytes
  su_date :: day
  su_slot :: daily_slot
  su_temp_min :: "json option"
  su_temp_max :: "json option"
  su_temp_avg :: "json option"
  su_humidity_avg :: "json option"
  su_precip_sum :: "json option"
  su_precip_occurred :: "bool option"
  su_sky :: "int option"
  su_wind_avg :: "json option"
  su_samples :: nat
  su_providers :: "json list"
  su_partial :: bool

definition cells_of :: "winners \<Rightarrow> daily_field \<Rightarrow> cell list" where
  "cells_of st f = List.map_filter (\<lambda>(h, cs). map_of cs f) st"

definition values_of :: "winners \<Rightarrow> daily_field \<Rightarrow> rat list" where
  "values_of st f = map ce_value (cells_of st f)"

text \<open>\<open>sum(...)\<close> adds from the left and rounds each addition.\<close>

definition decimal_sum :: "rat list \<Rightarrow> rat" where
  "decimal_sum vs = foldl (\<lambda>a v. context_round (a + v)) 0 vs"

definition decimal_avg :: "head_env \<Rightarrow> rat list \<Rightarrow> json option" where
  "decimal_avg env vs =
     (if vs = [] then None else Some (he_float env (context_round (decimal_sum vs / of_nat (length vs)))))"

text \<open>\<open>min(sky, key=lambda v: (-sky[v], v))\<close>: the most frequent code, the smallest of those.\<close>

definition representative :: "rat list \<Rightarrow> rat option" where
  "representative vs =
     (if vs = [] then None
      else Some (snd (Min (set (map (\<lambda>v. (- int (length (filter (\<lambda>x. x = v) vs)), v)) vs)))))"

definition provider_text :: "json \<Rightarrow> text_bytes" where
  "provider_text p = py_str (Some p)"

definition summarize :: "head_env \<Rightarrow> summary_key \<Rightarrow> winners \<Rightarrow> instant \<Rightarrow> daily_summary" where
  "summarize env key st now =
     (case key of (location, day, part) \<Rightarrow>
       let temps = values_of st Temp; rain = cells_of st Precip; amounts = values_of st Precip;
           unknown = list_ex ce_unknown rain;
           covered = (int (length rain) = snd (slot_hours part) - fst (slot_hours part));
           wet = (unknown \<or> list_ex (\<lambda>v. v > 0) amounts)
       in \<lparr>su_location = location, su_date = day, su_slot = part,
           su_temp_min = (if temps = [] then None else Some (he_float env (Min (set temps)))),
           su_temp_max = (if temps = [] then None else Some (he_float env (Max (set temps)))),
           su_temp_avg = decimal_avg env temps,
           su_humidity_avg = decimal_avg env (values_of st Humidity),
           su_precip_sum = (if covered \<and> \<not> unknown then Some (he_float env (decimal_sum amounts)) else None),
           su_precip_occurred = (if wet then Some True else if covered then Some False else None),
           su_sky = map_option floor (representative (values_of st Sky)),
           su_wind_avg = decimal_avg env (values_of st Wind),
           su_samples = length st,
           su_providers = map JStr (sorted_set (map (provider_text \<circ> ce_provider) (concat (map (map snd \<circ> snd) st)))),
           su_partial = (now < kst_midnight day + hours (snd (slot_hours part)))\<rparr>)"

subsection \<open>The winners as a table of best candidates\<close>

lemma hour_cells_update: "hour_cells (AList.update h cs st) h' = (if h' = h then cs else hour_cells st h')"
  by (simp add: hour_cells_def update_conv')

lemma cell_at_put: "cell_at (put_cell h f c st) h' f' = (if h' = h \<and> f' = f then Some c else cell_at st h' f')"
  by (simp add: cell_at_def put_cell_def hour_cells_update update_conv')

definition cell_lookup :: "winners \<Rightarrow> int \<times> daily_field \<Rightarrow> cell option" where
  "cell_lookup st k = cell_at st (fst k) (snd k)"

definition cell_key :: "daily_observation \<Rightarrow> int \<times> daily_field" where
  "cell_key ob = (ob_hour ob, ob_field ob)"

interpretation daily: keyed_winner cell_lookup cell_key ob_cell "\<lambda>a b. ce_rank a \<le> ce_rank b" offer
  by unfold_locales (auto simp: cell_lookup_def cell_key_def offer_def cell_at_put not_le split: option.splits)

text \<open>The observations a merge accepts.\<close>

definition accepted :: "daily_env \<Rightarrow> summary_key \<Rightarrow> instant \<Rightarrow> json \<Rightarrow> daily_observation option" where
  "accepted env key now point =
     (case daily_time (de_head env) point ''target_at'' of
        Inl _ \<Rightarrow> None
      | Inr target \<Rightarrow>
          if target > now then None
          else case observation env point of
            Inr (Some ob) \<Rightarrow> if ob_key ob = key then Some ob else None | _ \<Rightarrow> None)"

lemma merge_is_fold:
  "merge_observations env key now points st = Inr st' \<Longrightarrow>
     st' = fold offer (List.map_filter (accepted env key now) points) st"
  by (induction points arbitrary: st)
    (auto simp: List.map_filter_simps accepted_def split: sum.splits option.splits if_splits)

subsection \<open>Winners do not depend on how they were fed\<close>

text \<open>The points of a summary arrive over many ticks: each batch has its own clock.\<close>

fun merge_batches ::
  "daily_env \<Rightarrow> summary_key \<Rightarrow> (instant \<times> json list) list \<Rightarrow> winners \<Rightarrow> export_error + winners" where
  "merge_batches env key [] st = Inr st"
| "merge_batches env key ((now, points) # bs) st =
     (case merge_observations env key now points st of Inl e \<Rightarrow> Inl e | Inr st' \<Rightarrow> merge_batches env key bs st')"

definition all_accepted :: "daily_env \<Rightarrow> summary_key \<Rightarrow> (instant \<times> json list) list \<Rightarrow> daily_observation list" where
  "all_accepted env key bs = concat (map (\<lambda>(now, points). List.map_filter (accepted env key now) points) bs)"

lemma batches_are_fold:
  "merge_batches env key bs st = Inr st' \<Longrightarrow> st' = fold offer (all_accepted env key bs) st"
  by (induction bs arbitrary: st) (auto simp: all_accepted_def dest!: merge_is_fold split: sum.splits)

definition past_points :: "daily_env \<Rightarrow> (instant \<times> json list) list \<Rightarrow> json set \<Rightarrow> bool" where
  "past_points env bs ps \<longleftrightarrow>
     (\<forall>b\<in>set bs. \<forall>p\<in>ps. case daily_time (de_head env) p ''target_at'' of Inl _ \<Rightarrow> True | Inr t \<Rightarrow> t \<le> fst b)"

definition batch_points :: "(instant \<times> json list) list \<Rightarrow> json set" where
  "batch_points bs = set (concat (map snd bs))"

definition accepted_ever :: "daily_env \<Rightarrow> summary_key \<Rightarrow> json \<Rightarrow> daily_observation option" where
  "accepted_ever env key point =
     (case daily_time (de_head env) point ''target_at'' of
        Inl _ \<Rightarrow> None | Inr t \<Rightarrow> accepted env key t point)"

lemma accepted_past:
  assumes "case daily_time (de_head env) p ''target_at'' of Inl _ \<Rightarrow> True | Inr t \<Rightarrow> t \<le> now"
  shows "accepted env key now p = accepted_ever env key p"
  using assms by (auto simp: accepted_def accepted_ever_def split: sum.splits)

lemma all_accepted_set:
  assumes "past_points env bs (batch_points bs)"
  shows "set (all_accepted env key bs) = {ob. \<exists>p\<in>batch_points bs. accepted_ever env key p = Some ob}"
proof -
  have "set (all_accepted env key bs) = {ob. \<exists>b\<in>set bs. \<exists>p\<in>set (snd b). accepted env key (fst b) p = Some ob}"
    by (force simp: all_accepted_def map_filter_set)
  also have "\<dots> = {ob. \<exists>b\<in>set bs. \<exists>p\<in>set (snd b). accepted_ever env key p = Some ob}"
  proof -
    have "accepted env key (fst b) p = accepted_ever env key p" if "b \<in> set bs" "p \<in> set (snd b)" for b p
      using that assms by (intro accepted_past) (auto simp: past_points_def batch_points_def)
    then show ?thesis by auto
  qed
  finally show ?thesis by (auto simp: batch_points_def)
qed

lemma observation_digest:
  "observation env p = Inr (Some ob) \<Longrightarrow> snd (snd (snd (ce_rank (ob_cell ob)))) = digest_json (de_head env) p"
  by (auto simp: observation_def make_cell_def split: sum.splits option.splits if_splits)

lemma accepted_observation: "accepted_ever env key p = Some ob \<Longrightarrow> observation env p = Inr (Some ob) \<and> ob_key ob = key"
  by (auto simp: accepted_ever_def accepted_def split: sum.splits option.splits if_splits)

lemma cell_lookup_empty: "cell_lookup [] k = None"
  by (simp add: cell_lookup_def cell_at_def hour_cells_def)

text \<open>
  C21: The winners of a day depend only on what was published, not on how it reached the collector.
  The same points, cut into other batches, read in another order or read again after a retry, leave
  the same winner for every hour and field, provided that no point lay in the future of the clock of
  a batch it was read in (the merge drops those) and no two of the points share a digest.
\<close>

theorem daily_winners_ignore_order:
  assumes "merge_batches env key bs [] = Inr st" "merge_batches env key bs' [] = Inr st'"
    and same: "batch_points bs = batch_points bs'"
    and past: "past_points env bs (batch_points bs)" "past_points env bs' (batch_points bs')"
    and collision_free: "inj_on (digest_json (de_head env)) (batch_points bs)"
  shows "cell_at st h f = cell_at st' h f"
proof -
  let ?xs = "all_accepted env key bs" and ?ys = "all_accepted env key bs'"
  have sets: "set ?xs = set ?ys" using all_accepted_set [OF past(1)] all_accepted_set [OF past(2)] same by simp
  have ties: "ob_cell x = ob_cell y"
    if "x \<in> set ?xs" "y \<in> set ?xs" "ce_rank (ob_cell x) \<le> ce_rank (ob_cell y)" "ce_rank (ob_cell y) \<le> ce_rank (ob_cell x)" for x y
  proof -
    from that(1,2) obtain p q where p: "p \<in> batch_points bs" "observation env p = Inr (Some x)"
      and q: "q \<in> batch_points bs" "observation env q = Inr (Some y)"
      using all_accepted_set [OF past(1)] accepted_observation by blast
    from observation_digest [OF p(2)] observation_digest [OF q(2)] order_antisym [OF that(3,4)]
    have "digest_json (de_head env) p = digest_json (de_head env) q" by simp
    from inj_onD [OF collision_free this p(1) q(1)] have "p = q" .
    with p(2) q(2) show ?thesis by simp
  qed
  have "cell_lookup (fold offer ?xs []) (h, f) = cell_lookup (fold offer ?ys []) (h, f)"
    by (rule daily.order_free [OF sets cell_lookup_empty cell_lookup_empty ties])
  with batches_are_fold [OF assms(1)] batches_are_fold [OF assms(2)] show ?thesis by (simp add: cell_lookup_def)
qed


subsection \<open>What a dry part of the day means\<close>

text \<open>Winners as a merge leaves them: one entry per hour of the part, rain amounts not negative.\<close>

definition winners_ok :: "daily_slot \<Rightarrow> winners \<Rightarrow> bool" where
  "winners_ok part st \<longleftrightarrow>
     distinct (map fst st) \<and> (\<forall>h\<in>fst ` set st. fst (slot_hours part) \<le> h \<and> h < snd (slot_hours part))
     \<and> (\<forall>h c. cell_at st h Precip = Some c \<longrightarrow> 0 \<le> ce_value c)"

lemma slot_of_hours:
  "part_of h = Some part \<Longrightarrow> fst (slot_hours part) \<le> h" "part_of h = Some part \<Longrightarrow> h < snd (slot_hours part)"
  by (auto simp: part_of_def SLOTS_def split: if_splits)

lemma measured_rain: "measured point t n = Some (Precip, v, s) \<Longrightarrow> 0 \<le> v"
  by (auto simp: measured_def rain_row_def Let_def split: if_splits)

lemma observation_ok:
  assumes "observation env p = Inr (Some ob)"
  shows "fst (slot_hours (snd (snd (ob_key ob)))) \<le> ob_hour ob" "ob_hour ob < snd (slot_hours (snd (snd (ob_key ob))))"
    "ob_field ob = Precip \<Longrightarrow> 0 \<le> ce_value (ob_cell ob)"
  using assms
  by (auto simp: observation_def make_cell_def measured_rain slot_of_hours split: sum.splits option.splits if_splits)

lemma keys_put: "fst ` set (put_cell h f c st) = insert h (fst ` set st)"
  using dom_update [of h "AList.update f c (hour_cells st h)" st] by (simp add: put_cell_def)

lemma winners_ok_put:
  assumes "winners_ok part st" "fst (slot_hours part) \<le> h" "h < snd (slot_hours part)" "f = Precip \<longrightarrow> 0 \<le> ce_value c"
  shows "winners_ok part (put_cell h f c st)"
proof -
  have "distinct (map fst (put_cell h f c st))" using assms(1) by (simp add: put_cell_def winners_ok_def distinct_update)
  then show ?thesis using assms by (auto simp: winners_ok_def keys_put cell_at_put split: if_splits)
qed

lemma winners_ok_offer:
  "winners_ok part st \<Longrightarrow> observation env p = Inr (Some ob) \<Longrightarrow> snd (snd (ob_key ob)) = part \<Longrightarrow> winners_ok part (offer ob st)"
  using observation_ok [of env p ob]
  by (auto simp: offer_def intro!: winners_ok_put split: option.split)

lemma winners_ok_merge:
  "merge_observations env key now points st = Inr st' \<Longrightarrow> winners_ok (snd (snd key)) st \<Longrightarrow> winners_ok (snd (snd key)) st'"
  by (induction points arbitrary: st)
    (auto split: sum.splits option.splits if_splits dest: winners_ok_offer)

lemma winners_ok_batches:
  "merge_batches env key bs st = Inr st' \<Longrightarrow> winners_ok (snd (snd key)) st \<Longrightarrow> winners_ok (snd (snd key)) st'"
proof (induction bs arbitrary: st)
  case (Cons b bs)
  then show ?case by (cases b) (auto split: sum.splits intro: winners_ok_merge)
qed simp

lemma winners_ok_empty: "winners_ok part []"
  by (simp add: winners_ok_def cell_at_def hour_cells_def)

lemma cell_at_Some:
  assumes "distinct (map fst st)"
  shows "cell_at st h f = Some c \<longleftrightarrow> (\<exists>cs. (h, cs) \<in> set st \<and> map_of cs f = Some c)"
proof -
  have "(h, cs) \<in> set st \<longleftrightarrow> map_of st h = Some cs" for cs using assms by (simp add: map_of_eq_Some_iff)
  then show ?thesis by (auto simp: cell_at_def hour_cells_def split: option.split)
qed

lemma cells_of_set:
  assumes "distinct (map fst st)"
  shows "c \<in> set (cells_of st f) \<longleftrightarrow> (\<exists>h. cell_at st h f = Some c)"
  by (force simp: cells_of_def map_filter_set cell_at_Some [OF assms])

lemma cell_at_hour: "cell_at st h f = Some c \<Longrightarrow> h \<in> fst ` set st"
  by (cases "map_of st h") (force simp: cell_at_def hour_cells_def dest: map_of_SomeD)+

lemma length_cells_of:
  assumes "distinct (map fst st)"
  shows "length (cells_of st f) = card {h. cell_at st h f \<noteq> None}"
proof -
  have "length (cells_of st f) = length (filter (\<lambda>(h, cs). map_of cs f \<noteq> None) st)"
    by (induction st) (auto simp: cells_of_def List.map_filter_simps split: option.splits)
  also have "\<dots> = card (fst ` set (filter (\<lambda>(h, cs). map_of cs f \<noteq> None) st))"
    using assms by (metis (no_types) distinct_card distinct_map_filter length_map list.set_map)
  also have "fst ` set (filter (\<lambda>(h, cs). map_of cs f \<noteq> None) st) = {h. cell_at st h f \<noteq> None}"
  proof (rule set_eqI)
    fix h
    have "h \<in> fst ` set (filter (\<lambda>(h, cs). map_of cs f \<noteq> None) st) \<longleftrightarrow> (\<exists>cs c. (h, cs) \<in> set st \<and> map_of cs f = Some c)"
      by force
    also have "\<dots> \<longleftrightarrow> (\<exists>c. cell_at st h f = Some c)" unfolding cell_at_Some [OF assms] by blast
    finally show "h \<in> fst ` set (filter (\<lambda>(h, cs). map_of cs f \<noteq> None) st) \<longleftrightarrow> h \<in> {h. cell_at st h f \<noteq> None}" by simp
  qed
  finally show ?thesis .
qed

lemma covered_hours:
  assumes "winners_ok part st"
  shows "int (length (cells_of st Precip)) = snd (slot_hours part) - fst (slot_hours part)
    \<longleftrightarrow> (\<forall>h. fst (slot_hours part) \<le> h \<and> h < snd (slot_hours part) \<longrightarrow> cell_at st h Precip \<noteq> None)"
proof -
  let ?H = "{h. cell_at st h Precip \<noteq> None}" and ?I = "{fst (slot_hours part)..<snd (slot_hours part)}"
  have sub: "?H \<subseteq> ?I"
  proof
    fix h assume "h \<in> ?H"
    then have "h \<in> fst ` set st" by (auto dest: cell_at_hour)
    with assms show "h \<in> ?I" by (auto simp: winners_ok_def)
  qed
  have width: "int (card ?I) = snd (slot_hours part) - fst (slot_hours part)" by (cases part) simp_all
  have "card ?H = card ?I \<longleftrightarrow> ?H = ?I" using sub by (metis card_subset_eq finite_atLeastLessThan_int)
  with sub width length_cells_of [of st Precip] assms show ?thesis by (auto simp: winners_ok_def)
qed

lemma every_hour:
  assumes inside: "\<And>h c. F h = Some c \<Longrightarrow> I h"
  shows "(\<not> (\<exists>h c. F h = Some c \<and> U c)) \<and> (\<forall>h. I h \<longrightarrow> F h \<noteq> None)
    \<longleftrightarrow> (\<forall>h. I h \<longrightarrow> (\<exists>c. F h = Some c \<and> \<not> U c))" (is "?a = ?b")
proof
  assume ?a
  then show ?b by blast
next
  assume b: ?b
  have "\<not> U c" if "F h = Some c" for h c
  proof -
    from b inside [OF that] obtain d where "F h = Some d" "\<not> U d" by blast
    with that show ?thesis by simp
  qed
  with b show ?a by auto
qed

text \<open>C22: A part of a day is called dry, and given a sum of rain, only on the evidence of every hour.
In a summary of merged observations, no rain is stated exactly when each hour of the part has a
winner that measured zero and does not stand for less than a millimetre; a sum is given exactly
when each hour has an amount that is known.\<close>

theorem dry_needs_every_hour:
  assumes "merge_batches env (location, day, part) bs [] = Inr st"
  shows "(su_precip_occurred (summarize henv (location, day, part) st now) = Some False \<longleftrightarrow>
      (\<forall>h. fst (slot_hours part) \<le> h \<and> h < snd (slot_hours part) \<longrightarrow>
        (\<exists>c. cell_at st h Precip = Some c \<and> ce_value c = 0 \<and> \<not> ce_unknown c)))
    \<and> (su_precip_sum (summarize henv (location, day, part) st now) \<noteq> None \<longleftrightarrow>
      (\<forall>h. fst (slot_hours part) \<le> h \<and> h < snd (slot_hours part) \<longrightarrow>
        (\<exists>c. cell_at st h Precip = Some c \<and> \<not> ce_unknown c)))"
proof -
  have ok: "winners_ok part st" using winners_ok_batches [OF assms] winners_ok_empty by simp
  then have dist: "distinct (map fst st)" by (simp add: winners_ok_def)
  let ?in = "\<lambda>h. fst (slot_hours part) \<le> h \<and> h < snd (slot_hours part)"
  have inside: "?in h" if "cell_at st h Precip = Some c" for h c
  proof -
    from that have "h \<in> fst ` set st" by (rule cell_at_hour)
    with ok show ?thesis by (auto simp: winners_ok_def)
  qed
  have unknown: "list_ex ce_unknown (cells_of st Precip) \<longleftrightarrow> (\<exists>h c. cell_at st h Precip = Some c \<and> ce_unknown c)"
    unfolding list_ex_iff Bex_def cells_of_set [OF dist] by blast
  have positive: "list_ex (\<lambda>v. v > 0) (values_of st Precip) \<longleftrightarrow> (\<exists>h c. cell_at st h Precip = Some c \<and> ce_value c \<noteq> 0)"
  proof -
    have "list_ex (\<lambda>v. v > 0) (values_of st Precip) \<longleftrightarrow> (\<exists>c. c \<in> set (cells_of st Precip) \<and> 0 < ce_value c)"
      by (auto simp: list_ex_iff values_of_def)
    also have "\<dots> \<longleftrightarrow> (\<exists>h c. cell_at st h Precip = Some c \<and> 0 < ce_value c)"
      unfolding cells_of_set [OF dist] by blast
    also have "\<dots> \<longleftrightarrow> (\<exists>h c. cell_at st h Precip = Some c \<and> ce_value c \<noteq> 0)"
      using ok unfolding winners_ok_def by (metis order_less_le)
    finally show ?thesis .
  qed
  let ?U = "\<exists>h c. cell_at st h Precip = Some c \<and> ce_unknown c" and ?N = "\<exists>h c. cell_at st h Precip = Some c \<and> ce_value c \<noteq> 0"
    and ?C = "\<forall>h. ?in h \<longrightarrow> cell_at st h Precip \<noteq> None"
  have occurred: "su_precip_occurred (summarize henv (location, day, part) st now)
      = (if ?U \<or> ?N then Some True else if ?C then Some False else None)"
    unfolding summarize_def Let_def prod.case daily_summary.simps covered_hours [OF ok] unknown positive ..
  have summed: "su_precip_sum (summarize henv (location, day, part) st now)
      = (if ?C \<and> \<not> ?U then Some (he_float henv (decimal_sum (values_of st Precip))) else None)"
    unfolding summarize_def Let_def prod.case daily_summary.simps covered_hours [OF ok] unknown ..
  have "su_precip_occurred (summarize henv (location, day, part) st now) = Some False \<longleftrightarrow> \<not> ?U \<and> \<not> ?N \<and> ?C"
    unfolding occurred by simp
  moreover have "su_precip_sum (summarize henv (location, day, part) st now) \<noteq> None \<longleftrightarrow> \<not> ?U \<and> ?C"
    unfolding summed by simp
  moreover have "\<not> ?U \<and> \<not> ?N \<and> ?C \<longleftrightarrow> (\<forall>h. ?in h \<longrightarrow> (\<exists>c. cell_at st h Precip = Some c \<and> ce_value c = 0 \<and> \<not> ce_unknown c))"
    using every_hour [where F = "\<lambda>h. cell_at st h Precip" and I = ?in and U = "\<lambda>c. ce_unknown c \<or> ce_value c \<noteq> 0", OF inside]
    by (simp add: conj_disj_distribL ex_disj_distrib conj_commute conj_left_commute)
  moreover have "\<not> ?U \<and> ?C \<longleftrightarrow> (\<forall>h. ?in h \<longrightarrow> (\<exists>c. cell_at st h Precip = Some c \<and> \<not> ce_unknown c))"
    by (rule every_hour [where F = "\<lambda>h. cell_at st h Precip" and I = ?in, OF inside])
  ultimately show ?thesis by simp
qed

end
