(* ===== verification/Daily_Store.thy ===== *)
theory Daily_Store
  imports Daily_Summary Export_Heads
begin

section \<open>Keeping the daily summaries up to date (export_daily_store.py)\<close>

text \<open>
  A refresh takes the generations after its checkpoint in publication order, reads their files
  outside every transaction, and then merges the observations, renews the coverage rows and moves
  the checkpoint in one transaction that compares the checkpoint with the one it started from.
\<close>

record coverage_row =
  cv_location :: text_bytes
  cv_namespace :: text_bytes
  cv_provider :: text_bytes
  cv_scope :: text_bytes
  cv_nx :: "int option"
  cv_ny :: "int option"
  cv_latitude :: "rat option"
  cv_longitude :: "rat option"
  cv_collected :: instant
  cv_published :: instant
  cv_generation :: text_bytes

record summary_row =
  sm_key :: summary_key
  sm_summary :: daily_summary
  sm_winners :: winners
  sm_updated :: instant

text \<open>The checkpoint row is \<open>daily_checkpoint\<close> of the pipeline's database; \<open>dd_collected\<close> its last column.\<close>

record daily_db =
  dd_db :: export_db
  dd_summaries :: "summary_row list"
  dd_coverage :: "coverage_row list"
  dd_collected :: "instant option"

definition generation_key :: "generation_row \<Rightarrow> instant \<times> text_bytes" where
  "generation_key g = (g_created g, g_id g)"

definition checkpoint_of :: "export_db \<Rightarrow> instant \<times> text_bytes" where
  "checkpoint_of db = (case daily_checkpoint db of None \<Rightarrow> (0, []) | Some c \<Rightarrow> c)"

subsection \<open>The first transaction: what to read\<close>

record daily_work =
  dw_generation :: generation_row
  dw_plan :: plan_row
  dw_refs :: "ref_row list"

definition work_of :: "export_db \<Rightarrow> generation_row \<Rightarrow> daily_work option" where
  "work_of db g =
     (case row_of p_attempt (g_attempt g) (plans db) of
        None \<Rightarrow> None
      | Some p \<Rightarrow> Some \<lparr>dw_generation = g, dw_plan = p,
          dw_refs = sort_key r_ordinal (filter (\<lambda>r. r_generation r = g_id g) (refs db))\<rparr>)"

definition pending_work :: "instant \<times> text_bytes \<Rightarrow> export_db \<Rightarrow> daily_work list" where
  "pending_work after db =
     List.map_filter (work_of db) (sort_key generation_key (filter (\<lambda>g. after < generation_key g) (generations db)))"

subsection \<open>Reading the files\<close>

fun d_grid :: "descriptor \<Rightarrow> (int \<times> int) option" where
  "d_grid (Grid_Scope d) = Some (gs_nx d, gs_ny d)"
| "d_grid _ = None"

fun d_point :: "descriptor \<Rightarrow> (rat \<times> rat) option" where
  "d_point (Retrieval_Scope d) = Some (rs_latitude d, rs_longitude d)"
| "d_point (Sdk_Scope d) = Some (sd_latitude d, sd_longitude d)"
| "d_point _ = None"

definition is_observed :: "daily_work \<Rightarrow> bool" where
  "is_observed w \<longleftrightarrow> d_style (p_descriptor (dw_plan w)) \<in> {''observed'', ''nowcast''}"

definition coverage_rows :: "daily_work \<Rightarrow> coverage_row list" where
  "coverage_rows w =
     (let d = p_descriptor (dw_plan w); g = dw_generation w
      in map (\<lambda>l. \<lparr>cv_location = l, cv_namespace = g_namespace g, cv_provider = d_provider d,
           cv_scope = p_scope (dw_plan w), cv_nx = map_option fst (d_grid d), cv_ny = map_option snd (d_grid d),
           cv_latitude = map_option fst (d_point d), cv_longitude = map_option snd (d_point d),
           cv_collected = g_collected g, cv_published = g_created g, cv_generation = g_id g\<rparr>) (d_locations d))"

text \<open>The points of a file that count for a day not older than 31 days, each with its summary key.\<close>

fun usable_points :: "daily_env \<Rightarrow> day \<Rightarrow> json list \<Rightarrow> export_error + (summary_key \<times> json) list" where
  "usable_points env today [] = Inr []"
| "usable_points env today (p # ps) =
     (case observation env p of
        Inl e \<Rightarrow> Inl e
      | Inr ob \<Rightarrow>
          (case usable_points env today ps of
             Inl e \<Rightarrow> Inl e
           | Inr rest \<Rightarrow>
               (case ob of
                  None \<Rightarrow> Inr rest
                | Some x \<Rightarrow> if today - fst (snd (ob_key x)) \<le> 31 then Inr ((ob_key x, p) # rest) else Inr rest)))"

fun read_refs :: "daily_env \<Rightarrow> directory \<Rightarrow> day \<Rightarrow> ref_row list \<Rightarrow> export_error + (summary_key \<times> json) list" where
  "read_refs env dir today [] = Inr []"
| "read_refs env dir today (r # rs) =
     (case store_read (he_sha256 (de_head env)) (he_loads (de_head env)) dir None (r_digest r) (r_bytes r) (r_points r) of
        Inl e \<Rightarrow> Inl (Artifact_Failure e)
      | Inr points \<Rightarrow>
          (case usable_points env today points of
             Inl e \<Rightarrow> Inl e
           | Inr some \<Rightarrow> (case read_refs env dir today rs of Inl e \<Rightarrow> Inl e | Inr more' \<Rightarrow> Inr (some @ more'))))"

definition MAX_DAILY_POINTS :: int where "MAX_DAILY_POINTS = 5000"

record daily_reading =
  dr_points :: "(summary_key \<times> json) list"
  dr_coverage :: "coverage_row list"
  dr_collected :: "instant option"

fun read_work ::
  "daily_env \<Rightarrow> (text_bytes \<Rightarrow> directory) \<Rightarrow> day \<Rightarrow> daily_work list \<Rightarrow> instant option \<Rightarrow> export_error + daily_reading" where
  "read_work env dir today [] collected = Inr \<lparr>dr_points = [], dr_coverage = [], dr_collected = collected\<rparr>"
| "read_work env dir today (w # ws) collected =
     (if \<not> is_observed w then read_work env dir today ws collected
      else if dw_refs w = [] \<or> sum_list (map r_points (dw_refs w)) > MAX_DAILY_POINTS
      then Inl (Head_Error Point_Limit_Exceeded)
      else case read_refs env (dir (g_id (dw_generation w))) today (dw_refs w) of
        Inl e \<Rightarrow> Inl e
      | Inr points \<Rightarrow>
          (case read_work env dir today ws
                  (Some (case collected of None \<Rightarrow> g_collected (dw_generation w)
                    | Some c \<Rightarrow> max c (g_collected (dw_generation w)))) of
             Inl e \<Rightarrow> Inl e
           | Inr r \<Rightarrow> Inr (r\<lparr>dr_points := points @ dr_points r, dr_coverage := coverage_rows w @ dr_coverage r\<rparr>)))"

subsection \<open>The second transaction: merging under the checkpoint\<close>

definition renew_coverage :: "coverage_row \<Rightarrow> coverage_row list \<Rightarrow> coverage_row list" where
  "renew_coverage new t =
     upsert (\<lambda>c. (cv_location c, cv_namespace c)) (\<lambda>old new. new) new
       (delete_where (\<lambda>c. cv_location c = cv_location new \<and> cv_scope c = cv_scope new \<and> cv_namespace c \<noteq> cv_namespace new) t)"

definition points_for :: "summary_key \<Rightarrow> (summary_key \<times> json) list \<Rightarrow> json list" where
  "points_for key kps = map snd (filter (\<lambda>x. fst x = key) kps)"

text \<open>One key: the row keeps its time of update when its winners stay the same.\<close>

definition merge_key ::
  "daily_env \<Rightarrow> instant \<Rightarrow> summary_key \<Rightarrow> json list \<Rightarrow> summary_row list \<Rightarrow> export_error + summary_row list" where
  "merge_key env now key points t =
     (let old = row_of sm_key key t in
      case merge_observations env key now points (case old of None \<Rightarrow> [] | Some r \<Rightarrow> sm_winners r) of
        Inl e \<Rightarrow> Inl e
      | Inr st \<Rightarrow>
          if map_option sm_winners old = Some st then Inr t
          else Inr (upsert sm_key (\<lambda>old new. new)
            \<lparr>sm_key = key, sm_summary = summarize (de_head env) key st now, sm_winners = st, sm_updated = now\<rparr> t))"

fun merge_keys ::
  "daily_env \<Rightarrow> instant \<Rightarrow> (summary_key \<times> json) list \<Rightarrow> summary_key list \<Rightarrow> summary_row list \<Rightarrow>
   export_error + summary_row list" where
  "merge_keys env now kps [] t = Inr t"
| "merge_keys env now kps (k # ks) t =
     (case merge_key env now k (points_for k kps) t of
        Inl e \<Rightarrow> Inl e | Inr t' \<Rightarrow> merge_keys env now kps ks t')"

datatype refreshed = Nothing_New | Lost_Race | Refreshed nat bool

text \<open>Keys in the order \<open>sorted(grouped.items())\<close>; it only decides the order of independent rows.\<close>

definition daily_keys :: "(summary_key \<times> json) list \<Rightarrow> summary_key list" where
  "daily_keys kps = remdups (map fst kps)"

definition refresh_commit ::
  "daily_env \<Rightarrow> instant \<times> text_bytes \<Rightarrow> instant \<Rightarrow> daily_work list \<Rightarrow> daily_reading \<Rightarrow> daily_db \<Rightarrow>
   export_error + (bool \<times> daily_db)" where
  "refresh_commit env after now work r db =
     (let db0 = (if daily_checkpoint (dd_db db) = None then dd_db db\<lparr>daily_checkpoint := Some after\<rparr> else dd_db db) in
      if daily_checkpoint db0 \<noteq> Some after then Inr (False, db\<lparr>dd_db := db0\<rparr>)
      else case merge_keys env now (dr_points r) (daily_keys (dr_points r)) (dd_summaries db) of
        Inl e \<Rightarrow> Inl e
      | Inr t \<Rightarrow> Inr (True, db\<lparr>
          dd_db := db0\<lparr>daily_checkpoint := Some (generation_key (dw_generation (List.last work)))\<rparr>,
          dd_summaries := t, dd_coverage := fold renew_coverage (dr_coverage r) (dd_coverage db),
          dd_collected := dr_collected r\<rparr>))"

text \<open>
  \<open>other\<close> is what other transactions do while the files are read, \<open>dir\<close> the directory at the reading
  of each generation.
\<close>

definition refresh_daily_summaries ::
  "daily_env \<Rightarrow> (text_bytes \<Rightarrow> directory) \<Rightarrow> int \<Rightarrow> instant \<Rightarrow> (daily_db \<Rightarrow> daily_db) \<Rightarrow> daily_db \<Rightarrow>
   (export_error + refreshed) \<times> daily_db" where
  "refresh_daily_summaries env dir limit now other db =
     (if \<not> (1 \<le> limit \<and> limit \<le> 8) then (Inl Value_Error, db)
      else
        let after = checkpoint_of (dd_db db);
            work = take (nat limit) (pending_work after (dd_db db))
        in if work = [] then (Inr Nothing_New, db)
           else case read_work env dir (kst_day now) work (dd_collected db) of
             Inl e \<Rightarrow> (Inl e, other db)
           | Inr r \<Rightarrow>
               (case refresh_commit env after now work r (other db) of
                  Inl e \<Rightarrow> (Inl e, other db)
                | Inr (False, db') \<Rightarrow> (Inr Lost_Race, db')
                | Inr (True, db') \<Rightarrow> (Inr (Refreshed (length work) (length work = nat limit)), db')))"

subsection \<open>Pruning\<close>

fun slot_text :: "daily_slot \<Rightarrow> text_bytes" where
  "slot_text Morning = ''morning''"
| "slot_text Noon = ''noon''"
| "slot_text Evening = ''evening''"

definition prune_order :: "summary_row \<Rightarrow> day \<times> text_bytes \<times> text_bytes" where
  "prune_order r = (fst (snd (sm_key r)), fst (sm_key r), slot_text (snd (snd (sm_key r))))"

text \<open>\<open>skip\<close> are the rows other transactions hold.\<close>

definition prune_daily_summaries ::
  "int \<Rightarrow> instant \<Rightarrow> summary_key list \<Rightarrow> daily_db \<Rightarrow> export_error + (nat \<times> daily_db)" where
  "prune_daily_summaries limit now skip db =
     (if \<not> (1 \<le> limit \<and> limit \<le> 1000) then Inl Value_Error
      else
        let keys = map sm_key (take (nat limit) (sort_key prune_order
              (filter (\<lambda>r. fst (snd (sm_key r)) < kst_day now - 31 \<and> sm_key r \<notin> set skip) (dd_summaries db))))
        in Inr (length keys, db\<lparr>dd_summaries := delete_where (\<lambda>r. sm_key r \<in> set keys) (dd_summaries db)\<rparr>))"

subsection \<open>What a refresh has merged\<close>

lemma merge_key_row:
  assumes "merge_key env now key points t = Inr t'"
  shows "\<exists>row st. row_of sm_key key t' = Some row \<and> merge_observations env key now points st = Inr (sm_winners row)"
    and "k \<noteq> key \<Longrightarrow> row_of sm_key k t' = row_of sm_key k t"
  using assms by (auto simp: merge_key_def row_of_upsert Let_def split: sum.splits if_splits option.splits)

lemma merge_keys_other: "merge_keys env now kps ks t = Inr t' \<Longrightarrow> k \<notin> set ks \<Longrightarrow> row_of sm_key k t' = row_of sm_key k t"
  by (induction ks arbitrary: t) (auto split: sum.splits simp: merge_key_row(2))

lemma merge_keys_row:
  "merge_keys env now kps ks t = Inr t' \<Longrightarrow> distinct ks \<Longrightarrow> k \<in> set ks \<Longrightarrow>
    \<exists>row st. row_of sm_key k t' = Some row \<and> merge_observations env k now (points_for k kps) st = Inr (sm_winners row)"
proof (induction ks arbitrary: t)
  case (Cons x ks)
  from Cons.prems(1) obtain u where u: "merge_key env now x (points_for x kps) t = Inr u" "merge_keys env now kps ks u = Inr t'"
    by (auto split: sum.splits)
  show ?case
  proof (cases "k = x")
    case True
    with merge_keys_other [OF u(2), of x] merge_key_row(1) [OF u(1)] Cons.prems(2) show ?thesis by simp
  next
    case False
    with Cons.IH [OF u(2)] Cons.prems(2,3) show ?thesis by simp
  qed
qed simp

lemma usable_point:
  "usable_points env today ps = Inr kps \<Longrightarrow> p \<in> set ps \<Longrightarrow> observation env p = Inr (Some ob) \<Longrightarrow>
    today - fst (snd (ob_key ob)) \<le> 31 \<Longrightarrow> (ob_key ob, p) \<in> set kps"
proof (induction ps arbitrary: kps)
  case (Cons q ps)
  then show ?case by (auto split: sum.splits option.splits if_splits)
qed simp

lemma read_refs_point:
  "read_refs env dir today rs = Inr kps \<Longrightarrow> r \<in> set rs \<Longrightarrow>
    store_read (he_sha256 (de_head env)) (he_loads (de_head env)) dir None (r_digest r) (r_bytes r) (r_points r) = Inr ps \<Longrightarrow>
    p \<in> set ps \<Longrightarrow> observation env p = Inr (Some ob) \<Longrightarrow> today - fst (snd (ob_key ob)) \<le> 31 \<Longrightarrow> (ob_key ob, p) \<in> set kps"
proof (induction rs arbitrary: kps)
  case (Cons q rs)
  then show ?case by (auto split: sum.splits intro: usable_point)
qed simp

lemma read_work_point:
  "read_work env dir today ws c = Inr r \<Longrightarrow> w \<in> set ws \<Longrightarrow> is_observed w \<Longrightarrow>
    \<exists>kps. read_refs env (dir (g_id (dw_generation w))) today (dw_refs w) = Inr kps \<and> set kps \<subseteq> set (dr_points r)"
proof (induction ws arbitrary: c r)
  case (Cons v ws)
  show ?case
  proof (cases "is_observed v")
    case False
    with Cons show ?thesis by auto
  next
    case True
    with Cons.prems(1) obtain kps c' r' where v: "read_refs env (dir (g_id (dw_generation v))) today (dw_refs v) = Inr kps"
      "read_work env dir today ws c' = Inr r'" "dr_points r = kps @ dr_points r'"
      by (auto split: sum.splits if_splits)
    show ?thesis
    proof (cases "w = v")
      case True
      with v show ?thesis by auto
    next
      case False
      with Cons.IH [OF v(2)] Cons.prems(2,3) v(3) show ?thesis by auto
    qed
  qed
qed simp

lemma work_of_generation: "work_of db g = Some w \<Longrightarrow> dw_generation w = g"
  by (auto simp: work_of_def split: option.splits)

lemma pending_work_generations:
  "map dw_generation (pending_work after db)
    = filter (\<lambda>g. work_of db g \<noteq> None) (sort_key generation_key (filter (\<lambda>g. after < generation_key g) (generations db)))"
proof -
  have "map dw_generation (List.map_filter (work_of db) gs) = filter (\<lambda>g. work_of db g \<noteq> None) gs" for gs
    by (induction gs) (auto simp: List.map_filter_simps dest: work_of_generation split: option.splits)
  then show ?thesis by (simp add: pending_work_def)
qed

lemma in_pending_work:
  "w \<in> set (pending_work after db) \<longleftrightarrow> (\<exists>g\<in>set (generations db). after < generation_key g \<and> work_of db g = Some w)"
  by (auto simp: pending_work_def map_filter_set)

lemma pending_work_sorted: "sorted (map (generation_key \<circ> dw_generation) (pending_work after db))"
proof -
  have "sorted (map generation_key (map dw_generation (pending_work after db)))"
    unfolding pending_work_generations by (intro sorted_filter sorted_sort_key)
  then show ?thesis by simp
qed

lemma pending_work_distinct:
  assumes "keyed g_id (generations db)"
  shows "distinct (map (generation_key \<circ> dw_generation) (pending_work after db))"
proof -
  have "distinct (map g_id (sort_key generation_key (filter P (generations db))))" for P
    using assms unfolding keyed_def by (simp add: distinct_map inj_on_def)
  then have "distinct (map g_id (map dw_generation (pending_work after db)))"
    unfolding pending_work_generations by (simp only: distinct_map_filter)
  then show ?thesis by (auto simp: distinct_map inj_on_def generation_key_def)
qed

lemma pending_work_take:
  assumes keys: "keyed g_id (generations db)" and g: "g \<in> set (generations db)" "work_of db g = Some w" "after < generation_key g"
    and n: "0 < n"
  shows "w \<in> set (take n (pending_work after db))
    \<or> generation_key (dw_generation (List.last (take n (pending_work after db)))) < generation_key g
      \<and> length (take n (pending_work after db)) = n"
proof -
  let ?W = "pending_work after db" and ?key = "generation_key \<circ> dw_generation"
  have "w \<in> set ?W" using g by (auto simp: in_pending_work)
  then obtain j where j: "j < length ?W" "?W ! j = w" by (auto simp: in_set_conv_nth)
  show ?thesis
  proof (cases "j < n")
    case True
    then have "j < length (take n ?W)" "take n ?W ! j = w" using j by simp_all
    then show ?thesis by (metis nth_mem)
  next
    case False
    then have len: "length (take n ?W) = n" using j(1) by simp
    moreover have "take n ?W \<noteq> []" using len n by auto
    ultimately have last: "List.last (take n ?W) = ?W ! (n - 1)" using n by (simp add: last_conv_nth)
    have "?key (?W ! (n - 1)) \<le> ?key (?W ! j)"
      using sorted_nth_mono [OF pending_work_sorted, of "n - 1" j after db] j(1) False by simp
    moreover have "?key (?W ! (n - 1)) \<noteq> ?key (?W ! j)"
      using nth_eq_iff_index_eq [OF pending_work_distinct [OF keys], of "n - 1" after j] j(1) False n by simp
    ultimately have "?key (?W ! (n - 1)) < ?key (?W ! j)" by (rule order.not_eq_order_implies_strict [rotated])
    then show ?thesis using last len j(2) work_of_generation [OF g(2)] by simp
  qed
qed

lemma refresh_Refreshed:
  assumes "refresh_daily_summaries env dir limit now other db = (Inr (Refreshed n m), db')"
  obtains r t where "1 \<le> limit"
    "take (nat limit) (pending_work (checkpoint_of (dd_db db)) (dd_db db)) \<noteq> []"
    "read_work env dir (kst_day now) (take (nat limit) (pending_work (checkpoint_of (dd_db db)) (dd_db db))) (dd_collected db) = Inr r"
    "merge_keys env now (dr_points r) (daily_keys (dr_points r)) (dd_summaries (other db)) = Inr t"
    "dd_summaries db' = t" "n = length (take (nat limit) (pending_work (checkpoint_of (dd_db db)) (dd_db db)))"
    "m \<longleftrightarrow> n = nat limit"
    "daily_checkpoint (dd_db db') = Some (generation_key (dw_generation (List.last
      (take (nat limit) (pending_work (checkpoint_of (dd_db db)) (dd_db db))))))"
  using assms
  by (auto simp: refresh_daily_summaries_def refresh_commit_def Let_def split: if_splits sum.splits bool.splits)

lemma sorted_le_last: "sorted (map f xs) \<Longrightarrow> x \<in> set xs \<Longrightarrow> f x \<le> f (List.last xs)"
  by (induction xs) auto

lemma merged_rank:
  assumes "merge_observations env key now points st = Inr st'" "p \<in> set points"
    "observation env p = Inr (Some ob)" "ob_key ob = key" "daily_time (de_head env) p ''target_at'' = Inr t" "t \<le> now"
  shows "\<exists>c. cell_at st' (ob_hour ob) (ob_field ob) = Some c \<and> ce_rank c \<le> ce_rank (ob_cell ob)"
proof -
  have "accepted env key now p = Some ob" using assms(3-6) by (simp add: accepted_def)
  with assms(2) have "ob \<in> set (List.map_filter (accepted env key now) points)" by (auto simp: map_filter_set)
  from daily.offered [OF this] merge_is_fold [OF assms(1)] show ?thesis by (simp add: cell_lookup_def cell_key_def)
qed

text \<open>
  C20: A refresh passes over no observation it is asked to keep.  When it moves the checkpoint, the
  checkpoint grows, and of the generations that were readable in its first transaction and lie after
  the old and not after the new checkpoint, every observation is in the summaries: its hour and
  field have a winner of at least its rank.  Observations of days more than 31 days ago and those
  whose time is later than the clock of the tick are passed over for good.  If the refresh
  reports nothing more to do, no generation readable in that transaction lies beyond the new
  checkpoint.
\<close>

theorem daily_refresh_passes_over_nothing:
  assumes refresh: "refresh_daily_summaries env dir limit now other db = (Inr (Refreshed n more_to_do), db')"
    and keys: "keyed g_id (generations (dd_db db))"
  shows "checkpoint_of (dd_db db) < checkpoint_of (dd_db db')
    \<and> (\<forall>g\<in>set (generations (dd_db db)). \<forall>w r ps p ob t.
         checkpoint_of (dd_db db) < generation_key g \<and> generation_key g \<le> checkpoint_of (dd_db db')
         \<and> work_of (dd_db db) g = Some w \<and> is_observed w \<and> r \<in> set (dw_refs w)
         \<and> store_read (he_sha256 (de_head env)) (he_loads (de_head env)) (dir (g_id g)) None (r_digest r) (r_bytes r) (r_points r) = Inr ps
         \<and> p \<in> set ps \<and> observation env p = Inr (Some ob) \<and> kst_day now - fst (snd (ob_key ob)) \<le> 31
         \<and> daily_time (de_head env) p ''target_at'' = Inr t \<and> t \<le> now
         \<longrightarrow> (\<exists>row c. row_of sm_key (ob_key ob) (dd_summaries db') = Some row
               \<and> cell_at (sm_winners row) (ob_hour ob) (ob_field ob) = Some c \<and> ce_rank c \<le> ce_rank (ob_cell ob)))
    \<and> (\<not> more_to_do \<longrightarrow> (\<forall>g\<in>set (generations (dd_db db)). work_of (dd_db db) g \<noteq> None \<longrightarrow>
         generation_key g \<le> checkpoint_of (dd_db db')))"
proof (intro conjI ballI allI impI)
  let ?after = "checkpoint_of (dd_db db)"
  let ?W = "take (nat limit) (pending_work ?after (dd_db db))"
  from refresh obtain r t where limit: "1 \<le> limit" and ne: "?W \<noteq> []"
    and read: "read_work env dir (kst_day now) ?W (dd_collected db) = Inr r"
    and merged: "merge_keys env now (dr_points r) (daily_keys (dr_points r)) (dd_summaries (other db)) = Inr t"
    and t: "dd_summaries db' = t" and n: "n = length ?W" "more_to_do \<longleftrightarrow> n = nat limit"
    and checkpoint: "daily_checkpoint (dd_db db') = Some (generation_key (dw_generation (List.last ?W)))"
    by (rule refresh_Refreshed)
  have new: "checkpoint_of (dd_db db') = generation_key (dw_generation (List.last ?W))"
    using checkpoint by (simp add: checkpoint_of_def)
  have "List.last ?W \<in> set (pending_work ?after (dd_db db))" using last_in_set [OF ne] set_take_subset by fast
  then show "?after < checkpoint_of (dd_db db')" unfolding new in_pending_work by (auto dest: work_of_generation)
  note take = pending_work_take [OF keys, where n = "nat limit" and after = ?after]
  {
    fix g w ref ps p ob tm
    assume g: "g \<in> set (generations (dd_db db))" and a: "?after < generation_key g \<and> generation_key g \<le> checkpoint_of (dd_db db')
         \<and> work_of (dd_db db) g = Some w \<and> is_observed w \<and> ref \<in> set (dw_refs w)
         \<and> store_read (he_sha256 (de_head env)) (he_loads (de_head env)) (dir (g_id g)) None (r_digest ref) (r_bytes ref) (r_points ref) = Inr ps
         \<and> p \<in> set ps \<and> observation env p = Inr (Some ob) \<and> kst_day now - fst (snd (ob_key ob)) \<le> 31
         \<and> daily_time (de_head env) p ''target_at'' = Inr tm \<and> tm \<le> now"
    from take [OF g, of w] a limit new have w: "w \<in> set ?W" by auto
    from read_work_point [OF read w] a work_of_generation obtain kps where
      kps: "read_refs env (dir (g_id g)) (kst_day now) (dw_refs w) = Inr kps" "set kps \<subseteq> set (dr_points r)" by blast
    from read_refs_point [OF kps(1)] a kps(2) have in_points: "(ob_key ob, p) \<in> set (dr_points r)" by blast
    then have key: "ob_key ob \<in> set (daily_keys (dr_points r))" by (force simp: daily_keys_def)
    from merge_keys_row [OF merged _ this] obtain row st where
      row: "row_of sm_key (ob_key ob) t = Some row"
        "merge_observations env (ob_key ob) now (points_for (ob_key ob) (dr_points r)) st = Inr (sm_winners row)"
      by (auto simp: daily_keys_def)
    have "p \<in> set (points_for (ob_key ob) (dr_points r))" using in_points by (force simp: points_for_def)
    from merged_rank [OF row(2) this] a
    show "\<exists>row c. row_of sm_key (ob_key ob) (dd_summaries db') = Some row
               \<and> cell_at (sm_winners row) (ob_hour ob) (ob_field ob) = Some c \<and> ce_rank c \<le> ce_rank (ob_cell ob)"
      using row(1) t by blast
  }
  fix g assume over: "\<not> more_to_do" and g: "g \<in> set (generations (dd_db db))" and "work_of (dd_db db) g \<noteq> None"
  then obtain w where w: "work_of (dd_db db) g = Some w" by blast
  have short: "length ?W < nat limit" using over n by (simp add: min_def split: if_splits)
  show "generation_key g \<le> checkpoint_of (dd_db db')"
  proof (cases "?after < generation_key g")
    case False
    with \<open>?after < checkpoint_of (dd_db db')\<close> show ?thesis by auto
  next
    case True
    from take [OF g w True] limit short have "w \<in> set ?W" by auto
    moreover have "sorted (map (generation_key \<circ> dw_generation) ?W)"
      using pending_work_sorted [of ?after "dd_db db"] by (simp add: take_map [symmetric] sorted_wrt_take)
    ultimately have "generation_key (dw_generation w) \<le> generation_key (dw_generation (List.last ?W))"
      using sorted_le_last [of "generation_key \<circ> dw_generation"] by auto
    with new work_of_generation [OF w] show ?thesis by simp
  qed
qed

end
