(* ===== verification/Daily_Example.thy ===== *)
theory Daily_Example
  imports Daily_Store Export_Example
begin

section \<open>Daily summaries of two points\<close>

text \<open>One temperature and one humidity at noon, read from one file of one generation.\<close>

definition n_env :: daily_env where
  "n_env = \<lparr>de_head = x_env\<lparr>he_sha256 := (\<lambda>s. s), he_iso := (\<lambda>s. Some (Aware (hours 3)))\<rparr>,
     de_decimal = (\<lambda>s. Some (Some (Dec 20 0)))\<rparr>"

definition n_point :: "text_bytes \<Rightarrow> text_bytes \<Rightarrow> json" where
  "n_point metric unit = JObj [(''forecast_style'', JStr ''observed''), (''target_at'', JStr ''t''), (''value_number'', JStr ''20''),
     (''metric_key'', JStr metric), (''unit'', JStr unit), (''known_at'', JStr ''t''), (''provider'', JStr ''p''),
     (''location_id'', JStr ''l'')]"

abbreviation "n_temp \<equiv> n_point ''T1H'' ''deg_c''"
abbreviation "n_wet \<equiv> n_point ''REH'' ''%''"

definition n_key :: summary_key where "n_key = (''l'', 0, Noon)"

lemma n_env_simps [simp]:
  "he_iso (de_head n_env) = (\<lambda>s. Some (Aware (hours 3)))" "de_decimal n_env = (\<lambda>s. Some (Some (Dec 20 0)))"
  "he_sha256 (de_head n_env) = (\<lambda>s. s)" "he_loads (de_head n_env) = (\<lambda>s. Some x_point)"
  by (simp_all add: n_env_def)

lemma n_time [simp]: "daily_time (de_head n_env) (n_point m u) ''target_at'' = Inr (hours 3)"
    "daily_time (de_head n_env) (n_point m u) ''known_at'' = Inr (hours 3)"
  by (simp_all add: daily_time_def field_of_def jget_def n_point_def)

definition n_obs :: "daily_field \<Rightarrow> text_bytes \<Rightarrow> text_bytes \<Rightarrow> daily_observation" where
  "n_obs f m u = \<lparr>ob_key = n_key, ob_hour = 12, ob_field = f,
     ob_cell = make_cell n_env (n_point m u) f 20 (hours 3) (hours 3) (JStr ''p'')\<rparr>"

lemma n_observation:
  "observation n_env n_temp = Inr (Some (n_obs Temp ''T1H'' ''deg_c''))"
  "observation n_env n_wet = Inr (Some (n_obs Humidity ''REH'' ''%''))"
  by (simp_all add: observation_def field_of_def jget_def n_point_def [of "''T1H''"] n_point_def [of "''REH''"] location_of_def
      n_obs_def n_key_def measured_def one_of_def kst_hour_def kst_day_def part_of_def SLOTS_def ten_power_def
      n_time [unfolded n_point_def])

lemma n_digest: "digest_json (de_head n_env) n_temp \<noteq> digest_json (de_head n_env) n_wet"
  by (simp add: json_digest_def n_point_def) (simp add: quote_def escape_def)

subsection \<open>Two ways to feed the winners\<close>

lemma n_merge:
  "merge_observations n_env n_key now ps st = Inr (fold offer (List.map_filter (accepted n_env n_key now) ps) st)"
  if "now = hours 4" "set ps \<subseteq> {n_temp, n_wet}"
  using that(2) unfolding that(1)
  by (induction ps arbitrary: st) (auto simp: List.map_filter_simps accepted_def n_observation n_obs_def)

lemma n_batches:
  "(\<And>b. b \<in> set bs \<Longrightarrow> fst b = hours 4 \<and> set (snd b) \<subseteq> {n_temp, n_wet}) \<Longrightarrow> \<exists>st'. merge_batches n_env n_key bs st = Inr st'"
proof (induction bs arbitrary: st)
  case (Cons b bs)
  obtain now ps where b: "b = (now, ps)" by (cases b)
  from Cons.prems [of b] have "now = hours 4" "set ps \<subseteq> {n_temp, n_wet}" unfolding b by (simp_all del: seconds_hours_days)
  note merged = n_merge [OF this]
  from Cons.IH Cons.prems
  obtain st' where "merge_batches n_env n_key bs (fold offer (List.map_filter (accepted n_env n_key now) ps) st) = Inr st'"
    by (metis list.set_intros(2))
  then show ?case unfolding b by (simp only: merge_batches.simps merged sum.case) blast
qed simp

theorem daily_winners_ignore_order_witness:
  "\<exists>st st'. merge_batches n_env n_key [(hours 4, [n_temp, n_wet])] [] = Inr st
    \<and> merge_batches n_env n_key [(hours 4, [n_wet]), (hours 4, [n_temp, n_wet])] [] = Inr st'
    \<and> cell_at st 12 Temp = cell_at st' 12 Temp"
proof -
  let ?bs = "[(hours 4, [n_temp, n_wet])]" and ?bs' = "[(hours 4, [n_wet]), (hours 4, [n_temp, n_wet])]"
  have "\<exists>st. merge_batches n_env n_key ?bs [] = Inr st" by (rule n_batches) auto
  then obtain st where st: "merge_batches n_env n_key ?bs [] = Inr st" by (rule exE)
  have "\<exists>st. merge_batches n_env n_key ?bs' [] = Inr st" by (rule n_batches) auto
  then obtain st' where st': "merge_batches n_env n_key ?bs' [] = Inr st'" by (rule exE)
  have "batch_points ?bs = batch_points ?bs'" by (auto simp: batch_points_def)
  moreover have "past_points n_env ?bs (batch_points ?bs)" "past_points n_env ?bs' (batch_points ?bs')"
    by (auto simp: past_points_def batch_points_def)
  moreover have "inj_on (digest_json (de_head n_env)) (batch_points ?bs)"
    using n_digest by (auto simp: batch_points_def)
  ultimately have "cell_at st 12 Temp = cell_at st' 12 Temp" by (rule daily_winners_ignore_order [OF st st'])
  with st st' show ?thesis by (intro exI conjI)
qed

theorem dry_needs_every_hour_witness:
  "\<exists>st. merge_batches n_env n_key [(hours 4, [n_wet])] [] = Inr st
    \<and> (su_precip_occurred (summarize x_env n_key st 0) = Some False \<longleftrightarrow>
      (\<forall>h. fst (slot_hours Noon) \<le> h \<and> h < snd (slot_hours Noon) \<longrightarrow>
        (\<exists>c. cell_at st h Precip = Some c \<and> ce_value c = 0 \<and> \<not> ce_unknown c)))"
proof -
  have "\<exists>st. merge_batches n_env n_key [(hours 4, [n_wet])] [] = Inr st" by (rule n_batches) auto
  then obtain st where st: "merge_batches n_env n_key [(hours 4, [n_wet])] [] = Inr st" by (rule exE)
  note dry = conjunct1 [OF dry_needs_every_hour [OF st [unfolded n_key_def]]]
  show ?thesis unfolding n_key_def by (intro exI [of _ st] conjI st [unfolded n_key_def] dry)
qed

subsection \<open>A refresh\<close>

definition n_env' :: daily_env where
  "n_env' = n_env\<lparr>de_head := (de_head n_env)\<lparr>he_sha256 := (\<lambda>s. xh), he_loads := (\<lambda>s. Some n_temp)\<rparr>\<rparr>"

definition n_generation :: generation_row where
  "n_generation = \<lparr>g_id = ''g'', g_attempt = ''a1'', g_owner = ''o1'', g_seal = xh, g_namespace = xh, g_parent = None,
     g_revision = 3, g_collected = 3, g_content = xh, g_points = 1, g_created = 9\<rparr>"

definition n_plan :: plan_row where
  "n_plan = (x_plan True)\<lparr>p_descriptor := Retrieval_Scope (x_scope\<lparr>rs_style := ''observed''\<rparr>)\<rparr>"

definition n_ref :: ref_row where
  "n_ref = \<lparr>r_generation = ''g'', r_ordinal = 0, r_digest = xh, r_bytes = 1, r_points = 1, r_locations = Some [''l'']\<rparr>"

definition n_db :: daily_db where
  "n_db = \<lparr>dd_db = x0\<lparr>generations := [n_generation], plans := [n_plan], refs := [n_ref]\<rparr>, dd_summaries = [], dd_coverage = [],
     dd_collected = None\<rparr>"

definition n_work :: daily_work where
  "n_work = \<lparr>dw_generation = n_generation, dw_plan = n_plan, dw_refs = [n_ref]\<rparr>"

lemma n_env'_simps [simp]:
  "he_iso (de_head n_env') = (\<lambda>s. Some (Aware (hours 3)))" "de_decimal n_env' = (\<lambda>s. Some (Some (Dec 20 0)))"
  "he_sha256 (de_head n_env') = (\<lambda>s. xh)" "he_loads (de_head n_env') = (\<lambda>s. Some n_temp)"
  by (simp_all add: n_env'_def)

lemma n_pending: "pending_work (0, []) (dd_db n_db) = [n_work]"
  by (simp add: pending_work_def n_db_def generation_key_def n_generation_def List.map_filter_simps work_of_def row_of_Cons
      n_plan_def x_plan_def n_ref_def n_work_def)

lemma n_checkpoint: "checkpoint_of (dd_db n_db) = (0, [])"
  by (simp add: checkpoint_of_def n_db_def x0_def)

lemma n_time' [simp]: "daily_time (de_head n_env') n_temp ''target_at'' = Inr (hours 3)"
    "daily_time (de_head n_env') n_temp ''known_at'' = Inr (hours 3)"
  by (simp_all add: daily_time_def field_of_def jget_def n_point_def)

lemma n_observed: "\<exists>c. observation n_env' n_temp = Inr (Some \<lparr>ob_key = n_key, ob_hour = 12, ob_field = Temp, ob_cell = c\<rparr>)"
  by (simp add: observation_def field_of_def jget_def n_point_def location_of_def
      n_key_def measured_def one_of_def kst_hour_def kst_day_def part_of_def SLOTS_def ten_power_def
      n_time' [unfolded n_point_def])

lemma n_refs: "read_refs n_env' x_dir 0 [n_ref] = Inr [(n_key, n_temp)]"
proof -
  have "store_read (\<lambda>s. xh) (\<lambda>s. Some n_temp) x_dir None xh 1 1 = Inr [n_temp]"
    by (simp add: store_read_def x_store) (simp add: n_point_def)
  moreover obtain c where "observation n_env' n_temp = Inr (Some \<lparr>ob_key = n_key, ob_hour = 12, ob_field = Temp, ob_cell = c\<rparr>)"
    using n_observed by blast
  ultimately show ?thesis by (simp add: n_ref_def) (simp add: n_key_def)
qed

lemma n_work_simps [simp]:
  "dw_refs n_work = [n_ref]" "dw_generation n_work = n_generation" "is_observed n_work"
  by (simp_all add: n_work_def is_observed_def n_plan_def)

lemma n_reading: "\<exists>r. read_work n_env' (\<lambda>g. x_dir) 0 [n_work] None = Inr r \<and> dr_points r = [(n_key, n_temp)]"
  by (simp add: MAX_DAILY_POINTS_def n_refs del: read_refs.simps) (simp add: n_ref_def)

lemma n_merged: "\<exists>t. merge_keys n_env' (hours 4) [(n_key, n_temp)] [n_key] [] = Inr t"
proof -
  obtain c where "observation n_env' n_temp = Inr (Some \<lparr>ob_key = n_key, ob_hour = 12, ob_field = Temp, ob_cell = c\<rparr>)"
    using n_observed by blast
  then show ?thesis by (simp add: merge_key_def points_for_def Let_def)
qed

lemma n_refresh: "\<exists>db. refresh_daily_summaries n_env' (\<lambda>g. x_dir) 4 (hours 4) id n_db = (Inr (Refreshed 1 False), db)"
proof -
  obtain r where r: "read_work n_env' (\<lambda>g. x_dir) 0 [n_work] None = Inr r" "dr_points r = [(n_key, n_temp)]"
    using n_reading by blast
  obtain t where t: "merge_keys n_env' (hours 4) [(n_key, n_temp)] [n_key] [] = Inr t" using n_merged by blast
  have today: "kst_day (hours 4) = 0" by (simp add: kst_day_def)
  have "daily_checkpoint (dd_db n_db) = None" "dd_summaries n_db = []" "dd_collected n_db = None"
    by (simp_all add: n_db_def x0_def)
  then show ?thesis
    using r t by (simp add: refresh_daily_summaries_def refresh_commit_def n_checkpoint n_pending today daily_keys_def Let_def
        del: seconds_hours_days read_work.simps merge_keys.simps)
qed

theorem daily_refresh_passes_over_nothing_witness:
  "\<exists>db. refresh_daily_summaries n_env' (\<lambda>g. x_dir) 4 (hours 4) id n_db = (Inr (Refreshed 1 False), db)
    \<and> checkpoint_of (dd_db n_db) < checkpoint_of (dd_db db)"
proof -
  obtain db where db: "refresh_daily_summaries n_env' (\<lambda>g. x_dir) 4 (hours 4) id n_db = (Inr (Refreshed 1 False), db)"
    using n_refresh by blast
  have "keyed g_id (generations (dd_db n_db))" by (simp add: n_db_def keyed_def)
  from conjunct1 [OF daily_refresh_passes_over_nothing [OF db this]] db show ?thesis by blast
qed

end
