(* ===== verification/Fact_Model.thy ===== *)
theory Fact_Model
  imports Export_Heads
begin

section \<open>Weather facts, their sources and the current projection (models.py, repository.py)\<close>

text \<open>
  A fact is one value of one location, metric and target time as one provider response said it.
  Facts and responses are append-only; the current projection points at the newest fact of every
  logical point.  Facts live in partitions by the time they became known, so the database here has
  the partition catalog beside the tables: the floor of the DEFAULT partition and the bounds of the
  dated ones.
\<close>

subsection \<open>Values\<close>

text \<open>
  A \<open>WeatherValue\<close> after validation: instants are aware, numbers rounded to four decimals.
\<close>

record weather_value =
  wv_location :: text_bytes
  wv_provider :: text_bytes
  wv_dataset :: text_bytes
  wv_domain :: text_bytes
  wv_style :: text_bytes
  wv_bucket :: "text_bytes option"
  wv_metric :: text_bytes
  wv_metric_name :: "text_bytes option"
  wv_source_metric :: "text_bytes option"
  wv_source_metric_name :: "text_bytes option"
  wv_number :: "decimal option"
  wv_text :: "text_bytes option"
  wv_unit :: "text_bytes option"
  wv_severity :: "text_bytes option"
  wv_issued :: "instant option"
  wv_valid :: "instant option"
  wv_from :: "instant option"
  wv_until :: "instant option"
  wv_observed :: "instant option"
  wv_target :: "instant option"
  wv_known :: "instant option"
  wv_version :: text_bytes
  wv_payload :: json
  wv_collected :: instant
  wv_source :: "text_bytes option"

type_synonym point_key =
  "text_bytes \<times> text_bytes \<times> text_bytes \<times> text_bytes \<times> text_bytes \<times> text_bytes \<times> instant"

text \<open>
  \<open>identity_key\<close> hashes the logical point and the source record.  Arguments of the model are
  SHA-256 and the parsers of the promotion (\<open>fe_head\<close>) and pydantic's JSON dump of a value.
\<close>

record fact_env =
  fe_head :: head_env
  fe_dump :: "weather_value \<Rightarrow> json"

abbreviation fe_sha256 :: "fact_env \<Rightarrow> text_bytes \<Rightarrow> text_bytes" where
  "fe_sha256 env \<equiv> he_sha256 (fe_head env)"

definition point_json :: "weather_value \<Rightarrow> instant option \<Rightarrow> text_bytes option \<Rightarrow> json" where
  "point_json v target source =
     JArr (map JStr [wv_location v, wv_provider v, wv_dataset v, wv_domain v, wv_style v, wv_metric v]
       @ [json_option (\<lambda>t. JStr (iso_utc t)) target, json_option JStr source])"

definition identity_key :: "fact_env \<Rightarrow> weather_value \<Rightarrow> text_bytes \<Rightarrow> instant \<Rightarrow> text_bytes" where
  "identity_key env v source target =
     ''wv_'' @ take 32 (fe_sha256 env (encode (point_json v (Some target) (Some source))))"

definition metric_source_key :: "fact_env \<Rightarrow> weather_value \<Rightarrow> text_bytes" where
  "metric_source_key env v =
     ''sr_local_'' @ take 48 (fe_sha256 env (encode
       (JArr [JStr (wv_provider v), JStr (wv_dataset v), JStr (wv_location v),
          point_json v (wv_target v) (wv_source v), wv_payload v])))"

definition payload_hash :: "fact_env \<Rightarrow> json \<Rightarrow> text_bytes" where
  "payload_hash env payload = fe_sha256 env (encode payload)"

subsection \<open>Rows\<close>

record source_row =
  src_key :: text_bytes
  src_provider :: text_bytes
  src_dataset :: text_bytes
  src_entity_type :: text_bytes
  src_entity_id :: text_bytes
  src_hash :: text_bytes
  src_payload :: json
  src_fetched :: instant
  src_imported :: instant

definition src_identity :: "source_row \<Rightarrow> text_bytes \<times> text_bytes \<times> text_bytes \<times> text_bytes \<times> text_bytes" where
  "src_identity r = (src_provider r, src_dataset r, src_entity_type r, src_entity_id r, src_hash r)"

text \<open>
  A fact row: its identity and clocks, and the other columns as the value had them (\<open>columns_of\<close>
  blanks what the clocks and the source column replace).
\<close>

record fact_row =
  f_id :: text_bytes
  f_known :: instant
  f_target :: instant
  f_collected :: instant
  f_source :: text_bytes
  f_columns :: weather_value

definition columns_of :: "weather_value \<Rightarrow> weather_value" where
  "columns_of v = v\<lparr>wv_target := None, wv_known := None, wv_collected := 0, wv_source := None\<rparr>"

definition f_pk :: "fact_row \<Rightarrow> text_bytes \<times> instant" where
  "f_pk r = (f_id r, f_known r)"

definition logical_of :: "weather_value \<Rightarrow> instant \<Rightarrow> point_key" where
  "logical_of v target =
     (wv_location v, wv_provider v, wv_dataset v, wv_domain v, wv_style v, wv_metric v, target)"

definition f_logical :: "fact_row \<Rightarrow> point_key" where
  "f_logical r = logical_of (f_columns r) (f_target r)"

type_synonym revision = "instant \<times> text_bytes \<times> text_bytes"

definition f_order :: "fact_row \<Rightarrow> revision" where
  "f_order r = (f_known r, f_source r, f_id r)"

record pointer_row =
  pt_logical :: point_key
  pt_id :: text_bytes
  pt_known :: instant
  pt_source :: "text_bytes option"

text \<open>The export database holds the sync runs, their fetch clocks, the locations and the export tables.\<close>

record fact_db =
  fd_export :: export_db
  fd_sources :: "source_row list"
  fd_facts :: "fact_row list"
  fd_current :: "pointer_row list"
  fd_links :: "(text_bytes \<times> text_bytes) list"
  fd_floor :: "instant option"
  fd_bounds :: "(instant \<times> instant) list"
  fd_detached :: "((instant \<times> instant) \<times> fact_row list) list"

datatype ingest_error =
    Run_Missing text_bytes | Run_Ended text_bytes | Source_Conflict text_bytes | Run_Source_Mismatch
  | Source_Not_Recorded text_bytes | Lineage_Mismatch text_bytes text_bytes | Fact_Conflict text_bytes
  | No_Current_Partition | Integrity_Error | Key_Error text_bytes | Naive_Clock

subsection \<open>The resolved fact\<close>

record resolved =
  rf_value :: weather_value
  rf_source :: text_bytes
  rf_id :: text_bytes
  rf_target :: instant
  rf_known :: instant
  rf_collected :: instant
  rf_replayed :: bool

definition rf_pk :: "resolved \<Rightarrow> text_bytes \<times> instant" where
  "rf_pk f = (rf_id f, rf_known f)"

definition logical_point :: "resolved \<Rightarrow> point_key" where
  "logical_point f = logical_of (rf_value f) (rf_target f)"

definition revision_order :: "resolved \<Rightarrow> revision" where
  "revision_order f = (rf_known f, rf_source f, rf_id f)"

definition row_for :: "resolved \<Rightarrow> fact_row" where
  "row_for f = \<lparr>f_id = rf_id f, f_known = rf_known f, f_target = rf_target f, f_collected = rf_collected f,
     f_source = rf_source f, f_columns = columns_of (rf_value f)\<rparr>"

lemma row_for_simps [simp]:
  "f_id (row_for f) = rf_id f" "f_known (row_for f) = rf_known f" "f_target (row_for f) = rf_target f"
  "f_source (row_for f) = rf_source f" "f_columns (row_for f) = columns_of (rf_value f)"
  "f_pk (row_for f) = rf_pk f"
  by (simp_all add: row_for_def f_pk_def rf_pk_def)

lemma logical_of_columns [simp]: "logical_of (columns_of v) t = logical_of v t"
  by (simp add: logical_of_def columns_of_def)

lemma row_for_logical [simp]: "f_logical (row_for f) = logical_point f"
  by (simp add: f_logical_def logical_point_def)

lemma row_for_order [simp]: "f_order (row_for f) = revision_order f"
  by (simp add: f_order_def revision_order_def)

subsection \<open>Short forecasts and their retention (retention.py)\<close>

definition SHORT_FORECAST_HOURS :: int where "SHORT_FORECAST_HOURS = 6"

definition short_forecast_cutoff :: "instant \<Rightarrow> instant" where
  "short_forecast_cutoff now = now - hours SHORT_FORECAST_HOURS"

definition is_short_forecast :: "weather_value \<Rightarrow> bool" where
  "is_short_forecast v \<longleftrightarrow> wv_provider v = ''python-kma-api'' \<and> wv_dataset v = ''kma_short_forecast''
     \<and> wv_domain v = ''kma_short_forecast'' \<and> wv_style v = ''short''"

definition expired_short_forecast :: "weather_value \<Rightarrow> instant \<Rightarrow> bool" where
  "expired_short_forecast v cutoff \<longleftrightarrow>
     is_short_forecast v \<and> (case wv_valid v of None \<Rightarrow> False | Some t \<Rightarrow> t < cutoff)"

definition retained_short_forecast :: "weather_value \<Rightarrow> instant \<Rightarrow> bool" where
  "retained_short_forecast v cutoff \<longleftrightarrow>
     is_short_forecast v \<and> (case wv_valid v of None \<Rightarrow> False | Some t \<Rightarrow> t \<ge> cutoff)"

lemma short_forecast_columns [simp]:
  "expired_short_forecast (columns_of v) c = expired_short_forecast v c"
  "retained_short_forecast (columns_of v) c = retained_short_forecast v c"
  by (simp_all add: expired_short_forecast_def retained_short_forecast_def is_short_forecast_def columns_of_def)

subsection \<open>The partition catalog (repository.py, _retention_bounds)\<close>

text \<open>The horizon is the oldest dated partition at or above the floor; the expired window lies between.\<close>

definition retention_bounds ::
  "instant option \<Rightarrow> (instant \<times> instant) list \<Rightarrow> (instant \<times> instant) option \<times> instant option" where
  "retention_bounds floor_at bounds =
     (case floor_at of
        None \<Rightarrow> (None, None)
      | Some lo \<Rightarrow>
          (let lowers = filter (\<lambda>b. b \<ge> lo) (map fst bounds)
           in if lowers = [] then (None, None)
              else let horizon = Min (set lowers) in (if horizon > lo then Some (lo, horizon) else None, Some horizon)))"

text \<open>Where a row can go: DEFAULT takes everything without a floor and what lies below it with one.\<close>

definition routable :: "instant option \<Rightarrow> (instant \<times> instant) list \<Rightarrow> instant \<Rightarrow> bool" where
  "routable floor_at bounds clock \<longleftrightarrow>
     (case floor_at of None \<Rightarrow> True | Some lo \<Rightarrow> clock < lo \<or> list_ex (\<lambda>(a, b). a \<le> clock \<and> clock < b) bounds)"

end
