(* ===== verification/Fact_Ingest.thy ===== *)
theory Fact_Ingest
  imports Fact_Model "HOL-Library.AList"
begin

section \<open>Publishing a batch of facts (repository.py, _ingest_batch_session)\<close>

text \<open>
  One transaction: the runs are checked, the responses recorded or recognised, every fact is dated
  and identified against its response, compared with what is stored, and inserted; the projection
  follows the newest.  Row and advisory locks serialise such transactions; what is left of them here
  is the set of locations another writer holds, for the variant that skips them.
\<close>

subsection \<open>Runs and fetch clocks\<close>

fun check_runs :: "sync_db \<Rightarrow> source_record list \<Rightarrow> ingest_error + sync_run list" where
  "check_runs db [] = Inr []"
| "check_runs db (r # rs) =
     (case rec_run r of
        None \<Rightarrow> check_runs db rs
      | Some run_id \<Rightarrow>
          (case run_row run_id (runs db) of
             None \<Rightarrow> Inl (Run_Missing run_id)
           | Some run \<Rightarrow>
               if \<not> is_running run then Inl (Run_Ended run_id)
               else (case check_runs db rs of
                       Inl e \<Rightarrow> Inl e
                     | Inr found \<Rightarrow> Inr (if run_id \<in> sr_id ` set found then found else run # found))))"

text \<open>
  The range of fetch times per run, provider and dataset: first for the scopes the catalog knows, in
  the order they appear; more than 128 abandon the recording, and so does any error of it.
\<close>

type_synonym fetch_group = "(text_bytes \<times> text_bytes \<times> text_bytes) \<times> instant \<times> instant"

definition widen :: "text_bytes \<times> text_bytes \<times> text_bytes \<Rightarrow> instant \<Rightarrow> fetch_group list \<Rightarrow> fetch_group list" where
  "widen k t groups =
     (case map_of groups k of
        None \<Rightarrow> groups @ [(k, t, t)]
      | Some (lo, hi) \<Rightarrow> AList.update k (min lo t, max hi t) groups)"

fun fetch_groups ::
  "(text_bytes \<times> text_bytes) list \<Rightarrow> source_record list \<Rightarrow> fetch_group list \<Rightarrow> fetch_group list option" where
  "fetch_groups allowed [] groups = Some groups"
| "fetch_groups allowed (r # rs) groups =
     (case (rec_run r, rec_fetched r) of
        (Some run_id, Some (Aware t)) \<Rightarrow>
          if (rec_provider r, rec_dataset r) \<notin> set allowed then fetch_groups allowed rs groups
          else (let groups' = widen (run_id, rec_provider r, rec_dataset r) t groups
                in if length groups' > 128 then None else fetch_groups allowed rs groups')
      | _ \<Rightarrow> fetch_groups allowed rs groups)"

fun record_groups :: "fetch_group list \<Rightarrow> fetch_clock_row list \<Rightarrow> status_error + fetch_clock_row list" where
  "record_groups [] t = Inr t"
| "record_groups (((run_id, provider, dataset), lo, hi) # gs) t =
     (case record_fetch_clock run_id provider dataset (Aware lo) (Some (Aware hi)) t of
        Inl e \<Rightarrow> Inl e | Inr (_, t') \<Rightarrow> record_groups gs t')"

definition capture_export_fetch_clocks :: "repo_config \<Rightarrow> source_record list \<Rightarrow> sync_db \<Rightarrow> sync_db" where
  "capture_export_fetch_clocks cfg records db =
     (if \<not> export_status_enabled cfg then db
      else case fetch_groups (map (\<lambda>k. (sk_provider k, sk_dataset k)) (status_scopes (catalog cfg) None)) records [] of
        None \<Rightarrow> db
      | Some groups \<Rightarrow>
          (case record_groups groups (fetch_clocks db) of
             Inl _ \<Rightarrow> db | Inr t \<Rightarrow> db\<lparr>fetch_clocks := t\<rparr>))"

subsection \<open>Responses\<close>

definition record_identity ::
  "fact_env \<Rightarrow> source_record \<Rightarrow> text_bytes \<times> text_bytes \<times> text_bytes \<times> text_bytes \<times> text_bytes" where
  "record_identity env r =
     (rec_provider r, rec_dataset r, rec_entity_type r, rec_entity_id r, payload_hash env (rec_payload r))"

definition source_for :: "fact_env \<Rightarrow> instant \<Rightarrow> source_record \<Rightarrow> source_row" where
  "source_for env now r =
     \<lparr>src_key = rec_key r, src_provider = rec_provider r, src_dataset = rec_dataset r,
      src_entity_type = rec_entity_type r, src_entity_id = rec_entity_id r,
      src_hash = payload_hash env (rec_payload r), src_payload = rec_payload r,
      src_fetched = (case rec_fetched r of Some (Aware t) \<Rightarrow> t | _ \<Rightarrow> now), src_imported = now\<rparr>"

text \<open>
  \<open>_record_source_session\<close>: by key, else by identity, among the rows the database has (rows pending
  in the same batch are not flushed and not found).
\<close>

definition record_source ::
  "fact_env \<Rightarrow> instant \<Rightarrow> source_row list \<Rightarrow> source_record \<Rightarrow> ingest_error + (text_bytes \<times> source_row option)" where
  "record_source env now stored r =
     (case (case row_of src_key (rec_key r) stored of
              Some row \<Rightarrow> Some row | None \<Rightarrow> row_of src_identity (record_identity env r) stored) of
        Some row \<Rightarrow>
          if src_identity row \<noteq> record_identity env r then Inl (Source_Conflict (rec_key r))
          else Inr (src_key row, None)
      | None \<Rightarrow>
          if (case rec_fetched r of Some (Naive _) \<Rightarrow> True | _ \<Rightarrow> False) then Inl Naive_Clock
          else Inr (rec_key r, Some (source_for env now r)))"

record recorded =
  rd_aliases :: "(text_bytes \<times> text_bytes) list"
  rd_pending :: "source_row list"
  rd_records :: "source_record list"

text \<open>
  Records of one identity share the key of the first; \<open>rd_aliases\<close> maps a record's own key to the
  canonical one, later records before earlier ones.
\<close>

fun record_sources ::
  "fact_env \<Rightarrow> instant \<Rightarrow> source_row list \<Rightarrow>
   ((text_bytes \<times> text_bytes \<times> text_bytes \<times> text_bytes \<times> text_bytes) \<times> text_bytes) list \<Rightarrow>
   source_record list \<Rightarrow> recorded \<Rightarrow> ingest_error + recorded" where
  "record_sources env now stored seen [] acc = Inr acc"
| "record_sources env now stored seen (r # rs) acc =
     (case (case map_of seen (record_identity env r) of
              Some key \<Rightarrow> Inr (key, None) | None \<Rightarrow> record_source env now stored r) of
        Inl e \<Rightarrow> Inl e
      | Inr (key, new) \<Rightarrow>
          record_sources env now stored ((record_identity env r, key) # seen) rs
            \<lparr>rd_aliases = (rec_key r, key) # rd_aliases acc,
             rd_pending = rd_pending acc @ (case new of None \<Rightarrow> [] | Some row \<Rightarrow> [row]),
             rd_records = rd_records acc @ [r\<lparr>rec_key := key\<rparr>]\<rparr>)"

definition alias_value :: "(text_bytes \<times> text_bytes) list \<Rightarrow> weather_value \<Rightarrow> weather_value" where
  "alias_value aliases v =
     (case wv_source v of
        None \<Rightarrow> v
      | Some k \<Rightarrow> (case map_of aliases k of None \<Rightarrow> v | Some c \<Rightarrow> v\<lparr>wv_source := Some c\<rparr>))"

definition replay_keys :: "(text_bytes \<times> text_bytes) list \<Rightarrow> text_bytes list" where
  "replay_keys aliases =
     List.map_filter (\<lambda>k. case map_of aliases k of Some c \<Rightarrow> (if c \<noteq> k then Some c else None) | None \<Rightarrow> None)
       (remdups (map fst aliases))"

text \<open>The unique constraints of the source table, checked when the pending rows are flushed.\<close>

definition sources_ok :: "source_row list \<Rightarrow> bool" where
  "sources_ok t \<longleftrightarrow> distinct (map src_key t) \<and> distinct (map src_identity t)"

definition prefix_of :: "text_bytes \<Rightarrow> text_bytes \<Rightarrow> bool" where
  "prefix_of p s \<longleftrightarrow> take (length p) s = p"

fun link_sources ::
  "sync_run list \<Rightarrow> source_record list \<Rightarrow> (text_bytes \<times> text_bytes) list \<Rightarrow> ingest_error + (text_bytes \<times> text_bytes) list" where
  "link_sources found [] links = Inr links"
| "link_sources found (r # rs) links =
     (case rec_run r of
        None \<Rightarrow> link_sources found rs links
      | Some run_id \<Rightarrow>
          (case row_of sr_id run_id found of
             None \<Rightarrow> Inl (Run_Missing run_id)
           | Some run \<Rightarrow>
               if sr_provider run \<noteq> rec_provider r
                  \<or> \<not> (sr_dataset run = rec_dataset r
                       \<or> (sr_dataset run = ''kma_weather_bundle'' \<and> prefix_of ''kma_'' (rec_dataset r)))
               then Inl Run_Source_Mismatch
               else link_sources found rs (if (run_id, rec_key r) \<in> set links then links else links @ [(run_id, rec_key r)])))"

subsection \<open>Whether a response can serve a location\<close>

text \<open>Python's \<open>str.strip\<close>, \<open>str.split\<close> and \<open>int\<close> on ASCII text.\<close>

definition is_space :: "char \<Rightarrow> bool" where
  "is_space c \<longleftrightarrow> char_in 9 13 c \<or> char_in 28 32 c"

definition strip :: "text_bytes \<Rightarrow> text_bytes" where
  "strip s = rev (dropWhile is_space (rev (dropWhile is_space s)))"

fun split_on :: "char \<Rightarrow> text_bytes \<Rightarrow> text_bytes list" where
  "split_on d [] = [[]]"
| "split_on d (c # s) =
     (if c = d then [] # split_on d s
      else (case split_on d s of [] \<Rightarrow> [[c]] | w # ws \<Rightarrow> (c # w) # ws))"

fun digits_ok :: "text_bytes \<Rightarrow> bool" where
  "digits_ok [] = False"
| "digits_ok [c] = is_digit c"
| "digits_ok (c # d # s) = (is_digit c \<and> (if d = CHR ''_'' then digits_ok s else digits_ok (d # s)))"

definition py_int :: "text_bytes \<Rightarrow> int option" where
  "py_int s =
     (let t = strip s;
          body = (case t of c # r \<Rightarrow> if c = CHR ''-'' \<or> c = CHR ''+'' then r else t | [] \<Rightarrow> t);
          n = int (read_nat (filter (\<lambda>c. c \<noteq> CHR ''_'') body))
      in if \<not> digits_ok body then None
         else Some (if take 1 t = ''-'' then - n else n))"

definition payload_get :: "json \<Rightarrow> text_bytes \<Rightarrow> text_bytes \<Rightarrow> json option" where
  "payload_get payload k k' =
     (case jget payload k of Some v \<Rightarrow> Some v | None \<Rightarrow> jget payload k')"

definition payload_names :: "json \<Rightarrow> text_bytes \<Rightarrow> text_bytes \<Rightarrow> text_bytes \<Rightarrow> bool" where
  "payload_names payload k k' wanted \<longleftrightarrow>
     (case payload_get payload k k' of
        None \<Rightarrow> False | Some JNull \<Rightarrow> False | Some v \<Rightarrow> strip (py_str (Some v)) = wanted)"

definition after_colon :: "text_bytes \<Rightarrow> text_bytes" where
  "after_colon s = drop 1 (dropWhile (\<lambda>c. c \<noteq> CHR '':'') s)"

definition grid_of_entity :: "text_bytes \<Rightarrow> (int \<times> int) option" where
  "grid_of_entity entity =
     (case split_on CHR '':'' entity of
        _ # x # y # _ \<Rightarrow> (case (py_int x, py_int y) of (Some nx, Some ny) \<Rightarrow> Some (nx, ny) | _ \<Rightarrow> Some (- 1, - 1))
      | _ \<Rightarrow> None)"

definition lineage_ok :: "location_row list \<Rightarrow> source_row \<Rightarrow> weather_value \<Rightarrow> bool" where
  "lineage_ok locs source v \<longleftrightarrow>
     (let entity = src_entity_id source in
      src_entity_type source \<notin> {''weather_response'', ''kma_grid'', ''airkorea_station''}
      \<or> entity = wv_location v
      \<or> (if prefix_of ''kma-alert:'' entity then payload_names (wv_payload v) ''stn_id'' ''stnId'' (after_colon entity)
         else if prefix_of ''mid-land:'' entity \<or> prefix_of ''mid-temperature:'' entity
         then payload_names (wv_payload v) ''reg_id'' ''regId'' (after_colon entity)
         else prefix_of ''grid:'' entity
           \<and> (case (grid_of_entity entity, row_of lo_id (wv_location v) locs) of
                (Some (nx, ny), Some l) \<Rightarrow> lo_nx l = Some nx \<and> lo_ny l = Some ny
              | _ \<Rightarrow> False)))"

subsection \<open>Dating a fact\<close>

definition canonical_target :: "weather_value \<Rightarrow> instant" where
  "canonical_target v =
     (case wv_target v of Some t \<Rightarrow> t | None \<Rightarrow>
      (case wv_valid v of Some t \<Rightarrow> t | None \<Rightarrow>
      (case wv_observed v of Some t \<Rightarrow> t | None \<Rightarrow>
      (case wv_issued v of Some t \<Rightarrow> t | None \<Rightarrow> wv_collected v))))"

definition own_clock :: "weather_value \<Rightarrow> instant" where
  "own_clock v = (case wv_known v of Some t \<Rightarrow> t | None \<Rightarrow> wv_collected v)"

definition fallback_source :: "fact_env \<Rightarrow> instant \<Rightarrow> text_bytes \<Rightarrow> weather_value \<Rightarrow> source_row" where
  "fallback_source env now key v =
     \<lparr>src_key = key, src_provider = wv_provider v, src_dataset = wv_dataset v, src_entity_type = ''metric_row'',
      src_entity_id = wv_location v, src_hash = payload_hash env (wv_payload v), src_payload = wv_payload v,
      src_fetched = own_clock v, src_imported = now\<rparr>"

text \<open>
  \<open>_resolve_fact_session\<close>: a fact is dated by the first fetch of its response.  \<open>new\<close> are the keys
  of the responses this batch inserted, its own fallback responses included.
\<close>

definition resolve_fact ::
  "fact_env \<Rightarrow> instant \<Rightarrow> location_row list \<Rightarrow> weather_value \<Rightarrow> source_row list \<Rightarrow> text_bytes list \<Rightarrow>
   ingest_error + (resolved \<times> source_row list \<times> text_bytes list)" where
  "resolve_fact env now locs v sources new =
     (let key = (case wv_source v of Some k \<Rightarrow> if k = [] then metric_source_key env v else k
                 | None \<Rightarrow> metric_source_key env v);
          target = canonical_target v;
          fact = (\<lambda>known collected replayed. \<lparr>rf_value = v, rf_source = key, rf_id = identity_key env v key target,
             rf_target = target, rf_known = known, rf_collected = collected, rf_replayed = replayed\<rparr>)
      in case row_of src_key key sources of
           None \<Rightarrow>
             if wv_source v \<noteq> None then Inl (Source_Not_Recorded key)
             else Inr (fact (own_clock v) (wv_collected v) False,
                       sources @ [fallback_source env now key v], key # new)
         | Some s \<Rightarrow>
             if src_provider s \<noteq> wv_provider v \<or> src_dataset s \<noteq> wv_dataset v then Inl (Source_Conflict key)
             else if \<not> lineage_ok locs s v then Inl (Lineage_Mismatch (src_entity_id s) (wv_location v))
             else Inr (fact (src_fetched s) (src_fetched s) (key \<notin> set new), sources, new))"

fun resolve_facts ::
  "fact_env \<Rightarrow> instant \<Rightarrow> location_row list \<Rightarrow> weather_value list \<Rightarrow> source_row list \<Rightarrow> text_bytes list \<Rightarrow>
   ingest_error + (resolved list \<times> source_row list)" where
  "resolve_facts env now locs [] sources new = Inr ([], sources)"
| "resolve_facts env now locs (v # vs) sources new =
     (case resolve_fact env now locs v sources new of
        Inl e \<Rightarrow> Inl e
      | Inr (f, sources', new') \<Rightarrow>
          (case resolve_facts env now locs vs sources' new' of
             Inl e \<Rightarrow> Inl e | Inr (fs, final) \<Rightarrow> Inr (f # fs, final)))"

text \<open>The rows the database has for the replayed facts of the batch.\<close>

definition existing_facts :: "fact_row list \<Rightarrow> resolved list \<Rightarrow> fact_row list" where
  "existing_facts facts fs = filter (\<lambda>r. f_pk r \<in> rf_pk ` set (filter rf_replayed fs)) facts"

end
