(* ===== verification/Fact_Publish.thy ===== *)
theory Fact_Publish
  imports Fact_Ingest
begin

section \<open>Dating, inserting and projecting the facts of a batch\<close>

text \<open>
  \<open>stored\<close> is the batch's table of rows it has seen: those of the database and those it has made
  itself, expired ones included (they are compared with but never written).
\<close>

abbreviation in_stored :: "resolved \<Rightarrow> fact_row list \<Rightarrow> bool" where
  "in_stored f stored \<equiv> row_of f_pk (rf_pk f) stored \<noteq> None"

definition earliest :: "fact_row list \<Rightarrow> fact_row option" where
  "earliest rows = (case sort_key f_known rows of [] \<Rightarrow> None | r # _ \<Rightarrow> Some r)"

definition redated :: "resolved \<Rightarrow> instant \<Rightarrow> instant \<Rightarrow> resolved" where
  "redated f known collected = f\<lparr>rf_known := known, rf_collected := collected\<rparr>"

subsection \<open>Short forecasts whose first fetch has no partition (_readmit_retained_short_session)\<close>

definition readmit_prior :: "instant \<Rightarrow> fact_row list \<Rightarrow> fact_row list \<Rightarrow> resolved list \<Rightarrow> fact_row list" where
  "readmit_prior cutoff facts stored fs =
     (let protected = filter (\<lambda>f. retained_short_forecast (rf_value f) cutoff \<and> \<not> in_stored f stored) fs;
          ids = remdups (map rf_id (filter rf_replayed protected))
      in List.map_filter (\<lambda>i. earliest (filter (\<lambda>r. f_id r = i) facts)) ids)"

definition readmit_one ::
  "instant option \<Rightarrow> (instant \<times> instant) list \<Rightarrow> instant \<Rightarrow> instant \<Rightarrow> fact_row list \<Rightarrow> fact_row list \<Rightarrow> resolved \<Rightarrow>
   ingest_error + resolved" where
  "readmit_one floor_at bounds now cutoff prior stored f =
     (if \<not> retained_short_forecast (rf_value f) cutoff \<or> in_stored f stored then Inr f
      else case row_of f_id (rf_id f) prior of
        Some r \<Rightarrow> Inr (redated f (f_known r) (f_collected r))
      | None \<Rightarrow>
          if routable floor_at bounds (rf_known f) then Inr f
          else if \<not> routable floor_at bounds now then Inl No_Current_Partition
          else Inr (f\<lparr>rf_known := now\<rparr>))"

fun map_results :: "('a \<Rightarrow> 'e + 'b) \<Rightarrow> 'a list \<Rightarrow> 'e + 'b list" where
  "map_results g [] = Inr []"
| "map_results g (x # xs) =
     (case g x of Inl e \<Rightarrow> Inl e
      | Inr y \<Rightarrow> (case map_results g xs of Inl e \<Rightarrow> Inl e | Inr ys \<Rightarrow> Inr (y # ys)))"

text \<open>With nothing to protect the batch stays as it is; the rows found join the stored ones.\<close>

definition readmit_retained_short ::
  "instant option \<Rightarrow> (instant \<times> instant) list \<Rightarrow> instant \<Rightarrow> instant \<Rightarrow> fact_row list \<Rightarrow> fact_row list \<Rightarrow> resolved list \<Rightarrow>
   ingest_error + (resolved list \<times> fact_row list)" where
  "readmit_retained_short floor_at bounds now cutoff facts stored fs =
     (if \<not> list_ex (\<lambda>f. retained_short_forecast (rf_value f) cutoff \<and> \<not> in_stored f stored) fs then Inr (fs, stored)
      else let prior = readmit_prior cutoff facts stored fs; stored' = prior @ stored in
        case map_results (readmit_one floor_at bounds now cutoff prior stored') fs of
          Inl e \<Rightarrow> Inl e | Inr fs' \<Rightarrow> Inr (fs', stored'))"

subsection \<open>Replays whose first fetch retention has forgotten (_redate_forgotten_replays_session)\<close>

definition forgotten :: "instant \<Rightarrow> instant \<Rightarrow> fact_row list \<Rightarrow> resolved \<Rightarrow> bool" where
  "forgotten horizon cutoff stored f \<longleftrightarrow>
     rf_replayed f \<and> rf_known f < horizon \<and> \<not> in_stored f stored \<and> \<not> retained_short_forecast (rf_value f) cutoff"

text \<open>The rows of the forgotten facts at or above the horizon, oldest first.\<close>

definition redate_rows :: "instant \<Rightarrow> instant \<Rightarrow> fact_row list \<Rightarrow> fact_row list \<Rightarrow> resolved list \<Rightarrow> fact_row list" where
  "redate_rows horizon cutoff facts stored fs =
     sort_key f_known (filter (\<lambda>r. f_id r \<in> rf_id ` set (filter (forgotten horizon cutoff stored) fs) \<and> f_known r \<ge> horizon) facts)"

text \<open>\<open>clocks\<close>: the clock a value id has been given, by a row or by an earlier fact of the batch.\<close>

fun redate_all ::
  "instant \<Rightarrow> instant \<Rightarrow> fact_row list \<Rightarrow> (text_bytes \<times> instant \<times> instant) list \<Rightarrow> resolved list \<Rightarrow> resolved list" where
  "redate_all horizon cutoff stored clocks [] = []"
| "redate_all horizon cutoff stored clocks (f # fs) =
     (if \<not> forgotten horizon cutoff stored f then f # redate_all horizon cutoff stored clocks fs
      else case map_of clocks (rf_id f) of
        Some (known, collected) \<Rightarrow> redated f known collected # redate_all horizon cutoff stored clocks fs
      | None \<Rightarrow>
          (let fetched = own_clock (rf_value f) in
           if fetched < horizon then redate_all horizon cutoff stored clocks fs
           else redated f fetched fetched
             # redate_all horizon cutoff stored ((rf_id f, fetched, fetched) # clocks) fs))"

definition redate_forgotten_replays ::
  "instant \<Rightarrow> instant \<Rightarrow> fact_row list \<Rightarrow> fact_row list \<Rightarrow> resolved list \<Rightarrow> resolved list \<times> fact_row list" where
  "redate_forgotten_replays horizon cutoff facts stored fs =
     (let rows = redate_rows horizon cutoff facts stored fs in
      (redate_all horizon cutoff stored (map (\<lambda>r. (f_id r, f_known r, f_collected r)) rows) fs,
       rows @ stored))"

subsection \<open>Inserting one fact (_insert_value_session)\<close>

text \<open>The payload is compared as a dictionary: by its canonical text.\<close>

definition same_but_payload :: "fact_row \<Rightarrow> fact_row \<Rightarrow> bool" where
  "same_but_payload a b \<longleftrightarrow>
     a\<lparr>f_columns := (f_columns a)\<lparr>wv_payload := JNull\<rparr>\<rparr> = b\<lparr>f_columns := (f_columns b)\<lparr>wv_payload := JNull\<rparr>\<rparr>"

definition same_payload :: "fact_row \<Rightarrow> fact_row \<Rightarrow> bool" where
  "same_payload a b \<longleftrightarrow> encode (wv_payload (f_columns a)) = encode (wv_payload (f_columns b))"

datatype outcome = Inserted | Replayed | Expired

definition in_window :: "(instant \<times> instant) option \<Rightarrow> instant \<Rightarrow> bool" where
  "in_window w t \<longleftrightarrow> (case w of None \<Rightarrow> False | Some (lo, hi) \<Rightarrow> lo \<le> t \<and> t < hi)"

definition insert_value ::
  "bool \<Rightarrow> (instant \<times> instant) option \<Rightarrow> instant \<Rightarrow> resolved \<Rightarrow> fact_row list \<Rightarrow> ingest_error + (outcome \<times> fact_row list)" where
  "insert_value lenient window cutoff f stored =
     (if in_window window (rf_known f) \<and> \<not> retained_short_forecast (rf_value f) cutoff then Inr (Expired, stored)
      else
        let late = (if expired_short_forecast (rf_value f) cutoff then Expired else Replayed) in
        case row_of f_pk (rf_pk f) stored of
          Some row \<Rightarrow>
            if \<not> same_but_payload row (row_for f) \<or> (\<not> same_payload row (row_for f) \<and> \<not> lenient)
            then Inl (Fact_Conflict (rf_id f)) else Inr (late, stored)
        | None \<Rightarrow>
            Inr (if expired_short_forecast (rf_value f) cutoff then Expired else Inserted, row_for f # stored))"

record inserting =
  in_stored_rows :: "fact_row list"
  in_new :: "fact_row list"
  in_candidates :: "resolved list"

fun insert_values ::
  "text_bytes list \<Rightarrow> (instant \<times> instant) option \<Rightarrow> instant \<Rightarrow> resolved list \<Rightarrow> inserting \<Rightarrow> ingest_error + inserting" where
  "insert_values lenient window cutoff [] acc = Inr acc"
| "insert_values lenient window cutoff (f # fs) acc =
     (case insert_value (rf_source f \<in> set lenient) window cutoff f (in_stored_rows acc) of
        Inl e \<Rightarrow> Inl e
      | Inr (Expired, stored) \<Rightarrow> insert_values lenient window cutoff fs (acc\<lparr>in_stored_rows := stored\<rparr>)
      | Inr (Replayed, stored) \<Rightarrow>
          insert_values lenient window cutoff fs
            (acc\<lparr>in_stored_rows := stored, in_candidates := in_candidates acc @ [f]\<rparr>)
      | Inr (Inserted, stored) \<Rightarrow>
          insert_values lenient window cutoff fs
            (acc\<lparr>in_stored_rows := stored, in_new := in_new acc @ [row_for f], in_candidates := in_candidates acc @ [f]\<rparr>))"

subsection \<open>The current projection (_refresh_current_projection_session)\<close>

definition newest_by_key :: "resolved list \<Rightarrow> resolved list" where
  "newest_by_key fs =
     upsert_all logical_point (\<lambda>old new. if revision_order new > revision_order old then new else old) fs []"

text \<open>
  The compare-and-set of the upsert, as SQL compares rows: a pointer without a source reads it from
  its fact, and where there is none an equal clock decides nothing.
\<close>

definition pointer_source :: "fact_row list \<Rightarrow> pointer_row \<Rightarrow> text_bytes option" where
  "pointer_source facts p =
     (case pt_source p of
        Some s \<Rightarrow> Some s | None \<Rightarrow> map_option f_source (row_of f_pk (pt_id p, pt_known p) facts))"

definition newer_than :: "fact_row list \<Rightarrow> pointer_row \<Rightarrow> revision \<Rightarrow> bool" where
  "newer_than facts p order \<longleftrightarrow>
     (case order of (known, source, vid) \<Rightarrow>
        known > pt_known p
        \<or> (known = pt_known p \<and>
           (case pointer_source facts p of
              None \<Rightarrow> False | Some s \<Rightarrow> source > s \<or> (source = s \<and> vid > pt_id p))))"

definition pointer_for :: "resolved \<Rightarrow> pointer_row" where
  "pointer_for f = \<lparr>pt_logical = logical_point f, pt_id = rf_id f, pt_known = rf_known f, pt_source = Some (rf_source f)\<rparr>"

definition pointer_order :: "pointer_row \<Rightarrow> revision" where
  "pointer_order p = (pt_known p, (case pt_source p of None \<Rightarrow> [] | Some s \<Rightarrow> s), pt_id p)"

definition refresh_projection :: "fact_row list \<Rightarrow> resolved list \<Rightarrow> pointer_row list \<Rightarrow> pointer_row list" where
  "refresh_projection facts fs t =
     upsert_all pt_logical (\<lambda>old new. if newer_than facts old (pointer_order new) then new else old)
       (map pointer_for (newest_by_key fs)) t"

subsection \<open>The export chunk of the batch\<close>

record export_capture =
  ec_attempt :: export_attempt
  ec_chunk :: text_bytes
  ec_observed :: "(text_bytes \<times> py_datetime) list"

definition point_of_value :: "fact_env \<Rightarrow> weather_value \<Rightarrow> weather_point" where
  "point_of_value env v =
     \<lparr>wp_provider = wv_provider v, wp_dataset = wv_dataset v, wp_style = wv_style v, wp_location = wv_location v,
      wp_domain = wv_domain v, wp_version = wv_version v, wp_target = wv_target v, wp_dump = fe_dump env v\<rparr>"

text \<open>The stored row as a value again, and the point of the export file made of it.\<close>

definition value_of_row :: "fact_row \<Rightarrow> weather_value" where
  "value_of_row r = (f_columns r)\<lparr>wv_target := Some (f_target r), wv_known := Some (f_known r),
     wv_collected := f_collected r, wv_source := Some (f_source r)\<rparr>"

definition set_field :: "text_bytes \<Rightarrow> json \<Rightarrow> json \<Rightarrow> json" where
  "set_field k v j = (case j of JObj kvs \<Rightarrow> JObj (AList.update k v kvs) | _ \<Rightarrow> j)"

definition EVIDENCE_FIELDS :: "text_bytes list" where
  "EVIDENCE_FIELDS = [''obsr_value'', ''obsrValue'', ''category'', ''base_date'', ''base_time'', ''nx'', ''ny'']"

definition evidence_of :: "json \<Rightarrow> json" where
  "evidence_of payload =
     JObj (List.map_filter (\<lambda>k. map_option (Pair k) (jget payload k)) EVIDENCE_FIELDS)"

definition export_point :: "fact_env \<Rightarrow> fact_row \<Rightarrow> artifact_error + json" where
  "export_point env r =
     (let j = set_field ''value_id'' (JStr (f_id r)) (exclude_fields [''payload''] (fe_dump env (value_of_row r))) in
      case (case wv_number (f_columns r) of
              None \<Rightarrow> Inr j
            | Some n \<Rightarrow> (case canonical_export_number n of
                          Inl e \<Rightarrow> Inl e | Inr t \<Rightarrow> Inr (set_field ''value_number'' (JStr t) j))) of
        Inl e \<Rightarrow> Inl e
      | Inr j' \<Rightarrow> Inr (set_field ''observation_evidence'' (evidence_of (wv_payload (f_columns r))) j'))"

fun observed_clocks ::
  "(text_bytes \<times> text_bytes) list \<Rightarrow> (text_bytes \<times> py_datetime) list \<Rightarrow> (text_bytes \<times> instant) list \<Rightarrow>
   export_error + (text_bytes \<times> instant) list" where
  "observed_clocks aliases [] acc = Inr acc"
| "observed_clocks aliases ((k, observed) # rest) acc =
     (case observed of
        Naive _ \<Rightarrow> Inl (Artifact_Failure Timezone_Missing)
      | Aware t \<Rightarrow>
          let c = (case map_of aliases k of None \<Rightarrow> k | Some c \<Rightarrow> c)
          in observed_clocks aliases rest
               (AList.update c (case map_of acc c of None \<Rightarrow> t | Some u \<Rightarrow> min u t) acc))"

text \<open>The candidates by primary key, in the order of the keys, each with its stored row.\<close>

definition candidate_rows :: "fact_row list \<Rightarrow> resolved list \<Rightarrow> fact_row list" where
  "candidate_rows stored fs =
     List.map_filter (\<lambda>k. row_of f_pk k stored) (sorted_set (map rf_pk fs))"

definition source_counts :: "fact_env \<Rightarrow> source_record list \<Rightarrow> fact_row list \<Rightarrow> (text_bytes \<times> int) list" where
  "source_counts env records rows =
     (let scopes = map (\<lambda>r. (rec_key r, record_scope (fe_sha256 env) r)) records in
      map (\<lambda>scope. (scope, int (length (filter (\<lambda>r. map_of (rev scopes) (f_source r) = Some scope) rows))))
        (remdups (map snd scopes)))"

definition capture_chunk ::
  "fact_env \<Rightarrow> instant \<Rightarrow> export_capture \<Rightarrow> sync_run list \<Rightarrow> source_record list \<Rightarrow> (text_bytes \<times> text_bytes) list \<Rightarrow>
   weather_value list \<Rightarrow> resolved list \<Rightarrow> fact_row list \<Rightarrow> (export_db, prepared_chunk) transaction" where
  "capture_chunk env now cap found records aliases vs candidates stored db =
     (case found of
        [run] \<Rightarrow>
          if length candidates > MAX_CHUNK_POINTS \<or> list_ex (\<lambda>r. rec_run r \<noteq> Some (sr_id run)) records
          then Inl Value_Error
          else case observed_clocks aliases (ec_observed cap) [] of
            Inl e \<Rightarrow> Inl e
          | Inr observed \<Rightarrow>
              (case validate_head_capture (fe_head env) (at_id (ec_attempt cap)) records
                      (map (point_of_value env) vs) (map (\<lambda>(k, t). (k, Aware t)) observed) db of
                 Some e \<Rightarrow> Inl e
               | None \<Rightarrow>
                   let required = remdups (map rec_key records); rows = candidate_rows stored candidates in
                   if required = [] \<or> \<not> list_all (\<lambda>k. map_of observed k \<noteq> None) required
                      \<or> list_ex (\<lambda>f. rf_source f \<notin> set required) candidates
                   then Inl Value_Error
                   else case map_results (export_point env) rows of
                     Inl e \<Rightarrow> Inl (Artifact_Failure e)
                   | Inr points \<Rightarrow>
                       (case prepare_export_chunk (fe_sha256 env) points
                               (Aware (Min (set (List.map_filter (map_of observed) required)))) of
                          Inl e \<Rightarrow> Inl (Artifact_Failure e)
                        | Inr chunk \<Rightarrow>
                            (case normalization_input_digest (fe_sha256 env) (map (fe_dump env) vs) of
                               Inl e \<Rightarrow> Inl e
                             | Inr digest \<Rightarrow>
                                 (case record_export_chunk (ec_attempt cap) (ec_chunk cap) (sr_id run)
                                         (map (record_scope (fe_sha256 env)) records) chunk (Some (int (length vs)))
                                         (Some digest) (Some (source_counts env records rows)) now db of
                                    Inl e \<Rightarrow> Inl e | Inr (_, db') \<Rightarrow> Inr (chunk, db')))))
      | _ \<Rightarrow> Inl Value_Error)"

text \<open>The savepoint: an error of the capture marks the attempt and leaves the facts alone.\<close>

definition capture_or_fail ::
  "fact_env \<Rightarrow> instant \<Rightarrow> export_capture option \<Rightarrow> sync_run list \<Rightarrow> source_record list \<Rightarrow> (text_bytes \<times> text_bytes) list \<Rightarrow>
   weather_value list \<Rightarrow> resolved list \<Rightarrow> fact_row list \<Rightarrow> export_db \<Rightarrow> prepared_chunk option \<times> export_db" where
  "capture_or_fail env now capture found records aliases vs candidates stored db =
     (case capture of
        None \<Rightarrow> (None, db)
      | Some cap \<Rightarrow>
          (case capture_chunk env now cap found records aliases vs candidates stored db of
             Inr (chunk, db') \<Rightarrow> (Some chunk, db')
           | Inl _ \<Rightarrow> (None, fail_export_capture (ec_attempt cap) ''capture_failed'' db)))"

subsection \<open>The transaction (_ingest_batch_session)\<close>

text \<open>
  What the flush of the new rows checks: the primary key, the location, and a partition for the
  clock.
\<close>

definition facts_ok :: "fact_db \<Rightarrow> fact_row list \<Rightarrow> bool" where
  "facts_ok db new \<longleftrightarrow>
     distinct (map f_pk new) \<and> list_all (\<lambda>r. row_of f_pk (f_pk r) (fd_facts db) = None
       \<and> row_of lo_id (wv_location (f_columns r)) (locations (fd_export db)) \<noteq> None
       \<and> routable (fd_floor db) (fd_bounds db) (f_known r)) new"

definition add_loaded :: "sync_run list \<Rightarrow> nat \<Rightarrow> export_db \<Rightarrow> export_db" where
  "add_loaded found loaded db =
     (case found of
        [run] \<Rightarrow>
          if loaded = 0 then db
          else db\<lparr>sync := (sync db)\<lparr>runs := update_where (\<lambda>r. sr_id r = sr_id run)
                 (\<lambda>r. r\<lparr>sr_values := sr_values r + int loaded\<rparr>) (runs (sync db))\<rparr>\<rparr>
      | _ \<Rightarrow> db)"

record ingested =
  ig_loaded :: nat
  ig_skipped :: "text_bytes list"
  ig_chunk :: "prepared_chunk option"
  ig_db :: fact_db

text \<open>The facts once their responses and locations are settled: \<open>sources\<close> are the rows after the flush.\<close>

definition publish_facts ::
  "fact_env \<Rightarrow> instant \<Rightarrow> text_bytes list \<Rightarrow> text_bytes list \<Rightarrow> weather_value list \<Rightarrow> source_row list \<Rightarrow> fact_db \<Rightarrow>
   ingest_error + (inserting \<times> fact_db)" where
  "publish_facts env now new lenient vs sources db =
     (let cutoff = short_forecast_cutoff now;
          (window, horizon) = (if vs = [] then (None, None) else retention_bounds (fd_floor db) (fd_bounds db))
      in case resolve_facts env now (locations (fd_export db)) vs sources new of
        Inl e \<Rightarrow> Inl e
      | Inr (fs, sources') \<Rightarrow>
          if \<not> sources_ok sources' then Inl Integrity_Error
          else case readmit_retained_short (fd_floor db) (fd_bounds db) now cutoff (fd_facts db)
                  (existing_facts (fd_facts db) fs) fs of
            Inl e \<Rightarrow> Inl e
          | Inr (fs', stored) \<Rightarrow>
              (let (fs'', stored') = (case horizon of None \<Rightarrow> (fs', stored)
                     | Some h \<Rightarrow> redate_forgotten_replays h cutoff (fd_facts db) stored fs')
               in case insert_values lenient window cutoff fs''
                       \<lparr>in_stored_rows = stored', in_new = [], in_candidates = []\<rparr> of
                    Inl e \<Rightarrow> Inl e
                  | Inr ins \<Rightarrow>
                      if \<not> facts_ok db (in_new ins) then Inl Integrity_Error
                      else Inr (ins, db\<lparr>fd_sources := sources', fd_facts := fd_facts db @ in_new ins,
                             fd_current := refresh_projection (fd_facts db @ in_new ins) (in_candidates ins)
                               (fd_current db)\<rparr>)))"

text \<open>\<open>held\<close>: the locations another writer holds; \<open>None\<close> where the batch waits for them.\<close>

definition skipped_locations :: "text_bytes list option \<Rightarrow> weather_value list \<Rightarrow> text_bytes list" where
  "skipped_locations held vs =
     (case held of None \<Rightarrow> [] | Some ls \<Rightarrow> sorted_set (filter (\<lambda>l. l \<in> set ls) (map wv_location vs)))"

definition ingest_batch_session ::
  "fact_env \<Rightarrow> repo_config \<Rightarrow> instant \<Rightarrow> text_bytes list option \<Rightarrow> export_capture option \<Rightarrow>
   source_record list \<Rightarrow> weather_value list \<Rightarrow> fact_db \<Rightarrow> ingest_error + ingested" where
  "ingest_batch_session env cfg now held capture records vs db =
     (case check_runs (sync (fd_export db)) records of
        Inl e \<Rightarrow> Inl e
      | Inr found \<Rightarrow>
          (case record_sources env now (fd_sources db) [] records \<lparr>rd_aliases = [], rd_pending = [], rd_records = []\<rparr> of
             Inl e \<Rightarrow> Inl e
           | Inr rd \<Rightarrow>
               (let sources = fd_sources db @ rd_pending rd;
                    clocked = (fd_export db)\<lparr>sync := capture_export_fetch_clocks cfg records (sync (fd_export db))\<rparr>;
                    aliased = map (alias_value (rd_aliases rd)) vs;
                    skipped = skipped_locations held aliased;
                    kept = filter (\<lambda>v. wv_location v \<notin> set skipped) aliased
                in if \<not> sources_ok sources then Inl Integrity_Error
                   else case link_sources found (rd_records rd) (fd_links db) of
                     Inl e \<Rightarrow> Inl e
                   | Inr links \<Rightarrow>
                       (case publish_facts env now (map src_key (rd_pending rd)) (replay_keys (rd_aliases rd)) kept sources
                               (db\<lparr>fd_export := clocked, fd_links := links\<rparr>) of
                          Inl e \<Rightarrow> Inl e
                        | Inr (ins, db') \<Rightarrow>
                            (let (chunk, exports) = capture_or_fail env now capture found (rd_records rd) (rd_aliases rd)
                                   kept (in_candidates ins) (in_stored_rows ins) (fd_export db')
                             in Inr \<lparr>ig_loaded = length (in_new ins), ig_skipped = skipped, ig_chunk = chunk,
                                  ig_db = db'\<lparr>fd_export := add_loaded found (length (in_new ins)) exports\<rparr>\<rparr>)))))"

subsection \<open>The calls around it\<close>

text \<open>
  \<open>_retry_lock_race\<close>: a transaction that loses a lock race is rolled back and tried again, at most
  twenty times; \<open>races\<close> says which attempts lose.
\<close>

definition INGEST_LOCK_ATTEMPTS :: nat where "INGEST_LOCK_ATTEMPTS = 20"

datatype 'a retried = Returned 'a | Lost_Every_Race

fun retry_lock_race :: "nat \<Rightarrow> (nat \<Rightarrow> bool) \<Rightarrow> nat \<Rightarrow> (nat \<Rightarrow> 'a) \<Rightarrow> 'a retried" where
  "retry_lock_race 0 races n step = Lost_Every_Race"
| "retry_lock_race (Suc left) races n step =
     (if races n then retry_lock_race left races (Suc n) step else Returned (step n))"

text \<open>The file follows the commit; a failure to write it only fails the attempt.\<close>

definition publish_chunk ::
  "(text_bytes \<Rightarrow> text_bytes) \<Rightarrow> instant \<Rightarrow> export_capture option \<Rightarrow> ingested \<Rightarrow> directory \<Rightarrow> fact_db \<times> directory" where
  "publish_chunk sha256 now capture r dir =
     (case (capture, ig_chunk r) of
        (Some cap, Some chunk) \<Rightarrow>
          (case store_publish sha256 now chunk dir of
             Inr dir' \<Rightarrow> (ig_db r, dir')
           | Inl _ \<Rightarrow> ((ig_db r)\<lparr>fd_export := fail_export_capture (ec_attempt cap) ''artifact_write_failed'' (fd_export (ig_db r))\<rparr>,
               dir))
      | _ \<Rightarrow> (ig_db r, dir))"

definition ingest_batch ::
  "fact_env \<Rightarrow> repo_config \<Rightarrow> (nat \<Rightarrow> bool) \<Rightarrow> (nat \<Rightarrow> instant) \<Rightarrow> export_capture option \<Rightarrow>
   source_record list \<Rightarrow> weather_value list \<Rightarrow> fact_db \<Rightarrow> directory \<Rightarrow>
   ((ingest_error + nat) retried) \<times> fact_db \<times> directory" where
  "ingest_batch env cfg races clock capture records vs db dir =
     (if records = [] \<and> vs = [] then (Returned (Inr 0), db, dir)
      else case retry_lock_race INGEST_LOCK_ATTEMPTS races 0
             (\<lambda>n. (n, ingest_batch_session env cfg (clock n) None capture records vs db)) of
        Lost_Every_Race \<Rightarrow> (Lost_Every_Race, db, dir)
      | Returned (n, Inl e) \<Rightarrow> (Returned (Inl e), db, dir)
      | Returned (n, Inr r) \<Rightarrow>
          (let (db', dir') = publish_chunk (fe_sha256 env) (clock n) capture r dir in (Returned (Inr (ig_loaded r)), db', dir')))"

definition ingest_skip_locked ::
  "fact_env \<Rightarrow> repo_config \<Rightarrow> (nat \<Rightarrow> bool) \<Rightarrow> (nat \<Rightarrow> instant) \<Rightarrow> (nat \<Rightarrow> text_bytes list) \<Rightarrow>
   source_record list \<Rightarrow> weather_value list \<Rightarrow> fact_db \<Rightarrow>
   ((ingest_error + nat \<times> text_bytes list) retried) \<times> fact_db" where
  "ingest_skip_locked env cfg races clock held records vs db =
     (if records = [] \<and> vs = [] then (Returned (Inr (0, [])), db)
      else case retry_lock_race INGEST_LOCK_ATTEMPTS races 0
             (\<lambda>n. ingest_batch_session env cfg (clock n) (Some (held n)) None records vs db) of
        Lost_Every_Race \<Rightarrow> (Lost_Every_Race, db)
      | Returned (Inl e) \<Rightarrow> (Returned (Inl e), db)
      | Returned (Inr r) \<Rightarrow> (Returned (Inr (ig_loaded r, ig_skipped r)), ig_db r))"

text \<open>
  \<open>publish_and_finish\<close>: the last facts of a run and its end, in one transaction; \<open>offset\<close> is what its
  earlier batches published, \<open>ended\<close> the clock of the end.
\<close>

definition publish_and_finish ::
  "fact_env \<Rightarrow> repo_config \<Rightarrow> (nat \<Rightarrow> bool) \<Rightarrow> (nat \<Rightarrow> instant) \<Rightarrow> (nat \<Rightarrow> instant) \<Rightarrow> text_bytes \<Rightarrow> text_bytes \<Rightarrow>
   finish_counts \<Rightarrow> text_bytes option \<Rightarrow> nat \<Rightarrow> source_record list \<Rightarrow> weather_value list \<Rightarrow> fact_db \<Rightarrow>
   (((ingest_error + sync_error) + (nat \<times> sync_run)) retried) \<times> fact_db" where
  "publish_and_finish env cfg races clock ended run_id status counts error offset records vs db =
     (case retry_lock_race INGEST_LOCK_ATTEMPTS races 0 (\<lambda>n.
         case ingest_batch_session env cfg (clock n) None None records vs db of
           Inl e \<Rightarrow> Inl (Inl e)
         | Inr r \<Rightarrow>
             (let exports = fd_export (ig_db r); loaded = ig_loaded r + offset in
              case finish_published cfg run_id status counts error (int loaded) (ended n) (sync exports) of
                Inl e \<Rightarrow> Inl (Inr e)
              | Inr (row, s) \<Rightarrow> Inr (loaded, row, (ig_db r)\<lparr>fd_export := exports\<lparr>sync := s\<rparr>\<rparr>))) of
        Lost_Every_Race \<Rightarrow> (Lost_Every_Race, db)
      | Returned (Inl e) \<Rightarrow> (Returned (Inl e), db)
      | Returned (Inr (loaded, row, db')) \<Rightarrow> (Returned (Inr (loaded, row)), db'))"

end
