(* ===== verification/Short_Retention.thy ===== *)
theory Short_Retention
  imports Fact_Publish
begin

section \<open>Retention of short forecasts (retention.py, purge_expired_short_forecast)\<close>

text \<open>
  Short forecasts are deleted six hours after their target time, in batches in the order of an index
  on (valid_at, known_at, value_id).  A run continues after the last key it deleted, and the next run
  after the position the last one recorded, if that position can still be trusted.
\<close>

type_synonym retention_pos = "instant \<times> instant \<times> text_bytes"

definition valid_of :: "fact_row \<Rightarrow> instant" where
  "valid_of r = (case wv_valid (f_columns r) of None \<Rightarrow> 0 | Some t \<Rightarrow> t)"

definition retention_key :: "fact_row \<Rightarrow> retention_pos" where
  "retention_key r = (valid_of r, f_known r, f_id r)"

definition STATEMENT_TIMEOUT_MS :: int where "STATEMENT_TIMEOUT_MS = 5000"
definition HEAD_STATEMENT_TIMEOUT_MS :: int where "HEAD_STATEMENT_TIMEOUT_MS = 45000"
definition MAX_BATCH_SIZE :: int where "MAX_BATCH_SIZE = 1000"
definition MAX_BUDGET_SECONDS :: int where "MAX_BUDGET_SECONDS = 180"
definition HEAD_SWEEP_INTERVAL :: instant where "HEAD_SWEEP_INTERVAL = hours 24"
definition BACKLOG_LAG_ALERT :: instant where "BACKLOG_LAG_ALERT = hours 24"
definition LAG_STALL_RUNS :: int where "LAG_STALL_RUNS = 7"

subsection \<open>One batch\<close>

definition is_expired :: "instant \<Rightarrow> fact_row \<Rightarrow> bool" where
  "is_expired cutoff r \<longleftrightarrow> expired_short_forecast (f_columns r) cutoff"

definition lies_after :: "retention_pos option \<Rightarrow> fact_row \<Rightarrow> bool" where
  "lies_after after r \<longleftrightarrow> (case after of None \<Rightarrow> True | Some k \<Rightarrow> k < retention_key r)"

definition expired_after :: "instant \<Rightarrow> retention_pos option \<Rightarrow> fact_row list \<Rightarrow> fact_row list" where
  "expired_after cutoff after facts =
     sort_key retention_key (filter (\<lambda>r. is_expired cutoff r \<and> lies_after after r) facts)"

text \<open>
  How the transaction fares: it gets through, finds the purge lock taken, or is rolled back by an
  error that is deferred (with the name of its class) or not.
\<close>

datatype batch_event = Gets_Through | Lock_Taken | Deferrable text_bytes | Other_Error

datatype retention_error = Bad_Cutoff | Bad_Batch | Bad_Statement_Timeout | Delete_Mismatch | Sql_Error | Bad_Budget

record purge_report =
  pr_matched :: nat
  pr_pointers :: nat
  pr_facts :: nat
  pr_remaining :: "bool option"
  pr_deferred :: bool
  pr_last :: "retention_pos option"
  pr_error :: "text_bytes option"

definition deferred_report :: "text_bytes option \<Rightarrow> purge_report" where
  "deferred_report error = \<lparr>pr_matched = 0, pr_pointers = 0, pr_facts = 0, pr_remaining = None, pr_deferred = True,
     pr_last = None, pr_error = error\<rparr>"

definition delete_short_facts :: "fact_row list \<Rightarrow> fact_db \<Rightarrow> fact_db" where
  "delete_short_facts rows db =
     db\<lparr>fd_current := delete_where (\<lambda>p. (pt_id p, pt_known p) \<in> f_pk ` set rows) (fd_current db),
        fd_facts := delete_where (\<lambda>r. f_pk r \<in> f_pk ` set rows) (fd_facts db)\<rparr>"

definition purge_batch :: "instant \<Rightarrow> nat \<Rightarrow> bool \<Rightarrow> retention_pos option \<Rightarrow> fact_db \<Rightarrow> retention_error + (purge_report \<times> fact_db)" where
  "purge_batch cutoff size_of dry_run after db =
     (let found = expired_after cutoff after (fd_facts db);
          rows = take size_of found;
          db' = (if dry_run then db else delete_short_facts rows db);
          gone = filter (\<lambda>r. f_pk r \<in> f_pk ` set rows) (fd_facts db);
          last_key = (if rows = [] then None else Some (retention_key (List.last rows)))
      in if \<not> dry_run \<and> sort (map f_pk gone) \<noteq> sort (map f_pk rows) then Inl Delete_Mismatch
         else Inr (\<lparr>pr_matched = length rows,
             pr_pointers = length (fd_current db) - length (fd_current db'),
             pr_facts = (if dry_run then 0 else length gone),
             pr_remaining = Some (if length rows < size_of then False
               else expired_after cutoff last_key (fd_facts db') \<noteq> []),
             pr_deferred = False, pr_last = last_key, pr_error = None\<rparr>, db'))"

definition purge_expired_short_forecast ::
  "instant \<Rightarrow> batch_event \<Rightarrow> instant \<Rightarrow> int \<Rightarrow> bool \<Rightarrow> retention_pos option \<Rightarrow> int \<Rightarrow> fact_db \<Rightarrow>
   retention_error + (purge_report \<times> fact_db)" where
  "purge_expired_short_forecast now event cutoff batch_size dry_run after timeout_ms db =
     (if cutoff > short_forecast_cutoff now then Inl Bad_Cutoff
      else if \<not> (1 \<le> batch_size \<and> batch_size \<le> MAX_BATCH_SIZE) then Inl Bad_Batch
      else if \<not> (STATEMENT_TIMEOUT_MS \<le> timeout_ms \<and> timeout_ms \<le> 60000) then Inl Bad_Statement_Timeout
      else case event of
        Gets_Through \<Rightarrow> purge_batch cutoff (nat batch_size) dry_run after db
      | Lock_Taken \<Rightarrow> if dry_run then purge_batch cutoff (nat batch_size) dry_run after db else Inr (deferred_report None, db)
      | Deferrable error \<Rightarrow> Inr (deferred_report (Some error), db)
      | Other_Error \<Rightarrow> Inl Sql_Error)"

subsection \<open>A run of batches\<close>

datatype retention_status = Budget_Exhausted | Run_Deferred | Dry_Run | Complete_Snapshot

record retention_run =
  rn_batches :: nat
  rn_matched :: nat
  rn_pointers :: nat
  rn_facts :: nat
  rn_remaining :: "bool option"
  rn_status :: retention_status
  rn_position :: "retention_pos option"
  rn_resumed :: bool
  rn_timed_out :: bool
  rn_error :: "text_bytes option"
  rn_lag :: "instant option"

text \<open>
  What happens around the batches of a run: the time spent before each, its event, the wall clock,
  and what other transactions do before it.
\<close>

record run_world =
  rw_elapsed :: "nat \<Rightarrow> instant"
  rw_event :: "nat \<Rightarrow> batch_event"
  rw_now :: "nat \<Rightarrow> instant"
  rw_other :: "nat \<Rightarrow> fact_db \<Rightarrow> fact_db"

definition select_timeout_ms :: "retention_pos option \<Rightarrow> instant \<Rightarrow> int" where
  "select_timeout_ms position remaining =
     (case position of
        Some _ \<Rightarrow> STATEMENT_TIMEOUT_MS
      | None \<Rightarrow> max STATEMENT_TIMEOUT_MS (min HEAD_STATEMENT_TIMEOUT_MS (remaining * 1000 div seconds 1)))"

definition add_report :: "bool \<Rightarrow> purge_report \<Rightarrow> retention_run \<Rightarrow> retention_run" where
  "add_report dry_run p r =
     r\<lparr>rn_batches := rn_batches r + 1, rn_matched := rn_matched r + pr_matched p,
       rn_pointers := rn_pointers r + pr_pointers p, rn_facts := rn_facts r + pr_facts p,
       rn_remaining := (if pr_remaining p \<noteq> None \<or> rn_remaining r = None then pr_remaining p else rn_remaining r),
       rn_error := (if pr_error p \<noteq> None \<and> pr_error p \<noteq> Some [] then pr_error p else rn_error r),
       rn_position := (if \<not> dry_run \<and> pr_last p \<noteq> None then pr_last p else rn_position r)\<rparr>"

fun retention_loop ::
  "run_world \<Rightarrow> instant \<Rightarrow> bool \<Rightarrow> int \<Rightarrow> instant \<Rightarrow> nat \<Rightarrow> nat \<Rightarrow> retention_pos option \<Rightarrow> retention_run \<Rightarrow> fact_db \<Rightarrow>
   retention_error + (retention_run \<times> fact_db)" where
  "retention_loop w cutoff dry_run batch_size budget 0 n fallback r db = Inr (r, db)"
| "retention_loop w cutoff dry_run batch_size budget (Suc left) n fallback r db =
     (if rw_elapsed w n \<ge> budget then Inr (r, db)
      else case purge_expired_short_forecast (rw_now w n) (rw_event w n) cutoff batch_size dry_run (rn_position r)
              (select_timeout_ms (rn_position r) (budget - rw_elapsed w n)) (rw_other w n db) of
        Inl e \<Rightarrow> Inl e
      | Inr (p, db') \<Rightarrow>
          (let r' = add_report dry_run p r in
           if pr_deferred p \<and> fallback \<noteq> None \<and> rn_position r' = None \<and> rn_facts r' = 0
              \<and> pr_error p = Some ''QueryCanceled''
           then retention_loop w cutoff dry_run batch_size budget left (Suc n) None
                  (r'\<lparr>rn_position := fallback, rn_timed_out := True, rn_resumed := True\<rparr>) db'
           else if pr_deferred p then Inr (r'\<lparr>rn_status := Run_Deferred\<rparr>, db')
           else if dry_run then Inr (r'\<lparr>rn_status := Dry_Run\<rparr>, db')
           else if pr_remaining p \<noteq> Some True then Inr (r'\<lparr>rn_status := Complete_Snapshot\<rparr>, db')
           else if pr_matched p = 0 then Inr (r'\<lparr>rn_status := Run_Deferred\<rparr>, db')
           else retention_loop w cutoff dry_run batch_size budget left (Suc n) fallback r' db'))"

definition backlog_lag :: "instant \<Rightarrow> retention_run \<Rightarrow> instant option" where
  "backlog_lag cutoff r =
     (if rn_remaining r = Some False then Some 0
      else if rn_remaining r = Some True
      then map_option (\<lambda>k. max 0 (cutoff - fst k)) (rn_position r) else None)"

definition before_cutoff :: "instant \<Rightarrow> retention_pos option \<Rightarrow> retention_pos option" where
  "before_cutoff cutoff k = (case k of None \<Rightarrow> None | Some x \<Rightarrow> if fst x \<ge> cutoff then None else Some x)"

definition run_short_forecast_retention ::
  "run_world \<Rightarrow> instant \<Rightarrow> bool \<Rightarrow> int \<Rightarrow> int \<Rightarrow> instant \<Rightarrow> retention_pos option \<Rightarrow> retention_pos option \<Rightarrow> fact_db \<Rightarrow>
   retention_error + (retention_run \<times> fact_db)" where
  "run_short_forecast_retention w cutoff dry_run batch_size max_batches budget after fallback db =
     (if \<not> (1 \<le> max_batches \<and> max_batches \<le> 100) \<or> \<not> (0 < budget \<and> budget \<le> seconds MAX_BUDGET_SECONDS)
      then Inl Bad_Budget
      else
        let start = before_cutoff cutoff after;
            fb = (if start \<noteq> None then None else before_cutoff cutoff fallback);
            r = \<lparr>rn_batches = 0, rn_matched = 0, rn_pointers = 0, rn_facts = 0, rn_remaining = None,
                 rn_status = Budget_Exhausted, rn_position = start, rn_resumed = (start \<noteq> None),
                 rn_timed_out = False, rn_error = None, rn_lag = None\<rparr>
        in case retention_loop w cutoff dry_run batch_size budget (if dry_run then 1 else nat max_batches) 0 fb r db of
             Inl e \<Rightarrow> Inl e
           | Inr (r', db') \<Rightarrow> Inr (r'\<lparr>rn_lag := backlog_lag cutoff r'\<rparr>, db'))"

subsection \<open>Where the next run starts\<close>

definition SHORT_FORECAST_PREDICATE :: text_bytes where
  "SHORT_FORECAST_PREDICATE =
     ''provider = 'python-kma-api' AND dataset_key = 'kma_short_forecast' '' @
     ''AND weather_domain = 'kma_short_forecast' AND forecast_style = 'short' '' @
     ''AND valid_at IS NOT NULL''"

definition RETENTION_POLICY :: "(text_bytes \<Rightarrow> text_bytes) \<Rightarrow> text_bytes" where
  "RETENTION_POLICY sha256 = show_int SHORT_FORECAST_HOURS @ ''h:'' @ take 12 (sha256 SHORT_FORECAST_PREDICATE)"

type_synonym metadata = "(text_bytes \<times> json) list"

definition as_metadata :: "retention_pos \<Rightarrow> metadata" where
  "as_metadata k =
     (case k of (valid, known, vid) \<Rightarrow>
        [(''resume_valid_at'', JStr (iso_utc valid)), (''resume_known_at'', JStr (iso_utc known)),
         (''resume_value_id'', JStr vid)])"

definition aware_at :: "(text_bytes \<Rightarrow> py_datetime option) \<Rightarrow> json option \<Rightarrow> instant option" where
  "aware_at parse v = (case v of Some (JStr s) \<Rightarrow> (case parse s of Some (Aware t) \<Rightarrow> Some t | _ \<Rightarrow> None) | _ \<Rightarrow> None)"

definition nonempty_text :: "json option \<Rightarrow> bool" where
  "nonempty_text v \<longleftrightarrow> (case v of Some (JStr s) \<Rightarrow> s \<noteq> [] | _ \<Rightarrow> False)"

definition from_metadata :: "(text_bytes \<Rightarrow> py_datetime option) \<Rightarrow> metadata \<Rightarrow> retention_pos option" where
  "from_metadata parse m =
     (let raw = map (map_of m) [''resume_valid_at'', ''resume_known_at'', ''resume_value_id''] in
      if \<not> list_all nonempty_text raw then None
      else case (aware_at parse (raw ! 0), aware_at parse (raw ! 1), raw ! 2) of
        (Some valid, Some known, Some (JStr vid)) \<Rightarrow> if str_len vid > 64 then None else Some (valid, known, vid)
      | _ \<Rightarrow> None)"

datatype discarded = Policy_Changed | Database_Changed | Ahead_Of_Cutoff | Periodic_Head_Sweep

record resume_decision =
  rs_after :: "retention_pos option"
  rs_head_scan :: "instant option"
  rs_discarded :: "discarded option"
  rs_fallback :: "retention_pos option"

definition resume_position ::
  "(text_bytes \<Rightarrow> text_bytes) \<Rightarrow> (text_bytes \<Rightarrow> py_datetime option) \<Rightarrow> metadata \<Rightarrow> instant \<Rightarrow> text_bytes option \<Rightarrow> instant \<Rightarrow>
   resume_decision" where
  "resume_position sha256 parse previous cutoff database now =
     (let from_head = (\<lambda>why. \<lparr>rs_after = None, rs_head_scan = None, rs_discarded = why, rs_fallback = None\<rparr>) in
      case from_metadata parse previous of
        None \<Rightarrow> from_head None
      | Some key \<Rightarrow>
          if map_of previous ''resume_policy'' \<noteq> Some (JStr (RETENTION_POLICY sha256)) then from_head (Some Policy_Changed)
          else if database = None \<or> map_of previous ''resume_database'' \<noteq> map_option JStr database
          then from_head (Some Database_Changed)
          else if fst key \<ge> cutoff then from_head (Some Ahead_Of_Cutoff)
          else case aware_at parse (map_of previous ''head_scan_at'') of
            None \<Rightarrow> (from_head (Some Periodic_Head_Sweep))\<lparr>rs_fallback := Some key\<rparr>
          | Some swept \<Rightarrow>
              if now - swept \<ge> HEAD_SWEEP_INTERVAL then (from_head (Some Periodic_Head_Sweep))\<lparr>rs_fallback := Some key\<rparr>
              else \<lparr>rs_after = Some key, rs_head_scan = Some swept, rs_discarded = None, rs_fallback = None\<rparr>)"

subsection \<open>Progress and stalls\<close>

definition made_progress :: "bool \<Rightarrow> retention_run \<Rightarrow> bool" where
  "made_progress dry_run r \<longleftrightarrow> \<not> dry_run \<and> (rn_status r = Complete_Snapshot \<or> rn_facts r > 0)"

text \<open>\<open>before\<close> and \<open>runs_before\<close>: the lag and the count the previous run recorded.\<close>

definition lag_stall_runs :: "instant option \<Rightarrow> int option \<Rightarrow> retention_run \<Rightarrow> int" where
  "lag_stall_runs before runs_before r =
     (case rn_lag r of
        None \<Rightarrow> 0
      | Some lag \<Rightarrow>
          if rn_remaining r \<noteq> Some True \<or> lag \<le> BACKLOG_LAG_ALERT then 0
          else if (case before of Some b \<Rightarrow> lag < b | None \<Rightarrow> False) then 0
          else (case runs_before of Some k \<Rightarrow> if k > 0 then k else 0 | None \<Rightarrow> 0) + 1)"

definition backlog_stalled :: "int \<Rightarrow> bool" where
  "backlog_stalled stall_runs \<longleftrightarrow> stall_runs \<ge> LAG_STALL_RUNS"

end
