(* ===== verification/History_Purge.thy ===== *)
theory History_Purge
  imports Short_Retention
begin

section \<open>The nightly purge of history (repository.py, partitions.py)\<close>

text \<open>
  Facts older than the retention window go by whole days: the pointers into them are deleted, the
  dated partitions whose day has passed are detached and dropped, one transaction each, and the
  sources nothing cites any more are deleted.  A partition is named here by its bounds; its rows are
  the facts whose clock lies in them.  A day that still holds a short forecast to be kept is retained.
\<close>

type_synonym partition = "instant \<times> instant"

definition PARTITION_DDL_DEFERRAL_LIMIT :: nat where "PARTITION_DDL_DEFERRAL_LIMIT = 3"

definition in_partition :: "partition \<Rightarrow> fact_row \<Rightarrow> bool" where
  "in_partition b r \<longleftrightarrow> fst b \<le> f_known r \<and> f_known r < snd b"

text \<open>Oldest first; the day of a partition is the KST day its lower bound lies in.\<close>

definition expired_partitions :: "day \<Rightarrow> partition list \<Rightarrow> partition list" where
  "expired_partitions cutoff bounds =
     filter (\<lambda>b. kst_day (fst b) + 1 \<le> cutoff) (sort_key (\<lambda>b. kst_day (fst b)) bounds)"

subsection \<open>The pointers (purge_expired_history)\<close>

definition names_retained :: "instant \<Rightarrow> fact_row list \<Rightarrow> pointer_row \<Rightarrow> bool" where
  "names_retained short_cutoff facts p \<longleftrightarrow>
     list_ex (\<lambda>r. f_pk r = (pt_id p, pt_known p) \<and> retained_short_forecast (f_columns r) short_cutoff) facts"

definition delete_aged_pointers :: "instant \<Rightarrow> instant \<Rightarrow> fact_db \<Rightarrow> nat \<times> fact_db" where
  "delete_aged_pointers cutoff now db =
     (let kept = delete_where (\<lambda>p. pt_known p < cutoff
            \<and> \<not> names_retained (short_forecast_cutoff now) (fd_facts db) p) (fd_current db)
      in (length (fd_current db) - length kept, db\<lparr>fd_current := kept\<rparr>))"

subsection \<open>One partition\<close>

definition preserves_short :: "instant \<Rightarrow> fact_row list \<Rightarrow> bool" where
  "preserves_short now rows \<longleftrightarrow>
     list_ex (\<lambda>r. retained_short_forecast (f_columns r) (short_forecast_cutoff now)) rows"

datatype partition_outcome = Gone_Already | Day_Retained | Moved_Out

definition detach_expired :: "instant \<Rightarrow> partition \<Rightarrow> fact_db \<Rightarrow> partition_outcome \<times> fact_db" where
  "detach_expired now b db =
     (let rows = filter (in_partition b) (fd_facts db) in
      if b \<notin> set (fd_bounds db) then (Gone_Already, db)
      else if preserves_short now rows then (Day_Retained, db)
      else (Moved_Out, db\<lparr>fd_facts := filter (\<lambda>r. \<not> in_partition b r) (fd_facts db),
             fd_bounds := remove1 b (fd_bounds db), fd_detached := fd_detached db @ [(b, rows)]\<rparr>))"

definition drop_detached :: "instant \<Rightarrow> partition \<Rightarrow> fact_db \<Rightarrow> partition_outcome \<times> fact_db" where
  "drop_detached now b db =
     (case map_of (fd_detached db) b of
        None \<Rightarrow> (Gone_Already, db)
      | Some rows \<Rightarrow>
          if preserves_short now rows then (Day_Retained, db)
          else (Moved_Out, db\<lparr>fd_detached := filter (\<lambda>x. fst x \<noteq> b) (fd_detached db)\<rparr>))"

text \<open>Rows of the projection whose fact is gone, deleted when the validation of the foreign key fails.\<close>

definition delete_dangling :: "fact_db \<Rightarrow> fact_db" where
  "delete_dangling db =
     db\<lparr>fd_current := delete_where (\<lambda>p. (pt_id p, pt_known p) \<notin> f_pk ` set (fd_facts db)) (fd_current db)\<rparr>"

text \<open>\<open>cited\<close>: the sources a warning announcement cites.\<close>

definition purge_sources :: "instant \<Rightarrow> text_bytes list \<Rightarrow> fact_db \<Rightarrow> nat \<times> fact_db" where
  "purge_sources cutoff cited db =
     (let used = map f_source (fd_facts db @ concat (map snd (fd_detached db))) @ map snd (fd_links db) @ cited;
          kept = delete_where (\<lambda>s. src_fetched s < cutoff \<and> src_key s \<notin> set used) (fd_sources db)
      in (length (fd_sources db) - length kept, db\<lparr>fd_sources := kept\<rparr>))"

subsection \<open>Dropping the expired days (_drop_expired_partitions)\<close>

text \<open>
  The world of the loop: how the attempts of its nth step fare against other sessions' locks, the
  clock of the step, what other transactions do before it, and for a day that was missed whether an
  earlier run had marked it and whether the mark of this run is written.
\<close>

datatype ddl_race = Wins_Locks | Loses_Locks | Fails

record purge_world =
  hw_race :: "nat \<Rightarrow> ddl_race"
  hw_now :: "nat \<Rightarrow> instant"
  hw_other :: "nat \<Rightarrow> fact_db \<Rightarrow> fact_db"
  hw_marked :: "partition \<Rightarrow> bool"
  hw_written :: "partition \<Rightarrow> bool"

record dropping =
  dg_dropped :: "partition list"
  dg_deferred :: "partition list"
  dg_overdue :: "partition list"
  dg_unmarked :: "partition list"
  dg_retained :: "partition list"
  dg_held :: bool
  dg_failed :: bool
  dg_losses :: nat
  dg_tick :: nat

text \<open>
  \<open>_try_partition_ddl\<close>: deferred when every attempt loses, or without an attempt once three steps in
  a row were.
\<close>

datatype tried = Deferred_Step | Raised | Stepped partition_outcome

definition try_ddl ::
  "purge_world \<Rightarrow> (instant \<Rightarrow> fact_db \<Rightarrow> partition_outcome \<times> fact_db) \<Rightarrow> dropping \<Rightarrow> fact_db \<Rightarrow>
   tried \<times> dropping \<times> fact_db" where
  "try_ddl w step d db =
     (if dg_losses d \<ge> PARTITION_DDL_DEFERRAL_LIMIT then (Deferred_Step, d, db)
      else let n = dg_tick d; before = hw_other w n db; d1 = d\<lparr>dg_tick := n + 1\<rparr> in
        case hw_race w n of
          Loses_Locks \<Rightarrow> (Deferred_Step, d1\<lparr>dg_losses := dg_losses d + 1\<rparr>, before)
        | Fails \<Rightarrow> (Raised, d1, before)
        | Wins_Locks \<Rightarrow>
            (case step (hw_now w n) before of
               (outcome, db') \<Rightarrow>
                 (Stepped outcome, (if outcome = Day_Retained then d1 else d1\<lparr>dg_losses := 0\<rparr>), db')))"

definition missed :: "purge_world \<Rightarrow> partition list \<Rightarrow> partition \<Rightarrow> dropping \<Rightarrow> dropping" where
  "missed w prior b d =
     d\<lparr>dg_deferred := dg_deferred d @ [b],
       dg_overdue := dg_overdue d @ (if hw_marked w b \<or> b \<in> set prior then [b] else []),
       dg_unmarked := dg_unmarked d @ (if hw_written w b then [] else [b])\<rparr>"

definition drop_leftover ::
  "purge_world \<Rightarrow> partition list \<Rightarrow> partition \<Rightarrow> dropping \<times> fact_db \<Rightarrow> dropping \<times> fact_db" where
  "drop_leftover w prior b s =
     (case s of (d, db) \<Rightarrow>
        if dg_failed d then (d, db)
        else case try_ddl w (\<lambda>now. drop_detached now b) d db of
          (Deferred_Step, d', db') \<Rightarrow> ((missed w prior b d')\<lparr>dg_held := True\<rparr>, db')
        | (Raised, d', db') \<Rightarrow> (d'\<lparr>dg_failed := True\<rparr>, db')
        | (Stepped outcome, d', db') \<Rightarrow>
            if outcome = Day_Retained then (d'\<lparr>dg_retained := dg_retained d' @ [b], dg_held := True\<rparr>, db')
            else (d'\<lparr>dg_dropped := dg_dropped d' @ [b]\<rparr>, db'))"

text \<open>A day that turns out to hold a short forecast only once it is detached fails the run.\<close>

definition finish_day ::
  "purge_world \<Rightarrow> partition list \<Rightarrow> partition \<Rightarrow> dropping \<times> fact_db \<Rightarrow> dropping \<times> fact_db" where
  "finish_day w prior b s =
     (case s of (d, db) \<Rightarrow>
        case try_ddl w (\<lambda>now. drop_detached now b) d db of
          (Deferred_Step, d', db') \<Rightarrow> ((missed w prior b d')\<lparr>dg_held := True\<rparr>, db')
        | (Raised, d', db') \<Rightarrow> (d'\<lparr>dg_failed := True\<rparr>, db')
        | (Stepped outcome, d', db') \<Rightarrow>
            if outcome = Day_Retained then (d'\<lparr>dg_failed := True\<rparr>, db')
            else (d'\<lparr>dg_dropped := dg_dropped d' @ [b]\<rparr>, db'))"

definition drop_day ::
  "purge_world \<Rightarrow> partition list \<Rightarrow> partition \<Rightarrow> dropping \<times> fact_db \<Rightarrow> dropping \<times> fact_db" where
  "drop_day w prior b s =
     (case s of (d, db) \<Rightarrow>
        if dg_failed d then (d, db)
        else if dg_held d then (d\<lparr>dg_deferred := dg_deferred d @ [b]\<rparr>, db)
        else case try_ddl w (\<lambda>now. detach_expired now b) d db of
          (Deferred_Step, d', db') \<Rightarrow> (missed w prior b d', db')
        | (Raised, d', db') \<Rightarrow> (d'\<lparr>dg_failed := True\<rparr>, db')
        | (Stepped outcome, d', db') \<Rightarrow>
            (case outcome of
               Day_Retained \<Rightarrow> (d'\<lparr>dg_retained := dg_retained d' @ [b]\<rparr>, db')
             | Gone_Already \<Rightarrow> (d', db')
             | Moved_Out \<Rightarrow> finish_day w prior b (d', db')))"

definition drop_expired_partitions ::
  "purge_world \<Rightarrow> day \<Rightarrow> partition list \<Rightarrow> fact_db \<Rightarrow> dropping \<times> fact_db" where
  "drop_expired_partitions w cutoff prior db =
     (let leftovers = expired_partitions cutoff (map fst (fd_detached db));
          expired = expired_partitions cutoff (fd_bounds db);
          d = \<lparr>dg_dropped = [], dg_deferred = [], dg_overdue = [], dg_unmarked = [], dg_retained = [],
               dg_held = False, dg_failed = False, dg_losses = 0, dg_tick = 0\<rparr>
      in fold (drop_day w prior) expired (fold (drop_leftover w prior) leftovers (d, db)))"

end
