(* ===== verification/Fact_Projection.thy ===== *)
theory Fact_Projection
  imports History_Purge
begin

section \<open>The projection shows the newest fact of every point\<close>

subsection \<open>The newest of a batch\<close>

definition keep_newer :: "resolved \<Rightarrow> resolved list \<Rightarrow> resolved list" where
  "keep_newer = upsert logical_point (\<lambda>old new. if revision_order new > revision_order old then new else old)"

interpretation newest: keyed_winner "\<lambda>t k. row_of logical_point k t" logical_point "\<lambda>f. f"
  "\<lambda>a b. revision_order b \<le> revision_order a" keep_newer
proof unfold_locales
  fix f :: resolved and t k
  show "row_of logical_point k (keep_newer f t) =
      (if k = logical_point f \<and> (case row_of logical_point k t of None \<Rightarrow> True | Some v \<Rightarrow> \<not> revision_order f \<le> revision_order v)
       then Some f else row_of logical_point k t)"
    unfolding keep_newer_def by (subst row_of_upsert) (auto split: option.splits)
qed auto

lemma newest_is_fold: "newest_by_key fs = fold keep_newer fs []"
  by (simp add: newest_by_key_def upsert_all_def keep_newer_def)

lemma newest_keyed: "keyed logical_point (newest_by_key fs)"
  unfolding newest_by_key_def upsert_all_def by (rule row_table.valid_fold_put) auto

lemma newest_offered:
  "f \<in> set fs \<Longrightarrow> \<exists>g. row_of logical_point (logical_point f) (newest_by_key fs) = Some g \<and> revision_order f \<le> revision_order g"
  unfolding newest_is_fold by (rule newest.offered)

lemma newest_origin: "row_of logical_point k (newest_by_key fs) = Some g \<Longrightarrow> g \<in> set fs \<and> logical_point g = k"
  unfolding newest_is_fold by (drule newest.origin) auto

subsection \<open>The pointers after a batch\<close>

lemma pointer_for_simps [simp]:
  "pt_logical (pointer_for f) = logical_point f" "pt_id (pointer_for f) = rf_id f" "pt_known (pointer_for f) = rf_known f"
  "pt_source (pointer_for f) = Some (rf_source f)" "pointer_order (pointer_for f) = revision_order f"
  by (simp_all add: pointer_for_def pointer_order_def revision_order_def)

lemma refresh_row:
  "row_of pt_logical k (refresh_projection facts fs t) =
    (case row_of logical_point k (newest_by_key fs) of
       None \<Rightarrow> row_of pt_logical k t
     | Some f \<Rightarrow> Some (case row_of pt_logical k t of None \<Rightarrow> pointer_for f
         | Some old \<Rightarrow> if newer_than facts old (revision_order f) then pointer_for f else old))"
proof (cases "row_of logical_point k (newest_by_key fs)")
  case None
  then have "k \<notin> pt_logical ` set (map pointer_for (newest_by_key fs))" by (auto simp: row_of_None_iff)
  with None show ?thesis unfolding refresh_projection_def upsert_all_def by (simp add: row_table.get_fold_put_notin)
next
  case (Some f)
  note f = row_of_SomeD [OF Some]
  have "distinct (map pt_logical (map pointer_for (newest_by_key fs)))"
    using newest_keyed [of fs] by (simp add: keyed_def comp_def)
  moreover have "pointer_for f \<in> set (map pointer_for (newest_by_key fs))" using f by simp
  ultimately have "row_of pt_logical (pt_logical (pointer_for f)) (refresh_projection facts fs t) =
      Some (case row_of pt_logical (pt_logical (pointer_for f)) t of None \<Rightarrow> pointer_for f
        | Some old \<Rightarrow> if newer_than facts old (pointer_order (pointer_for f)) then pointer_for f else old)"
    unfolding refresh_projection_def upsert_all_def by (intro row_table.get_fold_put_in) auto
  with Some f show ?thesis by (simp split: option.split)
qed

lemma refresh_keyed: "keyed pt_logical t \<Longrightarrow> keyed pt_logical (refresh_projection facts fs t)"
  unfolding refresh_projection_def upsert_all_def by (rule row_table.valid_fold_put) auto

text \<open>The row a pointer names, and the comparison with it.\<close>

definition names :: "fact_row list \<Rightarrow> pointer_row \<Rightarrow> fact_row \<Rightarrow> bool" where
  "names facts p r \<longleftrightarrow> r \<in> set facts \<and> f_pk r = (pt_id p, pt_known p) \<and> f_logical r = pt_logical p
     \<and> (pt_source p = None \<or> pt_source p = Some (f_source r))"

lemma newer_than_names:
  assumes "names facts p r" "keyed f_pk facts"
  shows "newer_than facts p order \<longleftrightarrow> f_order r < order"
proof -
  have "row_of f_pk (pt_id p, pt_known p) facts = Some r"
    using assms row_of_in [of f_pk facts r] by (simp add: names_def)
  then have "pointer_source facts p = Some (f_source r)"
    using assms(1) by (auto simp: pointer_source_def names_def split: option.split)
  then show ?thesis
    using assms(1) by (auto simp: newer_than_def names_def f_order_def f_pk_def less_prod_def' split: prod.split)
qed

subsection \<open>What a batch inserts\<close>

lemma same_but_payload_simps:
  assumes "same_but_payload r q"
  shows "f_pk r = f_pk q" "f_logical r = f_logical q" "f_source r = f_source q" "is_expired c r = is_expired c q"
proof -
  let ?blank = "\<lambda>r. r\<lparr>f_columns := (f_columns r)\<lparr>wv_payload := JNull\<rparr>\<rparr>"
  have same: "?blank r = ?blank q" using assms by (simp add: same_but_payload_def)
  have "f_pk (?blank x) = f_pk x" "f_source (?blank x) = f_source x" "f_logical (?blank x) = f_logical x"
    "is_expired c (?blank x) = is_expired c x" for x
    by (simp_all add: f_pk_def f_logical_def logical_of_def is_expired_def expired_short_forecast_def is_short_forecast_def)
  with same show "f_pk r = f_pk q" "f_logical r = f_logical q" "f_source r = f_source q" "is_expired c r = is_expired c q"
    by metis+
qed

lemma is_expired_row_for [simp]: "is_expired c (row_for f) = expired_short_forecast (rf_value f) c"
  by (simp add: is_expired_def)

definition backed :: "fact_row list \<Rightarrow> resolved \<Rightarrow> bool" where
  "backed facts f \<longleftrightarrow> (\<exists>r\<in>set facts. f_pk r = rf_pk f \<and> f_logical r = logical_point f \<and> f_source r = rf_source f)"

definition inserting_ok ::
  "fact_row list \<Rightarrow> (instant \<times> instant) option \<Rightarrow> instant \<Rightarrow> resolved set \<Rightarrow> inserting \<Rightarrow> bool" where
  "inserting_ok facts window cutoff fs acc \<longleftrightarrow>
     (\<forall>r\<in>set (in_stored_rows acc). r \<in> set (facts @ in_new acc) \<or> is_expired cutoff r)
     \<and> (\<forall>f\<in>set (in_candidates acc). f \<in> fs \<and> backed (facts @ in_new acc) f \<and> \<not> expired_short_forecast (rf_value f) cutoff)
     \<and> (\<forall>r\<in>set (in_new acc). \<exists>f\<in>set (in_candidates acc). r = row_for f
          \<and> (in_window window (rf_known f) \<longrightarrow> retained_short_forecast (rf_value f) cutoff))"

lemma backed_more: "backed facts f \<Longrightarrow> set facts \<subseteq> set facts' \<Longrightarrow> backed facts' f"
  by (auto simp: backed_def)

lemma insert_value_cases:
  assumes "insert_value lenient window cutoff f stored = Inr (outcome, stored')"
  shows "(outcome = Expired \<and> (stored' = stored \<or> stored' = row_for f # stored \<and> expired_short_forecast (rf_value f) cutoff))
    \<or> (outcome = Replayed \<and> stored' = stored \<and> \<not> expired_short_forecast (rf_value f) cutoff
       \<and> (\<exists>r\<in>set stored. same_but_payload r (row_for f)))
    \<or> (outcome = Inserted \<and> stored' = row_for f # stored \<and> \<not> expired_short_forecast (rf_value f) cutoff
       \<and> (in_window window (rf_known f) \<longrightarrow> retained_short_forecast (rf_value f) cutoff))"
  using assms row_of_SomeD [of f_pk "rf_pk f" stored]
  by (auto simp: insert_value_def Let_def split: if_splits option.splits)

lemma insert_values_ok:
  "insert_values lenient window cutoff fs acc = Inr acc' \<Longrightarrow> inserting_ok facts window cutoff all acc \<Longrightarrow> set fs \<subseteq> all \<Longrightarrow>
     inserting_ok facts window cutoff all acc'"
proof (induction fs arbitrary: acc)
  case (Cons f fs)
  from Cons.prems(1) obtain outcome stored where
    one: "insert_value (rf_source f \<in> set lenient) window cutoff f (in_stored_rows acc) = Inr (outcome, stored)"
    by (auto split: sum.splits)
  note ok = Cons.prems(2) [unfolded inserting_ok_def]
  from Cons.prems(3) have f: "f \<in> all" "set fs \<subseteq> all" by auto
  show ?case
  proof (cases outcome)
    case Expired
    then have rest: "insert_values lenient window cutoff fs (acc\<lparr>in_stored_rows := stored\<rparr>) = Inr acc'"
      using Cons.prems(1) one by simp
    have "inserting_ok facts window cutoff all (acc\<lparr>in_stored_rows := stored\<rparr>)"
      using insert_value_cases [OF one] Expired ok by (auto simp: inserting_ok_def)
    then show ?thesis by (rule Cons.IH [OF rest _ f(2)])
  next
    case Replayed
    let ?acc = "acc\<lparr>in_stored_rows := stored, in_candidates := in_candidates acc @ [f]\<rparr>"
    from Replayed have rest: "insert_values lenient window cutoff fs ?acc = Inr acc'"
      using Cons.prems(1) one by simp
    from insert_value_cases [OF one] Replayed obtain r where r: "r \<in> set (in_stored_rows acc)" "same_but_payload r (row_for f)"
      and late: "\<not> expired_short_forecast (rf_value f) cutoff" and same: "stored = in_stored_rows acc" by auto
    from same_but_payload_simps [OF r(2)] late have "\<not> is_expired cutoff r" by simp
    with ok r(1) have "r \<in> set (facts @ in_new acc)" by blast
    with same_but_payload_simps [OF r(2)] have "backed (facts @ in_new acc) f" by (auto simp: backed_def)
    with ok f(1) late have "inserting_ok facts window cutoff all ?acc" by (auto simp: inserting_ok_def same)
    then show ?thesis by (rule Cons.IH [OF rest _ f(2)])
  next
    case Inserted
    let ?acc = "acc\<lparr>in_stored_rows := stored, in_new := in_new acc @ [row_for f], in_candidates := in_candidates acc @ [f]\<rparr>"
    from Inserted have rest: "insert_values lenient window cutoff fs ?acc = Inr acc'"
      using Cons.prems(1) one by simp
    from insert_value_cases [OF one] Inserted have new: "stored = row_for f # in_stored_rows acc"
      "\<not> expired_short_forecast (rf_value f) cutoff" "in_window window (rf_known f) \<longrightarrow> retained_short_forecast (rf_value f) cutoff"
      by auto
    have "backed (facts @ in_new acc @ [row_for f]) g" if "g \<in> set (in_candidates acc)" for g
      using ok that by (auto intro: backed_more)
    moreover have "backed (facts @ in_new acc @ [row_for f]) f" by (auto simp: backed_def)
    ultimately have "inserting_ok facts window cutoff all ?acc"
      using ok f(1) new by (auto simp: inserting_ok_def)
    then show ?thesis by (rule Cons.IH [OF rest _ f(2)])
  qed
qed simp

subsection \<open>Dating keeps the value\<close>

definition of_values :: "weather_value list \<Rightarrow> resolved set" where
  "of_values vs = {f. rf_value f \<in> set vs \<and> rf_target f = canonical_target (rf_value f)}"

lemma resolve_fact_value:
  "resolve_fact env now locs v sources new = Inr (f, sources', new') \<Longrightarrow>
    rf_value f = v \<and> rf_target f = canonical_target v \<and> (\<exists>more'. sources' = sources @ more')"
  by (auto simp: resolve_fact_def Let_def split: option.splits if_splits)

lemma resolve_facts_values:
  "resolve_facts env now locs vs sources new = Inr (fs, final) \<Longrightarrow>
    set fs \<subseteq> of_values vs \<and> (\<exists>more'. final = sources @ more')"
proof (induction vs arbitrary: sources new fs final)
  case (Cons v vs)
  from Cons.prems obtain f sources' new' fs' where
    f: "resolve_fact env now locs v sources new = Inr (f, sources', new')"
    and rest: "resolve_facts env now locs vs sources' new' = Inr (fs', final)" and fs: "fs = f # fs'"
    by (auto split: sum.splits)
  from resolve_fact_value [OF f] Cons.IH [OF rest] show ?case by (auto simp: fs of_values_def)
qed simp

lemma map_results_set: "map_results g xs = Inr ys \<Longrightarrow> set ys = {y. \<exists>x\<in>set xs. g x = Inr y}"
  by (induction xs arbitrary: ys) (auto split: sum.splits)

lemma readmit_one_value:
  "readmit_one floor_at bounds now cutoff prior stored f = Inr f' \<Longrightarrow> rf_value f' = rf_value f \<and> rf_target f' = rf_target f"
  by (auto simp: readmit_one_def redated_def split: if_splits option.splits)

lemma earliest_in: "earliest rows = Some r \<Longrightarrow> r \<in> set rows"
proof -
  assume "earliest rows = Some r"
  then obtain rest where "sort_key f_known rows = r # rest" by (auto simp: earliest_def split: list.splits)
  then have "r \<in> set (sort_key f_known rows)" by (simp only: list.set_intros)
  then show "r \<in> set rows" by simp
qed

lemma readmit_values:
  assumes "readmit_retained_short floor_at bounds now cutoff facts stored fs = Inr (fs', stored')"
    and "set fs \<subseteq> of_values vs" "set stored \<subseteq> set facts"
  shows "set fs' \<subseteq> of_values vs \<and> set stored' \<subseteq> set facts"
proof -
  have "set (readmit_prior cutoff facts stored fs) \<subseteq> set facts"
    by (auto simp: readmit_prior_def Let_def map_filter_set dest: earliest_in)
  moreover have "f' \<in> of_values vs" if "f \<in> set fs" "readmit_one floor_at bounds now cutoff prior st f = Inr f'" for f f' prior st
    using that assms(2) readmit_one_value [OF that(2)] by (auto simp: of_values_def)
  ultimately show ?thesis
    using assms by (auto simp: readmit_retained_short_def Let_def dest!: map_results_set split: if_splits sum.splits)
qed

lemma redate_all_values: "set (redate_all horizon cutoff stored clocks fs) \<subseteq> of_values vs" if "set fs \<subseteq> of_values vs"
  using that
  by (induction fs arbitrary: clocks) (auto simp: Let_def redated_def of_values_def split: option.splits)

lemma redate_values:
  assumes "redate_forgotten_replays horizon cutoff facts stored fs = (fs', stored')"
    and "set fs \<subseteq> of_values vs" "set stored \<subseteq> set facts"
  shows "set fs' \<subseteq> of_values vs \<and> set stored' \<subseteq> set facts"
  using assms subsetD [OF redate_all_values [OF assms(2)]]
  by (auto simp: redate_forgotten_replays_def Let_def redate_rows_def)

definition batch_window :: "fact_db \<Rightarrow> (instant \<times> instant) option" where
  "batch_window db = fst (retention_bounds (fd_floor db) (fd_bounds db))"

lemma publish_facts_effect:
  assumes "publish_facts env now new lenient vs sources db = Inr (ins, db')"
  shows "facts_ok db (in_new ins) \<and> inserting_ok (fd_facts db) (batch_window db) (short_forecast_cutoff now) (of_values vs) ins
    \<and> (\<exists>added. db' = db\<lparr>fd_sources := sources @ added, fd_facts := fd_facts db @ in_new ins,
        fd_current := refresh_projection (fd_facts db @ in_new ins) (in_candidates ins) (fd_current db)\<rparr>)"
proof -
  let ?cutoff = "short_forecast_cutoff now"
  define window horizon where bounds: "window = (if vs = [] then None else batch_window db)"
    "horizon = (if vs = [] then None else snd (retention_bounds (fd_floor db) (fd_bounds db)))"
  have split: "(if vs = [] then (None, None) else retention_bounds (fd_floor db) (fd_bounds db)) = (window, horizon)"
    by (simp add: bounds batch_window_def)
  obtain fs sources' where fs: "resolve_facts env now (locations (fd_export db)) vs sources new = Inr (fs, sources')"
    using assms by (auto simp: publish_facts_def Let_def split split: sum.splits)
  obtain fs1 stored1 where re: "readmit_retained_short (fd_floor db) (fd_bounds db) now ?cutoff (fd_facts db)
      (existing_facts (fd_facts db) fs) fs = Inr (fs1, stored1)"
    using assms fs by (auto simp: publish_facts_def Let_def split split: sum.splits if_splits)
  obtain fs2 stored2 where red: "(case horizon of None \<Rightarrow> (fs1, stored1)
      | Some h \<Rightarrow> redate_forgotten_replays h ?cutoff (fd_facts db) stored1 fs1) = (fs2, stored2)" by fastforce
  from assms fs re red have ins: "insert_values lenient window ?cutoff fs2
      \<lparr>in_stored_rows = stored2, in_new = [], in_candidates = []\<rparr> = Inr ins" "facts_ok db (in_new ins)"
    "db' = db\<lparr>fd_sources := sources', fd_facts := fd_facts db @ in_new ins,
        fd_current := refresh_projection (fd_facts db @ in_new ins) (in_candidates ins) (fd_current db)\<rparr>"
    by (auto simp: publish_facts_def Let_def split split: sum.splits if_splits)
  have "set fs1 \<subseteq> of_values vs \<and> set stored1 \<subseteq> set (fd_facts db)"
    using readmit_values [OF re] resolve_facts_values [OF fs] by (auto simp: existing_facts_def)
  then have two: "set fs2 \<subseteq> of_values vs" "set stored2 \<subseteq> set (fd_facts db)"
    using red redate_values [of _ ?cutoff "fd_facts db" stored1 fs1 fs2 stored2 vs] by (auto split: option.splits)
  have "inserting_ok (fd_facts db) window ?cutoff (of_values vs) ins"
    by (rule insert_values_ok [OF ins(1) _ two(1)]) (use two(2) in \<open>auto simp: inserting_ok_def\<close>)
  moreover have "inserting_ok (fd_facts db) window ?cutoff (of_values vs) ins \<Longrightarrow>
      inserting_ok (fd_facts db) (batch_window db) ?cutoff (of_values vs) ins"
    by (cases "vs = []") (auto simp: bounds inserting_ok_def of_values_def)
  moreover have "\<exists>added. sources' = sources @ added" using resolve_facts_values [OF fs] by simp
  ultimately show ?thesis using ins(2,3) by blast
qed

subsection \<open>The store over time\<close>

text \<open>
  A state is the database with the marks of the retention so far: the latest cutoff below which
  short forecasts, and the latest clock before which other facts, were taken out of the projection
  or of the store, and the days that were detached.  A batch is published at a clock not before the
  purges of short forecasts.  Short forecasts carry their target as validity time (what the KMA
  normaliser makes); everything else is free.  Other transactions may change anything but the facts
  and the projection.
\<close>

record marks =
  mk_short :: instant
  mk_aged :: instant
  mk_days :: "(partition \<times> instant) list"

definition targeted :: "weather_value \<Rightarrow> bool" where
  "targeted v \<longleftrightarrow> (is_short_forecast v \<longrightarrow> wv_valid v = Some (canonical_target v))"

definition at_short_cutoff :: "instant \<Rightarrow> marks \<Rightarrow> marks" where
  "at_short_cutoff cutoff m = m\<lparr>mk_short := max (mk_short m) cutoff\<rparr>"

definition at_aged_cutoff :: "instant \<Rightarrow> marks \<Rightarrow> marks" where
  "at_aged_cutoff cutoff m = m\<lparr>mk_aged := max (mk_aged m) cutoff\<rparr>"

text \<open>The cutoff a nightly purge computed at its start, at least a day before any of its later clocks.\<close>

definition history_cutoff :: "int \<Rightarrow> instant \<Rightarrow> instant \<Rightarrow> bool" where
  "history_cutoff retention_days now cutoff \<longleftrightarrow> 0 < retention_days \<and> cutoff + days retention_days \<le> now"

inductive store_step :: "fact_db \<times> marks \<Rightarrow> fact_db \<times> marks \<Rightarrow> bool" where
  batch: "mk_short m \<le> short_forecast_cutoff now \<Longrightarrow> list_all targeted vs \<Longrightarrow>
    ingest_batch_session env cfg now held capture records vs db = Inr r \<Longrightarrow> store_step (db, m) (ig_db r, m)"
| purge: "purge_expired_short_forecast now event cutoff batch_size dry_run after timeout db = Inr (report, db') \<Longrightarrow>
    store_step (db, m) (db', at_short_cutoff cutoff m)"
| pointers: "history_cutoff retention_days now cutoff \<Longrightarrow> delete_aged_pointers cutoff now db = (n, db') \<Longrightarrow>
    store_step (db, m) (db', at_short_cutoff (short_forecast_cutoff now) (at_aged_cutoff cutoff m))"
| detach: "history_cutoff retention_days now cutoff \<Longrightarrow> kst_day (fst b) + 1 \<le> kst_day cutoff \<Longrightarrow>
    detach_expired now b db = (Moved_Out, db') \<Longrightarrow>
    store_step (db, m) (db', at_short_cutoff (short_forecast_cutoff now) (at_aged_cutoff (snd b) m)\<lparr>mk_days := (b, cutoff) # mk_days m\<rparr>)"
| drop_day: "drop_detached now b db = (outcome, db') \<Longrightarrow> store_step (db, m) (db', m)"
| dangling: "store_step (db, m) (delete_dangling db, m)"
| others: "fd_facts db' = fd_facts db \<Longrightarrow> fd_current db' = fd_current db \<Longrightarrow> store_step (db, m) (db', m)"

definition store_start :: "fact_db \<times> marks \<Rightarrow> bool" where
  "store_start s \<longleftrightarrow> fd_facts (fst s) = [] \<and> fd_current (fst s) = []"

definition short_row_ok :: "fact_row \<Rightarrow> bool" where
  "short_row_ok r \<longleftrightarrow> (is_short_forecast (f_columns r) \<longrightarrow> wv_valid (f_columns r) = Some (f_target r))"

text \<open>
  A fact the nightly purge may have taken out of the projection, and one any retention may have.
\<close>

definition aged_fact :: "marks \<Rightarrow> fact_row \<Rightarrow> bool" where
  "aged_fact m q \<longleftrightarrow> f_known q < mk_aged m \<and> \<not> is_short_forecast (f_columns q)"

definition let_go :: "marks \<Rightarrow> fact_row \<Rightarrow> bool" where
  "let_go m q \<longleftrightarrow> is_expired (mk_short m) q \<or> aged_fact m q"

text \<open>A pointer at a stored fact of its point that no other fact of the point, unless aged, is newer than.\<close>

definition points_at_newest :: "marks \<Rightarrow> fact_row list \<Rightarrow> pointer_row \<Rightarrow> bool" where
  "points_at_newest m facts p \<longleftrightarrow>
     (\<exists>r. names facts p r \<and> (\<forall>q\<in>set facts. f_logical q = pt_logical p \<longrightarrow> f_order q \<le> f_order r \<or> aged_fact m q))"

text \<open>A pointer whose fact a dropped day took away.\<close>

definition short_point :: "point_key \<Rightarrow> bool" where
  "short_point k \<longleftrightarrow> (case k of (location, provider, dataset, domain, style, metric, target) \<Rightarrow>
     provider = ''python-kma-api'' \<and> dataset = ''kma_short_forecast'' \<and> domain = ''kma_short_forecast'' \<and> style = ''short'')"

definition point_target :: "point_key \<Rightarrow> instant" where
  "point_target k = (case k of (location, provider, dataset, domain, style, metric, target) \<Rightarrow> target)"

definition dropped_away :: "marks \<Rightarrow> pointer_row \<Rightarrow> bool" where
  "dropped_away m p \<longleftrightarrow> pt_known p < mk_aged m \<and> (short_point (pt_logical p) \<longrightarrow> point_target (pt_logical p) < mk_short m)"

definition pointer_ok :: "marks \<Rightarrow> fact_row list \<Rightarrow> pointer_row \<Rightarrow> bool" where
  "pointer_ok m facts p \<longleftrightarrow> points_at_newest m facts p
     \<or> (dropped_away m p \<and> (\<forall>q\<in>set facts. f_logical q = pt_logical p \<longrightarrow> let_go m q))"

definition store_inv :: "fact_db \<times> marks \<Rightarrow> bool" where
  "store_inv s \<longleftrightarrow> (case s of (db, m) \<Rightarrow>
     keyed f_pk (fd_facts db) \<and> keyed pt_logical (fd_current db)
     \<and> (\<forall>r\<in>set (fd_facts db). short_row_ok r)
     \<and> (\<forall>p\<in>set (fd_current db). pointer_ok m (fd_facts db) p)
     \<and> (\<forall>q\<in>set (fd_facts db). let_go m q \<or> row_of pt_logical (f_logical q) (fd_current db) \<noteq> None))"

lemma store_invD:
  assumes "store_inv (db, m)"
  shows "keyed f_pk (fd_facts db)" "keyed pt_logical (fd_current db)" "r \<in> set (fd_facts db) \<Longrightarrow> short_row_ok r"
    "p \<in> set (fd_current db) \<Longrightarrow> pointer_ok m (fd_facts db) p"
    "r \<in> set (fd_facts db) \<Longrightarrow> \<not> let_go m r \<Longrightarrow> \<exists>p. row_of pt_logical (f_logical r) (fd_current db) = Some p"
  using assms by (auto simp: store_inv_def)

lemma is_expired_mono: "is_expired c r \<Longrightarrow> c \<le> d \<Longrightarrow> is_expired d r"
  by (auto simp: is_expired_def expired_short_forecast_def split: option.splits)

definition marks_le :: "marks \<Rightarrow> marks \<Rightarrow> bool" where
  "marks_le m m' \<longleftrightarrow> mk_short m \<le> mk_short m' \<and> mk_aged m \<le> mk_aged m' \<and> set (mk_days m) \<subseteq> set (mk_days m')"

lemma marks_le_refl [simp]: "marks_le m m"
  by (simp add: marks_le_def)

lemma marks_le_trans: "marks_le a b \<Longrightarrow> marks_le b c \<Longrightarrow> marks_le a c"
  by (auto simp: marks_le_def)

lemma marks_le_cutoffs [simp]:
  "marks_le m (at_short_cutoff c m)" "marks_le m (at_short_cutoff c (at_aged_cutoff d m))"
  "marks_le m (at_short_cutoff c (at_aged_cutoff d m)\<lparr>mk_days := x # mk_days m\<rparr>)"
  by (auto simp: marks_le_def at_short_cutoff_def at_aged_cutoff_def)

lemma aged_mono: "aged_fact m q \<Longrightarrow> marks_le m m' \<Longrightarrow> aged_fact m' q"
  by (auto simp: aged_fact_def marks_le_def)

lemma let_go_mono: "let_go m q \<Longrightarrow> marks_le m m' \<Longrightarrow> let_go m' q"
  using is_expired_mono [of "mk_short m" q "mk_short m'"] aged_mono [of m q m'] by (auto simp: let_go_def marks_le_def)

lemma dropped_away_mono: "dropped_away m p \<Longrightarrow> marks_le m m' \<Longrightarrow> dropped_away m' p"
  by (auto simp: dropped_away_def marks_le_def)

lemma short_point_row: "short_point (f_logical q) = is_short_forecast (f_columns q)" "point_target (f_logical q) = f_target q"
  by (auto simp: short_point_def point_target_def f_logical_def logical_of_def is_short_forecast_def)

lemma short_expired: "short_row_ok q \<Longrightarrow> is_expired c q \<longleftrightarrow> short_point (f_logical q) \<and> point_target (f_logical q) < c"
  by (auto simp: short_point_row is_expired_def expired_short_forecast_def short_row_ok_def split: option.splits)

text \<open>Rows of one point are expired together.\<close>

lemma expired_together:
  "short_row_ok r \<Longrightarrow> short_row_ok q \<Longrightarrow> f_logical r = f_logical q \<Longrightarrow> is_expired c r = is_expired c q"
  by (simp add: short_expired)

text \<open>A row no newer than a forgotten one of its point is forgotten too.\<close>

lemma forgotten_older:
  assumes "short_row_ok r" "short_row_ok q" "f_logical q = f_logical r" "f_known q \<le> f_known r"
    "f_known r < mk_aged m" "short_point (f_logical r) \<Longrightarrow> point_target (f_logical r) < mk_short m"
  shows "let_go m q"
  using assms short_point_row(1) [of q] by (cases "short_point (f_logical r)") (auto simp: let_go_def aged_fact_def short_expired)

lemma targeted_row: "targeted v \<Longrightarrow> rf_value f = v \<Longrightarrow> rf_target f = canonical_target v \<Longrightarrow> short_row_ok (row_for f)"
  by (auto simp: targeted_def short_row_ok_def is_short_forecast_def columns_of_def)

lemma targeted_alias: "targeted v \<Longrightarrow> targeted (alias_value aliases v)"
  by (auto simp: targeted_def alias_value_def is_short_forecast_def canonical_target_def split: option.splits)

lemma names_more: "names facts p r \<Longrightarrow> set facts \<subseteq> set facts' \<Longrightarrow> names facts' p r"
  by (auto simp: names_def)

subsection \<open>A batch keeps it\<close>

lemma row_for_eq_order: "f_pk r = rf_pk g \<Longrightarrow> f_source r = rf_source g \<Longrightarrow> f_order r = revision_order g"
  by (simp add: f_order_def revision_order_def f_pk_def rf_pk_def)

text \<open>What a batch brings: the invariant before it, checked rows, targeted values, a clock not before the purges.\<close>

definition batch_ready ::
  "fact_row list \<Rightarrow> pointer_row list \<Rightarrow> marks \<Rightarrow> instant \<Rightarrow> (instant \<times> instant) option \<Rightarrow> weather_value list \<Rightarrow> inserting \<Rightarrow> bool"
where
  "batch_ready facts cur m cutoff window vs ins \<longleftrightarrow>
     (\<forall>p\<in>set cur. pointer_ok m facts p) \<and> (\<forall>r\<in>set facts. short_row_ok r)
     \<and> (\<forall>r\<in>set facts. let_go m r \<or> row_of pt_logical (f_logical r) cur \<noteq> None)
     \<and> keyed pt_logical cur \<and> keyed f_pk (facts @ in_new ins) \<and> inserting_ok facts window cutoff (of_values vs) ins
     \<and> list_all targeted vs \<and> mk_short m \<le> cutoff"

lemma batch_readyD:
  assumes "batch_ready facts cur m cutoff window vs ins"
  shows "p \<in> set cur \<Longrightarrow> pointer_ok m facts p" "r \<in> set facts \<Longrightarrow> short_row_ok r"
    "r \<in> set facts \<Longrightarrow> let_go m r \<or> row_of pt_logical (f_logical r) cur \<noteq> None"
    "keyed pt_logical cur" "keyed f_pk (facts @ in_new ins)" "inserting_ok facts window cutoff (of_values vs) ins"
    "list_all targeted vs" "mk_short m \<le> cutoff"
  using assms by (simp_all add: batch_ready_def)

lemma candidate_short:
  assumes "batch_ready facts cur m cutoff window vs ins" "f \<in> set (in_candidates ins)"
  shows "short_row_ok (row_for f)"
proof -
  have "rf_value f \<in> set vs" "rf_target f = canonical_target (rf_value f)"
    using batch_readyD(6) [OF assms(1)] assms(2) by (auto simp: inserting_ok_def of_values_def)
  with batch_readyD(7) [OF assms(1)] show ?thesis by (intro targeted_row [of "rf_value f"]) (simp_all add: list_all_iff)
qed

lemma new_row:
  assumes "batch_ready facts cur m cutoff window vs ins" "q \<in> set (in_new ins)"
  shows "\<exists>f\<in>set (in_candidates ins). q = row_for f"
  using batch_readyD(6) [OF assms(1)] assms(2) by (auto simp: inserting_ok_def)

lemma new_newest:
  assumes "batch_ready facts cur m cutoff window vs ins" "q \<in> set (in_new ins)"
  shows "\<exists>g. row_of logical_point (f_logical q) (newest_by_key (in_candidates ins)) = Some g \<and> f_order q \<le> revision_order g"
  using new_row [OF assms] newest_offered by fastforce

text \<open>A candidate is no expired short forecast, so its point is none that a purge has forgotten.\<close>

lemma candidate_live:
  assumes ready: "batch_ready facts cur m cutoff window vs ins" and f: "f \<in> set (in_candidates ins)"
  shows "\<not> (short_point (logical_point f) \<and> point_target (logical_point f) < mk_short m)"
proof
  assume "short_point (logical_point f) \<and> point_target (logical_point f) < mk_short m"
  then have "is_expired (mk_short m) (row_for f)" using short_expired [OF candidate_short [OF ready f]] by simp
  then have "is_expired cutoff (row_for f)" using batch_readyD(8) [OF ready] by (rule is_expired_mono)
  with batch_readyD(6) [OF ready] f show False by (simp add: inserting_ok_def)
qed

lemma batch_short:
  assumes "batch_ready facts cur m cutoff window vs ins" "r \<in> set (facts @ in_new ins)"
  shows "short_row_ok r"
  using new_row [OF assms(1)] candidate_short [OF assms(1)] batch_readyD(2) [OF assms(1)] assms(2) by fastforce

lemma batch_complete:
  assumes ready: "batch_ready facts cur m cutoff window vs ins" and q: "q \<in> set (facts @ in_new ins)" "\<not> let_go m q"
  shows "row_of pt_logical (f_logical q) (refresh_projection (facts @ in_new ins) (in_candidates ins) cur) \<noteq> None"
proof (cases "q \<in> set (in_new ins)")
  case True
  from new_newest [OF ready this] show ?thesis by (auto simp: refresh_row)
next
  case False
  with q batch_readyD(3) [OF ready, of q] show ?thesis by (auto simp: refresh_row split: option.split)
qed

lemma candidate_row:
  assumes ready: "batch_ready facts cur m cutoff window vs ins" and newest: "row_of logical_point k (newest_by_key (in_candidates ins)) = Some g"
  obtains r where "r \<in> set (facts @ in_new ins)" "f_pk r = rf_pk g" "f_logical r = k" "f_source r = rf_source g"
    "f_order r = revision_order g" "logical_point g = k" "g \<in> set (in_candidates ins)"
proof -
  from newest_origin [OF newest] have g: "g \<in> set (in_candidates ins)" "logical_point g = k" by simp_all
  with batch_readyD(6) [OF ready] obtain r where "r \<in> set (facts @ in_new ins)" "f_pk r = rf_pk g" "f_logical r = logical_point g" "f_source r = rf_source g"
    unfolding inserting_ok_def backed_def by blast
  with g that [of r] show ?thesis by (simp add: row_for_eq_order)
qed

text \<open>Every forgotten stored row of a candidate's point is aged.\<close>

lemma candidate_point_aged:
  assumes ready: "batch_ready facts cur m cutoff window vs ins"
    and newest: "row_of logical_point k (newest_by_key (in_candidates ins)) = Some g"
    and q: "q \<in> set facts" "f_logical q = k" "let_go m q"
  shows "aged_fact m q"
proof -
  obtain r where g: "logical_point g = k" "g \<in> set (in_candidates ins)" by (rule candidate_row [OF ready newest])
  have "\<not> is_expired (mk_short m) q"
    using candidate_live [OF ready g(2)] short_expired [OF batch_readyD(2) [OF ready q(1)]] g(1) q(2) by auto
  then show ?thesis using q(3) by (simp add: let_go_def)
qed

lemma points_at_newestI:
  "names facts p r \<Longrightarrow> (\<And>q. q \<in> set facts \<Longrightarrow> f_logical q = pt_logical p \<Longrightarrow> f_order q \<le> f_order r \<or> aged_fact m q) \<Longrightarrow>
    points_at_newest m facts p"
  by (auto simp: points_at_newest_def)

lemma points_at_newestE:
  assumes "points_at_newest m facts p"
  obtains r where "names facts p r"
    "\<And>q. q \<in> set facts \<Longrightarrow> f_logical q = pt_logical p \<Longrightarrow> f_order q \<le> f_order r \<or> aged_fact m q"
  using assms by (auto simp: points_at_newest_def)

lemma names_pointer_for:
  "r \<in> set facts \<Longrightarrow> f_pk r = rf_pk g \<Longrightarrow> f_logical r = logical_point g \<Longrightarrow> f_source r = rf_source g \<Longrightarrow>
    names facts (pointer_for g) r"
  by (simp add: names_def rf_pk_def)

lemma batch_points_untouched:
  assumes ready: "batch_ready facts cur m cutoff window vs ins" and p: "p \<in> set cur"
    and none: "row_of logical_point (pt_logical p) (newest_by_key (in_candidates ins)) = None"
  shows "pointer_ok m (facts @ in_new ins) p"
proof -
  have other: "f_logical q \<noteq> pt_logical p" if "q \<in> set (in_new ins)" for q
    using new_newest [OF ready that] none by auto
  from batch_readyD(1) [OF ready p] show ?thesis
    unfolding pointer_ok_def
  proof (elim disjE)
    assume "points_at_newest m facts p"
    then obtain r where r: "names facts p r"
      "\<And>q. q \<in> set facts \<Longrightarrow> f_logical q = pt_logical p \<Longrightarrow> f_order q \<le> f_order r \<or> aged_fact m q"
      by (rule points_at_newestE) blast
    have "names (facts @ in_new ins) p r" using r(1) by (rule names_more) simp
    then have "points_at_newest m (facts @ in_new ins) p"
      by (rule points_at_newestI) (use other r(2) in auto)
    then show "points_at_newest m (facts @ in_new ins) p \<or> (dropped_away m p
      \<and> (\<forall>q\<in>set (facts @ in_new ins). f_logical q = pt_logical p \<longrightarrow> let_go m q))" ..
  qed (use other in auto)
qed

lemma batch_points_new:
  assumes ready: "batch_ready facts cur m cutoff window vs ins"
    and newest: "row_of logical_point k (newest_by_key (in_candidates ins)) = Some g"
    and least: "\<And>q. q \<in> set facts \<Longrightarrow> f_logical q = k \<Longrightarrow> f_order q \<le> revision_order g \<or> aged_fact m q"
  shows "points_at_newest m (facts @ in_new ins) (pointer_for g)"
proof -
  obtain r where r: "r \<in> set (facts @ in_new ins)" "f_pk r = rf_pk g" "f_logical r = k" "f_source r = rf_source g"
    and order: "f_order r = revision_order g" and k: "logical_point g = k" by (rule candidate_row [OF ready newest])
  have "names (facts @ in_new ins) (pointer_for g) r"
    using r(1,2) r(3) [folded k] r(4) by (rule names_pointer_for)
  then show ?thesis
  proof (rule points_at_newestI)
    fix q
    assume q: "q \<in> set (facts @ in_new ins)" "f_logical q = pt_logical (pointer_for g)"
    then have "f_logical q = k" using k by simp
    then have "f_order q \<le> revision_order g" if "q \<in> set (in_new ins)"
      using new_newest [OF ready that] newest by auto
    then show "f_order q \<le> f_order r \<or> aged_fact m q" using least [of q] q(1) \<open>f_logical q = k\<close> unfolding order by auto
  qed
qed

lemma batch_points_old:
  assumes ready: "batch_ready facts cur m cutoff window vs ins"
    and newest: "row_of logical_point (pt_logical p) (newest_by_key (in_candidates ins)) = Some g"
    and s: "names (facts @ in_new ins) p s"
      "\<And>q. q \<in> set facts \<Longrightarrow> f_logical q = pt_logical p \<Longrightarrow> f_order q \<le> f_order s \<or> aged_fact m q"
    and above: "\<not> f_order s < revision_order g"
  shows "points_at_newest m (facts @ in_new ins) p"
  using s(1)
proof (rule points_at_newestI)
  fix q
  assume q: "q \<in> set (facts @ in_new ins)" "f_logical q = pt_logical p"
  have "f_order q \<le> revision_order g" if "q \<in> set (in_new ins)"
    using new_newest [OF ready that] newest q(2) by auto
  then have "f_order q \<le> f_order s" if "q \<in> set (in_new ins)"
    using above that by (meson le_less_linear order_trans not_less)
  then show "f_order q \<le> f_order s \<or> aged_fact m q" using s(2) q by auto
qed

text \<open>A pointer whose fact is dropped stays only if what comes for its point is no newer.\<close>

lemma newer_than_known: "rf_known g > pt_known p \<Longrightarrow> newer_than facts p (pointer_order (pointer_for g))"
  by (simp add: newer_than_def pointer_order_def pointer_for_def)

lemma batch_points_dropped:
  assumes ready: "batch_ready facts cur m cutoff window vs ins"
    and newest: "row_of logical_point (pt_logical p) (newest_by_key (in_candidates ins)) = Some g"
    and p: "dropped_away m p" "\<And>q. q \<in> set facts \<Longrightarrow> f_logical q = pt_logical p \<Longrightarrow> let_go m q"
    and above: "\<not> newer_than (facts @ in_new ins) p (pointer_order (pointer_for g))" and q: "q \<in> set (facts @ in_new ins)" "f_logical q = pt_logical p"
  shows "let_go m q"
proof (cases "q \<in> set (in_new ins)")
  case True
  have "f_order q \<le> revision_order g" using new_newest [OF ready True] newest q(2) by auto
  then have "f_known q \<le> rf_known g" by (auto simp: f_order_def revision_order_def less_eq_prod_def)
  also have "rf_known g \<le> pt_known p" using above newer_than_known [of p g] by (meson not_less)
  also have "pt_known p < mk_aged m" using p(1) by (simp add: dropped_away_def)
  finally have old: "f_known q < mk_aged m" .
  obtain f where f: "f \<in> set (in_candidates ins)" "q = row_for f" using new_row [OF ready True] by blast
  then have "\<not> short_point (pt_logical p)" using candidate_live [OF ready f(1)] p(1) q(2) by (auto simp: dropped_away_def)
  with old show ?thesis using q(2) short_point_row(1) [of q] by (simp add: let_go_def aged_fact_def)
next
  case False
  then show ?thesis using p(2) q by simp
qed

lemma batch_points_pointed:
  assumes ready: "batch_ready facts cur m cutoff window vs ins"
    and newest: "row_of logical_point k (newest_by_key (in_candidates ins)) = Some g"
    and old: "row_of pt_logical k cur = Some old"
    and p: "p = (if newer_than (facts @ in_new ins) old (pointer_order (pointer_for g)) then pointer_for g else old)"
  shows "pointer_ok m (facts @ in_new ins) p"
proof -
  let ?facts = "facts @ in_new ins"
  note in_cur = row_of_SomeD [OF old]
  from batch_readyD(1) [OF ready conjunct1 [OF in_cur]] show ?thesis
    unfolding pointer_ok_def
  proof (elim disjE conjE)
    assume "points_at_newest m facts old"
    then obtain s where s: "names facts old s"
      "\<And>q. q \<in> set facts \<Longrightarrow> f_logical q = pt_logical old \<Longrightarrow> f_order q \<le> f_order s \<or> aged_fact m q"
      by (rule points_at_newestE) blast
    have s': "names ?facts old s" using s(1) by (rule names_more) simp
    have newer: "newer_than ?facts old (pointer_order (pointer_for g)) \<longleftrightarrow> f_order s < revision_order g"
      by (simp add: newer_than_names [OF s' batch_readyD(5) [OF ready]])
    show "points_at_newest m ?facts p \<or> (dropped_away m p \<and> (\<forall>q\<in>set ?facts. f_logical q = pt_logical p \<longrightarrow> let_go m q))"
    proof (cases "f_order s < revision_order g")
      case True
      have "f_order q \<le> revision_order g \<or> aged_fact m q" if "q \<in> set facts" "f_logical q = k" for q
        using s(2) [of q] that in_cur True by (auto intro: order.strict_implies_order order.trans)
      then show ?thesis using batch_points_new [OF ready newest] True p newer by simp
    next
      case False
      then show ?thesis using batch_points_old [OF ready _ s' s(2)] newest in_cur p newer by simp
    qed
  next
    assume lost: "dropped_away m old" "\<forall>q\<in>set facts. f_logical q = pt_logical old \<longrightarrow> let_go m q"
    show "points_at_newest m ?facts p \<or> (dropped_away m p \<and> (\<forall>q\<in>set ?facts. f_logical q = pt_logical p \<longrightarrow> let_go m q))"
    proof (cases "newer_than ?facts old (pointer_order (pointer_for g))")
      case True
      have "aged_fact m q" if "q \<in> set facts" "f_logical q = k" for q
        using candidate_point_aged [OF ready newest that] lost(2) that in_cur by simp
      then show ?thesis using batch_points_new [OF ready newest] True p by simp
    next
      case False
      then show ?thesis using batch_points_dropped [OF ready _ lost(1)] newest in_cur lost p by auto
    qed
  qed
qed

lemma batch_points:
  assumes ready: "batch_ready facts cur m cutoff window vs ins"
    and p: "p \<in> set (refresh_projection (facts @ in_new ins) (in_candidates ins) cur)"
  shows "pointer_ok m (facts @ in_new ins) p"
proof -
  let ?facts = "facts @ in_new ins" and ?k = "pt_logical p" and ?newest = "newest_by_key (in_candidates ins)"
  have row: "row_of pt_logical ?k (refresh_projection ?facts (in_candidates ins) cur) = Some p"
    using p batch_readyD(4) [OF ready] by (intro row_of_in refresh_keyed)
  show ?thesis
  proof (cases "row_of logical_point ?k ?newest")
    case None
    with row have "row_of pt_logical ?k cur = Some p" by (simp add: refresh_row)
    then have "p \<in> set cur" by (rule conjunct1 [OF row_of_SomeD])
    then show ?thesis using None by (rule batch_points_untouched [OF ready])
  next
    case newest: (Some g)
    show ?thesis
    proof (cases "row_of pt_logical ?k cur")
      case None
      with row newest have "p = pointer_for g" by (simp add: refresh_row)
      moreover have "f_order q \<le> revision_order g \<or> aged_fact m q" if "q \<in> set facts" "f_logical q = ?k" for q
        using candidate_point_aged [OF ready newest that] batch_readyD(3) [OF ready that(1)] that(2) None by simp
      ultimately show ?thesis using batch_points_new [OF ready newest] by (simp add: pointer_ok_def)
    next
      case (Some old)
      then show ?thesis by (rule batch_points_pointed [OF ready newest]) (use row newest Some in \<open>simp add: refresh_row\<close>)
    qed
  qed
qed

subsection \<open>Batches and purges as steps\<close>

lemma ingest_effect:
  assumes "ingest_batch_session env cfg now held capture records vs db = Inr r"
  obtains ins kept sources where
    "fd_facts (ig_db r) = fd_facts db @ in_new ins" "ig_loaded r = length (in_new ins)"
    "fd_current (ig_db r) = refresh_projection (fd_facts db @ in_new ins) (in_candidates ins) (fd_current db)"
    "keyed f_pk (fd_facts db) \<Longrightarrow> keyed f_pk (fd_facts db @ in_new ins)"
    "inserting_ok (fd_facts db) (batch_window db) (short_forecast_cutoff now) (of_values kept) ins"
    "list_all targeted vs \<Longrightarrow> list_all targeted kept"
    "list_all (\<lambda>q. routable (fd_floor db) (fd_bounds db) (f_known q)) (in_new ins)"
    "fd_sources (ig_db r) = fd_sources db @ sources"
proof -
  obtain found rd links where found: "check_runs (sync (fd_export db)) records = Inr found"
    and rd: "record_sources env now (fd_sources db) [] records \<lparr>rd_aliases = [], rd_pending = [], rd_records = []\<rparr> = Inr rd"
    and links: "link_sources found (rd_records rd) (fd_links db) = Inr links"
    using assms by (auto simp: ingest_batch_session_def Let_def split: sum.splits if_splits)
  define kept where "kept = (let aliased = map (alias_value (rd_aliases rd)) vs;
      skipped = skipped_locations held aliased
    in filter (\<lambda>v. wv_location v \<notin> set skipped) aliased)"
  define db1 where "db1 = db\<lparr>fd_export := (fd_export db)\<lparr>sync := capture_export_fetch_clocks cfg records (sync (fd_export db))\<rparr>,
    fd_links := links\<rparr>"
  obtain ins db2 where pub: "publish_facts env now (map src_key (rd_pending rd)) (replay_keys (rd_aliases rd)) kept
      (fd_sources db @ rd_pending rd) db1 = Inr (ins, db2)"
    and r: "fd_facts (ig_db r) = fd_facts db2" "fd_current (ig_db r) = fd_current db2" "fd_sources (ig_db r) = fd_sources db2"
      "ig_loaded r = length (in_new ins)"
    using assms found rd links
    unfolding ingest_batch_session_def Let_def kept_def db1_def by (auto split: sum.splits if_splits prod.splits)
  note effect = publish_facts_effect [OF pub]
  have db1: "fd_facts db1 = fd_facts db" "fd_current db1 = fd_current db" "fd_floor db1 = fd_floor db" "fd_bounds db1 = fd_bounds db"
    by (simp_all add: db1_def)
  have fresh: "facts_ok db1 (in_new ins)" using effect by blast
  show thesis
  proof (rule that [of ins kept])
    show "fd_facts (ig_db r) = fd_facts db @ in_new ins" "ig_loaded r = length (in_new ins)"
      "fd_current (ig_db r) = refresh_projection (fd_facts db @ in_new ins) (in_candidates ins) (fd_current db)"
      using effect by (auto simp: r db1)
    obtain added where "fd_sources db2 = fd_sources db @ rd_pending rd @ added" using effect by auto
    then show "fd_sources (ig_db r) = fd_sources db @ (drop (length (fd_sources db)) (fd_sources (ig_db r)))" by (simp add: r)
    show "keyed f_pk (fd_facts db @ in_new ins)" if "keyed f_pk (fd_facts db)"
    proof -
      have "f_pk q \<notin> f_pk ` set (fd_facts db)" if "q \<in> set (in_new ins)" for q
        using that fresh by (force simp: facts_ok_def list_all_iff row_of_None_iff db1)
      then have "\<forall>k\<in>f_pk ` set (in_new ins). k \<notin> f_pk ` set (fd_facts db)" by (intro ballI) (elim imageE, simp)
      then have "f_pk ` set (fd_facts db) \<inter> f_pk ` set (in_new ins) = {}" by blast
      with that fresh show ?thesis by (simp add: keyed_def facts_ok_def)
    qed
    show "inserting_ok (fd_facts db) (batch_window db) (short_forecast_cutoff now) (of_values kept) ins"
      using effect by (simp add: db1 batch_window_def)
    show "list_all targeted kept" if "list_all targeted vs"
      using that by (auto simp: kept_def Let_def list_all_iff targeted_alias)
    show "list_all (\<lambda>q. routable (fd_floor db) (fd_bounds db) (f_known q)) (in_new ins)"
      using fresh by (simp add: facts_ok_def list_all_iff db1)
  qed
qed

lemma ingest_keeps_inv:
  assumes inv: "store_inv (db, m)" and clock: "mk_short m \<le> short_forecast_cutoff now" and vs: "list_all targeted vs"
    and r: "ingest_batch_session env cfg now held capture records vs db = Inr r"
  shows "store_inv (ig_db r, m)"
  using r
proof (rule ingest_effect)
  fix ins kept sources
  assume facts: "fd_facts (ig_db r) = fd_facts db @ in_new ins"
    and cur: "fd_current (ig_db r) = refresh_projection (fd_facts db @ in_new ins) (in_candidates ins) (fd_current db)"
    and keyed: "keyed f_pk (fd_facts db) \<Longrightarrow> keyed f_pk (fd_facts db @ in_new ins)"
    and ok: "inserting_ok (fd_facts db) (batch_window db) (short_forecast_cutoff now) (of_values kept) ins"
    and kept: "list_all targeted vs \<Longrightarrow> list_all targeted kept"
  note old = store_invD [OF inv]
  have ready: "batch_ready (fd_facts db) (fd_current db) m (short_forecast_cutoff now) (batch_window db) kept ins"
    using inv keyed [OF old(1)] ok kept [OF vs] clock by (auto simp: batch_ready_def store_inv_def)
  have "keyed pt_logical (fd_current (ig_db r))" unfolding cur using old(2) by (rule refresh_keyed)
  moreover have "\<forall>q\<in>set (fd_facts (ig_db r)). short_row_ok q" unfolding facts using batch_short [OF ready] by blast
  moreover have "\<forall>p\<in>set (fd_current (ig_db r)). pointer_ok m (fd_facts (ig_db r)) p"
    unfolding cur facts using batch_points [OF ready] by blast
  moreover have "\<forall>q\<in>set (fd_facts (ig_db r)). let_go m q \<or> row_of pt_logical (f_logical q) (fd_current (ig_db r)) \<noteq> None"
    unfolding cur facts using batch_complete [OF ready] by blast
  ultimately show ?thesis using keyed [OF old(1)] by (simp add: store_inv_def facts)
qed

text \<open>A purge deletes expired short forecasts, with the pointers that name them, or nothing.\<close>

lemma purge_effect:
  assumes "purge_expired_short_forecast now event cutoff batch_size dry_run after timeout db = Inr (report, db')"
  shows "\<exists>rows. set rows \<subseteq> {q\<in>set (fd_facts db). is_expired cutoff q} \<and> length rows \<le> nat batch_size
    \<and> (db' = db \<or> db' = delete_short_facts rows db)"
proof -
  let ?rows = "take (nat batch_size) (expired_after cutoff after (fd_facts db))"
  have "set ?rows \<subseteq> {q\<in>set (fd_facts db). is_expired cutoff q}"
    by (auto simp: expired_after_def dest!: in_set_takeD)
  moreover have "db' = db \<or> db' = delete_short_facts ?rows db"
    using assms
    by (auto simp: purge_expired_short_forecast_def purge_batch_def Let_def split: if_splits batch_event.splits)
  ultimately show ?thesis by (intro exI [of _ ?rows]) simp
qed

text \<open>
  What retention does to the store: facts and pointers are only taken away, each fact that goes is
  forgotten, each pointer that goes leaves only forgotten facts of its point behind, and a pointer
  whose fact goes is one a dropped day explains.
\<close>

definition takes_away :: "fact_db \<Rightarrow> marks \<Rightarrow> fact_db \<Rightarrow> bool" where
  "takes_away db m' db' \<longleftrightarrow>
     (\<exists>P. fd_facts db' = filter P (fd_facts db)) \<and> (\<exists>P. fd_current db' = filter P (fd_current db))
     \<and> (\<forall>p r. p \<in> set (fd_current db) \<longrightarrow> names (fd_facts db) p r \<longrightarrow> p \<notin> set (fd_current db') \<or> r \<notin> set (fd_facts db') \<longrightarrow>
          is_expired (mk_short m') r \<or> f_known r < mk_aged m' \<and> (short_point (f_logical r) \<longrightarrow> point_target (f_logical r) < mk_short m'))
     \<and> (\<forall>p r. p \<in> set (fd_current db') \<longrightarrow> names (fd_facts db) p r \<longrightarrow> r \<notin> set (fd_facts db') \<longrightarrow> dropped_away m' p)"

lemma names_filter: "names facts p r \<Longrightarrow> r \<in> set (filter P facts) \<Longrightarrow> names (filter P facts) p r"
  by (auto simp: names_def)

text \<open>What is no newer than a row taken away, or aged already, is forgotten.\<close>

lemma older_forgotten:
  assumes "short_row_ok r" "short_row_ok q" "f_logical q = f_logical r" "f_order q \<le> f_order r \<or> aged_fact m q" "marks_le m m'"
    and gone: "is_expired (mk_short m') r \<or> f_known r < mk_aged m' \<and> (short_point (f_logical r) \<longrightarrow> point_target (f_logical r) < mk_short m')"
  shows "let_go m' q"
  using gone
proof
  assume "is_expired (mk_short m') r"
  then show ?thesis using expired_together [OF assms(1-2)] assms(3) by (simp add: let_go_def)
next
  assume old: "f_known r < mk_aged m' \<and> (short_point (f_logical r) \<longrightarrow> point_target (f_logical r) < mk_short m')"
  from assms(4) show ?thesis
  proof
    assume "f_order q \<le> f_order r"
    then have "f_known q \<le> f_known r" by (auto simp: f_order_def less_eq_prod_def)
    then show ?thesis using forgotten_older [OF assms(1-3)] old by blast
  qed (use let_go_mono [of m q m'] assms(5) in \<open>simp add: let_go_def\<close>)
qed

lemma taken_pointer:
  assumes inv: "store_inv (db, m)" and take: "takes_away db m' db'" and le: "marks_le m m'" and p: "p \<in> set (fd_current db')"
  shows "pointer_ok m' (fd_facts db') p"
proof -
  obtain P Q where facts: "fd_facts db' = filter P (fd_facts db)" and cur: "fd_current db' = filter Q (fd_current db)"
    using take by (auto simp: takes_away_def)
  have old: "p \<in> set (fd_current db)" using p by (simp add: cur)
  from store_invD(4) [OF inv old] show ?thesis
    unfolding pointer_ok_def
  proof (elim disjE conjE)
    assume "points_at_newest m (fd_facts db) p"
    then obtain r where r: "names (fd_facts db) p r"
      "\<And>q. q \<in> set (fd_facts db) \<Longrightarrow> f_logical q = pt_logical p \<Longrightarrow> f_order q \<le> f_order r \<or> aged_fact m q"
      by (rule points_at_newestE) blast
    have rl: "f_logical r = pt_logical p" "r \<in> set (fd_facts db)" using r(1) by (simp_all add: names_def)
    show "points_at_newest m' (fd_facts db') p
      \<or> (dropped_away m' p \<and> (\<forall>q\<in>set (fd_facts db'). f_logical q = pt_logical p \<longrightarrow> let_go m' q))"
    proof (cases "r \<in> set (fd_facts db')")
      case True
      then have "names (fd_facts db') p r" using r(1) unfolding facts by (intro names_filter)
      then have "points_at_newest m' (fd_facts db') p"
        by (rule points_at_newestI) (use r(2) aged_mono le in \<open>auto simp: facts\<close>)
      then show ?thesis ..
    next
      case False
      have "let_go m' q" if "q \<in> set (fd_facts db')" "f_logical q = pt_logical p" for q
      proof (rule older_forgotten [of r q m])
        show "short_row_ok r" "short_row_ok q" using store_invD(3) [OF inv] rl that by (auto simp: facts)
        show "is_expired (mk_short m') r \<or> f_known r < mk_aged m' \<and> (short_point (f_logical r) \<longrightarrow> point_target (f_logical r) < mk_short m')"
          using take old r(1) False unfolding takes_away_def by blast
        show "f_order q \<le> f_order r \<or> aged_fact m q" using r(2) that by (auto simp: facts)
      qed (use that rl le in simp_all)
      moreover have "dropped_away m' p" using take p r(1) False unfolding takes_away_def by blast
      ultimately show ?thesis by blast
    qed
  qed (use dropped_away_mono let_go_mono le in \<open>auto simp: facts\<close>)
qed

lemma taken_complete:
  assumes inv: "store_inv (db, m)" and take: "takes_away db m' db'" and le: "marks_le m m'"
    and q: "q \<in> set (fd_facts db')" and none: "row_of pt_logical (f_logical q) (fd_current db') = None"
  shows "let_go m' q"
proof -
  have in_db: "q \<in> set (fd_facts db)" using q take by (auto simp: takes_away_def)
  show ?thesis
  proof (cases "let_go m q")
    case True
    then show ?thesis using le by (rule let_go_mono)
  next
    case False
    then obtain p where p: "row_of pt_logical (f_logical q) (fd_current db) = Some p"
      using store_invD(5) [OF inv in_db] by blast
    note in_cur = row_of_SomeD [OF p]
    have gone: "p \<notin> set (fd_current db')" using none in_cur by (auto simp: row_of_None_iff)
    from store_invD(4) [OF inv conjunct1 [OF in_cur]] show ?thesis
      unfolding pointer_ok_def
    proof (elim disjE conjE)
      assume "points_at_newest m (fd_facts db) p"
      then obtain r where r: "names (fd_facts db) p r"
        "\<And>q. q \<in> set (fd_facts db) \<Longrightarrow> f_logical q = pt_logical p \<Longrightarrow> f_order q \<le> f_order r \<or> aged_fact m q"
        by (rule points_at_newestE) blast
      have rl: "f_logical r = pt_logical p" "r \<in> set (fd_facts db)" using r(1) by (simp_all add: names_def)
      show ?thesis
      proof (rule older_forgotten [of r q m])
        show "short_row_ok r" "short_row_ok q" using store_invD(3) [OF inv] rl in_db by auto
        show "is_expired (mk_short m') r \<or> f_known r < mk_aged m' \<and> (short_point (f_logical r) \<longrightarrow> point_target (f_logical r) < mk_short m')"
          using take in_cur r(1) gone unfolding takes_away_def by blast
        show "f_order q \<le> f_order r \<or> aged_fact m q" using r(2) [OF in_db] in_cur by simp
      qed (use in_cur rl le in simp_all)
    next
      assume "\<forall>q\<in>set (fd_facts db). f_logical q = pt_logical p \<longrightarrow> let_go m q"
      then show ?thesis using in_db in_cur False by auto
    qed
  qed
qed

lemma taken_keeps_inv:
  assumes inv: "store_inv (db, m)" and take: "takes_away db m' db'" and le: "marks_le m m'"
  shows "store_inv (db', m')"
proof -
  obtain P Q where facts: "fd_facts db' = filter P (fd_facts db)" and cur: "fd_current db' = filter Q (fd_current db)"
    using take by (auto simp: takes_away_def)
  have "keyed f_pk (fd_facts db')" "keyed pt_logical (fd_current db')"
    using store_invD(1,2) [OF inv] by (simp_all add: facts cur keyed_def distinct_map_filter)
  moreover have "\<forall>r\<in>set (fd_facts db'). short_row_ok r" using store_invD(3) [OF inv] by (simp add: facts)
  ultimately show ?thesis
    using taken_pointer [OF assms] taken_complete [OF assms] by (auto simp: store_inv_def)
qed

text \<open>Each purge is one of these.\<close>

lemma short_purge_takes:
  assumes inv: "store_inv (db, m)" and rows: "set rows \<subseteq> {q\<in>set (fd_facts db). is_expired cutoff q}"
  shows "takes_away db (at_short_cutoff cutoff m) (delete_short_facts rows db)"
proof -
  let ?db = "delete_short_facts rows db" and ?m = "at_short_cutoff cutoff m"
  have gone: "q \<in> set rows" if "q \<in> set (fd_facts db)" "f_pk q \<in> f_pk ` set rows" for q
    using that rows keyed_unique [OF store_invD(1) [OF inv]] by blast
  have expired: "is_expired (mk_short ?m) r"
    if "names (fd_facts db) p r" "p \<in> set (fd_current db)" "p \<notin> set (fd_current ?db) \<or> r \<notin> set (fd_facts ?db)" for p r
  proof -
    have "r \<in> set (fd_facts db)" "f_pk r \<in> f_pk ` set rows"
      using that by (auto simp: delete_short_facts_def names_def)
    then have "is_expired cutoff r" using gone rows by blast
    then show ?thesis by (rule is_expired_mono) (simp add: at_short_cutoff_def)
  qed
  have "False" if "p \<in> set (fd_current ?db)" "names (fd_facts db) p r" "r \<notin> set (fd_facts ?db)" for p r
    using that by (auto simp: delete_short_facts_def names_def)
  moreover have "\<exists>P. fd_facts ?db = filter P (fd_facts db)" "\<exists>P. fd_current ?db = filter P (fd_current db)"
    by (auto simp: delete_short_facts_def delete_where_def)
  ultimately show ?thesis using expired unfolding takes_away_def by blast
qed

lemma pointer_purge_takes:
  assumes inv: "store_inv (db, m)" and op: "delete_aged_pointers cutoff now db = (n, db')"
  shows "takes_away db (at_short_cutoff (short_forecast_cutoff now) (at_aged_cutoff cutoff m)) db'"
proof -
  let ?c = "short_forecast_cutoff now"
  let ?m = "at_short_cutoff ?c (at_aged_cutoff cutoff m)"
  have db': "db' = db\<lparr>fd_current := delete_where (\<lambda>p. pt_known p < cutoff \<and> \<not> names_retained ?c (fd_facts db) p) (fd_current db)\<rparr>"
    using op by (auto simp: delete_aged_pointers_def Let_def)
  have "f_known r < mk_aged ?m \<and> (short_point (f_logical r) \<longrightarrow> point_target (f_logical r) < mk_short ?m)"
    if p: "p \<in> set (fd_current db)" "names (fd_facts db) p r" "p \<notin> set (fd_current db')" for p r
  proof -
    have old: "pt_known p < cutoff" "\<not> names_retained ?c (fd_facts db) p" using p(1,3) by (auto simp: db')
    have r: "r \<in> set (fd_facts db)" "f_pk r = (pt_id p, pt_known p)" using p(2) by (simp_all add: names_def)
    then have late: "\<not> retained_short_forecast (f_columns r) ?c" using old(2) by (auto simp: names_retained_def list_ex_iff)
    have "point_target (f_logical r) < ?c" if "short_point (f_logical r)"
      using late that store_invD(3) [OF inv r(1)]
      by (auto simp: short_point_row retained_short_forecast_def short_row_ok_def not_le)
    then show ?thesis using old(1) r(2) by (auto simp: at_short_cutoff_def at_aged_cutoff_def f_pk_def less_max_iff_disj)
  qed
  moreover have "\<exists>P. fd_facts db' = filter P (fd_facts db)" by (rule exI [of _ "\<lambda>q. True"]) (simp add: db')
  moreover have "\<exists>P. fd_current db' = filter P (fd_current db)" by (auto simp: db' delete_where_def)
  moreover have "r \<in> set (fd_facts db')" if "names (fd_facts db) p r" for p r using that by (simp add: db' names_def)
  ultimately show ?thesis unfolding takes_away_def by blast
qed

lemma detach_effect:
  assumes "detach_expired now b db = (Moved_Out, db')"
  shows "fd_facts db' = filter (\<lambda>r. \<not> in_partition b r) (fd_facts db)" "fd_current db' = fd_current db" "b \<in> set (fd_bounds db)"
    "r \<in> set (fd_facts db) \<Longrightarrow> in_partition b r \<Longrightarrow> \<not> retained_short_forecast (f_columns r) (short_forecast_cutoff now)"
  using assms by (auto simp: detach_expired_def Let_def preserves_short_def list_ex_iff split: if_splits)

lemma detach_takes:
  assumes inv: "store_inv (db, m)" and op: "detach_expired now b db = (Moved_Out, db')"
  shows "takes_away db (at_short_cutoff (short_forecast_cutoff now) (at_aged_cutoff (snd b) m)\<lparr>mk_days := ds\<rparr>) db'"
proof -
  let ?c = "short_forecast_cutoff now"
  let ?m = "at_short_cutoff ?c (at_aged_cutoff (snd b) m)\<lparr>mk_days := ds\<rparr>"
  note e = detach_effect [OF op]
  have old: "f_known r < mk_aged ?m \<and> (short_point (f_logical r) \<longrightarrow> point_target (f_logical r) < mk_short ?m)"
    if r: "r \<in> set (fd_facts db)" "r \<notin> set (fd_facts db')" for r
  proof -
    have "in_partition b r" using r by (simp add: e(1))
    moreover from this have late: "\<not> retained_short_forecast (f_columns r) ?c" using e(4) r(1) by blast
    have "point_target (f_logical r) < ?c" if "short_point (f_logical r)"
      using late that store_invD(3) [OF inv r(1)]
      by (auto simp: short_point_row retained_short_forecast_def short_row_ok_def not_le)
    ultimately show ?thesis
      by (auto simp: in_partition_def at_short_cutoff_def at_aged_cutoff_def less_max_iff_disj)
  qed
  have "dropped_away ?m p" if "names (fd_facts db) p r" "r \<notin> set (fd_facts db')" for p r
    using old [of r] that by (auto simp: names_def dropped_away_def f_pk_def)
  moreover have "is_expired (mk_short ?m) r \<or> f_known r < mk_aged ?m \<and> (short_point (f_logical r) \<longrightarrow> point_target (f_logical r) < mk_short ?m)"
    if "names (fd_facts db) p r" "r \<notin> set (fd_facts db')" for p r using old [of r] that by (simp add: names_def)
  moreover have "\<exists>P. fd_facts db' = filter P (fd_facts db)" by (auto simp: e(1))
  moreover have "\<exists>P. fd_current db' = filter P (fd_current db)" by (rule exI [of _ "\<lambda>q. True"]) (simp add: e(2))
  ultimately show ?thesis unfolding takes_away_def e(2) by blast
qed

lemma dangling_takes: "takes_away db m (delete_dangling db)"
proof -
  have "p \<in> set (fd_current (delete_dangling db))" if "p \<in> set (fd_current db)" "names (fd_facts db) p r" for p r
    using that by (force simp: delete_dangling_def names_def)
  moreover have "r \<in> set (fd_facts (delete_dangling db))" if "names (fd_facts db) p r" for p r
    using that by (simp add: delete_dangling_def names_def)
  moreover have "\<exists>P. fd_facts (delete_dangling db) = filter P (fd_facts db)"
    by (rule exI [of _ "\<lambda>q. True"]) (simp add: delete_dangling_def)
  moreover have "\<exists>P. fd_current (delete_dangling db) = filter P (fd_current db)"
    by (auto simp: delete_dangling_def delete_where_def)
  ultimately show ?thesis unfolding takes_away_def by blast
qed

lemma drop_effect:
  "drop_detached now b db = (outcome, db') \<Longrightarrow> fd_facts db' = fd_facts db \<and> fd_current db' = fd_current db"
  by (auto simp: drop_detached_def split: option.splits if_splits)

lemma store_inv_same:
  "store_inv (db, m) \<Longrightarrow> fd_facts db' = fd_facts db \<Longrightarrow> fd_current db' = fd_current db \<Longrightarrow> store_inv (db', m)"
  by (simp add: store_inv_def)

lemma short_purge_keeps_inv:
  assumes inv: "store_inv (db, m)"
    and p: "purge_expired_short_forecast now event cutoff batch_size dry_run after timeout db = Inr (report, db')"
  shows "store_inv (db', at_short_cutoff cutoff m)"
proof -
  from purge_effect [OF p] obtain rows where rows: "set rows \<subseteq> {q\<in>set (fd_facts db). is_expired cutoff q}"
    "db' = db \<or> db' = delete_short_facts rows db" by blast
  have "store_inv (delete_short_facts [] db, at_short_cutoff cutoff m)"
    using short_purge_takes [OF inv, of "[]"] by (intro taken_keeps_inv [OF inv]) simp_all
  moreover have "delete_short_facts [] db = db" by (simp add: delete_short_facts_def delete_where_def)
  moreover have "store_inv (delete_short_facts rows db, at_short_cutoff cutoff m)"
    by (rule taken_keeps_inv [OF inv short_purge_takes [OF inv rows(1)]]) simp
  ultimately show ?thesis using rows(2) by auto
qed

lemma store_inv_step:
  assumes inv: "store_inv s" and step: "store_step s t"
  shows "store_inv t"
  using step
proof cases
  case (batch m now vs env cfg held capture records db r)
  then show ?thesis using ingest_keeps_inv inv by simp
next
  case (purge now event cutoff batch_size dry_run after timeout db report db' m)
  then show ?thesis using short_purge_keeps_inv inv by simp
next
  case (pointers retention_days now cutoff db n db' m)
  then show ?thesis using taken_keeps_inv [OF _ pointer_purge_takes [OF _ pointers(4)]] inv by simp
next
  case (detach retention_days now cutoff b db db' m)
  then show ?thesis using taken_keeps_inv [OF _ detach_takes [OF _ detach(5)]] inv by simp
next
  case (drop_day now b db outcome db' m)
  then show ?thesis using store_inv_same drop_effect [OF drop_day(3)] inv by simp
next
  case (dangling db m)
  then show ?thesis using taken_keeps_inv [OF _ dangling_takes] inv by simp
next
  case (others db' db m)
  then show ?thesis using store_inv_same inv by simp
qed

interpretation store: step_invariant store_start store_step store_inv
proof unfold_locales
  show "store_start s \<Longrightarrow> store_inv s" for s by (cases s) (simp add: store_start_def store_inv_def keyed_def)
  show "store_inv s \<Longrightarrow> store_step s t \<Longrightarrow> store_inv t" for s t by (rule store_inv_step)
qed

end
