(* ===== verification/Fact_Properties.thy ===== *)
theory Fact_Properties
  imports Fact_Projection
begin

section \<open>What the fact store promises\<close>

text \<open>C16: The projection is the newest of what is stored.  A run of the store interleaves batches (of
values whose short forecasts carry their target as validity time, at clocks not before the purges of
short forecasts), purges of short forecasts, the transactions of the nightly purge (pointers, days,
dangling rows) and anything that leaves facts and projection alone.  In every store such a run
reaches there is at most one pointer per logical point, and every stored fact that no purge may have
forgotten has one; the pointer of its point names a stored fact of the point that is no older, by
known time, source key and id, than any fact of the point that is not aged; a pointer whose fact is gone lies before
the latest day or cutoff of the nightly purge and has only forgotten facts of its point beside it.
Forgotten is what is an expired short forecast at the last cutoff for them, or no short forecast and
known before the last cutoff or dropped day of the nightly purge.\<close>

theorem projection_shows_newest:
  assumes "store.reachable (db, m)"
  shows "keyed pt_logical (fd_current db)
    \<and> (\<forall>q\<in>set (fd_facts db). \<not> let_go m q \<longrightarrow>
        (\<exists>p r. p \<in> set (fd_current db) \<and> pt_logical p = f_logical q \<and> names (fd_facts db) p r \<and> f_order q \<le> f_order r))
    \<and> (\<forall>p\<in>set (fd_current db). points_at_newest m (fd_facts db) p
        \<or> (pt_known p < mk_aged m \<and> (\<forall>q\<in>set (fd_facts db). f_logical q = pt_logical p \<longrightarrow> let_go m q)))"
proof (intro conjI ballI impI)
  note inv = store.inv_reachable [OF assms]
  show "keyed pt_logical (fd_current db)" using inv by (rule store_invD(2))
  show "points_at_newest m (fd_facts db) p
      \<or> (pt_known p < mk_aged m \<and> (\<forall>q\<in>set (fd_facts db). f_logical q = pt_logical p \<longrightarrow> let_go m q))"
    if "p \<in> set (fd_current db)" for p
    using store_invD(4) [OF inv that] by (auto simp: pointer_ok_def dropped_away_def)
  show "\<exists>p r. p \<in> set (fd_current db) \<and> pt_logical p = f_logical q \<and> names (fd_facts db) p r \<and> f_order q \<le> f_order r"
    if q: "q \<in> set (fd_facts db)" "\<not> let_go m q" for q
  proof -
    obtain p where p: "row_of pt_logical (f_logical q) (fd_current db) = Some p" using store_invD(5) [OF inv q] by blast
    note in_cur = row_of_SomeD [OF p]
    have "points_at_newest m (fd_facts db) p"
      using store_invD(4) [OF inv conjunct1 [OF in_cur]] q in_cur by (auto simp: pointer_ok_def)
    then obtain r where "names (fd_facts db) p r" "f_order q \<le> f_order r \<or> aged_fact m q"
      by (rule points_at_newestE) (use q in_cur in auto)
    with q in_cur show ?thesis by (auto simp: let_go_def)
  qed
qed

text \<open>A fact may go for two reasons only.\<close>

definition gone_for_good :: "marks \<Rightarrow> fact_row \<Rightarrow> bool" where
  "gone_for_good m q \<longleftrightarrow> is_expired (mk_short m) q
     \<or> (\<not> is_short_forecast (f_columns q)
        \<and> (\<exists>(b, cutoff) \<in> set (mk_days m). in_partition b q \<and> kst_day (fst b) + 1 \<le> kst_day cutoff))"

lemma gone_for_good_mono: "gone_for_good m q \<Longrightarrow> marks_le m m' \<Longrightarrow> gone_for_good m' q"
  using is_expired_mono [of "mk_short m" q "mk_short m'"] by (auto simp: gone_for_good_def marks_le_def)

definition kept_or_gone :: "fact_db \<times> marks \<Rightarrow> fact_db \<times> marks \<Rightarrow> bool" where
  "kept_or_gone s t \<longleftrightarrow> marks_le (snd s) (snd t)
     \<and> (\<forall>q\<in>set (fd_facts (fst s)). q \<in> set (fd_facts (fst t)) \<or> gone_for_good (snd t) q)"

lemma detach_gone:
  assumes inv: "store_inv (db, m)" and op: "detach_expired now b db = (Moved_Out, db')"
    and day: "kst_day (fst b) + 1 \<le> kst_day cutoff" and q: "q \<in> set (fd_facts db)" "q \<notin> set (fd_facts db')"
  shows "gone_for_good (at_short_cutoff (short_forecast_cutoff now) (at_aged_cutoff d m)\<lparr>mk_days := (b, cutoff) # mk_days m\<rparr>) q"
proof (cases "is_short_forecast (f_columns q)")
  case True
  note e = detach_effect [OF op]
  have "in_partition b q" using q by (simp add: e(1))
  then have "\<not> retained_short_forecast (f_columns q) (short_forecast_cutoff now)" using e(4) q(1) by blast
  then have "is_expired (short_forecast_cutoff now) q"
    using True store_invD(3) [OF inv q(1)]
    by (auto simp: is_expired_def expired_short_forecast_def retained_short_forecast_def short_row_ok_def)
  then show ?thesis
    using is_expired_mono [of "short_forecast_cutoff now" q] by (simp add: gone_for_good_def at_short_cutoff_def)
next
  case False
  then show ?thesis using q day by (auto simp: gone_for_good_def detach_effect(1) [OF op])
qed

lemma step_kept_or_gone:
  assumes inv: "store_inv s" and step: "store_step s t"
  shows "kept_or_gone s t"
  using step
proof cases
  case (batch m now vs env cfg held capture records db r)
  then show ?thesis by (auto simp: kept_or_gone_def elim!: ingest_effect)
next
  case (purge now event cutoff batch_size dry_run after timeout db report db' m)
  have keyed: "keyed f_pk (fd_facts db)" using store_invD(1) [OF inv [unfolded purge(1)]] .
  from purge_effect [OF purge(3)] obtain rows where rows: "set rows \<subseteq> {q\<in>set (fd_facts db). is_expired cutoff q}"
    "db' = db \<or> db' = delete_short_facts rows db" by blast
  have "is_expired (max (mk_short m) cutoff) q" if q: "q \<in> set (fd_facts db)" "q \<notin> set (fd_facts db')" for q
  proof -
    from q rows(2) have "f_pk q \<in> f_pk ` set rows" by (auto simp: delete_short_facts_def)
    then have "q \<in> set rows" using keyed_unique [OF keyed q(1)] rows(1) by blast
    with rows(1) have "is_expired cutoff q" by auto
    then show ?thesis by (rule is_expired_mono) simp
  qed
  then show ?thesis by (auto simp: kept_or_gone_def purge(1,2) gone_for_good_def at_short_cutoff_def marks_le_def)
next
  case (pointers retention_days now cutoff db n db' m)
  then show ?thesis by (auto simp: kept_or_gone_def delete_aged_pointers_def Let_def)
next
  case (detach retention_days now cutoff b db db' m)
  have inv: "store_inv (db, m)" using inv by (simp only: detach(1))
  show ?thesis using detach_gone [OF inv detach(5,4)] by (auto simp: kept_or_gone_def detach(1,2))
next
  case (drop_day now b db outcome db' m)
  then show ?thesis using drop_effect [OF drop_day(3)] by (simp add: kept_or_gone_def)
next
  case (dangling db m)
  then show ?thesis by (simp add: kept_or_gone_def delete_dangling_def)
next
  case (others db' db m)
  then show ?thesis by (simp add: kept_or_gone_def)
qed

text \<open>C17: History is append-only.  Whatever batches, replays, purges, days dropped at night and other
transactions a run of the store consists of (with the batches and purges of the run as for the
projection), every fact it had is still there with every column unchanged, unless it is a short
forecast whose target lies before the cutoff of a purge, or no short forecast and in a day that the
nightly purge detached and that had passed on the KST day of that purge's cutoff; and no two facts
ever share their key.\<close>

theorem facts_are_append_only:
  assumes "store.reachable (db, m)" and run: "store_step\<^sup>*\<^sup>* (db, m) (db', m')"
    and q: "q \<in> set (fd_facts db)"
  shows "(q \<in> set (fd_facts db') \<or> gone_for_good m' q) \<and> keyed f_pk (fd_facts db')"
proof -
  note inv = store.inv_reachable [OF assms(1)]
  have "kept_or_gone (db, m) (db', m')"
    using run inv
  proof (rule store.steps_preorder)
    show "kept_or_gone s s" for s by (simp add: kept_or_gone_def)
    show "kept_or_gone s u" if "kept_or_gone s t" "kept_or_gone t u" for s t u
      using that unfolding kept_or_gone_def by (meson gone_for_good_mono marks_le_trans)
    show "store_inv s \<Longrightarrow> store_step s t \<Longrightarrow> kept_or_gone s t" for s t by (rule step_kept_or_gone)
  qed
  moreover have "keyed f_pk (fd_facts db')" using store.inv_steps [OF run inv] by (rule store_invD(1))
  ultimately show ?thesis using q by (auto simp: kept_or_gone_def)
qed

subsection \<open>The nightly loop is a run of these steps\<close>

lemma drop_detached_step: "drop_detached now b db = (outcome, db') \<Longrightarrow> store_step\<^sup>*\<^sup>* (db, m) (db', m)"
  by (rule r_into_rtranclp, rule store_step.drop_day)

text \<open>The clocks and the other transactions of a night that begins at \<open>cutoff + retention_days\<close>.\<close>

definition night :: "purge_world \<Rightarrow> int \<Rightarrow> instant \<Rightarrow> bool" where
  "night w retention_days cutoff \<longleftrightarrow> (\<forall>n. history_cutoff retention_days (hw_now w n) cutoff
     \<and> (\<forall>db m. \<exists>m'. store_step\<^sup>*\<^sup>* (db, m) (hw_other w n db, m')))"

lemma try_ddl_steps:
  assumes "night w retention_days cutoff" "try_ddl w step d db = (r, d', db')"
    and "\<And>now db m outcome db'. history_cutoff retention_days now cutoff \<Longrightarrow> step now db = (outcome, db') \<Longrightarrow>
      \<exists>m'. store_step\<^sup>*\<^sup>* (db, m) (db', m')"
  shows "\<exists>m'. store_step\<^sup>*\<^sup>* (db, m) (db', m')"
proof -
  let ?before = "hw_other w (dg_tick d) db"
  obtain m1 where m1: "store_step\<^sup>*\<^sup>* (db, m) (?before, m1)" using assms(1) unfolding night_def by meson
  have "db' = db \<or> db' = ?before \<or> (\<exists>outcome. step (hw_now w (dg_tick d)) ?before = (outcome, db'))"
    using assms(2) by (auto simp: try_ddl_def Let_def split: if_splits ddl_race.splits prod.splits)
  moreover have "\<exists>m'. store_step\<^sup>*\<^sup>* (db, m) (db', m')" if s: "step (hw_now w (dg_tick d)) ?before = (outcome, db')" for outcome
  proof -
    have "history_cutoff retention_days (hw_now w (dg_tick d)) cutoff" using assms(1) by (simp add: night_def)
    from assms(3) [OF this s, of m1] obtain m' where "store_step\<^sup>*\<^sup>* (?before, m1) (db', m')" by blast
    with m1 show ?thesis by (meson rtranclp_trans)
  qed
  ultimately show ?thesis using m1 by blast
qed

lemma drop_steps:
  assumes "night w retention_days cutoff" "try_ddl w (\<lambda>now. drop_detached now b) d db = (r, d', db')"
  shows "\<exists>m'. store_step\<^sup>*\<^sup>* (db, m) (db', m')"
  by (rule try_ddl_steps [OF assms]) (blast intro: drop_detached_step)

lemma detach_steps:
  assumes "night w retention_days cutoff" "try_ddl w (\<lambda>now. detach_expired now b) d db = (r, d', db')"
    "kst_day (fst b) + 1 \<le> kst_day cutoff"
  shows "\<exists>m'. store_step\<^sup>*\<^sup>* (db, m) (db', m')"
proof (rule try_ddl_steps [OF assms(1,2)])
  fix now m and db db' :: fact_db and outcome
  assume now: "history_cutoff retention_days now cutoff" and op: "detach_expired now b db = (outcome, db')"
  show "\<exists>m'. store_step\<^sup>*\<^sup>* (db, m) (db', m')"
  proof (cases "outcome = Moved_Out")
    case True
    from store_step.detach [OF now assms(3) op [unfolded True], of m] show ?thesis by blast
  next
    case False
    then have "db' = db" using op by (auto simp: detach_expired_def Let_def split: if_splits)
    then show ?thesis by blast
  qed
qed

lemma drop_leftover_steps:
  assumes "night w retention_days cutoff"
  shows "\<exists>m'. store_step\<^sup>*\<^sup>* (snd s, m) (snd (drop_leftover w prior b s), m')"
proof (cases "try_ddl w (\<lambda>now. drop_detached now b) (fst s) (snd s)")
  case (fields r d' db')
  then show ?thesis using drop_steps [OF assms fields, of m]
    by (cases s, cases "dg_failed (fst s)") (auto simp: drop_leftover_def split: tried.splits)
qed

lemma drop_day_steps:
  assumes "night w retention_days cutoff" "kst_day (fst b) + 1 \<le> kst_day cutoff"
  shows "\<exists>m'. store_step\<^sup>*\<^sup>* (snd s, m) (snd (drop_day w prior b s), m')"
proof (cases "try_ddl w (\<lambda>now. detach_expired now b) (fst s) (snd s)")
  case (fields r d' db')
  obtain m1 where m1: "store_step\<^sup>*\<^sup>* (snd s, m) (db', m1)" using detach_steps [OF assms(1) fields assms(2)] by blast
  have rest: "\<exists>m'. store_step\<^sup>*\<^sup>* (snd s, m) (snd (finish_day w prior b (d', db')), m')"
  proof (cases "try_ddl w (\<lambda>now. drop_detached now b) d' db'")
    case two: (fields r2 d2 db2)
    obtain m2 where "store_step\<^sup>*\<^sup>* (db', m1) (db2, m2)" using drop_steps [OF assms(1) two] by blast
    with m1 have "store_step\<^sup>*\<^sup>* (snd s, m) (db2, m2)" by (rule rtranclp_trans)
    then show ?thesis using two by (auto simp: finish_day_def split: tried.splits)
  qed
  have "snd (drop_day w prior b s) \<in> {snd s, db', snd (finish_day w prior b (d', db'))}"
    using fields by (cases s) (auto simp: drop_day_def split: tried.splits partition_outcome.splits)
  with m1 rest show ?thesis by auto
qed

lemma fold_steps:
  assumes "\<And>x s m. x \<in> set xs \<Longrightarrow> \<exists>m'. store_step\<^sup>*\<^sup>* (snd s, m) (snd (f x s), m')"
  shows "\<exists>m'. store_step\<^sup>*\<^sup>* (snd s, m) (snd (fold f xs s), m')"
  using assms
proof (induction xs arbitrary: s m)
  case (Cons x xs)
  obtain m1 where m1: "store_step\<^sup>*\<^sup>* (snd s, m) (snd (f x s), m1)" using Cons.prems [of x s m] by auto
  have "\<exists>m'. store_step\<^sup>*\<^sup>* (snd (f x s), m1) (snd (fold f xs (f x s)), m')"
    by (rule Cons.IH) (use Cons.prems in auto)
  with m1 show ?case by (auto intro: rtranclp_trans)
qed auto

theorem nightly_drop_is_a_run:
  assumes "night w retention_days cutoff" "drop_expired_partitions w (kst_day cutoff) prior db = (d, db')"
  shows "\<exists>m'. store_step\<^sup>*\<^sup>* (db, m) (db', m')"
proof -
  let ?left = "expired_partitions (kst_day cutoff) (map fst (fd_detached db))"
  let ?days = "expired_partitions (kst_day cutoff) (fd_bounds db)"
  have "\<exists>m'. store_step\<^sup>*\<^sup>* (snd s, m) (snd (fold (drop_leftover w prior) ?left s), m')" for s m
    by (rule fold_steps) (rule drop_leftover_steps [OF assms(1)])
  moreover have "\<exists>m'. store_step\<^sup>*\<^sup>* (snd s, m) (snd (fold (drop_day w prior) ?days s), m')" for s m
    by (rule fold_steps) (rule drop_day_steps [OF assms(1)], simp add: expired_partitions_def)
  ultimately show ?thesis
    using assms(2) unfolding drop_expired_partitions_def Let_def
    by (metis (no_types, lifting) rtranclp_trans snd_conv)
qed

text \<open>C18: A batch writes only facts that may still live.  It changes no stored fact and appends as many as
it reports; none of them is a short forecast more than six hours past its target, none is dated in
the window retention has dropped unless it is a short forecast still to be kept, and every one has
a partition that takes it.\<close>

theorem batch_admits_only_live_facts:
  assumes r: "ingest_batch_session env cfg now held capture records vs db = Inr r"
  shows "\<exists>new. fd_facts (ig_db r) = fd_facts db @ new \<and> length new = ig_loaded r
    \<and> (\<forall>q\<in>set new. \<not> is_expired (short_forecast_cutoff now) q \<and> routable (fd_floor db) (fd_bounds db) (f_known q)
        \<and> (in_window (batch_window db) (f_known q) \<longrightarrow> retained_short_forecast (f_columns q) (short_forecast_cutoff now)))"
  using r
proof (rule ingest_effect)
  fix ins kept
  assume facts: "fd_facts (ig_db r) = fd_facts db @ in_new ins" "ig_loaded r = length (in_new ins)"
    and ok: "inserting_ok (fd_facts db) (batch_window db) (short_forecast_cutoff now) (of_values kept) ins"
    and route: "list_all (\<lambda>q. routable (fd_floor db) (fd_bounds db) (f_known q)) (in_new ins)"
  have "\<not> is_expired (short_forecast_cutoff now) q \<and> routable (fd_floor db) (fd_bounds db) (f_known q)
      \<and> (in_window (batch_window db) (f_known q) \<longrightarrow> retained_short_forecast (f_columns q) (short_forecast_cutoff now))"
    if q: "q \<in> set (in_new ins)" for q
  proof -
    from ok q obtain f where f: "f \<in> set (in_candidates ins)" "q = row_for f"
      "in_window (batch_window db) (rf_known f) \<longrightarrow> retained_short_forecast (rf_value f) (short_forecast_cutoff now)"
      unfolding inserting_ok_def by blast
    moreover have "\<not> expired_short_forecast (rf_value f) (short_forecast_cutoff now)" using ok f(1) by (simp add: inserting_ok_def)
    moreover have "routable (fd_floor db) (fd_bounds db) (f_known q)" using route q by (simp add: list_all_iff)
    ultimately show ?thesis by simp
  qed
  with facts show ?thesis by (intro exI [of _ "in_new ins"]) simp
qed

subsection \<open>Retention runs\<close>

text \<open>Nothing expired lies between \<open>origin\<close> and \<open>position\<close>.\<close>

definition cleared :: "instant \<Rightarrow> retention_pos option \<Rightarrow> retention_pos option \<Rightarrow> fact_row list \<Rightarrow> bool" where
  "cleared cutoff origin position facts \<longleftrightarrow>
     (\<forall>q\<in>set facts. is_expired cutoff q \<and> lies_after origin q \<longrightarrow> lies_after position q)"

lemma cleared_refl: "cleared cutoff k k facts"
  by (simp add: cleared_def)

lemma cleared_fewer:
  "cleared cutoff origin position facts \<Longrightarrow> (\<And>q. q \<in> set facts' \<Longrightarrow> is_expired cutoff q \<Longrightarrow> q \<in> set facts) \<Longrightarrow>
    cleared cutoff origin position facts'"
  by (auto simp: cleared_def)

lemma retention_key_pk: "retention_key a = retention_key b \<Longrightarrow> f_pk a = f_pk b"
  by (simp add: retention_key_def f_pk_def)

lemma expired_after_set: "set (expired_after cutoff k facts) = {q\<in>set facts. is_expired cutoff q \<and> lies_after k q}"
  by (auto simp: expired_after_def)

text \<open>A full prefix of the sorted expired rows leaves only rows after its last key.\<close>

lemma sorted_prefix:
  assumes "sorted (map f xs)" "x \<in> set xs" "x \<notin> set (take n xs)" "take n xs \<noteq> []"
  shows "f (List.last (take n xs)) \<le> f x"
proof -
  have "x \<in> set (drop n xs)" using assms(2,3) by (metis Un_iff append_take_drop_id set_append)
  moreover have "List.last (take n xs) \<in> set (take n xs)" using assms(4) by simp
  moreover have "sorted (map f (take n xs) @ map f (drop n xs))"
    using assms(1) by (simp flip: map_append)
  then have "\<forall>a\<in>set (take n xs). \<forall>b\<in>set (drop n xs). f a \<le> f b" by (simp add: sorted_append)
  ultimately show ?thesis by blast
qed

lemma batch_clears:
  assumes p: "purge_batch cutoff n False position db = Inr (p, db')" and n: "0 < n"
    and keyed: "keyed f_pk (fd_facts db)" and before: "cleared cutoff origin position (fd_facts db)"
  defines "next_at \<equiv> (if pr_last p \<noteq> None then pr_last p else position)"
  shows "cleared cutoff origin next_at (fd_facts db')"
    and "pr_remaining p \<noteq> Some True \<Longrightarrow> q \<in> set (fd_facts db') \<Longrightarrow> is_expired cutoff q \<Longrightarrow> \<not> lies_after next_at q"
    and "pr_remaining p \<noteq> None \<and> pr_deferred p = False"
proof -
  let ?found = "expired_after cutoff position (fd_facts db)"
  define rows where "rows = take n ?found"
  have db': "db' = delete_short_facts rows db" and last: "pr_last p = (if rows = [] then None else Some (retention_key (List.last rows)))"
    and rem: "pr_remaining p = Some (if length rows < n then False else expired_after cutoff (pr_last p) (fd_facts db') \<noteq> [])"
    and "pr_deferred p = False"
    using p by (auto simp: purge_batch_def Let_def simp flip: rows_def split: if_splits)
  then show "pr_remaining p \<noteq> None \<and> pr_deferred p = False" by simp
  have left: "q \<in> set (fd_facts db) \<and> q \<notin> set rows" if "q \<in> set (fd_facts db')" for q
    using that by (auto simp: db' delete_short_facts_def)
  have sorted: "sorted (map retention_key ?found)" by (simp add: expired_after_def)
  have beyond: "lies_after next_at q" if q: "q \<in> set (fd_facts db')" "is_expired cutoff q" "lies_after position q" for q
  proof (cases "rows = []")
    case True
    then show ?thesis using q(3) last by (simp add: next_at_def)
  next
    case False
    have found: "q \<in> set ?found" using left [OF q(1)] q(2,3) by (simp add: expired_after_set)
    have le: "retention_key (List.last rows) \<le> retention_key q"
      using sorted_prefix [OF sorted found _ False [unfolded rows_def], folded rows_def] left [OF q(1)] by blast
    moreover have "retention_key (List.last rows) \<noteq> retention_key q"
    proof
      assume same: "retention_key (List.last rows) = retention_key q"
      have "List.last rows \<in> set rows" using False by simp
      then have "List.last rows \<in> set (fd_facts db)" using expired_after_set [of cutoff position "fd_facts db"] by (auto simp: rows_def dest: in_set_takeD)
      with keyed_unique [OF keyed this conjunct1 [OF left [OF q(1)]] retention_key_pk [OF same]] \<open>List.last rows \<in> set rows\<close> left [OF q(1)]
      show False by simp
    qed
    ultimately show ?thesis using last False by (simp add: next_at_def lies_after_def)
  qed
  show "cleared cutoff origin next_at (fd_facts db')"
    using before beyond left by (auto simp: cleared_def)
  show "\<not> lies_after next_at q"
    if "pr_remaining p \<noteq> Some True" and q: "q \<in> set (fd_facts db')" "is_expired cutoff q" for q
  proof
    assume after: "lies_after next_at q"
    have none: "length rows < n \<or> expired_after cutoff (pr_last p) (fd_facts db') = []" using that(1) rem by (auto split: if_splits)
    have pos: "lies_after position q" if "pr_last p \<noteq> None"
    proof -
      have "rows \<noteq> []"
 using that last by auto
      then have "List.last rows \<in> set ?found" unfolding rows_def by (metis in_set_takeD last_in_set)
      then have "lies_after position (List.last rows)" by (simp add: expired_after_set)
      moreover have "pr_last p = Some (retention_key (List.last rows))" using last \<open>rows \<noteq> []\<close> by (simp only: if_False)
      with after have "retention_key (List.last rows) < retention_key q" by (simp add: next_at_def lies_after_def)
      ultimately show ?thesis by (auto simp: lies_after_def split: option.splits)
    qed
    have pos': "lies_after position q" using pos after by (cases "pr_last p") (auto simp: next_at_def)
    from none show False
    proof
      assume "length rows < n"
      then have "rows = ?found" by (simp add: rows_def)
      with left [OF q(1)] pos' q(2) show False by (simp add: expired_after_set)
    next
      assume "expired_after cutoff (pr_last p) (fd_facts db') = []"
      moreover have "pr_last p \<noteq> None"
      proof
        assume "pr_last p = None"
        then have "?found = []" using last n by (auto simp: rows_def split: if_splits)
        with left [OF q(1)] pos' q(2) show False using expired_after_set [of cutoff position "fd_facts db"] by auto
      qed
      ultimately show False using q after expired_after_set [of cutoff "pr_last p" "fd_facts db'"] by (auto simp: next_at_def)
    qed
  qed
qed

text \<open>What other transactions may do between the batches: anything but add expired forecasts or break the key.\<close>

definition quiet_world :: "run_world \<Rightarrow> instant \<Rightarrow> bool" where
  "quiet_world w cutoff \<longleftrightarrow>
     (\<forall>n db. keyed f_pk (fd_facts db) \<longrightarrow> keyed f_pk (fd_facts (rw_other w n db))
       \<and> (\<forall>q\<in>set (fd_facts (rw_other w n db)). is_expired cutoff q \<longrightarrow> q \<in> set (fd_facts db)))"

lemma purge_call:
  assumes "purge_expired_short_forecast now event cutoff size_of False position timeout db = Inr (p, db')"
  shows "(pr_deferred p \<and> db' = db \<and> pr_last p = None \<and> pr_remaining p = None) \<or>
    (\<not> pr_deferred p \<and> 0 < nat size_of \<and> purge_batch cutoff (nat size_of) False position db = Inr (p, db'))"
  using assms
  by (auto simp: purge_expired_short_forecast_def deferred_report_def purge_batch_def Let_def
      split: if_splits batch_event.splits)

definition run_ok :: "instant \<Rightarrow> retention_pos option \<Rightarrow> retention_run \<Rightarrow> fact_db \<Rightarrow> bool" where
  "run_ok cutoff origin r db \<longleftrightarrow>
     cleared cutoff origin (rn_position r) (fd_facts db)
     \<and> (rn_status r = Complete_Snapshot \<longrightarrow> (\<forall>q\<in>set (fd_facts db). is_expired cutoff q \<longrightarrow> \<not> lies_after origin q))
     \<and> (rn_remaining r = Some False \<longrightarrow> rn_status r = Complete_Snapshot)"

lemma retention_loop_Suc:
  assumes "retention_loop w cutoff dry size_of budget (Suc left) n fallback r db = Inr (r', db')"
  obtains "rn_timed_out r' = rn_timed_out r"
  | r1 db1 where "retention_loop w cutoff dry size_of budget left (Suc n) None r1 db1 = Inr (r', db')" "rn_timed_out r1"
      "fallback \<noteq> None"
  | r1 db1 where "retention_loop w cutoff dry size_of budget left (Suc n) fallback r1 db1 = Inr (r', db')"
      "rn_timed_out r1 = rn_timed_out r"
proof (cases "rw_elapsed w n \<ge> budget")
  case True
  with assms that(1) show ?thesis by simp
next
  case False
  then obtain p db1 where call: "purge_expired_short_forecast (rw_now w n) (rw_event w n) cutoff size_of dry (rn_position r)
      (select_timeout_ms (rn_position r) (budget - rw_elapsed w n)) (rw_other w n db) = Inr (p, db1)"
    using assms by (auto split: sum.splits)
  note step = assms [unfolded retention_loop.simps, simplified False call, simplified, unfolded Let_def]
  define r1 where "r1 = add_report dry p r"
  have same: "rn_timed_out r1 = rn_timed_out r" by (simp add: r1_def add_report_def)
  note step = step [folded r1_def]
  let ?late = "pr_deferred p \<and> fallback \<noteq> None \<and> rn_position r1 = None \<and> rn_facts r1 = 0 \<and> pr_error p = Some ''QueryCanceled''"
  consider (late) ?late | (stop) s where "r' = r1\<lparr>rn_status := s\<rparr>"
    | (go) "retention_loop w cutoff dry size_of budget left (Suc n) fallback r1 db1 = Inr (r', db')"
    using step by (auto split: if_split_asm)
  then show ?thesis
  proof cases
    case late
    then have "retention_loop w cutoff dry size_of budget left (Suc n) None
        (r1\<lparr>rn_position := fallback, rn_timed_out := True, rn_resumed := True\<rparr>) db1 = Inr (r', db')" using step by simp
    then show ?thesis by (rule that(2)) (use late in simp_all)
  next
    case stop
    then show ?thesis using that(1) same by simp
  next
    case go
    then show ?thesis using same by (rule that(3))
  qed
qed

lemma loop_timed_out:
  "retention_loop w cutoff dry size_of budget left n fallback r db = Inr (r', db') \<Longrightarrow>
    (rn_timed_out r \<longrightarrow> rn_timed_out r') \<and> (fallback = None \<longrightarrow> rn_timed_out r' = rn_timed_out r)"
proof (induction left arbitrary: n fallback r db)
  case (Suc left)
  from Suc.prems show ?case by (rule retention_loop_Suc) (auto dest: Suc.IH)
qed simp

lemma take_while_prefix: "n \<le> length (takeWhile p xs) \<longleftrightarrow> n \<le> length xs \<and> list_all p (take n xs)"
proof (induction xs arbitrary: n)
  case (Cons x xs)
  then show ?case by (cases n) auto
qed simp

lemma retention_loop_ok:
  "retention_loop w cutoff False size_of budget left n fallback r db = Inr (r', db') \<Longrightarrow> quiet_world w cutoff \<Longrightarrow>
    keyed f_pk (fd_facts db) \<Longrightarrow> cleared cutoff origin (rn_position r) (fd_facts db) \<Longrightarrow>
    rn_remaining r \<noteq> Some False \<Longrightarrow> rn_status r = Budget_Exhausted \<Longrightarrow> (rn_timed_out r \<longrightarrow> fallback = None) \<Longrightarrow>
    run_ok cutoff (if rn_timed_out r' \<and> \<not> rn_timed_out r then fallback else origin) r' db'"
proof (induction left arbitrary: n fallback r db origin)
  case 0
  then show ?case by (simp add: run_ok_def)
next
  case (Suc left)
  let ?db = "rw_other w n db"
  have keyed: "keyed f_pk (fd_facts ?db)"
    and fewer: "\<And>q. q \<in> set (fd_facts ?db) \<Longrightarrow> is_expired cutoff q \<Longrightarrow> q \<in> set (fd_facts db)"
    using Suc.prems(2,3) by (simp_all add: quiet_world_def)
  have clear: "cleared cutoff origin (rn_position r) (fd_facts ?db)" using Suc.prems(4) fewer by (rule cleared_fewer)
  show ?case
  proof (cases "rw_elapsed w n \<ge> budget")
    case True
    with Suc.prems show ?thesis by (simp add: run_ok_def)
  next
    case False
    then obtain p db1 where call: "purge_expired_short_forecast (rw_now w n) (rw_event w n) cutoff size_of False (rn_position r)
        (select_timeout_ms (rn_position r) (budget - rw_elapsed w n)) ?db = Inr (p, db1)"
      using Suc.prems(1) by (auto split: sum.splits)
    let ?r = "add_report False p r"
    have same: "rn_status ?r = Budget_Exhausted" "rn_timed_out ?r = rn_timed_out r"
      using Suc.prems(6) by (simp_all add: add_report_def)
    note step = Suc.prems(1) [unfolded retention_loop.simps, simplified False call, simplified, unfolded Let_def]
    from purge_call [OF call] show ?thesis
    proof (elim disjE conjE)
      assume d: "pr_deferred p" "db1 = ?db" "pr_last p = None" "pr_remaining p = None"
      have r: "rn_position ?r = rn_position r" "rn_remaining ?r \<noteq> Some False"
        using d Suc.prems(5) by (simp_all add: add_report_def)
      show ?thesis
      proof (cases "fallback \<noteq> None \<and> rn_position ?r = None \<and> rn_facts ?r = 0 \<and> pr_error p = Some ''QueryCanceled''")
        case True
        let ?r2 = "?r\<lparr>rn_position := fallback, rn_timed_out := True, rn_resumed := True\<rparr>"
        have loop: "retention_loop w cutoff False size_of budget left (Suc n) None ?r2 db1 = Inr (r', db')"
          using step d(1) True by simp
        have "run_ok cutoff (if rn_timed_out r' \<and> \<not> rn_timed_out ?r2 then None else fallback) r' db'"
          by (rule Suc.IH [OF loop Suc.prems(2)]) (use keyed d r same in \<open>simp_all add: cleared_refl\<close>)
        moreover have "rn_timed_out r'" using loop_timed_out [OF loop] by simp
        moreover have "\<not> rn_timed_out r" using Suc.prems(7) True by auto
        ultimately show ?thesis by simp
      next
        case False
        then have "r' = ?r\<lparr>rn_status := Run_Deferred\<rparr>" "db' = ?db" using step d by auto
        then show ?thesis using clear r same by (simp add: run_ok_def)
      qed
    next
      assume go: "\<not> pr_deferred p" "0 < nat size_of" "purge_batch cutoff (nat size_of) False (rn_position r) ?db = Inr (p, db1)"
      note clears = batch_clears [OF go(3,2) keyed clear]
      have pos: "rn_position ?r = (if pr_last p \<noteq> None then pr_last p else rn_position r)" "rn_remaining ?r = pr_remaining p"
        using clears(3) by (simp_all add: add_report_def)
      have clear': "cleared cutoff origin (rn_position ?r) (fd_facts db1)" using clears(1) by (simp only: pos)
      show ?thesis
      proof (cases "pr_remaining p = Some True")
        case False
        then have r': "r' = ?r\<lparr>rn_status := Complete_Snapshot\<rparr>" "db' = db1" using step go(1) by auto
        have "\<not> lies_after origin q" if "q \<in> set (fd_facts db1)" "is_expired cutoff q" for q
          using clears(2) [OF False that] clear' that by (auto simp: cleared_def pos)
        then show ?thesis using clear' same by (simp add: run_ok_def r')
      next
        case True
        show ?thesis
        proof (cases "pr_matched p = 0")
          case True
          then have "r' = ?r\<lparr>rn_status := Run_Deferred\<rparr>" "db' = db1" using step go(1) \<open>pr_remaining p = Some True\<close> by auto
          then show ?thesis using clear' same pos \<open>pr_remaining p = Some True\<close> by (simp add: run_ok_def)
        next
          case False
          then have loop: "retention_loop w cutoff False size_of budget left (Suc n) fallback ?r db1 = Inr (r', db')"
            using step go(1) \<open>pr_remaining p = Some True\<close> by simp
          have "keyed f_pk (fd_facts db1)"
            using go(3) keyed by (auto simp: purge_batch_def Let_def delete_short_facts_def keyed_delete_where split: if_splits)
          then have "run_ok cutoff (if rn_timed_out r' \<and> \<not> rn_timed_out ?r then fallback else origin) r' db'"
            using clear' Suc.prems(7) by (intro Suc.IH [OF loop Suc.prems(2)]) (simp_all add: pos True same)
          then show ?thesis by (simp add: same)
        qed
      qed
    qed
  qed
qed

text \<open>
  C19: A retention run reports honestly, as long as nobody else writes while it runs.  Of the expired
  forecasts that lie behind the place the run started from (its saved position, or the fallback
  when the head scan timed out), each one left lies behind the position handed to the next run, the
  lag reported is no less than its age past the cutoff, and the run does not call itself a complete
  snapshot; so a complete run that started at the head has left none in the store.  A run that
  resumed at a saved position says nothing about rows before that position.
\<close>

theorem retention_run_is_honest:
  assumes run: "run_short_forecast_retention w cutoff False size_of max_batches budget after fallback db = Inr (r, db')"
    and quiet: "quiet_world w cutoff" and keyed: "keyed f_pk (fd_facts db)"
    and origin: "origin = (if rn_timed_out r then before_cutoff cutoff fallback else before_cutoff cutoff after)"
  shows "(\<forall>q\<in>set (fd_facts db'). is_expired cutoff q \<and> lies_after origin q \<longrightarrow>
      rn_status r \<noteq> Complete_Snapshot \<and> lies_after (rn_position r) q
      \<and> (\<forall>lag. rn_lag r = Some lag \<longrightarrow> cutoff - valid_of q \<le> lag))"
proof -
  define start where "start = before_cutoff cutoff after"
  define fb where "fb = (if start \<noteq> None then None else before_cutoff cutoff fallback)"
  define r0 where "r0 = \<lparr>rn_batches = 0, rn_matched = 0, rn_pointers = 0, rn_facts = 0, rn_remaining = None,
      rn_status = Budget_Exhausted, rn_position = start, rn_resumed = (start \<noteq> None),
      rn_timed_out = False, rn_error = None, rn_lag = None\<rparr>"
  from run obtain r1 where loop: "retention_loop w cutoff False size_of budget (nat max_batches) 0 fb r0 db = Inr (r1, db')"
    and r: "r = r1\<lparr>rn_lag := backlog_lag cutoff r1\<rparr>"
    unfolding run_short_forecast_retention_def Let_def start_def [symmetric] fb_def [symmetric] r0_def [symmetric]
    by (auto split: if_splits sum.splits)
  have ok: "run_ok cutoff (if rn_timed_out r1 then fb else start) r1 db'"
    using retention_loop_ok [OF loop quiet keyed, of start] by (simp add: r0_def cleared_refl)
  have "rn_timed_out r1 \<Longrightarrow> start = None"
  proof (rule ccontr)
    assume late: "rn_timed_out r1" "start \<noteq> None"
    then have "fb = None" by (simp add: fb_def)
    from loop_timed_out [OF loop [unfolded this]] late(1) show False by (simp add: r0_def)
  qed
  then have same: "origin = (if rn_timed_out r1 then fb else start)" by (auto simp: origin r fb_def start_def)
  show ?thesis
  proof (intro ballI impI, elim conjE)
    fix q
    assume q: "q \<in> set (fd_facts db')" "is_expired cutoff q" "lies_after origin q"
    then have pos: "lies_after (rn_position r1) q" "rn_status r1 \<noteq> Complete_Snapshot" "rn_remaining r1 \<noteq> Some False"
      using ok unfolding run_ok_def cleared_def same by blast+
    have "cutoff - valid_of q \<le> lag" if "backlog_lag cutoff r1 = Some lag" for lag
    proof -
      from that pos(3) obtain k where k: "rn_position r1 = Some k" "lag = max 0 (cutoff - fst k)"
        by (auto simp: backlog_lag_def split: if_splits)
      with pos(1) have "fst k \<le> valid_of q" by (cases k) (auto simp: lies_after_def retention_key_def)
      with k(2) show ?thesis by simp
    qed
    with pos show "rn_status r \<noteq> Complete_Snapshot \<and> lies_after (rn_position r) q
        \<and> (\<forall>lag. rn_lag r = Some lag \<longrightarrow> cutoff - valid_of q \<le> lag)" by (simp add: r)
  qed
qed

subsection \<open>Runs that fall behind\<close>

text \<open>The count of a series of runs, each knowing the lag and the count the one before recorded.\<close>

fun stall_counts :: "instant option \<Rightarrow> int \<Rightarrow> retention_run list \<Rightarrow> int" where
  "stall_counts before count_before [] = count_before"
| "stall_counts before count_before (r # rs) = stall_counts (rn_lag r) (lag_stall_runs before (Some count_before) r) rs"

definition falls_behind :: "instant option \<Rightarrow> retention_run \<Rightarrow> bool" where
  "falls_behind before r \<longleftrightarrow> rn_remaining r = Some True
     \<and> (case rn_lag r of None \<Rightarrow> False | Some lag \<Rightarrow> lag > BACKLOG_LAG_ALERT
          \<and> (case before of None \<Rightarrow> True | Some b \<Rightarrow> lag \<ge> b))"

fun behind_flags :: "instant option \<Rightarrow> retention_run list \<Rightarrow> bool list" where
  "behind_flags before [] = []"
| "behind_flags before (r # rs) = falls_behind before r # behind_flags (rn_lag r) rs"

lemma lag_stall_count:
  "0 \<le> k \<Longrightarrow> lag_stall_runs before (Some k) r = (if falls_behind before r then k + 1 else 0)"
  by (auto simp: lag_stall_runs_def falls_behind_def split: option.splits)

definition last_lag :: "instant option \<Rightarrow> retention_run list \<Rightarrow> instant option" where
  "last_lag before rs = (if rs = [] then before else rn_lag (List.last rs))"

lemma stall_counts_snoc:
  "stall_counts before k (rs @ [r]) = lag_stall_runs (last_lag before rs) (Some (stall_counts before k rs)) r"
  by (induction rs arbitrary: before k) (auto simp: last_lag_def)

lemma behind_flags_snoc: "behind_flags before (rs @ [r]) = behind_flags before rs @ [falls_behind (last_lag before rs) r]"
  by (induction rs arbitrary: before) (auto simp: last_lag_def)

lemma stall_counts_flags: "stall_counts None 0 rs = int (length (takeWhile id (rev (behind_flags None rs))))"
  by (induction rs rule: rev_induct) (simp_all add: stall_counts_snoc behind_flags_snoc lag_stall_count)

text \<open>A backlog counts as stalled exactly when each of the last seven runs was behind: rows left, more
than a day of lag, and no less lag than the run before it.  One run that catches up, however
little, ends the series.\<close>

theorem stalled_after_seven_runs:
  "backlog_stalled (stall_counts None 0 rs) \<longleftrightarrow>
     7 \<le> length rs \<and> list_all id (drop (length rs - 7) (behind_flags None rs))"
proof -
  let ?fs = "behind_flags None rs"
  have len: "length (behind_flags b rs) = length rs" for b by (induction rs arbitrary: b) simp_all
  have "backlog_stalled (stall_counts None 0 rs) \<longleftrightarrow> 7 \<le> length (takeWhile id (rev ?fs))"
    by (simp add: backlog_stalled_def LAG_STALL_RUNS_def stall_counts_flags)
  also have "\<dots> \<longleftrightarrow> 7 \<le> length ?fs \<and> list_all id (take 7 (rev ?fs))"
    by (simp only: take_while_prefix length_rev)
  also have "take 7 (rev ?fs) = rev (drop (length ?fs - 7) ?fs)" by (simp add: take_rev)
  also have "list_all id (rev xs) = list_all id xs" for xs by (simp add: list_all_iff)
  finally show ?thesis by (simp only: len)
qed

subsection \<open>What a batch does to its run\<close>

lemma check_runs_running:
  "check_runs db records = Inr found \<Longrightarrow> run \<in> set found \<Longrightarrow> run_row (sr_id run) (runs db) = Some run \<and> is_running run"
proof (induction db records arbitrary: found rule: check_runs.induct)
  case (2 db r rs)
  show ?case
  proof (cases "rec_run r")
    case None
    with 2 show ?thesis by auto
  next
    case (Some i)
    then obtain x rest where x: "run_row i (runs db) = Some x" "is_running x" "check_runs db rs = Inr rest"
      "found = (if i \<in> sr_id ` set rest then rest else x # rest)"
      using "2.prems"(1) by (auto split: option.splits if_splits sum.splits)
    have "sr_id x = i" using row_of_SomeD [OF x(1)] by simp
    then show ?thesis using "2.IH"(2) [OF Some x(1) _ x(3)] x "2.prems"(2) by (auto split: if_splits)
  qed
qed simp

lemma capture_sync: "sync (snd (capture_or_fail env now capture found records aliases vs candidates stored db)) = sync db"
proof -
  have "sync db' = sync db" if "record_export_chunk identity k run_id covered chunk ip idg counts now db = Inr (u, db')"
    for identity k run_id covered chunk ip idg counts u db'
    using that by (rule record_export_chunk_Inr) (auto split: option.splits)
  then have "sync db' = sync db" if "capture_chunk env now cap found records aliases vs candidates stored db = Inr (chunk, db')"
    for cap chunk db'
    using that by (auto simp: capture_chunk_def Let_def split: list.splits sum.splits option.splits if_splits prod.splits)
  then show ?thesis
    by (auto simp: capture_or_fail_def fail_export_capture_def split: option.splits sum.splits)
qed

lemma clocks_count: "capture_export_fetch_clocks cfg records db = db\<lparr>fetch_clocks := fetch_clocks (capture_export_fetch_clocks cfg records db)\<rparr>"
  by (auto simp: capture_export_fetch_clocks_def split: option.splits sum.splits)

lemma publish_facts_export: "publish_facts env now new lenient vs sources db = Inr (ins, db') \<Longrightarrow> fd_export db' = fd_export db"
  using publish_facts_effect [of env now new lenient vs sources db ins db'] by auto

text \<open>In the run table a batch is the count of its run.\<close>

theorem batch_counts_its_run:
  assumes r: "ingest_batch_session env cfg now held capture records vs db = Inr r" and inv: "sync_inv (sync (fd_export db))"
  shows "\<exists>i n clocks. sync (fd_export (ig_db r)) = count_batch i n clocks (sync (fd_export db))"
proof -
  define s where "s = sync (fd_export db)"
  define clocked where "clocked = capture_export_fetch_clocks cfg records s"
  obtain found rd links where found: "check_runs s records = Inr found"
    and rd: "record_sources env now (fd_sources db) [] records \<lparr>rd_aliases = [], rd_pending = [], rd_records = []\<rparr> = Inr rd"
    and links: "link_sources found (rd_records rd) (fd_links db) = Inr links"
    using r by (auto simp: s_def ingest_batch_session_def Let_def split: sum.splits if_splits)
  define kept where "kept = (let aliased = map (alias_value (rd_aliases rd)) vs;
      skipped = skipped_locations held aliased
    in filter (\<lambda>v. wv_location v \<notin> set skipped) aliased)"
  obtain ins db2 where pub: "publish_facts env now (map src_key (rd_pending rd)) (replay_keys (rd_aliases rd)) kept
      (fd_sources db @ rd_pending rd) (db\<lparr>fd_export := (fd_export db)\<lparr>sync := clocked\<rparr>, fd_links := links\<rparr>) = Inr (ins, db2)"
    and e: "fd_export (ig_db r) = add_loaded found (length (in_new ins))
      (snd (capture_or_fail env now capture found (rd_records rd) (rd_aliases rd) kept (in_candidates ins) (in_stored_rows ins) (fd_export db2)))"
    using r found rd links
    unfolding ingest_batch_session_def Let_def kept_def clocked_def s_def by (auto split: sum.splits if_splits prod.splits)
  have sync2: "sync (snd (capture_or_fail env now capture found (rd_records rd) (rd_aliases rd) kept (in_candidates ins) (in_stored_rows ins)
      (fd_export db2))) = clocked"
    by (simp add: capture_sync publish_facts_export [OF pub])
  have none: "update_where P (\<lambda>r. r) rs = rs" for P and rs :: "sync_run list" by (simp add: update_where_def)
  have "count_batch i 0 cs s = s\<lparr>fetch_clocks := cs\<rparr>" for i cs by (simp add: count_batch_def none)
  then have zero: "count_batch i 0 (fetch_clocks clocked) s = clocked" for i
    using clocks_count [of cfg records s] by (simp add: clocked_def)
  show ?thesis
  proof (cases "\<exists>run. found = [run] \<and> in_new ins \<noteq> []")
    case False
    then have "sync (fd_export (ig_db r)) = clocked"
      using sync2 by (auto simp: e add_loaded_def split: list.splits)
    then show ?thesis using zero s_def by metis
  next
    case True
    then obtain run where run: "found = [run]" "in_new ins \<noteq> []" by blast
    have row: "run_row (sr_id run) (runs s) = Some run" "is_running run" using check_runs_running [OF found] run(1) by auto
    have keyed: "keyed sr_id (runs s)" using inv by (simp add: s_def sync_inv_def runs_inv_def)
    have "q = run" if "q \<in> set (runs s)" "sr_id q = sr_id run" for q
      using keyed_unique [OF keyed that(1) conjunct1 [OF row_of_SomeD [OF row(1)]] that(2)] .
    then have same: "update_where (\<lambda>q. sr_id q = sr_id run) f (runs s) = update_where (\<lambda>q. sr_id q = sr_id run \<and> is_running q) f (runs s)" for f
      using row(2) by (auto simp: update_where_def)
    have "runs clocked = runs s" by (subst clocked_def, subst clocks_count) simp
    then have "sync (fd_export (ig_db r)) = count_batch (sr_id run) (int (length (in_new ins))) (fetch_clocks clocked) s"
      using sync2 run same clocks_count [of cfg records s]
      by (simp add: e add_loaded_def count_batch_def flip: clocked_def) (metis (no_types, lifting) sync_db.surjective sync_db.update_convs(1,3))
    then show ?thesis using s_def by blast
  qed
qed

lemma retry_returns: "retry_lock_race left races n step = Returned x \<Longrightarrow> \<exists>m. step m = x"
  by (induction left races n step rule: retry_lock_race.induct) (auto split: if_splits)

text \<open>The last batch with the end of its run: two steps of the run table, taken together or not at all.\<close>

theorem published_end_is_a_run:
  assumes p: "publish_and_finish env cfg races clock ended run_id status counts error offset records vs db
      = (Returned (Inr (loaded, row)), db')"
    and inv: "sync_inv (sync (fd_export db))" and "status \<noteq> ''running''"
  shows "sync_step\<^sup>*\<^sup>* (sync (fd_export db)) (sync (fd_export db')) \<and> \<not> is_running row
    \<and> run_row run_id (runs (sync (fd_export db'))) = Some row"
proof -
  let ?step = "\<lambda>n. case ingest_batch_session env cfg (clock n) None None records vs db of
      Inl e \<Rightarrow> Inl (Inl e)
    | Inr r \<Rightarrow> (let exports = fd_export (ig_db r); loaded = ig_loaded r + offset in
        case finish_published cfg run_id status counts error (int loaded) (ended n) (sync exports) of
          Inl e \<Rightarrow> Inl (Inr e)
        | Inr (row, s) \<Rightarrow> Inr (loaded, row, (ig_db r)\<lparr>fd_export := exports\<lparr>sync := s\<rparr>\<rparr>))"
  obtain n where n: "?step n = Inr (loaded, row, db')"
    using p retry_returns [of INGEST_LOCK_ATTEMPTS races 0 ?step]
    by (auto simp: publish_and_finish_def split: retried.splits sum.splits prod.splits)
  then obtain r where r: "ingest_batch_session env cfg (clock n) None None records vs db = Inr r"
    by (auto split: sum.splits)
  let ?s = "sync (fd_export (ig_db r))"
  from n r obtain s where s: "finish_published cfg run_id status counts error (int loaded) (ended n) ?s = Inr (row, s)"
    "db' = (ig_db r)\<lparr>fd_export := (fd_export (ig_db r))\<lparr>sync := s\<rparr>\<rparr>"
    by (auto simp: Let_def split: sum.splits)
  have one: "sync_step (sync (fd_export db)) ?s" using batch_counts_its_run [OF r inv] by (metis sync_step.counted)
  moreover have "sync_step ?s s" by (rule sync_step.published [OF assms(3) s(1)])
  ultimately have "sync_step\<^sup>*\<^sup>* (sync (fd_export db)) s" by (meson converse_rtranclp_into_rtranclp r_into_rtranclp)
  let ?change = "finish_row status (counts\<lparr>fi_values := Some (int loaded)\<rparr>) error (ended n)"
  have fin: "s = snd (end_runs cfg (\<lambda>r. sr_id r = run_id) ?change ?s)" "run_row run_id (runs s) = Some row"
    using s(1) by (auto simp: finish_published_def Let_def split_beta split: if_splits option.splits)
  have "\<not> is_running row"
  proof
    assume "is_running row"
    moreover note in_s = row_of_SomeD [OF fin(2)]
    ultimately obtain q where "core q = core row" "sr_id q \<noteq> run_id"
      using running_after_end [of row cfg "\<lambda>r. sr_id r = run_id" ?change ?s] ends_finish_row [OF assms(3)]
      by (auto simp: fin(1))
    then show False using in_s core_simps(1) by metis
  qed
  then show ?thesis using fin(2) s(2) \<open>sync_step\<^sup>*\<^sup>* _ s\<close> by simp
qed


end
