(* ===== verification/Fact_Example.thy ===== *)
theory Fact_Example
  imports Fact_Properties Export_Example
begin

section \<open>A run of the fact store\<close>

text \<open>
  One response with one short forecast, fetched at nine and ingested at ten, and deleted by the
  retention of the evening: the instances at which the properties of the fact store are applied.
\<close>

definition y_env :: fact_env where
  "y_env = \<lparr>fe_head = x_env, fe_dump = (\<lambda>v. JObj [])\<rparr>"

definition y_record :: source_record where
  "y_record = \<lparr>rec_key = ''k'', rec_provider = ''python-kma-api'', rec_dataset = ''kma_short_forecast'',
     rec_entity_type = ''weather_response'', rec_entity_id = ''l'', rec_run = None, rec_payload = JNull,
     rec_fetched = Some (Aware (hours 9))\<rparr>"

definition y_value :: weather_value where
  "y_value = \<lparr>wv_location = ''l'', wv_provider = ''python-kma-api'', wv_dataset = ''kma_short_forecast'',
     wv_domain = ''kma_short_forecast'', wv_style = ''short'', wv_bucket = None, wv_metric = ''T1H'',
     wv_metric_name = None, wv_source_metric = None, wv_source_metric_name = None, wv_number = None, wv_text = Some ''21'',
     wv_unit = None, wv_severity = None, wv_issued = None, wv_valid = Some (hours 9), wv_from = None, wv_until = None,
     wv_observed = None, wv_target = None, wv_known = None, wv_version = ''v1'', wv_payload = JNull,
     wv_collected = hours 9, wv_source = Some ''k''\<rparr>"

definition y_source :: source_row where
  "y_source = \<lparr>src_key = ''k'', src_provider = ''python-kma-api'', src_dataset = ''kma_short_forecast'',
     src_entity_type = ''weather_response'', src_entity_id = ''l'', src_hash = xh, src_payload = JNull,
     src_fetched = hours 9, src_imported = hours 10\<rparr>"

definition y_id :: text_bytes where "y_id = ''wv_'' @ take 32 xh"

definition y_row :: fact_row where
  "y_row = \<lparr>f_id = y_id, f_known = hours 9, f_target = hours 9, f_collected = hours 9, f_source = ''k'',
     f_columns = columns_of y_value\<rparr>"

definition y_pointer :: pointer_row where
  "y_pointer = \<lparr>pt_logical = logical_of y_value (hours 9), pt_id = y_id, pt_known = hours 9, pt_source = Some ''k''\<rparr>"

definition y0 :: fact_db where
  "y0 = \<lparr>fd_export = x0, fd_sources = [], fd_facts = [], fd_current = [], fd_links = [], fd_floor = None, fd_bounds = [],
     fd_detached = []\<rparr>"

definition y1 :: fact_db where
  "y1 = y0\<lparr>fd_sources := [y_source], fd_facts := [y_row], fd_current := [y_pointer]\<rparr>"

definition y_result :: ingested where
  "y_result = \<lparr>ig_loaded = 1, ig_skipped = [], ig_chunk = None, ig_db = y1\<rparr>"

lemma y_hash [simp]: "payload_hash y_env j = xh" "identity_key y_env v s t = y_id"
  by (simp_all add: payload_hash_def identity_key_def y_env_def y_id_def)

lemma y_record_sources:
  "record_sources y_env now [] [] [y_record] \<lparr>rd_aliases = [], rd_pending = [], rd_records = []\<rparr>
    = Inr \<lparr>rd_aliases = [(''k'', ''k'')], rd_pending = [y_source\<lparr>src_imported := now\<rparr>], rd_records = [y_record]\<rparr>"
  by (simp add: record_source_def source_for_def y_record_def y_source_def)

definition y_fact :: resolved where
  "y_fact = \<lparr>rf_value = y_value, rf_source = ''k'', rf_id = y_id, rf_target = hours 9, rf_known = hours 9,
     rf_collected = hours 9, rf_replayed = False\<rparr>"

lemma y_resolve: "resolve_facts y_env now ls [y_value] [y_source] [''k''] = Inr ([y_fact], [y_source])"
  by (simp add: resolve_fact_def Let_def row_of_Cons y_value_def y_source_def y_fact_def canonical_target_def lineage_ok_def)

lemma y_live: "\<not> expired_short_forecast y_value (short_forecast_cutoff (hours 10))"
    "retained_short_forecast y_value (short_forecast_cutoff (hours 10))"
  by (simp_all add: expired_short_forecast_def retained_short_forecast_def is_short_forecast_def y_value_def
      short_forecast_cutoff_def SHORT_FORECAST_HOURS_def hours_def seconds_def)

lemma y_row_for: "row_for y_fact = y_row"
  by (simp add: row_for_def y_fact_def y_row_def)

lemma y_publish:
  assumes "locations (fd_export db) = [x_location]" "fd_facts db = []" "fd_current db = []" "fd_floor db = None"
  shows "publish_facts y_env (hours 10) [''k''] [] [y_value] [y_source] db =
    Inr (\<lparr>in_stored_rows = [y_row], in_new = [y_row], in_candidates = [y_fact]\<rparr>,
      db\<lparr>fd_sources := [y_source], fd_facts := [y_row], fd_current := [y_pointer]\<rparr>)"
proof -
  have readmit: "readmit_retained_short None bs (hours 10) (short_forecast_cutoff (hours 10)) [] (existing_facts [] [y_fact]) [y_fact]
      = Inr ([y_fact], [])" for bs
    by (simp add: readmit_retained_short_def readmit_prior_def readmit_one_def existing_facts_def routable_def y_fact_def Let_def
        map_filter_def)
  have insert: "insert_values [] None (short_forecast_cutoff (hours 10)) [y_fact]
      \<lparr>in_stored_rows = [], in_new = [], in_candidates = []\<rparr>
      = Inr \<lparr>in_stored_rows = [y_row], in_new = [y_row], in_candidates = [y_fact]\<rparr>"
    using y_live by (simp add: insert_value_def in_window_def y_row_for Let_def) (simp add: y_fact_def)
  have refresh: "refresh_projection [y_row] [y_fact] [] = [y_pointer]"
    by (simp add: refresh_projection_def newest_by_key_def upsert_all_def upsert_def pointer_for_def y_fact_def logical_point_def y_pointer_def)
  have ok: "facts_ok db [y_row]" using assms
    by (simp add: facts_ok_def routable_def y_row_def columns_of_def y_value_def row_of_Cons x_location_def)
  show ?thesis
    unfolding publish_facts_def assms retention_bounds_def y_resolve Let_def
    by (simp only: split_beta fst_conv snd_conv option.case if_False list.distinct sum.case readmit insert refresh ok
        sources_ok_def list.map distinct_singleton inserting.select_convs append_Nil simp_thms if_True)
qed

lemma y_ingest: "ingest_batch_session y_env example_config (hours 10) None None [y_record] [y_value] y0 = Inr y_result"
proof -
  have check: "check_runs (sync (fd_export y0)) [y_record] = Inr []" by (simp add: y_record_def)
  have clocks: "capture_export_fetch_clocks example_config [y_record] db = db" for db
    by (simp add: capture_export_fetch_clocks_def example_config_def)
  have sources: "[] @ [y_source\<lparr>src_imported := hours 10\<rparr>] = [y_source]"
      "map src_key [y_source\<lparr>src_imported := hours 10\<rparr>] = [''k'']"
    by (simp_all add: y0_def y_source_def)
  have aliased: "map (alias_value [(''k'', ''k'')]) [y_value] = [y_value]" "replay_keys [(''k'', ''k'')] = []"
    by (simp_all add: alias_value_def y_value_def replay_keys_def map_filter_def)
  have keep: "skipped_locations None vs = []" "filter (\<lambda>v. wv_location v \<notin> set []) vs = vs" for vs
    by (simp_all add: skipped_locations_def)
  have publish: "publish_facts y_env (hours 10) [''k''] [] [y_value] [y_source] (y0\<lparr>fd_export := x0, fd_links := []\<rparr>) =
      Inr (\<lparr>in_stored_rows = [y_row], in_new = [y_row], in_candidates = [y_fact]\<rparr>, y1)"
    by (subst y_publish) (simp_all add: y0_def y1_def x0_def)
  have y0: "fd_sources y0 = []" "fd_links y0 = []" "(fd_export y0)\<lparr>sync := sync (fd_export y0)\<rparr> = x0" by (simp_all add: y0_def)
  have links: "link_sources [] [y_record] ls = Inr ls" for ls by (simp add: y_record_def)
  have ok: "sources_ok [y_source]" by (simp add: sources_ok_def)
  show ?thesis
    unfolding ingest_batch_session_def check y0 y_record_sources clocks Let_def
    by (simp only: sum.case split_beta fst_conv snd_conv recorded.select_convs sources aliased keep clocks y0 links ok publish
        simp_thms if_False)
      (simp add: capture_or_fail_def add_loaded_def y_result_def y1_def y0_def)
qed

definition y_marks :: marks where "y_marks = \<lparr>mk_short = 0, mk_aged = 0, mk_days = []\<rparr>"

lemma y_batch: "store_step (y0, y_marks) (y1, y_marks)"
proof -
  have "mk_short y_marks \<le> short_forecast_cutoff (hours 10)"
    by (simp add: y_marks_def short_forecast_cutoff_def SHORT_FORECAST_HOURS_def hours_def seconds_def)
  moreover have "list_all targeted [y_value]" by (simp add: targeted_def canonical_target_def y_value_def)
  ultimately have "store_step (y0, y_marks) (ig_db y_result, y_marks)" using y_ingest by (rule store_step.batch)
  then show ?thesis by (simp add: y_result_def)
qed

lemma y_reachable: "store.reachable (y0, y_marks)" "store.reachable (y1, y_marks)"
proof -
  show r0: "store.reachable (y0, y_marks)" by (rule store.reachable_start) (simp add: store_start_def y0_def)
  show "store.reachable (y1, y_marks)" using r0 y_batch by (rule store.reachable_step)
qed

lemma y_row_kept: "\<not> let_go y_marks y_row" "f_order y_row = (hours 9, ''k'', y_id)"
  by (simp_all add: let_go_def aged_fact_def y_marks_def is_expired_def expired_short_forecast_def is_short_forecast_def y_row_def
      columns_of_def y_value_def hours_def seconds_def f_order_def)

theorem projection_shows_newest_witness:
  "keyed pt_logical [y_pointer] \<and> (\<exists>r. names [y_row] y_pointer r \<and> f_order y_row \<le> f_order r)"
proof -
  have "fd_facts y1 = [y_row]" "fd_current y1 = [y_pointer]" by (simp_all add: y1_def)
  then show ?thesis using projection_shows_newest [OF y_reachable(2)] y_row_kept(1) by auto
qed

text \<open>The night after the retention window of one day: the pointer goes, the day does not exist.\<close>

definition y_late_db :: fact_db where "y_late_db = y1\<lparr>fd_current := []\<rparr>"

definition y_late_marks :: marks where
  "y_late_marks = at_short_cutoff (short_forecast_cutoff (hours 40)) (at_aged_cutoff (hours 16) y_marks)"

lemma y_night: "store_step (y1, y_marks) (y_late_db, y_late_marks)"
proof -
  have "history_cutoff 1 (hours 40) (hours 16)" by (simp add: history_cutoff_def days_def hours_def seconds_def)
  moreover have "delete_aged_pointers (hours 16) (hours 40) y1 = (1, y_late_db)"
    by (simp add: delete_aged_pointers_def Let_def y1_def y0_def y_late_db_def y_pointer_def names_retained_def f_pk_def y_row_def
        delete_where_def retained_short_forecast_def is_short_forecast_def columns_of_def y_value_def short_forecast_cutoff_def
        SHORT_FORECAST_HOURS_def hours_def seconds_def)
  ultimately show ?thesis unfolding y_late_marks_def by (rule store_step.pointers)
qed

theorem facts_are_append_only_witness:
  "store_step\<^sup>*\<^sup>* (y1, y_marks) (y_late_db, y_late_marks)
    \<and> (y_row \<in> set (fd_facts y_late_db) \<or> gone_for_good y_late_marks y_row) \<and> keyed f_pk (fd_facts y_late_db)"
proof -
  have "y_row \<in> set (fd_facts y1)" by (simp add: y1_def)
  from facts_are_append_only [OF y_reachable(2) r_into_rtranclp [of store_step, OF y_night] this]
    r_into_rtranclp [of store_step, OF y_night] show ?thesis by simp
qed

theorem batch_admits_only_live_facts_witness:
  "\<not> is_expired (short_forecast_cutoff (hours 10)) y_row \<and> routable None [] (hours 9)"
  using batch_admits_only_live_facts [OF y_ingest] by (auto simp: y_result_def y0_def y1_def y_row_def)


subsection \<open>The evening's retention run\<close>

definition y_world :: run_world where
  "y_world = \<lparr>rw_elapsed = (\<lambda>n. 0), rw_event = (\<lambda>n. Gets_Through), rw_now = (\<lambda>n. hours 20), rw_other = (\<lambda>n db. db)\<rparr>"

definition y2 :: fact_db where "y2 = y1\<lparr>fd_facts := [], fd_current := []\<rparr>"

definition y_run :: retention_run where
  "y_run = \<lparr>rn_batches = 1, rn_matched = 1, rn_pointers = 1, rn_facts = 1, rn_remaining = Some False,
     rn_status = Complete_Snapshot, rn_position = Some (hours 9, hours 9, y_id), rn_resumed = False,
     rn_timed_out = False, rn_error = None, rn_lag = Some 0\<rparr>"

lemma y_row_expired: "is_expired (hours 14) y_row" "retention_key y_row = (hours 9, hours 9, y_id)"
  by (simp_all add: is_expired_def expired_short_forecast_def is_short_forecast_def y_row_def columns_of_def y_value_def
      hours_def seconds_def retention_key_def valid_of_def)

lemma y_purge: "purge_batch (hours 14) 10 False None y1 =
    Inr (\<lparr>pr_matched = 1, pr_pointers = 1, pr_facts = 1, pr_remaining = Some False, pr_deferred = False,
      pr_last = Some (hours 9, hours 9, y_id), pr_error = None\<rparr>, y2)"
proof -
  have "expired_after (hours 14) None [y_row] = [y_row]" using y_row_expired by (simp add: expired_after_def lies_after_def)
  moreover have "f_pk y_row = (y_id, hours 9)" by (simp add: f_pk_def y_row_def)
  ultimately show ?thesis
    using y_row_expired by (simp add: purge_batch_def delete_short_facts_def y1_def y2_def y0_def y_pointer_def delete_where_def Let_def)
qed

lemma y_retention: "run_short_forecast_retention y_world (hours 14) False 10 5 (seconds 60) None None y1 = Inr (y_run, y2)"
proof -
  have "purge_expired_short_forecast (hours 20) Gets_Through (hours 14) 10 False None (select_timeout_ms None (seconds 60)) y1 =
      purge_batch (hours 14) 10 False None y1"
    by (simp add: purge_expired_short_forecast_def short_forecast_cutoff_def SHORT_FORECAST_HOURS_def hours_def seconds_def
        MAX_BATCH_SIZE_def select_timeout_ms_def STATEMENT_TIMEOUT_MS_def HEAD_STATEMENT_TIMEOUT_MS_def)
  then have once: "purge_expired_short_forecast 72000000000 Gets_Through 50400000000 10 False None (select_timeout_ms None 60000000) y1 =
      Inr (\<lparr>pr_matched = 1, pr_pointers = 1, pr_facts = 1, pr_remaining = Some False, pr_deferred = False,
      pr_last = Some (hours 9, hours 9, y_id), pr_error = None\<rparr>, y2)" unfolding y_purge by (simp add: hours_def seconds_def)
  have "seconds 60 > 0" by (simp add: seconds_def)
  then show ?thesis
    by (simp add: run_short_forecast_retention_def before_cutoff_def MAX_BUDGET_SECONDS_def seconds_def)
      (simp add: eval_nat_numeral y_world_def once add_report_def y_run_def backlog_lag_def)
qed

text \<open>The run of another evening, which finds the purge lock taken.\<close>

definition y_busy :: run_world where
  "y_busy = y_world\<lparr>rw_event := (\<lambda>n. Lock_Taken)\<rparr>"

definition y_late :: retention_run where
  "y_late = \<lparr>rn_batches = 1, rn_matched = 0, rn_pointers = 0, rn_facts = 0, rn_remaining = None,
     rn_status = Run_Deferred, rn_position = None, rn_resumed = False, rn_timed_out = False, rn_error = None, rn_lag = None\<rparr>"

lemma y_deferred: "run_short_forecast_retention y_busy (hours 14) False 10 5 (seconds 60) None None y1 = Inr (y_late, y1)"
proof -
  have once: "purge_expired_short_forecast 72000000000 Lock_Taken 50400000000 10 False None (select_timeout_ms None 60000000) y1 =
      Inr (deferred_report None, y1)"
    by (simp add: purge_expired_short_forecast_def short_forecast_cutoff_def SHORT_FORECAST_HOURS_def hours_def seconds_def
        MAX_BATCH_SIZE_def select_timeout_ms_def STATEMENT_TIMEOUT_MS_def HEAD_STATEMENT_TIMEOUT_MS_def)
  show ?thesis
    by (simp add: run_short_forecast_retention_def before_cutoff_def MAX_BUDGET_SECONDS_def seconds_def)
      (simp add: eval_nat_numeral y_busy_def y_world_def once deferred_report_def add_report_def y_late_def backlog_lag_def)
qed

theorem retention_run_is_honest_witness:
  "run_short_forecast_retention y_busy (hours 14) False 10 5 (seconds 60) None None y1 = Inr (y_late, y1)
    \<and> rn_status y_late \<noteq> Complete_Snapshot \<and> lies_after (rn_position y_late) y_row"
proof -
  have "quiet_world y_busy (hours 14)" by (simp add: quiet_world_def y_busy_def y_world_def)
  moreover have "keyed f_pk (fd_facts y1)" by (simp add: keyed_def y1_def)
  moreover have "None = (if rn_timed_out y_late then before_cutoff (hours 14) None else before_cutoff (hours 14) None)"
    by (simp add: before_cutoff_def)
  moreover have "y_row \<in> set (fd_facts y1)" "lies_after None y_row" by (simp_all add: y1_def lies_after_def)
  ultimately show ?thesis using retention_run_is_honest [OF y_deferred] y_deferred y_row_expired(1) by blast
qed

end
