(* ===== verification/Source_Cohorts.thy ===== *)
theory Source_Cohorts
  imports Export_Heads Export_Pages
begin

section \<open>What a collection is going to ask for (export_external_cohorts.py, export_source_cohorts.py)\<close>

text \<open>
  Before its first request a run records the roster of the sources it will ask: the row of a
  provider and dataset belongs to the run that started last, and is written once per run.  The
  readers compare what is approved with the roster, so a run that asks for nothing, or fails early,
  shows.  The cohort table stands beside the export database.
\<close>

record target =
  tg_location :: text_bytes
  tg_latitude :: rat
  tg_longitude :: rat

record cohort_row =
  co_provider :: text_bytes
  co_dataset :: text_bytes
  co_run :: text_bytes
  co_started :: instant
  co_targets :: "target list"
  co_descriptors :: "descriptor list option"
  co_updated :: instant

definition co_source :: "cohort_row \<Rightarrow> text_bytes \<times> text_bytes" where
  "co_source r = (co_provider r, co_dataset r)"

definition co_order :: "cohort_row \<Rightarrow> instant \<times> text_bytes" where
  "co_order r = (co_started r, co_run r)"

datatype cohort_error =
    Roster_Size | Roster_Source | Roster_Repeats | Roster_Bytes | Run_Cannot_Declare | Roster_Taken
  | Roster_Off_Catalog | Roster_Not_Declared | Roster_Of_Older_Run | Roster_Run_Failed | Roster_Not_Approved
  | Bad_Descriptor

definition MAX_EXTERNAL_TARGETS :: nat where "MAX_EXTERNAL_TARGETS = 5000"
definition MAX_COHORT_BYTES :: nat where "MAX_COHORT_BYTES = 2 * 1024 * 1024"

subsection \<open>Sizes\<close>

text \<open>
  The bytes of \<open>json.dumps(value)\<close> with its default escapes and separators: a character outside
  ASCII takes six bytes, one outside the basic plane twice six, a control character or DEL its
  short escape or six.
\<close>

definition ascii_char_size :: "char \<Rightarrow> nat" where
  "ascii_char_size c =
     (let n = of_char c :: nat in
      if n = 127 \<or> (192 \<le> n \<and> n < 240) then 6
      else if n \<ge> 240 then 12
      else if n \<ge> 128 then 0
      else length (escape c))"

definition ascii_text_size :: "text_bytes \<Rightarrow> nat" where
  "ascii_text_size s = sum_list (map ascii_char_size s) + 2"

definition joined_size :: "nat list \<Rightarrow> nat" where
  "joined_size ns = sum_list ns + 2 * (length ns - 1) + 2"

fun ascii_size :: "json \<Rightarrow> nat" where
  "ascii_size (JStr s) = ascii_text_size s"
| "ascii_size (JArr xs) = joined_size (map ascii_size xs)"
| "ascii_size (JObj kvs) = joined_size (map (\<lambda>(k, v). ascii_text_size k + 2 + ascii_size v) kvs)"
| "ascii_size j = length (spaced_text j)"

definition target_json :: "(rat \<Rightarrow> json) \<Rightarrow> target \<Rightarrow> json" where
  "target_json float_json t =
     JObj [(''location_id'', JStr (tg_location t)), (''latitude'', float_json (tg_latitude t)),
       (''longitude'', float_json (tg_longitude t))]"

subsection \<open>Declaring a roster\<close>

definition roster_descriptor :: "text_bytes \<Rightarrow> text_bytes \<Rightarrow> target \<Rightarrow> descriptor" where
  "roster_descriptor provider dataset t =
     Retrieval_Scope \<lparr>rs_provider = provider, rs_dataset = dataset, rs_entity_id = tg_location t,
       rs_style = (if drop (length dataset - 8) dataset = ''forecast'' then ''short'' else ''observed''),
       rs_locations = [tg_location t], rs_latitude = tg_latitude t, rs_longitude = tg_longitude t,
       rs_normalizer = provider @ ''-v1''\<rparr>"

text \<open>
  The upsert both declarations end with: a row of a run that started earlier is replaced; where the
  row stays, it must be this run's own declaration.
\<close>

definition claim_roster ::
  "(cohort_row \<Rightarrow> bool) \<Rightarrow> cohort_row \<Rightarrow> cohort_row list \<Rightarrow> cohort_error + cohort_row list" where
  "claim_roster same new t =
     (case row_of co_source (co_source new) t of
        None \<Rightarrow> Inr (t @ [new])
      | Some old \<Rightarrow>
          if co_order old < co_order new then Inr (upsert co_source (\<lambda>old new. new) new t)
          else if co_run old = co_run new \<and> same old then Inr t else Inl Roster_Taken)"

definition roster_row ::
  "text_bytes \<Rightarrow> text_bytes \<Rightarrow> sync_run \<Rightarrow> target list \<Rightarrow> descriptor list option \<Rightarrow> instant \<Rightarrow> cohort_row" where
  "roster_row provider dataset run targets ds now =
     \<lparr>co_provider = provider, co_dataset = dataset, co_run = sr_id run, co_started = sr_started run,
      co_targets = targets, co_descriptors = ds, co_updated = now\<rparr>"

definition external_roster ::
  "(rat \<Rightarrow> json) \<Rightarrow> text_bytes \<Rightarrow> text_bytes \<Rightarrow> text_bytes \<Rightarrow> target list \<Rightarrow> sync_run list \<Rightarrow>
   cohort_error + (target list \<times> sync_run)" where
  "external_roster float_json run_id provider dataset targets rs =
     (if \<not> (1 \<le> length targets \<and> length targets \<le> MAX_EXTERNAL_TARGETS) then Inl Roster_Size
      else
        let selected = sort_key tg_location targets in
        if \<not> list_all (\<lambda>x. descriptor_ok (roster_descriptor provider dataset x)) selected then Inl Bad_Descriptor
        else if \<not> distinct (map tg_location selected) then Inl Roster_Repeats
        else if length (spaced_text (JArr (map (target_json float_json) selected))) > MAX_COHORT_BYTES
        then Inl Roster_Bytes
        else case run_row run_id rs of
          None \<Rightarrow> Inl Run_Cannot_Declare
        | Some run \<Rightarrow>
            if \<not> is_running run \<or> (sr_provider run, sr_dataset run) \<noteq> (provider, dataset) then Inl Run_Cannot_Declare
            else Inr (selected, run))"

definition declare_external_cohort ::
  "(rat \<Rightarrow> json) \<Rightarrow> text_bytes \<Rightarrow> text_bytes \<Rightarrow> text_bytes \<Rightarrow> target list \<Rightarrow> instant \<Rightarrow> sync_run list \<Rightarrow>
   cohort_row list \<Rightarrow> cohort_error + (target list \<times> cohort_row list)" where
  "declare_external_cohort float_json run_id provider dataset targets now rs t =
     (case external_roster float_json run_id provider dataset targets rs of
        Inl e \<Rightarrow> Inl e
      | Inr (selected, run) \<Rightarrow>
          (case claim_roster (\<lambda>old. co_targets old = selected) (roster_row provider dataset run selected None now) t of
             Inl e \<Rightarrow> Inl e | Inr t' \<Rightarrow> Inr (selected, t')))"

text \<open>The locations of the descriptors, each with the part of the source it is asked from.\<close>

fun roster_parts ::
  "text_bytes \<Rightarrow> text_bytes \<Rightarrow> descriptor list \<Rightarrow> (text_bytes \<times> text_bytes) list \<Rightarrow>
   cohort_error + (text_bytes \<times> text_bytes) list" where
  "roster_parts provider dataset [] parts = Inr parts"
| "roster_parts provider dataset (d # ds) parts =
     (let selected = map (\<lambda>k. (k, d_source_part d)) (d_locations d) in
      if d_provider d \<noteq> provider \<or> d_dataset d \<noteq> dataset then Inl Roster_Source
      else if set parts \<inter> set selected \<noteq> {} then Inl Roster_Repeats
      else roster_parts provider dataset ds (parts @ selected))"

definition on_catalog :: "descriptor \<Rightarrow> location_row \<Rightarrow> bool" where
  "on_catalog d l \<longleftrightarrow>
     (case d of
        Grid_Scope g \<Rightarrow> lo_nx l = Some (gs_nx g) \<and> lo_ny l = Some (gs_ny g)
      | Mid_Scope m \<Rightarrow> mid_anchor_column l (ms_part m) = Some (ms_region m)
      | Retrieval_Scope r \<Rightarrow> lo_latitude l = rs_latitude r \<and> lo_longitude l = rs_longitude r
      | Sdk_Scope s \<Rightarrow> lo_latitude l = sd_latitude s \<and> lo_longitude l = sd_longitude s)"

definition source_roster ::
  "(rat \<Rightarrow> json) \<Rightarrow> text_bytes \<Rightarrow> text_bytes \<Rightarrow> text_bytes \<Rightarrow> descriptor list \<Rightarrow> sync_run list \<Rightarrow>
   location_row list \<Rightarrow> cohort_error + (target list \<times> sync_run)" where
  "source_roster float_json run_id provider dataset ds rs locs =
     (if \<not> (1 \<le> length ds \<and> length ds \<le> MAX_EXTERNAL_TARGETS) then Inl Roster_Size
      else case roster_parts provider dataset ds [] of
        Inl e \<Rightarrow> Inl e
      | Inr parts \<Rightarrow>
          let ids = sorted_set (map fst parts) in
          if length ids > MAX_EXTERNAL_TARGETS
             \<or> ascii_size (JArr (map (dump_descriptor float_json) ds)) > MAX_COHORT_BYTES
          then Inl Roster_Bytes
          else case run_row run_id rs of
            None \<Rightarrow> Inl Run_Cannot_Declare
          | Some run \<Rightarrow>
              if \<not> is_running run \<or> \<not> sr_cohort run \<or> (sr_provider run, sr_dataset run) \<noteq> (provider, dataset)
              then Inl Run_Cannot_Declare
              else
                let found = List.map_filter (\<lambda>i. row_of lo_id i (filter lo_enabled locs)) ids in
                if map lo_id found \<noteq> ids
                   \<or> \<not> list_all (\<lambda>d. list_all (\<lambda>k. case row_of lo_id k found of None \<Rightarrow> False | Some l \<Rightarrow> on_catalog d l)
                          (d_locations d)) ds
                then Inl Roster_Off_Catalog
                else Inr (map (\<lambda>l. \<lparr>tg_location = lo_id l, tg_latitude = lo_latitude l, tg_longitude = lo_longitude l\<rparr>) found,
                       run))"

definition same_descriptors :: "(rat \<Rightarrow> json) \<Rightarrow> descriptor list \<Rightarrow> cohort_row \<Rightarrow> bool" where
  "same_descriptors float_json ds old \<longleftrightarrow>
     map_option (map (dump_descriptor float_json)) (co_descriptors old) = Some (map (dump_descriptor float_json) ds)"

definition declare_source_cohort ::
  "(rat \<Rightarrow> json) \<Rightarrow> text_bytes \<Rightarrow> text_bytes \<Rightarrow> text_bytes \<Rightarrow> descriptor list \<Rightarrow> instant \<Rightarrow> sync_run list \<Rightarrow>
   location_row list \<Rightarrow> cohort_row list \<Rightarrow> cohort_error + (target list \<times> cohort_row list)" where
  "declare_source_cohort float_json run_id provider dataset ds now rs locs t =
     (case source_roster float_json run_id provider dataset ds rs locs of
        Inl e \<Rightarrow> Inl e
      | Inr (targets, run) \<Rightarrow>
          (case claim_roster (same_descriptors float_json ds) (roster_row provider dataset run targets (Some ds) now) t of
             Inl e \<Rightarrow> Inl e | Inr t' \<Rightarrow> Inr (targets, t')))"

subsection \<open>Reading rosters\<close>

definition latest_cohort_run :: "text_bytes \<Rightarrow> text_bytes \<Rightarrow> sync_run list \<Rightarrow> text_bytes option" where
  "latest_cohort_run provider dataset rs =
     (case rev (sort_key (\<lambda>r. (sr_started r, sr_id r))
          (filter (\<lambda>r. sr_provider r = provider \<and> sr_dataset r = dataset \<and> sr_cohort r) rs)) of
        [] \<Rightarrow> None | r # _ \<Rightarrow> Some (sr_id r))"

text \<open>A target list against the catalog: every location once, enabled, where it was.\<close>

fun targets_off_catalog :: "location_row list \<Rightarrow> text_bytes list \<Rightarrow> target list \<Rightarrow> bool" where
  "targets_off_catalog locs seen [] = False"
| "targets_off_catalog locs seen (x # xs) =
     (tg_location x \<in> set seen
      \<or> (case row_of lo_id (tg_location x) locs of
           None \<Rightarrow> True | Some l \<Rightarrow> lo_latitude l \<noteq> tg_latitude x \<or> lo_longitude l \<noteq> tg_longitude x)
      \<or> targets_off_catalog locs (tg_location x # seen) xs)"

definition check_cohort :: "export_db \<Rightarrow> location_row list \<Rightarrow> cohort_row \<Rightarrow> cohort_error option" where
  "check_cohort db locs row =
     (if latest_cohort_run (co_provider row) (co_dataset row) (runs (sync db)) \<noteq> Some (co_run row)
      then Some Roster_Of_Older_Run
      else if map_option sr_status (run_row (co_run row) (runs (sync db))) \<noteq> Some ''success'' then Some Roster_Run_Failed
      else if \<not> (1 \<le> length (co_targets row) \<and> length (co_targets row) \<le> MAX_EXTERNAL_TARGETS) then Some Roster_Size
      else if targets_off_catalog locs [] (co_targets row) then Some Roster_Off_Catalog
      else if \<not> list_all (\<lambda>x. descriptor_ok (roster_descriptor (co_provider row) (co_dataset row) x)) (co_targets row)
      then Some Bad_Descriptor
      else None)"

fun first_error :: "('a \<Rightarrow> 'e option) \<Rightarrow> 'a list \<Rightarrow> 'e option" where
  "first_error f [] = None"
| "first_error f (x # xs) = (case f x of Some e \<Rightarrow> Some e | None \<Rightarrow> first_error f xs)"

text \<open>The run that published the head of a namespace, through its generation and attempt.\<close>

definition head_run :: "export_db \<Rightarrow> text_bytes \<Rightarrow> text_bytes option" where
  "head_run db namespace =
     (case row_of h_namespace namespace (heads db) of
        None \<Rightarrow> None
      | Some h \<Rightarrow> (case row_of g_id (h_generation h) (generations db) of
          None \<Rightarrow> None
        | Some g \<Rightarrow> map_option a_run (attempt_at (g_attempt g) db)))"

definition cohort_descriptors_of :: "cohort_row \<Rightarrow> descriptor list" where
  "cohort_descriptors_of row = map (roster_descriptor (co_provider row) (co_dataset row)) (co_targets row)"

definition selected_external_descriptors ::
  "(text_bytes \<Rightarrow> text_bytes) \<Rightarrow> (rat \<Rightarrow> json) \<Rightarrow> cohort_row list \<Rightarrow> export_db \<Rightarrow> location_row list \<Rightarrow>
   text_bytes list \<Rightarrow> bool \<Rightarrow> cohort_error + descriptor list" where
  "selected_external_descriptors sha256 float_json t db locs providers forecast =
     (let wanted = map (\<lambda>p. (p, p @ (if forecast then ''_forecast'' else ''_current''))) providers;
          rows = filter (\<lambda>r. co_source r \<in> set wanted) t
      in if \<not> set wanted \<subseteq> co_source ` set rows then Inl Roster_Not_Declared
         else case first_error (check_cohort db locs) rows of
           Some e \<Rightarrow> Inl e
         | None \<Rightarrow>
             if list_all (\<lambda>r. list_all (\<lambda>d. head_run db (descriptor_namespace sha256 float_json d) = Some (co_run r))
                  (cohort_descriptors_of r)) rows
             then Inr (sort_key (\<lambda>d. (d_provider d, d_entity_id d)) (concat (map cohort_descriptors_of rows)))
             else Inl Roster_Not_Approved)"


subsection \<open>Only a later run replaces a roster\<close>

text \<open>What one declaration does to a source's row: nothing, its first row, or the row of a later start.\<close>

definition rosters_le :: "cohort_row list \<Rightarrow> cohort_row list \<Rightarrow> bool" where
  "rosters_le t u \<longleftrightarrow> (\<forall>k x. row_of co_source k t = Some x \<longrightarrow>
     (\<exists>y. row_of co_source k u = Some y \<and> co_order x \<le> co_order y \<and> (co_order x = co_order y \<longrightarrow> y = x)))"

lemma rosters_le_refl: "rosters_le t t"
  by (simp add: rosters_le_def)

lemma rosters_le_trans:
  assumes "rosters_le a b" "rosters_le b c"
  shows "rosters_le a c"
  unfolding rosters_le_def
proof (intro allI impI)
  fix k x assume "row_of co_source k a = Some x"
  with assms(1) obtain y where y: "row_of co_source k b = Some y" "co_order x \<le> co_order y" "co_order x = co_order y \<longrightarrow> y = x"
    unfolding rosters_le_def by blast
  with assms(2) obtain z where z: "row_of co_source k c = Some z" "co_order y \<le> co_order z" "co_order y = co_order z \<longrightarrow> z = y"
    unfolding rosters_le_def by blast
  have "co_order x = co_order z \<longrightarrow> z = x" using y(2,3) z(2,3) by (metis order_antisym)
  with y(2) z(1,2) show "\<exists>z. row_of co_source k c = Some z \<and> co_order x \<le> co_order z \<and> (co_order x = co_order z \<longrightarrow> z = x)"
    using order_trans by blast
qed

lemma claim_roster_le: "claim_roster same new t = Inr t' \<Longrightarrow> rosters_le t t'"
  unfolding claim_roster_def rosters_le_def
  by (auto simp: row_of_upsert row_of_append row_of_Cons split: option.splits if_splits)

inductive roster_step :: "cohort_row list \<Rightarrow> cohort_row list \<Rightarrow> bool" where
  external: "declare_external_cohort fj run_id p d targets now rs t = Inr (selected, t') \<Longrightarrow> roster_step t t'"
| source: "declare_source_cohort fj run_id p d ds now rs locs t = Inr (selected, t') \<Longrightarrow> roster_step t t'"

lemma roster_step_le: "roster_step t t' \<Longrightarrow> rosters_le t t'"
  by (erule roster_step.cases)
    (auto simp: declare_external_cohort_def declare_source_cohort_def split: sum.splits prod.splits dest: claim_roster_le)

text \<open>C38: A roster is written once and replaced only by a run that started later.  After any declarations
that succeeded, a source that had a row still has one, of a run that started no earlier; if it is
the row of the same start and run, it is the very row, targets and descriptors included.\<close>

theorem roster_belongs_to_the_latest_run:
  assumes "roster_step\<^sup>*\<^sup>* t t'" "row_of co_source k t = Some x"
  shows "\<exists>y. row_of co_source k t' = Some y \<and> co_order x \<le> co_order y \<and> (co_order x = co_order y \<longrightarrow> y = x)"
proof -
  have "rosters_le t t'"
    using assms(1) by (induction rule: rtranclp_induct) (auto intro: rosters_le_refl rosters_le_trans roster_step_le)
  with assms(2) show ?thesis unfolding rosters_le_def by blast
qed

end
