(* ===== verification/Source_Selection.thy ===== *)
theory Source_Selection
  imports Source_Cohorts
begin

section \<open>The approved sources a reader may show (export_inventory_selection.py, export_capacity.py)\<close>

text \<open>
  A reader asks for a set of providers and datasets.  What it may show is in the inventory of
  approved locations; whether it may call that confirmed depends on the age of the approvals, on
  the live heads and owners of their scopes, and on the rosters of the last runs.
\<close>

definition MAX_SOURCE_SCOPES :: nat where "MAX_SOURCE_SCOPES = 8192"
definition MAX_GENERATION_REFS :: nat where "MAX_GENERATION_REFS = 65536"
definition MAX_REF_LOCATION_BYTES :: nat where "MAX_REF_LOCATION_BYTES = 64 * 1024"
definition MAX_SCOPE_PLAN_BYTES :: nat where "MAX_SCOPE_PLAN_BYTES = 256 * 1024"
definition MAX_MANIFEST_BYTES :: nat where "MAX_MANIFEST_BYTES = 8 * 1024 * 1024"
definition MANIFEST_STATE_RESERVE :: nat where "MANIFEST_STATE_RESERVE = 128"
definition MAX_SELECTED_ROWS :: nat where "MAX_SELECTED_ROWS = 20000"

type_synonym source = "text_bytes \<times> text_bytes"

definition utf8 :: "nat list \<Rightarrow> text_bytes" where
  "utf8 ns = map char_of ns"

definition SDK_NETWORKS :: "(text_bytes \<times> text_bytes) list" where
  "SDK_NETWORKS =
     [(''krforest_mountain_weather'', utf8 [236, 130, 176, 236, 149, 133, 234, 184, 176, 236, 131, 129, 234, 180, 128,
         236, 184, 161, 235, 167, 157]),
      (''krforest_dust'', utf8 [236, 178, 173, 236, 160, 149, 235, 132, 183] @ ''(AICAN)''),
      (''krex_restarea_weather'', utf8 [234, 179, 160, 236, 134, 141, 235, 143, 132, 235, 161, 156, 32, 237, 156, 180,
         234, 178, 140, 236, 134, 140, 32, 234, 184, 176, 236, 131, 129, 234, 180, 128, 236, 184, 161]),
      (''khoa_beach_index'', utf8 [237, 149, 180, 236, 136, 152, 236, 154, 149, 236, 158, 165, 32, 237, 149, 180,
         236, 150, 145, 236, 167, 128, 236, 136, 152])]"

subsection \<open>Age\<close>

definition ends_with :: "text_bytes \<Rightarrow> text_bytes \<Rightarrow> bool" where
  "ends_with w s \<longleftrightarrow> length w \<le> length s \<and> drop (length s - length w) s = w"

definition source_max_age :: "text_bytes \<Rightarrow> instant" where
  "source_max_age dataset =
     (if map_of SDK_NETWORKS dataset \<noteq> None then hours 36
      else if dataset = ''kma_mid_forecast'' then hours 18
      else if dataset = ''kma_short_forecast'' \<or> ends_with ''_forecast'' dataset then hours 6
      else hours 3)"

definition SOURCE_EXPIRY_FLOOR :: instant where "SOURCE_EXPIRY_FLOOR = hours 24"
definition SOURCE_EXPIRY_FACTOR :: int where "SOURCE_EXPIRY_FACTOR = 2"
definition FRESHNESS_WINDOW :: instant where "FRESHNESS_WINDOW = SOURCE_EXPIRY_FLOOR"

definition counts_for_freshness :: "instant \<Rightarrow> instant \<Rightarrow> bool" where
  "counts_for_freshness collected now \<longleftrightarrow> now - collected \<le> FRESHNESS_WINDOW"

definition least :: "instant list \<Rightarrow> instant option" where
  "least ts = (if ts = [] then None else Some (Min (set ts)))"

definition freshness_min :: "instant option list \<Rightarrow> instant \<Rightarrow> instant option" where
  "freshness_min values_in now =
     (let ts = List.map_filter id values_in; fresh = filter (\<lambda>t. counts_for_freshness t now) ts
      in least (if fresh = [] then ts else fresh))"

definition source_expiry :: "text_bytes \<Rightarrow> instant" where
  "source_expiry dataset = max SOURCE_EXPIRY_FLOOR (SOURCE_EXPIRY_FACTOR * source_max_age dataset)"

subsection \<open>Does the location still have the anchor it was approved with\<close>

definition anchor_ok :: "descriptor \<Rightarrow> location_row \<Rightarrow> bool" where
  "anchor_ok d l \<longleftrightarrow>
     (case d of
        Grid_Scope g \<Rightarrow> gs_normalizer g = ''kma-v1'' \<and> gs_winner g = ''kma-base-v1''
      | Mid_Scope m \<Rightarrow> mid_anchor_column l (ms_part m) = Some (ms_region m)
      | Retrieval_Scope r \<Rightarrow> True
      | Sdk_Scope s \<Rightarrow>
          (let point = (\<lambda>k n. map_option (sql_left (n + 1)) (map_of (lo_point l) k));
               station = point ''station_id'' 120;
               station' = (if sd_provider s = ''python-airkorea-api'' \<and> (station = None \<or> station = Some [])
                           then Some (lo_id l) else station)
           in point ''provider'' 120 = Some (sd_provider s) \<and> point ''station_name'' 200 = Some (sd_station_name s)
              \<and> station' = Some (sd_station_id s) \<and> point ''sido_name'' 32 = sd_sido s
              \<and> (case map_of SDK_NETWORKS (sd_dataset s) of
                   None \<Rightarrow> True | Some n \<Rightarrow> point ''network'' 120 = Some n)))"

definition same_place :: "descriptor \<Rightarrow> inventory_row \<Rightarrow> location_row \<Rightarrow> bool" where
  "same_place d i l \<longleftrightarrow> (lo_latitude l, lo_longitude l) = (i_latitude i, i_longitude i)
     \<and> (case d of Grid_Scope g \<Rightarrow> (lo_nx l, lo_ny l) = (i_nx i, i_ny i) | _ \<Rightarrow> True)"

subsection \<open>The plans of the approvals\<close>

text \<open>
  Plans never change once written, so their parsed descriptors are remembered between calls, the
  least recently used first out; a remembered plan is only checked to be still there.  The budget
  counts the remembered ones as if they had been read.
\<close>

datatype selection_error =
    Bad_Request | Too_Many_Rows | Catalog_Row_Lost | Plan_Lost | Plan_Limit | Plan_Differs | Anchor_Changed
  | Place_Changed | Never_Approved | Roster_Error cohort_error | Generations_Differ | Vector_Size

type_synonym plan_cache = "(text_bytes \<times> descriptor) list"

definition PLAN_CACHE_SIZE :: nat where "PLAN_CACHE_SIZE = 16384"
definition PLAN_CACHE_BYTES :: nat where "PLAN_CACHE_BYTES = 64 * 1024 * 1024"

text \<open>\<open>plan_bytes\<close>: the size of the parsed plan as the budget counts it; \<open>ascii_size\<close>: as the column stores it.\<close>

definition plan_bytes :: "(rat \<Rightarrow> json) \<Rightarrow> descriptor \<Rightarrow> nat" where
  "plan_bytes float_json d = length (encode (dump_descriptor float_json d))"

definition cache_bytes :: "(rat \<Rightarrow> json) \<Rightarrow> plan_cache \<Rightarrow> nat" where
  "cache_bytes float_json c = sum_list (map (\<lambda>(k, d). plan_bytes float_json d) c)"

text \<open>Oldest first; what is found moves to the end.\<close>

definition remembered :: "text_bytes list \<Rightarrow> plan_cache \<Rightarrow> (text_bytes \<times> descriptor) list \<times> plan_cache" where
  "remembered keys c =
     (let found = List.map_filter (\<lambda>k. map_option (Pair k) (map_of c k)) keys
      in (found, filter (\<lambda>(k, d). k \<notin> fst ` set found) c @ found))"

fun evict :: "(rat \<Rightarrow> json) \<Rightarrow> plan_cache \<Rightarrow> plan_cache" where
  "evict float_json [] = []"
| "evict float_json (x # c) =
     (if length (x # c) > PLAN_CACHE_SIZE \<or> cache_bytes float_json (x # c) > PLAN_CACHE_BYTES
      then evict float_json c else x # c)"

definition remember :: "(rat \<Rightarrow> json) \<Rightarrow> (text_bytes \<times> descriptor) list \<Rightarrow> plan_cache \<Rightarrow> plan_cache" where
  "remember float_json new c = evict float_json (filter (\<lambda>(k, d). k \<notin> fst ` set new) c @ new)"

text \<open>\<open>read_scope_plans\<close>.\<close>

definition read_scope_plans ::
  "(rat \<Rightarrow> json) \<Rightarrow> plan_row list \<Rightarrow> text_bytes list \<Rightarrow> selection_error + (text_bytes \<times> descriptor) list" where
  "read_scope_plans float_json ps wanted =
     (let ids = remdups wanted;
          rows = sort_key p_attempt (filter (\<lambda>p. p_attempt p \<in> set ids) ps)
      in if length ids > MAX_SOURCE_SCOPES then Inl Plan_Limit
         else if list_ex (\<lambda>p. ascii_size (dump_descriptor float_json (p_descriptor p)) > MAX_SCOPE_PLAN_BYTES
                   \<or> plan_bytes float_json (p_descriptor p) > MAX_SCOPE_PLAN_BYTES) rows
              \<or> sum_list (map (plan_bytes float_json \<circ> p_descriptor) rows) > MAX_MANIFEST_BYTES
         then Inl Plan_Limit
         else if \<not> set ids \<subseteq> p_attempt ` set rows then Inl Plan_Lost
         else Inr (map (\<lambda>p. (p_attempt p, p_descriptor p)) rows))"

definition parsed_scope_plans ::
  "(rat \<Rightarrow> json) \<Rightarrow> plan_row list \<Rightarrow> text_bytes list \<Rightarrow> plan_cache \<Rightarrow>
   (selection_error + (text_bytes \<times> descriptor) list) \<times> plan_cache" where
  "parsed_scope_plans float_json ps wanted c =
     (let ids = remdups wanted in
      if length ids > MAX_SOURCE_SCOPES then (Inl Plan_Limit, c)
      else
        let (found, c') = remembered ids c in
        if \<not> fst ` set found \<subseteq> p_attempt ` set ps then (Inl Plan_Lost, c')
        else case read_scope_plans float_json ps (filter (\<lambda>k. k \<notin> fst ` set found) ids) of
          Inl e \<Rightarrow> (Inl e, c')
        | Inr fresh \<Rightarrow>
            if cache_bytes float_json found + cache_bytes float_json fresh > MAX_MANIFEST_BYTES then (Inl Plan_Limit, c')
            else (Inr (found @ fresh), remember float_json fresh c'))"

subsection \<open>The approvals of the request\<close>

type_synonym approval = "inventory_row \<times> generation_row"

definition ap_source :: "approval \<Rightarrow> source" where
  "ap_source a = (i_provider (fst a), i_dataset (fst a))"

record approved_scope =
  as_descriptor :: descriptor
  as_generation :: text_bytes
  as_locations :: "text_bytes list"
  as_collected :: instant
  as_revision :: instant
  as_published :: instant

record approved_selection =
  al_scopes :: "approved_scope list"
  al_unconfirmed :: bool
  al_expired :: "(text_bytes \<times> text_bytes \<times> text_bytes) list"

text \<open>The inventory joined with its generations, cut one row past the limit.\<close>

definition selected_rows :: "source list \<Rightarrow> export_db \<Rightarrow> approval list" where
  "selected_rows wanted db =
     take (MAX_SELECTED_ROWS + 1) (sort_key (\<lambda>a. (ap_source a, i_location (fst a)))
       (List.map_filter (\<lambda>i. if (i_provider i, i_dataset i) \<in> set wanted
          then map_option (Pair i) (row_of g_id (i_generation i) (generations db)) else None) (inventory db)))"

definition part_expired :: "instant \<Rightarrow> inventory_row \<Rightarrow> bool" where
  "part_expired now i \<longleftrightarrow> now - i_collected i > source_expiry (i_dataset i)"

definition in_catalog :: "location_row list \<Rightarrow> inventory_row \<Rightarrow> bool" where
  "in_catalog locs i \<longleftrightarrow> row_of lo_id (i_location i) locs \<noteq> None"

definition expired_rows :: "instant \<Rightarrow> location_row list \<Rightarrow> approval list \<Rightarrow> inventory_row list" where
  "expired_rows now locs rows = filter (\<lambda>i. in_catalog locs i \<and> part_expired now i) (map fst rows)"

definition unexpired :: "instant \<Rightarrow> location_row list \<Rightarrow> approval list \<Rightarrow> approval list" where
  "unexpired now locs rows = filter (\<lambda>a. i_pk (fst a) \<notin> i_pk ` set (expired_rows now locs rows)) rows"

definition approval_error ::
  "head_env \<Rightarrow> location_row list \<Rightarrow> (text_bytes \<times> descriptor) list \<Rightarrow> approval \<Rightarrow> selection_error option" where
  "approval_error env locs parsed a =
     (case a of (i, g) \<Rightarrow> case row_of lo_id (i_location i) locs of
        None \<Rightarrow> None
      | Some l \<Rightarrow> (case map_of parsed (g_attempt g) of
          None \<Rightarrow> Some Plan_Lost
        | Some d \<Rightarrow>
            if descriptor_namespace (he_sha256 env) (he_float env) d \<noteq> i_namespace i then Some Plan_Differs
            else if \<not> anchor_ok d l then Some Anchor_Changed
            else if \<not> same_place d i l then Some Place_Changed
            else None))"

record admitted_part =
  ad_valid :: "approval list"
  ad_plans :: "(text_bytes \<times> descriptor) list"
  ad_expired :: "inventory_row list"

definition approved_part ::
  "head_env \<Rightarrow> source list \<Rightarrow> source list \<Rightarrow> location_row list \<Rightarrow> instant \<Rightarrow> export_db \<Rightarrow> plan_cache \<Rightarrow>
   (selection_error + admitted_part) \<times> plan_cache" where
  "approved_part env wanted optional locs now db c =
     (let rows = selected_rows wanted db;
          ever = map ap_source (filter (in_catalog locs \<circ> fst) rows);
          live = unexpired now locs rows;
          missing = filter (\<lambda>i. \<not> in_catalog locs i) (map fst live);
          seen = filter (in_catalog locs \<circ> fst) live;
          shown = map (g_attempt \<circ> snd) seen
      in if length rows > MAX_SELECTED_ROWS then (Inl Too_Many_Rows, c)
         else if list_ex (\<lambda>i. \<not> list_ex (\<lambda>l. lo_id l = i_location i \<and> \<not> lo_enabled l) (locations db)) missing
         then (Inl Catalog_Row_Lost, c)
         else case parsed_scope_plans (he_float env) (plans db) (sorted_set shown) c of
           (Inl e, c') \<Rightarrow> (Inl e, c')
         | (Inr parsed, c') \<Rightarrow>
             if \<not> (g_attempt \<circ> snd) ` set live - set shown \<subseteq> p_attempt ` set (plans db) then (Inl Plan_Lost, c')
             else case first_error (approval_error env locs parsed) live of
               Some e \<Rightarrow> (Inl e, c')
             | None \<Rightarrow>
                 if \<not> set wanted - set optional \<subseteq> set ever then (Inl Never_Approved, c')
                 else (Inr \<lparr>ad_valid = seen, ad_plans = parsed, ad_expired = expired_rows now locs rows\<rparr>, c'))"

subsection \<open>Whether the approvals are confirmed\<close>

definition for_health :: "text_bytes list option \<Rightarrow> text_bytes \<Rightarrow> bool" where
  "for_health health k \<longleftrightarrow> (case health of None \<Rightarrow> True | Some ks \<Rightarrow> k \<in> set ks)"

definition health_rows :: "text_bytes list option \<Rightarrow> instant \<Rightarrow> approval list \<Rightarrow> approval list" where
  "health_rows health now valid =
     filter (\<lambda>a. for_health health (i_location (fst a)) \<and> counts_for_freshness (i_collected (fst a)) now) valid"

definition silent_source :: "source list \<Rightarrow> text_bytes list option \<Rightarrow> instant \<Rightarrow> approval list \<Rightarrow> bool" where
  "silent_source wanted health now valid \<longleftrightarrow>
     (let fresh = ap_source ` set (health_rows health now valid) in
      case health of
        None \<Rightarrow> \<not> set wanted \<subseteq> fresh
      | Some ks \<Rightarrow> list_ex (\<lambda>a. i_location (fst a) \<in> set ks \<and> ap_source a \<notin> fresh) valid)"

definition aged :: "instant \<Rightarrow> approval \<Rightarrow> bool" where
  "aged now a \<longleftrightarrow> now - i_collected (fst a) > source_max_age (i_dataset (fst a))
     \<or> now - g_revision (snd a) > source_max_age (i_dataset (fst a))"

text \<open>The owner of every scope, its attempt and what the attempt has published.\<close>

definition active_owners :: "text_bytes list \<Rightarrow> export_db \<Rightarrow> (owner_row \<times> attempt_row \<times> generation_row option) list" where
  "active_owners scopes db =
     concat (map (\<lambda>own. case attempt_at (o_attempt own) db of
         None \<Rightarrow> []
       | Some a \<Rightarrow> (let gs = filter (\<lambda>g. g_attempt g = a_id a) (generations db)
           in map (\<lambda>g. (own, a, g)) (if gs = [] then [None] else map Some gs)))
       (filter (\<lambda>own. o_scope own \<in> set scopes) (owners db)))"

definition owner_in_trouble :: "export_db \<Rightarrow> owner_row \<times> attempt_row \<times> generation_row option \<Rightarrow> bool" where
  "owner_in_trouble db x \<longleftrightarrow>
     (case x of (own, a, g) \<Rightarrow>
        let status = map_option sr_status (run_at (a_run a) db) in
        a_status a = Failed \<or> status \<notin> {Some ''running'', Some ''success''} \<or> (status = Some ''success'' \<and> g = None)
        \<or> (case a_epochs a of None \<Rightarrow> None | Some es \<Rightarrow> map_option (sql_left 32 \<circ> show_int) (map_of es (o_scope own)))
            \<noteq> Some (show_int (o_epoch own)))"

definition unconfirmed_rows :: "source list \<Rightarrow> text_bytes list option \<Rightarrow> instant \<Rightarrow> export_db \<Rightarrow> approval list \<Rightarrow> bool" where
  "unconfirmed_rows wanted health now db valid \<longleftrightarrow>
     (let rows = health_rows health now valid; scopes = remdups (map (i_scope \<circ> fst) rows); active = active_owners scopes db
      in silent_source wanted health now valid
         \<or> list_ex (aged now) rows
         \<or> list_ex (\<lambda>a. row_of h_namespace (i_namespace (fst a)) (heads db) = None) rows
         \<or> length active \<noteq> length scopes \<or> list_ex (owner_in_trouble db) active)"

text \<open>The descriptors of a roster; one without them is a roster of the first three external sources.\<close>

definition roster_of :: "cohort_row \<Rightarrow> selection_error + descriptor list" where
  "roster_of row =
     (case co_descriptors row of
        Some ds \<Rightarrow> if 1 \<le> length ds \<and> length ds \<le> 5000 then Inr ds else Inl (Roster_Error Roster_Size)
      | None \<Rightarrow> if list_all (descriptor_ok) (cohort_descriptors_of row) then Inr (cohort_descriptors_of row)
          else Inl (Roster_Error Bad_Descriptor))"

definition part_unapproved ::
  "head_env \<Rightarrow> text_bytes list option \<Rightarrow> instant \<Rightarrow> export_db \<Rightarrow> admitted_part \<Rightarrow> cohort_row \<Rightarrow> descriptor \<Rightarrow> text_bytes \<Rightarrow> bool" where
  "part_unapproved env health now db ad row d k \<longleftrightarrow>
     (let pk = (co_provider row, co_dataset row, k, d_source_part d) in
      for_health health k \<and>
      (case row_of (i_pk \<circ> fst) pk (ad_valid ad) of
         None \<Rightarrow> pk \<notin> i_pk ` set (ad_expired ad)
       | Some (i, g) \<Rightarrow> counts_for_freshness (i_collected i) now
           \<and> (i_namespace i \<noteq> descriptor_namespace (he_sha256 env) (he_float env) d
              \<or> map_option a_run (attempt_at (g_attempt g) db) \<noteq> Some (co_run row))))"

definition roster_unconfirmed ::
  "head_env \<Rightarrow> cohort_row list \<Rightarrow> text_bytes list option \<Rightarrow> instant \<Rightarrow> export_db \<Rightarrow> admitted_part \<Rightarrow> source \<Rightarrow>
   selection_error + bool" where
  "roster_unconfirmed env cohorts health now db ad source =
     (let rows = health_rows health now (ad_valid ad); here = list_ex (\<lambda>a. ap_source a = source) rows in
      case row_of co_source source cohorts of
        None \<Rightarrow> Inr (health = None \<or> here)
      | Some row \<Rightarrow>
          (case roster_of row of
             Inl e \<Rightarrow> Inl e
           | Inr ds \<Rightarrow>
               if health \<noteq> None \<and> \<not> list_ex (\<lambda>d. list_ex (for_health health) (d_locations d)) ds \<and> \<not> here then Inr False
               else case roster_parts (fst source) (snd source) ds [] of
                 Inl e \<Rightarrow> Inl (Roster_Error e)
               | Inr parts \<Rightarrow>
                   if fst ` set parts \<noteq> tg_location ` set (co_targets row) then Inl (Roster_Error Roster_Off_Catalog)
                   else Inr (latest_cohort_run (fst source) (snd source) (runs (sync db)) \<noteq> Some (co_run row)
                     \<or> map_option sr_status (run_at (co_run row) db) \<noteq> Some ''success''
                     \<or> list_ex (\<lambda>d. list_ex (part_unapproved env health now db ad row d) (d_locations d)) ds)))"

fun any_unconfirmed :: "('a \<Rightarrow> 'e + bool) \<Rightarrow> 'a list \<Rightarrow> 'e + bool" where
  "any_unconfirmed f [] = Inr False"
| "any_unconfirmed f (x # xs) =
     (case f x of
        Inl e \<Rightarrow> Inl e
      | Inr b \<Rightarrow> (case any_unconfirmed f xs of Inl e \<Rightarrow> Inl e | Inr b' \<Rightarrow> Inr (b \<or> b')))"

subsection \<open>The selection\<close>

definition scope_of_group :: "(text_bytes \<times> descriptor) list \<Rightarrow> approval list \<Rightarrow> selection_error + approved_scope" where
  "scope_of_group parsed items =
     (if items = [] then Inl Plan_Lost
      else
        let i = fst (hd items); g = snd (hd items); ids = sort (map (i_location \<circ> fst) items) in
        case map_of parsed (g_attempt (snd (List.last items))) of
          None \<Rightarrow> Inl Plan_Lost
        | Some d \<Rightarrow>
            if list_ex (\<lambda>a. i_generation (fst a) \<noteq> i_generation i) items then Inl Generations_Differ
            else if \<not> set ids \<subseteq> set (d_locations d) then Inl Plan_Differs
            else Inr \<lparr>as_descriptor = d, as_generation = i_generation i, as_locations = ids,
                   as_collected = i_collected i, as_revision = g_revision g, as_published = g_created g\<rparr>)"

definition approved_groups :: "approval list \<Rightarrow> approval list list" where
  "approved_groups valid =
     map (\<lambda>n. filter (\<lambda>a. i_namespace (fst a) = n) valid) (sorted_set (map (i_namespace \<circ> fst) valid))"

fun all_scopes_of :: "(text_bytes \<times> descriptor) list \<Rightarrow> approval list list \<Rightarrow> selection_error + approved_scope list" where
  "all_scopes_of parsed [] = Inr []"
| "all_scopes_of parsed (items # rest) =
     (case scope_of_group parsed items of
        Inl e \<Rightarrow> Inl e
      | Inr sc \<Rightarrow> (case all_scopes_of parsed rest of Inl e \<Rightarrow> Inl e | Inr scs \<Rightarrow> Inr (sc # scs)))"

definition approved_source_selection ::
  "head_env \<Rightarrow> cohort_row list \<Rightarrow> source list \<Rightarrow> source list \<Rightarrow> text_bytes list option \<Rightarrow> location_row list \<Rightarrow> instant \<Rightarrow>
   export_db \<Rightarrow> plan_cache \<Rightarrow> (selection_error + approved_selection) \<times> plan_cache" where
  "approved_source_selection env cohorts wanted optional health locs now db c =
     (let ws = remdups wanted in
      if ws = [] \<or> length ws > 128 \<or> \<not> set optional \<subseteq> set ws then (Inl Bad_Request, c)
      else case approved_part env ws optional locs now db c of
        (Inl e, c') \<Rightarrow> (Inl e, c')
      | (Inr ad, c') \<Rightarrow>
          (case any_unconfirmed (roster_unconfirmed env cohorts health now db ad) ws of
             Inl e \<Rightarrow> (Inl e, c')
           | Inr late \<Rightarrow>
               (case all_scopes_of (ad_plans ad) (approved_groups (ad_valid ad)) of
                  Inl e \<Rightarrow> (Inl e, c')
                | Inr scopes \<Rightarrow>
                    if scopes = [] \<or> length scopes > MAX_SOURCE_SCOPES then (Inl Vector_Size, c')
                    else (Inr \<lparr>al_scopes = scopes,
                            al_unconfirmed = (unconfirmed_rows ws health now db (ad_valid ad) \<or> late),
                            al_expired = map (\<lambda>i. (i_provider i, i_dataset i, i_location i)) (ad_expired ad)\<rparr>, c'))))"


subsection \<open>The memory of plans does not show\<close>

text \<open>A memory is right when what it holds is what the table holds, read within the limits.\<close>

definition plan_fits :: "(rat \<Rightarrow> json) \<Rightarrow> descriptor \<Rightarrow> bool" where
  "plan_fits float_json d \<longleftrightarrow> ascii_size (dump_descriptor float_json d) \<le> MAX_SCOPE_PLAN_BYTES
     \<and> plan_bytes float_json d \<le> MAX_SCOPE_PLAN_BYTES"

definition cache_right :: "(rat \<Rightarrow> json) \<Rightarrow> plan_row list \<Rightarrow> plan_cache \<Rightarrow> bool" where
  "cache_right float_json ps c \<longleftrightarrow> distinct (map fst c)
     \<and> (\<forall>(k, d)\<in>set c. plan_fits float_json d \<and> (\<forall>p\<in>set ps. p_attempt p = k \<longrightarrow> p_descriptor p = d))"

definition cache_bounded :: "(rat \<Rightarrow> json) \<Rightarrow> plan_cache \<Rightarrow> bool" where
  "cache_bounded float_json c \<longleftrightarrow> length c \<le> PLAN_CACHE_SIZE \<and> cache_bytes float_json c \<le> PLAN_CACHE_BYTES"

lemma evict_suffix: "\<exists>n. evict fj c = drop n c"
proof (induction c)
  case (Cons x c)
  then obtain n where "evict fj c = drop n c" by blast
  then show ?case by (auto intro: exI [of _ "Suc n"] exI [of _ 0])
qed simp

lemma evict_bounded: "cache_bounded fj (evict fj c)"
  by (induction c) (auto simp: cache_bounded_def cache_bytes_def)

lemma remembered_set: "remembered keys c = (found, c') \<Longrightarrow> set found = {(k, d). k \<in> set keys \<and> map_of c k = Some d}"
  by (auto simp: remembered_def Let_def map_filter_set)

lemma remembered_found: "remembered keys c = (found, c') \<Longrightarrow> set found \<subseteq> set c"
  using remembered_set [of keys c found c'] by (auto dest: map_of_SomeD)

lemma distinct_moved:
  "distinct (map fst c) \<Longrightarrow> distinct (map fst new) \<Longrightarrow> distinct (map fst (filter (\<lambda>(k, d). k \<notin> fst ` set new) c @ new))"
  by (force simp: distinct_map_filter)

lemma remembered_keys: "distinct keys \<Longrightarrow> remembered keys c = (found, c') \<Longrightarrow> distinct (map fst found)"
proof -
  have "distinct keys \<Longrightarrow> distinct (map fst (List.map_filter (\<lambda>k. map_option (Pair k) (map_of c k)) keys))"
    by (induction keys) (auto simp: List.map_filter_def split: option.splits)
  then show "distinct keys \<Longrightarrow> remembered keys c = (found, c') \<Longrightarrow> distinct (map fst found)"
    by (auto simp: remembered_def Let_def)
qed

lemma cache_right_sub: "cache_right fj ps c \<Longrightarrow> set c' \<subseteq> set c \<Longrightarrow> distinct (map fst c') \<Longrightarrow> cache_right fj ps c'"
  unfolding cache_right_def by blast

lemma remembered_right:
  assumes "cache_right fj ps c" "distinct keys" "remembered keys c = (found, c')"
  shows "cache_right fj ps c'" "cache_right fj ps found" "set c' = set c"
proof -
  have c': "c' = filter (\<lambda>(k, d). k \<notin> fst ` set found) c @ found" using assms(3) by (auto simp: remembered_def Let_def)
  have sub: "set found \<subseteq> set c" using assms(3) by (rule remembered_found)
  have d: "distinct (map fst found)" using assms(2,3) by (rule remembered_keys)
  have keys: "distinct (map fst c)" using assms(1) by (simp add: cache_right_def)
  then have dist: "distinct (map fst c')"
    using d unfolding c' by (rule distinct_moved)
  show "set c' = set c"
  proof
    show "set c' \<subseteq> set c" using sub by (auto simp: c')
    show "set c \<subseteq> set c'"
    proof
      fix x assume x: "x \<in> set c"
      show "x \<in> set c'"
      proof (cases "fst x \<in> fst ` set found")
        case True
        then obtain d where y: "(fst x, d) \<in> set found" by auto
        then have "(fst x, d) \<in> set c" using sub by blast
        then have "map_of c (fst x) = Some d" using keys by (rule map_of_is_SomeI [rotated])
        moreover have "map_of c (fst x) = Some (snd x)" using keys x by (intro map_of_is_SomeI) simp_all
        ultimately have "x = (fst x, d)" by (cases x) simp
        with y show ?thesis by (simp add: c')
      qed (use x in \<open>auto simp: c' case_prod_beta\<close>)
    qed
  qed
  then show "cache_right fj ps c'" using assms(1) dist by (intro cache_right_sub [OF assms(1)]) simp
  show "cache_right fj ps found" using assms(1) sub d by (rule cache_right_sub)
qed

lemma remember_right:
  assumes "cache_right fj ps c" "cache_right fj ps new"
  shows "cache_right fj ps (remember fj new c)"
proof -
  let ?c = "filter (\<lambda>(k, d). k \<notin> fst ` set new) c @ new"
  obtain n where n: "remember fj new c = drop n ?c" unfolding remember_def using evict_suffix by blast
  have "cache_right fj ps ?c"
    using assms distinct_moved [of c new] by (auto simp: cache_right_def)
  moreover have "distinct (map fst (drop n ?c))" using calculation by (simp only: drop_map [symmetric] distinct_drop cache_right_def)
  ultimately show ?thesis unfolding n by (rule cache_right_sub [OF _ set_drop_subset])
qed


definition plan_pairs :: "plan_row list \<Rightarrow> text_bytes list \<Rightarrow> (text_bytes \<times> descriptor) set" where
  "plan_pairs ps ks = (\<lambda>p. (p_attempt p, p_descriptor p)) ` {p \<in> set ps. p_attempt p \<in> set ks}"

definition plans_readable :: "(rat \<Rightarrow> json) \<Rightarrow> plan_row list \<Rightarrow> text_bytes list \<Rightarrow> bool" where
  "plans_readable float_json ps ks \<longleftrightarrow> length (remdups ks) \<le> MAX_SOURCE_SCOPES \<and> set ks \<subseteq> p_attempt ` set ps
     \<and> (\<forall>x\<in>plan_pairs ps ks. plan_fits float_json (snd x))
     \<and> (\<Sum>x\<in>plan_pairs ps ks. plan_bytes float_json (snd x)) \<le> MAX_MANIFEST_BYTES"

lemma cache_bytes_sum: "distinct (map fst c) \<Longrightarrow> cache_bytes fj c = (\<Sum>x\<in>set c. plan_bytes fj (snd x))"
  unfolding cache_bytes_def by (subst sum_list_distinct_conv_sum_set) (auto simp: distinct_map case_prod_beta)

lemma plan_pairs_finite [simp]: "finite (plan_pairs ps ks)"
  by (simp add: plan_pairs_def)

lemma guarded_result:
  "(e = (if a then Inl x else if \<not> b \<or> c then Inl y else if \<not> d then Inl z else Inr r)) \<Longrightarrow>
    (e = Inr xs) = (\<not> a \<and> d \<and> b \<and> \<not> c \<and> xs = r)"
  by auto

lemma read_scope_plans_iff:
  assumes "keyed p_attempt ps"
  shows "read_scope_plans fj ps ks = Inr xs \<longleftrightarrow>
    plans_readable fj ps ks \<and> xs = map (\<lambda>p. (p_attempt p, p_descriptor p)) (sort_key p_attempt (filter (\<lambda>p. p_attempt p \<in> set ks) ps))"
proof -
  let ?rows = "sort_key p_attempt (filter (\<lambda>p. p_attempt p \<in> set ks) ps)"
  let ?pairs = "map (\<lambda>p. (p_attempt p, p_descriptor p)) ?rows"
  have pairs: "set ?pairs = plan_pairs ps ks" by (auto simp: plan_pairs_def)
  have "distinct (map p_attempt (filter (\<lambda>p. p_attempt p \<in> set ks) ps))"
    using assms by (simp add: keyed_def distinct_map_filter)
  then have "distinct (map p_attempt ?rows)" by (simp add: distinct_map)
  then have "distinct (map fst ?pairs)" by (simp add: comp_def)
  from cache_bytes_sum [OF this, of fj]
  have bytes: "sum_list (map (plan_bytes fj \<circ> p_descriptor) ?rows) = (\<Sum>x\<in>plan_pairs ps ks. plan_bytes fj (snd x))"
    unfolding pairs by (simp add: cache_bytes_def comp_def)
  have fits: "list_ex (\<lambda>p. ascii_size (dump_descriptor fj (p_descriptor p)) > MAX_SCOPE_PLAN_BYTES
      \<or> plan_bytes fj (p_descriptor p) > MAX_SCOPE_PLAN_BYTES) ?rows \<longleftrightarrow> \<not> (\<forall>x\<in>plan_pairs ps ks. plan_fits fj (snd x))"
    by (auto simp: list_ex_iff plan_pairs_def plan_fits_def not_le)
  have all: "set (remdups ks) \<subseteq> p_attempt ` set ?rows \<longleftrightarrow> set ks \<subseteq> p_attempt ` set ps" by auto
  have "read_scope_plans fj ps ks =
    (if length (remdups ks) > MAX_SOURCE_SCOPES then Inl Plan_Limit
     else if \<not> (\<forall>x\<in>plan_pairs ps ks. plan_fits fj (snd x))
          \<or> (\<Sum>x\<in>plan_pairs ps ks. plan_bytes fj (snd x)) > MAX_MANIFEST_BYTES then Inl Plan_Limit
     else if \<not> set ks \<subseteq> p_attempt ` set ps then Inl Plan_Lost else Inr ?pairs)"
    unfolding read_scope_plans_def Let_def set_remdups bytes fits all [unfolded set_remdups] ..
  from guarded_result [OF this] show ?thesis unfolding plans_readable_def not_less by blast
qed

lemma parsed_result:
  assumes "remembered (remdups ks) c = (found, c')"
  shows "fst (parsed_scope_plans fj ps ks c) = Inr xs \<longleftrightarrow>
    length (remdups ks) \<le> MAX_SOURCE_SCOPES \<and> fst ` set found \<subseteq> p_attempt ` set ps
    \<and> (\<exists>fr. read_scope_plans fj ps (filter (\<lambda>k. k \<notin> fst ` set found) (remdups ks)) = Inr fr
      \<and> cache_bytes fj found + cache_bytes fj fr \<le> MAX_MANIFEST_BYTES \<and> xs = found @ fr)"
  unfolding parsed_scope_plans_def Let_def assms prod.case
  by (cases "read_scope_plans fj ps (filter (\<lambda>k. k \<notin> fst ` set found) (remdups ks))") (simp_all add: not_less [symmetric], blast?)

lemma plan_pairs_new:
  "plan_pairs ps (filter (\<lambda>k. k \<notin> K) (remdups ks)) = {x \<in> plan_pairs ps ks. fst x \<notin> K}"
  unfolding plan_pairs_def by force

lemma plan_pairs_of_keys:
  assumes "cache_right fj ps found" "fst ` set found \<subseteq> set ks" "fst ` set found \<subseteq> p_attempt ` set ps"
  shows "set found \<subseteq> plan_pairs ps ks"
proof
  fix x assume x: "x \<in> set found"
  with assms(3) obtain p where p: "p \<in> set ps" "p_attempt p = fst x" by (metis image_iff subsetD)
  with assms(1) x have "p_descriptor p = snd x" unfolding cache_right_def by fastforce
  then have "x = (p_attempt p, p_descriptor p)" using p(2) by (cases x) simp
  moreover have "p_attempt p \<in> set ks" using p(2) x assms(2) by auto
  ultimately show "x \<in> plan_pairs ps ks" using p(1) unfolding plan_pairs_def by blast
qed

lemma plan_pairs_split:
  assumes keyed: "keyed p_attempt ps" and sub: "set found \<subseteq> plan_pairs ps ks"
  shows "plan_pairs ps ks = set found \<union> {x \<in> plan_pairs ps ks. fst x \<notin> fst ` set found}"
proof -
  have "x \<in> set found" if x: "x \<in> plan_pairs ps ks" "fst x \<in> fst ` set found" for x
  proof -
    from x(2) obtain y where y: "y \<in> set found" "fst y = fst x" by (metis imageE)
    then have "y \<in> plan_pairs ps ks" using sub by blast
    with x(1) obtain p q where "p \<in> set ps" "q \<in> set ps" "x = (p_attempt p, p_descriptor p)" "y = (p_attempt q, p_descriptor q)"
      unfolding plan_pairs_def by blast
    moreover from this y(2) have "p = q" using keyed_unique [OF keyed] by simp
    ultimately show ?thesis using y(1) by simp
  qed
  then show ?thesis using sub by blast
qed

lemma plan_bytes_split:
  assumes "keyed p_attempt ps" "set found \<subseteq> plan_pairs ps ks" "distinct (map fst found)"
  shows "(\<Sum>x\<in>plan_pairs ps ks. plan_bytes fj (snd x)) =
    cache_bytes fj found + (\<Sum>x\<in>{x \<in> plan_pairs ps ks. fst x \<notin> fst ` set found}. plan_bytes fj (snd x))"
  by (subst plan_pairs_split [OF assms(1,2)], subst sum.union_disjoint)
    (simp_all add: cache_bytes_sum [OF assms(3)] disjoint_iff)

definition fresh_plans :: "plan_row list \<Rightarrow> text_bytes list \<Rightarrow> (text_bytes \<times> descriptor) list" where
  "fresh_plans ps ks = map (\<lambda>p. (p_attempt p, p_descriptor p)) (sort_key p_attempt (filter (\<lambda>p. p_attempt p \<in> set ks) ps))"

lemma fresh_plans:
  assumes "keyed p_attempt ps"
  shows "set (fresh_plans ps ks) = plan_pairs ps ks" "distinct (map fst (fresh_plans ps ks))"
    "cache_bytes fj (fresh_plans ps ks) = (\<Sum>x\<in>plan_pairs ps ks. plan_bytes fj (snd x))"
proof -
  show s: "set (fresh_plans ps ks) = plan_pairs ps ks" by (simp add: fresh_plans_def plan_pairs_def)
  have "distinct (map p_attempt (filter (\<lambda>p. p_attempt p \<in> set ks) ps))"
    using assms by (simp add: keyed_def distinct_map_filter)
  then show d: "distinct (map fst (fresh_plans ps ks))" unfolding fresh_plans_def by (simp add: comp_def distinct_map)
  show "cache_bytes fj (fresh_plans ps ks) = (\<Sum>x\<in>plan_pairs ps ks. plan_bytes fj (snd x))"
    using cache_bytes_sum [OF d] by (simp only: s)
qed

lemma keys_split:
  "K \<subseteq> set ks \<Longrightarrow> set ks \<subseteq> P \<longleftrightarrow> K \<subseteq> P \<and> set (filter (\<lambda>k. k \<notin> K) (remdups ks)) \<subseteq> P"
  by auto

lemma fits_split:
  "A = F \<union> N \<Longrightarrow> \<forall>x\<in>F. P x \<Longrightarrow> (\<forall>x\<in>A. P x) \<longleftrightarrow> (\<forall>x\<in>N. P x)"
  by blast

lemma parsed_scope_plans_iff:
  assumes keyed: "keyed p_attempt ps" and right: "cache_right fj ps c" and rem: "remembered (remdups ks) c = (found, c')"
  shows "fst (parsed_scope_plans fj ps ks c) = Inr xs \<longleftrightarrow>
    plans_readable fj ps ks \<and> xs = found @ fresh_plans ps (filter (\<lambda>k. k \<notin> fst ` set found) (remdups ks))"
proof -
  let ?new = "filter (\<lambda>k. k \<notin> fst ` set found) (remdups ks)"
  let ?rest = "{x \<in> plan_pairs ps ks. fst x \<notin> fst ` set found}"
  have found: "cache_right fj ps found" "distinct (map fst found)"
    using remembered_right(2) [OF right _ rem] by (simp_all add: cache_right_def)
  have fits: "\<forall>x\<in>set found. plan_fits fj (snd x)" using found(1) unfolding cache_right_def by fastforce
  have in_ks: "fst ` set found \<subseteq> set ks" using remembered_set [OF rem] by auto
  have len: "length (remdups ?new) \<le> length (remdups ks)" by (meson length_filter_le length_remdups_leq order_trans)
  have keys: "set ks \<subseteq> p_attempt ` set ps \<longleftrightarrow> fst ` set found \<subseteq> p_attempt ` set ps \<and> set ?new \<subseteq> p_attempt ` set ps"
    using in_ks by (rule keys_split)
  have "plans_readable fj ps ks \<longleftrightarrow> length (remdups ks) \<le> MAX_SOURCE_SCOPES \<and> fst ` set found \<subseteq> p_attempt ` set ps
      \<and> plans_readable fj ps ?new \<and> cache_bytes fj found + cache_bytes fj (fresh_plans ps ?new) \<le> MAX_MANIFEST_BYTES"
  proof (cases "fst ` set found \<subseteq> p_attempt ` set ps")
    case True
    have sub: "set found \<subseteq> plan_pairs ps ks" using found(1) in_ks True by (rule plan_pairs_of_keys)
    note all = fits_split [OF plan_pairs_split [OF keyed sub] fits]
    have bytes: "cache_bytes fj found + cache_bytes fj (fresh_plans ps ?new) = (\<Sum>x\<in>plan_pairs ps ks. plan_bytes fj (snd x))"
      using plan_bytes_split [OF keyed sub found(2), of fj] fresh_plans(3) [OF keyed, of fj ?new] by (simp only: plan_pairs_new)
    have less: "(\<Sum>x\<in>plan_pairs ps ?new. plan_bytes fj (snd x)) \<le> (\<Sum>x\<in>plan_pairs ps ks. plan_bytes fj (snd x))"
      using bytes fresh_plans(3) [OF keyed, of fj ?new] by simp
    show ?thesis
      unfolding plans_readable_def bytes keys all plan_pairs_new
      using len less True by (simp only: plan_pairs_new) linarith
  qed (use keys in \<open>auto simp: plans_readable_def\<close>)
  then show ?thesis
    unfolding parsed_result [OF rem] read_scope_plans_iff [OF keyed] fresh_plans_def [symmetric] by blast
qed

lemma parsed_plans_are:
  assumes "keyed p_attempt ps" "cache_right fj ps c" "fst (parsed_scope_plans fj ps ks c) = Inr xs"
  shows "set xs = plan_pairs ps ks" "distinct (map fst xs)"
proof -
  obtain found c' where rem: "remembered (remdups ks) c = (found, c')" by (cases "remembered (remdups ks) c")
  let ?new = "filter (\<lambda>k. k \<notin> fst ` set found) (remdups ks)"
  have found: "cache_right fj ps found" "distinct (map fst found)"
    using remembered_right(2) [OF assms(2) _ rem] by (simp_all add: cache_right_def)
  from assms(3) have r: "plans_readable fj ps ks" "xs = found @ fresh_plans ps ?new"
    unfolding parsed_scope_plans_iff [OF assms(1,2) rem] by (rule conjunct1, rule conjunct2)
  have in_ks: "fst ` set found \<subseteq> set ks" using remembered_set [OF rem] by auto
  then have sub: "set found \<subseteq> plan_pairs ps ks"
    by (rule plan_pairs_of_keys [OF found(1)]) (use r(1) in_ks in \<open>unfold plans_readable_def, blast\<close>)
  note new = fresh_plans(1,2) [OF assms(1), of ?new]
  show "set xs = plan_pairs ps ks" unfolding r(2) set_append new(1) plan_pairs_new using plan_pairs_split [OF assms(1) sub] by (rule sym)
  have "fst ` set (fresh_plans ps ?new) \<subseteq> - fst ` set found"
    unfolding new(1) plan_pairs_new by (rule image_subsetI) (simp only: mem_Collect_eq Compl_iff not_False_eq_True)
  then have "fst ` set found \<inter> fst ` set (fresh_plans ps ?new) = {}" unfolding disjoint_eq_subset_Compl by blast
  then show "distinct (map fst xs)" unfolding r(2) map_append distinct_append set_map using found(2) new(2) by blast
qed

lemma parsed_cache:
  assumes keyed: "keyed p_attempt ps" and right: "cache_right fj ps c"
  shows "cache_right fj ps (snd (parsed_scope_plans fj ps ks c))"
    and "cache_bounded fj c \<Longrightarrow> cache_bounded fj (snd (parsed_scope_plans fj ps ks c))"
proof -
  obtain found c' where rem: "remembered (remdups ks) c = (found, c')" by (cases "remembered (remdups ks) c")
  let ?new = "filter (\<lambda>k. k \<notin> fst ` set found) (remdups ks)"
  note c' = remembered_right [OF right _ rem, simplified]
  have same: "length c' = length c" "cache_bytes fj c' = cache_bytes fj c"
  proof -
    have d: "distinct (map fst c)" "distinct (map fst c')" using right c'(1) by (simp_all add: cache_right_def)
    then show "cache_bytes fj c' = cache_bytes fj c" using c'(3) by (simp add: cache_bytes_sum)
    have "distinct c" "distinct c'" using d by (simp_all add: distinct_map)
    then show "length c' = length c" using c'(3) by (metis distinct_card)
  qed
  have fresh: "cache_right fj ps fr" if "read_scope_plans fj ps ?new = Inr fr" for fr
  proof -
    from that have fr: "plans_readable fj ps ?new" "fr = fresh_plans ps ?new"
      unfolding read_scope_plans_iff [OF keyed] fresh_plans_def by simp_all
    note pairs = fresh_plans(1) [OF keyed, of ?new, folded fr(2)]
    have "distinct (map fst fr)" unfolding fr(2) using keyed by (rule fresh_plans(2))
    moreover have "p_descriptor q = d" if "(k, d) \<in> set fr" "q \<in> set ps" "p_attempt q = k" for k d q
    proof -
      from that(1) obtain p where "p \<in> set ps" "k = p_attempt p" "d = p_descriptor p" unfolding pairs plan_pairs_def by auto
      with that(2,3) show ?thesis using keyed_unique [OF keyed] by metis
    qed
    moreover have "plan_fits fj d" if "(k, d) \<in> set fr" for k d
      using fr(1) that unfolding pairs plans_readable_def by force
    ultimately show ?thesis unfolding cache_right_def by blast
  qed
  have step: "snd (parsed_scope_plans fj ps ks c) \<in> {c, c'} \<union> {remember fj fr c' |fr. read_scope_plans fj ps ?new = Inr fr}"
    unfolding parsed_scope_plans_def Let_def rem by (auto split: sum.splits)
  then show "cache_right fj ps (snd (parsed_scope_plans fj ps ks c))"
    using right c'(1) remember_right [OF c'(1) fresh] by auto
  show "cache_bounded fj (snd (parsed_scope_plans fj ps ks c))" if "cache_bounded fj c"
    using step that same evict_bounded by (auto simp: cache_bounded_def remember_def)
qed

text \<open>C39: Remembering plans never shows.  Whatever the process has read before, a call succeeds exactly when
it would with an empty memory, and then for every attempt gives the very descriptor its plan row
has; the memory stays right, and within its two bounds.\<close>

theorem plan_memory_does_not_show:
  assumes "keyed p_attempt ps" "cache_right fj ps c" "cache_bounded fj c"
    and "parsed_scope_plans fj ps ks c = (r, c')"
  shows "(case (r, fst (parsed_scope_plans fj ps ks [])) of
      (Inr xs, Inr ys) \<Rightarrow> map_of xs = map_of ys
        \<and> (\<forall>k\<in>set ks. map_of xs k = map_option p_descriptor (row_of p_attempt k ps))
    | (Inl _, Inl _) \<Rightarrow> True | _ \<Rightarrow> False)
    \<and> cache_right fj ps c' \<and> cache_bounded fj c'"
proof -
  have empty: "cache_right fj ps []" by (simp add: cache_right_def)
  have r: "r = fst (parsed_scope_plans fj ps ks c)" "c' = snd (parsed_scope_plans fj ps ks c)" using assms(4) by simp_all
  obtain f1 c1 f2 c2 where rem: "remembered (remdups ks) c = (f1, c1)" "remembered (remdups ks) [] = (f2, c2)" by fastforce
  have some: "(\<exists>xs. r = Inr xs) \<longleftrightarrow> (\<exists>ys. fst (parsed_scope_plans fj ps ks []) = Inr ys)"
    unfolding r(1) parsed_scope_plans_iff [OF assms(1,2) rem(1)] parsed_scope_plans_iff [OF assms(1) empty rem(2)] by simp
  have look: "map_of xs = map_of ys \<and> (\<forall>k\<in>set ks. map_of xs k = map_option p_descriptor (row_of p_attempt k ps))"
    if "r = Inr xs" "fst (parsed_scope_plans fj ps ks []) = Inr ys" for xs ys
  proof -
    have xs: "set xs = plan_pairs ps ks" "distinct (map fst xs)" using parsed_plans_are [OF assms(1,2)] that(1) r(1) by simp_all
    have ys: "set ys = plan_pairs ps ks" "distinct (map fst ys)" using parsed_plans_are [OF assms(1) empty that(2)] by simp_all
    have "map_of xs k = map_option p_descriptor (row_of p_attempt k ps)" if k: "k \<in> set ks" for k
    proof (cases "row_of p_attempt k ps")
      case None
      then have "k \<notin> fst ` set xs" by (auto simp: xs(1) plan_pairs_def row_of_None_iff)
      then show ?thesis using None by (simp add: map_of_eq_None_iff)
    next
      case (Some p)
      from row_of_SomeD [OF this] k have "(k, p_descriptor p) \<in> set xs" by (auto simp: xs(1) plan_pairs_def)
      then show ?thesis using Some xs(2) by simp
    qed
    then show ?thesis using xs ys by (simp add: map_of_inject_set)
  qed
  have "cache_right fj ps c'" "cache_bounded fj c'"
    unfolding r(2) using parsed_cache [OF assms(1,2)] assms(3) by blast+
  moreover have "case (r, fst (parsed_scope_plans fj ps ks [])) of
      (Inr xs, Inr ys) \<Rightarrow> map_of xs = map_of ys
        \<and> (\<forall>k\<in>set ks. map_of xs k = map_option p_descriptor (row_of p_attempt k ps))
    | (Inl _, Inl _) \<Rightarrow> True | _ \<Rightarrow> False"
  proof (cases r)
    case (Inl e)
    then show ?thesis using some by (cases "fst (parsed_scope_plans fj ps ks [])") auto
  next
    case (Inr xs)
    with some obtain ys where ys: "fst (parsed_scope_plans fj ps ks []) = Inr ys" by blast
    from look [OF Inr ys] show ?thesis unfolding Inr ys prod.case sum.case .
  qed
  ultimately show ?thesis by blast
qed


subsection \<open>What a selection shows\<close>

lemma first_error_None: "first_error f xs = None \<longleftrightarrow> (\<forall>x\<in>set xs. f x = None)"
  by (induction xs) (auto split: option.splits)

text \<open>An approval the readers may show: its place, anchor and plan are those it was approved with.\<close>

definition showable ::
  "head_env \<Rightarrow> export_db \<Rightarrow> source list \<Rightarrow> location_row list \<Rightarrow> instant \<Rightarrow> approval \<Rightarrow> bool" where
  "showable env db wanted locs now a \<longleftrightarrow>
     (case a of (i, g) \<Rightarrow> i \<in> set (inventory db) \<and> ap_source a \<in> set wanted
       \<and> row_of g_id (i_generation i) (generations db) = Some g
       \<and> in_catalog locs i \<and> \<not> part_expired now i)"

definition backed_by_plan :: "head_env \<Rightarrow> export_db \<Rightarrow> location_row list \<Rightarrow> approval \<Rightarrow> bool" where
  "backed_by_plan env db locs a \<longleftrightarrow>
     (case a of (i, g) \<Rightarrow> \<exists>l p. row_of lo_id (i_location i) locs = Some l \<and> row_of p_attempt (g_attempt g) (plans db) = Some p
       \<and> descriptor_namespace (he_sha256 env) (he_float env) (p_descriptor p) = i_namespace i
       \<and> anchor_ok (p_descriptor p) l \<and> same_place (p_descriptor p) i l)"

lemma selected_rows_set:
  assumes "length (selected_rows wanted db) \<le> MAX_SELECTED_ROWS"
  shows "set (selected_rows wanted db) =
    {(i, g). i \<in> set (inventory db) \<and> (i_provider i, i_dataset i) \<in> set wanted \<and> row_of g_id (i_generation i) (generations db) = Some g}"
proof -
  define rows where "rows = sort_key (\<lambda>a. (ap_source a, i_location (fst a)))
       (List.map_filter (\<lambda>i. if (i_provider i, i_dataset i) \<in> set wanted
          then map_option (Pair i) (row_of g_id (i_generation i) (generations db)) else None) (inventory db))"
  have "take (MAX_SELECTED_ROWS + 1) rows = rows"
    using assms by (simp add: selected_rows_def rows_def [symmetric])
  then have "selected_rows wanted db = rows" by (simp add: selected_rows_def rows_def [symmetric])
  then show ?thesis by (auto simp: rows_def map_filter_set split: if_splits)
qed

lemma unexpired_rows:
  assumes keyed: "keyed i_pk (inventory db)" and len: "length (selected_rows wanted db) \<le> MAX_SELECTED_ROWS"
  shows "set (filter (in_catalog locs \<circ> fst) (unexpired now locs (selected_rows wanted db))) = {a. showable env db wanted locs now a}"
proof -
  have gone: "i_pk i \<in> i_pk ` set (expired_rows now locs (selected_rows wanted db)) \<longleftrightarrow> part_expired now i"
    if i: "i \<in> set (inventory db)" "in_catalog locs i" "(i_provider i, i_dataset i) \<in> set wanted"
      "row_of g_id (i_generation i) (generations db) = Some g" for i g
  proof
    assume "i_pk i \<in> i_pk ` set (expired_rows now locs (selected_rows wanted db))"
    then obtain j where "j \<in> set (inventory db)" "i_pk j = i_pk i" "part_expired now j"
      by (auto simp: expired_rows_def selected_rows_set [OF len])
    with keyed_unique [OF keyed this(1) i(1) this(2)] show "part_expired now i" by simp
  next
    assume "part_expired now i"
    with i show "i_pk i \<in> i_pk ` set (expired_rows now locs (selected_rows wanted db))"
      by (intro imageI) (force simp: expired_rows_def selected_rows_set [OF len])
  qed
  show ?thesis
  proof (rule set_eqI)
    fix a :: approval
    obtain i g where a: "a = (i, g)" by (cases a)
    show "a \<in> set (filter (in_catalog locs \<circ> fst) (unexpired now locs (selected_rows wanted db))) \<longleftrightarrow>
        a \<in> {a. showable env db wanted locs now a}"
      unfolding a unexpired_def set_filter mem_Collect_eq selected_rows_set [OF len] showable_def ap_source_def comp_def
        fst_conv snd_conv prod.case using gone [of i g] by blast
  qed
qed

lemma approved_part_ok:
  assumes part: "approved_part env wanted optional locs now db c = (Inr ad, c')"
    and keyed: "keyed i_pk (inventory db)" "keyed p_attempt (plans db)" and right: "cache_right (he_float env) (plans db) c"
  shows "set (ad_valid ad) = {a. showable env db wanted locs now a}"
    and "a \<in> set (ad_valid ad) \<Longrightarrow> backed_by_plan env db locs a"
    and "a \<in> set (ad_valid ad) \<Longrightarrow> map_of (ad_plans ad) (g_attempt (snd a)) = map_option p_descriptor (row_of p_attempt (g_attempt (snd a)) (plans db))"
    and "s \<in> set wanted \<Longrightarrow> s \<notin> set optional \<Longrightarrow> \<exists>i\<in>set (inventory db). (i_provider i, i_dataset i) = s \<and> in_catalog locs i"
proof -
  let ?rows = "selected_rows wanted db"
  let ?live = "unexpired now locs ?rows"
  let ?seen = "filter (in_catalog locs \<circ> fst) ?live"
  let ?shown = "map (g_attempt \<circ> snd) ?seen"
  from part obtain parsed where len: "length ?rows \<le> MAX_SELECTED_ROWS"
    and parsed: "fst (parsed_scope_plans (he_float env) (plans db) (sorted_set ?shown) c) = Inr parsed"
    and checked: "first_error (approval_error env locs parsed) ?live = None"
    and ever: "set wanted - set optional \<subseteq> set (map ap_source (filter (in_catalog locs \<circ> fst) ?rows))"
    and ad: "ad = \<lparr>ad_valid = ?seen, ad_plans = parsed, ad_expired = expired_rows now locs ?rows\<rparr>"
    unfolding approved_part_def Let_def by (auto split: if_split_asm prod.splits sum.splits option.splits)
  show "set (ad_valid ad) = {a. showable env db wanted locs now a}"
    unfolding ad admitted_part.select_convs using keyed(1) len by (rule unexpired_rows)
  show "s \<in> set wanted \<Longrightarrow> s \<notin> set optional \<Longrightarrow> \<exists>i\<in>set (inventory db). (i_provider i, i_dataset i) = s \<and> in_catalog locs i"
    using ever by (force simp: selected_rows_set [OF len] ap_source_def)
  have plan: "map_of parsed (g_attempt (snd a)) = map_option p_descriptor (row_of p_attempt (g_attempt (snd a)) (plans db))"
    if "a \<in> set ?seen" for a
  proof -
    note pairs = parsed_plans_are [OF keyed(2) right parsed]
    from that have k: "g_attempt (snd a) \<in> set (sorted_set ?shown)" by auto
    show ?thesis
    proof (cases "row_of p_attempt (g_attempt (snd a)) (plans db)")
      case None
      then have "g_attempt (snd a) \<notin> fst ` set parsed" by (auto simp: pairs(1) plan_pairs_def row_of_None_iff)
      then show ?thesis using None by (simp add: map_of_eq_None_iff)
    next
      case (Some p)
      note p = row_of_SomeD [OF this]
      have "(g_attempt (snd a), p_descriptor p) \<in> set parsed"
        unfolding pairs(1) plan_pairs_def by (rule image_eqI [of _ _ p]) (use p k in simp_all)
      then show ?thesis using Some pairs(2) by simp
    qed
  qed
  then show "a \<in> set (ad_valid ad) \<Longrightarrow> map_of (ad_plans ad) (g_attempt (snd a)) = map_option p_descriptor (row_of p_attempt (g_attempt (snd a)) (plans db))"
    by (simp only: ad admitted_part.select_convs)
  show "backed_by_plan env db locs a" if "a \<in> set (ad_valid ad)"
  proof -
    obtain i g where a: "a = (i, g)" by (cases a)
    from that have seen: "a \<in> set ?seen" by (simp only: ad admitted_part.select_convs)
    then have "approval_error env locs parsed (i, g) = None" using checked a by (auto simp: first_error_None)
    moreover obtain l where "row_of lo_id (i_location i) locs = Some l" using seen a by (auto simp: in_catalog_def)
    ultimately show ?thesis
      using plan [OF seen] by (auto simp: a approval_error_def backed_by_plan_def split: option.splits if_splits)
  qed
qed

lemma all_scopes_of_set:
  "all_scopes_of parsed groups = Inr scs \<Longrightarrow> (\<forall>sc\<in>set scs. \<exists>items\<in>set groups. scope_of_group parsed items = Inr sc)
    \<and> (\<forall>items\<in>set groups. \<exists>sc\<in>set scs. scope_of_group parsed items = Inr sc)"
  by (induction groups arbitrary: scs) (auto split: sum.splits)

text \<open>The scope an approval is shown in.\<close>

definition shown_in :: "head_env \<Rightarrow> approval \<Rightarrow> approved_scope \<Rightarrow> bool" where
  "shown_in env a sc \<longleftrightarrow>
     (case a of (i, g) \<Rightarrow> i_location i \<in> set (as_locations sc) \<and> i_location i \<in> set (d_locations (as_descriptor sc))
       \<and> as_generation sc = i_generation i
       \<and> descriptor_namespace (he_sha256 env) (he_float env) (as_descriptor sc) = i_namespace i)"

lemma group_scope:
  assumes group: "items \<in> set (approved_groups (ad_valid ad))" and sc: "scope_of_group (ad_plans ad) items = Inr sc"
    and backed: "\<And>a. a \<in> set (ad_valid ad) \<Longrightarrow> backed_by_plan env db locs a"
    and plan: "\<And>a. a \<in> set (ad_valid ad) \<Longrightarrow>
      map_of (ad_plans ad) (g_attempt (snd a)) = map_option p_descriptor (row_of p_attempt (g_attempt (snd a)) (plans db))"
  shows "\<exists>n. set items = {a \<in> set (ad_valid ad). i_namespace (fst a) = n} \<and> (\<forall>a\<in>set items. shown_in env a sc)
    \<and> set (as_locations sc) = (i_location \<circ> fst) ` set items"
proof -
  from group obtain n where items: "items = filter (\<lambda>a. i_namespace (fst a) = n) (ad_valid ad)"
    by (auto simp: approved_groups_def)
  from sc obtain i g d where first: "items \<noteq> []" "fst (hd items) = i"
    and d: "map_of (ad_plans ad) (g_attempt (snd (List.last items))) = Some d"
    and same: "\<not> list_ex (\<lambda>a. i_generation (fst a) \<noteq> i_generation i) items"
    and sub: "(i_location \<circ> fst) ` set items \<subseteq> set (d_locations d)"
    and out: "as_descriptor sc = d" "as_generation sc = i_generation i" "as_locations sc = sort (map (i_location \<circ> fst) items)"
    unfolding scope_of_group_def Let_def by (auto split: option.splits if_splits)
  have last_in: "List.last items \<in> set (ad_valid ad)" "i_namespace (fst (List.last items)) = n"
    using last_in_set [OF first(1)] by (simp_all add: items)
  have "descriptor_namespace (he_sha256 env) (he_float env) d = n"
    using backed [OF last_in(1)] plan [OF last_in(1)] d last_in(2) by (auto simp: backed_by_plan_def)
  then have "shown_in env a sc" if "a \<in> set items" for a
    using that same sub out by (cases a) (force simp: shown_in_def items list_ex_iff)
  then show ?thesis using out(3) by (intro exI [of _ n]) (auto simp: items)
qed

lemma selection_parts:
  assumes "approved_source_selection env cohorts wanted optional health locs now db c = (Inr sel, c')"
  shows "\<exists>ad late. approved_part env (remdups wanted) optional locs now db c = (Inr ad, c')
    \<and> any_unconfirmed (roster_unconfirmed env cohorts health now db ad) (remdups wanted) = Inr late
    \<and> all_scopes_of (ad_plans ad) (approved_groups (ad_valid ad)) = Inr (al_scopes sel)
    \<and> al_unconfirmed sel = (unconfirmed_rows (remdups wanted) health now db (ad_valid ad) \<or> late)
    \<and> al_expired sel = map (\<lambda>i. (i_provider i, i_dataset i, i_location i)) (ad_expired ad)"
  using assms unfolding approved_source_selection_def Let_def
  by (auto split: if_split_asm prod.splits sum.splits)

text \<open>
  C36: A selection shows exactly what is approved for the locations it is asked about.  Every unexpired
  approval of a requested source whose location is in the given catalog and whose generation is in
  the table is shown, in a scope of its own generation and namespace whose plan covers the location;
  every location shown rests on such an approval; and each of them still has the place and anchor it
  was approved with.  Approvals of locations outside the catalog (disabled ones) are not shown.
\<close>

theorem selection_is_what_is_approved:
  assumes sel: "approved_source_selection env cohorts wanted optional health locs now db c = (Inr sel, c')"
    and keyed: "keyed i_pk (inventory db)" "keyed p_attempt (plans db)" and right: "cache_right (he_float env) (plans db) c"
  shows "(\<forall>a. showable env db wanted locs now a \<longrightarrow>
      backed_by_plan env db locs a \<and> (\<exists>sc\<in>set (al_scopes sel). shown_in env a sc))
    \<and> (\<forall>sc\<in>set (al_scopes sel). \<forall>k\<in>set (as_locations sc).
      \<exists>a. showable env db wanted locs now a \<and> shown_in env a sc \<and> i_location (fst a) = k)"
proof -
  from selection_parts [OF sel] obtain ad where part: "approved_part env (remdups wanted) optional locs now db c = (Inr ad, c')"
    and scopes: "all_scopes_of (ad_plans ad) (approved_groups (ad_valid ad)) = Inr (al_scopes sel)" by blast
  note ok = approved_part_ok [OF part keyed right]
  have valid: "a \<in> set (ad_valid ad) \<longleftrightarrow> showable env db wanted locs now a" for a
    unfolding ok(1) by (simp add: showable_def)
  note group = group_scope [where ad = ad, OF _ _ ok(2,3)]
  note sets = all_scopes_of_set [OF scopes]
  have "\<exists>sc\<in>set (al_scopes sel). shown_in env a sc" if a: "a \<in> set (ad_valid ad)" for a
  proof -
    have "filter (\<lambda>b. i_namespace (fst b) = i_namespace (fst a)) (ad_valid ad) \<in> set (approved_groups (ad_valid ad))"
      using a by (auto simp: approved_groups_def)
    with sets obtain sc where sc: "sc \<in> set (al_scopes sel)"
      "scope_of_group (ad_plans ad) (filter (\<lambda>b. i_namespace (fst b) = i_namespace (fst a)) (ad_valid ad)) = Inr sc"
      "filter (\<lambda>b. i_namespace (fst b) = i_namespace (fst a)) (ad_valid ad) \<in> set (approved_groups (ad_valid ad))" by blast
    from group [OF sc(3,2)] have "\<forall>b\<in>set (filter (\<lambda>b. i_namespace (fst b) = i_namespace (fst a)) (ad_valid ad)). shown_in env b sc"
      by blast
    then have "shown_in env a sc" by (rule bspec) (simp add: a)
    with sc(1) show ?thesis by blast
  qed
  moreover have "\<exists>a. a \<in> set (ad_valid ad) \<and> shown_in env a sc \<and> i_location (fst a) = k"
    if sc: "sc \<in> set (al_scopes sel)" and k: "k \<in> set (as_locations sc)" for sc k
  proof -
    from sets sc obtain items where items: "items \<in> set (approved_groups (ad_valid ad))" "scope_of_group (ad_plans ad) items = Inr sc"
      by blast
    from group [OF items] obtain n where "set items = {a \<in> set (ad_valid ad). i_namespace (fst a) = n}"
      "\<forall>a\<in>set items. shown_in env a sc" "set (as_locations sc) = (i_location \<circ> fst) ` set items" by blast
    with k obtain a where "a \<in> set items" "i_location (fst a) = k" by auto
    with items(1) \<open>\<forall>a\<in>set items. shown_in env a sc\<close> \<open>set items = _\<close> show ?thesis by blast
  qed
  ultimately show ?thesis using ok(2) by (simp add: valid)
qed

lemma any_unconfirmed_False: "any_unconfirmed f xs = Inr False \<longleftrightarrow> (\<forall>x\<in>set xs. f x = Inr False)"
  by (induction xs) (auto split: sum.splits)

subsection \<open>Who owns what is shown\<close>

text \<open>The tables give every scope at most one owner and every attempt at most one generation.\<close>

lemma keyed_one: "keyed key t \<Longrightarrow> filter (\<lambda>r. key r = k) t = [] \<or> (\<exists>r. filter (\<lambda>r. key r = k) t = [r] \<and> r \<in> set t \<and> key r = k)"
  by (induction t) (fastforce simp: keyed_def filter_empty_conv)+

lemma distinct_concat_map:
  assumes "distinct (map f xs)" "\<And>x. x \<in> set xs \<Longrightarrow> g x = [] \<or> (\<exists>y. g x = [y] \<and> h y = f x)"
  shows "distinct (map h (concat (map g xs))) \<and> h ` set (concat (map g xs)) \<subseteq> f ` set xs"
  using assms
proof (induction xs)
  case (Cons x xs)
  then have rest: "distinct (map h (concat (map g xs)))" "h ` set (concat (map g xs)) \<subseteq> f ` set xs" by simp_all
  from Cons.prems(2) [of x] consider "g x = []" | y where "g x = [y]" "h y = f x" by auto
  then show ?case
  proof cases
    case 1
    with rest show ?thesis by auto
  next
    case (2 y)
    with rest Cons.prems(1) show ?thesis by (auto simp: image_subset_iff)
  qed
qed simp

lemma active_owners_distinct:
  assumes "keyed o_scope (owners db)" "keyed g_attempt (generations db)"
  shows "distinct (map (o_scope \<circ> fst) (active_owners scopes db))"
proof -
  have "distinct (map o_scope (filter (\<lambda>own. o_scope own \<in> set scopes) (owners db)))"
    using assms(1) by (simp add: keyed_def distinct_map_filter)
  then show ?thesis unfolding active_owners_def
  proof (rule distinct_concat_map [THEN conjunct1], goal_cases)
    case (1 own)
    show ?case
    proof (cases "attempt_at (o_attempt own) db")
      case (Some a)
      then show ?thesis using keyed_one [OF assms(2), of "a_id a"] by (auto simp: Let_def)
    qed simp
  qed
qed

lemma active_ownerD:
  assumes "(own, a, g) \<in> set (active_owners scopes db)"
  shows "own \<in> set (owners db)" "o_scope own \<in> set scopes" "attempt_at (o_attempt own) db = Some a"
    "g = None \<or> (\<exists>r\<in>set (generations db). g = Some r \<and> g_attempt r = a_id a)"
  using assms by (auto simp: active_owners_def Let_def split: option.splits if_splits)

lemma owner_of_each:
  assumes "keyed o_scope (owners db)" "keyed g_attempt (generations db)"
    and "length (filter P (active_owners scopes db)) = length (remdups scopes)" "sc \<in> set scopes"
  shows "\<exists>own a g. (own, a, g) \<in> set (active_owners scopes db) \<and> P (own, a, g) \<and> o_scope own = sc"
proof -
  let ?of = "map (o_scope \<circ> fst) (filter P (active_owners scopes db))"
  have "distinct ?of" using active_owners_distinct [OF assms(1,2)] by (simp add: distinct_map_filter)
  then have "card (set ?of) = card (set scopes)" using assms(3) by (metis distinct_card length_map length_remdups_card_conv)
  moreover have "set ?of \<subseteq> set scopes" by (auto dest: active_ownerD(2))
  ultimately have "set ?of = set scopes" by (intro card_subset_eq) auto
  with assms(4) show ?thesis by force
qed

text \<open>
  An owner that is fine: the last attempt to claim the scope has not failed, and its run is under way
  or has succeeded and published.
\<close>

definition owner_fine :: "export_db \<Rightarrow> text_bytes \<Rightarrow> owner_row \<Rightarrow> attempt_row \<Rightarrow> bool" where
  "owner_fine db sc own a \<longleftrightarrow> own \<in> set (owners db) \<and> o_scope own = sc \<and> attempt_at (o_attempt own) db = Some a
     \<and> a_status a \<noteq> Failed
     \<and> (map_option sr_status (run_at (a_run a) db) = Some ''running''
        \<or> map_option sr_status (run_at (a_run a) db) = Some ''success'' \<and> (\<exists>g\<in>set (generations db). g_attempt g = a_id a))"

text \<open>The attempt still holds the epoch of the scope it was given.\<close>

definition epoch_held :: "owner_row \<Rightarrow> attempt_row \<Rightarrow> bool" where
  "epoch_held own a \<longleftrightarrow> (\<exists>es e. a_epochs a = Some es \<and> map_of es (o_scope own) = Some e
     \<and> sql_left 32 (show_int e) = show_int (o_epoch own))"

lemma not_in_trouble:
  assumes "(own, a, g) \<in> set (active_owners scopes db)" "\<not> owner_in_trouble db (own, a, g)"
  shows "owner_fine db (o_scope own) own a \<and> epoch_held own a"
  using assms(2) active_ownerD [OF assms(1)]
  by (auto simp: owner_in_trouble_def owner_fine_def epoch_held_def Let_def split: option.splits)

lemma confirmed_owner:
  assumes "\<not> unconfirmed_rows wanted health now db valid" "a \<in> set (health_rows health now valid)"
    and "keyed o_scope (owners db)" "keyed g_attempt (generations db)"
  shows "\<exists>own att. owner_fine db (i_scope (fst a)) own att \<and> epoch_held own att"
proof -
  define scopes where "scopes = remdups (map (i_scope \<circ> fst) (health_rows health now valid))"
  have trouble: "length (active_owners scopes db) = length scopes" "\<not> list_ex (owner_in_trouble db) (active_owners scopes db)"
    using assms(1) by (simp_all add: unconfirmed_rows_def Let_def scopes_def)
  have "i_scope (fst a) \<in> set scopes" using assms(2) by (force simp: scopes_def)
  moreover have "length (filter (\<lambda>_. True) (active_owners scopes db)) = length (remdups scopes)"
    using trouble(1) by (simp add: scopes_def remdups_remdups)
  ultimately obtain own att g where own: "(own, att, g) \<in> set (active_owners scopes db)" "o_scope own = i_scope (fst a)"
    using owner_of_each [OF assms(3,4)] by blast
  with trouble(2) have "\<not> owner_in_trouble db (own, att, g)" by (auto simp: list_ex_iff)
  from not_in_trouble [OF own(1) this] own(2) show ?thesis by auto
qed

subsection \<open>A confirmed selection is up to date\<close>

text \<open>
  Whom a selection has asked about its health (all locations, or those of a reader), and what a
  source that was asked must have done: the last of its runs that had to declare a roster declared
  the roster in force and succeeded, and each location of the roster that was asked about is
  approved by that run, unless its approval has left the freshness window or expired.
\<close>

definition fresh_showable ::
  "text_bytes list option \<Rightarrow> head_env \<Rightarrow> export_db \<Rightarrow> source list \<Rightarrow> location_row list \<Rightarrow> instant \<Rightarrow> approval \<Rightarrow> bool" where
  "fresh_showable health env db wanted locs now a \<longleftrightarrow> showable env db wanted locs now a
     \<and> for_health health (i_location (fst a)) \<and> counts_for_freshness (i_collected (fst a)) now"

definition asked ::
  "text_bytes list option \<Rightarrow> head_env \<Rightarrow> cohort_row list \<Rightarrow> export_db \<Rightarrow> location_row list \<Rightarrow> source list \<Rightarrow> instant \<Rightarrow> source \<Rightarrow> bool" where
  "asked health env cohorts db locs wanted now s \<longleftrightarrow>
     health = None
     \<or> (\<exists>row ds. row_of co_source s cohorts = Some row \<and> roster_of row = Inr ds
          \<and> (\<exists>d\<in>set ds. \<exists>k\<in>set (d_locations d). for_health health k))
     \<or> (\<exists>a. fresh_showable health env db wanted locs now a \<and> ap_source a = s)"

definition roster_met ::
  "text_bytes list option \<Rightarrow> head_env \<Rightarrow> cohort_row list \<Rightarrow> export_db \<Rightarrow> location_row list \<Rightarrow> source list \<Rightarrow> instant \<Rightarrow> source \<Rightarrow> bool" where
  "roster_met health env cohorts db locs wanted now s \<longleftrightarrow>
     (\<exists>row ds. row_of co_source s cohorts = Some row \<and> roster_of row = Inr ds
       \<and> latest_cohort_run (fst s) (snd s) (runs (sync db)) = Some (co_run row)
       \<and> map_option sr_status (run_at (co_run row) db) = Some ''success''
       \<and> (\<forall>d\<in>set ds. \<forall>k\<in>set (d_locations d). for_health health k \<longrightarrow>
            (\<exists>i\<in>set (inventory db). i_pk i = (fst s, snd s, k, d_source_part d) \<and> part_expired now i)
            \<or> (\<exists>a. showable env db wanted locs now a \<and> i_pk (fst a) = (fst s, snd s, k, d_source_part d)
                \<and> (counts_for_freshness (i_collected (fst a)) now \<longrightarrow>
                    i_namespace (fst a) = descriptor_namespace (he_sha256 env) (he_float env) d
                    \<and> map_option a_run (attempt_at (g_attempt (snd a)) db) = Some (co_run row)))))"

lemma confirmed_roster:
  assumes "roster_unconfirmed env cohorts health now db ad s = Inr False" "asked health env cohorts db locs wanted now s"
    and valid: "\<And>a. a \<in> set (ad_valid ad) \<longleftrightarrow> showable env db wanted locs now a"
    and gone: "set (ad_expired ad) \<subseteq> {i \<in> set (inventory db). part_expired now i}"
  shows "roster_met health env cohorts db locs wanted now s"
proof -
  have here: "list_ex (\<lambda>a. ap_source a = s) (health_rows health now (ad_valid ad))"
    if "fresh_showable health env db wanted locs now a" "ap_source a = s" for a
    unfolding list_ex_iff by (rule bexI [of _ a]) (use that valid in \<open>simp_all add: health_rows_def fresh_showable_def\<close>)
  from assms(1,2) here obtain row ds where row: "row_of co_source s cohorts = Some row" "roster_of row = Inr ds"
    by (auto simp: roster_unconfirmed_def Let_def asked_def split: option.splits sum.splits)
  with assms(1,2) here have run: "latest_cohort_run (fst s) (snd s) (runs (sync db)) = Some (co_run row)"
      "map_option sr_status (run_at (co_run row) db) = Some ''success''"
    and parts: "\<not> list_ex (\<lambda>d. list_ex (part_unapproved env health now db ad row d) (d_locations d)) ds"
    unfolding roster_unconfirmed_def Let_def asked_def
    by (auto simp: list_ex_iff split: sum.splits if_splits)
  have src: "(co_provider row, co_dataset row) = s" using row_of_SomeD [OF row(1)] by (simp add: co_source_def)
  have "(\<exists>i\<in>set (inventory db). i_pk i = (fst s, snd s, k, d_source_part d) \<and> part_expired now i)
      \<or> (\<exists>a. showable env db wanted locs now a \<and> i_pk (fst a) = (fst s, snd s, k, d_source_part d)
        \<and> (counts_for_freshness (i_collected (fst a)) now \<longrightarrow>
            i_namespace (fst a) = descriptor_namespace (he_sha256 env) (he_float env) d
            \<and> map_option a_run (attempt_at (g_attempt (snd a)) db) = Some (co_run row)))"
    if d: "d \<in> set ds" "k \<in> set (d_locations d)" "for_health health k" for d k
  proof -
    define pk where "pk = (co_provider row, co_dataset row, k, d_source_part d)"
    have pk: "pk = (fst s, snd s, k, d_source_part d)" using src by (auto simp: pk_def)
    have ok: "\<not> part_unapproved env health now db ad row d k" using parts d by (auto simp: list_ex_iff)
    show ?thesis
    proof (cases "row_of (i_pk \<circ> fst) pk (ad_valid ad)")
      case None
      with ok d(3) have "pk \<in> i_pk ` set (ad_expired ad)" by (simp add: part_unapproved_def pk_def)
      then obtain i where "i \<in> set (ad_expired ad)" "i_pk i = pk" by auto
      with gone show ?thesis unfolding pk by blast
    next
      case (Some a)
      then have "a \<in> set (ad_valid ad)" "i_pk (fst a) = pk" using row_of_SomeD [OF Some] by simp_all
      moreover have "counts_for_freshness (i_collected (fst a)) now \<longrightarrow>
          i_namespace (fst a) = descriptor_namespace (he_sha256 env) (he_float env) d
          \<and> map_option a_run (attempt_at (g_attempt (snd a)) db) = Some (co_run row)"
        using ok Some d(3) by (cases a) (auto simp: part_unapproved_def pk_def)
      ultimately show ?thesis using valid unfolding pk by blast
    qed
  qed
  with row run show ?thesis unfolding roster_met_def by blast
qed

text \<open>An approval that counts is young enough, has a live head, and its scope an owner that is fine.\<close>

definition well_kept :: "export_db \<Rightarrow> instant \<Rightarrow> approval \<Rightarrow> bool" where
  "well_kept db now a \<longleftrightarrow> now - i_collected (fst a) \<le> source_max_age (i_dataset (fst a))
     \<and> now - g_revision (snd a) \<le> source_max_age (i_dataset (fst a))
     \<and> row_of h_namespace (i_namespace (fst a)) (heads db) \<noteq> None
     \<and> (\<exists>own att. owner_fine db (i_scope (fst a)) own att \<and> epoch_held own att)"

lemma confirmed_selection:
  assumes sel: "approved_source_selection env cohorts wanted optional health locs now db c = (Inr sel, c')"
    and confirmed: "\<not> al_unconfirmed sel"
    and keyed: "keyed i_pk (inventory db)" "keyed p_attempt (plans db)" and right: "cache_right (he_float env) (plans db) c"
    and one: "keyed o_scope (owners db)" "keyed g_attempt (generations db)"
  shows "(\<forall>s\<in>set wanted. (asked health env cohorts db locs wanted now s \<longrightarrow> roster_met health env cohorts db locs wanted now s)
      \<and> (health = None \<or> (\<exists>a. showable env db wanted locs now a \<and> for_health health (i_location (fst a)) \<and> ap_source a = s) \<longrightarrow>
          (\<exists>a. fresh_showable health env db wanted locs now a \<and> ap_source a = s)))
    \<and> (\<forall>a. fresh_showable health env db wanted locs now a \<longrightarrow> well_kept db now a)"
proof -
  from selection_parts [OF sel] obtain ad late where part: "approved_part env (remdups wanted) optional locs now db c = (Inr ad, c')"
    and late: "any_unconfirmed (roster_unconfirmed env cohorts health now db ad) (remdups wanted) = Inr late"
    and flag: "al_unconfirmed sel = (unconfirmed_rows (remdups wanted) health now db (ad_valid ad) \<or> late)" by blast
  note ok = approved_part_ok [OF part keyed right]
  have valid: "a \<in> set (ad_valid ad) \<longleftrightarrow> showable env db wanted locs now a" for a
    unfolding ok(1) by (simp add: showable_def)
  have gone: "set (ad_expired ad) \<subseteq> {i \<in> set (inventory db). part_expired now i}"
    using part unfolding approved_part_def Let_def
    by (auto simp: expired_rows_def selected_rows_set split: if_split_asm prod.splits sum.splits option.splits)
  have rows: "\<not> unconfirmed_rows (remdups wanted) health now db (ad_valid ad)" and "late = False" using confirmed flag by auto
  then have rosters: "\<forall>s\<in>set wanted. roster_unconfirmed env cohorts health now db ad s = Inr False"
    using late by (simp add: any_unconfirmed_False)
  have fresh: "a \<in> set (health_rows health now (ad_valid ad)) \<longleftrightarrow> fresh_showable health env db wanted locs now a" for a
    by (auto simp: health_rows_def fresh_showable_def valid)
  have each: "\<not> list_ex (aged now) (health_rows health now (ad_valid ad))"
    "\<not> list_ex (\<lambda>a. row_of h_namespace (i_namespace (fst a)) (heads db) = None) (health_rows health now (ad_valid ad))"
    "\<not> silent_source (remdups wanted) health now (ad_valid ad)"
    using rows by (simp_all add: unconfirmed_rows_def Let_def)
  show ?thesis
  proof (intro conjI ballI allI impI, goal_cases)
    case (1 s)
    with rosters show ?case using valid gone by (intro confirmed_roster) auto
  next
    case (2 s)
    with each(3) have "s \<in> ap_source ` set (health_rows health now (ad_valid ad))"
      by (auto simp: silent_source_def Let_def list_ex_iff for_health_def valid split: option.splits)
    then show ?case using fresh by blast
  next
    case (3 a)
    then have a: "a \<in> set (health_rows health now (ad_valid ad))" by (simp add: fresh)
    with confirmed_owner [OF rows a one] each(1,2) show ?case
      by (auto simp: well_kept_def list_ex_iff aged_def not_less)
  qed
qed

text \<open>C37: A confirmed selection is up to date, for all locations or for those a reader asks about.  A
source that is asked (every requested one, when no locations are named) has declared its roster in
the last run that had to declare one; that run succeeded, and every location of the roster that was
asked about has been approved by that very run unless its approval has left the freshness window or
expired.  A requested source has an approval in the window (when locations are named: if it has
any approval that is shown for them), and each of these is younger than its source allows, has
a live head, and an owner whose attempt has neither failed nor been fenced and whose run is under
way or has published.\<close>

theorem confirmed_means_the_last_run:
  assumes sel: "approved_source_selection env cohorts wanted optional health locs now db c = (Inr sel, c')"
    and confirmed: "\<not> al_unconfirmed sel"
    and keyed: "keyed i_pk (inventory db)" "keyed p_attempt (plans db)" and right: "cache_right (he_float env) (plans db) c"
    and one: "keyed o_scope (owners db)" "keyed g_attempt (generations db)"
  shows "(\<forall>s\<in>set wanted. (asked health env cohorts db locs wanted now s \<longrightarrow> roster_met health env cohorts db locs wanted now s)
      \<and> (health = None \<or> (\<exists>a. showable env db wanted locs now a \<and> for_health health (i_location (fst a)) \<and> ap_source a = s) \<longrightarrow>
          (\<exists>a. fresh_showable health env db wanted locs now a \<and> ap_source a = s)))
    \<and> (\<forall>a. fresh_showable health env db wanted locs now a \<longrightarrow> well_kept db now a)"
  using assms by (rule confirmed_selection)

end
