(* ===== verification/Export_Freeze.thy ===== *)
theory Export_Freeze
  imports Source_Selection Export_Cursor
begin

section \<open>Freezing the approved sources into a snapshot (export_snapshots.py)\<close>

text \<open>
  The first page of an export freezes what the readers may show: a manifest of the approved
  generations and their files, and of the locations.  A manifest equal to the newest one of the
  same selection is not stored again while its snapshot lives; otherwise a snapshot with its
  references is inserted.  A reader that cannot freeze falls back to the last snapshot of its
  selection and says so.  Arguments of the model: what the address service has stored
  (\<open>fz_address\<close>, with \<open>fz_key\<close>, the key of a coordinate), fresh ids and issue numbers, the clocks.
\<close>

definition MAX_SNAPSHOT_LOCATIONS :: nat where "MAX_SNAPSHOT_LOCATIONS = 5000"
definition SNAPSHOT_TTL :: instant where "SNAPSHOT_TTL = minutes 15"
definition SOURCE_MAX_AGE :: instant where "SOURCE_MAX_AGE = hours 3"
definition SNAPSHOT_PRUNE_RETAIN :: instant where "SNAPSHOT_PRUNE_RETAIN = hours 6"
definition SNAPSHOT_PRUNE_LIMIT :: int where "SNAPSHOT_PRUNE_LIMIT = 20"

datatype freeze_error =
    Snapshot_Unavailable | Capacity_Exceeded | Snapshot_Expired | Cursor_Invalid | Guard_Timeout | Freeze_Key_Error
  | Freeze_Value_Error | Freeze_Page page_error

record address_entry =
  ae_coordinate :: text_bytes
  ae_code :: "text_bytes option"
  ae_sido :: "text_bytes option"
  ae_sigungu :: "text_bytes option"

record freeze_env =
  fz_head :: head_env
  fz_key :: "text_bytes \<Rightarrow> rat \<Rightarrow> rat \<Rightarrow> text_bytes"
  fz_address :: "text_bytes \<Rightarrow> address_entry option"

abbreviation fz_sha :: "freeze_env \<Rightarrow> text_bytes \<Rightarrow> text_bytes" where "fz_sha env \<equiv> he_sha256 (fz_head env)"
abbreviation fz_float :: "freeze_env \<Rightarrow> rat \<Rightarrow> json" where "fz_float env \<equiv> he_float (fz_head env)"

text \<open>A reader: the providers it shows, or the sources of the inventory it asks for.\<close>

record reader =
  rd_providers :: "text_bytes list"
  rd_inventory :: bool
  rd_expected :: "source list"
  rd_optional :: "source list"

definition KMA :: text_bytes where "KMA = ''python-kma-api''"

definition pairs_json :: "source list \<Rightarrow> json" where
  "pairs_json ss = JArr (map (\<lambda>(p, d). json_strings [p, d]) (sort ss))"

definition current_selection :: "freeze_env \<Rightarrow> reader \<Rightarrow> selection option" where
  "current_selection env rd =
     (if rd_inventory rd then
        Some \<lparr>sl_kind = ''current'', sl_providers = rd_providers rd, sl_inventory = True,
          sl_signature = Some (json_digest (fz_sha env) (JArr [json_strings (rd_providers rd), pairs_json (rd_expected rd),
            pairs_json (rd_optional rd), JInt 1]))\<rparr>
      else if rd_providers rd = [KMA] then None
      else Some \<lparr>sl_kind = ''current'', sl_providers = rd_providers rd, sl_inventory = False,
             sl_signature = Some (json_digest (fz_sha env) (json_strings (rd_providers rd)))\<rparr>)"

subsection \<open>The manifest as JSON\<close>

definition ref_json :: "ref_row \<Rightarrow> json" where
  "ref_json r = JObj [(''generation_id'', JStr (r_generation r)), (''ordinal'', JInt (int (r_ordinal r))),
     (''artifact_digest'', JStr (r_digest r)), (''byte_count'', JInt (r_bytes r)), (''point_count'', JInt (r_points r)),
     (''location_ids'', json_option json_strings (r_locations r))]"

definition scope_json :: "manifest_scope \<Rightarrow> json" where
  "scope_json m =
     JObj ([(''namespace'', JStr (mn_namespace m)), (''generation_id'', JStr (mn_generation m)),
       (''source_scope'', JStr (mn_source_scope m)), (''nx'', json_option (JInt \<circ> fst) (mn_grid m)),
       (''ny'', json_option (JInt \<circ> snd) (mn_grid m)), (''provider'', JStr (mn_provider m)),
       (''forecast_style'', JStr (mn_style m)), (''location_ids'', json_strings (mn_locations m)),
       (''refs'', JArr (map ref_json (mn_refs m)))]
      @ (case mn_approval m of
           None \<Rightarrow> []
         | Some a \<Rightarrow> [(''approved_location_ids'', json_strings (ma_approved a)), (''dataset_key'', JStr (ma_dataset a)),
             (''source_collected_at'', JStr (iso_utc (ma_collected a))), (''data_revision_at'', JStr (iso_utc (ma_revision a)))]))"

definition shown_json :: "(rat \<Rightarrow> json) \<Rightarrow> shown_location \<Rightarrow> json" where
  "shown_json float_json l =
     JObj [(''location_id'', JStr (sh_id l)), (''name'', JStr (sh_name l)), (''latitude'', float_json (sh_latitude l)),
       (''longitude'', float_json (sh_longitude l)), (''legal_dong_code'', json_option JStr (sh_legal_dong l)),
       (''sido_name'', json_option JStr (sh_sido l)), (''sigungu_name'', json_option JStr (sh_sigungu l))]"

definition selection_json :: "selection \<Rightarrow> json" where
  "selection_json s =
     JObj ([(''kind'', JStr (sl_kind s))]
       @ (case sl_signature s of
            None \<Rightarrow> []
          | Some sig \<Rightarrow> [(''signature'', JStr sig), (''providers'', json_strings (sl_providers s))]
              @ (if sl_inventory s then [(''source_inventory'', JInt 1)] else [])))"

definition of_locations :: "manifest \<Rightarrow> bool" where
  "of_locations m \<longleftrightarrow> (case mf_selection m of None \<Rightarrow> False | Some s \<Rightarrow> sl_kind s = ''locations'')"

definition manifest_json :: "(rat \<Rightarrow> json) \<Rightarrow> manifest \<Rightarrow> json" where
  "manifest_json float_json m =
     JObj ((if of_locations m then [] else [(''schema'', JInt 1), (''scopes'', JArr (map scope_json (mf_scopes m)))])
       @ [(''locations'', JArr (map (shown_json float_json) (mf_locations m)))]
       @ (case mf_unconfirmed m of None \<Rightarrow> [] | Some b \<Rightarrow> [(''unconfirmed_sources'', JBool b)])
       @ (case mf_selection m of None \<Rightarrow> [] | Some s \<Rightarrow> [(''selection'', selection_json s)])
       @ (if mf_limited m then [(''capacity_limited'', JBool True)] else []))"

definition page_scope_of :: "manifest_scope \<Rightarrow> page_scope" where
  "page_scope_of m =
     \<lparr>ps_provider = mn_provider m, ps_style = mn_style m, ps_selected = mn_locations m,
      ps_approved = (case mn_approval m of None \<Rightarrow> mn_locations m | Some a \<Rightarrow> ma_approved a),
      ps_refs = map (\<lambda>r. (r_digest r, r_bytes r, r_points r)) (mn_refs m)\<rparr>"

subsection \<open>The scopes of a reader\<close>

record frozen_scope =
  fs_descriptor :: descriptor
  fs_generation :: text_bytes
  fs_collected :: instant
  fs_revision :: instant
  fs_locations :: "text_bytes list"

definition location_grid :: "location_row \<Rightarrow> (int \<times> int) option" where
  "location_grid l = (case (lo_nx l, lo_ny l) of (Some x, Some y) \<Rightarrow> Some (x, y) | _ \<Rightarrow> None)"

definition grid_descriptor :: "location_row list \<Rightarrow> int \<times> int \<Rightarrow> descriptor" where
  "grid_descriptor locs g =
     Grid_Scope \<lparr>gs_dataset = ''kma_ultra_short_nowcast'', gs_entity_type = ''weather_response'',
       gs_entity_id = ''grid:'' @ show_int (fst g) @ '':'' @ show_int (snd g), gs_style = ''nowcast'',
       gs_nx = fst g, gs_ny = snd g, gs_locations = sort (map lo_id (filter (\<lambda>l. location_grid l = Some g) locs)),
       gs_normalizer = ''kma-v1'', gs_winner = ''kma-base-v1'', gs_coverage = ''kma-grid-nowcast-v1''\<rparr>"

definition kma_descriptors :: "location_row list \<Rightarrow> freeze_error + descriptor list" where
  "kma_descriptors locs =
     (if list_ex (\<lambda>l. location_grid l = None) locs then Inl Snapshot_Unavailable
      else let ds = map (grid_descriptor locs) (sorted_set (List.map_filter location_grid locs))
        in if list_all descriptor_ok ds then Inr ds else Inl Freeze_Value_Error)"

definition head_scope :: "freeze_env \<Rightarrow> head_row list \<Rightarrow> descriptor \<Rightarrow> frozen_scope option" where
  "head_scope env hs d =
     map_option (\<lambda>h. \<lparr>fs_descriptor = d, fs_generation = h_generation h, fs_collected = h_collected h,
         fs_revision = h_revision h, fs_locations = d_locations d\<rparr>)
       (row_of h_namespace (descriptor_namespace (fz_sha env) (fz_float env) d) hs)"

definition head_scopes :: "freeze_env \<Rightarrow> reader \<Rightarrow> cohort_row list \<Rightarrow> location_row list \<Rightarrow> export_db \<Rightarrow> freeze_error + frozen_scope list" where
  "head_scopes env rd cohorts locs db =
     (case (if KMA \<in> set (rd_providers rd) then kma_descriptors locs else Inr []) of
        Inl e \<Rightarrow> Inl e
      | Inr kma \<Rightarrow>
          (let external = filter (\<lambda>p. p \<noteq> KMA) (rd_providers rd) in
           case (if external = [] then Inr []
                 else selected_external_descriptors (fz_sha env) (fz_float env) cohorts db locs external False) of
             Inl e \<Rightarrow> Inl Snapshot_Unavailable
           | Inr others \<Rightarrow>
               let ds = kma @ others;
                   names = map (descriptor_namespace (fz_sha env) (fz_float env)) ds;
                   found = filter (\<lambda>h. h_namespace h \<in> set names) (heads db)
               in if length ds > MAX_SOURCE_SCOPES \<or> length found \<noteq> length ds then Inl Snapshot_Unavailable
                  else if list_ex (\<lambda>d. head_scope env found d = None) ds then Inl Freeze_Key_Error
                  else Inr (List.map_filter (head_scope env found) ds)))"

definition approved_frozen :: "approved_scope \<Rightarrow> frozen_scope" where
  "approved_frozen s =
     \<lparr>fs_descriptor = as_descriptor s, fs_generation = as_generation s, fs_collected = as_collected s,
      fs_revision = as_revision s, fs_locations = as_locations s\<rparr>"

text \<open>\<open>_select_current_scopes\<close>: the scopes and, for an inventory reader, whether they are unconfirmed.\<close>

definition select_current_scopes ::
  "freeze_env \<Rightarrow> reader \<Rightarrow> cohort_row list \<Rightarrow> location_row list \<Rightarrow> instant \<Rightarrow> export_db \<Rightarrow> plan_cache \<Rightarrow>
   (freeze_error + (frozen_scope list \<times> bool)) \<times> plan_cache" where
  "select_current_scopes env rd cohorts locs now db c =
     (if rd_inventory rd then
        (case approved_source_selection (fz_head env) cohorts (rd_expected rd) (rd_optional rd) None locs now db c of
           (Inl e, c') \<Rightarrow> (Inl Snapshot_Unavailable, c')
         | (Inr sel, c') \<Rightarrow> (Inr (map approved_frozen (al_scopes sel), al_unconfirmed sel), c'))
      else (case head_scopes env rd cohorts locs db of
              Inl e \<Rightarrow> (Inl e, c) | Inr scopes \<Rightarrow> (Inr (scopes, False), c)))"

subsection \<open>Their files (export_capacity.py, read_generation_refs)\<close>

definition ref_bytes :: "ref_row \<Rightarrow> nat" where
  "ref_bytes r = length (encode (ref_json r))"

definition read_generation_refs :: "text_bytes list \<Rightarrow> export_db \<Rightarrow> freeze_error + ref_row list" where
  "read_generation_refs generation_ids db =
     (let ids = remdups generation_ids;
          rows = take (MAX_GENERATION_REFS + 1) (sort_key (\<lambda>r. (r_generation r, r_ordinal r))
            (filter (\<lambda>r. r_generation r \<in> set ids) (refs db)))
      in if length ids > MAX_SOURCE_SCOPES then Inl Capacity_Exceeded
         else if length rows > MAX_GENERATION_REFS
              \<or> list_ex (\<lambda>r. ascii_size (json_option json_strings (r_locations r)) > MAX_REF_LOCATION_BYTES
                  \<or> ref_bytes r > MAX_REF_LOCATION_BYTES + 512) rows
              \<or> sum_list (map ref_bytes rows) > MAX_MANIFEST_BYTES
         then Inl Capacity_Exceeded else Inr rows)"

definition refs_of :: "text_bytes \<Rightarrow> ref_row list \<Rightarrow> ref_row list" where
  "refs_of generation rs = filter (\<lambda>r. r_generation r = generation) rs"

definition MAX_GENERATION_FILES :: nat where "MAX_GENERATION_FILES = 8"
definition MAX_GENERATION_BYTES :: int where "MAX_GENERATION_BYTES = 16 * 1024 * 1024"

definition refs_within :: "ref_row list \<Rightarrow> bool" where
  "refs_within rs \<longleftrightarrow> rs \<noteq> [] \<and> length rs \<le> MAX_GENERATION_FILES \<and> sum_list (map r_bytes rs) \<le> MAX_GENERATION_BYTES"

definition grid_of_descriptor :: "descriptor \<Rightarrow> (int \<times> int) option" where
  "grid_of_descriptor d = (case d of Grid_Scope g \<Rightarrow> Some (gs_nx g, gs_ny g) | _ \<Rightarrow> None)"

definition manifest_scope_of :: "freeze_env \<Rightarrow> reader \<Rightarrow> ref_row list \<Rightarrow> frozen_scope \<Rightarrow> manifest_scope" where
  "manifest_scope_of env rd rs s =
     \<lparr>mn_namespace = descriptor_namespace (fz_sha env) (fz_float env) (fs_descriptor s),
      mn_generation = fs_generation s, mn_source_scope = d_source_scope (fz_sha env) (fs_descriptor s),
      mn_grid = grid_of_descriptor (fs_descriptor s), mn_provider = d_provider (fs_descriptor s),
      mn_style = d_style (fs_descriptor s), mn_locations = fs_locations s, mn_refs = rs,
      mn_approval = (if rd_inventory rd then Some \<lparr>ma_approved = d_locations (fs_descriptor s),
         ma_dataset = d_dataset (fs_descriptor s), ma_collected = fs_collected s, ma_revision = fs_revision s\<rparr> else None)\<rparr>"

text \<open>Each scope is checked, then added to the budget; the first error ends it.\<close>

fun manifest_scopes ::
  "freeze_env \<Rightarrow> reader \<Rightarrow> ref_row list \<Rightarrow> nat \<Rightarrow> frozen_scope list \<Rightarrow> freeze_error + (manifest_scope list \<times> nat)" where
  "manifest_scopes env rd rs used [] = Inr ([], used)"
| "manifest_scopes env rd rs used (s # ss) =
     (let own = refs_of (fs_generation s) rs; m = manifest_scope_of env rd own s;
          used' = used + length (encode (scope_json m))
      in if \<not> refs_within own then Inl Snapshot_Unavailable
         else if used' > MAX_MANIFEST_BYTES then Inl Capacity_Exceeded
         else (case manifest_scopes env rd rs used' ss of
                 Inl e \<Rightarrow> Inl e | Inr (ms, final) \<Rightarrow> Inr (m # ms, final)))"

definition dong_code_ok :: "text_bytes \<Rightarrow> bool" where
  "dong_code_ok s \<longleftrightarrow> length s = 10 \<and> list_all is_digit s"

text \<open>An address kept for another coordinate of the location is not shown.\<close>

definition shown_location_of :: "freeze_env \<Rightarrow> location_row \<Rightarrow> shown_location" where
  "shown_location_of env l =
     (let entry = (case fz_address env (lo_id l) of
            None \<Rightarrow> None
          | Some a \<Rightarrow> if ae_coordinate a \<noteq> fz_key env (lo_id l) (lo_longitude l) (lo_latitude l) then None else Some a)
      in \<lparr>sh_id = lo_id l, sh_name = lo_name l, sh_latitude = lo_latitude l, sh_longitude = lo_longitude l,
          sh_legal_dong = (case entry of None \<Rightarrow> None | Some a \<Rightarrow>
             (case ae_code a of Some s \<Rightarrow> if dong_code_ok s then Some s else None | None \<Rightarrow> None)),
          sh_sido = (case entry of None \<Rightarrow> None | Some a \<Rightarrow> ae_sido a),
          sh_sigungu = (case entry of None \<Rightarrow> None | Some a \<Rightarrow> ae_sigungu a)\<rparr>)"

subsection \<open>Freezing\<close>

definition enabled_roster :: "export_db \<Rightarrow> location_row list" where
  "enabled_roster db = take (MAX_SNAPSHOT_LOCATIONS + 1) (sort_key lo_id (filter lo_enabled (locations db)))"

definition freshness :: "instant \<Rightarrow> frozen_scope list \<Rightarrow> instant \<times> instant" where
  "freshness now ss =
     (let near = filter (\<lambda>s. counts_for_freshness (fs_collected s) now) ss; fresh = (if near = [] then ss else near)
      in (Min (set (map fs_collected fresh)), Min (set (map fs_revision fresh))))"

definition same_selection :: "freeze_env \<Rightarrow> reader \<Rightarrow> snapshot_row \<Rightarrow> bool" where
  "same_selection env rd row \<longleftrightarrow>
     (case current_selection env rd of
        None \<Rightarrow> mf_selection (sn_manifest row) = None
      | Some s \<Rightarrow> (case mf_selection (sn_manifest row) of
          None \<Rightarrow> False | Some t \<Rightarrow> sl_signature t \<noteq> None \<and> sl_signature t = sl_signature s))"

definition newest :: "snapshot_row list \<Rightarrow> snapshot_row option" where
  "newest rows = (case rev (sort_key sn_order rows) of [] \<Rightarrow> None | r # _ \<Rightarrow> Some r)"

lemma newest_in: "newest rows = Some r \<Longrightarrow> r \<in> set rows"
  by (auto simp: newest_def split: list.splits dest!: arg_cong [where f = set])

text \<open>The manifest for now, with the ages it carries.\<close>

definition build_manifest ::
  "freeze_env \<Rightarrow> reader \<Rightarrow> cohort_row list \<Rightarrow> instant \<Rightarrow> export_db \<Rightarrow> plan_cache \<Rightarrow>
   (freeze_error + (manifest \<times> frozen_scope list)) \<times> plan_cache" where
  "build_manifest env rd cohorts now db c =
     (let locs = enabled_roster db in
      if locs = [] \<or> length locs > MAX_SNAPSHOT_LOCATIONS then (Inl Snapshot_Unavailable, c)
      else case select_current_scopes env rd cohorts locs now db c of
        (Inl e, c') \<Rightarrow> (Inl e, c')
      | (Inr (scopes, unconfirmed), c') \<Rightarrow>
          (case read_generation_refs (map fs_generation scopes) db of
             Inl e \<Rightarrow> (Inl e, c')
           | Inr rs \<Rightarrow>
               (case manifest_scopes env rd rs 0 scopes of
                  Inl e \<Rightarrow> (Inl e, c')
                | Inr (ms, used) \<Rightarrow>
                    (let shown = map (shown_location_of env) locs;
                         m = \<lparr>mf_scopes = ms, mf_locations = shown,
                              mf_unconfirmed = (if rd_inventory rd then Some unconfirmed else None),
                              mf_selection = current_selection env rd, mf_limited = False\<rparr>
                     in if used + sum_list (map (length \<circ> encode \<circ> shown_json (fz_float env)) shown) > MAX_MANIFEST_BYTES
                           \<or> length (encode (manifest_json (fz_float env) m)) > MAX_MANIFEST_BYTES - MANIFEST_STATE_RESERVE
                        then (Inl Capacity_Exceeded, c')
                        else (Inr (m, scopes), c')))))"

record frozen =
  fr_row :: snapshot_row
  fr_reused :: bool
  fr_unconfirmed :: bool

definition snapshot_refs_for :: "text_bytes \<Rightarrow> manifest \<Rightarrow> snapshot_ref_row list" where
  "snapshot_refs_for i m =
     map (\<lambda>(n, s). \<lparr>sr_snapshot = i, sr_ordinal = n, sr_generation = mn_generation s\<rparr>)
       (enumerate 0 (mf_scopes m))"

definition insert_snapshot :: "snapshot_row \<Rightarrow> export_db \<Rightarrow> export_db" where
  "insert_snapshot row db =
     db\<lparr>snapshots := snapshots db @ [row],
        snapshot_refs := snapshot_refs db @ snapshot_refs_for (sn_id row) (sn_manifest row)\<rparr>"

text \<open>The snapshot with this digest that may be used again: alive, and the newest of its selection.\<close>

definition reusable :: "freeze_env \<Rightarrow> reader \<Rightarrow> instant \<Rightarrow> text_bytes \<Rightarrow> export_db \<Rightarrow> snapshot_row option" where
  "reusable env rd now digest db =
     (case newest (filter (\<lambda>r. sn_digest r = digest \<and> sn_expires r > now) (snapshots db)) of
        None \<Rightarrow> None
      | Some r \<Rightarrow>
          if list_ex (\<lambda>s. sn_order s > sn_order r \<and> same_selection env rd s) (snapshots db) then None else Some r)"

definition freeze ::
  "freeze_env \<Rightarrow> reader \<Rightarrow> cohort_row list \<Rightarrow> instant \<Rightarrow> text_bytes \<Rightarrow> int \<Rightarrow> export_db \<Rightarrow> plan_cache \<Rightarrow>
   (freeze_error + (frozen \<times> export_db)) \<times> plan_cache" where
  "freeze env rd cohorts now new_id order db c =
     (case build_manifest env rd cohorts now db c of
        (Inl e, c') \<Rightarrow> (Inl e, c')
      | (Inr (m, scopes), c') \<Rightarrow>
          (let digest = json_digest (fz_sha env) (manifest_json (fz_float env) m) in
           case reusable env rd now digest db of
             Some r \<Rightarrow> (Inr (\<lparr>fr_row = r, fr_reused = True, fr_unconfirmed = False\<rparr>, db), c')
           | None \<Rightarrow>
               (let row = \<lparr>sn_id = new_id, sn_order = order, sn_digest = digest, sn_manifest = m,
                      sn_collected = Some (fst (freshness now scopes)), sn_revision = snd (freshness now scopes),
                      sn_created = now, sn_expires = now + SNAPSHOT_TTL\<rparr>
                in (Inr (\<lparr>fr_row = row, fr_reused = False, fr_unconfirmed = False\<rparr>, insert_snapshot row db), c'))))"

subsection \<open>Falling back\<close>

definition again :: "instant \<Rightarrow> text_bytes \<Rightarrow> int \<Rightarrow> snapshot_row \<Rightarrow> snapshot_row" where
  "again now new_id order r = r\<lparr>sn_id := new_id, sn_order := order, sn_created := now, sn_expires := now + SNAPSHOT_TTL\<rparr>"

definition previous_success ::
  "freeze_env \<Rightarrow> reader \<Rightarrow> instant \<Rightarrow> text_bytes \<Rightarrow> int \<Rightarrow> export_db \<Rightarrow> freeze_error + (frozen \<times> export_db)" where
  "previous_success env rd now new_id order db =
     (case newest (filter (same_selection env rd) (snapshots db)) of
        None \<Rightarrow> Inl Snapshot_Unavailable
      | Some r \<Rightarrow>
          if sn_expires r > now then Inr (\<lparr>fr_row = r, fr_reused = True, fr_unconfirmed = True\<rparr>, db)
          else Inr (\<lparr>fr_row = again now new_id order r, fr_reused = False, fr_unconfirmed = True\<rparr>,
                 insert_snapshot (again now new_id order r) db))"

definition capacity_fallback ::
  "freeze_env \<Rightarrow> instant \<Rightarrow> text_bytes \<Rightarrow> int \<Rightarrow> frozen \<Rightarrow> export_db \<Rightarrow> freeze_error + (frozen \<times> export_db)" where
  "capacity_fallback env now new_id order f db =
     (if mf_limited (sn_manifest (fr_row f)) then Inr (f, db)
      else
        let m = (sn_manifest (fr_row f))\<lparr>mf_limited := True\<rparr>;
            row = (again now new_id order (fr_row f))\<lparr>sn_manifest := m,
                sn_digest := json_digest (fz_sha env) (manifest_json (fz_float env) m)\<rparr>
        in if length (encode (manifest_json (fz_float env) m)) > MAX_MANIFEST_BYTES then Inl Capacity_Exceeded
           else Inr (\<lparr>fr_row = row, fr_reused = False, fr_unconfirmed = False\<rparr>, insert_snapshot row db))"

text \<open>
  What one issue draws: three transactions at most, each with its clock, id and issue number, and
  what other transactions do between them (\<open>is_other\<close>).
\<close>

record issue_draws =
  is_now :: "nat \<Rightarrow> instant"
  is_id :: "nat \<Rightarrow> text_bytes"
  is_order :: "nat \<Rightarrow> int"
  is_other :: "nat \<Rightarrow> export_db \<Rightarrow> export_db"

definition issue_snapshot ::
  "freeze_env \<Rightarrow> reader \<Rightarrow> cohort_row list \<Rightarrow> issue_draws \<Rightarrow> export_db \<Rightarrow> plan_cache \<Rightarrow>
   (freeze_error + frozen) \<times> export_db \<times> plan_cache" where
  "issue_snapshot env rd cohorts dr db c =
     (let previous = (\<lambda>d. previous_success env rd (is_now dr 1) (is_id dr 1) (is_order dr 1) (is_other dr 1 d)) in
      case freeze env rd cohorts (is_now dr 0) (is_id dr 0) (is_order dr 0) db c of
        (Inr (f, db'), c') \<Rightarrow> (Inr f, db', c')
      | (Inl Snapshot_Unavailable, c') \<Rightarrow>
          (case previous db of Inl e \<Rightarrow> (Inl e, is_other dr 1 db, c') | Inr (f, db') \<Rightarrow> (Inr f, db', c'))
      | (Inl Capacity_Exceeded, c') \<Rightarrow>
          (case previous db of
             Inl e \<Rightarrow> (Inl e, is_other dr 1 db, c')
           | Inr (f, db') \<Rightarrow>
               (case capacity_fallback env (is_now dr 2) (is_id dr 2) (is_order dr 2) f (is_other dr 2 db') of
                  Inl e \<Rightarrow> (Inl e, is_other dr 2 db', c') | Inr (f', db'') \<Rightarrow> (Inr f', db'', c')))
      | (Inl e, c') \<Rightarrow> (Inl e, db, c'))"

text \<open>\<open>ensure_snapshot_files\<close>: three issues at most; \<open>dirs\<close> is the directory at each check.\<close>

definition frozen_refs :: "frozen \<Rightarrow> (text_bytes \<times> int) list" where
  "frozen_refs f = map (\<lambda>r. (r_digest r, r_bytes r)) (concat (map mn_refs (mf_scopes (sn_manifest (fr_row f)))))"

fun ensure_snapshot_files ::
  "(nat \<Rightarrow> 's \<Rightarrow> (freeze_error + frozen) \<times> 's) \<Rightarrow> (nat \<Rightarrow> directory) \<Rightarrow> nat \<Rightarrow> nat \<Rightarrow> 's \<Rightarrow> (freeze_error + frozen) \<times> 's" where
  "ensure_snapshot_files issue dirs 0 n s =
     (case issue n s of (Inl e, s') \<Rightarrow> (Inl e, s') | (Inr f, s') \<Rightarrow> (Inl Guard_Timeout, s'))"
| "ensure_snapshot_files issue dirs (Suc left) n s =
     (case issue n s of
        (Inl e, s') \<Rightarrow> (Inl e, s')
      | (Inr f, s') \<Rightarrow>
          if store_all_present (dirs n) (frozen_refs f) then (Inr f, s')
          else ensure_snapshot_files issue dirs left (Suc n) s')"

subsection \<open>Renewal and pruning\<close>

text \<open>\<open>fails\<close>: the update meets a database error and is left out.\<close>

definition renew_reused :: "bool \<Rightarrow> instant \<Rightarrow> frozen \<Rightarrow> export_db \<Rightarrow> frozen \<times> export_db" where
  "renew_reused fails now f db =
     (if \<not> fr_reused f \<or> fails then (f\<lparr>fr_reused := False\<rparr>, db)
      else
        let i = sn_id (fr_row f); until = (\<lambda>r. max (sn_expires r) (now + SNAPSHOT_TTL));
            hit = (\<lambda>r. sn_id r = i \<and> sn_expires r > now)
        in (case find hit (snapshots db) of
              None \<Rightarrow> (f\<lparr>fr_reused := False\<rparr>, db)
            | Some r \<Rightarrow> (f\<lparr>fr_reused := False, fr_row := (fr_row f)\<lparr>sn_expires := until r\<rparr>\<rparr>,
                db\<lparr>snapshots := update_where hit (\<lambda>r. r\<lparr>sn_expires := until r\<rparr>) (snapshots db)\<rparr>)))"

definition prune_export_snapshots :: "text_bytes list \<Rightarrow> instant \<Rightarrow> int \<Rightarrow> instant \<Rightarrow> export_db \<Rightarrow> freeze_error + (nat \<times> export_db)" where
  "prune_export_snapshots busy retain limit now db =
     (if \<not> (1 \<le> limit \<and> limit \<le> 1000) \<or> retain < 0 then Inl Freeze_Value_Error
      else
        let victims = map sn_id (take (nat limit) (sort_key sn_expires
              (filter (\<lambda>r. sn_expires r < now - retain \<and> sn_id r \<notin> set busy) (snapshots db))))
        in Inr (length victims,
             db\<lparr>snapshots := delete_where (\<lambda>r. sn_id r \<in> set victims) (snapshots db),
                snapshot_refs := delete_where (\<lambda>r. sr_snapshot r \<in> set victims) (snapshot_refs db)\<rparr>))"

end
