(* ===== verification/Location_Exports.thy ===== *)
theory Location_Exports
  imports Export_Freeze
begin

section \<open>The catalog as an export of its own (export_locations.py)\<close>

text \<open>
  The enabled locations are frozen like a vector of sources, without scopes and without files.  A
  catalog that is empty, too long, or less than half of what was shown last (locations gone that
  nobody disabled) is not shown: the last snapshot is shown again.
\<close>

definition previous_locations :: "export_db \<Rightarrow> snapshot_row option" where
  "previous_locations db = newest (filter (\<lambda>r. of_locations (sn_manifest r)) (snapshots db))"

definition renew_locations :: "instant \<Rightarrow> text_bytes \<Rightarrow> int \<Rightarrow> snapshot_row \<Rightarrow> export_db \<Rightarrow> frozen \<times> export_db" where
  "renew_locations now new_id order r db =
     (if sn_expires r > now then (\<lparr>fr_row = r, fr_reused = True, fr_unconfirmed = False\<rparr>, db)
      else (\<lparr>fr_row = again now new_id order r, fr_reused = False, fr_unconfirmed = False\<rparr>,
        db\<lparr>snapshots := snapshots db @ [again now new_id order r]\<rparr>))"

text \<open>Locations shown last that the catalog neither has nor has disabled.\<close>

definition lost_locations :: "export_db \<Rightarrow> location_row list \<Rightarrow> snapshot_row \<Rightarrow> text_bytes list" where
  "lost_locations db rows r =
     filter (\<lambda>k. k \<notin> lo_id ` set rows \<and> \<not> list_ex (\<lambda>l. lo_id l = k \<and> \<not> lo_enabled l) (locations db))
       (map sh_id (mf_locations (sn_manifest r)))"

definition collapsed :: "export_db \<Rightarrow> location_row list \<Rightarrow> snapshot_row \<Rightarrow> bool" where
  "collapsed db rows r \<longleftrightarrow>
     length rows * 2 < length (mf_locations (sn_manifest r)) \<and> lost_locations db rows r \<noteq> []"

definition location_manifest :: "freeze_env \<Rightarrow> location_row list \<Rightarrow> manifest" where
  "location_manifest env rows =
     \<lparr>mf_scopes = [], mf_locations = map (shown_location_of env) rows, mf_unconfirmed = None,
      mf_selection = Some \<lparr>sl_kind = ''locations'', sl_providers = [], sl_inventory = False, sl_signature = None\<rparr>,
      mf_limited = False\<rparr>"

definition catalog_revision :: "location_row list \<Rightarrow> instant" where
  "catalog_revision rows = Max (set (map lo_updated rows))"

definition freeze_locations ::
  "freeze_env \<Rightarrow> instant \<Rightarrow> text_bytes \<Rightarrow> int \<Rightarrow> export_db \<Rightarrow> freeze_error + (frozen \<times> export_db)" where
  "freeze_locations env now new_id order db =
     (let rows = enabled_roster db; previous = previous_locations db;
          m = location_manifest env rows; digest = json_digest (fz_sha env) (manifest_json (fz_float env) m)
      in if rows = [] \<or> length rows > MAX_SNAPSHOT_LOCATIONS then
           (case previous of None \<Rightarrow> Inl Snapshot_Unavailable | Some r \<Rightarrow> Inr (renew_locations now new_id order r db))
         else case (case previous of None \<Rightarrow> None | Some r \<Rightarrow> if collapsed db rows r then Some r else None) of
           Some r \<Rightarrow> Inr (renew_locations now new_id order r db)
         | None \<Rightarrow>
             (case newest (filter (\<lambda>r. sn_digest r = digest \<and> sn_expires r > now
                 \<and> Some (sn_order r) = map_option sn_order previous) (snapshots db)) of
                Some r \<Rightarrow> Inr (\<lparr>fr_row = r, fr_reused = True, fr_unconfirmed = False\<rparr>, db)
              | None \<Rightarrow>
                  let row = \<lparr>sn_id = new_id, sn_order = order, sn_digest = digest, sn_manifest = m, sn_collected = None,
                        sn_revision = catalog_revision rows, sn_created = now, sn_expires = now + SNAPSHOT_TTL\<rparr>
                  in Inr (\<lparr>fr_row = row, fr_reused = False, fr_unconfirmed = False\<rparr>, db\<lparr>snapshots := snapshots db @ [row]\<rparr>)))"

subsection \<open>Its pages\<close>

definition open_locations ::
  "(text_bytes \<Rightarrow> cursor_state option) \<Rightarrow> text_bytes \<Rightarrow> nat \<Rightarrow> text_bytes \<Rightarrow> instant \<Rightarrow> export_db \<Rightarrow>
   freeze_error + (frozen \<times> cursor_state)" where
  "open_locations decode resource limit cursor now db =
     (if resource \<noteq> ''locations'' \<or> \<not> (1 \<le> limit \<and> limit \<le> 5000) then Inl Cursor_Invalid
      else case decode cursor of
        None \<Rightarrow> Inl Cursor_Invalid
      | Some st \<Rightarrow>
          if cu_resource st \<noteq> ''locations'' \<or> cu_limit st \<noteq> int limit \<or> cu_scope st \<noteq> 0 then Inl Cursor_Invalid
          else case row_of sn_id (cu_snapshot st) (snapshots db) of
            None \<Rightarrow> Inl Snapshot_Expired
          | Some r \<Rightarrow> if sn_expires r \<le> now then Inl Snapshot_Expired
              else Inr (\<lparr>fr_row = r, fr_reused = False, fr_unconfirmed = False\<rparr>, st))"

definition locations_answer :: "freeze_env \<Rightarrow> nat \<Rightarrow> frozen \<times> cursor_state \<Rightarrow> freeze_error + (json list \<times> cursor_state \<times> bool)" where
  "locations_answer env limit opened =
     (case opened of (f, st) \<Rightarrow>
        if \<not> of_locations (sn_manifest (fr_row f)) then Inl Cursor_Invalid
        else case locations_page (map (shown_json (fz_float env)) (mf_locations (sn_manifest (fr_row f)))) limit
            (nat (cu_scope st), nat (cu_point st)) of
          Inl e \<Rightarrow> Inl (Freeze_Page e)
        | Inr (items, (g, p), more_left) \<Rightarrow> Inr (items, st\<lparr>cu_point := int p\<rparr>, more_left))"

subsection \<open>A freeze never loses half of the catalog unnoticed\<close>

definition digest_is_faithful :: "freeze_env \<Rightarrow> export_db \<Rightarrow> manifest \<Rightarrow> bool" where
  "digest_is_faithful env db m \<longleftrightarrow> (\<forall>r\<in>set (snapshots db).
     sn_digest r = json_digest (fz_sha env) (manifest_json (fz_float env) m) \<longrightarrow> sn_manifest r = m)"

lemma renew_locations_manifest: "sn_manifest (fr_row (fst (renew_locations now i order r db))) = sn_manifest r"
  by (simp add: renew_locations_def again_def)

lemma not_collapsed:
  assumes "\<not> collapsed db rows r" "length rows * 2 < length (mf_locations (sn_manifest r))"
    and "k \<in> sh_id ` set (mf_locations (sn_manifest r))" "k \<notin> lo_id ` set rows"
  shows "\<exists>l\<in>set (locations db). lo_id l = k \<and> \<not> lo_enabled l"
proof -
  have "lost_locations db rows r = []" using assms(1,2) by (simp add: collapsed_def)
  then have "\<forall>k\<in>set (map sh_id (mf_locations (sn_manifest r))).
      \<not> (k \<notin> lo_id ` set rows \<and> \<not> list_ex (\<lambda>l. lo_id l = k \<and> \<not> lo_enabled l) (locations db))"
    unfolding lost_locations_def filter_empty_conv .
  with assms(3,4) show ?thesis unfolding list_ex_iff set_map by blast
qed

lemma freeze_locations_Inr:
  assumes "freeze_locations env now i order db = Inr (f, db')" "digest_is_faithful env db (location_manifest env (enabled_roster db))"
  shows "(\<exists>r. previous_locations db = Some r \<and> sn_manifest (fr_row f) = sn_manifest r)
    \<or> (sn_manifest (fr_row f) = location_manifest env (enabled_roster db) \<and> enabled_roster db \<noteq> []
      \<and> length (enabled_roster db) \<le> MAX_SNAPSHOT_LOCATIONS
      \<and> (\<forall>r. previous_locations db = Some r \<longrightarrow> \<not> collapsed db (enabled_roster db) r))"
proof -
  define rows where "rows = enabled_roster db"
  define m where "m = location_manifest env rows"
  define digest where "digest = json_digest (fz_sha env) (manifest_json (fz_float env) m)"
  show ?thesis
  proof (cases "rows = [] \<or> length rows > MAX_SNAPSHOT_LOCATIONS")
    case True
    with assms(1) obtain r where "previous_locations db = Some r" "(f, db') = renew_locations now i order r db"
      by (auto simp: freeze_locations_def Let_def rows_def split: option.splits)
    with renew_locations_manifest show ?thesis by (metis fst_conv)
  next
    case False
    show ?thesis
    proof (cases "\<exists>r. previous_locations db = Some r \<and> collapsed db rows r")
      case True
      then obtain r where r: "previous_locations db = Some r" "collapsed db rows r" by blast
      with assms(1) False have "(f, db') = renew_locations now i order r db"
        by (simp add: freeze_locations_def Let_def rows_def)
      with r(1) renew_locations_manifest show ?thesis by (metis fst_conv)
    next
      case fine: False
      then have pick: "(case previous_locations db of None \<Rightarrow> None | Some r \<Rightarrow> if collapsed db rows r then Some r else None) = None"
        by (auto split: option.splits)
      define reuse where "reuse = newest (filter (\<lambda>r. sn_digest r = digest \<and> sn_expires r > now
        \<and> Some (sn_order r) = map_option sn_order (previous_locations db)) (snapshots db))"
      have "sn_manifest (fr_row f) = m"
      proof (cases reuse)
        case None
        with assms(1) False pick show ?thesis
          by (auto simp: freeze_locations_def Let_def rows_def [symmetric] m_def [symmetric] digest_def [symmetric]
              reuse_def [symmetric])
      next
        case (Some r)
        with assms(1) False pick have "fr_row f = r"
          by (auto simp: freeze_locations_def Let_def rows_def [symmetric] m_def [symmetric] digest_def [symmetric]
              reuse_def [symmetric])
        moreover have "r \<in> set (snapshots db)" "sn_digest r = digest"
          using newest_in [OF Some [unfolded reuse_def]] by simp_all
        ultimately show ?thesis
          using assms(2) by (simp add: digest_is_faithful_def digest_def m_def rows_def)
      qed
      with False fine show ?thesis by (simp add: m_def rows_def)
    qed
  qed
qed

text \<open>
  C40: What a freeze of the locations shows is either the list shown last, or all enabled locations
  of the catalog, between one and 5,000.  In the second case, when the new list is less than half as
  long as the list shown last, every location of the last list that is not on the new one has been
  disabled in the catalog.  (Only the lengths are compared: a new list that is not so short may hold
  other locations.)  The digest of the manifest is assumed to tell the lists apart.
\<close>

theorem location_list_never_collapses:
  assumes "freeze_locations env now i order db = Inr (f, db')" "digest_is_faithful env db (location_manifest env (enabled_roster db))"
  shows "(\<exists>r. previous_locations db = Some r \<and> sn_manifest (fr_row f) = sn_manifest r)
    \<or> (sn_manifest (fr_row f) = location_manifest env (enabled_roster db)
      \<and> 1 \<le> length (enabled_roster db) \<and> length (enabled_roster db) \<le> 5000
      \<and> (\<forall>r k. previous_locations db = Some r \<and> length (enabled_roster db) * 2 < length (mf_locations (sn_manifest r))
          \<and> k \<in> sh_id ` set (mf_locations (sn_manifest r)) \<and> k \<notin> lo_id ` set (enabled_roster db)
          \<longrightarrow> (\<exists>l\<in>set (locations db). lo_id l = k \<and> \<not> lo_enabled l)))"
  using freeze_locations_Inr [OF assms]
proof
  assume "\<exists>r. previous_locations db = Some r \<and> sn_manifest (fr_row f) = sn_manifest r"
  then show ?thesis by blast
next
  assume new: "sn_manifest (fr_row f) = location_manifest env (enabled_roster db) \<and> enabled_roster db \<noteq> []
    \<and> length (enabled_roster db) \<le> MAX_SNAPSHOT_LOCATIONS
    \<and> (\<forall>r. previous_locations db = Some r \<longrightarrow> \<not> collapsed db (enabled_roster db) r)"
  then have "1 \<le> length (enabled_roster db)" "length (enabled_roster db) \<le> 5000"
    by (simp_all add: MAX_SNAPSHOT_LOCATIONS_def Suc_le_eq)
  with new not_collapsed show ?thesis by blast
qed

end
