(* ===== verification/Snapshot_System.thy ===== *)
theory Snapshot_System
  imports Location_Exports Artifact_Lifetime
begin

section \<open>The life of a snapshot\<close>

text \<open>
  What happens to the snapshot tables: a reader freezes sources or locations, reuses, falls back,
  marks a fallback as limited, renews what it reuses; a job prunes.  The readers of forecasts and
  of daily summaries insert snapshots of their own, of which the rule \<open>by_other_reader\<close> only asks
  that the files are those of their generations.  Between two transactions a reader only holds
  the value it got (the list of the state); every other transaction of the export leaves the two
  tables alone.  Ids are drawn fresh, issue numbers grow.  \<open>until\<close> is a moment all prunings and
  all rechecks of the collector stay before: they act on rows that expired before it.
\<close>

abbreviation file_order :: "ref_row \<Rightarrow> text_bytes \<times> nat" where
  "file_order \<equiv> \<lambda>r. (r_generation r, r_ordinal r)"

text \<open>
  Every scope of a manifest has all the files of its generation, in their order, and has some; a
  list of locations has no scopes.
\<close>

definition manifest_filed :: "ref_row list \<Rightarrow> manifest \<Rightarrow> bool" where
  "manifest_filed rs m \<longleftrightarrow> (\<forall>sc\<in>set (mf_scopes m). mn_refs sc \<noteq> [] \<and> mn_refs sc = sort_key file_order (refs_of (mn_generation sc) rs))
     \<and> (of_locations m \<longrightarrow> mf_scopes m = [])"

definition fresh_handle :: "text_bytes \<Rightarrow> int \<Rightarrow> export_db \<times> frozen list \<Rightarrow> bool" where
  "fresh_handle i order st \<longleftrightarrow> (\<forall>s\<in>set (snapshots (fst st) @ map fr_row (snd st)). sn_id s \<noteq> i \<and> sn_order s < order)"

inductive snapshot_step :: "freeze_env \<Rightarrow> instant \<Rightarrow> export_db \<times> frozen list \<Rightarrow> export_db \<times> frozen list \<Rightarrow> bool"
  for env until where
  by_tables: "export_step db db' \<Longrightarrow> snapshots db' = snapshots db \<Longrightarrow> snapshot_refs db' = snapshot_refs db \<Longrightarrow>
    snapshot_step env until (db, fs) (db', fs)"
| by_freeze: "fresh_handle i order (db, fs) \<Longrightarrow> freeze env rd cohorts now i order db c = (Inr (f, db'), c') \<Longrightarrow>
    snapshot_step env until (db, fs) (db', f # fs)"
| by_previous: "fresh_handle i order (db, fs) \<Longrightarrow> previous_success env rd now i order db = Inr (f, db') \<Longrightarrow>
    snapshot_step env until (db, fs) (db', f # fs)"
| by_fallback: "fresh_handle i order (db, fs) \<Longrightarrow> f \<in> set fs \<Longrightarrow> capacity_fallback env now i order f db = Inr (f', db') \<Longrightarrow>
    snapshot_step env until (db, fs) (db', f' # fs)"
| by_locations: "fresh_handle i order (db, fs) \<Longrightarrow> freeze_locations env now i order db = Inr (f, db') \<Longrightarrow>
    snapshot_step env until (db, fs) (db', f # fs)"
| by_other_reader: "fresh_handle (sn_id row) (sn_order row) (db, fs) \<Longrightarrow> manifest_filed (refs db) (sn_manifest row) \<Longrightarrow>
    snapshot_step env until (db, fs) (insert_snapshot row db, fs)"
| by_renewal: "f \<in> set fs \<Longrightarrow> renew_reused fails now f db = (f', db') \<Longrightarrow> snapshot_step env until (db, fs) (db', f' # fs)"
| by_prune: "now - retain \<le> until \<Longrightarrow> prune_export_snapshots busy retain limit now db = Inr (n, db') \<Longrightarrow>
    snapshot_step env until (db, fs) (db', fs)"

subsection \<open>The tables agree\<close>

definition snapshot_inv :: "export_db \<times> frozen list \<Rightarrow> bool" where
  "snapshot_inv st \<longleftrightarrow>
     (case st of (db, fs) \<Rightarrow> head_inv db \<and> keyed sn_id (snapshots db) \<and> keyed sn_order (snapshots db)
       \<and> set (snapshot_refs db) = (\<Union>s\<in>set (snapshots db). set (snapshot_refs_for (sn_id s) (sn_manifest s)))
       \<and> (\<forall>s\<in>set (snapshots db) \<union> fr_row ` set fs. manifest_filed (refs db) (sn_manifest s)))"

lemma manifest_filed_refs: "manifest_filed rs m \<Longrightarrow> sc \<in> set (mf_scopes m) \<Longrightarrow> r \<in> set (mn_refs sc) \<Longrightarrow>
    r \<in> set rs \<and> r_generation r = mn_generation sc"
  by (auto simp: manifest_filed_def refs_of_def)

text \<open>The files of a generation never change: those of a new one are added with it.\<close>

lemma refs_of_kept:
  assumes "export_step a b" "head_inv a" "g \<in> g_id ` set (generations a)"
  shows "refs_of g (refs b) = refs_of g (refs a)"
  using export_step_kinds [OF assms(1)]
proof (elim disjE exE)
  assume "lifecycle_step a b"
  from lifecycle_head_part [OF this] show ?thesis by (simp add: head_part_def)
next
  fix identity assume "binds identity a b"
  then show ?thesis by (auto simp: binds_def update_plan_def)
next
  fix env dir identity pr ex h now assume "publishes env dir identity pr ex h now a b"
  then obtain published token rows where fresh: "row_of g_id h (generations a) = None"
    and b: "b = finish_publication identity published
      ((publish_rows identity pr ex h token (row_of h_namespace (p_namespace (pr_plan pr)) (heads a)) published a)\<lparr>inventory := rows\<rparr>)"
    unfolding publishes_def Let_def by blast
  have "refs b = refs a @ map (generation_ref h) (enumerate 0 (ex_files ex))"
    by (simp add: b finish_publication_def publish_rows_def)
  moreover have "h \<noteq> g" using fresh assms(3) by (auto simp: row_of_None_iff)
  ultimately show ?thesis by (auto simp: refs_of_def generation_ref_def filter_empty_conv)
qed (auto simp: side_step_def adds_plan_def retires_def retire_def)

lemma filed_generation:
  assumes "head_inv db" "manifest_filed (refs db) m" "sc \<in> set (mf_scopes m)"
  shows "mn_generation sc \<in> g_id ` set (generations db)"
proof -
  have "mn_refs sc \<noteq> []" using assms(2,3) unfolding manifest_filed_def by blast
  then have "hd (mn_refs sc) \<in> set (mn_refs sc)" by simp
  note r = manifest_filed_refs [OF assms(2,3) this]
  then have "r_generation (hd (mn_refs sc)) \<in> r_generation ` set (refs db)" by blast
  with head_invD(9) [OF assms(1)] r show ?thesis by auto
qed

lemma manifest_filed_kept:
  assumes "export_step a b" "head_inv a" "manifest_filed (refs a) m"
  shows "manifest_filed (refs b) m"
  unfolding manifest_filed_def
proof (intro conjI ballI)
  show "of_locations m \<longrightarrow> mf_scopes m = []" using assms(3) by (simp add: manifest_filed_def)
next
  fix sc assume sc: "sc \<in> set (mf_scopes m)"
  have old: "mn_refs sc \<noteq> [] \<and> mn_refs sc = sort_key file_order (refs_of (mn_generation sc) (refs a))"
    using sc assms(3) unfolding manifest_filed_def by blast
  note kept = refs_of_kept [OF assms(1,2) filed_generation [OF assms(2,3) sc]]
  from old show "mn_refs sc \<noteq> []" by (rule conjunct1)
  from old show "mn_refs sc = sort_key file_order (refs_of (mn_generation sc) (refs b))" unfolding kept by (rule conjunct2)
qed

lemma snapshot_refs_of_set: "sr \<in> set (snapshot_refs_for i m) \<longleftrightarrow>
    (\<exists>n < length (mf_scopes m). sr = \<lparr>sr_snapshot = i, sr_ordinal = n, sr_generation = mn_generation (mf_scopes m ! n)\<rparr>)"
proof
  assume "sr \<in> set (snapshot_refs_for i m)"
  then obtain p where p: "p \<in> set (enumerate 0 (mf_scopes m))"
    "sr = \<lparr>sr_snapshot = i, sr_ordinal = fst p, sr_generation = mn_generation (snd p)\<rparr>"
    by (auto simp: snapshot_refs_for_def)
  then show "\<exists>n < length (mf_scopes m). sr = \<lparr>sr_snapshot = i, sr_ordinal = n, sr_generation = mn_generation (mf_scopes m ! n)\<rparr>"
    by (intro exI [of _ "fst p"]) (simp add: in_set_enumerate_eq)
next
  assume "\<exists>n < length (mf_scopes m). sr = \<lparr>sr_snapshot = i, sr_ordinal = n, sr_generation = mn_generation (mf_scopes m ! n)\<rparr>"
  then obtain n where n: "n < length (mf_scopes m)"
    "sr = \<lparr>sr_snapshot = i, sr_ordinal = n, sr_generation = mn_generation (mf_scopes m ! n)\<rparr>" by blast
  then have "(n, mf_scopes m ! n) \<in> set (enumerate 0 (mf_scopes m))" by (simp add: in_set_enumerate_eq)
  with n(2) show "sr \<in> set (snapshot_refs_for i m)" unfolding snapshot_refs_for_def by force
qed

subsection \<open>What a freeze stores\<close>

lemma read_refs_Inr:
  assumes "read_generation_refs gs db = Inr rs" "g \<in> set gs"
  shows "refs_of g rs = sort_key file_order (refs_of g (refs db))"
proof -
  define found where "found = sort_key file_order (filter (\<lambda>r. r_generation r \<in> set gs) (refs db))"
  have rs: "rs = take (MAX_GENERATION_REFS + 1) found" and short: "length rs \<le> MAX_GENERATION_REFS"
    using assms(1) by (auto simp: read_generation_refs_def Let_def found_def split: if_splits)
  from short have "length found \<le> MAX_GENERATION_REFS" unfolding rs by simp
  then have "rs = found" by (simp add: rs)
  moreover have "filter (\<lambda>r. r_generation r \<in> set gs \<and> r_generation r = g) (refs db) = refs_of g (refs db)"
    unfolding refs_of_def by (rule filter_cong) (use assms(2) in auto)
  ultimately show ?thesis by (simp add: refs_of_def found_def filter_sort)
qed

lemma manifest_scopes_Inr:
  "manifest_scopes env rd rs used ss = Inr (ms, final) \<Longrightarrow>
    ms = map (\<lambda>s. manifest_scope_of env rd (refs_of (fs_generation s) rs) s) ss
    \<and> (\<forall>s\<in>set ss. refs_within (refs_of (fs_generation s) rs))"
proof (induction ss arbitrary: used ms final)
  case (Cons s ss)
  define own where "own = refs_of (fs_generation s) rs"
  define used' where "used' = used + length (encode (scope_json (manifest_scope_of env rd own s)))"
  from Cons.prems have own: "refs_within own" by (auto simp: Let_def own_def split: if_splits)
  obtain ms' where "manifest_scopes env rd rs used' ss = Inr (ms', final)" "ms = manifest_scope_of env rd own s # ms'"
    using Cons.prems by (auto simp: Let_def own_def [symmetric] used'_def [symmetric] split: if_splits sum.splits)
  with Cons.IH [of used' ms' final] own show ?case by (simp add: own_def)
qed simp

lemma build_manifest_filed:
  assumes "build_manifest env rd cohorts now db c = (Inr (m, scopes), c')"
  shows "manifest_filed (refs db) m"
proof -
  obtain rs used where rs: "read_generation_refs (map fs_generation scopes) db = Inr rs"
    and ms: "manifest_scopes env rd rs 0 scopes = Inr (mf_scopes m, used)"
    using assms by (auto simp: build_manifest_def Let_def split: if_splits sum.splits prod.splits)
  from manifest_scopes_Inr [OF ms]
  have scs: "mf_scopes m = map (\<lambda>s. manifest_scope_of env rd (refs_of (fs_generation s) rs) s) scopes"
    and within: "\<And>s. s \<in> set scopes \<Longrightarrow> refs_within (refs_of (fs_generation s) rs)" by auto
  have "mf_selection m = current_selection env rd"
    using assms by (auto simp: build_manifest_def Let_def split: if_splits sum.splits prod.splits)
  then have kind: "\<not> of_locations m" by (auto simp: of_locations_def current_selection_def)
  show ?thesis
    unfolding manifest_filed_def scs using within read_refs_Inr [OF rs] kind
    by (auto simp: manifest_scope_of_def refs_within_def)
qed

subsection \<open>What the operations do to the tables\<close>

definition inserted :: "text_bytes \<Rightarrow> int \<Rightarrow> export_db \<Rightarrow> frozen \<Rightarrow> export_db \<Rightarrow> bool" where
  "inserted i order a f b \<longleftrightarrow> b = insert_snapshot (fr_row f) a \<and> sn_id (fr_row f) = i \<and> sn_order (fr_row f) = order
     \<and> manifest_filed (refs a) (sn_manifest (fr_row f))"

lemma freeze_Inr:
  assumes "freeze env rd cohorts now i order db c = (Inr (f, db'), c')"
  shows "(db' = db \<and> fr_row f \<in> set (snapshots db) \<and> fr_reused f \<and> now < sn_expires (fr_row f)) \<or>
    (inserted i order db f db' \<and> \<not> fr_reused f \<and> sn_expires (fr_row f) = now + SNAPSHOT_TTL)"
proof -
  obtain m scopes c2 where m: "build_manifest env rd cohorts now db c = (Inr (m, scopes), c2)"
    using assms by (auto simp: freeze_def split: prod.splits sum.splits)
  define digest where "digest = json_digest (fz_sha env) (manifest_json (fz_float env) m)"
  show ?thesis
  proof (cases "reusable env rd now digest db")
    case None
    then show ?thesis using assms m build_manifest_filed [OF m]
      by (auto simp: freeze_def Let_def digest_def [symmetric] inserted_def)
  next
    case (Some r)
    then have "f = \<lparr>fr_row = r, fr_reused = True, fr_unconfirmed = False\<rparr>" "db' = db"
      using assms m by (simp_all add: freeze_def Let_def digest_def [symmetric])
    moreover have "r \<in> set (filter (\<lambda>r. sn_digest r = digest \<and> sn_expires r > now) (snapshots db))"
      using Some by (auto simp: reusable_def dest!: newest_in split: option.splits if_splits)
    ultimately show ?thesis by simp
  qed
qed

lemma previous_Inr:
  assumes "previous_success env rd now i order db = Inr (f, db')" "\<forall>s\<in>set (snapshots db). manifest_filed (refs db) (sn_manifest s)"
  shows "(db' = db \<and> fr_row f \<in> set (snapshots db)) \<or> inserted i order db f db'"
proof -
  obtain r where r: "newest (filter (same_selection env rd) (snapshots db)) = Some r"
    using assms(1) by (auto simp: previous_success_def split: option.splits)
  from newest_in [OF this] have "r \<in> set (snapshots db)" by simp
  with assms(1) bspec [OF assms(2) this] r show ?thesis
    by (auto simp: previous_success_def inserted_def again_def split: if_splits)
qed

lemma fallback_Inr:
  assumes "capacity_fallback env now i order f db = Inr (f', db')" "manifest_filed (refs db) (sn_manifest (fr_row f))"
  shows "(db' = db \<and> f' = f) \<or> inserted i order db f' db'"
  using assms by (auto simp: capacity_fallback_def Let_def inserted_def again_def manifest_filed_def of_locations_def split: if_splits)

lemma locations_inserted:
  assumes "mf_scopes (sn_manifest row) = []" "sn_id row = i" "sn_order row = order" "fr_row f = row"
  shows "inserted i order db f (db\<lparr>snapshots := snapshots db @ [row]\<rparr>)"
  using assms by (simp add: inserted_def insert_snapshot_def snapshot_refs_for_def manifest_filed_def)

lemma renew_locations_issued:
  assumes "renew_locations now i order r db = (f, db')" "r \<in> set (snapshots db)" "mf_scopes (sn_manifest r) = []"
  shows "(db' = db \<and> fr_row f \<in> set (snapshots db)) \<or> inserted i order db f db'"
proof (cases "sn_expires r > now")
  case True
  with assms show ?thesis by (auto simp: renew_locations_def)
next
  case False
  with assms(1) have "fr_row f = again now i order r" "db' = db\<lparr>snapshots := snapshots db @ [again now i order r]\<rparr>"
    by (auto simp: renew_locations_def)
  with locations_inserted [of "again now i order r" i order f db] assms(3) show ?thesis by (simp add: again_def)
qed

lemma locations_Inr:
  assumes "freeze_locations env now i order db = Inr (f, db')" "\<forall>s\<in>set (snapshots db). manifest_filed (refs db) (sn_manifest s)"
  shows "(db' = db \<and> fr_row f \<in> set (snapshots db)) \<or> inserted i order db f db'"
proof -
  have again_ok: ?thesis if r: "previous_locations db = Some r" and f: "renew_locations now i order r db = (f, db')" for r
  proof -
    have "r \<in> set (filter (\<lambda>r. of_locations (sn_manifest r)) (snapshots db))"
      by (rule newest_in) (use r in \<open>simp add: previous_locations_def\<close>)
    then have "r \<in> set (snapshots db)" "of_locations (sn_manifest r)" by simp_all
    with renew_locations_issued [OF f this(1)] assms(2) show ?thesis by (simp add: manifest_filed_def)
  qed
  define rows where "rows = enabled_roster db"
  define m where "m = location_manifest env rows"
  define digest where "digest = json_digest (fz_sha env) (manifest_json (fz_float env) m)"
  define reuse where "reuse = newest (filter (\<lambda>r. sn_digest r = digest \<and> sn_expires r > now
    \<and> Some (sn_order r) = map_option sn_order (previous_locations db)) (snapshots db))"
  define row where "row = \<lparr>sn_id = i, sn_order = order, sn_digest = digest, sn_manifest = m, sn_collected = None,
    sn_revision = catalog_revision rows, sn_created = now, sn_expires = now + SNAPSHOT_TTL\<rparr>"
  define fallback where "fallback = (if rows = [] \<or> length rows > MAX_SNAPSHOT_LOCATIONS then previous_locations db
    else (case previous_locations db of None \<Rightarrow> None | Some r \<Rightarrow> if collapsed db rows r then Some r else None))"
  show ?thesis
  proof (cases fallback)
    case (Some r)
    then have "previous_locations db = Some r" by (auto simp: fallback_def split: if_splits option.splits)
    moreover have "renew_locations now i order r db = (f, db')"
      using assms(1) Some calculation
      by (auto simp: freeze_locations_def Let_def rows_def [symmetric] fallback_def split: if_splits)
    ultimately show ?thesis by (rule again_ok)
  next
    case None
    then have "(case reuse of Some r \<Rightarrow> Inr (\<lparr>fr_row = r, fr_reused = True, fr_unconfirmed = False\<rparr>, db)
        | None \<Rightarrow> Inr (\<lparr>fr_row = row, fr_reused = False, fr_unconfirmed = False\<rparr>, db\<lparr>snapshots := snapshots db @ [row]\<rparr>))
      = (Inr (f, db') :: freeze_error + (frozen \<times> export_db))"
      using assms(1) by (auto simp: freeze_locations_def Let_def rows_def [symmetric] m_def [symmetric] digest_def [symmetric]
        reuse_def [symmetric] row_def [symmetric] fallback_def split: if_splits option.splits)
    then show ?thesis
      using locations_inserted [of row i order f db]
      by (cases reuse) (auto simp: reuse_def row_def m_def location_manifest_def dest: newest_in)
  qed
qed

definition renewed :: "export_db \<Rightarrow> frozen \<Rightarrow> frozen \<Rightarrow> export_db \<Rightarrow> bool" where
  "renewed a f f' b \<longleftrightarrow> sn_manifest (fr_row f') = sn_manifest (fr_row f) \<and> sn_id (fr_row f') = sn_id (fr_row f)
     \<and> sn_order (fr_row f') = sn_order (fr_row f)
     \<and> (\<exists>p g. b = a\<lparr>snapshots := update_where p (\<lambda>r. r\<lparr>sn_expires := g r\<rparr>) (snapshots a)\<rparr> \<and> (\<forall>r. sn_expires r \<le> g r))"

lemma renew_kept: "renew_reused fails now f db = (f', db') \<Longrightarrow> renewed db f f' db'"
proof -
  assume renew: "renew_reused fails now f db = (f', db')"
  have same: "\<exists>p g. db = db\<lparr>snapshots := update_where p (\<lambda>r. r\<lparr>sn_expires := g r\<rparr>) (snapshots db)\<rparr> \<and> (\<forall>r. sn_expires r \<le> g r)"
    by (rule exI [of _ "\<lambda>r. False"], rule exI [of _ sn_expires]) (simp add: update_where_def)
  show ?thesis
  proof (cases "\<not> fr_reused f \<or> fails")
    case True
    with renew have "f' = f\<lparr>fr_reused := False\<rparr>" "db' = db" by (auto simp: renew_reused_def)
    with same show ?thesis by (simp add: renewed_def)
  next
    case False
    define p where "p = (\<lambda>r :: snapshot_row. sn_id r = sn_id (fr_row f) \<and> sn_expires r > now)"
    define g where "g = (\<lambda>r :: snapshot_row. max (sn_expires r) (now + SNAPSHOT_TTL))"
    show ?thesis
    proof (cases "find p (snapshots db)")
      case None
      with False renew have "f' = f\<lparr>fr_reused := False\<rparr>" "db' = db" by (auto simp: renew_reused_def Let_def p_def)
      with same show ?thesis by (simp add: renewed_def)
    next
      case (Some r)
      with False renew have "f' = f\<lparr>fr_reused := False, fr_row := (fr_row f)\<lparr>sn_expires := g r\<rparr>\<rparr>"
        "db' = db\<lparr>snapshots := update_where p (\<lambda>r. r\<lparr>sn_expires := g r\<rparr>) (snapshots db)\<rparr>"
        by (auto simp: renew_reused_def Let_def p_def g_def)
      moreover have "\<forall>r. sn_expires r \<le> g r" by (simp add: g_def)
      ultimately show ?thesis unfolding renewed_def by auto
    qed
  qed
qed

definition pruned :: "instant \<Rightarrow> export_db \<Rightarrow> export_db \<Rightarrow> bool" where
  "pruned until a b \<longleftrightarrow> (\<exists>gone. b = a\<lparr>snapshots := delete_where (\<lambda>r. sn_id r \<in> gone) (snapshots a),
      snapshot_refs := delete_where (\<lambda>r. sr_snapshot r \<in> gone) (snapshot_refs a)\<rparr>
    \<and> (\<forall>i\<in>gone. \<exists>r\<in>set (snapshots a). sn_id r = i \<and> sn_expires r < until))"

lemma prune_pruned:
  assumes "prune_export_snapshots busy retain limit now db = Inr (n, db')" "now - retain \<le> until"
  shows "pruned until db db'"
proof -
  define victims where "victims = map sn_id (take (nat limit) (sort_key sn_expires
    (filter (\<lambda>r. sn_expires r < now - retain \<and> sn_id r \<notin> set busy) (snapshots db))))"
  have "\<exists>r\<in>set (snapshots db). sn_id r = i \<and> sn_expires r < until" if "i \<in> set victims" for i
    using that assms(2) by (auto simp: victims_def dest!: in_set_takeD)
  moreover have "db' = db\<lparr>snapshots := delete_where (\<lambda>r. sn_id r \<in> set victims) (snapshots db),
      snapshot_refs := delete_where (\<lambda>r. sr_snapshot r \<in> set victims) (snapshot_refs db)\<rparr>"
    using assms(1) by (auto simp: prune_export_snapshots_def Let_def victims_def split: if_splits)
  ultimately show ?thesis unfolding pruned_def by blast
qed

subsection \<open>The invariant of the snapshot tables\<close>

lemma snapshot_invD:
  assumes "snapshot_inv (db, fs)"
  shows "head_inv db" "keyed sn_id (snapshots db)" "keyed sn_order (snapshots db)"
    "set (snapshot_refs db) = (\<Union>s\<in>set (snapshots db). set (snapshot_refs_for (sn_id s) (sn_manifest s)))"
    "s \<in> set (snapshots db) \<Longrightarrow> manifest_filed (refs db) (sn_manifest s)"
    "f \<in> set fs \<Longrightarrow> manifest_filed (refs db) (sn_manifest (fr_row f))"
  using assms unfolding snapshot_inv_def prod.case by blast+

lemma snapshot_invI:
  assumes "head_inv db" "keyed sn_id (snapshots db)" "keyed sn_order (snapshots db)"
    and "set (snapshot_refs db) = (\<Union>s\<in>set (snapshots db). set (snapshot_refs_for (sn_id s) (sn_manifest s)))"
    and "\<And>s. s \<in> set (snapshots db) \<Longrightarrow> manifest_filed (refs db) (sn_manifest s)"
    and "\<And>f. f \<in> set fs \<Longrightarrow> manifest_filed (refs db) (sn_manifest (fr_row f))"
  shows "snapshot_inv (db, fs)"
  using assms unfolding snapshot_inv_def prod.case by blast

lemma readers_head_inv:
  "head_inv db \<Longrightarrow> head_inv (db\<lparr>snapshots := sn, snapshot_refs := sr\<rparr>)"
  using head_inv_step [OF by_readers [where db = db and sn = sn and sr = sr and cp = "daily_checkpoint db"]] by simp

lemma inv_tables:
  assumes inv: "snapshot_inv (a, fs)" and step: "export_step a b" "snapshots b = snapshots a" "snapshot_refs b = snapshot_refs a"
  shows "snapshot_inv (b, fs)"
proof (rule snapshot_invI)
  note a = snapshot_invD [OF inv]
  show "head_inv b" by (rule head_inv_step [OF step(1) a(1)])
  show "manifest_filed (refs b) (sn_manifest s)" if "s \<in> set (snapshots b)" for s
    using that manifest_filed_kept [OF step(1) a(1) a(5)] by (simp add: step)
  show "manifest_filed (refs b) (sn_manifest (fr_row f))" if "f \<in> set fs" for f
    by (rule manifest_filed_kept [OF step(1) a(1) a(6) [OF that]])
qed (simp_all add: step snapshot_invD [OF inv])

lemma inv_hold:
  "snapshot_inv (a, fs) \<Longrightarrow> manifest_filed (refs a) (sn_manifest (fr_row f)) \<Longrightarrow> snapshot_inv (a, f # fs)"
  by (simp add: snapshot_inv_def)

lemma inv_inserted:
  assumes inv: "snapshot_inv (a, fs)" and ins: "inserted i order a f b" and fresh: "fresh_handle i order (a, fs)"
  shows "snapshot_inv (b, f # fs)"
proof (rule snapshot_invI)
  note a = snapshot_invD [OF inv]
  have b: "b = a\<lparr>snapshots := snapshots a @ [fr_row f], snapshot_refs := snapshot_refs a @ snapshot_refs_for i (sn_manifest (fr_row f))\<rparr>"
    and row: "sn_id (fr_row f) = i" "sn_order (fr_row f) = order" "manifest_filed (refs a) (sn_manifest (fr_row f))"
    using ins by (auto simp: inserted_def insert_snapshot_def)
  have new: "sn_id s \<noteq> i \<and> sn_order s < order" if "s \<in> set (snapshots a)" for s
    using fresh that by (simp add: fresh_handle_def)
  show "head_inv b" unfolding b by (rule readers_head_inv [OF a(1)])
  show "keyed sn_id (snapshots b)" "keyed sn_order (snapshots b)"
    using a(2,3) new row by (auto simp: b row_of_None_iff dest: new)
  show "set (snapshot_refs b) = (\<Union>s\<in>set (snapshots b). set (snapshot_refs_for (sn_id s) (sn_manifest s)))"
    using a(4) row by (auto simp: b)
  show "manifest_filed (refs b) (sn_manifest s)" if "s \<in> set (snapshots b)" for s
    using that a(5) row(3) by (auto simp: b)
  show "manifest_filed (refs b) (sn_manifest (fr_row g))" if "g \<in> set (f # fs)" for g
    using that a(6) row(3) by (auto simp: b)
qed

lemma inv_renewed:
  assumes inv: "snapshot_inv (a, fs)" and ren: "renewed a f f' b" and f: "f \<in> set fs"
  shows "snapshot_inv (b, f' # fs)"
proof (rule snapshot_invI)
  note a = snapshot_invD [OF inv]
  obtain p g where b: "b = a\<lparr>snapshots := update_where p (\<lambda>r. r\<lparr>sn_expires := g r\<rparr>) (snapshots a)\<rparr>"
    and m: "sn_manifest (fr_row f') = sn_manifest (fr_row f)"
    using ren unfolding renewed_def by blast
  show "head_inv b" using readers_head_inv [OF a(1), where sn = "snapshots b" and sr = "snapshot_refs a"] by (simp add: b)
  show "keyed sn_id (snapshots b)" "keyed sn_order (snapshots b)"
    using a(2,3) by (simp_all add: b keyed_update_where)
  show "set (snapshot_refs b) = (\<Union>s\<in>set (snapshots b). set (snapshot_refs_for (sn_id s) (sn_manifest s)))"
    using a(4) by (simp add: b set_update_where) (force)
  show "manifest_filed (refs b) (sn_manifest s)" if "s \<in> set (snapshots b)" for s
    using that a(5) by (auto simp: b set_update_where)
  show "manifest_filed (refs b) (sn_manifest (fr_row h))" if "h \<in> set (f' # fs)" for h
    using that a(6) f m by (auto simp: b)
qed

lemma refs_for_snapshot: "sr \<in> set (snapshot_refs_for i m) \<Longrightarrow> sr_snapshot sr = i"
  by (auto simp: snapshot_refs_of_set)

lemma inv_pruned:
  assumes inv: "snapshot_inv (a, fs)" and gone: "pruned until a b"
  shows "snapshot_inv (b, fs)"
proof (rule snapshot_invI)
  note a = snapshot_invD [OF inv]
  obtain out where b: "b = a\<lparr>snapshots := delete_where (\<lambda>r. sn_id r \<in> out) (snapshots a),
      snapshot_refs := delete_where (\<lambda>r. sr_snapshot r \<in> out) (snapshot_refs a)\<rparr>"
    using gone unfolding pruned_def by blast
  show "head_inv b" unfolding b by (rule readers_head_inv [OF a(1)])
  show "keyed sn_id (snapshots b)" "keyed sn_order (snapshots b)"
    using a(2,3) by (simp_all add: b keyed_delete_where)
  show "set (snapshot_refs b) = (\<Union>s\<in>set (snapshots b). set (snapshot_refs_for (sn_id s) (sn_manifest s)))"
  proof (intro set_eqI iffI)
    fix x assume "x \<in> set (snapshot_refs b)"
    then have "x \<in> set (snapshot_refs a)" "sr_snapshot x \<notin> out" by (simp_all add: b)
    then obtain s where s: "s \<in> set (snapshots a)" "x \<in> set (snapshot_refs_for (sn_id s) (sn_manifest s))"
      unfolding a(4) by blast
    with refs_for_snapshot [OF s(2)] \<open>sr_snapshot x \<notin> out\<close> have "s \<in> set (snapshots b)" by (simp add: b)
    with s(2) show "x \<in> (\<Union>s\<in>set (snapshots b). set (snapshot_refs_for (sn_id s) (sn_manifest s)))" by blast
  next
    fix x assume "x \<in> (\<Union>s\<in>set (snapshots b). set (snapshot_refs_for (sn_id s) (sn_manifest s)))"
    then obtain s where s: "s \<in> set (snapshots b)" "x \<in> set (snapshot_refs_for (sn_id s) (sn_manifest s))" by blast
    then have "x \<in> set (snapshot_refs a)" unfolding a(4) by (auto simp: b)
    with s refs_for_snapshot [OF s(2)] show "x \<in> set (snapshot_refs b)" by (simp add: b)
  qed
  show "manifest_filed (refs b) (sn_manifest s)" if "s \<in> set (snapshots b)" for s
    using that a(5) by (simp add: b)
  show "manifest_filed (refs b) (sn_manifest (fr_row f))" if "f \<in> set fs" for f
    using a(6) [OF that] by (simp add: b)
qed

text \<open>The kinds of step.\<close>

lemma snapshot_step_kinds:
  assumes "snapshot_step env until (a, fs) (b, fs')" "snapshot_inv (a, fs)"
  obtains (tables) "export_step a b" "snapshots b = snapshots a" "snapshot_refs b = snapshot_refs a" "fs' = fs"
  | (same) f where "b = a" "fs' = f # fs" "manifest_filed (refs a) (sn_manifest (fr_row f))"
  | (new) f i order where "fs' = f # fs" "inserted i order a f b" "fresh_handle i order (a, fs)"
  | (other) f i order where "fs' = fs" "inserted i order a f b" "fresh_handle i order (a, fs)"
  | (renew) f f' where "fs' = f' # fs" "f \<in> set fs" "renewed a f f' b"
  | (prune) "fs' = fs" "pruned until a b"
  using assms(1)
proof cases
  case by_tables
  with tables show ?thesis by simp
next
  case (by_freeze i order rd cohorts now c f c')
  show ?thesis using freeze_Inr [OF by_freeze(3)]
  proof (elim disjE conjE)
    assume "b = a" "fr_row f \<in> set (snapshots a)"
    with same by_freeze(1) snapshot_invD(5) [OF assms(2)] show ?thesis by blast
  next
    assume "inserted i order a f b"
    with new by_freeze show ?thesis by blast
  qed
next
  case (by_previous i order rd now f)
  have "\<forall>s\<in>set (snapshots a). manifest_filed (refs a) (sn_manifest s)" by (blast intro: snapshot_invD(5) [OF assms(2)])
  from previous_Inr [OF by_previous(3) this] show ?thesis
  proof (elim disjE conjE)
    assume "b = a" "fr_row f \<in> set (snapshots a)"
    with same by_previous(1) snapshot_invD(5) [OF assms(2)] show ?thesis by blast
  next
    assume "inserted i order a f b"
    with new by_previous show ?thesis by blast
  qed
next
  case (by_locations i order now f)
  have "\<forall>s\<in>set (snapshots a). manifest_filed (refs a) (sn_manifest s)" by (blast intro: snapshot_invD(5) [OF assms(2)])
  from locations_Inr [OF by_locations(3) this] show ?thesis
  proof (elim disjE conjE)
    assume "b = a" "fr_row f \<in> set (snapshots a)"
    with same by_locations(1) snapshot_invD(5) [OF assms(2)] show ?thesis by blast
  next
    assume "inserted i order a f b"
    with new by_locations show ?thesis by blast
  qed
next
  case (by_other_reader row)
  define f where "f = \<lparr>fr_row = row, fr_reused = False, fr_unconfirmed = False\<rparr>"
  have "inserted (sn_id row) (sn_order row) a f b" using by_other_reader by (simp add: inserted_def f_def)
  then show ?thesis by (rule other [rotated]) (use by_other_reader in simp_all)
next
  case (by_fallback i order f now f')
  note filed = snapshot_invD(6) [OF assms(2) by_fallback(3)]
  show ?thesis using fallback_Inr [OF by_fallback(4) filed]
  proof (elim disjE conjE)
    assume "b = a" "f' = f"
    with same by_fallback(1) filed show ?thesis by blast
  next
    assume "inserted i order a f' b"
    with new by_fallback show ?thesis by blast
  qed
next
  case (by_renewal f fails now f')
  with renew renew_kept [OF by_renewal(3)] show ?thesis by blast
next
  case (by_prune now retain busy limit n)
  with prune prune_pruned [OF by_prune(3,2)] show ?thesis by blast
qed

lemma snapshot_inv_step:
  assumes "snapshot_inv st" "snapshot_step env until st st'"
  shows "snapshot_inv st'"
proof -
  obtain a fs b fs' where st: "st = (a, fs)" "st' = (b, fs')" by (metis surj_pair)
  from assms(2) [unfolded st] assms(1) [unfolded st] show ?thesis unfolding st
  proof (cases rule: snapshot_step_kinds)
    case tables
    with inv_tables [OF assms(1) [unfolded st]] show "snapshot_inv (b, fs')" by simp
  next
    case (same f)
    with inv_hold [OF assms(1) [unfolded st]] show "snapshot_inv (b, fs')" by simp
  next
    case (new f i order)
    with inv_inserted [OF assms(1) [unfolded st]] show "snapshot_inv (b, fs')" by simp
  next
    case (other f i order)
    with inv_inserted [OF assms(1) [unfolded st]] have "snapshot_inv (b, f # fs)" by simp
    with other(1) show "snapshot_inv (b, fs')" by (simp add: snapshot_inv_def)
  next
    case (renew f f')
    with inv_renewed [OF assms(1) [unfolded st]] show "snapshot_inv (b, fs')" by simp
  next
    case prune
    with inv_pruned [OF assms(1) [unfolded st]] show "snapshot_inv (b, fs')" by simp
  qed
qed

definition snapshot_start :: "export_db \<times> frozen list \<Rightarrow> bool" where
  "snapshot_start st \<longleftrightarrow> export_start (fst st) \<and> snapshots (fst st) = [] \<and> snapshot_refs (fst st) = [] \<and> snd st = []"

lemma snapshot_inv_start: "snapshot_start st \<Longrightarrow> snapshot_inv st"
  by (cases st) (simp add: snapshot_start_def snapshot_inv_def head_inv_start)

interpretation snapshot_system: step_invariant snapshot_start "snapshot_step env until" snapshot_inv for env until
  by unfold_locales (auto intro: snapshot_inv_start snapshot_inv_step)

end
