(* ===== verification/Snapshot_Properties.thy ===== *)
theory Snapshot_Properties
  imports Snapshot_System
begin

section \<open>What a snapshot promises while it lives\<close>

subsection \<open>A snapshot is only ever extended\<close>

definition extended :: "instant \<Rightarrow> export_db \<times> frozen list \<Rightarrow> export_db \<times> frozen list \<Rightarrow> bool" where
  "extended until st st' \<longleftrightarrow> (\<forall>s\<in>set (snapshots (fst st)). until \<le> sn_expires s \<longrightarrow>
     (\<exists>e. sn_expires s \<le> e \<and> s\<lparr>sn_expires := e\<rparr> \<in> set (snapshots (fst st'))))"

lemma extendedD:
  assumes "extended until st st'" "s \<in> set (snapshots (fst st))" "until \<le> sn_expires s"
  obtains e where "sn_expires s \<le> e" "s\<lparr>sn_expires := e\<rparr> \<in> set (snapshots (fst st'))"
  using assms unfolding extended_def by blast

lemma extended_kept: "set (snapshots (fst st)) \<subseteq> set (snapshots (fst st')) \<Longrightarrow> extended until st st'"
  unfolding extended_def
proof (intro ballI impI)
  fix s assume "set (snapshots (fst st)) \<subseteq> set (snapshots (fst st'))" "s \<in> set (snapshots (fst st))"
  then have "s\<lparr>sn_expires := sn_expires s\<rparr> \<in> set (snapshots (fst st'))" by auto
  then show "\<exists>e. sn_expires s \<le> e \<and> s\<lparr>sn_expires := e\<rparr> \<in> set (snapshots (fst st'))" by blast
qed

lemma extended_trans:
  assumes "extended until a b" "extended until b c"
  shows "extended until a c"
  unfolding extended_def
proof (intro ballI impI)
  fix s assume "s \<in> set (snapshots (fst a))" "until \<le> sn_expires s"
  then obtain e where e: "sn_expires s \<le> e" "s\<lparr>sn_expires := e\<rparr> \<in> set (snapshots (fst b))"
    by (rule extendedD [OF assms(1)])
  with \<open>until \<le> sn_expires s\<close> obtain e' where "e \<le> e'" "s\<lparr>sn_expires := e'\<rparr> \<in> set (snapshots (fst c))"
    using extendedD [OF assms(2), of "s\<lparr>sn_expires := e\<rparr>"] by auto
  with e(1) show "\<exists>e. sn_expires s \<le> e \<and> s\<lparr>sn_expires := e\<rparr> \<in> set (snapshots (fst c))" by (meson order_trans)
qed

lemma extended_renewed:
  assumes "renewed a f f' b"
  shows "extended until (a, fs) (b, fs')"
proof -
  obtain p g where b: "b = a\<lparr>snapshots := update_where p (\<lambda>r. r\<lparr>sn_expires := g r\<rparr>) (snapshots a)\<rparr>"
    and later: "\<And>r. sn_expires r \<le> g r" using assms unfolding renewed_def by blast
  define new where "new = (\<lambda>r. if p r then r\<lparr>sn_expires := g r\<rparr> else r)"
  have rows: "set (snapshots b) = new ` set (snapshots a)" by (simp add: b set_update_where new_def)
  have "\<exists>e. sn_expires s \<le> e \<and> s\<lparr>sn_expires := e\<rparr> \<in> set (snapshots b)" if "s \<in> set (snapshots a)" for s
  proof -
    have "new s = s\<lparr>sn_expires := sn_expires (new s)\<rparr>" "sn_expires s \<le> sn_expires (new s)"
      using later by (simp_all add: new_def)
    moreover have "new s \<in> set (snapshots b)" unfolding rows by (rule imageI [OF that])
    ultimately show ?thesis by metis
  qed
  then show ?thesis by (simp add: extended_def)
qed

lemma extended_pruned:
  assumes "pruned until a b" "keyed sn_id (snapshots a)"
  shows "extended until (a, fs) (b, fs')"
proof -
  obtain gone where b: "snapshots b = delete_where (\<lambda>r. sn_id r \<in> gone) (snapshots a)"
    and old: "\<And>i. i \<in> gone \<Longrightarrow> \<exists>r\<in>set (snapshots a). sn_id r = i \<and> sn_expires r < until"
    using assms(1) unfolding pruned_def by auto
  have "s \<in> set (snapshots b)" if "s \<in> set (snapshots a)" "until \<le> sn_expires s" for s
  proof -
    have "sn_id s \<notin> gone"
    proof
      assume "sn_id s \<in> gone"
      then obtain r where "r \<in> set (snapshots a)" "sn_id r = sn_id s" "sn_expires r < until" using old by blast
      with keyed_unique [OF assms(2) this(1) that(1)] that(2) show False by auto
    qed
    with that(1) show ?thesis by (simp add: b)
  qed
  then have "\<forall>s\<in>set (snapshots a). until \<le> sn_expires s \<longrightarrow> s\<lparr>sn_expires := sn_expires s\<rparr> \<in> set (snapshots b)" by simp
  then show ?thesis unfolding extended_def fst_conv by (meson order_refl)
qed

lemma step_extended:
  assumes "snapshot_inv st" "snapshot_step env until st st'"
  shows "extended until st st'"
proof -
  obtain a fs b fs' where st: "st = (a, fs)" "st' = (b, fs')" by (metis surj_pair)
  note inv = assms(1) [unfolded st]
  from assms(2) [unfolded st] inv show ?thesis unfolding st
  proof (cases rule: snapshot_step_kinds)
    case (new f i order)
    then show "extended until (a, fs) (b, fs')"
      by (intro extended_kept) (auto simp: inserted_def insert_snapshot_def)
  next
    case (other f i order)
    then show "extended until (a, fs) (b, fs')"
      by (intro extended_kept) (auto simp: inserted_def insert_snapshot_def)
  next
    case (renew f f')
    from extended_renewed [OF renew(3)] show "extended until (a, fs) (b, fs')" .
  next
    case prune
    from extended_pruned [OF prune(2) snapshot_invD(2) [OF inv]] show "extended until (a, fs) (b, fs')" .
  qed (auto intro: extended_kept)
qed

lemma steps_extended:
  assumes run: "(snapshot_step env until)\<^sup>*\<^sup>* st st'" and inv: "snapshot_inv st"
  shows "extended until st st'"
proof (rule snapshot_system.steps_preorder [where R = "extended until", OF run inv])
  show "extended until a a" for a by (rule extended_kept) simp
  show "extended until a c" if "extended until a b" "extended until b c" for a b c
    using that by (rule extended_trans)
  show "extended until a b" if "snapshot_inv a" "snapshot_step env until a b" for a b
    using that by (rule step_extended)
qed

subsection \<open>The properties\<close>

text \<open>
  C34: In every reachable state the snapshot tables are well formed: ids and issue numbers name one
  snapshot each, the reference rows are those of the manifests (scope n of a snapshot has row
  n, with the generation of the scope) and no others, and every scope of every manifest lists
  exactly the files of its generation, in their order, and at least one.
\<close>

theorem snapshot_tables_agree:
  assumes "snapshot_system.reachable env until (db, fs)"
  shows "keyed sn_id (snapshots db) \<and> keyed sn_order (snapshots db)
    \<and> set (snapshot_refs db) = (\<Union>s\<in>set (snapshots db). set (snapshot_refs_for (sn_id s) (sn_manifest s)))
    \<and> (\<forall>s\<in>set (snapshots db). \<forall>sc\<in>set (mf_scopes (sn_manifest s)).
         mn_refs sc \<noteq> [] \<and> mn_refs sc = sort_key file_order (refs_of (mn_generation sc) (refs db)))"
  using snapshot_invD [OF snapshot_system.inv_reachable [OF assms]] unfolding manifest_filed_def by blast

lemma living_kept:
  assumes "snapshot_system.reachable env before (db, fs)" "(snapshot_step env until)\<^sup>*\<^sup>* (db, fs) (db', fs')"
    and "s \<in> set (snapshots db)" "until \<le> sn_expires s"
  shows "\<exists>e. sn_expires s \<le> e \<and> row_of sn_id (sn_id s) (snapshots db') = Some (s\<lparr>sn_expires := e\<rparr>)"
proof -
  note inv = snapshot_system.inv_reachable [OF assms(1)]
  obtain e where e: "sn_expires s \<le> e" "s\<lparr>sn_expires := e\<rparr> \<in> set (snapshots db')"
    using extendedD [OF steps_extended [OF assms(2) inv], of s] assms(3,4) by auto
  have "keyed sn_id (snapshots db')"
    using snapshot_invD(2) [OF snapshot_system.inv_steps [OF assms(2) inv]] .
  from row_of_in [OF this e(2)] e(1) show ?thesis by auto
qed

text \<open>
  C35: A snapshot stays as it is while it lives: whatever readers freeze, reuse, renew or fall back
  to, whatever is published and pruned before then, a snapshot that lives until then is still
  there with the same content, and its expiry has at most moved later.
\<close>

theorem living_snapshot_is_kept:
  assumes "snapshot_system.reachable env before (db, fs)" "(snapshot_step env until)\<^sup>*\<^sup>* (db, fs) (db', fs')"
    and "s \<in> set (snapshots db)" "until \<le> sn_expires s"
  shows "\<exists>e. sn_expires s \<le> e \<and> row_of sn_id (sn_id s) (snapshots db') = Some (s\<lparr>sn_expires := e\<rparr>)"
  using assms by (rule living_kept)

text \<open>The files a snapshot names, and why the collector must keep them.\<close>

definition snapshot_files :: "snapshot_row \<Rightarrow> ref_row list" where
  "snapshot_files s = concat (map mn_refs (mf_scopes (sn_manifest s)))"

lemma files_live:
  assumes inv: "snapshot_inv (db, fs)" and s: "s \<in> set (snapshots db)" "now - retention < sn_expires s"
    and r: "r \<in> set (snapshot_files s)"
  shows "r_digest r \<in> set (live_artifact_digests now retention None db)"
proof -
  obtain sc where sc: "sc \<in> set (mf_scopes (sn_manifest s))" "r \<in> set (mn_refs sc)"
    using r by (auto simp: snapshot_files_def)
  note filed = manifest_filed_refs [OF snapshot_invD(5) [OF inv s(1)] sc]
  obtain n where n: "n < length (mf_scopes (sn_manifest s))" "mf_scopes (sn_manifest s) ! n = sc"
    using sc(1) by (auto simp: in_set_conv_nth)
  define sr where "sr = \<lparr>sr_snapshot = sn_id s, sr_ordinal = n, sr_generation = mn_generation sc\<rparr>"
  have "sr \<in> set (snapshot_refs_for (sn_id s) (sn_manifest s))"
    using n by (auto simp: snapshot_refs_of_set sr_def)
  then have "sr \<in> set (snapshot_refs db)" using s(1) snapshot_invD(4) [OF inv] by blast
  moreover have "sn_id s \<in> set (unexpired_snapshots (now - retention) db)"
    using s by (simp add: unexpired_snapshots_def)
  ultimately have "mn_generation sc \<in> sr_generation ` set (filter (\<lambda>r. sr_snapshot r \<in> set (unexpired_snapshots (now - retention) db)) (snapshot_refs db))"
    by (force simp: sr_def)
  then have "mn_generation sc \<in> set (live_generations (now - retention) db)"
    by (simp add: live_generations_def)
  with filed show ?thesis by (simp add: live_artifact_digests_def Let_def)
qed

text \<open>
  As long as a snapshot has not been expired for longer than the retention of the collector,
  the collector counts every file the snapshot names as referenced.
\<close>

theorem snapshot_files_are_live:
  assumes "snapshot_system.reachable env until (db, fs)" "s \<in> set (snapshots db)"
    and "now - retention < sn_expires s" "sc \<in> set (mf_scopes (sn_manifest s))" "r \<in> set (mn_refs sc)"
  shows "r_digest r \<in> set (live_artifact_digests now retention None db)"
  using files_live [OF snapshot_system.inv_reachable [OF assms(1)] assms(2,3)] assms(4,5)
  by (auto simp: snapshot_files_def)

subsection \<open>The files of a snapshot that was checked once stay\<close>

text \<open>
  The tables, the directory and the collector as in Artifact_Lifetime, with the readers beside
  them.  A recheck keeps the files of the last \<open>retention\<close>; \<open>until\<close> bounds what that leaves out.
\<close>

inductive served_step ::
  "freeze_env \<Rightarrow> (text_bytes \<Rightarrow> text_bytes) \<Rightarrow> instant \<Rightarrow> export_world \<times> frozen list \<Rightarrow> export_world \<times> frozen list \<Rightarrow> bool"
  for env sha256 until where
  beside: "world_step sha256 w w' \<Longrightarrow> w_gc w \<noteq> None \<or> w_gc w' = None \<Longrightarrow> snapshots (w_db w') = snapshots (w_db w) \<Longrightarrow>
    snapshot_refs (w_db w') = snapshot_refs (w_db w) \<Longrightarrow> served_step env sha256 until (w, fs) (w', fs)"
| rechecked: "w_gc w = None \<Longrightarrow> now - retention < until \<Longrightarrow>
    served_step env sha256 until (w, fs) (w\<lparr>w_gc := Some \<lparr>gt_oldest = oldest,
      gt_rechecked = live_artifact_digests now retention (Some (batch_digests names)) (w_db w), gt_names = names\<rparr>\<rparr>, fs)"
| read: "snapshot_step env until (w_db w, fs) (db, fs') \<Longrightarrow> generations db = generations (w_db w) \<Longrightarrow>
    served_step env sha256 until (w, fs) (w\<lparr>w_db := db\<rparr>, fs')"

definition served_inv :: "export_world \<times> frozen list \<Rightarrow> bool" where
  "served_inv sw \<longleftrightarrow> snapshot_inv (w_db (fst sw), snd sw)"

definition served_start :: "export_world \<times> frozen list \<Rightarrow> bool" where
  "served_start sw \<longleftrightarrow> world_start (fst sw) \<and> snapshot_start (w_db (fst sw), snd sw)"

lemma world_step_tables:
  assumes "world_step sha256 w w'"
  shows "w_db w' = w_db w \<or> export_step (w_db w) (w_db w')"
  using assms by cases (auto intro: export_step.intros)

lemma served_inv_step: "served_inv sw \<Longrightarrow> served_step env sha256 until sw sw' \<Longrightarrow> served_inv sw'"
proof -
  assume inv: "served_inv sw" and step: "served_step env sha256 until sw sw'"
  from step show "served_inv sw'"
  proof cases
    case (beside w w' fs)
    from world_step_tables [OF beside(3)] show ?thesis
    proof
      assume "w_db w' = w_db w"
      with inv beside show ?thesis by (simp add: served_inv_def)
    next
      assume "export_step (w_db w) (w_db w')"
      with inv_tables [OF _ this beside(5,6)] inv beside show ?thesis by (simp add: served_inv_def)
    qed
  next
    case (rechecked w now retention fs)
    with inv show ?thesis by (simp add: served_inv_def)
  next
    case (read w fs db fs')
    with inv snapshot_inv_step [of "(w_db w, fs)" env until "(db, fs')"] show ?thesis by (simp add: served_inv_def)
  qed
qed

interpretation served_system: step_invariant served_start "served_step env sha256 until" served_inv for env sha256 until
  by unfold_locales (simp_all add: served_start_def served_inv_step, simp add: served_inv_def snapshot_inv_start)

text \<open>While the collector is between its recheck and its last unlink, it spares these files.\<close>

definition spares :: "ref_row list \<Rightarrow> export_world \<Rightarrow> bool" where
  "spares rs w \<longleftrightarrow> (case w_gc w of None \<Rightarrow> True | Some t \<Rightarrow>
     (\<forall>r\<in>set rs. \<forall>name\<in>set (gt_names t). artifact_digest name = Some (r_digest r) \<longrightarrow> r_digest r \<in> set (gt_rechecked t)))"

definition stays :: "snapshot_row \<Rightarrow> export_world \<Rightarrow> bool" where
  "stays s w \<longleftrightarrow> (\<exists>e. sn_expires s \<le> e \<and> s\<lparr>sn_expires := e\<rparr> \<in> set (snapshots (w_db w)))
     \<and> present_refs (w_dir w) (snapshot_files s) \<and> spares (snapshot_files s) w"

lemma world_step_files:
  assumes step: "world_step sha256 w w'" and gc: "w_gc w \<noteq> None \<or> w_gc w' = None"
    and old: "present_refs (w_dir w) rs" "spares rs w"
  shows "present_refs (w_dir w') rs \<and> spares rs w'"
  using step
proof cases
  case (chunk_write now chunk dir)
  have "store_present dir (r_digest r) (r_bytes r) = Inr ()" if "r \<in> set rs" for r
    using present_after_write [OF chunk_write(3,4)] old(1) that by (simp add: present_refs_def)
  with old(2) chunk_write show ?thesis by (simp add: present_refs_def spares_def)
next
  case (recheck oldest now retention names)
  with gc show ?thesis by simp
next
  case (collect t name names refuses r)
  have "store_present (fst (gc_unlink refuses (gt_oldest t) (gt_rechecked t) name (w_dir w, r))) (r_digest x) (r_bytes x) = Inr ()"
    if x: "x \<in> set rs" for x
  proof (rule present_after_unlink)
    show "store_present (w_dir w) (r_digest x) (r_bytes x) = Inr ()" using old(1) x by (simp add: present_refs_def)
    show "artifact_digest name = Some (r_digest x) \<longrightarrow> r_digest x \<in> set (gt_rechecked t)"
      using old(2) x collect(2,3) by (simp add: spares_def)
  qed
  moreover have "spares rs w'" using old(2) collect by (simp add: spares_def)
  ultimately show ?thesis using collect(1) by (simp add: present_refs_def)
qed (use old in \<open>simp_all add: spares_def split: option.splits\<close>)

lemma stays_step:
  assumes inv: "served_inv (w, fs)" and step: "served_step env sha256 until (w, fs) (w', fs')"
    and s: "until \<le> sn_expires s" "stays s w"
  shows "stays s w'"
  using step
proof cases
  case beside
  with world_step_files [OF beside(2,3)] s(2) show ?thesis by (simp add: stays_def)
next
  case (rechecked now retention oldest names)
  obtain e where e: "sn_expires s \<le> e" "s\<lparr>sn_expires := e\<rparr> \<in> set (snapshots (w_db w))"
    using s(2) by (auto simp: stays_def)
  have "r_digest r \<in> set (live_artifact_digests now retention None (w_db w))" if "r \<in> set (snapshot_files s)" for r
    using files_live [OF inv [unfolded served_inv_def, simplified] e(2), of now retention r] e(1) s(1) rechecked that
    by (simp add: snapshot_files_def)
  moreover have "d \<in> set (batch_digests names)" if "name \<in> set names" "artifact_digest name = Some d" for name d
    using that by (force simp: batch_digests_def)
  ultimately have "spares (snapshot_files s) w'" by (simp add: rechecked(1) spares_def live_restricted)
  with s(2) show ?thesis by (simp add: stays_def rechecked(1))
next
  case (read db)
  obtain e where e: "sn_expires s \<le> e" "s\<lparr>sn_expires := e\<rparr> \<in> set (snapshots (w_db w))"
    using s(2) by (auto simp: stays_def)
  have "extended until (w_db w, fs) (db, fs')"
    using step_extended [OF _ read(2)] inv by (simp add: served_inv_def)
  then obtain e' where "e \<le> e'" "s\<lparr>sn_expires := e'\<rparr> \<in> set (snapshots db)"
    using extendedD [of until "(w_db w, fs)" "(db, fs')" "s\<lparr>sn_expires := e\<rparr>"] e s(1) by auto
  with e(1) have "\<exists>e. sn_expires s \<le> e \<and> s\<lparr>sn_expires := e\<rparr> \<in> set (snapshots db)" by (meson order_trans)
  with s(2) show ?thesis by (simp add: stays_def spares_def read(1))
qed

lemma stays_steps:
  assumes run: "(served_step env sha256 until)\<^sup>*\<^sup>* sw sw'" and inv: "served_inv sw"
    and s: "until \<le> sn_expires s" "stays s (fst sw)"
  shows "stays s (fst sw')"
  using run
proof (induction rule: rtranclp_induct)
  case base
  from s(2) show ?case .
next
  case (step y z)
  have "served_inv y" by (rule served_system.inv_steps [OF step(1) inv])
  with step stays_step [of "fst y" "snd y" env sha256 until "fst z" "snd z" s] s(1) show ?case by simp
qed

text \<open>
  C31: The files of a snapshot that were once found present (the check of
  ensure_snapshot_files, under the guard) stay present until the snapshot expires: however
  publications, writes, collector batches, renewals, freezes and prunings interleave.
\<close>

theorem served_files_survive:
  assumes "served_system.reachable env sha256 before (w, fs)" "w_gc w = None"
    and "s \<in> set (snapshots (w_db w))" "until \<le> sn_expires s" "present_refs (w_dir w) (snapshot_files s)"
    and "(served_step env sha256 until)\<^sup>*\<^sup>* (w, fs) (w', fs')"
  shows "present_refs (w_dir w') (snapshot_files s)"
proof -
  have "s\<lparr>sn_expires := sn_expires s\<rparr> \<in> set (snapshots (w_db w))" using assms(3) by simp
  then have "stays s (fst (w, fs))" using assms(2,5) unfolding stays_def spares_def by auto
  from stays_steps [OF assms(6) served_system.inv_reachable [OF assms(1)] assms(4) this]
  show ?thesis by (simp add: stays_def)
qed

end
