(* ===== verification/Selection_Example.thy ===== *)
theory Selection_Example
  imports Snapshot_Properties
begin

section \<open>A selection, a freeze and its files\<close>

text \<open>
  The published database of Export_Example, read: once with the roster of its run declared, where
  the selection is confirmed, and once as it stands, where a freeze says that it is not.
\<close>

subsection \<open>The selection\<close>

definition s_run :: sync_run where "s_run = (example_run ''success'')\<lparr>sr_cohort := True\<rparr>"
definition s_db :: export_db where "s_db = x13\<lparr>sync := \<lparr>runs = [s_run], statuses = [], fetch_clocks = []\<rparr>\<rparr>"
definition s_target :: target where "s_target = \<lparr>tg_location = ''l'', tg_latitude = 1, tg_longitude = 2\<rparr>"
definition s_roster :: cohort_row where
  "s_roster = roster_row ''p'' ''d'' s_run [s_target] (Some [x_descriptor]) 4"
definition s_scope :: approved_scope where
  "s_scope = \<lparr>as_descriptor = x_descriptor, as_generation = ''g1'', as_locations = [''l''], as_collected = 3, as_revision = 3, as_published = 8\<rparr>"

definition x_approved :: inventory_row where
  "x_approved = approved_row (\<lambda>s. xh) (he_float x_env) x_descriptor x_generation x_location"

lemma x_approved_simps [simp]: "i_provider x_approved = ''p''" "i_dataset x_approved = ''d''" "i_location x_approved = ''l''"
  "i_part x_approved = ''main''" "i_namespace x_approved = xh" "i_generation x_approved = ''g1''" "i_scope x_approved = xh"
  "i_latitude x_approved = 1" "i_longitude x_approved = 2" "i_nx x_approved = None" "i_ny x_approved = None"
  "i_collected x_approved = 3" "i_published x_approved = 8"
  apply (simp_all add: x_approved_def approved_row_def x_descriptor_def x_scope_def x_location_def)
  apply (simp_all add: x_generation_def new_generation_def x_promotion_def)
  done

lemma x_generation_simps [simp]: "g_revision x_generation = 3" "g_collected x_generation = 3" "g_created x_generation = 8"
  by (simp_all add: x_generation_def new_generation_def x_promotion_def)

lemma x_sizes: "plan_bytes (he_float x_env) x_descriptor < 1000" "ascii_size (dump_descriptor (he_float x_env) x_descriptor) < 1000"
  unfolding plan_bytes_def by code_simp+

lemma s_db_simps [simp]: "inventory s_db = [x_approved]" "generations s_db = [x_generation]" "heads s_db = [x_head]"
  "owners s_db = [x_owner]" "attempts s_db = [x_row (Some [(xh, 1)]) 1 (Some 6) Sealed (Some 8)]" "plans s_db = [x_plan True]"
  "locations s_db = [x_location]" "runs (sync s_db) = [s_run]"
  by (simp_all add: s_db_def) (simp_all add: x13_def finish_publication_def publish_rows_def x12_def x_approved_def)

lemma s_rows: "inventory db = [x_approved] \<Longrightarrow> generations db = [x_generation] \<Longrightarrow> selected_rows [(''p'', ''d'')] db = [(x_approved, x_generation)]"
  by (simp add: selected_rows_def List.map_filter_def row_of_Cons)

lemma x_expiry: "part_expired 9 x_approved = False"
  by (simp add: part_expired_def source_expiry_def SOURCE_EXPIRY_FLOOR_def hours_def seconds_def microseconds_per_second_def)

lemma x_in_catalog: "in_catalog [x_location] x_approved"
  by (simp add: in_catalog_def row_of_Cons x_location_def)

lemma s_unexpired: "expired_rows 9 [x_location] [(x_approved, x_generation)] = []"
  "unexpired 9 [x_location] [(x_approved, x_generation)] = [(x_approved, x_generation)]"
  by (simp_all add: expired_rows_def unexpired_def x_expiry)

lemma s_plans: "parsed_scope_plans (he_float x_env) [x_plan True] [''a1''] [] = (Inr [(''a1'', x_descriptor)], [(''a1'', x_descriptor)])"
proof -
  have read: "read_scope_plans (he_float x_env) [x_plan True] [''a1''] = Inr [(''a1'', x_descriptor)]"
    using x_sizes by (simp add: read_scope_plans_def MAX_SOURCE_SCOPES_def MAX_SCOPE_PLAN_BYTES_def MAX_MANIFEST_BYTES_def)
  have "remember (he_float x_env) [(''a1'', x_descriptor)] [] = [(''a1'', x_descriptor)]"
    using x_sizes by (simp add: remember_def PLAN_CACHE_SIZE_def PLAN_CACHE_BYTES_def cache_bytes_def)
  with read x_sizes show ?thesis
    by (simp add: parsed_scope_plans_def MAX_SOURCE_SCOPES_def remembered_def List.map_filter_def cache_bytes_def MAX_MANIFEST_BYTES_def)
qed

definition s_part :: admitted_part where
  "s_part = \<lparr>ad_valid = [(x_approved, x_generation)], ad_plans = [(''a1'', x_descriptor)], ad_expired = []\<rparr>"

lemma s_part_simps [simp]: "ad_valid s_part = [(x_approved, x_generation)]" "ad_plans s_part = [(''a1'', x_descriptor)]"
  "ad_expired s_part = []"
  by (simp_all add: s_part_def)

lemma s_part_eq: "inventory db = [x_approved] \<Longrightarrow> generations db = [x_generation] \<Longrightarrow> plans db = [x_plan True] \<Longrightarrow>
    approved_part x_env [(''p'', ''d'')] [] [x_location] 9 db []
    = (Inr s_part, [(''a1'', x_descriptor)])"
proof -
  assume tables: "inventory db = [x_approved]" "generations db = [x_generation]" "plans db = [x_plan True]"
  have ok: "approval_error x_env [x_location] [(''a1'', x_descriptor)] (x_approved, x_generation) = None"
    by (simp add: approval_error_def row_of_Cons) (simp add: x_location_def anchor_ok_def same_place_def x_descriptor_def x_scope_def)
  show ?thesis
    by (simp add: approved_part_def tables s_rows s_unexpired x_in_catalog MAX_SELECTED_ROWS_def ap_source_def sorted_set_def s_plans ok s_part_def)
qed

lemma s_run_simps [simp]: "sr_id s_run = ''run_a''" "sr_status s_run = ''success''" "sr_provider s_run = ''p''"
  "sr_dataset s_run = ''d''" "sr_cohort s_run = True" "sr_started s_run = 0"
  by (simp_all add: s_run_def) (simp_all add: example_run_def)

lemmas clock_defs = hours_def minutes_def seconds_def microseconds_per_second_def

lemma s_ages: "counts_for_freshness 3 9" "\<not> aged 9 (x_approved, x_generation)"
  by (simp_all add: counts_for_freshness_def FRESHNESS_WINDOW_def SOURCE_EXPIRY_FLOOR_def aged_def source_max_age_def clock_defs
      SDK_NETWORKS_def ends_with_def)

lemma s_health:
  assumes "for_health health ''l''"
  shows "health_rows health 9 [(x_approved, x_generation)] = [(x_approved, x_generation)]"
    "unconfirmed_rows [(''p'', ''d'')] health 9 s_db [(x_approved, x_generation)] = False"
proof -
  show h: "health_rows health 9 [(x_approved, x_generation)] = [(x_approved, x_generation)]"
    by (simp add: health_rows_def assms s_ages)
  have "run_at ''run_a'' s_db = Some s_run" by (simp add: row_of_Cons)
  then have "active_owners [xh] s_db = [(x_owner, x_row (Some [(xh, 1)]) 1 (Some 6) Sealed (Some 8), Some x_generation)]"
    "\<not> owner_in_trouble s_db (x_owner, x_row (Some [(xh, 1)]) 1 (Some 6) Sealed (Some 8), Some x_generation)"
    by (simp_all add: active_owners_def owner_in_trouble_def row_of_Cons x_owner_def) code_simp
  then show "unconfirmed_rows [(''p'', ''d'')] health 9 s_db [(x_approved, x_generation)] = False"
    by (simp add: unconfirmed_rows_def h Let_def silent_source_def ap_source_def s_ages row_of_Cons split: option.split)
qed

lemma x_descriptor_simps [simp]: "d_provider x_descriptor = ''p''" "d_dataset x_descriptor = ''d''" "d_locations x_descriptor = [''l'']"
  "d_source_part x_descriptor = ''main''"
  by (simp_all add: x_descriptor_def x_scope_def)

lemma s_roster_ok:
  "for_health health ''l'' \<Longrightarrow> roster_unconfirmed x_env [s_roster] health 9 s_db s_part (''p'', ''d'') = Inr False"
  by (simp add: roster_unconfirmed_def s_health ap_source_def row_of_Cons roster_of_def part_unapproved_def for_health_def i_pk_def
    s_ages latest_cohort_run_def s_roster_def co_source_def roster_row_def s_target_def Let_def)

lemma s_roster_none: "roster_unconfirmed x_env [] None 9 x13 s_part (''p'', ''d'') = Inr True"
  by (simp add: roster_unconfirmed_def row_of_def)


definition s_sel :: "bool \<Rightarrow> approved_selection" where
  "s_sel late = \<lparr>al_scopes = [s_scope], al_unconfirmed = late, al_expired = []\<rparr>"

lemma s_scopes: "all_scopes_of [(''a1'', x_descriptor)] (approved_groups [(x_approved, x_generation)]) = Inr [s_scope]"
  by (simp add: approved_groups_def sorted_set_def scope_of_group_def s_scope_def)

lemma s_select: "for_health health ''l'' \<Longrightarrow>
  approved_source_selection x_env [s_roster] [(''p'', ''d'')] [] health [x_location] 9 s_db []
    = (Inr (s_sel False), [(''a1'', x_descriptor)])"
  by (simp add: approved_source_selection_def s_part_eq s_roster_ok s_scopes s_health MAX_SOURCE_SCOPES_def s_sel_def)

lemma s_plan_right: "cache_right (he_float x_env) (plans s_db) []"
  by (simp add: cache_right_def)

lemma s_asked [simp]: "for_health None k" "for_health (Some [''l'']) ''l''"
  by (simp_all add: for_health_def)

lemma s_keyed: "keyed i_pk [x_approved]" "keyed p_attempt [x_plan True]" "keyed o_scope [x_owner]" "keyed g_attempt [x_generation]"
  by (simp_all add: keyed_def)

text \<open>A later run asks for the location at another place.\<close>

definition s_run2 :: sync_run where
  "s_run2 = s_run\<lparr>sr_id := ''run_b'', sr_started := 5, sr_status := ''running'', sr_provider := ''open_meteo'', sr_dataset := ''open_meteo_current''\<rparr>"
definition s_moved :: target where "s_moved = \<lparr>tg_location = ''l'', tg_latitude = 35, tg_longitude = 128\<rparr>"
definition s_older :: cohort_row where "s_older = roster_row ''open_meteo'' ''open_meteo_current'' s_run [s_target] None 4"
definition s_newer :: cohort_row where "s_newer = roster_row ''open_meteo'' ''open_meteo_current'' s_run2 [s_moved] None 6"
lemma s_redeclare: "declare_external_cohort (he_float x_env) ''run_b'' ''open_meteo'' ''open_meteo_current'' [s_moved] 6 [s_run2] [s_older]
   = Inr ([s_moved], [s_newer])"
proof -
  have ok: "descriptor_ok (roster_descriptor ''open_meteo'' ''open_meteo_current'' s_moved)" by code_simp
  have "length (spaced_text (JArr [target_json (he_float x_env) s_moved])) < 1000" by code_simp
  then have short: "length (spaced_text (JArr [target_json (he_float x_env) s_moved])) \<le> MAX_COHORT_BYTES"
    by (simp add: MAX_COHORT_BYTES_def)
  have claim: "claim_roster same s_newer [s_older] = Inr [s_newer]" for same
    by (simp add: claim_roster_def s_newer_def s_older_def roster_row_def co_source_def co_order_def s_run2_def row_of_Cons upsert_def update_where_def)
  have run: "run_row ''run_b'' [s_run2] = Some s_run2" "is_running s_run2" "sr_provider s_run2 = ''open_meteo''"
    "sr_dataset s_run2 = ''open_meteo_current''"
    by (simp_all add: s_run2_def row_of_Cons is_running_def)
  show ?thesis
    using short by (simp add: declare_external_cohort_def external_roster_def ok run claim s_newer_def [symmetric] MAX_EXTERNAL_TARGETS_def)
qed

theorem roster_belongs_to_the_latest_run_witness:
  "row_of co_source (''open_meteo'', ''open_meteo_current'') [s_newer] = Some s_newer \<and> co_order s_older \<le> co_order s_newer"
proof -
  have "roster_step\<^sup>*\<^sup>* [s_older] [s_newer]" using external [OF s_redeclare] by (rule r_into_rtranclp)
  moreover have "row_of co_source (''open_meteo'', ''open_meteo_current'') [s_older] = Some s_older"
    "row_of co_source (''open_meteo'', ''open_meteo_current'') [s_newer] = Some s_newer"
    by (simp_all add: row_of_Cons s_older_def s_newer_def roster_row_def co_source_def)
  ultimately show ?thesis using roster_belongs_to_the_latest_run [of "[s_older]" "[s_newer]"] by fastforce
qed

theorem selection_is_what_is_approved_witness: "backed_by_plan x_env s_db [x_location] (x_approved, x_generation)"
proof -
  have "showable x_env s_db [(''p'', ''d'')] [x_location] 9 (x_approved, x_generation)"
    by (simp add: showable_def ap_source_def row_of_Cons x_in_catalog x_expiry)
  with selection_is_what_is_approved [OF s_select [OF s_asked(1)] _ _ s_plan_right] s_keyed show ?thesis by simp
qed

theorem confirmed_means_the_last_run_witness:
  "roster_met (Some [''l'']) x_env [s_roster] s_db [x_location] [(''p'', ''d'')] 9 (''p'', ''d'')
    \<and> well_kept s_db 9 (x_approved, x_generation)"
proof -
  have shown: "fresh_showable (Some [''l'']) x_env s_db [(''p'', ''d'')] [x_location] 9 (x_approved, x_generation)"
    by (simp add: fresh_showable_def showable_def ap_source_def row_of_Cons x_in_catalog x_expiry s_ages)
  then have "asked (Some [''l'']) x_env [s_roster] s_db [x_location] [(''p'', ''d'')] 9 (''p'', ''d'')"
    unfolding asked_def by (intro disjI2 exI [of _ "(x_approved, x_generation)"]) (simp add: ap_source_def)
  with shown confirmed_means_the_last_run [OF s_select [OF s_asked(2)] _ _ _ s_plan_right] s_keyed show ?thesis
    by (simp add: s_sel_def)
qed

theorem plan_memory_does_not_show_witness:
  "cache_right (he_float x_env) [x_plan True] [(''a1'', x_descriptor)] \<and> cache_bounded (he_float x_env) [(''a1'', x_descriptor)]"
  using plan_memory_does_not_show [OF s_keyed(2) _ _ s_plans] by (simp add: cache_right_def cache_bounded_def cache_bytes_def)

subsection \<open>The freeze\<close>

definition z_env :: freeze_env where
  "z_env = \<lparr>fz_head = x_env, fz_key = (\<lambda>i x y. i), fz_address = (\<lambda>i. None)\<rparr>"

definition z_reader :: reader where
  "z_reader = \<lparr>rd_providers = [''p''], rd_inventory = True, rd_expected = [(''p'', ''d'')], rd_optional = []\<rparr>"

lemma z_simps [simp]: "fz_head z_env = x_env" "fz_address z_env i = None" "rd_inventory z_reader" "rd_providers z_reader = [''p'']"
  "rd_expected z_reader = [(''p'', ''d'')]" "rd_optional z_reader = []"
  by (simp_all add: z_env_def z_reader_def)

definition z_ref :: ref_row where
  "z_ref = generation_ref ''g1'' (0, \<lparr>fr_digest = xh, fr_bytes = 1, fr_points = 1, fr_locations = [''l'']\<rparr>)"

lemma z_ref_simps [simp]: "r_generation z_ref = ''g1''" "r_ordinal z_ref = 0" "r_digest z_ref = xh" "r_bytes z_ref = 1"
  "r_points z_ref = 1" "r_locations z_ref = Some [''l'']"
  by (simp_all add: z_ref_def generation_ref_def)

lemma z_ref_fold [simp]:
  "generation_ref ''g1'' (0, \<lparr>fr_digest = xh, fr_bytes = 1, fr_points = 1, fr_locations = [''l'']\<rparr>) = z_ref"
  by (simp add: z_ref_def)

lemma x13_more [simp]: "inventory x13 = [x_approved]" "plans x13 = [x_plan True]" "locations x13 = [x_location]"
  "snapshots x13 = []" "snapshot_refs x13 = []" "refs x13 = [z_ref]" "runs (sync x13) = [example_run ''success'']"
  by (simp_all add: x13_def finish_publication_def publish_rows_def x12_def x_approved_def x_examined_def)
    (simp_all add: x_db_def example_db_def)

lemma z_select: "approved_source_selection x_env [] [(''p'', ''d'')] [] None [x_location] 9 x13 []
    = (Inr (s_sel True), [(''a1'', x_descriptor)])"
  by (simp add: approved_source_selection_def s_part_eq s_roster_none s_scopes MAX_SOURCE_SCOPES_def s_sel_def)

definition z_scope :: frozen_scope where
  "z_scope = \<lparr>fs_descriptor = x_descriptor, fs_generation = ''g1'', fs_collected = 3, fs_revision = 3, fs_locations = [''l'']\<rparr>"

definition z_manifest_scope :: manifest_scope where
  "z_manifest_scope = manifest_scope_of z_env z_reader [z_ref] z_scope"

definition z_shown :: shown_location where
  "z_shown = \<lparr>sh_id = ''l'', sh_name = ''L'', sh_latitude = 1, sh_longitude = 2, sh_legal_dong = None, sh_sido = None,
     sh_sigungu = None\<rparr>"

definition z_manifest :: manifest where
  "z_manifest = \<lparr>mf_scopes = [z_manifest_scope], mf_locations = [z_shown], mf_unconfirmed = Some True,
     mf_selection = current_selection z_env z_reader, mf_limited = False\<rparr>"

lemma z_sizes: "ref_bytes z_ref < 1000" "ascii_size (json_option json_strings (Some [''l''])) < 1000"
  "length (encode (scope_json z_manifest_scope)) < 1000" "length (encode (shown_json (he_float x_env) z_shown)) < 1000"
  "length (encode (manifest_json (he_float x_env) z_manifest)) < 2000"
  by code_simp+

lemma z_build: "build_manifest z_env z_reader [] 9 x13 [] = (Inr (z_manifest, [z_scope]), [(''a1'', x_descriptor)])"
proof -
  have frozen: "approved_frozen s_scope = z_scope" by (simp add: approved_frozen_def s_scope_def z_scope_def)
  have scope: "fs_generation z_scope = ''g1''" by (simp add: z_scope_def)
  have roster: "enabled_roster x13 = [x_location]"
    by (simp add: enabled_roster_def) (simp add: x_location_def)
  have refs: "read_generation_refs [''g1''] x13 = Inr [z_ref]"
    using z_sizes by (simp add: read_generation_refs_def Let_def MAX_SOURCE_SCOPES_def MAX_GENERATION_REFS_def
      MAX_REF_LOCATION_BYTES_def MAX_MANIFEST_BYTES_def)
  have within: "refs_within [z_ref]"
    by (simp add: refs_within_def MAX_GENERATION_FILES_def MAX_GENERATION_BYTES_def)
  have own: "refs_of ''g1'' [z_ref] = [z_ref]" by (simp add: refs_of_def)
  have scopes: "manifest_scopes z_env z_reader [z_ref] 0 [z_scope]
      = Inr ([z_manifest_scope], length (encode (scope_json z_manifest_scope)))"
    using z_sizes by (simp add: scope own within z_manifest_scope_def [symmetric] Let_def MAX_MANIFEST_BYTES_def)
  have shown: "shown_location_of z_env x_location = z_shown"
    by (simp add: shown_location_of_def z_shown_def x_location_def)
  show ?thesis
    using z_sizes
    by (simp add: build_manifest_def roster MAX_SNAPSHOT_LOCATIONS_def select_current_scopes_def z_select s_sel_def frozen
        scope refs scopes shown MAX_MANIFEST_BYTES_def MANIFEST_STATE_RESERVE_def z_manifest_def [symmetric] del: manifest_scopes.simps)
qed

definition z_snapshot :: snapshot_row where
  "z_snapshot = \<lparr>sn_id = ''s1'', sn_order = 1, sn_digest = xh, sn_manifest = z_manifest, sn_collected = Some 3, sn_revision = 3,
     sn_created = 9, sn_expires = 9 + SNAPSHOT_TTL\<rparr>"

definition z_frozen :: frozen where
  "z_frozen = \<lparr>fr_row = z_snapshot, fr_reused = False, fr_unconfirmed = False\<rparr>"

definition z_db :: export_db where "z_db = insert_snapshot z_snapshot x13"

lemma z_snapshot_simps [simp]: "sn_id z_snapshot = ''s1''" "sn_order z_snapshot = 1" "sn_manifest z_snapshot = z_manifest"
  "sn_expires z_snapshot = 9 + SNAPSHOT_TTL" "sn_digest z_snapshot = xh"
  by (simp_all add: z_snapshot_def)

lemma z_freeze: "freeze z_env z_reader [] 9 ''s1'' 1 x13 [] = (Inr (z_frozen, z_db), [(''a1'', x_descriptor)])"
proof -
  have "freshness 9 [z_scope] = (3, 3)" by (simp add: freshness_def z_scope_def)
  then show ?thesis
    by (simp add: freeze_def z_build Let_def reusable_def newest_def z_frozen_def z_db_def z_snapshot_def)
qed

lemma z_db_simps [simp]: "snapshots z_db = [z_snapshot]" "generations z_db = [x_generation]"
  "snapshot_refs z_db = [\<lparr>sr_snapshot = ''s1'', sr_ordinal = 0, sr_generation = ''g1''\<rparr>]"
proof -
  have "snapshot_refs_for ''s1'' z_manifest = [\<lparr>sr_snapshot = ''s1'', sr_ordinal = 0, sr_generation = ''g1''\<rparr>]"
    by (simp add: snapshot_refs_for_def z_manifest_def z_manifest_scope_def manifest_scope_of_def z_scope_def)
  then show "snapshots z_db = [z_snapshot]" "generations z_db = [x_generation]"
    "snapshot_refs z_db = [\<lparr>sr_snapshot = ''s1'', sr_ordinal = 0, sr_generation = ''g1''\<rparr>]"
    by (simp_all add: z_db_def insert_snapshot_def)
qed

lemma z_fresh: "fresh_handle ''s1'' 1 (x13, [])" by (simp add: fresh_handle_def)

lemma z_step: "snapshot_step z_env until (x13, []) (z_db, [z_frozen])"
  by (rule by_freeze [OF z_fresh z_freeze])

lemma x_no_snapshots [simp]: "snapshots (x_db st ats os ps es cs shut vs evs pns) = []"
  "snapshot_refs (x_db st ats os ps es cs shut vs evs pns) = []"
  by (simp_all add: x_db_def)

lemma x_snapshots [simp]:
  "snapshots x0 = []" "snapshots x1 = []" "snapshots x2 = []" "snapshots x3 = []" "snapshots x4 = []" "snapshots x5 = []"
  "snapshots x6 = []" "snapshots x7 = []" "snapshots x8 = []" "snapshots x9 = []" "snapshots x10 = []" "snapshots x11 = []"
  "snapshots x12 = []"
  "snapshot_refs x1 = []" "snapshot_refs x2 = []" "snapshot_refs x3 = []" "snapshot_refs x4 = []"
  "snapshot_refs x5 = []" "snapshot_refs x6 = []" "snapshot_refs x7 = []" "snapshot_refs x8 = []" "snapshot_refs x9 = []"
  "snapshot_refs x10 = []" "snapshot_refs x11 = []" "snapshot_refs x12 = []"
  by (simp add: x0_def)
    (simp_all add: x1_def x2_def x3_def x4_def x5_def x6_def x7_def x8_def x9_def x10_def x11_def x12_def)

lemma z_lift:
  assumes "served_system.reachable env sha256 until (\<lparr>w_db = a, w_dir = d, w_gc = None\<rparr>, [])" "export_step a b"
    and "generations b = generations a" "snapshots b = snapshots a" "snapshot_refs b = snapshot_refs a"
  shows "served_system.reachable env sha256 until (\<lparr>w_db = b, w_dir = d, w_gc = None\<rparr>, [])"
  by (rule served_system.reachable_step [OF assms(1)])
    (use beside [of sha256 "\<lparr>w_db = a, w_dir = d, w_gc = None\<rparr>" "\<lparr>w_db = b, w_dir = d, w_gc = None\<rparr>"]
      transaction [of "\<lparr>w_db = a, w_dir = d, w_gc = None\<rparr>" b] assms(2-5) in simp)

definition z_world :: "export_db \<Rightarrow> export_world" where "z_world db = \<lparr>w_db = db, w_dir = x_dir, w_gc = None\<rparr>"

lemma z_world_simps [simp]: "w_db (z_world db) = db" "w_dir (z_world db) = x_dir" "w_gc (z_world db) = None"
  "(z_world db)\<lparr>w_db := db'\<rparr> = z_world db'"
  by (simp_all add: z_world_def)

lemma z_reach13: "served_system.reachable z_env (\<lambda>s. xh) until (z_world x13, [])"
proof -
  have 0: "served_system.reachable z_env (\<lambda>s. xh) until (\<lparr>w_db = x0, w_dir = [], w_gc = None\<rparr>, [])"
    by (rule served_system.reachable_start)
      (simp add: served_start_def world_start_def snapshot_start_def export_start_def, simp add: x0_def)
  have "store_publish (\<lambda>s. xh) 0 x_chunk [] = Inr x_dir"
    by (simp add: store_publish_def store_path_def x_chunk_def MAX_CHUNK_BYTES_def x_dir_def upsert_Nil)
  then have "world_step (\<lambda>s. xh) \<lparr>w_db = x0, w_dir = [], w_gc = None\<rparr> \<lparr>w_db = x0, w_dir = x_dir, w_gc = None\<rparr>"
    using chunk_write [of "\<lparr>w_db = x0, w_dir = [], w_gc = None\<rparr>" "\<lambda>s. xh" 0 x_chunk x_dir] by (simp add: no_collision_def)
  note 00 = served_system.reachable_step [OF 0 beside [OF this], simplified]
  note 1 = z_lift [OF 00 x_step1, simplified]
  note 2 = z_lift [OF 1 x_step2, simplified]
  note 3 = z_lift [OF 2 x_step3, simplified]
  note 4 = z_lift [OF 3 x_step4, simplified]
  note 5 = z_lift [OF 4 x_step5, simplified]
  note 6 = z_lift [OF 5 x_step6, simplified]
  note 7 = z_lift [OF 6 x_step7, simplified]
  note 8 = z_lift [OF 7 x_step8, simplified]
  note 9 = z_lift [OF 8 x_step9, simplified]
  note 10 = z_lift [OF 9 x_step10, simplified]
  note 11 = z_lift [OF 10 x_step11, simplified]
  note 12 = z_lift [OF 11 by_prepare [OF x_prepare], simplified]
  have "world_step (\<lambda>s. xh) (\<lparr>w_db = x12, w_dir = x_dir, w_gc = None\<rparr>) (\<lparr>w_db = x13, w_dir = x_dir, w_gc = None\<rparr>)"
    using publication [of "\<lparr>w_db = x12, w_dir = x_dir, w_gc = None\<rparr>"] x_commit by simp
  from served_system.reachable_step [OF 12 beside [OF this]] show ?thesis by (simp add: z_world_def)
qed

text \<open>The snapshot in the world, its files checked.\<close>

lemma z_served: "served_system.reachable z_env (\<lambda>s. xh) until (z_world z_db, [z_frozen])"
  using served_system.reachable_step [OF z_reach13 read [of z_env until "z_world x13" "[]" z_db "[z_frozen]" "\<lambda>s. xh"]] z_step by simp

lemma z_reach: "snapshot_system.reachable z_env until (z_db, [z_frozen])"
proof -
  have step: "snapshot_step z_env until (a, []) (b, [])"
    if "export_step a b" "snapshots a = []" "snapshots b = []" "snapshot_refs a = []" "snapshot_refs b = []" for a b
    using that by (simp add: by_tables)
  have 0: "snapshot_system.reachable z_env until (x0, [])"
    by (rule snapshot_system.reachable_start) (simp add: snapshot_start_def export_start_def, simp add: x0_def)
  note 1 = snapshot_system.reachable_step [OF 0 step [OF x_step1], simplified]
  note 2 = snapshot_system.reachable_step [OF 1 step [OF x_step2], simplified]
  note 3 = snapshot_system.reachable_step [OF 2 step [OF x_step3], simplified]
  note 4 = snapshot_system.reachable_step [OF 3 step [OF x_step4], simplified]
  note 5 = snapshot_system.reachable_step [OF 4 step [OF x_step5], simplified]
  note 6 = snapshot_system.reachable_step [OF 5 step [OF x_step6], simplified]
  note 7 = snapshot_system.reachable_step [OF 6 step [OF x_step7], simplified]
  note 8 = snapshot_system.reachable_step [OF 7 step [OF x_step8], simplified]
  note 9 = snapshot_system.reachable_step [OF 8 step [OF x_step9], simplified]
  note 10 = snapshot_system.reachable_step [OF 9 step [OF x_step10], simplified]
  note 11 = snapshot_system.reachable_step [OF 10 step [OF x_step11], simplified]
  note 12 = snapshot_system.reachable_step [OF 11 step [OF by_prepare [OF x_prepare]], simplified]
  note 13 = snapshot_system.reachable_step [OF 12 step [OF by_commit [OF x_commit]], simplified]
  show ?thesis by (rule snapshot_system.reachable_step [OF 13 z_step])
qed

lemma z_prune: "snapshot_step z_env 200 (z_db, [z_frozen]) (z_db, [z_frozen])"
proof -
  have "prune_export_snapshots [] 0 20 100 z_db = Inr (0, z_db)"
    by (simp add: prune_export_snapshots_def delete_where_def SNAPSHOT_TTL_def clock_defs)
  then show ?thesis using by_prune [of 100 0 200 "[]" 20 z_db 0 z_db] by simp
qed

lemma z_files: "snapshot_files z_snapshot = [z_ref]"
  by (simp add: snapshot_files_def z_manifest_def z_manifest_scope_def manifest_scope_of_def)

lemma z_present: "present_refs x_dir [z_ref]"
  by (simp add: present_refs_def present_path) (simp add: x_dir_def row_of_Cons)

lemma z_db_refs: "refs z_db = [z_ref]" by (simp add: z_db_def insert_snapshot_def)

theorem snapshot_tables_agree_witness:
  "keyed sn_id (snapshots z_db) \<and> mn_refs z_manifest_scope = sort_key file_order (refs_of (mn_generation z_manifest_scope) [z_ref])"
  using snapshot_tables_agree [OF z_reach] unfolding z_db_refs by (simp add: z_manifest_def)

theorem living_snapshot_is_kept_witness:
  "\<exists>e. 9 + SNAPSHOT_TTL \<le> e \<and> row_of sn_id ''s1'' (snapshots z_db) = Some (z_snapshot\<lparr>sn_expires := e\<rparr>)"
  using living_snapshot_is_kept [OF z_reach r_into_rtranclp [of "snapshot_step z_env 200", OF z_prune], of z_snapshot]
  by (simp add: SNAPSHOT_TTL_def clock_defs)

theorem snapshot_files_are_live_witness: "xh \<in> set (live_artifact_digests 100 0 None z_db)"
  using snapshot_files_are_live [OF z_reach, of z_snapshot 100 0 z_manifest_scope z_ref]
  by (simp add: SNAPSHOT_TTL_def clock_defs z_manifest_def z_manifest_scope_def manifest_scope_of_def)

text \<open>A collector batch that rechecks the file while the snapshot lives.\<close>

definition z_turn :: gc_turn where
  "z_turn = \<lparr>gt_oldest = 50, gt_rechecked = live_artifact_digests 100 0 (Some (batch_digests [xh @ ''.jsonl''])) z_db,
     gt_names = [xh @ ''.jsonl'']\<rparr>"

theorem served_files_survive_witness:
  "present_refs (fst (gc_unlink (\<lambda>n. None) 50 (gt_rechecked z_turn) (xh @ ''.jsonl'') (x_dir, empty_report))) [z_ref]"
proof -
  define w1 where "w1 = (z_world z_db)\<lparr>w_gc := Some z_turn\<rparr>"
  define w2 where "w2 = w1\<lparr>w_dir := fst (gc_unlink (\<lambda>n. None) (gt_oldest z_turn) (gt_rechecked z_turn) (xh @ ''.jsonl'')
      (w_dir w1, empty_report)), w_gc := Some (z_turn\<lparr>gt_names := []\<rparr>)\<rparr>"
  have "served_step z_env (\<lambda>s. xh) 200 (z_world z_db, [z_frozen]) (w1, [z_frozen])"
    using rechecked [of "z_world z_db" 100 0 200 z_env "\<lambda>s. xh" "[z_frozen]" 50 "[xh @ ''.jsonl'']"]
    by (simp add: w1_def z_turn_def)
  moreover have "served_step z_env (\<lambda>s. xh) 200 (w1, [z_frozen]) (w2, [z_frozen])"
  proof (rule beside)
    have "w_gc w1 = Some z_turn" "gt_names z_turn = (xh @ ''.jsonl'') # []" by (simp_all add: w1_def z_turn_def)
    from collect [OF this] show "world_step (\<lambda>s. xh) w1 w2" unfolding w2_def .
  qed (simp_all add: w1_def w2_def)
  ultimately have run: "(served_step z_env (\<lambda>s. xh) 200)\<^sup>*\<^sup>* (z_world z_db, [z_frozen]) (w2, [z_frozen])"
    by (meson rtranclp.rtrancl_into_rtrancl r_into_rtranclp)
  have "present_refs (w_dir w2) (snapshot_files z_snapshot)"
    by (rule served_files_survive [OF z_served _ _ _ _ run]) (simp_all add: z_files z_present SNAPSHOT_TTL_def clock_defs)
  then show ?thesis by (simp add: w2_def w1_def z_files) (simp add: z_turn_def)
qed

subsection \<open>The locations\<close>

text \<open>Three locations were shown; one is left, the other two have been disabled.\<close>

definition l_one :: "text_bytes \<Rightarrow> bool \<Rightarrow> location_row" where
  "l_one k on = x_location\<lparr>lo_id := k, lo_enabled := on\<rparr>"

definition l_last :: snapshot_row where
  "l_last = \<lparr>sn_id = ''s0'', sn_order = 0, sn_digest = ''old'',
     sn_manifest = location_manifest z_env [l_one ''l'' True, l_one ''m'' True, l_one ''n'' True], sn_collected = None,
     sn_revision = 0, sn_created = 0, sn_expires = 5\<rparr>"

definition l_db :: export_db where
  "l_db = x13\<lparr>locations := [l_one ''l'' True, l_one ''m'' False, l_one ''n'' False], snapshots := [l_last]\<rparr>"

lemma l_one_simps [simp]: "lo_id (l_one k on) = k" "lo_enabled (l_one k on) = on"
  by (simp_all add: l_one_def)

lemma l_db_simps [simp]: "locations l_db = [l_one ''l'' True, l_one ''m'' False, l_one ''n'' False]"
  "snapshots l_db = [l_last]"
  by (simp_all add: l_db_def)

lemma l_shown [simp]: "sh_id (shown_location_of z_env l) = lo_id l"
  by (simp add: shown_location_of_def)

lemma l_last_simps [simp]: "of_locations (sn_manifest l_last)" "sn_digest l_last = ''old''" "sn_expires l_last = 5" "sn_order l_last = 0"
  "map sh_id (mf_locations (sn_manifest l_last)) = [''l'', ''m'', ''n'']" "length (mf_locations (sn_manifest l_last)) = 3"
  by (simp_all add: l_last_def location_manifest_def of_locations_def)

lemma l_enabled [simp]: "enabled_roster l_db = [l_one ''l'' True]"
  by (simp add: enabled_roster_def)

lemma l_previous [simp]: "previous_locations l_db = Some l_last"
  by (simp add: previous_locations_def newest_def)

lemma l_digest: "json_digest (fz_sha z_env) j = xh"
  by (simp add: json_digest_def)

lemma xh_not_old [simp]: "''old'' \<noteq> xh"
  by code_simp

definition l_new :: snapshot_row where
  "l_new = \<lparr>sn_id = ''s1'', sn_order = 1, sn_digest = xh, sn_manifest = location_manifest z_env [l_one ''l'' True], sn_collected = None,
     sn_revision = 0, sn_created = 9, sn_expires = 9 + SNAPSHOT_TTL\<rparr>"

lemma l_freeze: "freeze_locations z_env 9 ''s1'' 1 l_db
    = Inr (\<lparr>fr_row = l_new, fr_reused = False, fr_unconfirmed = False\<rparr>, l_db\<lparr>snapshots := [l_last, l_new]\<rparr>)"
proof -
  have "\<not> collapsed l_db [l_one ''l'' True] l_last" by (simp add: collapsed_def lost_locations_def)
  moreover have "catalog_revision [l_one ''l'' True] = 0" by (simp add: catalog_revision_def l_one_def x_location_def)
  moreover have "newest [] = None" by (simp add: newest_def)
  ultimately show ?thesis
    using l_digest by (simp add: freeze_locations_def Let_def MAX_SNAPSHOT_LOCATIONS_def l_new_def)
qed

theorem location_list_never_collapses_witness: "\<exists>l. l \<in> set (locations l_db) \<and> lo_id l = ''m'' \<and> \<not> lo_enabled l"
proof -
  have faithful: "digest_is_faithful z_env l_db (location_manifest z_env (enabled_roster l_db))"
    using l_digest by (simp add: digest_is_faithful_def)
  have ids: "''m'' \<in> sh_id ` set (mf_locations (sn_manifest l_last))"
    unfolding set_map [symmetric] by simp
  have "sn_manifest l_new \<noteq> sn_manifest l_last"
    by (simp add: l_new_def l_last_def location_manifest_def)
  with location_list_never_collapses [OF l_freeze faithful] ids
  have "\<exists>l\<in>set (locations l_db). lo_id l = ''m'' \<and> \<not> lo_enabled l" by (simp del: l_db_simps)
  then show ?thesis by blast
qed

end
