(* ===== verification/Page_Health.thy ===== *)
theory Page_Health
  imports Snapshot_Properties
begin

section \<open>Answering a page of the current values (export_snapshots.py)\<close>

text \<open>
  A first page issues a snapshot, a later page opens the one its cursor names.  Both show a slice
  of the frozen manifest, and say \<open>ok\<close> only if what is frozen still is what the sources, the heads
  and their owners stand for at the moment of the answer.
\<close>

subsection \<open>Opening\<close>

definition cursor_resource :: "freeze_env \<Rightarrow> reader \<Rightarrow> text_bytes \<Rightarrow> text_bytes" where
  "cursor_resource env rd resource =
     (case current_selection env rd of
        None \<Rightarrow> resource
      | Some s \<Rightarrow> (case sl_signature s of None \<Rightarrow> resource | Some sig \<Rightarrow> resource @ '':'' @ sig))"

definition request_ok :: "text_bytes \<Rightarrow> nat \<Rightarrow> bool" where
  "request_ok resource limit \<longleftrightarrow> (resource = ''locations'' \<or> resource = ''current'') \<and> 1 \<le> limit \<and> limit \<le> 5000"

definition open_cursor ::
  "freeze_env \<Rightarrow> (text_bytes \<Rightarrow> cursor_state option) \<Rightarrow> reader \<Rightarrow> text_bytes \<Rightarrow> nat \<Rightarrow> text_bytes \<Rightarrow> instant \<Rightarrow> export_db \<Rightarrow>
   freeze_error + (frozen \<times> cursor_state)" where
  "open_cursor env decode rd resource limit cursor now db =
     (if \<not> request_ok resource limit then Inl Cursor_Invalid
      else case decode cursor of
        None \<Rightarrow> Inl Cursor_Invalid
      | Some st \<Rightarrow>
          if cu_resource st \<noteq> cursor_resource env rd resource \<or> cu_limit st \<noteq> int limit then Inl Cursor_Invalid
          else case row_of sn_id (cu_snapshot st) (snapshots db) of
            None \<Rightarrow> Inl Snapshot_Expired
          | Some r \<Rightarrow> if sn_expires r \<le> now then Inl Snapshot_Expired
              else Inr (\<lparr>fr_row = r, fr_reused = False, fr_unconfirmed = False\<rparr>, st))"

definition first_state :: "freeze_env \<Rightarrow> reader \<Rightarrow> text_bytes \<Rightarrow> nat \<Rightarrow> frozen \<Rightarrow> cursor_state" where
  "first_state env rd resource limit f =
     \<lparr>cu_snapshot = sn_id (fr_row f), cu_resource = cursor_resource env rd resource, cu_limit = int limit, cu_scope = 0,
      cu_point = 0\<rparr>"

text \<open>
  A first page: up to three issues with the check of their files, then the renewal of what was
  reused (its clock, and whether its database call fails, are arguments).
\<close>

definition open_first ::
  "freeze_env \<Rightarrow> reader \<Rightarrow> cohort_row list \<Rightarrow> (nat \<Rightarrow> issue_draws) \<Rightarrow> (nat \<Rightarrow> directory) \<Rightarrow> bool \<Rightarrow> instant \<Rightarrow>
   text_bytes \<Rightarrow> nat \<Rightarrow> export_db \<Rightarrow> plan_cache \<Rightarrow> (freeze_error + (frozen \<times> cursor_state)) \<times> export_db \<times> plan_cache" where
  "open_first env rd cohorts draws dirs fails renew_now resource limit db c =
     (if \<not> request_ok resource limit then (Inl Cursor_Invalid, db, c)
      else case ensure_snapshot_files (\<lambda>n (d, c). case issue_snapshot env rd cohorts (draws n) d c of (r, d', c') \<Rightarrow> (r, d', c'))
          dirs 2 0 (db, c) of
        (Inl e, db', c') \<Rightarrow> (Inl e, db', c')
      | (Inr f, db', c') \<Rightarrow>
          (let (f', db'') = renew_reused fails renew_now f db' in
           (Inr (f', first_state env rd resource limit f'), db'', c')))"

subsection \<open>What is shown\<close>

datatype page_items = Location_Items "json list" | Point_Items "page_item list"

fun item_total :: "page_items \<Rightarrow> nat" where
  "item_total (Location_Items xs) = length xs"
| "item_total (Point_Items xs) = length xs"

definition page_content ::
  "freeze_env \<Rightarrow> page_env \<Rightarrow> directory \<Rightarrow> text_bytes \<Rightarrow> nat \<Rightarrow> frozen \<times> cursor_state \<Rightarrow>
   freeze_error + (page_items \<times> cursor_state \<times> bool)" where
  "page_content env penv dir resource limit opened =
     (case opened of (f, st) \<Rightarrow>
        let m = sn_manifest (fr_row f); position = (nat (cu_scope st), nat (cu_point st)) in
        if resource = ''locations'' then
          (case locations_page (map (shown_json (fz_float env)) (mf_locations m)) limit position of
             Inl e \<Rightarrow> Inl (Freeze_Page e)
           | Inr (items, (g, p), left) \<Rightarrow> Inr (Location_Items items, st\<lparr>cu_point := int p\<rparr>, left))
        else
          (case current_page penv dir (map page_scope_of (mf_scopes m)) limit position of
             Inl e \<Rightarrow> Inl (Freeze_Page e)
           | Inr (items, (g, p), left) \<Rightarrow> Inr (Point_Items items, st\<lparr>cu_scope := int g, cu_point := int p\<rparr>, left)))"

subsection \<open>Stale or not\<close>

text \<open>The clocks the manifest was made with.\<close>

definition near_scope :: "instant \<Rightarrow> manifest_scope \<Rightarrow> bool" where
  "near_scope now m \<longleftrightarrow> (case mn_approval m of None \<Rightarrow> False | Some a \<Rightarrow> counts_for_freshness (ma_collected a) now)"

definition aged_scope :: "instant \<Rightarrow> manifest_scope \<Rightarrow> bool" where
  "aged_scope now m \<longleftrightarrow> (case mn_approval m of None \<Rightarrow> False | Some a \<Rightarrow>
     now - ma_collected a > source_max_age (ma_dataset a) \<or> now - ma_revision a > source_max_age (ma_dataset a))"

definition clocks_stale :: "reader \<Rightarrow> instant \<Rightarrow> frozen \<Rightarrow> freeze_error + bool" where
  "clocks_stale rd now f =
     (let row = fr_row f; m = sn_manifest row in
      case sn_collected row of
        None \<Rightarrow> Inl Freeze_Value_Error
      | Some collected \<Rightarrow>
          if \<not> rd_inventory rd then
            Inr (fr_unconfirmed f \<or> now - collected > SOURCE_MAX_AGE \<or> now - sn_revision row > SOURCE_MAX_AGE \<or> mf_limited m)
          else case mf_unconfirmed m of
            None \<Rightarrow> Inl Freeze_Key_Error
          | Some unconfirmed \<Rightarrow>
              if list_ex (\<lambda>sc. mn_approval sc = None) (mf_scopes m) then Inl Freeze_Key_Error
              else Inr (fr_unconfirmed f \<or> unconfirmed
                \<or> list_ex (\<lambda>sc. near_scope now sc \<and> aged_scope now sc) (mf_scopes m)
                \<or> \<not> list_ex (near_scope now) (mf_scopes m) \<or> mf_limited m))"

text \<open>The roster of now against the manifest; an error of the selection is stale.\<close>

definition scope_pairs :: "manifest \<Rightarrow> (text_bytes \<times> text_bytes list) set" where
  "scope_pairs m = set (map (\<lambda>sc. (mn_namespace sc, mn_locations sc)) (mf_scopes m))"

definition inventory_changed ::
  "freeze_env \<Rightarrow> reader \<Rightarrow> cohort_row list \<Rightarrow> location_row list \<Rightarrow> manifest \<Rightarrow> instant \<Rightarrow> export_db \<Rightarrow> plan_cache \<Rightarrow> bool \<times> plan_cache" where
  "inventory_changed env rd cohorts roster m now db c =
     (case approved_source_selection (fz_head env) cohorts (rd_expected rd) (rd_optional rd) None roster now db c of
        (Inl e, c') \<Rightarrow> (True, c')
      | (Inr sel, c') \<Rightarrow>
          (al_unconfirmed sel
           \<or> set (map (\<lambda>a. (descriptor_namespace (fz_sha env) (fz_float env) (as_descriptor a), as_locations a)) (al_scopes sel))
             \<noteq> scope_pairs m, c'))"

definition grid_key :: "text_bytes \<times> (int \<times> int) option \<Rightarrow> text_bytes \<times> int \<times> int" where
  "grid_key x = (fst x, case snd x of None \<Rightarrow> (0, 0) | Some g \<Rightarrow> g)"

definition kma_places :: "manifest \<Rightarrow> (text_bytes \<times> (int \<times> int) option) list" where
  "kma_places m = sort_key grid_key (concat (map (\<lambda>sc. map (\<lambda>k. (k, mn_grid sc)) (mn_locations sc))
     (filter (\<lambda>sc. mn_provider sc = KMA) (mf_scopes m))))"

definition places_changed :: "reader \<Rightarrow> location_row list \<Rightarrow> manifest \<Rightarrow> bool" where
  "places_changed rd roster m \<longleftrightarrow>
     (if KMA \<in> set (rd_providers rd) then map (\<lambda>l. (lo_id l, location_grid l)) roster \<noteq> kma_places m
      else map (\<lambda>l. (lo_id l, lo_latitude l, lo_longitude l)) roster
        \<noteq> map (\<lambda>l. (sh_id l, sh_latitude l, sh_longitude l)) (mf_locations m))"

definition external_changed :: "freeze_env \<Rightarrow> reader \<Rightarrow> cohort_row list \<Rightarrow> location_row list \<Rightarrow> manifest \<Rightarrow> export_db \<Rightarrow> bool" where
  "external_changed env rd cohorts roster m db \<longleftrightarrow>
     (let external = filter (\<lambda>p. p \<noteq> KMA) (rd_providers rd) in
      external \<noteq> [] \<and>
      (case selected_external_descriptors (fz_sha env) (fz_float env) cohorts db roster external False of
         Inl e \<Rightarrow> True
       | Inr ds \<Rightarrow> set (map (descriptor_namespace (fz_sha env) (fz_float env)) ds)
           \<noteq> set (map mn_namespace (filter (\<lambda>sc. mn_provider sc \<noteq> KMA) (mf_scopes m)))))"

text \<open>The live heads and the runs behind them.\<close>

definition live_namespaces :: "export_db \<Rightarrow> text_bytes set" where
  "live_namespaces db = h_namespace ` set (filter (\<lambda>h. row_of g_id (h_generation h) (generations db) \<noteq> None) (heads db))"

definition heads_missing :: "manifest \<Rightarrow> export_db \<Rightarrow> bool" where
  "heads_missing m db \<longleftrightarrow> list_ex (\<lambda>sc. mn_namespace sc \<notin> live_namespaces db) (mf_scopes m)"

definition run_in_trouble :: "export_db \<Rightarrow> owner_row \<times> attempt_row \<times> generation_row option \<Rightarrow> bool" where
  "run_in_trouble db x \<longleftrightarrow>
     (case x of (own, a, g) \<Rightarrow>
        let status = map_option sr_status (run_at (a_run a) db) in
        a_status a = Failed \<or> status \<notin> {Some ''running'', Some ''success''} \<or> (status = Some ''success'' \<and> g = None))"

definition owners_in_trouble :: "manifest \<Rightarrow> export_db \<Rightarrow> bool" where
  "owners_in_trouble m db \<longleftrightarrow>
     (let scopes = map mn_source_scope (mf_scopes m);
          states = filter (\<lambda>(own, a, g). run_at (a_run a) db \<noteq> None) (active_owners scopes db)
      in length states \<noteq> length (remdups scopes) \<or> list_ex (run_in_trouble db) states)"

definition page_stale ::
  "freeze_env \<Rightarrow> reader \<Rightarrow> cohort_row list \<Rightarrow> frozen \<Rightarrow> instant \<Rightarrow> export_db \<Rightarrow> plan_cache \<Rightarrow> (freeze_error + bool) \<times> plan_cache" where
  "page_stale env rd cohorts f now db c =
     (let m = sn_manifest (fr_row f); roster = enabled_roster db in
      case clocks_stale rd now f of
        Inl e \<Rightarrow> (Inl e, c)
      | Inr clocks \<Rightarrow>
          (let (sources, c') =
             (if rd_inventory rd then inventory_changed env rd cohorts roster m now db c
              else (places_changed rd roster m \<or> external_changed env rd cohorts roster m db, c))
           in (Inr (clocks \<or> length roster > MAX_SNAPSHOT_LOCATIONS \<or> sources \<or> heads_missing m db \<or> owners_in_trouble m db), c')))"

subsection \<open>The answer\<close>

record answer =
  an_content :: page_items
  an_now :: instant
  an_collected :: instant
  an_status :: text_bytes
  an_count :: nat
  an_snapshot :: text_bytes
  an_created :: instant
  an_next :: "cursor_state option"
  an_etag :: text_bytes

definition answer_etag :: "freeze_env \<Rightarrow> snapshot_row \<Rightarrow> text_bytes \<Rightarrow> nat \<Rightarrow> text_bytes option \<Rightarrow> text_bytes \<Rightarrow> text_bytes" where
  "answer_etag env row resource limit cursor status =
     ''W/'' @ [CHR 0x22] @ json_digest (fz_sha env) (JArr [JStr (sn_id row), JStr (sn_digest row), JStr resource, JInt (int limit),
       json_option JStr cursor, JStr status]) @ [CHR 0x22]"

definition page_answer ::
  "freeze_env \<Rightarrow> page_env \<Rightarrow> reader \<Rightarrow> cohort_row list \<Rightarrow> directory \<Rightarrow> text_bytes \<Rightarrow> nat \<Rightarrow> text_bytes option \<Rightarrow>
   frozen \<times> cursor_state \<Rightarrow> instant \<Rightarrow> export_db \<Rightarrow> plan_cache \<Rightarrow> (freeze_error + answer) \<times> plan_cache" where
  "page_answer env penv rd cohorts dir resource limit cursor opened now db c =
     (let f = fst opened; row = fr_row f in
      case page_content env penv dir resource limit opened of
        Inl e \<Rightarrow> (Inl e, c)
      | Inr (content, st, left) \<Rightarrow>
          (case page_stale env rd cohorts f now db c of
             (Inl e, c') \<Rightarrow> (Inl e, c')
           | (Inr stale, c') \<Rightarrow>
               (let status = (if stale then ''stale'' else ''ok'') in
                (Inr \<lparr>an_content = content, an_now = now,
                   an_collected = (case sn_collected row of None \<Rightarrow> 0 | Some t \<Rightarrow> t), an_status = status,
                   an_count = item_total content, an_snapshot = sn_id row, an_created = sn_created row, an_next = (if left then Some st else None),
                   an_etag = answer_etag env row resource limit cursor status\<rparr>, c'))))"

subsection \<open>The properties\<close>

lemma page_answer_Inr:
  assumes "page_answer env penv rd cohorts dir resource limit cursor (f, st) now db c = (Inr ans, c')"
  obtains content st' left stale where "page_content env penv dir resource limit (f, st) = Inr (content, st', left)"
    "page_stale env rd cohorts f now db c = (Inr stale, c')"
    "an_status ans = (if stale then ''stale'' else ''ok'')" "an_next ans = (if left then Some st' else None)"
    "an_content ans = content"
proof -
  obtain content st' left where content: "page_content env penv dir resource limit (f, st) = Inr (content, st', left)"
    using assms by (auto simp: page_answer_def Let_def split: sum.splits)
  obtain stale where stale: "page_stale env rd cohorts f now db c = (Inr stale, c')"
    using assms content by (auto simp: page_answer_def Let_def split: sum.splits prod.splits)
  from assms content stale have "an_status ans = (if stale then ''stale'' else ''ok'')" "an_next ans = (if left then Some st' else None)"
    "an_content ans = content"
    by (auto simp: page_answer_def Let_def)
  with content stale show thesis by (rule that)
qed

lemma page_fresh:
  assumes "page_answer env penv rd cohorts dir resource limit cursor (f, st) now db c = (Inr ans, c')" "an_status ans = ''ok''"
  obtains clocks sources where "clocks_stale rd now f = Inr clocks" "\<not> clocks"
    "sources = (if rd_inventory rd then fst (inventory_changed env rd cohorts (enabled_roster db) (sn_manifest (fr_row f)) now db c)
      else places_changed rd (enabled_roster db) (sn_manifest (fr_row f))
        \<or> external_changed env rd cohorts (enabled_roster db) (sn_manifest (fr_row f)) db)" "\<not> sources"
    "\<not> heads_missing (sn_manifest (fr_row f)) db" "\<not> owners_in_trouble (sn_manifest (fr_row f)) db"
proof -
  from assms(1) obtain stale where stale: "page_stale env rd cohorts f now db c = (Inr stale, c')"
    "an_status ans = (if stale then ''stale'' else ''ok'')" by (rule page_answer_Inr)
  with assms(2) have fine: "page_stale env rd cohorts f now db c = (Inr False, c')" by (cases stale) simp_all
  then obtain clocks where clocks: "clocks_stale rd now f = Inr clocks"
    by (auto simp: page_stale_def Let_def split: sum.splits)
  with fine that [OF clocks _ refl] show thesis
    by (auto simp: page_stale_def Let_def split: prod.splits if_splits)
qed

text \<open>What a scope that is said to be current stands for: a live head, and an owner whose run is not in trouble.\<close>

definition scope_alive :: "export_db \<Rightarrow> manifest_scope \<Rightarrow> bool" where
  "scope_alive db sc \<longleftrightarrow>
     (\<exists>h\<in>set (heads db). h_namespace h = mn_namespace sc \<and> row_of g_id (h_generation h) (generations db) \<noteq> None)
     \<and> (\<exists>own a. owner_fine db (mn_source_scope sc) own a)"

lemma scope_alive_ok:
  assumes "\<not> heads_missing m db" "\<not> owners_in_trouble m db" "sc \<in> set (mf_scopes m)"
    and "keyed o_scope (owners db)" "keyed g_attempt (generations db)"
  shows "scope_alive db sc"
proof -
  have "mn_namespace sc \<in> live_namespaces db" using assms(1,3) by (auto simp: heads_missing_def list_ex_iff)
  then have head: "\<exists>h\<in>set (heads db). h_namespace h = mn_namespace sc \<and> row_of g_id (h_generation h) (generations db) \<noteq> None"
    by (auto simp: live_namespaces_def)
  define scopes where "scopes = map mn_source_scope (mf_scopes m)"
  have fine: "length (filter (\<lambda>(own, a, g). run_at (a_run a) db \<noteq> None) (active_owners scopes db)) = length (remdups scopes)"
    "\<not> list_ex (run_in_trouble db) (filter (\<lambda>(own, a, g). run_at (a_run a) db \<noteq> None) (active_owners scopes db))"
    using assms(2) by (simp_all add: owners_in_trouble_def Let_def scopes_def)
  have "mn_source_scope sc \<in> set scopes" using assms(3) by (simp add: scopes_def)
  from owner_of_each [OF assms(4,5) fine(1) this] obtain own a g where own: "(own, a, g) \<in> set (active_owners scopes db)"
    "run_at (a_run a) db \<noteq> None" "o_scope own = mn_source_scope sc" by auto
  with fine(2) have "\<not> run_in_trouble db (own, a, g)" unfolding list_ex_iff by force
  then have "owner_fine db (mn_source_scope sc) own a"
    using active_ownerD [OF own(1)] own(3) by (auto simp: run_in_trouble_def owner_fine_def Let_def)
  with head show ?thesis unfolding scope_alive_def by blast
qed

lemma clocks_fresh:
  assumes "clocks_stale rd now f = Inr False" "rd_inventory rd"
  shows "\<not> fr_unconfirmed f \<and> \<not> mf_limited (sn_manifest (fr_row f)) \<and> mf_unconfirmed (sn_manifest (fr_row f)) = Some False
    \<and> (\<exists>sc\<in>set (mf_scopes (sn_manifest (fr_row f))). near_scope now sc)
    \<and> (\<forall>sc\<in>set (mf_scopes (sn_manifest (fr_row f))). near_scope now sc \<longrightarrow> \<not> aged_scope now sc)"
  using assms by (auto simp: clocks_stale_def Let_def list_ex_iff split: option.splits if_splits)

text \<open>
  C32: A page of a reader of the inventory that says it is ok rests on sources in order.  Its manifest
  was confirmed, is not a fallback, and lists exactly the namespaces and locations a selection made
  at the time of the answer lists (their generations are not compared: the page shows those it was
  frozen with); each source asked for has met its last roster; every scope has a live head, and an
  owner whose attempt has not failed and whose run is under way or has published; and no approval
  in the manifest inside the freshness window is older than its source allows.
\<close>

theorem ok_page_is_current:
  assumes answer: "page_answer env penv rd cohorts dir resource limit cursor (f, st) now db c = (Inr ans, c')"
    and says: "an_status ans = ''ok''" "rd_inventory rd"
    and tables: "keyed i_pk (inventory db)" "keyed p_attempt (plans db)"
    and memory: "cache_right (he_float (fz_head env)) (plans db) c"
    and one: "keyed o_scope (owners db)" "keyed g_attempt (generations db)"
  shows "\<not> fr_unconfirmed f \<and> \<not> mf_limited (sn_manifest (fr_row f)) \<and> mf_unconfirmed (sn_manifest (fr_row f)) = Some False
    \<and> (\<exists>sel. fst (approved_source_selection (fz_head env) cohorts (rd_expected rd) (rd_optional rd) None (enabled_roster db) now db c) = Inr sel
        \<and> (\<lambda>a. (descriptor_namespace (fz_sha env) (fz_float env) (as_descriptor a), as_locations a)) ` set (al_scopes sel)
          = scope_pairs (sn_manifest (fr_row f)))
    \<and> (\<forall>s\<in>set (rd_expected rd). roster_met None (fz_head env) cohorts db (enabled_roster db) (rd_expected rd) now s)
    \<and> (\<forall>sc\<in>set (mf_scopes (sn_manifest (fr_row f))). scope_alive db sc \<and> (near_scope now sc \<longrightarrow> \<not> aged_scope now sc))"
proof -
  from answer says(1) obtain clocks sources where clocks: "clocks_stale rd now f = Inr clocks" "\<not> clocks"
    and sources: "sources = (if rd_inventory rd then fst (inventory_changed env rd cohorts (enabled_roster db) (sn_manifest (fr_row f)) now db c)
      else places_changed rd (enabled_roster db) (sn_manifest (fr_row f))
        \<or> external_changed env rd cohorts (enabled_roster db) (sn_manifest (fr_row f)) db)" "\<not> sources"
    and alive: "\<not> heads_missing (sn_manifest (fr_row f)) db" "\<not> owners_in_trouble (sn_manifest (fr_row f)) db"
    by (rule page_fresh)
  from clocks have "clocks_stale rd now f = Inr False" by simp
  note fresh = clocks_fresh [OF this says(2)]
  from sources says(2) have unchanged: "\<not> fst (inventory_changed env rd cohorts (enabled_roster db) (sn_manifest (fr_row f)) now db c)"
    by simp
  obtain sel c2 where sel: "approved_source_selection (fz_head env) cohorts (rd_expected rd) (rd_optional rd) None
      (enabled_roster db) now db c = (Inr sel, c2)"
    using unchanged by (auto simp: inventory_changed_def split: prod.splits sum.splits)
  with unchanged have same: "\<not> al_unconfirmed sel"
    "(\<lambda>a. (descriptor_namespace (fz_sha env) (fz_float env) (as_descriptor a), as_locations a)) ` set (al_scopes sel)
      = scope_pairs (sn_manifest (fr_row f))"
    by (auto simp: inventory_changed_def)
  note confirmed = confirmed_selection [OF sel same(1) tables memory one]
  then have met: "\<forall>s\<in>set (rd_expected rd). roster_met None (fz_head env) cohorts db (enabled_roster db) (rd_expected rd) now s"
    by (simp add: asked_def)
  from fresh same(2) sel met scope_alive_ok [OF alive _ one] show ?thesis by (auto simp del: image_iff)
qed

subsection \<open>A first page has its files\<close>

lemma ensured_files:
  "ensure_snapshot_files issue dirs left n s = (Inr f, s') \<Longrightarrow>
    \<exists>k. n \<le> k \<and> k < n + left \<and> store_all_present (dirs k) (frozen_refs f)"
proof (induction left arbitrary: n s)
  case 0
  then show ?case by (simp split: prod.splits sum.splits)
next
  case (Suc left)
  obtain r s1 where issued: "issue n s = (r, s1)" by fastforce
  show ?case
  proof (cases r)
    case (Inl e)
    with Suc.prems issued show ?thesis by simp
  next
    case (Inr g)
    show ?thesis
    proof (cases "store_all_present (dirs n) (frozen_refs g)")
      case True
      with Suc.prems issued Inr show ?thesis by (intro exI [of _ n]) simp
    next
      case False
      with Suc.prems issued Inr have "ensure_snapshot_files issue dirs left (Suc n) s1 = (Inr f, s')" by simp
      from Suc.IH [OF this] obtain k where "Suc n \<le> k" "k < Suc n + left" "store_all_present (dirs k) (frozen_refs f)" by blast
      then show ?thesis by (intro exI [of _ k]) simp
    qed
  qed
qed

text \<open>The snapshot a first page starts from had all its files at one of two checks; the page starts at its beginning.\<close>

lemma first_page_has_its_files:
  assumes "open_first env rd cohorts draws dirs fails renew_now resource limit db c = (Inr (f, st), db', c')"
  shows "\<exists>k<2. store_all_present (dirs k) (frozen_refs f)" "st = first_state env rd resource limit f"
proof -
  obtain g db1 where ensured: "ensure_snapshot_files (\<lambda>n (d, c). case issue_snapshot env rd cohorts (draws n) d c of (r, d', c') \<Rightarrow> (r, d', c'))
      dirs 2 0 (db, c) = (Inr g, db1, c')" and f: "(f, db') = renew_reused fails renew_now g db1"
    and st: "st = first_state env rd resource limit f"
    using assms by (auto simp: open_first_def split: if_splits prod.splits sum.splits)
  have "renewed db1 g f db'" by (rule renew_kept) (rule f [symmetric])
  then have "frozen_refs f = frozen_refs g" by (simp add: renewed_def frozen_refs_def)
  with ensured_files [OF ensured] show "\<exists>k<2. store_all_present (dirs k) (frozen_refs f)"
    by (metis add_0)
  show "st = first_state env rd resource limit f" by (rule st)
qed

subsection \<open>A cursor continues the export it came from\<close>

text \<open>Where the page of a position ends: after the last item it shows.\<close>

definition page_ends ::
  "page_env \<Rightarrow> directory \<Rightarrow> nat \<Rightarrow> frozen \<Rightarrow> cursor_state \<Rightarrow> page_items \<Rightarrow> cursor_state \<Rightarrow> bool \<Rightarrow> bool" where
  "page_ends penv dir limit f st content st' left \<longleftrightarrow>
     (\<exists>items g p. current_page penv dir (map page_scope_of (mf_scopes (sn_manifest (fr_row f)))) limit
        (nat (cu_scope st), nat (cu_point st)) = Inr (items, (g, p), left)
      \<and> content = Point_Items items \<and> cu_scope st' = int g \<and> cu_point st' = int p)"

lemma page_content_state:
  assumes "page_content env penv dir ''current'' limit (f, st) = Inr (content, st', left)" "cursor_state_ok st"
  shows "cu_snapshot st' = cu_snapshot st \<and> cu_resource st' = cu_resource st \<and> cu_limit st' = cu_limit st \<and> cursor_state_ok st'"
    "page_ends penv dir limit f st content st' left"
proof -
  obtain items g p where page: "current_page penv dir (map page_scope_of (mf_scopes (sn_manifest (fr_row f)))) limit
      (nat (cu_scope st), nat (cu_point st)) = Inr (items, (g, p), left)"
    and st': "st' = st\<lparr>cu_scope := int g, cu_point := int p\<rparr>" "content = Point_Items items"
    using assms(1) by (auto simp: page_content_def Let_def split: sum.splits prod.splits)
  from st' assms(2) show "cu_snapshot st' = cu_snapshot st \<and> cu_resource st' = cu_resource st \<and> cu_limit st' = cu_limit st
      \<and> cursor_state_ok st'" by (simp add: cursor_state_ok_def)
  from page st' show "page_ends penv dir limit f st content st' left" by (simp add: page_ends_def)
qed

text \<open>
  C33: The cursor a page of the current values hands out works, and continues the same export: when the
  page was cut at a valid position of a snapshot in the table, the next cursor, brought back while
  that snapshot lives, opens it again, whatever was frozen, published, renewed or pruned in the
  meantime, with the very manifest the page was cut from, at the position the page ended at.  (The
  cursors of location pages are left out on purpose: those of a reader with a selection of its own
  are always refused, see the last lemma of this theory.)
\<close>

theorem next_page_continues:
  assumes "snapshot_system.reachable env before (db, fs)" "(snapshot_step env until)\<^sup>*\<^sup>* (db, fs) (db', fs')"
    and snapshot: "fr_row f \<in> set (snapshots db)" "until \<le> sn_expires (fr_row f)" "later < sn_expires (fr_row f)"
    and page: "page_answer env penv rd cohorts dir ''current'' limit cursor (f, st) now db'' c = (Inr ans, c')" "an_next ans = Some st'"
    and position: "cursor_state_ok st" "cu_snapshot st = sn_id (fr_row f)" "cu_resource st = cursor_resource env rd ''current''"
      "cu_limit st = int limit"
    and codec: "str_len (encode_cursor mac st') \<le> 4096" "\<And>s. length (mac s) = 32"
      "loads (encode_ascii (cursor_json st')) = Some (cursor_json st')"
  shows "\<exists>f'. open_cursor env (decode_cursor mac loads) rd ''current'' limit (encode_cursor mac st') later db' = Inr (f', st')
    \<and> sn_manifest (fr_row f') = sn_manifest (fr_row f) \<and> sn_id (fr_row f') = sn_id (fr_row f)
    \<and> page_ends penv dir limit f st (an_content ans) st' True"
proof -
  from page(1) obtain content st2 left stale where "page_content env penv dir ''current'' limit (f, st) = Inr (content, st2, left)"
    "an_next ans = (if left then Some st2 else None)" "an_content ans = content" by (rule page_answer_Inr)
  with page(2) have content: "page_content env penv dir ''current'' limit (f, st) = Inr (an_content ans, st', True)"
    by (cases left) simp_all
  note st' = page_content_state(1) [OF content position(1)] and ends = page_content_state(2) [OF content position(1)]
  then have decode: "decode_cursor mac loads (encode_cursor mac st') = Some st'"
    using codec by (blast intro: decode_encode_cursor)
  obtain e where e: "sn_expires (fr_row f) \<le> e"
    "row_of sn_id (sn_id (fr_row f)) (snapshots db') = Some ((fr_row f)\<lparr>sn_expires := e\<rparr>)"
    using living_kept [OF assms(1,2) snapshot(1,2)] by blast
  have "1 \<le> limit \<and> limit \<le> 5000" using position(1,4) by (simp add: cursor_state_ok_def)
  then show ?thesis
    using decode st' position(2-4) e snapshot(3) ends by (simp add: open_cursor_def request_ok_def)
qed

text \<open>
  A reader with a selection of its own also puts its signature into the cursors of its location
  pages; no such cursor is ever accepted.
\<close>

lemma decode_cursor_ok: "decode_cursor mac loads cursor = Some st \<Longrightarrow> cursor_state_ok st"
  by (auto simp: decode_cursor_def read_state_def Let_def split: if_splits option.splits json.splits)

lemma narrowed_location_cursor_refused:
  assumes "decode_cursor mac loads cursor = Some st" "current_selection env rd = Some s" "sl_signature s = Some sig"
  shows "cu_resource st \<noteq> cursor_resource env rd ''locations''"
proof -
  have "resource_ok (cu_resource st)"
    using assms(1) decode_cursor_ok by (simp add: cursor_state_ok_def)
  moreover have "\<not> resource_ok (cursor_resource env rd ''locations'')"
    using assms(2,3) by (simp add: cursor_resource_def resource_ok_def CURSOR_PREFIXES_def after_prefix_def)
  ultimately show ?thesis by metis
qed

end
