(* ===== verification/Health_Example.thy ===== *)
theory Health_Example
  imports Selection_Example Page_Health
begin

section \<open>Pages at concrete snapshots\<close>

subsection \<open>A page that is current\<close>

definition k_frozen :: frozen where
  "k_frozen = \<lparr>fr_row = z_snapshot\<lparr>sn_manifest := z_manifest\<lparr>mf_unconfirmed := Some False\<rparr>\<rparr>, fr_reused = False,
     fr_unconfirmed = False\<rparr>"

definition k_page :: page_env where
  "k_page = \<lparr>pe_sha256 = (\<lambda>s. xh), pe_loads = (\<lambda>s. Some (JObj [(''location_id'', JStr ''l''), (''provider'', JStr ''p''),
     (''metric_key'', JStr ''m''), (''forecast_style'', JStr ''external''), (''value_number'', JNull), (''value_text'', JStr ''v''),
     (''unit'', JNull), (''target_at'', JNull), (''known_at'', JNull)])), pe_float = (\<lambda>j. None)\<rparr>"

definition k_answer where
  "k_answer = page_answer z_env k_page z_reader [s_roster] [] ''locations'' 10 None
     (k_frozen, first_state z_env z_reader ''locations'' 10 k_frozen) 9 s_db []"

lemma z_manifest_scopes [simp]: "mn_namespace z_manifest_scope = xh" "mn_source_scope z_manifest_scope = xh"
  "mn_locations z_manifest_scope = [''l'']" "mn_refs z_manifest_scope = [z_ref]" "mn_provider z_manifest_scope = ''p''"
  "mn_style z_manifest_scope = ''external''" "mn_generation z_manifest_scope = ''g1''"
  "mn_approval z_manifest_scope = Some \<lparr>ma_approved = [''l''], ma_dataset = ''d'', ma_collected = 3, ma_revision = 3\<rparr>"
  by (simp_all add: z_manifest_scope_def manifest_scope_of_def z_scope_def x_descriptor_def x_scope_def)

lemma k_clocks: "clocks_stale z_reader 9 k_frozen = Inr False"
  by (simp add: clocks_stale_def k_frozen_def z_snapshot_def z_manifest_def Let_def near_scope_def aged_scope_def s_ages
      source_max_age_def clock_defs SDK_NETWORKS_def ends_with_def)

lemma k_roster: "enabled_roster s_db = [x_location]"
  by (simp add: enabled_roster_def MAX_SNAPSHOT_LOCATIONS_def x_location_def)

lemma k_sources: "inventory_changed z_env z_reader [s_roster] [x_location] (sn_manifest (fr_row k_frozen)) 9 s_db []
    = (False, [(''a1'', x_descriptor)])"
  by (simp add: inventory_changed_def s_select) (simp add: s_sel_def s_scope_def scope_pairs_def k_frozen_def z_manifest_def)

lemma k_heads: "\<not> heads_missing (sn_manifest (fr_row k_frozen)) s_db" "\<not> owners_in_trouble (sn_manifest (fr_row k_frozen)) s_db"
proof -
  show "\<not> heads_missing (sn_manifest (fr_row k_frozen)) s_db"
    by (simp add: heads_missing_def live_namespaces_def k_frozen_def z_manifest_def row_of_Cons)
  have "run_at ''run_a'' s_db = Some s_run" by (simp add: row_of_Cons)
  then show "\<not> owners_in_trouble (sn_manifest (fr_row k_frozen)) s_db"
    by (simp add: owners_in_trouble_def k_frozen_def z_manifest_def active_owners_def run_in_trouble_def row_of_Cons x_owner_def)
qed

lemma k_stale: "page_stale z_env z_reader [s_roster] k_frozen 9 s_db [] = (Inr False, [(''a1'', x_descriptor)])"
  by (simp add: page_stale_def k_clocks k_roster k_sources k_heads MAX_SNAPSHOT_LOCATIONS_def)

lemma k_content:
  "\<exists>content. page_content z_env k_page [] ''locations'' 10 (k_frozen, first_state z_env z_reader ''locations'' 10 k_frozen)
    = Inr (content, (first_state z_env z_reader ''locations'' 10 k_frozen)\<lparr>cu_point := 1\<rparr>, False)"
proof -
  define item where "item = shown_json (he_float x_env) z_shown"
  have "length (spaced_text item) < 1000" unfolding item_def by code_simp
  then have "locations_page [item] 10 (0, 0) = Inr ([item], (0, 1), False)"
    by (simp add: locations_page_def page_room_def MAX_PAGE_BYTES_def PAGE_META_RESERVE_def Let_def)
  then show ?thesis
    by (simp add: page_content_def first_state_def k_frozen_def z_manifest_def item_def [symmetric])
qed

theorem ok_page_is_current_witness:
  "scope_alive s_db z_manifest_scope \<and> roster_met None x_env [s_roster] s_db [x_location] [(''p'', ''d'')] 9 (''p'', ''d'')"
proof -
  obtain content where content: "page_content z_env k_page [] ''locations'' 10
      (k_frozen, first_state z_env z_reader ''locations'' 10 k_frozen)
      = Inr (content, (first_state z_env z_reader ''locations'' 10 k_frozen)\<lparr>cu_point := 1\<rparr>, False)" using k_content by blast
  then obtain ans where ans: "page_answer z_env k_page z_reader [s_roster] [] ''locations'' 10 None
      (k_frozen, first_state z_env z_reader ''locations'' 10 k_frozen) 9 s_db [] = (Inr ans, [(''a1'', x_descriptor)])"
    "an_status ans = ''ok''"
    by (simp add: page_answer_def k_stale Let_def)
  from ok_page_is_current [OF ans] s_keyed s_plan_right show ?thesis
    by (simp add: k_roster) (simp add: k_frozen_def z_manifest_def)
qed

subsection \<open>A page that is followed by another\<close>

text \<open>A snapshot of two scopes, inserted by another reader; the first page ends after one item.\<close>

definition k_row :: snapshot_row where
  "k_row = z_snapshot\<lparr>sn_id := replicate 36 (CHR ''0''), sn_order := 2,
     sn_manifest := z_manifest\<lparr>mf_scopes := [z_manifest_scope, z_manifest_scope]\<rparr>\<rparr>"

definition k_db :: export_db where "k_db = insert_snapshot k_row z_db"

definition k_two :: frozen where "k_two = \<lparr>fr_row = k_row, fr_reused = False, fr_unconfirmed = False\<rparr>"

lemma k_row_simps [simp]: "sn_id k_row = replicate 36 (CHR ''0'')" "sn_order k_row = 2" "sn_expires k_row = 9 + SNAPSHOT_TTL"
  "mf_scopes (sn_manifest k_row) = [z_manifest_scope, z_manifest_scope]" "mf_limited (sn_manifest k_row) = False"
  "mf_unconfirmed (sn_manifest k_row) = Some True" "sn_collected k_row = Some 3" "fr_row k_two = k_row" "fr_unconfirmed k_two = False"
  by (simp_all add: k_row_def z_manifest_def z_snapshot_def k_two_def)

lemma k_reach: "snapshot_system.reachable z_env until (k_db, [z_frozen])"
proof -
  have "\<not> of_locations (sn_manifest k_row)"
    by (simp add: of_locations_def k_row_def z_manifest_def current_selection_def)
  then have "manifest_filed (refs z_db) (sn_manifest k_row)"
    by (simp add: manifest_filed_def z_db_refs refs_of_def)
  moreover have "fresh_handle (sn_id k_row) (sn_order k_row) (z_db, [z_frozen])"
    by (simp add: fresh_handle_def z_frozen_def) (simp add: numeral_eq_Suc)
  ultimately have "snapshot_step z_env until (z_db, [z_frozen]) (k_db, [z_frozen])"
    unfolding k_db_def by (intro by_other_reader)
  with z_reach show ?thesis by (rule snapshot_system.reachable_step)
qed

definition k_state :: cursor_state where "k_state = first_state z_env z_reader ''current'' 1 k_two"
definition k_next :: cursor_state where "k_next = k_state\<lparr>cu_scope := 1, cu_point := 0\<rparr>"

lemma k_resource: "cursor_resource z_env z_reader ''current'' = ''current:'' @ xh"
  by (simp add: cursor_resource_def current_selection_def)

lemma k_state_ok: "cursor_state_ok k_state"
proof -
  have "resource_ok (''current:'' @ xh)" by (simp add: resource_ok_def CURSOR_PREFIXES_def after_prefix_def)
  moreover have "str_len (replicate 36 (CHR ''0'')) = 36" by code_simp
  ultimately show ?thesis by (simp add: cursor_state_ok_def k_state_def first_state_def k_resource)
qed

definition k_point :: "(text_bytes \<times> json) list" where
  "k_point = [(''location_id'', JStr ''l''), (''provider'', JStr ''p''),
     (''metric_key'', JStr ''m''), (''forecast_style'', JStr ''external''), (''value_number'', JNull), (''value_text'', JStr ''v''),
     (''unit'', JNull), (''target_at'', JNull), (''known_at'', JNull)]"

lemma k_page_simps [simp]: "pe_sha256 k_page = (\<lambda>s. xh)" "pe_loads k_page = (\<lambda>s. Some (JObj k_point))"
  by (simp_all add: k_page_def k_point_def)

lemma k_points: "scope_points (\<lambda>s. xh) (\<lambda>s. Some (JObj k_point)) x_dir (page_scope_of z_manifest_scope) = Inr [k_point]"
proof -
  have read: "store_read (\<lambda>s. xh) (\<lambda>s. Some (JObj k_point)) x_dir None xh 1 1 = Inr [JObj k_point]"
    by (simp add: store_read_def x_store)
  have "scope_point (page_scope_of z_manifest_scope) (JObj k_point) = Inr (Some (''l'', k_point))"
    by (simp add: scope_point_def page_scope_of_def k_point_def)
  then have "read_scope (\<lambda>s. xh) (\<lambda>s. Some (JObj k_point)) x_dir (page_scope_of z_manifest_scope) [(xh, 1, 1)] = Inr [(''l'', k_point)]"
    by (simp add: read)
  then show ?thesis by (simp add: scope_points_def page_scope_of_def) (simp add: k_point_def)
qed

lemma k_item: "\<exists>item. page_item_of (pe_float k_page) k_point = Inr item \<and> item_size item \<le> page_room"
proof -
  define item where "item = [(''location_id'', Plain (JStr ''l'')), (''provider'', Plain (JStr ''p'')), (''metric_key'', Plain (JStr ''m'')),
     (''value'', Plain (JStr ''v'')), (''unit'', Plain JNull), (''target_at'', Plain JNull), (''known_at'', Plain JNull),
     (''forecast_style'', Plain (JStr ''external''))]"
  have "page_item_of (pe_float k_page) k_point = Inr item"
    by (simp add: page_item_of_def k_point_def item_value_of_def field_at_def item_def)
  moreover have "item_size item < 1000" unfolding item_def by code_simp
  then have "item_size item \<le> page_room" by (simp add: page_room_def MAX_PAGE_BYTES_def PAGE_META_RESERVE_def)
  ultimately show ?thesis by blast
qed

lemma k_content2: "\<exists>content. page_content z_env k_page x_dir ''current'' 1 (k_two, k_state) = Inr (content, k_next, True)"
proof -
  obtain item where item: "page_item_of (pe_float k_page) k_point = Inr item" "item_size item \<le> page_room" using k_item by blast
  have "current_page k_page x_dir [page_scope_of z_manifest_scope, page_scope_of z_manifest_scope] 1 (0, 0) = Inr ([item], (1, 0), True)"
    using item by (simp add: current_page_def k_points)
  then show ?thesis by (simp add: page_content_def k_state_def first_state_def k_next_def)
qed

lemma k_clocks2: "clocks_stale z_reader 9 k_two = Inr True"
  by (simp add: clocks_stale_def Let_def)

lemma k_answer: "\<exists>ans c'. page_answer z_env k_page z_reader [] x_dir ''current'' 1 None (k_two, k_state) 9 k_db [] = (Inr ans, c')
    \<and> an_next ans = Some k_next"
proof -
  obtain content where content: "page_content z_env k_page x_dir ''current'' 1 (k_two, k_state) = Inr (content, k_next, True)"
    using k_content2 by blast
  obtain sources c' where "inventory_changed z_env z_reader [] (enabled_roster k_db) (sn_manifest k_row) 9 k_db [] = (sources, c')"
    by fastforce
  then have "page_stale z_env z_reader [] k_two 9 k_db [] = (Inr True, c')"
    by (simp add: page_stale_def k_clocks2)
  with content show ?thesis by (simp add: page_answer_def Let_def)
qed

lemma k_short: "str_len (encode_cursor w_mac k_next) \<le> 4096"
proof -
  let ?raw = "encode_ascii (cursor_json k_next) @ w_mac (encode_ascii (cursor_json k_next))"
  have "length (encode_ascii (cursor_json k_next)) < 500" by code_simp
  then have "length ?raw < 600" by (simp add: w_mac_def)
  then have "length (b64_encode ?raw) \<le> 4096"
    using sextet_chars_spec [of "concat (map byte_bits ?raw)"] by (auto simp: b64_encode_def bits_length)
  then show ?thesis by (simp only: encode_cursor_def Let_def b64_encode_ascii)
qed

theorem next_page_continues_witness:
  "\<exists>f'. open_cursor z_env (decode_cursor w_mac (\<lambda>s. Some (cursor_json k_next))) z_reader ''current'' 1 (encode_cursor w_mac k_next) 100 k_db
      = Inr (f', k_next) \<and> sn_manifest (fr_row f') = sn_manifest k_row \<and> sn_id (fr_row f') = sn_id k_row"
proof -
  obtain ans c' where page: "page_answer z_env k_page z_reader [] x_dir ''current'' 1 None (k_two, k_state) 9 k_db [] = (Inr ans, c')"
    "an_next ans = Some k_next" using k_answer by blast
  have row: "fr_row k_two \<in> set (snapshots k_db)" by (simp add: k_db_def insert_snapshot_def)
  have "\<exists>f'. open_cursor z_env (decode_cursor w_mac (\<lambda>s. Some (cursor_json k_next))) z_reader ''current'' 1
      (encode_cursor w_mac k_next) 100 k_db = Inr (f', k_next)
      \<and> sn_manifest (fr_row f') = sn_manifest (fr_row k_two) \<and> sn_id (fr_row f') = sn_id (fr_row k_two)
      \<and> page_ends k_page x_dir 1 k_two k_state (an_content ans) k_next True"
    by (rule next_page_continues [OF k_reach rtranclp.rtrancl_refl row _ _ page k_state_ok _ _ _ k_short, where until = 0])
      (simp_all add: SNAPSHOT_TTL_def clock_defs k_state_def first_state_def w_mac_def)
  then show ?thesis by auto
qed

end
