(* ===== verification/Py_Text.thy ===== *)
theory Py_Text
  imports Canonical_Json
begin

section \<open>Text as code points\<close>

text \<open>
  Text is kept as UTF-8 bytes; here are the operations that look at its code points: \<open>strip\<close>,
  slices, and text given by its code points (the Korean words of the sources).
\<close>

definition utf8_point :: "int \<Rightarrow> text_bytes" where
  "utf8_point n =
     map char_of
       (if n < 128 then [n]
        else if n < 2048 then [192 + n div 64, 128 + n mod 64]
        else if n < 65536 then [224 + n div 4096, 128 + n div 64 mod 64, 128 + n mod 64]
        else [240 + n div 262144, 128 + n div 4096 mod 64, 128 + n div 64 mod 64, 128 + n mod 64])"

definition text_of :: "int list \<Rightarrow> text_bytes" where
  "text_of ns = concat (map utf8_point ns)"

definition is_tail_byte :: "char \<Rightarrow> bool" where
  "is_tail_byte c \<longleftrightarrow> char_in 128 191 c"

function py_chars :: "text_bytes \<Rightarrow> text_bytes list" where
  "py_chars [] = []"
| "py_chars (c # s) = (c # takeWhile is_tail_byte s) # py_chars (dropWhile is_tail_byte s)"
  by pat_completeness auto
termination
  by (relation "measure length") (simp_all add: length_dropWhile_le le_imp_less_Suc)

lemma concat_py_chars [simp]: "concat (py_chars s) = s"
  by (induction s rule: py_chars.induct) simp_all

text \<open>The code point of a character, and whitespace as \<open>str.isspace\<close> knows it.\<close>

definition tail_bits :: "int \<Rightarrow> text_bytes \<Rightarrow> int" where
  "tail_bits n s = foldl (\<lambda>n b. n * 64 + (of_char b :: int) - 128) n s"

definition code_point :: "text_bytes \<Rightarrow> int" where
  "code_point c =
     (case c of
        [] \<Rightarrow> - 1
      | b # s \<Rightarrow> (let n = (of_char b :: int) in
          tail_bits (if n < 128 then n else if n < 224 then n - 192 else if n < 240 then n - 224 else n - 240) s))"

definition is_space_char :: "text_bytes \<Rightarrow> bool" where
  "is_space_char c \<longleftrightarrow>
     (let n = code_point c in
      9 \<le> n \<and> n \<le> 13 \<or> 28 \<le> n \<and> n \<le> 32 \<or> 8192 \<le> n \<and> n \<le> 8202
      \<or> n \<in> set [133, 160, 5760, 8232, 8233, 8239, 8287, 12288])"

definition py_strip :: "text_bytes \<Rightarrow> text_bytes" where
  "py_strip s =
     concat (rev (dropWhile is_space_char (rev (dropWhile is_space_char (py_chars s)))))"

definition py_take :: "nat \<Rightarrow> text_bytes \<Rightarrow> text_bytes" where
  "py_take n s = concat (take n (py_chars s))"

text \<open>The other parts of a text between single characters: \<open>split(",")\<close>.\<close>

fun split_at :: "char \<Rightarrow> text_bytes \<Rightarrow> text_bytes list" where
  "split_at d [] = [[]]"
| "split_at d (c # s) =
     (if c = d then [] # split_at d s
      else case split_at d s of [] \<Rightarrow> [[c]] | w # ws \<Rightarrow> (c # w) # ws)"

definition all_digits :: "text_bytes \<Rightarrow> bool" where
  "all_digits s \<longleftrightarrow> s \<noteq> [] \<and> list_all is_digit s"

definition starts :: "text_bytes \<Rightarrow> text_bytes \<Rightarrow> bool" where
  "starts p s \<longleftrightarrow> take (length p) s = p"

end
