(* ===== verification/Alert_Events.thy ===== *)
theory Alert_Events
  imports Py_Text Export_Points
begin

section \<open>Announcements of regional warnings (alert_events.py, alert_area_mapping.py)\<close>

text \<open>
  An observation is one row of the announcement feed.  Its identifier is a hash of the fields that
  make it what it is, so it is the same whatever page it came from and whenever it was read.
\<close>

definition ALERT_DATASET :: text_bytes where "ALERT_DATASET = ''kma_regional_alert_events''"
definition ALERT_PROVIDER :: text_bytes where "ALERT_PROVIDER = ''python-kma-api''"
definition ALERT_VERSION :: text_bytes where "ALERT_VERSION = ''datagokr-pwncd-260601-v1''"

definition ACTIONS :: "(text_bytes \<times> text_bytes) list" where
  "ACTIONS =
     [(''1'', ''issued''), (''2'', ''released''), (''3'', ''extended''), (''6'', ''corrected''),
      (''7'', ''changed_issue''), (''8'', ''changed_release'')]"

definition WARNING_NAMES :: "(text_bytes \<times> text_bytes) list" where
  "WARNING_NAMES =
     [(''1'', text_of [44053, 54413]), (''2'', text_of [54840, 50864]), (''3'', text_of [54620, 54028]),
      (''4'', text_of [44148, 51312]), (''5'', text_of [54253, 54413, 54644, 51068]),
      (''6'', text_of [54413, 46993]), (''7'', text_of [53468, 54413]), (''8'', text_of [45824, 49444]),
      (''9'', text_of [54889, 49324]), (''12'', text_of [54253, 50684]), (''13'', text_of [50676, 45824, 50556])]"

definition STRESS_NAMES :: "(text_bytes \<times> text_bytes) list" where
  "STRESS_NAMES =
     [(''0'', text_of [51452, 51032, 48372]), (''1'', text_of [44221, 48372]), (''2'', text_of [51473, 45824, 44221, 48372])]"

text \<open>The clock of the feed: twelve digits, read by the SDK's \<open>parse_kma_datetime\<close> (an argument).\<close>

definition source_time :: "head_env \<Rightarrow> json option \<Rightarrow> instant option" where
  "source_time env v =
     (case v of
        Some (JStr s) \<Rightarrow>
          (let t = py_strip s in
           if length t = 12 \<and> list_all is_digit t then he_kma_time env (take 8 t) (drop 8 t) else None)
      | _ \<Rightarrow> None)"

definition field :: "json \<Rightarrow> text_bytes \<Rightarrow> text_bytes" where
  "field raw k =
     (case jget raw k of
        Some (JStr s) \<Rightarrow> py_strip s
      | Some (JInt i) \<Rightarrow> py_strip (show_int i)
      | _ \<Rightarrow> [])"

definition IDENTITY_KEYS :: "text_bytes list" where
  "IDENTITY_KEYS = [''stnId'', ''tmFc'', ''tmSeq'', ''areaCode'', ''warnVar'', ''warnStress'', ''command'']"

definition OBSERVATION_KEYS :: "text_bytes list" where
  "OBSERVATION_KEYS = IDENTITY_KEYS @ [''cancel'', ''startTime'', ''endTime'', ''allEndTime'']"

definition fields_json :: "text_bytes list \<Rightarrow> json \<Rightarrow> json" where
  "fields_json ks raw = JObj (map (\<lambda>k. (k, JStr (field raw k))) ks)"

record alert_event =
  ev_id :: text_bytes
  ev_announcement :: text_bytes
  ev_area :: text_bytes
  ev_area_name :: text_bytes
  ev_var :: text_bytes
  ev_warning :: "text_bytes option"
  ev_stress :: text_bytes
  ev_stress_name :: "text_bytes option"
  ev_command :: text_bytes
  ev_cancel :: text_bytes
  ev_action :: text_bytes
  ev_issued :: "instant option"
  ev_starts :: "instant option"
  ev_ends :: "instant option"
  ev_all_ends :: "instant option"

definition area_code_ok :: "text_bytes \<Rightarrow> bool" where
  "area_code_ok s \<longleftrightarrow>
     (case s of [] \<Rightarrow> False | c # d \<Rightarrow> (c = CHR ''L'' \<or> c = CHR ''S'') \<and> length d = 7 \<and> list_all is_digit d)"

definition alert_action :: "head_env \<Rightarrow> json \<Rightarrow> text_bytes" where
  "alert_action env raw =
     (let f = field raw in
      if source_time env (Some (JStr (f ''tmFc''))) = None \<or> \<not> area_code_ok (f ''areaCode'')
         \<or> map_of WARNING_NAMES (f ''warnVar'') = None \<or> map_of STRESS_NAMES (f ''warnStress'') = None
         \<or> \<not> all_digits (f ''tmSeq'') \<or> \<not> all_digits (f ''stnId'')
         \<or> f ''cancel'' \<notin> set [''0'', ''1'']
      then ''unknown''
      else if f ''cancel'' = ''1'' then ''cancelled''
      else (case map_of ACTIONS (f ''command'') of None \<Rightarrow> ''unknown'' | Some a \<Rightarrow> a))"

definition event_key :: "head_env \<Rightarrow> json \<Rightarrow> text_bytes" where
  "event_key env raw = ''wae_'' @ json_digest (he_sha256 env) (fields_json OBSERVATION_KEYS raw)"

definition normalize_alert :: "head_env \<Rightarrow> json \<Rightarrow> alert_event" where
  "normalize_alert env raw =
     (let f = field raw; time = (\<lambda>k. source_time env (Some (JStr (f k)))) in
      \<lparr>ev_id = event_key env raw,
       ev_announcement = ''waa_'' @ json_digest (he_sha256 env) (fields_json IDENTITY_KEYS raw),
       ev_area = f ''areaCode'', ev_area_name = py_take 200 (f ''areaName''),
       ev_var = f ''warnVar'', ev_warning = map_of WARNING_NAMES (f ''warnVar''),
       ev_stress = f ''warnStress'', ev_stress_name = map_of STRESS_NAMES (f ''warnStress''),
       ev_command = f ''command'', ev_cancel = f ''cancel'', ev_action = alert_action env raw,
       ev_issued = time ''tmFc'', ev_starts = time ''startTime'', ev_ends = time ''endTime'',
       ev_all_ends = time ''allEndTime''\<rparr>)"

definition ALERT_SAFE_ERROR_CODES :: "text_bytes list" where
  "ALERT_SAFE_ERROR_CODES =
     [''ALERT_PAGE_METADATA'', ''ALERT_PAGE_ROWS'', ''ALERT_PAGE_TOTAL_CHANGED'', ''ALERT_PAGE_DUPLICATE'',
      ''ALERT_TOO_MANY_ROWS'', ''ALERT_RESPONSE_TOO_LARGE'', ''ALERT_FIRST_PAGE_CHANGED'',
      ''ALERT_RUN_OWNERSHIP_LOST'', ''ALERT_TIMEOUT'', ''ALERT_PROVIDER_AUTH'', ''ALERT_PROVIDER_RATE_LIMIT'',
      ''ALERT_PROVIDER_UNAVAILABLE'', ''ALERT_COLLECTION_FAILED'', ''ALERT_COLLECTION_CANCELLED'']"

subsection \<open>Warning areas and administrative regions\<close>

text \<open>
  The mapping is a data file of the package, an argument here: verified areas with the prefixes of
  the regions they lie in and the time their code is valid, and the codes of the known regions.
\<close>

record alert_area =
  ar_code :: text_bytes
  ar_status :: text_bytes
  ar_name :: text_bytes
  ar_prefixes :: "text_bytes list"
  ar_from :: "json option"
  ar_until :: "json option"

record area_mapping =
  am_version :: text_bytes
  am_from :: instant
  am_until :: "instant option"
  am_areas :: "alert_area list"
  am_provinces :: "text_bytes list"
  am_districts :: "text_bytes list"
  am_suffixes :: "(text_bytes \<times> text_bytes) list"

definition area_index :: "area_mapping \<Rightarrow> alert_area list" where
  "area_index m = upsert_all ar_code (\<lambda>old new. new) (am_areas m) []"

definition known_bjd :: "area_mapping \<Rightarrow> text_bytes \<Rightarrow> bool" where
  "known_bjd m code \<longleftrightarrow>
     (let province = take 2 code \<in> set (am_provinces m); district = take 5 code \<in> set (am_districts m) in
      list_all is_digit code \<and>
      (if length code = 2 then province
       else if length code = 5 then district
       else length code = 10 \<and>
         (if drop 2 code = ''00000000'' then province
          else if drop 5 code = ''00000'' then district
          else drop 5 code \<in> set (split_at CHR '','' (case map_of (am_suffixes m) (take 5 code) of None \<Rightarrow> [] | Some s \<Rightarrow> s)))))"

definition region_of :: "text_bytes \<Rightarrow> text_bytes" where
  "region_of code = (if length code = 10 then (if drop 2 code = ''00000000'' then take 2 code else take 5 code) else code)"

definition covers_region :: "text_bytes \<Rightarrow> alert_area \<Rightarrow> bool" where
  "covers_region region a \<longleftrightarrow>
     ar_status a = ''verified'' \<and> list_ex (\<lambda>p. starts p region \<or> starts region p) (ar_prefixes a)"

definition candidate_areas :: "area_mapping \<Rightarrow> text_bytes \<Rightarrow> text_bytes list" where
  "candidate_areas m code =
     (if \<not> known_bjd m code then [] else map ar_code (filter (covers_region (region_of code)) (area_index m)))"

definition scope_at :: "head_env \<Rightarrow> area_mapping \<Rightarrow> text_bytes \<Rightarrow> instant option \<Rightarrow> alert_area option" where
  "scope_at env m code issued =
     (case (row_of ar_code code (area_index m), issued) of
        (Some a, Some t) \<Rightarrow>
          if ar_status a \<noteq> ''verified'' then None
          else if t < am_from m \<or> (case am_until m of None \<Rightarrow> False | Some u \<Rightarrow> t \<ge> u) then None
          else (case (source_time env (ar_from a), source_time env (ar_until a)) of
                  (Some s, Some e) \<Rightarrow> if s \<le> t \<and> t < e then Some a else None
                | _ \<Rightarrow> None)
      | _ \<Rightarrow> None)"

end
