(* ===== verification/Alert_Pages.thy ===== *)
theory Alert_Pages
  imports Alert_Events
begin

section \<open>Reading the feed page by page (alert_events.py of the collector package)\<close>

text \<open>
  The feed answers in pages of 100 that may change while they are read.  A collection is accepted
  only if every page says what its number says it should, no observation comes twice, and the first
  page is still the same at the end.  The client of the feed is an argument: what it answers to its
  n-th call.
\<close>

definition PAGE_SIZE :: nat where "PAGE_SIZE = 100"
definition MAX_PAGES :: nat where "MAX_PAGES = 100"
definition MAX_BYTES :: nat where "MAX_BYTES = 8 * 1024 * 1024"

datatype client_failure =
    Timed_Out
  | Kma_Failure text_bytes "int option"
  | Value_Failure text_bytes
  | Other_Failure

datatype alert_failure = Alert_Code text_bytes | Raised client_failure

definition alert_integer :: "json option \<Rightarrow> nat option" where
  "alert_integer v =
     (case v of
        Some (JInt i) \<Rightarrow> (if 0 \<le> i \<and> i < 10000000000 then Some (nat i) else None)
      | Some (JStr s) \<Rightarrow> (if all_digits s \<and> length s \<le> 10 then Some (read_nat s) else None)
      | _ \<Rightarrow> None)"

definition is_object :: "json \<Rightarrow> bool" where
  "is_object v \<longleftrightarrow> (case v of JObj _ \<Rightarrow> True | _ \<Rightarrow> False)"

definition alert_rows :: "json \<Rightarrow> json list option" where
  "alert_rows body =
     (let raw = (case jget body ''items'' of Some (JObj kvs) \<Rightarrow> map_of kvs ''item'' | _ \<Rightarrow> None) in
      case raw of
        None \<Rightarrow> Some []
      | Some JNull \<Rightarrow> Some []
      | Some (JStr s) \<Rightarrow> (if s = [] then Some [] else None)
      | Some (JObj kvs) \<Rightarrow> (if kvs = [] then Some [] else Some [JObj kvs])
      | Some (JArr xs) \<Rightarrow> (if list_all is_object xs then Some xs else None)
      | _ \<Rightarrow> None)"

definition alert_page :: "json \<Rightarrow> nat \<Rightarrow> alert_failure + (json list \<times> nat)" where
  "alert_page body page_no =
     (case (alert_integer (jget body ''totalCount''), alert_integer (jget body ''pageNo''), alert_integer (jget body ''numOfRows'')) of
        (Some tot, Some returned, Some page_rows) \<Rightarrow>
          if returned \<noteq> page_no \<or> (page_rows \<noteq> PAGE_SIZE \<and> \<not> (tot = 0 \<and> page_rows = 0)) then Inl (Alert_Code ''ALERT_PAGE_METADATA'')
          else if tot > PAGE_SIZE * MAX_PAGES then Inl (Alert_Code ''ALERT_TOO_MANY_ROWS'')
          else (case alert_rows body of
                  None \<Rightarrow> Inl (Alert_Code ''ALERT_PAGE_ROWS'')
                | Some rows \<Rightarrow>
                    if length rows \<noteq> min PAGE_SIZE (tot - (page_no - 1) * PAGE_SIZE) then Inl (Alert_Code ''ALERT_PAGE_ROWS'')
                    else Inr (rows, tot))
      | _ \<Rightarrow> Inl (Alert_Code ''ALERT_PAGE_METADATA''))"

text \<open>The text \<open>json.dumps\<close> makes by default has a blank after each comma and colon.\<close>

fun separators :: "json \<Rightarrow> nat" where
  "separators (JArr xs) = (length xs - 1) + sum_list (map separators xs)"
| "separators (JObj kvs) = (2 * length kvs - 1) + sum_list (map (\<lambda>(k, v). separators v) kvs)"
| "separators _ = 0"

definition dumped_size :: "json \<Rightarrow> nat" where
  "dumped_size v = length (encode v) + separators v"

definition alert_query :: "instant \<Rightarrow> (text_bytes \<times> json) list" where
  "alert_query when =
     [(''stnId'', JStr ''108''), (''fromTmFc'', JStr (format_ymd (kst_day (when - days 3)))),
      (''toTmFc'', JStr (format_ymd (kst_day when)))]"

definition page_payload :: "instant \<Rightarrow> json list \<Rightarrow> nat \<Rightarrow> nat \<Rightarrow> json" where
  "page_payload when rows tot page_no =
     JObj [(''rows'', JArr rows),
       (''request'', JObj (alert_query when @ [(''pageNo'', JInt (int page_no)), (''numOfRows'', JInt (int PAGE_SIZE))])),
       (''pagination'', JObj [(''totalCount'', JInt (int tot)), (''pageNo'', JInt (int page_no)),
          (''numOfRows'', JInt (int PAGE_SIZE))]),
       (''normalization_version'', JStr ALERT_VERSION)]"

definition page_record :: "head_env \<Rightarrow> instant \<Rightarrow> json \<Rightarrow> source_record" where
  "page_record env fetched payload =
     \<lparr>rec_key = ''was_'' @ json_digest (he_sha256 env) payload, rec_provider = ALERT_PROVIDER, rec_dataset = ALERT_DATASET,
      rec_entity_type = ''weather_response'', rec_entity_id = ''getPwnCd:108'', rec_run = None, rec_payload = payload,
      rec_fetched = Some (Aware fetched)\<rparr>"

definition fingerprint :: "head_env \<Rightarrow> json list \<Rightarrow> text_bytes list" where
  "fingerprint env rows = sort (map (json_digest (he_sha256 env)) rows)"

record pages_read =
  pg_records :: "source_record list"
  pg_first :: "text_bytes list"
  pg_total :: "nat option"
  pg_seen :: "text_bytes list"
  pg_bytes :: nat
  pg_unknown :: nat

definition nothing_read :: pages_read where
  "nothing_read = \<lparr>pg_records = [], pg_first = [], pg_total = None, pg_seen = [], pg_bytes = 0, pg_unknown = 0\<rparr>"

fun see_rows :: "head_env \<Rightarrow> json list \<Rightarrow> text_bytes list \<Rightarrow> nat \<Rightarrow> alert_failure + (text_bytes list \<times> nat)" where
  "see_rows env [] seen unknown = Inr (seen, unknown)"
| "see_rows env (raw # rows) seen unknown =
     (let e = normalize_alert env raw in
      if ev_id e \<in> set seen then Inl (Alert_Code ''ALERT_PAGE_DUPLICATE'')
      else see_rows env rows (seen @ [ev_id e]) (unknown + (if ev_action e = ''unknown'' then 1 else 0)))"

definition take_page ::
  "head_env \<Rightarrow> instant \<Rightarrow> instant \<Rightarrow> nat \<Rightarrow> json \<Rightarrow> pages_read \<Rightarrow> alert_failure + pages_read" where
  "take_page env when fetched page_no body st =
     (case alert_page body page_no of
        Inl e \<Rightarrow> Inl e
      | Inr (rows, tot) \<Rightarrow>
          if pg_total st \<noteq> None \<and> pg_total st \<noteq> Some tot then Inl (Alert_Code ''ALERT_PAGE_TOTAL_CHANGED'')
          else
            let payload = page_payload when rows tot page_no; bytes = pg_bytes st + dumped_size payload in
            if bytes > MAX_BYTES then Inl (Alert_Code ''ALERT_RESPONSE_TOO_LARGE'')
            else (case see_rows env rows (pg_seen st) (pg_unknown st) of
                    Inl e \<Rightarrow> Inl e
                  | Inr (seen, unknown) \<Rightarrow>
                      Inr \<lparr>pg_records = pg_records st @ [page_record env fetched payload],
                        pg_first = (if page_no = 1 then fingerprint env rows else pg_first st), pg_total = Some tot,
                        pg_seen = seen, pg_bytes = bytes, pg_unknown = unknown\<rparr>))"

text \<open>
  The loop over the page numbers.  \<open>beat\<close> is the heartbeat before a call, \<open>fetch\<close> what the client
  answers or raises, \<open>clock\<close> the time of the answer, all by the number of the call.
\<close>

fun read_pages ::
  "head_env \<Rightarrow> instant \<Rightarrow> (nat \<Rightarrow> bool) \<Rightarrow> (nat \<Rightarrow> nat \<Rightarrow> client_failure + json) \<Rightarrow> (nat \<Rightarrow> instant) \<Rightarrow> nat list \<Rightarrow>
   pages_read \<Rightarrow> alert_failure + pages_read" where
  "read_pages env when beat fetch clock [] st = Inl (Alert_Code ''ALERT_TOO_MANY_ROWS'')"
| "read_pages env when beat fetch clock (page_no # ps) st =
     (if \<not> beat page_no then Inl (Alert_Code ''ALERT_RUN_OWNERSHIP_LOST'')
      else case fetch page_no page_no of
        Inl e \<Rightarrow> Inl (Raised e)
      | Inr body \<Rightarrow>
          (case take_page env when (clock page_no) page_no body st of
             Inl e \<Rightarrow> Inl e
           | Inr st' \<Rightarrow>
               if Some (length (pg_seen st')) = pg_total st' then Inr st'
               else read_pages env when beat fetch clock ps st'))"

definition PAGE_NUMBERS :: "nat list" where "PAGE_NUMBERS = [1..<MAX_PAGES + 1]"

record alert_collection =
  co_records :: "source_record list"
  co_requests :: nat
  co_observations :: nat
  co_unknown :: nat

definition collect_alert_pages ::
  "head_env \<Rightarrow> instant \<Rightarrow> (nat \<Rightarrow> bool) \<Rightarrow> (nat \<Rightarrow> nat \<Rightarrow> client_failure + json) \<Rightarrow> (nat \<Rightarrow> instant) \<Rightarrow>
   alert_failure + alert_collection" where
  "collect_alert_pages env when beat fetch clock =
     (case read_pages env when beat fetch clock PAGE_NUMBERS nothing_read of
        Inl e \<Rightarrow> Inl e
      | Inr st \<Rightarrow>
          let n = length (pg_records st);
              found = (\<lambda>k. \<lparr>co_records = pg_records st, co_requests = k, co_observations = length (pg_seen st),
                 co_unknown = pg_unknown st\<rparr>) in
          if n \<le> 1 then Inr (found n)
          else if \<not> beat (n + 1) then Inl (Alert_Code ''ALERT_RUN_OWNERSHIP_LOST'')
          else (case fetch (n + 1) 1 of
                  Inl e \<Rightarrow> Inl (Raised e)
                | Inr body \<Rightarrow>
                    (case alert_page body 1 of
                       Inl e \<Rightarrow> Inl e
                     | Inr (rows, tot) \<Rightarrow>
                         if Some tot \<noteq> pg_total st \<or> fingerprint env rows \<noteq> pg_first st
                         then Inl (Alert_Code ''ALERT_FIRST_PAGE_CHANGED'')
                         else Inr (found (n + 1)))))"

definition safe_collection_error :: "alert_failure \<Rightarrow> text_bytes" where
  "safe_collection_error e =
     (case e of
        Alert_Code c \<Rightarrow> c
      | Raised Timed_Out \<Rightarrow> ''ALERT_TIMEOUT''
      | Raised (Kma_Failure kind status) \<Rightarrow>
          if kind = ''auth'' \<or> status \<in> set [Some 401, Some 403] then ''ALERT_PROVIDER_AUTH''
          else if kind \<in> set [''quota'', ''rate_limit''] \<or> status = Some 429 then ''ALERT_PROVIDER_RATE_LIMIT''
          else ''ALERT_PROVIDER_UNAVAILABLE''
      | Raised (Value_Failure m) \<Rightarrow> if m = ''ALERT_RUN_OWNERSHIP_LOST'' then m else ''ALERT_COLLECTION_FAILED''
      | Raised Other_Failure \<Rightarrow> ''ALERT_COLLECTION_FAILED'')"

subsection \<open>What a page adds\<close>

lemma PAGE_NUMBERS_Suc: "PAGE_NUMBERS = [Suc 0..<MAX_PAGES + 1]"
  by (simp add: PAGE_NUMBERS_def)

definition rows_in :: "source_record \<Rightarrow> json list" where
  "rows_in r = (case jget (rec_payload r) ''rows'' of Some (JArr xs) \<Rightarrow> xs | _ \<Rightarrow> [])"

lemma rows_in_record [simp]: "rows_in (page_record env t (page_payload when rows tot p)) = rows"
  by (simp add: rows_in_def page_record_def page_payload_def jget_def)

lemma ev_id_normalize [simp]: "ev_id (normalize_alert env raw) = event_key env raw"
  by (simp add: normalize_alert_def Let_def)

lemma see_rows_Inr:
  "see_rows env rows seen u = Inr (seen', u') \<Longrightarrow>
    seen' = seen @ map (event_key env) rows \<and> (distinct seen \<longrightarrow> distinct seen')"
proof (induction rows arbitrary: seen u)
  case (Cons r rs)
  then have fresh: "event_key env r \<notin> set seen" by (auto simp: Let_def split: if_splits)
  with Cons.prems obtain u1 where "see_rows env rs (seen @ [event_key env r]) u1 = Inr (seen', u')"
    by (simp add: Let_def)
  note ih = Cons.IH [OF this]
  from ih have "seen' = seen @ map (event_key env) (r # rs)" by simp
  moreover have "distinct seen \<longrightarrow> distinct seen'" using conjunct2 [OF ih] fresh by simp
  ultimately show ?case ..
qed simp

lemma see_rows_ok:
  "distinct (seen @ map (event_key env) rows) \<Longrightarrow> \<exists>u'. see_rows env rows seen u = Inr (seen @ map (event_key env) rows, u')"
proof (induction rows arbitrary: seen u)
  case (Cons r rs)
  then have "event_key env r \<notin> set seen" by auto
  moreover have "distinct ((seen @ [event_key env r]) @ map (event_key env) rs)" using Cons.prems by simp
  ultimately show ?case using Cons.IH [of "seen @ [event_key env r]"] by (simp add: Let_def)
qed simp

lemma alert_page_Inr:
  assumes "alert_page body p = Inr (rows, tot)"
  shows "length rows = min PAGE_SIZE (tot - (p - 1) * PAGE_SIZE)" "tot \<le> PAGE_SIZE * MAX_PAGES"
    "alert_rows body = Some rows"
  using assms by (auto simp: alert_page_def split: option.splits if_splits)

text \<open>After the pages before \<open>p\<close>: their rows, each seen once, and their number is right.\<close>

definition pages_inv :: "head_env \<Rightarrow> (nat \<Rightarrow> nat \<Rightarrow> client_failure + json) \<Rightarrow> nat \<Rightarrow> pages_read \<Rightarrow> bool" where
  "pages_inv env fetch p st \<longleftrightarrow>
     length (pg_records st) = p \<and> distinct (pg_seen st)
     \<and> pg_seen st = map (event_key env) (concat (map rows_in (pg_records st)))
     \<and> (\<forall>k<p. \<exists>body tot. fetch (k + 1) (k + 1) = Inr body \<and> alert_page body (k + 1) = Inr (rows_in (pg_records st ! k), tot)
          \<and> pg_total st = Some tot \<and> (k = 0 \<longrightarrow> pg_first st = fingerprint env (rows_in (pg_records st ! k))))"

lemma take_page_Inr:
  assumes "take_page env when t p body st = Inr st'"
  obtains rows tot where "alert_page body p = Inr (rows, tot)" "pg_total st = None \<or> pg_total st = Some tot"
    "pg_records st' = pg_records st @ [page_record env t (page_payload when rows tot p)]" "pg_total st' = Some tot"
    "pg_seen st' = pg_seen st @ map (event_key env) rows" "distinct (pg_seen st) \<longrightarrow> distinct (pg_seen st')"
    "pg_first st' = (if p = 1 then fingerprint env rows else pg_first st)"
proof -
  from assms obtain rows tot where page: "alert_page body p = Inr (rows, tot)"
    by (auto simp: take_page_def split: sum.splits)
  with assms obtain seen unknown where see: "see_rows env rows (pg_seen st) (pg_unknown st) = Inr (seen, unknown)"
    and tot: "pg_total st = None \<or> pg_total st = Some tot"
    and st': "st' = \<lparr>pg_records = pg_records st @ [page_record env t (page_payload when rows tot p)],
      pg_first = (if p = 1 then fingerprint env rows else pg_first st), pg_total = Some tot, pg_seen = seen,
      pg_bytes = pg_bytes st + dumped_size (page_payload when rows tot p), pg_unknown = unknown\<rparr>"
    by (auto simp: take_page_def Let_def split: sum.splits if_splits)
  have "seen = pg_seen st @ map (event_key env) rows" "distinct (pg_seen st) \<longrightarrow> distinct seen"
    using see_rows_Inr [OF see] by blast+
  then show thesis
    by (intro that [OF page tot]) (simp_all only: st' pages_read.select_convs)
qed

lemma pages_inv_step:
  assumes inv: "pages_inv env fetch p st" and page: "take_page env when t (Suc p) body st = Inr st'" and call: "fetch (Suc p) (Suc p) = Inr body"
  shows "pages_inv env fetch (Suc p) st'"
proof -
  note i = inv [unfolded pages_inv_def]
  obtain rows tot where 1: "alert_page body (Suc p) = Inr (rows, tot)" "pg_total st = None \<or> pg_total st = Some tot"
    "pg_records st' = pg_records st @ [page_record env t (page_payload when rows tot (Suc p))]" "pg_total st' = Some tot"
    "pg_seen st' = pg_seen st @ map (event_key env) rows" "distinct (pg_seen st) \<longrightarrow> distinct (pg_seen st')"
    "pg_first st' = (if Suc p = 1 then fingerprint env rows else pg_first st)"
    by (rule take_page_Inr [OF page])
  have "\<exists>body tt. fetch (k + 1) (k + 1) = Inr body \<and> alert_page body (k + 1) = Inr (rows_in (pg_records st' ! k), tt)
      \<and> pg_total st' = Some tt \<and> (k = 0 \<longrightarrow> pg_first st' = fingerprint env (rows_in (pg_records st' ! k)))"
    if "k < Suc p" for k
  proof (cases "k = p")
    case True
    with 1 i call show ?thesis by (simp add: nth_append)
  next
    case False
    with that have "k < p" by simp
    with i obtain b tt where b: "fetch (k + 1) (k + 1) = Inr b" "alert_page b (k + 1) = Inr (rows_in (pg_records st ! k), tt)"
      "pg_total st = Some tt" "k = 0 \<longrightarrow> pg_first st = fingerprint env (rows_in (pg_records st ! k))" by blast
    from 1 i \<open>k < p\<close> have "pg_records st' ! k = pg_records st ! k" by (simp add: nth_append)
    with b 1 \<open>k < p\<close> show ?thesis by (cases "k = 0") simp_all
  qed
  moreover have "distinct (pg_seen st')" using 1(6) i by blast
  moreover have "pg_seen st' = map (event_key env) (concat (map rows_in (pg_records st')))"
    using i unfolding 1(3,5) by simp
  moreover have "length (pg_records st') = Suc p" using i unfolding 1(3) by simp
  ultimately show ?thesis unfolding pages_inv_def by blast
qed

lemma read_pages_inv:
  "read_pages env when beat fetch clock [Suc p..<m] st = Inr st' \<Longrightarrow> pages_inv env fetch p st \<Longrightarrow>
    \<exists>q. p < q \<and> q < m \<and> pages_inv env fetch q st' \<and> Some (length (pg_seen st')) = pg_total st'"
proof (induction "m - Suc p" arbitrary: p st)
  case 0
  then show ?case by simp
next
  case (Suc n)
  then have m: "[Suc p..<m] = Suc p # [Suc (Suc p)..<m]" by (simp add: upt_conv_Cons)
  with Suc.prems(1) obtain body st1 where 1: "fetch (Suc p) (Suc p) = Inr body"
    "take_page env when (clock (Suc p)) (Suc p) body st = Inr st1"
    and rest: "if Some (length (pg_seen st1)) = pg_total st1 then st' = st1
      else read_pages env when beat fetch clock [Suc (Suc p)..<m] st1 = Inr st'"
    by (auto split: if_splits sum.splits)
  have inv: "pages_inv env fetch (Suc p) st1" by (rule pages_inv_step [OF Suc.prems(2) 1(2,1)])
  show ?case
  proof (cases "Some (length (pg_seen st1)) = pg_total st1")
    case True
    with rest inv Suc.hyps(2) show ?thesis by (intro exI [of _ "Suc p"]) simp
  next
    case False
    with rest have "read_pages env when beat fetch clock [Suc (Suc p)..<m] st1 = Inr st'" by simp
    moreover have "n = m - Suc (Suc p)" using Suc.hyps(2) by simp
    ultimately obtain q where "Suc p < q" "q < m" "pages_inv env fetch q st'"
      "Some (length (pg_seen st')) = pg_total st'" using Suc.hyps(1) inv by blast
    then show ?thesis by (intro exI [of _ q]) simp
  qed
qed


subsection \<open>What a collection promises\<close>

text \<open>
  An accepted collection is whole: it is the pages 1 to q of the feed, each as the client
  answered it, with all announced rows together and no observation twice; and when there was more
  than one page, the first page was read again after the last and had the same rows.
\<close>

theorem alert_collection_is_whole:
  assumes "collect_alert_pages env when beat fetch clock = Inr c"
  shows "\<exists>q. 1 \<le> q \<and> q \<le> 100 \<and> length (co_records c) = q
    \<and> distinct (map (event_key env) (concat (map rows_in (co_records c))))
    \<and> co_observations c = length (concat (map rows_in (co_records c)))
    \<and> co_requests c = (if q = 1 then 1 else q + 1)
    \<and> (\<forall>k<q. \<exists>body. fetch (k + 1) (k + 1) = Inr body
         \<and> alert_page body (k + 1) = Inr (rows_in (co_records c ! k), co_observations c))
    \<and> (1 < q \<longrightarrow> (\<exists>body rows. fetch (q + 1) 1 = Inr body \<and> alert_page body 1 = Inr (rows, co_observations c)
         \<and> fingerprint env rows = fingerprint env (rows_in (co_records c ! 0))))"
proof -
  from assms obtain st where read: "read_pages env when beat fetch clock PAGE_NUMBERS nothing_read = Inr st"
    by (cases "read_pages env when beat fetch clock PAGE_NUMBERS nothing_read") (simp_all add: collect_alert_pages_def)
  have "pages_inv env fetch 0 nothing_read" by (simp add: pages_inv_def nothing_read_def)
  note reached = read_pages_inv [where p = 0 and m = "MAX_PAGES + 1", OF read [unfolded PAGE_NUMBERS_Suc] this]
  obtain q where q: "0 < q" "q < MAX_PAGES + 1"
    and inv: "pages_inv env fetch q st" and tot: "pg_total st = Some (length (pg_seen st))"
    by (rule exE [OF reached], elim conjE, rule that) (simp_all only:)
  note i = inv [unfolded pages_inv_def]
  have n: "length (pg_records st) = q" using i by blast
  have c: "co_records c = pg_records st \<and> co_observations c = length (pg_seen st) \<and> co_requests c = (if q = 1 then 1 else q + 1)
    \<and> (1 < q \<longrightarrow> (\<exists>body rows. fetch (q + 1) 1 = Inr body \<and> alert_page body 1 = Inr (rows, length (pg_seen st))
      \<and> fingerprint env rows = pg_first st))"
  proof (cases "q \<le> 1")
    case True
    with q(1) have "q = 1" by simp
    with assms read n have "c = \<lparr>co_records = pg_records st, co_requests = 1, co_observations = length (pg_seen st), co_unknown = pg_unknown st\<rparr>"
      by (simp add: collect_alert_pages_def Let_def)
    with \<open>q = 1\<close> show ?thesis by simp
  next
    case False
    with assms read n obtain body rows t where again: "fetch (q + 1) 1 = Inr body" "alert_page body 1 = Inr (rows, t)"
      by (auto simp: collect_alert_pages_def Let_def simp del: One_nat_def split: sum.splits if_splits)
    with assms read n False tot have "t = length (pg_seen st)" "fingerprint env rows = pg_first st"
      "c = \<lparr>co_records = pg_records st, co_requests = q + 1, co_observations = length (pg_seen st), co_unknown = pg_unknown st\<rparr>"
      by (simp_all add: collect_alert_pages_def Let_def del: One_nat_def split: if_splits)
    with again False show ?thesis by simp
  qed
  have seen: "pg_seen st = map (event_key env) (concat (map rows_in (pg_records st)))" "distinct (pg_seen st)"
    using i by blast+
  have pages: "\<forall>k<q. \<exists>body. fetch (k + 1) (k + 1) = Inr body
      \<and> alert_page body (k + 1) = Inr (rows_in (pg_records st ! k), length (pg_seen st))"
  proof (intro allI impI)
    fix k assume "k < q"
    with i obtain body t where "fetch (k + 1) (k + 1) = Inr body" "alert_page body (k + 1) = Inr (rows_in (pg_records st ! k), t)"
      "pg_total st = Some t" by blast
    with tot show "\<exists>body. fetch (k + 1) (k + 1) = Inr body
      \<and> alert_page body (k + 1) = Inr (rows_in (pg_records st ! k), length (pg_seen st))" by simp
  qed
  have first: "pg_first st = fingerprint env (rows_in (pg_records st ! 0))" using i q(1) by blast
  have "q \<le> 100" using q(2) by (simp add: MAX_PAGES_def)
  moreover have "distinct (map (event_key env) (concat (map rows_in (pg_records st))))" using seen by (simp only:)
  moreover have "length (pg_seen st) = length (concat (map rows_in (pg_records st)))" by (simp only: seen(1) length_map)
  moreover have "1 \<le> q" using q(1) by simp
  ultimately show ?thesis
    using c n pages first by (intro exI [of _ q]) (elim conjE, simp only: simp_thms)
qed

text \<open>A feed that does not change: what it answers to every call.\<close>

definition page_rows :: "json list \<Rightarrow> nat \<Rightarrow> json list" where
  "page_rows feed p = take 100 (drop ((p - 1) * 100) feed)"

definition feed_body :: "json list \<Rightarrow> nat \<Rightarrow> json" where
  "feed_body feed p =
     JObj [(''totalCount'', JInt (int (length feed))), (''pageNo'', JInt (int p)), (''numOfRows'', JInt 100),
       (''items'', JObj [(''item'', JArr (page_rows feed p))])]"

definition feed_pages :: "json list \<Rightarrow> nat" where
  "feed_pages feed = max 1 ((length feed + 99) div 100)"

definition feed_size :: "instant \<Rightarrow> json list \<Rightarrow> nat \<Rightarrow> nat" where
  "feed_size when feed n = (\<Sum>p\<leftarrow>[1..<n + 1]. dumped_size (page_payload when (page_rows feed p) (length feed) p))"

lemma feed_size_Suc: "feed_size when feed (Suc n) = feed_size when feed n + dumped_size (page_payload when (page_rows feed (Suc n)) (length feed) (Suc n))"
  by (simp add: feed_size_def)

lemma feed_size_mono: "m \<le> n \<Longrightarrow> feed_size when feed m \<le> feed_size when feed n"
  by (induction n) (auto simp: feed_size_Suc le_Suc_eq)

lemma alert_page_feed:
  assumes "list_all is_object feed" "length feed \<le> 10000" "p \<le> 100"
  shows "alert_page (feed_body feed p) p = Inr (page_rows feed p, length feed)"
proof -
  have rows: "list_all is_object (page_rows feed p)"
    using assms(1) by (auto simp: page_rows_def list_all_iff dest!: in_set_takeD in_set_dropD)
  have counts: "alert_integer (Some (JInt (int (length feed)))) = Some (length feed)"
    "alert_integer (Some (JInt (int p))) = Some p" "alert_integer (Some (JInt 100)) = Some 100"
    using assms(2,3) by (simp_all add: alert_integer_def)
  have get: "jget (feed_body feed p) ''totalCount'' = Some (JInt (int (length feed)))"
    "jget (feed_body feed p) ''pageNo'' = Some (JInt (int p))" "jget (feed_body feed p) ''numOfRows'' = Some (JInt 100)"
    "jget (feed_body feed p) ''items'' = Some (JObj [(''item'', JArr (page_rows feed p))])"
    by (simp_all add: feed_body_def jget_def)
  have "alert_rows (feed_body feed p) = Some (page_rows feed p)" by (simp add: alert_rows_def get rows)
  moreover have "length (page_rows feed p) = min 100 (length feed - (p - 1) * 100)" by (simp add: page_rows_def)
  ultimately show ?thesis
    using assms(2) by (simp add: alert_page_def get counts PAGE_SIZE_def MAX_PAGES_def)
qed

lemma page_rows_Suc: "take (p * 100) feed @ page_rows feed (Suc p) = take (Suc p * 100) feed"
  by (simp add: page_rows_def take_add [symmetric] add.commute)

definition read_so_far :: "head_env \<Rightarrow> instant \<Rightarrow> json list \<Rightarrow> nat \<Rightarrow> pages_read \<Rightarrow> bool" where
  "read_so_far env when feed p st \<longleftrightarrow>
     length (pg_records st) = p \<and> concat (map rows_in (pg_records st)) = take (p * 100) feed
     \<and> pg_seen st = map (event_key env) (take (p * 100) feed) \<and> pg_bytes st = feed_size when feed p
     \<and> pg_total st = (if p = 0 then None else Some (length feed))
     \<and> (0 < p \<longrightarrow> pg_first st = fingerprint env (page_rows feed 1))"

lemma read_so_far_step:
  assumes "read_so_far env when feed p st" "p < 100"
    and feed: "list_all is_object feed" "length feed \<le> 10000" "distinct (map (event_key env) feed)"
    and "feed_size when feed (Suc p) \<le> MAX_BYTES"
  shows "\<exists>st'. take_page env when t (Suc p) (feed_body feed (Suc p)) st = Inr st' \<and> read_so_far env when feed (Suc p) st'"
proof -
  note i = assms(1) [unfolded read_so_far_def]
  note page = alert_page_feed [OF feed(1,2), of "Suc p"]
  have seen: "pg_seen st @ map (event_key env) (page_rows feed (Suc p)) = map (event_key env) (take (Suc p * 100) feed)"
    using i unfolding page_rows_Suc [symmetric] by simp
  have "distinct (map (event_key env) (take (Suc p * 100) feed))"
    using distinct_take [OF feed(3)] by (simp only: take_map)
  with see_rows_ok [of "pg_seen st" env "page_rows feed (Suc p)" "pg_unknown st"] seen obtain u where
    see: "see_rows env (page_rows feed (Suc p)) (pg_seen st) (pg_unknown st) = Inr (map (event_key env) (take (Suc p * 100) feed), u)"
    by auto
  have bytes: "pg_bytes st + dumped_size (page_payload when (page_rows feed (Suc p)) (length feed) (Suc p)) = feed_size when feed (Suc p)"
    using i by (simp add: feed_size_Suc)
  have tot: "\<not> (pg_total st \<noteq> None \<and> pg_total st \<noteq> Some (length feed))" using i by simp
  have rows: "concat (map rows_in (pg_records st @ [page_record env t (page_payload when (page_rows feed (Suc p)) (length feed) (Suc p))]))
      = take (Suc p * 100) feed"
    using i unfolding page_rows_Suc [symmetric] by simp
  show ?thesis
    using page assms(2,6) tot see bytes rows i by (simp add: take_page_def read_so_far_def Let_def del: map_append concat_append)
qed

lemma steady_loop:
  assumes feed: "list_all is_object feed" "length feed \<le> 10000" "distinct (map (event_key env) feed)"
    and size: "feed_size when feed (feed_pages feed) \<le> MAX_BYTES"
    and calls: "\<And>n. beat n" "\<And>n p. fetch n p = Inr (feed_body feed p)"
  shows "read_so_far env when feed p st \<Longrightarrow> p < feed_pages feed \<Longrightarrow>
    \<exists>st'. read_pages env when beat fetch clock [Suc p..<MAX_PAGES + 1] st = Inr st' \<and> read_so_far env when feed (feed_pages feed) st'"
proof (induction "feed_pages feed - p" arbitrary: p st)
  case 0
  then show ?case by simp
next
  case (Suc n)
  have pages: "feed_pages feed \<le> 100" using feed(2) by (simp add: feed_pages_def)
  with Suc.prems(2) have m: "[Suc p..<MAX_PAGES + 1] = Suc p # [Suc (Suc p)..<MAX_PAGES + 1]" and p: "p < 100"
    by (simp_all add: upt_conv_Cons MAX_PAGES_def)
  have "feed_size when feed (Suc p) \<le> MAX_BYTES"
    using feed_size_mono [of "Suc p" "feed_pages feed"] Suc.prems(2) size by (meson Suc_leI le_trans)
  from read_so_far_step [OF Suc.prems(1) p feed this] obtain st1 where st1:
    "take_page env when (clock (Suc p)) (Suc p) (feed_body feed (Suc p)) st = Inr st1" "read_so_far env when feed (Suc p) st1"
    by blast
  have unfold1: "read_pages env when beat fetch clock [Suc p..<MAX_PAGES + 1] st =
      (if length (take (Suc p * 100) feed) = length feed then Inr st1
       else read_pages env when beat fetch clock [Suc (Suc p)..<MAX_PAGES + 1] st1)"
    using st1 calls unfolding m by (simp add: read_so_far_def)
  show ?case
  proof (cases "length feed \<le> Suc p * 100")
    case True
    then have "feed_pages feed \<le> Suc p" by (simp add: feed_pages_def)
    with Suc.prems(2) have "feed_pages feed = Suc p" by simp
    with st1(2) True show ?thesis unfolding unfold1 by simp
  next
    case False
    then have "Suc (Suc p) * 100 \<le> length feed + 99" by simp
    then have "Suc p < feed_pages feed"
      unfolding feed_pages_def less_eq_div_iff_mult_less_eq [symmetric, of 100, simplified] less_max_iff_disj Suc_le_eq by simp
    moreover from Suc.hyps(2) have "n = feed_pages feed - Suc p" by simp
    ultimately show ?thesis using Suc.hyps(1) st1(2) False unfolding unfold1 by simp
  qed
qed

lemma steady_collect:
  assumes "list_all is_object feed" "length feed \<le> 10000" "distinct (map (event_key env) feed)"
    and "feed_size when feed (feed_pages feed) \<le> MAX_BYTES"
    and "\<And>n. beat n" "\<And>n p. fetch n p = Inr (feed_body feed p)"
  shows "\<exists>c. collect_alert_pages env when beat fetch clock = Inr c \<and> concat (map rows_in (co_records c)) = feed
    \<and> co_observations c = length feed \<and> co_requests c \<le> 101"
proof -
  have start: "read_so_far env when feed 0 nothing_read"
    by (simp add: read_so_far_def nothing_read_def feed_size_def)
  have "0 < feed_pages feed" by (simp add: feed_pages_def)
  from steady_loop [where beat = beat and fetch = fetch and clock = clock, OF assms start this] obtain st where
    st: "read_pages env when beat fetch clock PAGE_NUMBERS nothing_read = Inr st" "read_so_far env when feed (feed_pages feed) st"
    unfolding PAGE_NUMBERS_Suc by blast
  have pages: "feed_pages feed \<le> 100" "length feed \<le> feed_pages feed * 100" using assms(2) by (auto simp: feed_pages_def max_def)
  note i = st(2) [unfolded read_so_far_def]
  have first: "alert_page (feed_body feed 1) 1 = Inr (page_rows feed 1, length feed)"
    by (rule alert_page_feed [OF assms(1,2)]) simp
  from i pages \<open>0 < feed_pages feed\<close> have fin: "length (pg_records st) = feed_pages feed" "pg_total st = Some (length feed)"
    "pg_first st = fingerprint env (page_rows feed (Suc 0))" "pg_seen st = map (event_key env) feed"
    "concat (map rows_in (pg_records st)) = feed"
    by simp_all
  show ?thesis
    using pages(1) by (simp add: collect_alert_pages_def st(1) Let_def fin assms(5,6) first [unfolded One_nat_def])
qed

text \<open>
  A feed that does not change while it is read is collected completely and in order: with at
  most 10,000 rows that are distinct observations, at most 8 MiB of payloads and a run that is
  still owned, the collection succeeds and its records hold exactly the rows of the feed.
\<close>

theorem steady_feed_is_collected:
  assumes "list_all is_object feed" "length feed \<le> 10000" "distinct (map (event_key env) feed)"
    and "feed_size when feed (feed_pages feed) \<le> MAX_BYTES"
    and "\<And>n. beat n" "\<And>n p. fetch n p = Inr (feed_body feed p)"
  shows "\<exists>c. collect_alert_pages env when beat fetch clock = Inr c \<and> concat (map rows_in (co_records c)) = feed
    \<and> co_observations c = length feed \<and> co_requests c \<le> 101"
  using assms by (rule steady_collect)

end
