(* ===== verification/Alert_Store.thy ===== *)
theory Alert_Store
  imports Alert_Pages Fact_Ingest
begin

section \<open>Announcements in the database (alert_event_store.py)\<close>

text \<open>
  A publication records the pages as responses of its run, adds the observations not yet stored and
  ends the run, all in one transaction.  An observation keeps the time it was first seen; it goes
  31 days later at the earliest.  A row is its event (whose id, announcement, area and time of issue
  are columns of their own), that time and the response it came from.
\<close>

definition ALERT_RETENTION :: instant where "ALERT_RETENTION = days 31"
definition ALERT_QUERY_LIMIT :: nat where "ALERT_QUERY_LIMIT = 5000"

record alert_row =
  aw_event :: alert_event
  aw_first_seen :: instant
  aw_source :: text_bytes

definition aw_id :: "alert_row \<Rightarrow> text_bytes" where "aw_id r = ev_id (aw_event r)"

record alert_db =
  av_sync :: sync_db
  av_sources :: "source_row list"
  av_links :: "(text_bytes \<times> text_bytes) list"
  av_events :: "alert_row list"

datatype publish_error =
    Publication_Bounds | Publication_Receipt | Source_Rows_Invalid | Duplicate_Observation | Ownership_Gone
  | Run_Of_Other_Scope | Source_Of_Other_Scope | Source_Refused ingest_error | Source_Linked | Source_Unknown

subsection \<open>Publishing\<close>

fun validated_rows :: "head_env \<Rightarrow> source_record list \<Rightarrow> publish_error + (alert_event \<times> text_bytes) list" where
  "validated_rows env [] = Inr []"
| "validated_rows env (r # rs) =
     (case jget (rec_payload r) ''rows'' of
        Some (JArr rows) \<Rightarrow>
          if length rows > 100 \<or> \<not> list_all is_object rows then Inl Source_Rows_Invalid
          else (case validated_rows env rs of
                  Inl e \<Rightarrow> Inl e
                | Inr es \<Rightarrow> Inr (map (\<lambda>raw. (normalize_alert env raw, rec_key r)) rows @ es))
      | _ \<Rightarrow> Inl Source_Rows_Invalid)"

text \<open>Each response is flushed before the next is looked up.\<close>

fun record_alert_sources ::
  "fact_env \<Rightarrow> instant \<Rightarrow> text_bytes \<Rightarrow> source_record list \<Rightarrow> source_row list \<Rightarrow> (text_bytes \<times> text_bytes) list \<Rightarrow>
   publish_error + (source_row list \<times> (text_bytes \<times> text_bytes) list)" where
  "record_alert_sources env now run_id [] stored aliases = Inr (stored, aliases)"
| "record_alert_sources env now run_id (r # rs) stored aliases =
     (if rec_provider r \<noteq> ALERT_PROVIDER \<or> rec_dataset r \<noteq> ALERT_DATASET
         \<or> (case rec_run r of None \<Rightarrow> False | Some k \<Rightarrow> k \<noteq> run_id) then Inl Source_Of_Other_Scope
      else case record_source env now stored r of
        Inl e \<Rightarrow> Inl (Source_Refused e)
      | Inr (key, row) \<Rightarrow>
          record_alert_sources env now run_id rs (stored @ (case row of None \<Rightarrow> [] | Some s \<Rightarrow> [s]))
            ((rec_key r, key) # aliases))"

fun new_alert_rows ::
  "instant \<Rightarrow> (text_bytes \<times> text_bytes) list \<Rightarrow> text_bytes list \<Rightarrow> (alert_event \<times> text_bytes) list \<Rightarrow>
   publish_error + alert_row list" where
  "new_alert_rows now aliases existing [] = Inr []"
| "new_alert_rows now aliases existing ((e, source) # es) =
     (case map_of aliases source of
        None \<Rightarrow> Inl Source_Unknown
      | Some key \<Rightarrow>
          (case new_alert_rows now aliases existing es of
             Inl x \<Rightarrow> Inl x
           | Inr rows \<Rightarrow>
               Inr ((if ev_id e \<in> set existing then [] else [\<lparr>aw_event = e, aw_first_seen = now, aw_source = key\<rparr>]) @ rows)))"

definition publish_alert_events ::
  "fact_env \<Rightarrow> text_bytes \<Rightarrow> source_record list \<Rightarrow> int \<Rightarrow> instant \<Rightarrow> instant \<Rightarrow> alert_db \<Rightarrow>
   publish_error + (nat \<times> sync_run \<times> alert_db)" where
  "publish_alert_events env run_id recs requests now finished db =
     (if recs = [] \<or> length recs > 100 then Inl Publication_Bounds
      else if requests < int (length recs) then Inl Publication_Receipt
      else case validated_rows (fe_head env) recs of
        Inl e \<Rightarrow> Inl e
      | Inr es \<Rightarrow>
          if length es > 10000 then Inl Publication_Bounds
          else if \<not> distinct (map (ev_id \<circ> fst) es) then Inl Duplicate_Observation
          else (case run_row run_id (runs (av_sync db)) of
              None \<Rightarrow> Inl Ownership_Gone
            | Some run \<Rightarrow>
                if \<not> is_running run then Inl Ownership_Gone
                else if sr_provider run \<noteq> ALERT_PROVIDER \<or> sr_dataset run \<noteq> ALERT_DATASET then Inl Run_Of_Other_Scope
                else (case record_alert_sources env now run_id recs (av_sources db) [] of
                    Inl e \<Rightarrow> Inl e
                  | Inr (sources, aliases) \<Rightarrow>
                      let links = map (Pair run_id) (sorted_set (map snd aliases)) in
                      if list_ex (\<lambda>l. l \<in> set (av_links db)) links then Inl Source_Linked
                      else (case new_alert_rows now aliases (map aw_id (av_events db)) es of
                          Inl e \<Rightarrow> Inl e
                        | Inr new \<Rightarrow>
                            let done_row = succeed_row finished requests (int (length new)) run in
                            Inr (length new, done_row,
                              db\<lparr>av_sync := succeed_alert_run run_id finished requests (int (length new)) (av_sync db),
                                 av_sources := sources, av_links := av_links db @ links, av_events := av_events db @ new\<rparr>)))))"

definition purge_alert_events :: "instant \<Rightarrow> instant \<Rightarrow> alert_db \<Rightarrow> nat \<times> alert_db" where
  "purge_alert_events cutoff now db =
     (let gone = (\<lambda>r. aw_first_seen r < min cutoff (now - ALERT_RETENTION)) in
      (length (filter gone (av_events db)), db\<lparr>av_events := delete_where gone (av_events db)\<rparr>))"

subsection \<open>Reading\<close>

record shown_alert =
  sa_event :: alert_event
  sa_first_seen :: instant
  sa_source :: text_bytes
  sa_prefixes :: "text_bytes list"

record alert_answer =
  aa_known :: bool
  aa_version :: text_bytes
  aa_unverified :: nat
  aa_status :: text_bytes
  aa_last_attempt :: "instant option"
  aa_last_success :: "instant option"
  aa_error :: "text_bytes option"
  aa_fresh :: bool
  aa_complete :: bool
  aa_retained_since :: instant
  aa_available_since :: "instant option"
  aa_since :: instant
  aa_events :: "shown_alert list"

definition alert_runs :: "alert_db \<Rightarrow> sync_run list" where
  "alert_runs db = filter (\<lambda>r. sr_provider r = ALERT_PROVIDER \<and> sr_dataset r = ALERT_DATASET) (runs (av_sync db))"

definition last_by :: "('a \<Rightarrow> 'k::linorder) \<Rightarrow> 'a list \<Rightarrow> 'a option" where
  "last_by key rs = (case rev (sort_key key rs) of [] \<Rightarrow> None | r # _ \<Rightarrow> Some r)"

definition alert_fresh :: "area_mapping \<Rightarrow> text_bytes \<Rightarrow> instant \<Rightarrow> sync_run option \<Rightarrow> sync_run option \<Rightarrow> bool" where
  "alert_fresh m code now latest success \<longleftrightarrow>
     known_bjd m code \<and>
     (case success of None \<Rightarrow> False | Some s \<Rightarrow>
        (case sr_finished s of None \<Rightarrow> False | Some t \<Rightarrow> now - seconds (15 * 60) \<le> t \<and> t \<le> now)) \<and>
     (case latest of None \<Rightarrow> False | Some r \<Rightarrow> sr_status r \<in> set [''running'', ''success''])"

definition alert_window :: "area_mapping \<Rightarrow> text_bytes \<Rightarrow> instant \<Rightarrow> instant \<Rightarrow> alert_db \<Rightarrow> alert_row list" where
  "alert_window m code since now db =
     (let codes = candidate_areas m code in
      sort_key (\<lambda>r. (aw_first_seen r, aw_id r))
        (filter (\<lambda>r. ev_area (aw_event r) \<in> set codes \<and> since \<le> aw_first_seen r \<and> aw_first_seen r \<le> now) (av_events db)))"

definition show_alert :: "head_env \<Rightarrow> area_mapping \<Rightarrow> alert_row \<Rightarrow> shown_alert option" where
  "show_alert env m r =
     (case scope_at env m (ev_area (aw_event r)) (ev_issued (aw_event r)) of
        None \<Rightarrow> None
      | Some a \<Rightarrow> Some \<lparr>sa_event = (aw_event r)\<lparr>ev_area_name := ar_name a\<rparr>, sa_first_seen = aw_first_seen r,
          sa_source = aw_source r, sa_prefixes = ar_prefixes a\<rparr>)"

definition alert_error_code :: "sync_run option \<Rightarrow> text_bytes option" where
  "alert_error_code latest =
     (case latest of
        None \<Rightarrow> None
      | Some r \<Rightarrow>
          if sr_status r \<in> set [''running'', ''success''] then None
          else Some (case sr_error r of Some e \<Rightarrow> (if e \<in> set ALERT_SAFE_ERROR_CODES then e else ''ALERT_COLLECTION_FAILED'')
            | None \<Rightarrow> ''ALERT_COLLECTION_FAILED''))"

definition read_alert_events ::
  "head_env \<Rightarrow> area_mapping \<Rightarrow> text_bytes \<Rightarrow> py_datetime \<Rightarrow> instant \<Rightarrow> alert_db \<Rightarrow> text_bytes + alert_answer" where
  "read_alert_events env m code since now db =
     (case since of
        Naive _ \<Rightarrow> Inl ''ALERT_HISTORY_WINDOW''
      | Aware s \<Rightarrow>
          if \<not> (now - ALERT_RETENTION \<le> s \<and> s \<le> now) then Inl ''ALERT_HISTORY_WINDOW''
          else
            let latest = last_by sr_started (alert_runs db);
                successes = filter (\<lambda>r. sr_status r = ''success'') (alert_runs db);
                success = last_by (\<lambda>r. case sr_finished r of None \<Rightarrow> (True, 0) | Some t \<Rightarrow> (False, t)) successes;
                rows = take (ALERT_QUERY_LIMIT + 1) (alert_window m code s now db);
                shown = take ALERT_QUERY_LIMIT rows
            in Inr \<lparr>aa_known = known_bjd m code, aa_version = am_version m,
                 aa_unverified = length (filter (\<lambda>r. show_alert env m r = None) shown),
                 aa_status = (case latest of None \<Rightarrow> ''unavailable'' | Some r \<Rightarrow> sr_status r),
                 aa_last_attempt = map_option sr_started latest,
                 aa_last_success = (case success of None \<Rightarrow> None | Some r \<Rightarrow> sr_finished r),
                 aa_error = alert_error_code latest, aa_fresh = alert_fresh m code now latest success,
                 aa_complete = (length rows \<le> ALERT_QUERY_LIMIT), aa_retained_since = now - ALERT_RETENTION,
                 aa_available_since = (if successes = [] then None else Some (Min (set (map sr_started successes)))),
                 aa_since = s, aa_events = List.map_filter (show_alert env m) shown\<rparr>)"

subsection \<open>What a publication adds\<close>

lemma validated_rows_Inr:
  "validated_rows env recs = Inr es \<Longrightarrow>
    map fst es = map (normalize_alert env) (concat (map rows_in recs)) \<and> snd ` set es \<subseteq> rec_key ` set recs"
proof (induction recs arbitrary: es)
  case (Cons r rs)
  then obtain rows es' where "jget (rec_payload r) ''rows'' = Some (JArr rows)" "validated_rows env rs = Inr es'"
    and es: "es = map (\<lambda>raw. (normalize_alert env raw, rec_key r)) rows @ es'"
    by (auto split: option.splits json.splits if_splits sum.splits)
  moreover from this(1) have "rows_in r = rows" by (simp add: rows_in_def)
  ultimately show ?case using Cons.IH [of es'] by (auto simp: comp_def)
qed simp

lemma new_alert_rows_Inr:
  "new_alert_rows now aliases existing es = Inr rows \<Longrightarrow>
    map aw_event rows = filter (\<lambda>e. ev_id e \<notin> set existing) (map fst es) \<and> (\<forall>r\<in>set rows. aw_first_seen r = now)"
proof (induction es arbitrary: rows)
  case (Cons x es)
  obtain e source where x: "x = (e, source)" by (cases x)
  with Cons.prems obtain rest key where "new_alert_rows now aliases existing es = Inr rest"
    and rows: "rows = (if ev_id e \<in> set existing then [] else [\<lparr>aw_event = e, aw_first_seen = now, aw_source = key\<rparr>]) @ rest"
    by (auto split: option.splits sum.splits)
  from Cons.IH [OF this(1)] show ?case by (simp add: x rows)
qed simp

lemma publish_alert_events_Inr:
  assumes "publish_alert_events env run_id recs requests now finished db = Inr (n, run, db')"
  obtains new where "av_events db' = av_events db @ new" "n = length new" "\<forall>r\<in>set new. aw_first_seen r = now"
    "map aw_event new = filter (\<lambda>e. ev_id e \<notin> set (map aw_id (av_events db)))
      (map (normalize_alert (fe_head env)) (concat (map rows_in recs)))"
    "distinct (map (event_key (fe_head env)) (concat (map rows_in recs)))"
    "run_row run_id (runs (av_sync db)) \<noteq> None" "\<forall>r. run_row run_id (runs (av_sync db')) = Some r \<longrightarrow> sr_status r = ''success''"
proof -
  from assms obtain es where es: "validated_rows (fe_head env) recs = Inr es" "distinct (map (ev_id \<circ> fst) es)"
    by (auto simp: publish_alert_events_def split: if_splits sum.splits)
  with assms obtain row sources aliases where row: "run_row run_id (runs (av_sync db)) = Some row"
    "record_alert_sources env now run_id recs (av_sources db) [] = Inr (sources, aliases)"
    by (auto simp: publish_alert_events_def split: if_splits sum.splits option.splits prod.splits)
  with assms es obtain new where new: "new_alert_rows now aliases (map aw_id (av_events db)) es = Inr new"
    by (auto simp: publish_alert_events_def Let_def split: if_splits sum.splits)
  with assms es row have db': "n = length new" "av_events db' = av_events db @ new"
    "av_sync db' = succeed_alert_run run_id finished requests (int (length new)) (av_sync db)" "is_running row"
    by (auto simp: publish_alert_events_def Let_def split: if_splits)
  have run: "sr_status r = ''success''" if "run_row run_id (runs (av_sync db')) = Some r" for r
    using that row(1) db'(4) row_of_SomeD [OF row(1)]
    by (auto simp: db'(3) succeed_alert_run_def succeed_row_def row_of_update_where)
  have "map fst es = map (normalize_alert (fe_head env)) (concat (map rows_in recs))"
    using validated_rows_Inr [OF es(1)] by blast
  moreover from this es(2) have "distinct (map (event_key (fe_head env)) (concat (map rows_in recs)))"
    by (metis (no_types, lifting) ev_id_normalize list.map_comp map_eq_conv comp_apply)
  ultimately show thesis
    using that [OF db'(2,1)] new_alert_rows_Inr [OF new] row(1) run by simp
qed


subsection \<open>The table of announcements\<close>

text \<open>What may happen to the table before \<open>until\<close>.\<close>

inductive alert_step :: "fact_env \<Rightarrow> instant \<Rightarrow> alert_db \<Rightarrow> alert_db \<Rightarrow> bool" for env until where
  published: "publish_alert_events env run_id recs requests now finished db = Inr (n, run, db') \<Longrightarrow> alert_step env until db db'"
| purged: "now \<le> until \<Longrightarrow> alert_step env until db (snd (purge_alert_events cutoff now db))"
| elsewhere: "av_events db' = av_events db \<Longrightarrow> alert_step env until db db'"

lemma keyed_new:
  assumes "keyed aw_id old" "map aw_event new = filter (\<lambda>e. ev_id e \<notin> set (map aw_id old)) es" "distinct (map ev_id es)"
  shows "keyed aw_id (old @ new)"
proof -
  have ids: "map aw_id new = map ev_id (map aw_event new)" by (simp add: aw_id_def)
  have "distinct (map aw_id new)"
    unfolding ids assms(2) using assms(3) by (simp add: distinct_map_filter)
  moreover have "set (map aw_id old) \<inter> set (map aw_id new) = {}"
    unfolding ids assms(2) by (force simp: image_iff)
  ultimately show ?thesis using assms(1) by (simp add: keyed_def)
qed

lemma new_ids:
  "ev_id ` set (filter (\<lambda>e. ev_id e \<notin> B) (map (normalize_alert env) raws)) = event_key env ` set raws - B"
  by (induction raws) auto

lemma publish_keyed:
  assumes "publish_alert_events env run_id recs requests now finished db = Inr (n, run, db')" "keyed aw_id (av_events db)"
  shows "keyed aw_id (av_events db')"
proof -
  from assms(1) obtain new where new: "av_events db' = av_events db @ new"
    "map aw_event new = filter (\<lambda>e. ev_id e \<notin> set (map aw_id (av_events db)))
      (map (normalize_alert (fe_head env)) (concat (map rows_in recs)))"
    "distinct (map (event_key (fe_head env)) (concat (map rows_in recs)))"
    by (rule publish_alert_events_Inr)
  show ?thesis unfolding new(1)
    by (rule keyed_new [OF assms(2) new(2)]) (use new(3) in \<open>simp add: comp_def\<close>)
qed

lemma alert_step_keeps:
  assumes "alert_step env until db db'" "r \<in> set (av_events db)" "until \<le> aw_first_seen r + ALERT_RETENTION"
  shows "r \<in> set (av_events db')"
  using assms
proof cases
  case (published run_id recs requests now finished n run)
  then show ?thesis using assms(2) by (elim publish_alert_events_Inr) simp
next
  case (purged now cutoff)
  then show ?thesis using assms(2,3) by (simp add: purge_alert_events_def Let_def)
next
  case elsewhere
  with assms(2) show ?thesis by simp
qed

lemma alert_steps_keep:
  assumes "(alert_step env until)\<^sup>*\<^sup>* db db'" "r \<in> set (av_events db)" "until \<le> aw_first_seen r + ALERT_RETENTION"
  shows "r \<in> set (av_events db')"
  using assms(1)
proof (induction rule: rtranclp_induct)
  case base
  from assms(2) show ?case .
next
  case (step y z)
  from alert_step_keeps [OF step(2,3) assms(3)] show ?case .
qed

lemma alert_window_set:
  "r \<in> set (alert_window m code since now db) \<longleftrightarrow>
    r \<in> set (av_events db) \<and> ev_area (aw_event r) \<in> set (candidate_areas m code) \<and> since \<le> aw_first_seen r \<and> aw_first_seen r \<le> now"
  by (auto simp: alert_window_def Let_def)

lemma read_alert_events_Inr:
  assumes "read_alert_events env m code since now db = Inr a"
  shows "\<exists>s. since = Aware s \<and> now - ALERT_RETENTION \<le> s \<and> s \<le> now \<and> aa_since a = s
    \<and> aa_complete a = (length (alert_window m code s now db) \<le> ALERT_QUERY_LIMIT)
    \<and> aa_events a = List.map_filter (show_alert env m) (take ALERT_QUERY_LIMIT (alert_window m code s now db))"
  using assms
  by (auto simp: read_alert_events_def Let_def min_def split: py_datetime.splits if_splits)

lemma candidate_areas_code:
  "k \<in> set (candidate_areas m code) \<longleftrightarrow>
    known_bjd m code \<and> (\<exists>a\<in>set (area_index m). ar_code a = k \<and> covers_region (region_of code) a)"
  by (auto simp: candidate_areas_def)

text \<open>
  A publication stores every observation of its pages, each once: the table grows by exactly
  the observations it did not have, all with the time of the publication, what was there keeps the
  time it was first seen, and the run is ended as a success with that count.  Whoever publishes the
  same pages again adds nothing.
\<close>

theorem publication_adds_what_is_new:
  assumes "publish_alert_events env run_id recs requests now finished db = Inr (n, run, db')" "keyed aw_id (av_events db)"
  shows "keyed aw_id (av_events db') \<and> take (length (av_events db)) (av_events db') = av_events db
    \<and> length (av_events db') = length (av_events db) + n
    \<and> aw_id ` set (av_events db') = aw_id ` set (av_events db) \<union> event_key (fe_head env) ` (\<Union>r\<in>set recs. set (rows_in r))
    \<and> (\<forall>r\<in>set (drop (length (av_events db)) (av_events db')). aw_first_seen r = now)
    \<and> (\<forall>r. run_row run_id (runs (av_sync db')) = Some r \<longrightarrow> sr_status r = ''success'')
    \<and> (\<forall>run_id' requests' now' finished' k run' db''.
         publish_alert_events env run_id' recs requests' now' finished' db' = Inr (k, run', db'') \<longrightarrow> k = 0)"
proof -
  from assms(1) obtain new where new: "av_events db' = av_events db @ new" "n = length new" "\<forall>r\<in>set new. aw_first_seen r = now"
    "map aw_event new = filter (\<lambda>e. ev_id e \<notin> set (map aw_id (av_events db)))
      (map (normalize_alert (fe_head env)) (concat (map rows_in recs)))"
    "\<forall>r. run_row run_id (runs (av_sync db')) = Some r \<longrightarrow> sr_status r = ''success''"
    by (rule publish_alert_events_Inr)
  have "aw_id ` set new = ev_id ` set (map aw_event new)" by (auto simp: aw_id_def)
  also have "\<dots> = event_key (fe_head env) ` (\<Union>r\<in>set recs. set (rows_in r)) - aw_id ` set (av_events db)"
    unfolding new(4) new_ids by simp
  finally have added: "aw_id ` set new = event_key (fe_head env) ` (\<Union>r\<in>set recs. set (rows_in r)) - aw_id ` set (av_events db)" .
  have ids: "aw_id ` set (av_events db') = aw_id ` set (av_events db) \<union> event_key (fe_head env) ` (\<Union>r\<in>set recs. set (rows_in r))"
    unfolding new(1) set_append image_Un added by (rule Un_Diff_cancel)
  have again: "k = 0" if p: "publish_alert_events env run_id' recs requests' now' finished' db' = Inr (k, run', db'')"
    for run_id' requests' now' finished' k run' db''
  proof -
    from p obtain new' :: "alert_row list" where n': "k = length new'"
      "map aw_event new' = filter (\<lambda>e. ev_id e \<notin> set (map aw_id (av_events db')))
        (map (normalize_alert (fe_head env)) (concat (map rows_in recs)))"
      by (rule publish_alert_events_Inr)
    have "map aw_event new' = []" unfolding n'(2) using ids by (auto simp: filter_empty_conv)
    with n'(1) show ?thesis by simp
  qed
  have parts: "take (length (av_events db)) (av_events db') = av_events db" "length (av_events db') = length (av_events db) + n"
    "drop (length (av_events db)) (av_events db') = new"
    by (simp_all add: new(1,2))
  show ?thesis
    unfolding parts(3) by (intro conjI allI impI publish_keyed [OF assms] parts(1,2) ids new(3)) (use new(5) again in blast)+
qed

text \<open>
  An answer that calls itself complete is exact: it shows an announcement precisely when the
  table has it in the window that was asked for, its area is a verified area of the region (its
  prefixes and the region extend one another), and the mapping and the code of the area were valid
  when it was issued.
\<close>

theorem alert_answer_is_exact:
  assumes "read_alert_events env m code since now db = Inr a" "aa_complete a"
  shows "x \<in> set (aa_events a) \<longleftrightarrow>
    known_bjd m code \<and> (\<exists>r\<in>set (av_events db). aa_since a \<le> aw_first_seen r \<and> aw_first_seen r \<le> now
      \<and> (\<exists>k\<in>set (area_index m). ar_code k = ev_area (aw_event r) \<and> covers_region (region_of code) k)
      \<and> show_alert env m r = Some x)"
proof -
  from read_alert_events_Inr [OF assms(1)] assms(2) have
    all: "aa_events a = List.map_filter (show_alert env m) (alert_window m code (aa_since a) now db)"
    by auto
  show ?thesis unfolding all map_filter_set mem_Collect_eq Bex_def alert_window_set candidate_areas_code by blast
qed

text \<open>
  An announcement stays readable for 31 days: once it is stored, every complete answer in that
  time that asks from before it was first seen for a region its area is verified for shows it,
  whatever is published, purged or run in between.
\<close>

theorem announcement_stays_readable:
  assumes "r \<in> set (av_events db)" "(alert_step env until)\<^sup>*\<^sup>* db db'" "until \<le> aw_first_seen r + ALERT_RETENTION"
    and "read_alert_events henv m code (Aware since) now db' = Inr a" "aa_complete a"
    and "since \<le> aw_first_seen r" "aw_first_seen r \<le> now"
    and "ev_area (aw_event r) \<in> set (candidate_areas m code)" "show_alert henv m r = Some x"
  shows "x \<in> set (aa_events a)"
proof -
  have "r \<in> set (av_events db')" by (rule alert_steps_keep [OF assms(2,1,3)])
  with assms(6-8) have "r \<in> set (alert_window m code since now db')" by (simp add: alert_window_set)
  with assms(9) read_alert_events_Inr [OF assms(4)] assms(5) show ?thesis by (auto simp: map_filter_set)
qed

end
