(* ===== verification/Alert_Sync.thy ===== *)
theory Alert_Sync
  imports Alert_Store
begin

section \<open>A run over the announcement feed (alert_events.py of the collector and of the API)\<close>

text \<open>
  A run is started, the feed is collected outside any transaction while its row is kept alive, the
  collection is published, and whatever goes wrong is reduced to a safe code, written to the row and
  raised.  \<open>meanwhile\<close> is what other transactions do to the database before the publication or the
  end of the run, and \<open>works\<close> whether the row could be ended within its timeout.
\<close>

definition terminalize_alert_run ::
  "repo_config \<Rightarrow> bool \<Rightarrow> text_bytes \<Rightarrow> text_bytes \<Rightarrow> text_bytes \<Rightarrow> instant \<Rightarrow> alert_db \<Rightarrow> alert_db" where
  "terminalize_alert_run cfg works run_id status code now db =
     (if \<not> works then db
      else case finish_sync_run cfg run_id status \<lparr>fi_grids = 0, fi_mid_groups = 0, fi_requests = 0, fi_values = None\<rparr>
          (Some code) (Some 5000) now (av_sync db) of
        Inl _ \<Rightarrow> db
      | Inr (_, s) \<Rightarrow> db\<lparr>av_sync := s\<rparr>)"

definition publish_failure :: "publish_error \<Rightarrow> alert_failure" where
  "publish_failure e =
     (case e of Ownership_Gone \<Rightarrow> Raised (Value_Failure ''ALERT_RUN_OWNERSHIP_LOST'')
      | Publication_Bounds \<Rightarrow> Raised (Value_Failure ''ALERT_PUBLICATION_BOUNDS'')
      | Publication_Receipt \<Rightarrow> Raised (Value_Failure ''ALERT_PUBLICATION_RECEIPT'')
      | Source_Rows_Invalid \<Rightarrow> Raised (Value_Failure ''ALERT_SOURCE_ROWS'')
      | Duplicate_Observation \<Rightarrow> Raised (Value_Failure ''ALERT_DUPLICATE_OBSERVATION'')
      | Run_Of_Other_Scope \<Rightarrow> Raised (Value_Failure ''ALERT_RUN_SCOPE'')
      | Source_Of_Other_Scope \<Rightarrow> Raised (Value_Failure ''ALERT_SOURCE_SCOPE'')
      | Source_Unknown \<Rightarrow> Raised (Value_Failure ''ALERT_SOURCE_REFERENCE'')
      | Source_Refused _ \<Rightarrow> Raised Other_Failure
      | Source_Linked \<Rightarrow> Raised Other_Failure)"

record alert_report =
  ap_loaded :: nat
  ap_observations :: nat
  ap_unknown :: nat
  ap_requests :: nat

datatype alert_run_error = Sync_Active | Collection_Failed text_bytes

record alert_clocks =
  ac_started :: instant
  ac_now :: instant
  ac_finished :: instant
  ac_checked :: instant
  ac_when :: instant
  ac_published :: instant
  ac_succeeded :: instant
  ac_ended :: instant

definition start_alert_run :: "repo_config \<Rightarrow> text_bytes \<Rightarrow> alert_clocks \<Rightarrow> alert_db \<Rightarrow> sync_error + (sync_run \<times> sync_db)" where
  "start_alert_run cfg uuid t db =
     start_sync_run cfg ALERT_PROVIDER ALERT_DATASET 0 None False uuid (ac_started t) (ac_now t) (ac_finished t) (ac_checked t) (av_sync db)"

definition run_alert_event_sync ::
  "repo_config \<Rightarrow> fact_env \<Rightarrow> text_bytes \<Rightarrow> alert_clocks \<Rightarrow> (nat \<Rightarrow> bool) \<Rightarrow> (nat \<Rightarrow> nat \<Rightarrow> client_failure + json) \<Rightarrow>
   (nat \<Rightarrow> instant) \<Rightarrow> (alert_db \<Rightarrow> alert_db) \<Rightarrow> bool \<Rightarrow> alert_db \<Rightarrow> (alert_run_error + alert_report) \<times> alert_db" where
  "run_alert_event_sync cfg env uuid t beat fetch clock meanwhile works db =
     (case start_alert_run cfg uuid t db of
        Inl (Already_Active _ _) \<Rightarrow> (Inl Sync_Active, db)
      | Inl _ \<Rightarrow> (Inl (Collection_Failed ''ALERT_COLLECTION_FAILED''), db)
      | Inr (run, s) \<Rightarrow>
          let db1 = meanwhile (db\<lparr>av_sync := s\<rparr>);
              fail = (\<lambda>e. (Inl (Collection_Failed (safe_collection_error e)),
                 terminalize_alert_run cfg works (sr_id run) ''failed'' (safe_collection_error e) (ac_ended t) db1)) in
          (case collect_alert_pages (fe_head env) (ac_when t) beat fetch clock of
             Inl e \<Rightarrow> fail e
           | Inr c \<Rightarrow>
               (case publish_alert_events env (sr_id run) (co_records c) (int (co_requests c)) (ac_published t) (ac_succeeded t) db1 of
                  Inl e \<Rightarrow> fail (publish_failure e)
                | Inr (n, row, db2) \<Rightarrow>
                    (Inr \<lparr>ap_loaded = n, ap_observations = co_observations c, ap_unknown = co_unknown c,
                       ap_requests = co_requests c\<rparr>, db2))))"

text \<open>A cancelled task ends the row it has started as cancelled.\<close>

definition cancel_alert_event_sync ::
  "repo_config \<Rightarrow> bool \<Rightarrow> sync_run option \<Rightarrow> instant \<Rightarrow> alert_db \<Rightarrow> alert_db" where
  "cancel_alert_event_sync cfg works run now db =
     (case run of
        None \<Rightarrow> db
      | Some r \<Rightarrow> terminalize_alert_run cfg works (sr_id r) ''cancelled'' ''ALERT_COLLECTION_CANCELLED'' now db)"

subsection \<open>The endpoint\<close>

definition alert_events_endpoint ::
  "head_env \<Rightarrow> area_mapping \<Rightarrow> text_bytes \<Rightarrow> py_datetime option \<Rightarrow> instant \<Rightarrow> instant \<Rightarrow> alert_db \<Rightarrow> (nat \<times> text_bytes) + alert_answer" where
  "alert_events_endpoint env m code since asked now db =
     (if \<not> (list_all is_digit code \<and> length code \<in> set [2, 5, 10]) then Inl (422, ''VALIDATION_ERROR'')
      else case read_alert_events env m code (case since of None \<Rightarrow> Aware (asked - days 3) | Some s \<Rightarrow> s) now db of
        Inl e \<Rightarrow> Inl (422, e) | Inr a \<Rightarrow> Inr a)"

subsection \<open>Every run is ended\<close>

definition safe_failure :: "alert_failure \<Rightarrow> bool" where
  "safe_failure e \<longleftrightarrow> (case e of Raised _ \<Rightarrow> True | Alert_Code c \<Rightarrow> c \<in> set ALERT_SAFE_ERROR_CODES)"

lemma safe_failure_simps [simp]:
  "safe_failure (Raised x)"
  "safe_failure (Alert_Code ''ALERT_PAGE_METADATA'')" "safe_failure (Alert_Code ''ALERT_PAGE_ROWS'')"
  "safe_failure (Alert_Code ''ALERT_PAGE_TOTAL_CHANGED'')" "safe_failure (Alert_Code ''ALERT_PAGE_DUPLICATE'')"
  "safe_failure (Alert_Code ''ALERT_TOO_MANY_ROWS'')" "safe_failure (Alert_Code ''ALERT_RESPONSE_TOO_LARGE'')"
  "safe_failure (Alert_Code ''ALERT_FIRST_PAGE_CHANGED'')" "safe_failure (Alert_Code ''ALERT_RUN_OWNERSHIP_LOST'')"
  by (simp_all add: safe_failure_def ALERT_SAFE_ERROR_CODES_def)

lemma safe_failure_code: "safe_failure e \<Longrightarrow> safe_collection_error e \<in> set ALERT_SAFE_ERROR_CODES"
  by (auto simp: safe_failure_def safe_collection_error_def ALERT_SAFE_ERROR_CODES_def split: alert_failure.splits client_failure.splits)

lemma see_rows_safe: "see_rows env rows seen u = Inl e \<Longrightarrow> safe_failure e"
proof (induction rows arbitrary: seen u)
  case (Cons r rs)
  then show ?case by (cases "event_key env r \<in> set seen") (auto simp: Let_def)
qed simp

lemma alert_page_safe: "alert_page body p = Inl e \<Longrightarrow> safe_failure e"
  by (auto simp: alert_page_def split: option.splits if_splits)

lemma take_page_safe: "take_page env when t p body st = Inl e \<Longrightarrow> safe_failure e"
  by (auto simp: take_page_def Let_def split: sum.splits if_splits dest: see_rows_safe alert_page_safe)

lemma read_pages_safe: "read_pages env when beat fetch clock ps st = Inl e \<Longrightarrow> safe_failure e"
proof (induction ps arbitrary: st)
  case (Cons p ps)
  then show ?case by (auto split: sum.splits if_splits dest: take_page_safe)
qed auto

lemma collect_safe:
  assumes "collect_alert_pages env when beat fetch clock = Inl e"
  shows "safe_failure e"
proof (cases "read_pages env when beat fetch clock PAGE_NUMBERS nothing_read")
  case (Inl x)
  with assms read_pages_safe [OF Inl] show ?thesis by (simp add: collect_alert_pages_def)
next
  case (Inr st)
  define n where "n = length (pg_records st)"
  show ?thesis
  proof (cases "n \<le> 1 \<or> \<not> beat (n + 1)")
    case True
    with assms Inr show ?thesis by (auto simp: collect_alert_pages_def Let_def n_def split: if_splits)
  next
    case False
    show ?thesis
    proof (cases "fetch (n + 1) 1")
      case (Inl x)
      with assms Inr False show ?thesis by (auto simp: collect_alert_pages_def Let_def n_def split: if_splits)
    next
      case body: (Inr body)
      show ?thesis
      proof (cases "alert_page body 1")
        case (Inl x)
        with assms Inr False body alert_page_safe [OF Inl] show ?thesis
          by (auto simp: collect_alert_pages_def Let_def n_def split: if_splits)
      next
        case (Inr y)
        with assms \<open>read_pages env when beat fetch clock PAGE_NUMBERS nothing_read = Inr st\<close> False body show ?thesis
          by (auto simp: collect_alert_pages_def Let_def n_def split: if_splits prod.splits)
      qed
    qed
  qed
qed

lemma collect_codes:
  "collect_alert_pages env when beat fetch clock = Inl e \<Longrightarrow> safe_collection_error e \<in> set ALERT_SAFE_ERROR_CODES"
  by (rule safe_failure_code [OF collect_safe])

lemma publish_codes: "safe_collection_error (publish_failure e) \<in> set ALERT_SAFE_ERROR_CODES"
  by (cases e) (simp_all add: publish_failure_def safe_collection_error_def ALERT_SAFE_ERROR_CODES_def)

lemma core_row: "map core xs = map core ys \<Longrightarrow> map_option core (run_row i xs) = map_option core (run_row i ys)"
proof -
  have "map_option core (run_row i zs) = row_of sr_id i (map core zs)" for zs
    by (induction zs) (simp_all add: row_of_Cons)
  then show "map core xs = map core ys \<Longrightarrow> map_option core (run_row i xs) = map_option core (run_row i ys)" by metis
qed

lemma finished_row:
  assumes "run_row i (runs db) = Some r" "\<And>x. sr_id (change x) = sr_id x"
  shows "\<exists>s. run_row i (runs (snd (end_runs cfg (\<lambda>r. sr_id r = i) change db))) = Some s
    \<and> core s = core (if is_running r then change r else r)"
proof -
  have "run_row i (update_where (\<lambda>r. is_running r \<and> sr_id r = i) change (runs db)) = Some (if is_running r then change r else r)"
    using assms row_of_SomeD [OF assms(1)] by (simp add: row_of_update_where)
  with core_row [OF core_end_runs [of cfg "\<lambda>r. sr_id r = i" change db], of i] show ?thesis by auto
qed

lemma published_row:
  assumes "publish_alert_events env i recs requests now finished db = Inr (n, run, db')" "run_row i (runs (av_sync db)) = Some r"
  shows "\<exists>row. run_row i (runs (av_sync db')) = Some row \<and> sr_status row = ''success''"
proof -
  from assms obtain k where "av_sync db' = succeed_alert_run i finished requests k (av_sync db)" "is_running r"
    by (auto simp: publish_alert_events_def Let_def split: if_splits sum.splits prod.splits)
  with assms(2) row_of_SomeD [OF assms(2)] show ?thesis by (simp add: row_of_update_where succeed_alert_run_def succeed_row_def)
qed

lemma core_status: "sr_status (core r) = sr_status r" "sr_error (core r) = sr_error r"
  by (simp_all add: core_def)

lemma core_eqD: "core s = core r \<Longrightarrow> sr_status s = sr_status r \<and> sr_error s = sr_error r"
  by (metis core_status)

lemma terminalize_row:
  assumes "run_row i (runs (av_sync db)) = Some r" "works"
  shows "\<exists>s. run_row i (runs (av_sync (terminalize_alert_run cfg works i status code now db))) = Some s
    \<and> (if is_running r then sr_status s = status \<and> sr_error s = Some code else core s = core r)"
proof -
  define counts where "counts = \<lparr>fi_grids = 0, fi_mid_groups = 0, fi_requests = 0, fi_values = None\<rparr>"
  define db' where "db' = snd (end_runs cfg (\<lambda>r. sr_id r = i) (finish_row status counts (Some code) now) (av_sync db))"
  from finished_row [OF assms(1), of "finish_row status counts (Some code) now" cfg] obtain s where
    s: "run_row i (runs db') = Some s" "core s = core (if is_running r then finish_row status counts (Some code) now r else r)"
    by (auto simp: db'_def finish_row_def end_row_def)
  have "finish_sync_run cfg i status counts (Some code) (Some 5000) now (av_sync db) = Inr (s, db')"
    using s(1) by (simp add: finish_sync_run_def Let_def split_beta db'_def)
  then have "av_sync (terminalize_alert_run cfg works i status code now db) = db'"
    using assms(2) by (simp add: terminalize_alert_run_def counts_def)
  moreover have "is_running r \<Longrightarrow> sr_status s = status \<and> sr_error s = Some code"
    using core_eqD [OF s(2)] by (simp add: finish_row_def end_row_def)
  ultimately show ?thesis using s by auto
qed

text \<open>
  A run over the feed does not stay open: if it was started, its row is still in the table when
  the collection is over, and the row can be ended, then afterwards the row is not running.  If the
  run reports success the row says success; if it reports an error, that is one of the safe codes,
  and a row that was still running has failed with exactly this code.
\<close>

theorem alert_run_is_ended:
  assumes "start_alert_run cfg uuid t db = Inr (run, s)"
    and "run_row (sr_id run) (runs (av_sync (meanwhile (db\<lparr>av_sync := s\<rparr>)))) = Some r" "works"
    and "run_alert_event_sync cfg env uuid t beat fetch clock meanwhile works db = (result, db')"
  shows "\<exists>row. run_row (sr_id run) (runs (av_sync db')) = Some row \<and> \<not> is_running row
    \<and> (case result of
         Inr report \<Rightarrow> sr_status row = ''success''
       | Inl Sync_Active \<Rightarrow> False
       | Inl (Collection_Failed code) \<Rightarrow> code \<in> set ALERT_SAFE_ERROR_CODES
           \<and> (is_running r \<longrightarrow> sr_status row = ''failed'' \<and> sr_error row = Some code))"
proof -
  define db1 where "db1 = meanwhile (db\<lparr>av_sync := s\<rparr>)"
  have fails: ?thesis if "result = Inl (Collection_Failed code)" "code \<in> set ALERT_SAFE_ERROR_CODES"
    "db' = terminalize_alert_run cfg works (sr_id run) ''failed'' code (ac_ended t) db1" for code
  proof -
    note failed = that
    obtain row where row: "run_row (sr_id run) (runs (av_sync db')) = Some row"
      "if is_running r then sr_status row = ''failed'' \<and> sr_error row = Some code else core row = core r"
      using terminalize_row [OF assms(2,3), of cfg "''failed''" code "ac_ended t"] unfolding failed(3) db1_def by blast
    have "\<not> is_running row"
    proof (cases "is_running r")
      case True
      with row(2) show ?thesis by (simp add: is_running_def)
    next
      case False
      with row(2) core_simps(6) show ?thesis by metis
    qed
    with row failed(1,2) show ?thesis by auto
  qed
  show ?thesis
  proof (cases "collect_alert_pages (fe_head env) (ac_when t) beat fetch clock")
    case (Inl e)
    with assms(1,4) have "result = Inl (Collection_Failed (safe_collection_error e))"
      "db' = terminalize_alert_run cfg works (sr_id run) ''failed'' (safe_collection_error e) (ac_ended t) db1"
      by (simp_all add: run_alert_event_sync_def Let_def db1_def)
    with fails collect_codes [OF Inl] show ?thesis by blast
  next
    case c: (Inr c)
    show ?thesis
    proof (cases "publish_alert_events env (sr_id run) (co_records c) (int (co_requests c)) (ac_published t) (ac_succeeded t) db1")
      case (Inl e)
      with assms(1,4) c have "result = Inl (Collection_Failed (safe_collection_error (publish_failure e)))"
        "db' = terminalize_alert_run cfg works (sr_id run) ''failed'' (safe_collection_error (publish_failure e)) (ac_ended t) db1"
        by (simp_all add: run_alert_event_sync_def Let_def db1_def)
      with fails publish_codes show ?thesis by blast
    next
      case (Inr p)
      obtain n row db2 where p: "p = (n, row, db2)" by (cases p)
      with assms(1,4) c Inr have db': "db' = db2" and res: "\<exists>report. result = Inr report"
        by (auto simp: run_alert_event_sync_def Let_def db1_def)
      from published_row [OF Inr [unfolded p] assms(2) [folded db1_def]] obtain row where
        "run_row (sr_id run) (runs (av_sync db2)) = Some row" "sr_status row = ''success''" by blast
      with res show ?thesis unfolding db' by (auto simp: is_running_def)
    qed
  qed
qed

end
