(* ===== verification/Alert_Example.thy ===== *)
theory Alert_Example
  imports Alert_Sync
begin

section \<open>One announcement, collected, published and read\<close>

definition e_head :: head_env where
  "e_head = \<lparr>he_sha256 = (\<lambda>s. ''h''), he_float = (\<lambda>q. JInt \<lfloor>q\<rfloor>), he_decimal = (\<lambda>s. None), he_iso = (\<lambda>s. None),
     he_kma_time = (\<lambda>d t. Some (if d = ''20260101'' then 50 else 1000000)), he_receipt = (\<lambda>j. None), he_loads = (\<lambda>s. None),
     he_normalize = (\<lambda>d r ls. Inl Value_Error)\<rparr>"

definition e_env :: fact_env where "e_env = \<lparr>fe_head = e_head, fe_dump = (\<lambda>v. JNull)\<rparr>"

definition e_row :: json where
  "e_row = JObj [(''stnId'', JStr ''108''), (''tmFc'', JStr ''202601010900''), (''tmSeq'', JInt 1), (''areaCode'', JStr ''L1010100''),
     (''areaName'', JStr ''A''), (''warnVar'', JStr ''2''), (''warnStress'', JStr ''0''), (''command'', JStr ''1''),
     (''cancel'', JStr ''0'')]"

definition e_fetch :: "nat \<Rightarrow> nat \<Rightarrow> client_failure + json" where "e_fetch n p = Inr (feed_body [e_row] p)"

definition e_payload :: json where "e_payload = page_payload 1000 [e_row] 1 1"
definition e_record :: source_record where "e_record = page_record e_head 5 e_payload"
definition e_coll :: alert_collection where
  "e_coll = \<lparr>co_records = [e_record], co_requests = 1, co_observations = 1, co_unknown = 0\<rparr>"

lemma e_size: "dumped_size e_payload < 1000"
  unfolding e_payload_def by code_simp

lemma e_action: "ev_action (normalize_alert e_head e_row) = ''issued''"
  by code_simp

lemma e_feed: "feed_size 1000 [e_row] (feed_pages [e_row]) \<le> MAX_BYTES"
  using e_size unfolding e_payload_def by (simp add: feed_size_def feed_pages_def page_rows_def MAX_BYTES_def)

lemma e_object [simp]: "is_object e_row"
  by (simp add: is_object_def e_row_def)

lemma e_collect: "collect_alert_pages e_head 1000 (\<lambda>n. True) e_fetch (\<lambda>n. 5) = Inr e_coll"
proof -
  have numbers: "PAGE_NUMBERS = 1 # [2..<101]"
    by (simp add: PAGE_NUMBERS_def MAX_PAGES_def upt_conv_Cons numeral_2_eq_2)
  have page: "alert_page (feed_body [e_row] 1) 1 = Inr ([e_row], 1)"
    using alert_page_feed [of "[e_row]" 1] by (simp add: page_rows_def)
  have take: "take_page e_head 1000 5 1 (feed_body [e_row] 1) nothing_read = Inr
      \<lparr>pg_records = [e_record], pg_first = fingerprint e_head [e_row], pg_total = Some 1, pg_seen = [event_key e_head e_row],
       pg_bytes = dumped_size e_payload, pg_unknown = 0\<rparr>"
    using e_size by (simp add: take_page_def page nothing_read_def Let_def e_payload_def [symmetric] MAX_BYTES_def e_action e_record_def
        del: One_nat_def)
  show ?thesis
    by (simp add: collect_alert_pages_def numbers e_fetch_def take Let_def e_coll_def del: One_nat_def upt_rec_numeral)
qed

theorem alert_collection_is_whole_witness: "distinct (map (event_key e_head) (concat (map rows_in (co_records e_coll))))"
  using alert_collection_is_whole [OF e_collect] by blast

theorem steady_feed_is_collected_witness:
  "\<exists>c. collect_alert_pages e_head 1000 (\<lambda>n. True) e_fetch (\<lambda>n. 5) = Inr c \<and> concat (map rows_in (co_records c)) = [e_row]"
  using steady_feed_is_collected [of "[e_row]" e_head 1000 "\<lambda>n. True" e_fetch "\<lambda>n. 5"] e_feed by (auto simp: e_fetch_def)

subsection \<open>Published\<close>

definition e_clocks :: alert_clocks where
  "e_clocks = \<lparr>ac_started = 100, ac_now = 100, ac_finished = 100, ac_checked = 100, ac_when = 1000, ac_published = 200,
     ac_succeeded = 210, ac_ended = 220\<rparr>"

lemma e_clock_simps: "ac_when e_clocks = 1000" "ac_published e_clocks = 200" "ac_succeeded e_clocks = 210"
  by (simp_all add: e_clocks_def)

definition e_run :: sync_run where
  "e_run = \<lparr>sr_id = ''run_u'', sr_provider = ALERT_PROVIDER, sr_dataset = ALERT_DATASET, sr_status = ''running'',
     sr_started = 100, sr_heartbeat = Some 100, sr_finished = None, sr_locations = 0, sr_grids = 0, sr_mid_groups = 0,
     sr_requests = 0, sr_values = 0, sr_error = None, sr_owner = None, sr_scopes = None, sr_pending = False, sr_cohort = False\<rparr>"

definition e_db :: "sync_run list \<Rightarrow> alert_db" where
  "e_db rs = \<lparr>av_sync = \<lparr>runs = rs, statuses = [], fetch_clocks = []\<rparr>, av_sources = [], av_links = [], av_events = []\<rparr>"

lemma e_db_simps [simp]: "av_sync (e_db rs) = \<lparr>runs = rs, statuses = [], fetch_clocks = []\<rparr>" "av_sources (e_db rs) = []"
  "av_links (e_db rs) = []" "av_events (e_db rs) = []"
  by (simp_all add: e_db_def)

lemma e_with_runs: "(e_db [])\<lparr>av_sync := \<lparr>runs = rs, statuses = [], fetch_clocks = []\<rparr>\<rparr> = e_db rs"
  by (simp add: e_db_def)

lemma e_start: "start_alert_run example_config ''u'' e_clocks (e_db []) = Inr (e_run, av_sync (e_db [e_run]))"
  by (simp add: start_alert_run_def start_sync_run_def Let_def reconcile_stale_sync_runs_def end_runs_def example_config_def e_db_def
      e_clocks_def e_run_def update_where_def)

definition e_alert :: alert_row where
  "e_alert = \<lparr>aw_event = normalize_alert e_head e_row, aw_first_seen = 200, aw_source = rec_key e_record\<rparr>"

definition e_done :: sync_run where "e_done = succeed_row 210 1 1 e_run"

definition e_after :: alert_db where
  "e_after = (e_db [e_done])\<lparr>av_sources := [source_for e_env 200 e_record], av_links := [(''run_u'', rec_key e_record)], av_events := [e_alert]\<rparr>"

lemma e_publish: "publish_alert_events e_env ''run_u'' [e_record] 1 200 210 (e_db [e_run]) = Inr (1, e_done, e_after)"
proof -
  have rows: "jget (rec_payload e_record) ''rows'' = Some (JArr [e_row])"
    by (simp add: e_record_def page_record_def e_payload_def page_payload_def jget_def)
  have rec: "rec_provider e_record = ALERT_PROVIDER" "rec_dataset e_record = ALERT_DATASET" "rec_run e_record = None"
    "rec_fetched e_record = Some (Aware 5)"
    by (simp_all add: e_record_def page_record_def)
  have row: "run_row ''run_u'' (runs (av_sync (e_db [e_run]))) = Some e_run" "is_running e_run" "sr_id e_run = ''run_u''"
    "sr_provider e_run = ALERT_PROVIDER" "sr_dataset e_run = ALERT_DATASET"
    by (simp_all add: e_run_def row_of_Cons is_running_def)
  have src: "record_source e_env 200 [] e_record = Inr (rec_key e_record, Some (source_for e_env 200 e_record))"
    by (simp add: record_source_def rec)
  have head: "fe_head e_env = e_head" by (simp add: e_env_def)
  have sorted1: "sorted_set [k] = [k]" for k :: text_bytes by (simp add: sorted_set_def)
  show ?thesis
    by (simp add: publish_alert_events_def head rows row [simplified] rec src Let_def sorted1 e_after_def update_where_def e_done_def e_alert_def
        succeed_alert_run_def)
qed

theorem publication_adds_what_is_new_witness:
  "keyed aw_id (av_events e_after) \<and> length (av_events e_after) = 1"
  using publication_adds_what_is_new [OF e_publish] by (simp add: e_db_def)

theorem alert_run_is_ended_witness:
  "\<exists>row. run_row ''run_u'' (runs (av_sync e_after)) = Some row \<and> \<not> is_running row \<and> sr_status row = ''success''"
proof -
  have "run_alert_event_sync example_config e_env ''u'' e_clocks (\<lambda>n. True) e_fetch (\<lambda>n. 5) (\<lambda>db. db) True (e_db [])
      = (Inr \<lparr>ap_loaded = 1, ap_observations = 1, ap_unknown = 0, ap_requests = 1\<rparr>, e_after)"
  proof -
    have "fe_head e_env = e_head" "sr_id e_run = ''run_u''" by (simp_all add: e_env_def e_run_def)
    then show ?thesis
      using e_collect e_publish by (simp add: run_alert_event_sync_def e_start e_with_runs Let_def e_clock_simps e_coll_def)
  qed
  from alert_run_is_ended [OF e_start _ TrueI this] show ?thesis
    by (simp add: e_run_def e_db_def row_of_Cons)
qed

subsection \<open>Read\<close>

definition e_area :: alert_area where
  "e_area = \<lparr>ar_code = ''L1010100'', ar_status = ''verified'', ar_name = ''Area'', ar_prefixes = [''11''],
     ar_from = Some (JStr ''202601010000''), ar_until = Some (JStr ''202701010000'')\<rparr>"

definition e_map :: area_mapping where
  "e_map = \<lparr>am_version = ''v'', am_from = 0, am_until = None, am_areas = [e_area], am_provinces = [''11''], am_districts = [''11110''],
     am_suffixes = []\<rparr>"

lemma e_event: "ev_area (normalize_alert e_head e_row) = ''L1010100''" "ev_issued (normalize_alert e_head e_row) = Some 50"
  by code_simp+

lemma e_known: "known_bjd e_map ''11''" "candidate_areas e_map ''11'' = [''L1010100'']"
  by code_simp+

lemma e_scope: "scope_at e_head e_map ''L1010100'' (Some 50) = Some e_area"
  by code_simp

definition e_shown :: shown_alert where
  "e_shown = \<lparr>sa_event = (normalize_alert e_head e_row)\<lparr>ev_area_name := ''Area''\<rparr>, sa_first_seen = 200,
     sa_source = rec_key e_record, sa_prefixes = [''11'']\<rparr>"

lemma e_show: "show_alert e_head e_map e_alert = Some e_shown"
  by (simp add: show_alert_def e_alert_def e_event e_scope e_shown_def) (simp add: e_area_def)

lemma window_length: "length (alert_window m code since now db) \<le> length (av_events db)"
  by (simp add: alert_window_def Let_def)

lemma e_read: "\<exists>a. read_alert_events e_head e_map ''11'' (Aware 150) 300 e_after = Inr a \<and> aa_complete a \<and> aa_since a = 150"
proof -
  have "length (alert_window e_map ''11'' 150 300 e_after) \<le> 1"
    using window_length [of e_map "''11''" 150 300 e_after] by (simp add: e_after_def)
  moreover have "300 - ALERT_RETENTION \<le> 150" by (simp add: ALERT_RETENTION_def)
  ultimately show ?thesis by (simp add: read_alert_events_def Let_def ALERT_QUERY_LIMIT_def)
qed

lemma e_events: "av_events e_after = [e_alert]" by (simp add: e_after_def)

theorem alert_answer_is_exact_witness:
  "\<exists>a. read_alert_events e_head e_map ''11'' (Aware 150) 300 e_after = Inr a \<and> e_shown \<in> set (aa_events a)"
proof -
  from e_read obtain a where a: "read_alert_events e_head e_map ''11'' (Aware 150) 300 e_after = Inr a" "aa_complete a" "aa_since a = 150"
    by blast
  have covered: "\<exists>k\<in>set (area_index e_map). ar_code k = ''L1010100'' \<and> covers_region (region_of ''11'') k"
    using candidate_areas_code [of "''L1010100''" e_map "''11''"] by (simp add: e_known)
  have "e_shown \<in> set (aa_events a)"
    unfolding alert_answer_is_exact [OF a(1,2)] e_events
    using covered e_known(1) a(3) by (simp add: e_show) (simp add: e_alert_def e_event)
  with a(1) show ?thesis by blast
qed

theorem announcement_stays_readable_witness:
  "\<exists>a. read_alert_events e_head e_map ''11'' (Aware 150) 300 (snd (purge_alert_events 1000 290 e_after)) = Inr a
    \<and> e_shown \<in> set (aa_events a)"
proof -
  have kept: "snd (purge_alert_events 1000 290 e_after) = e_after"
    by (simp add: purge_alert_events_def Let_def e_after_def e_alert_def ALERT_RETENTION_def delete_where_def)
  from e_read obtain a where a: "read_alert_events e_head e_map ''11'' (Aware 150) 300 e_after = Inr a" "aa_complete a" by blast
  have step: "(alert_step e_env 300)\<^sup>*\<^sup>* e_after (snd (purge_alert_events 1000 290 e_after))"
    by (rule r_into_rtranclp) (rule purged, simp)
  from a(1) have read: "read_alert_events e_head e_map ''11'' (Aware 150) 300 (snd (purge_alert_events 1000 290 e_after)) = Inr a"
    by (simp only: kept)
  have "e_shown \<in> set (aa_events a)"
    by (rule announcement_stays_readable [OF _ step _ read a(2) _ _ _ e_show])
      (simp_all add: e_events, simp_all add: e_alert_def ALERT_RETENTION_def e_event e_known)
  with a(1) show ?thesis unfolding kept by blast
qed

end
