(* ===== verification/Py_Regex.thy ===== *)
theory Py_Regex
  imports Py_Text
begin

section \<open>Regular expressions as Python matches them\<close>

text \<open>
  Patterns over code points.  A match is the list of the ways a pattern can continue, in the order
  in which the backtracking matcher tries them; the first one is the match.  A position is the rest
  of the text with a mark that says whether it is the beginning.  A repetition takes another turn
  only if it moves on.
\<close>

datatype regex =
    Chr "text_bytes \<Rightarrow> bool"
  | Bol
  | Nothing
  | Seq regex regex
  | Alt regex regex
  | Star regex

type_synonym position = "bool \<times> text_bytes list"

function ways :: "regex \<Rightarrow> position \<Rightarrow> position list" where
  "ways (Chr p) s = (case snd s of [] \<Rightarrow> [] | c # cs \<Rightarrow> if p c then [(False, cs)] else [])"
| "ways Bol s = (if fst s then [s] else [])"
| "ways Nothing s = [s]"
| "ways (Seq a b) s = concat (map (ways b) (ways a s))"
| "ways (Alt a b) s = ways a s @ ways b s"
| "ways (Star a) s = concat (map (\<lambda>t. if length (snd t) < length (snd s) then ways (Star a) t else []) (ways a s)) @ [s]"
  by pat_completeness auto
termination
  by (relation "measures [\<lambda>(r, s). size r, \<lambda>(r, s). length (snd s)]") simp_all

definition re_match :: "regex \<Rightarrow> position \<Rightarrow> position option" where
  "re_match r s = (case ways r s of [] \<Rightarrow> None | t # _ \<Rightarrow> Some t)"

text \<open>\<open>search\<close>: what lies before the first match and after it.\<close>

fun search_from :: "regex \<Rightarrow> bool \<Rightarrow> text_bytes list \<Rightarrow> (text_bytes list \<times> text_bytes list) option" where
  "search_from r b [] = (case re_match r (b, []) of None \<Rightarrow> None | Some t \<Rightarrow> Some ([], snd t))"
| "search_from r b (c # cs) =
     (case re_match r (b, c # cs) of
        Some t \<Rightarrow> Some ([], snd t)
      | None \<Rightarrow> map_option (\<lambda>(before, after). (c # before, after)) (search_from r False cs))"

text \<open>\<open>split\<close> and \<open>sub\<close> of patterns that never match the empty text; the fuel is the length.\<close>

fun pieces :: "nat \<Rightarrow> regex \<Rightarrow> bool \<Rightarrow> text_bytes list \<Rightarrow> text_bytes list list" where
  "pieces 0 r b cs = [cs]"
| "pieces (Suc n) r b cs =
     (case search_from r b cs of None \<Rightarrow> [cs] | Some (before, after) \<Rightarrow> before # pieces n r False after)"

definition re_split :: "regex \<Rightarrow> text_bytes \<Rightarrow> text_bytes list" where
  "re_split r s = map concat (pieces (length (py_chars s)) r True (py_chars s))"

definition re_sub :: "regex \<Rightarrow> text_bytes \<Rightarrow> text_bytes \<Rightarrow> text_bytes" where
  "re_sub r with s = (case re_split r s of [] \<Rightarrow> [] | p # ps \<Rightarrow> p @ concat (map (\<lambda>q. with @ q) ps))"

definition re_search :: "regex \<Rightarrow> text_bytes \<Rightarrow> bool" where
  "re_search r s \<longleftrightarrow> search_from r True (py_chars s) \<noteq> None"

definition re_before :: "regex \<Rightarrow> text_bytes \<Rightarrow> text_bytes" where
  "re_before r s = (case search_from r True (py_chars s) of None \<Rightarrow> s | Some (before, _) \<Rightarrow> concat before)"

subsection \<open>Building patterns\<close>

definition Opt :: "regex \<Rightarrow> regex" where "Opt r = Alt r Nothing"
definition Plus :: "regex \<Rightarrow> regex" where "Plus r = Seq r (Star r)"
definition One_Of :: "text_bytes list \<Rightarrow> regex" where "One_Of cs = Chr (\<lambda>c. c \<in> set cs)"

fun Word :: "text_bytes list \<Rightarrow> regex" where
  "Word [] = Nothing"
| "Word (c # cs) = Seq (Chr (\<lambda>d. d = c)) (Word cs)"

definition Words :: "int list \<Rightarrow> regex" where "Words ns = Word (map utf8_point ns)"

fun Any_Of :: "regex list \<Rightarrow> regex" where
  "Any_Of [] = Chr (\<lambda>c. False)"
| "Any_Of [r] = r"
| "Any_Of (r # rs) = Alt r (Any_Of rs)"

text \<open>
  \<open>IGNORECASE\<close> of a lower-case ASCII letter: both cases, and for an i the dotless and the dotted
  one that fold to it.
\<close>

definition letter_matches :: "char \<Rightarrow> text_bytes \<Rightarrow> bool" where
  "letter_matches c d \<longleftrightarrow>
     d = [c] \<or> d = [char_of ((of_char c :: int) - 32)] \<or> (c = CHR ''i'' \<and> d \<in> set [utf8_point 305, utf8_point 304])"

fun No_Case :: "text_bytes \<Rightarrow> regex" where
  "No_Case [] = Nothing"
| "No_Case (c # cs) = Seq (Chr (letter_matches c)) (No_Case cs)"

text \<open>The zeros of the decimal digits of Unicode 14; each is the first of ten.\<close>

definition DECIMAL_ZEROS :: "int list" where
  "DECIMAL_ZEROS =
     [48, 1632, 1776, 1984, 2406, 2534, 2662, 2790, 2918, 3046, 3174, 3302, 3430, 3558, 3664, 3792, 3872, 4160, 4240,
      6112, 6160, 6470, 6608, 6784, 6800, 6992, 7088, 7232, 7248, 42528, 43216, 43264, 43472, 43504, 43600, 44016, 65296,
      66720, 68912, 69734, 69872, 69942, 70096, 70384, 70736, 70864, 71248, 71360, 71472, 71904, 72016, 72784, 73040,
      73120, 92768, 92864, 93008, 120782, 120792, 120802, 120812, 120822, 123200, 123632, 125264, 130032]"

definition is_decimal_char :: "text_bytes \<Rightarrow> bool" where
  "is_decimal_char c \<longleftrightarrow> (let n = code_point c in list_ex (\<lambda>z. z \<le> n \<and> n \<le> z + 9) DECIMAL_ZEROS)"

definition Spaces :: regex where "Spaces = Star (Chr is_space_char)"
definition Digit :: regex where "Digit = Chr is_decimal_char"
definition Digits :: regex where "Digits = Plus Digit"
definition One_Or_Two :: "regex \<Rightarrow> regex" where "One_Or_Two r = Seq r (Opt r)"
definition Up_To_Two :: "regex \<Rightarrow> regex" where "Up_To_Two r = Opt (One_Or_Two r)"

fun Seqs :: "regex list \<Rightarrow> regex" where
  "Seqs [] = Nothing"
| "Seqs [r] = r"
| "Seqs (r # rs) = Seq r (Seqs rs)"

text \<open>\<open>strip(chars)\<close> and the lower case of the ASCII letters.\<close>

definition strip_chars :: "text_bytes list \<Rightarrow> text_bytes \<Rightarrow> text_bytes" where
  "strip_chars cs s = concat (rev (dropWhile (\<lambda>c. c \<in> set cs) (rev (dropWhile (\<lambda>c. c \<in> set cs) (py_chars s)))))"

definition ascii_lower :: "text_bytes \<Rightarrow> text_bytes" where
  "ascii_lower s = map (\<lambda>c. if char_in 65 90 c then char_of ((of_char c :: int) + 32) else c) s"

end
