(* ===== verification/Active_Alerts.thy ===== *)
theory Active_Alerts
  imports Py_Regex Fact_Model
begin

section \<open>The warnings in force (alerts.py)\<close>

text \<open>
  The warnings of a location are an event feed: a title announces warnings or lifts them.  The
  projection walks the events from the newest on and lets the first event of each station and
  warning decide.  Titles are read with the patterns of the source.
\<close>

subsection \<open>The patterns\<close>

definition RELEASE_WORDS :: "regex list" where
  "RELEASE_WORDS =
     [Words [54644, 51228], Words [52712, 49548], Words [51333, 47308], Words [49548, 47736],
      Seq (No_Case ''cancel'') (Opt (No_Case ''led'')), No_Case ''expired'', No_Case ''ended'']"

definition RELEASE_RE :: regex where "RELEASE_RE = Any_Of RELEASE_WORDS"

definition ACTION_RE :: regex where
  "ACTION_RE = Any_Of ([Words [48156, 54364], Words [48156, 47161], Words [48320, 44221], Words [50672, 51109],
     Words [51116, 48156, 54364]] @ RELEASE_WORDS)"

definition SPLIT_RE :: regex where
  "SPLIT_RE = Alt (Plus (One_Of (map utf8_point [183, 44, 47, 12289, 43])))
     (Seqs [Plus (Chr is_space_char), Words [48143], Plus (Chr is_space_char)])"

definition COLON :: regex where "COLON = One_Of (map utf8_point [58, 65306])"
definition DATE_MARK :: regex where "DATE_MARK = One_Of [''.'', ''-'', ''/'']"
definition DATE_GAP :: regex where
  "DATE_GAP = Star (Chr (\<lambda>c. c \<in> set [''.'', ''-''] \<or> is_space_char c))"

definition NOISE_RE :: regex where
  "NOISE_RE = Any_Of
     [Seqs [Bol, Spaces, Opt (Words [91]), Words [53945, 48372], Opt (Words [93]), Spaces],
      Seqs [Words [51228], Spaces, Digits, One_Of (map utf8_point [45, 8208, 8209, 8211]), Digits, Words [54840], Spaces,
        Opt COLON, Spaces],
      Seqs [Digit, Digit, Digit, Digit, DATE_MARK, One_Or_Two Digit, DATE_MARK, One_Or_Two Digit, DATE_GAP, One_Or_Two Digit,
        Opt (Words [58]), Up_To_Two Digit],
      Seqs [Words [40], Star (Chr (\<lambda>c. c \<noteq> '')'')), Words [41]]]"

subsection \<open>Reading an event\<close>

definition ALERT_MAX_AGE :: instant where "ALERT_MAX_AGE = days 3"

definition payload_value :: "weather_value \<Rightarrow> text_bytes list \<Rightarrow> json option" where
  "payload_value v names =
     find (\<lambda>w. w \<noteq> JNull \<and> w \<noteq> JStr []) (List.map_filter (jget (wv_payload v)) names)"

definition truthy :: "json \<Rightarrow> bool" where
  "truthy v =
     (case v of JNull \<Rightarrow> False | JBool b \<Rightarrow> b | JInt i \<Rightarrow> i \<noteq> 0 | JStr s \<Rightarrow> s \<noteq> [] | JArr xs \<Rightarrow> xs \<noteq> [] | JObj kvs \<Rightarrow> kvs \<noteq> [])"

definition DEFAULT_TITLE :: text_bytes where "DEFAULT_TITLE = text_of [44592, 49345, 53945, 48372]"

definition alert_title :: "weather_value \<Rightarrow> text_bytes" where
  "alert_title v =
     py_strip (case wv_text v of
        Some (c # s) \<Rightarrow> c # s
      | _ \<Rightarrow> (case payload_value v [''title'', ''message'', ''msg''] of
                Some w \<Rightarrow> (if truthy w then py_str (Some w) else DEFAULT_TITLE) | None \<Rightarrow> DEFAULT_TITLE))"

definition alert_station :: "weather_value \<Rightarrow> text_bytes" where
  "alert_station v =
     (case payload_value v [''stn_id'', ''stnId'', ''station_id'', ''stationId''] of
        Some w \<Rightarrow> py_strip (py_str (Some w)) | None \<Rightarrow> ''unknown'')"

definition warning_names :: "text_bytes \<Rightarrow> text_bytes list" where
  "warning_names title =
     (let cleaned = re_before ACTION_RE (re_sub NOISE_RE '' '' title);
          flat = strip_chars (map utf8_point [32, 58, 65306, 45, 42, 95]) (re_sub (Plus (Chr is_space_char)) '' '' cleaned);
          names = filter (\<lambda>n. n \<noteq> []) (map py_strip (re_split SPLIT_RE flat))
      in if names = [] then [''__all__''] else rev (remdups (rev names)))"

definition RELEASE_ACTIONS :: "text_bytes list" where
  "RELEASE_ACTIONS = [''release'', ''released'', ''cancel'', ''cancelled'', ''expired'', text_of [54644, 51228],
     text_of [52712, 49548], text_of [51333, 47308]]"

definition is_release :: "weather_value \<Rightarrow> bool" where
  "is_release v \<longleftrightarrow>
     (case payload_value v [''alert_action'', ''action'', ''status''] of
        Some (JStr s) \<Rightarrow> ascii_lower (py_strip s) \<in> set RELEASE_ACTIONS | _ \<Rightarrow> False)
     \<or> re_search RELEASE_RE (alert_title v)"

definition event_time :: "weather_value \<Rightarrow> instant" where
  "event_time v =
     (case wv_target v of Some t \<Rightarrow> t | None \<Rightarrow>
       (case wv_issued v of Some t \<Rightarrow> t | None \<Rightarrow> (case wv_observed v of Some t \<Rightarrow> t | None \<Rightarrow> wv_collected v)))"

text \<open>\<open>datetime.min\<close> in UTC.\<close>

definition DATETIME_MIN :: instant where "DATETIME_MIN = - days 719162"

definition value_id :: "fact_env \<Rightarrow> weather_value \<Rightarrow> text_bytes" where
  "value_id env v = ''wv_'' @ take 32 (fe_sha256 env (encode (point_json v (wv_target v) (wv_source v))))"

definition known_or_min :: "weather_value \<Rightarrow> instant" where
  "known_or_min v = (case wv_known v of None \<Rightarrow> DATETIME_MIN | Some t \<Rightarrow> t)"

text \<open>The order of the reduction; stored facts always name their source.\<close>

definition newest_key :: "fact_env \<Rightarrow> weather_value \<Rightarrow> instant \<times> instant \<times> text_bytes \<times> text_bytes" where
  "newest_key env v = (event_time v, known_or_min v, case wv_source v of None \<Rightarrow> [] | Some s \<Rightarrow> s, value_id env v)"

definition shown_key :: "fact_env \<Rightarrow> weather_value \<Rightarrow> instant \<times> instant \<times> text_bytes" where
  "shown_key env v = (event_time v, known_or_min v, value_id env v)"

text \<open>\<open>sorted(..., reverse=True)\<close> keeps the order of equal keys.\<close>

definition sort_down :: "('a \<Rightarrow> 'k::linorder) \<Rightarrow> 'a list \<Rightarrow> 'a list" where
  "sort_down k xs = rev (sort_key k (rev xs))"

subsection \<open>The reduction\<close>

definition may_count :: "instant \<Rightarrow> instant option \<Rightarrow> weather_value \<Rightarrow> bool" where
  "may_count now max_age v \<longleftrightarrow>
     \<not> (((case wv_until v of None \<Rightarrow> False | Some u \<Rightarrow> u \<le> now)
         \<or> (case max_age of None \<Rightarrow> False | Some a \<Rightarrow> wv_until v = None \<and> event_time v < now - a))
        \<and> \<not> is_release v)"

type_synonym warning = "text_bytes \<times> text_bytes"

definition warnings_of :: "weather_value \<Rightarrow> warning list" where
  "warnings_of v = map (Pair (alert_station v)) (warning_names (alert_title v))"

fun decide :: "weather_value \<Rightarrow> warning list \<Rightarrow> (warning \<times> weather_value option) list \<Rightarrow> (warning \<times> weather_value option) list" where
  "decide v [] st = st"
| "decide v (w # ws) st =
     decide v ws (if map_of st w \<noteq> None then st else st @ [(w, if is_release v then None else Some v)])"

fun reduce_alerts :: "weather_value list \<Rightarrow> (warning \<times> weather_value option) list \<Rightarrow> (warning \<times> weather_value option) list" where
  "reduce_alerts [] st = st"
| "reduce_alerts (v # vs) st = reduce_alerts vs (decide v (warnings_of v) st)"

definition active_alert_values :: "fact_env \<Rightarrow> instant \<Rightarrow> instant option \<Rightarrow> weather_value list \<Rightarrow> weather_value list" where
  "active_alert_values env now max_age rows =
     (let prepared = sort_down (newest_key env) (filter (may_count now max_age) rows);
          selected = List.map_filter snd (reduce_alerts prepared []);
          once = upsert_all (value_id env) (\<lambda>old new. new) selected []
      in sort_down (shown_key env) once)"

subsection \<open>The newest event of a warning decides\<close>

text \<open>What the reduction computes: the first event in order that names a warning.\<close>

definition decider :: "weather_value list \<Rightarrow> warning \<Rightarrow> weather_value option" where
  "decider vs w = find (\<lambda>v. w \<in> set (warnings_of v)) vs"

lemma decide_map:
  "map_of (decide v ws st) w = (case map_of st w of Some x \<Rightarrow> Some x
    | None \<Rightarrow> if w \<in> set ws then Some (if is_release v then None else Some v) else None)"
proof (induction ws arbitrary: st)
  case (Cons a ws)
  show ?case
    by (subst decide.simps, subst Cons.IH) (auto simp: map_add_def map_of_append split: option.splits)
qed (simp split: option.split)

lemma reduce_map:
  "map_of (reduce_alerts vs st) w = (case map_of st w of Some x \<Rightarrow> Some x
    | None \<Rightarrow> map_option (\<lambda>v. if is_release v then None else Some v) (decider vs w))"
proof (induction vs arbitrary: st)
  case (Cons v vs)
  show ?case
    by (subst reduce_alerts.simps, subst Cons.IH) (auto simp: decide_map decider_def split: option.splits)
qed (simp add: decider_def split: option.split)

lemma decide_keys: "distinct (map fst st) \<Longrightarrow> distinct (map fst (decide v ws st))"
  by (induction ws arbitrary: st) (auto simp: map_of_eq_None_iff)

lemma reduce_keys: "distinct (map fst st) \<Longrightarrow> distinct (map fst (reduce_alerts vs st))"
  by (induction vs arbitrary: st) (auto simp: decide_keys)

lemma selected_set:
  "v \<in> set (List.map_filter snd (reduce_alerts vs [])) \<longleftrightarrow> (\<exists>w. decider vs w = Some v \<and> \<not> is_release v)"
proof -
  have "v \<in> set (List.map_filter snd (reduce_alerts vs [])) \<longleftrightarrow> (\<exists>w. (w, Some v) \<in> set (reduce_alerts vs []))"
    unfolding map_filter_set by force
  also have "\<dots> \<longleftrightarrow> (\<exists>w. map_of (reduce_alerts vs []) w = Some (Some v))"
    using map_of_eq_Some_iff [OF reduce_keys [of "[]" vs]] by simp
  also have "\<dots> \<longleftrightarrow> (\<exists>w. decider vs w = Some v \<and> \<not> is_release v)"
    by (simp add: reduce_map) (auto split: if_splits)
  finally show ?thesis .
qed


lemma set_sort_down [simp]: "set (sort_down k xs) = set xs"
  by (simp add: sort_down_def)

lemma sort_down_sorted: "sorted (map k (rev (sort_down k xs)))"
  by (simp add: sort_down_def)

lemma find_sorted:
  assumes "sorted (map k (rev xs))" "inj_on k (set xs)"
  shows "find p xs = Some v \<longleftrightarrow> v \<in> set xs \<and> p v \<and> (\<forall>u\<in>set xs. p u \<longrightarrow> k u \<le> k v)"
  using assms
proof (induction xs)
  case (Cons x xs)
  then have ih: "find p xs = Some v \<longleftrightarrow> v \<in> set xs \<and> p v \<and> (\<forall>u\<in>set xs. p u \<longrightarrow> k u \<le> k v)"
    and top: "\<forall>u\<in>set xs. k u \<le> k x"
    by (auto simp: sorted_append)
  show ?case
  proof (cases "p x")
    case True
    have "v = x" if "v \<in> set (x # xs)" "k x \<le> k v"
    proof -
      have "k v = k x" using that top by auto
      with Cons.prems(2) that(1) show ?thesis by (meson inj_onD list.set_intros(1))
    qed
    with True top show ?thesis by auto
  next
    case False
    with ih show ?thesis by auto
  qed
qed simp

lemma upsert_all_same:
  assumes "inj_on key (set xs \<union> set t)" "keyed key t"
  shows "set (upsert_all key (\<lambda>old new. new) xs t) = set xs \<union> set t \<and> keyed key (upsert_all key (\<lambda>old new. new) xs t)"
  using assms
proof (induction xs arbitrary: t)
  case (Cons x xs)
  have put: "set (upsert key (\<lambda>old new. new) x t) = insert x (set t)"
  proof (cases "row_of key (key x) t")
    case None
    then show ?thesis by (simp add: upsert_def)
  next
    case (Some r)
    then have r: "r \<in> set t" "key r = key x" using row_of_SomeD by fast+
    with Cons.prems(1) have "r = x" by (meson UnI1 UnI2 inj_onD list.set_intros(1))
    moreover have "\<forall>u\<in>set t. key u = key x \<longrightarrow> u = x"
      using Cons.prems(1) by (meson UnI1 UnI2 inj_onD list.set_intros(1))
    ultimately show ?thesis using Some r(1) by (auto simp: upsert_def set_update_where)
  qed
  have "keyed key (upsert key (\<lambda>old new. new) x t)" by (rule keyed_upsert [OF _ Cons.prems(2)]) simp
  moreover have "inj_on key (set xs \<union> set (upsert key (\<lambda>old new. new) x t))"
    using Cons.prems(1) unfolding put by (rule inj_on_subset) auto
  ultimately show ?case using Cons.IH put by (simp add: upsert_all_def)
qed (simp add: upsert_all_def)

definition counted :: "instant \<Rightarrow> instant option \<Rightarrow> weather_value list \<Rightarrow> weather_value list" where
  "counted now max_age rows = filter (may_count now max_age) rows"

lemma keys_inj:
  assumes "inj_on (value_id env) (set rows)"
  shows "inj_on (newest_key env) (set rows)" "inj_on (shown_key env) (set rows)"
  using assms by (auto simp: inj_on_def newest_key_def shown_key_def)

lemma active_alert_set:
  assumes "inj_on (value_id env) (set rows)"
  shows "v \<in> set (active_alert_values env now max_age rows) \<longleftrightarrow>
      v \<in> set (counted now max_age rows) \<and> \<not> is_release v
      \<and> (\<exists>w\<in>set (warnings_of v). \<forall>u\<in>set (counted now max_age rows). w \<in> set (warnings_of u) \<longrightarrow> newest_key env u \<le> newest_key env v)"
    (is ?shown)
    and "distinct (map (shown_key env) (active_alert_values env now max_age rows))" (is ?dist)
proof -
  define prepared where "prepared = sort_down (newest_key env) (counted now max_age rows)"
  define selected where "selected = List.map_filter snd (reduce_alerts prepared [])"
  define once where "once = upsert_all (value_id env) (\<lambda>old new. new) selected []"
  have active: "active_alert_values env now max_age rows = sort_down (shown_key env) once"
    by (simp add: active_alert_values_def Let_def prepared_def selected_def once_def counted_def)
  have sub: "set (counted now max_age rows) \<subseteq> set rows" by (auto simp: counted_def)
  have inj: "inj_on (newest_key env) (set prepared)"
    using inj_on_subset [OF keys_inj(1) [OF assms] sub] by (simp add: prepared_def)
  have first: "decider prepared w = Some v \<longleftrightarrow> v \<in> set (counted now max_age rows) \<and> w \<in> set (warnings_of v)
      \<and> (\<forall>u\<in>set (counted now max_age rows). w \<in> set (warnings_of u) \<longrightarrow> newest_key env u \<le> newest_key env v)" for w v
    using find_sorted [OF _ inj, of "\<lambda>v. w \<in> set (warnings_of v)" v] sort_down_sorted [of "newest_key env" "counted now max_age rows"]
    by (simp add: decider_def prepared_def)
  have sel: "v \<in> set selected \<longleftrightarrow> v \<in> set (counted now max_age rows) \<and> \<not> is_release v
      \<and> (\<exists>w\<in>set (warnings_of v). \<forall>u\<in>set (counted now max_age rows). w \<in> set (warnings_of u) \<longrightarrow> newest_key env u \<le> newest_key env v)" for v
    unfolding selected_def selected_set first by blast
  then have "set selected \<subseteq> set rows" using sub by blast
  then have ids: "inj_on (value_id env) (set selected \<union> set [])" "inj_on (shown_key env) (set selected)"
    using inj_on_subset [OF assms] inj_on_subset [OF keys_inj(2) [OF assms]] by simp_all
  from upsert_all_same [OF ids(1)] have once: "set once = set selected" "keyed (value_id env) once" by (simp_all add: once_def)
  show ?shown using sel once(1) by (simp add: active)
  have "distinct once" using once(2) unfolding keyed_def distinct_map by (rule conjunct1)
  then have "distinct (sort_down (shown_key env) once)" by (simp add: sort_down_def)
  moreover have "inj_on (shown_key env) (set (sort_down (shown_key env) once))" using ids(2) once(1) by simp
  ultimately show ?dist unfolding active distinct_map ..
qed

text \<open>
  The warnings shown are those whose newest event announces them: an event is shown exactly when it
  counts (neither past its end nor, without an end, older than the limit, unless it lifts
  something), does not lift anything, and is the newest counting event of its station for one of the
  warnings its title names.
\<close>

theorem active_alerts_are_the_latest:
  assumes "inj_on (value_id env) (set rows)"
  shows "v \<in> set (active_alert_values env now max_age rows) \<longleftrightarrow>
    v \<in> set rows \<and> may_count now max_age v \<and> \<not> is_release v
    \<and> (\<exists>w\<in>set (warnings_of v). \<forall>u\<in>set rows. may_count now max_age u \<and> w \<in> set (warnings_of u)
         \<longrightarrow> newest_key env u \<le> newest_key env v)"
  unfolding active_alert_set(1) [OF assms] counted_def by auto

lemma down_unique:
  assumes "set xs = set ys" "distinct (map k xs)" "distinct (map k ys)" "sorted (map k (rev xs))" "sorted (map k (rev ys))"
  shows "xs = ys"
proof -
  have "map k (rev xs) = map k (rev ys)"
    by (rule sorted_distinct_set_unique) (use assms in \<open>simp_all add: rev_map flip: rev_map\<close>)
  moreover have "inj_on k (set (rev xs) \<union> set (rev ys))" using assms(1,2) by (simp add: distinct_map)
  ultimately have "rev xs = rev ys" by (simp only: inj_on_map_eq_map)
  then show ?thesis by simp
qed

text \<open>
  The warnings shown do not depend on the order in which the events are read from the database, nor
  on repetitions: the same events give the same list.
\<close>

theorem active_alerts_ignore_order:
  assumes "inj_on (value_id env) (set rows)" "set rows = set rows'"
  shows "active_alert_values env now max_age rows = active_alert_values env now max_age rows'"
proof (rule down_unique [where k = "shown_key env"])
  have inj: "inj_on (value_id env) (set rows')" using assms by simp
  have "set (counted now max_age rows) = set (counted now max_age rows')" using assms(2) by (simp add: counted_def)
  then show "set (active_alert_values env now max_age rows) = set (active_alert_values env now max_age rows')"
    by (intro set_eqI) (simp only: active_alert_set(1) [OF assms(1)] active_alert_set(1) [OF inj])
  show "distinct (map (shown_key env) (active_alert_values env now max_age rows))"
    "distinct (map (shown_key env) (active_alert_values env now max_age rows'))"
    using active_alert_set(2) [OF assms(1)] active_alert_set(2) [OF inj] by simp_all
qed (simp_all add: active_alert_values_def Let_def sort_down_sorted)

subsection \<open>Two titles\<close>

definition a_value :: "int list \<Rightarrow> instant \<Rightarrow> text_bytes \<Rightarrow> weather_value" where
  "a_value title t source =
     \<lparr>wv_location = ''l'', wv_provider = ''p'', wv_dataset = ''d'', wv_domain = ''a'', wv_style = ''alert'', wv_bucket = None,
      wv_metric = ''m'', wv_metric_name = None, wv_source_metric = None, wv_source_metric_name = None, wv_number = None,
      wv_text = Some (text_of title), wv_unit = None, wv_severity = None, wv_issued = Some t, wv_valid = None, wv_from = None,
      wv_until = None, wv_observed = None, wv_target = None, wv_known = None, wv_version = ''v'', wv_payload = JObj [],
      wv_collected = t, wv_source = Some source\<rparr>"

text \<open>Heavy rain and strong wind are announced together, then the rain warning is lifted.\<close>

definition a_announced :: weather_value where
  "a_announced = a_value [54840, 50864, 51452, 51032, 48372, 183, 44053, 54413, 51452, 51032, 48372, 32, 48156, 54364] 10 ''s1''"
definition a_lifted :: weather_value where
  "a_lifted = a_value [54840, 50864, 51452, 51032, 48372, 32, 54644, 51228] 20 ''s2''"

lemma a_titles:
  "warning_names (alert_title a_announced) = [text_of [54840, 50864, 51452, 51032, 48372], text_of [44053, 54413, 51452, 51032, 48372]]"
  "warning_names (alert_title a_lifted) = [text_of [54840, 50864, 51452, 51032, 48372]]"
  "\<not> is_release a_announced" "is_release a_lifted" "alert_station a_announced = ''unknown''" "alert_station a_lifted = ''unknown''"
  by code_simp+


definition a_env :: fact_env where
  "a_env = \<lparr>fe_head = \<lparr>he_sha256 = rev, he_float = (\<lambda>q. JNull), he_decimal = (\<lambda>s. None), he_iso = (\<lambda>s. None),
     he_kma_time = (\<lambda>d t. None), he_receipt = (\<lambda>j. None), he_loads = (\<lambda>s. None), he_normalize = (\<lambda>d r ls. Inl Value_Error)\<rparr>,
     fe_dump = (\<lambda>v. JNull)\<rparr>"

lemma a_ids: "value_id a_env a_announced \<noteq> value_id a_env a_lifted"
proof -
  have quoted: "quote ''s1'' = [CHR 0x22, CHR ''s'', CHR ''1'', CHR 0x22]" "quote ''s2'' = [CHR 0x22, CHR ''s'', CHR ''2'', CHR 0x22]"
    by code_simp+
  show ?thesis
    by (simp add: value_id_def a_env_def point_json_def json_option_def a_announced_def a_lifted_def a_value_def quoted)
qed

lemma a_inj: "inj_on (value_id a_env) (set [a_announced, a_lifted])"
  using a_ids by (auto simp: inj_on_def)

lemma a_counts: "may_count 30 (Some ALERT_MAX_AGE) a_announced"
  by (simp add: may_count_def event_time_def a_announced_def a_value_def ALERT_MAX_AGE_def)

theorem active_alerts_are_the_latest_witness:
  "a_announced \<in> set (active_alert_values a_env 30 (Some ALERT_MAX_AGE) [a_announced, a_lifted])"
proof -
  have wind: "(''unknown'', text_of [44053, 54413, 51452, 51032, 48372]) \<in> set (warnings_of a_announced)"
    "(''unknown'', text_of [44053, 54413, 51452, 51032, 48372]) \<notin> set (warnings_of a_lifted)"
    by (simp_all add: warnings_of_def a_titles) code_simp
  show ?thesis
    unfolding active_alerts_are_the_latest [OF a_inj]
    using wind a_counts a_titles(3) by auto
qed

theorem active_alerts_ignore_order_witness:
  "active_alert_values a_env 30 (Some ALERT_MAX_AGE) [a_announced, a_lifted]
    = active_alert_values a_env 30 (Some ALERT_MAX_AGE) [a_lifted, a_announced, a_lifted]"
  by (rule active_alerts_ignore_order [OF a_inj]) auto

end
