(* ===== verification/Spec2Isabelle.thy ===== *)
theory Spec2Isabelle
  imports Artifact_Properties Promotion_Properties Artifact_Lifetime Export_Pages Export_Cursor Publisher_Example Status_Probe Daily_Example Fact_Example Source_Selection Health_Example Alert_Example Active_Alerts
begin

text \<open>
  \<^bold>\<open>The data core of kor-travel-weather.\<close>

  The program collects Korean weather data from several providers into a database and publishes it
  to other services as frozen exports.  The development models the parts in which the program keeps
  its own promises (package kortravelweather under src/src, the publisher sensor and the collector
  of announcements under src/packages/kor-travel-weather-dagster): a published set is complete and
  never changes, a fenced writer never publishes, a head never goes back, a file someone can still
  read is never deleted, no candidate and no observation is forgotten, the current value is the
  newest stored, history goes only by its retention, and a page says ok only if its sources are.

  \<^bold>\<open>The flow.\<close>  A run row is started for a provider and dataset (repository.py) and heartbeats until
  it ends.  Its batches of facts are inserted and projected (repository.py), and captured as chunks
  of an attempt with a plan of source scopes (export_receipts.py); the attempt claims an owner epoch
  for each scope, announces chunks, writes each as a content-addressed file and records a receipt,
  closes its sources and its plan (export_lifecycle.py).  A descriptor of what is collected is
  declared and bound to the provider's answer (export_heads.py).  The publisher (export_collector.py,
  export_publisher.py of the dagster package) retires the attempts that can never be published and
  promotes the others, which reconciles and seals the attempt, reads the files back, and swaps the
  head of the namespace.  Readers select what is approved (export_inventory_selection.py), freeze it
  into snapshots, and page through them (export_snapshots.py, export_locations.py); observations of
  published generations are merged into daily summaries (export_daily.py, export_daily_store.py).
  A garbage collector removes files nothing refers to (export_gc.py), under a guard shared by
  readers and writers (export_artifacts.py); facts go by two kinds of retention (retention.py,
  repository.py, partitions.py).  Announcements of warnings take a path of their own
  (alert_events.py, alert_event_store.py, alerts.py).

  \<^bold>\<open>Shared theories.\<close>
  \<^item> Prelude: text as UTF-8 bytes, instants in microseconds, dictionaries, sorted sets, the locales
    step_system and step_invariant for interleaved transactions.
  \<^item> Relational: tables as row lists with upsert, update where and delete where, the locales
    keyed_table (what a lookup finds after an upsert) and keyed_winner (a fold that keeps the best
    per key does not depend on the order).
  \<^item> Canonical_Json: the canonical JSON text the digests are taken of; Calendar: civil dates and
    Korean hours; Py_Text, Py_Regex: text by code points and Python's regular expressions.

  \<^bold>\<open>Runs and the export pipeline.\<close>
  \<^item> Sync_Runs (repository.py): run rows, leases, the reconcilers of interrupted runs, every way a
    run ends; Export_Status (export_status.py, export_status_scopes.py): terminal and fetch clock tables.
  \<^item> Export_Artifacts, Artifact_Guard, Artifact_Properties (export_artifacts.py): numbers, chunks,
    the directory, the guard as a step relation.
  \<^item> Export_Scopes (export_external.py, export_mid.py, export_sdk.py and scope keys): descriptors.
  \<^item> Export_Model: the database as a record of tables; owner fencing.
  \<^item> Export_Receipts, Export_Lifecycle (files of the same names): attempts, chunks, owner epochs,
    plans, reconciliation.
  \<^item> Export_Points, Export_Heads, Export_Inventory, Export_Promotion (export_heads.py,
    export_inventory.py): coverage of a forecast, declaration and binding, approved locations, the
    four transactions of a promotion.
  \<^item> Export_Publisher, Status_Probe, Publisher_Sweep, Publisher_Fresh, Publisher_Tick
    (export_collector.py, export_publisher.py): one candidate, the probe, the pages of pending
    attempts, the fresh phase, a whole tick.
  \<^item> Export_Gc, Artifact_Lifetime (export_gc.py): the collector, and the world in which it runs
    beside the pipeline.
  \<^item> Lifecycle_Invariant, Promotion_Invariant, Promotion_Properties: the transactions as steps of
    one system, its invariants by rule induction, and the properties of publication.

  \<^bold>\<open>Readers.\<close>
  \<^item> Source_Cohorts, Source_Selection (export_external_cohorts.py, export_source_cohorts.py,
    export_inventory_selection.py, export_capacity.py): the rosters of the runs, what may be shown and
    whether it is confirmed, for all locations or for those a reader asks about.
  \<^item> Export_Freeze, Location_Exports (export_snapshots.py, export_locations.py): freezing, reusing,
    falling back, renewing, pruning.
  \<^item> Export_Pages, Export_Cursor, Page_Health (export_snapshots.py): pages, signed cursors, and the
    answer with its status.
  \<^item> Snapshot_System, Snapshot_Properties: the snapshot tables over time, beside the collector.  The
    readers of forecasts and of daily summaries, whose code is not modelled, appear as the rule
    by_other_reader: it assumes that they too insert a fresh id with reference rows that match a
    manifest whose files are those of stored generations.

  \<^bold>\<open>Facts, summaries, announcements.\<close>
  \<^item> Fact_Model, Fact_Ingest, Fact_Publish (models.py, repository.py): a batch from its run checks to
    its projection and its export chunk; publish_and_finish ends the run in the same transaction.
  \<^item> Short_Retention (retention.py), History_Purge (repository.py, partitions.py): the batches that
    delete expired short forecasts, and the nightly purge by days.
  \<^item> Fact_Projection, Fact_Properties: the store over time.  Its state carries marks of what the
    retention has let go so far, which no definition of the program reads; the theorem
    nightly_drop_is_a_run shows that the loop of the nightly purge is a run of this system.
  \<^item> Daily_Summary, Daily_Store (export_daily.py, export_daily_store.py): winners per hour and field,
    summaries, the refresh with its checkpoint.
  \<^item> Alert_Events, Alert_Pages, Alert_Store, Alert_Sync, Active_Alerts (alert_events.py,
    alert_event_store.py, alert_area_mapping.py, alerts.py): identity of an announcement, the
    collection of a feed that may change while it is read, its publication and its run, and the
    projection of the warnings in force.
  \<^item> Export_Example, Publisher_Example, Selection_Example, Health_Example, Daily_Example, Fact_Example,
    Alert_Example: concrete runs, from the empty database to a publication and on to its pages, on
    which the properties are applied.

  \<^bold>\<open>State and errors.\<close>  A table is a list of records, one per row, and a transaction is a function
  from the database to an error or a result and a new database; an error leaves the database as it
  was.  Operations of several transactions are several definitions, and what other transactions do
  between them is an argument.  Python's exceptions are values of the error datatypes.  Calls that
  leave the program (the hash, JSON parsing, float formatting, the orchestrator, the feed, the
  address service, clocks, fresh identifiers) are arguments of the definitions, in records such as
  head_env, page_env, freeze_env, fact_env and daily_env.

  \<^bold>\<open>Groups of lemmas.\<close>  Of the form x_Inr: what a transaction that succeeds has checked and changed.
  Of the form inv_x and grows_x: that a step keeps the invariant and what it may change.  The locale
  step_invariant carries the inductions over runs (of the guard, the pipeline, the run table, the
  fact store, the snapshots, the world with the collector); paged carries the argument that
  following cursors is complete, and is interpreted by the pages of points and of locations;
  keyed_winner is interpreted by the winners of a day and by the newest facts of a batch.

  \<^bold>\<open>Loops.\<close>  Page loops recurse on a decreasing measure (rows beyond the cursor, room in the tick,
  batches left) and are total functions; the loop of the fresh phase, whose end depends on the
  clock, is a partial function and fresh_phase_returns proves that it ends on a moving clock.
  Following cursors takes fuel: one unit more than the points to come is enough, as
  current_pages_are_complete states.

  \<^bold>\<open>Not modelled.\<close>  The normalisers and clients of the providers (providers, python-airkorea-api) are
  the parameter he_normalize, the replays of raw answers and the values of a batch, since what they
  compute is the format of other services.  Row locks are not modelled: transactions are serial, and
  waiting for a lock is a failure of the candidate, a lost race or a deferred step.  Text is compared
  by bytes where the database uses its collation.  Of the partitions, the creation of forward days,
  the floor of the default partition and the operator scripts that swap it are left out, and so are
  the retries of the foreign key validation.  The forecast, mid-term, daily and status readers
  (export_forecasts.py, export_mid_reader.py, export_daily_reader.py, export_status_reader.py) are
  left out but for the rule named above, as are the backfill of daily summaries, the read queries,
  the catalog and credential operations of the repository, sampling, settings, metrics, statement
  timeouts and log messages, the HTTP API but the endpoint of the announcements, and the assets and
  schedules of the orchestrator.
\<close>

end
